(* ===== verification/Rust_Prelude.thy ===== *)
theory Rust_Prelude
  imports Main "HOL-Library.Word"
begin

text \<open>
  Shared vocabulary of the development: the integer types of the Rust sources with their
  checked and saturating operations, the ordered map \<open>BTreeMap\<close> as a sorted association list,
  the interface every stateful component is checked against, and the list lemmas several
  components need.

  An unsigned Rust integer is a \<open>nat\<close> and a signed one an \<open>int\<close>; the width appears in the
  operations (\<open>checked_\<close>, \<open>saturating_\<close>), which is how the sources do all arithmetic that can
  overflow.  A panic is the value \<open>None\<close> of an \<open>option\<close>; an \<open>Err\<close> is \<open>Inl\<close> of a sum.
\<close>

section \<open>Collections of simplification rules\<close>

named_theorems rust_int \<open>definitions of the checked and saturating integer operations\<close>
named_theorems btree_laws \<open>lookup and order laws of the ordered map\<close>

section \<open>Machine integers\<close>

type_synonym address = "160 word"

definition u16_max :: nat where
  "u16_max = 65535"

definition u32_max :: nat where
  "u32_max = 4294967295"

definition u64_max :: nat where
  "u64_max = 18446744073709551615"

definition i64_max :: int where
  "i64_max = 9223372036854775807"

definition i64_min :: int where
  "i64_min = - 9223372036854775808"

definition in_i64 :: "int \<Rightarrow> bool" where
  "in_i64 x \<longleftrightarrow> i64_min \<le> x \<and> x \<le> i64_max"

definition checked_add_u64 :: "nat \<Rightarrow> nat \<Rightarrow> nat option" where
  [rust_int]: "checked_add_u64 a b = (if a + b \<le> u64_max then Some (a + b) else None)"

definition checked_sub_u64 :: "nat \<Rightarrow> nat \<Rightarrow> nat option" where
  [rust_int]: "checked_sub_u64 a b = (if b \<le> a then Some (a - b) else None)"

definition checked_mul_u64 :: "nat \<Rightarrow> nat \<Rightarrow> nat option" where
  [rust_int]: "checked_mul_u64 a b = (if a * b \<le> u64_max then Some (a * b) else None)"

definition saturating_add_u64 :: "nat \<Rightarrow> nat \<Rightarrow> nat" where
  [rust_int]: "saturating_add_u64 a b = min (a + b) u64_max"

definition saturating_sub_u64 :: "nat \<Rightarrow> nat \<Rightarrow> nat" where
  [rust_int]: "saturating_sub_u64 a b = a - b"

definition saturating_mul_u64 :: "nat \<Rightarrow> nat \<Rightarrow> nat" where
  [rust_int]: "saturating_mul_u64 a b = min (a * b) u64_max"

definition checked_add_i64 :: "int \<Rightarrow> int \<Rightarrow> int option" where
  [rust_int]: "checked_add_i64 a b = (if in_i64 (a + b) then Some (a + b) else None)"

definition checked_sub_i64 :: "int \<Rightarrow> int \<Rightarrow> int option" where
  [rust_int]: "checked_sub_i64 a b = (if in_i64 (a - b) then Some (a - b) else None)"

definition checked_mul_i64 :: "int \<Rightarrow> int \<Rightarrow> int option" where
  [rust_int]: "checked_mul_i64 a b = (if in_i64 (a * b) then Some (a * b) else None)"

definition clamp_i64 :: "int \<Rightarrow> int" where
  "clamp_i64 x = max i64_min (min i64_max x)"

definition saturating_add_i64 :: "int \<Rightarrow> int \<Rightarrow> int" where
  [rust_int]: "saturating_add_i64 a b = clamp_i64 (a + b)"

definition saturating_sub_i64 :: "int \<Rightarrow> int \<Rightarrow> int" where
  [rust_int]: "saturating_sub_i64 a b = clamp_i64 (a - b)"

text \<open>Casts to \<open>i64\<close> and unchecked arithmetic wrap around.\<close>

definition wrap_i64 :: "int \<Rightarrow> int" where
  "wrap_i64 x = (x + 2 ^ 63) mod 2 ^ 64 - 2 ^ 63"

definition unsigned_abs :: "int \<Rightarrow> nat" where
  "unsigned_abs x = nat \<bar>x\<bar>"

lemma clamp_i64_in_range [simp]: "in_i64 (clamp_i64 x)"
  by (auto simp: in_i64_def clamp_i64_def i64_min_def i64_max_def)

lemma clamp_i64_id [simp]: "in_i64 x \<Longrightarrow> clamp_i64 x = x"
  by (auto simp: in_i64_def clamp_i64_def)

lemma clamp_i64_mono: "x \<le> y \<Longrightarrow> clamp_i64 x \<le> clamp_i64 y"
  by (auto simp: clamp_i64_def)

lemma wrap_i64_id: "in_i64 x \<Longrightarrow> wrap_i64 x = x"
  by (auto simp: wrap_i64_def in_i64_def i64_min_def i64_max_def)

lemma unsigned_abs_le: "in_i64 x \<Longrightarrow> int (unsigned_abs x) \<le> i64_max + 1"
  by (auto simp: in_i64_def unsigned_abs_def i64_min_def i64_max_def)

section \<open>Ordered maps\<close>

text \<open>
  \<open>BTreeMap\<close>: a list of entries in increasing key order.  \<open>map_of\<close> is \<open>get\<close>; iteration is the
  list itself.  A \<open>HashMap\<close> is represented the same way; the modelled code never observes its
  iteration order.
\<close>

type_synonym ('k, 'v) btree = "('k \<times> 'v) list"

fun bt_insert :: "'k::linorder \<Rightarrow> 'v \<Rightarrow> ('k, 'v) btree \<Rightarrow> ('k, 'v) btree" where
  "bt_insert k v [] = [(k, v)]"
| "bt_insert k v (e # m) =
     (if fst e < k then e # bt_insert k v m
      else if k < fst e then (k, v) # e # m
      else (k, v) # m)"

definition bt_remove :: "'k \<Rightarrow> ('k, 'v) btree \<Rightarrow> ('k, 'v) btree" where
  "bt_remove k m = filter (\<lambda>e. fst e \<noteq> k) m"

definition bt_wf :: "('k::linorder, 'v) btree \<Rightarrow> bool" where
  "bt_wf m \<longleftrightarrow> sorted_wrt (<) (map fst m)"

definition bt_first_key :: "('k, 'v) btree \<Rightarrow> 'k option" where
  "bt_first_key m = (case m of [] \<Rightarrow> None | e # _ \<Rightarrow> Some (fst e))"

definition bt_last_key :: "('k, 'v) btree \<Rightarrow> 'k option" where
  "bt_last_key m = (if m = [] then None else Some (fst (last m)))"

definition bt_contains :: "('k, 'v) btree \<Rightarrow> 'k \<Rightarrow> bool" where
  "bt_contains m k \<longleftrightarrow> map_of m k \<noteq> None"

text \<open>A \<open>BTreeSet\<close> is the ordered map into the unit type, kept as the list of its elements.\<close>

type_synonym 'k bset = "'k list"

fun bs_insert :: "'k::linorder \<Rightarrow> 'k bset \<Rightarrow> 'k bset" where
  "bs_insert k [] = [k]"
| "bs_insert k (x # xs) = (if x < k then x # bs_insert k xs else if k < x then k # x # xs else x # xs)"

definition bs_remove :: "'k \<Rightarrow> 'k bset \<Rightarrow> 'k bset" where
  "bs_remove k xs = filter (\<lambda>x. x \<noteq> k) xs"

definition bs_wf :: "'k::linorder bset \<Rightarrow> bool" where
  "bs_wf xs \<longleftrightarrow> sorted_wrt (<) xs"

subsection \<open>Lookup laws\<close>

lemma map_of_bt_insert [simp, btree_laws]:
  "map_of (bt_insert k v m) = (map_of m)(k \<mapsto> v)"
  by (induction m) (auto simp: fun_eq_iff)

lemma map_of_bt_remove [simp, btree_laws]:
  "map_of (bt_remove k m) = (map_of m)(k := None)"
  by (induction m) (auto simp: bt_remove_def fun_eq_iff)

lemma bt_insert_not_Nil [simp]: "bt_insert k v m \<noteq> []"
  by (cases m) auto

lemma keys_bt_insert [simp]: "fst ` set (bt_insert k v m) = insert k (fst ` set m)"
  by (induction m) auto

lemma keys_bt_remove [simp]: "fst ` set (bt_remove k m) = fst ` set m - {k}"
  by (auto simp: bt_remove_def)

lemma bt_contains_iff: "bt_contains m k \<longleftrightarrow> k \<in> fst ` set m"
  by (auto simp: bt_contains_def map_of_eq_None_iff)

lemma bt_insert_twice [simp]: "bt_insert k w (bt_insert k v m) = bt_insert k w m"
  by (induction m) auto

subsection \<open>The order is kept\<close>

lemma bt_wf_Nil [simp]: "bt_wf []"
  by (simp add: bt_wf_def)

lemma bt_wf_Cons: "bt_wf (e # m) \<longleftrightarrow> (\<forall>x \<in> set m. fst e < fst x) \<and> bt_wf m"
  by (auto simp: bt_wf_def)

lemma bt_wf_insert [simp, intro]: "bt_wf m \<Longrightarrow> bt_wf (bt_insert k v m)"
proof (induction m)
  case Nil
  then show ?case by (simp add: bt_wf_def)
next
  case (Cons e m)
  have keys: "\<And>x. x \<in> set (bt_insert k v m) \<Longrightarrow> fst x = k \<or> x \<in> set m"
    by (induction m) (auto split: if_splits)
  from Cons show ?case
    by (auto simp: bt_wf_Cons dest: keys)
qed

lemma bt_wf_remove [simp, intro]: "bt_wf m \<Longrightarrow> bt_wf (bt_remove k m)"
  by (induction m) (auto simp: bt_wf_Cons bt_remove_def)

lemma bt_wf_distinct: "bt_wf m \<Longrightarrow> distinct (map fst m)"
  unfolding bt_wf_def using strict_sorted_iff by blast

lemma bt_wf_map_of: "bt_wf m \<Longrightarrow> e \<in> set m \<longleftrightarrow> map_of m (fst e) = Some (snd e)"
  using map_of_eq_Some_iff [OF bt_wf_distinct] by (metis prod.collapse)

lemma bt_first_key_least:
  assumes "bt_wf m" and "bt_first_key m = Some k"
  shows "k \<in> fst ` set m" and "x \<in> fst ` set m \<Longrightarrow> k \<le> x"
  using assms by (cases m; auto simp: bt_first_key_def bt_wf_Cons)+

lemma bt_first_key_None: "bt_first_key m = None \<longleftrightarrow> m = []"
  by (cases m) (auto simp: bt_first_key_def)

lemma bt_last_key_None: "bt_last_key m = None \<longleftrightarrow> m = []"
  by (auto simp: bt_last_key_def)

lemma bt_last_key_greatest:
  assumes "bt_wf m" and "bt_last_key m = Some k"
  shows "k \<in> fst ` set m" and "x \<in> fst ` set m \<Longrightarrow> x \<le> k"
  using assms
  by (induction m rule: rev_induct; auto simp: bt_last_key_def bt_wf_def sorted_wrt_append)+

lemma bt_wf_filter [simp, intro]: "bt_wf m \<Longrightarrow> bt_wf (filter P m)"
  by (induction m) (auto simp: bt_wf_Cons)

subsection \<open>Sets\<close>

lemma set_bs_insert [simp]: "set (bs_insert k xs) = insert k (set xs)"
  by (induction xs) auto

lemma bs_insert_twice [simp]: "bs_insert k (bs_insert k xs) = bs_insert k xs"
  by (induction xs) auto

lemma set_bs_remove [simp]: "set (bs_remove k xs) = set xs - {k}"
  by (auto simp: bs_remove_def)

lemma bs_wf_insert [simp, intro]: "bs_wf xs \<Longrightarrow> bs_wf (bs_insert k xs)"
  by (induction xs) (auto simp: bs_wf_def)

lemma bs_wf_remove [simp, intro]: "bs_wf xs \<Longrightarrow> bs_wf (bs_remove k xs)"
  by (induction xs) (auto simp: bs_wf_def bs_remove_def)

lemma bs_wf_distinct: "bs_wf xs \<Longrightarrow> distinct xs"
  unfolding bs_wf_def using strict_sorted_iff by blast

subsection \<open>Sums over the entries\<close>

definition bt_sum :: "('v \<Rightarrow> 'n::comm_monoid_add) \<Rightarrow> ('k, 'v) btree \<Rightarrow> 'n" where
  "bt_sum f m = sum_list (map (f \<circ> snd) m)"

lemma bt_sum_Nil [simp]: "bt_sum f [] = 0"
  by (simp add: bt_sum_def)

lemma bt_sum_Cons: "bt_sum f (e # m) = f (snd e) + bt_sum f m"
  by (simp add: bt_sum_def)

definition opt_val :: "('v \<Rightarrow> 'n::comm_monoid_add) \<Rightarrow> 'v option \<Rightarrow> 'n" where
  "opt_val f r = (case r of None \<Rightarrow> 0 | Some v \<Rightarrow> f v)"

lemma opt_val_simps [simp]: "opt_val f None = 0" "opt_val f (Some v) = f v"
  by (simp_all add: opt_val_def)

lemma bt_remove_absent: "k \<notin> fst ` set m \<Longrightarrow> bt_remove k m = m"
  unfolding bt_remove_def by (rule filter_True) force

lemma bt_sum_remove:
  "bt_wf m \<Longrightarrow> bt_sum f (bt_remove k m) + opt_val f (map_of m k) = bt_sum f m"
proof (induction m)
  case Nil
  then show ?case by (simp add: bt_remove_def)
next
  case (Cons e m)
  show ?case
  proof (cases "fst e = k")
    case True
    with Cons.prems have "k \<notin> fst ` set m" by (auto simp: bt_wf_Cons)
    with True show ?thesis
      by (simp add: bt_sum_Cons bt_remove_absent bt_remove_def [of k "e # m"]
          bt_remove_def [of k m, symmetric] add.commute)
  next
    case False
    with Cons show ?thesis
      by (simp add: bt_sum_Cons bt_wf_Cons bt_remove_def add.assoc)
  qed
qed

lemma bt_sum_insert:
  "bt_wf m \<Longrightarrow> bt_sum f (bt_insert k v m) + opt_val f (map_of m k) = bt_sum f m + f v"
proof (induction m)
  case Nil
  then show ?case by (simp add: bt_sum_def)
next
  case (Cons e m)
  have none: "map_of m k = None" if "k \<le> fst e"
    using Cons.prems that by (auto simp: bt_wf_Cons map_of_eq_None_iff)
  from Cons none show ?case
    by (auto simp: bt_sum_Cons bt_wf_Cons add_ac)
qed

lemma bt_sum_update:
  fixes f :: "'v \<Rightarrow> nat"
  assumes "bt_wf m" and "map_of m k = Some w"
  shows "bt_sum f (bt_insert k v m) = bt_sum f m - f w + f v" and "f w \<le> bt_sum f m"
  using bt_sum_insert [OF assms(1), of f k v] bt_sum_remove [OF assms(1), of f k] assms(2)
  by auto

lemma bt_sum_zero: "(\<And>e. e \<in> set m \<Longrightarrow> f (snd e) = 0) \<Longrightarrow> bt_sum f m = 0"
  by (induction m) (auto simp: bt_sum_Cons)

section \<open>Interfaces\<close>

text \<open>
  The contract of an ordered map, as its clients use it: lookups after an insert or a remove, the
  representation invariant, and the total of a weight over the entries.
\<close>

locale weighted_map =
  fixes lookup :: "'m \<Rightarrow> 'k \<Rightarrow> 'v option"
    and insert_entry :: "'k \<Rightarrow> 'v \<Rightarrow> 'm \<Rightarrow> 'm"
    and remove_entry :: "'k \<Rightarrow> 'm \<Rightarrow> 'm"
    and wf_map :: "'m \<Rightarrow> bool"
    and total :: "'m \<Rightarrow> nat"
    and weight :: "'v \<Rightarrow> nat"
  assumes lookup_insert: "lookup (insert_entry k v m) x = (if x = k then Some v else lookup m x)"
    and lookup_remove: "lookup (remove_entry k m) x = (if x = k then None else lookup m x)"
    and wf_insert: "wf_map m \<Longrightarrow> wf_map (insert_entry k v m)"
    and wf_remove: "wf_map m \<Longrightarrow> wf_map (remove_entry k m)"
    and total_insert: "wf_map m \<Longrightarrow>
      total (insert_entry k v m) + opt_val weight (lookup m k) = total m + weight v"
    and total_remove: "wf_map m \<Longrightarrow>
      total (remove_entry k m) + opt_val weight (lookup m k) = total m"
begin

lemma weight_le_total: "wf_map m \<Longrightarrow> lookup m k = Some v \<Longrightarrow> weight v \<le> total m"
  using total_remove [of m k] by simp

lemma total_credit:
  assumes "wf_map m" and "weight v = opt_val weight (lookup m k) + d"
  shows "total (insert_entry k v m) = total m + d"
  using total_insert [OF assms(1), of k v] assms(2) by simp

lemma total_debit:
  assumes "wf_map m" and "lookup m k = Some w" and "weight w = weight v + d"
  shows "total (insert_entry k v m) + d = total m"
  using total_insert [OF assms(1), of k v] assms(2,3) by simp

lemma total_drop:
  assumes "wf_map m" and "lookup m k = Some w"
  shows "total (remove_entry k m) + weight w = total m"
  using total_remove [OF assms(1), of k] assms(2) by simp

end

interpretation bt: weighted_map map_of bt_insert bt_remove bt_wf "bt_sum f" f
  for f :: "'v \<Rightarrow> nat"
  by unfold_locales (auto simp: bt_sum_insert bt_sum_remove)

text \<open>
  A component as a transition system: an invariant that holds at the start and that every step
  keeps holds after every run.
\<close>

locale invariant_system =
  fixes step :: "'s \<Rightarrow> 's \<Rightarrow> bool"
    and invar :: "'s \<Rightarrow> bool"
  assumes step_invar: "step s t \<Longrightarrow> invar s \<Longrightarrow> invar t"
begin

lemma run_invar: "step\<^sup>*\<^sup>* s t \<Longrightarrow> invar s \<Longrightarrow> invar t"
  by (induction rule: rtranclp_induct) (auto intro: step_invar)

end

text \<open>A measure of the state that no step lowers never goes down along a run.\<close>

locale monotone_system = invariant_system +
  fixes level :: "'s \<Rightarrow> 'n::order"
  assumes step_level: "step s t \<Longrightarrow> invar s \<Longrightarrow> level s \<le> level t"
begin

lemma run_level: "step\<^sup>*\<^sup>* s t \<Longrightarrow> invar s \<Longrightarrow> level s \<le> level t"
proof (induction rule: rtranclp_induct)
  case base
  then show ?case by simp
next
  case (step t u)
  then show ?case
    using run_invar [of s t] step_level [of t u] by (blast intro: order_trans)
qed

end

end
