(* ===== verification/Slab.thy ===== *)
theory Slab
  imports Rust_Prelude
begin

text \<open>
  The slab allocator of \<open>l1/slab/slab.rs\<close>: a vector whose vacant slots form a linked free list
  threaded through the vector itself.  The invariant says that the list starting at \<open>next\<close> visits
  every vacant slot exactly once and ends one past the vector, and that \<open>len\<close> counts the occupied
  slots.  The contract it implements, \<open>slot_store\<close>, is the one the order book's own slot vector
  implements as well.
\<close>

section \<open>Data\<close>

datatype 'a slab_entry = Occupied 'a | Vacant nat

record 'a slab =
  sl_entries :: "'a slab_entry list"
  sl_len :: nat
  sl_next :: nat

section \<open>Operations\<close>

definition slab_new :: "'a slab" where
  "slab_new = \<lparr>sl_entries = [], sl_len = 0, sl_next = 0\<rparr>"

definition slab_is_empty :: "'a slab \<Rightarrow> bool" where
  "slab_is_empty s \<longleftrightarrow> sl_len s = 0"

definition slab_contains :: "'a slab \<Rightarrow> nat \<Rightarrow> bool" where
  "slab_contains s key \<longleftrightarrow>
     key < length (sl_entries s) \<and>
     (case sl_entries s ! key of Occupied _ \<Rightarrow> True | Vacant _ \<Rightarrow> False)"

definition slab_get :: "'a slab \<Rightarrow> nat \<Rightarrow> 'a option" where
  "slab_get s key =
     (if key < length (sl_entries s)
      then (case sl_entries s ! key of Occupied v \<Rightarrow> Some v | Vacant _ \<Rightarrow> None)
      else None)"

definition slab_clear :: "'a slab \<Rightarrow> 'a slab" where
  "slab_clear s = \<lparr>sl_entries = [], sl_len = 0, sl_next = 0\<rparr>"

text \<open>\<open>insert_at\<close> panics (\<open>None\<close>) when the slot exists and is occupied, or is past the end.\<close>

definition slab_insert_at :: "'a slab \<Rightarrow> nat \<Rightarrow> 'a \<Rightarrow> 'a slab option" where
  "slab_insert_at s key v =
     (let len' = saturating_add_u64 (sl_len s) 1 in
      if key = length (sl_entries s)
      then Some \<lparr>sl_entries = sl_entries s @ [Occupied v], sl_len = len', sl_next = key + 1\<rparr>
      else if key < length (sl_entries s)
      then (case sl_entries s ! key of
              Vacant nxt \<Rightarrow>
                Some \<lparr>sl_entries = (sl_entries s)[key := Occupied v], sl_len = len', sl_next = nxt\<rparr>
            | Occupied _ \<Rightarrow> None)
      else None)"

definition slab_insert :: "'a slab \<Rightarrow> 'a \<Rightarrow> ('a slab \<times> nat) option" where
  "slab_insert s v =
     (case slab_insert_at s (sl_next s) v of
        None \<Rightarrow> None
      | Some s' \<Rightarrow> Some (s', sl_next s))"

definition slab_try_remove :: "'a slab \<Rightarrow> nat \<Rightarrow> 'a slab \<times> 'a option" where
  "slab_try_remove s key =
     (case slab_get s key of
        None \<Rightarrow> (s, None)
      | Some v \<Rightarrow>
          (\<lparr>sl_entries = (sl_entries s)[key := Vacant (sl_next s)],
            sl_len = saturating_sub_u64 (sl_len s) 1, sl_next = key\<rparr>, Some v))"

definition slab_remove :: "'a slab \<Rightarrow> nat \<Rightarrow> ('a slab \<times> 'a) option" where
  "slab_remove s key =
     (case slab_try_remove s key of
        (s', Some v) \<Rightarrow> Some (s', v)
      | (_, None) \<Rightarrow> None)"

definition slab_iter :: "'a slab \<Rightarrow> (nat \<times> 'a) list" where
  "slab_iter s =
     List.map_filter
       (\<lambda>(key, e). case e of Occupied v \<Rightarrow> Some (key, v) | Vacant _ \<Rightarrow> None)
       (enumerate 0 (sl_entries s))"

text \<open>
  \<open>retain\<close> visits the slots in index order; the closure reads and may change the value, and may
  carry state of its own from one call to the next.
\<close>

definition slab_set :: "'a slab \<Rightarrow> nat \<Rightarrow> 'a \<Rightarrow> 'a slab" where
  "slab_set s key v = s\<lparr>sl_entries := (sl_entries s)[key := Occupied v]\<rparr>"

fun slab_retain_from ::
  "('c \<Rightarrow> nat \<Rightarrow> 'a \<Rightarrow> 'c \<times> bool \<times> 'a) \<Rightarrow> nat list \<Rightarrow> 'c \<Rightarrow> 'a slab \<Rightarrow> 'c \<times> 'a slab" where
  "slab_retain_from keep [] c s = (c, s)"
| "slab_retain_from keep (key # keys) c s =
     (case slab_get s key of
        None \<Rightarrow> slab_retain_from keep keys c s
      | Some v \<Rightarrow>
          (case keep c key v of
             (c', kept, v') \<Rightarrow>
               (let s' = slab_set s key v' in
                slab_retain_from keep keys c' (if kept then s' else fst (slab_try_remove s' key)))))"

definition slab_retain ::
  "('c \<Rightarrow> nat \<Rightarrow> 'a \<Rightarrow> 'c \<times> bool \<times> 'a) \<Rightarrow> 'c \<Rightarrow> 'a slab \<Rightarrow> 'c \<times> 'a slab" where
  "slab_retain keep c s = slab_retain_from keep [0..<length (sl_entries s)] c s"

section \<open>Invariant\<close>

text \<open>\<open>free_chain es n ks\<close>: following the links from \<open>n\<close> visits \<open>ks\<close> and ends past the vector.\<close>

fun free_chain :: "'a slab_entry list \<Rightarrow> nat \<Rightarrow> nat list \<Rightarrow> bool" where
  "free_chain es n [] \<longleftrightarrow> n = length es"
| "free_chain es n (k # ks) \<longleftrightarrow>
     n = k \<and> k < length es \<and>
     (case es ! k of Vacant nxt \<Rightarrow> free_chain es nxt ks | Occupied _ \<Rightarrow> False)"

definition is_vacant :: "'a slab_entry \<Rightarrow> bool" where
  "is_vacant e \<longleftrightarrow> (case e of Vacant _ \<Rightarrow> True | Occupied _ \<Rightarrow> False)"

definition slab_wf :: "'a slab \<Rightarrow> bool" where
  "slab_wf s \<longleftrightarrow>
     (\<exists>ks. free_chain (sl_entries s) (sl_next s) ks \<and> distinct ks \<and>
           set ks = {k. k < length (sl_entries s) \<and> is_vacant (sl_entries s ! k)}) \<and>
     sl_len s = length (filter (Not \<circ> is_vacant) (sl_entries s))"

lemma is_vacant_simps [simp]: "is_vacant (Vacant n)" "\<not> is_vacant (Occupied v)"
  by (simp_all add: is_vacant_def)

lemma free_chain_update:
  "k \<notin> set ks \<Longrightarrow> free_chain (es[k := e]) n ks \<longleftrightarrow> free_chain es n ks"
  by (induction ks arbitrary: n) (auto split: slab_entry.splits)

lemma free_chain_start:
  "free_chain es n ks \<Longrightarrow> n = length es \<and> ks = [] \<or> (\<exists>ks' m. ks = n # ks' \<and> n < length es \<and>
     es ! n = Vacant m \<and> free_chain es m ks')"
  by (cases ks) (auto split: slab_entry.splits)

lemma length_filter_update:
  "k < length xs \<Longrightarrow>
     length (filter P (xs[k := x])) + (if P (xs ! k) then 1 else 0) =
     length (filter P xs) + (if P x then 1 else 0)"
proof (induction xs arbitrary: k)
  case (Cons y ys)
  then show ?case by (cases k) auto
qed simp

lemma vacant_slots_update:
  assumes "k < length es"
  shows "{j. j < length es \<and> is_vacant (es[k := e] ! j)} =
    (if is_vacant e then insert k {j. j < length es \<and> is_vacant (es ! j)}
     else {j. j < length es \<and> is_vacant (es ! j)} - {k})"
  using assms by (auto simp: nth_list_update split: if_splits)

lemma slab_get_Some: "slab_get s k = Some v \<longleftrightarrow> k < length (sl_entries s) \<and> sl_entries s ! k = Occupied v"
  by (auto simp: slab_get_def split: slab_entry.splits)

lemma slab_contains_get: "slab_contains s k \<longleftrightarrow> slab_get s k \<noteq> None"
  by (auto simp: slab_contains_def slab_get_def split: slab_entry.splits)

section \<open>Each operation keeps the invariant\<close>

lemma slab_wf_new [simp]: "slab_wf slab_new"
  by (simp add: slab_wf_def slab_new_def exI [where x = "[]"])

lemma slab_wf_clear: "slab_wf (slab_clear s)"
  using slab_wf_new by (simp add: slab_clear_def slab_new_def)

lemma slab_insert_wf:
  assumes "slab_wf s" and "sl_len s < u64_max" and "slab_insert s v = Some (s', key)"
  shows "slab_wf s'" and "sl_len s' = sl_len s + 1"
proof -
  obtain ks where chain: "free_chain (sl_entries s) (sl_next s) ks" and dist: "distinct ks"
    and vac: "set ks = {k. k < length (sl_entries s) \<and> is_vacant (sl_entries s ! k)}"
    and len: "sl_len s = length (filter (Not \<circ> is_vacant) (sl_entries s))"
    using assms(1) unfolding slab_wf_def by blast
  have len': "saturating_add_u64 (sl_len s) 1 = sl_len s + 1"
    using assms(2) by (simp add: rust_int)
  have "slab_wf s' \<and> sl_len s' = sl_len s + 1"
    using free_chain_start [OF chain]
  proof (elim disjE)
    assume 1: "sl_next s = length (sl_entries s) \<and> ks = []"
    then have s': "s' = \<lparr>sl_entries = sl_entries s @ [Occupied v], sl_len = sl_len s + 1,
        sl_next = length (sl_entries s) + 1\<rparr>"
      using assms(3) len' by (auto simp: slab_insert_def slab_insert_at_def Let_def)
    have none: "\<And>k. k < length (sl_entries s) \<Longrightarrow> \<not> is_vacant (sl_entries s ! k)"
      using vac 1 by auto
    then have "slab_wf s'"
      unfolding slab_wf_def s' using len
      by (intro conjI exI [where x = "[]"]) (auto simp: nth_append)
    then show ?thesis by (simp add: s')
  next
    assume "\<exists>ks' m. ks = sl_next s # ks' \<and> sl_next s < length (sl_entries s) \<and>
      sl_entries s ! sl_next s = Vacant m \<and> free_chain (sl_entries s) m ks'"
    then obtain ks' m where ks: "ks = sl_next s # ks'" and lt: "sl_next s < length (sl_entries s)"
      and at: "sl_entries s ! sl_next s = Vacant m" and chain': "free_chain (sl_entries s) m ks'"
      by blast
    have s': "s' = \<lparr>sl_entries = (sl_entries s)[sl_next s := Occupied v],
        sl_len = sl_len s + 1, sl_next = m\<rparr>"
      using assms(3) len' lt at by (auto simp: slab_insert_def slab_insert_at_def Let_def)
    have notin: "sl_next s \<notin> set ks'" using dist ks by simp
    have "set ks' = set ks - {sl_next s}" using ks notin by auto
    then have "set ks' = {k. k < length (sl_entries s) \<and>
        is_vacant ((sl_entries s)[sl_next s := Occupied v] ! k)}"
      unfolding vacant_slots_update [OF lt] by (simp add: vac)
    moreover have "length (filter (Not \<circ> is_vacant) ((sl_entries s)[sl_next s := Occupied v])) = sl_len s + 1"
      using length_filter_update [OF lt, of "Not \<circ> is_vacant" "Occupied v"] at len by simp
    ultimately have "slab_wf s'"
      unfolding slab_wf_def s' using chain' notin dist ks
      by (intro conjI exI [where x = ks']) (simp_all add: free_chain_update)
    then show ?thesis by (simp add: s')
  qed
  then show "slab_wf s'" and "sl_len s' = sl_len s + 1" by simp_all
qed

lemma slab_insert_total:
  assumes "slab_wf s"
  shows "\<exists>s'. slab_insert s v = Some (s', sl_next s) \<and> slab_get s (sl_next s) = None \<and>
    (\<forall>k. slab_get s' k = (if k = sl_next s then Some v else slab_get s k))"
proof -
  obtain ks where "free_chain (sl_entries s) (sl_next s) ks"
    using assms unfolding slab_wf_def by blast
  from free_chain_start [OF this] show ?thesis
    by (auto simp: slab_insert_def slab_insert_at_def slab_get_def Let_def nth_append nth_list_update
        split: slab_entry.splits)
qed

lemma slab_try_remove_live:
  "slab_get s key = Some v \<Longrightarrow> slab_try_remove s key =
     (\<lparr>sl_entries = (sl_entries s)[key := Vacant (sl_next s)], sl_len = sl_len s - 1, sl_next = key\<rparr>,
      Some v)"
  by (simp add: slab_try_remove_def saturating_sub_u64_def)

lemma slab_try_remove_dead: "slab_get s key = None \<Longrightarrow> slab_try_remove s key = (s, None)"
  by (simp add: slab_try_remove_def)

lemma slab_try_remove_wf:
  assumes "slab_wf s"
  shows "slab_wf (fst (slab_try_remove s key))"
proof (cases "slab_get s key")
  case None
  with assms show ?thesis by (simp add: slab_try_remove_dead)
next
  case (Some v)
  then have lt: "key < length (sl_entries s)" and at: "sl_entries s ! key = Occupied v"
    by (simp_all add: slab_get_Some)
  obtain ks where chain: "free_chain (sl_entries s) (sl_next s) ks" and dist: "distinct ks"
    and vac: "set ks = {k. k < length (sl_entries s) \<and> is_vacant (sl_entries s ! k)}"
    and len: "sl_len s = length (filter (Not \<circ> is_vacant) (sl_entries s))"
    using assms unfolding slab_wf_def by blast
  let ?es = "(sl_entries s)[key := Vacant (sl_next s)]"
  have notin: "key \<notin> set ks" using vac at by auto
  have "free_chain ?es key (key # ks)"
    using lt notin chain by (simp add: free_chain_update)
  moreover have "distinct (key # ks)" using notin dist by simp
  moreover have "set (key # ks) = {k. k < length ?es \<and> is_vacant (?es ! k)}"
    using vacant_slots_update [OF lt, of "Vacant (sl_next s)"] vac by simp
  moreover have "sl_len s - 1 = length (filter (Not \<circ> is_vacant) ?es)"
    using length_filter_update [OF lt, of "Not \<circ> is_vacant" "Vacant (sl_next s)"] at len by simp
  ultimately show ?thesis
    unfolding slab_wf_def slab_try_remove_live [OF Some] fst_conv slab.simps by blast
qed

lemma slab_try_remove_get:
  "slab_get (fst (slab_try_remove s key)) k = (if k = key then None else slab_get s k)"
  by (cases "slab_get s key")
    (auto simp: slab_try_remove_dead slab_try_remove_live slab_get_def nth_list_update)

lemma slab_set_wf:
  assumes "slab_wf s" and "slab_get s key = Some v"
  shows "slab_wf (slab_set s key v')"
proof -
  have lt: "key < length (sl_entries s)" and at: "sl_entries s ! key = Occupied v"
    using assms(2) by (simp_all add: slab_get_Some)
  obtain ks where chain: "free_chain (sl_entries s) (sl_next s) ks" and dist: "distinct ks"
    and vac: "set ks = {k. k < length (sl_entries s) \<and> is_vacant (sl_entries s ! k)}"
    and len: "sl_len s = length (filter (Not \<circ> is_vacant) (sl_entries s))"
    using assms(1) unfolding slab_wf_def by blast
  have notin: "key \<notin> set ks" using vac at by auto
  have "set ks = {k. k < length (sl_entries s) \<and>
      is_vacant ((sl_entries s)[key := Occupied v'] ! k)}"
    unfolding vacant_slots_update [OF lt] using at vac by auto
  moreover have "sl_len s = length (filter (Not \<circ> is_vacant) ((sl_entries s)[key := Occupied v']))"
    using length_filter_update [OF lt, of "Not \<circ> is_vacant" "Occupied v'"] at len by simp
  ultimately show ?thesis
    unfolding slab_wf_def slab_set_def using chain dist notin
    by (intro conjI exI [where x = ks]) (simp_all add: free_chain_update)
qed

lemma slab_set_get:
  "slab_get s key = Some v \<Longrightarrow>
     slab_get (slab_set s key v') k = (if k = key then Some v' else slab_get s k)"
  by (auto simp: slab_get_def slab_set_def nth_list_update split: if_splits)

section \<open>The contract of a slot store\<close>

text \<open>
  What users of a slot vector rely on: a handle returned by \<open>alloc\<close> was free, reads back the stored
  value, and no operation on another handle disturbs it.
\<close>

locale slot_store =
  fixes slot :: "'s \<Rightarrow> nat \<Rightarrow> 'a option"
    and alloc :: "'s \<Rightarrow> 'a \<Rightarrow> ('s \<times> nat) option"
    and release :: "'s \<Rightarrow> nat \<Rightarrow> 's"
    and wf_store :: "'s \<Rightarrow> bool"
    and room :: "'s \<Rightarrow> bool"
  assumes alloc_total: "wf_store s \<Longrightarrow> \<exists>s' i. alloc s v = Some (s', i)"
    and alloc_fresh: "wf_store s \<Longrightarrow> alloc s v = Some (s', i) \<Longrightarrow> slot s i = None"
    and alloc_slot: "wf_store s \<Longrightarrow> alloc s v = Some (s', i) \<Longrightarrow>
      slot s' j = (if j = i then Some v else slot s j)"
    and wf_alloc: "wf_store s \<Longrightarrow> room s \<Longrightarrow> alloc s v = Some (s', i) \<Longrightarrow> wf_store s'"
    and release_slot: "wf_store s \<Longrightarrow> slot (release s i) j = (if j = i then None else slot s j)"
    and wf_release: "wf_store s \<Longrightarrow> slot s i = Some v \<Longrightarrow> wf_store (release s i)"
begin

lemma alloc_keeps_handles:
  assumes "wf_store s" and "alloc s v = Some (s', i)" and "slot s j = Some w"
  shows "slot s' j = Some w"
  using assms alloc_fresh [OF assms(1,2)] alloc_slot [OF assms(1,2)] by auto

lemma alloc_live_set:
  assumes "wf_store s" and "alloc s v = Some (s', i)"
  shows "{j. slot s' j \<noteq> None} = insert i {j. slot s j \<noteq> None}"
  using alloc_slot [OF assms] by auto

lemma release_alloc:
  assumes "wf_store s" and "slot s i = Some w" and "alloc (release s i) v = Some (s', j)"
    and "slot s k = Some u" and "k \<noteq> i"
  shows "slot s' k = Some u" and "j \<noteq> k"
proof -
  have wf: "wf_store (release s i)" using assms(1,2) by (rule wf_release)
  have k: "slot (release s i) k = Some u"
    using release_slot [OF assms(1), of i k] assms(4,5) by simp
  then show "slot s' k = Some u" by (rule alloc_keeps_handles [OF wf assms(3)])
  from k alloc_fresh [OF wf assms(3)] show "j \<noteq> k" by auto
qed

end

interpretation slab: slot_store slab_get slab_insert
  "\<lambda>s i. fst (slab_try_remove s i)" slab_wf "\<lambda>s. sl_len s < u64_max"
proof (unfold_locales, goal_cases)
  case (1 s v)
  then show ?case using slab_insert_total [of s v] by blast
next
  case (2 s v s' i)
  then show ?case using slab_insert_total [of s v] by auto
next
  case (3 s v s' i j)
  then show ?case using slab_insert_total [of s v] by auto
next
  case (4 s v s' i)
  then show ?case by (blast intro: slab_insert_wf)
next
  case (5 s i j)
  show ?case by (rule slab_try_remove_get)
next
  case (6 s i v)
  then show ?case by (blast intro: slab_try_remove_wf)
qed

section \<open>Retain\<close>

lemma slab_retain_from_wf:
  "slab_wf s \<Longrightarrow> slab_wf (snd (slab_retain_from keep keys c s))"
proof (induction keep keys c s rule: slab_retain_from.induct)
  case (2 keep key keys c s)
  show ?case
  proof (cases "slab_get s key")
    case None
    with 2 show ?thesis by simp
  next
    case (Some v)
    obtain c' kept v' where k: "keep c key v = (c', kept, v')" by (cases "keep c key v") auto
    have "slab_wf (slab_set s key v')" using 2(3) Some by (rule slab_set_wf)
    then show ?thesis
      using 2(2) [OF Some k [symmetric] refl refl] Some k
      by (auto simp: Let_def slab_try_remove_wf)
  qed
qed simp

lemma slab_retain_from_get:
  assumes "distinct keys"
  shows "slab_get (snd (slab_retain_from (\<lambda>c k v. (c, p k v, f k v)) keys c s)) k =
    (if k \<in> set keys
     then (case slab_get s k of None \<Rightarrow> None | Some v \<Rightarrow> if p k v then Some (f k v) else None)
     else slab_get s k)"
  using assms
proof (induction keys arbitrary: s)
  case (Cons key keys)
  then show ?case
    by (cases "slab_get s key")
      (auto simp: Let_def slab_try_remove_get slab_set_get split: option.splits)
qed simp

section \<open>Properties\<close>

text \<open>Inserting into a well-formed slab never panics: it stores the value under the key
  \<open>next_key\<close> announced, which was free, leaves every other key as it was, counts one more
  occupied slot and keeps the free list intact.\<close>

lemma slab_insert_fresh:
  assumes "slab_wf s" and "sl_len s < u64_max"
  shows "\<exists>s'. slab_insert s v = Some (s', sl_next s) \<and> slab_get s (sl_next s) = None \<and>
    (\<forall>k. slab_get s' k = (if k = sl_next s then Some v else slab_get s k)) \<and>
    sl_len s' = sl_len s + 1 \<and> slab_wf s'"
  using slab_insert_total [OF assms(1), of v] slab_insert_wf [OF assms, of v] by blast

definition slab_example :: "nat slab" where
  "slab_example = \<lparr>sl_entries = [Occupied 5, Vacant 2], sl_len = 1, sl_next = 1\<rparr>"

lemma slab_example_wf: "slab_wf slab_example"
proof -
  have "{k. k < length (sl_entries slab_example) \<and> is_vacant (sl_entries slab_example ! k)} = set [1]"
    by (auto simp: slab_example_def less_Suc_eq)
  moreover have "free_chain (sl_entries slab_example) (sl_next slab_example) [1]"
    by (simp add: slab_example_def)
  moreover have "sl_len slab_example = length (filter (Not \<circ> is_vacant) (sl_entries slab_example))"
    by (simp add: slab_example_def)
  ultimately show ?thesis unfolding slab_wf_def by (intro conjI exI [where x = "[1]"]) simp_all
qed

lemma slab_insert_fresh_witness:
  "\<exists>s'. slab_insert slab_example 9 = Some (s', 1) \<and> slab_get s' 1 = Some 9 \<and> sl_len s' = 2 \<and> slab_wf s'"
proof -
  have "sl_len slab_example < u64_max" by (simp add: slab_example_def u64_max_def)
  from slab_insert_fresh [OF slab_example_wf this, of 9] show ?thesis
    by (auto simp: slab_example_def numeral_2_eq_2)
qed

text \<open>Removing an occupied key returns its value, frees exactly that key, counts one slot
  less, keeps the free list intact, and the very next insert reuses the freed key.\<close>

lemma slab_remove_then_reuse:
  assumes "slab_wf s" and "slab_get s key = Some v"
  shows "snd (slab_try_remove s key) = Some v \<and>
    (\<forall>k. slab_get (fst (slab_try_remove s key)) k = (if k = key then None else slab_get s k)) \<and>
    slab_wf (fst (slab_try_remove s key)) \<and> sl_len (fst (slab_try_remove s key)) = sl_len s - 1 \<and>
    (\<exists>s''. slab_insert (fst (slab_try_remove s key)) w = Some (s'', key))"
proof -
  have wf: "slab_wf (fst (slab_try_remove s key))" using assms(1) by (rule slab_try_remove_wf)
  have next_key: "sl_next (fst (slab_try_remove s key)) = key"
    using assms(2) by (simp add: slab_try_remove_live)
  have "\<exists>s''. slab_insert (fst (slab_try_remove s key)) w = Some (s'', key)"
    using slab_insert_total [OF wf, of w] next_key by auto
  moreover have "snd (slab_try_remove s key) = Some v"
    and "sl_len (fst (slab_try_remove s key)) = sl_len s - 1"
    using assms(2) by (simp_all add: slab_try_remove_live)
  ultimately show ?thesis using wf by (simp add: slab_try_remove_get)
qed

lemma slab_remove_then_reuse_witness:
  "snd (slab_try_remove slab_example 0) = Some 5 \<and> slab_wf (fst (slab_try_remove slab_example 0)) \<and>
   (\<exists>s''. slab_insert (fst (slab_try_remove slab_example 0)) 7 = Some (s'', 0))"
proof -
  have "slab_get slab_example 0 = Some 5" by (simp add: slab_get_def slab_example_def)
  from slab_remove_then_reuse [OF slab_example_wf this, of 7] show ?thesis by blast
qed

text \<open>\<open>retain\<close> with a stateless closure keeps exactly the entries the closure accepts,
  with the values the closure wrote, and leaves a well-formed slab, although it removes entries
  while it walks the vector.\<close>

lemma slab_retain_filters:
  assumes "slab_wf s"
  shows "slab_wf (snd (slab_retain (\<lambda>c k v. (c, p k v, f k v)) c0 s)) \<and>
    slab_get (snd (slab_retain (\<lambda>c k v. (c, p k v, f k v)) c0 s)) k =
      (case slab_get s k of None \<Rightarrow> None | Some v \<Rightarrow> if p k v then Some (f k v) else None)"
proof -
  have "k \<notin> set [0..<length (sl_entries s)] \<Longrightarrow> slab_get s k = None" by (simp add: slab_get_def)
  then show ?thesis
    unfolding slab_retain_def by (simp add: slab_retain_from_wf [OF assms] slab_retain_from_get)
qed

lemma slab_retain_filters_witness:
  "slab_wf (snd (slab_retain (\<lambda>c k v. (c, 9 < v, v + 1)) (0::nat) slab_example)) \<and>
   slab_get (snd (slab_retain (\<lambda>c k v. (c, 9 < v, v + 1)) (0::nat) slab_example)) 0 = None"
  using slab_retain_filters [OF slab_example_wf, of "\<lambda>_ v. 9 < v" "\<lambda>_ v. v + 1" 0 0]
  by (simp add: slab_get_def slab_example_def)

end
