(* ===== verification/Book.thy ===== *)
theory Book
  imports Slab "HOL-Library.Monad_Syntax"
begin

text \<open>
  The resting order book of \<open>l1/book/book/mod.rs\<close>: a slot vector of orders with a free list, an
  index by order id, an index by user, and two ordered maps of price levels whose orders form
  doubly linked queues.  This theory holds the data and the operations; \<open>Book_Invariant\<close> relates
  the links to price-time queues and proves the operations correct.

  An order id is a \<open>nat\<close> (\<open>u64\<close>), a price and a size an \<open>int\<close> (\<open>i64\<close>).  The result \<open>None\<close> of an
  operation is a panic (\<open>expect\<close>, an index out of range, or \<open>panic!\<close>).
\<close>

section \<open>Constants\<close>

definition OID_SLOT_MODULUS :: nat where
  "OID_SLOT_MODULUS = 10000"

definition MAX_LIMIT_PX :: int where
  "MAX_LIMIT_PX = 1000000000000000"

definition MAX_NOTIONAL :: int where
  "MAX_NOTIONAL = 0x7ffffffffffffffe"

definition ERR_CLEAN_MATCH_QUEUE :: nat where
  "ERR_CLEAN_MATCH_QUEUE = 0x8000000000000003"

definition ERR_POST_ONLY_CROSSES :: nat where
  "ERR_POST_ONLY_CROSSES = 0x8000000000000006"

definition ERR_IOC_NOT_MARKETABLE :: nat where
  "ERR_IOC_NOT_MARKETABLE = 0x8000000000000008"

definition ERR_DUPLICATE_ORDER :: nat where
  "ERR_DUPLICATE_ORDER = 0x8000000000000017"

section \<open>Data\<close>

datatype side = Bid | Ask

definition from_is_buy :: "bool \<Rightarrow> side" where
  "from_is_buy is_buy = (if is_buy then Bid else Ask)"

fun opposite :: "side \<Rightarrow> side" where
  "opposite Bid = Ask"
| "opposite Ask = Bid"

fun tree_key :: "side \<Rightarrow> int \<Rightarrow> int" where
  "tree_key Bid px = - px"
| "tree_key Ask px = px"

fun px_from_tree_key :: "side \<Rightarrow> int \<Rightarrow> int" where
  "px_from_tree_key Bid key = - key"
| "px_from_tree_key Ask key = key"

record book_level =
  bl_first :: "nat option"
  bl_last :: "nat option"
  bl_total_sz :: int

definition level_empty :: book_level where
  "level_empty = \<lparr>bl_first = None, bl_last = None, bl_total_sz = 0\<rparr>"

record book_order =
  bo_oid :: nat
  bo_user :: address
  bo_side :: side
  bo_limit_px :: int
  bo_resting_sz :: int
  bo_prev :: "nat option"
  bo_next :: "nat option"
  bo_parent :: "nat option"
  bo_peer :: "nat option"
  bo_child_oids :: "nat list"
  bo_reduce_only :: bool
  bo_is_trigger :: bool
  bo_cloid :: "128 word option"

record insert_order_args =
  ia_oid :: nat
  ia_user :: address
  ia_side :: side
  ia_limit_px :: int
  ia_sz :: int
  ia_post_only :: bool
  ia_immediate_or_cancel :: bool
  ia_reduce_only :: bool
  ia_is_trigger :: bool
  ia_parent :: "nat option"
  ia_peer :: "nat option"
  ia_cloid :: "128 word option"

record asset_context =
  ac_asset :: nat
  ac_tick_size :: int
  ac_oracle_px :: int

record insert_context =
  ic_enforce_oid_asset :: bool
  ic_allow_market_rest :: bool

datatype insert_outcome = Rested nat int int | Rejected nat

record removed_order =
  ro_order :: book_order
  ro_became_empty_level :: bool

datatype remove_outcome = Removed removed_order | NotFound

record best_bid_ask =
  bba_bid :: int
  bba_ask :: int

record book =
  bk_orders :: "book_order option list"
  bk_free_indexes :: "nat list"
  bk_order_by_oid :: "(nat, nat) btree"
  bk_user_orders :: "(address, (nat, nat) btree) btree"
  bk_bids :: "(int, book_level) btree"
  bk_asks :: "(int, book_level) btree"
  bk_asset :: nat
  bk_total_resting_sz :: int
  bk_mark_px :: int
  bk_oracle_px :: int

section \<open>Reading the book\<close>

definition book_new :: "nat \<Rightarrow> book" where
  "book_new asset =
     \<lparr>bk_orders = [], bk_free_indexes = [], bk_order_by_oid = [], bk_user_orders = [],
      bk_bids = [], bk_asks = [], bk_asset = asset, bk_total_resting_sz = 0,
      bk_mark_px = 0, bk_oracle_px = 0\<rparr>"

definition set_mark_px :: "int \<Rightarrow> book \<Rightarrow> book" where
  "set_mark_px px b = b\<lparr>bk_mark_px := px\<rparr>"

definition set_oracle_px :: "int \<Rightarrow> book \<Rightarrow> book" where
  "set_oracle_px px b = b\<lparr>bk_oracle_px := px\<rparr>"

fun levels :: "book \<Rightarrow> side \<Rightarrow> (int, book_level) btree" where
  "levels b Bid = bk_bids b"
| "levels b Ask = bk_asks b"

text \<open>Writing through the mutable reference \<open>levels_mut\<close> returns.\<close>

fun levels_mut :: "side \<Rightarrow> (int, book_level) btree \<Rightarrow> book \<Rightarrow> book" where
  "levels_mut Bid lv b = b\<lparr>bk_bids := lv\<rparr>"
| "levels_mut Ask lv b = b\<lparr>bk_asks := lv\<rparr>"

definition get_best_bid_ask :: "book \<Rightarrow> best_bid_ask" where
  "get_best_bid_ask b =
     \<lparr>bba_bid = (case bt_first_key (bk_bids b) of None \<Rightarrow> 0 | Some key \<Rightarrow> px_from_tree_key Bid key),
      bba_ask = (case bt_first_key (bk_asks b) of None \<Rightarrow> 0 | Some key \<Rightarrow> px_from_tree_key Ask key)\<rparr>"

definition index_for_oid :: "book \<Rightarrow> nat \<Rightarrow> nat option" where
  "index_for_oid b oid = map_of (bk_order_by_oid b) oid"

definition order_at :: "book \<Rightarrow> nat \<Rightarrow> book_order option" where
  "order_at b index = (if index < length (bk_orders b) then bk_orders b ! index else None)"

definition order_by_oid :: "book \<Rightarrow> nat \<Rightarrow> book_order option" where
  "order_by_oid b oid = do { index \<leftarrow> index_for_oid b oid; order_at b index }"

definition top_order :: "book \<Rightarrow> side \<Rightarrow> book_order option" where
  "top_order b s =
     (case levels b s of
        [] \<Rightarrow> None
      | (_, level) # _ \<Rightarrow> do { oid \<leftarrow> bl_first level; order_by_oid b oid })"

definition user_index :: "book \<Rightarrow> address \<Rightarrow> nat \<Rightarrow> nat option" where
  "user_index b user oid = do { m \<leftarrow> map_of (bk_user_orders b) user; map_of m oid }"

definition find_order_by_user_oid :: "book \<Rightarrow> address \<Rightarrow> nat \<Rightarrow> book_order option" where
  "find_order_by_user_oid b user oid =
     do { index \<leftarrow> user_index b user oid;
          order \<leftarrow> order_at b index;
          if bo_oid order = oid \<and> bo_user order = user then Some order else None }"

definition set_order_at :: "nat \<Rightarrow> book_order option \<Rightarrow> book \<Rightarrow> book" where
  "set_order_at index slot b = b\<lparr>bk_orders := (bk_orders b)[index := slot]\<rparr>"

text \<open>Writing through the mutable reference \<open>order_by_oid_mut\<close> returns, when it returns one.\<close>

definition order_by_oid_mut :: "nat \<Rightarrow> (book_order \<Rightarrow> book_order) \<Rightarrow> book \<Rightarrow> book" where
  "order_by_oid_mut oid f b =
     (case index_for_oid b oid of
        None \<Rightarrow> b
      | Some index \<Rightarrow>
          (case order_at b index of
             None \<Rightarrow> b
           | Some order \<Rightarrow> set_order_at index (Some (f order)) b))"

section \<open>Admission checks\<close>

definition reject_duplicate :: "book \<Rightarrow> address \<Rightarrow> nat \<Rightarrow> bool" where
  "reject_duplicate b user oid \<longleftrightarrow>
     bt_contains (bk_order_by_oid b) oid \<or> user_index b user oid \<noteq> None"

definition validate_oid_asset :: "book \<Rightarrow> nat \<Rightarrow> asset_context \<Rightarrow> insert_context \<Rightarrow> bool" where
  "validate_oid_asset b oid asset ctx \<longleftrightarrow>
     (if ic_enforce_oid_asset ctx \<and> oid div OID_SLOT_MODULUS \<noteq> ac_asset asset then False
      else if ic_enforce_oid_asset ctx \<and> ac_asset asset \<noteq> bk_asset b then False
      else True)"

definition crosses :: "book \<Rightarrow> side \<Rightarrow> int \<Rightarrow> bool" where
  "crosses b s px \<longleftrightarrow>
     (let bbo = get_best_bid_ask b in
      case s of
        Bid \<Rightarrow> bba_ask bbo \<noteq> 0 \<and> bba_ask bbo \<le> px
      | Ask \<Rightarrow> bba_bid bbo \<noteq> 0 \<and> px \<le> bba_bid bbo)"

definition valid_price :: "int \<Rightarrow> int \<Rightarrow> bool" where
  "valid_price px tick_size \<longleftrightarrow>
     0 < px \<and> px \<le> MAX_LIMIT_PX \<and> 0 < tick_size \<and> px mod tick_size = 0"

definition checked_mul_i128 :: "int \<Rightarrow> int \<Rightarrow> int option" where
  "checked_mul_i128 a b =
     (if - (2 ^ 127) \<le> a * b \<and> a * b < 2 ^ 127 then Some (a * b) else None)"

definition valid_notional :: "int \<Rightarrow> int \<Rightarrow> bool" where
  "valid_notional sz px \<longleftrightarrow>
     (if sz \<le> 0 \<or> px \<le> 0 then False
      else case checked_mul_i128 sz px of
             Some notional \<Rightarrow> notional \<le> MAX_NOTIONAL
           | None \<Rightarrow> False)"

section \<open>Inserting\<close>

definition alloc_order_slot :: "book \<Rightarrow> book_order \<Rightarrow> (book \<times> nat) option" where
  "alloc_order_slot b order =
     (if bk_free_indexes b \<noteq> []
      then (let index = last (bk_free_indexes b);
                b' = b\<lparr>bk_free_indexes := butlast (bk_free_indexes b)\<rparr>
            in if index < length (bk_orders b) then Some (set_order_at index (Some order) b', index)
               else None)
      else Some (b\<lparr>bk_orders := bk_orders b @ [Some order]\<rparr>, length (bk_orders b)))"

definition insert_user_oid :: "address \<Rightarrow> nat \<Rightarrow> nat \<Rightarrow> book \<Rightarrow> book" where
  "insert_user_oid user oid index b =
     b\<lparr>bk_user_orders :=
         bt_insert user
           (bt_insert oid index (case map_of (bk_user_orders b) user of None \<Rightarrow> [] | Some m \<Rightarrow> m))
           (bk_user_orders b)\<rparr>"

definition index_order :: "address \<Rightarrow> nat \<Rightarrow> nat \<Rightarrow> book \<Rightarrow> book" where
  "index_order user oid index b =
     insert_user_oid user oid index
       (b\<lparr>bk_order_by_oid := bt_insert oid index (bk_order_by_oid b)\<rparr>)"

definition link_parent :: "nat option \<Rightarrow> nat \<Rightarrow> book \<Rightarrow> book" where
  "link_parent parent oid b =
     (case parent of
        None \<Rightarrow> b
      | Some parent_oid \<Rightarrow>
          order_by_oid_mut parent_oid
            (\<lambda>p. if oid \<in> set (bo_child_oids p) then p
                 else p\<lparr>bo_child_oids := bo_child_oids p @ [oid]\<rparr>) b)"

definition link_peer :: "nat option \<Rightarrow> nat \<Rightarrow> book \<Rightarrow> book" where
  "link_peer peer oid b =
     (case peer of
        None \<Rightarrow> b
      | Some peer_oid \<Rightarrow> order_by_oid_mut peer_oid (\<lambda>p. p\<lparr>bo_peer := Some oid\<rparr>) b)"

text \<open>The write to the neighbour in the queue; a missing neighbour panics.\<close>

definition link_neighbour :: "nat option \<Rightarrow> (book_order \<Rightarrow> book_order) \<Rightarrow> book \<Rightarrow> book option" where
  "link_neighbour neighbour f b =
     (case neighbour of
        None \<Rightarrow> Some b
      | Some oid \<Rightarrow>
          (if order_by_oid b oid = None then None else Some (order_by_oid_mut oid f b)))"

definition add_to_level :: "side \<Rightarrow> int \<Rightarrow> nat \<Rightarrow> int \<Rightarrow> book \<Rightarrow> book option" where
  "add_to_level s key oid sz b =
     (let level = (case map_of (levels b s) key of None \<Rightarrow> level_empty | Some l \<Rightarrow> l);
          first = (if bl_first level = None then Some oid else bl_first level)
      in do { total \<leftarrow> checked_add_i64 (bl_total_sz level) sz;
              Some (levels_mut s
                (bt_insert key \<lparr>bl_first = first, bl_last = Some oid, bl_total_sz = total\<rparr> (levels b s)) b) })"

definition add_total :: "int \<Rightarrow> book \<Rightarrow> book option" where
  "add_total sz b =
     do { total \<leftarrow> checked_add_i64 (bk_total_resting_sz b) sz;
          Some (b\<lparr>bk_total_resting_sz := total\<rparr>) }"

definition order_of_args :: "insert_order_args \<Rightarrow> nat option \<Rightarrow> book_order" where
  "order_of_args args prev =
     \<lparr>bo_oid = ia_oid args, bo_user = ia_user args, bo_side = ia_side args,
      bo_limit_px = ia_limit_px args, bo_resting_sz = ia_sz args, bo_prev = prev, bo_next = None,
      bo_parent = ia_parent args, bo_peer = ia_peer args, bo_child_oids = [],
      bo_reduce_only = ia_reduce_only args, bo_is_trigger = ia_is_trigger args,
      bo_cloid = ia_cloid args\<rparr>"

definition insert_resting_order :: "insert_order_args \<Rightarrow> book \<Rightarrow> book option" where
  "insert_resting_order args b =
     (let key = tree_key (ia_side args) (ia_limit_px args);
          prev = do { level \<leftarrow> map_of (levels b (ia_side args)) key; bl_last level }
      in do { (b1, index) \<leftarrow> alloc_order_slot b (order_of_args args prev);
              b3 \<leftarrow> Some (index_order (ia_user args) (ia_oid args) index b1);
              b4 \<leftarrow> Some (link_parent (ia_parent args) (ia_oid args) b3);
              b5 \<leftarrow> Some (link_peer (ia_peer args) (ia_oid args) b4);
              b6 \<leftarrow> link_neighbour prev (\<lambda>p. p\<lparr>bo_next := Some (ia_oid args)\<rparr>) b5;
              b7 \<leftarrow> add_to_level (ia_side args) key (ia_oid args) (ia_sz args) b6;
              add_total (ia_sz args) b7 })"

definition insert_order ::
  "insert_order_args \<Rightarrow> asset_context \<Rightarrow> insert_context \<Rightarrow> book \<Rightarrow> (book \<times> insert_outcome) option" where
  "insert_order args asset ctx b =
     (if reject_duplicate b (ia_user args) (ia_oid args)
      then Some (b, Rejected ERR_DUPLICATE_ORDER)
      else if \<not> validate_oid_asset b (ia_oid args) asset ctx
      then Some (b, Rejected ERR_CLEAN_MATCH_QUEUE)
      else if \<not> valid_price (ia_limit_px args) (ac_tick_size asset) \<or> ia_sz args \<le> 0
      then Some (b, Rejected ERR_CLEAN_MATCH_QUEUE)
      else if \<not> valid_notional (ia_sz args) (ia_limit_px args) \<or>
              \<not> valid_notional (ia_sz args) (ac_oracle_px asset)
      then Some (b, Rejected ERR_CLEAN_MATCH_QUEUE)
      else if ia_post_only args \<and> crosses b (ia_side args) (ia_limit_px args)
      then Some (b, Rejected ERR_POST_ONLY_CROSSES)
      else if ia_immediate_or_cancel args \<and> \<not> ic_allow_market_rest ctx \<and>
              \<not> crosses b (ia_side args) (ia_limit_px args)
      then Some (b, Rejected ERR_IOC_NOT_MARKETABLE)
      else do { b' \<leftarrow> insert_resting_order args b;
                Some (b', Rested (ia_oid args) (ia_limit_px args) (ia_sz args)) })"

section \<open>Removing\<close>

definition remove_user_oid :: "address \<Rightarrow> nat \<Rightarrow> book \<Rightarrow> book" where
  "remove_user_oid user oid b =
     (case map_of (bk_user_orders b) user of
        None \<Rightarrow> b
      | Some m \<Rightarrow>
          (let m' = bt_remove oid m in
           b\<lparr>bk_user_orders :=
               (if m' = [] then bt_remove user (bk_user_orders b)
                else bt_insert user m' (bk_user_orders b))\<rparr>))"

definition unindex_order :: "address \<Rightarrow> nat \<Rightarrow> book \<Rightarrow> book" where
  "unindex_order user oid b =
     remove_user_oid user oid (b\<lparr>bk_order_by_oid := bt_remove oid (bk_order_by_oid b)\<rparr>)"

definition unlink_from_level :: "book_order \<Rightarrow> book \<Rightarrow> (book \<times> bool) option" where
  "unlink_from_level order b =
     (let key = tree_key (bo_side order) (bo_limit_px order) in
      do { b1 \<leftarrow> link_neighbour (bo_prev order) (\<lambda>p. p\<lparr>bo_next := bo_next order\<rparr>) b;
           b2 \<leftarrow> link_neighbour (bo_next order) (\<lambda>n. n\<lparr>bo_prev := bo_prev order\<rparr>) b1;
           level \<leftarrow> map_of (levels b2 (bo_side order)) key;
           (let first = (if bl_first level = Some (bo_oid order) then bo_next order else bl_first level);
                last' = (if bl_last level = Some (bo_oid order) then bo_prev order else bl_last level)
            in do { total \<leftarrow> checked_sub_i64 (bl_total_sz level) (bo_resting_sz order);
                    Some (if first = None
                          then (levels_mut (bo_side order) (bt_remove key (levels b2 (bo_side order))) b2, True)
                          else (levels_mut (bo_side order)
                                  (bt_insert key \<lparr>bl_first = first, bl_last = last', bl_total_sz = total\<rparr>
                                     (levels b2 (bo_side order))) b2, False)) }) })"

fun unlink_children :: "nat \<Rightarrow> nat list \<Rightarrow> book \<Rightarrow> book" where
  "unlink_children oid [] b = b"
| "unlink_children oid (child_oid # rest) b =
     unlink_children oid rest
       (order_by_oid_mut child_oid
          (\<lambda>c. if bo_parent c = Some oid then c\<lparr>bo_parent := None\<rparr> else c) b)"

definition unlink_parent :: "nat option \<Rightarrow> nat \<Rightarrow> book \<Rightarrow> book" where
  "unlink_parent parent oid b =
     (case parent of
        None \<Rightarrow> b
      | Some parent_oid \<Rightarrow>
          order_by_oid_mut parent_oid
            (\<lambda>p. p\<lparr>bo_child_oids := filter (\<lambda>c. c \<noteq> oid) (bo_child_oids p)\<rparr>) b)"

definition unlink_peer :: "nat option \<Rightarrow> nat \<Rightarrow> book \<Rightarrow> book" where
  "unlink_peer peer oid b =
     (case peer of
        None \<Rightarrow> b
      | Some peer_oid \<Rightarrow>
          order_by_oid_mut peer_oid
            (\<lambda>p. if bo_peer p = Some oid then p\<lparr>bo_peer := None\<rparr> else p) b)"

definition release_order_slot :: "nat \<Rightarrow> book \<Rightarrow> book" where
  "release_order_slot index b =
     (set_order_at index None b)\<lparr>bk_free_indexes := bk_free_indexes b @ [index]\<rparr>"

definition remove_order_at :: "nat \<Rightarrow> book \<Rightarrow> (book \<times> removed_order) option" where
  "remove_order_at index b =
     do { order \<leftarrow> order_at b index;
          (let b1 = release_order_slot index b;
               b2 = unlink_children (bo_oid order) (bo_child_oids order) b1;
               b3 = unlink_parent (bo_parent order) (bo_oid order) b2;
               b4 = unlink_peer (bo_peer order) (bo_oid order) b3;
               order' = order\<lparr>bo_child_oids := [], bo_parent := None, bo_peer := None\<rparr>
           in do { (b5, became_empty_level) \<leftarrow> unlink_from_level order' b4;
                   (let b7 = unindex_order (bo_user order) (bo_oid order) b5
                    in do { total \<leftarrow> checked_sub_i64 (bk_total_resting_sz b7) (bo_resting_sz order);
                            Some (b7\<lparr>bk_total_resting_sz := total\<rparr>,
                                  \<lparr>ro_order = order', ro_became_empty_level = became_empty_level\<rparr>) }) }) }"

definition remove_order :: "address \<Rightarrow> nat \<Rightarrow> book \<Rightarrow> (book \<times> remove_outcome) option" where
  "remove_order user oid b =
     (case user_index b user oid of
        None \<Rightarrow> Some (b, NotFound)
      | Some index \<Rightarrow>
          (case order_at b index of
             None \<Rightarrow>
               Some ((remove_user_oid user oid b)\<lparr>bk_order_by_oid := bt_remove oid (bk_order_by_oid b)\<rparr>,
                     NotFound)
           | Some order \<Rightarrow>
               (if bo_oid order \<noteq> oid \<or> bo_user order \<noteq> user then Some (b, NotFound)
                else do { (b', removed) \<leftarrow> remove_order_at index b; Some (b', Removed removed) })))"

definition remove_order_by_oid :: "nat \<Rightarrow> book \<Rightarrow> (book \<times> remove_outcome) option" where
  "remove_order_by_oid oid b =
     (case index_for_oid b oid of
        None \<Rightarrow> Some (b, NotFound)
      | Some index \<Rightarrow>
          (case order_at b index of
             None \<Rightarrow> Some (b\<lparr>bk_order_by_oid := bt_remove oid (bk_order_by_oid b)\<rparr>, NotFound)
           | Some order \<Rightarrow> remove_order (bo_user order) oid b))"

definition update_order_sz :: "address \<Rightarrow> nat \<Rightarrow> int \<Rightarrow> book \<Rightarrow> (book \<times> remove_outcome) option" where
  "update_order_sz user oid new_sz b =
     (if new_sz \<le> 0 then remove_order user oid b
      else case user_index b user oid of
             None \<Rightarrow> Some (b, NotFound)
           | Some index \<Rightarrow>
               (case order_at b index of
                  None \<Rightarrow> Some (b, NotFound)
                | Some order \<Rightarrow>
                    (if bo_oid order \<noteq> oid \<or> bo_user order \<noteq> user then Some (b, NotFound)
                     else let s = bo_side order;
                              key = tree_key s (bo_limit_px order);
                              delta = wrap_i64 (new_sz - bo_resting_sz order);
                              b1 = set_order_at index (Some (order\<lparr>bo_resting_sz := new_sz\<rparr>)) b
                          in do { level \<leftarrow> map_of (levels b1 s) key;
                                  total \<leftarrow> checked_add_i64 (bl_total_sz level) delta;
                                  b2 \<leftarrow> Some (levels_mut s
                                    (bt_insert key (level\<lparr>bl_total_sz := total\<rparr>) (levels b1 s)) b1);
                                  b3 \<leftarrow> add_total delta b2;
                                  Some (b3, NotFound) })))"

section \<open>The debug checker\<close>

text \<open>
  \<open>check_debug_invariants\<close> panics at the first violated condition; the model returns whether it
  runs to its end.  The walk along a level stops at a revisited order, so it visits each indexed
  order at most once.
\<close>

lemma order_by_oid_indexed: "order_by_oid b oid = Some order \<Longrightarrow> oid \<in> fst ` set (bk_order_by_oid b)"
  by (auto simp: order_by_oid_def index_for_oid_def bind_eq_Some_conv dest!: map_of_SomeD)
    (metis fst_conv imageI)

function walk_level ::
  "book \<Rightarrow> side \<Rightarrow> int \<Rightarrow> nat list \<Rightarrow> nat option \<Rightarrow> nat option \<Rightarrow> int \<Rightarrow> nat option \<Rightarrow>
   (nat option \<times> int) option" where
  "walk_level b s expected_px visited prev last' level_sz None = Some (last', level_sz)"
| "walk_level b s expected_px visited prev last' level_sz (Some current) =
     (if current \<in> set visited then None
      else case order_by_oid b current of
             None \<Rightarrow> None
           | Some order \<Rightarrow>
               (if bo_side order \<noteq> s \<or> bo_limit_px order \<noteq> expected_px then None
                else if bo_prev order \<noteq> prev then None
                else case checked_add_i64 level_sz (bo_resting_sz order) of
                       None \<Rightarrow> None
                     | Some level_sz' \<Rightarrow>
                         walk_level b s expected_px (current # visited) (Some current) (Some current)
                           level_sz' (bo_next order)))"
  by pat_completeness auto

termination
proof (relation "measure (\<lambda>(b, _, _, visited, _, _, _, _). card (fst ` set (bk_order_by_oid b) - set visited))",
    goal_cases)
  case 1
  show ?case by simp
next
  case (2 b s px visited prev last' level_sz current order level_sz')
  then have "current \<in> fst ` set (bk_order_by_oid b) - set visited"
    using order_by_oid_indexed by auto
  then have "fst ` set (bk_order_by_oid b) - set (current # visited) \<subset>
      fst ` set (bk_order_by_oid b) - set visited" by auto
  then show ?case by (simp add: psubset_card_mono)
qed

definition check_side_invariants :: "book \<Rightarrow> side \<Rightarrow> bool" where
  "check_side_invariants b s \<longleftrightarrow>
     list_all (\<lambda>(key, level).
       case walk_level b s (px_from_tree_key s key) [] None None 0 (bl_first level) of
         None \<Rightarrow> False
       | Some (last', level_sz) \<Rightarrow> bl_last level = last' \<and> level_sz = bl_total_sz level)
     (levels b s)"

definition check_relation_links :: "book \<Rightarrow> book_order \<Rightarrow> bool" where
  "check_relation_links b order \<longleftrightarrow>
     (case bo_parent order of
        None \<Rightarrow> True
      | Some parent_oid \<Rightarrow>
          (case order_by_oid b parent_oid of
             None \<Rightarrow> False
           | Some parent \<Rightarrow> bo_oid order \<in> set (bo_child_oids parent))) \<and>
     (case bo_peer order of
        None \<Rightarrow> True
      | Some peer_oid \<Rightarrow>
          (case order_by_oid b peer_oid of
             None \<Rightarrow> False
           | Some peer \<Rightarrow> bo_peer peer = Some (bo_oid order))) \<and>
     list_all (\<lambda>child_oid.
       case order_by_oid b child_oid of
         None \<Rightarrow> False
       | Some child \<Rightarrow> bo_parent child = Some (bo_oid order)) (bo_child_oids order)"

fun check_slots :: "book \<Rightarrow> nat list \<Rightarrow> int \<Rightarrow> (nat \<times> book_order option) list \<Rightarrow> (nat list \<times> int) option" where
  "check_slots b seen summed [] = Some (seen, summed)"
| "check_slots b seen summed ((index, None) # rest) = check_slots b seen summed rest"
| "check_slots b seen summed ((index, Some order) # rest) =
     (if bo_oid order \<in> set seen then None
      else if map_of (bk_order_by_oid b) (bo_oid order) \<noteq> Some index then None
      else if user_index b (bo_user order) (bo_oid order) \<noteq> Some index then None
      else if bo_resting_sz order \<le> 0 then None
      else case checked_add_i64 summed (bo_resting_sz order) of
             None \<Rightarrow> None
           | Some summed' \<Rightarrow>
               (if check_relation_links b order
                then check_slots b (bo_oid order # seen) summed' rest else None))"

definition check_debug_invariants :: "book \<Rightarrow> bool" where
  "check_debug_invariants b \<longleftrightarrow>
     (let bbo = get_best_bid_ask b in
      \<not> (bba_bid bbo \<noteq> 0 \<and> bba_ask bbo \<noteq> 0 \<and> bba_ask bbo - 1 < bba_bid bbo) \<and>
      (case check_slots b [] 0 (enumerate 0 (bk_orders b)) of
         None \<Rightarrow> False
       | Some (seen, summed) \<Rightarrow>
           summed = bk_total_resting_sz b \<and> length seen = length (bk_order_by_oid b) \<and>
           check_side_invariants b Bid \<and> check_side_invariants b Ask))"

end
