(* ===== verification/Linked_Queue.thy ===== *)
theory Linked_Queue
  imports Main
begin

text \<open>
  Neighbours in a duplicate-free list, the abstract counterpart of the \<open>prev\<close> and \<open>next\<close> links of
  a doubly linked queue, and how they change when an element is appended or removed.
\<close>

fun succ_in :: "'a list \<Rightarrow> 'a \<Rightarrow> 'a option" where
  "succ_in (x # y # xs) a = (if a = x then Some y else succ_in (y # xs) a)"
| "succ_in _ a = None"

definition pred_in :: "'a list \<Rightarrow> 'a \<Rightarrow> 'a option" where
  "pred_in xs a = succ_in (rev xs) a"

definition first_of :: "'a list \<Rightarrow> 'a option" where
  "first_of xs = (case xs of [] \<Rightarrow> None | x # _ \<Rightarrow> Some x)"

definition last_of :: "'a list \<Rightarrow> 'a option" where
  "last_of xs = first_of (rev xs)"

definition without :: "'a \<Rightarrow> 'a list \<Rightarrow> 'a list" where
  "without a xs = filter (\<lambda>x. x \<noteq> a) xs"

lemma first_of_simps [simp]: "first_of [] = None" "first_of (x # xs) = Some x"
  by (simp_all add: first_of_def)

lemma last_of_simps [simp]: "last_of [] = None" "last_of (xs @ [x]) = Some x"
  by (simp_all add: last_of_def)

lemma first_of_append: "first_of (xs @ ys) = (if xs = [] then first_of ys else first_of xs)"
  by (cases xs) simp_all

lemma last_of_conv: "last_of xs = (if xs = [] then None else Some (last xs))"
  by (cases xs rule: rev_cases) simp_all

lemma first_of_eq_None [simp]: "first_of xs = None \<longleftrightarrow> xs = []"
  by (cases xs) simp_all

lemma last_of_eq_None [simp]: "last_of xs = None \<longleftrightarrow> xs = []"
  by (simp add: last_of_conv)

lemma first_of_in: "first_of xs = Some x \<Longrightarrow> x \<in> set xs"
  by (cases xs) simp_all

lemma last_of_in: "last_of xs = Some x \<Longrightarrow> x \<in> set xs"
  by (auto simp: last_of_conv split: if_splits)

lemma without_simps [simp]:
  "without a [] = []" "without a (x # xs) = (if x = a then without a xs else x # without a xs)"
  by (simp_all add: without_def)

lemma set_without [simp]: "set (without a xs) = set xs - {a}"
  by (auto simp: without_def)

lemma distinct_without [simp]: "distinct xs \<Longrightarrow> distinct (without a xs)"
  by (simp add: without_def)

lemma without_absent: "a \<notin> set xs \<Longrightarrow> without a xs = xs"
  by (induction xs) auto

lemma rev_without: "rev (without a xs) = without a (rev xs)"
  by (simp add: without_def rev_filter)

subsection \<open>Successors\<close>

lemma succ_in_Cons:
  "succ_in (x # xs) a = (if a = x \<and> xs \<noteq> [] then first_of xs else succ_in xs a)"
  by (cases xs) auto

lemma succ_in_absent: "a \<notin> set xs \<Longrightarrow> succ_in xs a = None"
  by (induction xs) (auto simp: succ_in_Cons)

lemma succ_in_in: "succ_in xs a = Some c \<Longrightarrow> a \<in> set xs \<and> c \<in> set xs"
  by (induction xs) (auto simp: succ_in_Cons first_of_in split: if_splits)

lemma succ_in_neq: "distinct xs \<Longrightarrow> succ_in xs a = Some c \<Longrightarrow> c \<noteq> a"
  by (induction xs) (auto simp: succ_in_Cons dest: first_of_in split: if_splits)

lemma succ_in_append:
  "distinct (xs @ ys) \<Longrightarrow> succ_in (xs @ ys) a =
     (if last_of xs = Some a then (if ys = [] then None else first_of ys)
      else if a \<in> set xs then succ_in xs a else succ_in ys a)"
proof (induction xs)
  case (Cons x xs)
  then show ?case
    by (cases xs) (auto simp: succ_in_Cons succ_in_absent last_of_conv split: if_splits)
qed simp

lemma succ_in_last: "distinct xs \<Longrightarrow> last_of xs = Some a \<Longrightarrow> succ_in xs a = None"
  using succ_in_append [of xs "[]" a] by simp

lemma succ_in_snoc:
  "distinct (xs @ [x]) \<Longrightarrow> succ_in (xs @ [x]) a = (if last_of xs = Some a then Some x else succ_in xs a)"
  by (auto simp: succ_in_append succ_in_absent)

lemma succ_in_without:
  assumes "distinct xs" and "y \<noteq> x"
  shows "succ_in (without x xs) y = (if succ_in xs y = Some x then succ_in xs x else succ_in xs y)"
  using assms
proof (induction xs)
  case (Cons z zs)
  show ?case
  proof (cases "z = x")
    case True
    with Cons.prems show ?thesis
      by (auto simp: without_absent succ_in_Cons dest: succ_in_in)
  next
    case False
    note zx = this
    have first: "first_of (without x zs) = (if first_of zs = Some x then succ_in zs x else first_of zs)"
      using Cons.prems by (cases zs) (auto simp: without_absent succ_in_Cons succ_in_absent)
    show ?thesis
    proof (cases "y = z")
      case True
      have "succ_in zs y = None" using True Cons.prems by (simp add: succ_in_absent)
      then show ?thesis
        using zx True Cons.prems first
        by (cases "without x zs = []") (auto simp: succ_in_Cons succ_in_absent)
    next
      case False
      with Cons zx show ?thesis by (simp add: succ_in_Cons)
    qed
  qed
qed simp

lemma first_of_without:
  "distinct xs \<Longrightarrow>
     first_of (without x xs) = (if first_of xs = Some x then succ_in xs x else first_of xs)"
  by (cases xs) (auto simp: without_absent succ_in_Cons succ_in_absent)

subsection \<open>Predecessors\<close>

lemma pred_in_absent: "a \<notin> set xs \<Longrightarrow> pred_in xs a = None"
  by (simp add: pred_in_def succ_in_absent)

lemma pred_in_in: "pred_in xs a = Some c \<Longrightarrow> a \<in> set xs \<and> c \<in> set xs"
  unfolding pred_in_def by (drule succ_in_in) simp

lemma pred_in_neq: "distinct xs \<Longrightarrow> pred_in xs a = Some c \<Longrightarrow> c \<noteq> a"
  unfolding pred_in_def by (rule succ_in_neq) simp_all

lemma pred_in_snoc:
  "distinct (xs @ [x]) \<Longrightarrow> pred_in (xs @ [x]) a = (if a = x then last_of xs else pred_in xs a)"
  by (auto simp: pred_in_def succ_in_Cons last_of_def succ_in_absent)

lemma pred_in_without:
  "distinct xs \<Longrightarrow> y \<noteq> x \<Longrightarrow>
     pred_in (without x xs) y = (if pred_in xs y = Some x then pred_in xs x else pred_in xs y)"
  by (simp add: pred_in_def rev_without succ_in_without)

lemma last_of_without:
  "distinct xs \<Longrightarrow>
     last_of (without x xs) = (if last_of xs = Some x then pred_in xs x else last_of xs)"
  by (simp add: last_of_def pred_in_def rev_without first_of_without)

lemma succ_pred:
  assumes "distinct xs"
  shows "succ_in xs a = Some c \<longleftrightarrow> pred_in xs c = Some a"
  using assms
proof (induction xs rule: rev_induct)
  case (snoc x xs)
  then show ?case
    by (auto simp: succ_in_snoc pred_in_snoc succ_in_absent pred_in_absent
        dest: succ_in_in pred_in_in succ_in_last split: if_splits)
qed (simp add: pred_in_def)

lemma succ_in_pred_None: "distinct xs \<Longrightarrow> a \<in> set xs \<Longrightarrow> pred_in xs a = None \<longleftrightarrow> first_of xs = Some a"
proof (induction xs rule: rev_induct)
  case (snoc x xs)
  then show ?case by (auto simp: pred_in_snoc first_of_append dest: first_of_in)
qed simp

end
