(* ===== verification/Book_Invariant.thy ===== *)
theory Book_Invariant
  imports Book Linked_Queue
begin

text \<open>
  Correctness of the resting book.  The ghost state \<open>Q side px\<close> is the queue of order ids at a
  price, oldest first.  \<open>book_inv b Q\<close> says that the slots, the two indexes, the links between
  orders, the price levels and the size totals of \<open>b\<close> all represent \<open>Q\<close>.  The operations of
  \<open>Book\<close> are then functions on \<open>Q\<close>: inserting appends, removing deletes, resizing changes nothing.
\<close>

section \<open>Queues and links\<close>

record order_node =
  on_user :: address
  on_side :: side
  on_px :: int
  on_sz :: int
  on_prev :: "nat option"
  on_next :: "nat option"

definition node_of :: "book_order \<Rightarrow> order_node" where
  "node_of order =
     \<lparr>on_user = bo_user order, on_side = bo_side order, on_px = bo_limit_px order,
      on_sz = bo_resting_sz order, on_prev = bo_prev order, on_next = bo_next order\<rparr>"

lemma node_of_sel [simp]:
  "on_user (node_of order) = bo_user order" "on_side (node_of order) = bo_side order"
  "on_px (node_of order) = bo_limit_px order" "on_sz (node_of order) = bo_resting_sz order"
  "on_prev (node_of order) = bo_prev order" "on_next (node_of order) = bo_next order"
  by (simp_all add: node_of_def)

type_synonym heap = "nat \<Rightarrow> order_node option"
type_synonym queues = "side \<Rightarrow> int \<Rightarrow> nat list"

definition set_queue :: "side \<Rightarrow> int \<Rightarrow> nat list \<Rightarrow> queues \<Rightarrow> queues" where
  "set_queue s px xs Q = Q(s := (Q s)(px := xs))"

lemma set_queue_apply [simp]:
  "set_queue s px xs Q s' px' = (if s' = s \<and> px' = px then xs else Q s' px')"
  by (simp add: set_queue_def)

definition queue_inv :: "heap \<Rightarrow> queues \<Rightarrow> bool" where
  "queue_inv h Q \<longleftrightarrow>
     (\<forall>s px. distinct (Q s px)) \<and>
     (\<forall>oid n. h oid = Some n \<longrightarrow> oid \<in> set (Q (on_side n) (on_px n)) \<and>
        on_prev n = pred_in (Q (on_side n) (on_px n)) oid \<and>
        on_next n = succ_in (Q (on_side n) (on_px n)) oid) \<and>
     (\<forall>s px oid. oid \<in> set (Q s px) \<longrightarrow> (\<exists>n. h oid = Some n \<and> on_side n = s \<and> on_px n = px))"

definition queue_sz :: "heap \<Rightarrow> nat list \<Rightarrow> int" where
  "queue_sz h xs = sum_list (map (\<lambda>oid. opt_val on_sz (h oid)) xs)"

definition level_inv :: "heap \<Rightarrow> (int, book_level) btree \<Rightarrow> side \<Rightarrow> (int \<Rightarrow> nat list) \<Rightarrow> bool" where
  "level_inv h lv s q \<longleftrightarrow>
     (\<forall>px. map_of lv (tree_key s px) =
        (if q px = [] then None
         else Some \<lparr>bl_first = first_of (q px), bl_last = last_of (q px), bl_total_sz = queue_sz h (q px)\<rparr>))"

lemma tree_key_inj [simp]: "tree_key s px = tree_key s px' \<longleftrightarrow> px = px'"
  by (cases s) auto

lemma tree_key_inverse [simp]: "px_from_tree_key s (tree_key s px) = px" "tree_key s (px_from_tree_key s k) = k"
  by (cases s; simp)+

definition modify :: "nat option \<Rightarrow> (order_node \<Rightarrow> order_node) \<Rightarrow> heap \<Rightarrow> heap" where
  "modify oid f h = (case oid of None \<Rightarrow> h | Some x \<Rightarrow> h(x := map_option f (h x)))"

lemma modify_apply: "modify oid f h x = (if oid = Some x then map_option f (h x) else h x)"
  by (auto simp: modify_def split: option.splits)

lemma queue_invD:
  assumes "queue_inv h Q"
  shows "distinct (Q s px)"
    and "h oid = Some n \<Longrightarrow> oid \<in> set (Q (on_side n) (on_px n))"
    and "h oid = Some n \<Longrightarrow> on_prev n = pred_in (Q (on_side n) (on_px n)) oid"
    and "h oid = Some n \<Longrightarrow> on_next n = succ_in (Q (on_side n) (on_px n)) oid"
    and "oid \<in> set (Q s px) \<Longrightarrow> \<exists>n. h oid = Some n \<and> on_side n = s \<and> on_px n = px"
  using assms unfolding queue_inv_def by blast+

lemma queue_sz_cong:
  "(\<And>oid. oid \<in> set xs \<Longrightarrow> map_option on_sz (h oid) = map_option on_sz (h' oid)) \<Longrightarrow>
     queue_sz h xs = queue_sz h' xs"
  unfolding queue_sz_def
  by (rule arg_cong [where f = sum_list], rule map_cong [OF refl])
    (metis (no_types, lifting) not_None_eq opt_val_def option.map_disc_iff option.map_sel option.sel option.simps(5))

subsection \<open>Appending an order\<close>

lemma queue_inv_append:
  assumes inv: "queue_inv h Q" and fresh: "h oid = None"
    and node: "on_side n = s" "on_px n = px" "on_prev n = last_of (Q s px)" "on_next n = None"
  shows "queue_inv (modify (last_of (Q s px)) (\<lambda>m. m\<lparr>on_next := Some oid\<rparr>) (h(oid \<mapsto> n)))
    (set_queue s px (Q s px @ [oid]) Q)" (is "queue_inv ?h ?Q")
proof -
  have absent: "oid \<notin> set (Q s' px')" for s' px'
    using queue_invD(5) [OF inv] fresh by fastforce
  have dist: "distinct (Q s px @ [oid])" using queue_invD(1) [OF inv] absent by simp
  have links: "oid' \<in> set (?Q (on_side m) (on_px m)) \<and> on_prev m = pred_in (?Q (on_side m) (on_px m)) oid' \<and>
      on_next m = succ_in (?Q (on_side m) (on_px m)) oid'" if m: "?h oid' = Some m" for oid' m
  proof (cases "oid' = oid")
    case True
    have "last_of (Q s px) \<noteq> Some oid" using absent last_of_in by fastforce
    then show ?thesis
      using m True node dist absent by (auto simp: modify_apply pred_in_snoc succ_in_snoc succ_in_absent)
  next
    case False
    then obtain m0 where m0: "h oid' = Some m0"
      and meq: "m = (if last_of (Q s px) = Some oid' then m0\<lparr>on_next := Some oid\<rparr> else m0)"
      using m by (auto simp: modify_apply split: if_splits)
    have lst: "on_side m0 = s \<and> on_px m0 = px" if "last_of (Q s px) = Some oid'"
      using queue_invD(5) [OF inv, of oid' s px] last_of_in [OF that] m0 by simp
    show ?thesis
      using queue_invD(2,3,4) [OF inv m0] lst False dist
      by (auto simp: meq pred_in_snoc succ_in_snoc)
  qed
  have members: "\<exists>m. ?h oid' = Some m \<and> on_side m = s' \<and> on_px m = px'"
    if mem: "oid' \<in> set (?Q s' px')" for s' px' oid'
  proof (cases "oid' = oid")
    case True
    then show ?thesis using mem node absent by (auto simp: modify_apply split: if_splits)
  next
    case False
    then have "oid' \<in> set (Q s' px')" using mem by (auto split: if_splits)
    from queue_invD(5) [OF inv this] show ?thesis
      using False by (auto simp: modify_apply)
  qed
  show ?thesis
    unfolding queue_inv_def using links members dist queue_invD(1) [OF inv] by auto
qed

subsection \<open>Removing an order\<close>

definition unlink_node :: "nat \<Rightarrow> order_node \<Rightarrow> heap \<Rightarrow> heap" where
  "unlink_node oid n h =
     modify (on_next n) (\<lambda>m. m\<lparr>on_prev := on_prev n\<rparr>)
       (modify (on_prev n) (\<lambda>m. m\<lparr>on_next := on_next n\<rparr>) (h(oid := None)))"

lemma queue_inv_remove:
  assumes inv: "queue_inv h Q" and at: "h oid = Some n"
  shows "queue_inv (unlink_node oid n h)
    (set_queue (on_side n) (on_px n) (without oid (Q (on_side n) (on_px n))) Q)" (is "queue_inv ?h ?Q")
proof -
  let ?xs = "Q (on_side n) (on_px n)"
  have dist: "distinct ?xs" using queue_invD(1) [OF inv] .
  have prev: "on_prev n = pred_in ?xs oid" and nxt: "on_next n = succ_in ?xs oid"
    using queue_invD(3,4) [OF inv at] .
  have only: "on_side m = on_side n \<and> on_px m = on_px n" if "oid' \<in> set ?xs" "h oid' = Some m" for oid' m
    using queue_invD(5) [OF inv that(1)] that(2) by auto
  have self: "?h oid = None"
    using pred_in_neq [OF dist, of oid] succ_in_neq [OF dist, of oid] prev nxt
    by (auto simp: unlink_node_def modify_apply)
  have old: "\<exists>m0. h oid' = Some m0 \<and>
      m = (let m1 = (if on_prev n = Some oid' then m0\<lparr>on_next := on_next n\<rparr> else m0)
           in if on_next n = Some oid' then m1\<lparr>on_prev := on_prev n\<rparr> else m1)"
    if "?h oid' = Some m" for oid' m
    using that self by (cases "oid' = oid") (auto simp: unlink_node_def modify_apply split: if_splits)
  have links: "oid' \<in> set (?Q (on_side m) (on_px m)) \<and> on_prev m = pred_in (?Q (on_side m) (on_px m)) oid' \<and>
      on_next m = succ_in (?Q (on_side m) (on_px m)) oid'" if m: "?h oid' = Some m" for oid' m
  proof -
    obtain m0 where m0: "h oid' = Some m0"
      and meq: "m = (let m1 = (if on_prev n = Some oid' then m0\<lparr>on_next := on_next n\<rparr> else m0)
           in if on_next n = Some oid' then m1\<lparr>on_prev := on_prev n\<rparr> else m1)"
      using old [OF m] by blast
    have ne: "oid' \<noteq> oid" using m self by auto
    have same: "on_side m = on_side m0" "on_px m = on_px m0" by (simp_all add: meq Let_def)
    show ?thesis
    proof (cases "on_side m0 = on_side n \<and> on_px m0 = on_px n")
      case True
      have p: "pred_in ?xs oid' = Some oid \<longleftrightarrow> on_next n = Some oid'"
        and q: "succ_in ?xs oid' = Some oid \<longleftrightarrow> on_prev n = Some oid'"
        using succ_pred [OF dist] prev nxt by metis+
      show ?thesis
        using True same ne queue_invD(2,3,4) [OF inv m0] p q prev nxt
        by (auto simp: meq Let_def succ_in_without [OF dist] pred_in_without [OF dist])
    next
      case False
      have "on_prev n \<noteq> Some oid'" and "on_next n \<noteq> Some oid'"
        using False only [OF _ m0] prev nxt pred_in_in [of ?xs oid] succ_in_in [of ?xs oid] by auto
      then show ?thesis using False same queue_invD(2,3,4) [OF inv m0] by (auto simp: meq Let_def)
    qed
  qed
  have members: "\<exists>m. ?h oid' = Some m \<and> on_side m = s' \<and> on_px m = px'"
    if mem: "oid' \<in> set (?Q s' px')" for s' px' oid'
  proof -
    have mem': "oid' \<in> set (Q s' px')" using mem by (auto split: if_splits)
    obtain m0 where m0: "h oid' = Some m0" "on_side m0 = s'" "on_px m0 = px'"
      using queue_invD(5) [OF inv mem'] by blast
    have "oid' \<noteq> oid" using mem at m0 by (auto split: if_splits)
    then show ?thesis using m0 by (auto simp: unlink_node_def modify_apply)
  qed
  show ?thesis
    unfolding queue_inv_def using links members dist queue_invD(1) [OF inv] by auto
qed

subsection \<open>Price levels\<close>

lemma sz_modify:
  "(\<And>m. on_sz (f m) = on_sz m) \<Longrightarrow> map_option on_sz (modify oid f h x) = map_option on_sz (h x)"
  by (cases "h x") (auto simp: modify_apply)

lemma level_inv_cong:
  assumes "level_inv h lv s q"
    and "\<And>px oid. oid \<in> set (q px) \<Longrightarrow> map_option on_sz (h oid) = map_option on_sz (h' oid)"
  shows "level_inv h' lv s q"
proof -
  have "queue_sz h (q px) = queue_sz h' (q px)" for px
    by (rule queue_sz_cong) (rule assms(2))
  with assms(1) show ?thesis by (simp add: level_inv_def)
qed

lemma level_inv_update:
  assumes "level_inv h lv s q"
    and "\<And>px' oid. px' \<noteq> px \<Longrightarrow> oid \<in> set (q px') \<Longrightarrow> map_option on_sz (h oid) = map_option on_sz (h' oid)"
    and "map_of lv' = (map_of lv)(tree_key s px :=
      (if xs = [] then None
       else Some \<lparr>bl_first = first_of xs, bl_last = last_of xs, bl_total_sz = queue_sz h' xs\<rparr>))"
  shows "level_inv h' lv' s (q(px := xs))"
proof -
  have "queue_sz h (q px') = queue_sz h' (q px')" if "px' \<noteq> px" for px'
    by (rule queue_sz_cong) (rule assms(2) [OF that])
  with assms(1,3) show ?thesis by (simp add: level_inv_def)
qed

lemma queue_sz_Nil [simp]: "queue_sz h [] = 0"
  by (simp add: queue_sz_def)

lemma queue_sz_snoc: "queue_sz h (xs @ [oid]) = queue_sz h xs + opt_val on_sz (h oid)"
  by (simp add: queue_sz_def)

lemma queue_sz_without:
  "distinct xs \<Longrightarrow> oid \<in> set xs \<Longrightarrow> queue_sz h (without oid xs) = queue_sz h xs - opt_val on_sz (h oid)"
  by (induction xs) (auto simp: queue_sz_def without_absent)

lemma queue_sz_nonneg: "(\<And>oid n. h oid = Some n \<Longrightarrow> 0 < on_sz n) \<Longrightarrow> 0 \<le> queue_sz h xs"
  unfolding queue_sz_def
  by (rule sum_list_nonneg) (auto simp: opt_val_def less_imp_le split: option.splits)

section \<open>Slots and indexes\<close>

definition slots_inv :: "book \<Rightarrow> bool" where
  "slots_inv b \<longleftrightarrow> distinct (bk_free_indexes b) \<and>
     set (bk_free_indexes b) = {i. i < length (bk_orders b) \<and> bk_orders b ! i = None}"

definition index_inv :: "book \<Rightarrow> bool" where
  "index_inv b \<longleftrightarrow>
     (\<forall>oid i. index_for_oid b oid = Some i \<longleftrightarrow> (\<exists>order. order_at b i = Some order \<and> bo_oid order = oid)) \<and>
     (\<forall>user oid i. user_index b user oid = Some i \<longleftrightarrow>
        (\<exists>order. order_at b i = Some order \<and> bo_oid order = oid \<and> bo_user order = user))"

definition maps_wf :: "book \<Rightarrow> bool" where
  "maps_wf b \<longleftrightarrow> bt_wf (bk_order_by_oid b) \<and> bt_wf (bk_user_orders b) \<and>
     (\<forall>user m. map_of (bk_user_orders b) user = Some m \<longrightarrow> bt_wf m \<and> m \<noteq> []) \<and>
     bt_wf (bk_bids b) \<and> bt_wf (bk_asks b)"

definition store_inv :: "book \<Rightarrow> bool" where
  "store_inv b \<longleftrightarrow> slots_inv b \<and> index_inv b \<and> maps_wf b"

definition live_sz :: "book \<Rightarrow> int" where
  "live_sz b = sum_list (map (opt_val bo_resting_sz) (bk_orders b))"

definition nodes :: "book \<Rightarrow> heap" where
  "nodes b oid = map_option node_of (order_by_oid b oid)"

lemma order_at_set:
  "order_at (set_order_at i slot b) j = (if j = i \<and> i < length (bk_orders b) then slot else order_at b j)"
  by (simp add: order_at_def set_order_at_def nth_list_update)

lemma order_at_less: "order_at b i = Some order \<Longrightarrow> i < length (bk_orders b)"
  by (auto simp: order_at_def split: if_splits)

lemma set_order_at_sel [simp]:
  "bk_free_indexes (set_order_at i slot b) = bk_free_indexes b"
  "bk_order_by_oid (set_order_at i slot b) = bk_order_by_oid b"
  "bk_user_orders (set_order_at i slot b) = bk_user_orders b"
  "bk_bids (set_order_at i slot b) = bk_bids b" "bk_asks (set_order_at i slot b) = bk_asks b"
  "bk_asset (set_order_at i slot b) = bk_asset b"
  "bk_total_resting_sz (set_order_at i slot b) = bk_total_resting_sz b"
  "length (bk_orders (set_order_at i slot b)) = length (bk_orders b)"
  by (simp_all add: set_order_at_def)

lemma index_set_order_at [simp]:
  "index_for_oid (set_order_at i slot b) = index_for_oid b"
  "user_index (set_order_at i slot b) = user_index b"
  by (simp_all add: index_for_oid_def user_index_def fun_eq_iff)

lemma index_inv_live:
  assumes "index_inv b" and "order_at b i = Some order"
  shows "index_for_oid b (bo_oid order) = Some i" and "order_by_oid b (bo_oid order) = Some order"
    and "user_index b (bo_user order) (bo_oid order) = Some i"
proof -
  show i: "index_for_oid b (bo_oid order) = Some i" using assms unfolding index_inv_def by blast
  then show "order_by_oid b (bo_oid order) = Some order" using assms(2) by (simp add: order_by_oid_def)
  show "user_index b (bo_user order) (bo_oid order) = Some i"
    using assms unfolding index_inv_def by blast
qed

lemma index_for_oidD:
  "index_inv b \<Longrightarrow> index_for_oid b oid = Some i \<Longrightarrow> \<exists>order. order_at b i = Some order \<and> bo_oid order = oid"
  by (simp add: index_inv_def)

lemma user_indexD:
  "index_inv b \<Longrightarrow> user_index b user oid = Some i \<Longrightarrow>
     \<exists>order. order_at b i = Some order \<and> bo_oid order = oid \<and> bo_user order = user"
  by (simp add: index_inv_def)

lemma index_invI:
  assumes "\<And>oid i. index_for_oid b oid = Some i \<Longrightarrow> \<exists>order. order_at b i = Some order \<and> bo_oid order = oid"
    and "\<And>user oid i. user_index b user oid = Some i \<Longrightarrow>
      \<exists>order. order_at b i = Some order \<and> bo_oid order = oid \<and> bo_user order = user"
    and "\<And>i order. order_at b i = Some order \<Longrightarrow> index_for_oid b (bo_oid order) = Some i"
    and "\<And>i order. order_at b i = Some order \<Longrightarrow> user_index b (bo_user order) (bo_oid order) = Some i"
  shows "index_inv b"
  unfolding index_inv_def using assms by blast

lemma index_inv_order:
  assumes "index_inv b" and "order_by_oid b oid = Some order"
  obtains i where "index_for_oid b oid = Some i" and "order_at b i = Some order" and "bo_oid order = oid"
  using assms by (auto simp: index_inv_def order_by_oid_def bind_eq_Some_conv)

lemma index_inv_dangling: "index_inv b \<Longrightarrow> order_by_oid b oid = None \<longleftrightarrow> index_for_oid b oid = None"
  unfolding index_inv_def order_by_oid_def by (cases "index_for_oid b oid") force+

lemma order_by_oid_inj:
  "index_inv b \<Longrightarrow> order_by_oid b oid = Some order \<Longrightarrow> bo_oid order = oid"
  by (elim index_inv_order)

text \<open>Writing an order through the id index, with its id and user kept.\<close>

lemma order_by_oid_mut_order:
  assumes "index_inv b" and "\<And>order. bo_oid (f order) = bo_oid order"
  shows "order_by_oid (order_by_oid_mut oid f b) x =
    (if x = oid then map_option f (order_by_oid b x) else order_by_oid b x)"
proof (cases "order_by_oid b oid")
  case None
  then have "order_by_oid_mut oid f b = b"
    by (auto simp: order_by_oid_mut_def order_by_oid_def split: option.splits)
  with None show ?thesis by simp
next
  case (Some order)
  then obtain i where i: "index_for_oid b oid = Some i" "order_at b i = Some order" "bo_oid order = oid"
    using index_inv_order [OF assms(1)] by blast
  have other: "index_for_oid b x \<noteq> Some i" if "x \<noteq> oid"
    using assms(1) i that by (auto simp: index_inv_def)
  show ?thesis
    using i other order_at_less [OF i(2)]
    by (cases "index_for_oid b x") (auto simp: order_by_oid_mut_def order_by_oid_def order_at_set)
qed

lemma order_by_oid_mut_sel [simp]:
  "bk_free_indexes (order_by_oid_mut oid f b) = bk_free_indexes b"
  "bk_order_by_oid (order_by_oid_mut oid f b) = bk_order_by_oid b"
  "bk_user_orders (order_by_oid_mut oid f b) = bk_user_orders b"
  "bk_bids (order_by_oid_mut oid f b) = bk_bids b" "bk_asks (order_by_oid_mut oid f b) = bk_asks b"
  "bk_asset (order_by_oid_mut oid f b) = bk_asset b"
  "bk_total_resting_sz (order_by_oid_mut oid f b) = bk_total_resting_sz b"
  "length (bk_orders (order_by_oid_mut oid f b)) = length (bk_orders b)"
  by (auto simp: order_by_oid_mut_def split: option.splits)

lemma sum_list_update_int:
  fixes f :: "'a \<Rightarrow> int"
  shows "i < length xs \<Longrightarrow> sum_list (map f (xs[i := x])) = sum_list (map f xs) - f (xs ! i) + f x"
proof (induction xs arbitrary: i)
  case (Cons y ys)
  then show ?case by (cases i) auto
qed simp

lemma live_sz_set:
  assumes "i < length (bk_orders b)"
  shows "live_sz (set_order_at i slot b) =
    live_sz b - opt_val bo_resting_sz (order_at b i) + opt_val bo_resting_sz slot"
  using assms by (simp add: live_sz_def set_order_at_def order_at_def sum_list_update_int)

lemma live_sz_mut:
  assumes "\<And>order. bo_resting_sz (f order) = bo_resting_sz order"
  shows "live_sz (order_by_oid_mut oid f b) = live_sz b"
  using assms live_sz_set [OF order_at_less]
  by (auto simp: order_by_oid_mut_def split: option.splits)

lemma store_inv_mut:
  assumes "store_inv b" and f: "\<And>order. bo_oid (f order) = bo_oid order"
    "\<And>order. bo_user (f order) = bo_user order"
  shows "store_inv (order_by_oid_mut oid f b)"
proof -
  consider (same) "order_by_oid_mut oid f b = b"
    | (upd) i order where "order_at b i = Some order"
        "order_by_oid_mut oid f b = set_order_at i (Some (f order)) b"
    unfolding order_by_oid_mut_def
    by (cases "index_for_oid b oid"; cases "order_at b (the (index_for_oid b oid))") auto
  then show ?thesis
  proof cases
    case same
    with assms(1) show ?thesis by simp
  next
    case upd
    have lt: "i < length (bk_orders b)" using upd(1) by (rule order_at_less)
    have at: "bk_orders b ! i = Some order" using upd(1) lt by (simp add: order_at_def)
    have "{j. j < length (bk_orders b) \<and> (bk_orders b)[i := Some (f order)] ! j = None} =
        {j. j < length (bk_orders b) \<and> bk_orders b ! j = None}"
      using lt at by (auto simp: nth_list_update split: if_splits)
    then have "slots_inv (set_order_at i (Some (f order)) b)"
      using assms(1) by (simp add: store_inv_def slots_inv_def set_order_at_def)
    moreover have "index_inv (set_order_at i (Some (f order)) b)"
      using assms(1) upd(1) lt f by (auto simp: store_inv_def index_inv_def order_at_set)
    moreover have "maps_wf (set_order_at i (Some (f order)) b)"
      using assms(1) by (simp add: store_inv_def maps_wf_def)
    ultimately show ?thesis by (simp add: upd(2) store_inv_def)
  qed
qed

lemma nodes_mut:
  assumes "index_inv b" and "\<And>order. bo_oid (f order) = bo_oid order"
    and "\<And>order. node_of (f order) = g (node_of order)"
  shows "nodes (order_by_oid_mut oid f b) = modify (Some oid) g (nodes b)"
  using assms(3)
  by (auto simp: nodes_def fun_eq_iff modify_apply order_by_oid_mut_order [OF assms(1,2)]
      option.map_comp comp_def)

subsection \<open>Allocating and releasing slots\<close>

lemma order_at_cong: "bk_orders b' = bk_orders b \<Longrightarrow> order_at b' = order_at b"
  by (simp add: order_at_def fun_eq_iff)

lemma none_slots_update:
  assumes "i < length xs"
  shows "{j. j < length xs \<and> xs[i := x] ! j = None} =
    (if x = None then insert i {j. j < length xs \<and> xs ! j = None}
     else {j. j < length xs \<and> xs ! j = None} - {i})"
  using assms by (auto simp: nth_list_update split: if_splits)

lemma alloc_order_slot_total:
  assumes "slots_inv b"
  shows "\<exists>i os fs. alloc_order_slot b order = Some (b\<lparr>bk_orders := os, bk_free_indexes := fs\<rparr>, i) \<and>
    order_at b i = None \<and>
    (\<forall>j. order_at (b\<lparr>bk_orders := os, bk_free_indexes := fs\<rparr>) j = (if j = i then Some order else order_at b j)) \<and>
    slots_inv (b\<lparr>bk_orders := os, bk_free_indexes := fs\<rparr>) \<and>
    live_sz (b\<lparr>bk_orders := os, bk_free_indexes := fs\<rparr>) = live_sz b + bo_resting_sz order"
proof (cases "bk_free_indexes b" rule: rev_cases)
  case Nil
  have none: "bk_orders b ! j \<noteq> None" if "j < length (bk_orders b)" for j
    using assms Nil that by (auto simp: slots_inv_def)
  let ?b = "b\<lparr>bk_orders := bk_orders b @ [Some order], bk_free_indexes := []\<rparr>"
  have "alloc_order_slot b order = Some (?b, length (bk_orders b))"
    using Nil by (simp add: alloc_order_slot_def)
  moreover have "slots_inv ?b" using none by (auto simp: slots_inv_def nth_append)
  moreover have "order_at b (length (bk_orders b)) = None" by (simp add: order_at_def)
  moreover have "\<forall>j. order_at ?b j = (if j = length (bk_orders b) then Some order else order_at b j)"
    by (auto simp: order_at_def nth_append)
  moreover have "live_sz ?b = live_sz b + bo_resting_sz order" by (simp add: live_sz_def)
  ultimately show ?thesis by blast
next
  case (snoc fs i)
  then have free: "i < length (bk_orders b)" "bk_orders b ! i = None" "i \<notin> set fs" "distinct fs"
    and vac: "insert i (set fs) = {j. j < length (bk_orders b) \<and> bk_orders b ! j = None}"
    using assms by (auto simp: slots_inv_def)
  let ?b = "b\<lparr>bk_orders := (bk_orders b)[i := Some order], bk_free_indexes := fs\<rparr>"
  have "alloc_order_slot b order = Some (?b, i)"
    using snoc free by (simp add: alloc_order_slot_def set_order_at_def Let_def)
  moreover have "set fs = {j. j < length (bk_orders b) \<and> (bk_orders b)[i := Some order] ! j = None}"
    unfolding none_slots_update [OF free(1)] vac [symmetric] using free(3) by simp
  then have "slots_inv ?b" using free by (simp add: slots_inv_def)
  moreover have "order_at b i = None" using free by (simp add: order_at_def)
  moreover have "\<forall>j. order_at ?b j = (if j = i then Some order else order_at b j)"
    using free by (simp add: order_at_def)
  moreover have "live_sz ?b = live_sz b + bo_resting_sz order"
    using free by (simp add: live_sz_def sum_list_update_int)
  ultimately show ?thesis by blast
qed

lemma slots_inv_release:
  assumes "slots_inv b" and "order_at b i = Some order"
  shows "slots_inv (release_order_slot i b)"
proof -
  have lt: "i < length (bk_orders b)" using assms(2) by (rule order_at_less)
  from assms none_slots_update [OF lt, of None] show ?thesis
    by (auto simp: slots_inv_def release_order_slot_def set_order_at_def order_at_def)
qed

lemma order_at_release: "order_at (release_order_slot i b) j = (if j = i then None else order_at b j)"
  using order_at_set [of i None b j]
  by (auto simp: release_order_slot_def order_at_def set_order_at_def)

text \<open>The book's slot vector meets the contract of a slot store, like the slab does.\<close>

interpretation book_slots: slot_store order_at alloc_order_slot "\<lambda>b i. release_order_slot i b" slots_inv "\<lambda>_. True"
proof (unfold_locales, goal_cases)
  case (1 b order)
  from alloc_order_slot_total [OF 1, of order] show ?case by blast
next
  case (2 b order b' i)
  from alloc_order_slot_total [OF 2(1), of order] 2(2) show ?case by auto
next
  case (3 b order b' i j)
  from alloc_order_slot_total [OF 3(1), of order] 3(2) show ?case by auto
next
  case (4 b order b' i)
  from alloc_order_slot_total [OF 4(1), of order] 4(3) show ?case by auto
next
  case (5 b i j)
  show ?case by (rule order_at_release)
next
  case (6 b i order)
  then show ?case by (rule slots_inv_release)
qed

subsection \<open>Indexing and unindexing an order\<close>

lemma index_order_sel [simp]:
  "bk_orders (index_order user oid i b) = bk_orders b"
  "bk_free_indexes (index_order user oid i b) = bk_free_indexes b"
  "bk_bids (index_order user oid i b) = bk_bids b" "bk_asks (index_order user oid i b) = bk_asks b"
  "bk_total_resting_sz (index_order user oid i b) = bk_total_resting_sz b"
  by (simp_all add: index_order_def insert_user_oid_def)

lemma index_for_oid_index_order [simp]:
  "index_for_oid (index_order user oid i b) x = (if x = oid then Some i else index_for_oid b x)"
  by (simp add: index_order_def insert_user_oid_def index_for_oid_def)

lemma user_index_index_order [simp]:
  "user_index (index_order user oid i b) u x = (if u = user \<and> x = oid then Some i else user_index b u x)"
  by (auto simp: index_order_def insert_user_oid_def user_index_def bind_eq_Some_conv split: option.splits)

lemma maps_wf_index_order: "maps_wf b \<Longrightarrow> maps_wf (index_order user oid i b)"
  by (auto simp: maps_wf_def index_order_def insert_user_oid_def split: option.splits)

lemma store_inv_insert_slot:
  assumes "store_inv b" and "index_for_oid b (bo_oid order) = None"
  obtains b1 i where "alloc_order_slot b order = Some (b1, i)"
    and "store_inv (index_order (bo_user order) (bo_oid order) i b1)"
    and "order_by_oid (index_order (bo_user order) (bo_oid order) i b1) = (order_by_oid b)(bo_oid order \<mapsto> order)"
    and "live_sz (index_order (bo_user order) (bo_oid order) i b1) = live_sz b + bo_resting_sz order"
    and "bk_bids b1 = bk_bids b" and "bk_asks b1 = bk_asks b"
    and "bk_total_resting_sz b1 = bk_total_resting_sz b"
proof -
  have wf: "slots_inv b" "index_inv b" "maps_wf b" using assms(1) by (auto simp: store_inv_def)
  obtain i os fs where al: "alloc_order_slot b order = Some (b\<lparr>bk_orders := os, bk_free_indexes := fs\<rparr>, i)"
    and free: "order_at b i = None"
    and at: "\<And>j. order_at (b\<lparr>bk_orders := os, bk_free_indexes := fs\<rparr>) j = (if j = i then Some order else order_at b j)"
    and slots: "slots_inv (b\<lparr>bk_orders := os, bk_free_indexes := fs\<rparr>)"
    and live: "live_sz (b\<lparr>bk_orders := os, bk_free_indexes := fs\<rparr>) = live_sz b + bo_resting_sz order"
    using alloc_order_slot_total [OF wf(1), of order] by blast
  let ?b1 = "b\<lparr>bk_orders := os, bk_free_indexes := fs\<rparr>"
  let ?b = "index_order (bo_user order) (bo_oid order) i ?b1"
  have idx: "index_for_oid ?b1 = index_for_oid b" "user_index ?b1 = user_index b"
    by (simp_all add: index_for_oid_def user_index_def fun_eq_iff)
  have at': "order_at ?b j = (if j = i then Some order else order_at b j)" for j
    using at by (simp add: order_at_cong [of ?b ?b1])
  have unused: "order_at b j = Some order' \<Longrightarrow> bo_oid order' \<noteq> bo_oid order" for j order'
    using index_inv_live(1) [OF wf(2)] assms(2) by fastforce
  have "index_inv ?b"
    using wf(2) free unused unfolding index_inv_def by (auto simp: at' idx)
  moreover have "slots_inv ?b" using slots by (simp add: slots_inv_def)
  moreover have "maps_wf ?b" using wf(3) by (intro maps_wf_index_order) (simp add: maps_wf_def)
  ultimately have "store_inv ?b" by (simp add: store_inv_def)
  moreover have "order_by_oid ?b = (order_by_oid b)(bo_oid order \<mapsto> order)"
  proof
    fix x
    have "index_for_oid b x \<noteq> Some i" using wf(2) free by (auto simp: index_inv_def)
    then show "order_by_oid ?b x = ((order_by_oid b)(bo_oid order \<mapsto> order)) x"
      by (cases "index_for_oid b x") (auto simp: order_by_oid_def at' idx)
  qed
  moreover have "live_sz ?b = live_sz b + bo_resting_sz order"
    using live by (simp add: live_sz_def)
  ultimately show thesis using al by (intro that [of ?b1 i]) simp_all
qed

section \<open>The invariant of the book\<close>

definition book_inv :: "book \<Rightarrow> queues \<Rightarrow> bool" where
  "book_inv b Q \<longleftrightarrow>
     store_inv b \<and> bk_total_resting_sz b = live_sz b \<and> in_i64 (live_sz b) \<and>
     queue_inv (nodes b) Q \<and> (\<forall>s. level_inv (nodes b) (levels b s) s (Q s)) \<and>
     (\<forall>oid n. nodes b oid = Some n \<longrightarrow> 0 < on_sz n \<and> 0 < on_px n)"

lemma book_invD:
  assumes "book_inv b Q"
  shows "store_inv b" and "index_inv b" and "slots_inv b" and "maps_wf b"
    and "bk_total_resting_sz b = live_sz b" and "in_i64 (live_sz b)"
    and "queue_inv (nodes b) Q" and "level_inv (nodes b) (levels b s) s (Q s)"
    and "nodes b oid = Some n \<Longrightarrow> 0 < on_sz n" and "nodes b oid = Some n \<Longrightarrow> 0 < on_px n"
  using assms by (auto simp: book_inv_def store_inv_def)

lemma book_invI:
  assumes "store_inv b" and "bk_total_resting_sz b = live_sz b" and "in_i64 (live_sz b)"
    and "queue_inv (nodes b) Q" and "\<And>s. level_inv (nodes b) (levels b s) s (Q s)"
    and "\<And>oid n. nodes b oid = Some n \<Longrightarrow> 0 < on_sz n \<and> 0 < on_px n"
  shows "book_inv b Q"
  using assms by (simp add: book_inv_def)

lemma book_inv_new: "book_inv (book_new asset) (\<lambda>_ _. [])"
proof -
  have at: "order_at (book_new asset) i = None" for i by (simp add: order_at_def book_new_def)
  have idx: "index_for_oid (book_new asset) oid = None" "user_index (book_new asset) u oid = None" for oid u
    by (simp_all add: index_for_oid_def user_index_def book_new_def)
  have "nodes (book_new asset) = (\<lambda>_. None)" by (simp add: nodes_def order_by_oid_def idx fun_eq_iff)
  moreover have "levels (book_new asset) s = []" for s by (cases s) (simp_all add: book_new_def)
  moreover have "index_inv (book_new asset)" by (simp add: index_inv_def at idx)
  moreover have "slots_inv (book_new asset)" by (simp add: slots_inv_def book_new_def)
  moreover have "maps_wf (book_new asset)" by (simp add: maps_wf_def book_new_def)
  ultimately show ?thesis
    by (auto simp: book_inv_def store_inv_def queue_inv_def level_inv_def live_sz_def book_new_def
        in_i64_def i64_min_def i64_max_def)
qed

text \<open>The sizes queued at one price never exceed the sizes in the whole book.\<close>

lemma queue_sz_le_live:
  assumes idx: "index_inv b" and pos: "\<And>oid n. nodes b oid = Some n \<Longrightarrow> 0 < on_sz n"
    and "distinct xs"
  shows "queue_sz (nodes b) xs \<le> live_sz b"
proof -
  let ?f = "\<lambda>i. opt_val bo_resting_sz (order_at b i)"
  let ?S = "{oid \<in> set xs. index_for_oid b oid \<noteq> None}"
  let ?g = "\<lambda>oid. the (index_for_oid b oid)"
  have nonneg: "0 \<le> ?f i" for i
  proof (cases "order_at b i")
    case (Some order)
    from index_inv_live(2) [OF idx Some] have "nodes b (bo_oid order) = Some (node_of order)"
      by (simp add: nodes_def)
    from pos [OF this] Some show ?thesis by simp
  qed simp
  have node: "opt_val on_sz (nodes b oid) = ?f (?g oid)" if "oid \<in> ?S" for oid
    using that by (auto simp: nodes_def order_by_oid_def opt_val_def split: option.splits)
  have "inj_on ?g ?S"
  proof (rule inj_onI)
    fix x y assume "x \<in> ?S" "y \<in> ?S" and eq: "?g x = ?g y"
    then obtain i where i: "index_for_oid b x = Some i" "index_for_oid b y = Some i" by auto
    from index_for_oidD [OF idx i(1)] index_for_oidD [OF idx i(2)] show "x = y" by auto
  qed
  moreover have "?g ` ?S \<subseteq> {..<length (bk_orders b)}"
    using index_for_oidD [OF idx] order_at_less [of b] by (auto simp del: not_None_eq) fastforce
  moreover have "queue_sz (nodes b) xs = (\<Sum>oid\<in>set xs. opt_val on_sz (nodes b oid))"
    by (simp add: queue_sz_def sum_list_distinct_conv_sum_set [OF assms(3)])
  moreover have "\<dots> = (\<Sum>oid\<in>?S. opt_val on_sz (nodes b oid))"
    by (rule sum.mono_neutral_right) (auto simp: nodes_def order_by_oid_def)
  moreover have "live_sz b = (\<Sum>i<length (bk_orders b). ?f i)"
    by (simp add: live_sz_def sum_list_sum_nth order_at_def atLeast0LessThan)
  ultimately show ?thesis
    using sum_mono2 [of "{..<length (bk_orders b)}" "?g ` ?S" ?f] nonneg node
    by (simp add: sum.reindex)
qed

subsection \<open>Steps that leave queues, sizes and levels alone\<close>

definition same_view :: "book \<Rightarrow> book \<Rightarrow> bool" where
  "same_view b b' \<longleftrightarrow> nodes b' = nodes b \<and> live_sz b' = live_sz b \<and> bk_bids b' = bk_bids b \<and>
     bk_asks b' = bk_asks b \<and> bk_total_resting_sz b' = bk_total_resting_sz b"

lemma same_view_trans: "same_view b b' \<Longrightarrow> same_view b' b'' \<Longrightarrow> same_view b b''"
  by (simp add: same_view_def)

lemma mut_view:
  assumes "store_inv b" and "\<And>order. bo_oid (f order) = bo_oid order"
    and "\<And>order. node_of (f order) = node_of order"
  shows "store_inv (order_by_oid_mut oid f b) \<and> same_view b (order_by_oid_mut oid f b)"
proof -
  have user: "bo_user (f order) = bo_user order" and sz: "bo_resting_sz (f order) = bo_resting_sz order" for order
    using assms(3) [of order] by (simp_all add: node_of_def)
  have "nodes (order_by_oid_mut oid f b) = modify (Some oid) id (nodes b)"
    using assms by (intro nodes_mut) (simp_all add: store_inv_def)
  moreover have "modify (Some oid) id (nodes b) = nodes b" by (simp add: fun_eq_iff modify_apply option.map_id)
  ultimately show ?thesis
    using store_inv_mut [OF assms(1,2) user] live_sz_mut [OF sz] by (simp add: same_view_def)
qed

lemma link_parent_view:
  "store_inv b \<Longrightarrow> store_inv (link_parent parent oid b) \<and> same_view b (link_parent parent oid b)"
proof (cases parent)
  case (Some p)
  assume "store_inv b"
  then show ?thesis unfolding link_parent_def Some option.case by (rule mut_view) (simp_all add: node_of_def)
qed (simp add: link_parent_def same_view_def)

lemma link_peer_view:
  "store_inv b \<Longrightarrow> store_inv (link_peer peer oid b) \<and> same_view b (link_peer peer oid b)"
proof (cases peer)
  case (Some p)
  assume "store_inv b"
  then show ?thesis unfolding link_peer_def Some option.case by (rule mut_view) (simp_all add: node_of_def)
qed (simp add: link_peer_def same_view_def)

subsection \<open>Writing a neighbour, a level and the total\<close>

lemma link_neighbour_nodes:
  assumes "store_inv b" and present: "\<And>x. oid = Some x \<Longrightarrow> nodes b x \<noteq> None"
    and f: "\<And>order. bo_oid (f order) = bo_oid order" "\<And>order. node_of (f order) = g (node_of order)"
    and g: "\<And>n. on_user (g n) = on_user n" "\<And>n. on_sz (g n) = on_sz n"
  obtains b' where "link_neighbour oid f b = Some b'" and "store_inv b'"
    and "nodes b' = modify oid g (nodes b)" and "live_sz b' = live_sz b"
    and "bk_bids b' = bk_bids b" and "bk_asks b' = bk_asks b"
    and "bk_total_resting_sz b' = bk_total_resting_sz b"
proof (cases oid)
  case None
  then show thesis using that [of b] assms(1) by (simp add: link_neighbour_def modify_def)
next
  case (Some x)
  have user: "bo_user (f order) = bo_user order" for order
    using g(1) [of "node_of order"] f(2) [of order, symmetric] by simp
  have sz: "bo_resting_sz (f order) = bo_resting_sz order" for order
    using g(2) [of "node_of order"] f(2) [of order, symmetric] by simp
  have "link_neighbour oid f b = Some (order_by_oid_mut x f b)"
    using present [OF Some] by (simp add: link_neighbour_def Some nodes_def)
  then show thesis
    using that [of "order_by_oid_mut x f b"] store_inv_mut [OF assms(1) f(1) user]
      nodes_mut [of b f g x] f assms(1) live_sz_mut [OF sz] Some
    by (simp add: store_inv_def)
qed

lemma levels_mut_sel [simp]:
  "bk_orders (levels_mut s lv b) = bk_orders b" "bk_free_indexes (levels_mut s lv b) = bk_free_indexes b"
  "bk_order_by_oid (levels_mut s lv b) = bk_order_by_oid b"
  "bk_user_orders (levels_mut s lv b) = bk_user_orders b"
  "bk_total_resting_sz (levels_mut s lv b) = bk_total_resting_sz b"
  "levels (levels_mut s lv b) s' = (if s' = s then lv else levels b s')"
  by (cases s; cases s'; simp)+

lemma view_cong:
  assumes "bk_orders b' = bk_orders b" and "bk_order_by_oid b' = bk_order_by_oid b"
  shows "nodes b' = nodes b" and "live_sz b' = live_sz b" and "order_by_oid b' = order_by_oid b"
  using assms order_at_cong [OF assms(1)]
  by (simp_all add: nodes_def order_by_oid_def index_for_oid_def live_sz_def fun_eq_iff)

lemma store_inv_cong:
  assumes "bk_orders b' = bk_orders b" and "bk_free_indexes b' = bk_free_indexes b"
    and "bk_order_by_oid b' = bk_order_by_oid b" and "bk_user_orders b' = bk_user_orders b"
    and "store_inv b" and "\<And>s. bt_wf (levels b' s)"
  shows "store_inv b'"
proof -
  have "index_for_oid b' = index_for_oid b" "user_index b' = user_index b" "order_at b' = order_at b"
    using assms(1-4) by (simp_all add: index_for_oid_def user_index_def order_at_def fun_eq_iff)
  then show ?thesis
    using assms(1-5) assms(6) [of Bid] assms(6) [of Ask]
    by (simp add: store_inv_def slots_inv_def index_inv_def maps_wf_def)
qed

lemma levels_total [simp]: "levels (b\<lparr>bk_total_resting_sz := t\<rparr>) s = levels b s"
  by (cases s) simp_all

lemma levels_wf: "maps_wf b \<Longrightarrow> bt_wf (levels b s)"
  by (cases s) (simp_all add: maps_wf_def)

lemma store_inv_levels_mut: "store_inv b \<Longrightarrow> bt_wf lv \<Longrightarrow> store_inv (levels_mut s lv b)"
  by (rule store_inv_cong [of _ b]) (simp_all add: store_inv_def levels_wf)

lemma store_inv_total: "store_inv b \<Longrightarrow> store_inv (b\<lparr>bk_total_resting_sz := t\<rparr>)"
  by (rule store_inv_cong [of _ b]) (simp_all add: store_inv_def levels_wf levels_total)

lemma levels_eq: "bk_bids b' = bk_bids b \<Longrightarrow> bk_asks b' = bk_asks b \<Longrightarrow> levels b' s = levels b s"
  by (cases s) simp_all

section \<open>Inserting a resting order\<close>

lemma insert_resting_order_inv:
  assumes inv: "book_inv b Q" and fresh: "index_for_oid b (ia_oid args) = None"
    and pos: "0 < ia_sz args" "0 < ia_limit_px args" and room: "in_i64 (live_sz b + ia_sz args)"
  defines "s \<equiv> ia_side args" and "px \<equiv> ia_limit_px args" and "oid \<equiv> ia_oid args"
  defines "n \<equiv> node_of (order_of_args args (last_of (Q s px)))"
  shows "\<exists>b'. insert_resting_order args b = Some b' \<and>
    nodes b' = modify (last_of (Q s px)) (\<lambda>m. m\<lparr>on_next := Some oid\<rparr>) ((nodes b)(oid \<mapsto> n)) \<and>
    book_inv b' (set_queue s px (Q s px @ [oid]) Q)"
proof -
  note wf = book_invD [OF inv]
  let ?key = "tree_key s px" and ?prev = "last_of (Q s px)"
  let ?order = "order_of_args args ?prev"
  have lvl: "map_of (levels b s) ?key = (if Q s px = [] then None
      else Some \<lparr>bl_first = first_of (Q s px), bl_last = ?prev, bl_total_sz = queue_sz (nodes b) (Q s px)\<rparr>)"
    using wf(8) [of s] by (simp add: level_inv_def)
  have prev: "do { level \<leftarrow> map_of (levels b s) ?key; bl_last level } = ?prev"
    using lvl by simp
  have none: "nodes b oid = None"
    using fresh by (simp add: nodes_def order_by_oid_def oid_def)
  obtain b1 i where al: "alloc_order_slot b ?order = Some (b1, i)"
    and st3: "store_inv (index_order (ia_user args) oid i b1)"
    and ord3: "order_by_oid (index_order (ia_user args) oid i b1) = (order_by_oid b)(oid \<mapsto> ?order)"
    and live3: "live_sz (index_order (ia_user args) oid i b1) = live_sz b + ia_sz args"
    and lv1: "bk_bids b1 = bk_bids b" "bk_asks b1 = bk_asks b"
      "bk_total_resting_sz b1 = bk_total_resting_sz b"
    using store_inv_insert_slot [OF wf(1), of ?order] fresh
    by (auto simp: order_of_args_def oid_def)
  define b3 where "b3 = index_order (ia_user args) oid i b1"
  define b5 where "b5 = link_peer (ia_peer args) oid (link_parent (ia_parent args) oid b3)"
  have st5: "store_inv b5" and view5: "same_view b3 b5"
    using link_parent_view [of b3 "ia_parent args" oid] st3
      link_peer_view [of "link_parent (ia_parent args) oid b3" "ia_peer args" oid]
    by (auto simp: b5_def b3_def intro: same_view_trans)
  have nodes5: "nodes b5 = (nodes b)(oid \<mapsto> n)"
    using view5 ord3 by (auto simp: same_view_def b3_def nodes_def n_def fun_eq_iff)
  have present: "nodes b5 x \<noteq> None" if "?prev = Some x" for x
    using queue_invD(5) [OF wf(7) last_of_in [OF that]] nodes5 by auto
  obtain b6 where ln: "link_neighbour ?prev (\<lambda>p. p\<lparr>bo_next := Some oid\<rparr>) b5 = Some b6"
    and st6: "store_inv b6" and nodes6: "nodes b6 = modify ?prev (\<lambda>m. m\<lparr>on_next := Some oid\<rparr>) (nodes b5)"
    and live6: "live_sz b6 = live_sz b5" and lv6: "bk_bids b6 = bk_bids b5" "bk_asks b6 = bk_asks b5"
      "bk_total_resting_sz b6 = bk_total_resting_sz b5"
    using link_neighbour_nodes [OF st5 present, where f = "\<lambda>p. p\<lparr>bo_next := Some oid\<rparr>"
        and g = "\<lambda>m. m\<lparr>on_next := Some oid\<rparr>"]
    by (auto simp: node_of_def)
  have levels6: "levels b6 s' = levels b s'" for s'
    by (rule levels_eq) (use view5 lv6 lv1 in \<open>simp_all add: same_view_def b3_def\<close>)
  have live: "live_sz b6 = live_sz b + ia_sz args" and tot: "bk_total_resting_sz b6 = live_sz b"
    using live6 view5 live3 lv6 lv1 wf(5) by (simp_all add: same_view_def b3_def)
  have q0: "0 \<le> queue_sz (nodes b) (Q s px)" by (rule queue_sz_nonneg) (rule wf(9))
  have ql: "queue_sz (nodes b) (Q s px) \<le> live_sz b"
    using wf(2) wf(9) queue_invD(1) [OF wf(7)] by (rule queue_sz_le_live)
  have ltot: "in_i64 (queue_sz (nodes b) (Q s px) + ia_sz args)"
    using q0 ql room pos by (simp add: in_i64_def i64_min_def i64_max_def)
  have absent: "oid \<notin> set (Q s' px')" for s' px'
    using queue_invD(5) [OF wf(7)] none by fastforce
  have sz6: "map_option on_sz (nodes b x) = map_option on_sz (nodes b6 x)" if "x \<in> set (Q s' px')" for x s' px'
    using that absent nodes6 nodes5 by (auto simp: sz_modify)
  have szn: "opt_val on_sz (nodes b6 oid) = ia_sz args"
  proof -
    have "?prev \<noteq> Some oid" using last_of_in queue_invD(5) [OF wf(7)] none by fastforce
    then show ?thesis using nodes6 nodes5 by (simp add: modify_apply n_def order_of_args_def)
  qed
  have qsz: "queue_sz (nodes b6) (Q s px @ [oid]) = queue_sz (nodes b) (Q s px) + ia_sz args"
    using queue_sz_cong [OF sz6] szn by (simp add: queue_sz_snoc)
  define lv where "lv = bt_insert ?key \<lparr>bl_first = first_of (Q s px @ [oid]), bl_last = last_of (Q s px @ [oid]),
      bl_total_sz = queue_sz (nodes b6) (Q s px @ [oid])\<rparr> (levels b s)"
  have add: "add_to_level s ?key oid (ia_sz args) b6 = Some (levels_mut s lv b6)"
    using ltot unfolding lv_def qsz
    by (auto simp: add_to_level_def levels6 lvl first_of_append level_empty_def checked_add_i64_def Let_def)
  define b8 where "b8 = (levels_mut s lv b6)\<lparr>bk_total_resting_sz := live_sz b + ia_sz args\<rparr>"
  have run: "insert_resting_order args b = Some b8"
    using prev al ln add room tot
    by (simp add: insert_resting_order_def Let_def s_def [symmetric] px_def [symmetric] oid_def [symmetric]
        b3_def [symmetric] b5_def [symmetric] add_total_def checked_add_i64_def b8_def)
  have nodes8: "nodes b8 = nodes b6" and live8: "live_sz b8 = live_sz b6"
    by (rule view_cong; simp add: b8_def)+
  have lev8: "levels b8 s' = (if s' = s then lv else levels b s')" for s'
    by (simp add: b8_def levels6)
  have st8: "store_inv b8"
    unfolding b8_def using st6 levels_wf [OF wf(4)] by (intro store_inv_total store_inv_levels_mut) (auto simp: lv_def)
  have qinv: "queue_inv (nodes b8) (set_queue s px (Q s px @ [oid]) Q)"
    unfolding nodes8 nodes6 nodes5
    by (rule queue_inv_append [OF wf(7) none]) (simp_all add: n_def order_of_args_def s_def px_def)
  have linv: "level_inv (nodes b8) (levels b8 s') s' (set_queue s px (Q s px @ [oid]) Q s')" for s'
  proof (cases "s' = s")
    case True
    have "level_inv (nodes b6) lv s ((Q s)(px := Q s px @ [oid]))"
      by (rule level_inv_update [OF wf(8)]) (use sz6 in \<open>auto simp: lv_def\<close>)
    with True show ?thesis by (simp add: lev8 nodes8 set_queue_def)
  next
    case False
    have "level_inv (nodes b6) (levels b s') s' (Q s')"
      by (rule level_inv_cong [OF wf(8)]) (use sz6 in \<open>auto\<close>)
    with False show ?thesis by (simp add: lev8 nodes8 set_queue_def)
  qed
  have posn: "0 < on_sz m \<and> 0 < on_px m" if "nodes b8 x = Some m" for x m
    using that wf(9,10) pos
    by (auto simp: nodes8 nodes6 nodes5 modify_apply n_def order_of_args_def split: if_splits)
  have "bk_total_resting_sz b8 = live_sz b8" using live8 live by (simp add: b8_def)
  moreover have "in_i64 (live_sz b8)" using live8 live room by simp
  ultimately have inv8: "book_inv b8 (set_queue s px (Q s px @ [oid]) Q)"
    by (rule book_invI [OF st8 _ _ qinv linv posn])
  show ?thesis by (intro exI [of _ b8] conjI) (simp_all only: run nodes8 nodes6 nodes5 inv8)
qed

end
