(* ===== verification/Book_Removal.thy ===== *)
theory Book_Removal
  imports Book_Invariant
begin

text \<open>
  Removal and resizing of resting orders.  The code releases the slot first and drops the index
  entries last; since the released order is dead in between, dropping the entries commutes with
  every write in the middle, and the writes can be studied on a book whose indexes are already
  consistent.
\<close>

section \<open>Dropping the index entries early\<close>

lemma unindex_order_sel [simp]:
  "bk_orders (unindex_order user oid b) = bk_orders b"
  "bk_free_indexes (unindex_order user oid b) = bk_free_indexes b"
  "bk_bids (unindex_order user oid b) = bk_bids b" "bk_asks (unindex_order user oid b) = bk_asks b"
  "bk_total_resting_sz (unindex_order user oid b) = bk_total_resting_sz b"
  "bk_asset (unindex_order user oid b) = bk_asset b"
  "bk_order_by_oid (unindex_order user oid b) = bt_remove oid (bk_order_by_oid b)"
  by (auto simp: unindex_order_def remove_user_oid_def Let_def split: option.splits)

lemma levels_unindex [simp]: "levels (unindex_order user oid b) s = levels b s"
  by (cases s) simp_all

lemma order_at_unindex [simp]: "order_at (unindex_order user oid b) = order_at b"
  by (rule order_at_cong) simp

lemma index_for_oid_unindex [simp]:
  "index_for_oid (unindex_order user oid b) x = (if x = oid then None else index_for_oid b x)"
  by (simp add: index_for_oid_def)

lemma order_by_oid_unindex [simp]:
  "order_by_oid (unindex_order user oid b) x = (if x = oid then None else order_by_oid b x)"
  by (simp add: order_by_oid_def)

lemma bt_remove_last:
  assumes "bt_remove k m = []" and "x \<noteq> k" shows "map_of m x = None"
  using fun_cong [OF map_of_bt_remove [of k m], of x] assms by simp

lemma user_index_unindex [simp]:
  "user_index (unindex_order user oid b) u x =
     (if u = user \<and> x = oid then None else user_index b u x)"
  by (auto simp: unindex_order_def remove_user_oid_def user_index_def Let_def bt_remove_last
      split: option.split)

lemma maps_wf_unindex: "maps_wf b \<Longrightarrow> maps_wf (unindex_order user oid b)"
  unfolding maps_wf_def
  by (auto simp: unindex_order_def remove_user_oid_def Let_def split: option.splits if_splits)

lemma set_order_at_unindex:
  "set_order_at i slot (unindex_order user oid b) = unindex_order user oid (set_order_at i slot b)"
  by (simp add: set_order_at_def unindex_order_def remove_user_oid_def Let_def split: option.split)

lemma levels_mut_unindex:
  "levels_mut s lv (unindex_order user oid b) = unindex_order user oid (levels_mut s lv b)"
  by (cases s) (simp_all add: unindex_order_def remove_user_oid_def Let_def split: option.split)

lemma mut_unindex:
  "order_by_oid b oid = None \<Longrightarrow>
     order_by_oid_mut x f (unindex_order user oid b) = unindex_order user oid (order_by_oid_mut x f b)"
  by (auto simp: order_by_oid_mut_def order_by_oid_def set_order_at_unindex split: option.split)

lemma order_at_mut_None: "order_at (order_by_oid_mut x f b) i = None \<longleftrightarrow> order_at b i = None"
  by (auto simp: order_by_oid_mut_def order_at_set order_at_less split: option.splits)

lemma dead_mut [simp]: "order_by_oid (order_by_oid_mut x f b) oid = None \<longleftrightarrow> order_by_oid b oid = None"
  by (simp add: order_by_oid_def index_for_oid_def bind_eq_None_conv order_at_mut_None split: option.splits)

lemma dead_link_neighbour:
  "link_neighbour x f b = Some b' \<Longrightarrow> order_by_oid b' oid = None \<longleftrightarrow> order_by_oid b oid = None"
  by (auto simp: link_neighbour_def split: option.splits if_splits)

lemma link_neighbour_unindex:
  "order_by_oid b oid = None \<Longrightarrow>
     link_neighbour x f (unindex_order user oid b) = map_option (unindex_order user oid) (link_neighbour x f b)"
  by (auto simp: link_neighbour_def mut_unindex split: option.split)


section \<open>Releasing an order\<close>

lemma live_sz_release:
  "order_at b i = Some order \<Longrightarrow> live_sz (release_order_slot i b) = live_sz b - bo_resting_sz order"
  using live_sz_set [of i b None] order_at_less [of b i order]
  by (simp add: release_order_slot_def live_sz_def)

lemma release_sel [simp]:
  "bk_order_by_oid (release_order_slot i b) = bk_order_by_oid b"
  "bk_user_orders (release_order_slot i b) = bk_user_orders b"
  "bk_bids (release_order_slot i b) = bk_bids b" "bk_asks (release_order_slot i b) = bk_asks b"
  "bk_total_resting_sz (release_order_slot i b) = bk_total_resting_sz b"
  by (simp_all add: release_order_slot_def)

lemma release_index [simp]:
  "index_for_oid (release_order_slot i b) = index_for_oid b" "user_index (release_order_slot i b) = user_index b"
  by (simp_all add: index_for_oid_def user_index_def fun_eq_iff)

lemma store_inv_release:
  assumes st: "store_inv b" and at: "order_at b i = Some order"
  defines "c \<equiv> unindex_order (bo_user order) (bo_oid order) (release_order_slot i b)"
  shows "store_inv c" and "nodes c = (nodes b)(bo_oid order := None)"
    and "live_sz c = live_sz b - bo_resting_sz order"
    and "order_by_oid (release_order_slot i b) (bo_oid order) = None"
proof -
  have idx: "index_inv b" and slots: "slots_inv b" and maps: "maps_wf b"
    using st by (simp_all add: store_inv_def)
  have oid: "index_for_oid b (bo_oid order) = Some i" using index_inv_live(1) [OF idx at] .
  have at_c: "order_at c j = (if j = i then None else order_at b j)" for j
    by (simp add: c_def order_at_release)
  have uniq: "j = i" if "order_at b j = Some o'" "bo_oid o' = bo_oid order" for j o'
    using index_inv_live(1) [OF idx that(1)] that(2) oid by simp
  have other: "index_for_oid b x \<noteq> Some i" if "x \<noteq> bo_oid order" for x
    using index_for_oidD [OF idx, of x i] at that by auto
  have other_user: "user_index b u x \<noteq> Some i" if "\<not> (u = bo_user order \<and> x = bo_oid order)" for u x
    using user_indexD [OF idx, of u x i] at that by auto
  have "index_inv c"
  proof (rule index_invI)
    fix x j assume "index_for_oid c x = Some j"
    then show "\<exists>o'. order_at c j = Some o' \<and> bo_oid o' = x"
      using index_for_oidD [OF idx, of x j] other [of x] by (auto simp: order_at_release c_def split: if_splits)
  next
    fix u x j assume "user_index c u x = Some j"
    then show "\<exists>o'. order_at c j = Some o' \<and> bo_oid o' = x \<and> bo_user o' = u"
      using user_indexD [OF idx, of u x j] other_user [of u x] by (auto simp: order_at_release c_def split: if_splits)
  next
    fix j o' assume "order_at c j = Some o'"
    then have j: "order_at b j = Some o'" "j \<noteq> i" by (simp_all add: at_c split: if_splits)
    show "index_for_oid c (bo_oid o') = Some j"
      using index_inv_live(1) [OF idx j(1)] uniq [OF j(1)] j(2) by (auto simp: c_def)
    show "user_index c (bo_user o') (bo_oid o') = Some j"
      using index_inv_live(3) [OF idx j(1)] uniq [OF j(1)] j(2) by (auto simp: c_def)
  qed
  moreover have "slots_inv c"
    using slots_inv_release [OF slots at] by (simp add: c_def slots_inv_def)
  moreover have "maps_wf c"
    using maps unfolding c_def by (intro maps_wf_unindex) (simp add: maps_wf_def)
  ultimately show "store_inv c" by (simp add: store_inv_def)
  show "nodes c = (nodes b)(bo_oid order := None)"
  proof
    fix x show "nodes c x = ((nodes b)(bo_oid order := None)) x"
      using other [of x]
      by (cases "index_for_oid b x") (auto simp: nodes_def order_by_oid_def at_c c_def order_at_release)
  qed
  show "live_sz c = live_sz b - bo_resting_sz order"
    using live_sz_release [OF at] by (simp add: c_def live_sz_def)
  show "order_by_oid (release_order_slot i b) (bo_oid order) = None"
    using oid by (simp add: order_by_oid_def order_at_release)
qed

section \<open>Parent, peer and child links\<close>

lemma unlink_children_view:
  "store_inv b \<Longrightarrow> store_inv (unlink_children oid cs b) \<and> same_view b (unlink_children oid cs b)"
proof (induction oid cs b rule: unlink_children.induct)
  case (2 oid c rest b)
  let ?b = "order_by_oid_mut c (\<lambda>c. if bo_parent c = Some oid then c\<lparr>bo_parent := None\<rparr> else c) b"
  have "store_inv ?b \<and> same_view b ?b" using 2(2) by (rule mut_view) (simp_all add: node_of_def)
  with 2(1) show ?case by (auto intro: same_view_trans)
qed (simp add: same_view_def)

lemma unlink_children_unindex:
  "order_by_oid b oid = None \<Longrightarrow>
     unlink_children x cs (unindex_order user oid b) = unindex_order user oid (unlink_children x cs b) \<and>
     order_by_oid (unlink_children x cs b) oid = None"
  by (induction x cs b rule: unlink_children.induct) (simp_all add: mut_unindex)

lemma unlink_parent_view:
  "store_inv b \<Longrightarrow> store_inv (unlink_parent p oid b) \<and> same_view b (unlink_parent p oid b)"
proof (cases p)
  case (Some x)
  assume "store_inv b"
  then show ?thesis unfolding unlink_parent_def Some option.case by (rule mut_view) (simp_all add: node_of_def)
qed (simp add: unlink_parent_def same_view_def)

lemma unlink_peer_view:
  "store_inv b \<Longrightarrow> store_inv (unlink_peer p oid b) \<and> same_view b (unlink_peer p oid b)"
proof (cases p)
  case (Some x)
  assume "store_inv b"
  then show ?thesis unfolding unlink_peer_def Some option.case by (rule mut_view) (simp_all add: node_of_def)
qed (simp add: unlink_peer_def same_view_def)

definition unlink_relations :: "book_order \<Rightarrow> book \<Rightarrow> book" where
  "unlink_relations order b =
     unlink_peer (bo_peer order) (bo_oid order)
       (unlink_parent (bo_parent order) (bo_oid order)
         (unlink_children (bo_oid order) (bo_child_oids order) b))"

lemma unlink_relations_view:
  "store_inv b \<Longrightarrow> store_inv (unlink_relations order b) \<and> same_view b (unlink_relations order b)"
  unfolding unlink_relations_def
  using unlink_children_view [of b "bo_oid order" "bo_child_oids order"]
    unlink_parent_view [of "unlink_children (bo_oid order) (bo_child_oids order) b" "bo_parent order" "bo_oid order"]
    unlink_peer_view [of "unlink_parent (bo_parent order) (bo_oid order)
      (unlink_children (bo_oid order) (bo_child_oids order) b)" "bo_peer order" "bo_oid order"]
  by (simp add: same_view_def)

lemma unlink_relations_unindex:
  "order_by_oid b oid = None \<Longrightarrow>
     unlink_relations order (unindex_order user oid b) = unindex_order user oid (unlink_relations order b) \<and>
     order_by_oid (unlink_relations order b) oid = None"
  using unlink_children_unindex [of b oid "bo_oid order" "bo_child_oids order" user]
  by (simp add: unlink_relations_def unlink_parent_def unlink_peer_def mut_unindex split: option.split)

lemma unlink_from_level_unindex:
  assumes dead: "order_by_oid b oid = None"
  shows "unlink_from_level order (unindex_order user oid b) =
    map_option (map_prod (unindex_order user oid) id) (unlink_from_level order b)"
proof (cases "link_neighbour (bo_prev order) (\<lambda>p. p\<lparr>bo_next := bo_next order\<rparr>) b")
  case (Some b1)
  have "order_by_oid b1 oid = None" using dead_link_neighbour [OF Some] dead by simp
  then show ?thesis
    using Some dead
    by (auto simp: unlink_from_level_def link_neighbour_unindex Let_def levels_mut_unindex
        split: bind_splits)
qed (simp add: unlink_from_level_def link_neighbour_unindex dead)


section \<open>Removing an order\<close>

text \<open>The level write: on a book whose order is already gone, the neighbours exist and the level is
  rewritten to the remaining queue, or removed with its last order.\<close>

lemma unlink_from_level_inv:
  assumes inv: "book_inv b Q" and node: "nodes b oid = Some n"
    and st: "store_inv c" and nodes_c: "nodes c = (nodes b)(oid := None)"
    and lv: "\<And>s. levels c s = levels b s"
    and order: "bo_oid order = oid" "node_of order = n"
  defines "s \<equiv> on_side n" and "px \<equiv> on_px n"
  defines "xs \<equiv> without oid (Q s px)"
  shows "\<exists>c'. unlink_from_level order c = Some (c', xs = []) \<and> store_inv c' \<and>
    nodes c' = unlink_node oid n (nodes b) \<and> live_sz c' = live_sz c \<and>
    bk_total_resting_sz c' = bk_total_resting_sz c \<and>
    (\<forall>s'. level_inv (nodes c') (levels c' s') s' (set_queue s px xs Q s'))"
proof -
  note wf = book_invD [OF inv]
  let ?q = "Q s px" and ?key = "tree_key s px"
  have q: "oid \<in> set ?q" "on_prev n = pred_in ?q oid" "on_next n = succ_in ?q oid"
    using queue_invD(2,3,4) [OF wf(7) node] by (simp_all add: s_def px_def)
  have dist: "distinct ?q" using queue_invD(1) [OF wf(7)] .
  have f: "bo_prev order = on_prev n" "bo_next order = on_next n" "bo_side order = s" "bo_limit_px order = px"
      "bo_resting_sz order = on_sz n"
    using order by (auto simp: s_def px_def)
  have neigh: "nodes b x \<noteq> None \<and> x \<noteq> oid" if "on_prev n = Some x \<or> on_next n = Some x" for x
    using that q pred_in_in [of ?q oid x] succ_in_in [of ?q oid x] queue_invD(5) [OF wf(7), of x s px]
      pred_in_neq [OF dist, of oid x] succ_in_neq [OF dist, of oid x] by auto
  obtain c1 where c1: "link_neighbour (on_prev n) (\<lambda>p. p\<lparr>bo_next := on_next n\<rparr>) c = Some c1" "store_inv c1"
      "nodes c1 = modify (on_prev n) (\<lambda>m. m\<lparr>on_next := on_next n\<rparr>) (nodes c)" "live_sz c1 = live_sz c"
      "bk_bids c1 = bk_bids c" "bk_asks c1 = bk_asks c" "bk_total_resting_sz c1 = bk_total_resting_sz c"
    by (rule link_neighbour_nodes [OF st, where oid = "on_prev n" and f = "\<lambda>p. p\<lparr>bo_next := on_next n\<rparr>"
          and g = "\<lambda>m. m\<lparr>on_next := on_next n\<rparr>"])
      (use neigh nodes_c in \<open>auto simp: node_of_def\<close>)
  have pres: "nodes c1 x \<noteq> None" if "on_next n = Some x" for x
    using neigh [of x] that by (simp add: c1(3) nodes_c modify_apply)
  obtain c2 where c2: "link_neighbour (on_next n) (\<lambda>m. m\<lparr>bo_prev := on_prev n\<rparr>) c1 = Some c2" "store_inv c2"
      "nodes c2 = modify (on_next n) (\<lambda>m. m\<lparr>on_prev := on_prev n\<rparr>) (nodes c1)" "live_sz c2 = live_sz c1"
      "bk_bids c2 = bk_bids c1" "bk_asks c2 = bk_asks c1" "bk_total_resting_sz c2 = bk_total_resting_sz c1"
    by (rule link_neighbour_nodes [OF c1(2), where oid = "on_next n" and f = "\<lambda>p. p\<lparr>bo_prev := on_prev n\<rparr>"
          and g = "\<lambda>m. m\<lparr>on_prev := on_prev n\<rparr>"])
      (use pres in \<open>auto simp: node_of_def\<close>)
  have nodes2: "nodes c2 = unlink_node oid n (nodes b)"
    by (simp add: c2(3) c1(3) nodes_c unlink_node_def)
  have lv2: "levels c2 s' = levels b s'" for s'
    using levels_eq [OF c2(5,6)] levels_eq [OF c1(5,6)] lv by simp
  have at: "map_of (levels b s) ?key = Some \<lparr>bl_first = first_of ?q, bl_last = last_of ?q,
      bl_total_sz = queue_sz (nodes b) ?q\<rparr>"
    using wf(8) [of s] q(1) by (auto simp: level_inv_def)
  have sz2: "map_option on_sz (nodes b x) = map_option on_sz (nodes c2 x)" if "x \<noteq> oid" for x
    using that by (simp add: nodes2 unlink_node_def sz_modify)
  have qsz: "queue_sz (nodes c2) xs = queue_sz (nodes b) ?q - on_sz n"
  proof -
    have "queue_sz (nodes c2) xs = queue_sz (nodes b) xs"
      by (rule queue_sz_cong [symmetric]) (rule sz2, simp add: xs_def)
    then show ?thesis using queue_sz_without [OF dist q(1)] node by (simp add: xs_def)
  qed
  have pos: "\<And>x m. nodes c2 x = Some m \<Longrightarrow> 0 < on_sz m"
    using wf(9) by (auto simp: nodes2 unlink_node_def modify_apply split: if_splits)
  have "0 \<le> queue_sz (nodes c2) xs" using pos by (rule queue_sz_nonneg)
  moreover have "queue_sz (nodes b) ?q \<le> live_sz b" using wf(2) wf(9) dist by (rule queue_sz_le_live)
  ultimately have rng: "in_i64 (queue_sz (nodes b) ?q - on_sz n)"
    using wf(6) wf(9) [OF node] qsz by (simp add: in_i64_def i64_min_def i64_max_def)
  have ends: "(if first_of ?q = Some oid then on_next n else first_of ?q) = first_of xs"
    "(if last_of ?q = Some oid then on_prev n else last_of ?q) = last_of xs"
    using first_of_without [OF dist, of oid] last_of_without [OF dist, of oid] q by (auto simp: xs_def)
  define l where "l = (if xs = [] then bt_remove ?key (levels b s)
     else bt_insert ?key \<lparr>bl_first = first_of xs, bl_last = last_of xs, bl_total_sz = queue_sz (nodes c2) xs\<rparr>
            (levels b s))"
  have run: "unlink_from_level order c = Some (levels_mut s l c2, xs = [])"
    using c1(1) c2(1) rng by (simp add: unlink_from_level_def Let_def f order lv2 at ends
        checked_sub_i64_def l_def qsz cong: if_cong split del: if_split) simp
  have "bt_wf l" using levels_wf [OF wf(4)] by (simp add: l_def)
  then have st': "store_inv (levels_mut s l c2)" using c2(2) by (rule store_inv_levels_mut [rotated])
  have view: "nodes (levels_mut s l c2) = nodes c2" "live_sz (levels_mut s l c2) = live_sz c2"
    by (rule view_cong; simp)+
  have linv: "level_inv (nodes c2) (levels (levels_mut s l c2) s') s' (set_queue s px xs Q s')" for s'
  proof (cases "s' = s")
    case True
    have "oid \<notin> set (Q s px')" if "px' \<noteq> px" for px'
      using queue_invD(5) [OF wf(7), of oid s px'] node that by (auto simp: px_def)
    then have "level_inv (nodes c2) l s ((Q s)(px := xs))"
      by (intro level_inv_update [OF wf(8)] sz2) (auto simp: l_def)
    with True show ?thesis by (simp add: set_queue_def)
  next
    case False
    have "oid \<notin> set (Q s' px')" for px'
      using queue_invD(5) [OF wf(7), of oid s' px'] node False by (auto simp: s_def)
    then have "level_inv (nodes c2) (levels b s') s' (Q s')"
      by (intro level_inv_cong [OF wf(8)] sz2) auto
    with False show ?thesis by (simp add: lv2 set_queue_def)
  qed
  show ?thesis
    by (rule exI [of _ "levels_mut s l c2"]) (use run st' view linv nodes2 c1 c2 in simp)
qed


lemma remove_order_at_inv:
  assumes inv: "book_inv b Q" and at: "order_at b i = Some order"
  defines "s \<equiv> bo_side order" and "px \<equiv> bo_limit_px order" and "oid \<equiv> bo_oid order"
  defines "xs \<equiv> without oid (Q s px)"
  shows "\<exists>b'. remove_order_at i b = Some (b', \<lparr>ro_order =
      order\<lparr>bo_child_oids := [], bo_parent := None, bo_peer := None\<rparr>, ro_became_empty_level = (xs = [])\<rparr>) \<and>
    book_inv b' (set_queue s px xs Q) \<and> nodes b' = unlink_node oid (node_of order) (nodes b) \<and>
    live_sz b' = live_sz b - bo_resting_sz order"
proof -
  note wf = book_invD [OF inv]
  let ?R = "unindex_order (bo_user order) oid"
  let ?order = "order\<lparr>bo_child_oids := [], bo_parent := None, bo_peer := None\<rparr>"
  have node: "nodes b oid = Some (node_of order)"
    using index_inv_live(2) [OF wf(2) at] by (simp add: nodes_def oid_def)
  define b1 where "b1 = release_order_slot i b"
  note rel = store_inv_release [OF wf(1) at, folded oid_def b1_def]
  define b4 where "b4 = unlink_relations order b1"
  have dead: "order_by_oid b4 oid = None" and c4: "?R b4 = unlink_relations order (?R b1)"
    using unlink_relations_unindex [OF rel(4)] by (simp_all add: b4_def)
  have st4: "store_inv (?R b4)" and view4: "same_view (?R b1) (?R b4)"
    using unlink_relations_view [OF rel(1)] by (simp_all add: c4)
  have lv4: "levels (?R b4) s' = levels b s'" for s'
    by (rule levels_eq) (use view4 in \<open>simp_all add: same_view_def b1_def\<close>)
  have n4: "nodes (?R b4) = (nodes b)(oid := None)" and l4: "live_sz (?R b4) = live_sz b - bo_resting_sz order"
    and t4: "bk_total_resting_sz (?R b4) = live_sz b"
    using view4 rel(2,3) wf(5) by (simp_all add: same_view_def b1_def)
  have on: "bo_oid ?order = oid" "node_of ?order = node_of order" by (simp_all add: node_of_def oid_def)
  obtain c5 where c5: "unlink_from_level ?order (?R b4) = Some (c5, xs = [])" "store_inv c5"
      "nodes c5 = unlink_node oid (node_of order) (nodes b)" "live_sz c5 = live_sz (?R b4)"
      "bk_total_resting_sz c5 = bk_total_resting_sz (?R b4)"
      "\<And>s'. level_inv (nodes c5) (levels c5 s') s' (set_queue s px xs Q s')"
    using unlink_from_level_inv [OF inv node st4 n4 lv4 on] by (auto simp: s_def px_def xs_def)
  then obtain b5 where b5: "unlink_from_level ?order b4 = Some (b5, xs = [])" "?R b5 = c5"
    using unlink_from_level_unindex [OF dead] by (auto simp: map_prod_def)
  have live5: "live_sz c5 = live_sz b - bo_resting_sz order" using c5(4) l4 by simp
  have "distinct [oid]" by simp
  with wf(2) wf(9) have "queue_sz (nodes b) [oid] \<le> live_sz b" by (rule queue_sz_le_live)
  then have rng: "in_i64 (live_sz b - bo_resting_sz order)"
    using wf(6) wf(9) [OF node] node by (simp add: in_i64_def i64_min_def i64_max_def queue_sz_def)
  have t5: "bk_total_resting_sz b5 = live_sz b"
    using arg_cong [OF b5(2), of bk_total_resting_sz] c5(5) t4 by simp
  define b' where "b' = c5\<lparr>bk_total_resting_sz := live_sz b - bo_resting_sz order\<rparr>"
  have run: "remove_order_at i b = Some (b', \<lparr>ro_order = ?order, ro_became_empty_level = (xs = [])\<rparr>)"
    using b5 rng at t5 c5(5) [unfolded t4]
    by (simp add: remove_order_at_def b1_def [symmetric] b4_def unlink_relations_def Let_def oid_def
        checked_sub_i64_def b'_def)
  have view: "nodes b' = nodes c5" "live_sz b' = live_sz c5"
    by (rule view_cong; simp add: b'_def)+
  have "queue_inv (nodes b') (set_queue s px xs Q)"
    using queue_inv_remove [OF wf(7) node] by (simp add: view c5(3) s_def px_def xs_def)
  moreover have "level_inv (nodes b') (levels b' s') s' (set_queue s px xs Q s')" for s'
    using c5(6) [of s'] unfolding view by (simp add: b'_def)
  moreover have "0 < on_sz m \<and> 0 < on_px m" if "nodes b' x = Some m" for x m
    using that wf(9,10) by (auto simp: view c5(3) unlink_node_def modify_apply split: if_splits)
  moreover have "store_inv b'" using c5(2) by (simp add: b'_def store_inv_total)
  moreover have "bk_total_resting_sz b' = live_sz b'" "in_i64 (live_sz b')"
    using live5 rng by (simp_all add: view) (simp add: b'_def)
  ultimately have inv': "book_inv b' (set_queue s px xs Q)" by (intro book_invI)
  show ?thesis by (intro exI [of _ b'] conjI run inv') (simp_all add: view c5(3) live5)
qed

end
