(* ===== verification/Book_Refinement.thy ===== *)
theory Book_Refinement
  imports Book_Removal
begin

text \<open>
  The abstract specification of the resting book and the proof that the code implements it.  The
  specification is one list: the live orders in order of arrival.  Inserting appends, cancelling
  filters, resizing maps; the best prices and the price-time queues are read off the list.
\<close>

section \<open>The abstract book\<close>

record resting =
  rs_oid :: nat
  rs_user :: address
  rs_side :: side
  rs_px :: int
  rs_sz :: int

definition resting_of_args :: "insert_order_args \<Rightarrow> resting" where
  "resting_of_args args = \<lparr>rs_oid = ia_oid args, rs_user = ia_user args, rs_side = ia_side args,
     rs_px = ia_limit_px args, rs_sz = ia_sz args\<rparr>"

definition spec_lookup :: "resting list \<Rightarrow> nat \<Rightarrow> resting option" where
  "spec_lookup L = map_of (map (\<lambda>e. (rs_oid e, e)) L)"

definition spec_remove :: "nat \<Rightarrow> resting list \<Rightarrow> resting list" where
  "spec_remove oid L = filter (\<lambda>e. rs_oid e \<noteq> oid) L"

definition spec_resize :: "nat \<Rightarrow> int \<Rightarrow> resting list \<Rightarrow> resting list" where
  "spec_resize oid sz L = map (\<lambda>e. if rs_oid e = oid then e\<lparr>rs_sz := sz\<rparr> else e) L"

definition spec_queue :: "resting list \<Rightarrow> queues" where
  "spec_queue L s px = map rs_oid (filter (\<lambda>e. rs_side e = s \<and> rs_px e = px) L)"

definition spec_total :: "resting list \<Rightarrow> int" where
  "spec_total L = sum_list (map rs_sz L)"

definition spec_prices :: "resting list \<Rightarrow> side \<Rightarrow> int set" where
  "spec_prices L s = rs_px ` {e \<in> set L. rs_side e = s}"

definition entry_of :: "nat \<Rightarrow> order_node \<Rightarrow> resting" where
  "entry_of oid n = \<lparr>rs_oid = oid, rs_user = on_user n, rs_side = on_side n, rs_px = on_px n, rs_sz = on_sz n\<rparr>"

definition book_view :: "heap \<Rightarrow> nat \<Rightarrow> resting option" where
  "book_view h oid = map_option (entry_of oid) (h oid)"

definition book_rep :: "book \<Rightarrow> resting list \<Rightarrow> bool" where
  "book_rep b L \<longleftrightarrow> book_inv b (spec_queue L) \<and> distinct (map rs_oid L) \<and> book_view (nodes b) = spec_lookup L"

section \<open>Lemmas on the abstract book\<close>

lemma spec_lookup_Nil [simp]: "spec_lookup [] = Map.empty"
  by (simp add: spec_lookup_def)

lemma spec_lookup_Cons: "spec_lookup (e # L) = (spec_lookup L)(rs_oid e \<mapsto> e)"
  by (simp add: spec_lookup_def)

lemma spec_lookup_oid: "spec_lookup L oid = Some e \<Longrightarrow> rs_oid e = oid \<and> e \<in> set L"
  by (induction L) (auto simp: spec_lookup_Cons split: if_splits)

lemma spec_lookup_mem: "distinct (map rs_oid L) \<Longrightarrow> e \<in> set L \<Longrightarrow> spec_lookup L (rs_oid e) = Some e"
  by (induction L) (auto simp: spec_lookup_Cons intro: rev_image_eqI)

lemma spec_lookup_None: "spec_lookup L oid = None \<longleftrightarrow> oid \<notin> rs_oid ` set L"
  by (induction L) (auto simp: spec_lookup_Cons)

lemma spec_lookup_snoc: "rs_oid e \<notin> rs_oid ` set L \<Longrightarrow> spec_lookup (L @ [e]) = (spec_lookup L)(rs_oid e \<mapsto> e)"
  by (induction L) (auto simp: spec_lookup_Cons fun_eq_iff)

lemma spec_lookup_remove: "spec_lookup (spec_remove oid L) = (spec_lookup L)(oid := None)"
  by (induction L) (auto simp: spec_lookup_Cons spec_remove_def fun_eq_iff)

lemma spec_lookup_resize:
  "spec_lookup (spec_resize oid sz L) = (spec_lookup L)(oid := map_option (\<lambda>e. e\<lparr>rs_sz := sz\<rparr>) (spec_lookup L oid))"
  by (induction L) (auto simp: spec_lookup_Cons spec_resize_def fun_eq_iff)

lemma spec_queue_snoc:
  "spec_queue (L @ [e]) = set_queue (rs_side e) (rs_px e) (spec_queue L (rs_side e) (rs_px e) @ [rs_oid e]) (spec_queue L)"
  by (auto simp: spec_queue_def fun_eq_iff)

lemma spec_queue_remove_without: "spec_queue (spec_remove oid L) s px = without oid (spec_queue L s px)"
  by (induction L) (auto simp: spec_queue_def spec_remove_def)

lemma mem_spec_queue: "oid \<in> set (spec_queue L s px) \<longleftrightarrow> (\<exists>e \<in> set L. rs_oid e = oid \<and> rs_side e = s \<and> rs_px e = px)"
  by (auto simp: spec_queue_def)

lemma spec_queue_remove:
  assumes "distinct (map rs_oid L)" and "spec_lookup L oid = Some e"
  shows "spec_queue (spec_remove oid L) =
    set_queue (rs_side e) (rs_px e) (without oid (spec_queue L (rs_side e) (rs_px e))) (spec_queue L)"
proof (intro ext)
  fix s px
  have "oid \<notin> set (spec_queue L s px)" if "\<not> (s = rs_side e \<and> px = rs_px e)"
    using that assms(2) spec_lookup_mem [OF assms(1)] by (auto simp: mem_spec_queue)
  then show "spec_queue (spec_remove oid L) s px =
      set_queue (rs_side e) (rs_px e) (without oid (spec_queue L (rs_side e) (rs_px e))) (spec_queue L) s px"
    by (auto simp: spec_queue_remove_without without_absent)
qed

lemma spec_queue_resize [simp]: "spec_queue (spec_resize oid sz L) = spec_queue L"
  by (induction L) (auto simp: spec_queue_def spec_resize_def fun_eq_iff)

lemma spec_queue_empty: "spec_queue L s px = [] \<longleftrightarrow> px \<notin> spec_prices L s"
  by (auto simp: spec_queue_def spec_prices_def filter_empty_conv)

lemma distinct_spec [simp]:
  "distinct (map rs_oid L) \<Longrightarrow> distinct (map rs_oid (spec_remove oid L))"
  "map rs_oid (spec_resize oid sz L) = map rs_oid L"
  by (auto simp: spec_remove_def spec_resize_def distinct_map_filter)

section \<open>Reading the concrete book\<close>

lemma book_repD:
  assumes "book_rep b L"
  shows "book_inv b (spec_queue L)" and "distinct (map rs_oid L)"
    and "map_option (entry_of oid) (nodes b oid) = spec_lookup L oid"
  using assms by (auto simp: book_rep_def book_view_def dest: fun_cong [where x = oid])

lemma book_repI:
  assumes "book_inv b Q" and "spec_queue L = Q" and "distinct (map rs_oid L)"
    and "\<And>x. book_view (nodes b) x = spec_lookup L x"
  shows "book_rep b L"
  using assms by (auto simp: book_rep_def)

lemma book_rep_order:
  assumes "book_rep b L" and "order_at b i = Some order"
  shows "spec_lookup L (bo_oid order) = Some \<lparr>rs_oid = bo_oid order, rs_user = bo_user order,
    rs_side = bo_side order, rs_px = bo_limit_px order, rs_sz = bo_resting_sz order\<rparr>"
  using book_repD(3) [OF assms(1), of "bo_oid order"]
    index_inv_live(2) [OF book_invD(2) [OF book_repD(1) [OF assms(1)]] assms(2)]
  by (simp add: nodes_def entry_of_def)

lemma book_rep_user_index:
  assumes rep: "book_rep b L"
  shows "user_index b user oid = None \<longleftrightarrow> \<not> (\<exists>e \<in> set L. rs_oid e = oid \<and> rs_user e = user)"
    and "user_index b user oid = Some i \<Longrightarrow> \<exists>order. order_at b i = Some order \<and> bo_oid order = oid \<and> bo_user order = user"
proof -
  have idx: "index_inv b" using book_invD(2) [OF book_repD(1) [OF rep]] .
  show found: "\<exists>order. order_at b i = Some order \<and> bo_oid order = oid \<and> bo_user order = user"
    if "user_index b user oid = Some i" for i
    using user_indexD [OF idx that] .
  show "user_index b user oid = None \<longleftrightarrow> \<not> (\<exists>e \<in> set L. rs_oid e = oid \<and> rs_user e = user)"
  proof
    assume none: "user_index b user oid = None"
    show "\<not> (\<exists>e \<in> set L. rs_oid e = oid \<and> rs_user e = user)"
    proof (clarify)
      fix e assume "e \<in> set L" and "oid = rs_oid e" "user = rs_user e"
      then have "spec_lookup L oid = Some e" using spec_lookup_mem [OF book_repD(2) [OF rep]] by simp
      with book_repD(3) [OF rep, of oid] obtain order where order: "order_by_oid b oid = Some order"
        and e: "e = entry_of oid (node_of order)" by (auto simp: nodes_def)
      from index_inv_order [OF idx order] obtain i where i: "order_at b i = Some order" "bo_oid order = oid"
        by blast
      from index_inv_live(3) [OF idx i(1)] i(2) e none \<open>user = rs_user e\<close> show False
        by (simp add: entry_of_def)
    qed
  next
    assume none: "\<not> (\<exists>e \<in> set L. rs_oid e = oid \<and> rs_user e = user)"
    show "user_index b user oid = None"
    proof (rule ccontr)
      assume "user_index b user oid \<noteq> None"
      then obtain i order where "order_at b i = Some order" "bo_oid order = oid" "bo_user order = user"
        using found by blast
      with book_rep_order [OF rep] spec_lookup_oid none show False by fastforce
    qed
  qed
qed

lemma book_rep_index: "book_rep b L \<Longrightarrow> index_for_oid b oid = None \<longleftrightarrow> oid \<notin> rs_oid ` set L"
  using book_repD(3) [of b L oid] index_inv_dangling [OF book_invD(2) [OF book_repD(1)], of b L oid]
  by (auto simp: nodes_def spec_lookup_None [symmetric] simp del: not_None_eq)


text \<open>The total the book keeps is the sum over the list.\<close>

lemma sum_list_queue:
  "sum_list (map rs_sz L) = queue_sz h (map rs_oid L)"
  if "\<And>e. e \<in> set L \<Longrightarrow> opt_val on_sz (h (rs_oid e)) = rs_sz e"
  using that by (induction L) (auto simp: queue_sz_def)

section \<open>Inserting\<close>

lemma entry_of_links [simp]:
  "entry_of x (m\<lparr>on_next := a\<rparr>) = entry_of x m" "entry_of x (m\<lparr>on_prev := a\<rparr>) = entry_of x m"
  by (simp_all add: entry_of_def)

lemma book_view_upd [simp]:
  "book_view (h(oid := v)) x = (if x = oid then map_option (entry_of oid) v else book_view h x)"
  by (simp add: book_view_def)

lemma view_modify [simp]:
  "(\<And>m. entry_of x (f m) = entry_of x m) \<Longrightarrow> book_view (modify oid f h) x = book_view h x"
  by (cases "h x") (auto simp: book_view_def modify_apply)

lemma insert_resting_total:
  assumes "insert_resting_order args b = Some b'"
  shows "in_i64 (bk_total_resting_sz b + ia_sz args)"
proof -
  have ln: "bk_total_resting_sz c' = bk_total_resting_sz c" if "link_neighbour x f c = Some c'" for x f c c'
    using that by (auto simp: link_neighbour_def split: option.splits if_splits)
  have al: "bk_total_resting_sz c = bk_total_resting_sz b" if "alloc_order_slot b o' = Some (c, i)" for o' c i
    using that by (auto simp: alloc_order_slot_def Let_def set_order_at_def split: if_splits)
  have ad: "bk_total_resting_sz c' = bk_total_resting_sz c" if "add_to_level s k x z c = Some c'" for s k x z c c'
    using that by (auto simp: add_to_level_def Let_def bind_eq_Some_conv)
  have lp: "bk_total_resting_sz (link_parent p x c) = bk_total_resting_sz c"
    "bk_total_resting_sz (link_peer p x c) = bk_total_resting_sz c" for p x c
    by (simp_all add: link_parent_def link_peer_def split: option.split)
  from assms show ?thesis
    by (auto simp: insert_resting_order_def Let_def bind_eq_Some_conv add_total_def checked_add_i64_def lp
        dest!: ln al ad split: if_splits)
qed

lemma insert_resting_rep:
  assumes rep: "book_rep b L" and fresh: "index_for_oid b (ia_oid args) = None"
    and pos: "0 < ia_sz args" "0 < ia_limit_px args" and room: "in_i64 (bk_total_resting_sz b + ia_sz args)"
  shows "\<exists>b'. insert_resting_order args b = Some b' \<and> book_rep b' (L @ [resting_of_args args])"
proof -
  let ?e = "resting_of_args args" and ?q = "spec_queue L (ia_side args) (ia_limit_px args)"
  note inv = book_repD(1) [OF rep]
  have new: "rs_oid ?e \<notin> rs_oid ` set L"
    using fresh book_rep_index [OF rep] by (simp add: resting_of_args_def)
  obtain b' where run: "insert_resting_order args b = Some b'"
    and nodes': "nodes b' = modify (last_of ?q) (\<lambda>m. m\<lparr>on_next := Some (ia_oid args)\<rparr>)
      ((nodes b)(ia_oid args \<mapsto> node_of (order_of_args args (last_of ?q))))"
    and inv': "book_inv b' (set_queue (ia_side args) (ia_limit_px args) (?q @ [ia_oid args]) (spec_queue L))"
    using insert_resting_order_inv [OF inv fresh pos] room book_invD(5) [OF inv] by auto
  have "book_view (nodes b') x = spec_lookup (L @ [?e]) x" for x
    using book_repD(3) [OF rep, of x] spec_lookup_snoc [OF new]
    by (simp add: nodes') (simp add: book_view_def entry_of_def order_of_args_def resting_of_args_def)
  moreover have "distinct (map rs_oid (L @ [?e]))" using new book_repD(2) [OF rep] by simp
  ultimately have "book_rep b' (L @ [?e])"
    using inv' spec_queue_snoc [of L ?e] by (intro book_repI) (simp_all add: resting_of_args_def)
  with run show ?thesis by blast
qed

section \<open>Removing\<close>

lemma remove_order_at_rep:
  assumes rep: "book_rep b L" and at: "order_at b i = Some order"
  shows "\<exists>b'. remove_order_at i b = Some (b', \<lparr>ro_order =
      order\<lparr>bo_child_oids := [], bo_parent := None, bo_peer := None\<rparr>,
      ro_became_empty_level = (bo_limit_px order \<notin> spec_prices (spec_remove (bo_oid order) L) (bo_side order))\<rparr>) \<and>
    book_rep b' (spec_remove (bo_oid order) L)"
proof -
  note inv = book_repD(1) [OF rep] and look = book_rep_order [OF rep at]
  let ?xs = "without (bo_oid order) (spec_queue L (bo_side order) (bo_limit_px order))"
  have empty: "?xs = [] \<longleftrightarrow> bo_limit_px order \<notin> spec_prices (spec_remove (bo_oid order) L) (bo_side order)"
    by (simp add: spec_queue_remove_without [symmetric] spec_queue_empty)
  obtain b' where run: "remove_order_at i b = Some (b', \<lparr>ro_order =
      order\<lparr>bo_child_oids := [], bo_parent := None, bo_peer := None\<rparr>, ro_became_empty_level = (?xs = [])\<rparr>)"
    and inv': "book_inv b' (set_queue (bo_side order) (bo_limit_px order) ?xs (spec_queue L))"
    and nodes': "nodes b' = unlink_node (bo_oid order) (node_of order) (nodes b)"
    using remove_order_at_inv [OF inv at] by blast
  have "book_view (nodes b') x = spec_lookup (spec_remove (bo_oid order) L) x" for x
    using book_repD(3) [OF rep, of x]
    by (simp add: nodes' unlink_node_def spec_lookup_remove) (simp add: book_view_def)
  then have "book_rep b' (spec_remove (bo_oid order) L)"
    using inv' book_repD(2) [OF rep] spec_queue_remove [OF book_repD(2) [OF rep] look]
    by (intro book_repI) simp_all
  with run show ?thesis unfolding empty by blast
qed

lemma remove_order_rep:
  assumes rep: "book_rep b L"
  shows "\<exists>b' out. remove_order user oid b = Some (b', out) \<and>
    (if \<exists>e \<in> set L. rs_oid e = oid \<and> rs_user e = user
     then book_rep b' (spec_remove oid L) \<and> (\<exists>r. out = Removed r \<and> bo_oid (ro_order r) = oid \<and>
       bo_user (ro_order r) = user \<and> spec_lookup L oid = Some (entry_of oid (node_of (ro_order r))))
     else b' = b \<and> out = NotFound)"
proof (cases "user_index b user oid")
  case None
  with book_rep_user_index(1) [OF rep, of user oid] show ?thesis by (simp add: remove_order_def)
next
  case (Some i)
  then obtain order where order: "order_at b i = Some order" "bo_oid order = oid" "bo_user order = user"
    using book_rep_user_index(2) [OF rep] by blast
  have "\<exists>e \<in> set L. rs_oid e = oid \<and> rs_user e = user"
    using book_rep_user_index(1) [OF rep, of user oid] Some by simp
  then show ?thesis
    using remove_order_at_rep [OF rep order(1)] book_rep_order [OF rep order(1)] Some order
    by (auto simp: remove_order_def entry_of_def)
qed


section \<open>Resizing\<close>

lemma queue_inv_resize:
  assumes "queue_inv h Q"
  shows "queue_inv (modify (Some oid) (\<lambda>m. m\<lparr>on_sz := z\<rparr>) h) Q"
proof -
  have "\<exists>m0. h x = Some m0 \<and> on_side m = on_side m0 \<and> on_px m = on_px m0 \<and> on_prev m = on_prev m0 \<and>
      on_next m = on_next m0" if "modify (Some oid) (\<lambda>m. m\<lparr>on_sz := z\<rparr>) h x = Some m" for x m
    using that by (auto simp: modify_apply split: if_splits)
  then have "x \<in> set (Q (on_side m) (on_px m)) \<and> on_prev m = pred_in (Q (on_side m) (on_px m)) x \<and>
      on_next m = succ_in (Q (on_side m) (on_px m)) x"
    if "modify (Some oid) (\<lambda>m. m\<lparr>on_sz := z\<rparr>) h x = Some m" for x m
    using that queue_invD(2,3,4) [OF assms] by metis
  moreover have "\<exists>m. modify (Some oid) (\<lambda>m. m\<lparr>on_sz := z\<rparr>) h x = Some m \<and> on_side m = s \<and> on_px m = px"
    if "x \<in> set (Q s px)" for x s px
    using queue_invD(5) [OF assms that] by (auto simp: modify_apply)
  ultimately show ?thesis unfolding queue_inv_def using queue_invD(1) [OF assms] by simp
qed

lemma queue_sz_resize:
  "distinct xs \<Longrightarrow> oid \<in> set xs \<Longrightarrow> h oid = Some n \<Longrightarrow>
     queue_sz (modify (Some oid) (\<lambda>m. m\<lparr>on_sz := z\<rparr>) h) xs = queue_sz h xs - on_sz n + z"
proof (induction xs)
  case (Cons x xs)
  have "queue_sz (modify (Some oid) (\<lambda>m. m\<lparr>on_sz := z\<rparr>) h) xs = queue_sz h xs" if "oid \<notin> set xs"
    by (rule queue_sz_cong) (use that in \<open>auto simp: modify_apply\<close>)
  with Cons show ?case by (auto simp: queue_sz_def modify_apply)
qed simp

lemma resize_slot:
  fixes z :: int
  assumes "store_inv b" and "order_at b i = Some order"
  defines "c \<equiv> set_order_at i (Some (order\<lparr>bo_resting_sz := z\<rparr>)) b"
  shows "store_inv c" and "nodes c = modify (Some (bo_oid order)) (\<lambda>m. m\<lparr>on_sz := z\<rparr>) (nodes b)"
    and "live_sz c = live_sz b - bo_resting_sz order + z"
proof -
  have idx: "index_inv b" using assms(1) by (simp add: store_inv_def)
  have c: "c = order_by_oid_mut (bo_oid order) (\<lambda>o'. o'\<lparr>bo_resting_sz := z\<rparr>) b"
    using index_inv_live(1) [OF idx assms(2)] assms(2) by (simp add: c_def order_by_oid_mut_def)
  show "store_inv c" unfolding c using assms(1) by (rule store_inv_mut) simp_all
  show "nodes c = modify (Some (bo_oid order)) (\<lambda>m. m\<lparr>on_sz := z\<rparr>) (nodes b)"
    unfolding c using idx by (rule nodes_mut) (simp_all add: node_of_def)
  show "live_sz c = live_sz b - bo_resting_sz order + z"
    unfolding c_def using live_sz_set [OF order_at_less [OF assms(2)]] assms(2) by simp
qed

lemma resize_level:
  assumes inv: "book_inv b Q" and node: "nodes b oid = Some n" and z: "0 < z"
    and c: "index_inv c" "nodes c = modify (Some oid) (\<lambda>m. m\<lparr>on_sz := z\<rparr>) (nodes b)"
      "in_i64 (live_sz c)"
  defines "s \<equiv> on_side n" and "px \<equiv> on_px n"
  defines "tot \<equiv> queue_sz (nodes b) (Q s px) - on_sz n + z"
  defines "lv \<equiv> bt_insert (tree_key s px) \<lparr>bl_first = first_of (Q s px), bl_last = last_of (Q s px),
      bl_total_sz = tot\<rparr> (levels b s)"
  shows "map_of (levels b s) (tree_key s px) = Some \<lparr>bl_first = first_of (Q s px), bl_last = last_of (Q s px),
      bl_total_sz = queue_sz (nodes b) (Q s px)\<rparr>"
    and "in_i64 tot" and "level_inv (nodes c) (if s' = s then lv else levels b s') s' (Q s')"
proof -
  note wf = book_invD [OF inv]
  have q: "oid \<in> set (Q s px)" using queue_invD(2) [OF wf(7) node] by (simp add: s_def px_def)
  have dist: "distinct (Q s px)" using queue_invD(1) [OF wf(7)] .
  have tot: "queue_sz (nodes c) (Q s px) = tot"
    using queue_sz_resize [where h = "nodes b" and z = z, OF dist q node] by (simp add: c(2) tot_def)
  have pos: "\<And>x m. nodes c x = Some m \<Longrightarrow> 0 < on_sz m"
    using wf(9) z by (auto simp: c(2) modify_apply split: if_splits)
  show "map_of (levels b s) (tree_key s px) = Some \<lparr>bl_first = first_of (Q s px), bl_last = last_of (Q s px),
      bl_total_sz = queue_sz (nodes b) (Q s px)\<rparr>"
    using wf(8) [of s] q by (auto simp: level_inv_def)
  have "0 \<le> queue_sz (nodes c) (Q s px)" using pos by (rule queue_sz_nonneg)
  moreover have "queue_sz (nodes c) (Q s px) \<le> live_sz c" using c(1) pos dist by (rule queue_sz_le_live)
  ultimately show "in_i64 tot" using c(3) by (simp add: tot in_i64_def i64_min_def i64_max_def)
  have only: "oid \<notin> set (Q s1 px1)" if "\<not> (s1 = s \<and> px1 = px)" for s1 px1
    using queue_invD(5) [OF wf(7), of oid s1 px1] node that by (auto simp: s_def px_def)
  have sz: "map_option on_sz (nodes b x) = map_option on_sz (nodes c x)" if "x \<noteq> oid" for x
    using that by (simp add: c(2) modify_apply)
  show "level_inv (nodes c) (if s' = s then lv else levels b s') s' (Q s')"
  proof (cases "s' = s")
    case True
    have "level_inv (nodes c) lv s ((Q s)(px := Q s px))"
    proof (rule level_inv_update [OF wf(8)])
      show "map_option on_sz (nodes b x) = map_option on_sz (nodes c x)" if "px' \<noteq> px" "x \<in> set (Q s px')" for px' x
        using only [of s px'] that by (intro sz) auto
      show "map_of lv = (map_of (levels b s))(tree_key s px := (if Q s px = [] then None else
          Some \<lparr>bl_first = first_of (Q s px), bl_last = last_of (Q s px), bl_total_sz = queue_sz (nodes c) (Q s px)\<rparr>))"
        using q by (auto simp: lv_def tot)
    qed
    with True show ?thesis by simp
  next
    case False
    have "level_inv (nodes c) (levels b s') s' (Q s')"
      by (intro level_inv_cong [OF wf(8)] sz) (use only False in auto)
    with False show ?thesis by simp
  qed
qed

lemma update_order_sz_rep:
  assumes rep: "book_rep b L" and new: "0 < z" "in_i64 z"
    and e: "e \<in> set L" "rs_oid e = oid" "rs_user e = user"
    and room: "in_i64 (bk_total_resting_sz b - rs_sz e + z)"
  shows "\<exists>b'. update_order_sz user oid z b = Some (b', NotFound) \<and> book_rep b' (spec_resize oid z L)"
proof -
  note inv = book_repD(1) [OF rep]
  note wf = book_invD [OF inv]
  have "user_index b user oid \<noteq> None" using book_rep_user_index(1) [OF rep, of user oid] e by blast
  then obtain i where i: "user_index b user oid = Some i" by blast
  then obtain order where order: "order_at b i = Some order" "bo_oid order = oid" "bo_user order = user"
    using book_rep_user_index(2) [OF rep] by blast
  have eq: "e = entry_of oid (node_of order)"
    using book_rep_order [OF rep order(1)] spec_lookup_mem [OF book_repD(2) [OF rep] e(1)] e(2) order(2)
    by (simp add: entry_of_def)
  let ?n = "node_of order" and ?s = "bo_side order" and ?px = "bo_limit_px order"
  let ?q = "spec_queue L ?s ?px"
  let ?total = "queue_sz (nodes b) ?q - bo_resting_sz order + z"
  have node: "nodes b oid = Some ?n"
    using index_inv_live(2) [OF wf(2) order(1)] order(2) by (simp add: nodes_def)
  define c where "c = set_order_at i (Some (order\<lparr>bo_resting_sz := z\<rparr>)) b"
  note slot = resize_slot [OF wf(1) order(1), of z, folded c_def, unfolded order(2)]
  have live: "in_i64 (live_sz c)" using room slot(3) wf(5) eq by (simp add: entry_of_def)
  have idx: "index_inv c" using slot(1) by (simp add: store_inv_def)
  note lev = resize_level [OF inv node new(1) idx slot(2) live, unfolded node_of_sel]
  have "distinct [oid]" by simp
  with wf(2) wf(9) have "queue_sz (nodes b) [oid] \<le> live_sz b" by (rule queue_sz_le_live)
  then have delta: "wrap_i64 (z - bo_resting_sz order) = z - bo_resting_sz order"
    using new wf(6) wf(9) [OF node] node
    by (intro wrap_i64_id) (simp add: in_i64_def i64_min_def i64_max_def queue_sz_def)
  define lv where "lv = bt_insert (tree_key ?s ?px) \<lparr>bl_first = first_of ?q, bl_last = last_of ?q,
      bl_total_sz = ?total\<rparr> (levels b ?s)"
  have lvc: "levels c s' = levels b s'" for s' by (cases s') (simp_all add: c_def)
  define b' where "b' = (levels_mut ?s lv c)\<lparr>bk_total_resting_sz := live_sz c\<rparr>"
  have tc: "bk_total_resting_sz c = live_sz b" using wf(5) by (simp add: c_def)
  have run: "update_order_sz user oid z b = Some (b', NotFound)"
    using new i order lev(1,2) live tc
    by (simp add: update_order_sz_def c_def [symmetric] Let_def delta lvc checked_add_i64_def
        add_total_def b'_def lv_def slot(3) algebra_simps)
  have view: "nodes b' = nodes c" "live_sz b' = live_sz c" by (rule view_cong; simp add: b'_def)+
  have st: "store_inv b'"
    unfolding b'_def using slot(1) levels_wf [OF wf(4)]
    by (intro store_inv_total store_inv_levels_mut) (simp_all add: lv_def)
  have "book_inv b' (spec_queue L)"
  proof (rule book_invI [OF st])
    show "bk_total_resting_sz b' = live_sz b'" unfolding view by (simp add: b'_def)
    show "in_i64 (live_sz b')" unfolding view by (rule live)
    show "queue_inv (nodes b') (spec_queue L)" unfolding view slot(2) using wf(7) by (rule queue_inv_resize)
    have "levels b' s' = (if s' = ?s then lv else levels b s')" for s' by (simp add: b'_def lvc)
    then show "level_inv (nodes b') (levels b' s') s' (spec_queue L s')" for s'
      using lev(3) [of s'] unfolding view lv_def by presburger
    show "0 < on_sz m \<and> 0 < on_px m" if "nodes b' x = Some m" for x m
      using that wf(9,10) new by (auto simp: view slot(2) modify_apply split: if_splits)
  qed
  then have "book_rep b' (spec_resize oid z L)"
  proof (rule book_repI)
    show "book_view (nodes b') x = spec_lookup (spec_resize oid z L) x" for x
      using book_repD(3) [OF rep, of x] node
      by (auto simp: view slot(2) book_view_def modify_apply spec_lookup_resize entry_of_def dest: sym)
  qed (use book_repD(2) [OF rep] in simp_all)
  with run show ?thesis by blast
qed

end
