(* ===== verification/Book_Properties.thy ===== *)
theory Book_Properties
  imports Book_Refinement
begin

text \<open>
  What the resting book promises its clients: every operation refines the list of live orders, the
  best prices and the top order are those of the list, and rejected requests change nothing.
\<close>

section \<open>The top of the book\<close>

lemma level_keys:
  assumes "book_rep b L"
  shows "fst ` set (levels b s) = tree_key s ` spec_prices L s"
proof -
  have "map_of (levels b s) k = None \<longleftrightarrow> px_from_tree_key s k \<notin> spec_prices L s" for k
    using book_invD(8) [OF book_repD(1) [OF assms], of s, unfolded level_inv_def, rule_format, of "px_from_tree_key s k"]
    by (simp add: spec_queue_empty)
  then have "k \<in> fst ` set (levels b s) \<longleftrightarrow> px_from_tree_key s k \<in> spec_prices L s" for k
    by (metis map_of_eq_None_iff)
  then have "fst ` set (levels b s) = {k. px_from_tree_key s k \<in> spec_prices L s}" by blast
  also have "\<dots> = tree_key s ` spec_prices L s"
    using tree_key_inverse [of s] by (auto intro!: image_eqI [where x = "px_from_tree_key s k" for k])
  finally show ?thesis .
qed

lemma finite_spec_prices [simp]: "finite (spec_prices L s)"
  by (simp add: spec_prices_def)

lemma first_level_key:
  assumes rep: "book_rep b L"
  shows "bt_first_key (levels b s) =
    (if spec_prices L s = {} then None else Some (Min (tree_key s ` spec_prices L s)))"
proof (cases "bt_first_key (levels b s)")
  case None
  then have "levels b s = []" by (simp add: bt_first_key_None)
  with level_keys [OF rep, of s] None show ?thesis by auto
next
  case (Some k)
  have wf: "bt_wf (levels b s)" using book_invD(4) [OF book_repD(1) [OF rep]] by (rule levels_wf)
  have keys: "k \<in> tree_key s ` spec_prices L s" "\<And>x. x \<in> tree_key s ` spec_prices L s \<Longrightarrow> k \<le> x"
    using bt_first_key_least [OF wf Some] by (simp_all add: level_keys [OF rep])
  then have "Min (tree_key s ` spec_prices L s) = k" by (intro Min_eqI) auto
  with keys Some show ?thesis by auto
qed

lemma neg_Min: "finite A \<Longrightarrow> A \<noteq> {} \<Longrightarrow> - Min (uminus ` A) = Max A" for A :: "int set"
  by (simp add: image_image)

definition best_px :: "resting list \<Rightarrow> side \<Rightarrow> int" where
  "best_px L s = (if spec_prices L s = {} then 0
     else case s of Bid \<Rightarrow> Max (spec_prices L Bid) | Ask \<Rightarrow> Min (spec_prices L Ask))"

lemma best_bid_ask_best_px:
  assumes "book_rep b L"
  shows "bba_bid (get_best_bid_ask b) = best_px L Bid" and "bba_ask (get_best_bid_ask b) = best_px L Ask"
  using first_level_key [OF assms, of Bid] first_level_key [OF assms, of Ask]
  by (auto simp: get_best_bid_ask_def best_px_def image_image)

lemma spec_prices_pos:
  assumes rep: "book_rep b L" and "px \<in> spec_prices L s"
  shows "0 < px"
proof -
  obtain e where e: "e \<in> set L" "rs_px e = px" using assms(2) by (auto simp: spec_prices_def)
  with book_repD(3) [OF rep, of "rs_oid e"] spec_lookup_mem [OF book_repD(2) [OF rep]]
  obtain n where "nodes b (rs_oid e) = Some n" "entry_of (rs_oid e) n = e" by auto
  moreover from this(2) have "on_px n = rs_px e" by (metis entry_of_def resting.select_convs(4))
  ultimately show ?thesis using book_invD(10) [OF book_repD(1) [OF rep], of "rs_oid e" n] e by simp
qed

lemma best_px_in: "spec_prices L s \<noteq> {} \<Longrightarrow> best_px L s \<in> spec_prices L s"
  by (cases s) (simp_all add: best_px_def)

lemma best_px_zero: "book_rep b L \<Longrightarrow> best_px L s = 0 \<longleftrightarrow> spec_prices L s = {}"
  using spec_prices_pos [of b L "best_px L s" s] best_px_in [of L s]
  by (cases "spec_prices L s = {}") (auto simp: best_px_def)

definition spec_crosses :: "resting list \<Rightarrow> side \<Rightarrow> int \<Rightarrow> bool" where
  "spec_crosses L s px \<longleftrightarrow>
     (\<exists>e \<in> set L. rs_side e = opposite s \<and> (case s of Bid \<Rightarrow> rs_px e \<le> px | Ask \<Rightarrow> px \<le> rs_px e))"

lemma crosses_spec:
  assumes rep: "book_rep b L"
  shows "crosses b s px \<longleftrightarrow> spec_crosses L s px"
proof -
  have "crosses b Bid px \<longleftrightarrow> (\<exists>p \<in> spec_prices L Ask. p \<le> px)"
    unfolding crosses_def Let_def best_bid_ask_best_px [OF rep] side.case best_px_zero [OF rep]
    by (auto simp: best_px_def Min_le_iff)
  moreover have "crosses b Ask px \<longleftrightarrow> (\<exists>p \<in> spec_prices L Bid. px \<le> p)"
    unfolding crosses_def Let_def best_bid_ask_best_px [OF rep] side.case best_px_zero [OF rep]
    by (auto simp: best_px_def Max_ge_iff)
  ultimately show ?thesis
    by (cases s) (auto simp: spec_crosses_def spec_prices_def)
qed

lemma top_order_queue:
  assumes rep: "book_rep b L"
  shows "map_option bo_oid (top_order b s) = first_of (spec_queue L s (best_px L s))"
proof (cases "levels b s")
  case Nil
  then have none: "spec_prices L s = {}" using level_keys [OF rep, of s] by simp
  then have "spec_queue L s (best_px L s) = []" by (simp add: spec_queue_empty)
  with Nil show ?thesis by (simp add: top_order_def)
next
  case (Cons kl rest)
  obtain k level where kl: "kl = (k, level)" by force
  note inv = book_repD(1) [OF rep]
  have ne: "spec_prices L s \<noteq> {}" using level_keys [OF rep, of s] Cons by auto
  have "k = Min (tree_key s ` spec_prices L s)"
    using first_level_key [OF rep, of s] ne Cons kl by (simp add: bt_first_key_def)
  then have k: "k = tree_key s (best_px L s)"
    using ne neg_Min [of "spec_prices L s"] by (cases s) (simp_all add: best_px_def)
  let ?q = "spec_queue L s (best_px L s)"
  have q: "?q \<noteq> []" using best_px_in [OF ne] by (simp add: spec_queue_empty)
  have "map_of (levels b s) k = Some level" using Cons kl by simp
  then have "bl_first level = first_of ?q"
    using book_invD(8) [OF inv, of s] q k by (auto simp: level_inv_def)
  moreover obtain x where x: "first_of ?q = Some x" using q by (cases ?q) auto
  moreover obtain n where "nodes b x = Some n"
    using queue_invD(5) [OF book_invD(7) [OF inv] first_of_in [OF x]] by blast
  then obtain order where "order_by_oid b x = Some order" "bo_oid order = x"
    using order_by_oid_inj [OF book_invD(2) [OF inv]] by (auto simp: nodes_def)
  ultimately show ?thesis using Cons kl by (simp add: top_order_def)
qed

section \<open>The total\<close>

lemma live_sz_total:
  assumes rep: "book_rep b L"
  shows "live_sz b = spec_total L"
proof -
  note inv = book_repD(1) [OF rep]
  have idx: "index_inv b" using book_invD(2) [OF inv] .
  let ?f = "\<lambda>i. opt_val bo_resting_sz (order_at b i)" and ?g = "\<lambda>e. the (index_for_oid b (rs_oid e))"
  have g: "\<exists>order. index_for_oid b (rs_oid e) = Some (?g e) \<and> order_at b (?g e) = Some order \<and>
      bo_oid order = rs_oid e \<and> bo_resting_sz order = rs_sz e" if "e \<in> set L" for e
  proof -
    have "index_for_oid b (rs_oid e) \<noteq> None" using book_rep_index [OF rep] that by blast
    then obtain i where i: "index_for_oid b (rs_oid e) = Some i" by blast
    then obtain order where order: "order_at b i = Some order" "bo_oid order = rs_oid e"
      using index_for_oidD [OF idx] by blast
    have "rs_sz e = bo_resting_sz order"
      using book_rep_order [OF rep order(1)] spec_lookup_mem [OF book_repD(2) [OF rep] that] order(2)
      by (metis option.inject resting.select_convs(5))
    with i order show ?thesis by simp
  qed
  have inj: "inj_on ?g (set L)"
  proof (rule inj_onI)
    fix e e' assume e: "e \<in> set L" "e' \<in> set L" "?g e = ?g e'"
    with g have "rs_oid e = rs_oid e'" by (metis option.inject)
    with e spec_lookup_mem [OF book_repD(2) [OF rep]] show "e = e'" by (metis option.inject)
  qed
  have img: "?g ` set L = {i \<in> {..<length (bk_orders b)}. order_at b i \<noteq> None}"
  proof (intro equalityI subsetI)
    fix i assume "i \<in> ?g ` set L"
    with g order_at_less show "i \<in> {i \<in> {..<length (bk_orders b)}. order_at b i \<noteq> None}" by fastforce
  next
    fix i assume "i \<in> {i \<in> {..<length (bk_orders b)}. order_at b i \<noteq> None}"
    then obtain order where order: "order_at b i = Some order" by blast
    from spec_lookup_oid [OF book_rep_order [OF rep order]] index_inv_live(1) [OF idx order]
    show "i \<in> ?g ` set L" by (metis (no_types, lifting) image_eqI option.sel)
  qed
  have "spec_total L = (\<Sum>e\<in>set L. rs_sz e)"
    using book_repD(2) [OF rep] unfolding spec_total_def
    by (intro sum_list_distinct_conv_sum_set) (simp add: distinct_map)
  also have "\<dots> = (\<Sum>e\<in>set L. ?f (?g e))" by (rule sum.cong) (use g in \<open>force+\<close>)
  also have "\<dots> = (\<Sum>i\<in>?g ` set L. ?f i)" by (simp add: sum.reindex [OF inj])
  also have "\<dots> = (\<Sum>i<length (bk_orders b). ?f i)"
    unfolding img by (rule sum.mono_neutral_left) auto
  also have "\<dots> = live_sz b" by (simp add: live_sz_def sum_list_sum_nth order_at_def atLeast0LessThan)
  finally show ?thesis by simp
qed


lemma book_rep_total: "book_rep b L \<Longrightarrow> bk_total_resting_sz b = spec_total L"
  using live_sz_total book_invD(5) [OF book_repD(1)] by metis

section \<open>The whole operations\<close>

lemma insert_order_rejected:
  assumes "insert_order args asset ctx b = Some (b', Rejected code)" shows "b' = b"
  using assms by (auto simp: insert_order_def bind_eq_Some_conv split: if_splits)

lemma insert_order_rested:
  assumes "insert_order args asset ctx b = Some (b', Rested oid px sz)"
  shows "insert_resting_order args b = Some b'" and "oid = ia_oid args \<and> px = ia_limit_px args \<and> sz = ia_sz args"
    and "\<not> reject_duplicate b (ia_user args) (ia_oid args)" and "validate_oid_asset b (ia_oid args) asset ctx"
    and "valid_price (ia_limit_px args) (ac_tick_size asset)" and "0 < ia_sz args"
    and "valid_notional (ia_sz args) (ia_limit_px args)"
    and "ia_post_only args \<Longrightarrow> \<not> crosses b (ia_side args) (ia_limit_px args)"
  using assms by (auto simp: insert_order_def bind_eq_Some_conv split: if_splits)

lemma insert_order_rep:
  assumes rep: "book_rep b L" and run: "insert_order args asset ctx b = Some (b', Rested oid px sz)"
  shows "book_rep b' (L @ [resting_of_args args])" and "oid \<notin> rs_oid ` set L"
proof -
  note r = insert_order_rested [OF run]
  have fresh: "index_for_oid b (ia_oid args) = None"
    using r(3) by (simp add: reject_duplicate_def bt_contains_def index_for_oid_def)
  have "0 < ia_limit_px args" using r(5) by (simp add: valid_price_def)
  from insert_resting_rep [OF rep fresh r(6) this insert_resting_total [OF r(1)]] r(1)
  show "book_rep b' (L @ [resting_of_args args])" by simp
  show "oid \<notin> rs_oid ` set L" using book_rep_index [OF rep] fresh r(2) by simp
qed

text \<open>A request that passes the admission checks never panics while the size total has room.\<close>

lemma insert_order_total:
  assumes rep: "book_rep b L" and room: "in_i64 (spec_total L + ia_sz args)"
  shows "insert_order args asset ctx b \<noteq> None"
proof (cases "reject_duplicate b (ia_user args) (ia_oid args) \<or>
    \<not> valid_price (ia_limit_px args) (ac_tick_size asset) \<or> ia_sz args \<le> 0")
  case True
  then show ?thesis by (auto simp: insert_order_def)
next
  case False
  then have "index_for_oid b (ia_oid args) = None" "0 < ia_sz args" "0 < ia_limit_px args"
    by (auto simp: reject_duplicate_def bt_contains_def index_for_oid_def valid_price_def)
  from insert_resting_rep [OF rep this] room book_rep_total [OF rep] show ?thesis
    by (auto simp: insert_order_def)
qed

lemma remove_order_by_oid_rep:
  assumes rep: "book_rep b L"
  shows "\<exists>b' out. remove_order_by_oid oid b = Some (b', out) \<and> book_rep b' (spec_remove oid L) \<and>
    (out = NotFound \<longleftrightarrow> oid \<notin> rs_oid ` set L)"
proof (cases "index_for_oid b oid")
  case None
  then have "oid \<notin> rs_oid ` set L" using book_rep_index [OF rep] by simp
  moreover from this have "spec_remove oid L = L" by (auto simp: spec_remove_def intro!: filter_True)
  ultimately show ?thesis using None rep by (simp add: remove_order_by_oid_def)
next
  case (Some i)
  then obtain order where order: "order_at b i = Some order" "bo_oid order = oid"
    using index_for_oidD [OF book_invD(2) [OF book_repD(1) [OF rep]]] by blast
  from spec_lookup_oid [OF book_rep_order [OF rep order(1)]] order(2)
  have ex: "\<exists>e \<in> set L. rs_oid e = oid \<and> rs_user e = bo_user order" by force
  then have mem: "oid \<in> rs_oid ` set L" by force
  from remove_order_rep [OF rep, of "bo_user order" oid] ex obtain b' r where
    "remove_order (bo_user order) oid b = Some (b', Removed r)" "book_rep b' (spec_remove oid L)" by auto
  with Some order mem show ?thesis by (simp add: remove_order_by_oid_def)
qed

lemma update_order_sz_absent:
  assumes rep: "book_rep b L" and "0 < z" and none: "\<not> (\<exists>e \<in> set L. rs_oid e = oid \<and> rs_user e = user)"
  shows "update_order_sz user oid z b = Some (b, NotFound)"
  using book_rep_user_index(1) [OF rep, of user oid] assms(2) none by (simp add: update_order_sz_def)

lemma update_order_sz_room:
  assumes rep: "book_rep b L" and z: "0 < z" "in_i64 z" and e: "e \<in> set L"
    and run: "update_order_sz (rs_user e) (rs_oid e) z b = Some (b', out)"
  shows "in_i64 (bk_total_resting_sz b - rs_sz e + z)"
proof -
  note wf = book_invD [OF book_repD(1) [OF rep]]
  have "user_index b (rs_user e) (rs_oid e) \<noteq> None"
    using book_rep_user_index(1) [OF rep, of "rs_user e" "rs_oid e"] e by blast
  then obtain i order where i: "user_index b (rs_user e) (rs_oid e) = Some i"
    and order: "order_at b i = Some order" "bo_oid order = rs_oid e" "bo_user order = rs_user e"
    using book_rep_user_index(2) [OF rep] by blast
  have node: "nodes b (rs_oid e) = Some (node_of order)"
    using index_inv_live(2) [OF wf(2) order(1)] order(2) by (simp add: nodes_def)
  have sz: "rs_sz e = bo_resting_sz order"
    using book_rep_order [OF rep order(1)] spec_lookup_mem [OF book_repD(2) [OF rep] e] order(2)
    by (metis option.inject resting.select_convs(5))
  have "distinct [rs_oid e]" by simp
  with wf(2) wf(9) have "queue_sz (nodes b) [rs_oid e] \<le> live_sz b" by (rule queue_sz_le_live)
  then have delta: "wrap_i64 (z - bo_resting_sz order) = z - bo_resting_sz order"
    using z wf(6) wf(9) [OF node] node
    by (intro wrap_i64_id) (simp add: in_i64_def i64_min_def i64_max_def queue_sz_def)
  have tot: "bk_total_resting_sz (levels_mut s lv (set_order_at i x b)) = bk_total_resting_sz b" for s lv x
    by (cases s) simp_all
  show ?thesis
    using run z i order sz
    by (auto simp: update_order_sz_def Let_def delta add_total_def checked_add_i64_def bind_eq_Some_conv tot
        algebra_simps split: if_splits)
qed

lemma update_order_sz_spec:
  assumes rep: "book_rep b L" and z: "in_i64 z" and run: "update_order_sz user oid z b = Some (b', out)"
  shows "book_rep b' (if \<exists>e \<in> set L. rs_oid e = oid \<and> rs_user e = user
     then (if z \<le> 0 then spec_remove oid L else spec_resize oid z L) else L)"
proof (cases "z \<le> 0")
  case True
  then show ?thesis using remove_order_rep [OF rep, of user oid] run rep by (auto simp: update_order_sz_def)
next
  case False
  show ?thesis
  proof (cases "\<exists>e \<in> set L. rs_oid e = oid \<and> rs_user e = user")
    case True
    then obtain e where e: "e \<in> set L" "rs_oid e = oid" "rs_user e = user" by blast
    have "in_i64 (bk_total_resting_sz b - rs_sz e + z)"
      using update_order_sz_room [OF rep _ z e(1)] False run e by simp
    from update_order_sz_rep [OF rep _ z e this] False True run show ?thesis by auto
  next
    case absent: False
    from update_order_sz_absent [OF rep _ absent] False run absent rep show ?thesis by auto
  qed
qed

end
