(* ===== verification/Book_Checker.thy ===== *)
theory Book_Checker
  imports Book_Properties
begin

text \<open>
  The book's own debug checker.  On a book that represents a list of orders the walk along every
  level and the scan of the slots succeed, so the checker accepts exactly the books that are not
  crossed and whose parent, peer and child links are reciprocal.
\<close>

section \<open>Walking a level\<close>

lemma pred_in_mid: "distinct (xs @ y # ys) \<Longrightarrow> pred_in (xs @ y # ys) y = last_of xs"
proof (induction ys rule: rev_induct)
  case (snoc z zs)
  then show ?case using pred_in_snoc [of "xs @ y # zs" z y] by auto
qed (simp add: pred_in_snoc)

lemma succ_in_mid: "distinct (xs @ y # ys) \<Longrightarrow> succ_in (xs @ y # ys) y = first_of ys"
  by (induction xs) (auto simp: succ_in_Cons succ_in_absent)

lemma queue_sz_append: "queue_sz h (xs @ ys) = queue_sz h xs + queue_sz h ys"
  by (simp add: queue_sz_def)

lemma walk_level_queue:
  assumes inv: "book_inv b Q" and "Q s px = xs @ ys"
  shows "walk_level b s px (rev xs) (last_of xs) (last_of xs) (queue_sz (nodes b) xs) (first_of ys) =
    Some (last_of (Q s px), queue_sz (nodes b) (Q s px))"
  using assms(2)
proof (induction ys arbitrary: xs)
  case (Cons y ys)
  note wf = book_invD [OF inv]
  have dist: "distinct (xs @ y # ys)" using queue_invD(1) [OF wf(7), of s px] Cons.prems by simp
  obtain n where n: "nodes b y = Some n" "on_side n = s" "on_px n = px"
    using queue_invD(5) [OF wf(7), of y s px] Cons.prems by auto
  then obtain order where order: "order_by_oid b y = Some order" "n = node_of order" by (auto simp: nodes_def)
  have links: "bo_prev order = last_of xs" "bo_next order = first_of ys"
    using queue_invD(3,4) [OF wf(7) n(1)] order n Cons.prems pred_in_mid [OF dist] succ_in_mid [OF dist] by simp_all
  have nonneg: "0 \<le> queue_sz (nodes b) zs" for zs by (rule queue_sz_nonneg) (rule wf(9))
  have "queue_sz (nodes b) (Q s px) \<le> live_sz b"
    using wf(2) wf(9) queue_invD(1) [OF wf(7)] by (rule queue_sz_le_live)
  then have "in_i64 (queue_sz (nodes b) xs + bo_resting_sz order)"
    using wf(6) nonneg [of xs] nonneg [of ys] wf(9) [OF n(1)] order n
    by (simp add: Cons.prems queue_sz_append queue_sz_def in_i64_def i64_min_def i64_max_def)
  moreover have "queue_sz (nodes b) (xs @ [y]) = queue_sz (nodes b) xs + bo_resting_sz order"
    using n order by (simp add: queue_sz_snoc)
  ultimately show ?case
    using Cons.IH [of "xs @ [y]"] Cons.prems order links n dist
    by (simp add: checked_add_i64_def)
qed simp

lemma check_side_ok:
  assumes inv: "book_inv b Q"
  shows "check_side_invariants b s"
proof -
  have "case walk_level b s (px_from_tree_key s k) [] None None 0 (bl_first level) of
      None \<Rightarrow> False | Some (last', level_sz) \<Rightarrow> bl_last level = last' \<and> level_sz = bl_total_sz level"
    if "(k, level) \<in> set (levels b s)" for k level
  proof -
    let ?px = "px_from_tree_key s k"
    have "map_of (levels b s) k = Some level"
      using that bt_wf_map_of [OF levels_wf [OF book_invD(4) [OF inv]], of "(k, level)" s] by simp
    then have "level = \<lparr>bl_first = first_of (Q s ?px), bl_last = last_of (Q s ?px), bl_total_sz = queue_sz (nodes b) (Q s ?px)\<rparr>"
      using book_invD(8) [OF inv, of s, unfolded level_inv_def, rule_format, of ?px] by (simp split: if_splits)
    with walk_level_queue [OF inv, of s ?px "[]" "Q s ?px"] show ?thesis by simp
  qed
  then show ?thesis by (auto simp: check_side_invariants_def list_all_iff)
qed

section \<open>Scanning the slots\<close>

definition live_orders :: "book_order option list \<Rightarrow> book_order list" where
  "live_orders os = map the (filter (\<lambda>slot. slot \<noteq> None) os)"

lemma live_orders_simps [simp]:
  "live_orders [] = []" "live_orders (None # os) = live_orders os"
  "live_orders (Some order # os) = order # live_orders os"
  by (simp_all add: live_orders_def)

lemma live_orders_at: "set (live_orders (bk_orders b)) = {order. \<exists>i. order_at b i = Some order}"
  by (force simp: live_orders_def order_at_def in_set_conv_nth image_iff)

lemma live_sz_orders: "live_sz b = sum_list (map bo_resting_sz (live_orders (bk_orders b)))"
proof -
  have "sum_list (map (opt_val bo_resting_sz) os) = sum_list (map bo_resting_sz (live_orders os))" for os
  proof (induction os)
    case (Cons slot os)
    then show ?case by (cases slot) simp_all
  qed simp
  then show ?thesis by (simp add: live_sz_def)
qed

lemma live_orders_pos:
  assumes "book_inv b Q" and "order \<in> set (live_orders (bk_orders b))"
  shows "0 < bo_resting_sz order"
proof -
  note wf = book_invD [OF assms(1)]
  obtain i where "order_at b i = Some order" using assms(2) live_orders_at by blast
  from index_inv_live(2) [OF wf(2) this] have "nodes b (bo_oid order) = Some (node_of order)" by (simp add: nodes_def)
  from wf(9) [OF this] show ?thesis by simp
qed

lemma check_slots_scan:
  assumes inv: "book_inv b Q" and "bk_orders b = pre @ rest"
    and "set seen = bo_oid ` set (live_orders pre)" and "summed = sum_list (map bo_resting_sz (live_orders pre))"
  shows "check_slots b seen summed (enumerate (length pre) rest) =
    (if \<forall>order \<in> set (live_orders rest). check_relation_links b order
     then Some (rev (map bo_oid (live_orders rest)) @ seen,
                summed + sum_list (map bo_resting_sz (live_orders rest)))
     else None)"
  using assms(2-)
proof (induction rest arbitrary: pre seen summed)
  case (Cons slot rest)
  note wf = book_invD [OF inv]
  have pre: "bk_orders b = (pre @ [slot]) @ rest" using Cons.prems(1) by simp
  have app: "live_orders (as @ bs) = live_orders as @ live_orders bs" for as bs by (simp add: live_orders_def)
  show ?case
  proof (cases slot)
    case None
    with Cons.IH [OF pre] Cons.prems show ?thesis by (simp add: app)
  next
    case (Some order)
    have at: "order_at b (length pre) = Some order"
      using Cons.prems(1) Some by (simp add: order_at_def nth_append)
    note live = index_inv_live [OF wf(2) at]
    have new: "bo_oid order \<notin> set seen"
    proof
      assume "bo_oid order \<in> set seen"
      then obtain i o' where "i < length pre" "pre ! i = Some o'" "bo_oid o' = bo_oid order"
        using Cons.prems(2) by (auto simp: live_orders_def in_set_conv_nth)
      then have "order_at b i = Some o'" "i < length pre"
        using Cons.prems(1) by (simp_all add: order_at_def nth_append)
      with index_inv_live(1) [OF wf(2)] live(1) \<open>bo_oid o' = bo_oid order\<close> show False by fastforce
    qed
    have pos: "0 < bo_resting_sz o'" if "o' \<in> set (live_orders (pre @ slot # rest))" for o'
      using live_orders_pos [OF inv] that Cons.prems(1) by simp
    have "0 \<le> sum_list (map bo_resting_sz (live_orders pre))" "0 \<le> sum_list (map bo_resting_sz (live_orders rest))"
      using pos by (auto intro!: sum_list_nonneg simp: app Some less_imp_le)
    moreover have "live_sz b = summed + bo_resting_sz order + sum_list (map bo_resting_sz (live_orders rest))"
      using Cons.prems by (simp add: live_sz_orders app Some)
    ultimately have "in_i64 (summed + bo_resting_sz order)"
      using wf(6) pos [of order] Cons.prems(3) by (simp add: in_i64_def i64_min_def i64_max_def Some app)
    then show ?thesis
      using Cons.IH [OF pre, of "bo_oid order # seen" "summed + bo_resting_sz order"] Cons.prems(2,3) new pos [of order] live
      by (simp add: app Some checked_add_i64_def index_for_oid_def)
  qed
qed simp

lemma live_oids:
  assumes "book_inv b Q"
  shows "length (live_orders (bk_orders b)) = length (bk_order_by_oid b)"
proof -
  note wf = book_invD [OF assms]
  let ?os = "live_orders (bk_orders b)"
  have keys: "bo_oid ` set ?os = fst ` set (bk_order_by_oid b)"
  proof -
    have "oid \<in> fst ` set (bk_order_by_oid b) \<longleftrightarrow> (\<exists>i. index_for_oid b oid = Some i)" for oid
      unfolding index_for_oid_def using map_of_eq_None_iff [of "bk_order_by_oid b" oid] by auto
    moreover have "oid \<in> bo_oid ` {order. \<exists>i. order_at b i = Some order} \<longleftrightarrow> (\<exists>i. index_for_oid b oid = Some i)" for oid
      using index_for_oidD [OF wf(2), of oid] index_inv_live(1) [OF wf(2)] by blast
    ultimately show ?thesis unfolding live_orders_at by blast
  qed
  have "distinct (map bo_oid ?os)"
  proof -
    have "distinct (map bo_oid (live_orders os))" if "\<And>i j o1 o2. i < length os \<Longrightarrow> j < length os \<Longrightarrow>
        os ! i = Some o1 \<Longrightarrow> os ! j = Some o2 \<Longrightarrow> bo_oid o1 = bo_oid o2 \<Longrightarrow> i = j" for os
      using that
    proof (induction os)
      case (Cons slot os)
      have "distinct (map bo_oid (live_orders os))"
        using Cons.prems [of "Suc i" "Suc j" for i j] by (intro Cons.IH) auto
      moreover have "bo_oid order \<notin> bo_oid ` set (live_orders os)" if "slot = Some order" for order
        using Cons.prems [of 0 "Suc j" for j] that by (fastforce simp: live_orders_def in_set_conv_nth)
      ultimately show ?case by (cases slot) auto
    qed simp
    moreover have "i = j" if "i < length (bk_orders b)" "j < length (bk_orders b)"
      "bk_orders b ! i = Some o1" "bk_orders b ! j = Some o2" "bo_oid o1 = bo_oid o2" for i j o1 o2
      using index_inv_live(1) [OF wf(2), of i o1] index_inv_live(1) [OF wf(2), of j o2] that
      by (simp add: order_at_def)
    ultimately show ?thesis by blast
  qed
  then have "length ?os = card (bo_oid ` set ?os)" by (metis distinct_card length_map set_map)
  also have "\<dots> = length (bk_order_by_oid b)"
    unfolding keys using wf(4) bt_wf_distinct [of "bk_order_by_oid b"]
    by (metis distinct_card length_map maps_wf_def set_map)
  finally show ?thesis .
qed

lemma check_debug_iff:
  assumes rep: "book_rep b L"
  shows "check_debug_invariants b \<longleftrightarrow>
    \<not> (\<exists>e \<in> set L. \<exists>e' \<in> set L. rs_side e = Bid \<and> rs_side e' = Ask \<and> rs_px e' \<le> rs_px e) \<and>
    (\<forall>i order. order_at b i = Some order \<longrightarrow> check_relation_links b order)"
proof -
  note inv = book_repD(1) [OF rep]
  have crossed: "(bba_bid (get_best_bid_ask b) \<noteq> 0 \<and> bba_ask (get_best_bid_ask b) \<noteq> 0 \<and>
      bba_ask (get_best_bid_ask b) - 1 < bba_bid (get_best_bid_ask b)) \<longleftrightarrow>
      (\<exists>e \<in> set L. \<exists>e' \<in> set L. rs_side e = Bid \<and> rs_side e' = Ask \<and> rs_px e' \<le> rs_px e)" (is "?l \<longleftrightarrow> ?r")
  proof -
    have "?l \<longleftrightarrow> (\<exists>p \<in> spec_prices L Bid. \<exists>p' \<in> spec_prices L Ask. p' \<le> p)"
    proof (cases "spec_prices L Bid = {} \<or> spec_prices L Ask = {}")
      case False
      then have "Min (spec_prices L Ask) \<le> Max (spec_prices L Bid) \<longleftrightarrow>
          (\<exists>p \<in> spec_prices L Bid. \<exists>p' \<in> spec_prices L Ask. p' \<le> p)"
        by (auto simp: Min_le_iff Max_ge_iff)
      moreover have "x - 1 < y \<longleftrightarrow> x \<le> y" for x y :: int by linarith
      ultimately show ?thesis using False
        unfolding best_bid_ask_best_px [OF rep] best_px_zero [OF rep] by (simp add: best_px_def)
    qed (auto simp: best_bid_ask_best_px [OF rep] best_px_zero [OF rep])
    then show ?thesis by (auto simp: spec_prices_def)
  qed
  have scan: "check_slots b [] 0 (enumerate 0 (bk_orders b)) =
    (if \<forall>order \<in> set (live_orders (bk_orders b)). check_relation_links b order
     then Some (rev (map bo_oid (live_orders (bk_orders b))), live_sz b) else None)"
    using check_slots_scan [OF inv, of "[]" "bk_orders b" "[]" 0] by (simp add: live_sz_orders)
  show ?thesis
    using crossed check_side_ok [OF inv] live_oids [OF inv] book_invD(5) [OF inv]
    by (auto simp: check_debug_invariants_def Let_def scan live_orders_at)
qed


section \<open>Runs of the book\<close>

inductive book_step :: "book \<Rightarrow> book \<Rightarrow> bool" where
  insert: "insert_order args asset ctx b = Some (b', outcome) \<Longrightarrow> book_step b b'"
| remove: "remove_order user oid b = Some (b', removed) \<Longrightarrow> book_step b b'"
| remove_by_oid: "remove_order_by_oid oid b = Some (b', removed) \<Longrightarrow> book_step b b'"
| resize: "in_i64 z \<Longrightarrow> update_order_sz user oid z b = Some (b', removed) \<Longrightarrow> book_step b b'"

lemma book_rep_new: "book_rep (book_new asset) []"
proof -
  have "nodes (book_new asset) = Map.empty"
    by (simp add: nodes_def order_by_oid_def index_for_oid_def book_new_def fun_eq_iff)
  then show ?thesis
    by (intro book_repI [OF book_inv_new]) (simp_all add: spec_queue_def book_view_def fun_eq_iff)
qed

lemma book_step_rep:
  assumes "book_step b b'" and rep: "book_rep b L"
  shows "\<exists>L'. book_rep b' L'"
  using assms(1)
proof (cases rule: book_step.cases)
  case (insert args asset ctx outcome)
  then show ?thesis
    using insert_order_rep(1) [OF rep] insert_order_rejected rep by (cases outcome) blast+
next
  case (remove user oid removed)
  then show ?thesis using remove_order_rep [OF rep, of user oid] rep by (auto split: if_splits)
next
  case (remove_by_oid oid removed)
  then show ?thesis using remove_order_by_oid_rep [OF rep, of oid] by auto
next
  case (resize z user oid removed)
  then show ?thesis using update_order_sz_spec [OF rep] by blast
qed

interpretation book_run: invariant_system book_step "\<lambda>b. \<exists>L. book_rep b L"
  by unfold_locales (blast dest: book_step_rep)

section \<open>Example\<close>

definition example_args :: "nat \<Rightarrow> address \<Rightarrow> side \<Rightarrow> int \<Rightarrow> int \<Rightarrow> insert_order_args" where
  "example_args oid user s px sz = \<lparr>ia_oid = oid, ia_user = user, ia_side = s, ia_limit_px = px, ia_sz = sz,
     ia_post_only = False, ia_immediate_or_cancel = False, ia_reduce_only = False, ia_is_trigger = False,
     ia_parent = None, ia_peer = None, ia_cloid = None\<rparr>"

definition example_asset :: asset_context where
  "example_asset = \<lparr>ac_asset = 1, ac_tick_size = 1, ac_oracle_px = 100\<rparr>"

definition example_ctx :: insert_context where
  "example_ctx = \<lparr>ic_enforce_oid_asset = True, ic_allow_market_rest = False\<rparr>"

definition example_book :: book where
  "example_book =
     \<lparr>bk_orders = [Some \<lparr>bo_oid = 10001, bo_user = 7, bo_side = Ask, bo_limit_px = 105, bo_resting_sz = 3,
        bo_prev = None, bo_next = None, bo_parent = None, bo_peer = None, bo_child_oids = [],
        bo_reduce_only = False, bo_is_trigger = False, bo_cloid = None\<rparr>],
      bk_free_indexes = [], bk_order_by_oid = [(10001, 0)], bk_user_orders = [(7, [(10001, 0)])],
      bk_bids = [], bk_asks = [(105, \<lparr>bl_first = Some 10001, bl_last = Some 10001, bl_total_sz = 3\<rparr>)],
      bk_asset = 1, bk_total_resting_sz = 3, bk_mark_px = 0, bk_oracle_px = 0\<rparr>"

definition example_orders :: "resting list" where
  "example_orders = [\<lparr>rs_oid = 10001, rs_user = 7, rs_side = Ask, rs_px = 105, rs_sz = 3\<rparr>]"

lemma example_book_run:
  "insert_order (example_args 10001 7 Ask 105 3) example_asset example_ctx (book_new 1) =
     Some (example_book, Rested 10001 105 3)"
  by code_simp

lemma example_book_rep: "book_rep example_book example_orders"
  using insert_order_rep(1) [OF book_rep_new example_book_run]
  by (simp add: example_orders_def resting_of_args_def example_args_def)


lemma example_bid_run:
  assumes "px = 100 \<or> px = 110"
  shows "\<exists>b'. insert_order (example_args 10002 8 Bid px 5) example_asset example_ctx example_book =
    Some (b', Rested 10002 px 5)"
proof -
  have "index_for_oid example_book 10002 = None" "in_i64 (bk_total_resting_sz example_book + 5)" by code_simp+
  then have "insert_resting_order (example_args 10002 8 Bid px 5) example_book \<noteq> None"
    using insert_resting_rep [OF example_book_rep, of "example_args 10002 8 Bid px 5"] assms
    by (auto simp: example_args_def)
  moreover have "\<not> reject_duplicate example_book 8 10002"
    "validate_oid_asset example_book 10002 example_asset example_ctx" "valid_price 100 1"
    "valid_price 110 1" "valid_notional 5 100" "valid_notional 5 110" by code_simp+
  ultimately show ?thesis using assms by (auto simp: insert_order_def example_args_def example_asset_def)
qed

section \<open>Properties\<close>

text \<open>C2. Inserting refines the list of live orders: a rejected request leaves the book unchanged, and
  an accepted one carries a fresh id, does not cross if it is post-only, and puts the order at the end
  of the list, hence at the end of its price-time queue.\<close>

theorem insert_order_refines:
  assumes rep: "book_rep b L" and run: "insert_order args asset ctx b = Some (b', outcome)"
  shows "case outcome of
      Rejected code \<Rightarrow> b' = b
    | Rested oid px sz \<Rightarrow>
        oid = ia_oid args \<and> px = ia_limit_px args \<and> sz = ia_sz args \<and> oid \<notin> rs_oid ` set L \<and>
        (ia_post_only args \<longrightarrow> \<not> spec_crosses L (ia_side args) px) \<and>
        book_rep b' (L @ [resting_of_args args])"
proof (cases outcome)
  case (Rested oid px sz)
  note run' = run [unfolded Rested]
  show ?thesis
    using insert_order_rep [OF rep run'] insert_order_rested(2,8) [OF run'] crosses_spec [OF rep] Rested
    by simp
next
  case (Rejected code)
  with run show ?thesis by (simp add: insert_order_rejected)
qed

theorem insert_order_refines_witness:
  "\<exists>b'. insert_order (example_args 10002 8 Bid 100 5) example_asset example_ctx example_book =
       Some (b', Rested 10002 100 5) \<and>
     book_rep b' (example_orders @ [resting_of_args (example_args 10002 8 Bid 100 5)])"
proof -
  obtain b' where run: "insert_order (example_args 10002 8 Bid 100 5) example_asset example_ctx example_book =
      Some (b', Rested 10002 100 5)"
    using example_bid_run [of 100] by auto
  from insert_order_refines [OF example_book_rep this] run show ?thesis by simp
qed

text \<open>Inserting never panics: as long as the sum of all resting sizes with the new one fits an
  \<open>i64\<close>, every slot, neighbour and level the code dereferences with \<open>expect\<close> exists.\<close>

lemma insert_order_no_panic:
  assumes "book_rep b L" and "in_i64 (spec_total L + ia_sz args)"
  shows "\<exists>b' outcome. insert_order args asset ctx b = Some (b', outcome)"
  using insert_order_total [OF assms] by auto

lemma insert_order_no_panic_witness:
  "\<exists>b' outcome. insert_order (example_args 10002 8 Ask 105 5) example_asset example_ctx example_book =
     Some (b', outcome)"
proof -
  have "in_i64 (spec_total example_orders + ia_sz (example_args 10002 8 Ask 105 5))" by code_simp
  from insert_order_no_panic [OF example_book_rep this] show ?thesis .
qed

text \<open>C4. Cancelling refines filtering: it never panics, removes exactly the order with this id when
  it belongs to this user, returns that order, and otherwise leaves the book unchanged.\<close>

theorem remove_order_refines:
  assumes "book_rep b L"
  shows "\<exists>b' outcome. remove_order user oid b = Some (b', outcome) \<and>
    (if \<exists>e \<in> set L. rs_oid e = oid \<and> rs_user e = user
     then book_rep b' (spec_remove oid L) \<and> (\<exists>r. outcome = Removed r \<and> bo_oid (ro_order r) = oid \<and>
       bo_user (ro_order r) = user \<and> spec_lookup L oid = Some (entry_of oid (node_of (ro_order r))))
     else b' = b \<and> outcome = NotFound)"
  using assms by (rule remove_order_rep)

theorem remove_order_refines_witness:
  "\<exists>b' r. remove_order 7 10001 example_book = Some (b', Removed r) \<and> book_rep b' []"
  using remove_order_refines [OF example_book_rep, of 7 10001]
  by (auto simp: example_orders_def spec_remove_def)

text \<open>C5. Resizing refines mapping: a positive new size replaces the size of the order in place, so it
  keeps its place in the queue, and a non-positive one cancels; requests for an order the user does
  not own change nothing.\<close>

theorem update_order_sz_refines:
  assumes "book_rep b L" and "in_i64 z" and "update_order_sz user oid z b = Some (b', outcome)"
  shows "book_rep b' (if \<exists>e \<in> set L. rs_oid e = oid \<and> rs_user e = user
     then (if z \<le> 0 then spec_remove oid L else spec_resize oid z L) else L)"
  using assms by (rule update_order_sz_spec)

theorem update_order_sz_refines_witness:
  "\<exists>b'. update_order_sz 7 10001 9 example_book = Some (b', NotFound) \<and>
     book_rep b' [\<lparr>rs_oid = 10001, rs_user = 7, rs_side = Ask, rs_px = 105, rs_sz = 9\<rparr>]"
proof -
  let ?r = "update_order_sz 7 10001 9 example_book"
  have "snd (the ?r) = NotFound" and "?r \<noteq> None" by code_simp+
  then have run: "?r = Some (fst (the ?r), NotFound)" by (metis option.collapse prod.collapse)
  have "in_i64 9" by code_simp
  from update_order_sz_refines [OF example_book_rep this run]
  have "book_rep (fst (the ?r)) [\<lparr>rs_oid = 10001, rs_user = 7, rs_side = Ask, rs_px = 105, rs_sz = 9\<rparr>]"
    by (simp add: example_orders_def spec_resize_def)
  with run show ?thesis by blast
qed

text \<open>The top of the book is the best price, and within it the oldest order: the best bid and ask
  are the extreme prices of the live orders, and \<open>top_order\<close> is the first arrival at that price.\<close>

lemma top_of_book:
  assumes "book_rep b L"
  shows "bba_bid (get_best_bid_ask b) = (if spec_prices L Bid = {} then 0 else Max (spec_prices L Bid)) \<and>
    bba_ask (get_best_bid_ask b) = (if spec_prices L Ask = {} then 0 else Min (spec_prices L Ask)) \<and>
    map_option bo_oid (top_order b s) = first_of (spec_queue L s (best_px L s))"
  using best_bid_ask_best_px [OF assms] top_order_queue [OF assms, of s] by (simp add: best_px_def)

lemma top_of_book_witness:
  "bba_ask (get_best_bid_ask example_book) = 105 \<and> map_option bo_oid (top_order example_book Ask) = Some 10001"
  using top_of_book [OF example_book_rep, of Ask]
  by (simp add: example_orders_def spec_prices_def best_px_def spec_queue_def conj_commute cong: conj_cong)

text \<open>C6. Every book the operations can produce from the empty one represents a list of live orders,
  keeps the sum of their sizes as its total, and passes its own debug checker exactly when no bid
  reaches an ask and all parent, peer and child links are reciprocal.\<close>

theorem reachable_book:
  assumes "book_step\<^sup>*\<^sup>* (book_new asset) b"
  shows "\<exists>L. book_rep b L \<and> bk_total_resting_sz b = spec_total L \<and>
    (check_debug_invariants b \<longleftrightarrow>
      \<not> (\<exists>e \<in> set L. \<exists>e' \<in> set L. rs_side e = Bid \<and> rs_side e' = Ask \<and> rs_px e' \<le> rs_px e) \<and>
      (\<forall>i order. order_at b i = Some order \<longrightarrow> check_relation_links b order))"
proof -
  obtain L where L: "book_rep b L"
    using book_run.run_invar [OF assms] book_rep_new by blast
  show ?thesis by (rule exI [of _ L], intro conjI L book_rep_total [OF L] check_debug_iff [OF L])
qed

theorem reachable_book_witness:
  "\<exists>L. book_rep example_book L \<and> bk_total_resting_sz example_book = spec_total L"
  using reachable_book [OF r_into_rtranclp, OF book_step.insert, OF example_book_run] by blast

text \<open>An accepted order that crosses the book is put to rest unmatched: the result is a crossed
  book, which the debug checker refuses.\<close>

lemma crossing_insert_leaves_crossed_book:
  assumes rep: "book_rep b L" and run: "insert_order args asset ctx b = Some (b', Rested oid px sz)"
    and cross: "crosses b (ia_side args) (ia_limit_px args)"
  shows "\<not> check_debug_invariants b'"
proof -
  note rep' = insert_order_rep(1) [OF rep run]
  obtain e where "e \<in> set L" "rs_side e = opposite (ia_side args)"
    "case ia_side args of Bid \<Rightarrow> rs_px e \<le> ia_limit_px args | Ask \<Rightarrow> ia_limit_px args \<le> rs_px e"
    using cross by (auto simp: crosses_spec [OF rep] spec_crosses_def)
  then show ?thesis
    unfolding check_debug_iff [OF rep']
    by (cases "ia_side args") (auto simp: resting_of_args_def)
qed

lemma crossing_insert_leaves_crossed_book_witness:
  "\<exists>b'. insert_order (example_args 10002 8 Bid 110 5) example_asset example_ctx example_book =
     Some (b', Rested 10002 110 5) \<and> \<not> check_debug_invariants b'"
proof -
  obtain b' where run: "insert_order (example_args 10002 8 Bid 110 5) example_asset example_ctx example_book =
      Some (b', Rested 10002 110 5)"
    using example_bid_run [of 110] by auto
  have "crosses example_book (ia_side (example_args 10002 8 Bid 110 5)) (ia_limit_px (example_args 10002 8 Bid 110 5))"
    by code_simp
  from crossing_insert_leaves_crossed_book [OF example_book_rep run this] run show ?thesis by blast
qed

end
