(* ===== verification/Validator_Set.thy ===== *)
theory Validator_Set
  imports Rust_Prelude "HOL-Library.Monad_Syntax"
begin

text \<open>
  The voting set of the consensus protocol, \<open>node/consensus/validator_set.rs\<close>: stakes and jailed
  validators, the quorum threshold, the tally of a vote list, deltas between epochs, the history by
  round and the bincode encoding.  A validator index is a \<open>nat\<close> (\<open>u32\<close>), a stake a \<open>nat\<close> (\<open>u64\<close>), a
  byte a \<open>nat\<close> below 256.
\<close>

section \<open>Snapshots\<close>

record validator_set_snapshot =
  vs_stakes :: "(nat, nat) btree"
  vs_jailed_validators :: "nat bset"

definition drop_zero_stake_entries :: "validator_set_snapshot \<Rightarrow> validator_set_snapshot" where
  "drop_zero_stake_entries s = s\<lparr>vs_stakes := filter (\<lambda>e. snd e \<noteq> 0) (vs_stakes s)\<rparr>"

definition drop_unknown_jailed_entries :: "validator_set_snapshot \<Rightarrow> validator_set_snapshot" where
  "drop_unknown_jailed_entries s =
     s\<lparr>vs_jailed_validators := filter (bt_contains (vs_stakes s)) (vs_jailed_validators s)\<rparr>"

definition snapshot_new :: validator_set_snapshot where
  "snapshot_new = \<lparr>vs_stakes = [], vs_jailed_validators = []\<rparr>"

definition from_stakes :: "(nat, nat) btree \<Rightarrow> validator_set_snapshot" where
  "from_stakes stakes = drop_zero_stake_entries \<lparr>vs_stakes = stakes, vs_jailed_validators = []\<rparr>"

definition with_jailed :: "(nat, nat) btree \<Rightarrow> nat bset \<Rightarrow> validator_set_snapshot" where
  "with_jailed stakes jailed =
     drop_unknown_jailed_entries (drop_zero_stake_entries \<lparr>vs_stakes = stakes, vs_jailed_validators = jailed\<rparr>)"

definition contains_validator :: "validator_set_snapshot \<Rightarrow> nat \<Rightarrow> bool" where
  "contains_validator s validator \<longleftrightarrow> bt_contains (vs_stakes s) validator"

definition raw_stake :: "validator_set_snapshot \<Rightarrow> nat \<Rightarrow> nat option" where
  "raw_stake s validator = map_of (vs_stakes s) validator"

definition is_jailed :: "validator_set_snapshot \<Rightarrow> nat \<Rightarrow> bool" where
  "is_jailed s validator \<longleftrightarrow> validator \<in> set (vs_jailed_validators s)"

definition active_stake :: "validator_set_snapshot \<Rightarrow> nat \<Rightarrow> nat" where
  "active_stake s validator =
     (if is_jailed s validator then 0 else case raw_stake s validator of None \<Rightarrow> 0 | Some stake \<Rightarrow> stake)"

definition active_validators :: "validator_set_snapshot \<Rightarrow> (nat \<times> nat) list" where
  "active_validators s =
     filter (\<lambda>(validator, stake). \<not> (stake = 0 \<or> validator \<in> set (vs_jailed_validators s))) (vs_stakes s)"

definition active_validator_count :: "validator_set_snapshot \<Rightarrow> nat" where
  "active_validator_count s =
     length (filter (\<lambda>(validator, stake). stake \<noteq> 0 \<and> validator \<notin> set (vs_jailed_validators s)) (vs_stakes s))"

definition total_active_stake :: "validator_set_snapshot \<Rightarrow> nat" where
  "total_active_stake s = fold (\<lambda>(_, stake) acc. saturating_add_u64 acc stake) (active_validators s) 0"

section \<open>Quorums\<close>

definition quorum_threshold_for_total :: "nat \<Rightarrow> nat option" where
  "quorum_threshold_for_total tot =
     (if tot = 0 then None
      else let two_thirds_floor =
             saturating_add_u64 (saturating_mul_u64 (tot div 3) 2) (((tot mod 3) * 2) div 3)
           in Some (saturating_add_u64 two_thirds_floor 1))"

definition quorum_threshold :: "validator_set_snapshot \<Rightarrow> nat option" where
  "quorum_threshold s = quorum_threshold_for_total (total_active_stake s)"

definition has_quorum_weight :: "validator_set_snapshot \<Rightarrow> nat \<Rightarrow> bool" where
  "has_quorum_weight s signed_weight =
     (case quorum_threshold s of None \<Rightarrow> False | Some threshold \<Rightarrow> threshold \<le> signed_weight)"

section \<open>Changes of the set\<close>

definition insert_or_update_stake :: "nat \<Rightarrow> nat \<Rightarrow> validator_set_snapshot \<Rightarrow> validator_set_snapshot" where
  "insert_or_update_stake validator stake s =
     (if stake = 0
      then s\<lparr>vs_stakes := bt_remove validator (vs_stakes s),
             vs_jailed_validators := bs_remove validator (vs_jailed_validators s)\<rparr>
      else s\<lparr>vs_stakes := bt_insert validator stake (vs_stakes s)\<rparr>)"

definition remove_validator :: "nat \<Rightarrow> validator_set_snapshot \<Rightarrow> validator_set_snapshot \<times> nat option" where
  "remove_validator validator s =
     (s\<lparr>vs_stakes := bt_remove validator (vs_stakes s),
        vs_jailed_validators := bs_remove validator (vs_jailed_validators s)\<rparr>,
      map_of (vs_stakes s) validator)"

definition set_jailed :: "nat \<Rightarrow> bool \<Rightarrow> validator_set_snapshot \<Rightarrow> validator_set_snapshot \<times> bool" where
  "set_jailed validator jailed s =
     (if \<not> contains_validator s validator then (s, False)
      else if jailed
      then (s\<lparr>vs_jailed_validators := bs_insert validator (vs_jailed_validators s)\<rparr>, \<not> is_jailed s validator)
      else (s\<lparr>vs_jailed_validators := bs_remove validator (vs_jailed_validators s)\<rparr>, is_jailed s validator))"

definition unjail_all :: "validator_set_snapshot \<Rightarrow> validator_set_snapshot" where
  "unjail_all s = s\<lparr>vs_jailed_validators := []\<rparr>"

record validator_set_delta =
  vd_stake_updates :: "(nat, nat) btree"
  vd_jailed :: "nat bset"
  vd_unjailed :: "nat bset"

definition apply_delta :: "validator_set_delta \<Rightarrow> validator_set_snapshot \<Rightarrow> validator_set_snapshot" where
  "apply_delta delta s =
     (let s1 = fold (\<lambda>(validator, stake). insert_or_update_stake validator stake) (vd_stake_updates delta) s;
          s2 = fold (\<lambda>validator t. fst (set_jailed validator True t)) (vd_jailed delta) s1;
          s3 = fold (\<lambda>validator t. fst (set_jailed validator False t)) (vd_unjailed delta) s2
      in drop_unknown_jailed_entries s3)"

section \<open>Counting votes\<close>

datatype count_vote_result =
  Counted nat bool | Duplicate | UnknownValidator | JailedValidator | ZeroStake

record vote_weight_summary =
  vw_signed_weight :: nat
  vw_total_active_stake :: nat
  vw_threshold :: "nat option"
  vw_counted :: nat
  vw_duplicates :: nat
  vw_unknown :: nat
  vw_jailed :: nat
  vw_zero_stake :: nat
  vw_reached_quorum :: bool

definition summary_new :: "nat \<Rightarrow> vote_weight_summary" where
  "summary_new tot =
     \<lparr>vw_signed_weight = 0, vw_total_active_stake = tot, vw_threshold = quorum_threshold_for_total tot,
      vw_counted = 0, vw_duplicates = 0, vw_unknown = 0, vw_jailed = 0, vw_zero_stake = 0,
      vw_reached_quorum = False\<rparr>"

definition count_vote ::
  "validator_set_snapshot \<Rightarrow> nat \<Rightarrow> nat bset \<Rightarrow> nat bset \<times> count_vote_result" where
  "count_vote s validator seen =
     (if validator \<in> set seen then (seen, Duplicate)
      else (bs_insert validator seen,
            case map_of (vs_stakes s) validator of
              None \<Rightarrow> UnknownValidator
            | Some stake \<Rightarrow>
                (if stake = 0 then ZeroStake
                 else if validator \<in> set (vs_jailed_validators s) then JailedValidator
                 else Counted stake False)))"

fun add_vote :: "count_vote_result \<Rightarrow> vote_weight_summary \<Rightarrow> vote_weight_summary" where
  "add_vote (Counted stake reached) v =
     v\<lparr>vw_counted := vw_counted v + 1,
       vw_signed_weight := saturating_add_u64 (vw_signed_weight v) stake,
       vw_reached_quorum := vw_reached_quorum v \<or> reached\<rparr>"
| "add_vote Duplicate v = v\<lparr>vw_duplicates := vw_duplicates v + 1\<rparr>"
| "add_vote UnknownValidator v = v\<lparr>vw_unknown := vw_unknown v + 1\<rparr>"
| "add_vote JailedValidator v = v\<lparr>vw_jailed := vw_jailed v + 1\<rparr>"
| "add_vote ZeroStake v = v\<lparr>vw_zero_stake := vw_zero_stake v + 1\<rparr>"

fun tally_loop ::
  "validator_set_snapshot \<Rightarrow> nat bset \<Rightarrow> vote_weight_summary \<Rightarrow> nat list \<Rightarrow> vote_weight_summary" where
  "tally_loop s seen summary [] = summary"
| "tally_loop s seen summary (validator # voters) =
     (case count_vote s validator seen of
        (seen', r) \<Rightarrow> tally_loop s seen' (add_vote r summary) voters)"

definition tally_votes :: "validator_set_snapshot \<Rightarrow> nat list \<Rightarrow> vote_weight_summary" where
  "tally_votes s voters =
     (let summary = tally_loop s [] (summary_new (total_active_stake s)) voters
      in summary\<lparr>vw_reached_quorum := vw_reached_quorum summary \<or>
           (case vw_threshold summary of None \<Rightarrow> False | Some threshold \<Rightarrow> threshold \<le> vw_signed_weight summary)\<rparr>)"

datatype validator_set_error =
  EmptyValidators | DuplicateValidatorVote | UnknownVoter | JailedVoter | ZeroStakeVoter
  | NoQuorum nat nat nat

definition check_quorum_indices ::
  "validator_set_snapshot \<Rightarrow> nat list \<Rightarrow> validator_set_error + vote_weight_summary" where
  "check_quorum_indices s voters =
     (let summary = tally_votes s voters in
      if vw_total_active_stake summary = 0 then Inl EmptyValidators
      else if vw_duplicates summary \<noteq> 0 then Inl DuplicateValidatorVote
      else if vw_unknown summary \<noteq> 0 then Inl UnknownVoter
      else if vw_jailed summary \<noteq> 0 then Inl JailedVoter
      else if vw_zero_stake summary \<noteq> 0 then Inl ZeroStakeVoter
      else if \<not> vw_reached_quorum summary
      then Inl (NoQuorum (vw_signed_weight summary)
             (case vw_threshold summary of None \<Rightarrow> 0 | Some threshold \<Rightarrow> threshold)
             (vw_total_active_stake summary))
      else Inr summary)"

section \<open>History by round\<close>

record round_validator_set_history =
  vh_current_round :: nat
  vh_current :: validator_set_snapshot
  vh_round_to_snapshot :: "(nat, validator_set_snapshot) btree"

definition history_new :: "nat \<Rightarrow> validator_set_snapshot \<Rightarrow> round_validator_set_history" where
  "history_new r current =
     \<lparr>vh_current_round = r, vh_current = current, vh_round_to_snapshot = bt_insert r current []\<rparr>"

definition snapshot_at_or_before :: "round_validator_set_history \<Rightarrow> nat \<Rightarrow> validator_set_snapshot option" where
  "snapshot_at_or_before h r =
     (let before = filter (\<lambda>e. fst e \<le> r) (vh_round_to_snapshot h)
      in if before = [] then None else Some (snd (last before)))"

definition record_round :: "nat \<Rightarrow> round_validator_set_history \<Rightarrow> round_validator_set_history" where
  "record_round r h =
     h\<lparr>vh_current_round := r, vh_round_to_snapshot := bt_insert r (vh_current h) (vh_round_to_snapshot h)\<rparr>"

definition apply_delta_at_round ::
  "nat \<Rightarrow> validator_set_delta \<Rightarrow> round_validator_set_history \<Rightarrow> round_validator_set_history" where
  "apply_delta_at_round r delta h = record_round r (h\<lparr>vh_current := apply_delta delta (vh_current h)\<rparr>)"

definition prune_before :: "nat \<Rightarrow> round_validator_set_history \<Rightarrow> round_validator_set_history" where
  "prune_before min_round h =
     (let keep = filter (\<lambda>e. min_round \<le> fst e) (vh_round_to_snapshot h) in
      h\<lparr>vh_round_to_snapshot :=
          (if bt_contains keep (vh_current_round h) then keep
           else bt_insert (vh_current_round h) (vh_current h) keep)\<rparr>)"


section \<open>Well-formed snapshots\<close>

definition snapshot_wf :: "validator_set_snapshot \<Rightarrow> bool" where
  "snapshot_wf s \<longleftrightarrow> bt_wf (vs_stakes s) \<and> bs_wf (vs_jailed_validators s) \<and>
     (\<forall>e \<in> set (vs_stakes s). snd e \<noteq> 0) \<and> set (vs_jailed_validators s) \<subseteq> fst ` set (vs_stakes s)"

lemma bs_wf_filter [simp]: "bs_wf xs \<Longrightarrow> bs_wf (filter P xs)"
  by (simp add: bs_wf_def sorted_wrt_filter)

lemma bs_wf_Nil [simp]: "bs_wf []"
  by (simp add: bs_wf_def)

lemma set_bt_insert: "bt_wf m \<Longrightarrow> set (bt_insert k v m) = insert (k, v) {e \<in> set m. fst e \<noteq> k}"
proof (rule set_eqI)
  fix e assume wf: "bt_wf m"
  have "e \<in> set (bt_insert k v m) \<longleftrightarrow> ((map_of m)(k \<mapsto> v)) (fst e) = Some (snd e)"
    using bt_wf_map_of [OF bt_wf_insert [OF wf]] by simp
  then show "e \<in> set (bt_insert k v m) \<longleftrightarrow> e \<in> insert (k, v) {e \<in> set m. fst e \<noteq> k}"
    using bt_wf_map_of [OF wf, of e] by (cases e) auto
qed

lemma snapshot_wf_new: "snapshot_wf snapshot_new"
  by (simp add: snapshot_wf_def snapshot_new_def)

lemma snapshot_wf_with_jailed:
  "bt_wf stakes \<Longrightarrow> bs_wf jailed \<Longrightarrow> snapshot_wf (with_jailed stakes jailed)"
  by (auto simp: snapshot_wf_def with_jailed_def drop_unknown_jailed_entries_def drop_zero_stake_entries_def
      bt_contains_iff)

lemma snapshot_wf_from_stakes: "bt_wf stakes \<Longrightarrow> snapshot_wf (from_stakes stakes)"
  by (auto simp: snapshot_wf_def from_stakes_def drop_zero_stake_entries_def)

lemma snapshot_wf_drop:
  "bt_wf (vs_stakes s) \<Longrightarrow> bs_wf (vs_jailed_validators s) \<Longrightarrow> (\<forall>e \<in> set (vs_stakes s). snd e \<noteq> 0) \<Longrightarrow>
     snapshot_wf (drop_unknown_jailed_entries s)"
  by (auto simp: snapshot_wf_def drop_unknown_jailed_entries_def bt_contains_iff)

lemma snapshot_wf_update: "snapshot_wf s \<Longrightarrow> snapshot_wf (insert_or_update_stake validator stake s)"
  by (auto simp: snapshot_wf_def insert_or_update_stake_def set_bt_insert bt_remove_def)

lemma snapshot_wf_remove: "snapshot_wf s \<Longrightarrow> snapshot_wf (fst (remove_validator validator s))"
  by (auto simp: snapshot_wf_def remove_validator_def bt_remove_def)

lemma snapshot_wf_set_jailed: "snapshot_wf s \<Longrightarrow> snapshot_wf (fst (set_jailed validator jailed s))"
  by (auto simp: snapshot_wf_def set_jailed_def contains_validator_def bt_contains_iff)

lemma snapshot_wf_fold:
  "(\<And>x s. snapshot_wf s \<Longrightarrow> snapshot_wf (f x s)) \<Longrightarrow> snapshot_wf s \<Longrightarrow> snapshot_wf (fold f xs s)"
  by (induction xs arbitrary: s) auto

lemma snapshot_wf_apply_delta: "snapshot_wf s \<Longrightarrow> snapshot_wf (apply_delta delta s)"
proof -
  assume wf: "snapshot_wf s"
  have a: "snapshot_wf (fold (\<lambda>(validator, stake). insert_or_update_stake validator stake) (vd_stake_updates delta) s)"
    by (rule snapshot_wf_fold [OF _ wf]) (auto intro: snapshot_wf_update)
  have b: "snapshot_wf (fold (\<lambda>validator t. fst (set_jailed validator True t)) (vd_jailed delta)
      (fold (\<lambda>(validator, stake). insert_or_update_stake validator stake) (vd_stake_updates delta) s))"
    by (rule snapshot_wf_fold [OF _ a]) (rule snapshot_wf_set_jailed)
  have "snapshot_wf (fold (\<lambda>validator t. fst (set_jailed validator False t)) (vd_unjailed delta)
      (fold (\<lambda>validator t. fst (set_jailed validator True t)) (vd_jailed delta)
        (fold (\<lambda>(validator, stake). insert_or_update_stake validator stake) (vd_stake_updates delta) s)))"
    by (rule snapshot_wf_fold [OF _ b]) (rule snapshot_wf_set_jailed)
  then show ?thesis
    unfolding apply_delta_def Let_def by (intro snapshot_wf_drop) (auto simp: snapshot_wf_def)
qed

section \<open>Weights\<close>

definition active_set :: "validator_set_snapshot \<Rightarrow> nat set" where
  "active_set s = {v. active_stake s v \<noteq> 0}"

definition total_weight :: "validator_set_snapshot \<Rightarrow> nat" where
  "total_weight s = sum (active_stake s) (active_set s)"

lemma fold_saturating:
  "fold (\<lambda>(_, stake) acc. saturating_add_u64 acc stake) xs (min acc u64_max) =
     min (acc + sum_list (map snd xs)) u64_max"
proof (induction xs arbitrary: acc)
  case (Cons x xs)
  have "saturating_add_u64 (min acc u64_max) (snd x) = min (acc + snd x) u64_max"
    by (simp add: saturating_add_u64_def)
  with Cons.IH [of "acc + snd x"] show ?case by (simp add: case_prod_unfold add.assoc)
qed simp

lemma active_stake_entry:
  assumes "bt_wf (vs_stakes s)" and "e \<in> set (active_validators s)"
  shows "active_stake s (fst e) = snd e" and "snd e \<noteq> 0"
  using assms bt_wf_map_of [OF assms(1), of e]
  by (auto simp: active_validators_def active_stake_def is_jailed_def raw_stake_def)

lemma fst_active_validators: "bt_wf (vs_stakes s) \<Longrightarrow> fst ` set (active_validators s) = active_set s"
proof (intro equalityI subsetI)
  fix v assume "bt_wf (vs_stakes s)" and "v \<in> fst ` set (active_validators s)"
  then show "v \<in> active_set s" using active_stake_entry [of s] by (auto simp: active_set_def)
next
  fix v assume "bt_wf (vs_stakes s)" and "v \<in> active_set s"
  then have "(v, active_stake s v) \<in> set (active_validators s)"
    by (auto simp: active_set_def active_stake_def active_validators_def is_jailed_def raw_stake_def
        split: option.splits if_splits dest: map_of_SomeD)
  then show "v \<in> fst ` set (active_validators s)" by force
qed

lemma finite_active_set [simp]: "finite (active_set s)"
proof -
  have "active_set s \<subseteq> fst ` set (vs_stakes s)"
    by (auto simp: active_set_def active_stake_def raw_stake_def split: if_splits option.splits
        dest!: map_of_SomeD intro: rev_image_eqI)
  then show ?thesis by (rule finite_subset) simp
qed

lemma total_active_stake_weight:
  assumes "bt_wf (vs_stakes s)"
  shows "total_active_stake s = min (total_weight s) u64_max"
proof -
  have dist: "distinct (map fst (active_validators s))"
    using bt_wf_distinct [OF assms] by (simp add: active_validators_def distinct_map_filter)
  have "sum_list (map snd (active_validators s)) = (\<Sum>e\<in>set (active_validators s). snd e)"
    using dist by (simp add: sum_list_distinct_conv_sum_set distinct_map)
  also have "\<dots> = (\<Sum>e\<in>set (active_validators s). active_stake s (fst e))"
    using active_stake_entry(1) [OF assms] by simp
  also have "\<dots> = sum (active_stake s) (fst ` set (active_validators s))"
    using dist by (simp add: sum.reindex distinct_map)
  finally have "sum_list (map snd (active_validators s)) = total_weight s"
    by (simp add: fst_active_validators [OF assms] total_weight_def)
  then show ?thesis
    using fold_saturating [of "active_validators s" 0] by (simp add: total_active_stake_def)
qed

lemma quorum_threshold_floor:
  "tot \<le> u64_max \<Longrightarrow> quorum_threshold_for_total tot = (if tot = 0 then None else Some (2 * tot div 3 + 1))"
proof -
  have "tot div 3 * 2 + tot mod 3 * 2 div 3 = 2 * tot div 3" by presburger
  moreover assume "tot \<le> u64_max"
  ultimately show ?thesis
    by (auto simp: quorum_threshold_for_total_def saturating_add_u64_def saturating_mul_u64_def u64_max_def)
qed


section \<open>The tally\<close>

definition bad_votes :: "vote_weight_summary \<Rightarrow> nat" where
  "bad_votes v = vw_duplicates v + vw_unknown v + vw_jailed v + vw_zero_stake v"

lemma active_stake_pos:
  "0 < active_stake s v \<longleftrightarrow> (\<exists>stake. map_of (vs_stakes s) v = Some stake \<and> stake \<noteq> 0) \<and> v \<notin> set (vs_jailed_validators s)"
  by (auto simp: active_stake_def is_jailed_def raw_stake_def split: option.splits)

lemma count_vote_active:
  "v \<notin> set seen \<Longrightarrow> v \<in> active_set s \<Longrightarrow> count_vote s v seen = (bs_insert v seen, Counted (active_stake s v) False)"
  by (auto simp: active_set_def count_vote_def active_stake_def is_jailed_def raw_stake_def split: option.splits if_splits)

lemma count_vote_bad:
  assumes "v \<in> set seen \<or> v \<notin> active_set s"
  shows "bad_votes (add_vote (snd (count_vote s v seen)) summary) = bad_votes summary + 1"
  using assms by (auto simp: active_set_def active_stake_pos count_vote_def bad_votes_def split: option.splits)

lemma bad_votes_mono: "bad_votes summary \<le> bad_votes (tally_loop s seen summary voters)"
proof (induction s seen summary voters rule: tally_loop.induct)
  case (2 s seen summary v voters)
  obtain seen' r where r: "count_vote s v seen = (seen', r)" by force
  have "bad_votes summary \<le> bad_votes (add_vote r summary)" by (cases r) (simp_all add: bad_votes_def)
  with 2 [OF r [symmetric]] r show ?case by simp
qed simp

lemma tally_clean:
  "bad_votes (tally_loop s seen summary voters) = bad_votes summary \<longleftrightarrow>
     distinct voters \<and> set voters \<inter> set seen = {} \<and> set voters \<subseteq> active_set s"
proof (induction s seen summary voters rule: tally_loop.induct)
  case (2 s seen summary v voters)
  show ?case
  proof (cases "v \<in> set seen \<or> v \<notin> active_set s")
    case True
    obtain seen' r where r: "count_vote s v seen = (seen', r)" by force
    then have "bad_votes summary < bad_votes (tally_loop s seen' (add_vote r summary) voters)"
      using count_vote_bad [OF True, of summary] bad_votes_mono [of "add_vote r summary" s seen' voters] by simp
    with True r show ?thesis by auto
  next
    case False
    then have c: "count_vote s v seen = (bs_insert v seen, Counted (active_stake s v) False)"
      using count_vote_active by blast
    have "bad_votes (add_vote (Counted (active_stake s v) False) summary) = bad_votes summary"
      by (simp add: bad_votes_def)
    with 2 [OF c [symmetric]] c False show ?thesis by auto
  qed
qed simp

lemma tally_weight:
  assumes "bad_votes (tally_loop s seen summary voters) = bad_votes summary"
    and "vw_signed_weight summary = min w u64_max"
  shows "vw_signed_weight (tally_loop s seen summary voters) = min (w + sum_list (map (active_stake s) voters)) u64_max \<and>
    vw_reached_quorum (tally_loop s seen summary voters) = vw_reached_quorum summary"
  using assms(1) [unfolded tally_clean] assms(2)
proof (induction voters arbitrary: seen summary w)
  case (Cons v voters)
  have c: "count_vote s v seen = (bs_insert v seen, Counted (active_stake s v) False)"
    using Cons.prems by (intro count_vote_active) auto
  let ?v = "add_vote (Counted (active_stake s v) False) summary"
  have w: "vw_signed_weight ?v = min (w + active_stake s v) u64_max"
    using Cons.prems by (simp add: saturating_add_u64_def)
  have d: "distinct voters \<and> set voters \<inter> set (bs_insert v seen) = {} \<and> set voters \<subseteq> active_set s"
    using Cons.prems by auto
  show ?case using Cons.IH [OF d w] c by (simp add: add.assoc)
qed simp

lemma tally_const [simp]:
  "vw_threshold (tally_loop s seen summary voters) = vw_threshold summary"
  "vw_total_active_stake (tally_loop s seen summary voters) = vw_total_active_stake summary"
proof -
  have c: "vw_threshold (add_vote r v) = vw_threshold v \<and> vw_total_active_stake (add_vote r v) = vw_total_active_stake v" for r v
    by (cases r) simp_all
  have "vw_threshold (tally_loop s seen summary voters) = vw_threshold summary \<and>
      vw_total_active_stake (tally_loop s seen summary voters) = vw_total_active_stake summary"
    by (induction s seen summary voters rule: tally_loop.induct) (auto simp: c split: prod.splits)
  then show "vw_threshold (tally_loop s seen summary voters) = vw_threshold summary"
    "vw_total_active_stake (tally_loop s seen summary voters) = vw_total_active_stake summary" by auto
qed

lemma summary_new_sel [simp]:
  "vw_signed_weight (summary_new t) = 0" "vw_total_active_stake (summary_new t) = t"
  "vw_threshold (summary_new t) = quorum_threshold_for_total t" "vw_reached_quorum (summary_new t) = False"
  by (simp_all add: summary_new_def)

text \<open>What a successful quorum check means, with the saturating sums of the code.\<close>

lemma check_quorum_iff:
  assumes "bt_wf (vs_stakes s)"
  shows "(\<exists>v. check_quorum_indices s voters = Inr v) \<longleftrightarrow>
    total_weight s \<noteq> 0 \<and> distinct voters \<and> set voters \<subseteq> active_set s \<and>
    2 * min (total_weight s) u64_max div 3 < min (sum (active_stake s) (set voters)) u64_max"
proof -
  let ?t = "min (total_weight s) u64_max"
  let ?v = "tally_loop s [] (summary_new (total_active_stake s)) voters"
  have tot: "total_active_stake s = ?t" using total_active_stake_weight [OF assms] .
  have zero: "bad_votes (summary_new ?t) = 0" by (simp add: bad_votes_def summary_new_def)
  have thr: "vw_threshold ?v = (if ?t = 0 then None else Some (2 * ?t div 3 + 1))"
    using quorum_threshold_floor [of ?t] by (simp add: tot)
  have clean: "bad_votes ?v = 0 \<longleftrightarrow> distinct voters \<and> set voters \<subseteq> active_set s"
    using tally_clean [of s "[]" "summary_new ?t" voters] zero tot by simp
  have wt: "vw_signed_weight ?v = min (sum (active_stake s) (set voters)) u64_max"
    and rq: "\<not> vw_reached_quorum ?v" if "bad_votes ?v = 0"
    using tally_weight [of s "[]" "summary_new (total_active_stake s)" voters 0] that zero clean tot
    by (simp_all add: sum_list_distinct_conv_sum_set)
  have tz: "?t = 0 \<longleftrightarrow> total_weight s = 0" by (simp add: u64_max_def min_def)
  have "(\<exists>v. check_quorum_indices s voters = Inr v) \<longleftrightarrow> ?t \<noteq> 0 \<and> bad_votes ?v = 0 \<and>
      (vw_reached_quorum ?v \<or> (case vw_threshold ?v of None \<Rightarrow> False | Some x \<Rightarrow> x \<le> vw_signed_weight ?v))"
    unfolding check_quorum_indices_def tally_votes_def Let_def
    by (auto simp: tot bad_votes_def)
  also have "\<dots> \<longleftrightarrow> ?t \<noteq> 0 \<and> bad_votes ?v = 0 \<and> 2 * ?t div 3 < min (sum (active_stake s) (set voters)) u64_max"
    using thr wt rq by auto
  finally show ?thesis unfolding clean tz conj_assoc .
qed


section \<open>Quorum systems\<close>

locale weighted_quorum =
  fixes weight :: "'v \<Rightarrow> nat" and members :: "'v set" and quorum :: "'v set \<Rightarrow> bool"
  assumes finite_members: "finite members"
    and quorum_members: "quorum Q \<Longrightarrow> Q \<subseteq> members"
    and quorum_weight: "quorum Q \<Longrightarrow> 2 * sum weight members < 3 * sum weight Q"
begin

lemma overlap_weight:
  assumes "quorum P" and "quorum Q"
  shows "sum weight members < 3 * sum weight (P \<inter> Q)"
proof -
  have fin: "finite P" "finite Q" using assms quorum_members finite_members finite_subset by blast+
  have "sum weight P + sum weight Q = sum weight (P \<union> Q) + sum weight (P \<inter> Q)"
    using fin by (simp add: sum.union_inter)
  moreover have "sum weight (P \<union> Q) \<le> sum weight members"
    using assms quorum_members finite_members by (intro sum_mono2) auto
  ultimately show ?thesis using quorum_weight [OF assms(1)] quorum_weight [OF assms(2)] by linarith
qed

lemma overlap_correct:
  assumes "quorum P" and "quorum Q" and "finite F" and "3 * sum weight F \<le> sum weight members"
  shows "\<exists>v \<in> P \<inter> Q. v \<notin> F"
proof (rule ccontr)
  assume "\<not> ?thesis"
  then have "P \<inter> Q \<subseteq> F" by blast
  then have "sum weight (P \<inter> Q) \<le> sum weight F" using assms(3) by (intro sum_mono2) auto
  with overlap_weight [OF assms(1,2)] assms(4) show False by linarith
qed

end

definition snapshot_quorum :: "validator_set_snapshot \<Rightarrow> nat set \<Rightarrow> bool" where
  "snapshot_quorum s Q \<longleftrightarrow> bt_wf (vs_stakes s) \<and> total_weight s \<le> u64_max \<and>
     (\<exists>voters v. set voters = Q \<and> check_quorum_indices s voters = Inr v)"

interpretation vs: weighted_quorum "active_stake s" "active_set s" "snapshot_quorum s"
  for s
proof (unfold_locales, goal_cases)
  case 1
  show ?case by simp
next
  case (2 Q)
  then show ?case using check_quorum_iff by (auto simp: snapshot_quorum_def)
next
  case (3 Q)
  then obtain voters where "set voters = Q" "bt_wf (vs_stakes s)" "total_weight s \<le> u64_max"
    "\<exists>v. check_quorum_indices s voters = Inr v" by (auto simp: snapshot_quorum_def)
  then have "2 * total_weight s div 3 < sum (active_stake s) Q"
    using check_quorum_iff [of s voters] by (simp add: min_absorb1)
  then show ?case by (simp add: total_weight_def)
qed

section \<open>Deltas\<close>

lemma raw_stake_update:
  "raw_stake (insert_or_update_stake v stake s) x =
     (if x = v then (if stake = 0 then None else Some stake) else raw_stake s x)"
  by (simp add: insert_or_update_stake_def raw_stake_def)

lemma is_jailed_update:
  "is_jailed (insert_or_update_stake v stake s) x \<longleftrightarrow> is_jailed s x \<and> \<not> (x = v \<and> stake = 0)"
  by (auto simp: insert_or_update_stake_def is_jailed_def)

definition updated_stake :: "(nat, nat) btree \<Rightarrow> validator_set_snapshot \<Rightarrow> nat \<Rightarrow> nat option" where
  "updated_stake updates s x = (case map_of updates x of
     None \<Rightarrow> raw_stake s x | Some stake \<Rightarrow> if stake = 0 then None else Some stake)"

lemma fold_updates:
  assumes "distinct (map fst updates)"
  shows "raw_stake (fold (\<lambda>(v, stake). insert_or_update_stake v stake) updates s) x = updated_stake updates s x \<and>
    (is_jailed (fold (\<lambda>(v, stake). insert_or_update_stake v stake) updates s) x \<longleftrightarrow>
       is_jailed s x \<and> map_of updates x \<noteq> Some 0)"
  using assms
proof (induction updates arbitrary: s)
  case (Cons e updates)
  have "map_of updates (fst e) = None" using Cons.prems by (simp add: map_of_eq_None_iff)
  with Cons show ?case
    by (cases e) (auto simp: updated_stake_def raw_stake_update is_jailed_update split: option.splits)
qed (simp add: updated_stake_def)

lemma raw_stake_set_jailed [simp]: "raw_stake (fst (set_jailed v j s)) = raw_stake s"
  by (simp add: set_jailed_def raw_stake_def fun_eq_iff)

lemma contains_raw: "contains_validator s v \<longleftrightarrow> raw_stake s v \<noteq> None"
  by (simp add: contains_validator_def bt_contains_def raw_stake_def)

lemma fold_set_jailed:
  "raw_stake (fold (\<lambda>v t. fst (set_jailed v j t)) vs s) = raw_stake s \<and>
   (is_jailed (fold (\<lambda>v t. fst (set_jailed v j t)) vs s) x \<longleftrightarrow>
      (if x \<in> set vs \<and> raw_stake s x \<noteq> None then j else is_jailed s x))"
proof (induction vs arbitrary: s)
  case (Cons v vs)
  have "is_jailed (fst (set_jailed v j s)) x \<longleftrightarrow>
      (if x = v \<and> raw_stake s x \<noteq> None then j else is_jailed s x)"
    by (auto simp: set_jailed_def is_jailed_def contains_raw)
  with Cons.IH [of "fst (set_jailed v j s)"] show ?case by auto
qed simp

lemma apply_delta_lookup:
  assumes "distinct (map fst (vd_stake_updates d))"
  shows "raw_stake (apply_delta d s) x = updated_stake (vd_stake_updates d) s x \<and>
    (is_jailed (apply_delta d s) x \<longleftrightarrow>
       raw_stake (apply_delta d s) x \<noteq> None \<and> x \<notin> set (vd_unjailed d) \<and> (x \<in> set (vd_jailed d) \<or> is_jailed s x))"
proof -
  let ?s1 = "fold (\<lambda>(v, stake). insert_or_update_stake v stake) (vd_stake_updates d) s"
  let ?s2 = "fold (\<lambda>v t. fst (set_jailed v True t)) (vd_jailed d) ?s1"
  let ?s3 = "fold (\<lambda>v t. fst (set_jailed v False t)) (vd_unjailed d) ?s2"
  note u = fold_updates [OF assms, of s] and j = fold_set_jailed [of True "vd_jailed d" ?s1]
    and k = fold_set_jailed [of False "vd_unjailed d" ?s2]
  have raw: "raw_stake (apply_delta d s) = raw_stake ?s3"
    by (simp add: apply_delta_def Let_def drop_unknown_jailed_entries_def raw_stake_def fun_eq_iff)
  have jail: "is_jailed (apply_delta d s) x \<longleftrightarrow> is_jailed ?s3 x \<and> raw_stake ?s3 x \<noteq> None"
    by (auto simp: apply_delta_def Let_def drop_unknown_jailed_entries_def is_jailed_def bt_contains_def raw_stake_def)
  have zero: "map_of (vd_stake_updates d) x = Some 0 \<Longrightarrow> updated_stake (vd_stake_updates d) s x = None"
    by (simp add: updated_stake_def)
  have "raw_stake ?s3 x = updated_stake (vd_stake_updates d) s x" using u j k by simp
  then show ?thesis unfolding raw jail using u [of x] j [of x] k [of x] zero by auto
qed

section \<open>History\<close>

definition history_wf :: "round_validator_set_history \<Rightarrow> bool" where
  "history_wf h \<longleftrightarrow> bt_wf (vh_round_to_snapshot h) \<and>
     map_of (vh_round_to_snapshot h) (vh_current_round h) = Some (vh_current h)"

lemma history_wf_new: "history_wf (history_new r s)"
  by (simp add: history_wf_def history_new_def bt_wf_def)

lemma history_wf_record: "bt_wf (vh_round_to_snapshot h) \<Longrightarrow> history_wf (record_round r h)"
  by (simp add: history_wf_def record_round_def)

lemma history_wf_delta: "history_wf h \<Longrightarrow> history_wf (apply_delta_at_round r d h)"
  unfolding apply_delta_at_round_def by (rule history_wf_record) (simp add: history_wf_def)

lemma map_of_filter_key: "map_of (filter (\<lambda>e. P (fst e)) m) k = (if P k then map_of m k else None)"
  by (induction m) auto

lemma history_wf_prune: "history_wf h \<Longrightarrow> history_wf (prune_before r h)"
  by (auto simp: history_wf_def prune_before_def Let_def bt_contains_def map_of_filter_key)

text \<open>The snapshot in force at a round is the one recorded at the greatest round not after it.\<close>

lemma snapshot_at_or_before_greatest:
  assumes "bt_wf (vh_round_to_snapshot h)" and "map_of (vh_round_to_snapshot h) k = Some s" and "k \<le> r"
    and "\<And>k'. k < k' \<Longrightarrow> k' \<le> r \<Longrightarrow> map_of (vh_round_to_snapshot h) k' = None"
  shows "snapshot_at_or_before h r = Some s"
proof -
  let ?m = "filter (\<lambda>e. fst e \<le> r) (vh_round_to_snapshot h)"
  have wf: "bt_wf ?m" using assms(1) by (rule bt_wf_filter)
  have mem: "(k, s) \<in> set ?m" using assms(2,3) by (auto dest: map_of_SomeD)
  then have ne: "?m \<noteq> []" by (metis empty_iff empty_set)
  then have last: "bt_last_key ?m = Some (fst (last ?m))" by (simp add: bt_last_key_def)
  have "k \<le> fst (last ?m)" using bt_last_key_greatest(2) [OF wf last] mem by force
  moreover have "map_of (vh_round_to_snapshot h) (fst (last ?m)) = Some (snd (last ?m))"
    and "fst (last ?m) \<le> r"
    using last_in_set [OF ne] bt_wf_map_of [OF assms(1), of "last ?m"] by auto
  ultimately have "fst (last ?m) = k" using assms(4) by (cases "k = fst (last ?m)") auto
  with \<open>map_of (vh_round_to_snapshot h) (fst (last ?m)) = Some (snd (last ?m))\<close> assms(2)
  have "snd (last ?m) = s" by simp
  with ne show ?thesis by (simp add: snapshot_at_or_before_def)
qed


lemma greatest_recorded:
  fixes m :: "(nat, 'a) btree"
  assumes "map_of m k \<noteq> None" and "k \<le> r"
  obtains k' s where "k \<le> k'" and "k' \<le> r" and "map_of m k' = Some s"
    and "\<And>x. k' < x \<Longrightarrow> x \<le> r \<Longrightarrow> map_of m x = None"
proof -
  let ?P = "\<lambda>x. x \<le> r \<and> map_of m x \<noteq> None"
  have k: "?P k" using assms by blast
  have bound: "\<And>y. ?P y \<Longrightarrow> y \<le> r" by blast
  define g where "g = Greatest ?P"
  have g: "?P g" "k \<le> g" "\<And>x. ?P x \<Longrightarrow> x \<le> g"
    unfolding g_def using GreatestI_nat [of ?P k r] Greatest_le_nat [of ?P _ r] k bound by blast+
  then obtain s where s: "map_of m g = Some s" by blast
  have "map_of m x = None" if "g < x" "x \<le> r" for x
    using g(3) [of x] that by fastforce
  with g s show thesis by (intro that [of g s]) blast+
qed

lemma snapshot_absent: "snapshot_at_or_before h r = None \<longleftrightarrow> (\<forall>k \<le> r. map_of (vh_round_to_snapshot h) k = None)"
  by (auto simp: snapshot_at_or_before_def Let_def filter_empty_conv map_of_eq_None_iff)

lemma snapshot_at_or_before_cong:
  assumes wf: "bt_wf (vh_round_to_snapshot h)" "bt_wf (vh_round_to_snapshot h')"
    and some: "map_of (vh_round_to_snapshot h) k \<noteq> None" "k \<le> r"
    and same: "\<And>x. k \<le> x \<Longrightarrow> x \<le> r \<Longrightarrow> map_of (vh_round_to_snapshot h') x = map_of (vh_round_to_snapshot h) x"
  shows "snapshot_at_or_before h' r = snapshot_at_or_before h r"
proof -
  obtain k' s where k': "k \<le> k'" "k' \<le> r" "map_of (vh_round_to_snapshot h) k' = Some s"
      "\<And>x. k' < x \<Longrightarrow> x \<le> r \<Longrightarrow> map_of (vh_round_to_snapshot h) x = None"
    using some by (rule greatest_recorded) blast
  have "snapshot_at_or_before h r = Some s"
    using snapshot_at_or_before_greatest [OF wf(1) k'(3,2)] k'(4) by blast
  moreover have "snapshot_at_or_before h' r = Some s"
    by (rule snapshot_at_or_before_greatest [OF wf(2), of k']) (use k' same in auto)
  ultimately show ?thesis by simp
qed

section \<open>Properties\<close>

text \<open>C10. Two accepted vote lists share a correct validator: if the stakes do not overflow a \<open>u64\<close>, any
  two lists \<open>check_quorum_indices\<close> accepts overlap in more than a third of the active stake, so they
  have a common voter outside every set of validators holding at most a third.\<close>

theorem quorum_intersection:
  assumes "snapshot_wf s" and "total_weight s \<le> u64_max"
    and "check_quorum_indices s voters1 = Inr v1" and "check_quorum_indices s voters2 = Inr v2"
    and "finite F" and "3 * sum (active_stake s) F \<le> total_weight s"
  shows "total_weight s < 3 * sum (active_stake s) (set voters1 \<inter> set voters2) \<and>
    (\<exists>v \<in> set voters1 \<inter> set voters2. v \<notin> F)"
proof -
  have q: "snapshot_quorum s (set voters1)" "snapshot_quorum s (set voters2)"
    using assms(1-4) by (auto simp: snapshot_quorum_def snapshot_wf_def)
  show ?thesis
    using vs.overlap_weight [OF q] vs.overlap_correct [OF q assms(5)] assms(6) by (simp add: total_weight_def)
qed

definition example_snapshot :: validator_set_snapshot where
  "example_snapshot = \<lparr>vs_stakes = [(1, 10), (2, 10), (3, 10), (4, 10)], vs_jailed_validators = []\<rparr>"

lemma example_snapshot_facts:
  "snapshot_wf example_snapshot" "active_set example_snapshot = {1, 2, 3, 4}" "total_weight example_snapshot = 40"
proof -
  show "snapshot_wf example_snapshot" by (simp add: snapshot_wf_def example_snapshot_def bt_wf_def bs_wf_def)
  show "active_set example_snapshot = {1, 2, 3, 4}"
    by (auto simp: active_set_def active_stake_def is_jailed_def raw_stake_def example_snapshot_def split: if_splits)
  then show "total_weight example_snapshot = 40"
    by (simp add: total_weight_def active_stake_def is_jailed_def raw_stake_def example_snapshot_def)
qed

theorem quorum_intersection_witness:
  "\<exists>v1 v2. check_quorum_indices example_snapshot [1, 2, 3] = Inr v1 \<and> check_quorum_indices example_snapshot [2, 3, 4] = Inr v2 \<and>
    total_weight example_snapshot < 3 * sum (active_stake example_snapshot) {2, 3} \<and> (\<exists>v \<in> set [1, 2, 3] \<inter> set [2, 3, 4]. v \<notin> {2::nat})"
proof -
  have "\<exists>v. check_quorum_indices example_snapshot [1, 2, 3] = Inr v"
    "\<exists>v. check_quorum_indices example_snapshot [2, 3, 4] = Inr v"
    using example_snapshot_facts(1)
    by (simp_all add: check_quorum_iff snapshot_wf_def example_snapshot_facts(2,3))
      (simp_all add: example_snapshot_def active_stake_def is_jailed_def raw_stake_def u64_max_def)
  then obtain v1 v2 where q: "check_quorum_indices example_snapshot [1, 2, 3] = Inr v1"
    "check_quorum_indices example_snapshot [2, 3, 4] = Inr v2" by blast
  moreover have "3 * sum (active_stake example_snapshot) {2} \<le> total_weight example_snapshot"
    unfolding example_snapshot_facts(3)
    by (simp add: active_stake_def is_jailed_def raw_stake_def example_snapshot_def)
  moreover have "set [1, 2, 3] \<inter> set [2, 3, 4] = {2, 3::nat}" by auto
  ultimately show ?thesis
    using quorum_intersection [OF example_snapshot_facts(1) _ q, of "{2}"] by (simp add: example_snapshot_facts(3) u64_max_def)
qed

text \<open>The quorum check decides exactly what it should: with stakes that do not overflow, it
  accepts a list of votes if and only if the voters are distinct, all known, staked and unjailed, and
  hold strictly more than two thirds of the active stake.\<close>

lemma check_quorum_indices_exact:
  assumes "snapshot_wf s" and "total_weight s \<le> u64_max"
  shows "(\<exists>v. check_quorum_indices s voters = Inr v) \<longleftrightarrow>
    distinct voters \<and> (\<forall>v \<in> set voters. active_stake s v \<noteq> 0) \<and>
    2 * total_weight s < 3 * sum (active_stake s) (set voters)"
proof -
  have le: "sum (active_stake s) (set voters) \<le> total_weight s" if "set voters \<subseteq> active_set s"
    unfolding total_weight_def using that by (intro sum_mono2) auto
  have active: "(\<forall>v \<in> set voters. active_stake s v \<noteq> 0) \<longleftrightarrow> set voters \<subseteq> active_set s"
    by (auto simp: active_set_def)
  have "2 * t div 3 < x \<longleftrightarrow> 2 * t < 3 * x" for t x :: nat by auto
  then show ?thesis
    unfolding active using check_quorum_iff [of s voters] assms le
    by (cases "set voters \<subseteq> active_set s") (auto simp: snapshot_wf_def min_absorb1)
qed

lemma check_quorum_indices_exact_witness:
  "\<nexists>v. check_quorum_indices example_snapshot [1, 2] = Inr v"
  using check_quorum_indices_exact [OF example_snapshot_facts(1), of "[1, 2]"]
  by (simp add: example_snapshot_facts(3) u64_max_def)
    (simp add: active_stake_def is_jailed_def raw_stake_def example_snapshot_def)

text \<open>When the stakes overflow a \<open>u64\<close> the total saturates and quorums need not intersect: two
  disjoint vote lists are both accepted, where the comment on \<open>total_active_stake\<close> expects overflow
  to make quorums fail.\<close>

lemma quorum_overflow_disjoint:
  "\<exists>s voters1 voters2 v1 v2. snapshot_wf s \<and> check_quorum_indices s voters1 = Inr v1 \<and>
     check_quorum_indices s voters2 = Inr v2 \<and> set voters1 \<inter> set voters2 = {}"
proof -
  let ?s = "\<lparr>vs_stakes = [(1, u64_max), (2, u64_max)], vs_jailed_validators = []\<rparr>"
  have act: "active_set ?s = {1, 2}"
    by (auto simp: active_set_def active_stake_def is_jailed_def raw_stake_def u64_max_def split: if_splits)
  have "snapshot_wf ?s" by (simp add: snapshot_wf_def bt_wf_def bs_wf_def u64_max_def)
  moreover have "\<exists>v. check_quorum_indices ?s [1] = Inr v" "\<exists>v. check_quorum_indices ?s [2] = Inr v"
    using act by (simp_all add: check_quorum_iff bt_wf_def total_weight_def)
      (simp_all add: active_stake_def is_jailed_def raw_stake_def u64_max_def)
  ultimately show ?thesis by fastforce
qed

text \<open>A delta does what it says to every validator: a zero stake removes it, another stake replaces
  it, validators still present end up jailed exactly when they were or are newly jailed and are not
  in the unjailed list, and the snapshot stays well formed.\<close>

lemma apply_delta_effect:
  assumes "snapshot_wf s" and "bt_wf (vd_stake_updates d)"
  shows "snapshot_wf (apply_delta d s) \<and>
    raw_stake (apply_delta d s) x =
      (case map_of (vd_stake_updates d) x of None \<Rightarrow> raw_stake s x
       | Some stake \<Rightarrow> if stake = 0 then None else Some stake) \<and>
    (is_jailed (apply_delta d s) x \<longleftrightarrow>
       raw_stake (apply_delta d s) x \<noteq> None \<and> x \<notin> set (vd_unjailed d) \<and> (x \<in> set (vd_jailed d) \<or> is_jailed s x))"
  using snapshot_wf_apply_delta [OF assms(1)] apply_delta_lookup [OF bt_wf_distinct [OF assms(2)], of s x]
  by (auto simp: updated_stake_def)

lemma apply_delta_effect_witness:
  "is_jailed (apply_delta \<lparr>vd_stake_updates = [(2, 0), (5, 7)], vd_jailed = [5], vd_unjailed = []\<rparr> example_snapshot) 5"
  using apply_delta_effect [OF example_snapshot_facts(1),
      of "\<lparr>vd_stake_updates = [(2, 0), (5, 7)], vd_jailed = [5], vd_unjailed = []\<rparr>" 5]
  by (simp add: bt_wf_def)

text \<open>The history answers with the snapshot in force: a delta applied at a new last round is seen
  from that round on and no earlier answer changes, and pruning below a round keeps every answer
  for which a snapshot was recorded at or after that round.\<close>

lemma history_lookup:
  assumes wf: "history_wf h" and last: "\<forall>k. map_of (vh_round_to_snapshot h) k \<noteq> None \<longrightarrow> k \<le> r"
  shows "snapshot_at_or_before (apply_delta_at_round r d h) q =
      (if r \<le> q then Some (apply_delta d (vh_current h)) else snapshot_at_or_before h q) \<and>
    (map_of (vh_round_to_snapshot h) k \<noteq> None \<longrightarrow> m \<le> k \<longrightarrow> k \<le> q \<longrightarrow>
      snapshot_at_or_before (prune_before m h) q = snapshot_at_or_before h q)"
proof (intro conjI impI)
  let ?h = "apply_delta_at_round r d h"
  have wfm: "bt_wf (vh_round_to_snapshot h)" using wf by (simp add: history_wf_def)
  have m: "map_of (vh_round_to_snapshot ?h) = (map_of (vh_round_to_snapshot h))(r \<mapsto> apply_delta d (vh_current h))"
    by (simp add: apply_delta_at_round_def record_round_def)
  have wf': "bt_wf (vh_round_to_snapshot ?h)" using history_wf_delta [OF wf] by (simp add: history_wf_def)
  show "snapshot_at_or_before ?h q = (if r \<le> q then Some (apply_delta d (vh_current h)) else snapshot_at_or_before h q)"
  proof (cases "r \<le> q")
    case True
    have "map_of (vh_round_to_snapshot ?h) k' = None" if "r < k'" for k'
      using last that by (auto simp: m)
    with True show ?thesis by (simp add: snapshot_at_or_before_greatest [OF wf', of r] m)
  next
    case False
    have "filter (\<lambda>e. fst e \<le> q) (bt_insert r v xs) = filter (\<lambda>e. fst e \<le> q) xs"
      for v :: validator_set_snapshot and xs
      using False by (induction xs) auto
    with False show ?thesis
      by (simp add: snapshot_at_or_before_def apply_delta_at_round_def record_round_def Let_def)
  qed
  assume k: "map_of (vh_round_to_snapshot h) k \<noteq> None" "m \<le> k" "k \<le> q"
  show "snapshot_at_or_before (prune_before m h) q = snapshot_at_or_before h q"
  proof (rule snapshot_at_or_before_cong [OF wfm _ k(1,3)])
    show "bt_wf (vh_round_to_snapshot (prune_before m h))"
      using history_wf_prune [OF wf] by (simp add: history_wf_def)
    show "map_of (vh_round_to_snapshot (prune_before m h)) x = map_of (vh_round_to_snapshot h) x" if "k \<le> x" for x
      using that k(2) wf by (auto simp: prune_before_def Let_def map_of_filter_key bt_contains_def history_wf_def)
  qed
qed

lemma history_lookup_witness:
  "snapshot_at_or_before (apply_delta_at_round 8 \<lparr>vd_stake_updates = [], vd_jailed = [1], vd_unjailed = []\<rparr>
     (history_new 3 example_snapshot)) 5 = Some example_snapshot"
proof -
  have "\<forall>k. map_of (vh_round_to_snapshot (history_new 3 example_snapshot)) k \<noteq> None \<longrightarrow> k \<le> 8"
    by (simp add: history_new_def)
  from history_lookup [OF history_wf_new this] show ?thesis
    by (simp add: history_new_def snapshot_at_or_before_def)
qed

text \<open>Pruning forgets the snapshot in force at the first round it is meant to keep: unless one was
  recorded at exactly that round, the query at it is answered with none afterwards.\<close>

lemma prune_forgets_snapshot_in_force:
  assumes "history_wf h" and "m \<le> q" and "q < vh_current_round h"
    and "\<forall>k. m \<le> k \<and> k \<le> q \<longrightarrow> map_of (vh_round_to_snapshot h) k = None"
  shows "snapshot_at_or_before (prune_before m h) q = None"
  unfolding snapshot_absent using assms
  by (auto simp: prune_before_def Let_def map_of_filter_key bt_contains_def history_wf_def)

lemma prune_forgets_snapshot_in_force_witness:
  "let h = apply_delta_at_round 9 \<lparr>vd_stake_updates = [], vd_jailed = [1], vd_unjailed = []\<rparr>
       (history_new 3 example_snapshot)
   in snapshot_at_or_before h 5 = Some example_snapshot \<and> snapshot_at_or_before (prune_before 5 h) 5 = None"
proof -
  let ?h = "apply_delta_at_round 9 \<lparr>vd_stake_updates = [], vd_jailed = [1], vd_unjailed = []\<rparr>
       (history_new 3 example_snapshot)"
  have "history_wf ?h" by (intro history_wf_delta history_wf_new)
  moreover have "\<forall>k. 5 \<le> k \<and> k \<le> 5 \<longrightarrow> map_of (vh_round_to_snapshot ?h) k = None"
    by (auto simp: apply_delta_at_round_def record_round_def history_new_def)
  ultimately have "snapshot_at_or_before (prune_before 5 ?h) 5 = None"
    using prune_forgets_snapshot_in_force [of ?h 5 5]
    by (simp add: apply_delta_at_round_def record_round_def)
  moreover have "snapshot_at_or_before ?h 5 = Some example_snapshot"
    by (simp add: apply_delta_at_round_def record_round_def history_new_def snapshot_at_or_before_def)
  ultimately show ?thesis by (simp add: Let_def)
qed

end
