(* ===== verification/Validator_Codec.thy ===== *)
theory Validator_Codec
  imports Validator_Set
begin

text \<open>
  The bincode encoding of a validator set snapshot (second half of
  \<open>node/consensus/validator_set.rs\<close>): variable-length integers with a marker byte, little-endian
  payloads, a cursor over the input, and the decoder with all of its errors.
\<close>

section \<open>Little-endian integers\<close>

fun to_le_bytes :: "nat \<Rightarrow> nat \<Rightarrow> nat list" where
  "to_le_bytes 0 value = []"
| "to_le_bytes (Suc n) value = value mod 256 # to_le_bytes n (value div 256)"

fun from_le_bytes :: "nat list \<Rightarrow> nat" where
  "from_le_bytes [] = 0"
| "from_le_bytes (b # bs) = b + 256 * from_le_bytes bs"

definition encode_varint_u64 :: "nat list \<Rightarrow> nat \<Rightarrow> nat list" where
  "encode_varint_u64 out value =
     (if value \<le> 250 then out @ [value]
      else if value \<le> 0xffff then out @ 251 # to_le_bytes 2 value
      else if value \<le> 0xffffffff then out @ 252 # to_le_bytes 4 value
      else out @ 253 # to_le_bytes 8 value)"

section \<open>The cursor\<close>

datatype decode_error =
  Eof nat nat | TrailingBytes nat | VarintReservedByte nat | VarintOverflow string nat | LengthOverflow nat

record bincode_cursor =
  bc_bytes :: "nat list"
  bc_offset :: nat

type_synonym 'a cursor_result = "decode_error + ('a \<times> bincode_cursor)"

definition cursor_new :: "nat list \<Rightarrow> bincode_cursor" where
  "cursor_new bytes = \<lparr>bc_bytes = bytes, bc_offset = 0\<rparr>"

definition cursor_finish :: "bincode_cursor \<Rightarrow> decode_error + unit" where
  "cursor_finish c =
     (let remaining = length (bc_bytes c) - bc_offset c
      in if remaining = 0 then Inr () else Inl (TrailingBytes remaining))"

definition read_exact :: "nat \<Rightarrow> bincode_cursor \<Rightarrow> nat list cursor_result" where
  "read_exact len c =
     (let remaining = length (bc_bytes c) - bc_offset c
      in if remaining < len then Inl (Eof len remaining)
         else Inr (take len (drop (bc_offset c) (bc_bytes c)), c\<lparr>bc_offset := bc_offset c + len\<rparr>))"

definition read_u8 :: "bincode_cursor \<Rightarrow> nat cursor_result" where
  "read_u8 c = (case read_exact 1 c of Inl e \<Rightarrow> Inl e | Inr (bs, c') \<Rightarrow> Inr (bs ! 0, c'))"

definition read_le :: "nat \<Rightarrow> bincode_cursor \<Rightarrow> nat cursor_result" where
  "read_le len c = (case read_exact len c of Inl e \<Rightarrow> Inl e | Inr (bs, c') \<Rightarrow> Inr (from_le_bytes bs, c'))"

definition read_varint_u128 :: "bincode_cursor \<Rightarrow> nat cursor_result" where
  "read_varint_u128 c =
     (case read_u8 c of
        Inl e \<Rightarrow> Inl e
      | Inr (marker, c') \<Rightarrow>
          (if marker \<le> 250 then Inr (marker, c')
           else if marker = 251 then read_le 2 c'
           else if marker = 252 then read_le 4 c'
           else if marker = 253 then read_le 8 c'
           else if marker = 254 then read_le 16 c'
           else Inl (VarintReservedByte marker)))"

definition read_varint_u64 :: "bincode_cursor \<Rightarrow> nat cursor_result" where
  "read_varint_u64 c =
     (case read_varint_u128 c of
        Inl e \<Rightarrow> Inl e
      | Inr (value, c') \<Rightarrow> (if value \<le> u64_max then Inr (value, c') else Inl (VarintOverflow ''u64'' value)))"

definition read_varint_u32 :: "bincode_cursor \<Rightarrow> nat cursor_result" where
  "read_varint_u32 c =
     (case read_varint_u128 c of
        Inl e \<Rightarrow> Inl e
      | Inr (value, c') \<Rightarrow> (if value \<le> u32_max then Inr (value, c') else Inl (VarintOverflow ''u32'' value)))"

text \<open>\<open>usize\<close> is 64 bits wide on the platforms the node runs on, so the conversion always fits.\<close>

definition read_len :: "bincode_cursor \<Rightarrow> nat cursor_result" where
  "read_len c =
     (case read_varint_u64 c of
        Inl e \<Rightarrow> Inl e
      | Inr (value, c') \<Rightarrow> (if value \<le> u64_max then Inr (value, c') else Inl (LengthOverflow value)))"

section \<open>Snapshots\<close>

definition encode_bincode :: "validator_set_snapshot \<Rightarrow> nat list \<Rightarrow> nat list" where
  "encode_bincode s out =
     (let out1 = encode_varint_u64 out (length (vs_stakes s));
          out2 = fold (\<lambda>(validator, stake) acc. encode_varint_u64 (encode_varint_u64 acc validator) stake)
                   (vs_stakes s) out1;
          out3 = encode_varint_u64 out2 (length (vs_jailed_validators s))
      in fold (\<lambda>validator acc. encode_varint_u64 acc validator) (vs_jailed_validators s) out3)"

fun decode_stakes :: "nat \<Rightarrow> (nat, nat) btree \<Rightarrow> bincode_cursor \<Rightarrow> (nat, nat) btree cursor_result" where
  "decode_stakes 0 stakes c = Inr (stakes, c)"
| "decode_stakes (Suc n) stakes c =
     (case read_varint_u32 c of
        Inl e \<Rightarrow> Inl e
      | Inr (validator, c1) \<Rightarrow>
          (case read_varint_u64 c1 of
             Inl e \<Rightarrow> Inl e
           | Inr (stake, c2) \<Rightarrow>
               decode_stakes n (if stake \<noteq> 0 then bt_insert validator stake stakes else stakes) c2))"

fun decode_jailed :: "nat \<Rightarrow> nat bset \<Rightarrow> bincode_cursor \<Rightarrow> nat bset cursor_result" where
  "decode_jailed 0 jailed c = Inr (jailed, c)"
| "decode_jailed (Suc n) jailed c =
     (case read_varint_u32 c of
        Inl e \<Rightarrow> Inl e
      | Inr (validator, c1) \<Rightarrow> decode_jailed n (bs_insert validator jailed) c1)"

definition decode_bincode :: "nat list \<Rightarrow> decode_error + validator_set_snapshot" where
  "decode_bincode bytes =
     (case read_len (cursor_new bytes) of
        Inl e \<Rightarrow> Inl e
      | Inr (stakes_len, c1) \<Rightarrow>
          (case decode_stakes stakes_len [] c1 of
             Inl e \<Rightarrow> Inl e
           | Inr (stakes, c2) \<Rightarrow>
               (case read_len c2 of
                  Inl e \<Rightarrow> Inl e
                | Inr (jailed_len, c3) \<Rightarrow>
                    (case decode_jailed jailed_len [] c3 of
                       Inl e \<Rightarrow> Inl e
                     | Inr (jailed, c4) \<Rightarrow>
                         (case cursor_finish c4 of
                            Inl e \<Rightarrow> Inl e
                          | Inr _ \<Rightarrow> Inr (with_jailed stakes jailed))))))"

section \<open>Round trip of one integer\<close>

lemma length_to_le [simp]: "length (to_le_bytes n v) = n"
  by (induction n v rule: to_le_bytes.induct) simp_all

lemma from_to_le: "v < 256 ^ n \<Longrightarrow> from_le_bytes (to_le_bytes n v) = v"
proof (induction n v rule: to_le_bytes.induct)
  case (2 n v)
  then have "v div 256 < 256 ^ n" by (simp add: div_less_iff_less_mult mult.commute)
  with 2 show ?case by simp
qed simp

definition cursor_at :: "nat list \<Rightarrow> nat list \<Rightarrow> bincode_cursor" where
  "cursor_at done rest = \<lparr>bc_bytes = done @ rest, bc_offset = length done\<rparr>"

lemma cursor_new_at: "cursor_new bytes = cursor_at [] bytes"
  by (simp add: cursor_new_def cursor_at_def)

lemma cursor_finish_at: "cursor_finish (cursor_at done rest) = (if rest = [] then Inr () else Inl (TrailingBytes (length rest)))"
  by (simp add: cursor_finish_def cursor_at_def)

lemma read_exact_at:
  "read_exact (length bs) (cursor_at done (bs @ rest)) = Inr (bs, cursor_at (done @ bs) rest)"
  by (simp add: read_exact_def cursor_at_def)

lemma read_u8_at: "read_u8 (cursor_at done (b # rest)) = Inr (b, cursor_at (done @ [b]) rest)"
  using read_exact_at [of "[b]" "done" rest] by (simp add: read_u8_def)

lemma read_le_at:
  "v < 256 ^ n \<Longrightarrow> read_le n (cursor_at done (to_le_bytes n v @ rest)) = Inr (v, cursor_at (done @ to_le_bytes n v) rest)"
  using read_exact_at [of "to_le_bytes n v" "done" rest] by (simp add: read_le_def from_to_le)

lemma encode_varint_append: "encode_varint_u64 out v = out @ encode_varint_u64 [] v"
  by (simp add: encode_varint_u64_def)

lemma read_varint_at:
  assumes "v \<le> u64_max"
  shows "read_varint_u128 (cursor_at done (encode_varint_u64 [] v @ rest)) =
    Inr (v, cursor_at (done @ encode_varint_u64 [] v) rest)"
proof -
  have "v < 256 ^ 2 \<longleftrightarrow> v \<le> 0xffff" "v < 256 ^ 4 \<longleftrightarrow> v \<le> 0xffffffff" "v < 256 ^ 8 \<longleftrightarrow> v \<le> u64_max"
    by (auto simp: u64_max_def)
  with assms show ?thesis
    by (auto simp: encode_varint_u64_def read_varint_u128_def read_u8_at read_le_at)
qed

lemma read_varint_u64_at:
  "v \<le> u64_max \<Longrightarrow> read_varint_u64 (cursor_at done (encode_varint_u64 [] v @ rest)) =
     Inr (v, cursor_at (done @ encode_varint_u64 [] v) rest)"
  by (simp add: read_varint_u64_def read_varint_at)

lemma read_varint_u32_at:
  "v \<le> u32_max \<Longrightarrow> read_varint_u32 (cursor_at done (encode_varint_u64 [] v @ rest)) =
     Inr (v, cursor_at (done @ encode_varint_u64 [] v) rest)"
  by (simp add: read_varint_u32_def read_varint_at u32_max_def u64_max_def)

lemma read_len_at:
  "v \<le> u64_max \<Longrightarrow> read_len (cursor_at done (encode_varint_u64 [] v @ rest)) =
     Inr (v, cursor_at (done @ encode_varint_u64 [] v) rest)"
  by (simp add: read_len_def read_varint_u64_at)

section \<open>Round trip of a snapshot\<close>

definition enc_stakes :: "(nat, nat) btree \<Rightarrow> nat list" where
  "enc_stakes m = concat (map (\<lambda>(v, stake). encode_varint_u64 [] v @ encode_varint_u64 [] stake) m)"

definition enc_jailed :: "nat bset \<Rightarrow> nat list" where
  "enc_jailed xs = concat (map (encode_varint_u64 []) xs)"

lemma fold_enc_stakes:
  "fold (\<lambda>(v, stake) acc. encode_varint_u64 (encode_varint_u64 acc v) stake) m out = out @ enc_stakes m"
proof (induction m arbitrary: out)
  case (Cons e m)
  have "encode_varint_u64 (encode_varint_u64 out (fst e)) (snd e) =
      out @ encode_varint_u64 [] (fst e) @ encode_varint_u64 [] (snd e)"
    using encode_varint_append [of "encode_varint_u64 out (fst e)" "snd e"] encode_varint_append [of out "fst e"] by simp
  with Cons show ?case by (simp add: case_prod_unfold enc_stakes_def)
qed (simp add: enc_stakes_def)

lemma fold_enc_jailed: "fold (\<lambda>v acc. encode_varint_u64 acc v) xs out = out @ enc_jailed xs"
proof (induction xs arbitrary: out)
  case (Cons x xs)
  with encode_varint_append [of out x] show ?case by (simp add: enc_jailed_def)
qed (simp add: enc_jailed_def)

lemma encode_bincode_layout:
  "encode_bincode s out = out @ encode_varint_u64 [] (length (vs_stakes s)) @ enc_stakes (vs_stakes s) @
     encode_varint_u64 [] (length (vs_jailed_validators s)) @ enc_jailed (vs_jailed_validators s)"
  using encode_varint_append [of out "length (vs_stakes s)"]
    encode_varint_append [of "encode_varint_u64 out (length (vs_stakes s)) @ enc_stakes (vs_stakes s)"
      "length (vs_jailed_validators s)"]
  by (simp add: encode_bincode_def fold_enc_stakes fold_enc_jailed)

lemma bt_insert_greater: "\<forall>e \<in> set m. fst e < k \<Longrightarrow> bt_insert k v m = m @ [(k, v)]"
  by (induction m) auto

lemma bs_insert_greater: "\<forall>x \<in> set xs. x < k \<Longrightarrow> bs_insert k xs = xs @ [k]"
  by (induction xs) auto

lemma decode_stakes_at:
  assumes "bt_wf (acc @ m)" and "\<forall>e \<in> set m. fst e \<le> u32_max \<and> snd e \<le> u64_max \<and> snd e \<noteq> 0"
  shows "decode_stakes (length m) acc (cursor_at done (enc_stakes m @ rest)) =
    Inr (acc @ m, cursor_at (done @ enc_stakes m) rest)"
  using assms
proof (induction m arbitrary: acc "done")
  case (Cons e m)
  obtain v stake where e: "e = (v, stake)" by force
  have ins: "bt_insert v stake acc = acc @ [(v, stake)]"
    using Cons.prems(1) by (intro bt_insert_greater) (auto simp: bt_wf_def sorted_wrt_append e)
  have enc: "enc_stakes ((v, stake) # m) = encode_varint_u64 [] v @ encode_varint_u64 [] stake @ enc_stakes m"
    by (simp add: enc_stakes_def)
  show ?case
    using Cons.IH [of "acc @ [(v, stake)]" "done @ encode_varint_u64 [] v @ encode_varint_u64 [] stake"] Cons.prems
    by (simp add: enc e ins read_varint_u32_at read_varint_u64_at)
qed (simp add: enc_stakes_def)

lemma decode_jailed_at:
  assumes "bs_wf (acc @ xs)" and "\<forall>x \<in> set xs. x \<le> u32_max"
  shows "decode_jailed (length xs) acc (cursor_at done (enc_jailed xs @ rest)) =
    Inr (acc @ xs, cursor_at (done @ enc_jailed xs) rest)"
  using assms
proof (induction xs arbitrary: acc "done")
  case (Cons x xs)
  have ins: "bs_insert x acc = acc @ [x]"
    using Cons.prems(1) by (intro bs_insert_greater) (auto simp: bs_wf_def sorted_wrt_append)
  have enc: "enc_jailed (x # xs) = encode_varint_u64 [] x @ enc_jailed xs" by (simp add: enc_jailed_def)
  show ?case
    using Cons.IH [of "acc @ [x]" "done @ encode_varint_u64 [] x"] Cons.prems
    by (simp add: enc ins read_varint_u32_at)
qed (simp add: enc_jailed_def)

lemma with_jailed_wf: "snapshot_wf s \<Longrightarrow> with_jailed (vs_stakes s) (vs_jailed_validators s) = s"
proof -
  assume wf: "snapshot_wf s"
  have "filter (\<lambda>e. snd e \<noteq> 0) (vs_stakes s) = vs_stakes s"
    using wf by (intro filter_True) (simp add: snapshot_wf_def)
  moreover have "filter (bt_contains (vs_stakes s)) (vs_jailed_validators s) = vs_jailed_validators s"
    using wf by (intro filter_True) (auto simp: snapshot_wf_def bt_contains_iff)
  ultimately show ?thesis
    by (simp add: with_jailed_def drop_unknown_jailed_entries_def drop_zero_stake_entries_def)
qed

definition stakes_ok :: "(nat, nat) btree \<Rightarrow> bool" where
  "stakes_ok m \<longleftrightarrow> bt_wf m \<and> (\<forall>e \<in> set m. fst e \<le> u32_max \<and> snd e \<le> u64_max)"

lemma read_varint_u32_range: "read_varint_u32 c = Inr (v, c') \<Longrightarrow> v \<le> u32_max"
  by (auto simp: read_varint_u32_def split: sum.splits prod.splits if_splits)

lemma read_varint_u64_range: "read_varint_u64 c = Inr (v, c') \<Longrightarrow> v \<le> u64_max"
  by (auto simp: read_varint_u64_def split: sum.splits prod.splits if_splits)

lemma decode_stakes_ok:
  "decode_stakes n stakes c = Inr (stakes', c') \<Longrightarrow> stakes_ok stakes \<Longrightarrow> stakes_ok stakes'"
proof (induction n stakes c rule: decode_stakes.induct)
  case (2 n stakes c)
  obtain v c1 where v: "read_varint_u32 c = Inr (v, c1)"
    using 2(2) by (cases "read_varint_u32 c") auto
  obtain stake c2 where stake: "read_varint_u64 c1 = Inr (stake, c2)"
    using 2(2) v by (cases "read_varint_u64 c1") auto
  have "stakes_ok (if stake \<noteq> 0 then bt_insert v stake stakes else stakes)"
    using 2(3) read_varint_u32_range [OF v] read_varint_u64_range [OF stake]
    by (auto simp: stakes_ok_def set_bt_insert)
  with 2(1) [OF v refl stake refl] 2(2) v stake show ?case by simp
qed simp

lemma decode_jailed_ok: "decode_jailed n jailed c = Inr (jailed', c') \<Longrightarrow> bs_wf jailed \<Longrightarrow> bs_wf jailed'"
  by (induction n jailed c rule: decode_jailed.induct) (auto split: sum.splits prod.splits)

section \<open>Properties\<close>

text \<open>Encoding and decoding are inverse: a well-formed snapshot whose indexes and stakes fit their
  types decodes to itself, with no byte left over.\<close>

lemma decode_encode_snapshot:
  assumes wf: "snapshot_wf s" and fits: "\<forall>e \<in> set (vs_stakes s). fst e \<le> u32_max \<and> snd e \<le> u64_max"
    and len: "length (vs_stakes s) \<le> u64_max"
  shows "decode_bincode (encode_bincode s []) = Inr s"
proof -
  have jailed: "\<forall>x \<in> set (vs_jailed_validators s). x \<le> u32_max" using wf fits by (auto simp: snapshot_wf_def)
  have "length (vs_jailed_validators s) \<le> length (vs_stakes s)"
  proof -
    have "length (vs_jailed_validators s) = card (set (vs_jailed_validators s))"
      using wf bs_wf_distinct [of "vs_jailed_validators s"] by (simp add: snapshot_wf_def distinct_card)
    also have "\<dots> \<le> card (fst ` set (vs_stakes s))" using wf by (intro card_mono) (auto simp: snapshot_wf_def)
    also have "\<dots> \<le> length (vs_stakes s)" by (metis card_length length_map set_map)
    finally show ?thesis .
  qed
  then have jlen: "length (vs_jailed_validators s) \<le> u64_max" using len by simp
  note st = decode_stakes_at [of "[]" "vs_stakes s"] and jl = decode_jailed_at [of "[]" "vs_jailed_validators s"]
  have stakes: "\<forall>e \<in> set (vs_stakes s). fst e \<le> u32_max \<and> snd e \<le> u64_max \<and> snd e \<noteq> 0"
    using wf fits by (auto simp: snapshot_wf_def)
  show ?thesis
    using wf stakes jailed jl [of "done" "[]" for "done"]
    by (simp add: decode_bincode_def encode_bincode_layout cursor_new_at read_len_at [OF len] read_len_at [OF jlen]
        st cursor_finish_at with_jailed_wf snapshot_wf_def)
qed

lemma decode_encode_snapshot_witness:
  "decode_bincode (encode_bincode example_snapshot []) = Inr example_snapshot"
proof (rule decode_encode_snapshot [OF example_snapshot_facts(1)])
  show "\<forall>e \<in> set (vs_stakes example_snapshot). fst e \<le> u32_max \<and> snd e \<le> u64_max"
    by (simp add: example_snapshot_def u32_max_def u64_max_def)
  show "length (vs_stakes example_snapshot) \<le> u64_max" by (simp add: example_snapshot_def u64_max_def)
qed

text \<open>Whatever bytes it is given, the decoder returns an error or a snapshot that is well formed and
  whose indexes and stakes are in range.\<close>

lemma decode_bincode_wf:
  assumes "decode_bincode bytes = Inr s"
  shows "snapshot_wf s \<and> (\<forall>e \<in> set (vs_stakes s). fst e \<le> u32_max \<and> snd e \<le> u64_max)"
proof -
  obtain n c1 stakes c2 k c3 jailed c4 where d: "decode_stakes n [] c1 = Inr (stakes, c2)"
    "decode_jailed k [] c3 = Inr (jailed, c4)" and s: "s = with_jailed stakes jailed"
    using assms by (auto simp: decode_bincode_def split: sum.splits prod.splits)
  have "stakes_ok stakes" using decode_stakes_ok [OF d(1)] by (simp add: stakes_ok_def)
  moreover have "bs_wf jailed" using decode_jailed_ok [OF d(2)] by simp
  ultimately show ?thesis
    using snapshot_wf_with_jailed [of stakes jailed]
    by (auto simp: s stakes_ok_def with_jailed_def drop_unknown_jailed_entries_def drop_zero_stake_entries_def)
qed

lemma decode_bincode_wf_witness:
  "decode_bincode [1, 3, 7, 1, 3] = Inr \<lparr>vs_stakes = [(3, 7)], vs_jailed_validators = [3]\<rparr> \<and>
   snapshot_wf \<lparr>vs_stakes = [(3, 7)], vs_jailed_validators = [3]\<rparr>"
proof -
  have "decode_bincode [1, 3, 7, 1, 3] = Inr \<lparr>vs_stakes = [(3, 7)], vs_jailed_validators = [3]\<rparr>"
    by (simp add: decode_bincode_def cursor_new_def read_len_def read_varint_u64_def read_varint_u32_def
        read_varint_u128_def read_u8_def read_exact_def cursor_finish_def with_jailed_def
        drop_unknown_jailed_entries_def drop_zero_stake_entries_def bt_contains_def u64_max_def u32_max_def)
  with decode_bincode_wf [OF this] show ?thesis by blast
qed

end
