(* ===== verification/Mempool.thy ===== *)
theory Mempool
  imports Rust_Prelude
begin

text \<open>
  The consensus mempool, \<open>node/consensus/mempool.rs\<close>: the queue of external transactions with its two
  indexes, the registered blocks, the queue of handoffs to the consensus server, and one poll of the
  mempool.  Hashes are 256-bit words; an \<open>Instant\<close> and a \<open>Duration\<close> are a \<open>nat\<close> of time units.  The
  block verifier is a trait the caller implements: a parameter \<open>verify\<close> with its own state.
\<close>

type_synonym tx_hash = "256 word"
type_synonym block_hash = "256 word"

definition RPC_REQUEST_THROTTLE_LIMIT :: nat where
  "RPC_REQUEST_THROTTLE_LIMIT = 100"

definition DEFAULT_RETRY_AFTER :: nat where
  "DEFAULT_RETRY_AFTER = 200"

section \<open>Data\<close>

record external_tx =
  et_tx_hash :: tx_hash
  et_seq_num :: nat
  et_bytes :: "nat list"

record mp_signed_block =
  sb_block_hash :: block_hash
  sb_tx_hashes :: "tx_hash list"
  sb_sequence :: nat
  sb_round :: nat
  sb_bytes :: "nat list"

record block_context =
  bx_height :: nat
  bx_round :: nat

record mempool_tx =
  mt_tx_hash :: tx_hash
  mt_seq_num :: nat
  mt_bytes :: "nat list"
  mt_first_seen_at :: "nat option"
  mt_committed_by :: "block_hash option"

record registered_block =
  rb_context :: block_context
  rb_signed_block :: mp_signed_block
  rb_missing_tx_hashes :: "tx_hash list"

datatype request_reason = MissingTx | BehindBlockWatermark | RetryAfterWaitDuration | PartialResponse

datatype mempool_handoff =
  ForwardExternalTx external_tx
| RegisterBlock registered_block
| RequestBlocksAndTxs nat "block_hash option" request_reason

datatype verify_error =
  BlockBelowWatermark nat nat
| VerifyDuplicateBlockHash block_hash
| VerifyConflictingBlock nat block_hash block_hash
| MissingTransactions "tx_hash list"
| DuplicateTxHash tx_hash

datatype add_tx_error =
  AlreadyCommitted tx_hash | AlreadyUncommitted tx_hash | AlreadyReferencedByBlock tx_hash

datatype register_block_error =
  VerifyBlock string
| StaleBlock nat nat
| DuplicateBlockHash block_hash
| ConflictingBlockAtSequence nat block_hash block_hash

record size_stats =
  ss_committed_tx_hashes :: nat
  ss_uncommitted_txs :: nat
  ss_blocks :: nat
  ss_rpc_requests :: nat

datatype mempool_event =
  SizeStats size_stats
| VerifyBlockOk block_hash nat
| VerifyBlockErr block_hash verify_error
| AddTx tx_hash nat
| DroppingTxs nat string
| PrunedRpcRequestThrottle nat nat
| HandleBlocksAndTxs nat nat
| MakingRequestAfterWaitDuration nat

record external_tx_queue =
  eq_by_hash :: "(tx_hash, mempool_tx) btree"
  eq_by_sequence :: "(nat, tx_hash) btree"

record blocks_and_txs_request =
  br_after_round :: nat
  br_until_block_hash :: "block_hash option"
  br_reason :: request_reason
  br_requested_at :: nat

record mempool =
  mp_committed_tx_hashes :: "tx_hash bset"
  mp_uncommitted_txs :: external_tx_queue
  mp_block_hash_to_block :: "(block_hash, registered_block) btree"
  mp_block_sequence_to_hash :: "(nat, block_hash) btree"
  mp_min_block_sequence :: nat
  mp_latest_tx_sequence :: nat
  mp_rpc_request_throttle :: "blocks_and_txs_request list"
  mp_pending_handoff :: "mempool_handoff list"
  mp_events :: "mempool_event list"
  mp_suppress_handoff :: bool
  mp_retry_after :: nat
  mp_next_request_after :: "nat option"

definition mempool_default :: mempool where
  "mempool_default =
     \<lparr>mp_committed_tx_hashes = [], mp_uncommitted_txs = \<lparr>eq_by_hash = [], eq_by_sequence = []\<rparr>,
      mp_block_hash_to_block = [], mp_block_sequence_to_hash = [], mp_min_block_sequence = 0,
      mp_latest_tx_sequence = 0, mp_rpc_request_throttle = [], mp_pending_handoff = [], mp_events = [],
      mp_suppress_handoff = False, mp_retry_after = DEFAULT_RETRY_AFTER, mp_next_request_after = None\<rparr>"

section \<open>The transaction queue\<close>

definition etq_contains_hash :: "external_tx_queue \<Rightarrow> tx_hash \<Rightarrow> bool" where
  "etq_contains_hash q h \<longleftrightarrow> bt_contains (eq_by_hash q) h"

definition etq_insert ::
  "external_tx \<Rightarrow> nat option \<Rightarrow> external_tx_queue \<Rightarrow> external_tx_queue \<times> (add_tx_error + unit)" where
  "etq_insert tx first_seen_at q =
     (if bt_contains (eq_by_hash q) (et_tx_hash tx) then (q, Inl (AlreadyUncommitted (et_tx_hash tx)))
      else (q\<lparr>eq_by_sequence := bt_insert (et_seq_num tx) (et_tx_hash tx) (eq_by_sequence q),
              eq_by_hash := bt_insert (et_tx_hash tx)
                \<lparr>mt_tx_hash = et_tx_hash tx, mt_seq_num = et_seq_num tx, mt_bytes = et_bytes tx,
                 mt_first_seen_at = first_seen_at, mt_committed_by = None\<rparr> (eq_by_hash q)\<rparr>, Inr ()))"

definition etq_remove_by_hash :: "tx_hash \<Rightarrow> external_tx_queue \<Rightarrow> external_tx_queue \<times> mempool_tx option" where
  "etq_remove_by_hash h q =
     (case map_of (eq_by_hash q) h of
        None \<Rightarrow> (q, None)
      | Some tx \<Rightarrow>
          (q\<lparr>eq_by_hash := bt_remove h (eq_by_hash q),
             eq_by_sequence := bt_remove (mt_seq_num tx) (eq_by_sequence q)\<rparr>, Some tx))"

fun etq_drop_loop :: "tx_hash list \<Rightarrow> external_tx_queue \<Rightarrow> mempool_tx list \<Rightarrow> external_tx_queue \<times> mempool_tx list" where
  "etq_drop_loop [] q dropped = (q, dropped)"
| "etq_drop_loop (h # stale) q dropped =
     (case etq_remove_by_hash h q of
        (q', None) \<Rightarrow> etq_drop_loop stale q' dropped
      | (q', Some tx) \<Rightarrow> etq_drop_loop stale q' (dropped @ [tx]))"

definition etq_drop_before_sequence :: "nat \<Rightarrow> external_tx_queue \<Rightarrow> external_tx_queue \<times> mempool_tx list" where
  "etq_drop_before_sequence min_sequence q =
     (let stale = map snd (filter (\<lambda>e. fst e < min_sequence) (eq_by_sequence q))
      in etq_drop_loop stale q [])"

section \<open>Transactions\<close>

definition block_references_tx :: "mempool \<Rightarrow> tx_hash \<Rightarrow> bool" where
  "block_references_tx m h \<longleftrightarrow>
     list_ex (\<lambda>e. h \<in> set (sb_tx_hashes (rb_signed_block (snd e)))) (mp_block_hash_to_block m)"

definition add_tx :: "external_tx \<Rightarrow> nat option \<Rightarrow> mempool \<Rightarrow> mempool \<times> (add_tx_error + unit)" where
  "add_tx tx now m =
     (if et_tx_hash tx \<in> set (mp_committed_tx_hashes m) then (m, Inl (AlreadyCommitted (et_tx_hash tx)))
      else if etq_contains_hash (mp_uncommitted_txs m) (et_tx_hash tx)
      then (m, Inl (AlreadyUncommitted (et_tx_hash tx)))
      else if block_references_tx m (et_tx_hash tx) then (m, Inl (AlreadyReferencedByBlock (et_tx_hash tx)))
      else
        let handoff = \<lparr>et_tx_hash = et_tx_hash tx, et_seq_num = et_seq_num tx, et_bytes = et_bytes tx\<rparr>;
            m1 = m\<lparr>mp_latest_tx_sequence := max (mp_latest_tx_sequence m) (et_seq_num tx)\<rparr>
        in case etq_insert tx now (mp_uncommitted_txs m1) of
             (q, Inl e) \<Rightarrow> (m1\<lparr>mp_uncommitted_txs := q\<rparr>, Inl e)
           | (q, Inr _) \<Rightarrow>
               (let m2 = m1\<lparr>mp_uncommitted_txs := q,
                            mp_events := mp_events m1 @ [AddTx (et_tx_hash tx) (et_seq_num tx)]\<rparr>
                in ((if mp_suppress_handoff m2 then m2
                     else m2\<lparr>mp_pending_handoff := mp_pending_handoff m2 @ [ForwardExternalTx handoff]\<rparr>),
                    Inr ())))"

section \<open>Blocks\<close>

definition collect_prior_block_tx_hashes :: "mempool \<Rightarrow> nat \<Rightarrow> tx_hash bset" where
  "collect_prior_block_tx_hashes m before_sequence =
     fold (\<lambda>e hashes.
        case map_of (mp_block_hash_to_block m) (snd e) of
          None \<Rightarrow> hashes
        | Some block \<Rightarrow> fold bs_insert (sb_tx_hashes (rb_signed_block block)) hashes)
       (filter (\<lambda>e. fst e < before_sequence) (mp_block_sequence_to_hash m)) []"

definition unknown_tx_hashes_for_block :: "mempool \<Rightarrow> mp_signed_block \<Rightarrow> tx_hash list" where
  "unknown_tx_hashes_for_block m sb =
     (let prior = collect_prior_block_tx_hashes m (sb_sequence sb)
      in filter (\<lambda>h. h \<notin> set (mp_committed_tx_hashes m) \<and> \<not> etq_contains_hash (mp_uncommitted_txs m) h \<and>
             h \<notin> set prior) (sb_tx_hashes sb))"

definition commit_tx :: "tx_hash \<Rightarrow> mempool \<Rightarrow> mempool" where
  "commit_tx h m =
     m\<lparr>mp_committed_tx_hashes := bs_insert h (mp_committed_tx_hashes m),
       mp_uncommitted_txs := fst (etq_remove_by_hash h (mp_uncommitted_txs m))\<rparr>"

text \<open>The second half of \<open>register_block\<close>, after its checks.  \<open>None\<close> is the failed assertion that
  the block hash was not yet registered.\<close>

definition store_block :: "block_context \<Rightarrow> block_hash \<Rightarrow> mp_signed_block \<Rightarrow> mempool \<Rightarrow> mempool option" where
  "store_block context h sb m =
     (let missing = unknown_tx_hashes_for_block m sb;
          m1 = (if missing = [] then m
                else m\<lparr>mp_pending_handoff := mp_pending_handoff m @
                       [RequestBlocksAndTxs (sb_round sb) (Some h) MissingTx]\<rparr>);
          registered = \<lparr>rb_context = context, rb_signed_block = sb, rb_missing_tx_hashes = missing\<rparr>
      in if map_of (mp_block_hash_to_block m1) h \<noteq> None then None
         else let m2 = m1\<lparr>mp_block_hash_to_block := bt_insert h registered (mp_block_hash_to_block m1),
                          mp_block_sequence_to_hash := bt_insert (sb_sequence sb) h (mp_block_sequence_to_hash m1)\<rparr>;
                  m3 = fold commit_tx (sb_tx_hashes sb) m2
              in Some (if mp_suppress_handoff m3 then m3
                       else m3\<lparr>mp_pending_handoff := mp_pending_handoff m3 @ [RegisterBlock registered]\<rparr>))"

definition register_block ::
  "('v \<Rightarrow> mp_signed_block \<Rightarrow> 'v \<times> (string + unit)) \<Rightarrow> block_context \<Rightarrow> block_hash \<Rightarrow> mp_signed_block \<Rightarrow>
   'v \<Rightarrow> mempool \<Rightarrow> ('v \<times> mempool \<times> (register_block_error + unit)) option" where
  "register_block verify context h sb v m =
     (case verify v sb of
        (v', Inl msg) \<Rightarrow> Some (v', m, Inl (VerifyBlock msg))
      | (v', Inr _) \<Rightarrow>
          (if sb_sequence sb < mp_min_block_sequence m
           then Some (v', m, Inl (StaleBlock (sb_sequence sb) (mp_min_block_sequence m)))
           else if bt_contains (mp_block_hash_to_block m) h then Some (v', m, Inl (DuplicateBlockHash h))
           else case map_of (mp_block_sequence_to_hash m) (sb_sequence sb) of
             Some existing \<Rightarrow>
               (if existing \<noteq> h
                then Some (v', m, Inl (ConflictingBlockAtSequence (sb_sequence sb) existing h))
                else map_option (\<lambda>m'. (v', m', Inr ())) (store_block context h sb m))
           | None \<Rightarrow> map_option (\<lambda>m'. (v', m', Inr ())) (store_block context h sb m)))"

definition size_stats_of :: "mempool \<Rightarrow> size_stats" where
  "size_stats_of m =
     \<lparr>ss_committed_tx_hashes = length (mp_committed_tx_hashes m),
      ss_uncommitted_txs = length (eq_by_hash (mp_uncommitted_txs m)),
      ss_blocks = length (mp_block_hash_to_block m), ss_rpc_requests = length (mp_rpc_request_throttle m)\<rparr>"

fun first_duplicate :: "tx_hash bset \<Rightarrow> tx_hash list \<Rightarrow> tx_hash option" where
  "first_duplicate seen [] = None"
| "first_duplicate seen (h # hs) = (if h \<in> set seen then Some h else first_duplicate (bs_insert h seen) hs)"

definition verify_fail :: "block_hash \<Rightarrow> verify_error \<Rightarrow> mempool \<Rightarrow> mempool \<times> (verify_error + unit)" where
  "verify_fail h err m = (m\<lparr>mp_events := mp_events m @ [VerifyBlockErr h err]\<rparr>, Inl err)"

definition verify_block :: "block_hash \<Rightarrow> mp_signed_block \<Rightarrow> mempool \<Rightarrow> mempool \<times> (verify_error + unit)" where
  "verify_block h sb m =
     (if sb_sequence sb < mp_min_block_sequence m
      then verify_fail h (BlockBelowWatermark (sb_sequence sb) (mp_min_block_sequence m)) m
      else if bt_contains (mp_block_hash_to_block m) h then verify_fail h (VerifyDuplicateBlockHash h) m
      else if (case map_of (mp_block_sequence_to_hash m) (sb_sequence sb) of
                 None \<Rightarrow> False | Some existing \<Rightarrow> existing \<noteq> h)
      then verify_fail h (VerifyConflictingBlock (sb_sequence sb)
             (the (map_of (mp_block_sequence_to_hash m) (sb_sequence sb))) h) m
      else case first_duplicate [] (sb_tx_hashes sb) of
        Some d \<Rightarrow> verify_fail h (DuplicateTxHash d) m
      | None \<Rightarrow>
          (let missing = unknown_tx_hashes_for_block m sb
           in if missing \<noteq> [] then verify_fail h (MissingTransactions missing) m
              else let m1 = m\<lparr>mp_events := mp_events m @ [VerifyBlockOk h (sb_sequence sb)]\<rparr>
                   in (m1\<lparr>mp_events := mp_events m1 @ [SizeStats (size_stats_of m1)]\<rparr>, Inr ())))"

section \<open>Pruning\<close>

definition prune_committed_before :: "nat \<Rightarrow> mempool \<Rightarrow> mempool \<times> mempool_tx list" where
  "prune_committed_before min_sequence m =
     (let m1 = m\<lparr>mp_min_block_sequence := max (mp_min_block_sequence m) min_sequence\<rparr>;
          (q, dropped) = etq_drop_before_sequence min_sequence (mp_uncommitted_txs m1);
          m2 = m1\<lparr>mp_uncommitted_txs := q\<rparr>
      in (if dropped = [] then m2
          else m2\<lparr>mp_events := mp_events m2 @ [DroppingTxs (length dropped) ''below block watermark'']\<rparr>,
          dropped))"

definition prune_rpc_request_throttle :: "mempool \<Rightarrow> mempool" where
  "prune_rpc_request_throttle m =
     (let before = length (mp_rpc_request_throttle m);
          kept = drop (before - RPC_REQUEST_THROTTLE_LIMIT) (mp_rpc_request_throttle m);
          m1 = m\<lparr>mp_rpc_request_throttle := kept\<rparr>
      in if length kept \<noteq> before
         then m1\<lparr>mp_events := mp_events m1 @ [PrunedRpcRequestThrottle before (length kept)]\<rparr> else m1)"

section \<open>One poll\<close>

record blocks_and_txs_response =
  bt_blocks :: "(block_context \<times> block_hash \<times> mp_signed_block) list"
  bt_txs :: "external_tx list"
  bt_lowest_parent_round :: nat
  bt_partial :: bool

record mempool_poll_input =
  pi_inbound_txs :: "external_tx list"
  pi_inbound_blocks_and_txs :: "blocks_and_txs_response list"
  pi_now :: "nat option"

record mempool_poll_output =
  po_handoffs :: "mempool_handoff list"
  po_events :: "mempool_event list"

definition poll_tx :: "nat option \<Rightarrow> external_tx \<Rightarrow> mempool \<Rightarrow> mempool" where
  "poll_tx now tx m =
     (case add_tx tx now m of
        (m1, Inr _) \<Rightarrow> m1
      | (m1, Inl (AlreadyCommitted h)) \<Rightarrow>
          m1\<lparr>mp_events := mp_events m1 @ [DroppingTxs 1 ''already committed''],
             mp_committed_tx_hashes := bs_insert h (mp_committed_tx_hashes m1)\<rparr>
      | (m1, Inl _) \<Rightarrow> m1\<lparr>mp_events := mp_events m1 @ [DroppingTxs 1 ''duplicate tx hash'']\<rparr>)"

fun poll_blocks ::
  "('v \<Rightarrow> mp_signed_block \<Rightarrow> 'v \<times> (string + unit)) \<Rightarrow> blocks_and_txs_response \<Rightarrow>
   (block_context \<times> block_hash \<times> mp_signed_block) list \<Rightarrow> 'v \<times> mempool \<Rightarrow> ('v \<times> mempool) option" where
  "poll_blocks verify response [] (v, m) = Some (v, m)"
| "poll_blocks verify response ((context, h, sb) # blocks) (v, m) =
     (case register_block verify context h sb v m of
        None \<Rightarrow> None
      | Some (v', m1, r) \<Rightarrow>
          poll_blocks verify response blocks
            (v', if isl r \<and> bt_partial response
                 then m1\<lparr>mp_pending_handoff := mp_pending_handoff m1 @
                          [RequestBlocksAndTxs (bt_lowest_parent_round response) (Some h) PartialResponse]\<rparr>
                 else m1))"

fun poll_responses ::
  "('v \<Rightarrow> mp_signed_block \<Rightarrow> 'v \<times> (string + unit)) \<Rightarrow> nat option \<Rightarrow> blocks_and_txs_response list \<Rightarrow>
   'v \<times> mempool \<Rightarrow> ('v \<times> mempool) option" where
  "poll_responses verify now [] (v, m) = Some (v, m)"
| "poll_responses verify now (response # responses) (v, m) =
     (let m1 = m\<lparr>mp_events := mp_events m @
                   [HandleBlocksAndTxs (length (bt_blocks response)) (length (bt_txs response))]\<rparr>;
          m2 = fold (\<lambda>tx acc. fst (add_tx tx now acc)) (bt_txs response) m1
      in case poll_blocks verify response (bt_blocks response) (v, m2) of
           None \<Rightarrow> None
         | Some vm \<Rightarrow> poll_responses verify now responses vm)"

definition poll_retry :: "nat option \<Rightarrow> mempool \<Rightarrow> mempool" where
  "poll_retry now m =
     (case (now, mp_next_request_after m) of
        (Some t, Some deadline) \<Rightarrow>
          (if deadline \<le> t
           then let after_round = (case bt_last_key (mp_block_sequence_to_hash m) of
                                     None \<Rightarrow> mp_min_block_sequence m | Some k \<Rightarrow> k);
                    request = \<lparr>br_after_round = after_round,
                      br_until_block_hash = map_of (mp_block_sequence_to_hash m) after_round,
                      br_reason = RetryAfterWaitDuration, br_requested_at = t\<rparr>
                in m\<lparr>mp_events := mp_events m @ [MakingRequestAfterWaitDuration after_round],
                     mp_rpc_request_throttle := mp_rpc_request_throttle m @ [request],
                     mp_pending_handoff := mp_pending_handoff m @
                       [RequestBlocksAndTxs (br_after_round request) (br_until_block_hash request) (br_reason request)],
                     mp_next_request_after := Some (t + mp_retry_after m)\<rparr>
           else m)
      | _ \<Rightarrow> m)"

definition poll_mempool ::
  "('v \<Rightarrow> mp_signed_block \<Rightarrow> 'v \<times> (string + unit)) \<Rightarrow> mempool_poll_input \<Rightarrow> 'v \<Rightarrow> mempool \<Rightarrow>
   ('v \<times> mempool \<times> mempool_poll_output) option" where
  "poll_mempool verify input v m =
     (let m1 = fold (poll_tx (pi_now input)) (pi_inbound_txs input) m
      in case poll_responses verify (pi_now input) (pi_inbound_blocks_and_txs input) (v, m1) of
           None \<Rightarrow> None
         | Some (v', m2) \<Rightarrow>
             (let m4 = poll_retry (pi_now input) (prune_rpc_request_throttle m2)
              in Some (v', m4\<lparr>mp_pending_handoff := [], mp_events := []\<rparr>,
                       \<lparr>po_handoffs = mp_pending_handoff m4, po_events = mp_events m4\<rparr>)))"


section \<open>Invariant of the queue\<close>

definition etq_inv :: "external_tx_queue \<Rightarrow> bool" where
  "etq_inv q \<longleftrightarrow> bt_wf (eq_by_hash q) \<and> bt_wf (eq_by_sequence q) \<and>
     (\<forall>n h. map_of (eq_by_sequence q) n = Some h \<longrightarrow> (\<exists>tx. map_of (eq_by_hash q) h = Some tx \<and> mt_seq_num tx = n)) \<and>
     (\<forall>h tx. map_of (eq_by_hash q) h = Some tx \<longrightarrow> mt_tx_hash tx = h)"

lemma etq_sequence:
  "etq_inv q \<Longrightarrow> map_of (eq_by_sequence q) n = Some h \<Longrightarrow>
     \<exists>tx. map_of (eq_by_hash q) h = Some tx \<and> mt_seq_num tx = n"
  by (simp add: etq_inv_def)

lemma etq_insert_inv:
  assumes "etq_inv q" shows "etq_inv (fst (etq_insert tx t q))"
proof (cases "map_of (eq_by_hash q) (et_tx_hash tx)")
  case None
  have "map_of (eq_by_sequence q) n \<noteq> Some (et_tx_hash tx)" for n
    using etq_sequence [OF assms, of n "et_tx_hash tx"] None by auto
  with assms None show ?thesis by (auto simp: etq_inv_def etq_insert_def bt_contains_def)
qed (use assms in \<open>simp add: etq_insert_def bt_contains_def\<close>)

lemma etq_remove_inv:
  assumes "etq_inv q" shows "etq_inv (fst (etq_remove_by_hash h q))"
proof (cases "map_of (eq_by_hash q) h")
  case (Some tx)
  have "n = mt_seq_num tx" if "map_of (eq_by_sequence q) n = Some h" for n
    using etq_sequence [OF assms that] Some by auto
  with assms Some show ?thesis by (auto simp: etq_inv_def etq_remove_by_hash_def)
qed (use assms in \<open>simp add: etq_remove_by_hash_def\<close>)

lemma etq_remove_lookup:
  "map_of (eq_by_hash (fst (etq_remove_by_hash h q))) = (map_of (eq_by_hash q))(h := None)"
  by (auto simp: etq_remove_by_hash_def fun_eq_iff split: option.split)

lemma etq_drop_loop_inv: "etq_inv q \<Longrightarrow> etq_inv (fst (etq_drop_loop hs q ds))"
proof (induction hs q ds rule: etq_drop_loop.induct)
  case (2 h hs q ds)
  from etq_remove_inv [OF 2(3), of h] show ?case
    using 2(1,2) by (auto split: prod.split option.split)
qed simp

lemma etq_drop_loop_lookup:
  "map_of (eq_by_hash (fst (etq_drop_loop hs q ds))) x = (if x \<in> set hs then None else map_of (eq_by_hash q) x)"
proof (induction hs q ds rule: etq_drop_loop.induct)
  case (2 h hs q ds)
  obtain q' r where qr: "etq_remove_by_hash h q = (q', r)" by force
  have "map_of (eq_by_hash q') = (map_of (eq_by_hash q))(h := None)"
    using etq_remove_lookup [of h q] qr by simp
  with 2 qr show ?case by (cases r) (auto simp: qr)
qed simp

section \<open>Invariant of the mempool\<close>

definition known :: "mempool \<Rightarrow> tx_hash set" where
  "known m = set (mp_committed_tx_hashes m) \<union> dom (map_of (eq_by_hash (mp_uncommitted_txs m)))"

definition blocks_inv :: "mempool \<Rightarrow> bool" where
  "blocks_inv m \<longleftrightarrow> bt_wf (mp_block_hash_to_block m) \<and> bt_wf (mp_block_sequence_to_hash m) \<and>
     (\<forall>n h. map_of (mp_block_sequence_to_hash m) n = Some h \<longrightarrow>
        (\<exists>r. map_of (mp_block_hash_to_block m) h = Some r \<and> sb_sequence (rb_signed_block r) = n)) \<and>
     (\<forall>h r. map_of (mp_block_hash_to_block m) h = Some r \<longrightarrow>
        map_of (mp_block_sequence_to_hash m) (sb_sequence (rb_signed_block r)) = Some h)"

definition committed_inv :: "mempool \<Rightarrow> bool" where
  "committed_inv m \<longleftrightarrow>
     (\<forall>h \<in> set (mp_committed_tx_hashes m). map_of (eq_by_hash (mp_uncommitted_txs m)) h = None) \<and>
     (\<forall>h r. map_of (mp_block_hash_to_block m) h = Some r \<longrightarrow>
        set (sb_tx_hashes (rb_signed_block r)) \<subseteq> set (mp_committed_tx_hashes m))"

definition mempool_inv :: "mempool \<Rightarrow> bool" where
  "mempool_inv m \<longleftrightarrow> etq_inv (mp_uncommitted_txs m) \<and> blocks_inv m \<and> committed_inv m"

lemma committed_block:
  assumes "mempool_inv m" and "(h, r) \<in> set (mp_block_hash_to_block m)"
  shows "set (sb_tx_hashes (rb_signed_block r)) \<subseteq> set (mp_committed_tx_hashes m)"
proof -
  have "map_of (mp_block_hash_to_block m) h = Some r"
    using assms bt_wf_map_of [of "mp_block_hash_to_block m" "(h, r)"] by (simp add: mempool_inv_def blocks_inv_def)
  then show ?thesis using assms(1) by (simp add: mempool_inv_def committed_inv_def)
qed

lemma mempool_inv_default: "mempool_inv mempool_default"
  by (simp add: mempool_inv_def mempool_default_def etq_inv_def blocks_inv_def committed_inv_def)

text \<open>Only the four indexes matter to the invariant.\<close>

lemma mempool_inv_cong:
  assumes "mp_committed_tx_hashes m' = mp_committed_tx_hashes m" and "mp_uncommitted_txs m' = mp_uncommitted_txs m"
    and "mp_block_hash_to_block m' = mp_block_hash_to_block m"
    and "mp_block_sequence_to_hash m' = mp_block_sequence_to_hash m"
  shows "mempool_inv m' \<longleftrightarrow> mempool_inv m" and "known m' = known m"
  using assms by (simp_all add: mempool_inv_def blocks_inv_def committed_inv_def known_def)

lemma add_tx_cases:
  assumes "mempool_inv m"
  shows "(et_tx_hash tx \<in> known m \<and> fst (add_tx tx now m) = m \<and> isl (snd (add_tx tx now m))) \<or>
    (et_tx_hash tx \<notin> known m \<and> snd (add_tx tx now m) = Inr () \<and> mempool_inv (fst (add_tx tx now m)) \<and>
     known (fst (add_tx tx now m)) = insert (et_tx_hash tx) (known m) \<and>
     mp_pending_handoff (fst (add_tx tx now m)) = mp_pending_handoff m @
       (if mp_suppress_handoff m then [] else [ForwardExternalTx tx]))"
proof (cases "et_tx_hash tx \<in> known m")
  case True
  then show ?thesis
    by (auto simp: known_def add_tx_def etq_contains_hash_def bt_contains_def)
next
  case False
  let ?h = "et_tx_hash tx"
  have noref: "\<not> block_references_tx m ?h"
    using committed_block [OF assms] False by (fastforce simp: block_references_tx_def list_ex_iff known_def)
  define q where "q = fst (etq_insert tx now (mp_uncommitted_txs m))"
  have new: "map_of (eq_by_hash (mp_uncommitted_txs m)) ?h = None" "?h \<notin> set (mp_committed_tx_hashes m)"
    using False by (auto simp: known_def)
  have ins: "etq_insert tx now (mp_uncommitted_txs m) = (q, Inr ())"
    using new by (simp add: q_def etq_insert_def bt_contains_def)
  have look: "map_of (eq_by_hash q) x = (if x = ?h then Some \<lparr>mt_tx_hash = ?h, mt_seq_num = et_seq_num tx,
      mt_bytes = et_bytes tx, mt_first_seen_at = now, mt_committed_by = None\<rparr>
      else map_of (eq_by_hash (mp_uncommitted_txs m)) x)" for x
    using new by (simp add: q_def etq_insert_def bt_contains_def)
  have qinv: "etq_inv q" using assms unfolding q_def by (intro etq_insert_inv) (simp add: mempool_inv_def)
  obtain m' where m': "add_tx tx now m = (m', Inr ())"
    and f: "mp_committed_tx_hashes m' = mp_committed_tx_hashes m" "mp_uncommitted_txs m' = q"
      "mp_block_hash_to_block m' = mp_block_hash_to_block m"
      "mp_block_sequence_to_hash m' = mp_block_sequence_to_hash m"
      "mp_pending_handoff m' = mp_pending_handoff m @ (if mp_suppress_handoff m then [] else [ForwardExternalTx tx])"
    using new noref ins by (auto simp: add_tx_def etq_contains_hash_def bt_contains_def Let_def)
  have "known m' = insert ?h (known m)" by (auto simp: known_def f look dom_def)
  moreover have "mempool_inv m'"
    using assms qinv new by (auto simp: mempool_inv_def blocks_inv_def committed_inv_def f look)
  ultimately show ?thesis using m' f False by simp
qed


lemma fold_commit:
  "set (mp_committed_tx_hashes (fold commit_tx hs m)) = set (mp_committed_tx_hashes m) \<union> set hs"
  "map_of (eq_by_hash (mp_uncommitted_txs (fold commit_tx hs m))) x =
     (if x \<in> set hs then None else map_of (eq_by_hash (mp_uncommitted_txs m)) x)"
  "etq_inv (mp_uncommitted_txs m) \<Longrightarrow> etq_inv (mp_uncommitted_txs (fold commit_tx hs m))"
  "mp_block_hash_to_block (fold commit_tx hs m) = mp_block_hash_to_block m"
  "mp_block_sequence_to_hash (fold commit_tx hs m) = mp_block_sequence_to_hash m"
  "mp_pending_handoff (fold commit_tx hs m) = mp_pending_handoff m"
  "mp_suppress_handoff (fold commit_tx hs m) = mp_suppress_handoff m"
  "mp_min_block_sequence (fold commit_tx hs m) = mp_min_block_sequence m"
  by (induction hs arbitrary: m) (auto simp: commit_tx_def etq_remove_lookup etq_remove_inv)

lemma store_block_total:
  assumes inv: "mempool_inv m" and new: "map_of (mp_block_hash_to_block m) h = None"
    and free: "map_of (mp_block_sequence_to_hash m) (sb_sequence sb) = None"
  shows "\<exists>m' hs. store_block context h sb m = Some m' \<and> mempool_inv m' \<and>
    known m' = known m \<union> set (sb_tx_hashes sb) \<and> mp_min_block_sequence m' = mp_min_block_sequence m \<and>
    set (mp_committed_tx_hashes m') = set (mp_committed_tx_hashes m) \<union> set (sb_tx_hashes sb) \<and>
    map_of (mp_block_hash_to_block m') h = Some \<lparr>rb_context = context, rb_signed_block = sb,
      rb_missing_tx_hashes = unknown_tx_hashes_for_block m sb\<rparr> \<and>
    mp_pending_handoff m' = mp_pending_handoff m @ hs \<and> (\<forall>tx. ForwardExternalTx tx \<notin> set hs)"
proof -
  let ?missing = "unknown_tx_hashes_for_block m sb"
  let ?r = "\<lparr>rb_context = context, rb_signed_block = sb, rb_missing_tx_hashes = ?missing\<rparr>"
  define m1 where "m1 = (if ?missing = [] then m else m\<lparr>mp_pending_handoff := mp_pending_handoff m @
      [RequestBlocksAndTxs (sb_round sb) (Some h) MissingTx]\<rparr>)"
  define m2 where "m2 = m1\<lparr>mp_block_hash_to_block := bt_insert h ?r (mp_block_hash_to_block m1),
      mp_block_sequence_to_hash := bt_insert (sb_sequence sb) h (mp_block_sequence_to_hash m1)\<rparr>"
  define m3 where "m3 = fold commit_tx (sb_tx_hashes sb) m2"
  define m' where "m' = (if mp_suppress_handoff m3 then m3
      else m3\<lparr>mp_pending_handoff := mp_pending_handoff m3 @ [RegisterBlock ?r]\<rparr>)"
  have b1: "mp_block_hash_to_block m1 = mp_block_hash_to_block m" "mp_committed_tx_hashes m1 = mp_committed_tx_hashes m"
    "mp_block_sequence_to_hash m1 = mp_block_sequence_to_hash m" "mp_uncommitted_txs m1 = mp_uncommitted_txs m"
    "mp_min_block_sequence m1 = mp_min_block_sequence m"
    by (simp_all add: m1_def)
  have run: "store_block context h sb m = Some m'"
    using new b1(1)
    unfolding store_block_def Let_def m1_def [symmetric] m2_def [symmetric] m3_def [symmetric] m'_def [symmetric]
    by simp
  note f = fold_commit [where hs = "sb_tx_hashes sb" and m = m2, folded m3_def]
  have same: "mp_committed_tx_hashes m' = mp_committed_tx_hashes m3" "mp_uncommitted_txs m' = mp_uncommitted_txs m3"
    "mp_block_hash_to_block m' = mp_block_hash_to_block m3" "mp_block_sequence_to_hash m' = mp_block_sequence_to_hash m3"
    "mp_min_block_sequence m' = mp_min_block_sequence m3"
    by (simp_all add: m'_def)
  have blocks: "map_of (mp_block_hash_to_block m') = (map_of (mp_block_hash_to_block m))(h \<mapsto> ?r)"
    "map_of (mp_block_sequence_to_hash m') = (map_of (mp_block_sequence_to_hash m))(sb_sequence sb \<mapsto> h)"
    by (simp_all add: same f m2_def b1)
  have comm: "set (mp_committed_tx_hashes m') = set (mp_committed_tx_hashes m) \<union> set (sb_tx_hashes sb)"
    by (simp add: same f m2_def b1)
  have unc: "map_of (eq_by_hash (mp_uncommitted_txs m')) x =
      (if x \<in> set (sb_tx_hashes sb) then None else map_of (eq_by_hash (mp_uncommitted_txs m)) x)" for x
    by (simp add: same f m2_def b1)
  have "etq_inv (mp_uncommitted_txs m')"
    using inv f(3) by (simp add: same m2_def b1 mempool_inv_def)
  moreover have "blocks_inv m'"
  proof -
    have "bt_wf (mp_block_hash_to_block m')" "bt_wf (mp_block_sequence_to_hash m')"
      using inv by (simp_all add: same f m2_def b1 mempool_inv_def blocks_inv_def)
    moreover have "sb_sequence (rb_signed_block r) \<noteq> sb_sequence sb" if "map_of (mp_block_hash_to_block m) x = Some r" for x r
      using inv free that by (fastforce simp: mempool_inv_def blocks_inv_def)
    moreover have "map_of (mp_block_sequence_to_hash m) n \<noteq> Some h" for n
      using inv new by (fastforce simp: mempool_inv_def blocks_inv_def)
    ultimately show ?thesis
      using inv unfolding mempool_inv_def blocks_inv_def blocks by auto
  qed
  moreover have "committed_inv m'"
    using inv unfolding mempool_inv_def committed_inv_def blocks comm unc by auto
  ultimately have "mempool_inv m'" by (simp add: mempool_inv_def)
  moreover have "known m' = known m \<union> set (sb_tx_hashes sb)"
    unfolding known_def comm by (auto simp: unc dom_def)
  moreover have "\<exists>hs. mp_pending_handoff m' = mp_pending_handoff m @ hs \<and> (\<forall>tx. ForwardExternalTx tx \<notin> set hs)"
    by (auto simp: m'_def f m2_def m1_def)
  ultimately show ?thesis
    using run blocks comm by (auto simp: same f m2_def b1)
qed


lemma sequence_registered:
  "mempool_inv m \<Longrightarrow> map_of (mp_block_sequence_to_hash m) n = Some h \<Longrightarrow>
     \<exists>r. map_of (mp_block_hash_to_block m) h = Some r \<and> sb_sequence (rb_signed_block r) = n"
  by (simp add: mempool_inv_def blocks_inv_def)

definition acceptable :: "mempool \<Rightarrow> block_hash \<Rightarrow> mp_signed_block \<Rightarrow> bool" where
  "acceptable m h sb \<longleftrightarrow> mp_min_block_sequence m \<le> sb_sequence sb \<and>
     map_of (mp_block_hash_to_block m) h = None \<and> map_of (mp_block_sequence_to_hash m) (sb_sequence sb) = None"

lemma register_block_cases:
  assumes inv: "mempool_inv m"
  shows "if isl (snd (verify v sb)) \<or> \<not> acceptable m h sb
    then \<exists>e. register_block verify context h sb v m = Some (fst (verify v sb), m, Inl e)
    else \<exists>m'. store_block context h sb m = Some m' \<and>
      register_block verify context h sb v m = Some (fst (verify v sb), m', Inr ())"
proof -
  have "existing \<noteq> h" if "map_of (mp_block_sequence_to_hash m) (sb_sequence sb) = Some existing"
    "map_of (mp_block_hash_to_block m) h = None" for existing
    using sequence_registered [OF inv that(1)] that(2) by auto
  moreover have "\<exists>m'. store_block context h sb m = Some m'" if "acceptable m h sb"
    using store_block_total [OF inv, of h sb "context"] that by (auto simp: acceptable_def)
  ultimately show ?thesis
    by (auto simp: register_block_def acceptable_def bt_contains_def not_less split: prod.split sum.split option.split)
qed

section \<open>Forwarding a transaction once\<close>

definition forwarded :: "mempool_handoff list \<Rightarrow> tx_hash list" where
  "forwarded hs = concat (map (\<lambda>h. case h of ForwardExternalTx tx \<Rightarrow> [et_tx_hash tx] | _ \<Rightarrow> []) hs)"

lemma forwarded_simps [simp]:
  "forwarded [] = []" "forwarded (xs @ ys) = forwarded xs @ forwarded ys"
  "forwarded [ForwardExternalTx tx] = [et_tx_hash tx]" "forwarded [RegisterBlock r] = []"
  "forwarded [RequestBlocksAndTxs n b reason] = []"
  by (simp_all add: forwarded_def)

lemma forwarded_none: "\<forall>tx. ForwardExternalTx tx \<notin> set hs \<Longrightarrow> forwarded hs = []"
  by (auto simp: forwarded_def split: mempool_handoff.split)

definition forward_inv :: "tx_hash set \<Rightarrow> mempool \<Rightarrow> bool" where
  "forward_inv K m \<longleftrightarrow> mempool_inv m \<and> K \<subseteq> known m \<and> distinct (forwarded (mp_pending_handoff m)) \<and>
     set (forwarded (mp_pending_handoff m)) \<subseteq> known m - K"

lemma forward_inv_cong:
  assumes "mp_committed_tx_hashes m' = mp_committed_tx_hashes m" and "mp_uncommitted_txs m' = mp_uncommitted_txs m"
    and "mp_block_hash_to_block m' = mp_block_hash_to_block m"
    and "mp_block_sequence_to_hash m' = mp_block_sequence_to_hash m"
    and "forwarded (mp_pending_handoff m') = forwarded (mp_pending_handoff m)"
  shows "forward_inv K m' \<longleftrightarrow> forward_inv K m"
  using mempool_inv_cong [OF assms(1-4)] assms(5) by (simp add: forward_inv_def)

lemma forward_inv_add_tx: "forward_inv K m \<Longrightarrow> forward_inv K (fst (add_tx tx now m))"
  using add_tx_cases [of m tx now] by (auto simp: forward_inv_def split: if_splits)

lemma forward_inv_events [simp]:
  "forward_inv K (m\<lparr>mp_events := es\<rparr>) \<longleftrightarrow> forward_inv K m"
  by (rule forward_inv_cong) simp_all

lemma forward_inv_request [simp]:
  "forward_inv K (m\<lparr>mp_pending_handoff := mp_pending_handoff m @ [RequestBlocksAndTxs n b reason]\<rparr>) \<longleftrightarrow> forward_inv K m"
  by (rule forward_inv_cong) simp_all

lemma forward_inv_poll_tx:
  assumes "forward_inv K m" shows "forward_inv K (poll_tx now tx m)"
proof -
  obtain m1 r where r: "add_tx tx now m = (m1, r)" by force
  have inv: "forward_inv K m1" using forward_inv_add_tx [OF assms, of tx now] r by simp
  have same: "forward_inv K (m1\<lparr>mp_events := es, mp_committed_tx_hashes := bs_insert h (mp_committed_tx_hashes m1)\<rparr>)"
    if "h \<in> set (mp_committed_tx_hashes m1)" for h es
  proof -
    have "mempool_inv (m1\<lparr>mp_events := es, mp_committed_tx_hashes := bs_insert h (mp_committed_tx_hashes m1)\<rparr>)"
      using inv that by (simp add: forward_inv_def mempool_inv_def blocks_inv_def committed_inv_def insert_absorb)
    moreover have "known (m1\<lparr>mp_events := es, mp_committed_tx_hashes := bs_insert h (mp_committed_tx_hashes m1)\<rparr>) = known m1"
      using that by (simp add: known_def insert_absorb)
    ultimately show ?thesis using inv by (simp add: forward_inv_def)
  qed
  have "h \<in> set (mp_committed_tx_hashes m1)" if "r = Inl (AlreadyCommitted h)" for h
    using r that by (auto simp: add_tx_def etq_insert_def Let_def split: if_splits prod.splits sum.splits)
  with inv same r show ?thesis by (auto simp: poll_tx_def split: sum.split add_tx_error.split)
qed

lemma forward_inv_register:
  assumes "forward_inv K m"
  shows "\<exists>v' m' r. register_block verify context h sb v m = Some (v', m', r) \<and> forward_inv K m'"
proof (cases "isl (snd (verify v sb)) \<or> \<not> acceptable m h sb")
  case True
  with register_block_cases [of m verify v sb h "context"] assms show ?thesis
    by (auto simp: forward_inv_def)
next
  case False
  then obtain m' where m': "store_block context h sb m = Some m'"
    "register_block verify context h sb v m = Some (fst (verify v sb), m', Inr ())"
    using register_block_cases [of m verify v sb h "context"] assms by (auto simp: forward_inv_def)
  obtain hs where "mempool_inv m'" "known m' = known m \<union> set (sb_tx_hashes sb)"
    "mp_pending_handoff m' = mp_pending_handoff m @ hs" "\<forall>tx. ForwardExternalTx tx \<notin> set hs"
    using store_block_total [of m h sb "context"] False assms m'(1) by (auto simp: acceptable_def forward_inv_def)
  then have "forward_inv K m'" using assms by (auto simp: forward_inv_def forwarded_none)
  with m' show ?thesis by blast
qed

lemma forward_inv_fold: "(\<And>x m. forward_inv K m \<Longrightarrow> forward_inv K (f x m)) \<Longrightarrow> forward_inv K m \<Longrightarrow> forward_inv K (fold f xs m)"
  by (induction xs arbitrary: m) auto

lemma forward_inv_poll_blocks:
  "forward_inv K m \<Longrightarrow> \<exists>v' m'. poll_blocks verify response blocks (v, m) = Some (v', m') \<and> forward_inv K m'"
proof (induction blocks arbitrary: v m)
  case (Cons b blocks)
  obtain cx h sb where b: "b = (cx, h, sb)" by (cases b)
  obtain v' m' r where "register_block verify cx h sb v m = Some (v', m', r)" "forward_inv K m'"
    using forward_inv_register [OF Cons.prems, of verify cx h sb v] by blast
  with Cons.IH b show ?case by auto
qed simp

lemma forward_inv_poll_responses:
  "forward_inv K m \<Longrightarrow> \<exists>v' m'. poll_responses verify now responses (v, m) = Some (v', m') \<and> forward_inv K m'"
proof (induction responses arbitrary: v m)
  case (Cons response responses)
  let ?m1 = "m\<lparr>mp_events := mp_events m @ [HandleBlocksAndTxs (length (bt_blocks response)) (length (bt_txs response))]\<rparr>"
  have "forward_inv K (fold (\<lambda>tx acc. fst (add_tx tx now acc)) (bt_txs response) ?m1)"
    using Cons.prems by (intro forward_inv_fold forward_inv_add_tx) simp_all
  from forward_inv_poll_blocks [OF this, of verify response "bt_blocks response" v] Cons.IH show ?case
    by (auto simp: Let_def)
qed simp

lemma forward_inv_retry: "forward_inv K m \<Longrightarrow> forward_inv K (poll_retry now (prune_rpc_request_throttle m))"
proof -
  assume inv: "forward_inv K m"
  have a: "forward_inv K (prune_rpc_request_throttle m)"
    using inv by (subst forward_inv_cong [of _ m])
      (simp_all add: prune_rpc_request_throttle_def Let_def)
  have "forward_inv K (poll_retry now m') \<longleftrightarrow> forward_inv K m'" for m'
    by (rule forward_inv_cong)
      (simp_all add: poll_retry_def Let_def split: option.split)
  with a show ?thesis by blast
qed

section \<open>Runs\<close>

inductive mempool_step ::
  "('v \<Rightarrow> mp_signed_block \<Rightarrow> 'v \<times> (string + unit)) \<Rightarrow> mempool \<Rightarrow> mempool \<Rightarrow> bool" for verify where
  add: "mempool_step verify m (fst (add_tx tx now m))"
| register: "register_block verify context h sb v m = Some (v', m', r) \<Longrightarrow> mempool_step verify m m'"
| check: "mempool_step verify m (fst (verify_block h sb m))"
| prune: "mempool_step verify m (fst (prune_committed_before n m))"
| throttle: "mempool_step verify m (prune_rpc_request_throttle m)"
| pop: "mempool_step verify m (m\<lparr>mp_pending_handoff := tl (mp_pending_handoff m)\<rparr>)"

lemma prune_committed_inv:
  assumes "mempool_inv m" shows "mempool_inv (fst (prune_committed_before n m))"
proof -
  define stale where "stale = map snd (filter (\<lambda>e. fst e < n) (eq_by_sequence (mp_uncommitted_txs m)))"
  define q where "q = fst (etq_drop_loop stale (mp_uncommitted_txs m) [])"
  have q: "etq_inv q" "\<And>x. map_of (eq_by_hash q) x = (if x \<in> set stale then None else map_of (eq_by_hash (mp_uncommitted_txs m)) x)"
    unfolding q_def using assms etq_drop_loop_inv etq_drop_loop_lookup by (auto simp: mempool_inv_def)
  have "mp_uncommitted_txs (fst (prune_committed_before n m)) = q"
    "mp_committed_tx_hashes (fst (prune_committed_before n m)) = mp_committed_tx_hashes m"
    "mp_block_hash_to_block (fst (prune_committed_before n m)) = mp_block_hash_to_block m"
    "mp_block_sequence_to_hash (fst (prune_committed_before n m)) = mp_block_sequence_to_hash m"
    by (simp_all add: prune_committed_before_def etq_drop_before_sequence_def Let_def q_def stale_def
        case_prod_unfold)
  with assms q show ?thesis by (auto simp: mempool_inv_def blocks_inv_def committed_inv_def)
qed

lemma verify_block_same:
  "mp_committed_tx_hashes (fst (verify_block h sb m)) = mp_committed_tx_hashes m"
  "mp_uncommitted_txs (fst (verify_block h sb m)) = mp_uncommitted_txs m"
  "mp_block_hash_to_block (fst (verify_block h sb m)) = mp_block_hash_to_block m"
  "mp_block_sequence_to_hash (fst (verify_block h sb m)) = mp_block_sequence_to_hash m"
  "mp_min_block_sequence (fst (verify_block h sb m)) = mp_min_block_sequence m"
  by (auto simp: verify_block_def verify_fail_def Let_def split: option.split)

lemma add_tx_same:
  "mp_committed_tx_hashes (fst (add_tx tx now m)) = mp_committed_tx_hashes m"
  "mp_min_block_sequence (fst (add_tx tx now m)) = mp_min_block_sequence m"
  by (auto simp: add_tx_def Let_def split: prod.split sum.split)

lemma mempool_step_inv:
  assumes "mempool_step verify m m'" and "mempool_inv m"
  shows "mempool_inv m' \<and> set (mp_committed_tx_hashes m) \<subseteq> set (mp_committed_tx_hashes m') \<and>
    mp_min_block_sequence m \<le> mp_min_block_sequence m'"
  using assms(1)
proof (cases rule: mempool_step.cases)
  case (add tx now)
  then show ?thesis using add_tx_cases [OF assms(2), of tx now] assms(2) by (auto simp: add_tx_same)
next
  case (register "context" h sb v v' r)
  show ?thesis
  proof (cases "isl (snd (verify v sb)) \<or> \<not> acceptable m h sb")
    case True
    with register_block_cases [OF assms(2), of verify v sb h "context"] register assms(2) show ?thesis by auto
  next
    case False
    then have "store_block context h sb m = Some m'"
      using register_block_cases [OF assms(2), of verify v sb h "context"] register by auto
    with store_block_total [OF assms(2), of h sb "context"] False show ?thesis by (auto simp: acceptable_def)
  qed
next
  case (check h sb)
  then show ?thesis using assms(2) mempool_inv_cong(1) [OF verify_block_same(1-4)] by (simp add: verify_block_same)
next
  case (prune n)
  then show ?thesis
    using prune_committed_inv [OF assms(2), of n]
    by (simp add: prune_committed_before_def Let_def case_prod_unfold)
next
  case throttle
  then show ?thesis using assms(2) mempool_inv_cong(1) [of m' m] by (simp add: prune_rpc_request_throttle_def Let_def)
next
  case pop
  then show ?thesis using assms(2) mempool_inv_cong(1) [of m' m] by simp
qed

interpretation mempool_commits: monotone_system "mempool_step verify" mempool_inv "\<lambda>m. set (mp_committed_tx_hashes m)"
  for verify
  by unfold_locales (auto dest: mempool_step_inv)

interpretation mempool_watermark: monotone_system "mempool_step verify" mempool_inv mp_min_block_sequence
  for verify
  by unfold_locales (auto dest: mempool_step_inv)


lemma poll_mempool_total:
  assumes inv: "mempool_inv m" and drained: "mp_pending_handoff m = []"
  shows "\<exists>v' m' out. poll_mempool verify input v m = Some (v', m', out) \<and> mempool_inv m' \<and>
    distinct (forwarded (po_handoffs out)) \<and>
    (\<forall>h \<in> set (forwarded (po_handoffs out)). h \<notin> known m \<and> h \<in> known m')"
proof -
  have start: "forward_inv (known m) m" using inv drained by (simp add: forward_inv_def)
  define m1 where "m1 = fold (poll_tx (pi_now input)) (pi_inbound_txs input) m"
  have "forward_inv (known m) m1"
    unfolding m1_def using start by (intro forward_inv_fold forward_inv_poll_tx)
  then obtain v' m2 where m2: "poll_responses verify (pi_now input) (pi_inbound_blocks_and_txs input) (v, m1) = Some (v', m2)"
    "forward_inv (known m) m2"
    using forward_inv_poll_responses [of "known m" m1 verify "pi_now input" "pi_inbound_blocks_and_txs input" v] by blast
  define m4 where "m4 = poll_retry (pi_now input) (prune_rpc_request_throttle m2)"
  have inv4: "forward_inv (known m) m4" using forward_inv_retry [OF m2(2)] by (simp add: m4_def)
  let ?m' = "m4\<lparr>mp_pending_handoff := [], mp_events := []\<rparr>"
  have "poll_mempool verify input v m = Some (v', ?m', \<lparr>po_handoffs = mp_pending_handoff m4, po_events = mp_events m4\<rparr>)"
    using m2(1) by (simp add: poll_mempool_def m1_def [symmetric] m4_def [symmetric] Let_def)
  moreover have "mempool_inv ?m' \<longleftrightarrow> mempool_inv m4" "known ?m' = known m4"
    by (rule mempool_inv_cong; simp)+
  ultimately show ?thesis using inv4 by (auto simp: forward_inv_def)
qed

section \<open>Properties\<close>

definition example_tx :: "tx_hash \<Rightarrow> nat \<Rightarrow> external_tx" where
  "example_tx h n = \<lparr>et_tx_hash = h, et_seq_num = n, et_bytes = []\<rparr>"

definition example_block :: mp_signed_block where
  "example_block = \<lparr>sb_block_hash = 9, sb_tx_hashes = [1, 2], sb_sequence = 4, sb_round = 7, sb_bytes = []\<rparr>"

definition accept_all :: "nat \<Rightarrow> mp_signed_block \<Rightarrow> nat \<times> (string + unit)" where
  "accept_all v sb = (v + 1, Inr ())"

text \<open>C14. One poll never fails the registration assertion, whatever verifier the caller passes, keeps the
  indexes consistent, and forwards each transaction at most once: the forwarded hashes are distinct,
  none was known to the mempool before, and all are known afterwards.\<close>

theorem poll_forwards_once:
  assumes inv: "mempool_inv m" and drained: "mp_pending_handoff m = []"
  shows "\<exists>v' m' out. poll_mempool verify input v m = Some (v', m', out) \<and> mempool_inv m' \<and>
    distinct (forwarded (po_handoffs out)) \<and>
    (\<forall>h \<in> set (forwarded (po_handoffs out)). h \<notin> known m \<and> h \<in> known m')"
  using assms by (rule poll_mempool_total)

theorem poll_forwards_once_witness:
  "\<exists>v' m' out. poll_mempool accept_all \<lparr>pi_inbound_txs = [example_tx 1 1, example_tx 1 2],
       pi_inbound_blocks_and_txs = [], pi_now = Some 5\<rparr> 0 mempool_default = Some (v', m', out) \<and>
     distinct (forwarded (po_handoffs out)) \<and>
     po_handoffs out = [ForwardExternalTx (example_tx 1 1)]"
proof -
  let ?i = "\<lparr>pi_inbound_txs = [example_tx 1 1, example_tx 1 2], pi_inbound_blocks_and_txs = [], pi_now = Some 5\<rparr>"
  obtain v' m' out where out: "poll_mempool accept_all ?i 0 mempool_default = Some (v', m', out)"
    "distinct (forwarded (po_handoffs out))"
    using poll_forwards_once [OF mempool_inv_default, of accept_all ?i 0] by (auto simp: mempool_default_def)
  have "po_handoffs out = [ForwardExternalTx (example_tx 1 1)]"
    using out(1)
    by (simp add: poll_mempool_def poll_tx_def add_tx_def etq_insert_def etq_contains_hash_def bt_contains_def
        block_references_tx_def example_tx_def mempool_default_def prune_rpc_request_throttle_def poll_retry_def
        RPC_REQUEST_THROTTLE_LIMIT_def Let_def) (auto simp del: not_None_eq)
  with out show ?thesis by blast
qed

text \<open>Registering a block is all or nothing: when the verifier accepts and the block is at or above
  the watermark, of a new hash and a free sequence number, it is stored with the list of its
  unknown transactions, all its transactions become committed and leave the queue; in every other
  case the mempool is unchanged and an error is returned.\<close>

lemma register_block_effect:
  assumes inv: "mempool_inv m"
  shows "if isl (snd (verify v sb)) \<or> \<not> acceptable m h sb
    then \<exists>e. register_block verify ctx h sb v m = Some (fst (verify v sb), m, Inl e)
    else \<exists>m'. register_block verify ctx h sb v m = Some (fst (verify v sb), m', Inr ()) \<and> mempool_inv m' \<and>
      map_of (mp_block_hash_to_block m') h = Some \<lparr>rb_context = ctx, rb_signed_block = sb,
        rb_missing_tx_hashes = unknown_tx_hashes_for_block m sb\<rparr> \<and>
      set (mp_committed_tx_hashes m') = set (mp_committed_tx_hashes m) \<union> set (sb_tx_hashes sb) \<and>
      known m' = known m \<union> set (sb_tx_hashes sb)"
  using register_block_cases [OF inv, of verify v sb h ctx] store_block_total [OF inv, of h sb ctx]
  by (auto simp: acceptable_def)

lemma register_block_effect_witness:
  "\<exists>m'. register_block accept_all \<lparr>bx_height = 1, bx_round = 7\<rparr> 9 example_block 0 mempool_default =
     Some (1, m', Inr ()) \<and> set (mp_committed_tx_hashes m') = {1, 2}"
  using register_block_effect [OF mempool_inv_default, of accept_all 0 example_block 9 "\<lparr>bx_height = 1, bx_round = 7\<rparr>"]
  by (auto simp: accept_all_def acceptable_def mempool_default_def example_block_def)

text \<open>In every run of the mempool from its default state the transaction queue and the committed set
  are disjoint, every transaction of a registered block is committed, block hashes and sequence numbers
  index each other one to one, committed transactions are never forgotten and the block watermark
  never goes down.\<close>

lemma mempool_run:
  assumes "(mempool_step verify)\<^sup>*\<^sup>* mempool_default m" and "(mempool_step verify)\<^sup>*\<^sup>* m m'"
  shows "mempool_inv m' \<and> set (mp_committed_tx_hashes m) \<subseteq> set (mp_committed_tx_hashes m') \<and>
    mp_min_block_sequence m \<le> mp_min_block_sequence m'"
proof -
  have inv: "mempool_inv m" using mempool_commits.run_invar [OF assms(1) mempool_inv_default] .
  show ?thesis
    using mempool_commits.run_invar [OF assms(2) inv] mempool_commits.run_level [OF assms(2) inv]
      mempool_watermark.run_level [OF assms(2) inv] by blast
qed

lemma mempool_run_witness:
  "mempool_inv (fst (prune_committed_before 3 mempool_default)) \<and>
   (0::nat) \<le> mp_min_block_sequence (fst (prune_committed_before 3 mempool_default))"
  using mempool_run [OF rtranclp.rtrancl_refl r_into_rtranclp,
      OF mempool_step.prune [of accept_all mempool_default 3]]
  by (simp add: mempool_default_def)

text \<open>Dropping stale transactions misses those whose sequence number was used again: after two
  transactions with the same number, only the later one is dropped by \<open>drop_before_sequence\<close> and the
  earlier one stays in the queue however high the watermark rises.\<close>

lemma reused_sequence_is_never_dropped:
  fixes n :: nat and b1 b2 :: "nat list" and t :: "nat option"
  assumes "etq_inv q" and "map_of (eq_by_hash q) h1 = None" and "map_of (eq_by_hash q) h2 = None" and "h1 \<noteq> h2"
  defines "q1 \<equiv> fst (etq_insert \<lparr>et_tx_hash = h1, et_seq_num = n, et_bytes = b1\<rparr> t q)"
  defines "q2 \<equiv> fst (etq_insert \<lparr>et_tx_hash = h2, et_seq_num = n, et_bytes = b2\<rparr> t q1)"
  shows "map_of (eq_by_hash (fst (etq_drop_before_sequence w q2))) h1 \<noteq> None"
proof -
  have inv2: "etq_inv q2" unfolding q2_def q1_def by (intro etq_insert_inv assms(1))
  have h1: "map_of (eq_by_hash q2) h1 = Some \<lparr>mt_tx_hash = h1, mt_seq_num = n, mt_bytes = b1,
      mt_first_seen_at = t, mt_committed_by = None\<rparr>" and seq: "map_of (eq_by_sequence q2) n = Some h2"
    using assms(2-4) by (auto simp: q2_def q1_def etq_insert_def bt_contains_def)
  have "h1 \<notin> snd ` set (eq_by_sequence q2)"
  proof
    assume "h1 \<in> snd ` set (eq_by_sequence q2)"
    then obtain k where "(k, h1) \<in> set (eq_by_sequence q2)" by auto
    then have "map_of (eq_by_sequence q2) k = Some h1"
      using inv2 bt_wf_map_of [of "eq_by_sequence q2" "(k, h1)"] by (simp add: etq_inv_def)
    with etq_sequence [OF inv2 this] h1 seq assms(4) show False by auto
  qed
  then have "h1 \<notin> set (map snd (filter (\<lambda>e. fst e < w) (eq_by_sequence q2)))" by auto
  then show ?thesis using h1 by (simp add: etq_drop_before_sequence_def Let_def etq_drop_loop_lookup)
qed

lemma reused_sequence_is_never_dropped_witness:
  "map_of (eq_by_hash (fst (etq_drop_before_sequence 100
     (fst (etq_insert (example_tx 2 5) None (fst (etq_insert (example_tx 1 5) None (mp_uncommitted_txs mempool_default)))))))) 1
     \<noteq> None"
  using reused_sequence_is_never_dropped [where q = "mp_uncommitted_txs mempool_default" and ?h1.0 = 1 and ?h2.0 = 2
      and n = 5 and ?b1.0 = "[]" and ?b2.0 = "[]" and t = None and w = 100] mempool_inv_default
  by (simp add: example_tx_def mempool_inv_def) (simp add: mempool_default_def)

end
