(* ===== verification/Consensus_State.thy ===== *)
theory Consensus_State
  imports Validator_Set Mempool
begin

text \<open>
  The consensus state machine of \<open>node/consensus/state.rs\<close> over the message types of
  \<open>node/consensus/types.rs\<close>: rounds, registered blocks, quorum and timeout certificates, commits,
  pruning, and the mempool it owns.  Operations return the new state with the result, because several
  of them have already changed the state when they return an error.  Signatures are carried but never
  inspected by this code; an \<open>Instant\<close> is a \<open>nat\<close>.
\<close>

section \<open>Messages\<close>

type_synonym signature = "520 word"

record 'c signed =
  sg_content :: 'c
  sg_signature :: signature

record quorum_certificate =
  qc_block_hash :: block_hash
  qc_round :: nat
  qc_signatures :: "(nat \<times> signature) list"

record timeout =
  to_qc :: "quorum_certificate option"
  to_validator :: nat
  to_round :: nat

type_synonym signed_timeout = "timeout signed"

record timeout_certificate =
  tc_signed_timeouts :: "signed_timeout list"
  tc_round :: nat

record consensus_block =
  cb_proposer :: nat
  cb_round :: nat
  cb_tx_hashes :: "tx_hash list"
  cb_time_millis :: nat
  cb_qc :: "quorum_certificate option"
  cb_tc :: "timeout_certificate option"

record client_block =
  cl_block :: consensus_block
  cl_block_hash :: block_hash
  cl_app_hash :: "256 word option"
  cl_commit_proof :: "quorum_certificate option"
  cl_tx_commit_proofs :: "quorum_certificate list"

datatype consensus_rpc_error =
  RpcError string | SignableContent | VerifySignature | VerifyQcSignature
| BadBlockRound nat nat | BadBlockQcRound | BadBlockTcRound | BlockAlreadyRegistered
| QcRoundBeforeHardfork | QcNoQuorum | TcNoQuorum | TcNoTimeout | EmptyValidatorSet
| DuplicateBlockRound | TimeoutRoundMismatch | AlreadyHaveTimeoutFromNode | RpcNotFound | RpcRoundRobin
| RpcPeerNoClientBlocks | ClientBlockQcRound | ClientBlockQcHash | ClientBlockTx | ClientBlockTxHashes
| ClientBlockTime | ClientBlockMissingCommitProof | ClientBlockMissingTxCommitProof | ChildQcCommitProof
| GrandchildQcCommitProof | Consecutive | PeerTimedOut | IncorrectRpcResponseVariant

datatype consensus_state_error =
  Rpc consensus_rpc_error
| ValidatorSetErr validator_set_error
| MempoolRegister register_block_error
| MissingValidatorSetRound nat
| BadQcsErr nat nat

section \<open>State\<close>

record consensus_state_config =
  cc_home_validator :: nat
  cc_start_round :: nat
  cc_block_retention :: nat
  cc_timeout_retention :: nat
  cc_missed_round_backoff :: nat

definition config_mainnet :: "nat \<Rightarrow> consensus_state_config" where
  "config_mainnet home =
     \<lparr>cc_home_validator = home, cc_start_round = 0, cc_block_retention = 10000,
      cc_timeout_retention = 10000, cc_missed_round_backoff = 200\<rparr>"

datatype consensus_status = Constructing | Bootstrapping | Active | WaitingForTimeout | Exiting

record known_block =
  kb_block_hash :: block_hash
  kb_signed_block :: "consensus_block signed"
  kb_registered_at :: "nat option"
  kb_committed :: bool

definition kb_round :: "known_block \<Rightarrow> nat" where
  "kb_round k = cb_round (sg_content (kb_signed_block k))"

record registered_client_block =
  rc_block :: client_block
  rc_registered_at :: "nat option"

datatype round_advance_reason =
  ByRegisteredBlock block_hash nat | ByTimeoutCertificate nat | ByLocalTimer nat | ByValidatorSetChanged nat

datatype state_event =
  Constructed nat
| RegisteredBlock block_hash nat
| RegisteredClientBlock block_hash nat
| CommittedBlock block_hash nat
| RoundAdvanced nat nat round_advance_reason
| TimeoutRecorded nat nat
| TimeoutCertificateBuilt nat nat
| ValidatorSetUpdated nat nat
| MempoolEv mempool_event
| BadQcs nat nat

record block_transition =
  tr_inserted :: bool
  tr_committed_round :: "nat option"
  tr_advanced_to :: nat

record consensus_state =
  cs_config :: consensus_state_config
  cs_status :: consensus_status
  cs_validators :: round_validator_set_history
  cs_current_round :: nat
  cs_highest_seen_round :: nat
  cs_last_committed_round :: nat
  cs_preferred_round :: nat
  cs_locked_round :: "nat option"
  cs_locked_block_hash :: "block_hash option"
  cs_highest_qc :: "quorum_certificate option"
  cs_latest_tc :: "timeout_certificate option"
  cs_block_hash_to_block :: "(block_hash, known_block) btree"
  cs_round_to_block_hash :: "(nat, block_hash) btree"
  cs_pending_client_blocks :: "registered_client_block list"
  cs_round_to_timeouts :: "(nat, (nat, signed_timeout) btree) btree"
  cs_round_to_tc :: "(nat, timeout_certificate) btree"
  cs_mempool :: mempool
  cs_mempool_handoffs :: "mempool_handoff list"
  cs_next_round_deadline :: "nat option"
  cs_last_round_advanced_at :: "nat option"
  cs_consecutive_missed_rounds :: nat
  cs_events :: "state_event list"
  cs_asked_to_exit :: bool

definition consensus_state_new :: "consensus_state_config \<Rightarrow> validator_set_snapshot \<Rightarrow> consensus_state" where
  "consensus_state_new config initial =
     (let start = cc_start_round config in
      \<lparr>cs_config = config, cs_status = Constructing, cs_validators = history_new start initial,
       cs_current_round = start, cs_highest_seen_round = start, cs_last_committed_round = start - 1,
       cs_preferred_round = start - 1, cs_locked_round = None, cs_locked_block_hash = None,
       cs_highest_qc = None, cs_latest_tc = None, cs_block_hash_to_block = [], cs_round_to_block_hash = [],
       cs_pending_client_blocks = [], cs_round_to_timeouts = [], cs_round_to_tc = [],
       cs_mempool = mempool_default, cs_mempool_handoffs = [], cs_next_round_deadline = None,
       cs_last_round_advanced_at = None, cs_consecutive_missed_rounds = 0,
       cs_events = [Constructed start], cs_asked_to_exit = False\<rparr>)"

definition push_event :: "state_event \<Rightarrow> consensus_state \<Rightarrow> consensus_state" where
  "push_event e s = s\<lparr>cs_events := cs_events s @ [e]\<rparr>"

definition mark_active :: "consensus_state \<Rightarrow> consensus_state" where
  "mark_active s = (if cs_status s \<noteq> Exiting then s\<lparr>cs_status := Active\<rparr> else s)"

definition request_exit :: "consensus_state \<Rightarrow> consensus_state" where
  "request_exit s = s\<lparr>cs_asked_to_exit := True, cs_status := Exiting\<rparr>"

definition active_validator_set :: "consensus_state \<Rightarrow> validator_set_snapshot" where
  "active_validator_set s = vh_current (cs_validators s)"

definition validator_set_for_round :: "consensus_state \<Rightarrow> nat \<Rightarrow> consensus_state_error + validator_set_snapshot" where
  "validator_set_for_round s r =
     (case snapshot_at_or_before (cs_validators s) r of
        None \<Rightarrow> Inl (MissingValidatorSetRound r) | Some v \<Rightarrow> Inr v)"

definition proposer_for_round :: "consensus_state \<Rightarrow> nat \<Rightarrow> consensus_state_error + nat" where
  "proposer_for_round s r =
     (let validators = map fst (active_validators (active_validator_set s))
      in if validators = [] then Inl (Rpc EmptyValidatorSet)
         else Inr (validators ! (r mod length validators)))"

section \<open>Rounds\<close>

definition advance_round_to :: "nat \<Rightarrow> round_advance_reason \<Rightarrow> consensus_state \<Rightarrow> consensus_state" where
  "advance_round_to next_round reason s =
     (if next_round \<le> cs_current_round s then s
      else push_event (RoundAdvanced (cs_current_round s) next_round reason)
        (s\<lparr>cs_current_round := next_round,
           cs_highest_seen_round := max (cs_highest_seen_round s) next_round,
           cs_validators := record_round next_round (cs_validators s),
           cs_consecutive_missed_rounds := 0, cs_last_round_advanced_at := None,
           cs_status := Active\<rparr>))"

definition apply_validator_set_delta :: "nat \<Rightarrow> validator_set_delta \<Rightarrow> consensus_state \<Rightarrow> consensus_state" where
  "apply_validator_set_delta r delta s =
     (let s1 = s\<lparr>cs_validators := apply_delta_at_round r delta (cs_validators s)\<rparr>;
          s2 = push_event (ValidatorSetUpdated r (active_validator_count (vh_current (cs_validators s1)))) s1
      in advance_round_to r (ByValidatorSetChanged r) s2)"

definition on_round_timer_elapsed :: "nat \<Rightarrow> consensus_state \<Rightarrow> consensus_state \<times> nat" where
  "on_round_timer_elapsed now s =
     (let s1 = s\<lparr>cs_consecutive_missed_rounds := saturating_add_u64 (cs_consecutive_missed_rounds s) 1,
                cs_status := WaitingForTimeout\<rparr>;
          r = saturating_add_u64 (cs_current_round s1) 1;
          s2 = advance_round_to r (ByLocalTimer r) s1
      in (s2\<lparr>cs_next_round_deadline := Some (now + cc_missed_round_backoff (cs_config s2))\<rparr>, r))"

definition arm_round_timer :: "nat \<Rightarrow> consensus_state \<Rightarrow> consensus_state" where
  "arm_round_timer now s = s\<lparr>cs_next_round_deadline := Some (now + cc_missed_round_backoff (cs_config s))\<rparr>"

section \<open>Certificates\<close>

definition validate_block_qc :: "consensus_state \<Rightarrow> nat \<Rightarrow> quorum_certificate \<Rightarrow> consensus_state_error + unit" where
  "validate_block_qc s block_round qc =
     (if block_round \<le> qc_round qc then Inl (Rpc BadBlockQcRound)
      else case validator_set_for_round s (qc_round qc) of
        Inl e \<Rightarrow> Inl e
      | Inr validators \<Rightarrow>
          (case check_quorum_indices validators (map fst (qc_signatures qc)) of
             Inr _ \<Rightarrow> Inr ()
           | Inl EmptyValidators \<Rightarrow> Inl (Rpc EmptyValidatorSet)
           | Inl (NoQuorum _ _ _) \<Rightarrow> Inl (Rpc QcNoQuorum)
           | Inl other \<Rightarrow> Inl (ValidatorSetErr other)))"

definition validate_timeout_certificate ::
  "consensus_state \<Rightarrow> timeout_certificate \<Rightarrow> consensus_state_error + unit" where
  "validate_timeout_certificate s tc =
     (if tc_signed_timeouts tc = [] then Inl (Rpc TcNoTimeout)
      else if list_ex (\<lambda>t. to_round (sg_content t) \<noteq> tc_round tc) (tc_signed_timeouts tc)
      then Inl (Rpc TimeoutRoundMismatch)
      else case validator_set_for_round s (tc_round tc) of
        Inl e \<Rightarrow> Inl e
      | Inr validators \<Rightarrow>
          (case check_quorum_indices validators (map (\<lambda>t. to_validator (sg_content t)) (tc_signed_timeouts tc)) of
             Inr _ \<Rightarrow> Inr ()
           | Inl EmptyValidators \<Rightarrow> Inl (Rpc EmptyValidatorSet)
           | Inl (NoQuorum _ _ _) \<Rightarrow> Inl (Rpc TcNoQuorum)
           | Inl other \<Rightarrow> Inl (ValidatorSetErr other)))"

fun validate_tx_proofs :: "consensus_state \<Rightarrow> nat \<Rightarrow> quorum_certificate list \<Rightarrow> consensus_state_error + unit" where
  "validate_tx_proofs s block_round [] = Inr ()"
| "validate_tx_proofs s block_round (tx_proof # rest) =
     (if block_round < qc_round tx_proof then Inl (Rpc ClientBlockTx)
      else case validate_block_qc s (saturating_add_u64 block_round 1) tx_proof of
        Inl e \<Rightarrow> Inl e
      | Inr _ \<Rightarrow> validate_tx_proofs s block_round rest)"

definition validate_client_block_proofs :: "consensus_state \<Rightarrow> client_block \<Rightarrow> consensus_state_error + unit" where
  "validate_client_block_proofs s block =
     (case cl_commit_proof block of
        None \<Rightarrow> Inl (Rpc ClientBlockMissingCommitProof)
      | Some commit_proof \<Rightarrow>
          (case validate_block_qc s (saturating_add_u64 (cb_round (cl_block block)) 1) commit_proof of
             Inl e \<Rightarrow> Inl e
           | Inr _ \<Rightarrow> validate_tx_proofs s (cb_round (cl_block block)) (cl_tx_commit_proofs block)))"

definition observe_qc :: "quorum_certificate \<Rightarrow> consensus_state \<Rightarrow> consensus_state" where
  "observe_qc qc s =
     (if (case cs_highest_qc s of None \<Rightarrow> True | Some old \<Rightarrow> qc_round old < qc_round qc)
      then s\<lparr>cs_preferred_round := max (cs_preferred_round s) (qc_round qc), cs_highest_qc := Some qc\<rparr>
      else s)"

section \<open>Pruning\<close>

fun prune_blocks_loop ::
  "nat \<Rightarrow> nat \<Rightarrow> (nat, block_hash) btree \<Rightarrow> (block_hash, known_block) btree \<Rightarrow>
   (nat, block_hash) btree \<times> (block_hash, known_block) btree" where
  "prune_blocks_loop retention committed [] blocks = ([], blocks)"
| "prune_blocks_loop retention committed ((oldest_round, oldest_hash) # rest) blocks =
     (if retention < length ((oldest_round, oldest_hash) # rest) \<and> \<not> committed \<le> oldest_round
      then prune_blocks_loop retention committed rest (bt_remove oldest_hash blocks)
      else ((oldest_round, oldest_hash) # rest, blocks))"

definition prune_old_blocks :: "consensus_state \<Rightarrow> consensus_state" where
  "prune_old_blocks s =
     (case prune_blocks_loop (cc_block_retention (cs_config s)) (cs_last_committed_round s)
             (cs_round_to_block_hash s) (cs_block_hash_to_block s) of
        (rounds, blocks) \<Rightarrow> s\<lparr>cs_round_to_block_hash := rounds, cs_block_hash_to_block := blocks\<rparr>)"

definition prune_old_client_blocks :: "consensus_state \<Rightarrow> consensus_state" where
  "prune_old_client_blocks s =
     s\<lparr>cs_pending_client_blocks :=
         drop (length (cs_pending_client_blocks s) - cc_block_retention (cs_config s)) (cs_pending_client_blocks s)\<rparr>"

fun prune_timeouts_loop ::
  "nat \<Rightarrow> nat \<Rightarrow> (nat, (nat, signed_timeout) btree) btree \<Rightarrow> (nat, timeout_certificate) btree \<Rightarrow>
   (nat, (nat, signed_timeout) btree) btree \<times> (nat, timeout_certificate) btree" where
  "prune_timeouts_loop retention current [] tcs = ([], tcs)"
| "prune_timeouts_loop retention current ((oldest_round, timeouts) # rest) tcs =
     (if retention < length ((oldest_round, timeouts) # rest) \<and> \<not> current - retention \<le> oldest_round
      then prune_timeouts_loop retention current rest (bt_remove oldest_round tcs)
      else ((oldest_round, timeouts) # rest, tcs))"

definition prune_old_timeouts :: "consensus_state \<Rightarrow> consensus_state" where
  "prune_old_timeouts s =
     (case prune_timeouts_loop (cc_timeout_retention (cs_config s)) (cs_current_round s)
             (cs_round_to_timeouts s) (cs_round_to_tc s) of
        (timeouts, tcs) \<Rightarrow> s\<lparr>cs_round_to_timeouts := timeouts, cs_round_to_tc := tcs\<rparr>)"

section \<open>Blocks\<close>

definition try_commit_from_child_qc ::
  "block_hash \<Rightarrow> nat \<Rightarrow> consensus_state \<Rightarrow> consensus_state \<times> (consensus_state_error + nat option)" where
  "try_commit_from_child_qc child_hash child_round s =
     (case map_of (cs_block_hash_to_block s) child_hash of
        None \<Rightarrow> (s, Inr None)
      | Some child \<Rightarrow>
          (case cb_qc (sg_content (kb_signed_block child)) of
             None \<Rightarrow> (s, Inr None)
           | Some qc \<Rightarrow>
               (if qc_round qc \<le> cs_last_committed_round s then (s, Inr None)
                else case map_of (cs_block_hash_to_block s) (qc_block_hash qc) of
                  None \<Rightarrow> (s, Inr None)
                | Some parent \<Rightarrow>
                    (if kb_round parent \<noteq> qc_round qc \<or> child_round \<le> kb_round parent
                     then (s, Inl (Rpc ChildQcCommitProof))
                     else (push_event (CommittedBlock (kb_block_hash parent) (kb_round parent))
                             (s\<lparr>cs_block_hash_to_block :=
                                  bt_insert (qc_block_hash qc) (parent\<lparr>kb_committed := True\<rparr>)
                                    (cs_block_hash_to_block s),
                                cs_last_committed_round := kb_round parent,
                                cs_locked_round := Some (kb_round parent),
                                cs_locked_block_hash := Some (kb_block_hash parent)\<rparr>),
                           Inr (Some (kb_round parent)))))))"

text \<open>The tail of \<open>register_signed_block\<close>, once the block is accepted.\<close>

definition store_signed_block ::
  "block_hash \<Rightarrow> consensus_block signed \<Rightarrow> nat option \<Rightarrow> consensus_state \<Rightarrow>
   consensus_state \<times> (consensus_state_error + block_transition)" where
  "store_signed_block h sb registered_at s =
     (let block_round = cb_round (sg_content sb);
          known_blk = \<lparr>kb_block_hash = h, kb_signed_block = sb, kb_registered_at = registered_at, kb_committed = False\<rparr>;
          s1 = push_event (RegisteredBlock h block_round)
                 (s\<lparr>cs_round_to_block_hash := bt_insert block_round h (cs_round_to_block_hash s),
                    cs_highest_seen_round := max (cs_highest_seen_round s) block_round,
                    cs_block_hash_to_block := bt_insert h known_blk (cs_block_hash_to_block s)\<rparr>)
      in case try_commit_from_child_qc h block_round s1 of
           (s2, Inl e) \<Rightarrow> (s2, Inl e)
         | (s2, Inr committed_round) \<Rightarrow>
             (let s3 = prune_old_blocks (advance_round_to (saturating_add_u64 block_round 1)
                         (ByRegisteredBlock h block_round) s2)
              in (s3, Inr \<lparr>tr_inserted = True, tr_committed_round = committed_round,
                            tr_advanced_to = cs_current_round s3\<rparr>)))"

definition accept_block_tc ::
  "consensus_block \<Rightarrow> consensus_state \<Rightarrow> consensus_state \<times> (consensus_state_error + unit)" where
  "accept_block_tc block s =
     (case cb_tc block of
        None \<Rightarrow> (s, Inr ())
      | Some tc \<Rightarrow>
          (case validate_timeout_certificate s tc of
             Inl e \<Rightarrow> (s, Inl e)
           | Inr _ \<Rightarrow>
               (if cb_round block \<le> tc_round tc then (s, Inl (Rpc BadBlockTcRound))
                else (s\<lparr>cs_latest_tc := Some tc\<rparr>, Inr ()))))"

definition register_signed_block ::
  "block_hash \<Rightarrow> consensus_block signed \<Rightarrow> nat option \<Rightarrow> consensus_state \<Rightarrow>
   consensus_state \<times> (consensus_state_error + block_transition)" where
  "register_signed_block h sb registered_at s =
     (let block = sg_content sb;
          block_round = cb_round block
      in if block_round \<le> cs_last_committed_round s
         then (s, Inl (Rpc (BadBlockRound block_round (cs_last_committed_round s))))
         else if bt_contains (cs_block_hash_to_block s) h then (s, Inl (Rpc BlockAlreadyRegistered))
         else if bt_contains (cs_round_to_block_hash s) block_round then (s, Inl (Rpc DuplicateBlockRound))
         else
           let (s1, qc_result) =
                 (case cb_qc block of
                    Some qc \<Rightarrow>
                      (case validate_block_qc s block_round qc of
                         Inl e \<Rightarrow> (s, Inl e)
                       | Inr _ \<Rightarrow> (observe_qc qc s, Inr ()))
                  | None \<Rightarrow> (if block_round \<noteq> 0 then (s, Inl (Rpc BadBlockQcRound)) else (s, Inr ())))
           in case qc_result of
                Inl e \<Rightarrow> (s1, Inl e)
              | Inr _ \<Rightarrow>
                  (case accept_block_tc block s1 of
                     (s2, Inl e) \<Rightarrow> (s2, Inl e)
                   | (s2, Inr _) \<Rightarrow> store_signed_block h sb registered_at s2))"

text \<open>The part of \<open>register_client_block\<close> after its comparison of the two certificates.\<close>

definition register_client_tail ::
  "client_block \<Rightarrow> nat option \<Rightarrow> consensus_state \<Rightarrow>
   consensus_state \<times> (consensus_state_error + block_transition)" where
  "register_client_tail block registered_at s =
     (case validate_client_block_proofs s block of
        Inl e \<Rightarrow> (s, Inl e)
      | Inr _ \<Rightarrow>
          (let block_round = cb_round (cl_block block);
               s1 = s\<lparr>cs_pending_client_blocks := cs_pending_client_blocks s @
                       [\<lparr>rc_block = block, rc_registered_at = registered_at\<rparr>]\<rparr>;
               s2 = push_event (RegisteredClientBlock (cl_block_hash block) block_round) s1;
               s3 = prune_old_client_blocks (advance_round_to (saturating_add_u64 block_round 1)
                      (ByRegisteredBlock (cl_block_hash block) block_round) s2)
           in (s3, Inr \<lparr>tr_inserted = True, tr_committed_round = Some block_round,
                         tr_advanced_to = cs_current_round s3\<rparr>)))"

definition register_client_block ::
  "client_block \<Rightarrow> nat option \<Rightarrow> consensus_state \<Rightarrow>
   consensus_state \<times> (consensus_state_error + block_transition)" where
  "register_client_block block registered_at s =
     (let block_round = cb_round (cl_block block) in
      if block_round \<le> cs_last_committed_round s
      then (s, Inl (Rpc (BadBlockRound block_round (cs_last_committed_round s))))
      else case (cb_qc (cl_block block), cl_commit_proof block) of
        (Some block_qc, Some commit_qc) \<Rightarrow>
          (if qc_block_hash block_qc \<noteq> qc_block_hash commit_qc \<or> qc_round block_qc \<noteq> qc_round commit_qc
           then (push_event (BadQcs (qc_round block_qc) (qc_round commit_qc)) s,
                 Inl (BadQcsErr (qc_round block_qc) (qc_round commit_qc)))
           else register_client_tail block registered_at s)
      | _ \<Rightarrow> register_client_tail block registered_at s)"


section \<open>Timeouts\<close>

definition record_signed_timeout ::
  "signed_timeout \<Rightarrow> consensus_state \<Rightarrow> consensus_state \<times> (consensus_state_error + timeout_certificate option)" where
  "record_signed_timeout t s =
     (let r = to_round (sg_content t);
          validator = to_validator (sg_content t)
      in if r < cs_current_round s then (s, Inl (Rpc TimeoutRoundMismatch))
         else
           let timeouts = (case map_of (cs_round_to_timeouts s) r of None \<Rightarrow> [] | Some m \<Rightarrow> m) in
           if bt_contains timeouts validator
           then (s\<lparr>cs_round_to_timeouts := bt_insert r timeouts (cs_round_to_timeouts s)\<rparr>,
                 Inl (Rpc AlreadyHaveTimeoutFromNode))
           else
             let timeouts' = bt_insert validator t timeouts;
                 s1 = push_event (TimeoutRecorded r validator)
                        (s\<lparr>cs_round_to_timeouts := bt_insert r timeouts' (cs_round_to_timeouts s)\<rparr>)
             in case validator_set_for_round s1 r of
                  Inl e \<Rightarrow> (s1, Inl e)
                | Inr validators \<Rightarrow>
                    (case check_quorum_indices validators (map fst timeouts') of
                       Inr summary \<Rightarrow>
                         (let tc = \<lparr>tc_signed_timeouts =
                                     (case map_of (cs_round_to_timeouts s1) r of None \<Rightarrow> [] | Some m \<Rightarrow> map snd m),
                                   tc_round = r\<rparr>;
                              s2 = push_event (TimeoutCertificateBuilt r (vw_counted summary))
                                     (s1\<lparr>cs_round_to_tc := bt_insert r tc (cs_round_to_tc s1),
                                         cs_latest_tc := Some tc\<rparr>);
                              s3 = prune_old_timeouts (advance_round_to (saturating_add_u64 r 1)
                                     (ByTimeoutCertificate r) s2)
                          in (s3, Inr (Some tc)))
                     | Inl (NoQuorum _ _ _) \<Rightarrow> (s1, Inr None)
                     | Inl error \<Rightarrow> (s1, Inl (ValidatorSetErr error))))"

definition install_timeout_certificate ::
  "timeout_certificate \<Rightarrow> consensus_state \<Rightarrow> consensus_state \<times> (consensus_state_error + unit)" where
  "install_timeout_certificate tc s =
     (case validate_timeout_certificate s tc of
        Inl e \<Rightarrow> (s, Inl e)
      | Inr _ \<Rightarrow>
          (let r = tc_round tc;
               s1 = s\<lparr>cs_round_to_tc := bt_insert r tc (cs_round_to_tc s), cs_latest_tc := Some tc\<rparr>
           in (prune_old_timeouts (advance_round_to (saturating_add_u64 r 1) (ByTimeoutCertificate r) s1), Inr ())))"

section \<open>The mempool of the state\<close>

definition drain_mempool_handoffs_and_events :: "consensus_state \<Rightarrow> consensus_state" where
  "drain_mempool_handoffs_and_events s =
     s\<lparr>cs_mempool_handoffs := cs_mempool_handoffs s @ mp_pending_handoff (cs_mempool s),
       cs_events := cs_events s @ map MempoolEv (mp_events (cs_mempool s)),
       cs_mempool := (cs_mempool s)\<lparr>mp_pending_handoff := [], mp_events := []\<rparr>\<rparr>"

definition register_block_with_mempool ::
  "('v \<Rightarrow> mp_signed_block \<Rightarrow> 'v \<times> (string + unit)) \<Rightarrow> block_context \<Rightarrow> block_hash \<Rightarrow> mp_signed_block \<Rightarrow>
   'v \<Rightarrow> consensus_state \<Rightarrow> ('v \<times> consensus_state \<times> (consensus_state_error + unit)) option" where
  "register_block_with_mempool verify ctx h sb v s =
     (case register_block verify ctx h sb v (cs_mempool s) of
        None \<Rightarrow> None
      | Some (v', m, Inl e) \<Rightarrow> Some (v', s\<lparr>cs_mempool := m\<rparr>, Inl (MempoolRegister e))
      | Some (v', m, Inr _) \<Rightarrow>
          Some (v', drain_mempool_handoffs_and_events (s\<lparr>cs_mempool := m\<rparr>), Inr ()))"

definition poll_mempool_state ::
  "('v \<Rightarrow> mp_signed_block \<Rightarrow> 'v \<times> (string + unit)) \<Rightarrow> mempool_poll_input \<Rightarrow> 'v \<Rightarrow> consensus_state \<Rightarrow>
   ('v \<times> consensus_state) option" where
  "poll_mempool_state verify input v s =
     (case poll_mempool verify input v (cs_mempool s) of
        None \<Rightarrow> None
      | Some (v', m, out) \<Rightarrow>
          Some (v', s\<lparr>cs_mempool := m, cs_mempool_handoffs := cs_mempool_handoffs s @ po_handoffs out,
                      cs_events := cs_events s @ map MempoolEv (po_events out)\<rparr>))"

end
