(* ===== verification/Consensus_Safety.thy ===== *)
theory Consensus_Safety
  imports Consensus_State
begin

text \<open>
  Correctness of the consensus state machine: the block indexes stay consistent, commits only move
  forward, are backed by a quorum and stay locked, rounds never go back, and what the timeout and timer
  paths do.
\<close>

section \<open>Block indexes\<close>

definition index_ok :: "(nat, block_hash) btree \<Rightarrow> (block_hash, known_block) btree \<Rightarrow> bool" where
  "index_ok rounds blocks \<longleftrightarrow> bt_wf rounds \<and> bt_wf blocks \<and>
     (\<forall>r h. map_of rounds r = Some h \<longrightarrow> (\<exists>k. map_of blocks h = Some k \<and> kb_round k = r)) \<and>
     (\<forall>h k. map_of blocks h = Some k \<longrightarrow> map_of rounds (kb_round k) = Some h \<and> kb_block_hash k = h)"

lemma index_okD:
  assumes "index_ok rounds blocks"
  shows "bt_wf rounds" and "bt_wf blocks"
    and "map_of rounds r = Some h \<Longrightarrow> \<exists>k. map_of blocks h = Some k \<and> kb_round k = r"
    and "map_of blocks h = Some k \<Longrightarrow> map_of rounds (kb_round k) = Some h"
    and "map_of blocks h = Some k \<Longrightarrow> kb_block_hash k = h"
  using assms by (simp_all add: index_ok_def)

lemma index_okI:
  assumes "bt_wf rounds" and "bt_wf blocks"
    and "\<And>r h. map_of rounds r = Some h \<Longrightarrow> \<exists>k. map_of blocks h = Some k \<and> kb_round k = r"
    and "\<And>h k. map_of blocks h = Some k \<Longrightarrow> map_of rounds (kb_round k) = Some h \<and> kb_block_hash k = h"
  shows "index_ok rounds blocks"
  using assms by (simp add: index_ok_def)

lemma index_ok_insert:
  assumes ok: "index_ok rounds blocks" and new: "map_of blocks h = None" "map_of rounds r = None"
    and k: "kb_round k = r" "kb_block_hash k = h"
  shows "index_ok (bt_insert r h rounds) (bt_insert h k blocks)"
proof (rule index_okI)
  show "bt_wf (bt_insert r h rounds)" "bt_wf (bt_insert h k blocks)" using index_okD(1,2) [OF ok] by auto
  fix r' h' assume "map_of (bt_insert r h rounds) r' = Some h'"
  then show "\<exists>k'. map_of (bt_insert h k blocks) h' = Some k' \<and> kb_round k' = r'"
    using index_okD(3) [OF ok, of r' h'] new k by (auto split: if_splits)
next
  fix h' k' assume "map_of (bt_insert h k blocks) h' = Some k'"
  then show "map_of (bt_insert r h rounds) (kb_round k') = Some h' \<and> kb_block_hash k' = h'"
    using index_okD(4,5) [OF ok, of h' k'] new k by (auto split: if_splits)
qed

lemma index_ok_update:
  assumes ok: "index_ok rounds blocks" and "map_of blocks h = Some k"
    and "kb_round k' = kb_round k" and "kb_block_hash k' = kb_block_hash k"
  shows "index_ok rounds (bt_insert h k' blocks)"
proof (rule index_okI)
  show "bt_wf rounds" "bt_wf (bt_insert h k' blocks)" using index_okD(1,2) [OF ok] by auto
  fix r x assume "map_of rounds r = Some x"
  then show "\<exists>k''. map_of (bt_insert h k' blocks) x = Some k'' \<and> kb_round k'' = r"
    using index_okD(3) [OF ok, of r x] assms(2,3) by auto
next
  fix x k'' assume "map_of (bt_insert h k' blocks) x = Some k''"
  then show "map_of rounds (kb_round k'') = Some x \<and> kb_block_hash k'' = x"
    using index_okD(4,5) [OF ok, of x] assms(2-4) by (auto split: if_splits)
qed

lemma index_ok_drop:
  assumes ok: "index_ok ((r, h) # rest) blocks"
  shows "index_ok rest (bt_remove h blocks)"
proof (rule index_okI)
  show "bt_wf rest" "bt_wf (bt_remove h blocks)" using index_okD(1,2) [OF ok] by (auto simp: bt_wf_Cons)
  have r: "map_of rest r = None" using index_okD(1) [OF ok] by (auto simp: bt_wf_Cons map_of_eq_None_iff)
  obtain k where k: "map_of blocks h = Some k" "kb_round k = r" using index_okD(3) [OF ok, of r h] by auto
  fix r' h' assume a: "map_of rest r' = Some h'"
  then have "r' \<noteq> r" using r by auto
  with a obtain k' where "map_of blocks h' = Some k'" "kb_round k' = r'" using index_okD(3) [OF ok, of r' h'] by auto
  with \<open>r' \<noteq> r\<close> k show "\<exists>k'. map_of (bt_remove h blocks) h' = Some k' \<and> kb_round k' = r'" by auto
next
  fix h' k' assume "map_of (bt_remove h blocks) h' = Some k'"
  then show "map_of rest (kb_round k') = Some h' \<and> kb_block_hash k' = h'"
    using index_okD(4,5) [OF ok, of h' k'] by (auto split: if_splits)
qed

lemma prune_blocks_loop_ok:
  assumes "index_ok rounds blocks" and "prune_blocks_loop retention committed rounds blocks = (rounds', blocks')"
  shows "index_ok rounds' blocks' \<and> (\<forall>h k. map_of blocks' h = Some k \<longrightarrow> map_of blocks h = Some k) \<and>
    (\<forall>h k. map_of blocks h = Some k \<longrightarrow> committed \<le> kb_round k \<longrightarrow> map_of blocks' h = Some k)"
  using assms
proof (induction retention committed rounds blocks rule: prune_blocks_loop.induct)
  case (2 retention committed r h rest blocks)
  show ?case
  proof (cases "retention < length ((r, h) # rest) \<and> \<not> committed \<le> r")
    case True
    have ok: "index_ok rest (bt_remove h blocks)" using 2(2) by (rule index_ok_drop)
    have run: "prune_blocks_loop retention committed rest (bt_remove h blocks) = (rounds', blocks')"
      using 2(3) True by simp
    note IH = 2(1) [OF True ok run]
    have old: "kb_round k = r" if "map_of blocks h = Some k" for k
      using index_okD(3) [OF 2(2), of r h] that by auto
    have "map_of blocks x = Some k" if "map_of blocks' x = Some k" for x k
    proof -
      have "map_of (bt_remove h blocks) x = Some k" using IH that by blast
      then show ?thesis by (simp split: if_splits)
    qed
    moreover have "map_of blocks' x = Some k" if "map_of blocks x = Some k" "committed \<le> kb_round k" for x k
    proof -
      have "x \<noteq> h" using old that True by auto
      then have "map_of (bt_remove h blocks) x = Some k" using that(1) by simp
      then show ?thesis using IH that(2) by blast
    qed
    ultimately show ?thesis using IH by blast
  next
    case False
    with 2(2,3) show ?thesis by (simp add: if_not_P)
  qed
qed simp

section \<open>The invariant\<close>

definition lock_ok :: "consensus_state \<Rightarrow> bool" where
  "lock_ok s \<longleftrightarrow>
     (\<forall>h k. map_of (cs_block_hash_to_block s) h = Some k \<longrightarrow> kb_committed k \<longrightarrow> kb_round k \<le> cs_last_committed_round s) \<and>
     (\<forall>r. cs_locked_round s = Some r \<longrightarrow> r = cs_last_committed_round s \<and>
        (\<exists>h k. cs_locked_block_hash s = Some h \<and> map_of (cs_block_hash_to_block s) h = Some k \<and>
           kb_committed k \<and> kb_round k = r))"

definition timeouts_ok :: "(nat, (nat, signed_timeout) btree) btree \<Rightarrow> bool" where
  "timeouts_ok ts \<longleftrightarrow> bt_wf ts \<and>
     (\<forall>e \<in> set ts. bt_wf (snd e) \<and>
        (\<forall>x \<in> set (snd e). to_validator (sg_content (snd x)) = fst x \<and> to_round (sg_content (snd x)) = fst e))"

definition consensus_inv :: "consensus_state \<Rightarrow> bool" where
  "consensus_inv s \<longleftrightarrow> history_wf (cs_validators s) \<and>
     index_ok (cs_round_to_block_hash s) (cs_block_hash_to_block s) \<and> lock_ok s \<and>
     timeouts_ok (cs_round_to_timeouts s) \<and>
     cs_current_round s \<le> cs_highest_seen_round s \<and> mempool_inv (cs_mempool s) \<and>
     mp_pending_handoff (cs_mempool s) = []"

lemma consensus_inv_new: "consensus_inv (consensus_state_new config initial)"
  by (simp add: consensus_inv_def consensus_state_new_def Let_def history_wf_new index_ok_def lock_ok_def
      timeouts_ok_def mempool_inv_default) (simp add: mempool_default_def)

text \<open>Steps that touch neither blocks nor commits nor rounds.\<close>

definition quiet :: "consensus_state \<Rightarrow> consensus_state \<Rightarrow> bool" where
  "quiet s s' \<longleftrightarrow> cs_validators s' = cs_validators s \<and> cs_round_to_block_hash s' = cs_round_to_block_hash s \<and>
     cs_block_hash_to_block s' = cs_block_hash_to_block s \<and> cs_last_committed_round s' = cs_last_committed_round s \<and>
     cs_locked_round s' = cs_locked_round s \<and> cs_locked_block_hash s' = cs_locked_block_hash s \<and>
     cs_current_round s' = cs_current_round s \<and> cs_highest_seen_round s' = cs_highest_seen_round s \<and>
     cs_config s' = cs_config s \<and> cs_mempool s' = cs_mempool s \<and>
     cs_round_to_timeouts s' = cs_round_to_timeouts s"

lemma quiet_inv: "quiet s s' \<Longrightarrow> consensus_inv s' \<longleftrightarrow> consensus_inv s"
  by (simp add: quiet_def consensus_inv_def lock_ok_def)

lemma quiet_simps [simp]:
  "quiet s s" "quiet s (push_event e s') \<longleftrightarrow> quiet s s'"
  by (simp_all add: quiet_def push_event_def)

lemma push_event_sel [simp]:
  "cs_validators (push_event e s) = cs_validators s" "cs_round_to_block_hash (push_event e s) = cs_round_to_block_hash s"
  "cs_block_hash_to_block (push_event e s) = cs_block_hash_to_block s"
  "cs_last_committed_round (push_event e s) = cs_last_committed_round s"
  "cs_current_round (push_event e s) = cs_current_round s" "cs_config (push_event e s) = cs_config s"
  "cs_locked_round (push_event e s) = cs_locked_round s" "cs_locked_block_hash (push_event e s) = cs_locked_block_hash s"
  "cs_highest_seen_round (push_event e s) = cs_highest_seen_round s" "cs_mempool (push_event e s) = cs_mempool s"
  "cs_round_to_timeouts (push_event e s) = cs_round_to_timeouts s" "cs_status (push_event e s) = cs_status s"
  "cs_consecutive_missed_rounds (push_event e s) = cs_consecutive_missed_rounds s"
  "cs_round_to_tc (push_event e s) = cs_round_to_tc s" "cs_latest_tc (push_event e s) = cs_latest_tc s"
  "cs_pending_client_blocks (push_event e s) = cs_pending_client_blocks s"
  by (simp_all add: push_event_def)

definition progress :: "consensus_state \<Rightarrow> consensus_state \<Rightarrow> bool" where
  "progress s s' \<longleftrightarrow> consensus_inv s' \<and> cs_last_committed_round s \<le> cs_last_committed_round s' \<and>
     cs_current_round s \<le> cs_current_round s'"

lemma progress_quiet: "consensus_inv s \<Longrightarrow> quiet s s' \<Longrightarrow> progress s s'"
  using quiet_inv [of s s'] by (simp add: progress_def quiet_def)

lemma progress_trans: "progress s s' \<Longrightarrow> progress s' s'' \<Longrightarrow> progress s s''"
  by (auto simp: progress_def)

lemma progress_refl: "consensus_inv s \<Longrightarrow> progress s s"
  by (simp add: progress_def)

lemma advance_round_progress: "consensus_inv s \<Longrightarrow> progress s (advance_round_to r reason s)"
  by (auto simp: progress_def advance_round_to_def consensus_inv_def lock_ok_def history_wf_record history_wf_def
      simp del: bt_wf_insert) (auto simp: record_round_def)

lemma advance_round_sel [simp]:
  "cs_last_committed_round (advance_round_to r reason s) = cs_last_committed_round s"
  "cs_block_hash_to_block (advance_round_to r reason s) = cs_block_hash_to_block s"
  "cs_round_to_block_hash (advance_round_to r reason s) = cs_round_to_block_hash s"
  "cs_current_round (advance_round_to r reason s) = max (cs_current_round s) r"
  by (auto simp: advance_round_to_def)

lemma prune_old_blocks_progress:
  assumes "consensus_inv s" shows "progress s (prune_old_blocks s)"
proof -
  obtain rounds blocks where p: "prune_blocks_loop (cc_block_retention (cs_config s)) (cs_last_committed_round s)
      (cs_round_to_block_hash s) (cs_block_hash_to_block s) = (rounds, blocks)" by force
  have ok: "index_ok (cs_round_to_block_hash s) (cs_block_hash_to_block s)" using assms by (simp add: consensus_inv_def)
  note loop = prune_blocks_loop_ok [OF this p]
  have sub: "map_of (cs_block_hash_to_block s) h = Some k" if "map_of blocks h = Some k" for h k
    using loop that by blast
  have keep: "map_of blocks h = Some k"
    if "map_of (cs_block_hash_to_block s) h = Some k" "cs_last_committed_round s \<le> kb_round k" for h k
    using loop that by blast
  let ?s = "s\<lparr>cs_round_to_block_hash := rounds, cs_block_hash_to_block := blocks\<rparr>"
  have "lock_ok ?s"
    unfolding lock_ok_def
  proof (intro conjI allI impI)
    fix h k assume "map_of (cs_block_hash_to_block ?s) h = Some k" "kb_committed k"
    then have "map_of (cs_block_hash_to_block s) h = Some k" by (intro sub) simp
    with \<open>kb_committed k\<close> show "kb_round k \<le> cs_last_committed_round ?s"
      using assms by (simp add: consensus_inv_def lock_ok_def)
  next
    fix r assume "cs_locked_round ?s = Some r"
    then obtain h k where "r = cs_last_committed_round s" "cs_locked_block_hash s = Some h"
      "map_of (cs_block_hash_to_block s) h = Some k" "kb_committed k" "kb_round k = r"
      using assms by (auto simp: consensus_inv_def lock_ok_def)
    moreover from this have "map_of blocks h = Some k" by (intro keep) simp_all
    ultimately show "r = cs_last_committed_round ?s"
      "\<exists>h k. cs_locked_block_hash ?s = Some h \<and> map_of (cs_block_hash_to_block ?s) h = Some k \<and> kb_committed k \<and> kb_round k = r"
      by simp_all
  qed
  moreover have "index_ok rounds blocks" using loop by blast
  ultimately show ?thesis using assms by (simp add: progress_def consensus_inv_def prune_old_blocks_def p)
qed

lemma prune_old_blocks_sel [simp]:
  "cs_last_committed_round (prune_old_blocks s) = cs_last_committed_round s"
  "cs_current_round (prune_old_blocks s) = cs_current_round s"
  by (simp_all add: prune_old_blocks_def split: prod.split)


section \<open>Committing\<close>

lemma try_commit_cases:
  assumes "try_commit_from_child_qc h r s = (s', res)"
  obtains (none) "s' = s" and "res = Inr None"
  | (error) "s' = s" and "res = Inl (Rpc ChildQcCommitProof)"
  | (commit) child qc parent where "map_of (cs_block_hash_to_block s) h = Some child"
      and "cb_qc (sg_content (kb_signed_block child)) = Some qc"
      and "cs_last_committed_round s < qc_round qc"
      and "map_of (cs_block_hash_to_block s) (qc_block_hash qc) = Some parent"
      and "kb_round parent = qc_round qc" and "qc_round qc < r" and "res = Inr (Some (qc_round qc))"
      and "s' = push_event (CommittedBlock (kb_block_hash parent) (kb_round parent))
            (s\<lparr>cs_block_hash_to_block := bt_insert (qc_block_hash qc) (parent\<lparr>kb_committed := True\<rparr>) (cs_block_hash_to_block s),
               cs_last_committed_round := kb_round parent, cs_locked_round := Some (kb_round parent),
               cs_locked_block_hash := Some (kb_block_hash parent)\<rparr>)"
proof (cases "map_of (cs_block_hash_to_block s) h")
  case None
  then show thesis using assms none by (simp add: try_commit_from_child_qc_def)
next
  case child: (Some child)
  show thesis
  proof (cases "cb_qc (sg_content (kb_signed_block child))")
    case None
    then show thesis using assms none child by (simp add: try_commit_from_child_qc_def)
  next
    case qc: (Some qc)
    show thesis
    proof (cases "qc_round qc \<le> cs_last_committed_round s \<or> map_of (cs_block_hash_to_block s) (qc_block_hash qc) = None")
      case True
      then show thesis using assms none child qc by (auto simp: try_commit_from_child_qc_def split: if_splits)
    next
      case False
      then obtain parent where p: "map_of (cs_block_hash_to_block s) (qc_block_hash qc) = Some parent" by auto
      show thesis
      proof (cases "kb_round parent \<noteq> qc_round qc \<or> r \<le> kb_round parent")
        case True
        then show thesis using assms error child qc p False by (simp add: try_commit_from_child_qc_def)
      next
        case ok: False
        show thesis
          by (rule commit [OF child qc _ p]) (use assms child qc p False ok in \<open>auto simp: try_commit_from_child_qc_def\<close>)
      qed
    qed
  qed
qed

lemma try_commit_progress:
  assumes inv: "consensus_inv s" and run: "try_commit_from_child_qc h r s = (s', res)"
  shows "progress s s'"
  using run
proof (cases rule: try_commit_cases)
  case (commit child qc parent)
  let ?b = "bt_insert (qc_block_hash qc) (parent\<lparr>kb_committed := True\<rparr>) (cs_block_hash_to_block s)"
  have ok: "index_ok (cs_round_to_block_hash s) (cs_block_hash_to_block s)" using inv by (simp add: consensus_inv_def)
  have same: "kb_round (parent\<lparr>kb_committed := True\<rparr>) = kb_round parent" by (simp add: kb_round_def)
  have "index_ok (cs_round_to_block_hash s) ?b"
    by (rule index_ok_update [OF ok commit(4)]) (simp_all add: kb_round_def)
  moreover have "lock_ok s'"
    unfolding lock_ok_def
  proof (intro conjI allI impI)
    fix x k assume "map_of (cs_block_hash_to_block s') x = Some k" "kb_committed k"
    then show "kb_round k \<le> cs_last_committed_round s'"
      using inv commit by (auto simp: consensus_inv_def lock_ok_def same split: if_splits) fastforce
  next
    fix x assume "cs_locked_round s' = Some x"
    then show "x = cs_last_committed_round s'"
      "\<exists>h k. cs_locked_block_hash s' = Some h \<and> map_of (cs_block_hash_to_block s') h = Some k \<and> kb_committed k \<and> kb_round k = x"
      using commit index_okD(5) [OF ok commit(4)] by (simp_all add: same)
  qed
  ultimately show ?thesis using inv commit by (simp add: progress_def consensus_inv_def)
qed (use inv in \<open>simp_all add: progress_refl\<close>)

lemma store_signed_block_progress:
  assumes inv: "consensus_inv s" and "map_of (cs_block_hash_to_block s) h = None"
    and "map_of (cs_round_to_block_hash s) (cb_round (sg_content sb)) = None"
    and "cs_last_committed_round s < cb_round (sg_content sb)"
  shows "progress s (fst (store_signed_block h sb t s))"
proof -
  let ?r = "cb_round (sg_content sb)"
  let ?k = "\<lparr>kb_block_hash = h, kb_signed_block = sb, kb_registered_at = t, kb_committed = False\<rparr>"
  define s1 where "s1 = push_event (RegisteredBlock h ?r)
     (s\<lparr>cs_round_to_block_hash := bt_insert ?r h (cs_round_to_block_hash s),
        cs_highest_seen_round := max (cs_highest_seen_round s) ?r,
        cs_block_hash_to_block := bt_insert h ?k (cs_block_hash_to_block s)\<rparr>)"
  have ok: "index_ok (bt_insert ?r h (cs_round_to_block_hash s)) (bt_insert h ?k (cs_block_hash_to_block s))"
    using inv assms(2,3) by (intro index_ok_insert) (simp_all add: consensus_inv_def kb_round_def)
  have "lock_ok s1"
    unfolding lock_ok_def
  proof (intro conjI allI impI)
    fix x k assume "map_of (cs_block_hash_to_block s1) x = Some k" "kb_committed k"
    then show "kb_round k \<le> cs_last_committed_round s1"
      using inv by (auto simp: s1_def lock_ok_def consensus_inv_def split: if_splits)
  next
    fix x assume "cs_locked_round s1 = Some x"
    then obtain y k where "x = cs_last_committed_round s" "cs_locked_block_hash s = Some y"
      "map_of (cs_block_hash_to_block s) y = Some k" "kb_committed k" "kb_round k = x"
      using inv by (auto simp: s1_def consensus_inv_def lock_ok_def)
    moreover from this have "y \<noteq> h" using assms(2) by auto
    ultimately show "x = cs_last_committed_round s1"
      "\<exists>h k. cs_locked_block_hash s1 = Some h \<and> map_of (cs_block_hash_to_block s1) h = Some k \<and> kb_committed k \<and> kb_round k = x"
      by (simp_all add: s1_def)
  qed
  with ok inv have p1: "progress s s1"
    by (simp add: progress_def consensus_inv_def s1_def max.coboundedI1)
  obtain s2 res where c: "try_commit_from_child_qc h ?r s1 = (s2, res)" by force
  have p2: "progress s s2" using p1 try_commit_progress [OF _ c] progress_trans by (auto simp: progress_def)
  let ?s3 = "prune_old_blocks (advance_round_to (saturating_add_u64 ?r 1) (ByRegisteredBlock h ?r) s2)"
  have "progress s2 ?s3"
    using p2 advance_round_progress [of s2] prune_old_blocks_progress progress_trans by (auto simp: progress_def)
  with p2 have p3: "progress s ?s3" by (rule progress_trans)
  show ?thesis
    using p2 p3 c unfolding store_signed_block_def Let_def s1_def [symmetric] by (cases res) simp_all
qed

section \<open>Registering a block\<close>

lemma observe_qc_quiet [simp]: "quiet s (observe_qc qc s)"
  by (simp add: observe_qc_def quiet_def)

lemma accept_block_tc_quiet: "accept_block_tc block s = (s', res) \<Longrightarrow> quiet s s'"
  by (auto simp: accept_block_tc_def quiet_def split: option.splits sum.splits if_splits)

lemma quiet_trans: "quiet s s' \<Longrightarrow> quiet s' s'' \<Longrightarrow> quiet s s''"
  by (simp add: quiet_def)

lemma register_signed_block_cases:
  assumes run: "register_signed_block h sb t s = (s', res)"
  obtains (error) e where "res = Inl e" and "quiet s s'"
  | (stored) s2 qc where "cs_last_committed_round s < cb_round (sg_content sb)"
      and "map_of (cs_block_hash_to_block s) h = None"
      and "map_of (cs_round_to_block_hash s) (cb_round (sg_content sb)) = None"
      and "cb_qc (sg_content sb) = Some qc" and "validate_block_qc s (cb_round (sg_content sb)) qc = Inr ()"
      and "quiet s s2" and "store_signed_block h sb t s2 = (s', res)"
proof -
  let ?block = "sg_content sb" and ?r = "cb_round (sg_content sb)"
  show thesis
  proof (cases "?r \<le> cs_last_committed_round s \<or> bt_contains (cs_block_hash_to_block s) h \<or>
      bt_contains (cs_round_to_block_hash s) ?r")
    case True
    then show thesis
      using run by (intro error [of "projl res"]) (auto simp: register_signed_block_def Let_def split: if_splits)
  next
    case False
    then have pos: "?r \<noteq> 0" by simp
    show thesis
    proof (cases "cb_qc ?block")
      case None
      then show thesis using run False pos by (intro error) (auto simp: register_signed_block_def Let_def)
    next
      case (Some qc)
      show thesis
      proof (cases "validate_block_qc s ?r qc")
        case (Inl e)
        then show thesis using run False Some by (intro error) (auto simp: register_signed_block_def Let_def)
      next
        case (Inr u)
        obtain s2 tc_res where tc: "accept_block_tc ?block (observe_qc qc s) = (s2, tc_res)" by force
        have q: "quiet s s2" using quiet_trans [OF observe_qc_quiet accept_block_tc_quiet [OF tc]] .
        show thesis
        proof (cases tc_res)
          case (Inl e)
          with run False Some Inr tc q show thesis by (intro error) (auto simp: register_signed_block_def Let_def)
        next
          case (Inr u')
          with run False Some \<open>validate_block_qc s ?r qc = Inr u\<close> tc q show thesis
            by (intro stored) (auto simp: register_signed_block_def Let_def bt_contains_def)
        qed
      qed
    qed
  qed
qed

lemma register_signed_block_progress:
  assumes "consensus_inv s" shows "progress s (fst (register_signed_block h sb t s))"
proof -
  obtain s' res where run: "register_signed_block h sb t s = (s', res)" by force
  then have "progress s s'"
  proof (cases rule: register_signed_block_cases)
    case (error e)
    then show ?thesis using assms by (simp add: progress_quiet)
  next
    case (stored s2 qc)
    have "consensus_inv s2" using quiet_inv [OF stored(6)] assms by simp
    then have "progress s2 s'"
      using store_signed_block_progress [of s2 h sb t] stored by (auto simp: quiet_def)
    with progress_quiet [OF assms stored(6)] show ?thesis by (rule progress_trans)
  qed
  with run show ?thesis by simp
qed


section \<open>Client blocks\<close>

lemma prune_client_quiet [simp]: "quiet s (prune_old_client_blocks s)"
  by (simp add: prune_old_client_blocks_def quiet_def)

lemma register_client_block_progress:
  assumes "consensus_inv s" shows "progress s (fst (register_client_block block t s))"
proof -
  have tail: "progress s (fst (register_client_tail block t s))"
  proof (cases "validate_client_block_proofs s block")
    case (Inr u)
    let ?r = "cb_round (cl_block block)"
    define s2 where "s2 = push_event (RegisteredClientBlock (cl_block_hash block) ?r)
      (s\<lparr>cs_pending_client_blocks := cs_pending_client_blocks s @ [\<lparr>rc_block = block, rc_registered_at = t\<rparr>]\<rparr>)"
    define s3 where "s3 = advance_round_to (saturating_add_u64 ?r 1) (ByRegisteredBlock (cl_block_hash block) ?r) s2"
    have "progress s s2" using assms by (rule progress_quiet) (simp add: s2_def quiet_def)
    moreover from this have "progress s2 s3"
      unfolding s3_def by (intro advance_round_progress) (simp add: progress_def)
    moreover from this have "progress s3 (prune_old_client_blocks s3)"
      by (intro progress_quiet) (simp_all add: progress_def)
    ultimately have "progress s (prune_old_client_blocks s3)" using progress_trans by blast
    then show ?thesis
      unfolding register_client_tail_def Inr sum.case Let_def s2_def [symmetric] s3_def [symmetric] by simp
  qed (use assms in \<open>simp add: register_client_tail_def progress_refl\<close>)
  have "progress s (push_event e s)" for e using assms by (rule progress_quiet) simp
  with tail assms show ?thesis
    by (auto simp: register_client_block_def Let_def progress_refl split: option.split)
qed

section \<open>Timeouts\<close>

lemma timeouts_okD:
  assumes "timeouts_ok ts" and "map_of ts r = Some m"
  shows "bt_wf m" and "x \<in> set m \<Longrightarrow> to_validator (sg_content (snd x)) = fst x"
    and "x \<in> set m \<Longrightarrow> to_round (sg_content (snd x)) = r"
  using assms map_of_SomeD [OF assms(2)] by (fastforce simp: timeouts_ok_def)+

lemma timeouts_ok_insert:
  assumes ok: "timeouts_ok ts" and "bt_wf m"
    and "\<And>x. x \<in> set m \<Longrightarrow> to_validator (sg_content (snd x)) = fst x \<and> to_round (sg_content (snd x)) = r"
  shows "timeouts_ok (bt_insert r m ts)"
  unfolding timeouts_ok_def
proof (intro conjI ballI)
  show "bt_wf (bt_insert r m ts)" using ok by (simp add: timeouts_ok_def)
  fix e assume "e \<in> set (bt_insert r m ts)"
  then consider "e = (r, m)" | "e \<in> set ts" using ok by (auto simp: timeouts_ok_def set_bt_insert)
  then show "bt_wf (snd e)" by cases (use assms in \<open>auto simp: timeouts_ok_def\<close>)
  fix x assume x: "x \<in> set (snd e)"
  from \<open>e \<in> set (bt_insert r m ts)\<close> consider "e = (r, m)" | "e \<in> set ts"
    using ok by (auto simp: timeouts_ok_def set_bt_insert)
  then have "to_validator (sg_content (snd x)) = fst x \<and> to_round (sg_content (snd x)) = fst e"
    by cases (use assms(3) [of x] ok x in \<open>simp_all add: timeouts_ok_def\<close>)
  then show "to_validator (sg_content (snd x)) = fst x" "to_round (sg_content (snd x)) = fst e" by simp_all
qed

definition timeouts_at :: "consensus_state \<Rightarrow> nat \<Rightarrow> (nat, signed_timeout) btree" where
  "timeouts_at s r = (case map_of (cs_round_to_timeouts s) r of None \<Rightarrow> [] | Some m \<Rightarrow> m)"

lemma timeouts_at_ok:
  assumes "timeouts_ok (cs_round_to_timeouts s)"
  shows "bt_wf (timeouts_at s r)"
    and "x \<in> set (timeouts_at s r) \<Longrightarrow> to_validator (sg_content (snd x)) = fst x \<and> to_round (sg_content (snd x)) = r"
proof -
  show "bt_wf (timeouts_at s r)"
    using timeouts_okD(1) [OF assms, of r] by (cases "map_of (cs_round_to_timeouts s) r") (simp_all add: timeouts_at_def)
  show "to_validator (sg_content (snd x)) = fst x \<and> to_round (sg_content (snd x)) = r" if "x \<in> set (timeouts_at s r)"
    using timeouts_okD(2,3) [OF assms, of r _ x] that
    by (cases "map_of (cs_round_to_timeouts s) r") (simp_all add: timeouts_at_def)
qed

lemma prune_timeouts_loop_ok:
  "timeouts_ok ts \<Longrightarrow> timeouts_ok (fst (prune_timeouts_loop retention current ts tcs))"
proof (induction retention current ts tcs rule: prune_timeouts_loop.induct)
  case (2 retention current r m rest tcs)
  have "timeouts_ok rest" using 2(2) by (simp add: timeouts_ok_def bt_wf_Cons)
  with 2 show ?case by simp
qed simp

lemma prune_old_timeouts_progress:
  assumes "consensus_inv s" shows "progress s (prune_old_timeouts s)"
  using assms prune_timeouts_loop_ok [of "cs_round_to_timeouts s" "cc_timeout_retention (cs_config s)" "cs_current_round s" "cs_round_to_tc s"]
  by (auto simp: prune_old_timeouts_def progress_def consensus_inv_def lock_ok_def split: prod.split)

definition with_timeout :: "signed_timeout \<Rightarrow> consensus_state \<Rightarrow> consensus_state" where
  "with_timeout t s = push_event (TimeoutRecorded (to_round (sg_content t)) (to_validator (sg_content t)))
     (s\<lparr>cs_round_to_timeouts := bt_insert (to_round (sg_content t))
          (bt_insert (to_validator (sg_content t)) t (timeouts_at s (to_round (sg_content t)))) (cs_round_to_timeouts s)\<rparr>)"

lemma with_timeout_progress:
  assumes "consensus_inv s" shows "progress s (with_timeout t s)"
proof -
  have ok: "timeouts_ok (cs_round_to_timeouts s)" using assms by (simp add: consensus_inv_def)
  note at = timeouts_at_ok [OF ok, where r = "to_round (sg_content t)"]
  have "timeouts_ok (bt_insert (to_round (sg_content t))
      (bt_insert (to_validator (sg_content t)) t (timeouts_at s (to_round (sg_content t)))) (cs_round_to_timeouts s))"
    using ok by (rule timeouts_ok_insert) (use at in \<open>auto simp: set_bt_insert\<close>)
  then show ?thesis using assms by (simp add: with_timeout_def progress_def consensus_inv_def lock_ok_def)
qed

lemma validator_set_with_timeout [simp]: "validator_set_for_round (with_timeout t s) r = validator_set_for_round s r"
  by (simp add: validator_set_for_round_def with_timeout_def)

definition built_tc :: "signed_timeout \<Rightarrow> consensus_state \<Rightarrow> timeout_certificate" where
  "built_tc t s = \<lparr>tc_signed_timeouts = map snd (bt_insert (to_validator (sg_content t)) t (timeouts_at s (to_round (sg_content t)))),
     tc_round = to_round (sg_content t)\<rparr>"

lemma record_signed_timeout_cases:
  assumes run: "record_signed_timeout t s = (s', res)"
  defines "r \<equiv> to_round (sg_content t)" and "v \<equiv> to_validator (sg_content t)"
  obtains (late) "r < cs_current_round s" and "s' = s" and "res = Inl (Rpc TimeoutRoundMismatch)"
  | (dup) "cs_current_round s \<le> r" and "v \<in> fst ` set (timeouts_at s r)"
      and "s' = s\<lparr>cs_round_to_timeouts := bt_insert r (timeouts_at s r) (cs_round_to_timeouts s)\<rparr>" and "isl res"
  | (missing) "cs_current_round s \<le> r" and "s' = with_timeout t s" and "snapshot_at_or_before (cs_validators s) r = None"
      and "isl res"
  | (built) vs summary s2 where "cs_current_round s \<le> r" and "snapshot_at_or_before (cs_validators s) r = Some vs"
      and "v \<notin> fst ` set (timeouts_at s r)"
      and "check_quorum_indices vs (map fst (bt_insert v t (timeouts_at s r))) = Inr summary"
      and "s2 = push_event (TimeoutCertificateBuilt r (vw_counted summary)) ((with_timeout t s)\<lparr>
             cs_round_to_tc := bt_insert r (built_tc t s) (cs_round_to_tc (with_timeout t s)), cs_latest_tc := Some (built_tc t s)\<rparr>)"
      and "s' = prune_old_timeouts (advance_round_to (saturating_add_u64 r 1) (ByTimeoutCertificate r) s2)"
      and "res = Inr (Some (built_tc t s))"
  | (pending) vs e where "cs_current_round s \<le> r" and "s' = with_timeout t s"
      and "v \<notin> fst ` set (timeouts_at s r)"
      and "snapshot_at_or_before (cs_validators s) r = Some vs"
      and "check_quorum_indices vs (map fst (bt_insert v t (timeouts_at s r))) = Inl e"
      and "res = (case e of NoQuorum _ _ _ \<Rightarrow> Inr None | _ \<Rightarrow> Inl (ValidatorSetErr e))"
proof -
  let ?ts = "timeouts_at s r" and ?ts' = "bt_insert v t (timeouts_at s r)"
  have step: "record_signed_timeout t s =
     (if r < cs_current_round s then (s, Inl (Rpc TimeoutRoundMismatch))
      else if bt_contains ?ts v
      then (s\<lparr>cs_round_to_timeouts := bt_insert r ?ts (cs_round_to_timeouts s)\<rparr>, Inl (Rpc AlreadyHaveTimeoutFromNode))
      else case validator_set_for_round s r of
        Inl e \<Rightarrow> (with_timeout t s, Inl e)
      | Inr validators \<Rightarrow>
          (case check_quorum_indices validators (map fst ?ts') of
             Inr summary \<Rightarrow>
               (prune_old_timeouts (advance_round_to (saturating_add_u64 r 1) (ByTimeoutCertificate r)
                  (push_event (TimeoutCertificateBuilt r (vw_counted summary)) ((with_timeout t s)\<lparr>
                     cs_round_to_tc := bt_insert r (built_tc t s) (cs_round_to_tc (with_timeout t s)),
                     cs_latest_tc := Some (built_tc t s)\<rparr>))), Inr (Some (built_tc t s)))
           | Inl e \<Rightarrow> (with_timeout t s, case e of NoQuorum _ _ _ \<Rightarrow> Inr None | _ \<Rightarrow> Inl (ValidatorSetErr e))))"
    unfolding record_signed_timeout_def Let_def r_def [symmetric] v_def [symmetric]
      timeouts_at_def [of s r, symmetric] with_timeout_def [of t s, folded r_def v_def, symmetric]
    by (simp add: built_tc_def r_def [symmetric] v_def [symmetric] with_timeout_def [of t s, folded r_def v_def]
        validator_set_for_round_def split: sum.split validator_set_error.split option.split)
  show thesis
  proof (cases "r < cs_current_round s \<or> bt_contains ?ts v")
    case True
    then show thesis
      using run step late dup by (auto simp: bt_contains_iff split: if_splits)
  next
    case False
    then have le: "cs_current_round s \<le> r" and fresh: "v \<notin> fst ` set ?ts" by (simp_all add: bt_contains_iff)
    show thesis
    proof (cases "snapshot_at_or_before (cs_validators s) r")
      case None
      then show thesis using run step False missing [OF le] by (auto simp: validator_set_for_round_def)
    next
      case (Some vs)
      show thesis
      proof (cases "check_quorum_indices vs (map fst ?ts')")
        case (Inl e)
        then show thesis
          using run step False Some pending [OF le _ fresh Some Inl] by (simp add: validator_set_for_round_def)
      next
        case (Inr summary)
        then show thesis
          using run step False Some built [OF le Some fresh Inr refl] by (simp add: validator_set_for_round_def)
      qed
    qed
  qed
qed


lemma record_signed_timeout_progress:
  assumes inv: "consensus_inv s" shows "progress s (fst (record_signed_timeout t s))"
proof -
  obtain s' res where run: "record_signed_timeout t s = (s', res)" by force
  have ok: "timeouts_ok (cs_round_to_timeouts s)" using inv by (simp add: consensus_inv_def)
  note wt = with_timeout_progress [OF inv, of t]
  from run have "progress s s'"
  proof (cases rule: record_signed_timeout_cases)
    case late
    then show ?thesis using inv by (simp add: progress_refl)
  next
    case dup
    let ?r = "to_round (sg_content t)"
    have "timeouts_ok (bt_insert ?r (timeouts_at s ?r) (cs_round_to_timeouts s))"
      using ok timeouts_at_ok [OF ok, where r = ?r] by (intro timeouts_ok_insert)
    then show ?thesis using inv dup by (simp add: progress_def consensus_inv_def lock_ok_def)
  next
    case missing
    then show ?thesis using wt by simp
  next
    case (built vs summary s2)
    have "progress s s2"
      using wt by (rule progress_trans) (rule progress_quiet, use wt built(5) in \<open>auto simp: progress_def quiet_def\<close>)
    moreover from this have "progress s2 s'"
      unfolding built(6) using advance_round_progress prune_old_timeouts_progress progress_trans
      by (meson progress_def)
    ultimately show ?thesis by (rule progress_trans)
  next
    case (pending vs e)
    then show ?thesis using wt by simp
  qed
  with run show ?thesis by simp
qed

lemma install_tc_progress:
  assumes inv: "consensus_inv s" shows "progress s (fst (install_timeout_certificate tc s))"
proof (cases "validate_timeout_certificate s tc")
  case (Inr u)
  define s1 where "s1 = s\<lparr>cs_round_to_tc := bt_insert (tc_round tc) tc (cs_round_to_tc s), cs_latest_tc := Some tc\<rparr>"
  have "progress s s1" using inv by (rule progress_quiet) (simp add: s1_def quiet_def)
  moreover have "progress s1 (prune_old_timeouts (advance_round_to (saturating_add_u64 (tc_round tc) 1)
      (ByTimeoutCertificate (tc_round tc)) s1))"
    using calculation advance_round_progress prune_old_timeouts_progress progress_trans by (meson progress_def)
  ultimately have "progress s (prune_old_timeouts (advance_round_to (saturating_add_u64 (tc_round tc) 1)
      (ByTimeoutCertificate (tc_round tc)) s1))" by (rule progress_trans)
  then show ?thesis unfolding install_timeout_certificate_def Inr sum.case Let_def s1_def [symmetric] by simp
qed (use inv in \<open>simp add: install_timeout_certificate_def progress_refl\<close>)

section \<open>Other steps\<close>

lemma delta_progress:
  assumes inv: "consensus_inv s" shows "progress s (apply_validator_set_delta r d s)"
proof -
  let ?s1 = "s\<lparr>cs_validators := apply_delta_at_round r d (cs_validators s)\<rparr>"
  have "consensus_inv ?s1" using inv history_wf_delta by (simp add: consensus_inv_def lock_ok_def)
  then have p1: "progress s ?s1" by (simp add: progress_def)
  let ?s2 = "push_event (ValidatorSetUpdated r (active_validator_count (vh_current (cs_validators ?s1)))) ?s1"
  have "progress ?s1 ?s2" using \<open>consensus_inv ?s1\<close> by (rule progress_quiet) simp
  then have p2: "progress s ?s2" using p1 progress_trans by blast
  then have "progress ?s2 (advance_round_to r (ByValidatorSetChanged r) ?s2)"
    by (intro advance_round_progress) (simp only: progress_def)
  with p2 show ?thesis unfolding apply_validator_set_delta_def Let_def by (rule progress_trans)
qed

lemma timer_progress:
  assumes inv: "consensus_inv s" shows "progress s (fst (on_round_timer_elapsed now s))"
proof -
  let ?s1 = "s\<lparr>cs_consecutive_missed_rounds := saturating_add_u64 (cs_consecutive_missed_rounds s) 1,
      cs_status := WaitingForTimeout\<rparr>"
  let ?r = "saturating_add_u64 (cs_current_round ?s1) 1"
  let ?s2 = "advance_round_to ?r (ByLocalTimer ?r) ?s1"
  have p1: "progress s ?s1" using inv by (rule progress_quiet) (simp add: quiet_def)
  then have p2: "progress ?s1 ?s2" by (intro advance_round_progress) (simp only: progress_def)
  then have "progress ?s2 (?s2\<lparr>cs_next_round_deadline := Some (now + cc_missed_round_backoff (cs_config ?s2))\<rparr>)"
    by (intro progress_quiet) (simp_all add: progress_def quiet_def)
  with p1 p2 show ?thesis unfolding on_round_timer_elapsed_def Let_def fst_conv using progress_trans by blast
qed

lemma mempool_progress:
  assumes "consensus_inv s" and "mempool_inv (cs_mempool s')" and "mp_pending_handoff (cs_mempool s') = []"
    and "quiet s (s'\<lparr>cs_mempool := cs_mempool s\<rparr>)"
  shows "progress s s'"
  using assms by (simp add: progress_def consensus_inv_def lock_ok_def quiet_def)

lemma register_mempool_progress:
  assumes inv: "consensus_inv s" and run: "register_block_with_mempool verify ctx h sb v s = Some (v', s', res)"
  shows "progress s s'"
proof -
  have minv: "mempool_inv (cs_mempool s)" and empty: "mp_pending_handoff (cs_mempool s) = []"
    using inv by (simp_all add: consensus_inv_def)
  obtain m r where reg: "register_block verify ctx h sb v (cs_mempool s) = Some (v', m, r)"
    using run by (auto simp: register_block_with_mempool_def split: option.splits prod.splits sum.splits)
  have m: "mempool_inv m" using mempool_step_inv [OF mempool_step.register [OF reg] minv] by blast
  have err: "m = cs_mempool s" if "isl r"
    using register_block_cases [OF minv, of verify v sb h ctx] reg that by (auto split: if_splits)
  let ?m = "m\<lparr>mp_pending_handoff := [], mp_events := []\<rparr>"
  have m': "mempool_inv ?m" using m mempool_inv_cong(1) [of ?m m] by simp
  show ?thesis
  proof (cases r)
    case (Inl e)
    then have "s' = s" using run reg err by (simp add: register_block_with_mempool_def)
    then show ?thesis using progress_refl [OF inv] by simp
  next
    case (Inr u)
    then show ?thesis
      using run reg m'
      by (auto intro!: mempool_progress [OF inv] simp: register_block_with_mempool_def quiet_def
          drain_mempool_handoffs_and_events_def)
  qed
qed

lemma poll_mempool_progress:
  assumes inv: "consensus_inv s" and run: "poll_mempool_state verify input v s = Some (v', s')"
  shows "progress s s'"
proof -
  have minv: "mempool_inv (cs_mempool s)" and empty: "mp_pending_handoff (cs_mempool s) = []"
    using inv by (simp_all add: consensus_inv_def)
  obtain m out where poll: "poll_mempool verify input v (cs_mempool s) = Some (v', m, out)"
    using run by (auto simp: poll_mempool_state_def split: option.splits prod.splits)
  have "mempool_inv m" using poll_mempool_total [OF minv empty, of verify input v] poll by auto
  moreover have "mp_pending_handoff m = []"
    using poll by (auto simp: poll_mempool_def Let_def split: option.splits prod.splits)
  ultimately show ?thesis
    using run poll by (auto intro!: mempool_progress [OF inv] simp: poll_mempool_state_def quiet_def)
qed

section \<open>Runs\<close>

inductive consensus_step ::
  "('v \<Rightarrow> mp_signed_block \<Rightarrow> 'v \<times> (string + unit)) \<Rightarrow> consensus_state \<Rightarrow> consensus_state \<Rightarrow> bool" for verify where
  active: "consensus_step verify s (mark_active s)"
| exit: "consensus_step verify s (request_exit s)"
| delta: "consensus_step verify s (apply_validator_set_delta r d s)"
| client_block: "consensus_step verify s (fst (register_client_block block t s))"
| signed_block: "consensus_step verify s (fst (register_signed_block h sb t s))"
| timeout: "consensus_step verify s (fst (record_signed_timeout st s))"
| install: "consensus_step verify s (fst (install_timeout_certificate tc s))"
| timer: "consensus_step verify s (fst (on_round_timer_elapsed now s))"
| arm: "consensus_step verify s (arm_round_timer now s)"
| pool_block: "register_block_with_mempool verify ctx h mb v s = Some (v', s', res) \<Longrightarrow> consensus_step verify s s'"
| pool_poll: "poll_mempool_state verify input v s = Some (v', s') \<Longrightarrow> consensus_step verify s s'"
| pop_event: "consensus_step verify s (s\<lparr>cs_events := tl (cs_events s)\<rparr>)"
| pop_handoff: "consensus_step verify s (s\<lparr>cs_mempool_handoffs := tl (cs_mempool_handoffs s)\<rparr>)"

lemma consensus_step_progress:
  assumes "consensus_step verify s s'" and inv: "consensus_inv s"
  shows "progress s s'"
  using assms(1)
proof (cases rule: consensus_step.cases)
  case active
  then show ?thesis using progress_quiet [OF inv] by (simp add: mark_active_def quiet_def)
next
  case exit
  then show ?thesis using progress_quiet [OF inv] by (simp add: request_exit_def quiet_def)
next
  case arm
  then show ?thesis using progress_quiet [OF inv] by (simp add: arm_round_timer_def quiet_def)
next
  case pop_event
  then show ?thesis using progress_quiet [OF inv] by (simp add: quiet_def)
next
  case pop_handoff
  then show ?thesis using progress_quiet [OF inv] by (simp add: quiet_def)
qed (use inv in \<open>simp_all add: delta_progress register_client_block_progress register_signed_block_progress
    record_signed_timeout_progress install_tc_progress timer_progress register_mempool_progress
    poll_mempool_progress\<close>)

interpretation consensus_rounds: monotone_system "consensus_step verify" consensus_inv cs_current_round
  for verify
  by unfold_locales (auto dest: consensus_step_progress simp: progress_def)

interpretation consensus_commits: monotone_system "consensus_step verify" consensus_inv cs_last_committed_round
  for verify
  by unfold_locales (auto dest: consensus_step_progress simp: progress_def)

end
