(* ===== verification/Consensus_Properties.thy ===== *)
theory Consensus_Properties
  imports Consensus_Safety
begin

text \<open>
  What the consensus state machine guarantees: along every run rounds and commits move forward and the
  locked block is the last committed one; a commit is backed by a quorum certificate for a known parent;
  two certificates of one round share a correct voter; a quorum of timeouts moves the round on; and one
  foreign timeout blocks the timeout certificate of its round.
\<close>

section \<open>Runs\<close>

lemma lock_okD:
  assumes "lock_ok s" and "cs_locked_round s = Some r"
  obtains h k where "r = cs_last_committed_round s" and "cs_locked_block_hash s = Some h"
    and "map_of (cs_block_hash_to_block s) h = Some k" and "kb_committed k" and "kb_round k = r"
  using assms by (auto simp: lock_ok_def)

text \<open>C13. Along every run of a fresh consensus state, through any mix of blocks, client blocks,
  timeouts, certificates, timers, validator-set changes and mempool work, neither the current round nor
  the last committed round ever goes down, and while a round is locked it is the last committed round
  and the locked hash names a stored, committed block of that round.\<close>

theorem consensus_run:
  assumes "(consensus_step verify)\<^sup>*\<^sup>* (consensus_state_new config initial) s"
    and "(consensus_step verify)\<^sup>*\<^sup>* s s'"
  shows "cs_current_round s \<le> cs_current_round s' \<and> cs_last_committed_round s \<le> cs_last_committed_round s' \<and>
    (\<forall>r. cs_locked_round s' = Some r \<longrightarrow> r = cs_last_committed_round s' \<and>
       (\<exists>h k. cs_locked_block_hash s' = Some h \<and> map_of (cs_block_hash_to_block s') h = Some k \<and>
          kb_block_hash k = h \<and> kb_committed k \<and> kb_round k = r))"
proof -
  have s: "consensus_inv s" using consensus_rounds.run_invar [OF assms(1) consensus_inv_new] .
  have s': "consensus_inv s'" using consensus_rounds.run_invar [OF assms(2) s] .
  then have lock: "lock_ok s'" and ok: "index_ok (cs_round_to_block_hash s') (cs_block_hash_to_block s')"
    by (simp_all add: consensus_inv_def)
  have "r = cs_last_committed_round s' \<and>
       (\<exists>h k. cs_locked_block_hash s' = Some h \<and> map_of (cs_block_hash_to_block s') h = Some k \<and>
          kb_block_hash k = h \<and> kb_committed k \<and> kb_round k = r)" if "cs_locked_round s' = Some r" for r
    using lock that by (rule lock_okD) (use index_okD(5) [OF ok] in blast)
  with consensus_rounds.run_level [OF assms(2) s] consensus_commits.run_level [OF assms(2) s]
  show ?thesis by blast
qed

section \<open>Commits\<close>

text \<open>The block hash a signed block is stored under is new, so its parent was stored before it.\<close>

lemma commit_certified_aux:
  assumes "register_signed_block h sb t s = (s', Inr tr)" and "tr_committed_round tr = Some c"
  shows "\<exists>qc vs parent summary. cb_qc (sg_content sb) = Some qc \<and> qc_round qc = c \<and>
    cs_last_committed_round s < c \<and> c < cb_round (sg_content sb) \<and> cs_last_committed_round s' = c \<and>
    snapshot_at_or_before (cs_validators s) c = Some vs \<and>
    check_quorum_indices vs (map fst (qc_signatures qc)) = Inr summary \<and>
    map_of (cs_block_hash_to_block s) (qc_block_hash qc) = Some parent \<and> kb_round parent = c"
  using assms(1)
proof (cases rule: register_signed_block_cases)
  case (error e)
  then show ?thesis by simp
next
  case (stored s2 qc)
  let ?r = "cb_round (sg_content sb)"
  let ?k = "\<lparr>kb_block_hash = h, kb_signed_block = sb, kb_registered_at = t, kb_committed = False\<rparr>"
  define s1 where "s1 = push_event (RegisteredBlock h ?r)
     (s2\<lparr>cs_round_to_block_hash := bt_insert ?r h (cs_round_to_block_hash s2),
        cs_highest_seen_round := max (cs_highest_seen_round s2) ?r,
        cs_block_hash_to_block := bt_insert h ?k (cs_block_hash_to_block s2)\<rparr>)"
  obtain s3 res where run: "try_commit_from_child_qc h ?r s1 = (s3, res)" by force
  have out: "store_signed_block h sb t s2 = (case res of Inl e \<Rightarrow> (s3, Inl e)
      | Inr cr \<Rightarrow> (let s4 = prune_old_blocks (advance_round_to (saturating_add_u64 ?r 1) (ByRegisteredBlock h ?r) s3)
          in (s4, Inr \<lparr>tr_inserted = True, tr_committed_round = cr, tr_advanced_to = cs_current_round s4\<rparr>)))"
    unfolding store_signed_block_def Let_def s1_def [symmetric] run by (simp split: sum.split)
  obtain s4 where res: "res = Inr (Some c)" and s': "cs_last_committed_round s' = cs_last_committed_round s3"
    using stored(7) out assms(2) by (cases res) (auto simp: Let_def)
  from run show ?thesis
  proof (cases rule: try_commit_cases)
    case (commit child qc' parent)
    have eqs: "cs_block_hash_to_block s2 = cs_block_hash_to_block s"
      "cs_last_committed_round s1 = cs_last_committed_round s"
      using stored(6) by (simp_all add: quiet_def s1_def)
    have same: "qc' = qc" using commit(1,2) stored(4) by (auto simp: s1_def)
    have c: "c = qc_round qc" using commit(7) res same by simp
    have "kb_round ?k = ?r" by (simp add: kb_round_def)
    then have "qc_block_hash qc \<noteq> h" using commit(1,4,5,6) same by (auto simp: s1_def)
    then have "map_of (cs_block_hash_to_block s) (qc_block_hash qc) = Some parent"
      using commit(4) same eqs(1) by (simp add: s1_def)
    moreover obtain vs summary where "snapshot_at_or_before (cs_validators s) c = Some vs"
      "check_quorum_indices vs (map fst (qc_signatures qc)) = Inr summary"
      using stored(5) c by (auto simp: validate_block_qc_def validator_set_for_round_def
          split: if_splits option.splits sum.splits validator_set_error.splits)
    ultimately show ?thesis
      using commit stored(4) c same eqs(2) s' by simp
  qed (use res in simp_all)
qed

text \<open>C11. When \<open>register_signed_block\<close> reports a commit of round \<open>c\<close>, the block carries a quorum
  certificate of round \<open>c\<close>, strictly between the old last committed round and the block's own round;
  the validator set in force at round \<open>c\<close> accepts the certificate's signers as a quorum; the certified
  parent was already stored with round \<open>c\<close>; and \<open>c\<close> is the new last committed round.\<close>

theorem commit_certified:
  assumes "register_signed_block h sb t s = (s', Inr tr)" and "tr_committed_round tr = Some c"
  shows "\<exists>qc vs parent summary. cb_qc (sg_content sb) = Some qc \<and> qc_round qc = c \<and>
    cs_last_committed_round s < c \<and> c < cb_round (sg_content sb) \<and> cs_last_committed_round s' = c \<and>
    snapshot_at_or_before (cs_validators s) c = Some vs \<and>
    check_quorum_indices vs (map fst (qc_signatures qc)) = Inr summary \<and>
    map_of (cs_block_hash_to_block s) (qc_block_hash qc) = Some parent \<and> kb_round parent = c"
  using assms by (rule commit_certified_aux)

lemma validate_block_qc_quorum:
  assumes "validate_block_qc s r qc = Inr ()" and "snapshot_at_or_before (cs_validators s) (qc_round qc) = Some vs"
    and "bt_wf (vs_stakes vs)" and "total_weight vs \<le> u64_max"
  shows "snapshot_quorum vs (fst ` set (qc_signatures qc))"
proof -
  obtain summary where "check_quorum_indices vs (map fst (qc_signatures qc)) = Inr summary"
    using assms(1,2) by (auto simp: validate_block_qc_def validator_set_for_round_def
        split: if_splits sum.splits validator_set_error.splits)
  with assms(3,4) show ?thesis
    unfolding snapshot_quorum_def by (intro conjI exI [of _ "map fst (qc_signatures qc)"] exI [of _ summary]) simp_all
qed

text \<open>Two quorum certificates of the same round that a node accepts for two blocks share a signer
  outside any set of validators holding at most a third of the active stake in force at that round (the
  set's ordered map is well formed and its active stake sums to a u64).\<close>

lemma accepted_qcs_share_correct_voter:
  assumes "validate_block_qc s r qc = Inr ()" and "validate_block_qc s r' qc' = Inr ()"
    and "qc_round qc' = qc_round qc"
    and "snapshot_at_or_before (cs_validators s) (qc_round qc) = Some vs"
    and "bt_wf (vs_stakes vs)" and "total_weight vs \<le> u64_max"
    and "finite faulty" and "3 * sum (active_stake vs) faulty \<le> total_weight vs"
  shows "\<exists>v. v \<in> fst ` set (qc_signatures qc) \<and> v \<in> fst ` set (qc_signatures qc') \<and> v \<notin> faulty"
proof -
  have "snapshot_quorum vs (fst ` set (qc_signatures qc))" "snapshot_quorum vs (fst ` set (qc_signatures qc'))"
    using assms(1-6) by (auto intro: validate_block_qc_quorum)
  from vs.overlap_correct [OF this assms(7)] assms(8) show ?thesis by (auto simp: total_weight_def)
qed

section \<open>Timeouts\<close>

lemma built_tc_voters:
  assumes "timeouts_ok (cs_round_to_timeouts s)"
  shows "map (\<lambda>x. to_validator (sg_content x)) (tc_signed_timeouts (built_tc t s)) =
      map fst (bt_insert (to_validator (sg_content t)) t (timeouts_at s (to_round (sg_content t))))"
    and "\<forall>x \<in> set (tc_signed_timeouts (built_tc t s)). to_round (sg_content x) = to_round (sg_content t)"
    and "tc_signed_timeouts (built_tc t s) \<noteq> []" and "tc_round (built_tc t s) = to_round (sg_content t)"
proof -
  let ?r = "to_round (sg_content t)"
  have all: "to_validator (sg_content (snd x)) = fst x \<and> to_round (sg_content (snd x)) = ?r"
    if "x \<in> set (bt_insert (to_validator (sg_content t)) t (timeouts_at s ?r))" for x
  proof -
    have "x = (to_validator (sg_content t), t) \<or> x \<in> set (timeouts_at s ?r)"
      using that timeouts_at_ok(1) [OF assms, where r = ?r] by (auto simp: set_bt_insert)
    then show ?thesis using timeouts_at_ok(2) [OF assms, where r = ?r and x = x] by auto
  qed
  then show "map (\<lambda>x. to_validator (sg_content x)) (tc_signed_timeouts (built_tc t s)) =
      map fst (bt_insert (to_validator (sg_content t)) t (timeouts_at s ?r))"
    unfolding built_tc_def by simp
  show "\<forall>x \<in> set (tc_signed_timeouts (built_tc t s)). to_round (sg_content x) = ?r"
    using all unfolding built_tc_def by auto
qed (simp_all add: built_tc_def)

lemma prune_old_timeouts_sel [simp]:
  "cs_current_round (prune_old_timeouts s) = cs_current_round s" "cs_latest_tc (prune_old_timeouts s) = cs_latest_tc s"
  by (simp_all add: prune_old_timeouts_def split: prod.split)

lemma advance_round_latest_tc [simp]: "cs_latest_tc (advance_round_to r reason s) = cs_latest_tc s"
  by (simp add: advance_round_to_def)

lemma timeout_quorum_aux:
  assumes inv: "consensus_inv s" and run: "record_signed_timeout t s = (s', Inr (Some tc))"
  shows "validate_timeout_certificate s tc = Inr () \<and> t \<in> set (tc_signed_timeouts tc) \<and>
    tc_round tc = to_round (sg_content t) \<and> cs_latest_tc s' = Some tc \<and>
    cs_current_round s' = max (cs_current_round s) (saturating_add_u64 (to_round (sg_content t)) 1)"
  using run
proof (cases rule: record_signed_timeout_cases)
  case (built vs summary s2)
  have tc: "tc = built_tc t s" using built(7) by simp
  have ok: "timeouts_ok (cs_round_to_timeouts s)" using inv by (simp add: consensus_inv_def)
  have wf: "bt_wf (timeouts_at s (to_round (sg_content t)))" using timeouts_at_ok(1) [OF ok] .
  have "validate_timeout_certificate s tc = Inr ()"
    unfolding validate_timeout_certificate_def tc
    using built(2,4) built_tc_voters [OF ok, of t]
    by (simp add: validator_set_for_round_def list_ex_iff)
  moreover have "t \<in> set (tc_signed_timeouts tc)"
    using wf unfolding tc built_tc_def by (force simp: set_bt_insert)
  ultimately show ?thesis
    using built(5,6) tc by (simp add: built_tc_def with_timeout_def)
qed (auto split: validator_set_error.splits)

text \<open>When a signed timeout completes a quorum, the certificate built from the stored timeouts
  passes the node's own validation, contains the new timeout, becomes the latest timeout certificate,
  and the current round becomes the round after it.\<close>

lemma timeout_quorum_builds_valid_tc:
  assumes "consensus_inv s" and "record_signed_timeout t s = (s', Inr (Some tc))"
  shows "validate_timeout_certificate s tc = Inr () \<and> t \<in> set (tc_signed_timeouts tc) \<and>
    tc_round tc = to_round (sg_content t) \<and> cs_latest_tc s' = Some tc \<and>
    cs_current_round s' = max (cs_current_round s) (saturating_add_u64 (to_round (sg_content t)) 1)"
  using assms by (rule timeout_quorum_aux)

lemma check_quorum_foreign:
  assumes "v \<in> set voters" and "v \<notin> active_set vs"
  shows "\<exists>e. check_quorum_indices vs voters = Inl e \<and> (\<forall>a b c. e \<noteq> NoQuorum a b c)"
proof -
  let ?t = "tally_loop vs [] (summary_new (total_active_stake vs)) voters"
  have "bad_votes ?t \<noteq> bad_votes (summary_new (total_active_stake vs))"
    using assms by (auto simp: tally_clean)
  moreover have "bad_votes (tally_votes vs voters) = bad_votes ?t" by (simp add: tally_votes_def bad_votes_def Let_def)
  ultimately have "bad_votes (tally_votes vs voters) \<noteq> 0" by (simp add: bad_votes_def summary_new_def)
  then show ?thesis by (auto simp: check_quorum_indices_def Let_def bad_votes_def)
qed

text \<open>A timeout from a validator that is not active in the set of its round is stored before it is
  checked; from then on every further timeout recorded for that round (one the node has not moved past)
  is answered with an error and leaves the foreign one stored, so the round gets no timeout certificate
  from recorded timeouts however many validators send theirs.\<close>

lemma foreign_timeout_blocks_round:
  assumes "snapshot_at_or_before (cs_validators s) (to_round (sg_content t)) = Some vs"
    and "v \<in> fst ` set (timeouts_at s (to_round (sg_content t)))" and "v \<notin> active_set vs"
    and "bt_wf (timeouts_at s (to_round (sg_content t)))"
  shows "isl (snd (record_signed_timeout t s)) \<and>
    v \<in> fst ` set (timeouts_at (fst (record_signed_timeout t s)) (to_round (sg_content t))) \<and>
    cs_current_round (fst (record_signed_timeout t s)) = cs_current_round s \<and>
    cs_validators (fst (record_signed_timeout t s)) = cs_validators s"
proof -
  obtain s' res where run: "record_signed_timeout t s = (s', res)" by force
  let ?r = "to_round (sg_content t)" and ?w = "to_validator (sg_content t)"
  have v: "v \<in> set (map fst (bt_insert ?w t (timeouts_at s ?r)))"
    using assms(2,4) by (auto simp: set_bt_insert image_iff)
  have keep: "timeouts_at (with_timeout t s) ?r = bt_insert ?w t (timeouts_at s ?r)"
    by (simp add: with_timeout_def timeouts_at_def)
  from run have "isl res \<and> v \<in> fst ` set (timeouts_at s' ?r) \<and> cs_current_round s' = cs_current_round s \<and>
      cs_validators s' = cs_validators s"
  proof (cases rule: record_signed_timeout_cases)
    case late
    then show ?thesis using assms(2) by simp
  next
    case dup
    then show ?thesis using assms(2) by (simp add: timeouts_at_def)
  next
    case missing
    then show ?thesis using assms(1) by simp
  next
    case (built vs' summary s2)
    then show ?thesis using check_quorum_foreign [OF v assms(3)] assms(1) by auto
  next
    case (pending vs' e)
    then have "\<forall>a b c. e \<noteq> NoQuorum a b c" using check_quorum_foreign [OF v assms(3)] assms(1) by auto
    then show ?thesis
      using pending v keep by (cases e) (simp_all add: with_timeout_def)
  qed
  with run show ?thesis by simp
qed

section \<open>Proposers, timers and blocks without a certificate\<close>

lemma nth_image_all: "(!) xs ` {0..<length xs} = set xs"
  by (auto simp: set_conv_nth)

lemma mod_shift_image:
  assumes "0 < (n :: nat)" shows "(\<lambda>i. (r + i) mod n) ` {..<n} = {..<n}"
proof -
  have "inj_on (\<lambda>i. (r + i) mod n) {..<n}"
  proof (rule inj_onI)
    fix i j assume ij: "i \<in> {..<n}" "j \<in> {..<n}" and eq: "(r + i) mod n = (r + j) mod n"
    from eq obtain a b where "i + n * a = j + n * b" by (auto simp: nat_mod_eq_iff)
    then have "i mod n = j mod n" unfolding nat_mod_eq_iff by blast
    with ij show "i = j" by simp
  qed
  moreover have "(\<lambda>i. (r + i) mod n) ` {..<n} \<subseteq> {..<n}" using assms by auto
  ultimately show ?thesis by (simp add: endo_inj_surj)
qed

text \<open>Proposers rotate fairly: in any \<open>n\<close> consecutive rounds, \<open>n\<close> being the number of active
  validators, every active validator is the proposer of exactly one round and nobody else is.\<close>

lemma proposer_rotation:
  assumes "bt_wf (vs_stakes (active_validator_set s))"
    and "n = active_validator_count (active_validator_set s)" and "0 < n"
  shows "(\<lambda>i. proposer_for_round s (r + i)) ` {..<n} = Inr ` active_set (active_validator_set s) \<and>
    card (active_set (active_validator_set s)) = n"
proof -
  let ?v = "map fst (active_validators (active_validator_set s))"
  have len: "length ?v = n"
    unfolding assms(2) active_validator_count_def active_validators_def length_map
    by (intro arg_cong [where f = length] filter_cong) auto
  have set: "set ?v = active_set (active_validator_set s)" using fst_active_validators [OF assms(1)] by simp
  have "distinct ?v"
    using assms(1) unfolding active_validators_def
    by (metis bt_wf_filter bt_wf_distinct)
  then have card: "card (active_set (active_validator_set s)) = n" using len set distinct_card [of ?v] by simp
  have pick: "proposer_for_round s k = Inr (?v ! (k mod n))" for k
    using len assms(3) by (auto simp: proposer_for_round_def Let_def)
  have "(\<lambda>i. ?v ! ((r + i) mod n)) ` {..<n} = set ?v"
  proof -
    have "(\<lambda>i. ?v ! ((r + i) mod n)) ` {..<n} = (!) ?v ` (\<lambda>i. (r + i) mod n) ` {..<n}" by (simp only: image_image)
    also have "\<dots> = set ?v" unfolding mod_shift_image [OF assms(3)] using len by (metis atLeast0LessThan nth_image_all)
    finally show ?thesis .
  qed
  then have "Inr ` (\<lambda>i. ?v ! ((r + i) mod n)) ` {..<n} = Inr ` active_set (active_validator_set s)" using set by simp
  then have "(\<lambda>i. proposer_for_round s (r + i)) ` {..<n} = Inr ` active_set (active_validator_set s)"
    unfolding pick image_image .
  with card show ?thesis by blast
qed

text \<open>The local timer counts a missed round and then advances the round, which resets the count.\<close>

lemma timer_resets_missed_rounds:
  assumes "cs_current_round s < u64_max"
  shows "cs_consecutive_missed_rounds (fst (on_round_timer_elapsed now s)) = 0 \<and>
    cs_status (fst (on_round_timer_elapsed now s)) = Active"
  using assms by (simp add: on_round_timer_elapsed_def Let_def advance_round_to_def saturating_add_u64_def push_event_def)

text \<open>The genesis branch is dead: a block without a certificate is always rejected, since its round would
  have to be both zero and greater than the last committed round.\<close>

lemma block_without_qc_rejected:
  "cb_qc (sg_content sb) = None \<Longrightarrow> isl (snd (register_signed_block h sb t s)) \<and> fst (register_signed_block h sb t s) = s"
  by (simp add: register_signed_block_def Let_def)

text \<open>A client block reports its round as committed but leaves the last committed round where it was.\<close>

lemma client_block_not_committed:
  assumes "register_client_block block t s = (s', Inr tr)"
  shows "tr_committed_round tr = Some (cb_round (cl_block block)) \<and>
    cs_last_committed_round s' = cs_last_committed_round s \<and>
    cs_last_committed_round s' < cb_round (cl_block block)"
  using assms
  by (auto simp: register_client_block_def register_client_tail_def Let_def prune_old_client_blocks_def
      split: if_splits option.splits sum.splits)

section \<open>Witnesses\<close>

definition four :: validator_set_snapshot where
  "four = from_stakes [(0, 1), (1, 1), (2, 1), (3, 1)]"

definition st0 :: consensus_state where
  "st0 = consensus_state_new (config_mainnet 0) four"

definition qc_of :: "block_hash \<Rightarrow> nat \<Rightarrow> nat list \<Rightarrow> quorum_certificate" where
  "qc_of h r vs = \<lparr>qc_block_hash = h, qc_round = r, qc_signatures = map (\<lambda>v. (v, 0)) vs\<rparr>"

definition blk :: "nat \<Rightarrow> quorum_certificate \<Rightarrow> consensus_block signed" where
  "blk r qc = \<lparr>sg_content = \<lparr>cb_proposer = 0, cb_round = r, cb_tx_hashes = [], cb_time_millis = 0,
     cb_qc = Some qc, cb_tc = None\<rparr>, sg_signature = 0\<rparr>"

definition st1 :: consensus_state where
  "st1 = fst (register_signed_block 11 (blk 1 (qc_of 7 0 [0, 1, 2])) None st0)"

definition st2 :: consensus_state where
  "st2 = fst (register_signed_block 12 (blk 2 (qc_of 11 1 [1, 2, 3])) None st1)"

lemmas consensus_eval = st0_def st1_def st2_def four_def qc_of_def blk_def consensus_state_new_def config_mainnet_def
  from_stakes_def drop_zero_stake_entries_def register_signed_block_def validate_block_qc_def observe_qc_def
  accept_block_tc_def store_signed_block_def try_commit_from_child_qc_def prune_old_blocks_def kb_round_def
  advance_round_to_def push_event_def history_new_def record_round_def validator_set_for_round_def
  snapshot_at_or_before_def check_quorum_indices_def tally_votes_def summary_new_def total_active_stake_def
  active_validators_def quorum_threshold_for_total_def count_vote_def bt_contains_def
  saturating_add_u64_def saturating_mul_u64_def u64_max_def

lemma commit_run:
  "register_signed_block 12 (blk 2 (qc_of 11 1 [1, 2, 3])) None st1 =
     (st2, Inr \<lparr>tr_inserted = True, tr_committed_round = Some 1, tr_advanced_to = 3\<rparr>)"
  by (simp add: consensus_eval)

definition timer_verify :: "unit \<Rightarrow> mp_signed_block \<Rightarrow> unit \<times> (string + unit)" where
  "timer_verify v sb = (v, Inr ())"

theorem consensus_run_witness:
  "cs_current_round st1 \<le> cs_current_round st2 \<and> cs_last_committed_round st1 \<le> cs_last_committed_round st2 \<and>
   cs_locked_round st2 = Some 1 \<and> cs_last_committed_round st2 = 1"
proof -
  have "(consensus_step timer_verify)\<^sup>*\<^sup>* st0 st1"
    unfolding st1_def by (intro r_into_rtranclp consensus_step.signed_block)
  moreover have "(consensus_step timer_verify)\<^sup>*\<^sup>* st1 st2"
    unfolding st2_def by (intro r_into_rtranclp consensus_step.signed_block)
  moreover have "cs_locked_round st2 = Some 1" by (simp add: consensus_eval)
  ultimately show ?thesis
    using consensus_run [of timer_verify "config_mainnet 0" four st1 st2] unfolding st0_def by auto
qed

theorem commit_certified_witness:
  "\<exists>parent. cs_last_committed_round st2 = 1 \<and> map_of (cs_block_hash_to_block st1) 11 = Some parent \<and> kb_round parent = 1"
  using commit_certified [OF commit_run, of 1] by (auto simp: blk_def qc_of_def)

lemma four_simps: "bt_wf (vs_stakes four)" "active_stake four = (\<lambda>v. if v < 4 then 1 else 0)"
  "active_set four = {0, 1, 2, 3}" "total_weight four = 4" "active_validator_count four = 4"
proof -
  show stake: "active_stake four = (\<lambda>v. if v < 4 then 1 else 0)"
    by (rule ext) (auto simp: four_def from_stakes_def drop_zero_stake_entries_def active_stake_def is_jailed_def raw_stake_def)
  show set: "active_set four = {0, 1, 2, 3}" unfolding active_set_def stake by auto
  show "total_weight four = 4" unfolding total_weight_def stake set by simp
  show "bt_wf (vs_stakes four)" by (simp add: four_def from_stakes_def drop_zero_stake_entries_def bt_wf_def)
  show "active_validator_count four = 4"
    by (simp add: active_validator_count_def four_def from_stakes_def drop_zero_stake_entries_def)
qed

lemma accepted_qcs_share_correct_voter_witness:
  "\<exists>v. v \<in> fst ` set (qc_signatures (qc_of 11 0 [0, 1, 2])) \<and> v \<in> fst ` set (qc_signatures (qc_of 12 0 [1, 2, 3])) \<and> v \<notin> {2}"
proof (rule accepted_qcs_share_correct_voter [where s = st0 and r = 1 and r' = 1 and vs = four])
  show "validate_block_qc st0 1 (qc_of 11 0 [0, 1, 2]) = Inr ()" "validate_block_qc st0 1 (qc_of 12 0 [1, 2, 3]) = Inr ()"
    by (simp_all add: consensus_eval)
  show "snapshot_at_or_before (cs_validators st0) (qc_round (qc_of 11 0 [0, 1, 2])) = Some four"
    by (simp add: consensus_eval)
qed (simp_all add: four_simps u64_max_def qc_of_def)

definition tmo :: "nat \<Rightarrow> nat \<Rightarrow> signed_timeout" where
  "tmo v r = \<lparr>sg_content = \<lparr>to_qc = None, to_validator = v, to_round = r\<rparr>, sg_signature = 0\<rparr>"

definition st_tmo :: consensus_state where
  "st_tmo = fst (record_signed_timeout (tmo 1 0) (fst (record_signed_timeout (tmo 0 0) st0)))"

definition st_foreign :: consensus_state where
  "st_foreign = fst (record_signed_timeout (tmo 9 0) st0)"

lemmas timeout_eval = consensus_eval st_tmo_def st_foreign_def tmo_def record_signed_timeout_def prune_old_timeouts_def
  timeouts_at_def Let_def

lemma timeout_quorum_builds_valid_tc_witness:
  "cs_current_round (fst (record_signed_timeout (tmo 2 0) st_tmo)) = 1 \<and>
   validate_timeout_certificate st_tmo \<lparr>tc_signed_timeouts = [tmo 0 0, tmo 1 0, tmo 2 0], tc_round = 0\<rparr> = Inr ()"
proof -
  have run: "record_signed_timeout (tmo 2 0) st_tmo = (fst (record_signed_timeout (tmo 2 0) st_tmo),
      Inr (Some \<lparr>tc_signed_timeouts = [tmo 0 0, tmo 1 0, tmo 2 0], tc_round = 0\<rparr>))"
    by (simp add: timeout_eval)
  have "consensus_inv st_tmo"
    unfolding st_tmo_def st0_def using record_signed_timeout_progress consensus_inv_new by (simp add: progress_def)
  from timeout_quorum_builds_valid_tc [OF this run]
  show ?thesis by (simp add: timeout_eval)
qed

lemma foreign_timeout_blocks_round_witness:
  "isl (snd (record_signed_timeout (tmo 0 0) st_foreign)) \<and>
   9 \<in> fst ` set (timeouts_at (fst (record_signed_timeout (tmo 0 0) st_foreign)) 0)"
proof -
  have at: "timeouts_at st_foreign 0 = [(9, tmo 9 0)]" "snapshot_at_or_before (cs_validators st_foreign) 0 = Some four"
    by (simp_all add: timeout_eval)
  then show ?thesis
    using foreign_timeout_blocks_round [of st_foreign "tmo 0 0" four 9] by (simp add: four_simps tmo_def bt_wf_def)
qed

lemma proposer_rotation_witness:
  "(\<lambda>i. proposer_for_round st0 (7 + i)) ` {..<4} = Inr ` {0, 1, 2, 3}"
proof -
  have "active_validator_set st0 = four" by (simp add: active_validator_set_def st0_def consensus_state_new_def history_new_def Let_def)
  then show ?thesis using proposer_rotation [of st0 4 7] four_simps by simp
qed

end
