(* ===== verification/Match_Engine.thy ===== *)
theory Match_Engine
  imports Rust_Prelude "HOL-Library.Product_Lexorder"
begin

text \<open>
  The matching engine of \<open>l1/book/book/impl_insert_order.rs\<close>: an incoming order is validated, matched
  against the opposite side level by level and queue by queue, and its residual rests.  Prices, sizes
  and notionals are \<open>nat\<close> (\<open>u64\<close>); the signed quantities are \<open>int\<close> (\<open>i64\<close>).  The loop over the
  levels need not end, so it is a partial function whose value \<open>None\<close> means that it does not return; a
  panic is a value of its own.
\<close>

section \<open>Constants\<close>

definition ASSET_DIVISOR :: nat where
  "ASSET_DIVISOR = 10000"

definition MAX_LIMIT_PX_U :: nat where
  "MAX_LIMIT_PX_U = 1000000000000000"

definition MAX_NOTIONAL_U :: nat where
  "MAX_NOTIONAL_U = 0x7ffffffffffffffe"

definition MIN_NOTIONAL_FLOOR :: nat where
  "MIN_NOTIONAL_FLOOR = 0x0098967f"

type_synonym insert_status = nat

definition STATUS_PRICE_OR_TICK :: insert_status where
  "STATUS_PRICE_OR_TICK = 0x8000000000000000"

definition STATUS_NOTIONAL :: insert_status where
  "STATUS_NOTIONAL = 0x8000000000000001"

definition STATUS_QUEUE_MASK :: insert_status where
  "STATUS_QUEUE_MASK = 0x8000000000000003"

definition STATUS_NO_USER_PRICE_QTY :: insert_status where
  "STATUS_NO_USER_PRICE_QTY = 0x8000000000000005"

definition STATUS_POST_ONLY_CROSSES :: insert_status where
  "STATUS_POST_ONLY_CROSSES = 0x8000000000000006"

definition STATUS_TIF_NOT_MARKETABLE :: insert_status where
  "STATUS_TIF_NOT_MARKETABLE = 0x8000000000000008"

definition STATUS_AVAILABLE_SIZE :: insert_status where
  "STATUS_AVAILABLE_SIZE = 0x8000000000000012"

definition STATUS_NO_VALID_CROSS :: insert_status where
  "STATUS_NO_VALID_CROSS = 0x8000000000000013"

definition STATUS_INDEX_ROUTE :: insert_status where
  "STATUS_INDEX_ROUTE = 0x8000000000000014"

definition STATUS_SLOT_EMPTY_FOR_REPLACE :: insert_status where
  "STATUS_SLOT_EMPTY_FOR_REPLACE = 0x8000000000000015"

definition STATUS_SLOT_MISSING :: insert_status where
  "STATUS_SLOT_MISSING = 0x8000000000000016"

definition STATUS_DUPLICATE_ORDER :: insert_status where
  "STATUS_DUPLICATE_ORDER = 0x8000000000000017"

definition STATUS_OK :: insert_status where
  "STATUS_OK = 0x8000000000000018"

section \<open>Data\<close>

datatype taker_side = Buy | Sell

fun side_opposite :: "taker_side \<Rightarrow> taker_side" where
  "side_opposite Buy = Sell"
| "side_opposite Sell = Buy"

datatype insert_tif =
  AddLiquidityOnly | ImmediateOrCancel | Normal | FrontendMarket | LiquidationMarket | OtherTif nat

definition tif_from_raw :: "nat \<Rightarrow> insert_tif" where
  "tif_from_raw raw =
     (if raw = 0 then AddLiquidityOnly else if raw = 1 then ImmediateOrCancel else if raw = 2 then Normal
      else if raw = 3 then FrontendMarket else if raw = 4 then LiquidationMarket else OtherTif raw)"

definition must_be_marketable :: "insert_tif \<Rightarrow> bool" where
  "must_be_marketable tif \<longleftrightarrow> tif = ImmediateOrCancel \<or> tif = FrontendMarket \<or> tif = LiquidationMarket"

datatype resting_match_reason =
  MakerLiquidityExhausted | MissingUserPriceQuantity | SelfCrossOrVaultCross | DirectRemainingSize

fun maker_event_code :: "resting_match_reason \<Rightarrow> nat option" where
  "maker_event_code MakerLiquidityExhausted = Some 10"
| "maker_event_code MissingUserPriceQuantity = Some 9"
| "maker_event_code SelfCrossOrVaultCross = None"
| "maker_event_code DirectRemainingSize = None"

record taker_args =
  ta_oid :: nat
  ta_user :: address
  ta_side :: taker_side
  ta_limit_px :: nat
  ta_sz :: nat
  ta_remaining_override :: "nat option"
  ta_tif :: insert_tif
  ta_reduce_only :: bool
  ta_cloid :: "128 word option"
  ta_timestamp :: nat
  ta_builder_nonce :: nat
  ta_order_kind :: nat
  ta_is_position_tpsl :: bool
  ta_use_user_price_qty_lookup :: bool
  ta_allow_trigger_cleanup :: bool
  ta_is_replace :: bool
  ta_replace_slot_required :: bool
  ta_raw_accounting_key :: nat

definition args_remaining_sz :: "taker_args \<Rightarrow> nat" where
  "args_remaining_sz args = (case ta_remaining_override args of None \<Rightarrow> ta_sz args | Some sz \<Rightarrow> sz)"

datatype slot_status = EmptySlot | Occupied | RemovedSlot

record resting_order =
  ro_status :: slot_status
  ro_prev_key :: "nat option"
  ro_next_key :: "nat option"
  ro_oid :: nat
  ro_user :: address
  ro_side :: taker_side
  ro_px :: nat
  ro_resting_sz :: nat
  ro_orig_sz :: nat
  ro_reduce_only :: bool
  ro_is_position_tpsl :: bool
  ro_tif :: insert_tif
  ro_cloid :: "128 word option"
  ro_timestamp :: nat
  ro_builder_nonce :: nat
  ro_raw_accounting_key :: nat

definition resting_order_empty :: resting_order where
  "resting_order_empty =
     \<lparr>ro_status = EmptySlot, ro_prev_key = None, ro_next_key = None, ro_oid = 0, ro_user = 0, ro_side = Buy,
      ro_px = 0, ro_resting_sz = 0, ro_orig_sz = 0, ro_reduce_only = False, ro_is_position_tpsl = False,
      ro_tif = Normal, ro_cloid = None, ro_timestamp = 0, ro_builder_nonce = 0, ro_raw_accounting_key = 0\<rparr>"

record px_level =
  pl_first_key :: "nat option"
  pl_last_key :: "nat option"
  pl_queue :: "nat list"

definition px_level_default :: px_level where
  "px_level_default = \<lparr>pl_first_key = None, pl_last_key = None, pl_queue = []\<rparr>"

record fill_record =
  fl_taker :: address
  fl_maker :: address
  fl_taker_oid :: nat
  fl_maker_oid :: nat
  fl_px :: nat
  fl_sz :: nat
  fl_ntl :: nat
  fl_taker_side :: taker_side

datatype book_event =
  Fill fill_record
| MakerUserEvent address nat nat
| RemoveOrder address nat nat
| RestOrder address nat nat nat nat
| BestBidAsk "nat option" "nat option"

record match_outcome =
  oc_status :: insert_status
  oc_remaining_sz :: nat
  oc_resting_slot :: "nat option"
  oc_fills :: "fill_record list"
  oc_events :: "book_event list"
  oc_best_bid :: "nat option"
  oc_best_ask :: "nat option"

definition outcome_error :: "insert_status \<Rightarrow> match_outcome" where
  "outcome_error status =
     \<lparr>oc_status = status, oc_remaining_sz = 0, oc_resting_slot = None, oc_fills = [], oc_events = [],
      oc_best_bid = None, oc_best_ask = None\<rparr>"

record match_result =
  mr_status :: insert_status
  mr_variant :: nat
  mr_fill :: "fill_record option"
  mr_matched_sz :: nat
  mr_remaining_requested_sz :: nat
  mr_reason :: resting_match_reason

record match_asset =
  as_tick_sz :: nat
  as_oracle_px :: nat
  as_min_order_sz :: nat
  as_max_order_sz :: nat
  as_price_limit_enabled :: bool

record match_context =
  cx_global_price_flag :: nat
  cx_timestamp_or_block :: nat
  cx_seq_or_subblock :: nat
  cx_allow_vault_self_cross :: bool
  cx_sentinel_notional_exempt_user :: "address option"

record match_book =
  mb_book_asset :: nat
  mb_local_market_id :: nat
  mb_orders :: "resting_order list"
  mb_active_oids :: "nat bset"
  mb_user_oid_index :: "(address \<times> nat, nat) btree"
  mb_user_price_qty :: "(address \<times> nat, int) btree"
  mb_bids :: "(nat, px_level) btree"
  mb_asks :: "(nat, px_level) btree"
  mb_best_bid :: "nat option"
  mb_best_ask :: "nat option"

definition match_book_default :: match_book where
  "match_book_default =
     \<lparr>mb_book_asset = 0, mb_local_market_id = 0, mb_orders = [], mb_active_oids = [], mb_user_oid_index = [],
      mb_user_price_qty = [], mb_bids = [], mb_asks = [], mb_best_bid = None, mb_best_ask = None\<rparr>"

datatype insert_flavor = IndexedPx | DirectPx | PerpDirect | PerpWrapped | SpotDirect | SpotWrapped

section \<open>Free functions\<close>

definition split_order_id :: "nat \<Rightarrow> nat \<times> nat" where
  "split_order_id oid = (oid div ASSET_DIVISOR, oid mod ASSET_DIVISOR)"

definition valid_tick :: "nat \<Rightarrow> nat \<Rightarrow> bool" where
  "valid_tick px tick \<longleftrightarrow> tick \<noteq> 0 \<and> px mod tick = 0"

definition checked_notional :: "nat \<Rightarrow> nat \<Rightarrow> nat option" where
  "checked_notional sz px =
     (case checked_mul_u64 sz px of None \<Rightarrow> None
      | Some ntl \<Rightarrow> if ntl \<le> MAX_NOTIONAL_U then Some ntl else None)"

text \<open>The casts \<open>sz as i64\<close> and the negation wrap around, as they do without overflow checks.\<close>

definition as_i64 :: "nat \<Rightarrow> int" where
  "as_i64 n = (if n < 2 ^ 63 then int n else int n - 2 ^ 64)"

definition neg_i64 :: "int \<Rightarrow> int" where
  "neg_i64 x = (if x = i64_min then i64_min else - x)"

fun signed_qty :: "taker_side \<Rightarrow> nat \<Rightarrow> int" where
  "signed_qty Buy sz = neg_i64 (as_i64 sz)"
| "signed_qty Sell sz = as_i64 sz"

fun signed_qty_side_matches :: "taker_side \<Rightarrow> int \<Rightarrow> bool" where
  "signed_qty_side_matches Buy qty = (qty < 0)"
| "signed_qty_side_matches Sell qty = (0 < qty)"

definition validate_order_sz_limits :: "match_asset \<Rightarrow> nat \<Rightarrow> insert_status + unit" where
  "validate_order_sz_limits asset sz =
     (if sz < as_min_order_sz asset \<or> as_max_order_sz asset \<noteq> 0 \<and> as_max_order_sz asset < sz
      then Inl STATUS_AVAILABLE_SIZE else Inr ())"

definition price_level_allowed :: "match_asset \<Rightarrow> taker_side \<Rightarrow> nat \<Rightarrow> nat \<Rightarrow> bool" where
  "price_level_allowed asset side px global_price_flag \<longleftrightarrow>
     \<not> as_price_limit_enabled asset \<or> global_price_flag \<noteq> 0"

definition compute_max_order_sz ::
  "match_asset \<Rightarrow> address \<Rightarrow> taker_side \<Rightarrow> nat \<Rightarrow> match_context \<Rightarrow> nat" where
  "compute_max_order_sz asset user side px ctx =
     (if as_max_order_sz asset = 0 then u64_max else as_max_order_sz asset)"

text \<open>The first of the twenty bytes of a user key is the most significant one of the word.\<close>

definition is_vault_privileged :: "address \<Rightarrow> bool" where
  "is_vault_privileged user \<longleftrightarrow> unat user div 2 ^ 152 \<noteq> 0 \<and> unat user mod 2 ^ 8 = 0"

definition both_vault_privileged :: "address \<Rightarrow> address \<Rightarrow> bool" where
  "both_vault_privileged a b \<longleftrightarrow> is_vault_privileged a \<and> is_vault_privileged b"

section \<open>Reading the book\<close>

definition side_levels :: "taker_side \<Rightarrow> match_book \<Rightarrow> (nat, px_level) btree" where
  "side_levels side b = (case side of Buy \<Rightarrow> mb_bids b | Sell \<Rightarrow> mb_asks b)"

definition set_side_levels :: "taker_side \<Rightarrow> (nat, px_level) btree \<Rightarrow> match_book \<Rightarrow> match_book" where
  "set_side_levels side lvls b =
     (case side of Buy \<Rightarrow> b\<lparr>mb_bids := lvls\<rparr> | Sell \<Rightarrow> b\<lparr>mb_asks := lvls\<rparr>)"

definition is_marketable :: "match_book \<Rightarrow> taker_side \<Rightarrow> nat \<Rightarrow> bool" where
  "is_marketable b side limit_px =
     (case side of
        Buy \<Rightarrow> (case mb_best_ask b of None \<Rightarrow> False | Some ask \<Rightarrow> ask \<le> limit_px)
      | Sell \<Rightarrow> (case mb_best_bid b of None \<Rightarrow> False | Some bid \<Rightarrow> limit_px \<le> bid))"

definition level_crosses :: "taker_side \<Rightarrow> nat \<Rightarrow> nat \<Rightarrow> bool" where
  "level_crosses side limit_px level_px =
     (case side of Buy \<Rightarrow> level_px \<le> limit_px | Sell \<Rightarrow> limit_px \<le> level_px)"

definition next_crossable_level :: "match_book \<Rightarrow> taker_side \<Rightarrow> nat \<Rightarrow> nat option" where
  "next_crossable_level b side limit_px =
     (case side of
        Buy \<Rightarrow> (case bt_first_key (mb_asks b) of None \<Rightarrow> None | Some px \<Rightarrow> if px \<le> limit_px then Some px else None)
      | Sell \<Rightarrow> (case bt_last_key (mb_bids b) of None \<Rightarrow> None | Some px \<Rightarrow> if limit_px \<le> px then Some px else None))"

definition level_queue_snapshot :: "match_book \<Rightarrow> taker_side \<Rightarrow> nat \<Rightarrow> nat list" where
  "level_queue_snapshot b side px =
     (case map_of (side_levels side b) px of None \<Rightarrow> [] | Some level \<Rightarrow> pl_queue level)"

definition is_live_order_index :: "match_book \<Rightarrow> nat \<Rightarrow> bool" where
  "is_live_order_index b i \<longleftrightarrow> i < length (mb_orders b) \<and> ro_status (mb_orders b ! i) = Occupied"

definition initial_remaining_from_user_price_qty :: "match_book \<Rightarrow> taker_args \<Rightarrow> insert_status + nat" where
  "initial_remaining_from_user_price_qty b args =
     (if \<not> ta_use_user_price_qty_lookup args
      then (if args_remaining_sz args = 0 then Inl STATUS_NO_USER_PRICE_QTY else Inr (args_remaining_sz args))
      else let signed_q = (case map_of (mb_user_price_qty b) (ta_user args, ta_oid args) of None \<Rightarrow> 0 | Some q \<Rightarrow> q)
           in if signed_q = 0 \<or> \<not> signed_qty_side_matches (ta_side args) signed_q
              then Inl STATUS_NO_USER_PRICE_QTY
              else Inr (min (unsigned_abs signed_q) (args_remaining_sz args)))"

definition validate_notional ::
  "taker_args \<Rightarrow> match_asset \<Rightarrow> nat \<Rightarrow> match_context \<Rightarrow> insert_status + unit" where
  "validate_notional args asset sz ctx =
     (case checked_notional sz (ta_limit_px args) of
        None \<Rightarrow> Inl STATUS_NOTIONAL
      | Some limit_ntl \<Rightarrow>
          (case checked_notional sz (as_oracle_px asset) of
             None \<Rightarrow> Inl STATUS_NOTIONAL
           | Some oracle_ntl \<Rightarrow>
               (if MAX_NOTIONAL_U < limit_ntl \<or> MAX_NOTIONAL_U < oracle_ntl then Inl STATUS_NOTIONAL
                else if oracle_ntl \<le> MIN_NOTIONAL_FLOOR \<and> Some (ta_user args) \<noteq> cx_sentinel_notional_exempt_user ctx
                then Inl STATUS_NOTIONAL
                else Inr ())))"

definition lookup_signed_qty_for_match ::
  "match_book \<Rightarrow> taker_args \<Rightarrow> taker_side \<Rightarrow> nat \<Rightarrow> (nat \<times> resting_match_reason) option" where
  "lookup_signed_qty_for_match b incoming resting_side requested_sz =
     (case map_of (mb_user_price_qty b) (ta_user incoming, ta_oid incoming) of
        None \<Rightarrow> None
      | Some signed_q \<Rightarrow>
          (if signed_q = 0 \<or> \<not> signed_qty_side_matches (side_opposite resting_side) signed_q then None
           else let available = min (unsigned_abs signed_q) (args_remaining_sz incoming);
                    sz = min available requested_sz;
                    reason = (if available < args_remaining_sz incoming
                              then (if requested_sz \<le> sz then SelfCrossOrVaultCross else MissingUserPriceQuantity)
                              else DirectRemainingSize)
                in Some (sz, reason)))"

definition queue_fill_record :: "taker_side \<Rightarrow> nat \<Rightarrow> nat \<Rightarrow> nat" where
  "queue_fill_record resting_side px match_sz = 0x0101"

section \<open>Changing the book\<close>

text \<open>\<open>self.orders[i]\<close> panics when the index is out of range.\<close>

definition update_order :: "nat \<Rightarrow> (resting_order \<Rightarrow> resting_order) \<Rightarrow> match_book \<Rightarrow> match_book option" where
  "update_order i f b =
     (if i < length (mb_orders b) then Some (b\<lparr>mb_orders := (mb_orders b)[i := f (mb_orders b ! i)]\<rparr>) else None)"

definition update_order_opt ::
  "nat option \<Rightarrow> (resting_order \<Rightarrow> resting_order) \<Rightarrow> match_book \<Rightarrow> match_book option" where
  "update_order_opt k f b = (case k of None \<Rightarrow> Some b | Some i \<Rightarrow> update_order i f b)"

definition apply_fill_to_resting :: "nat \<Rightarrow> nat \<Rightarrow> match_book \<Rightarrow> match_book option" where
  "apply_fill_to_resting i fill_sz b =
     update_order i (\<lambda>x. x\<lparr>ro_resting_sz := saturating_sub_u64 (ro_resting_sz x) fill_sz\<rparr>) b"

definition allocate_order_slot :: "match_book \<Rightarrow> match_book \<times> nat" where
  "allocate_order_slot b =
     (case find (\<lambda>i. ro_status (mb_orders b ! i) \<noteq> Occupied) [0..<length (mb_orders b)] of
        Some i \<Rightarrow> (b, i)
      | None \<Rightarrow> (b\<lparr>mb_orders := mb_orders b @ [resting_order_empty]\<rparr>, length (mb_orders b)))"

definition level_push :: "nat option \<Rightarrow> nat \<Rightarrow> px_level \<Rightarrow> px_level" where
  "level_push prior_last slot l =
     l\<lparr>pl_first_key := (if prior_last = None then Some slot else pl_first_key l), pl_last_key := Some slot,
       pl_queue := pl_queue l @ [slot]\<rparr>"

definition link_into_price_level :: "taker_side \<Rightarrow> nat \<Rightarrow> nat \<Rightarrow> match_book \<Rightarrow> match_book option" where
  "link_into_price_level side px slot b =
     (let prior_last = (case map_of (side_levels side b) px of None \<Rightarrow> None | Some l \<Rightarrow> pl_last_key l) in
      case update_order_opt prior_last (\<lambda>x. x\<lparr>ro_next_key := Some slot\<rparr>) b of
        None \<Rightarrow> None
      | Some b1 \<Rightarrow>
          (case (if prior_last = None then Some b1 else update_order slot (\<lambda>x. x\<lparr>ro_prev_key := prior_last\<rparr>) b1) of
             None \<Rightarrow> None
           | Some b2 \<Rightarrow>
               (let l = (case map_of (side_levels side b2) px of None \<Rightarrow> px_level_default | Some l \<Rightarrow> l)
                in Some (set_side_levels side (bt_insert px (level_push prior_last slot l) (side_levels side b2)) b2))))"

definition level_unlink :: "nat option \<Rightarrow> nat option \<Rightarrow> nat \<Rightarrow> px_level \<Rightarrow> px_level" where
  "level_unlink prev next slot l =
     l\<lparr>pl_first_key := (if pl_first_key l = Some slot then next else pl_first_key l),
       pl_last_key := (if pl_last_key l = Some slot then prev else pl_last_key l),
       pl_queue := filter (\<lambda>i. i \<noteq> slot) (pl_queue l)\<rparr>"

definition unlink_from_price_level :: "taker_side \<Rightarrow> nat \<Rightarrow> nat \<Rightarrow> match_book \<Rightarrow> match_book option" where
  "unlink_from_price_level side px slot b =
     (if \<not> slot < length (mb_orders b) then None
      else let prev = ro_prev_key (mb_orders b ! slot); next = ro_next_key (mb_orders b ! slot) in
        case update_order_opt prev (\<lambda>x. x\<lparr>ro_next_key := next\<rparr>) b of
          None \<Rightarrow> None
        | Some b1 \<Rightarrow>
            (case update_order_opt next (\<lambda>x. x\<lparr>ro_prev_key := prev\<rparr>) b1 of
               None \<Rightarrow> None
             | Some b2 \<Rightarrow>
                 (case map_of (side_levels side b2) px of
                    None \<Rightarrow> Some b2
                  | Some l \<Rightarrow>
                      (let l' = level_unlink prev next slot l
                       in Some (set_side_levels side
                            (if pl_queue l' = [] then bt_remove px (side_levels side b2)
                             else bt_insert px l' (side_levels side b2)) b2)))))"

definition remove_resting_index :: "nat \<Rightarrow> nat \<Rightarrow> match_book \<Rightarrow> (match_book \<times> book_event list) option" where
  "remove_resting_index i event_code b =
     (if \<not> is_live_order_index b i then Some (b, [])
      else let order = mb_orders b ! i in
        case unlink_from_price_level (ro_side order) (ro_px order) i b of
          None \<Rightarrow> None
        | Some b1 \<Rightarrow>
            map_option (\<lambda>b2. (b2, [RemoveOrder (ro_user order) (ro_oid order) event_code]))
              (update_order i (\<lambda>x. x\<lparr>ro_status := RemovedSlot, ro_prev_key := None, ro_next_key := None\<rparr>)
                (b1\<lparr>mb_active_oids := bs_remove (ro_oid order) (mb_active_oids b1),
                    mb_user_oid_index := bt_remove (ro_user order, ro_oid order) (mb_user_oid_index b1),
                    mb_user_price_qty := bt_remove (ro_user order, ro_oid order) (mb_user_price_qty b1)\<rparr>)))"

definition remove_empty_level :: "taker_side \<Rightarrow> nat \<Rightarrow> match_book \<Rightarrow> match_book" where
  "remove_empty_level side px b =
     (case map_of (side_levels side b) px of
        None \<Rightarrow> b
      | Some level \<Rightarrow> if pl_queue level = [] then set_side_levels side (bt_remove px (side_levels side b)) b else b)"

definition residual_order :: "taker_args \<Rightarrow> nat \<Rightarrow> resting_order" where
  "residual_order args remaining_sz =
     \<lparr>ro_status = Occupied, ro_prev_key = None, ro_next_key = None, ro_oid = ta_oid args, ro_user = ta_user args,
      ro_side = ta_side args, ro_px = ta_limit_px args, ro_resting_sz = remaining_sz, ro_orig_sz = ta_sz args,
      ro_reduce_only = ta_reduce_only args, ro_is_position_tpsl = ta_is_position_tpsl args, ro_tif = ta_tif args,
      ro_cloid = ta_cloid args, ro_timestamp = ta_timestamp args, ro_builder_nonce = ta_builder_nonce args,
      ro_raw_accounting_key = ta_raw_accounting_key args\<rparr>"

definition rest_residual_order ::
  "taker_args \<Rightarrow> nat \<Rightarrow> match_asset \<Rightarrow> match_context \<Rightarrow> match_book \<Rightarrow>
   (match_book \<times> (insert_status + nat)) option" where
  "rest_residual_order args remaining_sz asset ctx b =
     (if \<not> price_level_allowed asset (ta_side args) (ta_limit_px args) (cx_global_price_flag ctx)
      then Some (b, Inl STATUS_NO_VALID_CROSS)
      else case allocate_order_slot b of
        (b1, slot) \<Rightarrow>
          (case update_order slot (\<lambda>_. residual_order args remaining_sz) b1 of
             None \<Rightarrow> None
           | Some b2 \<Rightarrow>
               (case link_into_price_level (ta_side args) (ta_limit_px args) slot b2 of
                  None \<Rightarrow> None
                | Some b3 \<Rightarrow>
                    Some (b3\<lparr>mb_active_oids := bs_insert (ta_oid args) (mb_active_oids b3),
                              mb_user_oid_index := bt_insert (ta_user args, ta_oid args) slot (mb_user_oid_index b3),
                              mb_user_price_qty := bt_insert (ta_user args, ta_oid args)
                                (signed_qty (ta_side args) remaining_sz) (mb_user_price_qty b3)\<rparr>,
                          Inr slot))))"

definition recompute_best_bid_ask :: "match_book \<Rightarrow> match_outcome \<Rightarrow> match_book \<times> match_outcome" where
  "recompute_best_bid_ask b oc =
     (let bid = bt_last_key (mb_bids b); ask = bt_first_key (mb_asks b)
      in (b\<lparr>mb_best_bid := bid, mb_best_ask := ask\<rparr>,
          oc\<lparr>oc_best_bid := bid, oc_best_ask := ask, oc_events := oc_events oc @ [BestBidAsk bid ask]\<rparr>))"

section \<open>Matching one resting order\<close>

definition no_fill :: "insert_status \<Rightarrow> nat \<Rightarrow> resting_match_reason \<Rightarrow> match_result" where
  "no_fill status remaining reason =
     \<lparr>mr_status = status, mr_variant = 2, mr_fill = None, mr_matched_sz = 0,
      mr_remaining_requested_sz = remaining, mr_reason = reason\<rparr>"

text \<open>The size the taker brings to this match, before the caps: \<open>Inl\<close> is the early return.\<close>

definition taker_match_sz ::
  "match_book \<Rightarrow> taker_args \<Rightarrow> resting_order \<Rightarrow> nat \<Rightarrow> match_result + (nat \<times> resting_match_reason)" where
  "taker_match_sz b incoming resting requested_sz =
     (if ta_use_user_price_qty_lookup incoming
      then case lookup_signed_qty_for_match b incoming (ro_side resting) requested_sz of
             Some (sz, reason) \<Rightarrow>
               if sz \<noteq> 0 then Inr (sz, reason) else Inl (no_fill STATUS_OK requested_sz MissingUserPriceQuantity)
           | None \<Rightarrow> Inl (no_fill STATUS_OK requested_sz MissingUserPriceQuantity)
      else let sz = min (args_remaining_sz incoming) requested_sz
           in if sz = 0 then Inl (no_fill STATUS_OK requested_sz DirectRemainingSize)
              else Inr (sz, DirectRemainingSize))"

text \<open>The tail of \<open>match_resting_order\<close>: the fill record, or what the queue mask says.\<close>

definition finish_match ::
  "taker_args \<Rightarrow> resting_order \<Rightarrow> nat \<Rightarrow> nat \<Rightarrow> nat \<Rightarrow> resting_match_reason \<Rightarrow> match_result" where
  "finish_match incoming resting match_sz ntl requested_sz reason =
     (let queue_mask = queue_fill_record (ro_side resting) (ro_px resting) match_sz;
          low_set = (queue_mask mod 2 = 1); high_set = (queue_mask div 256 mod 2 = 1);
          side_set = (case ro_side resting of Buy \<Rightarrow> low_set | Sell \<Rightarrow> high_set);
          opposite_set = (case ro_side resting of Buy \<Rightarrow> high_set | Sell \<Rightarrow> low_set)
      in if low_set \<and> high_set
         then \<lparr>mr_status = STATUS_OK, mr_variant = 0,
               mr_fill = Some \<lparr>fl_taker = ta_user incoming, fl_maker = ro_user resting, fl_taker_oid = ta_oid incoming,
                 fl_maker_oid = ro_oid resting, fl_px = ro_px resting, fl_sz = match_sz, fl_ntl = ntl,
                 fl_taker_side = ta_side incoming\<rparr>,
               mr_matched_sz = match_sz, mr_remaining_requested_sz = saturating_sub_u64 requested_sz match_sz,
               mr_reason = reason\<rparr>
         else if \<not> side_set then no_fill STATUS_QUEUE_MASK 0 MakerLiquidityExhausted
         else if opposite_set then no_fill STATUS_OK requested_sz reason
         else no_fill STATUS_QUEUE_MASK 0 reason)"

definition match_resting_order ::
  "taker_args \<Rightarrow> match_context \<Rightarrow> match_asset \<Rightarrow> nat \<Rightarrow> nat \<Rightarrow> nat \<Rightarrow> match_book \<Rightarrow> match_result option" where
  "match_resting_order incoming ctx asset resting_index level_px requested_sz b =
     (if requested_sz = 0 then Some (no_fill STATUS_OK 0 DirectRemainingSize)
      else if \<not> resting_index < length (mb_orders b) then None
      else let resting = mb_orders b ! resting_index in
        if ta_user incoming = ro_user resting \<or>
           \<not> cx_allow_vault_self_cross ctx \<and> both_vault_privileged (ta_user incoming) (ro_user resting)
        then Some (no_fill STATUS_OK requested_sz SelfCrossOrVaultCross)
        else case taker_match_sz b incoming resting requested_sz of
          Inl r \<Rightarrow> Some r
        | Inr (sz, reason) \<Rightarrow>
            (let taker_cap = compute_max_order_sz asset (ta_user incoming) (ta_side incoming) level_px ctx;
                 maker_cap = compute_max_order_sz asset (ro_user resting) (ro_side resting) level_px ctx;
                 match_sz = min (min (min (min sz taker_cap) maker_cap) (ro_resting_sz resting)) requested_sz
             in if taker_cap = 0 then Some (no_fill STATUS_OK requested_sz MakerLiquidityExhausted)
                else if maker_cap = 0 then Some (no_fill STATUS_AVAILABLE_SIZE 0 MakerLiquidityExhausted)
                else if match_sz = 0 then Some (no_fill STATUS_OK requested_sz MakerLiquidityExhausted)
                else case checked_notional match_sz (ro_px resting) of
                  None \<Rightarrow> None
                | Some ntl \<Rightarrow>
                    (if ntl \<le> MAX_NOTIONAL_U then Some (finish_match incoming resting match_sz ntl requested_sz reason)
                     else None)))"

section \<open>The matching loop\<close>

record match_state =
  st_book :: match_book
  st_remaining :: nat
  st_outcome :: match_outcome

datatype loop_exit = Continue match_state | Break match_state | Return match_book match_outcome | Panicked

definition push_events :: "book_event list \<Rightarrow> match_state \<Rightarrow> match_state" where
  "push_events es st = st\<lparr>st_outcome := (st_outcome st)\<lparr>oc_events := oc_events (st_outcome st) @ es\<rparr>\<rparr>"

definition record_fill :: "nat \<Rightarrow> fill_record option \<Rightarrow> match_state \<Rightarrow> match_state option" where
  "record_fill i fill st =
     (case fill of
        None \<Rightarrow> Some st
      | Some f \<Rightarrow>
          (case apply_fill_to_resting i (fl_sz f) (st_book st) of
             None \<Rightarrow> None
           | Some b1 \<Rightarrow>
               (let oc = st_outcome st;
                    st1 = \<lparr>st_book = b1, st_remaining = saturating_sub_u64 (st_remaining st) (fl_sz f),
                           st_outcome = oc\<lparr>oc_fills := oc_fills oc @ [f], oc_events := oc_events oc @ [Fill f]\<rparr>\<rparr>
                in if ro_resting_sz (mb_orders b1 ! i) = 0
                   then map_option (\<lambda>(b2, removed). push_events removed (st1\<lparr>st_book := b2\<rparr>))
                          (remove_resting_index i 5 b1)
                   else Some st1)))"

definition maker_event :: "nat \<Rightarrow> resting_match_reason \<Rightarrow> match_state \<Rightarrow> match_state" where
  "maker_event i reason st =
     (case maker_event_code reason of
        None \<Rightarrow> st
      | Some code \<Rightarrow>
          push_events [MakerUserEvent (ro_user (mb_orders (st_book st) ! i)) (ro_oid (mb_orders (st_book st) ! i)) code] st)"

text \<open>The \<open>for\<close> loop over the snapshot of a level's queue; \<open>Continue\<close> is its normal end or a \<open>break\<close>.\<close>

fun match_queue ::
  "taker_args \<Rightarrow> match_context \<Rightarrow> match_asset \<Rightarrow> nat \<Rightarrow> nat list \<Rightarrow> match_state \<Rightarrow> loop_exit" where
  "match_queue args ctx asset level_px [] st = Continue st"
| "match_queue args ctx asset level_px (i # rest) st =
     (if st_remaining st = 0 \<or> \<not> level_crosses (ta_side args) (ta_limit_px args) level_px then Continue st
      else if \<not> is_live_order_index (st_book st) i then Panicked
      else case match_resting_order args ctx asset i level_px (st_remaining st) (st_book st) of
        None \<Rightarrow> Panicked
      | Some r \<Rightarrow>
          (case record_fill i (mr_fill r) st of
             None \<Rightarrow> Panicked
           | Some st1 \<Rightarrow>
               (let st2 = maker_event i (mr_reason r) st1 in
                if mr_status r \<noteq> STATUS_OK
                then if oc_fills (st_outcome st2) = [] then Return (st_book st2) (outcome_error (mr_status r))
                     else Continue (if 0 < mr_status r
                                    then st2\<lparr>st_outcome := (st_outcome st2)\<lparr>oc_status := mr_status r\<rparr>\<rparr> else st2)
                else match_queue args ctx asset level_px rest st2)))"

text \<open>One round of the \<open>while\<close> loop.\<close>

definition match_step :: "taker_args \<Rightarrow> match_context \<Rightarrow> match_asset \<Rightarrow> match_state \<Rightarrow> loop_exit" where
  "match_step args ctx asset st =
     (case next_crossable_level (st_book st) (ta_side args) (ta_limit_px args) of
        None \<Rightarrow> Break st
      | Some level_px \<Rightarrow>
          (if \<not> price_level_allowed asset (ta_side args) level_px (cx_global_price_flag ctx)
           then if oc_fills (st_outcome st) = [] then Return (st_book st) (outcome_error STATUS_NO_VALID_CROSS)
                else Break st
           else let opp = side_opposite (ta_side args);
                    resting_indices = level_queue_snapshot (st_book st) opp level_px
                in if resting_indices = [] then Continue (st\<lparr>st_book := remove_empty_level opp level_px (st_book st)\<rparr>)
                   else case match_queue args ctx asset level_px resting_indices st of
                     Continue st' \<Rightarrow>
                       (let st'' = st'\<lparr>st_book := remove_empty_level opp level_px (st_book st')\<rparr>
                        in if \<not> level_crosses (ta_side args) (ta_limit_px args) level_px then Break st''
                           else Continue st'')
                   | r \<Rightarrow> r))"

partial_function (option) match_loop ::
  "taker_args \<Rightarrow> match_context \<Rightarrow> match_asset \<Rightarrow> match_state \<Rightarrow> loop_exit option" where
  "match_loop args ctx asset st =
     (if st_remaining st = 0 then Some (Break st)
      else case match_step args ctx asset st of
        Continue st' \<Rightarrow> match_loop args ctx asset st'
      | Break st' \<Rightarrow> Some (Break st')
      | Return b oc \<Rightarrow> Some (Return b oc)
      | Panicked \<Rightarrow> Some Panicked)"

section \<open>Inserting an order\<close>

datatype insert_result = Inserted match_book match_outcome | InsertPanicked

definition replace_check :: "taker_args \<Rightarrow> insert_flavor \<Rightarrow> match_book \<Rightarrow> insert_status option" where
  "replace_check args flavor b =
     (case split_order_id (ta_oid args) of
        (book_asset, slot_index) \<Rightarrow>
          (if ta_is_replace args
           then if slot_index < length (mb_orders b)
                then if ro_status (mb_orders b ! slot_index) = Occupied then None
                     else if ta_replace_slot_required args then Some STATUS_SLOT_EMPTY_FOR_REPLACE
                     else Some STATUS_SLOT_MISSING
                else Some STATUS_SLOT_MISSING
           else if book_asset \<noteq> mb_book_asset b \<and> flavor \<noteq> IndexedPx then Some STATUS_INDEX_ROUTE
           else None))"

text \<open>All checks before the loop, in the order of the code; the result is the size to fill.\<close>

definition admission ::
  "taker_args \<Rightarrow> match_asset \<Rightarrow> match_context \<Rightarrow> insert_flavor \<Rightarrow> match_book \<Rightarrow> insert_status + nat" where
  "admission args asset ctx flavor b =
     (let marketable = is_marketable b (ta_side args) (ta_limit_px args) in
      if ta_oid args \<in> set (mb_active_oids b) \<or> bt_contains (mb_user_oid_index b) (ta_user args, ta_oid args)
      then Inl STATUS_DUPLICATE_ORDER
      else case replace_check args flavor b of
        Some status \<Rightarrow> Inl status
      | None \<Rightarrow>
          (if ta_tif args = AddLiquidityOnly \<and> marketable then Inl STATUS_POST_ONLY_CROSSES
           else if must_be_marketable (ta_tif args) \<and> \<not> marketable then Inl STATUS_TIF_NOT_MARKETABLE
           else if MAX_LIMIT_PX_U < ta_limit_px args \<or> \<not> valid_tick (ta_limit_px args) (as_tick_sz asset)
           then Inl STATUS_PRICE_OR_TICK
           else case initial_remaining_from_user_price_qty b args of
             Inl status \<Rightarrow> Inl status
           | Inr remaining_sz \<Rightarrow>
               (case validate_notional args asset remaining_sz ctx of
                  Inl status \<Rightarrow> Inl status
                | Inr _ \<Rightarrow>
                    (case validate_order_sz_limits asset remaining_sz of
                       Inl status \<Rightarrow> Inl status
                     | Inr _ \<Rightarrow> Inr remaining_sz))))"

text \<open>Everything after the loop: cleanup, market orders, resting the residual.\<close>

definition settle_residual ::
  "taker_args \<Rightarrow> match_asset \<Rightarrow> match_context \<Rightarrow> bool \<Rightarrow> match_state \<Rightarrow> insert_result" where
  "settle_residual args asset ctx marketable st =
     (let b = st_book st; remaining_sz = st_remaining st;
          oc = (st_outcome st)\<lparr>oc_remaining_sz := remaining_sz\<rparr>;
          finish = (\<lambda>b oc. case recompute_best_bid_ask b oc of (b', oc') \<Rightarrow> Inserted b' oc')
      in if remaining_sz = 0
         then finish b (if ta_allow_trigger_cleanup args
                        then oc\<lparr>oc_events := oc_events oc @ [RemoveOrder (ta_user args) (ta_oid args) 1]\<rparr> else oc)
         else if must_be_marketable (ta_tif args) \<or> ta_tif args = AddLiquidityOnly \<and> marketable
         then if oc_fills oc = [] then Inserted b (outcome_error STATUS_TIF_NOT_MARKETABLE) else finish b oc
         else case rest_residual_order args remaining_sz asset ctx b of
           None \<Rightarrow> InsertPanicked
         | Some (b1, Inl status) \<Rightarrow>
             if oc_fills oc = [] then Inserted b1 (outcome_error status) else finish b1 (oc\<lparr>oc_status := status\<rparr>)
         | Some (b1, Inr slot) \<Rightarrow>
             finish b1 (oc\<lparr>oc_resting_slot := Some slot,
               oc_events := oc_events oc @ [RestOrder (ro_user (mb_orders b1 ! slot)) (ro_oid (mb_orders b1 ! slot)) slot
                 (ro_px (mb_orders b1 ! slot)) (ro_resting_sz (mb_orders b1 ! slot))]\<rparr>))"

definition initial_outcome :: "match_book \<Rightarrow> nat \<Rightarrow> match_outcome" where
  "initial_outcome b remaining_sz =
     \<lparr>oc_status = STATUS_OK, oc_remaining_sz = remaining_sz, oc_resting_slot = None, oc_fills = [], oc_events = [],
      oc_best_bid = mb_best_bid b, oc_best_ask = mb_best_ask b\<rparr>"

definition insert_order_recovered ::
  "taker_args \<Rightarrow> match_asset \<Rightarrow> match_context \<Rightarrow> insert_flavor \<Rightarrow> match_book \<Rightarrow> insert_result option" where
  "insert_order_recovered args asset ctx flavor b =
     (case admission args asset ctx flavor b of
        Inl status \<Rightarrow> Some (Inserted b (outcome_error status))
      | Inr remaining_sz \<Rightarrow>
          map_option
            (\<lambda>r. case r of
               Continue st \<Rightarrow> settle_residual args asset ctx (is_marketable b (ta_side args) (ta_limit_px args)) st
             | Break st \<Rightarrow> settle_residual args asset ctx (is_marketable b (ta_side args) (ta_limit_px args)) st
             | Return b' oc \<Rightarrow> Inserted b' oc
             | Panicked \<Rightarrow> InsertPanicked)
            (match_loop args ctx asset
               \<lparr>st_book = b, st_remaining = remaining_sz, st_outcome = initial_outcome b remaining_sz\<rparr>))"

end
