(* ===== verification/Match_Invariant.thy ===== *)
theory Match_Invariant
  imports Match_Engine
begin

text \<open>
  The invariant of the matching book: the price levels list exactly the live orders of their side and
  price, no level is empty, every live order has a positive size and a bounded notional, and the stored
  keys are in range.  It is kept by filling, removing and resting an order, none of which panics.
\<close>

section \<open>Views of the orders\<close>

abbreviation live :: "match_book \<Rightarrow> nat \<Rightarrow> bool" where
  "live \<equiv> is_live_order_index"

abbreviation order_of :: "match_book \<Rightarrow> nat \<Rightarrow> resting_order" where
  "order_of b i \<equiv> mb_orders b ! i"

text \<open>The part of an order that the links do not touch.\<close>

definition core :: "resting_order \<Rightarrow> bool \<times> nat \<times> address \<times> taker_side \<times> nat \<times> nat" where
  "core x = (ro_status x = Occupied, ro_oid x, ro_user x, ro_side x, ro_px x, ro_resting_sz x)"

definition cores :: "match_book \<Rightarrow> (bool \<times> nat \<times> address \<times> taker_side \<times> nat \<times> nat) list" where
  "cores b = map core (mb_orders b)"

lemma cores_length: "cores b' = cores b \<Longrightarrow> length (mb_orders b') = length (mb_orders b)"
  by (metis cores_def length_map)

lemma cores_nth: "cores b' = cores b \<Longrightarrow> i < length (mb_orders b) \<Longrightarrow> core (order_of b' i) = core (order_of b i)"
  by (metis cores_def cores_length nth_map)

lemma core_sel:
  "core x = core y \<Longrightarrow> (ro_status x = Occupied \<longleftrightarrow> ro_status y = Occupied) \<and> ro_oid x = ro_oid y \<and> ro_user x = ro_user y \<and>
     ro_side x = ro_side y \<and> ro_px x = ro_px y \<and> ro_resting_sz x = ro_resting_sz y"
  by (simp add: core_def)

lemma live_cores: "cores b' = cores b \<Longrightarrow> live b' i \<longleftrightarrow> live b i"
  using cores_length [of b' b] cores_nth [of b' b i] core_sel [of "order_of b' i" "order_of b i"]
  by (auto simp: is_live_order_index_def)

section \<open>Keys in range\<close>

definition key_ok :: "nat \<Rightarrow> nat option \<Rightarrow> bool" where
  "key_ok n k \<longleftrightarrow> (case k of None \<Rightarrow> True | Some i \<Rightarrow> i < n)"

definition order_keys_ok :: "nat \<Rightarrow> resting_order \<Rightarrow> bool" where
  "order_keys_ok n x \<longleftrightarrow> key_ok n (ro_prev_key x) \<and> key_ok n (ro_next_key x)"

definition level_keys_ok :: "nat \<Rightarrow> px_level \<Rightarrow> bool" where
  "level_keys_ok n l \<longleftrightarrow> key_ok n (pl_first_key l) \<and> key_ok n (pl_last_key l)"

definition keys_ok :: "match_book \<Rightarrow> bool" where
  "keys_ok b \<longleftrightarrow> (\<forall>x \<in> set (mb_orders b). order_keys_ok (length (mb_orders b)) x) \<and>
     (\<forall>s px l. map_of (side_levels s b) px = Some l \<longrightarrow> level_keys_ok (length (mb_orders b)) l)"

lemma key_ok_simps [simp]: "key_ok n None" "key_ok n (Some i) \<longleftrightarrow> i < n"
  by (simp_all add: key_ok_def)

lemma key_ok_mono: "key_ok n k \<Longrightarrow> n \<le> n' \<Longrightarrow> key_ok n' k"
  by (cases k) auto

lemma keys_okD:
  assumes "keys_ok b"
  shows "i < length (mb_orders b) \<Longrightarrow> key_ok (length (mb_orders b)) (ro_prev_key (order_of b i))"
    and "i < length (mb_orders b) \<Longrightarrow> key_ok (length (mb_orders b)) (ro_next_key (order_of b i))"
    and "map_of (side_levels s b) px = Some l \<Longrightarrow> level_keys_ok (length (mb_orders b)) l"
  using assms by (auto simp: keys_ok_def order_keys_ok_def dest: nth_mem)

lemma side_levels_set [simp]:
  "side_levels s (set_side_levels s' lv b) = (if s = s' then lv else side_levels s b)"
  "mb_orders (set_side_levels s' lv b) = mb_orders b"
  "mb_user_price_qty (set_side_levels s' lv b) = mb_user_price_qty b"
  "mb_active_oids (set_side_levels s' lv b) = mb_active_oids b"
  "mb_user_oid_index (set_side_levels s' lv b) = mb_user_oid_index b"
  by (auto simp: side_levels_def set_side_levels_def split: taker_side.splits)

lemma side_levels_orders [simp]:
  "side_levels s (b\<lparr>mb_orders := x\<rparr>) = side_levels s b"
  "side_levels s (b\<lparr>mb_active_oids := a, mb_user_oid_index := u, mb_user_price_qty := q\<rparr>) = side_levels s b"
  "side_levels s (b\<lparr>mb_best_bid := bb, mb_best_ask := ba\<rparr>) = side_levels s b"
  by (cases s; simp add: side_levels_def)+

section \<open>Link updates\<close>

text \<open>An update of one order's links keeps the cores and the levels.\<close>

definition relinked :: "match_book \<Rightarrow> match_book \<Rightarrow> bool" where
  "relinked b b' \<longleftrightarrow> cores b' = cores b \<and> (\<forall>s. side_levels s b' = side_levels s b) \<and>
     (\<forall>x \<in> set (mb_orders b'). order_keys_ok (length (mb_orders b)) x)"

lemma relinked_refl: "keys_ok b \<Longrightarrow> relinked b b"
  by (simp add: relinked_def keys_ok_def)

lemma relinked_length: "relinked b b' \<Longrightarrow> length (mb_orders b') = length (mb_orders b)"
  unfolding relinked_def using cores_length by blast

lemma relinked_update:
  assumes "relinked b b'" and "key_ok (length (mb_orders b)) k" and "\<And>x. core (f x) = core x"
    and "\<And>x. order_keys_ok (length (mb_orders b)) x \<Longrightarrow> order_keys_ok (length (mb_orders b)) (f x)"
  shows "\<exists>b''. update_order_opt k f b' = Some b'' \<and> relinked b b''"
proof (cases k)
  case None
  then show ?thesis using assms(1) by (simp add: update_order_opt_def)
next
  case (Some i)
  then have i: "i < length (mb_orders b')" using assms(2) relinked_length [OF assms(1)] by simp
  let ?b = "b'\<lparr>mb_orders := (mb_orders b')[i := f (mb_orders b' ! i)]\<rparr>"
  have "cores ?b = cores b'" using i by (simp add: cores_def map_update assms(3) list_update_same_conv)
  moreover have "order_keys_ok (length (mb_orders b)) x" if "x \<in> set (mb_orders ?b)" for x
    using that assms(1,4) set_update_subset_insert [of "mb_orders b'" i "f (mb_orders b' ! i)"] nth_mem [OF i]
    by (auto simp: relinked_def)
  ultimately have "relinked b ?b" using assms(1) by (simp add: relinked_def)
  then show ?thesis using Some i by (simp add: update_order_opt_def update_order_def)
qed

section \<open>The invariant\<close>

definition levels_inv :: "match_book \<Rightarrow> bool" where
  "levels_inv b \<longleftrightarrow> (\<forall>s. bt_wf (side_levels s b)) \<and>
     (\<forall>s px l. map_of (side_levels s b) px = Some l \<longrightarrow> pl_queue l \<noteq> []) \<and>
     (\<forall>s px. distinct (level_queue_snapshot b s px)) \<and>
     (\<forall>s px i. i \<in> set (level_queue_snapshot b s px) \<longleftrightarrow>
        live b i \<and> ro_side (order_of b i) = s \<and> ro_px (order_of b i) = px)"

definition size_ok :: "match_book \<Rightarrow> nat \<Rightarrow> bool" where
  "size_ok b i \<longleftrightarrow> 0 < ro_resting_sz (order_of b i) \<and> ro_resting_sz (order_of b i) * ro_px (order_of b i) \<le> MAX_NOTIONAL_U"

definition match_inv :: "match_book \<Rightarrow> bool" where
  "match_inv b \<longleftrightarrow> levels_inv b \<and> keys_ok b \<and> (\<forall>i. live b i \<longrightarrow> size_ok b i)"

lemma levels_invD:
  assumes "levels_inv b"
  shows "bt_wf (side_levels s b)" and "map_of (side_levels s b) px = Some l \<Longrightarrow> pl_queue l \<noteq> []"
    and "distinct (level_queue_snapshot b s px)"
    and "i \<in> set (level_queue_snapshot b s px) \<longleftrightarrow> live b i \<and> ro_side (order_of b i) = s \<and> ro_px (order_of b i) = px"
  using assms by (simp_all add: levels_inv_def)

lemma levels_invI:
  assumes "\<And>s. bt_wf (side_levels s b)"
    and "\<And>s px l. map_of (side_levels s b) px = Some l \<Longrightarrow> pl_queue l \<noteq> []"
    and "\<And>s px. distinct (level_queue_snapshot b s px)"
    and "\<And>s px i. i \<in> set (level_queue_snapshot b s px) \<longleftrightarrow> live b i \<and> ro_side (order_of b i) = s \<and> ro_px (order_of b i) = px"
  shows "levels_inv b"
  using assms by (simp add: levels_inv_def)

lemma match_inv_default: "match_inv match_book_default"
  by (auto simp: match_inv_def levels_inv_def keys_ok_def match_book_default_def side_levels_def level_queue_snapshot_def
      is_live_order_index_def split: taker_side.splits)

text \<open>The invariant depends only on which orders are live, where they belong, and the levels.\<close>

lemma levels_inv_cong:
  assumes "\<And>i. live b' i \<longleftrightarrow> live b i"
    and "\<And>i. live b i \<Longrightarrow> ro_side (order_of b' i) = ro_side (order_of b i) \<and> ro_px (order_of b' i) = ro_px (order_of b i)"
    and "\<And>s. side_levels s b' = side_levels s b" and "levels_inv b"
  shows "levels_inv b'"
proof (rule levels_invI)
  have q: "level_queue_snapshot b' s px = level_queue_snapshot b s px" for s px
    by (simp add: level_queue_snapshot_def assms(3))
  fix s px i
  show "i \<in> set (level_queue_snapshot b' s px) \<longleftrightarrow> live b' i \<and> ro_side (order_of b' i) = s \<and> ro_px (order_of b' i) = px"
    unfolding q levels_invD(4) [OF assms(4)] using assms(1) [of i] assms(2) [of i] by auto
  show "distinct (level_queue_snapshot b' s px)" unfolding q by (rule levels_invD(3) [OF assms(4)])
next
  fix s show "bt_wf (side_levels s b')" unfolding assms(3) by (rule levels_invD(1) [OF assms(4)])
  fix px l assume "map_of (side_levels s b') px = Some l"
  then show "pl_queue l \<noteq> []" unfolding assms(3) by (rule levels_invD(2) [OF assms(4)])
qed

section \<open>Unlinking and removing an order\<close>

definition level_without :: "taker_side \<Rightarrow> nat \<Rightarrow> nat \<Rightarrow> match_book \<Rightarrow> match_book \<Rightarrow> bool" where
  "level_without s px i b b' \<longleftrightarrow>
     (\<forall>s'. bt_wf (side_levels s' b')) \<and> (\<forall>s' px' l. map_of (side_levels s' b') px' = Some l \<longrightarrow> pl_queue l \<noteq> []) \<and>
     (\<forall>s' px'. level_queue_snapshot b' s' px' =
        (if s' = s \<and> px' = px then filter (\<lambda>j. j \<noteq> i) (level_queue_snapshot b s px) else level_queue_snapshot b s' px'))"

lemma unlink_effect:
  assumes inv: "levels_inv b" "keys_ok b" and i: "i < length (mb_orders b)"
  obtains b' where "unlink_from_price_level s px i b = Some b'" and "cores b' = cores b" and "keys_ok b'"
    and "level_without s px i b b'"
proof -
  let ?n = "length (mb_orders b)" and ?prev = "ro_prev_key (order_of b i)" and ?next = "ro_next_key (order_of b i)"
  have ok: "key_ok ?n ?prev" "key_ok ?n ?next" using keys_okD [OF inv(2)] i by auto
  have c: "core (x\<lparr>ro_next_key := k\<rparr>) = core x" "core (x\<lparr>ro_prev_key := k\<rparr>) = core x" for x k
    by (simp_all add: core_def)
  have k: "order_keys_ok ?n (x\<lparr>ro_next_key := ?next\<rparr>)" "order_keys_ok ?n (x\<lparr>ro_prev_key := ?prev\<rparr>)"
    if "order_keys_ok ?n x" for x using that ok by (simp_all add: order_keys_ok_def)
  obtain b1 where b1: "update_order_opt ?prev (\<lambda>x. x\<lparr>ro_next_key := ?next\<rparr>) b = Some b1" "relinked b b1"
    using relinked_update [OF relinked_refl [OF inv(2)] ok(1) c(1) k(1)] by blast
  obtain b2 where b2: "update_order_opt ?next (\<lambda>x. x\<lparr>ro_prev_key := ?prev\<rparr>) b1 = Some b2" "relinked b b2"
    using relinked_update [OF b1(2) ok(2) c(2) k(2)] by blast
  have lv: "side_levels s' b2 = side_levels s' b" for s' using b2(2) by (simp add: relinked_def)
  have len: "length (mb_orders b2) = ?n" using b2(2) by (rule relinked_length)
  have keys: "\<forall>x \<in> set (mb_orders b2). order_keys_ok ?n x" using b2(2) by (simp add: relinked_def)
  have co: "cores b2 = cores b" using b2(2) by (simp add: relinked_def)
  have run: "unlink_from_price_level s px i b = (case map_of (side_levels s b) px of None \<Rightarrow> Some b2
      | Some l \<Rightarrow> (let l' = level_unlink ?prev ?next i l in Some (set_side_levels s
          (if pl_queue l' = [] then bt_remove px (side_levels s b) else bt_insert px l' (side_levels s b)) b2)))"
    using i by (simp add: unlink_from_price_level_def b1(1) b2(1) lv Let_def split: option.split)
  show thesis
  proof (cases "map_of (side_levels s b) px")
    case None
    have "level_without s px i b b2"
      using None levels_invD [OF inv(1)] by (auto simp: level_without_def lv level_queue_snapshot_def)
    moreover have "keys_ok b2" using inv(2) keys by (simp add: keys_ok_def len lv)
    ultimately show thesis using that [of b2] run None co by simp
  next
    case (Some l)
    let ?l = "level_unlink ?prev ?next i l"
    let ?b = "set_side_levels s (if pl_queue ?l = [] then bt_remove px (side_levels s b) else bt_insert px ?l (side_levels s b)) b2"
    have "level_keys_ok ?n ?l"
      using keys_okD(3) [OF inv(2) Some] ok by (simp add: level_keys_ok_def level_unlink_def)
    then have "keys_ok ?b" using inv(2) keys by (auto simp: keys_ok_def len lv split: if_splits)
    moreover have "level_without s px i b ?b"
      using Some levels_invD(1,2) [OF inv(1)] unfolding level_without_def
      by (auto simp: lv level_queue_snapshot_def level_unlink_def split: if_splits)
    moreover have "cores ?b = cores b" using co by (simp add: cores_def)
    ultimately show thesis using that [of ?b] run Some by (simp add: Let_def)
  qed
qed

definition live_total :: "match_book \<Rightarrow> nat" where
  "live_total b = sum_list (map (\<lambda>x. if ro_status x = Occupied then ro_resting_sz x else 0) (mb_orders b))"

lemma live_total_cores: "live_total b = sum_list (map (\<lambda>(l, _, _, _, _, sz). if l then sz else 0) (cores b))"
  by (simp add: live_total_def cores_def core_def comp_def)

lemma sum_list_update_nat:
  "i < length xs \<Longrightarrow> sum_list (xs[i := v]) + xs ! i = sum_list xs + (v :: nat)"
  by (induction xs arbitrary: i) (auto split: nat.splits)

text \<open>What filling or removing an order leaves: every order but this one keeps its core.\<close>

definition same_except :: "nat \<Rightarrow> match_book \<Rightarrow> match_book \<Rightarrow> bool" where
  "same_except i b b' \<longleftrightarrow> length (mb_orders b') = length (mb_orders b) \<and>
     (\<forall>j. j < length (mb_orders b) \<longrightarrow> j \<noteq> i \<longrightarrow> core (order_of b' j) = core (order_of b j))"

lemma remove_effect:
  assumes inv: "levels_inv b" "keys_ok b" and i: "live b i"
  obtains b' where "remove_resting_index i code b = Some (b', [RemoveOrder (ro_user (order_of b i)) (ro_oid (order_of b i)) code])"
    and "levels_inv b'" and "keys_ok b'" and "same_except i b b'" and "\<not> live b' i"
    and "level_without (ro_side (order_of b i)) (ro_px (order_of b i)) i b b'"
    and "live_total b' + ro_resting_sz (order_of b i) = live_total b"
proof -
  let ?o = "order_of b i" and ?n = "length (mb_orders b)"
  have n: "i < ?n" using i by (simp add: is_live_order_index_def)
  obtain b1 where b1: "unlink_from_price_level (ro_side ?o) (ro_px ?o) i b = Some b1" "cores b1 = cores b" "keys_ok b1"
    "level_without (ro_side ?o) (ro_px ?o) i b b1" using unlink_effect [OF inv n] .
  have len: "length (mb_orders b1) = ?n" using b1(2) by (rule cores_length)
  let ?f = "\<lambda>x. x\<lparr>ro_status := RemovedSlot, ro_prev_key := None, ro_next_key := None\<rparr>"
  define b' where "b' = b1\<lparr>mb_active_oids := bs_remove (ro_oid ?o) (mb_active_oids b1),
      mb_user_oid_index := bt_remove (ro_user ?o, ro_oid ?o) (mb_user_oid_index b1),
      mb_user_price_qty := bt_remove (ro_user ?o, ro_oid ?o) (mb_user_price_qty b1),
      mb_orders := (mb_orders b1)[i := ?f (order_of b1 i)]\<rparr>"
  have lv: "side_levels s b' = side_levels s b1" for s by (cases s) (simp_all add: b'_def side_levels_def)
  have orders: "mb_orders b' = (mb_orders b1)[i := ?f (order_of b1 i)]" by (simp add: b'_def)
  have run: "remove_resting_index i code b = Some (b', [RemoveOrder (ro_user ?o) (ro_oid ?o) code])"
    using i n b1(1) len by (simp add: remove_resting_index_def Let_def update_order_def b'_def)
  have same: "same_except i b b'"
    using cores_nth [OF b1(2)] by (simp add: same_except_def orders len)
  have dead: "\<not> live b' i" using n len by (simp add: is_live_order_index_def orders)
  have without: "level_without (ro_side ?o) (ro_px ?o) i b b'"
    using b1(4) by (simp add: level_without_def lv level_queue_snapshot_def)
  have "order_keys_ok ?n x" if "x \<in> set (mb_orders b')" for x
    using that b1(3) len set_update_subset_insert [of "mb_orders b1" i "?f (order_of b1 i)"]
    by (auto simp: orders keys_ok_def order_keys_ok_def)
  then have keys: "keys_ok b'" using b1(3) len by (simp add: keys_ok_def lv orders)
  have other: "live b' j \<longleftrightarrow> live b j" "live b j \<Longrightarrow> core (order_of b' j) = core (order_of b j)" if "j \<noteq> i" for j
    using same that core_sel [of "order_of b' j" "order_of b j"] by (auto simp: same_except_def is_live_order_index_def)
  have "levels_inv b'"
  proof (rule levels_invI)
    fix s px j
    show "bt_wf (side_levels s b')" using without by (simp add: level_without_def)
    show "pl_queue l \<noteq> []" if "map_of (side_levels s b') px = Some l" for l
      using without that by (auto simp: level_without_def)
    show "distinct (level_queue_snapshot b' s px)" using without levels_invD(3) [OF inv(1)] by (simp add: level_without_def)
    show "j \<in> set (level_queue_snapshot b' s px) \<longleftrightarrow> live b' j \<and> ro_side (order_of b' j) = s \<and> ro_px (order_of b' j) = px"
    proof (cases "j = i")
      case True
      have "i \<notin> set (level_queue_snapshot b' s px)"
        using without levels_invD(4) [OF inv(1)] by (auto simp: level_without_def)
      then show ?thesis using True dead by simp
    next
      case False
      have "j \<in> set (level_queue_snapshot b' s px) \<longleftrightarrow> j \<in> set (level_queue_snapshot b s px)"
        using without False by (simp add: level_without_def)
      also have "\<dots> \<longleftrightarrow> live b j \<and> ro_side (order_of b j) = s \<and> ro_px (order_of b j) = px" by (rule levels_invD(4) [OF inv(1)])
      also have "\<dots> \<longleftrightarrow> live b' j \<and> ro_side (order_of b' j) = s \<and> ro_px (order_of b' j) = px"
        using other [OF False] core_sel by metis
      finally show ?thesis .
    qed
  qed
  moreover have "live_total b' + ro_resting_sz ?o = live_total b"
  proof -
    let ?w = "\<lambda>x. if ro_status x = Occupied then ro_resting_sz x else 0"
    have eq: "live_total b1 = live_total b" by (simp add: live_total_cores b1(2))
    have "core (order_of b1 i) = core ?o" using cores_nth [OF b1(2) n] .
    then have "?w (order_of b1 i) = ro_resting_sz ?o" using i core_sel [of "order_of b1 i" ?o] by (simp add: is_live_order_index_def)
    moreover have "live_total b' = sum_list ((map ?w (mb_orders b1))[i := 0])"
      by (simp add: live_total_def orders map_update)
    ultimately show ?thesis
      using sum_list_update_nat [of i "map ?w (mb_orders b1)" 0] n len eq by (simp add: live_total_def)
  qed
  ultimately show thesis using that run keys same dead without by blast
qed

section \<open>Filling an order\<close>

text \<open>Matching only shrinks the book: it creates no order and moves none.\<close>

definition shrinks :: "match_book \<Rightarrow> match_book \<Rightarrow> bool" where
  "shrinks b b' \<longleftrightarrow> (\<forall>i. live b' i \<longrightarrow> live b i \<and> ro_oid (order_of b' i) = ro_oid (order_of b i) \<and>
     ro_user (order_of b' i) = ro_user (order_of b i) \<and> ro_side (order_of b' i) = ro_side (order_of b i) \<and>
     ro_px (order_of b' i) = ro_px (order_of b i) \<and> ro_resting_sz (order_of b' i) \<le> ro_resting_sz (order_of b i))"

lemma shrinks_refl [simp]: "shrinks b b"
  by (simp add: shrinks_def)

lemma shrinks_trans: "shrinks b b' \<Longrightarrow> shrinks b' b'' \<Longrightarrow> shrinks b b''"
  unfolding shrinks_def by (intro allI impI, elim allE, drule (1) mp, elim conjE, drule (1) mp) auto

lemma fill_effect:
  assumes inv: "match_inv b" and i: "live b i" and sz: "sz \<le> ro_resting_sz (order_of b i)"
  obtains b' where "apply_fill_to_resting i sz b = Some b'" and "levels_inv b'" and "keys_ok b'" and "shrinks b b'"
    and "\<And>j. live b' j \<longleftrightarrow> live b j" and "\<And>j. j \<noteq> i \<Longrightarrow> order_of b' j = order_of b j"
    and "ro_resting_sz (order_of b' i) = ro_resting_sz (order_of b i) - sz" and "ro_px (order_of b' i) = ro_px (order_of b i)"
    and "live_total b' + sz = live_total b" and "\<And>s px. level_queue_snapshot b' s px = level_queue_snapshot b s px"
proof -
  let ?f = "\<lambda>x. x\<lparr>ro_resting_sz := saturating_sub_u64 (ro_resting_sz x) sz\<rparr>"
  define b' where "b' = b\<lparr>mb_orders := (mb_orders b)[i := ?f (order_of b i)]\<rparr>"
  have n: "i < length (mb_orders b)" using i by (simp add: is_live_order_index_def)
  have orders: "mb_orders b' = (mb_orders b)[i := ?f (order_of b i)]" and lv: "side_levels s b' = side_levels s b" for s
    by (simp_all add: b'_def)
  have live: "live b' j \<longleftrightarrow> live b j" for j using i n by (cases "j = i") (auto simp: is_live_order_index_def orders)
  have nth: "order_of b' i = ?f (order_of b i)" "j \<noteq> i \<Longrightarrow> order_of b' j = order_of b j" for j
    using n by (simp_all add: orders)
  have place: "ro_side (order_of b' j) = ro_side (order_of b j) \<and> ro_px (order_of b' j) = ro_px (order_of b j)" for j
    by (cases "j = i") (simp_all add: nth)
  have "levels_inv b'" using inv by (intro levels_inv_cong [OF live place lv]) (simp add: match_inv_def)
  moreover have "keys_ok b'"
    using inv n set_update_subset_insert [of "mb_orders b" i "?f (order_of b i)"] nth_mem [OF n]
    by (auto simp: match_inv_def keys_ok_def orders lv order_keys_ok_def)
  moreover have "shrinks b b'"
    unfolding shrinks_def
  proof (intro allI impI)
    fix j assume "live b' j"
    then show "live b j \<and> ro_oid (order_of b' j) = ro_oid (order_of b j) \<and>
     ro_user (order_of b' j) = ro_user (order_of b j) \<and> ro_side (order_of b' j) = ro_side (order_of b j) \<and>
     ro_px (order_of b' j) = ro_px (order_of b j) \<and> ro_resting_sz (order_of b' j) \<le> ro_resting_sz (order_of b j)"
      by (cases "j = i") (simp_all add: live nth saturating_sub_u64_def)
  qed
  moreover have "live_total b' + sz = live_total b"
  proof -
    let ?w = "\<lambda>x. if ro_status x = Occupied then ro_resting_sz x else 0"
    have "live_total b' = sum_list ((map ?w (mb_orders b))[i := ro_resting_sz (order_of b i) - sz])"
      using i by (simp add: live_total_def orders map_update saturating_sub_u64_def is_live_order_index_def)
    then show ?thesis
      using sum_list_update_nat [of i "map ?w (mb_orders b)" "ro_resting_sz (order_of b i) - sz"] n sz i
      by (simp add: live_total_def is_live_order_index_def)
  qed
  moreover have "apply_fill_to_resting i sz b = Some b'"
    using n by (simp add: apply_fill_to_resting_def update_order_def b'_def)
  ultimately show thesis
    using that live nth place by (simp add: saturating_sub_u64_def level_queue_snapshot_def lv)
qed

lemma remove_shrinks:
  assumes "same_except i b b'" and "\<not> live b' i"
  shows "shrinks b b'" and "j \<noteq> i \<Longrightarrow> live b j \<Longrightarrow> live b' j \<and> core (order_of b' j) = core (order_of b j)"
proof -
  have same: "core (order_of b' j) = core (order_of b j)" if "j \<noteq> i" "j < length (mb_orders b)" for j
    using assms(1) that by (simp add: same_except_def)
  have len: "length (mb_orders b') = length (mb_orders b)" using assms(1) by (simp add: same_except_def)
  show "shrinks b b'"
    unfolding shrinks_def
  proof (intro allI impI)
    fix j assume j: "live b' j"
    then have "j \<noteq> i" "j < length (mb_orders b)" using assms(2) len by (auto simp: is_live_order_index_def)
    from core_sel [OF same [OF this]] j len show "live b j \<and> ro_oid (order_of b' j) = ro_oid (order_of b j) \<and>
     ro_user (order_of b' j) = ro_user (order_of b j) \<and> ro_side (order_of b' j) = ro_side (order_of b j) \<and>
     ro_px (order_of b' j) = ro_px (order_of b j) \<and> ro_resting_sz (order_of b' j) \<le> ro_resting_sz (order_of b j)"
      by (simp add: is_live_order_index_def)
  qed
  show "live b' j \<and> core (order_of b' j) = core (order_of b j)" if "j \<noteq> i" "live b j"
  proof -
    have "j < length (mb_orders b)" using that by (simp add: is_live_order_index_def)
    then have c: "core (order_of b' j) = core (order_of b j)" using same that(1) by blast
    from c core_sel [OF c] that(2) len show ?thesis by (simp add: is_live_order_index_def)
  qed
qed

lemma record_fill_effect:
  assumes inv: "match_inv (st_book st)" and i: "live (st_book st) i"
    and sz: "0 < fl_sz f" "fl_sz f \<le> ro_resting_sz (order_of (st_book st) i)"
  obtains st' where "record_fill i (Some f) st = Some st'" and "match_inv (st_book st')"
    and "shrinks (st_book st) (st_book st')" and "\<And>j. j \<noteq> i \<Longrightarrow> live (st_book st) j \<Longrightarrow> live (st_book st') j"
    and "oc_fills (st_outcome st') = oc_fills (st_outcome st) @ [f]" and "oc_status (st_outcome st') = oc_status (st_outcome st)"
    and "oc_resting_slot (st_outcome st') = oc_resting_slot (st_outcome st)"
    and "st_remaining st' = st_remaining st - fl_sz f" and "live_total (st_book st') + fl_sz f = live_total (st_book st)"
proof -
  let ?b = "st_book st" and ?oc = "st_outcome st"
  obtain b1 where b1: "apply_fill_to_resting i (fl_sz f) ?b = Some b1" "levels_inv b1" "keys_ok b1" "shrinks ?b b1"
    "\<And>j. live b1 j \<longleftrightarrow> live ?b j" "\<And>j. j \<noteq> i \<Longrightarrow> order_of b1 j = order_of ?b j"
    "ro_resting_sz (order_of b1 i) = ro_resting_sz (order_of ?b i) - fl_sz f" "ro_px (order_of b1 i) = ro_px (order_of ?b i)"
    "live_total b1 + fl_sz f = live_total ?b"
    using fill_effect [OF inv i sz(2)] by metis
  define st1 where "st1 = \<lparr>st_book = b1, st_remaining = saturating_sub_u64 (st_remaining st) (fl_sz f),
      st_outcome = ?oc\<lparr>oc_fills := oc_fills ?oc @ [f], oc_events := oc_events ?oc @ [Fill f]\<rparr>\<rparr>"
  have run: "record_fill i (Some f) st = (if ro_resting_sz (order_of b1 i) = 0
      then map_option (\<lambda>(b2, removed). push_events removed (st1\<lparr>st_book := b2\<rparr>)) (remove_resting_index i 5 b1) else Some st1)"
    by (simp add: record_fill_def b1(1) Let_def st1_def)
  have sizes: "size_ok ?b j" if "live ?b j" for j using inv that by (simp add: match_inv_def)
  have b1_sizes: "size_ok b1 j" if "live ?b j" "j \<noteq> i \<or> ro_resting_sz (order_of b1 i) \<noteq> 0" for j
  proof (cases "j = i")
    case True
    have "ro_resting_sz (order_of b1 i) * ro_px (order_of b1 i) \<le> ro_resting_sz (order_of ?b i) * ro_px (order_of ?b i)"
      unfolding b1(7,8) by (intro mult_le_mono1) simp
    then show ?thesis using sizes [OF i] that(2) True by (simp add: size_ok_def)
  next
    case False
    then show ?thesis using sizes [OF that(1)] b1(6) by (simp add: size_ok_def)
  qed
  have st1: "oc_fills (st_outcome st1) = oc_fills ?oc @ [f]" "oc_status (st_outcome st1) = oc_status ?oc"
    "oc_resting_slot (st_outcome st1) = oc_resting_slot ?oc" "st_remaining st1 = st_remaining st - fl_sz f" "st_book st1 = b1"
    by (simp_all add: st1_def saturating_sub_u64_def)
  show thesis
  proof (cases "ro_resting_sz (order_of b1 i) = 0")
    case False
    then have "match_inv b1" using b1(2,3,5) b1_sizes by (simp add: match_inv_def)
    then show thesis using that [of st1] run False st1 b1 by simp
  next
    case True
    have li: "live b1 i" using b1(5) i by simp
    obtain b2 where b2: "remove_resting_index i 5 b1 = Some (b2, [RemoveOrder (ro_user (order_of b1 i)) (ro_oid (order_of b1 i)) 5])"
      "levels_inv b2" "keys_ok b2" "same_except i b1 b2" "\<not> live b2 i"
      "live_total b2 + ro_resting_sz (order_of b1 i) = live_total b1"
      using remove_effect [OF b1(2,3) li] by metis
    note rs = remove_shrinks [OF b2(4,5)]
    have "size_ok b2 j" if "live b2 j" for j
    proof -
      have ji: "j \<noteq> i" using that b2(5) by auto
      have l1: "live b1 j" using rs(1) that by (simp add: shrinks_def)
      have "core (order_of b2 j) = core (order_of b1 j)" using rs(2) [OF ji l1] by simp
      from core_sel [OF this] b1_sizes [of j] ji l1 b1(5) show ?thesis by (simp add: size_ok_def)
    qed
    then have "match_inv b2" using b2(2,3) by (simp add: match_inv_def)
    moreover have "shrinks ?b b2" using b1(4) rs(1) by (rule shrinks_trans)
    moreover have "live b2 j" if "j \<noteq> i" "live ?b j" for j using rs(2) that b1(5) by simp
    ultimately show thesis
      using that [of "push_events [RemoveOrder (ro_user (order_of b1 i)) (ro_oid (order_of b1 i)) 5] (st1\<lparr>st_book := b2\<rparr>)"]
        run True b2(1,6) st1 b1(9) by (simp add: push_events_def)
  qed
qed

section \<open>Resting the residual\<close>

lemma alloc_effect:
  assumes "allocate_order_slot b = (b1, slot)" and keys: "keys_ok b"
  shows "slot < length (mb_orders b1)" and "\<not> live b slot" and "length (mb_orders b) \<le> length (mb_orders b1)"
    and "\<And>j. live b1 j \<longleftrightarrow> live b j" and "\<And>j. live b j \<Longrightarrow> order_of b1 j = order_of b j"
    and "\<And>s. side_levels s b1 = side_levels s b" and "live_total b1 = live_total b" and "keys_ok b1"
proof -
  show "slot < length (mb_orders b1)" "\<not> live b slot" "length (mb_orders b) \<le> length (mb_orders b1)"
    "\<And>j. live b j \<Longrightarrow> order_of b1 j = order_of b j" "\<And>s. side_levels s b1 = side_levels s b" "live_total b1 = live_total b"
    using assms(1)
    by (auto simp: allocate_order_slot_def find_Some_iff is_live_order_index_def nth_append live_total_def
        resting_order_empty_def split: option.splits)
  show "live b1 j \<longleftrightarrow> live b j" for j
    using assms(1)
    by (auto simp: allocate_order_slot_def is_live_order_index_def nth_append resting_order_empty_def less_Suc_eq split: option.splits)
  show "keys_ok b1"
    using assms key_ok_mono [of "length (mb_orders b)" _ "Suc (length (mb_orders b))"]
    by (auto simp: allocate_order_slot_def keys_ok_def order_keys_ok_def level_keys_ok_def resting_order_empty_def split: option.splits)
qed

lemma link_effect:
  assumes keys: "keys_ok b" and slot: "slot < length (mb_orders b)" and wf: "\<And>s'. bt_wf (side_levels s' b)"
  obtains b' where "link_into_price_level s px slot b = Some b'" and "cores b' = cores b" and "keys_ok b'"
    and "\<And>s'. bt_wf (side_levels s' b')"
    and "\<And>s' px'. level_queue_snapshot b' s' px' =
       (if s' = s \<and> px' = px then level_queue_snapshot b s px @ [slot] else level_queue_snapshot b s' px')"
    and "\<And>s' px' l. map_of (side_levels s' b') px' = Some l \<Longrightarrow> pl_queue l \<noteq> [] \<or> map_of (side_levels s' b) px' = Some l"
proof -
  let ?n = "length (mb_orders b)"
  define last where "last = (case map_of (side_levels s b) px of None \<Rightarrow> None | Some l \<Rightarrow> pl_last_key l)"
  have ok: "key_ok ?n last"
    using keys_okD(3) [OF keys, of s px] by (auto simp: last_def level_keys_ok_def split: option.split)
  have c: "core (x\<lparr>ro_next_key := k\<rparr>) = core x" "core (x\<lparr>ro_prev_key := k\<rparr>) = core x" for x k
    by (simp_all add: core_def)
  have k: "order_keys_ok ?n (x\<lparr>ro_next_key := Some slot\<rparr>)" "order_keys_ok ?n (x\<lparr>ro_prev_key := last\<rparr>)"
    if "order_keys_ok ?n x" for x using that ok slot by (simp_all add: order_keys_ok_def)
  obtain b1 where b1: "update_order_opt last (\<lambda>x. x\<lparr>ro_next_key := Some slot\<rparr>) b = Some b1" "relinked b b1"
    using relinked_update [OF relinked_refl [OF keys] ok c(1) k(1)] by blast
  have slot': "key_ok ?n (Some slot)" using slot by simp
  obtain b2 where b2: "(if last = None then Some b1 else update_order slot (\<lambda>x. x\<lparr>ro_prev_key := last\<rparr>) b1) = Some b2" "relinked b b2"
    using relinked_update [OF b1(2) slot' c(2) k(2)] b1(2) by (cases "last = None") (auto simp: update_order_opt_def)
  have lv: "side_levels s' b2 = side_levels s' b" for s' using b2(2) by (simp add: relinked_def)
  have len: "length (mb_orders b2) = ?n" using b2(2) by (rule relinked_length)
  have keys2: "\<forall>x \<in> set (mb_orders b2). order_keys_ok ?n x" and co: "cores b2 = cores b"
    using b2(2) by (simp_all add: relinked_def)
  let ?l = "case map_of (side_levels s b) px of None \<Rightarrow> px_level_default | Some l \<Rightarrow> l"
  define b' where "b' = set_side_levels s (bt_insert px (level_push last slot ?l) (side_levels s b)) b2"
  have run: "link_into_price_level s px slot b = Some b'"
    unfolding link_into_price_level_def Let_def last_def [symmetric] using b1(1) b2(1) by (simp add: lv b'_def)
  have lok: "level_keys_ok ?n (level_push last slot ?l)"
    using keys_okD(3) [OF keys, of s px] slot
    by (auto simp: level_push_def level_keys_ok_def px_level_default_def split: option.split)
  have "keys_ok b'" using keys keys2 lok by (auto simp: keys_ok_def len lv b'_def split: if_splits)
  moreover have "cores b' = cores b" using co by (simp add: cores_def b'_def)
  moreover have "bt_wf (side_levels s' b')" for s' using wf by (simp add: b'_def lv)
  moreover have "level_queue_snapshot b' s' px' =
       (if s' = s \<and> px' = px then level_queue_snapshot b s px @ [slot] else level_queue_snapshot b s' px')" for s' px'
    by (simp add: level_queue_snapshot_def b'_def lv level_push_def px_level_default_def split: option.split)
  moreover have "pl_queue l \<noteq> [] \<or> map_of (side_levels s' b) px' = Some l" if "map_of (side_levels s' b') px' = Some l" for s' px' l
    using that by (auto simp: b'_def lv level_push_def split: if_splits)
  ultimately show thesis using that run by blast
qed

definition rests :: "taker_args \<Rightarrow> nat \<Rightarrow> nat \<Rightarrow> match_book \<Rightarrow> match_book \<Rightarrow> bool" where
  "rests args sz slot b b' \<longleftrightarrow> \<not> live b slot \<and> live b' slot \<and> core (order_of b' slot) = core (residual_order args sz) \<and>
     (\<forall>j. j \<noteq> slot \<longrightarrow> (live b' j \<longleftrightarrow> live b j) \<and> (live b j \<longrightarrow> core (order_of b' j) = core (order_of b j))) \<and>
     level_queue_snapshot b' (ta_side args) (ta_limit_px args) = level_queue_snapshot b (ta_side args) (ta_limit_px args) @ [slot]"

lemma rest_effect:
  assumes inv: "match_inv b" and "\<not> as_price_limit_enabled asset \<or> cx_global_price_flag ctx \<noteq> 0"
    and sz: "0 < sz" "sz * ta_limit_px args \<le> MAX_NOTIONAL_U"
  obtains b' slot where "rest_residual_order args sz asset ctx b = Some (b', Inr slot)" and "match_inv b'"
    and "rests args sz slot b b'" and "live_total b' = live_total b + sz"
proof -
  let ?s = "ta_side args" and ?px = "ta_limit_px args" and ?r = "residual_order args sz"
  have li: "levels_inv b" and keys: "keys_ok b" using inv by (simp_all add: match_inv_def)
  obtain b1 slot where al: "allocate_order_slot b = (b1, slot)" by force
  note a = alloc_effect [OF al keys]
  define b2 where "b2 = b1\<lparr>mb_orders := (mb_orders b1)[slot := ?r]\<rparr>"
  have up: "update_order slot (\<lambda>_. ?r) b1 = Some b2" using a(1) by (simp add: update_order_def b2_def)
  have lv2: "side_levels s b2 = side_levels s b" for s by (simp add: b2_def a(6))
  have len2: "length (mb_orders b2) = length (mb_orders b1)" by (simp add: b2_def)
  have keys2: "keys_ok b2"
    using a(8) set_update_subset_insert [of "mb_orders b1" slot ?r]
    by (auto simp: keys_ok_def b2_def order_keys_ok_def residual_order_def)
  obtain b3 where b3: "link_into_price_level ?s ?px slot b2 = Some b3" "cores b3 = cores b2" "keys_ok b3"
    "\<And>s. bt_wf (side_levels s b3)"
    "\<And>s px. level_queue_snapshot b3 s px = (if s = ?s \<and> px = ?px then level_queue_snapshot b2 ?s ?px @ [slot] else level_queue_snapshot b2 s px)"
    "\<And>s px l. map_of (side_levels s b3) px = Some l \<Longrightarrow> pl_queue l \<noteq> [] \<or> map_of (side_levels s b2) px = Some l"
    using link_effect [OF keys2, of slot] a(1) len2 levels_invD(1) [OF li] lv2 by metis
  define b' where "b' = b3\<lparr>mb_active_oids := bs_insert (ta_oid args) (mb_active_oids b3),
      mb_user_oid_index := bt_insert (ta_user args, ta_oid args) slot (mb_user_oid_index b3),
      mb_user_price_qty := bt_insert (ta_user args, ta_oid args) (signed_qty ?s sz) (mb_user_price_qty b3)\<rparr>"
  have run: "rest_residual_order args sz asset ctx b = Some (b', Inr slot)"
    using assms(2) al up b3(1) by (simp add: rest_residual_order_def price_level_allowed_def b'_def)
  have lv: "side_levels s b' = side_levels s b3" and orders: "mb_orders b' = mb_orders b3" for s by (simp_all add: b'_def)
  have snap2: "level_queue_snapshot b2 s px = level_queue_snapshot b s px" for s px by (simp add: level_queue_snapshot_def lv2)
  have snap: "level_queue_snapshot b' s px = (if s = ?s \<and> px = ?px then level_queue_snapshot b s px @ [slot] else level_queue_snapshot b s px)" for s px
    using b3(5) [of s px] by (simp add: level_queue_snapshot_def lv lv2)
  have co: "cores b' = cores b2" using b3(2) by (simp add: cores_def orders)
  have core': "core (order_of b' j) = core (order_of b2 j)" if "j < length (mb_orders b2)" for j using cores_nth [OF co that] .
  have live': "live b' j \<longleftrightarrow> live b2 j" for j using live_cores [OF co] .
  have at: "live b' slot" "core (order_of b' slot) = core ?r"
    unfolding live' using core' [of slot] a(1) len2 by (simp_all add: is_live_order_index_def b2_def residual_order_def)
  have other: "(live b' j \<longleftrightarrow> live b j) \<and> (live b j \<longrightarrow> core (order_of b' j) = core (order_of b j))" if "j \<noteq> slot" for j
  proof -
    have "live b2 j \<longleftrightarrow> live b1 j" using that by (simp add: is_live_order_index_def b2_def)
    then have "live b' j \<longleftrightarrow> live b j" using live' a(4) by simp
    moreover have "core (order_of b' j) = core (order_of b j)" if l: "live b j"
    proof -
      have "j < length (mb_orders b2)" using l a(4) [of j] len2 by (simp add: is_live_order_index_def)
      from core' [OF this] a(5) [OF l] \<open>j \<noteq> slot\<close> show ?thesis by (simp add: b2_def)
    qed
    ultimately show ?thesis by blast
  qed
  have "levels_inv b'"
  proof (rule levels_invI)
    fix s px j
    show "bt_wf (side_levels s b')" unfolding lv by (rule b3(4))
    show "pl_queue l \<noteq> []" if "map_of (side_levels s b') px = Some l" for l
      using b3(6) [of s px l] that levels_invD(2) [OF li, of s px l] by (auto simp: lv lv2)
    have "slot \<notin> set (level_queue_snapshot b s px)" using a(2) levels_invD(4) [OF li, of slot s px] by blast
    then show "distinct (level_queue_snapshot b' s px)" using levels_invD(3) [OF li, of s px] by (auto simp: snap)
    show "j \<in> set (level_queue_snapshot b' s px) \<longleftrightarrow> live b' j \<and> ro_side (order_of b' j) = s \<and> ro_px (order_of b' j) = px"
    proof (cases "j = slot")
      case True
      then show ?thesis
        using at core_sel [OF at(2)] \<open>slot \<notin> set (level_queue_snapshot b s px)\<close> by (auto simp: snap residual_order_def)
    next
      case False
      have "j \<in> set (level_queue_snapshot b' s px) \<longleftrightarrow> j \<in> set (level_queue_snapshot b s px)" using False by (simp add: snap)
      then show ?thesis using levels_invD(4) [OF li, of j s px] other [OF False] core_sel by metis
    qed
  qed
  moreover have "keys_ok b'" using b3(3) by (simp add: keys_ok_def lv orders)
  moreover have "size_ok b' j" if "live b' j" for j
  proof (cases "j = slot")
    case True
    then show ?thesis using core_sel [OF at(2)] sz by (simp add: size_ok_def residual_order_def)
  next
    case False
    then have "live b j" "core (order_of b' j) = core (order_of b j)" using other that by blast+
    then show ?thesis using core_sel [of "order_of b' j" "order_of b j"] inv by (simp add: match_inv_def size_ok_def)
  qed
  moreover have "rests args sz slot b b'" using a(2) at other snap by (simp add: rests_def)
  moreover have "live_total b' = live_total b + sz"
  proof -
    let ?w = "\<lambda>x. if ro_status x = Occupied then ro_resting_sz x else 0"
    have "live_total b' = live_total b2" by (simp add: live_total_cores co)
    also have "\<dots> = sum_list ((map ?w (mb_orders b1))[slot := sz])"
      by (simp add: live_total_def b2_def map_update residual_order_def)
    also have "\<dots> = live_total b1 + sz"
    proof -
      have "ro_status (order_of b1 slot) \<noteq> Occupied" using a(1,2) a(4) [of slot] unfolding is_live_order_index_def by blast
      then show ?thesis using sum_list_update_nat [of slot "map ?w (mb_orders b1)" sz] a(1) by (simp add: live_total_def)
    qed
    finally show ?thesis by (simp add: a(7))
  qed
  ultimately show thesis using that [OF run] by (simp add: match_inv_def)
qed

end
