(* ===== verification/Match_Loop.thy ===== *)
theory Match_Loop
  imports Match_Invariant
begin

text \<open>
  The matching loop: what one match, one queue and one level do, what a returning loop guarantees, that
  it returns unless the taker meets its own (or a fellow vault's) orders, and that it never returns when
  the best level holds nothing else.
\<close>

section \<open>One match\<close>

definition self_cross :: "taker_args \<Rightarrow> match_context \<Rightarrow> resting_order \<Rightarrow> bool" where
  "self_cross args ctx x \<longleftrightarrow> ta_user args = ro_user x \<or>
     \<not> cx_allow_vault_self_cross ctx \<and> both_vault_privileged (ta_user args) (ro_user x)"

definition fill_of :: "taker_args \<Rightarrow> resting_order \<Rightarrow> fill_record \<Rightarrow> bool" where
  "fill_of args x f \<longleftrightarrow> fl_taker f = ta_user args \<and> fl_taker_oid f = ta_oid args \<and> fl_taker_side f = ta_side args \<and>
     fl_maker f = ro_user x \<and> fl_maker_oid f = ro_oid x \<and> fl_px f = ro_px x \<and> 0 < fl_sz f \<and>
     fl_sz f \<le> ro_resting_sz x \<and> fl_ntl f = fl_sz f * fl_px f"

lemma max_order_pos [simp]: "0 < compute_max_order_sz asset user side px ctx"
  "compute_max_order_sz asset user side px ctx \<noteq> 0"
  by (simp_all add: compute_max_order_sz_def u64_max_def)

lemma checked_notional_Some: "checked_notional sz px = Some ntl \<Longrightarrow> ntl = sz * px \<and> ntl \<le> MAX_NOTIONAL_U"
  by (auto simp: checked_notional_def checked_mul_u64_def split: option.splits if_splits)

lemma checked_notional_ok: "sz * px \<le> MAX_NOTIONAL_U \<Longrightarrow> checked_notional sz px = Some (sz * px)"
  by (auto simp: checked_notional_def checked_mul_u64_def MAX_NOTIONAL_U_def u64_max_def)

text \<open>The taker brings a size: its own, capped by the signed quantity booked under its order id when the lookup is asked for.\<close>

definition sized :: "taker_args \<Rightarrow> match_book \<Rightarrow> bool" where
  "sized args b \<longleftrightarrow> args_remaining_sz args \<noteq> 0 \<and>
     (ta_use_user_price_qty_lookup args \<longrightarrow>
       (\<exists>q. map_of (mb_user_price_qty b) (ta_user args, ta_oid args) = Some q \<and> q \<noteq> 0 \<and> signed_qty_side_matches (ta_side args) q))"

lemma taker_match_sz_cases:
  assumes "taker_match_sz b args x req = res"
  obtains (pass) r where "res = Inl r" and "mr_fill r = None" and "mr_status r = STATUS_OK"
      and "ro_side x \<noteq> side_opposite (ta_side args) \<or> \<not> sized args b \<or> req = 0"
  | (size) sz reason where "res = Inr (sz, reason)" and "0 < sz" and "sz \<le> req"
proof (cases res)
  case (Inl r)
  have opp: "ro_side x = side_opposite (ta_side args) \<Longrightarrow> side_opposite (ro_side x) = ta_side args" by (cases "ta_side args") auto
  have "mr_fill r = None" "mr_status r = STATUS_OK" "ro_side x \<noteq> side_opposite (ta_side args) \<or> \<not> sized args b \<or> req = 0"
    using assms Inl opp
    by (auto simp: taker_match_sz_def lookup_signed_qty_for_match_def Let_def no_fill_def min_def sized_def unsigned_abs_def split: if_splits option.splits)
  with Inl show thesis by (intro pass) auto
next
  case (Inr p)
  then show thesis using assms
    by (intro size [of "fst p" "snd p"])
      (auto simp: taker_match_sz_def lookup_signed_qty_for_match_def Let_def min_def split: if_splits option.splits)
qed

lemma match_order_cases:
  assumes inv: "match_inv b" and i: "live b i" and req: "0 < req"
  obtains (pass) r where "match_resting_order args ctx asset i px req b = Some r" and "mr_fill r = None"
      and "mr_status r = STATUS_OK"
      and "self_cross args ctx (order_of b i) \<or> ro_side (order_of b i) \<noteq> side_opposite (ta_side args) \<or> \<not> sized args b"
  | (fill) r f where "match_resting_order args ctx asset i px req b = Some r" and "mr_fill r = Some f"
      and "mr_status r = STATUS_OK" and "fill_of args (order_of b i) f" and "fl_sz f \<le> req"
      and "\<not> self_cross args ctx (order_of b i)"
proof -
  let ?x = "order_of b i"
  have n: "i < length (mb_orders b)" using i by (simp add: is_live_order_index_def)
  have sz: "0 < ro_resting_sz ?x" "ro_resting_sz ?x * ro_px ?x \<le> MAX_NOTIONAL_U"
    using inv i by (auto simp: match_inv_def size_ok_def)
  show thesis
  proof (cases "self_cross args ctx ?x")
    case True
    then show thesis
      using req n by (intro pass [of "no_fill STATUS_OK req SelfCrossOrVaultCross"])
        (auto simp: match_resting_order_def Let_def self_cross_def no_fill_def)
  next
    case False
    obtain t where t: "taker_match_sz b args ?x req = t" by simp
    then show thesis
    proof (cases rule: taker_match_sz_cases)
      case r: (pass r)
      then show thesis
        using req n False t by (intro pass [of r]) (auto simp: match_resting_order_def Let_def self_cross_def)
    next
      case (size s reason)
      let ?c1 = "compute_max_order_sz asset (ta_user args) (ta_side args) px ctx"
        and ?c2 = "compute_max_order_sz asset (ro_user ?x) (ro_side ?x) px ctx"
      define m where "m = min (min (min (min s ?c1) ?c2) (ro_resting_sz ?x)) req"
      have m: "0 < m" "m \<le> ro_resting_sz ?x" "m \<le> req"
        unfolding m_def using size(2) sz(1) req by simp_all
      have "m * ro_px ?x \<le> MAX_NOTIONAL_U" using mult_le_mono1 [OF m(2)] sz(2) order_trans by blast
      then have ntl: "checked_notional m (ro_px ?x) = Some (m * ro_px ?x)" "m * ro_px ?x \<le> MAX_NOTIONAL_U"
        using checked_notional_ok by simp_all
      define r where "r = finish_match args ?x m (m * ro_px ?x) req reason"
      have run: "match_resting_order args ctx asset i px req b = Some r"
        using req n False t size(1) ntl m(1)
        by (auto simp: match_resting_order_def Let_def self_cross_def m_def [symmetric] r_def)
      show thesis
        by (rule fill [OF run _ _ _ _ False, of "the (mr_fill r)"])
          (use m in \<open>simp_all add: r_def finish_match_def queue_fill_record_def Let_def fill_of_def\<close>)
    qed
  qed
qed

section \<open>One queue\<close>

lemma maker_event_sel [simp]:
  "st_book (maker_event i reason st) = st_book st" "st_remaining (maker_event i reason st) = st_remaining st"
  "oc_fills (st_outcome (maker_event i reason st)) = oc_fills (st_outcome st)"
  "oc_status (st_outcome (maker_event i reason st)) = oc_status (st_outcome st)"
  "oc_resting_slot (st_outcome (maker_event i reason st)) = oc_resting_slot (st_outcome st)"
  by (simp_all add: maker_event_def push_events_def split: option.split)

definition fill_sum :: "fill_record list \<Rightarrow> nat" where
  "fill_sum fs = sum_list (map fl_sz fs)"

lemma fill_sum_simps [simp]: "fill_sum [] = 0" "fill_sum (fs @ gs) = fill_sum fs + fill_sum gs" "fill_sum (f # fs) = fl_sz f + fill_sum fs"
  by (simp_all add: fill_sum_def)

text \<open>
  What matching may do between two states: it appends fills \<open>fs\<close> against live makers, takes their sizes
  off the taker's remainder and off the resting total, and leaves a smaller well-formed book.
\<close>

definition fill_against :: "taker_args \<Rightarrow> match_context \<Rightarrow> match_book \<Rightarrow> fill_record \<Rightarrow> bool" where
  "fill_against args ctx b f \<longleftrightarrow> (\<exists>i. live b i \<and> fill_of args (order_of b i) f \<and> \<not> self_cross args ctx (order_of b i) \<and>
     ro_side (order_of b i) = side_opposite (ta_side args) \<and> level_crosses (ta_side args) (ta_limit_px args) (fl_px f))"

definition matched :: "taker_args \<Rightarrow> match_context \<Rightarrow> match_state \<Rightarrow> fill_record list \<Rightarrow> match_state \<Rightarrow> bool" where
  "matched args ctx st fs st' \<longleftrightarrow> match_inv (st_book st') \<and> shrinks (st_book st) (st_book st') \<and>
     oc_fills (st_outcome st') = oc_fills (st_outcome st) @ fs \<and> oc_status (st_outcome st') = oc_status (st_outcome st) \<and>
     oc_resting_slot (st_outcome st') = oc_resting_slot (st_outcome st) \<and> st_remaining st' + fill_sum fs = st_remaining st \<and> live_total (st_book st') + fill_sum fs = live_total (st_book st) \<and>
     (\<forall>f \<in> set fs. fill_against args ctx (st_book st) f) \<and> (fs = [] \<longrightarrow> st_book st' = st_book st) \<and>
     (\<forall>oid. map_of (mb_user_price_qty (st_book st')) (ta_user args, oid) = map_of (mb_user_price_qty (st_book st)) (ta_user args, oid))"

text \<open>A fill removes at most the quantity booked under the maker.\<close>

lemma record_fill_qty:
  assumes "record_fill i fill st = Some st1" and "ro_user (order_of (st_book st) i) \<noteq> user"
  shows "map_of (mb_user_price_qty (st_book st1)) (user, oid) = map_of (mb_user_price_qty (st_book st)) (user, oid)"
proof -
  have upd: "update_order_opt k g b = Some b1 \<Longrightarrow> mb_user_price_qty b1 = mb_user_price_qty b" for k g b b1
    by (auto simp: update_order_opt_def update_order_def split: option.splits if_splits)
  have unl: "unlink_from_price_level side px slot b = Some b1 \<Longrightarrow> mb_user_price_qty b1 = mb_user_price_qty b" for side px slot b b1
    by (auto simp: unlink_from_price_level_def Let_def split: option.splits if_splits dest!: upd)
  have rem: "remove_resting_index i code b = Some (b1, es) \<Longrightarrow> ro_user (mb_orders b ! i) \<noteq> user \<Longrightarrow>
      map_of (mb_user_price_qty b1) (user, oid) = map_of (mb_user_price_qty b) (user, oid)" for code b b1 es
    by (auto simp: remove_resting_index_def update_order_def Let_def split: option.splits if_splits dest!: unl)
  have app: "apply_fill_to_resting i sz b = Some b1 \<Longrightarrow> mb_user_price_qty b1 = mb_user_price_qty b \<and> ro_user (mb_orders b1 ! i) = ro_user (mb_orders b ! i)" for sz b b1
    by (auto simp: apply_fill_to_resting_def update_order_def split: if_splits)
  show ?thesis
    using assms by (auto simp: record_fill_def Let_def push_events_def split: option.splits if_splits dest!: app rem)
qed

lemma fill_against_shrinks: "fill_against args ctx b' f \<Longrightarrow> shrinks b b' \<Longrightarrow> fill_against args ctx b f"
proof -
  assume "fill_against args ctx b' f" and sh: "shrinks b b'"
  then obtain i where i: "live b' i" "fill_of args (order_of b' i) f" "\<not> self_cross args ctx (order_of b' i)"
    "ro_side (order_of b' i) = side_opposite (ta_side args)" "level_crosses (ta_side args) (ta_limit_px args) (fl_px f)"
    by (auto simp: fill_against_def)
  have "live b i" "ro_oid (order_of b' i) = ro_oid (order_of b i)" "ro_user (order_of b' i) = ro_user (order_of b i)"
    "ro_side (order_of b' i) = ro_side (order_of b i)" "ro_px (order_of b' i) = ro_px (order_of b i)"
    "ro_resting_sz (order_of b' i) \<le> ro_resting_sz (order_of b i)"
    using sh i(1) by (simp_all add: shrinks_def)
  with i show ?thesis unfolding fill_against_def by (intro exI [of _ i]) (auto simp: fill_of_def self_cross_def)
qed

lemma matched_refl: "match_inv (st_book st) \<Longrightarrow> matched args ctx st [] st"
  by (simp add: matched_def)

lemma matched_trans:
  assumes "matched args ctx st fs st'" and "matched args ctx st' gs st''"
  shows "matched args ctx st (fs @ gs) st''"
proof -
  have sh: "shrinks (st_book st) (st_book st')" using assms(1) by (simp add: matched_def)
  have "fill_against args ctx (st_book st) f" if "f \<in> set (fs @ gs)" for f
    using that assms fill_against_shrinks [OF _ sh] by (auto simp: matched_def)
  with assms sh shrinks_trans [OF sh] show ?thesis by (simp add: matched_def)
qed

text \<open>A queue whose indices are live orders of the level is matched without a panic or an early return.\<close>

lemma match_queue_effect:
  assumes "match_inv (st_book st)" and "distinct is"
    and "\<And>i. i \<in> set is \<Longrightarrow> live (st_book st) i \<and> ro_px (order_of (st_book st) i) = px \<and>
      ro_side (order_of (st_book st) i) = side_opposite (ta_side args)"
  shows "\<exists>fs st'. match_queue args ctx asset px is st = Continue st' \<and> matched args ctx st fs st' \<and>
    (\<forall>f \<in> set fs. fl_px f = px) \<and>
    (is \<noteq> [] \<longrightarrow> 0 < st_remaining st \<longrightarrow> level_crosses (ta_side args) (ta_limit_px args) px \<longrightarrow>
     sized args (st_book st) \<longrightarrow>
     (\<forall>i \<in> set is. \<not> self_cross args ctx (order_of (st_book st) i)) \<longrightarrow> fs \<noteq> [])"
  using assms
proof (induction "is" arbitrary: st)
  case Nil
  then show ?case using matched_refl by (intro exI [of _ "[]"] exI [of _ st]) simp
next
  case (Cons i rest)
  let ?b = "st_book st"
  have i: "live ?b i" "ro_px (order_of ?b i) = px" "ro_side (order_of ?b i) = side_opposite (ta_side args)"
    using Cons.prems(3) by auto
  show ?case
  proof (cases "st_remaining st = 0 \<or> \<not> level_crosses (ta_side args) (ta_limit_px args) px")
    case True
    then show ?thesis
      using matched_refl [OF Cons.prems(1)] by (intro exI [of _ "[]"] exI [of _ st]) auto
  next
    case False
    then have req: "0 < st_remaining st" and cr: "level_crosses (ta_side args) (ta_limit_px args) px" by auto
    show ?thesis
      using Cons.prems(1) i(1) req
    proof (cases rule: match_order_cases [where args = args and ctx = ctx and asset = asset and px = px])
      case (pass r)
      let ?st = "maker_event i (mr_reason r) st"
      have run: "match_queue args ctx asset px (i # rest) st = match_queue args ctx asset px rest ?st"
        using False i(1) pass by (simp add: record_fill_def Let_def)
      have "\<exists>fs st'. match_queue args ctx asset px rest ?st = Continue st' \<and> matched args ctx ?st fs st' \<and>
          (\<forall>f \<in> set fs. fl_px f = px)"
        using Cons.IH [of ?st] Cons.prems by (auto; blast)
      then obtain fs st' where q: "match_queue args ctx asset px rest ?st = Continue st'" "matched args ctx ?st fs st'"
        "\<forall>f \<in> set fs. fl_px f = px" by blast
      have "matched args ctx st fs st'" using q(2) by (simp add: matched_def)
      with q pass run i(3) show ?thesis by (intro exI [of _ fs] exI [of _ st']) auto
    next
      case (fill r f)
      have f: "0 < fl_sz f" "fl_sz f \<le> ro_resting_sz (order_of ?b i)" "fl_px f = px" using fill(4) i(2) by (simp_all add: fill_of_def)
      obtain st1 where st1: "record_fill i (Some f) st = Some st1" "match_inv (st_book st1)" "shrinks ?b (st_book st1)"
        "\<And>j. j \<noteq> i \<Longrightarrow> live ?b j \<Longrightarrow> live (st_book st1) j" "oc_fills (st_outcome st1) = oc_fills (st_outcome st) @ [f]"
        "oc_status (st_outcome st1) = oc_status (st_outcome st)"
        "oc_resting_slot (st_outcome st1) = oc_resting_slot (st_outcome st)" "st_remaining st1 = st_remaining st - fl_sz f"
        "live_total (st_book st1) + fl_sz f = live_total ?b"
        using record_fill_effect [OF Cons.prems(1) i(1) f(1,2)] by metis
      let ?st = "maker_event i (mr_reason r) st1"
      have run: "match_queue args ctx asset px (i # rest) st = match_queue args ctx asset px rest ?st"
        using False i(1) fill st1(1) by (simp add: Let_def)
      have "fill_against args ctx ?b f"
        unfolding fill_against_def by (intro exI [of _ i] conjI i fill(4,6)) (simp add: f(3) cr)
      moreover have "ro_user (order_of ?b i) \<noteq> ta_user args" using fill(6) by (auto simp: self_cross_def)
      ultimately have one: "matched args ctx st [f] ?st" using st1 fill(5) record_fill_qty [OF st1(1)] by (simp add: matched_def)
      have rest: "live (st_book ?st) j \<and> ro_px (order_of (st_book ?st) j) = px \<and>
          ro_side (order_of (st_book ?st) j) = side_opposite (ta_side args)" if "j \<in> set rest" for j
      proof -
        have "j \<noteq> i" "live ?b j" using that Cons.prems(2,3) by auto
        then have l: "live (st_book st1) j" using st1(4) by blast
        have "ro_px (order_of (st_book st1) j) = ro_px (order_of ?b j) \<and> ro_side (order_of (st_book st1) j) = ro_side (order_of ?b j)"
          using st1(3) l by (simp add: shrinks_def)
        with l Cons.prems(3) [of j] that show ?thesis by simp
      qed
      have "\<exists>fs st'. match_queue args ctx asset px rest ?st = Continue st' \<and> matched args ctx ?st fs st' \<and>
          (\<forall>f \<in> set fs. fl_px f = px)"
        using Cons.IH [of ?st] rest Cons.prems(2) st1(2) by auto
      then obtain fs st' where q: "match_queue args ctx asset px rest ?st = Continue st'" "matched args ctx ?st fs st'"
        "\<forall>f \<in> set fs. fl_px f = px" by blast
      have "matched args ctx st (f # fs) st'" using matched_trans [OF one q(2)] by simp
      with q run f(3) show ?thesis by (intro exI [of _ "f # fs"] exI [of _ st']) auto
    qed
  qed
qed

section \<open>One level\<close>

text \<open>\<open>better side px px'\<close>: the taker prefers \<open>px\<close> or is indifferent.\<close>

definition better :: "taker_side \<Rightarrow> nat \<Rightarrow> nat \<Rightarrow> bool" where
  "better side px px' = (case side of Buy \<Rightarrow> px \<le> px' | Sell \<Rightarrow> px' \<le> px)"

abbreviation price_allowed :: "match_asset \<Rightarrow> match_context \<Rightarrow> bool" where
  "price_allowed asset ctx \<equiv> \<not> as_price_limit_enabled asset \<or> cx_global_price_flag ctx \<noteq> 0"

lemma level_key_iff:
  assumes "levels_inv b"
  shows "px \<in> fst ` set (side_levels s b) \<longleftrightarrow> (\<exists>i. live b i \<and> ro_side (order_of b i) = s \<and> ro_px (order_of b i) = px)"
proof -
  have "px \<in> fst ` set (side_levels s b) \<longleftrightarrow> map_of (side_levels s b) px \<noteq> None" by (simp only: map_of_eq_None_iff not_not)
  also have "\<dots> \<longleftrightarrow> level_queue_snapshot b s px \<noteq> []"
    using levels_invD(2) [OF assms, of s px] by (cases "map_of (side_levels s b) px") (simp_all add: level_queue_snapshot_def)
  finally have "px \<in> fst ` set (side_levels s b) \<longleftrightarrow> level_queue_snapshot b s px \<noteq> []" .
  then show ?thesis using levels_invD(4) [OF assms, of _ s px] by (metis list.set_intros(1) neq_Nil_conv empty_iff list.set(1))
qed

lemma next_level_Some:
  assumes inv: "levels_inv b" and px: "next_crossable_level b side limit = Some px"
  shows "level_crosses side limit px" and "level_queue_snapshot b (side_opposite side) px \<noteq> []"
    and "live b i \<Longrightarrow> ro_side (order_of b i) = side_opposite side \<Longrightarrow> better side px (ro_px (order_of b i))"
proof -
  let ?lv = "side_levels (side_opposite side) b"
  have key: "px \<in> fst ` set ?lv" and best: "\<And>k. k \<in> fst ` set ?lv \<Longrightarrow> better side px k"
    using px bt_first_key_least [OF levels_invD(1) [OF inv, of Sell], of px] bt_last_key_greatest [OF levels_invD(1) [OF inv, of Buy], of px]
    by (cases side; auto simp: next_crossable_level_def side_levels_def better_def split: option.splits if_splits)+
  show "level_crosses side limit px"
    using px by (cases side) (auto simp: next_crossable_level_def level_crosses_def split: option.splits if_splits)
  show "level_queue_snapshot b (side_opposite side) px \<noteq> []"
    using key unfolding level_key_iff [OF inv] using levels_invD(4) [OF inv, of _ "side_opposite side" px] by force
  show "better side px (ro_px (order_of b i))" if "live b i" "ro_side (order_of b i) = side_opposite side"
    using that by (intro best) (auto simp: level_key_iff [OF inv])
qed

lemma next_level_None:
  assumes inv: "levels_inv b" and "next_crossable_level b side limit = None"
    and "live b i" and "ro_side (order_of b i) = side_opposite side"
  shows "\<not> level_crosses side limit (ro_px (order_of b i))"
proof -
  have key: "ro_px (order_of b i) \<in> fst ` set (side_levels (side_opposite side) b)"
    using assms(3,4) by (auto simp: level_key_iff [OF inv])
  show ?thesis
  proof (cases side)
    case Buy
    then show ?thesis
      using assms(2) key bt_first_key_least(2) [OF levels_invD(1) [OF inv, of Sell]] bt_first_key_None [of "mb_asks b"]
      by (fastforce simp: next_crossable_level_def side_levels_def level_crosses_def split: option.splits if_splits)
  next
    case Sell
    then show ?thesis
      using assms(2) key bt_last_key_greatest(2) [OF levels_invD(1) [OF inv, of Buy]] bt_last_key_None [of "mb_bids b"]
      by (fastforce simp: next_crossable_level_def side_levels_def level_crosses_def split: option.splits if_splits)
  qed
qed

lemma remove_empty_level_id: "levels_inv b \<Longrightarrow> remove_empty_level s px b = b"
  using levels_invD(2) [of b s px] by (simp add: remove_empty_level_def split: option.split)

lemma match_step_effect:
  assumes inv: "match_inv (st_book st)" and px: "next_crossable_level (st_book st) (ta_side args) (ta_limit_px args) = Some px"
    and "price_allowed asset ctx"
  shows "\<exists>fs st'. match_step args ctx asset st = Continue st' \<and> matched args ctx st fs st' \<and> (\<forall>f \<in> set fs. fl_px f = px) \<and>
    (0 < st_remaining st \<longrightarrow> sized args (st_book st) \<longrightarrow>
     (\<forall>i. live (st_book st) i \<longrightarrow> ro_side (order_of (st_book st) i) = side_opposite (ta_side args) \<longrightarrow>
        level_crosses (ta_side args) (ta_limit_px args) (ro_px (order_of (st_book st) i)) \<longrightarrow>
        \<not> self_cross args ctx (order_of (st_book st) i)) \<longrightarrow> fs \<noteq> [])"
proof -
  let ?b = "st_book st" and ?opp = "side_opposite (ta_side args)"
  let ?q = "level_queue_snapshot ?b ?opp px"
  have li: "levels_inv ?b" using inv by (simp add: match_inv_def)
  note nl = next_level_Some [OF li px]
  have members: "i \<in> set ?q \<Longrightarrow> live ?b i \<and> ro_px (order_of ?b i) = px \<and> ro_side (order_of ?b i) = ?opp" for i
    using levels_invD(4) [OF li] by auto
  obtain fs st' where q: "match_queue args ctx asset px ?q st = Continue st'" "matched args ctx st fs st'" "\<forall>f \<in> set fs. fl_px f = px"
    and prog: "?q \<noteq> [] \<longrightarrow> 0 < st_remaining st \<longrightarrow> level_crosses (ta_side args) (ta_limit_px args) px \<longrightarrow>
     sized args ?b \<longrightarrow>
     (\<forall>i \<in> set ?q. \<not> self_cross args ctx (order_of ?b i)) \<longrightarrow> fs \<noteq> []"
    using match_queue_effect [OF inv levels_invD(3) [OF li] members, where ctx = ctx and asset = asset] by blast
  have "levels_inv (st_book st')" using q(2) by (simp add: matched_def match_inv_def)
  then have step: "match_step args ctx asset st = Continue st'"
    using px assms(3) nl(1,2) q(1) by (simp add: match_step_def price_level_allowed_def Let_def remove_empty_level_id)
  have ne: "fs \<noteq> []" if "0 < st_remaining st" "sized args ?b"
    and safe: "\<forall>i. live ?b i \<longrightarrow> ro_side (order_of ?b i) = ?opp \<longrightarrow>
        level_crosses (ta_side args) (ta_limit_px args) (ro_px (order_of ?b i)) \<longrightarrow> \<not> self_cross args ctx (order_of ?b i)"
  proof -
    have "\<forall>i \<in> set ?q. \<not> self_cross args ctx (order_of ?b i)" using members nl(1) safe by auto
    then show ?thesis using prog nl(1,2) that(1,2) by blast
  qed
  show ?thesis by (intro exI [of _ fs] exI [of _ st'] conjI impI step q(2,3)) (rule ne)
qed

section \<open>The loop\<close>

definition loop_done :: "taker_args \<Rightarrow> match_context \<Rightarrow> match_state \<Rightarrow> loop_exit \<Rightarrow> bool" where
  "loop_done args ctx st r \<longleftrightarrow> (\<exists>fs st'. r = Break st' \<and> matched args ctx st fs st' \<and>
     sorted_wrt (\<lambda>f g. better (ta_side args) (fl_px f) (fl_px g)) fs \<and>
     (st_remaining st' = 0 \<or> next_crossable_level (st_book st') (ta_side args) (ta_limit_px args) = None))"

lemma better_refl [simp]: "better side px px"
  by (cases side) (simp_all add: better_def)

lemma loop_done_step:
  assumes inv: "match_inv (st_book st)" and px: "next_crossable_level (st_book st) (ta_side args) (ta_limit_px args) = Some px"
    and first: "matched args ctx st fs st'" "\<forall>f \<in> set fs. fl_px f = px" and rest: "loop_done args ctx st' r"
  shows "loop_done args ctx st r"
proof -
  obtain gs st'' where r: "r = Break st''" "matched args ctx st' gs st''"
    "sorted_wrt (\<lambda>f g. better (ta_side args) (fl_px f) (fl_px g)) gs"
    "st_remaining st'' = 0 \<or> next_crossable_level (st_book st'') (ta_side args) (ta_limit_px args) = None"
    using rest by (auto simp: loop_done_def)
  have li: "levels_inv (st_book st)" using inv by (simp add: match_inv_def)
  note all = matched_trans [OF first(1) r(2)]
  have "better (ta_side args) px (fl_px g)" if "g \<in> set gs" for g
  proof -
    have "fill_against args ctx (st_book st) g" using all that by (simp add: matched_def)
    then show ?thesis using next_level_Some(3) [OF li px] by (auto simp: fill_against_def fill_of_def)
  qed
  moreover have "sorted_wrt (\<lambda>f g. better (ta_side args) (fl_px f) (fl_px g)) fs"
    using first(2) by (induction fs) auto
  ultimately have "sorted_wrt (\<lambda>f g. better (ta_side args) (fl_px f) (fl_px g)) (fs @ gs)"
    using first(2) r(3) by (auto simp: sorted_wrt_append)
  with all r show ?thesis unfolding loop_done_def by blast
qed

text \<open>Partial correctness: what a loop that returns has done.\<close>

lemma match_loop_returns:
  assumes "match_loop args ctx asset st = Some r" and "match_inv (st_book st)" and "price_allowed asset ctx"
  shows "loop_done args ctx st r"
proof -
  have "match_inv (st_book st) \<longrightarrow> price_allowed asset ctx \<longrightarrow> loop_done args ctx st r"
  proof (rule match_loop.raw_induct [where P = "\<lambda>args ctx asset st r. match_inv (st_book st) \<longrightarrow>
      price_allowed asset ctx \<longrightarrow> loop_done args ctx st r", OF _ assms(1)], intro impI)
    fix f args ctx asset st r
    assume IH: "\<And>args ctx asset st r. f args ctx asset st = Some r \<Longrightarrow>
        match_inv (st_book st) \<longrightarrow> price_allowed asset ctx \<longrightarrow> loop_done args ctx st r"
      and eq: "(if st_remaining st = 0 then Some (Break st)
        else case match_step args ctx asset st of
          Continue st' \<Rightarrow> f args ctx asset st' | Break st' \<Rightarrow> Some (Break st')
        | Return b oc \<Rightarrow> Some (Return b oc) | Panicked \<Rightarrow> Some Panicked) = Some r"
      and inv: "match_inv (st_book st)" and ok: "price_allowed asset ctx"
    have stay: "loop_done args ctx st (Break st)"
      if "st_remaining st = 0 \<or> next_crossable_level (st_book st) (ta_side args) (ta_limit_px args) = None"
      unfolding loop_done_def using that matched_refl [OF inv] by (intro exI [of _ "[]"] exI [of _ st]) simp
    show "loop_done args ctx st r"
    proof (cases "st_remaining st = 0")
      case True
      with eq stay show ?thesis by auto
    next
      case False
      show ?thesis
      proof (cases "next_crossable_level (st_book st) (ta_side args) (ta_limit_px args)")
        case None
        then have "r = Break st" using eq False by (simp add: match_step_def)
        with stay None show ?thesis by simp
      next
        case (Some px)
        obtain fs st' where s: "match_step args ctx asset st = Continue st'" "matched args ctx st fs st'" "\<forall>f \<in> set fs. fl_px f = px"
          using match_step_effect [OF inv Some ok] by blast
        have "match_inv (st_book st')" using s(2) by (simp add: matched_def)
        then have "loop_done args ctx st' r" using IH [of args ctx asset st' r] eq False s(1) ok by simp
        with loop_done_step [OF inv Some s(2,3)] show ?thesis .
      qed
    qed
  qed
  with assms(2,3) show ?thesis by blast
qed

text \<open>The orders a taker could meet, none of which is its own or a fellow vault's.\<close>

definition no_self_cross :: "taker_args \<Rightarrow> match_context \<Rightarrow> match_book \<Rightarrow> bool" where
  "no_self_cross args ctx b \<longleftrightarrow> (\<forall>i. live b i \<longrightarrow> ro_side (order_of b i) = side_opposite (ta_side args) \<longrightarrow>
     level_crosses (ta_side args) (ta_limit_px args) (ro_px (order_of b i)) \<longrightarrow> \<not> self_cross args ctx (order_of b i))"

lemma no_self_cross_shrinks: "no_self_cross args ctx b \<Longrightarrow> shrinks b b' \<Longrightarrow> no_self_cross args ctx b'"
  by (auto simp: no_self_cross_def shrinks_def self_cross_def)

text \<open>Termination: every round fills something, so the remainder goes down.\<close>

lemma match_loop_total:
  assumes "match_inv (st_book st)" and "price_allowed asset ctx" and "no_self_cross args ctx (st_book st)"
    and "sized args (st_book st)"
  shows "\<exists>r. match_loop args ctx asset st = Some r"
  using assms
proof (induction "st_remaining st" arbitrary: st rule: less_induct)
  case less
  show ?case
  proof (cases "st_remaining st = 0")
    case True
    then show ?thesis by (subst match_loop.simps) simp
  next
    case False
    show ?thesis
    proof (cases "next_crossable_level (st_book st) (ta_side args) (ta_limit_px args)")
      case None
      then have "match_step args ctx asset st = Break st" by (simp add: match_step_def)
      with False show ?thesis by (subst match_loop.simps) simp
    next
      case (Some px)
      obtain fs st' where s: "match_step args ctx asset st = Continue st'" "matched args ctx st fs st'" and ne: "fs \<noteq> []"
        using match_step_effect [OF less.prems(1) Some less.prems(2)] less.prems(3,4) False
        unfolding no_self_cross_def by blast
      obtain f gs where "fs = f # gs" using ne by (cases fs) auto
      then have "0 < fill_sum fs" using s(2) by (auto simp: matched_def fill_against_def fill_of_def)
      then have "st_remaining st' < st_remaining st" using s(2) by (simp add: matched_def)
      moreover have "match_inv (st_book st')" "no_self_cross args ctx (st_book st')" "sized args (st_book st')"
        using s(2) no_self_cross_shrinks [OF less.prems(3)] less.prems(4) by (simp_all add: matched_def sized_def)
      ultimately obtain r where "match_loop args ctx asset st' = Some r"
        using less.hyps less.prems(2) by blast
      with s(1) False show ?thesis by (subst match_loop.simps) simp
    qed
  qed
qed

text \<open>Divergence: a level of the taker's own orders is met again and again.\<close>

lemma match_queue_self:
  assumes "\<And>i. i \<in> set is \<Longrightarrow> live (st_book st) i \<and> self_cross args ctx (order_of (st_book st) i)"
  shows "match_queue args ctx asset px is st = Continue st"
  using assms
proof (induction "is")
  case (Cons i rest)
  have i: "live (st_book st) i" "self_cross args ctx (order_of (st_book st) i)" using Cons.prems by simp_all
  then have "match_resting_order args ctx asset i px (st_remaining st) (st_book st) =
      Some (no_fill STATUS_OK (st_remaining st) SelfCrossOrVaultCross)" if "st_remaining st \<noteq> 0"
    using that by (auto simp: match_resting_order_def Let_def self_cross_def is_live_order_index_def)
  moreover have "match_queue args ctx asset px rest st = Continue st" using Cons by simp
  ultimately show ?case using i(1) by (auto simp: record_fill_def no_fill_def Let_def maker_event_def)
qed simp

lemma match_loop_diverges:
  assumes "match_step args ctx asset st = Continue st" and "st_remaining st \<noteq> 0"
  shows "match_loop args ctx asset st = None"
proof (rule ccontr)
  assume "match_loop args ctx asset st \<noteq> None"
  then obtain r where "match_loop args ctx asset st = Some r" by auto
  then have "\<not> (match_step args ctx asset st = Continue st \<and> st_remaining st \<noteq> 0)"
  proof (rule match_loop.raw_induct [where P = "\<lambda>args ctx asset st r. \<not> (match_step args ctx asset st = Continue st \<and>
      st_remaining st \<noteq> 0)", rotated])
    fix f args ctx asset st r
    assume IH: "\<And>args ctx asset st r. f args ctx asset st = Some r \<Longrightarrow> \<not> (match_step args ctx asset st = Continue st \<and> st_remaining st \<noteq> 0)"
      and eq: "(if st_remaining st = 0 then Some (Break st)
        else case match_step args ctx asset st of
          Continue st' \<Rightarrow> f args ctx asset st' | Break st' \<Rightarrow> Some (Break st')
        | Return b oc \<Rightarrow> Some (Return b oc) | Panicked \<Rightarrow> Some Panicked) = Some r"
    show "\<not> (match_step args ctx asset st = Continue st \<and> st_remaining st \<noteq> 0)"
    proof
      assume same: "match_step args ctx asset st = Continue st \<and> st_remaining st \<noteq> 0"
      then have "f args ctx asset st = Some r" using eq by (simp only: if_False loop_exit.case)
      with IH same show False by blast
    qed
  qed
  with assms show False by simp
qed

end
