(* ===== verification/Match_Properties.thy ===== *)
theory Match_Properties
  imports Match_Loop
begin

text \<open>
  What inserting an order into the matching book guarantees: it returns unless the taker meets its own
  orders, and then never; what it returns conserves sizes, respects limit prices and price priority, and
  leaves a well-formed book that is not crossed.
\<close>

section \<open>Books between insertions\<close>

definition uncrossed :: "match_book \<Rightarrow> bool" where
  "uncrossed b \<longleftrightarrow> (\<forall>i j. live b i \<longrightarrow> live b j \<longrightarrow> ro_side (order_of b i) = Buy \<longrightarrow> ro_side (order_of b j) = Sell \<longrightarrow>
     ro_px (order_of b i) < ro_px (order_of b j))"

definition best_ok :: "match_book \<Rightarrow> bool" where
  "best_ok b \<longleftrightarrow> mb_best_bid b = bt_last_key (mb_bids b) \<and> mb_best_ask b = bt_first_key (mb_asks b)"

definition book_ok :: "match_book \<Rightarrow> bool" where
  "book_ok b \<longleftrightarrow> match_inv b \<and> uncrossed b \<and> best_ok b"

lemma book_ok_default: "book_ok match_book_default"
  by (simp add: book_ok_def match_inv_default) (simp add: uncrossed_def best_ok_def match_book_default_def
      is_live_order_index_def bt_last_key_def bt_first_key_def)

lemma uncrossed_shrinks: "uncrossed b \<Longrightarrow> shrinks b b' \<Longrightarrow> uncrossed b'"
  unfolding uncrossed_def shrinks_def by (metis (no_types, lifting))

lemma best_fields [simp]:
  "is_live_order_index (b\<lparr>mb_best_bid := x, mb_best_ask := y\<rparr>) = is_live_order_index b"
  "level_queue_snapshot (b\<lparr>mb_best_bid := x, mb_best_ask := y\<rparr>) = level_queue_snapshot b"
  "live_total (b\<lparr>mb_best_bid := x, mb_best_ask := y\<rparr>) = live_total b"
  by (simp_all add: fun_eq_iff is_live_order_index_def level_queue_snapshot_def live_total_def)

lemma match_inv_best [simp]: "match_inv (b\<lparr>mb_best_bid := x, mb_best_ask := y\<rparr>) = match_inv b"
  by (simp add: match_inv_def levels_inv_def keys_ok_def size_ok_def)

lemma uncrossed_best [simp]: "uncrossed (b\<lparr>mb_best_bid := x, mb_best_ask := y\<rparr>) = uncrossed b"
  by (simp add: uncrossed_def)

lemma rests_best [simp]: "rests args sz slot b (b'\<lparr>mb_best_bid := x, mb_best_ask := y\<rparr>) = rests args sz slot b b'"
  by (simp add: rests_def)

lemma book_ok_recompute:
  assumes "match_inv b" and "uncrossed b"
  shows "\<exists>b'. recompute_best_bid_ask b oc = (b', oc\<lparr>oc_best_bid := bt_last_key (mb_bids b), oc_best_ask := bt_first_key (mb_asks b),
      oc_events := oc_events oc @ [BestBidAsk (bt_last_key (mb_bids b)) (bt_first_key (mb_asks b))]\<rparr>) \<and>
    book_ok b' \<and> live_total b' = live_total b \<and> (\<forall>args sz slot b0. rests args sz slot b0 b' \<longleftrightarrow> rests args sz slot b0 b)"
  using assms by (simp add: recompute_best_bid_ask_def Let_def book_ok_def best_ok_def)

lemma uncrossed_rests:
  assumes "uncrossed b" and "rests args sz slot b b'"
    and away: "\<And>i. live b i \<Longrightarrow> ro_side (order_of b i) = side_opposite (ta_side args) \<Longrightarrow>
      \<not> level_crosses (ta_side args) (ta_limit_px args) (ro_px (order_of b i))"
  shows "uncrossed b'"
proof -
  have new: "ro_side (order_of b' slot) = ta_side args" "ro_px (order_of b' slot) = ta_limit_px args"
    using assms(2) core_sel [of "order_of b' slot" "residual_order args sz"] by (simp_all add: rests_def residual_order_def)
  have old: "live b j \<and> ro_side (order_of b' j) = ro_side (order_of b j) \<and> ro_px (order_of b' j) = ro_px (order_of b j)"
    if "live b' j" "j \<noteq> slot" for j
    using assms(2) that core_sel [of "order_of b' j" "order_of b j"] by (auto simp: rests_def)
  show ?thesis
    unfolding uncrossed_def
  proof (intro allI impI)
    fix i j assume ij: "live b' i" "live b' j" and s: "ro_side (order_of b' i) = Buy" "ro_side (order_of b' j) = Sell"
    show "ro_px (order_of b' i) < ro_px (order_of b' j)"
    proof (cases "i = slot")
      case True
      then have "j \<noteq> slot" using s by auto
      then show ?thesis using old [OF ij(2)] away [of j] new s True by (auto simp: level_crosses_def)
    next
      case i: False
      show ?thesis
      proof (cases "j = slot")
        case True
        then show ?thesis using old [OF ij(1) i] away [of i] new s by (auto simp: level_crosses_def)
      next
        case False
        then show ?thesis using old [OF ij(1) i] old [OF ij(2) False] s assms(1) by (simp add: uncrossed_def)
      qed
    qed
  qed
qed

section \<open>The loop from a fresh insertion\<close>

lemma match_loop_barred:
  assumes "\<not> price_allowed asset ctx" and "oc_fills (st_outcome st) = []"
  shows "match_loop args ctx asset st =
    Some (if st_remaining st = 0 \<or> next_crossable_level (st_book st) (ta_side args) (ta_limit_px args) = None then Break st
          else Return (st_book st) (outcome_error STATUS_NO_VALID_CROSS))"
  using assms by (subst match_loop.simps) (auto simp: match_step_def price_level_allowed_def split: option.split)

lemma admission_Inr:
  assumes "admission args asset ctx flavor b = Inr sz"
  shows "sz * ta_limit_px args \<le> MAX_NOTIONAL_U" and "sz \<le> args_remaining_sz args"
    and "\<not> ta_use_user_price_qty_lookup args \<Longrightarrow> sz = args_remaining_sz args \<and> sz \<noteq> 0"
    and "ta_oid args \<notin> set (mb_active_oids b)"
  using assms
  by (auto simp: admission_def Let_def validate_notional_def initial_remaining_from_user_price_qty_def
      split: if_splits option.splits sum.splits dest!: checked_notional_Some)

text \<open>
  The guarantee of a returning insertion: either a refusal that changes nothing, or the fills, the
  remainder and, when a residual rests, its slot account for the whole size.
\<close>

definition accounted :: "taker_args \<Rightarrow> nat \<Rightarrow> match_book \<Rightarrow> match_book \<Rightarrow> match_outcome \<Rightarrow> bool" where
  "accounted args sz b b' oc \<longleftrightarrow> fill_sum (oc_fills oc) + oc_remaining_sz oc = sz \<and>
     (case oc_resting_slot oc of
        None \<Rightarrow> live_total b' + fill_sum (oc_fills oc) = live_total b
      | Some slot \<Rightarrow> 0 < oc_remaining_sz oc \<and> live b' slot \<and>
          core (order_of b' slot) = core (residual_order args (oc_remaining_sz oc)) \<and>
          live_total b' + fill_sum (oc_fills oc) = live_total b + oc_remaining_sz oc)"

definition settled :: "taker_args \<Rightarrow> match_context \<Rightarrow> nat \<Rightarrow> match_book \<Rightarrow> insert_result \<Rightarrow> bool" where
  "settled args ctx sz b r \<longleftrightarrow> (\<exists>b' oc. r = Inserted b' oc \<and> book_ok b' \<and>
     (\<forall>f \<in> set (oc_fills oc). fill_against args ctx b f) \<and>
     sorted_wrt (\<lambda>f g. better (ta_side args) (fl_px f) (fl_px g)) (oc_fills oc) \<and>
     (b' = b \<and> (\<exists>status. oc = outcome_error status) \<or> accounted args sz b b' oc))"

lemma settle_residual_ok:
  assumes ok: "book_ok b"
    and st: "matched args ctx \<lparr>st_book = b, st_remaining = sz, st_outcome = initial_outcome b sz\<rparr> fs st"
    and sorted: "sorted_wrt (\<lambda>f g. better (ta_side args) (fl_px f) (fl_px g)) fs"
    and exit: "st_remaining st = 0 \<or> next_crossable_level (st_book st) (ta_side args) (ta_limit_px args) = None"
    and ntl: "sz * ta_limit_px args \<le> MAX_NOTIONAL_U"
    and barred: "\<not> price_allowed asset ctx \<Longrightarrow> fs = []"
  shows "settled args ctx sz b (settle_residual args asset ctx marketable st)"
proof -
  let ?b = "st_book st" and ?oc = "(st_outcome st)\<lparr>oc_remaining_sz := st_remaining st\<rparr>"
  have m: "match_inv ?b" "shrinks b ?b" "oc_fills (st_outcome st) = fs" "st_remaining st + fill_sum fs = sz"
    "live_total ?b + fill_sum fs = live_total b" "\<forall>f \<in> set fs. fill_against args ctx b f" "fs = [] \<Longrightarrow> ?b = b"
    and slot: "oc_resting_slot (st_outcome st) = None"
    using st by (simp_all add: matched_def initial_outcome_def)
  have u: "uncrossed ?b" using uncrossed_shrinks [OF _ m(2)] ok by (simp add: book_ok_def)
  have finish: "settled args ctx sz b (case recompute_best_bid_ask b1 oc of (b', oc') \<Rightarrow> Inserted b' oc')"
    if fin: "match_inv b1" "uncrossed b1" "oc_fills oc = fs" "accounted args sz b b1 oc" for b1 oc
  proof -
    obtain b' where r: "recompute_best_bid_ask b1 oc = (b', oc\<lparr>oc_best_bid := bt_last_key (mb_bids b1), oc_best_ask := bt_first_key (mb_asks b1),
      oc_events := oc_events oc @ [BestBidAsk (bt_last_key (mb_bids b1)) (bt_first_key (mb_asks b1))]\<rparr>)" "book_ok b'"
      using book_ok_recompute [OF fin(1,2), of oc] by blast
    have b': "b' = b1\<lparr>mb_best_bid := bt_last_key (mb_bids b1), mb_best_ask := bt_first_key (mb_asks b1)\<rparr>"
      using r(1) by (simp add: recompute_best_bid_ask_def Let_def)
    have "accounted args sz b b' (snd (recompute_best_bid_ask b1 oc))"
      using fin(4) unfolding r(1) accounted_def b' by (simp split: option.splits)
    then show ?thesis using r fin(3) m(6) sorted by (auto simp: settled_def)
  qed
  have plain: "accounted args sz b ?b (oc\<lparr>oc_remaining_sz := st_remaining st\<rparr>)"
    if "oc_fills oc = fs" "oc_resting_slot oc = None" for oc
    using that m(4,5) by (simp add: accounted_def add.commute)
  have refuse: "settled args ctx sz b (Inserted ?b (outcome_error status))" if "fs = []" for status
    using m(7) [OF that] ok unfolding settled_def by (auto simp: outcome_error_def)
  consider (filled) "st_remaining st = 0"
    | (market) "st_remaining st \<noteq> 0" "must_be_marketable (ta_tif args) \<or> ta_tif args = AddLiquidityOnly \<and> marketable"
    | (barred) "st_remaining st \<noteq> 0" "\<not> (must_be_marketable (ta_tif args) \<or> ta_tif args = AddLiquidityOnly \<and> marketable)"
        "\<not> price_allowed asset ctx"
    | (rest) "st_remaining st \<noteq> 0" "\<not> (must_be_marketable (ta_tif args) \<or> ta_tif args = AddLiquidityOnly \<and> marketable)"
        "price_allowed asset ctx" by blast
  then show ?thesis
  proof cases
    case filled
    let ?oc' = "if ta_allow_trigger_cleanup args then ?oc\<lparr>oc_events := oc_events ?oc @ [RemoveOrder (ta_user args) (ta_oid args) 1]\<rparr> else ?oc"
    have "accounted args sz b ?b ?oc'" using plain [of "st_outcome st"] m(3) slot by (simp add: accounted_def)
    then have "settled args ctx sz b (case recompute_best_bid_ask ?b ?oc' of (b', oc') \<Rightarrow> Inserted b' oc')"
      using m(1,3) u by (intro finish) auto
    then show ?thesis
      using filled unfolding settle_residual_def Let_def by (cases "ta_allow_trigger_cleanup args") simp_all
  next
    case market
    then show ?thesis
      using refuse finish [OF m(1) u, of ?oc] plain [of "st_outcome st"] m(3) slot
      by (auto simp: settle_residual_def Let_def)
  next
    case barred
    then show ?thesis using refuse assms(6) m(3) by (simp add: settle_residual_def Let_def rest_residual_order_def price_level_allowed_def)
  next
    case rest
    have "st_remaining st * ta_limit_px args \<le> MAX_NOTIONAL_U"
      using ntl m(4) mult_le_mono1 [of "st_remaining st" sz "ta_limit_px args"] by linarith
    then obtain b1 i where r: "rest_residual_order args (st_remaining st) asset ctx ?b = Some (b1, Inr i)" "match_inv b1"
      "rests args (st_remaining st) i ?b b1" "live_total b1 = live_total ?b + st_remaining st"
      using rest_effect [OF m(1) rest(3)] rest(1) by (metis neq0_conv)
    have "next_crossable_level ?b (ta_side args) (ta_limit_px args) = None" using exit rest(1) by simp
    then have u1: "uncrossed b1"
      using uncrossed_rests [OF u r(3)] next_level_None m(1) by (auto simp: match_inv_def)
    let ?oc' = "?oc\<lparr>oc_resting_slot := Some i,
        oc_events := oc_events ?oc @ [RestOrder (ro_user (mb_orders b1 ! i)) (ro_oid (mb_orders b1 ! i)) i
          (ro_px (mb_orders b1 ! i)) (ro_resting_sz (mb_orders b1 ! i))]\<rparr>"
    have "accounted args sz b b1 ?oc'"
      using r(3,4) m(3,4,5) rest(1) by (simp add: accounted_def rests_def)
    then have "settled args ctx sz b (case recompute_best_bid_ask b1 ?oc' of (b', oc') \<Rightarrow> Inserted b' oc')"
      using r(2) u1 m(3) by (intro finish) auto
    then show ?thesis using rest r(1) by (auto simp: settle_residual_def Let_def)
  qed
qed

lemma insert_order_settled:
  assumes ok: "book_ok b" and run: "insert_order_recovered args asset ctx flavor b = Some r"
    and adm: "admission args asset ctx flavor b = Inr sz"
  shows "settled args ctx sz b r"
proof -
  let ?st = "\<lparr>st_book = b, st_remaining = sz, st_outcome = initial_outcome b sz\<rparr>"
  let ?settle = "settle_residual args asset ctx (is_marketable b (ta_side args) (ta_limit_px args))"
  have inv: "match_inv (st_book ?st)" using ok by (simp add: book_ok_def)
  note ntl = admission_Inr(1) [OF adm]
  obtain e where e: "match_loop args ctx asset ?st = Some e" and r: "r = (case e of Continue st \<Rightarrow> ?settle st | Break st \<Rightarrow> ?settle st
      | Return b' oc \<Rightarrow> Inserted b' oc | Panicked \<Rightarrow> InsertPanicked)"
    using run by (auto simp: insert_order_recovered_def adm)
  show ?thesis
  proof (cases "price_allowed asset ctx")
    case True
    then obtain fs st where l: "e = Break st" "matched args ctx ?st fs st"
      "sorted_wrt (\<lambda>f g. better (ta_side args) (fl_px f) (fl_px g)) fs"
      "st_remaining st = 0 \<or> next_crossable_level (st_book st) (ta_side args) (ta_limit_px args) = None"
      using match_loop_returns [OF e inv] by (auto simp: loop_done_def)
    have "settled args ctx sz b (?settle st)" using settle_residual_ok [OF ok l(2-4) ntl] True by blast
    then show ?thesis using r l(1) by simp
  next
    case False
    have fresh: "oc_fills (st_outcome ?st) = []" by (simp add: initial_outcome_def)
    have "e = (if sz = 0 \<or> next_crossable_level b (ta_side args) (ta_limit_px args) = None then Break ?st
          else Return b (outcome_error STATUS_NO_VALID_CROSS))"
      using match_loop_barred [OF False fresh, of args] e unfolding match_state.select_convs by (simp only: option.inject)
    moreover have "settled args ctx sz b (Inserted b (outcome_error STATUS_NO_VALID_CROSS))"
      using ok unfolding settled_def by (auto simp: outcome_error_def)
    moreover have "settled args ctx sz b (?settle ?st)" if "sz = 0 \<or> next_crossable_level b (ta_side args) (ta_limit_px args) = None"
      using settle_residual_ok [OF ok matched_refl [OF inv] _ _ ntl] that by simp
    ultimately show ?thesis using r by (auto split: if_splits)
  qed
qed

section \<open>Properties\<close>

text \<open>C1. Every insertion that returns leaves a well-formed book whose best prices are cached correctly
  and that is not crossed, and never panics.  A refused order changes nothing.  Otherwise every fill is
  against a live order of the opposite side owned by somebody else, at that order's price and within
  the limit price, for at most its resting size; fills come best price first; and the fills, plus what
  is left over, are exactly the admitted size: what the fills took is gone from the resting total, and
  what rests is added to it in the reported slot, under the taker's id, side and limit price.\<close>

theorem insert_order_outcome:
  assumes "book_ok b" and "insert_order_recovered args asset ctx flavor b = Some r"
  shows "\<exists>b' oc. r = Inserted b' oc \<and> book_ok b' \<and>
    (\<forall>f \<in> set (oc_fills oc). fill_against args ctx b f) \<and>
    sorted_wrt (\<lambda>f g. better (ta_side args) (fl_px f) (fl_px g)) (oc_fills oc) \<and>
    (b' = b \<and> (\<exists>status. oc = outcome_error status) \<or>
     (\<exists>sz. admission args asset ctx flavor b = Inr sz \<and> accounted args sz b b' oc))"
proof (cases "admission args asset ctx flavor b")
  case (Inl status)
  then have "r = Inserted b (outcome_error status)" using assms(2) by (simp add: insert_order_recovered_def)
  then show ?thesis using assms(1) by (auto simp: outcome_error_def)
next
  case (Inr sz)
  from insert_order_settled [OF assms Inr] Inr show ?thesis unfolding settled_def by blast
qed

lemma admission_sized:
  assumes "admission args asset ctx flavor b = Inr sz" and "sz \<noteq> 0"
  shows "sized args b"
  using assms
  by (auto simp: admission_def Let_def initial_remaining_from_user_price_qty_def sized_def split: if_splits option.splits sum.splits)

lemma insert_recovered_total:
  assumes "book_ok b" and "no_self_cross args ctx b"
  shows "\<exists>r. insert_order_recovered args asset ctx flavor b = Some r"
proof (cases "admission args asset ctx flavor b")
  case (Inl status)
  then show ?thesis by (simp add: insert_order_recovered_def)
next
  case (Inr sz)
  let ?st = "\<lparr>st_book = b, st_remaining = sz, st_outcome = initial_outcome b sz\<rparr>"
  have "\<exists>e. match_loop args ctx asset ?st = Some e"
  proof (cases "price_allowed asset ctx \<and> sz \<noteq> 0")
    case True
    with match_loop_total [of ?st asset ctx args] assms admission_sized [OF Inr] show ?thesis by (simp add: book_ok_def)
  next
    case False
    have "match_loop args ctx asset ?st = Some (Break ?st)" if "sz = 0" using that by (subst match_loop.simps) simp
    then show ?thesis using False match_loop_barred [of asset ctx ?st args] by (cases "sz = 0") (auto simp: initial_outcome_def)
  qed
  then show ?thesis by (auto simp: insert_order_recovered_def Inr)
qed

text \<open>C3. The matching loop ends, and the insertion returns with a well-formed book, whenever no opposite order within the limit
  price belongs to the taker (or to a fellow vault, where vaults may not cross), with or without the quantity lookup: every round of the
  loop fills something.\<close>

theorem insert_order_returns:
  assumes "book_ok b" and "no_self_cross args ctx b"
  shows "\<exists>b' oc. insert_order_recovered args asset ctx flavor b = Some (Inserted b' oc) \<and> book_ok b'"
proof -
  obtain r where r: "insert_order_recovered args asset ctx flavor b = Some r" using insert_recovered_total [OF assms] by blast
  show ?thesis
  proof (cases "admission args asset ctx flavor b")
    case (Inl status)
    then show ?thesis using assms(1) by (simp add: insert_order_recovered_def)
  next
    case (Inr sz)
    from insert_order_settled [OF assms(1) r Inr] r show ?thesis by (auto simp: settled_def)
  qed
qed

text \<open>C30. When every order of the best crossing level belongs to the taker (or to a fellow vault), the
  insertion of an admitted order of positive size never returns, provided the price limit of the asset is off or the
  global price flag is set, so that the level is not refused: no order is filled or removed, so the loop meets the
  same level for ever.\<close>

theorem self_cross_never_returns:
  assumes "book_ok b" and "admission args asset ctx flavor b = Inr sz" and "sz \<noteq> 0"
    and "\<not> as_price_limit_enabled asset \<or> cx_global_price_flag ctx \<noteq> 0"
    and "next_crossable_level b (ta_side args) (ta_limit_px args) = Some px"
    and "\<forall>i \<in> set (level_queue_snapshot b (side_opposite (ta_side args)) px). self_cross args ctx (mb_orders b ! i)"
  shows "insert_order_recovered args asset ctx flavor b = None"
proof -
  let ?st = "\<lparr>st_book = b, st_remaining = sz, st_outcome = initial_outcome b sz\<rparr>"
  let ?q = "level_queue_snapshot b (side_opposite (ta_side args)) px"
  have li: "levels_inv b" using assms(1) by (simp add: book_ok_def match_inv_def)
  note nl = next_level_Some [OF li assms(5)]
  have "match_queue args ctx asset px ?q ?st = Continue ?st"
    by (rule match_queue_self) (use levels_invD(4) [OF li, of _ "side_opposite (ta_side args)" px] assms(6) in simp)
  then have "match_step args ctx asset ?st = Continue ?st"
    using assms(4,5) nl(1,2) by (simp add: match_step_def price_level_allowed_def Let_def remove_empty_level_id [OF li])
  then have "match_loop args ctx asset ?st = None" by (rule match_loop_diverges) (simp add: assms(3))
  then show ?thesis by (simp add: insert_order_recovered_def assms(2))
qed

section \<open>Witnesses\<close>

definition ask_args :: taker_args where
  "ask_args = \<lparr>ta_oid = 1, ta_user = 7, ta_side = Sell, ta_limit_px = 100, ta_sz = 5, ta_remaining_override = None,
     ta_tif = Normal, ta_reduce_only = False, ta_cloid = None, ta_timestamp = 0, ta_builder_nonce = 0, ta_order_kind = 0,
     ta_is_position_tpsl = False, ta_use_user_price_qty_lookup = False, ta_allow_trigger_cleanup = False,
     ta_is_replace = False, ta_replace_slot_required = False, ta_raw_accounting_key = 0\<rparr>"

definition buy_args :: "address \<Rightarrow> taker_args" where
  "buy_args user = ask_args\<lparr>ta_oid := 2, ta_user := user, ta_side := Buy, ta_limit_px := 101, ta_sz := 8\<rparr>"

definition demo_asset :: match_asset where
  "demo_asset = \<lparr>as_tick_sz = 1, as_oracle_px = 10000000, as_min_order_sz = 0, as_max_order_sz = 0, as_price_limit_enabled = False\<rparr>"

definition demo_ctx :: match_context where
  "demo_ctx = \<lparr>cx_global_price_flag = 0, cx_timestamp_or_block = 0, cx_seq_or_subblock = 0,
     cx_allow_vault_self_cross = False, cx_sentinel_notional_exempt_user = None\<rparr>"

definition demo_ask :: resting_order where
  "demo_ask = residual_order ask_args 5"

definition demo_book :: match_book where
  "demo_book = match_book_default\<lparr>mb_orders := [demo_ask], mb_active_oids := [1], mb_user_oid_index := [((7, 1), 0)],
     mb_user_price_qty := [((7, 1), 5)], mb_asks := [(100, \<lparr>pl_first_key = Some 0, pl_last_key = Some 0, pl_queue = [0]\<rparr>)],
     mb_best_ask := Some 100\<rparr>"

lemmas demo_args_defs = ask_args_def buy_args_def demo_asset_def demo_ctx_def args_remaining_sz_def

lemmas admission_eval = admission_def Let_def match_book_default_def demo_args_defs bt_contains_def replace_check_def
  split_order_id_def ASSET_DIVISOR_def is_marketable_def must_be_marketable_def MAX_LIMIT_PX_U_def valid_tick_def
  initial_remaining_from_user_price_qty_def validate_notional_def checked_notional_def checked_mul_u64_def u64_max_def
  MAX_NOTIONAL_U_def MIN_NOTIONAL_FLOOR_def validate_order_sz_limits_def

lemma demo_ask_admission: "admission ask_args demo_asset demo_ctx IndexedPx match_book_default = Inr 5"
  by (simp add: admission_eval)

lemma demo_buy_admission: "admission (buy_args user) demo_asset demo_ctx IndexedPx demo_book = Inr 8"
  by (simp add: admission_eval demo_book_def)

lemma demo_book_ask:
  "insert_order_recovered ask_args demo_asset demo_ctx IndexedPx match_book_default =
     Some (Inserted demo_book \<lparr>oc_status = STATUS_OK, oc_remaining_sz = 5, oc_resting_slot = Some 0, oc_fills = [],
       oc_events = [RestOrder 7 1 0 100 5, BestBidAsk None (Some 100)], oc_best_bid = None, oc_best_ask = Some 100\<rparr>)"
proof -
  have loop: "match_loop ask_args demo_ctx demo_asset st = Some (Break st)"
    if "st_book st = match_book_default" for st
    using that by (subst match_loop.simps) (simp add: match_step_def ask_args_def next_crossable_level_def match_book_default_def
        bt_last_key_def)
  show ?thesis
    unfolding insert_order_recovered_def demo_ask_admission sum.case
    by (subst loop) (simp_all add: settle_residual_def Let_def demo_args_defs must_be_marketable_def rest_residual_order_def price_level_allowed_def
        allocate_order_slot_def update_order_def link_into_price_level_def update_order_opt_def side_levels_def
        set_side_levels_def level_push_def px_level_default_def recompute_best_bid_ask_def initial_outcome_def
        residual_order_def demo_book_def demo_ask_def match_book_default_def as_i64_def bt_last_key_def
        bt_first_key_def resting_order_empty_def)
qed

lemma demo_book_ok: "book_ok demo_book"
  using insert_order_settled [OF book_ok_default demo_book_ask demo_ask_admission] by (auto simp: settled_def)

lemma demo_order: "live demo_book i \<longleftrightarrow> i = 0" "mb_orders demo_book ! 0 = demo_ask" "ro_user demo_ask = 7"
  by (auto simp: is_live_order_index_def demo_book_def match_book_default_def demo_ask_def residual_order_def ask_args_def)

lemma demo_no_self: "no_self_cross (buy_args 9) demo_ctx demo_book"
  by (simp add: no_self_cross_def demo_order self_cross_def buy_args_def both_vault_privileged_def is_vault_privileged_def)

theorem insert_order_outcome_witness:
  "\<exists>b' oc. insert_order_recovered (buy_args 9) demo_asset demo_ctx IndexedPx demo_book = Some (Inserted b' oc) \<and> book_ok b' \<and>
     (\<forall>f \<in> set (oc_fills oc). fill_against (buy_args 9) demo_ctx demo_book f)"
proof -
  obtain r where r: "insert_order_recovered (buy_args 9) demo_asset demo_ctx IndexedPx demo_book = Some r"
    using insert_recovered_total [OF demo_book_ok demo_no_self] by blast
  from insert_order_outcome [OF demo_book_ok r] r show ?thesis by blast
qed

theorem insert_order_returns_witness:
  "\<exists>b' oc. insert_order_recovered (buy_args 9) demo_asset demo_ctx IndexedPx demo_book = Some (Inserted b' oc) \<and> book_ok b'"
  by (rule insert_order_returns [OF demo_book_ok demo_no_self])

theorem self_cross_never_returns_witness:
  "insert_order_recovered (buy_args 7) demo_asset demo_ctx IndexedPx demo_book = None"
proof (rule self_cross_never_returns [OF demo_book_ok demo_buy_admission])
  show "next_crossable_level demo_book (ta_side (buy_args 7)) (ta_limit_px (buy_args 7)) = Some 100"
    by (simp add: next_crossable_level_def demo_book_def buy_args_def bt_first_key_def)
  show "\<forall>i \<in> set (level_queue_snapshot demo_book (side_opposite (ta_side (buy_args 7))) 100).
      self_cross (buy_args 7) demo_ctx (mb_orders demo_book ! i)"
    by (simp add: level_queue_snapshot_def side_levels_def buy_args_def)
      (simp add: demo_book_def self_cross_def demo_order(3))
qed (simp_all add: demo_asset_def)

end
