(* ===== verification/Nonce.thy ===== *)
theory Nonce
  imports Rust_Prelude
begin

text \<open>
  Replay protection of \<open>l1/nonce.rs\<close>: the retained nonces of every signer, the window around the block
  time, the eviction of the smallest nonces, the expiry of removed agents and the second, monotone nonce
  of withdrawals.  \<open>replay_guard\<close> is the contract both nonce domains satisfy.
\<close>

section \<open>Data\<close>

definition DEFAULT_RETAINED_NONCES :: nat where
  "DEFAULT_RETAINED_NONCES = 100"

definition EXPANDED_RETAINED_NONCES :: nat where
  "EXPANDED_RETAINED_NONCES = 400"

definition NONCE_WINDOW_MS :: nat where
  "NONCE_WINDOW_MS = 86400000"

definition WITHDRAW3_NONCE_SCALE :: nat where
  "WITHDRAW3_NONCE_SCALE = 1000"

datatype pending_agent_removal = PendingAgentRemoval (pr_ready_at_ms: nat) (pr_agent_address: address)

text \<open>The derived order of the struct: by time, then by address.\<close>

instantiation pending_agent_removal :: linorder
begin

definition less_eq_pending_agent_removal :: "pending_agent_removal \<Rightarrow> pending_agent_removal \<Rightarrow> bool" where
  "less_eq_pending_agent_removal a b \<longleftrightarrow> pr_ready_at_ms a < pr_ready_at_ms b \<or>
     pr_ready_at_ms a = pr_ready_at_ms b \<and> pr_agent_address a \<le> pr_agent_address b"

definition less_pending_agent_removal :: "pending_agent_removal \<Rightarrow> pending_agent_removal \<Rightarrow> bool" where
  "less_pending_agent_removal a b \<longleftrightarrow> pr_ready_at_ms a < pr_ready_at_ms b \<or>
     pr_ready_at_ms a = pr_ready_at_ms b \<and> pr_agent_address a < pr_agent_address b"

instance
  by standard (auto simp: less_eq_pending_agent_removal_def less_pending_agent_removal_def
      pending_agent_removal.expand)

end

record nonce_state =
  ns_address_to_nonce_set :: "(address, nat bset) btree"
  ns_agent_to_user :: "(address, address) btree"
  ns_user_to_pending_agent_removals :: "(address, pending_agent_removal bset) btree"

datatype nonce_error =
  NonceAlreadyUsed
| NonceMismatch nat nat
| InvalidNonceBelowRetainedMinimum nat nat nat
| InvalidNonceTooFarInFuture nat nat
| InvalidNonceTooFarInPast nat nat
| DuplicateNonce nat
| InvalidWithdraw3NonceArithmetic

section \<open>Operations\<close>

definition retained_nonce_cap :: "bool \<Rightarrow> nat" where
  "retained_nonce_cap expanded = (if expanded then EXPANDED_RETAINED_NONCES else DEFAULT_RETAINED_NONCES)"

definition nonces_for_address_or_empty :: "nonce_state \<Rightarrow> address \<Rightarrow> nat bset" where
  "nonces_for_address_or_empty s a = (case map_of (ns_address_to_nonce_set s) a of None \<Rightarrow> [] | Some ns \<Rightarrow> ns)"

definition validate_candidate :: "nat \<Rightarrow> bool \<Rightarrow> nat \<Rightarrow> nat bset \<Rightarrow> nonce_error + nat" where
  "validate_candidate now_ms expanded nonce retained =
     (let cap = retained_nonce_cap expanded;
          max_allowed = saturating_add_u64 now_ms NONCE_WINDOW_MS;
          min_allowed = saturating_sub_u64 now_ms NONCE_WINDOW_MS
      in if cap \<le> length retained \<and> retained \<noteq> [] \<and> nonce < hd retained
         then Inl (InvalidNonceBelowRetainedMinimum nonce (hd retained) cap)
         else if max_allowed < nonce then Inl (InvalidNonceTooFarInFuture nonce max_allowed)
         else if nonce < min_allowed then Inl (InvalidNonceTooFarInPast nonce min_allowed)
         else if nonce \<in> set retained then Inl (DuplicateNonce nonce)
         else Inr cap)"

definition check_and_remember_exchange_nonce ::
  "nat \<Rightarrow> bool \<Rightarrow> address \<Rightarrow> nat \<Rightarrow> nonce_state \<Rightarrow> nonce_state \<times> (nonce_error + unit)" where
  "check_and_remember_exchange_nonce now_ms expanded signer nonce s =
     (let retained = nonces_for_address_or_empty s signer;
          put = (\<lambda>ns. s\<lparr>ns_address_to_nonce_set := bt_insert signer ns (ns_address_to_nonce_set s)\<rparr>)
      in case validate_candidate now_ms expanded nonce retained of
           Inl e \<Rightarrow> (put retained, Inl e)
         | Inr cap \<Rightarrow>
             (let grown = bs_insert nonce retained
              in (put (drop (length grown - cap) grown), Inr ())))"

definition expired_agents :: "nat \<Rightarrow> (address, pending_agent_removal bset) btree \<Rightarrow> address bset" where
  "expired_agents now_ms pending =
     fold (\<lambda>e acc. fold (\<lambda>r. bs_insert (pr_agent_address r)) (filter (\<lambda>r. pr_ready_at_ms r \<le> now_ms) (snd e)) acc)
       pending []"

definition surviving_removals ::
  "nat \<Rightarrow> (address, pending_agent_removal bset) btree \<Rightarrow> (address, pending_agent_removal bset) btree" where
  "surviving_removals now_ms pending =
     filter (\<lambda>e. snd e \<noteq> []) (map (\<lambda>e. (fst e, filter (\<lambda>r. \<not> pr_ready_at_ms r \<le> now_ms) (snd e))) pending)"

definition forget_agent :: "(address \<Rightarrow> bool) \<Rightarrow> address \<Rightarrow> nonce_state \<Rightarrow> nonce_state" where
  "forget_agent is_real_user a s =
     s\<lparr>ns_agent_to_user := bt_remove a (ns_agent_to_user s),
       ns_address_to_nonce_set :=
         (if is_real_user a then ns_address_to_nonce_set s else bt_remove a (ns_address_to_nonce_set s))\<rparr>"

definition prune_pending_nonces :: "nat \<Rightarrow> (address \<Rightarrow> bool) \<Rightarrow> nonce_state \<Rightarrow> nonce_state" where
  "prune_pending_nonces now_ms is_real_user s =
     fold (forget_agent is_real_user) (expired_agents now_ms (ns_user_to_pending_agent_removals s))
       (s\<lparr>ns_user_to_pending_agent_removals := surviving_removals now_ms (ns_user_to_pending_agent_removals s)\<rparr>)"

definition ensure_embedded_nonce_matches :: "nat \<Rightarrow> nat \<Rightarrow> nonce_error + unit" where
  "ensure_embedded_nonce_matches action_nonce context_nonce =
     (if action_nonce \<noteq> context_nonce then Inl (NonceMismatch action_nonce context_nonce) else Inr ())"

record withdraw3_replay_state =
  wr_last_nonce_ms :: nat

definition validate_nonce :: "withdraw3_replay_state \<Rightarrow> nat \<Rightarrow> nonce_error + nat" where
  "validate_nonce w raw =
     (case checked_mul_u64 raw WITHDRAW3_NONCE_SCALE of
        None \<Rightarrow> Inl InvalidWithdraw3NonceArithmetic
      | Some nonce_ms \<Rightarrow> if nonce_ms \<le> wr_last_nonce_ms w then Inl NonceAlreadyUsed else Inr nonce_ms)"

definition remember_nonce :: "nat \<Rightarrow> withdraw3_replay_state \<Rightarrow> withdraw3_replay_state" where
  "remember_nonce nonce_ms w = w\<lparr>wr_last_nonce_ms := nonce_ms\<rparr>"

definition validate_normal_user_withdraw3 ::
  "nat \<Rightarrow> address \<Rightarrow> nat \<Rightarrow> bool \<Rightarrow> withdraw3_replay_state \<Rightarrow> nat \<Rightarrow> nonce_state \<Rightarrow> nonce_state \<times> (nonce_error + nat)" where
  "validate_normal_user_withdraw3 now_ms signer nonce expanded w raw s =
     (case check_and_remember_exchange_nonce now_ms expanded signer nonce s of
        (s', Inl e) \<Rightarrow> (s', Inl e)
      | (s', Inr _) \<Rightarrow> (s', validate_nonce w raw))"

section \<open>Requests that are accepted at most once\<close>

fun accepted_keys :: "('r \<Rightarrow> 's \<Rightarrow> 's \<times> bool) \<Rightarrow> ('r \<Rightarrow> 'k) \<Rightarrow> 'r list \<Rightarrow> 's \<Rightarrow> 'k list" where
  "accepted_keys step key [] s = []"
| "accepted_keys step key (r # rs) s =
     (case step r s of (s', ok) \<Rightarrow> (if ok then [key r] else []) @ accepted_keys step key rs s')"

locale replay_guard =
  fixes step :: "'r \<Rightarrow> 's \<Rightarrow> 's \<times> bool"
    and key :: "'r \<Rightarrow> 'k"
    and invar :: "'s \<Rightarrow> bool"
    and spent :: "'s \<Rightarrow> 'k \<Rightarrow> bool"
  assumes invar_step: "invar s \<Longrightarrow> invar (fst (step r s))"
    and accept_fresh: "invar s \<Longrightarrow> snd (step r s) \<Longrightarrow> \<not> spent s (key r)"
    and accept_spends: "invar s \<Longrightarrow> snd (step r s) \<Longrightarrow> spent (fst (step r s)) (key r)"
    and spent_kept: "invar s \<Longrightarrow> spent s k \<Longrightarrow> spent (fst (step r s)) k"
begin

lemma accepted_not_spent: "invar s \<Longrightarrow> spent s k \<Longrightarrow> k \<notin> set (accepted_keys step key rs s)"
proof (induction rs arbitrary: s)
  case (Cons r rs)
  obtain s' ok where st: "step r s = (s', ok)" by force
  have "k \<notin> set (accepted_keys step key rs s')"
    using Cons.IH [of s'] invar_step [OF Cons.prems(1), of r] spent_kept [OF Cons.prems, of r] st by simp
  moreover have "ok \<Longrightarrow> key r \<noteq> k" using accept_fresh [OF Cons.prems(1), of r] Cons.prems(2) st by auto
  ultimately show ?case using st by auto
qed simp

lemma accepted_once: "invar s \<Longrightarrow> distinct (accepted_keys step key rs s)"
proof (induction rs arbitrary: s)
  case (Cons r rs)
  obtain s' ok where st: "step r s = (s', ok)" by force
  have inv: "invar s'" using invar_step [OF Cons.prems, of r] st by simp
  have "ok \<Longrightarrow> key r \<notin> set (accepted_keys step key rs s')"
    using accepted_not_spent [OF inv] accept_spends [OF Cons.prems, of r] st by auto
  with Cons.IH [OF inv] st show ?case by auto
qed simp

end

section \<open>The exchange nonces\<close>

definition nonce_inv :: "nonce_state \<Rightarrow> bool" where
  "nonce_inv s \<longleftrightarrow> (\<forall>a ns. map_of (ns_address_to_nonce_set s) a = Some ns \<longrightarrow> bs_wf ns)"

lemma nonces_wf: "nonce_inv s \<Longrightarrow> bs_wf (nonces_for_address_or_empty s a)"
  by (auto simp: nonce_inv_def nonces_for_address_or_empty_def bs_wf_def split: option.split)

lemma bs_wf_drop: "bs_wf xs \<Longrightarrow> bs_wf (drop n xs)"
  unfolding bs_wf_def by (metis append_take_drop_id sorted_wrt_append)

lemma length_bs_insert: "bs_wf xs \<Longrightarrow> length (bs_insert k xs) = (if k \<in> set xs then length xs else Suc (length xs))"
proof -
  assume wf: "bs_wf xs"
  have "length (bs_insert k xs) = card (set (bs_insert k xs))"
    using distinct_card [OF bs_wf_distinct [OF bs_wf_insert [OF wf]]] by simp
  also have "\<dots> = card (insert k (set xs))" by simp
  finally show ?thesis using distinct_card [OF bs_wf_distinct [OF wf]] by (auto simp: card_insert_if)
qed

lemma bs_insert_max: "\<forall>x \<in> set xs. x < n \<Longrightarrow> bs_insert n xs = xs @ [n]"
  by (induction xs) auto

definition exchange_step :: "bool \<Rightarrow> nat \<times> address \<times> nat \<Rightarrow> nonce_state \<Rightarrow> nonce_state \<times> bool" where
  "exchange_step expanded r s =
     (case r of (now, signer, nonce) \<Rightarrow>
        (case check_and_remember_exchange_nonce now expanded signer nonce s of (s', res) \<Rightarrow> (s', \<not> isl res)))"

definition exchange_key :: "nat \<times> address \<times> nat \<Rightarrow> address \<times> nat" where
  "exchange_key r = (case r of (now, signer, nonce) \<Rightarrow> (signer, nonce))"

text \<open>A spent nonce is retained, or below the smallest retained nonce of a full set.\<close>

definition nonce_spent :: "bool \<Rightarrow> nonce_state \<Rightarrow> address \<times> nat \<Rightarrow> bool" where
  "nonce_spent expanded s k =
     (case k of (a, n) \<Rightarrow> (let ns = nonces_for_address_or_empty s a in
        n \<in> set ns \<or> retained_nonce_cap expanded \<le> length ns \<and> ns \<noteq> [] \<and> n < hd ns))"

lemma cap_pos [simp]: "0 < retained_nonce_cap expanded"
  by (simp add: retained_nonce_cap_def DEFAULT_RETAINED_NONCES_def EXPANDED_RETAINED_NONCES_def)

lemma retained_put: "nonces_for_address_or_empty (s\<lparr>ns_address_to_nonce_set := bt_insert a ns (ns_address_to_nonce_set s)\<rparr>) x =
    (if x = a then ns else nonces_for_address_or_empty s x)"
  by (simp add: nonces_for_address_or_empty_def)

definition kept_nonces :: "bool \<Rightarrow> nat \<Rightarrow> nat bset \<Rightarrow> nat bset" where
  "kept_nonces expanded n ns = drop (length (bs_insert n ns) - retained_nonce_cap expanded) (bs_insert n ns)"

lemma exchange_step_cases:
  obtains (reject) s' where "exchange_step expanded (now, a, n) s = (s', False)"
      and "\<And>x. nonces_for_address_or_empty s' x = nonces_for_address_or_empty s x"
  | (accept) s' where "exchange_step expanded (now, a, n) s = (s', True)" and "\<not> nonce_spent expanded s (a, n)"
      and "\<And>x. nonces_for_address_or_empty s' x =
        (if x = a then kept_nonces expanded n (nonces_for_address_or_empty s a) else nonces_for_address_or_empty s x)"
proof (cases "validate_candidate now expanded n (nonces_for_address_or_empty s a)")
  case (Inl e)
  then show thesis
    using reject [of "s\<lparr>ns_address_to_nonce_set := bt_insert a (nonces_for_address_or_empty s a) (ns_address_to_nonce_set s)\<rparr>"]
    by (simp add: exchange_step_def check_and_remember_exchange_nonce_def Let_def retained_put)
next
  case (Inr cap)
  let ?ns = "nonces_for_address_or_empty s a"
  have cap: "cap = retained_nonce_cap expanded" and fresh: "\<not> nonce_spent expanded s (a, n)"
    using Inr by (auto simp: validate_candidate_def Let_def nonce_spent_def split: if_splits)
  show thesis
    using accept [of "s\<lparr>ns_address_to_nonce_set := bt_insert a (kept_nonces expanded n ?ns) (ns_address_to_nonce_set s)\<rparr>"] Inr fresh
    by (simp add: exchange_step_def check_and_remember_exchange_nonce_def Let_def retained_put kept_nonces_def cap)
qed

lemma bs_wf_split: "bs_wf (xs @ ys) \<Longrightarrow> x \<in> set xs \<Longrightarrow> y \<in> set ys \<Longrightarrow> x < y"
  by (simp add: bs_wf_def sorted_wrt_append)

lemma kept_spent:
  assumes wf: "bs_wf ns" and x: "x \<in> set (bs_insert n ns)"
  shows "x \<in> set (kept_nonces expanded n ns) \<or>
    retained_nonce_cap expanded \<le> length (kept_nonces expanded n ns) \<and> kept_nonces expanded n ns \<noteq> [] \<and> x < hd (kept_nonces expanded n ns)"
proof -
  let ?g = "bs_insert n ns" and ?k = "kept_nonces expanded n ns" and ?c = "retained_nonce_cap expanded"
  let ?d = "length ?g - ?c"
  have split: "?g = take ?d ?g @ ?k" by (simp add: kept_nonces_def)
  have "x \<in> set (take ?d ?g) \<or> x \<in> set ?k" using x split by (metis Un_iff set_append)
  moreover have "?c \<le> length ?k \<and> ?k \<noteq> [] \<and> x < hd ?k" if "x \<in> set (take ?d ?g)"
  proof -
    have "0 < ?d" using that by (cases ?d) auto
    then have len: "length ?k = ?c" by (simp add: kept_nonces_def)
    then have ne: "?k \<noteq> []" using cap_pos [of expanded] by (metis length_0_conv less_irrefl)
    have "bs_wf (take ?d ?g @ ?k)" using bs_wf_insert [OF wf] split by simp
    from bs_wf_split [OF this that] ne len show ?thesis by simp
  qed
  ultimately show ?thesis by blast
qed

text \<open>Nonces below the smallest of a full set stay below it: only larger ones enter.\<close>

lemma kept_below:
  assumes wf: "bs_wf ns" and full: "retained_nonce_cap expanded \<le> length ns" "ns \<noteq> []" and x: "x < hd ns"
    and n: "n \<notin> set ns" "\<not> n < hd ns"
  shows "retained_nonce_cap expanded \<le> length (kept_nonces expanded n ns) \<and> kept_nonces expanded n ns \<noteq> [] \<and>
    x < hd (kept_nonces expanded n ns)"
proof -
  let ?k = "kept_nonces expanded n ns" and ?c = "retained_nonce_cap expanded"
  have "length ?k = ?c" using length_bs_insert [OF wf, of n] full(1) n(1) by (simp add: kept_nonces_def)
  then have ne: "?k \<noteq> []" using cap_pos [of expanded] by (metis length_0_conv less_irrefl)
  have "hd ?k \<in> set (bs_insert n ns)" using hd_in_set [OF ne] set_drop_subset unfolding kept_nonces_def by fast
  then have "hd ?k = n \<or> hd ?k \<in> set ns" by simp
  moreover have "hd ns \<le> y" if "y \<in> set ns" for y using wf that by (cases ns) (auto simp: bs_wf_def)
  ultimately have "hd ns \<le> hd ?k" using n(2) by auto
  with x ne \<open>length ?k = ?c\<close> show ?thesis by simp
qed

interpretation exchange_nonces: replay_guard "exchange_step expanded" exchange_key
  "\<lambda>s. \<forall>a. bs_wf (nonces_for_address_or_empty s a)" "nonce_spent expanded"
  for expanded
proof (unfold_locales, goal_cases)
  case (1 s r)
  obtain now a n where r: "r = (now, a, n)" by (cases r)
  show ?case
    by (rule exchange_step_cases [of expanded now a n s]) (use 1 r in \<open>auto simp: kept_nonces_def bs_wf_drop\<close>)
next
  case (2 s r)
  obtain now a n where r: "r = (now, a, n)" by (cases r)
  show ?case
    by (rule exchange_step_cases [of expanded now a n s]) (use 2 r in \<open>auto simp: exchange_key_def\<close>)
next
  case (3 s r)
  obtain now a n where r: "r = (now, a, n)" by (cases r)
  show ?case
  proof (rule exchange_step_cases [of expanded now a n s])
    fix s' assume "exchange_step expanded (now, a, n) s = (s', True)"
      and get: "\<And>x. nonces_for_address_or_empty s' x =
        (if x = a then kept_nonces expanded n (nonces_for_address_or_empty s a) else nonces_for_address_or_empty s x)"
    then show ?thesis
      using kept_spent [of "nonces_for_address_or_empty s a" n n expanded] 3(1) r
      by (simp add: exchange_key_def nonce_spent_def Let_def)
  qed (use 3 r in simp)
next
  case (4 s k r)
  obtain now a n where r: "r = (now, a, n)" by (cases r)
  obtain x m where k: "k = (x, m)" by force
  show ?case
  proof (rule exchange_step_cases [of expanded now a n s])
    fix s' assume "exchange_step expanded (now, a, n) s = (s', False)"
      and "\<And>x. nonces_for_address_or_empty s' x = nonces_for_address_or_empty s x"
    then show ?thesis using 4(2) r by (simp add: nonce_spent_def)
  next
    fix s' assume run: "exchange_step expanded (now, a, n) s = (s', True)" and fresh: "\<not> nonce_spent expanded s (a, n)"
      and get: "\<And>x. nonces_for_address_or_empty s' x =
        (if x = a then kept_nonces expanded n (nonces_for_address_or_empty s a) else nonces_for_address_or_empty s x)"
    let ?ns = "nonces_for_address_or_empty s a"
    have wf: "bs_wf ?ns" using 4(1) by blast
    have "nonce_spent expanded s' (a, m)" if sp: "nonce_spent expanded s (a, m)"
    proof (cases "m \<in> set ?ns")
      case True
      then show ?thesis using kept_spent [OF wf, of m n expanded] get by (simp add: nonce_spent_def Let_def)
    next
      case False
      then have "retained_nonce_cap expanded \<le> length ?ns" "?ns \<noteq> []" "m < hd ?ns"
        using sp by (simp_all add: nonce_spent_def Let_def)
      then show ?thesis using kept_below [OF wf] fresh get by (simp add: nonce_spent_def Let_def)
    qed
    then show ?thesis using 4(2) run r k get by (cases "x = a") (simp_all add: nonce_spent_def)
  qed
qed

section \<open>The withdrawal nonces\<close>

definition withdraw_step :: "nat \<Rightarrow> withdraw3_replay_state \<Rightarrow> withdraw3_replay_state \<times> bool" where
  "withdraw_step raw w = (case validate_nonce w raw of Inl e \<Rightarrow> (w, False) | Inr nonce_ms \<Rightarrow> (remember_nonce nonce_ms w, True))"

interpretation withdraw_nonces: replay_guard withdraw_step id "\<lambda>w. True"
  "\<lambda>w raw. raw * WITHDRAW3_NONCE_SCALE \<le> wr_last_nonce_ms w"
  by unfold_locales
    (auto simp: WITHDRAW3_NONCE_SCALE_def withdraw_step_def validate_nonce_def remember_nonce_def checked_mul_u64_def split: option.splits if_splits sum.splits)

section \<open>Runs with pruning\<close>

datatype nonce_event = CheckNonce nat address nat | PruneRemovals nat "address \<Rightarrow> bool"

text \<open>A pruning forgets a signer when a removal of it has expired and it is not a user of its own.\<close>

definition forgets :: "address \<Rightarrow> nat \<Rightarrow> (address \<Rightarrow> bool) \<Rightarrow> nonce_state \<Rightarrow> bool" where
  "forgets a now_ms is_real_user s \<longleftrightarrow> a \<in> set (expired_agents now_ms (ns_user_to_pending_agent_removals s)) \<and> \<not> is_real_user a"

text \<open>The nonces of a signer that a run accepted since the signer was last forgotten.\<close>

fun accepted_since :: "bool \<Rightarrow> address \<Rightarrow> nonce_event list \<Rightarrow> nat list \<Rightarrow> nonce_state \<Rightarrow> nat list" where
  "accepted_since expanded a [] ns s = ns"
| "accepted_since expanded a (CheckNonce now signer nonce # es) ns s =
     (case check_and_remember_exchange_nonce now expanded signer nonce s of
        (s', res) \<Rightarrow> accepted_since expanded a es (if signer = a \<and> \<not> isl res then nonce # ns else ns) s')"
| "accepted_since expanded a (PruneRemovals now is_real_user # es) ns s =
     accepted_since expanded a es (if forgets a now is_real_user s then [] else ns) (prune_pending_nonces now is_real_user s)"

text \<open>All nonces of a signer that a run accepted.\<close>

fun accepted_nonces :: "bool \<Rightarrow> address \<Rightarrow> nonce_event list \<Rightarrow> nonce_state \<Rightarrow> nat list" where
  "accepted_nonces expanded a [] s = []"
| "accepted_nonces expanded a (CheckNonce now signer nonce # es) s =
     (case check_and_remember_exchange_nonce now expanded signer nonce s of
        (s', res) \<Rightarrow> (if signer = a \<and> \<not> isl res then [nonce] else []) @ accepted_nonces expanded a es s')"
| "accepted_nonces expanded a (PruneRemovals now is_real_user # es) s = accepted_nonces expanded a es (prune_pending_nonces now is_real_user s)"

lemma forget_agents_nonces:
  "nonces_for_address_or_empty (fold (forget_agent is_real_user) as s) x =
     (if x \<in> set as \<and> \<not> is_real_user x then [] else nonces_for_address_or_empty s x)"
proof (induction as arbitrary: s)
  case (Cons a as)
  have "nonces_for_address_or_empty (forget_agent is_real_user a s) x = (if x = a \<and> \<not> is_real_user x then [] else nonces_for_address_or_empty s x)"
    by (auto simp: nonces_for_address_or_empty_def forget_agent_def)
  then show ?case using Cons.IH [of "forget_agent is_real_user a s"] by auto
qed simp

lemma pruned_nonces:
  "nonces_for_address_or_empty (prune_pending_nonces now is_real_user s) x =
     (if forgets x now is_real_user s then [] else nonces_for_address_or_empty s x)"
  by (simp add: prune_pending_nonces_def forget_agents_nonces forgets_def) (simp add: nonces_for_address_or_empty_def)

lemma accepted_since_distinct:
  assumes "\<forall>x. bs_wf (nonces_for_address_or_empty s x)" and "distinct ns" and "\<forall>n \<in> set ns. nonce_spent expanded s (a, n)"
  shows "distinct (accepted_since expanded a es ns s)"
  using assms
proof (induction es arbitrary: ns s)
  case (Cons e es)
  show ?case
  proof (cases e)
    case (CheckNonce now signer nonce)
    obtain s' res where r: "check_and_remember_exchange_nonce now expanded signer nonce s = (s', res)" by fastforce
    then have step: "exchange_step expanded (now, signer, nonce) s = (s', \<not> isl res)" by (simp add: exchange_step_def)
    let ?ns = "if signer = a \<and> \<not> isl res then nonce # ns else ns"
    note guard = exchange_nonces.invar_step exchange_nonces.accept_fresh exchange_nonces.accept_spends exchange_nonces.spent_kept
    have wf: "\<forall>x. bs_wf (nonces_for_address_or_empty s' x)" using guard(1) [OF Cons.prems(1), of expanded "(now, signer, nonce)"] step by simp
    have kept: "\<forall>n \<in> set ns. nonce_spent expanded s' (a, n)" using guard(4) [OF Cons.prems(1), of expanded _ "(now, signer, nonce)"] step Cons.prems(3) by simp
    have new: "nonce \<notin> set ns \<and> nonce_spent expanded s' (a, nonce)" if "signer = a \<and> \<not> isl res"
      using guard(2,3) [OF Cons.prems(1), of expanded "(now, signer, nonce)"] step that Cons.prems(3) by (auto simp: exchange_key_def)
    have "distinct (accepted_since expanded a es ?ns s')" by (rule Cons.IH [OF wf]) (use Cons.prems(2) kept new in auto)
    then show ?thesis by (simp add: CheckNonce r)
  next
    case (PruneRemovals now is_real_user)
    have "distinct (accepted_since expanded a es (if forgets a now is_real_user s then [] else ns) (prune_pending_nonces now is_real_user s))"
      by (rule Cons.IH) (use Cons.prems in \<open>auto simp: pruned_nonces nonce_spent_def bs_wf_def\<close>)
    then show ?thesis by (simp add: PruneRemovals)
  qed
qed simp

lemma accepted_since_all:
  assumes "\<forall>now is_real_user. PruneRemovals now is_real_user \<in> set es \<longrightarrow> is_real_user a"
  shows "accepted_since expanded a es ns s = rev (accepted_nonces expanded a es s) @ ns"
  using assms
proof (induction es arbitrary: ns s)
  case (Cons e es)
  then show ?case by (cases e) (auto simp: forgets_def split: prod.split)
qed simp

section \<open>Properties\<close>

text \<open>C25. Under one retention setting no nonce of a signer is accepted twice unless the signer is forgotten in between: over any sequence of
  checks and prunings at any times, the nonces accepted from a signer since a pruning last dropped its nonces are all different, although
  only its largest nonces are retained; so are all its accepted nonces when every pruning takes it for a user of its own.\<close>

theorem exchange_nonce_no_replay:
  assumes "\<forall>x. bs_wf (nonces_for_address_or_empty s x)"
  shows "distinct (accepted_since expanded a es [] s) \<and>
    ((\<forall>now is_real_user. PruneRemovals now is_real_user \<in> set es \<longrightarrow> is_real_user a) \<longrightarrow> distinct (accepted_nonces expanded a es s))"
  using accepted_since_distinct [OF assms, of "[]" expanded a es] accepted_since_all [of es a expanded "[]" s] by auto

definition empty_nonces :: nonce_state where
  "empty_nonces = \<lparr>ns_address_to_nonce_set = [], ns_agent_to_user = [], ns_user_to_pending_agent_removals = []\<rparr>"

theorem exchange_nonce_no_replay_witness:
  "accepted_since False 1 [CheckNonce 5 1 4, CheckNonce 5 1 4, PruneRemovals 6 (\<lambda>_. True), CheckNonce 6 1 5] [] empty_nonces = [5, 4] \<and>
   distinct (accepted_nonces False 1 [CheckNonce 5 1 4, CheckNonce 5 1 4, PruneRemovals 6 (\<lambda>_. True), CheckNonce 6 1 5] empty_nonces)"
proof -
  have "accepted_since False 1 [CheckNonce 5 1 4, CheckNonce 5 1 4, PruneRemovals 6 (\<lambda>_. True), CheckNonce 6 1 5] [] empty_nonces = [5, 4]"
    by (simp add: empty_nonces_def check_and_remember_exchange_nonce_def validate_candidate_def nonces_for_address_or_empty_def Let_def
        prune_pending_nonces_def expired_agents_def surviving_removals_def forgets_def retained_nonce_cap_def DEFAULT_RETAINED_NONCES_def
        NONCE_WINDOW_MS_def saturating_add_u64_def saturating_sub_u64_def u64_max_def)
  moreover have "\<forall>x. bs_wf (nonces_for_address_or_empty empty_nonces x)" by (simp add: nonces_for_address_or_empty_def bs_wf_def empty_nonces_def)
  ultimately show ?thesis
    using exchange_nonce_no_replay [of empty_nonces False 1 "[CheckNonce 5 1 4, CheckNonce 5 1 4, PruneRemovals 6 (\<lambda>_. True), CheckNonce 6 1 5]"] by auto
qed

text \<open>Forgetting a signer reopens replay under the same retention: a nonce accepted before the pruning is accepted again after it.\<close>

lemma forgotten_signer_replays:
  assumes "check_and_remember_exchange_nonce now expanded a n s = (s1, Inr ())" and "forgets a now is_real_user s1"
  shows "snd (check_and_remember_exchange_nonce now expanded a n (prune_pending_nonces now is_real_user s1)) = Inr ()"
proof -
  have "validate_candidate now expanded n [] = Inr (retained_nonce_cap expanded)"
    using assms(1) by (auto simp: check_and_remember_exchange_nonce_def validate_candidate_def Let_def split: if_splits)
  then show ?thesis using assms(2) by (simp add: check_and_remember_exchange_nonce_def pruned_nonces Let_def)
qed

text \<open>The withdrawal nonce is a second guard of the same contract.\<close>

lemma withdraw_nonce_no_replay: "distinct (accepted_keys withdraw_step id raws w)"
  by (rule withdraw_nonces.accepted_once) simp

text \<open>Switching from the default to the expanded retention reopens replay: when a full set of 100
  retained nonces evicts its smallest one, that nonce, while still within a day of the block time, is
  accepted a second time under the expanded setting.\<close>

lemma expanded_retention_reopens_replay:
  assumes wf: "bs_wf (nonces_for_address_or_empty s a)" and len: "length (nonces_for_address_or_empty s a) = 100"
    and n: "\<forall>x \<in> set (nonces_for_address_or_empty s a). x < n"
    and window: "n \<le> now + NONCE_WINDOW_MS" "now \<le> hd (nonces_for_address_or_empty s a) + NONCE_WINDOW_MS"
      "now + NONCE_WINDOW_MS \<le> u64_max"
  shows "\<exists>s1 s2. check_and_remember_exchange_nonce now False a n s = (s1, Inr ()) \<and>
    check_and_remember_exchange_nonce now True a (hd (nonces_for_address_or_empty s a)) s1 = (s2, Inr ())"
proof -
  let ?ns = "nonces_for_address_or_empty s a"
  obtain m rest where ns: "?ns = m # rest" using len by (cases ?ns) auto
  have m: "m < n" "m \<notin> set rest" "\<not> n \<le> m" using n ns wf by (auto simp: bs_wf_def)
  have ins: "bs_insert n ?ns = ?ns @ [n]" using n by (rule bs_insert_max)
  have v1: "validate_candidate now False n ?ns = Inr 100"
    using m n ns window by (auto simp: validate_candidate_def Let_def retained_nonce_cap_def DEFAULT_RETAINED_NONCES_def
        saturating_add_u64_def saturating_sub_u64_def)
  define s1 where "s1 = s\<lparr>ns_address_to_nonce_set := bt_insert a (rest @ [n]) (ns_address_to_nonce_set s)\<rparr>"
  have r1: "check_and_remember_exchange_nonce now False a n s = (s1, Inr ())"
    using v1 ins len ns by (simp add: check_and_remember_exchange_nonce_def Let_def s1_def)
  have len1: "length (rest @ [n]) = 100" using len ns by simp
  have get: "nonces_for_address_or_empty s1 a = rest @ [n]" by (simp add: s1_def nonces_for_address_or_empty_def)
  have v2: "validate_candidate now True m (rest @ [n]) = Inr 400"
    using m window ns len1 by (auto simp: validate_candidate_def Let_def retained_nonce_cap_def EXPANDED_RETAINED_NONCES_def
        saturating_add_u64_def saturating_sub_u64_def)
  then have "snd (check_and_remember_exchange_nonce now True a m s1) = Inr ()"
    by (simp add: check_and_remember_exchange_nonce_def Let_def get)
  then show ?thesis using r1 ns by (metis list.sel(1) prod.collapse)
qed

definition full_state :: nonce_state where
  "full_state = \<lparr>ns_address_to_nonce_set = [(7, [0..<100])], ns_agent_to_user = [], ns_user_to_pending_agent_removals = []\<rparr>"

lemma expanded_retention_reopens_replay_witness:
  "\<exists>s1 s2. check_and_remember_exchange_nonce 50 False 7 100 full_state = (s1, Inr ()) \<and>
    check_and_remember_exchange_nonce 50 True 7 0 s1 = (s2, Inr ())"
proof -
  have ns: "nonces_for_address_or_empty full_state 7 = [0..<100]" by (simp add: nonces_for_address_or_empty_def full_state_def)
  have hd: "hd [0..<100] = (0 :: nat)" by (simp add: hd_upt)
  have "bs_wf [0..<100]" by (simp add: bs_wf_def sorted_wrt_upt)
  then show ?thesis
    using expanded_retention_reopens_replay [of full_state 7 100 50] unfolding ns hd by (simp add: NONCE_WINDOW_MS_def u64_max_def)
qed

end
