(* ===== verification/Agent_Tracker.thy ===== *)
theory Agent_Tracker
  imports Nonce
begin

text \<open>
  The agents of \<open>l1/agent_tracker.rs\<close>: main and extra agents that may sign for a user, the table from
  agents back to users, the grace period of removed agents, and the nonces.  A \<open>NaiveDateTime12\<close> is the
  number of milliseconds its \<open>unix_millis_saturating\<close> gives; the status codes are those of the source.
\<close>

section \<open>Data\<close>

definition AGENT_OK :: nat where
  "AGENT_OK = 390"

definition ERR_SAVE_AGENT_UNEXPECTED :: nat where
  "ERR_SAVE_AGENT_UNEXPECTED = 81"

definition ERR_EXTRA_AGENT_INVALID_NAME :: nat where
  "ERR_EXTRA_AGENT_INVALID_NAME = 83"

definition ERR_AGENT_VALID_UNTIL_PASSED :: nat where
  "ERR_AGENT_VALID_UNTIL_PASSED = 85"

definition ERR_EXTRA_AGENT_ALREADY_USED :: nat where
  "ERR_EXTRA_AGENT_ALREADY_USED = 86"

definition ERR_TOO_MANY_EXTRA_AGENTS :: nat where
  "ERR_TOO_MANY_EXTRA_AGENTS = 87"

definition ERR_EXTRA_AGENT_DOES_NOT_EXIST :: nat where
  "ERR_EXTRA_AGENT_DOES_NOT_EXIST = 89"

definition AGENT_GRACE_PERIOD_MS :: nat where
  "AGENT_GRACE_PERIOD_MS = 2000"

definition BASE_EXTRA_AGENT_LIMIT :: nat where
  "BASE_EXTRA_AGENT_LIMIT = 3"

definition EXTRA_AGENT_CAP_BYPASS :: "address list" where
  "EXTRA_AGENT_CAP_BYPASS =
     [0x677d831aef5328190852e24f13c46cac05f984e7, 0x3c83a5cae32a05e88ca6a0350edb540194851a76,
      0x4dbf394da4b348b88e8090d22051af83e4cbaef4]"

record main_agent =
  ma_agent_address :: address
  ma_valid_until_ms :: nat

record extra_agent =
  ea_name :: string
  ea_agent_address :: address
  ea_valid_until_ms :: nat

record agent_tracker =
  at_user_to_main_agent :: "(address, main_agent) btree"
  at_user_to_extra_agents :: "(address, extra_agent list) btree"
  at_agent_to_user :: "(address, address) btree"
  at_address_to_nonce_set :: "(address, nat bset) btree"
  at_user_to_pending_agent_removals :: "(address, pending_agent_removal bset) btree"

section \<open>Operations\<close>

definition pending_of :: "agent_tracker \<Rightarrow> address \<Rightarrow> pending_agent_removal bset" where
  "pending_of t user = (case map_of (at_user_to_pending_agent_removals t) user of None \<Rightarrow> [] | Some p \<Rightarrow> p)"

definition has_pending_agent_removal :: "agent_tracker \<Rightarrow> address \<Rightarrow> bool" where
  "has_pending_agent_removal t user \<longleftrightarrow> pending_of t user \<noteq> []"

definition user_for_agent :: "agent_tracker \<Rightarrow> address \<Rightarrow> address option" where
  "user_for_agent t agent = map_of (at_agent_to_user t) agent"

definition extra_agents :: "agent_tracker \<Rightarrow> address \<Rightarrow> extra_agent list" where
  "extra_agents t user = (case map_of (at_user_to_extra_agents t) user of None \<Rightarrow> [] | Some agents \<Rightarrow> agents)"

definition nonce_set_of :: "agent_tracker \<Rightarrow> address \<Rightarrow> nat bset" where
  "nonce_set_of t a = (case map_of (at_address_to_nonce_set t) a of None \<Rightarrow> [] | Some ns \<Rightarrow> ns)"

definition nonce_was_used :: "agent_tracker \<Rightarrow> address \<Rightarrow> nat \<Rightarrow> bool" where
  "nonce_was_used t a nonce \<longleftrightarrow> nonce \<in> set (nonce_set_of t a)"

definition tracker_remember_nonce :: "address \<Rightarrow> nat \<Rightarrow> agent_tracker \<Rightarrow> agent_tracker \<times> bool" where
  "tracker_remember_nonce a nonce t =
     (t\<lparr>at_address_to_nonce_set := bt_insert a (bs_insert nonce (nonce_set_of t a)) (at_address_to_nonce_set t)\<rparr>,
      nonce \<notin> set (nonce_set_of t a))"

definition push_pending_removal :: "address \<Rightarrow> address \<Rightarrow> nat \<Rightarrow> agent_tracker \<Rightarrow> agent_tracker" where
  "push_pending_removal user agent ready_at_ms t =
     t\<lparr>at_user_to_pending_agent_removals :=
         bt_insert user (bs_insert (PendingAgentRemoval ready_at_ms agent) (pending_of t user))
           (at_user_to_pending_agent_removals t)\<rparr>"

definition clear_pending_removal :: "address \<Rightarrow> address \<Rightarrow> agent_tracker \<Rightarrow> agent_tracker" where
  "clear_pending_removal user agent t =
     (case map_of (at_user_to_pending_agent_removals t) user of
        None \<Rightarrow> t
      | Some pending \<Rightarrow>
          (let rest = filter (\<lambda>r. pr_agent_address r \<noteq> agent) pending
           in t\<lparr>at_user_to_pending_agent_removals :=
                  (if rest = [] then bt_remove user (at_user_to_pending_agent_removals t)
                   else bt_insert user rest (at_user_to_pending_agent_removals t))\<rparr>))"

text \<open>\<open>now_ms + AGENT_GRACE_PERIOD_MS\<close> without an overflow check.\<close>

definition grace_end :: "nat \<Rightarrow> nat" where
  "grace_end now_ms = (now_ms + AGENT_GRACE_PERIOD_MS) mod 2 ^ 64"

definition save_main_agent :: "address \<Rightarrow> address option \<Rightarrow> nat \<Rightarrow> nat \<Rightarrow> agent_tracker \<Rightarrow> agent_tracker \<times> nat" where
  "save_main_agent user new_agent valid_until_ms now_ms t =
     (case new_agent of
        Some agent \<Rightarrow>
          (if agent = 0
           then case map_of (at_user_to_main_agent t) user of
                  Some previous \<Rightarrow>
                    (push_pending_removal user (ma_agent_address previous) (grace_end now_ms)
                       (t\<lparr>at_user_to_main_agent := bt_remove user (at_user_to_main_agent t)\<rparr>), AGENT_OK)
                | None \<Rightarrow> (t, AGENT_OK)
           else if valid_until_ms \<le> saturating_add_u64 now_ms AGENT_GRACE_PERIOD_MS then (t, ERR_AGENT_VALID_UNTIL_PASSED)
           else if (case map_of (at_agent_to_user t) agent of None \<Rightarrow> False | Some owner \<Rightarrow> owner \<noteq> user)
           then (t, ERR_SAVE_AGENT_UNEXPECTED)
           else if (case map_of (at_user_to_main_agent t) user of None \<Rightarrow> False | Some cur \<Rightarrow> ma_agent_address cur \<noteq> agent)
           then (t, ERR_SAVE_AGENT_UNEXPECTED)
           else let t1 = clear_pending_removal user agent t
                in (t1\<lparr>at_agent_to_user := bt_insert agent user (at_agent_to_user t1),
                       at_user_to_main_agent := bt_insert user
                         \<lparr>ma_agent_address = agent, ma_valid_until_ms = valid_until_ms\<rparr> (at_user_to_main_agent t1)\<rparr>, AGENT_OK))
      | None \<Rightarrow>
          (case map_of (at_user_to_main_agent t) user of
             Some previous \<Rightarrow>
               (push_pending_removal user (ma_agent_address previous) (grace_end now_ms)
                  (t\<lparr>at_user_to_main_agent := bt_remove user (at_user_to_main_agent t)\<rparr>), AGENT_OK)
           | None \<Rightarrow> (t, AGENT_OK)))"

definition extra_agent_limit_from_tier :: "int \<Rightarrow> nat" where
  "extra_agent_limit_from_tier tier =
     (if tier < 0 then u64_max
      else saturating_add_u64 BASE_EXTRA_AGENT_LIMIT (saturating_mul_u64 (nat tier) 2))"

fun agent_position :: "string \<Rightarrow> extra_agent list \<Rightarrow> nat option" where
  "agent_position name [] = None"
| "agent_position name (a # as) = (if ea_name a = name then Some 0 else map_option Suc (agent_position name as))"

definition put_extra_agents :: "address \<Rightarrow> extra_agent list \<Rightarrow> agent_tracker \<Rightarrow> agent_tracker" where
  "put_extra_agents user agents t =
     t\<lparr>at_user_to_extra_agents := bt_insert user agents (at_user_to_extra_agents t)\<rparr>"

definition claim_agent :: "address \<Rightarrow> address \<Rightarrow> agent_tracker \<Rightarrow> agent_tracker" where
  "claim_agent user agent t =
     clear_pending_removal user agent (t\<lparr>at_agent_to_user := bt_insert agent user (at_agent_to_user t)\<rparr>)"

definition save_extra_agent ::
  "address \<Rightarrow> string \<Rightarrow> address \<Rightarrow> nat \<Rightarrow> nat \<Rightarrow> int \<Rightarrow> agent_tracker \<Rightarrow> agent_tracker \<times> nat" where
  "save_extra_agent user name agent valid_until_ms now_ms tier t =
     (let agents = extra_agents t user;
          existing = agent_position name agents;
          new = \<lparr>ea_name = name, ea_agent_address = agent, ea_valid_until_ms = valid_until_ms\<rparr>
      in if name = [] \<or> 16 < length name then (t, ERR_EXTRA_AGENT_INVALID_NAME)
         else if valid_until_ms \<le> saturating_add_u64 now_ms AGENT_GRACE_PERIOD_MS then (t, ERR_AGENT_VALID_UNTIL_PASSED)
         else case existing of
           Some i \<Rightarrow>
             (if ea_agent_address (agents ! i) = agent
              then if (case map_of (at_agent_to_user t) agent of None \<Rightarrow> False | Some owner \<Rightarrow> owner \<noteq> user)
                   then (t, ERR_EXTRA_AGENT_ALREADY_USED)
                   else (claim_agent user agent
                           (put_extra_agents user (agents[i := (agents ! i)\<lparr>ea_valid_until_ms := valid_until_ms\<rparr>]) t), AGENT_OK)
              else if bt_contains (at_agent_to_user t) agent then (t, ERR_EXTRA_AGENT_ALREADY_USED)
              else (claim_agent user agent
                      (push_pending_removal user (ea_agent_address (agents ! i)) (grace_end now_ms)
                         (put_extra_agents user (agents[i := new]) t)), AGENT_OK))
         | None \<Rightarrow>
             (if bt_contains (at_agent_to_user t) agent then (t, ERR_EXTRA_AGENT_ALREADY_USED)
              else if agent \<notin> set EXTRA_AGENT_CAP_BYPASS \<and> extra_agent_limit_from_tier tier \<le> length agents
              then (put_extra_agents user agents t, ERR_TOO_MANY_EXTRA_AGENTS)
              else (claim_agent user agent (put_extra_agents user (agents @ [new]) t), AGENT_OK)))"

definition remove_extra_agent_by_name :: "address \<Rightarrow> string \<Rightarrow> nat \<Rightarrow> agent_tracker \<Rightarrow> agent_tracker \<times> nat" where
  "remove_extra_agent_by_name user name now_ms t =
     (case map_of (at_user_to_extra_agents t) user of
        None \<Rightarrow> (t, ERR_EXTRA_AGENT_DOES_NOT_EXIST)
      | Some agents \<Rightarrow>
          (case agent_position name agents of
             None \<Rightarrow> (t, ERR_EXTRA_AGENT_DOES_NOT_EXIST)
           | Some i \<Rightarrow>
               (let rest = take i agents @ drop (Suc i) agents;
                    t1 = t\<lparr>at_user_to_extra_agents :=
                            (if rest = [] then bt_remove user (at_user_to_extra_agents t)
                             else bt_insert user rest (at_user_to_extra_agents t))\<rparr>
                in (push_pending_removal user (ea_agent_address (agents ! i))
                      (saturating_add_u64 now_ms AGENT_GRACE_PERIOD_MS) t1, AGENT_OK))))"

definition tracker_forget_agent :: "(address \<Rightarrow> bool) \<Rightarrow> address \<Rightarrow> agent_tracker \<Rightarrow> agent_tracker" where
  "tracker_forget_agent is_real_user a t =
     t\<lparr>at_agent_to_user := bt_remove a (at_agent_to_user t),
       at_address_to_nonce_set :=
         (if is_real_user a then at_address_to_nonce_set t else bt_remove a (at_address_to_nonce_set t))\<rparr>"

definition prune_pending_agent_removals :: "nat \<Rightarrow> (address \<Rightarrow> bool) \<Rightarrow> agent_tracker \<Rightarrow> agent_tracker" where
  "prune_pending_agent_removals now_ms is_real_user t =
     fold (tracker_forget_agent is_real_user) (expired_agents now_ms (at_user_to_pending_agent_removals t))
       (t\<lparr>at_user_to_pending_agent_removals := surviving_removals now_ms (at_user_to_pending_agent_removals t)\<rparr>)"

section \<open>Who an agent signs for\<close>

lemma clear_pending_sel [simp]:
  "at_agent_to_user (clear_pending_removal user agent t) = at_agent_to_user t"
  "at_user_to_extra_agents (clear_pending_removal user agent t) = at_user_to_extra_agents t"
  "at_user_to_main_agent (clear_pending_removal user agent t) = at_user_to_main_agent t"
  by (simp_all add: clear_pending_removal_def Let_def split: option.split)

lemma tracker_sel [simp]:
  "at_agent_to_user (push_pending_removal user agent r t) = at_agent_to_user t"
  "at_agent_to_user (put_extra_agents user agents t) = at_agent_to_user t"
  "at_agent_to_user (claim_agent user agent t) = bt_insert agent user (at_agent_to_user t)"
  by (simp_all add: push_pending_removal_def put_extra_agents_def claim_agent_def)

lemma set_expired_agents:
  "set (expired_agents now pending) = (\<Union>p \<in> set pending. pr_agent_address ` {r \<in> set (snd p). pr_ready_at_ms r \<le> now})"
proof -
  have inner: "set (fold (\<lambda>r. bs_insert (pr_agent_address r)) rs acc) = pr_agent_address ` set rs \<union> set acc"
    for rs :: "pending_agent_removal list" and acc
    by (induction rs arbitrary: acc) auto
  have "set (fold (\<lambda>e acc. fold (\<lambda>r. bs_insert (pr_agent_address r)) (filter (\<lambda>r. pr_ready_at_ms r \<le> now) (snd e)) acc) pending acc) =
      (\<Union>p \<in> set pending. pr_agent_address ` {r \<in> set (snd p). pr_ready_at_ms r \<le> now}) \<union> set acc" for acc
    by (induction pending arbitrary: acc) (simp_all add: inner Un_assoc Un_left_commute)
  from this [of "[]"] show ?thesis by (simp add: expired_agents_def)
qed

lemma expired_agent_iff:
  "a \<in> set (expired_agents now pending) \<longleftrightarrow>
     (\<exists>p r. p \<in> set pending \<and> r \<in> set (snd p) \<and> pr_agent_address r = a \<and> pr_ready_at_ms r \<le> now)"
  unfolding set_expired_agents by blast

lemma fold_forget:
  "map_of (at_agent_to_user (fold (tracker_forget_agent f) as t)) a =
     (if a \<in> set as then None else map_of (at_agent_to_user t) a) \<and>
   at_user_to_extra_agents (fold (tracker_forget_agent f) as t) = at_user_to_extra_agents t"
  by (induction as arbitrary: t) (auto simp: tracker_forget_agent_def)

lemma prune_user_for_agent:
  "user_for_agent (prune_pending_agent_removals now f t) a =
     (if a \<in> set (expired_agents now (at_user_to_pending_agent_removals t)) then None else user_for_agent t a)"
  by (simp add: prune_pending_agent_removals_def user_for_agent_def fold_forget)

text \<open>Saving an agent never takes it from another user.\<close>

lemma save_main_keeps:
  assumes "user_for_agent t a = Some u"
  shows "user_for_agent (fst (save_main_agent user new v now t)) a = Some u"
  using assms
  by (auto simp: save_main_agent_def user_for_agent_def Let_def split: option.splits if_splits)

lemma save_extra_keeps:
  assumes "user_for_agent t a = Some u"
  shows "user_for_agent (fst (save_extra_agent user name agent v now tier t)) a = Some u"
  using assms
  by (auto simp: save_extra_agent_def user_for_agent_def Let_def bt_contains_def split: option.splits if_splits)

lemma remove_extra_keeps:
  "user_for_agent (fst (remove_extra_agent_by_name user name now t)) a = user_for_agent t a"
  by (simp add: remove_extra_agent_by_name_def user_for_agent_def Let_def split: option.split)

inductive tracker_step :: "agent_tracker \<Rightarrow> agent_tracker \<Rightarrow> bool" where
  main: "tracker_step t (fst (save_main_agent user new valid now t))"
| extra: "tracker_step t (fst (save_extra_agent user name agent valid now tier t))"
| remove: "tracker_step t (fst (remove_extra_agent_by_name user name now t))"
| nonce: "tracker_step t (fst (tracker_remember_nonce a n t))"

interpretation agent_owner: invariant_system tracker_step "\<lambda>t. user_for_agent t a = Some u"
  for a u
proof (unfold_locales, goal_cases)
  case (1 s t)
  then show ?case
    by (cases rule: tracker_step.cases)
      (simp_all add: save_main_keeps save_extra_keeps remove_extra_keeps, simp add: tracker_remember_nonce_def user_for_agent_def)
qed

text \<open>An agent that signs for a user keeps signing for that user through any sequence of approvals,
  renewals and removals by anybody; only a prune takes it away, and only an agent for which an expired
  removal is pending.  So no user can take over another user's agent.\<close>

lemma agent_never_taken_over:
  assumes "tracker_step\<^sup>*\<^sup>* t t'" and "user_for_agent t a = Some u"
  shows "user_for_agent t' a = Some u \<and>
    user_for_agent (prune_pending_agent_removals now f t') a =
      (if \<exists>p r. p \<in> set (at_user_to_pending_agent_removals t') \<and> r \<in> set (snd p) \<and> pr_agent_address r = a \<and>
            pr_ready_at_ms r \<le> now then None else Some u)"
  unfolding prune_user_for_agent expired_agent_iff agent_owner.run_invar [OF assms] by (intro conjI refl)

lemma push_expired:
  assumes "bt_wf (at_user_to_pending_agent_removals t)" and "r \<le> now"
  shows "agent \<in> set (expired_agents now (at_user_to_pending_agent_removals (push_pending_removal user agent r t)))"
proof -
  let ?p = "bs_insert (PendingAgentRemoval r agent) (pending_of t user)"
  let ?m = "bt_insert user ?p (at_user_to_pending_agent_removals t)"
  have "map_of ?m user = Some ?p" by simp
  then have "(user, ?p) \<in> set ?m" by (rule map_of_SomeD)
  moreover have "PendingAgentRemoval r agent \<in> set ?p" by simp
  ultimately have "agent \<in> set (expired_agents now ?m)"
    unfolding expired_agent_iff using assms(2)
    by (intro exI [of _ "(user, ?p)"] exI [of _ "PendingAgentRemoval r agent"]) simp
  then show ?thesis by (simp add: push_pending_removal_def)
qed

text \<open>An address may be an extra agent and then also the main agent of the same user.  Clearing the
  main agent queues the address for removal, and the next prune after the grace period revokes it
  although the user still lists it as an extra agent.\<close>

lemma clearing_main_revokes_extra:
  assumes "map_of (at_user_to_main_agent t) user = Some m" and "ma_agent_address m = ea_agent_address x"
    and "x \<in> set (extra_agents t user)" and "bt_wf (at_user_to_pending_agent_removals t)" and "grace_end now \<le> later"
  shows "\<exists>t1. save_main_agent user None v now t = (t1, AGENT_OK) \<and>
    x \<in> set (extra_agents (prune_pending_agent_removals later f t1) user) \<and>
    user_for_agent (prune_pending_agent_removals later f t1) (ea_agent_address x) = None"
proof -
  let ?t0 = "t\<lparr>at_user_to_main_agent := bt_remove user (at_user_to_main_agent t)\<rparr>"
  let ?t1 = "push_pending_removal user (ea_agent_address x) (grace_end now) ?t0"
  have run: "save_main_agent user None v now t = (?t1, AGENT_OK)" using assms(1,2) by (simp add: save_main_agent_def)
  have "ea_agent_address x \<in> set (expired_agents later (at_user_to_pending_agent_removals ?t1))"
    using assms(4,5) by (intro push_expired) simp_all
  then have "user_for_agent (prune_pending_agent_removals later f ?t1) (ea_agent_address x) = None"
    by (simp add: prune_user_for_agent)
  moreover have "extra_agents (prune_pending_agent_removals later f ?t1) user = extra_agents t user"
    by (simp add: prune_pending_agent_removals_def extra_agents_def fold_forget push_pending_removal_def)
  ultimately show ?thesis using run assms(3) by auto
qed

section \<open>Witnesses\<close>

definition tracker_new :: agent_tracker where
  "tracker_new = \<lparr>at_user_to_main_agent = [], at_user_to_extra_agents = [], at_agent_to_user = [],
     at_address_to_nonce_set = [], at_user_to_pending_agent_removals = []\<rparr>"

definition extra_tracker :: agent_tracker where
  "extra_tracker = \<lparr>at_user_to_main_agent = [], at_user_to_extra_agents = [(1, [\<lparr>ea_name = ''x'', ea_agent_address = 5, ea_valid_until_ms = 9000\<rparr>])],
     at_agent_to_user = [(5, 1)], at_address_to_nonce_set = [], at_user_to_pending_agent_removals = []\<rparr>"

definition both_tracker :: agent_tracker where
  "both_tracker = extra_tracker\<lparr>at_user_to_main_agent := [(1, \<lparr>ma_agent_address = 5, ma_valid_until_ms = 9000\<rparr>)]\<rparr>"

lemma both_tracker_reached:
  "save_extra_agent 1 ''x'' 5 9000 0 0 tracker_new = (extra_tracker, AGENT_OK)"
  "save_main_agent 1 (Some 5) 9000 0 extra_tracker = (both_tracker, AGENT_OK)"
  by (simp_all add: save_extra_agent_def save_main_agent_def tracker_new_def extra_tracker_def both_tracker_def extra_agents_def
      saturating_add_u64_def saturating_mul_u64_def u64_max_def AGENT_GRACE_PERIOD_MS_def bt_contains_def
      extra_agent_limit_from_tier_def BASE_EXTRA_AGENT_LIMIT_def claim_agent_def clear_pending_removal_def put_extra_agents_def)

lemma agent_never_taken_over_witness:
  "user_for_agent both_tracker 5 = Some 1"
proof -
  have "tracker_step extra_tracker both_tracker"
    using tracker_step.main [of extra_tracker 1 "Some 5" 9000 0] both_tracker_reached(2) by simp
  moreover have "user_for_agent extra_tracker 5 = Some 1" by (simp add: user_for_agent_def extra_tracker_def)
  ultimately show ?thesis
    using agent_never_taken_over [of extra_tracker both_tracker 5 1 0 "\<lambda>_. False"] by (simp add: r_into_rtranclp)
qed

lemma clearing_main_revokes_extra_witness:
  "\<exists>t1. save_main_agent 1 None 0 10 both_tracker = (t1, AGENT_OK) \<and>
     user_for_agent (prune_pending_agent_removals 2010 (\<lambda>_. False) t1) 5 = None"
  using clearing_main_revokes_extra [of both_tracker 1 "\<lparr>ma_agent_address = 5, ma_valid_until_ms = 9000\<rparr>"
      "\<lparr>ea_name = ''x'', ea_agent_address = 5, ea_valid_until_ms = 9000\<rparr>" 10 2010 0 "\<lambda>_. False"]
  by (auto simp: both_tracker_def extra_tracker_def extra_agents_def grace_end_def AGENT_GRACE_PERIOD_MS_def)

end
