(* ===== verification/Margin_Table.thy ===== *)
theory Margin_Table
  imports Rust_Prelude
begin

text \<open>
  The tiered margin tables of \<open>l1/clearinghouse/margin_table.rs\<close>: validation of a raw table, the tier of a
  notional, the margin formulas and the comparison of two tables.  \<open>None\<close> is a panic (a division by zero
  or an index out of range).
\<close>

section \<open>Data\<close>

definition MAX_MARGIN_TABLE_DESCRIPTION_BYTES :: nat where
  "MAX_MARGIN_TABLE_DESCRIPTION_BYTES = 250"

definition MAX_MARGIN_TIERS :: nat where
  "MAX_MARGIN_TIERS = 3"

definition MAX_MARGIN_LEVERAGE :: nat where
  "MAX_MARGIN_LEVERAGE = 50"

definition MAX_WIRE_NTL_RAW :: nat where
  "MAX_WIRE_NTL_RAW = 0x0ccccccccccccccc"

definition MAX_MARGIN_TIER_LOWER_BOUND_RAW :: nat where
  "MAX_MARGIN_TIER_LOWER_BOUND_RAW = 1000000000000000"

record raw_margin_tier =
  rt_lower_bound :: nat
  rt_max_leverage :: nat

record raw_margin_table =
  rm_description :: string
  rm_margin_tiers :: "raw_margin_tier list"

record margin_tier =
  mt_lower_bound :: nat
  mt_upper_bound :: "nat option"
  mt_prior_contribution :: nat
  mt_max_leverage :: nat

record margin_table =
  tb_description :: string
  tb_tiers :: "margin_tier list"

datatype margin_table_relation = NoMorePermissive | StrictlyMorePermissive | Incomparable

datatype margin_table_error =
  DescriptionTooLong nat | EmptyTiers | TooManyTiers nat | LowerBoundTooLarge nat
| LowerBoundShouldStartAtZero | LowerBoundShouldIncrease | MaxLeverageTooBig nat | MaxLeverageShouldDecrease

section \<open>Construction\<close>

definition validate_tier :: "nat \<Rightarrow> raw_margin_tier \<Rightarrow> margin_table_error + unit" where
  "validate_tier index t =
     (if MAX_WIRE_NTL_RAW \<le> rt_lower_bound t then Inl (LowerBoundTooLarge (rt_lower_bound t))
      else if index \<noteq> 0 \<and> MAX_MARGIN_TIER_LOWER_BOUND_RAW < rt_lower_bound t
      then Inl (LowerBoundTooLarge (rt_lower_bound t))
      else if MAX_MARGIN_LEVERAGE < rt_max_leverage t then Inl (MaxLeverageTooBig (rt_max_leverage t))
      else Inr ())"

definition checked_div :: "nat \<Rightarrow> nat \<Rightarrow> nat option" where
  "checked_div a b = (if b = 0 then None else Some (a div b))"

text \<open>The step from one tier to the next: the prior contribution, with the divisions that may panic.\<close>

definition next_prior :: "nat \<Rightarrow> nat \<Rightarrow> raw_margin_tier \<Rightarrow> nat option" where
  "next_prior prior previous_leverage t =
     (case checked_div (rt_lower_bound t) (2 * rt_max_leverage t) of
        None \<Rightarrow> None
      | Some current \<Rightarrow>
          (case checked_div (rt_lower_bound t) (2 * previous_leverage) of
             None \<Rightarrow> None
           | Some previous \<Rightarrow> Some (saturating_add_u64 prior (saturating_sub_u64 current previous))))"

definition tier_of :: "raw_margin_tier \<Rightarrow> raw_margin_tier list \<Rightarrow> nat \<Rightarrow> margin_tier" where
  "tier_of t ts prior =
     \<lparr>mt_lower_bound = rt_lower_bound t,
      mt_upper_bound = (case ts of [] \<Rightarrow> None | next # _ \<Rightarrow> Some (rt_lower_bound next)),
      mt_prior_contribution = prior, mt_max_leverage = rt_max_leverage t\<rparr>"

fun build_tiers ::
  "nat \<Rightarrow> nat \<Rightarrow> nat \<Rightarrow> nat \<Rightarrow> raw_margin_tier list \<Rightarrow> (margin_table_error + margin_tier list) option" where
  "build_tiers index previous_lower previous_leverage prior [] = Some (Inr [])"
| "build_tiers index previous_lower previous_leverage prior (t # ts) =
     (case validate_tier index t of
        Inl e \<Rightarrow> Some (Inl e)
      | Inr _ \<Rightarrow>
          (if index = 0 \<and> rt_lower_bound t \<noteq> 0 then Some (Inl LowerBoundShouldStartAtZero)
           else if index \<noteq> 0 \<and> rt_lower_bound t \<le> previous_lower then Some (Inl LowerBoundShouldIncrease)
           else if index \<noteq> 0 \<and> previous_leverage \<le> rt_max_leverage t then Some (Inl MaxLeverageShouldDecrease)
           else case (if index = 0 then Some prior else next_prior prior previous_leverage t) of
             None \<Rightarrow> None
           | Some prior' \<Rightarrow>
               (case build_tiers (Suc index) (rt_lower_bound t) (rt_max_leverage t) prior' ts of
                  None \<Rightarrow> None
                | Some (Inl e) \<Rightarrow> Some (Inl e)
                | Some (Inr rest) \<Rightarrow> Some (Inr (tier_of t ts prior' # rest)))))"

definition try_from_raw :: "raw_margin_table \<Rightarrow> (margin_table_error + margin_table) option" where
  "try_from_raw raw =
     (if MAX_MARGIN_TABLE_DESCRIPTION_BYTES < length (rm_description raw)
      then Some (Inl (DescriptionTooLong (length (rm_description raw))))
      else if rm_margin_tiers raw = [] then Some (Inl EmptyTiers)
      else if MAX_MARGIN_TIERS < length (rm_margin_tiers raw)
      then Some (Inl (TooManyTiers (length (rm_margin_tiers raw))))
      else case build_tiers 0 0 0 0 (rm_margin_tiers raw) of
        None \<Rightarrow> None
      | Some (Inl e) \<Rightarrow> Some (Inl e)
      | Some (Inr tiers) \<Rightarrow> Some (Inr \<lparr>tb_description = rm_description raw, tb_tiers = tiers\<rparr>))"

definition single_tier :: "string \<Rightarrow> nat \<Rightarrow> (margin_table_error + margin_table) option" where
  "single_tier description max_leverage =
     try_from_raw \<lparr>rm_description = description,
       rm_margin_tiers = [\<lparr>rt_lower_bound = 0, rt_max_leverage = max_leverage\<rparr>]\<rparr>"

definition to_raw :: "margin_table \<Rightarrow> raw_margin_table" where
  "to_raw t = \<lparr>rm_description = tb_description t,
     rm_margin_tiers = map (\<lambda>x. \<lparr>rt_lower_bound = mt_lower_bound x, rt_max_leverage = mt_max_leverage x\<rparr>) (tb_tiers t)\<rparr>"

section \<open>Queries\<close>

fun scan_tiers :: "margin_tier \<Rightarrow> margin_tier list \<Rightarrow> nat \<Rightarrow> margin_tier" where
  "scan_tiers selected [] notional = selected"
| "scan_tiers selected (t # ts) notional =
     (if notional < mt_lower_bound t then selected else scan_tiers t ts notional)"

definition tier_for_notional :: "margin_table \<Rightarrow> nat \<Rightarrow> margin_tier option" where
  "tier_for_notional t notional =
     (case tb_tiers t of [] \<Rightarrow> None | first # rest \<Rightarrow> Some (scan_tiers first rest notional))"

definition max_leverage_for_notional :: "margin_table \<Rightarrow> nat \<Rightarrow> nat option" where
  "max_leverage_for_notional t notional = map_option mt_max_leverage (tier_for_notional t notional)"

definition max_leverage_for_position :: "margin_table \<Rightarrow> nat \<Rightarrow> int \<Rightarrow> nat option" where
  "max_leverage_for_position t px signed_sz =
     (if tb_tiers t = [] then Some MAX_MARGIN_LEVERAGE
      else max_leverage_for_notional t (saturating_mul_u64 (unsigned_abs signed_sz) px))"

definition ntl_div_2x_leverage_minus_prior_contribution :: "margin_table \<Rightarrow> nat \<Rightarrow> nat option" where
  "ntl_div_2x_leverage_minus_prior_contribution t notional =
     (case tier_for_notional t notional of
        None \<Rightarrow> None
      | Some tier \<Rightarrow>
          map_option (\<lambda>q. saturating_sub_u64 q (mt_prior_contribution tier))
            (checked_div notional (2 * mt_max_leverage tier)))"

definition margin_after_tier_offset_div_6x_leverage :: "margin_table \<Rightarrow> nat \<Rightarrow> nat option" where
  "margin_after_tier_offset_div_6x_leverage t notional =
     (case tier_for_notional t notional of
        None \<Rightarrow> None
      | Some tier \<Rightarrow>
          (let leverage = mt_max_leverage tier;
               lhs = saturating_mul_u64 notional 2;
               rhs = saturating_mul_u64 (mt_prior_contribution tier) (4 * leverage)
           in checked_div (saturating_sub_u64 lhs rhs) (6 * leverage)))"

text \<open>Both loops of \<open>relation_to\<close> compare the two leverages at the lower bounds of one table.\<close>

fun compare_at :: "margin_table \<Rightarrow> margin_table \<Rightarrow> margin_tier list \<Rightarrow> bool \<times> bool \<Rightarrow> (bool \<times> bool) option" where
  "compare_at a b [] seen = Some seen"
| "compare_at a b (t # ts) (saw_greater, saw_less) =
     (case (max_leverage_for_notional a (mt_lower_bound t), max_leverage_for_notional b (mt_lower_bound t)) of
        (Some x, Some y) \<Rightarrow> compare_at a b ts (saw_greater \<or> y < x, saw_less \<or> x < y)
      | _ \<Rightarrow> None)"

definition relation_to :: "margin_table \<Rightarrow> margin_table \<Rightarrow> margin_table_relation option" where
  "relation_to a b =
     (case compare_at a b (tb_tiers a) (False, False) of
        None \<Rightarrow> None
      | Some seen \<Rightarrow>
          (case compare_at a b (tb_tiers b) seen of
             None \<Rightarrow> None
           | Some (saw_greater, saw_less) \<Rightarrow>
               Some (if \<not> saw_greater then NoMorePermissive
                     else if saw_less then Incomparable else StrictlyMorePermissive)))"

section \<open>Accepted tables\<close>

text \<open>What a built list of tiers looks like after a tier.\<close>

fun tier_chain :: "margin_tier \<Rightarrow> margin_tier list \<Rightarrow> bool" where
  "tier_chain s [] = True"
| "tier_chain s (t # ts) =
     (mt_lower_bound s < mt_lower_bound t \<and> mt_max_leverage t < mt_max_leverage s \<and> 0 < mt_max_leverage t \<and>
      mt_prior_contribution t = mt_prior_contribution s +
        (mt_lower_bound t div (2 * mt_max_leverage t) - mt_lower_bound t div (2 * mt_max_leverage s)) \<and> tier_chain t ts)"

definition prior_ok :: "margin_tier \<Rightarrow> bool" where
  "prior_ok t \<longleftrightarrow> mt_prior_contribution t \<le> mt_lower_bound t div (2 * mt_max_leverage t)"

lemma div_leverage_mono: "0 < l' \<Longrightarrow> l' \<le> l \<Longrightarrow> (n :: nat) div (2 * l) \<le> n div (2 * l')"
  by (intro div_le_mono2) simp_all

lemma prior_next:
  assumes "prior_ok s" and "tier_chain s (t # ts)"
  shows "prior_ok t" and "mt_lower_bound t div (2 * mt_max_leverage t) - mt_prior_contribution t =
      mt_lower_bound t div (2 * mt_max_leverage s) - mt_prior_contribution s"
    and "mt_prior_contribution s \<le> mt_lower_bound t div (2 * mt_max_leverage s)"
proof -
  let ?c = "mt_lower_bound t div (2 * mt_max_leverage t)" and ?p = "mt_lower_bound t div (2 * mt_max_leverage s)"
  show le: "mt_prior_contribution s \<le> ?p"
    using assms div_le_mono [of "mt_lower_bound s" "mt_lower_bound t" "2 * mt_max_leverage s"] by (simp add: prior_ok_def)
  have "?p \<le> ?c" using assms(2) div_leverage_mono [of "mt_max_leverage t" "mt_max_leverage s"] by simp
  with le assms(2) show "prior_ok t" "?c - mt_prior_contribution t = ?p - mt_prior_contribution s"
    by (auto simp: prior_ok_def)
qed

lemma build_chain:
  assumes "build_tiers (Suc i) (mt_lower_bound s) (mt_max_leverage s) (mt_prior_contribution s) ts = Some (Inr tiers)"
    and "prior_ok s"
  shows "tier_chain s tiers"
  using assms
proof (induction ts arbitrary: i s tiers)
  case (Cons t ts)
  let ?ls = "mt_max_leverage s" and ?lt = "rt_max_leverage t" and ?b = "rt_lower_bound t"
  from Cons.prems(1) obtain prior rest where b: "?b < MAX_WIRE_NTL_RAW" "mt_lower_bound s < ?b" "?lt < ?ls"
    and pr: "next_prior (mt_prior_contribution s) ?ls t = Some prior"
    and rest: "build_tiers (Suc (Suc i)) ?b ?lt prior ts = Some (Inr rest)" "tiers = tier_of t ts prior # rest"
    by (auto simp: validate_tier_def split: if_splits option.splits sum.splits)
  have lt: "0 < ?lt" and prior: "prior = saturating_add_u64 (mt_prior_contribution s) (?b div (2 * ?lt) - ?b div (2 * ?ls))"
    using pr by (auto simp: next_prior_def checked_div_def saturating_sub_u64_def split: option.splits if_splits)
  let ?t = "(tier_of t ts prior)\<lparr>mt_prior_contribution := mt_prior_contribution s + (?b div (2 * ?lt) - ?b div (2 * ?ls))\<rparr>"
  have ok: "prior_ok ?t"
    using prior_next(1) [OF Cons.prems(2), of ?t "[]"] b lt by (simp add: tier_of_def)
  have "?b div (2 * ?lt) \<le> u64_max"
    using b(1) div_le_dividend [of ?b "2 * ?lt"] unfolding MAX_WIRE_NTL_RAW_def u64_max_def by linarith
  then have exact: "prior = mt_prior_contribution s + (?b div (2 * ?lt) - ?b div (2 * ?ls))"
    using ok unfolding prior by (simp add: prior_ok_def tier_of_def saturating_add_u64_def)
  have same: "?t = tier_of t ts prior" using exact by (simp add: tier_of_def)
  have "tier_chain (tier_of t ts prior) rest"
    using Cons.IH [of "Suc i" "tier_of t ts prior" rest] rest(1) ok unfolding same by (simp add: tier_of_def)
  then show ?case using rest(2) b lt exact by (simp add: tier_of_def)
qed simp

lemma accepted_table:
  assumes "try_from_raw raw = Some (Inr t)"
  obtains s ts where "tb_tiers t = s # ts" and "tier_chain s ts" and "prior_ok s" and "mt_lower_bound s = 0"
    and "mt_prior_contribution s = 0"
proof -
  obtain tiers where "build_tiers 0 0 0 0 (rm_margin_tiers raw) = Some (Inr tiers)" "rm_margin_tiers raw \<noteq> []"
    and tiers: "tb_tiers t = tiers"
    using assms by (auto simp: try_from_raw_def split: if_splits option.splits sum.splits)
  then obtain r rs where b: "build_tiers 0 0 0 0 (r # rs) = Some (Inr tiers)" "tb_tiers t = tiers"
    by (cases "rm_margin_tiers raw") simp_all
  then obtain rest where lb: "rt_lower_bound r = 0"
    and rest: "build_tiers (Suc 0) (rt_lower_bound r) (rt_max_leverage r) 0 rs = Some (Inr rest)" "tiers = tier_of r rs 0 # rest"
    by (auto split: if_splits option.splits sum.splits)
  have ok: "prior_ok (tier_of r rs 0)" by (simp add: prior_ok_def tier_of_def)
  have "tier_chain (tier_of r rs 0) rest"
    using build_chain [of 0 "tier_of r rs 0" rs rest] rest(1) ok by (simp add: tier_of_def)
  then show thesis using that b(2) rest(2) ok lb by (simp add: tier_of_def)
qed

section \<open>The margin grows with the notional\<close>

definition tier_margin :: "margin_tier \<Rightarrow> nat \<Rightarrow> nat" where
  "tier_margin t n = n div (2 * mt_max_leverage t) - mt_prior_contribution t"

lemma scan_bounds:
  assumes "tier_chain s ts" and "mt_lower_bound s \<le> n"
  shows "mt_lower_bound (scan_tiers s ts n) \<le> n" and "mt_lower_bound s \<le> mt_lower_bound (scan_tiers s ts n)"
    and "mt_lower_bound (scan_tiers s ts n) \<le> k \<Longrightarrow> k \<le> n \<Longrightarrow> scan_tiers s ts k = scan_tiers s ts n"
    and "scan_tiers s ts n \<in> set (s # ts)"
  using assms
proof (induction ts arbitrary: s)
  case (Cons t ts)
  {
    case 1
    then show ?case using Cons.IH(1) [of t] by auto
  next
    case 2
    then show ?case using Cons.IH(2) [of t] by force
  next
    case 3
    then show ?case using Cons.IH(2,3) [of t] by force
  next
    case 4
    then show ?case using Cons.IH(4) [of t] by auto
  }
qed simp_all

lemma scan_margin_mono:
  assumes "tier_chain s ts" and "prior_ok s" and "mt_lower_bound s \<le> n" and "n \<le> n'"
  shows "tier_margin (scan_tiers s ts n) n \<le> tier_margin (scan_tiers s ts n') n'"
  using assms
proof (induction ts arbitrary: s n)
  case Nil
  then show ?case by (simp add: tier_margin_def div_le_mono diff_le_mono)
next
  case (Cons t ts)
  note next_t = prior_next [OF Cons.prems(2,1)]
  have chain: "tier_chain t ts" using Cons.prems(1) by simp
  show ?case
  proof (cases "mt_lower_bound t \<le> n")
    case True
    then show ?thesis using Cons.IH [OF chain next_t(1) True Cons.prems(4)] Cons.prems(4) by simp
  next
    case low: False
    show ?thesis
    proof (cases "mt_lower_bound t \<le> n'")
      case False
      then show ?thesis using low Cons.prems(4) by (simp add: tier_margin_def div_le_mono diff_le_mono)
    next
      case True
      have "scan_tiers t ts (mt_lower_bound t) = t" using chain by (cases ts) auto
      then have "tier_margin t (mt_lower_bound t) \<le> tier_margin (scan_tiers t ts n') n'"
        using Cons.IH [OF chain next_t(1) order_refl True] by simp
      moreover have "tier_margin s n \<le> tier_margin s (mt_lower_bound t)"
        using low by (simp add: tier_margin_def div_le_mono diff_le_mono)
      moreover have "tier_margin s (mt_lower_bound t) = tier_margin t (mt_lower_bound t)"
        using next_t(2) by (simp add: tier_margin_def)
      ultimately show ?thesis using low True by simp
    qed
  qed
qed

lemma chain_leverage_pos: "tier_chain s ts \<Longrightarrow> 0 < mt_max_leverage s \<Longrightarrow> x \<in> set (s # ts) \<Longrightarrow> 0 < mt_max_leverage x"
  by (induction ts arbitrary: s) auto

lemma margin_value:
  assumes "try_from_raw raw = Some (Inr t)" and "mt_max_leverage (hd (tb_tiers t)) \<noteq> 0"
  obtains s ts where "tb_tiers t = s # ts" and "tier_chain s ts" and "prior_ok s" and "mt_lower_bound s = 0"
    and "\<And>n. ntl_div_2x_leverage_minus_prior_contribution t n = Some (tier_margin (scan_tiers s ts n) n)"
proof -
  obtain s ts where t: "tb_tiers t = s # ts" "tier_chain s ts" "prior_ok s" "mt_lower_bound s = 0"
    using accepted_table [OF assms(1)] .
  have "ntl_div_2x_leverage_minus_prior_contribution t n = Some (tier_margin (scan_tiers s ts n) n)" for n
  proof -
    have "0 < mt_max_leverage (scan_tiers s ts n)"
      using chain_leverage_pos [OF t(2)] scan_bounds(4) [OF t(2), of n] assms(2) t(1,4) by simp
    then show ?thesis
      by (simp add: ntl_div_2x_leverage_minus_prior_contribution_def tier_for_notional_def t(1) checked_div_def tier_margin_def
          saturating_sub_u64_def)
  qed
  with t show thesis by (rule that)
qed

text \<open>C34. For every accepted table whose first leverage is not zero, the tiered margin requirement is
  defined for every notional and never goes down as the notional grows, across tier boundaries too; it
  is at most the notional divided by twice the leverage of its tier.\<close>

theorem margin_requirement_monotone:
  assumes "try_from_raw raw = Some (Inr t)" and "mt_max_leverage (hd (tb_tiers t)) \<noteq> 0" and "n \<le> n'"
  shows "\<exists>m m' lev. ntl_div_2x_leverage_minus_prior_contribution t n = Some m \<and>
    ntl_div_2x_leverage_minus_prior_contribution t n' = Some m' \<and> m \<le> m' \<and>
    max_leverage_for_notional t n = Some lev \<and> m \<le> n div (2 * lev)"
proof -
  obtain s ts where t: "tb_tiers t = s # ts" "tier_chain s ts" "prior_ok s" "mt_lower_bound s = 0"
    "\<And>n. ntl_div_2x_leverage_minus_prior_contribution t n = Some (tier_margin (scan_tiers s ts n) n)"
    using margin_value [OF assms(1,2)] by metis
  have "tier_margin (scan_tiers s ts n) n \<le> tier_margin (scan_tiers s ts n') n'"
    using scan_margin_mono [OF t(2,3) _ assms(3)] t(4) by simp
  moreover have "max_leverage_for_notional t n = Some (mt_max_leverage (scan_tiers s ts n))"
    by (simp add: max_leverage_for_notional_def tier_for_notional_def t(1))
  ultimately show ?thesis using t(5) by (simp add: tier_margin_def)
qed

section \<open>Comparing two tables\<close>

definition leverage :: "margin_table \<Rightarrow> nat \<Rightarrow> nat" where
  "leverage t n = (case max_leverage_for_notional t n of None \<Rightarrow> 0 | Some l \<Rightarrow> l)"

lemma compare_at_seen:
  assumes "\<And>n. max_leverage_for_notional a n = Some (leverage a n)" and "\<And>n. max_leverage_for_notional b n = Some (leverage b n)"
  shows "compare_at a b ts (g, l) = Some
    (g \<or> (\<exists>t \<in> set ts. leverage b (mt_lower_bound t) < leverage a (mt_lower_bound t)),
     l \<or> (\<exists>t \<in> set ts. leverage a (mt_lower_bound t) < leverage b (mt_lower_bound t)))"
  by (induction ts arbitrary: g l) (auto simp: assms)

lemma leverage_scan: "tb_tiers t = s # ts \<Longrightarrow> leverage t n = mt_max_leverage (scan_tiers s ts n)"
  by (simp add: leverage_def max_leverage_for_notional_def tier_for_notional_def)

text \<open>Two step functions that differ at some notional differ at a breakpoint of one of them.\<close>

lemma leverage_breakpoint:
  assumes a: "tb_tiers a = s # ts" "tier_chain s ts" "mt_lower_bound s = 0"
    and b: "tb_tiers b = s' # ts'" "tier_chain s' ts'" "mt_lower_bound s' = 0"
  shows "\<exists>t \<in> set (tb_tiers a) \<union> set (tb_tiers b).
    leverage a n = leverage a (mt_lower_bound t) \<and> leverage b n = leverage b (mt_lower_bound t)"
proof -
  let ?x = "scan_tiers s ts n" and ?y = "scan_tiers s' ts' n"
  let ?k = "max (mt_lower_bound ?x) (mt_lower_bound ?y)"
  have x: "mt_lower_bound ?x \<le> n" "?x \<in> set (s # ts)" and y: "mt_lower_bound ?y \<le> n" "?y \<in> set (s' # ts')"
    using scan_bounds(1,4) [OF a(2)] scan_bounds(1,4) [OF b(2)] a(3) b(3) by simp_all
  have "scan_tiers s ts ?k = ?x" "scan_tiers s' ts' ?k = ?y"
    using scan_bounds(3) [OF a(2), of n ?k] scan_bounds(3) [OF b(2), of n ?k] x(1) y(1) a(3) b(3) by simp_all
  then have "leverage a n = leverage a ?k" "leverage b n = leverage b ?k"
    by (simp_all add: leverage_scan [OF a(1)] leverage_scan [OF b(1)])
  moreover have "?k = mt_lower_bound ?x \<or> ?k = mt_lower_bound ?y" by (simp add: max_def)
  ultimately show ?thesis using x(2) y(2) a(1) b(1) by auto
qed

text \<open>On accepted tables the comparison at the tier boundaries agrees with the comparison at every
  notional: the answer is "no more permissive" exactly when the first table never allows a higher
  leverage, "strictly more permissive" when it sometimes allows a higher and never a lower one, and
  "incomparable" otherwise.\<close>

lemma relation_to_pointwise:
  assumes "try_from_raw raw_a = Some (Inr a)" and "try_from_raw raw_b = Some (Inr b)"
  shows "relation_to a b = Some
    (if \<forall>n. leverage a n \<le> leverage b n then NoMorePermissive
     else if \<forall>n. leverage b n \<le> leverage a n then StrictlyMorePermissive else Incomparable)"
proof -
  obtain s ts where a: "tb_tiers a = s # ts" "tier_chain s ts" "mt_lower_bound s = 0" using accepted_table [OF assms(1)] by metis
  obtain s' ts' where b: "tb_tiers b = s' # ts'" "tier_chain s' ts'" "mt_lower_bound s' = 0" using accepted_table [OF assms(2)] by metis
  have get: "max_leverage_for_notional a n = Some (leverage a n)" "max_leverage_for_notional b n = Some (leverage b n)" for n
    by (simp_all add: leverage_def max_leverage_for_notional_def tier_for_notional_def a(1) b(1))
  let ?T = "set (tb_tiers a) \<union> set (tb_tiers b)"
  have "relation_to a b = Some (if \<not> (\<exists>t \<in> ?T. leverage b (mt_lower_bound t) < leverage a (mt_lower_bound t)) then NoMorePermissive
      else if \<exists>t \<in> ?T. leverage a (mt_lower_bound t) < leverage b (mt_lower_bound t) then Incomparable else StrictlyMorePermissive)"
    unfolding relation_to_def compare_at_seen [OF get] by (simp add: bex_Un compare_at_seen [OF get])
  moreover have "(\<exists>t \<in> ?T. leverage b (mt_lower_bound t) < leverage a (mt_lower_bound t)) \<longleftrightarrow> \<not> (\<forall>n. leverage a n \<le> leverage b n)"
    using leverage_breakpoint [OF a b] by (metis not_le)
  moreover have "(\<exists>t \<in> ?T. leverage a (mt_lower_bound t) < leverage b (mt_lower_bound t)) \<longleftrightarrow> \<not> (\<forall>n. leverage b n \<le> leverage a n)"
    using leverage_breakpoint [OF a b] by (metis not_le)
  ultimately show ?thesis by simp
qed

text \<open>A leverage of zero passes validation: a single-tier table with it is accepted, and then every
  margin query on it panics by dividing by zero.\<close>

lemma zero_leverage_table_panics:
  assumes "length description \<le> 250"
  shows "\<exists>t. single_tier description 0 = Some (Inr t) \<and> ntl_div_2x_leverage_minus_prior_contribution t n = None \<and>
    margin_after_tier_offset_div_6x_leverage t n = None"
  using assms
  by (simp add: single_tier_def try_from_raw_def MAX_MARGIN_TABLE_DESCRIPTION_BYTES_def MAX_MARGIN_TIERS_def validate_tier_def
      MAX_WIRE_NTL_RAW_def MAX_MARGIN_LEVERAGE_def tier_of_def ntl_div_2x_leverage_minus_prior_contribution_def
      margin_after_tier_offset_div_6x_leverage_def tier_for_notional_def checked_div_def Let_def)

section \<open>Witnesses\<close>

definition raw_two :: raw_margin_table where
  "raw_two = \<lparr>rm_description = ''two'', rm_margin_tiers =
     [\<lparr>rt_lower_bound = 0, rt_max_leverage = 20\<rparr>, \<lparr>rt_lower_bound = 1000, rt_max_leverage = 5\<rparr>]\<rparr>"

definition table_two :: margin_table where
  "table_two = \<lparr>tb_description = ''two'', tb_tiers =
     [\<lparr>mt_lower_bound = 0, mt_upper_bound = Some 1000, mt_prior_contribution = 0, mt_max_leverage = 20\<rparr>,
      \<lparr>mt_lower_bound = 1000, mt_upper_bound = None, mt_prior_contribution = 75, mt_max_leverage = 5\<rparr>]\<rparr>"

lemma table_two_built: "try_from_raw raw_two = Some (Inr table_two)"
  by (simp add: try_from_raw_def raw_two_def table_two_def MAX_MARGIN_TABLE_DESCRIPTION_BYTES_def MAX_MARGIN_TIERS_def
      validate_tier_def MAX_WIRE_NTL_RAW_def MAX_MARGIN_LEVERAGE_def MAX_MARGIN_TIER_LOWER_BOUND_RAW_def tier_of_def next_prior_def
      checked_div_def saturating_add_u64_def saturating_sub_u64_def u64_max_def)

theorem margin_requirement_monotone_witness:
  "\<exists>m m'. ntl_div_2x_leverage_minus_prior_contribution table_two 999 = Some m \<and>
     ntl_div_2x_leverage_minus_prior_contribution table_two 1000 = Some m' \<and> m \<le> m'"
  using margin_requirement_monotone [OF table_two_built, of 999 1000] by (auto simp: table_two_def)

lemma relation_to_pointwise_witness: "relation_to table_two table_two = Some NoMorePermissive"
  using relation_to_pointwise [OF table_two_built table_two_built] by simp

lemma zero_leverage_table_panics_witness:
  "\<exists>t. single_tier ''x'' 0 = Some (Inr t) \<and> ntl_div_2x_leverage_minus_prior_contribution t 7 = None"
  using zero_leverage_table_panics [of "''x''" 7] by auto

end
