(* ===== verification/User_State.thy ===== *)
theory User_State
  imports Margin_Table "HOL-Library.Monad_Syntax"
begin

text \<open>
  The margin account of one user, \<open>l1/clearinghouse/user_state.rs\<close>: a cross-margin account value, positions by
  asset that are cross or isolated, the margin requirement of a position in five modes, transfers between
  the account and isolated margin, changes of leverage, and the list of what is under water.  \<open>None\<close> is a
  panic: a missing price row, a negative price, a notional outside \<open>i64\<close>, a missing margin table, or the two
  explicit panics of \<open>margin_delta_for_asset\<close>.  The padding fields of the structures are left out; nothing reads them.
\<close>

section \<open>Data\<close>

definition ASSETS_PER_DEX :: nat where
  "ASSETS_PER_DEX = 10000"

definition BUILTIN_MARGIN_TABLE_CUTOFF :: nat where
  "BUILTIN_MARGIN_TABLE_CUTOFF = 50"

definition RESULT_INVALID_MAX_LEVERAGE :: nat where
  "RESULT_INVALID_MAX_LEVERAGE = 67"

definition RESULT_LEVERAGE_MODE_MISMATCH :: nat where
  "RESULT_LEVERAGE_MODE_MISMATCH = 69"

definition RESULT_MISSING_USER_FOR_POSITION_DELTA :: nat where
  "RESULT_MISSING_USER_FOR_POSITION_DELTA = 72"

definition RESULT_ZERO_POSITION_DELTA :: nat where
  "RESULT_ZERO_POSITION_DELTA = 73"

definition RESULT_INSUFFICIENT_AVAILABLE_MARGIN :: nat where
  "RESULT_INSUFFICIENT_AVAILABLE_MARGIN = 75"

definition RESULT_MARGIN_WOULD_BE_NEGATIVE :: nat where
  "RESULT_MARGIN_WOULD_BE_NEGATIVE = 76"

definition RESULT_NON_NORMAL_POSITION_CONTEXT :: nat where
  "RESULT_NON_NORMAL_POSITION_CONTEXT = 77"

definition RESULT_DELISTED_ASSET_CANNOT_BE_REDUCED_HERE :: nat where
  "RESULT_DELISTED_ASSET_CANNOT_BE_REDUCED_HERE = 78"

definition RESULT_MARGIN_TABLE_WOULD_INCREASE_REQUIREMENT :: nat where
  "RESULT_MARGIN_TABLE_WOULD_INCREASE_REQUIREMENT = 79"

definition RESULT_SIGNED_POSITION_OVERFLOW :: nat where
  "RESULT_SIGNED_POSITION_OVERFLOW = 190"

definition RESULT_ACCOUNT_VALUE_OVERFLOW :: nat where
  "RESULT_ACCOUNT_VALUE_OVERFLOW = 191"

definition RESULT_SUCCESS :: nat where
  "RESULT_SUCCESS = 390"

lemmas result_codes = RESULT_INVALID_MAX_LEVERAGE_def RESULT_LEVERAGE_MODE_MISMATCH_def
  RESULT_MISSING_USER_FOR_POSITION_DELTA_def RESULT_ZERO_POSITION_DELTA_def RESULT_INSUFFICIENT_AVAILABLE_MARGIN_def
  RESULT_MARGIN_WOULD_BE_NEGATIVE_def RESULT_NON_NORMAL_POSITION_CONTEXT_def
  RESULT_DELISTED_ASSET_CANNOT_BE_REDUCED_HERE_def RESULT_MARGIN_TABLE_WOULD_INCREASE_REQUIREMENT_def
  RESULT_SIGNED_POSITION_OVERFLOW_def RESULT_ACCOUNT_VALUE_OVERFLOW_def RESULT_SUCCESS_def

datatype position_margin_mode = NoRequirement | SimpleMaxLeverage | InitialMargin | MaintenanceMargin | CappedLeverage

datatype trading_status = TradingActive | TradingReduceOnly | TradingDelisted | TradingDisabled

record position_record =
  po_margin_mode_or_isolated :: nat
  po_max_leverage :: nat
  po_margin_raw :: int
  po_szi :: int
  po_cumulative_funding_raw :: int
  po_margin_table_id :: nat

definition position_default :: position_record where
  "position_default = \<lparr>po_margin_mode_or_isolated = 0, po_max_leverage = 0, po_margin_raw = 0, po_szi = 0,
     po_cumulative_funding_raw = 0, po_margin_table_id = 0\<rparr>"

record user_state =
  us_signed_account_value :: int
  us_positions_by_asset :: "(nat, position_record) btree"
  us_open_position_count :: nat
  us_cached_margin_by_asset :: "(nat, int) btree"

record aggregate_margin_summary =
  ag_signed_equity_or_value :: int
  ag_margin_requirement_sum :: nat
  ag_abs_notional_sum :: nat
  ag_isolated_margin_sum :: int

record margin_summary =
  ms_active :: bool
  ms_signed_margin_after :: int
  ms_effective_margin :: nat
  ms_notional :: nat
  ms_previous_margin :: int
  ms_computed_requirement :: nat

datatype negative_margin_kind = NegativeAccount | NegativeIsolatedAsset

record negative_margin_entry =
  ne_kind :: negative_margin_kind
  ne_asset :: "nat option"
  ne_delta :: int
  ne_user :: address

record oracle_asset_row =
  oa_signed_px_raw :: int

type_synonym oracle_prices = "oracle_asset_row list"

record view_tier =
  vt_lower_bound :: nat
  vt_prior_contribution :: nat
  vt_max_leverage :: nat

type_synonym view_table = "view_tier list"

type_synonym margin_tables_view = "(nat, view_table) btree"

section \<open>Prices and margin tables\<close>

definition price_for_asset :: "oracle_prices \<Rightarrow> nat \<Rightarrow> int option" where
  "price_for_asset rows asset =
     (let local = asset mod ASSETS_PER_DEX
      in if local < length rows then Some (oa_signed_px_raw (rows ! local)) else None)"

definition view_single_tier :: "nat \<Rightarrow> view_table" where
  "view_single_tier max_leverage =
     [\<lparr>vt_lower_bound = 0, vt_prior_contribution = 0, vt_max_leverage = max max_leverage 1\<rparr>]"

definition margin_table_for_selector :: "margin_tables_view \<Rightarrow> nat \<Rightarrow> view_table option" where
  "margin_table_for_selector tables selector =
     (if selector < BUILTIN_MARGIN_TABLE_CUTOFF then Some (view_single_tier (selector mod 256))
      else map_of tables selector)"

fun view_scan :: "view_tier \<Rightarrow> view_tier list \<Rightarrow> nat \<Rightarrow> view_tier" where
  "view_scan selected [] notional = selected"
| "view_scan selected (t # ts) notional =
     (if notional < vt_lower_bound t then selected else view_scan t ts notional)"

definition view_tier_for_notional :: "view_table \<Rightarrow> nat \<Rightarrow> view_tier option" where
  "view_tier_for_notional tiers notional =
     (case tiers of [] \<Rightarrow> None | first # rest \<Rightarrow> Some (view_scan first rest notional))"

definition view_initial_margin :: "view_table \<Rightarrow> nat \<Rightarrow> nat option" where
  "view_initial_margin tiers notional =
     map_option (\<lambda>tier. saturating_sub_u64 (notional div (2 * max (vt_max_leverage tier) 1)) (vt_prior_contribution tier))
       (view_tier_for_notional tiers notional)"

definition view_maintenance_margin :: "view_table \<Rightarrow> nat \<Rightarrow> nat option" where
  "view_maintenance_margin tiers notional =
     map_option (\<lambda>tier.
         let lev = max (vt_max_leverage tier) 1;
             lhs = saturating_mul_u64 notional 2;
             rhs = saturating_mul_u64 (vt_prior_contribution tier) (4 * lev)
         in saturating_sub_u64 lhs rhs div (6 * lev))
       (view_tier_for_notional tiers notional)"

section \<open>One position\<close>

definition is_isolated :: "position_record \<Rightarrow> bool" where
  "is_isolated p \<longleftrightarrow> po_margin_mode_or_isolated p mod 256 \<noteq> 0"

definition is_cross :: "position_record \<Rightarrow> bool" where
  "is_cross p \<longleftrightarrow> \<not> is_isolated p"

definition checked_signed_notional :: "int \<Rightarrow> int \<Rightarrow> int option" where
  "checked_signed_notional szi oracle_px_raw = (if oracle_px_raw < 0 then None else checked_mul_i64 szi oracle_px_raw)"

definition signed_notional :: "position_record \<Rightarrow> int \<Rightarrow> int option" where
  "signed_notional p oracle_px_raw = checked_signed_notional (po_szi p) oracle_px_raw"

definition abs_notional :: "position_record \<Rightarrow> int \<Rightarrow> nat option" where
  "abs_notional p oracle_px_raw = map_option unsigned_abs (signed_notional p oracle_px_raw)"

definition with_margin_delta :: "position_record \<Rightarrow> int \<Rightarrow> nat + position_record" where
  "with_margin_delta p delta =
     (case checked_add_i64 (po_margin_raw p) delta of
        None \<Rightarrow> Inl RESULT_SIGNED_POSITION_OVERFLOW | Some v \<Rightarrow> Inr (p\<lparr>po_margin_raw := v\<rparr>))"

definition with_size_delta :: "position_record \<Rightarrow> int \<Rightarrow> nat + position_record" where
  "with_size_delta p delta =
     (case checked_add_i64 (po_szi p) delta of
        None \<Rightarrow> Inl RESULT_SIGNED_POSITION_OVERFLOW | Some v \<Rightarrow> Inr (p\<lparr>po_szi := v\<rparr>))"

definition div_by_leverage :: "nat \<Rightarrow> nat \<Rightarrow> nat" where
  "div_by_leverage notional lev = notional div max lev 1"

definition requirement_by_mode ::
  "position_record \<Rightarrow> nat \<Rightarrow> position_margin_mode \<Rightarrow> nat \<Rightarrow> margin_tables_view \<Rightarrow> nat option" where
  "requirement_by_mode p notional mode cap_leverage tables =
     (case mode of
        NoRequirement \<Rightarrow> Some 0
      | SimpleMaxLeverage \<Rightarrow> Some (div_by_leverage notional (po_max_leverage p))
      | InitialMargin \<Rightarrow>
          do { table \<leftarrow> margin_table_for_selector tables (po_margin_table_id p); view_initial_margin table notional }
      | MaintenanceMargin \<Rightarrow>
          do { table \<leftarrow> margin_table_for_selector tables (po_margin_table_id p); view_maintenance_margin table notional }
      | CappedLeverage \<Rightarrow> Some (div_by_leverage notional (min (po_max_leverage p) cap_leverage)))"

definition compute_margin_requirement_by_mode ::
  "position_record \<Rightarrow> int \<Rightarrow> position_margin_mode \<Rightarrow> nat \<Rightarrow> margin_tables_view \<Rightarrow> margin_summary option" where
  "compute_margin_requirement_by_mode p oracle_px_raw mode cap_leverage tables =
     do {
       signed \<leftarrow> signed_notional p oracle_px_raw;
       requirement \<leftarrow> requirement_by_mode p (unsigned_abs signed) mode cap_leverage tables;
       Some (if is_cross p
             then \<lparr>ms_active = False, ms_signed_margin_after = signed, ms_effective_margin = requirement,
                   ms_notional = unsigned_abs signed, ms_previous_margin = 0, ms_computed_requirement = 0\<rparr>
             else \<lparr>ms_active = True, ms_signed_margin_after = saturating_add_i64 (po_margin_raw p) signed,
                   ms_effective_margin = nat (max (saturating_add_i64 (po_margin_raw p) signed) 0),
                   ms_notional = unsigned_abs signed, ms_previous_margin = po_margin_raw p,
                   ms_computed_requirement = requirement\<rparr>)
     }"

text \<open>The surplus of a summary over its requirement, as three functions of the source write it.\<close>

definition isolated_surplus :: "margin_summary \<Rightarrow> int" where
  "isolated_surplus s =
     saturating_sub_i64 (ms_signed_margin_after s) (int (min (ms_computed_requirement s) (nat i64_max)))"

section \<open>The user's account\<close>

definition open_positions :: "(nat, position_record) btree \<Rightarrow> nat" where
  "open_positions m = length (filter (\<lambda>e. po_szi (snd e) \<noteq> 0) m)"

definition refresh_open_position_count :: "user_state \<Rightarrow> user_state \<times> nat" where
  "refresh_open_position_count u =
     (let count = open_positions (us_positions_by_asset u) in (u\<lparr>us_open_position_count := count\<rparr>, count))"

definition apply_open_position_count_delta :: "int \<Rightarrow> int \<Rightarrow> user_state \<Rightarrow> user_state" where
  "apply_open_position_count_delta old_szi new_szi u =
     (case (old_szi = 0, new_szi = 0) of
        (True, False) \<Rightarrow> u\<lparr>us_open_position_count := saturating_add_u64 (us_open_position_count u) 1\<rparr>
      | (False, True) \<Rightarrow> u\<lparr>us_open_position_count := saturating_sub_u64 (us_open_position_count u) 1\<rparr>
      | _ \<Rightarrow> u)"

fun aggregate_positions ::
  "bool \<Rightarrow> position_margin_mode \<Rightarrow> nat \<Rightarrow> oracle_prices \<Rightarrow> margin_tables_view \<Rightarrow>
   (nat, position_record) btree \<Rightarrow> aggregate_margin_summary \<Rightarrow> aggregate_margin_summary option" where
  "aggregate_positions include_isolated mode cap_leverage prices tables [] out = Some out"
| "aggregate_positions include_isolated mode cap_leverage prices tables ((asset, p) # m) out =
     (if \<not> include_isolated \<and> is_isolated p
      then aggregate_positions include_isolated mode cap_leverage prices tables m out
      else do {
        px \<leftarrow> price_for_asset prices asset;
        s \<leftarrow> compute_margin_requirement_by_mode p px mode cap_leverage tables;
        aggregate_positions include_isolated mode cap_leverage prices tables m
          \<lparr>ag_signed_equity_or_value = saturating_add_i64 (ag_signed_equity_or_value out) (ms_signed_margin_after s),
           ag_margin_requirement_sum = saturating_add_u64 (ag_margin_requirement_sum out) (ms_effective_margin s),
           ag_abs_notional_sum = saturating_add_u64 (ag_abs_notional_sum out) (ms_notional s),
           ag_isolated_margin_sum =
             (if ms_active s then saturating_add_i64 (ag_isolated_margin_sum out) (ms_previous_margin s)
              else ag_isolated_margin_sum out)\<rparr>
      })"

definition aggregate_position_margin_summary ::
  "bool \<Rightarrow> position_margin_mode \<Rightarrow> nat \<Rightarrow> oracle_prices \<Rightarrow> margin_tables_view \<Rightarrow> user_state \<Rightarrow>
   aggregate_margin_summary option" where
  "aggregate_position_margin_summary include_isolated mode cap_leverage prices tables u =
     aggregate_positions include_isolated mode cap_leverage prices tables (us_positions_by_asset u)
       \<lparr>ag_signed_equity_or_value = us_signed_account_value u, ag_margin_requirement_sum = 0,
        ag_abs_notional_sum = 0, ag_isolated_margin_sum = 0\<rparr>"

definition margin_delta_for_asset ::
  "bool \<Rightarrow> nat \<Rightarrow> position_margin_mode \<Rightarrow> nat \<Rightarrow> oracle_prices \<Rightarrow> margin_tables_view \<Rightarrow> user_state \<Rightarrow> int option" where
  "margin_delta_for_asset isolated asset mode cap_leverage prices tables u =
     (if isolated
      then (case map_of (us_positions_by_asset u) asset of
              None \<Rightarrow> Some 0
            | Some p \<Rightarrow> do {
                px \<leftarrow> price_for_asset prices asset;
                s \<leftarrow> compute_margin_requirement_by_mode p px mode cap_leverage tables;
                if \<not> ms_active s then None else Some (isolated_surplus s)
              })
      else do {
        a \<leftarrow> aggregate_position_margin_summary False mode cap_leverage prices tables u;
        if nat i64_max < ag_margin_requirement_sum a then None
        else Some (saturating_sub_i64 (ag_signed_equity_or_value a) (int (ag_margin_requirement_sum a)))
      })"

definition available_margin_after_reserved ::
  "nat \<Rightarrow> oracle_prices \<Rightarrow> margin_tables_view \<Rightarrow> nat \<Rightarrow> user_state \<Rightarrow> nat option" where
  "available_margin_after_reserved reserved_ntl prices tables cap_leverage u =
     map_option (\<lambda>margin. saturating_sub_u64 (nat (max margin 0)) reserved_ntl)
       (margin_delta_for_asset False 0 CappedLeverage cap_leverage prices tables u)"

definition apply_isolated_margin_delta ::
  "nat \<Rightarrow> int \<Rightarrow> trading_status \<Rightarrow> oracle_prices \<Rightarrow> margin_tables_view \<Rightarrow> nat \<Rightarrow> user_state \<Rightarrow> (user_state \<times> nat) option" where
  "apply_isolated_margin_delta asset delta status prices tables cap_leverage u =
     (if delta = 0 then Some (u, RESULT_ZERO_POSITION_DELTA)
      else if delta < 0 \<and> status = TradingDelisted then Some (u, RESULT_DELISTED_ASSET_CANNOT_BE_REDUCED_HERE)
      else if us_signed_account_value u < delta then Some (u, RESULT_INSUFFICIENT_AVAILABLE_MARGIN)
      else case map_of (us_positions_by_asset u) asset of
        None \<Rightarrow> Some (u, RESULT_MISSING_USER_FOR_POSITION_DELTA)
      | Some existing \<Rightarrow>
          (if \<not> is_isolated existing then Some (u, RESULT_NON_NORMAL_POSITION_CONTEXT)
           else case with_margin_delta existing delta of
             Inl tag \<Rightarrow> Some (u, tag)
           | Inr next \<Rightarrow> do {
               short \<leftarrow> (if delta < 0
                        then do {
                          px \<leftarrow> price_for_asset prices asset;
                          s \<leftarrow> compute_margin_requirement_by_mode next px CappedLeverage cap_leverage tables;
                          Some (isolated_surplus s < 0)
                        }
                        else Some False);
               if short then Some (u, RESULT_MARGIN_WOULD_BE_NEGATIVE)
               else case checked_sub_i64 (us_signed_account_value u) delta of
                 None \<Rightarrow> Some (u, RESULT_ACCOUNT_VALUE_OVERFLOW)
               | Some next_account_value \<Rightarrow>
                   Some (u\<lparr>us_signed_account_value := next_account_value,
                           us_positions_by_asset := bt_insert asset next (us_positions_by_asset u)\<rparr>, RESULT_SUCCESS)
             }))"

fun override_positions ::
  "nat \<Rightarrow> position_record \<Rightarrow> position_margin_mode \<Rightarrow> nat \<Rightarrow> oracle_prices \<Rightarrow> margin_tables_view \<Rightarrow>
   (nat, position_record) btree \<Rightarrow> int \<Rightarrow> nat \<Rightarrow> (int \<times> nat) option" where
  "override_positions asset position mode cap_leverage prices tables [] equity requirement = Some (equity, requirement)"
| "override_positions asset position mode cap_leverage prices tables ((entry_asset, entry_position) # m) equity requirement =
     (let p = if entry_asset = asset then position else entry_position
      in if is_isolated p
         then override_positions asset position mode cap_leverage prices tables m equity requirement
         else do {
           px \<leftarrow> price_for_asset prices entry_asset;
           s \<leftarrow> compute_margin_requirement_by_mode p px mode cap_leverage tables;
           override_positions asset position mode cap_leverage prices tables m
             (saturating_add_i64 equity (ms_signed_margin_after s))
             (saturating_add_u64 requirement (ms_effective_margin s))
         })"

definition margin_delta_with_position_override ::
  "nat \<Rightarrow> position_record \<Rightarrow> bool \<Rightarrow> position_margin_mode \<Rightarrow> nat \<Rightarrow> oracle_prices \<Rightarrow> margin_tables_view \<Rightarrow>
   user_state \<Rightarrow> int option" where
  "margin_delta_with_position_override asset position isolated mode cap_leverage prices tables u =
     (if isolated
      then do {
        px \<leftarrow> price_for_asset prices asset;
        s \<leftarrow> compute_margin_requirement_by_mode position px mode cap_leverage tables;
        Some (isolated_surplus s)
      }
      else do {
        a \<leftarrow> override_positions asset position mode cap_leverage prices tables (us_positions_by_asset u)
               (us_signed_account_value u) 0;
        Some (saturating_sub_i64 (fst a) (int (min (snd a) (nat i64_max))))
      })"

text \<open>A guard \<open>c && delta < 0\<close>: the margin is computed only when the first condition holds.\<close>

definition override_short :: "bool \<Rightarrow> int option \<Rightarrow> bool option" where
  "override_short c delta = (if c then map_option (\<lambda>d. d < 0) delta else Some False)"

definition set_leverage_mode ::
  "nat \<Rightarrow> bool \<Rightarrow> nat \<Rightarrow> nat \<Rightarrow> nat \<Rightarrow> oracle_prices \<Rightarrow> margin_tables_view \<Rightarrow> nat \<Rightarrow> user_state \<Rightarrow> (user_state \<times> nat) option" where
  "set_leverage_mode asset isolated lev asset_max_leverage margin_table_id prices tables cap_leverage u =
     (if asset_max_leverage < lev then Some (u, RESULT_INVALID_MAX_LEVERAGE)
      else
        let old = case map_of (us_positions_by_asset u) asset of None \<Rightarrow> position_default | Some p \<Rightarrow> p;
            next = old\<lparr>po_margin_mode_or_isolated := (if isolated then 1 else 0), po_max_leverage := lev,
                       po_margin_table_id := margin_table_id\<rparr>;
            override = (\<lambda>mode. margin_delta_with_position_override asset next isolated mode cap_leverage prices tables u)
        in if po_szi old \<noteq> 0 \<and> is_isolated old \<noteq> isolated then Some (u, RESULT_LEVERAGE_MODE_MISMATCH)
           else do {
             table_short \<leftarrow> override_short (po_margin_table_id old \<noteq> margin_table_id) (override InitialMargin);
             if table_short then Some (u, RESULT_MARGIN_TABLE_WOULD_INCREASE_REQUIREMENT)
             else do {
               leverage_short \<leftarrow> override_short (lev < po_max_leverage old) (override SimpleMaxLeverage);
               if leverage_short then Some (u, RESULT_MARGIN_WOULD_BE_NEGATIVE)
               else Some (u\<lparr>us_positions_by_asset := bt_insert asset next (us_positions_by_asset u)\<rparr>, RESULT_SUCCESS)
             }
           })"

fun negative_isolated ::
  "address \<Rightarrow> position_margin_mode \<Rightarrow> nat \<Rightarrow> oracle_prices \<Rightarrow> margin_tables_view \<Rightarrow> user_state \<Rightarrow>
   (nat, position_record) btree \<Rightarrow> negative_margin_entry list option" where
  "negative_isolated user mode cap_leverage prices tables u [] = Some []"
| "negative_isolated user mode cap_leverage prices tables u ((asset, p) # m) =
     (if \<not> is_isolated p then negative_isolated user mode cap_leverage prices tables u m
      else do {
        delta \<leftarrow> margin_delta_for_asset True asset mode cap_leverage prices tables u;
        rest \<leftarrow> negative_isolated user mode cap_leverage prices tables u m;
        Some (if delta < 0
              then \<lparr>ne_kind = NegativeIsolatedAsset, ne_asset = Some asset, ne_delta = delta, ne_user = user\<rparr> # rest
              else rest)
      })"

definition collect_negative_margin_assets ::
  "address \<Rightarrow> position_margin_mode \<Rightarrow> nat \<Rightarrow> oracle_prices \<Rightarrow> margin_tables_view \<Rightarrow> user_state \<Rightarrow>
   negative_margin_entry list option" where
  "collect_negative_margin_assets user mode cap_leverage prices tables u =
     do {
       account_delta \<leftarrow> margin_delta_for_asset False 0 mode cap_leverage prices tables u;
       rest \<leftarrow> negative_isolated user mode cap_leverage prices tables u (us_positions_by_asset u);
       Some ((if account_delta < 0
              then [\<lparr>ne_kind = NegativeAccount, ne_asset = None, ne_delta = account_delta, ne_user = user\<rparr>] else []) @ rest)
     }"

definition active_refresh_user :: "address \<Rightarrow> nat \<Rightarrow> user_state \<Rightarrow> address bset \<Rightarrow> address bset" where
  "active_refresh_user user previous_count u users =
     (case (previous_count = 0, us_open_position_count u = 0) of
        (True, False) \<Rightarrow> bs_insert user users
      | (False, True) \<Rightarrow> bs_remove user users
      | _ \<Rightarrow> users)"

end
