(* ===== verification/User_Margin.thy ===== *)
theory User_Margin
  imports User_State
begin

text \<open>
  Properties of the margin account: transfers and leverage changes conserve the user's funds, a withdrawal
  of isolated margin leaves the position covered, the list of negative margins is exact, the incremental
  count of open positions is the recount, and the margin formulas of the account agree with those of the
  margin tables.  Two behaviours lose margin: a transfer that ignores the cross requirement, and a
  change of mode that leaves margin behind in a cross position.
\<close>

section \<open>What the two operations do\<close>

definition moved :: "int \<Rightarrow> position_record \<Rightarrow> position_record" where
  "moved delta p = p\<lparr>po_margin_raw := po_margin_raw p + delta\<rparr>"

lemma moved_simps [simp]:
  "po_margin_raw (moved d p) = po_margin_raw p + d" "po_szi (moved d p) = po_szi p" "is_isolated (moved d p) = is_isolated p"
  by (simp_all add: moved_def is_isolated_def)

lemma with_margin_delta_cases:
  "with_margin_delta p d = (if in_i64 (po_margin_raw p + d) then Inr (moved d p) else Inl RESULT_SIGNED_POSITION_OVERFLOW)"
  by (simp add: with_margin_delta_def checked_add_i64_def moved_def)

lemma transfer_cases:
  assumes "apply_isolated_margin_delta asset delta status prices tables cap u = Some (u', tag)"
  obtains (refused) "u' = u" "tag \<noteq> RESULT_SUCCESS"
  | (moved) p where "map_of (us_positions_by_asset u) asset = Some p" "is_isolated p" "tag = RESULT_SUCCESS"
      "delta \<le> us_signed_account_value u" "in_i64 (us_signed_account_value u - delta)" "in_i64 (po_margin_raw p + delta)"
      "u' = u\<lparr>us_signed_account_value := us_signed_account_value u - delta,
              us_positions_by_asset := bt_insert asset (moved delta p) (us_positions_by_asset u)\<rparr>"
      "delta < 0 \<Longrightarrow> \<exists>px s. price_for_asset prices asset = Some px \<and>
        compute_margin_requirement_by_mode (moved delta p) px CappedLeverage cap tables = Some s \<and> 0 \<le> isolated_surplus s"
proof -
  consider "u' = u \<and> tag \<noteq> RESULT_SUCCESS" | p where "map_of (us_positions_by_asset u) asset = Some p" "is_isolated p"
      "delta \<le> us_signed_account_value u" "in_i64 (po_margin_raw p + delta)"
      "do {
         short \<leftarrow> (if delta < 0
                  then do {
                    px \<leftarrow> price_for_asset prices asset;
                    s \<leftarrow> compute_margin_requirement_by_mode (moved delta p) px CappedLeverage cap tables;
                    Some (isolated_surplus s < 0)
                  }
                  else Some False);
         if short then Some (u, RESULT_MARGIN_WOULD_BE_NEGATIVE)
         else case checked_sub_i64 (us_signed_account_value u) delta of
           None \<Rightarrow> Some (u, RESULT_ACCOUNT_VALUE_OVERFLOW)
         | Some v \<Rightarrow> Some (u\<lparr>us_signed_account_value := v,
             us_positions_by_asset := bt_insert asset (moved delta p) (us_positions_by_asset u)\<rparr>, RESULT_SUCCESS)
       } = Some (u', tag)"
    using assms unfolding apply_isolated_margin_delta_def with_margin_delta_cases
    by (auto simp: result_codes split: if_split_asm option.split_asm)
  then show thesis
  proof cases
    case 1
    then show ?thesis by (auto intro: refused)
  next
    case (2 p)
    from 2(5) show ?thesis
      by (auto simp: checked_sub_i64_def result_codes split: if_split_asm bind_split_asm option.split_asm
          intro: refused moved [OF 2(1,2) _ 2(3) _ 2(4)])
  qed
qed

definition leveraged :: "bool \<Rightarrow> nat \<Rightarrow> nat \<Rightarrow> position_record \<Rightarrow> position_record" where
  "leveraged isolated lev margin_table_id p =
     p\<lparr>po_margin_mode_or_isolated := (if isolated then 1 else 0), po_max_leverage := lev, po_margin_table_id := margin_table_id\<rparr>"

lemma leveraged_simps [simp]:
  "po_margin_raw (leveraged i l t p) = po_margin_raw p" "po_szi (leveraged i l t p) = po_szi p"
  "is_isolated (leveraged i l t p) = i"
  by (simp_all add: leveraged_def is_isolated_def)

definition position_of :: "user_state \<Rightarrow> nat \<Rightarrow> position_record" where
  "position_of u asset = (case map_of (us_positions_by_asset u) asset of None \<Rightarrow> position_default | Some p \<Rightarrow> p)"

lemma leverage_cases:
  assumes "set_leverage_mode asset isolated lev max_lev table prices tables cap u = Some (u', tag)"
  obtains (refused) "u' = u" "tag \<noteq> RESULT_SUCCESS"
  | (set) "tag = RESULT_SUCCESS" "lev \<le> max_lev" "po_szi (position_of u asset) = 0 \<or> is_isolated (position_of u asset) = isolated"
      "u' = u\<lparr>us_positions_by_asset := bt_insert asset (leveraged isolated lev table (position_of u asset)) (us_positions_by_asset u)\<rparr>"
  using assms
  by (force simp: set_leverage_mode_def Let_def result_codes position_of_def [symmetric] leveraged_def [symmetric]
      split: if_splits bind_splits)

section \<open>Funds are conserved\<close>

text \<open>All the money of a user: the account value and the margin kept in the positions.  The margin of every position counts,
  also of one in cross mode: the field comment says that those hold none, but a flat isolated position that is switched to
  cross mode keeps its margin (\<open>switch_to_cross_strands_margin\<close> below).\<close>

definition user_funds :: "user_state \<Rightarrow> int" where
  "user_funds u = us_signed_account_value u + bt_sum po_margin_raw (us_positions_by_asset u)"

lemma margin_after_insert:
  assumes "bt_wf (us_positions_by_asset u)"
  shows "bt_sum po_margin_raw (bt_insert asset p (us_positions_by_asset u)) =
    bt_sum po_margin_raw (us_positions_by_asset u) + po_margin_raw p - po_margin_raw (position_of u asset)"
  using bt_sum_insert [OF assms, of po_margin_raw asset p]
  by (cases "map_of (us_positions_by_asset u) asset") (simp_all add: position_of_def position_default_def)

datatype account_op =
  TransferMargin nat int trading_status oracle_prices margin_tables_view nat
| SetLeverage nat bool nat nat nat oracle_prices margin_tables_view nat

fun account_step :: "account_op \<Rightarrow> user_state \<Rightarrow> (user_state \<times> nat) option" where
  "account_step (TransferMargin asset delta status prices tables cap) u =
     apply_isolated_margin_delta asset delta status prices tables cap u"
| "account_step (SetLeverage asset isolated lev max_lev table prices tables cap) u =
     set_leverage_mode asset isolated lev max_lev table prices tables cap u"

fun account_run :: "account_op list \<Rightarrow> user_state \<Rightarrow> user_state option" where
  "account_run [] u = Some u"
| "account_run (x # xs) u = do { r \<leftarrow> account_step x u; account_run xs (fst r) }"

lemma account_step_funds:
  assumes "account_step x u = Some (u', tag)" and "bt_wf (us_positions_by_asset u)"
  shows "bt_wf (us_positions_by_asset u')" and "user_funds u' = user_funds u"
    and "po_szi (position_of u' a) = po_szi (position_of u a)" and "0 \<le> us_signed_account_value u \<Longrightarrow> 0 \<le> us_signed_account_value u'"
    and "tag \<noteq> RESULT_SUCCESS \<Longrightarrow> u' = u"
proof -
  have "bt_wf (us_positions_by_asset u') \<and> user_funds u' = user_funds u \<and> po_szi (position_of u' a) = po_szi (position_of u a) \<and>
    (0 \<le> us_signed_account_value u \<longrightarrow> 0 \<le> us_signed_account_value u') \<and> (tag \<noteq> RESULT_SUCCESS \<longrightarrow> u' = u)"
  proof (cases x)
    case (TransferMargin asset delta status prices tables cap)
    with assms(1) have "apply_isolated_margin_delta asset delta status prices tables cap u = Some (u', tag)" by simp
    then show ?thesis
    proof (cases rule: transfer_cases)
      case refused
      then show ?thesis using assms(2) by simp
    next
      case (moved p)
      then have "position_of u asset = p" by (simp add: position_of_def)
      then show ?thesis using moved margin_after_insert [OF assms(2), of asset "moved delta p"] assms(2)
        by (auto simp: user_funds_def position_of_def)
    qed
  next
    case (SetLeverage asset isolated lev max_lev table prices tables cap)
    with assms(1) have "set_leverage_mode asset isolated lev max_lev table prices tables cap u = Some (u', tag)" by simp
    then show ?thesis
    proof (cases rule: leverage_cases)
      case refused
      then show ?thesis using assms(2) by simp
    next
      case set
      then show ?thesis
        using margin_after_insert [OF assms(2), of asset "leveraged isolated lev table (position_of u asset)"] assms(2)
        by (auto simp: user_funds_def position_of_def)
    qed
  qed
  then show "bt_wf (us_positions_by_asset u')" "user_funds u' = user_funds u"
    "po_szi (position_of u' a) = po_szi (position_of u a)" "0 \<le> us_signed_account_value u \<Longrightarrow> 0 \<le> us_signed_account_value u'"
    "tag \<noteq> RESULT_SUCCESS \<Longrightarrow> u' = u" by auto
qed

text \<open>C32. Along every sequence of margin transfers and leverage changes, at whatever prices, the account
  value plus the margin kept in all positions, whatever their margin mode, stays the same, no position changes its
  size, and an account value that is not negative stays so.\<close>

theorem user_funds_conserved:
  assumes "bt_wf (us_positions_by_asset u)" and "account_run ops u = Some u'"
  shows "user_funds u' = user_funds u \<and> (\<forall>a. po_szi (position_of u' a) = po_szi (position_of u a)) \<and>
    (0 \<le> us_signed_account_value u \<longrightarrow> 0 \<le> us_signed_account_value u')"
  using assms
proof (induction ops arbitrary: u)
  case (Cons x xs)
  then obtain u1 tag where s: "account_step x u = Some (u1, tag)" "account_run xs u1 = Some u'"
    by (auto split: bind_splits)
  show ?case using Cons.IH [OF account_step_funds(1) [OF s(1) Cons.prems(1)] s(2)]
      account_step_funds(2-4) [OF s(1) Cons.prems(1)] by auto
qed simp

section \<open>The list of negative margins\<close>

lemma isolated_delta:
  assumes "map_of (us_positions_by_asset u) asset = Some p" and "is_isolated p"
  shows "margin_delta_for_asset True asset mode cap prices tables u =
    do { px \<leftarrow> price_for_asset prices asset; s \<leftarrow> compute_margin_requirement_by_mode p px mode cap tables; Some (isolated_surplus s) }"
  using assms
  by (auto simp: margin_delta_for_asset_def compute_margin_requirement_by_mode_def is_cross_def split: bind_splits)

lemma negative_isolated_sound:
  assumes "negative_isolated user mode cap prices tables u m = Some es" and "e \<in> set es"
  shows "\<exists>asset d. ne_asset e = Some asset \<and> margin_delta_for_asset True asset mode cap prices tables u = Some d \<and> d < 0"
  using assms
proof (induction m arbitrary: es)
  case (Cons x m)
  obtain asset p where x: "x = (asset, p)" by (cases x)
  show ?case
  proof (cases "is_isolated p")
    case True
    with Cons.prems x obtain d rest where "margin_delta_for_asset True asset mode cap prices tables u = Some d"
      "negative_isolated user mode cap prices tables u m = Some rest"
      "es = (if d < 0 then \<lparr>ne_kind = NegativeIsolatedAsset, ne_asset = Some asset, ne_delta = d, ne_user = user\<rparr> # rest else rest)"
      by (auto split: bind_splits)
    with Cons show ?thesis by (auto split: if_split_asm)
  qed (use Cons x in simp)
qed simp

text \<open>A withdrawal of isolated margin that is accepted leaves the position covered: at the same prices
  its margin still meets the requirement at the capped leverage, so the asset is not among the negative
  margins collected afterwards.\<close>

lemma withdrawn_margin_stays_covered:
  assumes "apply_isolated_margin_delta asset delta status prices tables cap u = Some (u', RESULT_SUCCESS)" and "delta < 0"
  shows "(\<exists>m. margin_delta_for_asset True asset CappedLeverage cap prices tables u' = Some m \<and> 0 \<le> m) \<and>
    (case collect_negative_margin_assets user CappedLeverage cap prices tables u' of
       None \<Rightarrow> True | Some es \<Rightarrow> Some asset \<notin> ne_asset ` set es)"
proof -
  from assms(1) obtain m where m: "margin_delta_for_asset True asset CappedLeverage cap prices tables u' = Some m" "0 \<le> m"
  proof (cases rule: transfer_cases)
    case (moved p)
    from moved(8) [OF assms(2)] obtain px s where s: "price_for_asset prices asset = Some px"
      "compute_margin_requirement_by_mode (User_Margin.moved delta p) px CappedLeverage cap tables = Some s" "0 \<le> isolated_surplus s"
      by blast
    have "margin_delta_for_asset True asset CappedLeverage cap prices tables u' = Some (isolated_surplus s)"
      using isolated_delta [of u' asset "User_Margin.moved delta p" CappedLeverage cap prices tables] moved(2,7) s by simp
    with that s(3) show ?thesis by blast
  qed simp
  have "Some asset \<notin> ne_asset ` set es" if "collect_negative_margin_assets user CappedLeverage cap prices tables u' = Some es" for es
  proof
    assume "Some asset \<in> ne_asset ` set es"
    then obtain e where e: "e \<in> set es" "ne_asset e = Some asset" by force
    with that obtain rest where "negative_isolated user CappedLeverage cap prices tables u' (us_positions_by_asset u') = Some rest"
      "e \<in> set rest"
      by (auto simp: collect_negative_margin_assets_def split: bind_splits if_split_asm)
    from negative_isolated_sound [OF this] e(2) m show False by auto
  qed
  with m show ?thesis by (auto split: option.splits)
qed

lemma negative_isolated_exact:
  assumes "\<And>asset p. (asset, p) \<in> set m \<Longrightarrow> is_isolated p \<Longrightarrow>
      margin_delta_for_asset True asset mode cap prices tables u = Some (surplus asset)"
  shows "negative_isolated user mode cap prices tables u m =
    Some (map (\<lambda>(asset, p). \<lparr>ne_kind = NegativeIsolatedAsset, ne_asset = Some asset, ne_delta = surplus asset, ne_user = user\<rparr>)
      (filter (\<lambda>(asset, p). is_isolated p \<and> surplus asset < 0) m))"
  using assms
proof (induction m)
  case (Cons x m)
  obtain asset p where x: "x = (asset, p)" by (cases x)
  have tail: "negative_isolated user mode cap prices tables u m =
    Some (map (\<lambda>(asset, p). \<lparr>ne_kind = NegativeIsolatedAsset, ne_asset = Some asset, ne_delta = surplus asset, ne_user = user\<rparr>)
      (filter (\<lambda>(asset, p). is_isolated p \<and> surplus asset < 0) m))"
    using Cons.IH Cons.prems by (meson list.set_intros(2))
  have "is_isolated p \<Longrightarrow> margin_delta_for_asset True asset mode cap prices tables u = Some (surplus asset)"
    using Cons.prems x by auto
  with x tail show ?case by simp
qed simp

text \<open>When the account and every isolated position can be priced, the collection returns and lists
  exactly what is under water: the account first if its surplus is negative, then each isolated position with a
  negative surplus, in the order of the assets, with that surplus.\<close>

lemma collect_negative_exact:
  assumes "bt_wf (us_positions_by_asset u)" and "margin_delta_for_asset False 0 mode cap prices tables u = Some account"
    and "\<And>asset p. map_of (us_positions_by_asset u) asset = Some p \<Longrightarrow> is_isolated p \<Longrightarrow>
      price_for_asset prices asset = Some (px asset) \<and>
      compute_margin_requirement_by_mode p (px asset) mode cap tables = Some (summary asset)"
  shows "collect_negative_margin_assets user mode cap prices tables u = Some
    ((if account < 0 then [\<lparr>ne_kind = NegativeAccount, ne_asset = None, ne_delta = account, ne_user = user\<rparr>] else []) @
     map (\<lambda>(asset, p). \<lparr>ne_kind = NegativeIsolatedAsset, ne_asset = Some asset,
         ne_delta = isolated_surplus (summary asset), ne_user = user\<rparr>)
       (filter (\<lambda>(asset, p). is_isolated p \<and> isolated_surplus (summary asset) < 0) (us_positions_by_asset u)))"
proof -
  have "margin_delta_for_asset True asset mode cap prices tables u = Some (isolated_surplus (summary asset))"
    if "(asset, p) \<in> set (us_positions_by_asset u)" "is_isolated p" for asset p
  proof -
    from that(1) have "map_of (us_positions_by_asset u) asset = Some p" using bt_wf_map_of [OF assms(1), of "(asset, p)"] by simp
    with assms(3) [OF this that(2)] that(2) show ?thesis by (simp add: isolated_delta)
  qed
  from negative_isolated_exact [OF this, of "us_positions_by_asset u", simplified] show ?thesis
    by (simp add: collect_negative_margin_assets_def assms(2))
qed

section \<open>Counting open positions\<close>

lemma open_positions_sum: "open_positions m = bt_sum (\<lambda>p. if po_szi p \<noteq> 0 then 1 else 0) m"
  by (induction m) (auto simp: open_positions_def bt_sum_Cons)

text \<open>Adjusting the count of open positions by the old and the new size gives what a recount gives, and
  the set of active users kept from it holds the user exactly when a position is open.\<close>

lemma incremental_count_is_recount:
  assumes "bt_wf (us_positions_by_asset u)" and "us_open_position_count u = open_positions (us_positions_by_asset u)"
    and "open_positions (bt_insert asset p (us_positions_by_asset u)) \<le> u64_max"
    and "user \<in> set active \<longleftrightarrow> us_open_position_count u \<noteq> 0"
    and "u' = apply_open_position_count_delta (po_szi (position_of u asset)) (po_szi p)
      (u\<lparr>us_positions_by_asset := bt_insert asset p (us_positions_by_asset u)\<rparr>)"
  shows "refresh_open_position_count u' = (u', us_open_position_count u') \<and>
    (user \<in> set (active_refresh_user user (us_open_position_count u) u' active) \<longleftrightarrow>
       (\<exists>a. po_szi (position_of u' a) \<noteq> 0))"
proof -
  let ?m = "us_positions_by_asset u" and ?o = "\<lambda>p. if po_szi p \<noteq> 0 then 1 else 0 :: nat"
  have pos: "us_positions_by_asset u' = bt_insert asset p ?m"
    by (simp add: assms(5) apply_open_position_count_delta_def split: bool.splits)
  have old: "opt_val ?o (map_of ?m asset) = ?o (position_of u asset)"
    by (cases "map_of ?m asset") (simp_all add: position_of_def position_default_def)
  have sum: "open_positions (bt_insert asset p ?m) + ?o (position_of u asset) = open_positions ?m + ?o p"
    using bt_sum_insert [OF assms(1), of ?o asset p] unfolding open_positions_sum old .
  have count: "us_open_position_count u' = open_positions (us_positions_by_asset u')"
    unfolding pos using sum assms(2,3)
    by (auto simp: assms(5) apply_open_position_count_delta_def saturating_add_u64_def saturating_sub_u64_def split: if_split_asm)
  have "open_positions (us_positions_by_asset u') \<noteq> 0 \<longleftrightarrow> (\<exists>a. po_szi (position_of u' a) \<noteq> 0)"
  proof -
    have "bt_wf (us_positions_by_asset u')" unfolding pos using assms(1) by simp
    from bt_wf_map_of [OF this] have "(\<exists>e \<in> set (us_positions_by_asset u'). po_szi (snd e) \<noteq> 0) \<longleftrightarrow>
        (\<exists>a q. map_of (us_positions_by_asset u') a = Some q \<and> po_szi q \<noteq> 0)"
      by (metis fst_conv snd_conv)
    also have "\<dots> \<longleftrightarrow> (\<exists>a. po_szi (position_of u' a) \<noteq> 0)"
      by (rule ex_cong1) (simp add: position_of_def position_default_def split: option.split)
    finally show ?thesis by (auto simp: open_positions_def filter_empty_conv)
  qed
  then show ?thesis using assms(4) count
    by (auto simp: refresh_open_position_count_def Let_def active_refresh_user_def)
qed

section \<open>Margin that gets lost\<close>

lemma aggregate_cross_only:
  "aggregate_positions False mode cap prices tables m out =
   aggregate_positions False mode cap prices tables (filter (\<lambda>e. is_cross (snd e)) m) out"
proof (induction m arbitrary: out)
  case (Cons x m)
  obtain asset p where x: "x = (asset, p)" by (cases x)
  have "aggregate_positions False mode cap prices tables m =
    aggregate_positions False mode cap prices tables (filter (\<lambda>e. is_cross (snd e)) m)"
    using Cons.IH by blast
  with x show ?case by (simp add: is_cross_def)
qed simp

lemma bt_insert_front: "(\<And>x. x \<in> set m \<Longrightarrow> k < fst x) \<Longrightarrow> bt_insert k v m = (k, v) # m"
  by (cases m) (use less_asym in fastforce)+

lemma cross_entries_insert:
  assumes "bt_wf m" and "map_of m asset = Some p" and "is_isolated p"
  shows "filter (\<lambda>e. is_cross (snd e)) (bt_insert asset q m) =
    (if is_isolated q then filter (\<lambda>e. is_cross (snd e)) m else bt_insert asset q (filter (\<lambda>e. is_cross (snd e)) m))"
  using assms
proof (induction m)
  case (Cons e m)
  show ?case
  proof (cases "fst e = asset")
    case True
    with Cons.prems(1) have "\<And>x. x \<in> set m \<Longrightarrow> asset < fst x" by (simp add: bt_wf_Cons)
    then have "bt_insert asset q (filter (\<lambda>e. is_cross (snd e)) m) = (asset, q) # filter (\<lambda>e. is_cross (snd e)) m"
      by (intro bt_insert_front) simp
    with True Cons.prems(2,3) show ?thesis by (simp add: is_cross_def)
  next
    case False
    with Cons.prems(2) have "(asset, p) \<in> set m" by (simp add: map_of_SomeD)
    with Cons.prems(1) have "fst e < asset" by (force simp: bt_wf_Cons)
    moreover have "bt_wf m" "map_of m asset = Some p" using Cons.prems(1,2) False by (simp_all add: bt_wf_Cons)
    ultimately show ?thesis using Cons.IH Cons.prems(3) by simp
  qed
qed simp

text \<open>The accumulator after a cross position with summary \<open>s\<close>, started from the equity \<open>v\<close>.\<close>

definition with_equity :: "int \<Rightarrow> aggregate_margin_summary \<Rightarrow> aggregate_margin_summary" where
  "with_equity v a = a\<lparr>ag_signed_equity_or_value := v\<rparr>"

definition add_cross :: "margin_summary \<Rightarrow> aggregate_margin_summary \<Rightarrow> aggregate_margin_summary" where
  "add_cross s a =
     \<lparr>ag_signed_equity_or_value = saturating_add_i64 (ag_signed_equity_or_value a) (ms_signed_margin_after s),
      ag_margin_requirement_sum = saturating_add_u64 (ag_margin_requirement_sum a) (ms_effective_margin s),
      ag_abs_notional_sum = saturating_add_u64 (ag_abs_notional_sum a) (ms_notional s),
      ag_isolated_margin_sum = ag_isolated_margin_sum a\<rparr>"

lemma with_equity_simps [simp]:
  "ag_signed_equity_or_value (with_equity v a) = v" "ag_margin_requirement_sum (with_equity v a) = ag_margin_requirement_sum a"
  "ag_abs_notional_sum (with_equity v a) = ag_abs_notional_sum a" "with_equity w (with_equity v a) = with_equity w a"
  "with_equity (ag_signed_equity_or_value a) a = a"
  by (simp_all add: with_equity_def)

lemma aggregate_cross:
  assumes "aggregate_positions False mode cap prices tables (x # m) out = Some a" and "is_cross (snd x)"
  obtains s where "int (ms_notional s) = \<bar>ms_signed_margin_after s\<bar>"
    "\<And>v. aggregate_positions False mode cap prices tables (x # m) (with_equity v out) =
      aggregate_positions False mode cap prices tables m (add_cross s (with_equity v out))"
proof -
  obtain asset p where x: "x = (asset, p)" "\<not> is_isolated p" using assms(2) by (cases x) (auto simp: is_cross_def)
  with assms(1) obtain px s where s: "price_for_asset prices asset = Some px"
    "compute_margin_requirement_by_mode p px mode cap tables = Some s"
    by (auto split: bind_splits)
  have "int (ms_notional s) = \<bar>ms_signed_margin_after s\<bar>" "\<not> ms_active s"
    using s(2) x(2) by (auto simp: compute_margin_requirement_by_mode_def is_cross_def unsigned_abs_def split: bind_splits)
  with s x show thesis by (intro that) (auto simp: add_cross_def with_equity_def)
qed

definition equity_range :: "aggregate_margin_summary \<Rightarrow> aggregate_margin_summary \<Rightarrow> bool" where
  "equity_range out a \<longleftrightarrow> ag_abs_notional_sum out \<le> ag_abs_notional_sum a \<and>
     \<bar>ag_signed_equity_or_value out\<bar> + int (ag_abs_notional_sum a) \<le> i64_max + int (ag_abs_notional_sum out)"

lemma add_cross_exact:
  assumes "equity_range out a" and "int (ms_notional s) = \<bar>ms_signed_margin_after s\<bar>" and "int (ag_abs_notional_sum a) \<le> i64_max"
    and "ag_abs_notional_sum (add_cross s out) \<le> ag_abs_notional_sum a"
  shows "ag_signed_equity_or_value (add_cross s out) = ag_signed_equity_or_value out + ms_signed_margin_after s"
    and "equity_range (add_cross s out) a"
proof -
  have n: "ag_abs_notional_sum (add_cross s out) = ag_abs_notional_sum out + ms_notional s"
    using assms(3,4) by (auto simp: add_cross_def saturating_add_u64_def u64_max_def i64_max_def)
  then have "\<bar>ag_signed_equity_or_value out + ms_signed_margin_after s\<bar> \<le> i64_max"
    using assms(1,2,4) by (simp add: equity_range_def)
  then have "in_i64 (ag_signed_equity_or_value out + ms_signed_margin_after s)" by (auto simp: in_i64_def i64_max_def i64_min_def)
  then show eq: "ag_signed_equity_or_value (add_cross s out) = ag_signed_equity_or_value out + ms_signed_margin_after s"
    by (simp add: add_cross_def saturating_add_i64_def)
  show "equity_range (add_cross s out) a" using assms(1,2,4) n eq by (simp add: equity_range_def)
qed

lemma aggregate_abs_mono:
  assumes "aggregate_positions False mode cap prices tables m out = Some a" and "\<And>e. e \<in> set m \<Longrightarrow> is_cross (snd e)"
    and "ag_abs_notional_sum out \<le> u64_max"
  shows "ag_abs_notional_sum out \<le> ag_abs_notional_sum a"
  using assms
proof (induction m arbitrary: out)
  case (Cons x m)
  obtain s where run: "aggregate_positions False mode cap prices tables (x # m) (with_equity v out) =
      aggregate_positions False mode cap prices tables m (add_cross s (with_equity v out))" for v
    by (rule aggregate_cross [OF Cons.prems(1)]) (simp_all add: Cons.prems(2))
  have "aggregate_positions False mode cap prices tables m (add_cross s out) = Some a"
    using run [of "ag_signed_equity_or_value out"] Cons.prems(1) by simp
  from Cons.IH [OF this] Cons.prems(2) have "ag_abs_notional_sum (add_cross s out) \<le> ag_abs_notional_sum a"
    by (simp add: add_cross_def saturating_add_u64_def)
  then show ?case using Cons.prems(3) by (simp add: add_cross_def saturating_add_u64_def)
qed simp

text \<open>While the sums stay in range the final equity moves with the initial one, and nothing else changes.\<close>

lemma aggregate_shift:
  assumes "aggregate_positions False mode cap prices tables m out = Some a" and "\<And>e. e \<in> set m \<Longrightarrow> is_cross (snd e)"
    and "int (ag_abs_notional_sum a) \<le> i64_max" and "equity_range out a" and "equity_range (with_equity v out) a"
  shows "aggregate_positions False mode cap prices tables m (with_equity v out) =
    Some (with_equity (ag_signed_equity_or_value a + v - ag_signed_equity_or_value out) a)"
  using assms
proof (induction m arbitrary: out v)
  case (Cons x m)
  obtain s where s: "int (ms_notional s) = \<bar>ms_signed_margin_after s\<bar>" and
    run: "aggregate_positions False mode cap prices tables (x # m) (with_equity v out) =
      aggregate_positions False mode cap prices tables m (add_cross s (with_equity v out))" for v
    by (rule aggregate_cross [OF Cons.prems(1)]) (simp_all add: Cons.prems(2))
  have first: "aggregate_positions False mode cap prices tables m (add_cross s out) = Some a"
    using run [of "ag_signed_equity_or_value out"] Cons.prems(1) by simp
  have cross: "\<And>e. e \<in> set m \<Longrightarrow> is_cross (snd e)" using Cons.prems(2) by simp
  have le: "ag_abs_notional_sum (add_cross s out) \<le> ag_abs_notional_sum a"
    by (rule aggregate_abs_mono [OF first cross]) (simp_all add: add_cross_def saturating_add_u64_def)
  have same: "ag_abs_notional_sum (add_cross s (with_equity v out)) = ag_abs_notional_sum (add_cross s out)"
    by (simp add: add_cross_def)
  note out = add_cross_exact [OF Cons.prems(4) s Cons.prems(3) le]
  note shifted = add_cross_exact [OF Cons.prems(5) s Cons.prems(3), unfolded same, OF le]
  have "add_cross s (with_equity v out) = with_equity (v + ms_signed_margin_after s) (add_cross s out)"
    using shifted(1) by (simp add: add_cross_def with_equity_def)
  with Cons.IH [OF first cross Cons.prems(3) out(2), of "v + ms_signed_margin_after s"] shifted(2) out(1) run [of v]
  show ?case by (simp add: algebra_simps)
qed simp

text \<open>A transfer into isolated margin is checked against the account value alone, not against what the
  cross positions need.  A healthy account whose surplus is smaller than the transfer passes the check and
  has a negative surplus afterwards: the surplus falls by exactly the amount transferred.\<close>

lemma transfer_ignores_cross_requirement:
  assumes "bt_wf (us_positions_by_asset u)" and "map_of (us_positions_by_asset u) asset = Some p" and "is_isolated p"
    and "in_i64 (po_margin_raw p + delta)" and "delta \<le> us_signed_account_value u"
    and "aggregate_position_margin_summary False mode cap prices tables u = Some a"
    and "us_signed_account_value u + int (ag_abs_notional_sum a) \<le> i64_max"
    and "margin_delta_for_asset False 0 mode cap prices tables u = Some surplus" and "0 \<le> surplus" and "surplus < delta"
  shows "\<exists>u'. apply_isolated_margin_delta asset delta status prices tables cap' u = Some (u', RESULT_SUCCESS) \<and>
    margin_delta_for_asset False 0 mode cap prices tables u' = Some (surplus - delta) \<and> surplus - delta < 0"
proof -
  let ?start = "\<lparr>ag_signed_equity_or_value = us_signed_account_value u, ag_margin_requirement_sum = 0, ag_abs_notional_sum = 0,
    ag_isolated_margin_sum = 0\<rparr>" and ?m = "us_positions_by_asset u" and ?v = "us_signed_account_value u - delta"
  let ?u = "u\<lparr>us_signed_account_value := ?v, us_positions_by_asset := bt_insert asset (moved delta p) ?m\<rparr>"
  have range: "in_i64 ?v" using assms(5,7,9,10) by (simp add: in_i64_def i64_min_def)
  have ok: "apply_isolated_margin_delta asset delta status prices tables cap' u = Some (?u, RESULT_SUCCESS)"
    using assms(2-5,9,10) range by (simp add: apply_isolated_margin_delta_def with_margin_delta_cases checked_sub_i64_def)
  have agg: "aggregate_positions False mode cap prices tables (filter (\<lambda>e. is_cross (snd e)) ?m) ?start = Some a"
    using assms(6) by (simp add: aggregate_position_margin_summary_def flip: aggregate_cross_only)
  have "aggregate_positions False mode cap prices tables (filter (\<lambda>e. is_cross (snd e)) ?m) (with_equity ?v ?start) =
      Some (with_equity (ag_signed_equity_or_value a - delta) a)"
    using aggregate_shift [OF agg, of ?v] assms(5,7,9,10) by (simp add: equity_range_def)
  then have "aggregate_position_margin_summary False mode cap prices tables ?u = Some (with_equity (ag_signed_equity_or_value a - delta) a)"
    unfolding aggregate_position_margin_summary_def
    using aggregate_cross_only [of mode cap prices tables "bt_insert asset (moved delta p) ?m"]
      cross_entries_insert [OF assms(1-3), of "moved delta p"] assms(3) by (simp add: with_equity_def)
  moreover have r: "ag_margin_requirement_sum a \<le> nat i64_max" "surplus = clamp_i64 (ag_signed_equity_or_value a - int (ag_margin_requirement_sum a))"
    using assms(6,8) by (auto simp: margin_delta_for_asset_def saturating_sub_i64_def split: if_split_asm)
  moreover have "clamp_i64 (ag_signed_equity_or_value a - delta - int (ag_margin_requirement_sum a)) = surplus - delta"
  proof -
    have le: "delta \<le> i64_max" using assms(5,7) by linarith
    then have "ag_signed_equity_or_value a - int (ag_margin_requirement_sum a) = surplus"
      using r(2) assms(9,10) by (auto simp: clamp_i64_def i64_min_def i64_max_def)
    moreover have "in_i64 (surplus - delta)" using le assms(9,10) by (simp add: in_i64_def i64_min_def i64_max_def)
    ultimately show ?thesis by (metis clamp_i64_id diff_right_commute)
  qed
  ultimately have "margin_delta_for_asset False 0 mode cap prices tables ?u = Some (surplus - delta)"
    by (simp add: margin_delta_for_asset_def saturating_sub_i64_def)
  with ok assms(10) show ?thesis by auto
qed

text \<open>Switching a flat isolated position to cross margin succeeds and leaves its margin in the position,
  where no transfer reaches it: the account value is not credited, and every later transfer for the asset
  is refused.\<close>

lemma switch_to_cross_strands_margin:
  assumes "map_of (us_positions_by_asset u) asset = Some p" and "is_isolated p" and "po_szi p = 0"
    and "po_max_leverage p \<le> lev" and "lev \<le> max_lev"
  shows "\<exists>u'. set_leverage_mode asset False lev max_lev (po_margin_table_id p) prices tables cap u = Some (u', RESULT_SUCCESS) \<and>
    us_signed_account_value u' = us_signed_account_value u \<and>
    is_cross (position_of u' asset) \<and> po_margin_raw (position_of u' asset) = po_margin_raw p \<and>
    (\<forall>delta status. \<exists>tag. apply_isolated_margin_delta asset delta status prices tables cap u' = Some (u', tag) \<and> tag \<noteq> RESULT_SUCCESS)"
proof -
  let ?u = "u\<lparr>us_positions_by_asset := bt_insert asset (leveraged False lev (po_margin_table_id p) p) (us_positions_by_asset u)\<rparr>"
  have "set_leverage_mode asset False lev max_lev (po_margin_table_id p) prices tables cap u = Some (?u, RESULT_SUCCESS)"
    using assms by (simp add: set_leverage_mode_def Let_def override_short_def leveraged_def)
  moreover have "\<exists>tag. apply_isolated_margin_delta asset delta status prices tables cap ?u = Some (?u, tag) \<and> tag \<noteq> RESULT_SUCCESS"
    for delta status
    by (simp add: apply_isolated_margin_delta_def result_codes)
  ultimately show ?thesis by (simp add: position_of_def is_cross_def)
qed

section \<open>Two copies of the margin formulas\<close>

definition view_of :: "margin_table \<Rightarrow> view_table" where
  "view_of t = map (\<lambda>x. \<lparr>vt_lower_bound = mt_lower_bound x, vt_prior_contribution = mt_prior_contribution x,
     vt_max_leverage = mt_max_leverage x\<rparr>) (tb_tiers t)"

lemma view_scan_map:
  "view_scan \<lparr>vt_lower_bound = mt_lower_bound x, vt_prior_contribution = mt_prior_contribution x, vt_max_leverage = mt_max_leverage x\<rparr>
     (map (\<lambda>x. \<lparr>vt_lower_bound = mt_lower_bound x, vt_prior_contribution = mt_prior_contribution x, vt_max_leverage = mt_max_leverage x\<rparr>) ts) n =
   (let t = scan_tiers x ts n in \<lparr>vt_lower_bound = mt_lower_bound t, vt_prior_contribution = mt_prior_contribution t,
     vt_max_leverage = mt_max_leverage t\<rparr>)"
  by (induction ts arbitrary: x) simp_all

text \<open>The margin formulas of the account, which guard the division by a leverage of at least one, and those
  of the margin tables, which do not, give the same requirement for every accepted table whose first leverage
  is not zero.\<close>

lemma view_margin_agrees:
  assumes "try_from_raw raw = Some (Inr t)" and "mt_max_leverage (hd (tb_tiers t)) \<noteq> 0"
  shows "view_initial_margin (view_of t) n = ntl_div_2x_leverage_minus_prior_contribution t n \<and>
    view_maintenance_margin (view_of t) n = margin_after_tier_offset_div_6x_leverage t n"
proof -
  obtain s ts where t: "tb_tiers t = s # ts" "tier_chain s ts" "mt_lower_bound s = 0" using accepted_table [OF assms(1)] by metis
  have "0 < mt_max_leverage (scan_tiers s ts n)"
    using chain_leverage_pos [OF t(2)] scan_bounds(4) [OF t(2), of n] assms(2) t(1,3) by simp
  then have "max (mt_max_leverage (scan_tiers s ts n)) (Suc 0) = mt_max_leverage (scan_tiers s ts n)"
    and "mt_max_leverage (scan_tiers s ts n) \<noteq> 0" by simp_all
  then show ?thesis
    by (simp add: view_initial_margin_def view_maintenance_margin_def view_tier_for_notional_def view_of_def t(1) view_scan_map Let_def
        ntl_div_2x_leverage_minus_prior_contribution_def margin_after_tier_offset_div_6x_leverage_def tier_for_notional_def
        checked_div_def)
qed

section \<open>Witnesses\<close>

definition example_prices :: oracle_prices where
  "example_prices = [\<lparr>oa_signed_px_raw = 10\<rparr>, \<lparr>oa_signed_px_raw = 20\<rparr>]"

definition example_isolated :: position_record where
  "example_isolated = \<lparr>po_margin_mode_or_isolated = 1, po_max_leverage = 5, po_margin_raw = 100, po_szi = - 3,
     po_cumulative_funding_raw = 0, po_margin_table_id = 20\<rparr>"

definition example_cross :: position_record where
  "example_cross = \<lparr>po_margin_mode_or_isolated = 0, po_max_leverage = 1, po_margin_raw = 0, po_szi = - 2,
     po_cumulative_funding_raw = 0, po_margin_table_id = 20\<rparr>"

definition example_user :: "int \<Rightarrow> user_state" where
  "example_user v = \<lparr>us_signed_account_value = v, us_positions_by_asset = [(0, example_isolated), (1, example_cross)],
     us_open_position_count = 2, us_cached_margin_by_asset = []\<rparr>"

lemmas account_eval = example_prices_def example_isolated_def example_cross_def example_user_def
  apply_isolated_margin_delta_def with_margin_delta_cases moved_def is_isolated_def is_cross_def checked_sub_i64_def in_i64_def
  i64_max_def i64_min_def price_for_asset_def ASSETS_PER_DEX_def compute_margin_requirement_by_mode_def signed_notional_def
  checked_signed_notional_def checked_mul_i64_def requirement_by_mode_def div_by_leverage_def unsigned_abs_def
  isolated_surplus_def saturating_sub_i64_def saturating_add_i64_def saturating_add_u64_def clamp_i64_def u64_max_def
  margin_delta_for_asset_def aggregate_position_margin_summary_def

lemma example_wf: "bt_wf (us_positions_by_asset (example_user v))"
  by (simp add: example_user_def bt_wf_def)

theorem user_funds_conserved_witness:
  "\<exists>u'. account_run [TransferMargin 0 50 TradingActive example_prices [] 20] (example_user 1000) = Some u' \<and> user_funds u' = 1100"
proof -
  obtain u' where "account_run [TransferMargin 0 50 TradingActive example_prices [] 20] (example_user 1000) = Some u'"
    by (simp add: account_eval)
  with user_funds_conserved [OF example_wf this] show ?thesis
    by (simp add: user_funds_def example_user_def bt_sum_def example_isolated_def example_cross_def)
qed

lemma withdrawn_margin_stays_covered_witness:
  "\<exists>u'. apply_isolated_margin_delta 0 (- 50) TradingActive example_prices [] 20 (example_user 1000) = Some (u', RESULT_SUCCESS) \<and>
     (\<exists>m. margin_delta_for_asset True 0 CappedLeverage 20 example_prices [] u' = Some m \<and> 0 \<le> m)"
proof -
  obtain u' where "apply_isolated_margin_delta 0 (- 50) TradingActive example_prices [] 20 (example_user 1000) = Some (u', RESULT_SUCCESS)"
    by (simp add: account_eval)
  with withdrawn_margin_stays_covered [OF this] show ?thesis by auto
qed

lemma collect_negative_exact_witness:
  "collect_negative_margin_assets 9 CappedLeverage 20 example_prices [] (example_user (- 100)) =
     Some [\<lparr>ne_kind = NegativeAccount, ne_asset = None, ne_delta = - 180, ne_user = 9\<rparr>]"
proof -
  have account: "margin_delta_for_asset False 0 CappedLeverage 20 example_prices [] (example_user (- 100)) = Some (- 180)"
    by (simp add: account_eval)
  let ?s = "\<lparr>ms_active = True, ms_signed_margin_after = 70, ms_effective_margin = 70, ms_notional = 30, ms_previous_margin = 100,
    ms_computed_requirement = 6\<rparr>"
  have priced: "price_for_asset example_prices asset = Some 10 \<and>
      compute_margin_requirement_by_mode p 10 CappedLeverage 20 [] = Some ?s"
    if "map_of (us_positions_by_asset (example_user (- 100))) asset = Some p" "is_isolated p" for asset p
    using that by (auto simp: account_eval split: if_split_asm)
  from collect_negative_exact [OF example_wf account, of "\<lambda>_. 10" "\<lambda>_. ?s" 9] priced show ?thesis
    by (simp add: example_user_def isolated_surplus_def saturating_sub_i64_def clamp_i64_def i64_max_def i64_min_def)
qed

lemma incremental_count_is_recount_witness:
  "refresh_open_position_count (apply_open_position_count_delta (- 3) 0
      ((example_user 5)\<lparr>us_positions_by_asset := bt_insert 0 (example_isolated\<lparr>po_szi := 0\<rparr>) (us_positions_by_asset (example_user 5))\<rparr>)) =
   (apply_open_position_count_delta (- 3) 0
      ((example_user 5)\<lparr>us_positions_by_asset := bt_insert 0 (example_isolated\<lparr>po_szi := 0\<rparr>) (us_positions_by_asset (example_user 5))\<rparr>), 1)"
proof -
  have count: "us_open_position_count (example_user 5) = open_positions (us_positions_by_asset (example_user 5))"
    "open_positions (bt_insert 0 (example_isolated\<lparr>po_szi := 0\<rparr>) (us_positions_by_asset (example_user 5))) \<le> u64_max"
    by (simp_all add: open_positions_def account_eval)
  have "(9 \<in> set [9 :: address]) = (us_open_position_count (example_user 5) \<noteq> 0)" by (simp add: example_user_def)
  from incremental_count_is_recount [OF example_wf count this refl] show ?thesis
    by (simp add: position_of_def account_eval apply_open_position_count_delta_def saturating_sub_u64_def)
qed

lemma transfer_ignores_cross_requirement_witness:
  "\<exists>u'. apply_isolated_margin_delta 0 60 TradingActive example_prices [] 20 (example_user 100) = Some (u', RESULT_SUCCESS) \<and>
     margin_delta_for_asset False 0 CappedLeverage 20 example_prices [] u' = Some (- 40)"
proof -
  have isolated: "map_of (us_positions_by_asset (example_user 100)) 0 = Some example_isolated" "is_isolated example_isolated"
    "in_i64 (po_margin_raw example_isolated + 60)" by (simp_all add: account_eval)
  have agg: "aggregate_position_margin_summary False CappedLeverage 20 example_prices [] (example_user 100) =
      Some \<lparr>ag_signed_equity_or_value = 60, ag_margin_requirement_sum = 40, ag_abs_notional_sum = 40, ag_isolated_margin_sum = 0\<rparr>"
    "margin_delta_for_asset False 0 CappedLeverage 20 example_prices [] (example_user 100) = Some 20"
    by (simp_all add: account_eval)
  from transfer_ignores_cross_requirement [OF example_wf isolated _ agg(1) _ agg(2), of TradingActive 20]
  show ?thesis by (simp add: example_user_def i64_max_def)
qed

lemma switch_to_cross_strands_margin_witness:
  "\<exists>u'. set_leverage_mode 0 False 7 10 20 example_prices [] 20
      ((example_user 5)\<lparr>us_positions_by_asset := [(0, example_isolated\<lparr>po_szi := 0\<rparr>)]\<rparr>) = Some (u', RESULT_SUCCESS) \<and>
    is_cross (position_of u' 0) \<and> po_margin_raw (position_of u' 0) = 100"
  using switch_to_cross_strands_margin [of "(example_user 5)\<lparr>us_positions_by_asset := [(0, example_isolated\<lparr>po_szi := 0\<rparr>)]\<rparr>" 0
      "example_isolated\<lparr>po_szi := 0\<rparr>" 7 10 example_prices "[]" 20]
  by (auto simp: example_isolated_def is_isolated_def)

lemma view_margin_agrees_witness:
  "view_initial_margin (view_of table_two) 1500 = ntl_div_2x_leverage_minus_prior_contribution table_two 1500"
  using view_margin_agrees [OF table_two_built, of 1500] by (simp add: table_two_def)

end
