(* ===== verification/Position_Map.thy ===== *)
theory Position_Map
  imports Rust_Prelude "HOL-Library.Monad_Syntax"
begin

text \<open>
  The positions of a user and the index of active users, \<open>l1/clearinghouse/position_map.rs\<close>: the collection of
  liquidation contributions over a user's positions, and the index that says who holds an open position,
  overall and per asset.  A liquidation factor is a floating-point number; its type, the test for zero and the
  scaling of a notional by it (with the rounding to \<open>i64\<close> of \<open>f64_to_i64_saturating\<close>) are parameters.
\<close>

section \<open>Positions\<close>

definition MAP_ASSETS_PER_DEX :: nat where
  "MAP_ASSETS_PER_DEX = 10000"

definition POSITION_MAP_STATUS_OK :: nat where
  "POSITION_MAP_STATUS_OK = 1"

definition POSITION_MAP_STATUS_MISSING_USER :: nat where
  "POSITION_MAP_STATUS_MISSING_USER = 2"

record map_position =
  pq_margin_mode_or_isolated :: nat
  pq_max_leverage :: nat
  pq_margin_raw :: int
  pq_szi :: int
  pq_accumulator_a :: int
  pq_accumulator_b :: int
  pq_accumulator_c :: int
  pq_cumulative_funding_raw :: int
  pq_margin_table_id :: nat
  pq_flags_or_mode :: nat

definition pq_is_isolated :: "map_position \<Rightarrow> bool" where
  "pq_is_isolated p \<longleftrightarrow> pq_margin_mode_or_isolated p = 1"

definition pq_is_open :: "map_position \<Rightarrow> bool" where
  "pq_is_open p \<longleftrightarrow> pq_szi p \<noteq> 0"

definition pq_abs_size :: "map_position \<Rightarrow> nat" where
  "pq_abs_size p = unsigned_abs (pq_szi p)"

definition apply_liquidation_delta :: "int \<Rightarrow> int \<Rightarrow> map_position \<Rightarrow> map_position \<times> int" where
  "apply_liquidation_delta account_value delta p =
     (let p1 = if pq_is_isolated p then p\<lparr>pq_margin_raw := saturating_sub_i64 (pq_margin_raw p) delta\<rparr> else p;
          account = if pq_is_isolated p then account_value else saturating_sub_i64 account_value delta
      in (p1\<lparr>pq_accumulator_a := saturating_add_i64 (pq_accumulator_a p1) delta,
             pq_accumulator_b := saturating_add_i64 (pq_accumulator_b p1) delta,
             pq_accumulator_c := saturating_add_i64 (pq_accumulator_c p1) delta\<rparr>, account))"

section \<open>The map of one user\<close>

record position_map =
  pm_signed_account_value :: int
  pm_positions_by_asset :: "(nat, map_position) btree"

definition position_map_new :: "int \<Rightarrow> position_map" where
  "position_map_new account = \<lparr>pm_signed_account_value = account, pm_positions_by_asset = []\<rparr>"

definition pm_get :: "position_map \<Rightarrow> nat \<Rightarrow> map_position option" where
  "pm_get m asset = map_of (pm_positions_by_asset m) asset"

definition pm_insert :: "nat \<Rightarrow> map_position \<Rightarrow> position_map \<Rightarrow> position_map \<times> map_position option" where
  "pm_insert asset p m = (m\<lparr>pm_positions_by_asset := bt_insert asset p (pm_positions_by_asset m)\<rparr>, pm_get m asset)"

definition pm_remove :: "nat \<Rightarrow> position_map \<Rightarrow> position_map \<times> map_position option" where
  "pm_remove asset m = (m\<lparr>pm_positions_by_asset := bt_remove asset (pm_positions_by_asset m)\<rparr>, pm_get m asset)"

definition open_position_count :: "position_map \<Rightarrow> nat" where
  "open_position_count m = length (filter (\<lambda>e. pq_is_open (snd e)) (pm_positions_by_asset m))"

definition retain_open_positions :: "position_map \<Rightarrow> position_map" where
  "retain_open_positions m = m\<lparr>pm_positions_by_asset := filter (\<lambda>e. pq_is_open (snd e)) (pm_positions_by_asset m)\<rparr>"

definition local_asset_index :: "nat \<Rightarrow> nat \<Rightarrow> nat option" where
  "local_asset_index asset oracle_row_count =
     (let local = asset mod MAP_ASSETS_PER_DEX in if local < oracle_row_count then Some local else None)"

record 'f liquidation_contribution =
  lc_asset :: nat
  lc_signed_delta :: int
  lc_size_abs :: nat
  lc_liquidation_factor :: 'f
  lc_raw_notional :: nat
  lc_user :: address
  lc_user_tag :: nat
  lc_mutate_positions :: bool
  lc_aux_user_meta :: nat

record 'f liquidation_summary =
  ls_user :: address
  ls_user_tag :: nat
  ls_contributions :: "'f liquidation_contribution list"
  ls_total_signed_delta :: int
  ls_status :: nat
  ls_selected_asset :: nat
  ls_selected_abs_notional :: nat
  ls_selected_user :: address
  ls_selected_user_tag :: nat

definition missing_user :: "address \<Rightarrow> nat \<Rightarrow> 'f liquidation_summary" where
  "missing_user user user_tag =
     \<lparr>ls_user = user, ls_user_tag = user_tag, ls_contributions = [], ls_total_signed_delta = 0,
      ls_status = POSITION_MAP_STATUS_MISSING_USER, ls_selected_asset = 0, ls_selected_abs_notional = 0,
      ls_selected_user = 0, ls_selected_user_tag = 0\<rparr>"

definition has_candidates :: "'f liquidation_summary \<Rightarrow> bool" where
  "has_candidates s \<longleftrightarrow> ls_contributions s \<noteq> []"

text \<open>The arguments that stay fixed during a collection.\<close>

record 'f liquidation_env =
  le_user :: address
  le_user_tag :: nat
  le_prices :: "int list"
  le_factors :: "(nat, 'f) btree"
  le_mutate :: bool
  le_aux :: nat
  le_scale :: "nat \<Rightarrow> 'f \<Rightarrow> int"
  le_is_zero :: "'f \<Rightarrow> bool"

text \<open>The delta of one position: none for a position that is passed over, \<open>None\<close> for a panic.\<close>

definition liquidation_delta :: "'f liquidation_env \<Rightarrow> nat \<Rightarrow> map_position \<Rightarrow> (nat \<times> int \<times> 'f) option option" where
  "liquidation_delta E asset p =
     (case map_of (le_factors E) asset of
        None \<Rightarrow> Some None
      | Some factor \<Rightarrow>
          (if le_is_zero E factor \<or> pq_szi p = 0 then Some None
           else do {
             local \<leftarrow> local_asset_index asset (length (le_prices E));
             if le_prices E ! local < 0 then None
             else do {
               raw_notional \<leftarrow> checked_mul_u64 (pq_abs_size p) (nat (le_prices E ! local));
               Some (if le_scale E raw_notional factor = 0 then None
                     else Some (raw_notional, le_scale E raw_notional factor, factor))
             }
           }))"

definition add_contribution :: "'f liquidation_env \<Rightarrow> nat \<Rightarrow> map_position \<Rightarrow> nat \<times> int \<times> 'f \<Rightarrow> 'f liquidation_summary \<Rightarrow> 'f liquidation_summary" where
  "add_contribution E asset p d out =
     (case d of (raw_notional, delta, factor) \<Rightarrow>
        let signed_delta = clamp_i64 (- delta);
            selected = ls_selected_abs_notional out < raw_notional
        in out\<lparr>ls_total_signed_delta := saturating_add_i64 (ls_total_signed_delta out) signed_delta,
               ls_selected_abs_notional := (if selected then raw_notional else ls_selected_abs_notional out),
               ls_selected_asset := (if selected then asset else ls_selected_asset out),
               ls_contributions := ls_contributions out @
                 [\<lparr>lc_asset = asset, lc_signed_delta = signed_delta, lc_size_abs = pq_abs_size p, lc_liquidation_factor = factor,
                   lc_raw_notional = raw_notional, lc_user = le_user E, lc_user_tag = le_user_tag E,
                   lc_mutate_positions = le_mutate E, lc_aux_user_meta = le_aux E\<rparr>]\<rparr>)"

fun liquidation_loop ::
  "'f liquidation_env \<Rightarrow> (nat, map_position) btree \<Rightarrow> int \<Rightarrow> 'f liquidation_summary \<Rightarrow>
   ((nat, map_position) btree \<times> int \<times> 'f liquidation_summary) option" where
  "liquidation_loop E [] account out = Some ([], account, out)"
| "liquidation_loop E ((asset, p) # m) account out =
     (case liquidation_delta E asset p of
        None \<Rightarrow> None
      | Some None \<Rightarrow> map_option (\<lambda>(m', r). ((asset, p) # m', r)) (liquidation_loop E m account out)
      | Some (Some d) \<Rightarrow>
          (let (p1, account1) = if le_mutate E then apply_liquidation_delta account (fst (snd d)) p else (p, account)
           in map_option (\<lambda>(m', r). ((asset, p1) # m', r))
                (liquidation_loop E m account1 (add_contribution E asset p1 d out))))"

definition collect_liquidation_summary ::
  "'f liquidation_env \<Rightarrow> address bset \<Rightarrow> position_map \<Rightarrow> (position_map \<times> 'f liquidation_summary) option" where
  "collect_liquidation_summary E known_users m =
     (if le_user E \<notin> set known_users then Some (m, missing_user (le_user E) (le_user_tag E))
      else map_option (\<lambda>(positions, account, out).
          (\<lparr>pm_signed_account_value = account, pm_positions_by_asset = positions\<rparr>, out))
        (liquidation_loop E (pm_positions_by_asset m) (pm_signed_account_value m)
           \<lparr>ls_user = le_user E, ls_user_tag = le_user_tag E, ls_contributions = [], ls_total_signed_delta = 0,
            ls_status = POSITION_MAP_STATUS_OK, ls_selected_asset = 0, ls_selected_abs_notional = 0,
            ls_selected_user = le_user E, ls_selected_user_tag = le_user_tag E\<rparr>))"

section \<open>The index\<close>

record position_map_index =
  ix_users :: "(address, position_map) btree"
  ix_active_users :: "address bset"
  ix_active_by_asset :: "(nat, address bset) btree"

definition position_map_default :: position_map where
  "position_map_default = position_map_new 0"

definition get_or_default :: "position_map_index \<Rightarrow> address \<Rightarrow> position_map" where
  "get_or_default i user = (case map_of (ix_users i) user of None \<Rightarrow> position_map_default | Some m \<Rightarrow> m)"

definition asset_users :: "(nat, address bset) btree \<Rightarrow> nat \<Rightarrow> address bset" where
  "asset_users m asset = (case map_of m asset of None \<Rightarrow> [] | Some users \<Rightarrow> users)"

fun index_open :: "address \<Rightarrow> (nat, map_position) btree \<Rightarrow> bool \<times> (nat, address bset) btree \<Rightarrow> bool \<times> (nat, address bset) btree" where
  "index_open user [] acc = acc"
| "index_open user ((asset, p) # m) (has_open, by_asset) =
     index_open user m
       (if pq_is_open p then (True, bt_insert asset (bs_insert user (asset_users by_asset asset)) by_asset)
        else (has_open, by_asset))"

definition refresh_user :: "address \<Rightarrow> position_map_index \<Rightarrow> position_map_index" where
  "refresh_user user i =
     (let by_asset = map (\<lambda>(asset, users). (asset, bs_remove user users)) (ix_active_by_asset i)
      in case map_of (ix_users i) user of
           None \<Rightarrow> i\<lparr>ix_active_by_asset := by_asset, ix_active_users := bs_remove user (ix_active_users i)\<rparr>
         | Some m \<Rightarrow>
             (case index_open user (pm_positions_by_asset m) (False, by_asset) of
                (has_open, by_asset') \<Rightarrow>
                  i\<lparr>ix_active_by_asset := by_asset',
                    ix_active_users := (if has_open then bs_insert user (ix_active_users i) else bs_remove user (ix_active_users i))\<rparr>))"

definition upsert_position :: "address \<Rightarrow> nat \<Rightarrow> map_position \<Rightarrow> position_map_index \<Rightarrow> position_map_index" where
  "upsert_position user asset p i =
     refresh_user user (i\<lparr>ix_users := bt_insert user (fst (pm_insert asset p (get_or_default i user))) (ix_users i)\<rparr>)"

definition remove_flat_position :: "address \<Rightarrow> nat \<Rightarrow> position_map_index \<Rightarrow> position_map_index \<times> map_position option" where
  "remove_flat_position user asset i =
     (case map_of (ix_users i) user of
        None \<Rightarrow> (i, None)
      | Some m \<Rightarrow>
          (case pm_get m asset of
             None \<Rightarrow> (i, None)
           | Some p \<Rightarrow>
               (if pq_is_open p then (i, None)
                else (refresh_user user (i\<lparr>ix_users := bt_insert user (fst (pm_remove asset m)) (ix_users i)\<rparr>),
                      snd (pm_remove asset m)))))"

section \<open>The index is exact\<close>

definition holds_open :: "position_map_index \<Rightarrow> address \<Rightarrow> nat \<Rightarrow> bool" where
  "holds_open i user asset \<longleftrightarrow> (\<exists>m p. map_of (ix_users i) user = Some m \<and> pm_get m asset = Some p \<and> pq_is_open p)"

definition index_exact :: "position_map_index \<Rightarrow> address \<Rightarrow> bool" where
  "index_exact i user \<longleftrightarrow>
     (\<forall>asset. user \<in> set (asset_users (ix_active_by_asset i) asset) \<longleftrightarrow> holds_open i user asset) \<and>
     (user \<in> set (ix_active_users i) \<longleftrightarrow> (\<exists>asset. holds_open i user asset))"

definition index_wf :: "position_map_index \<Rightarrow> bool" where
  "index_wf i \<longleftrightarrow> bt_wf (ix_users i) \<and> (\<forall>m \<in> ran (map_of (ix_users i)). bt_wf (pm_positions_by_asset m))"

lemma asset_users_remove:
  "set (asset_users (map (\<lambda>(asset, users). (asset, bs_remove user users)) m) asset) = set (asset_users m asset) - {user}"
  by (induction m) (auto simp: asset_users_def split: if_split_asm)

lemma index_open_spec:
  "fst (index_open user m (h, b)) = (h \<or> (\<exists>e \<in> set m. pq_is_open (snd e)))"
  "set (asset_users (snd (index_open user m (h, b))) asset) =
     set (asset_users b asset) \<union> (if \<exists>p. (asset, p) \<in> set m \<and> pq_is_open p then {user} else {})"
proof -
  show "fst (index_open user m (h, b)) = (h \<or> (\<exists>e \<in> set m. pq_is_open (snd e)))"
    by (induction user m "(h, b)" arbitrary: h b rule: index_open.induct) auto
  show "set (asset_users (snd (index_open user m (h, b))) asset) =
     set (asset_users b asset) \<union> (if \<exists>p. (asset, p) \<in> set m \<and> pq_is_open p then {user} else {})"
    by (induction user m "(h, b)" arbitrary: h b rule: index_open.induct) (auto simp: asset_users_def)
qed

lemma refresh_index:
  "set (asset_users (ix_active_by_asset (refresh_user user i)) asset) = set (asset_users (ix_active_by_asset i) asset) - {user} \<union>
     (if \<exists>m p. map_of (ix_users i) user = Some m \<and> (asset, p) \<in> set (pm_positions_by_asset m) \<and> pq_is_open p then {user} else {})"
  "set (ix_active_users (refresh_user user i)) = set (ix_active_users i) - {user} \<union>
     (if \<exists>m e. map_of (ix_users i) user = Some m \<and> e \<in> set (pm_positions_by_asset m) \<and> pq_is_open (snd e) then {user} else {})"
  "ix_users (refresh_user user i) = ix_users i"
  by (cases "map_of (ix_users i) user";
      auto simp: refresh_user_def Let_def case_prod_beta index_open_spec asset_users_remove)+

lemma refresh_exact:
  assumes "index_wf i"
  shows "index_exact (refresh_user user i) user" and "v \<noteq> user \<Longrightarrow> index_exact (refresh_user user i) v \<longleftrightarrow> index_exact i v"
    and "index_wf (refresh_user user i)"
proof -
  have get: "(asset, p) \<in> set (pm_positions_by_asset m) \<longleftrightarrow> pm_get m asset = Some p"
    if "map_of (ix_users i) user = Some m" for m asset p
  proof -
    have "bt_wf (pm_positions_by_asset m)" using assms that by (auto simp: index_wf_def ran_def)
    from bt_wf_map_of [OF this, of "(asset, p)"] show ?thesis by (simp add: pm_get_def)
  qed
  have "(\<exists>m p. map_of (ix_users i) user = Some m \<and> (asset, p) \<in> set (pm_positions_by_asset m) \<and> pq_is_open p) \<longleftrightarrow>
      holds_open i user asset" for asset using get by (auto simp: holds_open_def)
  moreover have "(\<exists>m e. map_of (ix_users i) user = Some m \<and> e \<in> set (pm_positions_by_asset m) \<and> pq_is_open (snd e)) \<longleftrightarrow>
      (\<exists>asset. holds_open i user asset)" using get by (fastforce simp: holds_open_def)
  moreover have holds: "holds_open (refresh_user user i) v asset \<longleftrightarrow> holds_open i v asset" for v asset
    by (simp add: holds_open_def refresh_index(3))
  ultimately show "index_exact (refresh_user user i) user" by (simp add: index_exact_def refresh_index(1,2))
  show "index_exact (refresh_user user i) v \<longleftrightarrow> index_exact i v" if "v \<noteq> user"
  proof -
    have "v \<in> set (asset_users (ix_active_by_asset (refresh_user user i)) asset) \<longleftrightarrow> v \<in> set (asset_users (ix_active_by_asset i) asset)"
      "v \<in> set (ix_active_users (refresh_user user i)) \<longleftrightarrow> v \<in> set (ix_active_users i)" for asset
      using that unfolding refresh_index(1,2) by auto
    then show ?thesis by (simp add: index_exact_def holds)
  qed
  show "index_wf (refresh_user user i)" using assms by (simp add: index_wf_def refresh_index(3))
qed

lemma index_replace:
  assumes "index_wf i" and "bt_wf (pm_positions_by_asset m)" and "\<And>v. index_exact i v"
  shows "index_wf (refresh_user user (i\<lparr>ix_users := bt_insert user m (ix_users i)\<rparr>))"
    and "index_exact (refresh_user user (i\<lparr>ix_users := bt_insert user m (ix_users i)\<rparr>)) v"
proof -
  let ?i = "i\<lparr>ix_users := bt_insert user m (ix_users i)\<rparr>"
  have wf: "index_wf ?i" using assms(1,2) by (auto simp: index_wf_def ran_def)
  then show "index_wf (refresh_user user ?i)" by (rule refresh_exact(3))
  have "v \<noteq> user \<Longrightarrow> index_exact ?i v \<longleftrightarrow> index_exact i v" by (simp add: index_exact_def holds_open_def)
  then show "index_exact (refresh_user user ?i) v"
    using refresh_exact(1,2) [OF wf] assms(3) by (cases "v = user") auto
qed

datatype index_op = UpsertPosition address nat map_position | RemoveFlatPosition address nat | RefreshUser address

fun index_step :: "index_op \<Rightarrow> position_map_index \<Rightarrow> position_map_index" where
  "index_step (UpsertPosition user asset p) i = upsert_position user asset p i"
| "index_step (RemoveFlatPosition user asset) i = fst (remove_flat_position user asset i)"
| "index_step (RefreshUser user) i = refresh_user user i"

definition index_new :: position_map_index where
  "index_new = \<lparr>ix_users = [], ix_active_users = [], ix_active_by_asset = []\<rparr>"

lemma index_step_exact:
  assumes "index_wf i" and "\<And>v. index_exact i v"
  shows "index_wf (index_step x i)" and "index_exact (index_step x i) v"
proof -
  have wf: "bt_wf (pm_positions_by_asset m)" if "map_of (ix_users i) user = Some m" for user m
    using that assms(1) by (auto simp: index_wf_def ran_def)
  have "index_wf (index_step x i) \<and> index_exact (index_step x i) v"
  proof (cases x)
    case (UpsertPosition user asset p)
    have "bt_wf (pm_positions_by_asset (fst (pm_insert asset p (get_or_default i user))))"
      using wf [of user] by (cases "map_of (ix_users i) user")
        (auto simp: pm_insert_def get_or_default_def position_map_default_def position_map_new_def intro!: bt_wf_insert
          simp del: bt_insert.simps)
    from index_replace [OF assms(1) this assms(2)] UpsertPosition show ?thesis by (simp add: upsert_position_def)
  next
    case (RemoveFlatPosition user asset)
    show ?thesis
    proof (cases "\<exists>m p. map_of (ix_users i) user = Some m \<and> pm_get m asset = Some p \<and> \<not> pq_is_open p")
      case True
      then obtain m p where m: "map_of (ix_users i) user = Some m" "pm_get m asset = Some p" "\<not> pq_is_open p" by blast
      then have "bt_wf (pm_positions_by_asset (fst (pm_remove asset m)))" using wf by (simp add: pm_remove_def)
      from index_replace [OF assms(1) this assms(2)] m RemoveFlatPosition show ?thesis by (simp add: remove_flat_position_def)
    next
      case False
      then have "index_step x i = i"
        using RemoveFlatPosition by (auto simp: remove_flat_position_def split: option.splits)
      then show ?thesis using assms by simp
    qed
  next
    case (RefreshUser user)
    then show ?thesis using refresh_exact [OF assms(1)] assms(2) by (cases "v = user") auto
  qed
  then show "index_wf (index_step x i)" "index_exact (index_step x i) v" by simp_all
qed

text \<open>Whatever positions are stored, flattened and removed, the index stays exact: a user is listed as
  active exactly when one of the user's positions is open, and under an asset exactly when the position in
  that asset is.\<close>

lemma position_index_exact: "index_exact (fold index_step ops index_new) user"
proof -
  have "index_wf (fold index_step ops i) \<and> index_exact (fold index_step ops i) user" if "index_wf i" "\<And>v. index_exact i v" for i
    using that by (induction ops arbitrary: i) (simp_all add: index_step_exact)
  then show ?thesis
    by (simp add: index_new_def index_wf_def index_exact_def holds_open_def asset_users_def)
qed

section \<open>Liquidation\<close>

definition map_funds :: "(nat, map_position) btree \<Rightarrow> int \<Rightarrow> int" where
  "map_funds m account = account + bt_sum pq_margin_raw m"

definition delta_weight :: "'f liquidation_contribution list \<Rightarrow> int" where
  "delta_weight cs = (\<Sum>c\<leftarrow>cs. \<bar>lc_signed_delta c\<bar>)"

lemma delta_weight_nonneg: "0 \<le> delta_weight cs"
  by (auto simp: delta_weight_def intro!: sum_list_nonneg)

lemma delta_weight_simps [simp]: "delta_weight [] = 0" "delta_weight (c # cs) = \<bar>lc_signed_delta c\<bar> + delta_weight cs"
  by (simp_all add: delta_weight_def)

lemma apply_liquidation_delta_spec:
  assumes "apply_liquidation_delta account delta p = (p1, account1)"
  shows "pq_szi p1 = pq_szi p" and "pq_is_isolated p1 = pq_is_isolated p"
    and "\<bar>account\<bar> + \<bar>delta\<bar> \<le> i64_max \<Longrightarrow> \<bar>pq_margin_raw p\<bar> + \<bar>delta\<bar> \<le> i64_max \<Longrightarrow>
      account1 + pq_margin_raw p1 = account + pq_margin_raw p - delta \<and> \<bar>account1\<bar> \<le> \<bar>account\<bar> + \<bar>delta\<bar>"
proof -
  show "pq_szi p1 = pq_szi p" "pq_is_isolated p1 = pq_is_isolated p"
    using assms by (auto simp: apply_liquidation_delta_def Let_def pq_is_isolated_def split: if_split_asm)
  assume "\<bar>account\<bar> + \<bar>delta\<bar> \<le> i64_max" "\<bar>pq_margin_raw p\<bar> + \<bar>delta\<bar> \<le> i64_max"
  then have "in_i64 (account - delta)" "in_i64 (pq_margin_raw p - delta)" by (auto simp: in_i64_def i64_max_def i64_min_def)
  then show "account1 + pq_margin_raw p1 = account + pq_margin_raw p - delta \<and> \<bar>account1\<bar> \<le> \<bar>account\<bar> + \<bar>delta\<bar>"
    using assms by (auto simp: apply_liquidation_delta_def Let_def saturating_sub_i64_def split: if_split_asm)
qed

definition contribution_of :: "'f liquidation_env \<Rightarrow> nat \<Rightarrow> map_position \<Rightarrow> nat \<times> int \<times> 'f \<Rightarrow> 'f liquidation_contribution" where
  "contribution_of E asset p d =
     \<lparr>lc_asset = asset, lc_signed_delta = clamp_i64 (- fst (snd d)), lc_size_abs = pq_abs_size p, lc_liquidation_factor = snd (snd d),
      lc_raw_notional = fst d, lc_user = le_user E, lc_user_tag = le_user_tag E, lc_mutate_positions = le_mutate E,
      lc_aux_user_meta = le_aux E\<rparr>"

lemma add_contribution_simps [simp]:
  "ls_contributions (add_contribution E asset p d out) = ls_contributions out @ [contribution_of E asset p d]"
  "ls_total_signed_delta (add_contribution E asset p d out) =
     saturating_add_i64 (ls_total_signed_delta out) (clamp_i64 (- fst (snd d)))"
  by (cases d; simp add: add_contribution_def contribution_of_def Let_def)+

text \<open>What the contributions \<open>cs\<close> have done to the positions, the account and the total.\<close>

definition settled ::
  "'f liquidation_contribution list \<Rightarrow> (nat, map_position) btree \<times> int \<times> int \<Rightarrow> (nat, map_position) btree \<times> int \<times> int \<Rightarrow> bool" where
  "settled cs s t \<longleftrightarrow>
     (case (s, t) of ((m, account, sum0), (m', account', sum0')) \<Rightarrow>
        map (\<lambda>(asset, p). (asset, pq_szi p)) m' = map (\<lambda>(asset, p). (asset, pq_szi p)) m \<and>
        (\<bar>account\<bar> + delta_weight cs < i64_max \<and> \<bar>sum0\<bar> + delta_weight cs < i64_max \<and>
         (\<forall>e \<in> set m. \<bar>pq_margin_raw (snd e)\<bar> + delta_weight cs < i64_max) \<longrightarrow>
           map_funds m' account' = map_funds m account + (\<Sum>c\<leftarrow>cs. lc_signed_delta c) \<and>
           sum0' = sum0 + (\<Sum>c\<leftarrow>cs. lc_signed_delta c)))"

lemma settled_skip:
  "settled cs (m, account, sum0) (m', account', sum0') \<Longrightarrow> settled cs ((asset, p) # m, account, sum0) ((asset, p) # m', account', sum0')"
  by (auto simp: settled_def map_funds_def bt_sum_Cons)

lemma small_clamp: "\<bar>clamp_i64 x\<bar> < i64_max \<Longrightarrow> clamp_i64 x = x"
  by (auto simp: clamp_i64_def i64_max_def i64_min_def max_def min_def split: if_split_asm)

lemma settled_apply:
  assumes "apply_liquidation_delta account delta p = (p1, account1)" and "lc_signed_delta c = clamp_i64 (- delta)"
    and "settled cs (m, account1, saturating_add_i64 sum0 (clamp_i64 (- delta))) (m', account', sum0')"
  shows "settled (c # cs) ((asset, p) # m, account, sum0) ((asset, p1) # m', account', sum0')"
proof -
  note spec = apply_liquidation_delta_spec [OF assms(1)]
  have "map_funds ((asset, p1) # m') account' = map_funds ((asset, p) # m) account + (\<Sum>c\<leftarrow>c # cs. lc_signed_delta c) \<and>
      sum0' = sum0 + (\<Sum>c\<leftarrow>c # cs. lc_signed_delta c)"
    if b: "\<bar>account\<bar> + delta_weight (c # cs) < i64_max" "\<bar>sum0\<bar> + delta_weight (c # cs) < i64_max"
      "\<forall>e \<in> set ((asset, p) # m). \<bar>pq_margin_raw (snd e)\<bar> + delta_weight (c # cs) < i64_max"
  proof -
    have nonneg: "0 \<le> delta_weight cs" by (rule delta_weight_nonneg)
    have delta: "clamp_i64 (- delta) = - delta" by (rule small_clamp) (use b(1) nonneg assms(2) in simp)
    then have d: "\<bar>lc_signed_delta c\<bar> = \<bar>delta\<bar>" "lc_signed_delta c = - delta" using assms(2) by simp_all
    have "in_i64 (sum0 - delta)" using b(2) nonneg d by (auto simp: in_i64_def i64_max_def i64_min_def)
    then have total: "saturating_add_i64 sum0 (clamp_i64 (- delta)) = sum0 - delta" by (simp add: saturating_add_i64_def delta)
    have moved: "account1 + pq_margin_raw p1 = account + pq_margin_raw p - delta" "\<bar>account1\<bar> \<le> \<bar>account\<bar> + \<bar>delta\<bar>"
      using spec(3) b nonneg d by auto
    have bounds: "\<bar>account1\<bar> + delta_weight cs < i64_max" "\<bar>sum0 - delta\<bar> + delta_weight cs < i64_max"
      using b(1,2) moved(2) d by auto
    have margins: "\<bar>pq_margin_raw (snd e)\<bar> + delta_weight cs < i64_max" if "e \<in> set m" for e
    proof -
      from that b(3) d have "\<bar>pq_margin_raw (snd e)\<bar> + (\<bar>delta\<bar> + delta_weight cs) < i64_max" by simp
      then show ?thesis using abs_ge_zero [of delta] by linarith
    qed
    have "map_funds m' account' = map_funds m account1 + (\<Sum>c\<leftarrow>cs. lc_signed_delta c) \<and>
        sum0' = sum0 - delta + (\<Sum>c\<leftarrow>cs. lc_signed_delta c)"
      using assms(3) bounds margins unfolding total settled_def by simp
    then show ?thesis using moved(1) d by (simp add: map_funds_def bt_sum_Cons)
  qed
  moreover have "map (\<lambda>(asset, p). (asset, pq_szi p)) m' = map (\<lambda>(asset, p). (asset, pq_szi p)) m"
    using assms(3) by (simp add: settled_def)
  ultimately show ?thesis using spec(1) by (simp add: settled_def)
qed

lemma liquidation_loop_settled:
  assumes "liquidation_loop E m account out = Some (m', account', out')" and "le_mutate E"
  shows "\<exists>cs. ls_contributions out' = ls_contributions out @ cs \<and>
    settled cs (m, account, ls_total_signed_delta out) (m', account', ls_total_signed_delta out')"
  using assms(1)
proof (induction m arbitrary: m' account out)
  case Nil
  then show ?case by (intro exI [of _ "[]"]) (simp add: settled_def)
next
  case (Cons x m)
  obtain asset p where x: "x = (asset, p)" by (cases x)
  then obtain d where d: "liquidation_delta E asset p = Some d" using Cons.prems by (auto split: option.split_asm)
  show ?case
  proof (cases d)
    case None
    with Cons.prems d x obtain m1 where m1: "liquidation_loop E m account out = Some (m1, account', out')" "m' = (asset, p) # m1"
      by auto
    from Cons.IH [OF m1(1)] show ?thesis unfolding x m1(2) using settled_skip by blast
  next
    case (Some q)
    obtain p1 account1 where a: "apply_liquidation_delta account (fst (snd q)) p = (p1, account1)" by fastforce
    with Cons.prems d x Some assms(2) obtain m1 where
      m1: "liquidation_loop E m account1 (add_contribution E asset p1 q out) = Some (m1, account', out')" "m' = (asset, p1) # m1"
      by auto
    from Cons.IH [OF m1(1)] obtain cs where cs: "ls_contributions out' = ls_contributions out @ contribution_of E asset p1 q # cs"
      "settled cs (m, account1, saturating_add_i64 (ls_total_signed_delta out) (clamp_i64 (- fst (snd q))))
        (m1, account', ls_total_signed_delta out')" by auto
    have "lc_signed_delta (contribution_of E asset p1 q) = clamp_i64 (- fst (snd q))" by (simp add: contribution_of_def)
    from settled_apply [OF a this cs(2)] cs(1) show ?thesis unfolding x m1(2) by blast
  qed
qed

text \<open>A collection that mutates the positions keeps every asset and size, and while no value leaves the
  \<open>i64\<close> range it takes from the account and the isolated margins exactly the total that it reports: the sum of the
  signed deltas of its contributions.\<close>

lemma liquidation_conserves:
  assumes "collect_liquidation_summary E known m = Some (m', s)" and "le_user E \<in> set known" and "le_mutate E"
    and "\<bar>pm_signed_account_value m\<bar> + delta_weight (ls_contributions s) < i64_max"
    and "\<forall>e \<in> set (pm_positions_by_asset m). \<bar>pq_margin_raw (snd e)\<bar> + delta_weight (ls_contributions s) < i64_max"
  shows "map (\<lambda>(asset, p). (asset, pq_szi p)) (pm_positions_by_asset m') = map (\<lambda>(asset, p). (asset, pq_szi p)) (pm_positions_by_asset m) \<and>
    ls_total_signed_delta s = (\<Sum>c\<leftarrow>ls_contributions s. lc_signed_delta c) \<and>
    map_funds (pm_positions_by_asset m') (pm_signed_account_value m') =
      map_funds (pm_positions_by_asset m) (pm_signed_account_value m) + ls_total_signed_delta s"
proof -
  obtain out where "liquidation_loop E (pm_positions_by_asset m) (pm_signed_account_value m) out =
      Some (pm_positions_by_asset m', pm_signed_account_value m', s)" "ls_contributions out = []" "ls_total_signed_delta out = 0"
    using assms(1,2) by (auto simp: collect_liquidation_summary_def split: if_split_asm)
  from liquidation_loop_settled [OF this(1) assms(3)] this(2,3) show ?thesis
    using assms(4,5) by (auto simp: settled_def)
qed

section \<open>Witness\<close>

definition example_env :: "nat liquidation_env" where
  "example_env = \<lparr>le_user = 9, le_user_tag = 0, le_prices = [10], le_factors = [(0, 2)], le_mutate = True, le_aux = 0,
     le_scale = (\<lambda>n f. int (n * f)), le_is_zero = (\<lambda>f. f = 0)\<rparr>"

definition example_map :: position_map where
  "example_map = \<lparr>pm_signed_account_value = 1000, pm_positions_by_asset =
     [(0, \<lparr>pq_margin_mode_or_isolated = 0, pq_max_leverage = 5, pq_margin_raw = 0, pq_szi = - 3, pq_accumulator_a = 0,
           pq_accumulator_b = 0, pq_accumulator_c = 0, pq_cumulative_funding_raw = 0, pq_margin_table_id = 0, pq_flags_or_mode = 0\<rparr>)]\<rparr>"

lemma liquidation_conserves_witness:
  "\<exists>m' s. collect_liquidation_summary example_env [9] example_map = Some (m', s) \<and> ls_total_signed_delta s = - 60 \<and>
     map_funds (pm_positions_by_asset m') (pm_signed_account_value m') = 940"
proof -
  obtain m' s where r: "collect_liquidation_summary example_env [9] example_map = Some (m', s)"
    and s: "delta_weight (ls_contributions s) = 60" "ls_total_signed_delta s = - 60"
    by (simp add: collect_liquidation_summary_def example_env_def example_map_def liquidation_delta_def local_asset_index_def
        MAP_ASSETS_PER_DEX_def pq_abs_size_def unsigned_abs_def checked_mul_u64_def u64_max_def apply_liquidation_delta_def
        pq_is_isolated_def add_contribution_def Let_def saturating_sub_i64_def saturating_add_i64_def clamp_i64_def i64_max_def
        i64_min_def)
  from liquidation_conserves [OF r] s have "map_funds (pm_positions_by_asset m') (pm_signed_account_value m') = 940"
    by (simp add: example_env_def example_map_def i64_max_def map_funds_def bt_sum_def)
  with r s(2) show ?thesis by blast
qed

end
