(* ===== verification/Clearinghouse.thy ===== *)
theory Clearinghouse
  imports Rust_Prelude "HOL-Library.Monad_Syntax"
begin

text \<open>
  The clearinghouse of one dex, \<open>l1/clearinghouse/clearinghouse.rs\<close>: positions of all users by asset, the open
  interest per asset, the set of active users, fills, position deltas, the flattening of an asset and the
  open-interest caps.  \<open>None\<close> is a panic.  Fields of the structures that no code reads are left out.  The
  iteration order of the hash map of users is an argument of \<open>flatten_asset_positions_for_book\<close>, and the
  floating-point scaling of a notional is an argument of the cap collection.
\<close>

section \<open>Data\<close>

definition CH_ASSETS_PER_DEX :: nat where
  "CH_ASSETS_PER_DEX = 10000"

definition SUCCESS_RESULT_TAG :: nat where
  "SUCCESS_RESULT_TAG = 390"

datatype clearinghouse_result_tag =
  MissingUserForPositionDelta | ZeroPositionDelta | MissingAssetContext | PositionDeltaTooLarge | MarginWouldBeNegative
| NonNormalPositionContext | DelistedAssetCannotBeReducedHere | SignedPositionOverflow | AccountValueOverflow | ChSuccess

fun result_tag_u16 :: "clearinghouse_result_tag \<Rightarrow> nat" where
  "result_tag_u16 MissingUserForPositionDelta = 72"
| "result_tag_u16 ZeroPositionDelta = 73"
| "result_tag_u16 MissingAssetContext = 74"
| "result_tag_u16 PositionDeltaTooLarge = 75"
| "result_tag_u16 MarginWouldBeNegative = 76"
| "result_tag_u16 NonNormalPositionContext = 77"
| "result_tag_u16 DelistedAssetCannotBeReducedHere = 78"
| "result_tag_u16 SignedPositionOverflow = 190"
| "result_tag_u16 AccountValueOverflow = 191"
| "result_tag_u16 ChSuccess = SUCCESS_RESULT_TAG"

datatype ch_trading_status = ChActive | ChReduceOnly | ChDelisted | ChDisabled | ChUnknownStatus nat

definition status_from_storage_byte :: "nat \<Rightarrow> ch_trading_status" where
  "status_from_storage_byte value =
     (if value = 0 then ChActive else if value = 1 then ChReduceOnly else if value = 2 then ChDelisted
      else if value = 3 then ChDisabled else ChUnknownStatus value)"

datatype position_context_kind = ContextEmpty | ContextNormal | ContextUnknown nat

definition kind_from_storage :: "nat \<Rightarrow> position_context_kind" where
  "kind_from_storage value = (if value = 0 then ContextEmpty else if value = 1 then ContextNormal else ContextUnknown value)"

fun kind_as_storage :: "position_context_kind \<Rightarrow> nat" where
  "kind_as_storage ContextEmpty = 0"
| "kind_as_storage ContextNormal = 1"
| "kind_as_storage (ContextUnknown value) = value"

record asset_meta48 =
  am_name_index_or_tag :: nat
  am_max_leverage :: nat
  am_sz_decimals :: nat
  am_margin_table_or_oi_unit :: nat
  am_only_isolated_or_status :: nat

definition asset_trading_status :: "asset_meta48 \<Rightarrow> ch_trading_status" where
  "asset_trading_status meta = status_from_storage_byte (am_only_isolated_or_status meta)"

record asset_row96 =
  ar_signed_px_raw :: int

record position_context =
  pc_kind :: position_context_kind
  pc_oi_unit :: nat
  pc_signed_margin_or_basis :: int
  pc_signed_sz :: int
  pc_aux_20 :: int
  pc_aux_28 :: int
  pc_abs_open_notional :: nat
  pc_aux_38 :: nat

definition new_normal :: "nat \<Rightarrow> position_context" where
  "new_normal oi_unit = \<lparr>pc_kind = ContextNormal, pc_oi_unit = oi_unit, pc_signed_margin_or_basis = 0, pc_signed_sz = 0,
     pc_aux_20 = 0, pc_aux_28 = 0, pc_abs_open_notional = 0, pc_aux_38 = 0\<rparr>"

definition is_normal :: "position_context \<Rightarrow> bool" where
  "is_normal ctx \<longleftrightarrow> pc_kind ctx = ContextNormal"

definition abs_sz :: "position_context \<Rightarrow> nat" where
  "abs_sz ctx = unsigned_abs (pc_signed_sz ctx)"

definition recompute_abs_open_notional :: "nat \<Rightarrow> position_context \<Rightarrow> clearinghouse_result_tag + position_context" where
  "recompute_abs_open_notional px ctx =
     (if pc_signed_sz ctx = 0 \<or> px = 0 then Inr (ctx\<lparr>pc_abs_open_notional := 0\<rparr>)
      else case checked_mul_u64 (abs_sz ctx) px of
        None \<Rightarrow> Inl AccountValueOverflow
      | Some v \<Rightarrow> if v \<le> nat i64_max - 1 then Inr (ctx\<lparr>pc_abs_open_notional := v\<rparr>) else Inl AccountValueOverflow)"

record ch_user =
  cu_signed_account_value :: int
  cu_positions :: "(nat, position_context) btree"
  cu_open_position_count :: nat

definition ch_user_default :: ch_user where
  "ch_user_default = \<lparr>cu_signed_account_value = 0, cu_positions = [], cu_open_position_count = 0\<rparr>"

definition open_contexts :: "(nat, position_context) btree \<Rightarrow> nat" where
  "open_contexts m = length (filter (\<lambda>e. pc_signed_sz (snd e) \<noteq> 0) m)"

definition ch_refresh_open_position_count :: "ch_user \<Rightarrow> ch_user \<times> nat \<times> nat" where
  "ch_refresh_open_position_count u =
     (let count = open_contexts (cu_positions u)
      in (u\<lparr>cu_open_position_count := count\<rparr>, cu_open_position_count u, count))"

record ch_margin_summary =
  cs_signed_equity_or_value :: int
  cs_margin_requirement_sum :: int
  cs_abs_notional_sum :: nat
  cs_isolated_margin_sum :: int

record position_update_side =
  sd_kind :: position_context_kind
  sd_signed_sz_before :: int
  sd_user :: address
  sd_user_tag :: nat
  sd_px_raw :: nat
  sd_asset :: nat
  sd_sz_delta_abs :: nat
  sd_notional_delta :: nat
  sd_is_buy_or_long :: bool

record generated_fill_record =
  gf_sequence :: int
  gf_user :: address
  gf_asset :: nat
  gf_closed_sz :: nat
  gf_notional :: nat
  gf_was_long :: bool
  gf_before :: position_context
  gf_after :: position_context

record apply_trade_result =
  at_tag :: nat
  at_before :: position_context
  at_after :: position_context

record oi_cap_hit =
  oh_asset :: nat
  oh_sz :: nat
  oh_scaled_delta_minus_notional :: int
  oh_notional :: int

record open_interest_cap_log =
  ol_asset :: nat
  ol_requested_delta :: int
  ol_current_open_interest :: nat
  ol_cap :: nat
  ol_oracle_px :: int

record clearinghouse =
  ch_asset_meta :: "asset_meta48 list"
  ch_dex_id :: nat
  ch_asset_rows :: "asset_row96 list"
  ch_users :: "(address, ch_user) btree"
  ch_active_position_oi_units :: "address \<times> nat \<rightharpoonup> nat"
  ch_active_users_with_positions :: "address bset"
  ch_open_interest_by_asset :: "(nat, nat) btree"
  ch_open_interest_cap_by_asset :: "(nat, nat) btree"
  ch_dirty_users :: "address bset"
  ch_cumulative_notional_by_asset :: "(nat, int) btree"
  ch_timestamp_or_sequence_a :: nat
  ch_timestamp_or_sequence_b :: nat
  ch_mode :: nat
  ch_oi_cap_budget :: nat

definition clearinghouse_new :: "nat \<Rightarrow> clearinghouse" where
  "clearinghouse_new dex_id =
     \<lparr>ch_asset_meta = [], ch_dex_id = dex_id, ch_asset_rows = [], ch_users = [], ch_active_position_oi_units = Map.empty,
      ch_active_users_with_positions = [], ch_open_interest_by_asset = [], ch_open_interest_cap_by_asset = [],
      ch_dirty_users = [], ch_cumulative_notional_by_asset = [], ch_timestamp_or_sequence_a = 0,
      ch_timestamp_or_sequence_b = 0, ch_mode = 0, ch_oi_cap_budget = 0\<rparr>"

section \<open>Lookups\<close>

definition encoded_asset :: "clearinghouse \<Rightarrow> nat \<Rightarrow> nat" where
  "encoded_asset c local = (ch_dex_id c * CH_ASSETS_PER_DEX + local) mod 2 ^ 64"

definition split_asset_id :: "clearinghouse \<Rightarrow> nat \<Rightarrow> nat option" where
  "split_asset_id c asset =
     (let dex = asset div CH_ASSETS_PER_DEX; local = asset mod CH_ASSETS_PER_DEX
      in if dex = ch_dex_id c \<and> local < length (ch_asset_meta c) then Some local else None)"

definition asset_meta :: "clearinghouse \<Rightarrow> nat \<Rightarrow> asset_meta48 option" where
  "asset_meta c asset = map_option (\<lambda>local. ch_asset_meta c ! local) (split_asset_id c asset)"

definition asset_row :: "clearinghouse \<Rightarrow> nat \<Rightarrow> asset_row96 option" where
  "asset_row c asset =
     (let local = asset mod CH_ASSETS_PER_DEX in if local < length (ch_asset_rows c) then Some (ch_asset_rows c ! local) else None)"

definition oracle_px_raw :: "clearinghouse \<Rightarrow> nat \<Rightarrow> int option" where
  "oracle_px_raw c asset = map_option ar_signed_px_raw (asset_row c asset)"

definition user_or_default :: "clearinghouse \<Rightarrow> address \<Rightarrow> ch_user" where
  "user_or_default c user = (case map_of (ch_users c) user of None \<Rightarrow> ch_user_default | Some u \<Rightarrow> u)"

definition get_or_insert_user :: "address \<Rightarrow> clearinghouse \<Rightarrow> clearinghouse" where
  "get_or_insert_user user c = c\<lparr>ch_users := bt_insert user (user_or_default c user) (ch_users c)\<rparr>"

definition asset_oracle_context :: "clearinghouse \<Rightarrow> nat \<Rightarrow> position_context option" where
  "asset_oracle_context c asset = map_option (\<lambda>meta. new_normal (am_margin_table_or_oi_unit meta)) (asset_meta c asset)"

text \<open>Writing through the reference that \<open>get_or_insert_asset_oracle_context\<close> returns.\<close>

definition put_context :: "address \<Rightarrow> nat \<Rightarrow> position_context \<Rightarrow> clearinghouse \<Rightarrow> clearinghouse" where
  "put_context user asset ctx c =
     (let u = user_or_default c user
      in c\<lparr>ch_dirty_users := bs_insert user (ch_dirty_users c),
           ch_users := bt_insert user (u\<lparr>cu_positions := bt_insert asset ctx (cu_positions u)\<rparr>) (ch_users c)\<rparr>)"

definition get_or_insert_asset_oracle_context :: "address \<Rightarrow> nat \<Rightarrow> clearinghouse \<Rightarrow> (clearinghouse \<times> position_context) option" where
  "get_or_insert_asset_oracle_context user asset c =
     do {
       meta \<leftarrow> asset_meta c asset;
       let ctx = (case map_of (cu_positions (user_or_default c user)) asset of
                    None \<Rightarrow> new_normal (am_margin_table_or_oi_unit meta) | Some ctx \<Rightarrow> ctx);
       Some (put_context user asset ctx c, ctx)
     }"

section \<open>Margin\<close>

definition ch_margin_delta_for_asset :: "clearinghouse \<Rightarrow> position_context \<Rightarrow> nat \<Rightarrow> nat \<Rightarrow> int option" where
  "ch_margin_delta_for_asset c ctx asset mode =
     do {
       px \<leftarrow> oracle_px_raw c asset;
       if px \<le> 0 \<or> pc_signed_sz ctx = 0 then Some 0
       else do {
         meta \<leftarrow> asset_meta c asset;
         let base = min ((int (unsigned_abs (pc_signed_sz ctx)) * px) div int (max (am_max_leverage meta) 1)) i64_max;
         Some (if mode = 1 then base
               else if mode = 2 then saturating_sub_i64 base (max (pc_signed_margin_or_basis ctx) 0)
               else if mode = 3 \<or> mode = 4 then saturating_add_i64 base (pc_aux_20 ctx)
               else base)
       }
     }"

fun summarize_positions ::
  "clearinghouse \<Rightarrow> bool \<Rightarrow> bool \<Rightarrow> (nat, position_context) btree \<Rightarrow> ch_margin_summary \<Rightarrow> ch_margin_summary option" where
  "summarize_positions c include_isolated include_cross [] summary = Some summary"
| "summarize_positions c include_isolated include_cross ((asset, ctx) # m) summary =
     (if \<not> is_normal ctx \<or> pc_signed_sz ctx = 0 then summarize_positions c include_isolated include_cross m summary
      else do {
        meta \<leftarrow> asset_meta c asset;
        let only_isolated = (am_only_isolated_or_status meta \<noteq> 0);
        if (only_isolated \<and> \<not> include_isolated) \<or> (\<not> only_isolated \<and> \<not> include_cross)
        then summarize_positions c include_isolated include_cross m summary
        else do {
          delta \<leftarrow> ch_margin_delta_for_asset c ctx asset 2;
          let margin = max delta 0;
          summarize_positions c include_isolated include_cross m
            (summary\<lparr>cs_abs_notional_sum := saturating_add_u64 (cs_abs_notional_sum summary) (pc_abs_open_notional ctx),
                     cs_margin_requirement_sum := saturating_add_i64 (cs_margin_requirement_sum summary) margin,
                     cs_isolated_margin_sum :=
                       (if only_isolated then saturating_add_i64 (cs_isolated_margin_sum summary) margin
                        else cs_isolated_margin_sum summary)\<rparr>)
        }
      })"

definition ch_aggregate_position_margin_summary :: "clearinghouse \<Rightarrow> address \<Rightarrow> bool \<Rightarrow> bool \<Rightarrow> ch_margin_summary option" where
  "ch_aggregate_position_margin_summary c user include_isolated include_cross =
     (let zero = \<lparr>cs_signed_equity_or_value = 0, cs_margin_requirement_sum = 0, cs_abs_notional_sum = 0, cs_isolated_margin_sum = 0\<rparr>
      in case map_of (ch_users c) user of
           None \<Rightarrow> Some zero
         | Some u \<Rightarrow> summarize_positions c include_isolated include_cross (cu_positions u)
             (zero\<lparr>cs_signed_equity_or_value := cu_signed_account_value u\<rparr>))"

section \<open>Bookkeeping\<close>

definition refresh_user_activity_after_position_change :: "address \<Rightarrow> clearinghouse \<Rightarrow> clearinghouse" where
  "refresh_user_activity_after_position_change user c =
     (case map_of (ch_users c) user of
        None \<Rightarrow> c\<lparr>ch_active_users_with_positions := bs_remove user (ch_active_users_with_positions c)\<rparr>
      | Some u \<Rightarrow>
          (case ch_refresh_open_position_count u of
             (u', old, new) \<Rightarrow>
               c\<lparr>ch_users := bt_insert user u' (ch_users c),
                 ch_active_users_with_positions :=
                   (if new = 0 then bs_remove user (ch_active_users_with_positions c)
                    else bs_insert user (ch_active_users_with_positions c))\<rparr>))"

definition rescale_position_oi_unit :: "address \<Rightarrow> nat \<Rightarrow> nat \<Rightarrow> clearinghouse \<Rightarrow> clearinghouse" where
  "rescale_position_oi_unit user asset oi_unit c =
     c\<lparr>ch_active_position_oi_units := (ch_active_position_oi_units c)((user, asset) := (if oi_unit = 0 then None else Some oi_unit))\<rparr>"

definition update_open_interest_by_slot :: "nat \<Rightarrow> int \<Rightarrow> int \<Rightarrow> clearinghouse \<Rightarrow> clearinghouse" where
  "update_open_interest_by_slot asset old_abs_sz new_abs_sz c =
     (let entry = (case map_of (ch_open_interest_by_asset c) asset of None \<Rightarrow> 0 | Some v \<Rightarrow> v);
          v = saturating_add_u64 (saturating_sub_u64 entry (unsigned_abs old_abs_sz)) (unsigned_abs new_abs_sz)
      in c\<lparr>ch_open_interest_by_asset :=
             (if v = 0 then bt_remove asset (ch_open_interest_by_asset c)
              else bt_insert asset v (ch_open_interest_by_asset c))\<rparr>)"

text \<open>The writes that end each of the three position updates.\<close>

definition store_position :: "address \<Rightarrow> nat \<Rightarrow> position_context \<Rightarrow> position_context \<Rightarrow> clearinghouse \<Rightarrow> clearinghouse option" where
  "store_position user asset old next c =
     do {
       (c1, _) \<leftarrow> get_or_insert_asset_oracle_context user asset c;
       let c2 = update_open_interest_by_slot asset (pc_signed_sz old) (pc_signed_sz next) (put_context user asset next c1);
       let c3 = (if pc_oi_unit old \<noteq> pc_oi_unit next then rescale_position_oi_unit user asset (pc_oi_unit next) c2 else c2);
       Some (refresh_user_activity_after_position_change user c3)
     }"

section \<open>Position updates\<close>

text \<open>The position after a fill, before it is stored: an error tag and the context reached, or the new context.\<close>

definition filled_context ::
  "position_context \<Rightarrow> int \<Rightarrow> int \<Rightarrow> int \<Rightarrow> (nat \<times> position_context) + position_context" where
  "filled_context before px_raw signed_sz_delta basis =
     (if \<not> is_normal before then Inl (77, before)
      else case checked_add_i64 (pc_signed_sz before) signed_sz_delta of
        None \<Rightarrow> Inl (190, before)
      | Some next_sz \<Rightarrow>
          (let sized = before\<lparr>pc_signed_sz := next_sz\<rparr>;
               px = (if px_raw \<le> 0 then 0 else nat px_raw);
               after = (if next_sz = 0 \<or> sgn (pc_signed_sz before) \<noteq> sgn next_sz
                        then sized\<lparr>pc_aux_20 := 0, pc_aux_28 := 0\<rparr> else sized)
           in case recompute_abs_open_notional px after of
                Inl tag \<Rightarrow> Inl (result_tag_u16 tag, after)
              | Inr priced \<Rightarrow> Inr (priced\<lparr>pc_signed_margin_or_basis := basis\<rparr>)))"

definition apply_trade_or_fill_update ::
  "nat \<Rightarrow> int \<Rightarrow> int \<Rightarrow> address \<Rightarrow> int \<Rightarrow> clearinghouse \<Rightarrow> (clearinghouse \<times> apply_trade_result) option" where
  "apply_trade_or_fill_update asset px_raw signed_sz_delta user side_notional_hint c =
     do {
       summary \<leftarrow> ch_aggregate_position_margin_summary c user False True;
       let withdrawable = max (saturating_sub_i64 (cs_signed_equity_or_value summary) (cs_margin_requirement_sum summary)) 0;
       let available = (case map_of (ch_users c) user of
                          None \<Rightarrow> 0 | Some u \<Rightarrow> saturating_sub_i64 (cu_signed_account_value u) withdrawable);
       (c1, before) \<leftarrow> get_or_insert_asset_oracle_context user asset c;
       case filled_context before px_raw signed_sz_delta (saturating_add_i64 available side_notional_hint) of
         Inl (tag, after) \<Rightarrow> Some (c1, \<lparr>at_tag = tag, at_before = before, at_after = after\<rparr>)
       | Inr after \<Rightarrow> do {
           c2 \<leftarrow> store_position user asset before after c1;
           let c3 = (if ch_mode c2 = 3
                     then let abs_change = wrap_i64 (wrap_i64 (int (pc_abs_open_notional after)) - wrap_i64 (int (pc_abs_open_notional before)));
                              entry = (case map_of (ch_cumulative_notional_by_asset c2) asset of None \<Rightarrow> 0 | Some v \<Rightarrow> v)
                          in c2\<lparr>ch_cumulative_notional_by_asset :=
                                  bt_insert asset (saturating_add_i64 entry abs_change) (ch_cumulative_notional_by_asset c2)\<rparr>
                     else c2);
           Some (c3, \<lparr>at_tag = SUCCESS_RESULT_TAG, at_before = before, at_after = after\<rparr>)
         }
     }"

definition apply_user_asset_position_delta ::
  "address \<Rightarrow> nat \<Rightarrow> int \<Rightarrow> clearinghouse \<Rightarrow> (clearinghouse \<times> clearinghouse_result_tag) option" where
  "apply_user_asset_position_delta user asset delta c =
     (if map_of (ch_users c) user = None then Some (c, MissingUserForPositionDelta)
      else if delta = 0 then Some (c, ZeroPositionDelta)
      else do {
        delisted \<leftarrow> (if delta < 0 then map_option (\<lambda>meta. asset_trading_status meta = ChDelisted) (asset_meta c asset) else Some False);
        if delisted then Some (c, DelistedAssetCannotBeReducedHere)
        else
          let available = (case map_of (cu_positions (user_or_default c user)) asset of
                             None \<Rightarrow> 0 | Some ctx \<Rightarrow> wrap_i64 (int (unsigned_abs (pc_signed_sz ctx))))
          in if available < delta then Some (c, PositionDeltaTooLarge)
             else do {
               (c1, old) \<leftarrow> get_or_insert_asset_oracle_context user asset c;
               if pc_kind old = ContextEmpty then Some (c1, MissingAssetContext)
               else if \<not> is_normal old then Some (c1, NonNormalPositionContext)
               else case (checked_add_i64 (pc_signed_margin_or_basis old) delta, checked_add_i64 (pc_signed_sz old) delta) of
                 (Some basis, Some sz) \<Rightarrow>
                   (let next = old\<lparr>pc_signed_margin_or_basis := basis, pc_signed_sz := sz\<rparr>
                    in do {
                      negative \<leftarrow> (if delta < 0 then map_option (\<lambda>d. d < 0) (ch_margin_delta_for_asset c1 next asset 4) else Some False);
                      if negative then Some (c1, MarginWouldBeNegative)
                      else do { c2 \<leftarrow> store_position user asset old next c1; Some (c2, ChSuccess) }
                    })
               | _ \<Rightarrow> Some (c1, SignedPositionOverflow)
             }
      })"

definition side_context :: "position_update_side \<Rightarrow> bool \<Rightarrow> position_context \<Rightarrow> position_context" where
  "side_context side is_second_side old =
     (let raw = wrap_i64 (int (sd_sz_delta_abs side));
          signed_delta = (if is_second_side then wrap_i64 (- raw) else raw);
          next_sz = saturating_add_i64 (pc_signed_sz old) signed_delta
      in old\<lparr>pc_signed_sz := next_sz,
             pc_abs_open_notional :=
               (if next_sz = 0 then 0
                else if pc_signed_sz old \<noteq> 0 \<and> sgn (pc_signed_sz old) = sgn next_sz
                then saturating_add_u64 (pc_abs_open_notional old) (sd_notional_delta side)
                else min (saturating_mul_u64 (unsigned_abs next_sz) (sd_px_raw side)) (nat i64_max - 1))\<rparr>)"

definition apply_position_update_for_asset_side :: "position_update_side \<Rightarrow> bool \<Rightarrow> clearinghouse \<Rightarrow> clearinghouse option" where
  "apply_position_update_for_asset_side side is_second_side c =
     (if sd_kind side \<noteq> ContextNormal then Some c
      else do {
        (c1, old) \<leftarrow> get_or_insert_asset_oracle_context (sd_user side) (sd_asset side) c;
        store_position (sd_user side) (sd_asset side) old (side_context side is_second_side old) c1
      })"

fun flatten_users ::
  "nat \<Rightarrow> int \<Rightarrow> int \<Rightarrow> address list \<Rightarrow> clearinghouse \<Rightarrow> (clearinghouse \<times> generated_fill_record list) option" where
  "flatten_users asset px_raw sequence [] c = Some (c, [])"
| "flatten_users asset px_raw sequence (user # users) c =
     (case map_of (cu_positions (user_or_default c user)) asset of
        None \<Rightarrow> flatten_users asset px_raw sequence users c
      | Some position \<Rightarrow>
          (if pc_signed_sz position = 0 then flatten_users asset px_raw sequence users c
           else
             let signed_close = clamp_i64 (- pc_signed_sz position);
                 close_abs = unsigned_abs signed_close
             in do {
               (c1, result) \<leftarrow> apply_trade_or_fill_update asset px_raw signed_close user 0 c;
               if at_tag result \<noteq> SUCCESS_RESULT_TAG then None
               else do {
                 notional \<leftarrow> checked_mul_u64 close_abs (nat (max px_raw 0));
                 if nat i64_max - 1 < notional then None
                 else do {
                   (c2, fills) \<leftarrow> flatten_users asset px_raw (saturating_add_i64 sequence 1) users c1;
                   Some (c2, \<lparr>gf_sequence = saturating_add_i64 sequence 1, gf_user = user, gf_asset = asset, gf_closed_sz = close_abs,
                              gf_notional = notional, gf_was_long = (0 < pc_signed_sz position), gf_before = at_before result,
                              gf_after = at_after result\<rparr> # fills)
                 }
               }
             }))"

definition flatten_asset_positions_for_book ::
  "address list \<Rightarrow> nat \<Rightarrow> int \<Rightarrow> nat \<times> nat \<Rightarrow> clearinghouse \<Rightarrow> (clearinghouse \<times> generated_fill_record list) option" where
  "flatten_asset_positions_for_book users asset px_raw timestamp_source c =
     do {
       (c1, fills) \<leftarrow> flatten_users asset px_raw (wrap_i64 (int (fst timestamp_source))) users c;
       Some (if ch_mode c1 \<noteq> 3
             then c1\<lparr>ch_timestamp_or_sequence_a := fst timestamp_source, ch_timestamp_or_sequence_b := snd timestamp_source\<rparr>
             else c1, fills)
     }"

section \<open>Open-interest caps\<close>

definition take_open_interest_cap_adjustment ::
  "(int \<Rightarrow> nat \<Rightarrow> nat \<Rightarrow> int) \<Rightarrow> nat \<Rightarrow> int \<Rightarrow> clearinghouse \<Rightarrow> nat \<Rightarrow> nat \<Rightarrow> int \<Rightarrow> (oi_cap_hit option \<times> int) option" where
  "take_open_interest_cap_adjustment scaling denominator scale c asset sz budget =
     (case asset_row c asset of
        None \<Rightarrow> Some (None, budget)
      | Some row \<Rightarrow>
          (if ar_signed_px_raw row < 0 then None
           else do {
             v \<leftarrow> checked_mul_u64 sz (nat (ar_signed_px_raw row));
             if nat i64_max < v then None
             else if denominator = 0 then Some (None, budget)
             else let scaled = scaling scale v denominator
                  in Some (Some \<lparr>oh_asset = asset, oh_sz = sz, oh_scaled_delta_minus_notional = saturating_sub_i64 scaled (int v),
                                 oh_notional = int v\<rparr>, saturating_sub_i64 budget scaled)
           }))"

fun collect_caps ::
  "(int \<Rightarrow> nat \<Rightarrow> nat \<Rightarrow> int) \<Rightarrow> nat \<Rightarrow> int \<Rightarrow> clearinghouse \<Rightarrow> (nat, nat) btree \<Rightarrow> int \<Rightarrow> (oi_cap_hit list \<times> int) option" where
  "collect_caps scaling denominator scale c [] budget = Some ([], budget)"
| "collect_caps scaling denominator scale c ((asset, sz) # m) budget =
     (if sz = 0 then collect_caps scaling denominator scale c m budget
      else do {
        (hit, budget1) \<leftarrow> take_open_interest_cap_adjustment scaling denominator scale c asset sz budget;
        (hits, budget2) \<leftarrow> collect_caps scaling denominator scale c m budget1;
        Some ((case hit of None \<Rightarrow> hits | Some h \<Rightarrow> h # hits), budget2)
      })"

definition collect_perps_at_open_interest_cap ::
  "(int \<Rightarrow> nat \<Rightarrow> nat \<Rightarrow> int) \<Rightarrow> nat \<Rightarrow> int \<Rightarrow> int \<Rightarrow> clearinghouse \<Rightarrow> (oi_cap_hit list \<times> int) option" where
  "collect_perps_at_open_interest_cap scaling denominator scale budget c =
     (if denominator = 0 then Some ([], budget)
      else collect_caps scaling denominator scale c (ch_open_interest_by_asset c) budget)"

definition retain_if_under_open_interest_cap ::
  "nat \<Rightarrow> int \<Rightarrow> open_interest_cap_log list \<Rightarrow> bool \<Rightarrow> clearinghouse \<Rightarrow> (open_interest_cap_log list \<times> bool) option" where
  "retain_if_under_open_interest_cap asset requested_delta logs cap_side_enabled c =
     (let current = (case map_of (ch_open_interest_by_asset c) asset of None \<Rightarrow> 0 | Some v \<Rightarrow> v);
          cap = (case map_of (ch_open_interest_cap_by_asset c) asset of None \<Rightarrow> 0 | Some v \<Rightarrow> v);
          exceeds = (cap_side_enabled \<and> cap \<noteq> 0 \<and> cap < saturating_add_u64 current (unsigned_abs requested_delta))
      in if exceeds
         then do {
           px \<leftarrow> oracle_px_raw c asset;
           Some (logs @ [\<lparr>ol_asset = asset, ol_requested_delta = requested_delta, ol_current_open_interest = current, ol_cap = cap,
                          ol_oracle_px = px\<rparr>], False)
         }
         else Some (logs, True))"

end
