(* ===== verification/Open_Interest.thy ===== *)
theory Open_Interest
  imports Clearinghouse
begin

text \<open>
  Properties of the clearinghouse.  Its indexes are exact along every run: the open interest of an asset is
  the sum of the absolute sizes of all positions in it, and the active users are those with an open
  position.  Flattening an asset closes every position in it, a two-sided update keeps the net size, and
  the margin check of a position delta never refuses.
\<close>

section \<open>Sizes and sums\<close>

definition user_sz :: "nat \<Rightarrow> ch_user \<Rightarrow> int" where
  "user_sz asset u = (case map_of (cu_positions u) asset of None \<Rightarrow> 0 | Some ctx \<Rightarrow> pc_signed_sz ctx)"

definition sz_of :: "clearinghouse \<Rightarrow> address \<Rightarrow> nat \<Rightarrow> int" where
  "sz_of c user asset = user_sz asset (user_or_default c user)"

definition oi_sum :: "clearinghouse \<Rightarrow> nat \<Rightarrow> nat" where
  "oi_sum c asset = bt_sum (\<lambda>u. unsigned_abs (user_sz asset u)) (ch_users c)"

definition net_sz :: "clearinghouse \<Rightarrow> nat \<Rightarrow> int" where
  "net_sz c asset = bt_sum (user_sz asset) (ch_users c)"

definition users_wf :: "clearinghouse \<Rightarrow> bool" where
  "users_wf c \<longleftrightarrow> bt_wf (ch_users c) \<and> (\<forall>u \<in> ran (map_of (ch_users c)). bt_wf (cu_positions u))"

lemma user_sz_default [simp]: "user_sz asset ch_user_default = 0"
  by (simp add: user_sz_def ch_user_default_def)

lemma users_wf_or_default: "users_wf c \<Longrightarrow> bt_wf (cu_positions (user_or_default c user))"
  by (auto simp: users_wf_def user_or_default_def ch_user_default_def ran_def split: option.split)

lemma user_or_default_insert [simp]:
  "user_or_default (c\<lparr>ch_users := bt_insert user u (ch_users c)\<rparr>) v = (if v = user then u else user_or_default c v)"
  by (simp add: user_or_default_def)

lemma sum_replace:
  fixes f :: "ch_user \<Rightarrow> 'n::cancel_comm_monoid_add"
  assumes "bt_wf (ch_users c)" and "f ch_user_default = 0"
  shows "bt_sum f (bt_insert user u (ch_users c)) + f (user_or_default c user) = bt_sum f (ch_users c) + f u"
  using bt_sum_insert [OF assms(1), of f user u] assms(2)
  by (simp add: user_or_default_def opt_val_def split: option.splits)

lemma user_sz_insert [simp]:
  "user_sz a (u\<lparr>cu_positions := bt_insert asset ctx (cu_positions u)\<rparr>) = (if a = asset then pc_signed_sz ctx else user_sz a u)"
  by (simp add: user_sz_def)

lemma user_sz_count [simp]: "user_sz a (u\<lparr>cu_open_position_count := n\<rparr>) = user_sz a u"
  by (simp add: user_sz_def)

section \<open>Writing one position\<close>

lemma put_context_simps [simp]:
  "ch_users (put_context user asset ctx c) = bt_insert user
     ((user_or_default c user)\<lparr>cu_positions := bt_insert asset ctx (cu_positions (user_or_default c user))\<rparr>) (ch_users c)"
  "ch_open_interest_by_asset (put_context user asset ctx c) = ch_open_interest_by_asset c"
  "ch_active_users_with_positions (put_context user asset ctx c) = ch_active_users_with_positions c"
  "ch_asset_meta (put_context user asset ctx c) = ch_asset_meta c" "ch_dex_id (put_context user asset ctx c) = ch_dex_id c"
  by (simp_all add: put_context_def Let_def)

lemma user_put_context [simp]:
  "user_or_default (put_context user asset ctx c) v = (if v = user
     then (user_or_default c user)\<lparr>cu_positions := bt_insert asset ctx (cu_positions (user_or_default c user))\<rparr>
     else user_or_default c v)"
  by (simp add: user_or_default_def)

lemma put_context_sz [simp]:
  "sz_of (put_context user asset ctx c) v a = (if v = user \<and> a = asset then pc_signed_sz ctx else sz_of c v a)"
  by (simp add: sz_of_def)

lemma put_context_sum:
  fixes g :: "int \<Rightarrow> 'n::cancel_comm_monoid_add"
  assumes "users_wf c" and "g 0 = 0"
  shows "bt_sum (\<lambda>u. g (user_sz asset u)) (ch_users (put_context user asset ctx c)) + g (sz_of c user asset) =
      bt_sum (\<lambda>u. g (user_sz asset u)) (ch_users c) + g (pc_signed_sz ctx)"
    and "a \<noteq> asset \<Longrightarrow> bt_sum (\<lambda>u. g (user_sz a u)) (ch_users (put_context user asset ctx c)) =
      bt_sum (\<lambda>u. g (user_sz a u)) (ch_users c)"
proof -
  let ?u = "(user_or_default c user)\<lparr>cu_positions := bt_insert asset ctx (cu_positions (user_or_default c user))\<rparr>"
  have wf: "bt_wf (ch_users c)" using assms(1) by (simp add: users_wf_def)
  show "bt_sum (\<lambda>u. g (user_sz asset u)) (ch_users (put_context user asset ctx c)) + g (sz_of c user asset) =
      bt_sum (\<lambda>u. g (user_sz asset u)) (ch_users c) + g (pc_signed_sz ctx)"
    using sum_replace [OF wf, of "\<lambda>u. g (user_sz asset u)" user ?u] assms(2) by (simp add: sz_of_def)
  show "bt_sum (\<lambda>u. g (user_sz a u)) (ch_users (put_context user asset ctx c)) = bt_sum (\<lambda>u. g (user_sz a u)) (ch_users c)"
    if "a \<noteq> asset"
    using sum_replace [OF wf, of "\<lambda>u. g (user_sz a u)" user ?u] assms(2) that by simp
qed

lemma unsigned_abs_0 [simp]: "unsigned_abs 0 = 0" "unsigned_abs x = 0 \<longleftrightarrow> x = 0"
  by (simp_all add: unsigned_abs_def)

lemma sz_le_oi: "users_wf c \<Longrightarrow> unsigned_abs (sz_of c user asset) \<le> oi_sum c asset"
  using bt_sum_remove [of "ch_users c" "\<lambda>u. unsigned_abs (user_sz asset u)" user]
  by (cases "map_of (ch_users c) user") (auto simp: oi_sum_def users_wf_def sz_of_def user_or_default_def)

lemma put_context_oi:
  assumes "users_wf c"
  shows "oi_sum (put_context user asset ctx c) asset + unsigned_abs (sz_of c user asset) = oi_sum c asset + unsigned_abs (pc_signed_sz ctx)"
    and "a \<noteq> asset \<Longrightarrow> oi_sum (put_context user asset ctx c) a = oi_sum c a"
  using put_context_sum [OF assms, of unsigned_abs] unfolding oi_sum_def by simp_all

lemma put_context_net:
  assumes "users_wf c"
  shows "net_sz (put_context user asset ctx c) asset + sz_of c user asset = net_sz c asset + pc_signed_sz ctx"
  using put_context_sum(1) [OF assms, of "\<lambda>x. x"] unfolding net_sz_def by simp

lemma put_context_wf [simp]: "users_wf c \<Longrightarrow> users_wf (put_context user asset ctx c)"
  using users_wf_or_default [of c user] by (auto simp: users_wf_def ran_def)

lemma new_normal_simps [simp]: "pc_signed_sz (new_normal n) = 0" "pc_aux_20 (new_normal n) = 0" "is_normal (new_normal n)"
  by (simp_all add: new_normal_def is_normal_def)

lemma context_cases:
  assumes "get_or_insert_asset_oracle_context user asset c = Some (c1, ctx)"
  shows "c1 = put_context user asset ctx c" and "pc_signed_sz ctx = sz_of c user asset" and "asset_meta c asset \<noteq> None"
    and "map_of (cu_positions (user_or_default c user)) asset = Some ctx \<or>
      map_of (cu_positions (user_or_default c user)) asset = None \<and> (\<exists>unit. ctx = new_normal unit)"
  using assms
  by (auto simp: get_or_insert_asset_oracle_context_def sz_of_def user_sz_def Let_def split: option.splits bind_splits)

section \<open>The invariant\<close>

definition oi_exact :: "clearinghouse \<Rightarrow> nat \<Rightarrow> bool" where
  "oi_exact c asset \<longleftrightarrow> map_of (ch_open_interest_by_asset c) asset = (if oi_sum c asset = 0 then None else Some (oi_sum c asset))"

definition user_exact :: "clearinghouse \<Rightarrow> address \<Rightarrow> bool" where
  "user_exact c user \<longleftrightarrow>
     cu_open_position_count (user_or_default c user) = open_contexts (cu_positions (user_or_default c user)) \<and>
     (user \<in> set (ch_active_users_with_positions c) \<longleftrightarrow> cu_open_position_count (user_or_default c user) \<noteq> 0)"

definition ch_inv :: "clearinghouse \<Rightarrow> bool" where
  "ch_inv c \<longleftrightarrow> users_wf c \<and> (\<forall>asset. oi_exact c asset) \<and> (\<forall>user. user_exact c user)"

definition oi_fits :: "clearinghouse \<Rightarrow> bool" where
  "oi_fits c \<longleftrightarrow> (\<forall>asset. oi_sum c asset \<le> u64_max)"

lemma open_contexts_sum: "open_contexts m = bt_sum (\<lambda>ctx. if pc_signed_sz ctx \<noteq> 0 then 1 else 0) m"
  by (induction m) (auto simp: open_contexts_def bt_sum_Cons)

lemma open_contexts_insert:
  assumes "bt_wf m" and "pc_signed_sz ctx = (case map_of m asset of None \<Rightarrow> 0 | Some old \<Rightarrow> pc_signed_sz old)"
  shows "open_contexts (bt_insert asset ctx m) = open_contexts m"
  using bt_sum_insert [OF assms(1), of "\<lambda>ctx. if pc_signed_sz ctx \<noteq> 0 then 1 else 0 :: nat" asset ctx] assms(2)
  unfolding open_contexts_sum by (simp split: option.splits if_split_asm)

lemma open_contexts_open:
  assumes "users_wf c"
  shows "open_contexts (cu_positions (user_or_default c user)) \<noteq> 0 \<longleftrightarrow> (\<exists>asset. sz_of c user asset \<noteq> 0)"
proof -
  let ?m = "cu_positions (user_or_default c user)"
  have "(\<exists>e \<in> set ?m. pc_signed_sz (snd e) \<noteq> 0) \<longleftrightarrow> (\<exists>a ctx. map_of ?m a = Some ctx \<and> pc_signed_sz ctx \<noteq> 0)"
    using bt_wf_map_of [OF users_wf_or_default [OF assms]] by (metis fst_conv snd_conv)
  also have "\<dots> \<longleftrightarrow> (\<exists>asset. sz_of c user asset \<noteq> 0)"
    by (rule ex_cong1) (simp add: sz_of_def user_sz_def split: option.split)
  finally show ?thesis by (auto simp: open_contexts_def filter_empty_conv)
qed

text \<open>Putting a context of the same size changes none of the sums.\<close>

lemma put_context_inv:
  assumes "ch_inv c" and "pc_signed_sz ctx = sz_of c user asset"
  shows "ch_inv (put_context user asset ctx c)" and "oi_sum (put_context user asset ctx c) a = oi_sum c a"
proof -
  have wf: "users_wf c" using assms(1) by (simp add: ch_inv_def)
  show sum: "oi_sum (put_context user asset ctx c) a = oi_sum c a" for a
    using put_context_oi [OF wf, where user = user and asset = asset and ctx = ctx] assms(2) by (cases "a = asset") auto
  have "open_contexts (bt_insert asset ctx (cu_positions (user_or_default c user))) = open_contexts (cu_positions (user_or_default c user))"
    by (rule open_contexts_insert [OF users_wf_or_default [OF wf]]) (use assms(2) in \<open>simp add: sz_of_def user_sz_def\<close>)
  then show "ch_inv (put_context user asset ctx c)"
    using assms(1) sum by (simp add: ch_inv_def oi_exact_def user_exact_def)
qed

section \<open>The three updates keep it\<close>

lemma update_open_interest_simps [simp]:
  "ch_users (update_open_interest_by_slot asset x y c) = ch_users c"
  "ch_active_users_with_positions (update_open_interest_by_slot asset x y c) = ch_active_users_with_positions c"
  "a \<noteq> asset \<Longrightarrow> map_of (ch_open_interest_by_asset (update_open_interest_by_slot asset x y c)) a = map_of (ch_open_interest_by_asset c) a"
  by (simp_all add: update_open_interest_by_slot_def Let_def)

lemma update_open_interest_entry:
  assumes "map_of (ch_open_interest_by_asset c) asset = (if n = 0 then None else Some n)" and "unsigned_abs x \<le> n"
    and "n - unsigned_abs x + unsigned_abs y \<le> u64_max"
  shows "map_of (ch_open_interest_by_asset (update_open_interest_by_slot asset x y c)) asset =
    (if n - unsigned_abs x + unsigned_abs y = 0 then None else Some (n - unsigned_abs x + unsigned_abs y))"
proof -
  have "(case map_of (ch_open_interest_by_asset c) asset of None \<Rightarrow> 0 | Some v \<Rightarrow> v) = n" using assms(1) by simp
  moreover have "saturating_add_u64 (saturating_sub_u64 n (unsigned_abs x)) (unsigned_abs y) = n - unsigned_abs x + unsigned_abs y"
    using assms(3) by (simp add: saturating_add_u64_def saturating_sub_u64_def)
  ultimately show ?thesis by (simp add: update_open_interest_by_slot_def Let_def del: unsigned_abs_0)
qed

lemma rescale_simps [simp]:
  "ch_users (rescale_position_oi_unit user asset n c) = ch_users c"
  "ch_active_users_with_positions (rescale_position_oi_unit user asset n c) = ch_active_users_with_positions c"
  "ch_open_interest_by_asset (rescale_position_oi_unit user asset n c) = ch_open_interest_by_asset c"
  by (simp_all add: rescale_position_oi_unit_def)

lemma same_users:
  assumes "ch_users d = ch_users c"
  shows "user_or_default d = user_or_default c" and "oi_sum d = oi_sum c" and "net_sz d = net_sz c" and "sz_of d = sz_of c"
    and "users_wf d \<longleftrightarrow> users_wf c"
  using assms by (auto simp: user_or_default_def oi_sum_def net_sz_def sz_of_def users_wf_def fun_eq_iff)

lemma refresh_simps:
  assumes "map_of (ch_users c) user \<noteq> None" and "users_wf c"
  defines "d \<equiv> refresh_user_activity_after_position_change user c"
  shows "users_wf d" and "oi_sum d asset = oi_sum c asset" and "net_sz d asset = net_sz c asset" and "sz_of d v asset = sz_of c v asset"
    and "ch_open_interest_by_asset d = ch_open_interest_by_asset c" and "user_exact d user" and "v \<noteq> user \<Longrightarrow> user_exact d v \<longleftrightarrow> user_exact c v"
    and "map_of (cu_positions (user_or_default d v)) asset = map_of (cu_positions (user_or_default c v)) asset"
proof -
  obtain u where u: "map_of (ch_users c) user = Some u" using assms(1) by blast
  let ?u = "u\<lparr>cu_open_position_count := open_contexts (cu_positions u)\<rparr>"
  have def: "user_or_default c user = u" using u by (simp add: user_or_default_def)
  have users: "ch_users d = bt_insert user ?u (ch_users c)"
    using u by (simp add: d_def refresh_user_activity_after_position_change_def ch_refresh_open_position_count_def Let_def)
  have get: "user_or_default d v = (if v = user then ?u else user_or_default c v)" for v
    using users by (simp add: user_or_default_def)
  have wf: "bt_wf (ch_users c)" using assms(2) by (simp add: users_wf_def)
  show "users_wf d" using assms(2) users users_wf_or_default [OF assms(2), of user] def by (auto simp: users_wf_def ran_def)
  show "oi_sum d asset = oi_sum c asset" "net_sz d asset = net_sz c asset"
    using sum_replace [OF wf, of "\<lambda>u. unsigned_abs (user_sz asset u)" user ?u] sum_replace [OF wf, of "user_sz asset" user ?u] def
    by (simp_all add: oi_sum_def net_sz_def users)
  show "sz_of d v asset = sz_of c v asset" using def by (simp add: sz_of_def get)
  show "ch_open_interest_by_asset d = ch_open_interest_by_asset c"
    using u by (simp add: d_def refresh_user_activity_after_position_change_def ch_refresh_open_position_count_def Let_def)
  have active: "v \<in> set (ch_active_users_with_positions d) \<longleftrightarrow>
      (if v = user then open_contexts (cu_positions u) \<noteq> 0 else v \<in> set (ch_active_users_with_positions c))" for v
    using u by (simp add: d_def refresh_user_activity_after_position_change_def ch_refresh_open_position_count_def Let_def)
  show "user_exact d user" "v \<noteq> user \<Longrightarrow> user_exact d v \<longleftrightarrow> user_exact c v" by (simp_all add: user_exact_def get active)
  show "map_of (cu_positions (user_or_default d v)) asset = map_of (cu_positions (user_or_default c v)) asset"
    using def by (simp add: get)
qed

text \<open>The common tail of the updates, with its effect on every quantity of the invariant.\<close>

lemma put_context_twice:
  "put_context user asset b (put_context user asset a c) = put_context user asset b c"
  by (simp add: put_context_def Let_def user_or_default_def)

lemma store_position_cases:
  assumes "store_position user asset old next c = Some d" and "users_wf c"
  shows "users_wf d" and "sz_of d v a = (if v = user \<and> a = asset then pc_signed_sz next else sz_of c v a)"
    and "net_sz d asset + sz_of c user asset = net_sz c asset + pc_signed_sz next"
    and "oi_sum d asset + unsigned_abs (sz_of c user asset) = oi_sum c asset + unsigned_abs (pc_signed_sz next)"
    and "a \<noteq> asset \<Longrightarrow> oi_sum d a = oi_sum c a"
    and "map_of (cu_positions (user_or_default d v)) a =
      (if v = user \<and> a = asset then Some next else map_of (cu_positions (user_or_default c v)) a)"
    and "ch_inv c \<Longrightarrow> pc_signed_sz old = sz_of c user asset \<Longrightarrow> oi_sum d asset \<le> u64_max \<Longrightarrow> ch_inv d"
proof -
  obtain c1 ctx where g: "get_or_insert_asset_oracle_context user asset c = Some (c1, ctx)"
    using assms(1) by (auto simp: store_position_def split: bind_splits)
  let ?p = "put_context user asset next c"
  let ?q = "update_open_interest_by_slot asset (pc_signed_sz old) (pc_signed_sz next) ?p"
  define r where "r = (if pc_oi_unit old \<noteq> pc_oi_unit next then rescale_position_oi_unit user asset (pc_oi_unit next) ?q else ?q)"
  have d: "d = refresh_user_activity_after_position_change user r"
    using assms(1) g context_cases(1) [OF g] by (simp add: store_position_def Let_def put_context_twice r_def cong: if_cong)
  have r: "ch_users r = ch_users ?p" "ch_open_interest_by_asset r = ch_open_interest_by_asset ?q"
    "ch_active_users_with_positions r = ch_active_users_with_positions c" by (simp_all add: r_def)
  note same = same_users [OF r(1)]
  have some: "map_of (ch_users r) user \<noteq> None" "users_wf r" using r(1) same(5) assms(2) by simp_all
  note re = refresh_simps [OF some, folded d]
  show "users_wf d" by (rule re(1))
  show "sz_of d v a = (if v = user \<and> a = asset then pc_signed_sz next else sz_of c v a)" by (simp add: re(4) same(4))
  show "net_sz d asset + sz_of c user asset = net_sz c asset + pc_signed_sz next"
    using put_context_net [OF assms(2)] by (simp add: re(3) same(3))
  show oi: "oi_sum d asset + unsigned_abs (sz_of c user asset) = oi_sum c asset + unsigned_abs (pc_signed_sz next)"
    "a \<noteq> asset \<Longrightarrow> oi_sum d a = oi_sum c a" for a
    using put_context_oi [OF assms(2)] by (simp_all add: re(2) same(2))
  show "map_of (cu_positions (user_or_default d v)) a =
      (if v = user \<and> a = asset then Some next else map_of (cu_positions (user_or_default c v)) a)"
    by (simp add: re(8) same(1))
  assume inv: "ch_inv c" and old: "pc_signed_sz old = sz_of c user asset" and fits: "oi_sum d asset \<le> u64_max"
  have "oi_exact d a" for a
  proof (cases "a = asset")
    case False
    then show ?thesis using inv oi(2) by (simp add: ch_inv_def oi_exact_def re(5) r(2))
  next
    case True
    have le: "unsigned_abs (sz_of c user asset) \<le> oi_sum c asset" by (rule sz_le_oi [OF assms(2)])
    show ?thesis using update_open_interest_entry [of ?p asset "oi_sum c asset" "pc_signed_sz old" "pc_signed_sz next"] True inv le oi(1) fits
      by (auto simp: ch_inv_def oi_exact_def re(5) r(2) old)
  qed
  moreover have "user_exact d v" for v
    using re(6,7) inv by (cases "v = user") (simp_all add: ch_inv_def user_exact_def r(3) same(1))
  ultimately show "ch_inv d" using re(1) by (simp add: ch_inv_def)
qed

text \<open>Every update ends in one of two ways: the context was only looked up, or a new one was stored.\<close>

definition same_books :: "clearinghouse \<Rightarrow> clearinghouse \<Rightarrow> bool" where
  "same_books c d \<longleftrightarrow> ch_users d = ch_users c \<and> ch_open_interest_by_asset d = ch_open_interest_by_asset c \<and>
     ch_active_users_with_positions d = ch_active_users_with_positions c"

lemma same_books_refl [simp]: "same_books c c"
  by (simp add: same_books_def)

lemma same_books_inv:
  assumes "same_books c d"
  shows "ch_inv d \<longleftrightarrow> ch_inv c" and "oi_sum d = oi_sum c" and "sz_of d = sz_of c" and "net_sz d = net_sz c" and "users_wf d \<longleftrightarrow> users_wf c"
    and "user_or_default d = user_or_default c"
proof -
  have "ch_users d = ch_users c" using assms by (simp add: same_books_def)
  note u = same_users [OF this]
  show "oi_sum d = oi_sum c" "sz_of d = sz_of c" "net_sz d = net_sz c" "users_wf d \<longleftrightarrow> users_wf c" "user_or_default d = user_or_default c"
    by (fact u)+
  show "ch_inv d \<longleftrightarrow> ch_inv c"
    using assms u by (simp add: ch_inv_def oi_exact_def user_exact_def same_books_def)
qed

inductive updated :: "address \<Rightarrow> nat \<Rightarrow> clearinghouse \<Rightarrow> clearinghouse \<Rightarrow> bool" for user asset c where
  looked_up: "get_or_insert_asset_oracle_context user asset c = Some (d, old) \<Longrightarrow> updated user asset c d"
| stored: "get_or_insert_asset_oracle_context user asset c = Some (c1, old) \<Longrightarrow> store_position user asset old next c1 = Some c2 \<Longrightarrow>
    pc_aux_20 next = 0 \<or> pc_aux_20 next = pc_aux_20 old \<Longrightarrow> in_i64 (pc_signed_sz next) \<Longrightarrow> same_books c2 d \<Longrightarrow> updated user asset c d"

lemma updated_inv:
  assumes "updated user asset c d" and "ch_inv c" and "oi_sum d asset \<le> u64_max"
  shows "ch_inv d"
  using assms(1)
proof cases
  case (looked_up old)
  then show ?thesis using put_context_inv(1) [OF assms(2)] context_cases(1,2) [OF looked_up(1)] by simp
next
  case (stored c1 old "next" c2)
  note g = context_cases(1,2) [OF stored(1)]
  have inv: "ch_inv c1" using put_context_inv(1) [OF assms(2)] g by simp
  have "ch_inv c2"
    by (rule store_position_cases(7) [OF stored(2)])
      (use inv g assms(3) same_books_inv(2) [OF stored(5)] in \<open>simp_all add: ch_inv_def\<close>)
  then show ?thesis using same_books_inv(1) [OF stored(5)] by simp
qed

lemma filled_context_cases:
  assumes "filled_context old px d basis = r"
  obtains (error) tag after where "r = Inl (tag, after)" "tag \<noteq> SUCCESS_RESULT_TAG"
  | (ok) "next" where "r = Inr next" "pc_signed_sz next = pc_signed_sz old + d" "in_i64 (pc_signed_sz old + d)"
      "pc_aux_20 next = 0 \<or> pc_aux_20 next = pc_aux_20 old" "pc_kind next = pc_kind old"
  using assms
  by (fastforce simp: filled_context_def recompute_abs_open_notional_def Let_def checked_add_i64_def SUCCESS_RESULT_TAG_def
      split: if_split_asm option.split_asm)

lemma trade_cases:
  assumes "apply_trade_or_fill_update asset px d user hint c = Some (c', r)"
  obtains (refused) "updated user asset c c'" "at_tag r \<noteq> SUCCESS_RESULT_TAG"
  | (filled) c1 old "next" c2 where "get_or_insert_asset_oracle_context user asset c = Some (c1, old)"
      "store_position user asset old next c1 = Some c2" "same_books c2 c'" "pc_signed_sz next = pc_signed_sz old + d"
      "in_i64 (pc_signed_sz old + d)" "pc_aux_20 next = 0 \<or> pc_aux_20 next = pc_aux_20 old" "pc_kind next = pc_kind old"
      "at_tag r = SUCCESS_RESULT_TAG" "at_before r = old" "at_after r = next"
proof -
  obtain c1 old basis where g: "get_or_insert_asset_oracle_context user asset c = Some (c1, old)"
    and run: "(case filled_context old px d basis of
         Inl (tag, after) \<Rightarrow> Some (c1, \<lparr>at_tag = tag, at_before = old, at_after = after\<rparr>)
       | Inr after \<Rightarrow> do {
           c2 \<leftarrow> store_position user asset old after c1;
           let c3 = (if ch_mode c2 = 3
                     then let abs_change = wrap_i64 (wrap_i64 (int (pc_abs_open_notional after)) - wrap_i64 (int (pc_abs_open_notional old)));
                              entry = (case map_of (ch_cumulative_notional_by_asset c2) asset of None \<Rightarrow> 0 | Some v \<Rightarrow> v)
                          in c2\<lparr>ch_cumulative_notional_by_asset :=
                                  bt_insert asset (saturating_add_i64 entry abs_change) (ch_cumulative_notional_by_asset c2)\<rparr>
                     else c2);
           Some (c3, \<lparr>at_tag = SUCCESS_RESULT_TAG, at_before = old, at_after = after\<rparr>)
         }) = Some (c', r)"
    using assms unfolding apply_trade_or_fill_update_def by (auto simp: Let_def split: bind_split_asm)
  show thesis
  proof (cases rule: filled_context_cases [OF refl, of old px d basis])
    case (1 tag after)
    with run g show ?thesis by (auto intro: refused updated.looked_up)
  next
    case (2 "next")
    with run obtain c2 where "store_position user asset old next c1 = Some c2" "same_books c2 c'"
      "r = \<lparr>at_tag = SUCCESS_RESULT_TAG, at_before = old, at_after = next\<rparr>"
      by (auto simp: Let_def same_books_def split: bind_split_asm)
    with 2 g show ?thesis by (intro filled) simp_all
  qed
qed

lemma trade_updated: "apply_trade_or_fill_update asset px d user hint c = Some (c', r) \<Longrightarrow> updated user asset c c'"
  by (erule trade_cases) (auto intro: updated.stored)

lemma delta_updated:
  assumes "apply_user_asset_position_delta user asset delta c = Some (c', tag)" and "c' \<noteq> c"
  shows "updated user asset c c'"
  using assms unfolding apply_user_asset_position_delta_def
  by (auto simp: Let_def split: if_split_asm bind_split_asm option.split_asm)
    ((erule updated.looked_up) | (erule updated.stored, assumption, simp, simp add: checked_add_i64_def split: if_split_asm, simp))+

lemma side_updated:
  assumes "apply_position_update_for_asset_side side second c = Some c'"
  shows "c' = c \<or> updated (sd_user side) (sd_asset side) c c'"
  using assms unfolding apply_position_update_for_asset_side_def
  by (auto simp: side_context_def Let_def saturating_add_i64_def split: if_split_asm bind_split_asm intro: updated.stored)

section \<open>Runs\<close>

definition aux_zero :: "clearinghouse \<Rightarrow> bool" where
  "aux_zero c \<longleftrightarrow> (\<forall>user asset ctx. map_of (cu_positions (user_or_default c user)) asset = Some ctx \<longrightarrow> pc_aux_20 ctx = 0)"

definition ch_ok :: "clearinghouse \<Rightarrow> bool" where
  "ch_ok c \<longleftrightarrow> ch_inv c \<and> oi_fits c \<and> aux_zero c \<and> (\<forall>user asset. in_i64 (sz_of c user asset))"

lemma context_aux:
  assumes "get_or_insert_asset_oracle_context user asset c = Some (c1, ctx)" and "aux_zero c"
  shows "pc_aux_20 ctx = 0" and "aux_zero c1"
proof -
  show ctx: "pc_aux_20 ctx = 0" using context_cases(4) [OF assms(1)] assms(2) by (auto simp: aux_zero_def)
  then show "aux_zero c1" unfolding context_cases(1) [OF assms(1)] using assms(2) by (auto simp: aux_zero_def)
qed

lemma updated_sz:
  assumes "updated user asset c d" and "users_wf c" and "v \<noteq> user \<or> a \<noteq> asset"
  shows "sz_of d v a = sz_of c v a"
  using assms(1)
proof cases
  case (looked_up old)
  then show ?thesis using context_cases(1) [OF looked_up(1)] assms(3) by auto
next
  case (stored c1 old "next" c2)
  then show ?thesis
    using context_cases(1) [OF stored(1)] store_position_cases(2) [OF stored(2)] assms(2,3) same_books_inv(3) [OF stored(5)] by auto
qed

lemma updated_oi:
  assumes "updated user asset c d" and "users_wf c" and "a \<noteq> asset"
  shows "oi_sum d a = oi_sum c a"
  using assms(1)
proof cases
  case (looked_up old)
  then show ?thesis using context_cases(1) [OF looked_up(1)] put_context_oi(2) [OF assms(2,3)] by simp
next
  case (stored c1 old "next" c2)
  have wf: "users_wf c1" using context_cases(1) [OF stored(1)] assms(2) by simp
  show ?thesis using context_cases(1) [OF stored(1)] put_context_oi(2) [OF assms(2,3)] store_position_cases(5) [OF stored(2) wf assms(3)]
      same_books_inv(2) [OF stored(5)] by simp
qed

lemma updated_ok:
  assumes "updated user asset c d" and "ch_ok c" and "oi_sum d asset \<le> u64_max"
  shows "ch_ok d"
proof -
  have c: "ch_inv c" "oi_fits c" "aux_zero c" "\<And>v a. in_i64 (sz_of c v a)" "users_wf c"
    using assms(2) by (simp_all add: ch_ok_def ch_inv_def)
  have "oi_fits d" unfolding oi_fits_def
  proof
    fix a show "oi_sum d a \<le> u64_max"
      using updated_oi [OF assms(1) c(5)] assms(3) c(2) by (cases "a = asset") (simp_all add: oi_fits_def)
  qed
  moreover have "aux_zero d \<and> in_i64 (sz_of d user asset)"
    using assms(1)
  proof cases
    case (looked_up old)
    then show ?thesis using context_aux [OF looked_up(1) c(3)] context_cases(1,2) [OF looked_up(1)] c(4) by simp
  next
    case (stored c1 old "next" c2)
    note g = context_aux [OF stored(1) c(3)] context_cases(1) [OF stored(1)]
    have wf: "users_wf c1" using g(3) c(5) by simp
    have "pc_aux_20 next = 0" using stored(3) g(1) by auto
    then have "aux_zero c2" using g(2) store_position_cases(6) [OF stored(2) wf] by (auto simp: aux_zero_def split: if_split_asm)
    then show ?thesis using same_books_inv(3,6) [OF stored(5)] store_position_cases(2) [OF stored(2) wf] stored(4)
      by (simp add: aux_zero_def)
  qed
  moreover have "in_i64 (sz_of d v a)" if "v \<noteq> user \<or> a \<noteq> asset" for v a using updated_sz [OF assms(1) c(5) that] c(4) by simp
  ultimately show ?thesis using updated_inv [OF assms(1) c(1) assms(3)] unfolding ch_ok_def by metis
qed

lemma closing_sz:
  assumes "in_i64 x"
  shows "unsigned_abs (x + clamp_i64 (- x)) \<le> unsigned_abs x" and "x \<noteq> i64_min \<Longrightarrow> clamp_i64 (- x) = - x"
  using assms by (auto simp: unsigned_abs_def clamp_i64_def in_i64_def i64_min_def i64_max_def max_def min_def)

lemma closing_all:
  assumes "in_i64 x"
  shows "x + clamp_i64 (- x) = (if x = i64_min then - 1 else 0)" "unsigned_abs (clamp_i64 (- x)) = unsigned_abs x - (if x = i64_min then 1 else 0)"
  using assms by (auto simp: unsigned_abs_def clamp_i64_def in_i64_def i64_min_def i64_max_def max_def min_def)

lemma closing_trade:
  assumes "apply_trade_or_fill_update asset px (clamp_i64 (- sz_of c user asset)) user 0 c = Some (d, r)"
    and "at_tag r = SUCCESS_RESULT_TAG" and "ch_ok c"
  shows "ch_ok d" and "sz_of d user asset = sz_of c user asset + clamp_i64 (- sz_of c user asset)"
    and "v \<noteq> user \<or> a \<noteq> asset \<Longrightarrow> sz_of d v a = sz_of c v a"
proof -
  have wf: "users_wf c" and fits: "oi_sum c asset \<le> u64_max" and range: "in_i64 (sz_of c user asset)"
    using assms(3) by (simp_all add: ch_ok_def ch_inv_def oi_fits_def)
  have up: "updated user asset c d" by (rule trade_updated [OF assms(1)])
  show "v \<noteq> user \<or> a \<noteq> asset \<Longrightarrow> sz_of d v a = sz_of c v a" by (rule updated_sz [OF up wf])
  from assms(1) have "sz_of d user asset = sz_of c user asset + clamp_i64 (- sz_of c user asset) \<and> oi_sum d asset \<le> u64_max"
  proof (cases rule: trade_cases)
    case refused
    with assms(2) show ?thesis by simp
  next
    case (filled c1 old "next" c2)
    note g = context_cases(1,2) [OF filled(1)]
    have wf1: "users_wf c1" using g(1) wf by simp
    have "oi_sum c1 asset = oi_sum c asset" "sz_of c1 user asset = sz_of c user asset"
      using put_context_inv(2) [of c old user asset asset] assms(3) g by (simp_all add: ch_ok_def)
    moreover note store_position_cases(2,4) [OF filled(2) wf1] same_books_inv(2,3) [OF filled(3)]
    ultimately show ?thesis using filled(4) g(2) closing_sz(1) [OF range] fits by simp
  qed
  then show "sz_of d user asset = sz_of c user asset + clamp_i64 (- sz_of c user asset)" "ch_ok d"
    using updated_ok [OF up assms(3)] by simp_all
qed

lemma flatten_users_step:
  assumes "flatten_users asset px sequence (user # users) c = Some (d, fills)"
  obtains (flat) "sz_of c user asset = 0" "flatten_users asset px sequence users c = Some (d, fills)"
  | (closed) c1 r f rest where "sz_of c user asset \<noteq> 0" "at_tag r = SUCCESS_RESULT_TAG"
      "apply_trade_or_fill_update asset px (clamp_i64 (- sz_of c user asset)) user 0 c = Some (c1, r)"
      "flatten_users asset px (saturating_add_i64 sequence 1) users c1 = Some (d, rest)" "fills = f # rest"
      "gf_user f = user" "gf_closed_sz f = unsigned_abs (clamp_i64 (- sz_of c user asset))"
  using assms
  by (auto simp: Let_def sz_of_def user_sz_def split: option.split_asm if_split_asm bind_split_asm)

lemma flatten_users_spec:
  assumes "flatten_users asset px sequence users c = Some (d, fills)" and "ch_ok c" and "distinct users"
  shows "ch_ok d" and "v \<notin> set users \<or> a \<noteq> asset \<Longrightarrow> sz_of d v a = sz_of c v a"
    and "v \<in> set users \<Longrightarrow> sz_of d v asset = sz_of c v asset + clamp_i64 (- sz_of c v asset)"
    and "map gf_user fills = filter (\<lambda>v. sz_of c v asset \<noteq> 0) users"
    and "map gf_closed_sz fills = map (\<lambda>v. unsigned_abs (clamp_i64 (- sz_of c v asset))) (filter (\<lambda>v. sz_of c v asset \<noteq> 0) users)"
proof -
  have "ch_ok d \<and> (\<forall>v a. v \<notin> set users \<or> a \<noteq> asset \<longrightarrow> sz_of d v a = sz_of c v a) \<and>
    (\<forall>v \<in> set users. sz_of d v asset = sz_of c v asset + clamp_i64 (- sz_of c v asset)) \<and>
    map (\<lambda>f. (gf_user f, gf_closed_sz f)) fills =
      map (\<lambda>v. (v, unsigned_abs (clamp_i64 (- sz_of c v asset)))) (filter (\<lambda>v. sz_of c v asset \<noteq> 0) users)"
    using assms
  proof (induction users arbitrary: sequence c fills)
    case (Cons user users)
    from Cons.prems(1) show ?case
    proof (cases rule: flatten_users_step)
      case flat
      with Cons show ?thesis by (auto simp: clamp_i64_def i64_min_def i64_max_def)
    next
      case (closed c1 r f rest)
      note t = closing_trade [OF closed(3,2) Cons.prems(2)]
      have u: "user \<notin> set users" "distinct users" using Cons.prems(3) by simp_all
      note IH = Cons.IH [OF closed(4) t(1) u(2)]
      have same: "sz_of c1 v asset = sz_of c v asset" if "v \<in> set users" for v using t(3) that u(1) by metis
      have "filter (\<lambda>v. sz_of c1 v asset \<noteq> 0) users = filter (\<lambda>v. sz_of c v asset \<noteq> 0) users"
        using same by (intro filter_cong) auto
      then show ?thesis using IH closed t u same by auto
    qed
  qed simp
  then show "ch_ok d" "v \<notin> set users \<or> a \<noteq> asset \<Longrightarrow> sz_of d v a = sz_of c v a"
    "v \<in> set users \<Longrightarrow> sz_of d v asset = sz_of c v asset + clamp_i64 (- sz_of c v asset)"
    "map gf_user fills = filter (\<lambda>v. sz_of c v asset \<noteq> 0) users"
    "map gf_closed_sz fills = map (\<lambda>v. unsigned_abs (clamp_i64 (- sz_of c v asset))) (filter (\<lambda>v. sz_of c v asset \<noteq> 0) users)"
    using map_map [of fst "\<lambda>f. (gf_user f, gf_closed_sz f)" fills] map_map [of snd "\<lambda>f. (gf_user f, gf_closed_sz f)" fills]
    by (auto simp: comp_def)
qed

inductive ch_step :: "clearinghouse \<Rightarrow> clearinghouse \<Rightarrow> bool" where
  trade: "apply_trade_or_fill_update asset px delta user hint c = Some (d, r) \<Longrightarrow> ch_step c d"
| delta: "apply_user_asset_position_delta user asset delta c = Some (d, tag) \<Longrightarrow> ch_step c d"
| side: "apply_position_update_for_asset_side side second c = Some d \<Longrightarrow> ch_step c d"
| flatten: "flatten_asset_positions_for_book users asset px ts c = Some (d, fills) \<Longrightarrow> distinct users \<Longrightarrow> ch_step c d"
| user: "ch_step c (get_or_insert_user user c)"

text \<open>A step after which the open interest of every asset still fits a \<open>u64\<close>; beyond that the code saturates and forgets the excess.\<close>

definition fitting_step :: "clearinghouse \<Rightarrow> clearinghouse \<Rightarrow> bool" where
  "fitting_step c d \<longleftrightarrow> ch_step c d \<and> oi_fits d"

lemma same_books_ok: "same_books c d \<Longrightarrow> ch_ok d \<longleftrightarrow> ch_ok c"
  using same_books_inv [of c d] by (simp add: ch_ok_def oi_fits_def aux_zero_def)

lemma flatten_cases:
  assumes "flatten_asset_positions_for_book users asset px ts c = Some (d, fills)"
  obtains c1 where "flatten_users asset px (wrap_i64 (int (fst ts))) users c = Some (c1, fills)" "same_books c1 d"
  using assms by (auto simp: flatten_asset_positions_for_book_def same_books_def split: bind_split_asm)

interpretation clearing: invariant_system fitting_step ch_ok
proof
  fix c d assume "fitting_step c d" "ch_ok c"
  then have "ch_step c d" "oi_fits d" by (simp_all add: fitting_step_def)
  from this(1) show "ch_ok d"
  proof cases
    case (trade asset px delta user hint r)
    then show ?thesis using updated_ok [OF trade_updated [OF trade(1)]] \<open>ch_ok c\<close> \<open>oi_fits d\<close> by (simp add: oi_fits_def)
  next
    case (delta user asset delta tag)
    then show ?thesis using updated_ok [OF delta_updated [OF delta(1)]] \<open>ch_ok c\<close> \<open>oi_fits d\<close> by (cases "d = c") (simp_all add: oi_fits_def)
  next
    case (side side second)
    then show ?thesis using side_updated [OF side(1)] updated_ok \<open>ch_ok c\<close> \<open>oi_fits d\<close> by (auto simp: oi_fits_def)
  next
    case (flatten users asset px ts fills)
    then show ?thesis using flatten_users_spec(1) same_books_ok \<open>ch_ok c\<close> by (metis flatten_cases)
  next
    case (user user)
    have wf: "bt_wf (ch_users c)" "users_wf c" using \<open>ch_ok c\<close> by (simp_all add: ch_ok_def ch_inv_def users_wf_def)
    have get: "user_or_default d = user_or_default c" unfolding user(1) get_or_insert_user_def by (simp add: fun_eq_iff)
    have "oi_sum d = oi_sum c"
      using sum_replace [OF wf(1), of "\<lambda>u. unsigned_abs (user_sz _ u)" user "user_or_default c user"]
      by (auto simp: oi_sum_def user(1) get_or_insert_user_def fun_eq_iff)
    moreover have "users_wf d" using wf(2) users_wf_or_default [OF wf(2), of user]
      by (auto simp: user(1) get_or_insert_user_def users_wf_def ran_def)
    ultimately show ?thesis using \<open>ch_ok c\<close> get
      by (simp add: ch_ok_def ch_inv_def oi_fits_def aux_zero_def sz_of_def oi_exact_def user_exact_def user(1) get_or_insert_user_def)
  qed
qed

definition ch_fresh :: "clearinghouse \<Rightarrow> bool" where
  "ch_fresh c \<longleftrightarrow> ch_users c = [] \<and> ch_open_interest_by_asset c = [] \<and> ch_active_users_with_positions c = []"

lemma fresh_ok: "ch_fresh c \<Longrightarrow> ch_ok c"
  by (simp add: ch_fresh_def ch_ok_def ch_inv_def users_wf_def oi_exact_def user_exact_def oi_fits_def aux_zero_def oi_sum_def
      sz_of_def user_sz_def user_or_default_def ch_user_default_def open_contexts_def in_i64_def i64_min_def i64_max_def)

lemmas run_ok = clearing.run_invar [OF _ fresh_ok]

section \<open>Properties\<close>

text \<open>C12. As long as the sum of the absolute sizes of all positions in an asset fits a \<open>u64\<close> after every step, whatever fills, position
  deltas, two-sided updates and flattenings happen, the open interest of every asset is exactly that sum, with no entry when it is
  zero, and the active users are exactly those with an open position.\<close>

theorem open_interest_exact:
  assumes "ch_fresh c0" and "fitting_step\<^sup>*\<^sup>* c0 c"
  shows "map_of (ch_open_interest_by_asset c) asset = (if oi_sum c asset = 0 then None else Some (oi_sum c asset)) \<and>
    (user \<in> set (ch_active_users_with_positions c) \<longleftrightarrow> (\<exists>a. sz_of c user a \<noteq> 0))"
proof -
  have inv: "ch_inv c" using run_ok [OF assms(2,1)] by (simp add: ch_ok_def)
  then have "users_wf c" "oi_exact c asset" "user_exact c user" by (simp_all add: ch_inv_def)
  then show ?thesis using open_contexts_open [of c user] by (simp add: oi_exact_def user_exact_def)
qed

text \<open>C22. Flattening an asset, in whatever order the users come, closes every position in it and reports one
  fill for each open position with its whole size, and the open interest of the asset is gone; a short position of the smallest \<open>i64\<close>,
  whose size has no positive counterpart, is the one exception: all but one unit of it is closed.  No other position changes.\<close>

theorem flatten_closes_asset:
  assumes "ch_fresh c0" and "fitting_step\<^sup>*\<^sup>* c0 c" and "distinct users" and "set users = fst ` set (ch_users c)"
    and "flatten_asset_positions_for_book users asset px ts c = Some (d, fills)"
  shows "(\<forall>v. sz_of d v asset = (if sz_of c v asset = i64_min then - 1 else 0)) \<and>
    ((\<forall>v. sz_of c v asset \<noteq> i64_min) \<longrightarrow> map_of (ch_open_interest_by_asset d) asset = None) \<and>
    (\<forall>v a. a \<noteq> asset \<longrightarrow> sz_of d v a = sz_of c v a) \<and>
    map (\<lambda>f. (gf_user f, gf_closed_sz f)) fills =
      map (\<lambda>v. (v, unsigned_abs (sz_of c v asset) - (if sz_of c v asset = i64_min then 1 else 0))) (filter (\<lambda>v. sz_of c v asset \<noteq> 0) users)"
proof -
  have ok: "ch_ok c" by (rule run_ok [OF assms(2,1)])
  obtain c1 where c1: "flatten_users asset px (wrap_i64 (int (fst ts))) users c = Some (c1, fills)" "same_books c1 d"
    using flatten_cases [OF assms(5)] by metis
  note spec = flatten_users_spec [OF c1(1) ok assms(3)]
  note sz = same_books_inv(3) [OF c1(2)]
  have range: "in_i64 (sz_of c v asset)" for v using ok by (simp add: ch_ok_def)
  have closing: "sz_of c v asset + clamp_i64 (- sz_of c v asset) = (if sz_of c v asset = i64_min then - 1 else 0)"
    "unsigned_abs (clamp_i64 (- sz_of c v asset)) = unsigned_abs (sz_of c v asset) - (if sz_of c v asset = i64_min then 1 else 0)" for v
    using closing_all [OF range [of v]] by simp_all
  have absent: "sz_of c v asset = 0" if "v \<notin> set users" for v
  proof -
    have "map_of (ch_users c) v = None" using that assms(4) by (simp add: map_of_eq_None_iff)
    then show ?thesis by (simp add: sz_of_def user_or_default_def)
  qed
  have zero: "sz_of d v asset = (if sz_of c v asset = i64_min then - 1 else 0)" for v
    using spec(2) [of v asset] spec(3) [of v] closing(1) [of v] absent [of v] by (cases "v \<in> set users") (simp_all add: sz i64_min_def)
  have inv: "ch_inv d" using spec(1) same_books_inv(1) [OF c1(2)] by (simp add: ch_ok_def)
  have "oi_sum d asset = 0" if "\<forall>v. sz_of c v asset \<noteq> i64_min"
    unfolding oi_sum_def
  proof (rule bt_sum_zero)
    fix e assume "e \<in> set (ch_users d)"
    then have "map_of (ch_users d) (fst e) = Some (snd e)" using inv bt_wf_map_of [of "ch_users d" e] by (simp add: ch_inv_def users_wf_def)
    then show "unsigned_abs (user_sz asset (snd e)) = 0" using zero [of "fst e"] that by (simp add: sz_of_def user_or_default_def)
  qed
  then have "(\<forall>v. sz_of c v asset \<noteq> i64_min) \<longrightarrow> map_of (ch_open_interest_by_asset d) asset = None" using inv by (simp add: ch_inv_def oi_exact_def)
  moreover have "zip (map gf_user fills) (map gf_closed_sz fills) =
      map (\<lambda>v. (v, unsigned_abs (sz_of c v asset) - (if sz_of c v asset = i64_min then 1 else 0))) (filter (\<lambda>v. sz_of c v asset \<noteq> 0) users)"
    unfolding spec(4,5) closing(2) by (simp add: zip_map2 zip_same_conv_map comp_def)
  then have "map (\<lambda>f. (gf_user f, gf_closed_sz f)) fills =
      map (\<lambda>v. (v, unsigned_abs (sz_of c v asset) - (if sz_of c v asset = i64_min then 1 else 0))) (filter (\<lambda>v. sz_of c v asset \<noteq> 0) users)"
    by (simp add: zip_map_map zip_same_conv_map comp_def)
  ultimately show ?thesis using zero spec(2) sz by simp
qed

lemma requirement_nonneg: "0 < px \<Longrightarrow> 0 \<le> clamp_i64 (min (int a * px div int (max b (Suc 0))) i64_max)"
  by (simp add: clamp_i64_def i64_max_def le_max_iff_disj pos_imp_zdiv_nonneg_iff)

text \<open>The check that a reduction leaves enough margin never refuses: it compares a requirement with zero
  instead of a surplus, and the only term that could make it negative is never set.\<close>

lemma margin_check_never_refuses:
  assumes "ch_fresh c0" and "fitting_step\<^sup>*\<^sup>* c0 c" and "apply_user_asset_position_delta user asset delta c = Some (d, tag)"
  shows "tag \<noteq> MarginWouldBeNegative"
proof
  assume neg: "tag = MarginWouldBeNegative"
  have aux: "aux_zero c" using run_ok [OF assms(2,1)] by (simp add: ch_ok_def)
  from assms(3) neg obtain c1 old basis sz m where g: "get_or_insert_asset_oracle_context user asset c = Some (c1, old)"
    and m: "ch_margin_delta_for_asset c1 (old\<lparr>pc_signed_margin_or_basis := basis, pc_signed_sz := sz\<rparr>) asset 4 = Some m" "m < 0"
    unfolding apply_user_asset_position_delta_def by (auto simp: Let_def split: if_split_asm bind_split_asm option.split_asm)
  have "pc_aux_20 old = 0" by (rule context_aux(1) [OF g aux])
  then have "0 \<le> m"
    using m(1) requirement_nonneg
    by (auto simp: ch_margin_delta_for_asset_def Let_def saturating_add_i64_def split: bind_split_asm if_split_asm)
  with m(2) show False by simp
qed

text \<open>The two sides of a trade cancel: applying them one after the other, for the same size and asset, leaves
  the sum of the signed sizes of all positions as it was, unless a size leaves the \<open>i64\<close> range.\<close>

lemma two_sided_update_keeps_net:
  assumes "ch_fresh c0" and "fitting_step\<^sup>*\<^sup>* c0 c" and "sd_kind buy = ContextNormal" and "sd_kind sell = ContextNormal"
    and "sd_asset buy = asset" and "sd_asset sell = asset" and "sd_sz_delta_abs buy = n" and "sd_sz_delta_abs sell = n"
    and "apply_position_update_for_asset_side buy False c = Some c1" and "apply_position_update_for_asset_side sell True c1 = Some c2"
    and "int n \<le> i64_max" and "in_i64 (sz_of c (sd_user buy) asset + int n)" and "in_i64 (sz_of c1 (sd_user sell) asset - int n)"
  shows "net_sz c2 asset = net_sz c asset"
proof -
  have net: "net_sz d' asset = net_sz d asset + (if second then - int n else int n)"
    if run: "apply_position_update_for_asset_side s second d = Some d'" and s: "sd_kind s = ContextNormal" "sd_asset s = asset" "sd_sz_delta_abs s = n"
      and wf: "users_wf d" and range: "in_i64 (sz_of d (sd_user s) asset + (if second then - int n else int n))" for s second d d'
  proof -
    obtain e old where g: "get_or_insert_asset_oracle_context (sd_user s) asset d = Some (e, old)"
      and st: "store_position (sd_user s) asset old (side_context s second old) e = Some d'"
      using run s unfolding apply_position_update_for_asset_side_def by (auto split: bind_split_asm)
    note e = context_cases(1,2) [OF g]
    have w: "wrap_i64 (int n) = int n" "wrap_i64 (- int n) = - int n"
      using assms(11) by (auto intro!: wrap_i64_id simp: in_i64_def i64_min_def i64_max_def)
    have "pc_signed_sz (side_context s second old) = pc_signed_sz old + (if second then - int n else int n)"
      using range e(2) s(3) w by (cases second) (simp_all add: side_context_def Let_def saturating_add_i64_def)
    moreover have "users_wf e" "net_sz e asset = net_sz d asset" "sz_of e (sd_user s) asset = pc_signed_sz old"
      using put_context_net [OF wf, of "sd_user s" asset old] e wf by simp_all
    ultimately show ?thesis using store_position_cases(3) [OF st] by simp
  qed
  have wf: "users_wf c" using run_ok [OF assms(2,1)] by (simp add: ch_ok_def ch_inv_def)
  have wf1: "users_wf c1"
    using assms(3,5,9) wf context_cases(1) store_position_cases(1)
    unfolding apply_position_update_for_asset_side_def by (auto split: bind_split_asm) (metis put_context_wf)
  show ?thesis using net [OF assms(9,3,5,7) wf] net [OF assms(10,4,6,8) wf1] assms(12,13) by simp
qed

section \<open>Witnesses\<close>

definition example_ch :: clearinghouse where
  "example_ch = (clearinghouse_new 0)\<lparr>ch_asset_meta := [\<lparr>am_name_index_or_tag = 0, am_max_leverage = 10, am_sz_decimals = 0,
     am_margin_table_or_oi_unit = 4, am_only_isolated_or_status = 0\<rparr>], ch_asset_rows := [\<lparr>ar_signed_px_raw = 5\<rparr>]\<rparr>"

definition example_side :: "address \<Rightarrow> position_update_side" where
  "example_side user = \<lparr>sd_kind = ContextNormal, sd_signed_sz_before = 0, sd_user = user, sd_user_tag = 0, sd_px_raw = 5, sd_asset = 0,
     sd_sz_delta_abs = 3, sd_notional_delta = 15, sd_is_buy_or_long = True\<rparr>"

definition example_bought :: clearinghouse where
  "example_bought = example_ch\<lparr>ch_users := [(1, \<lparr>cu_signed_account_value = 0, cu_positions = [(0, (new_normal 4)\<lparr>pc_signed_sz := 3,
       pc_abs_open_notional := 15\<rparr>)], cu_open_position_count = 1\<rparr>)],
     ch_dirty_users := [1], ch_active_users_with_positions := [1], ch_open_interest_by_asset := [(0, 3)]\<rparr>"

lemmas ch_eval = example_ch_def example_side_def clearinghouse_new_def apply_position_update_for_asset_side_def
  get_or_insert_asset_oracle_context_def asset_meta_def split_asset_id_def CH_ASSETS_PER_DEX_def put_context_def user_or_default_def
  ch_user_default_def store_position_def update_open_interest_by_slot_def refresh_user_activity_after_position_change_def
  ch_refresh_open_position_count_def open_contexts_def new_normal_def wrap_i64_def saturating_add_i64_def clamp_i64_def i64_max_def i64_min_def
  unsigned_abs_def saturating_sub_u64_def saturating_add_u64_def saturating_mul_u64_def u64_max_def Let_def bs_remove_def bt_remove_def

lemma example_fresh: "ch_fresh example_ch"
  by (simp add: ch_fresh_def example_ch_def clearinghouse_new_def)

lemma example_contexts:
  "side_context (example_side v) False (new_normal 4) = (new_normal 4)\<lparr>pc_signed_sz := 3, pc_abs_open_notional := 15\<rparr>"
  "side_context (example_side v) True (new_normal 4) = (new_normal 4)\<lparr>pc_signed_sz := - 3, pc_abs_open_notional := 15\<rparr>"
  by (simp_all add: side_context_def example_side_def wrap_i64_def saturating_add_i64_def clamp_i64_def i64_max_def i64_min_def
      saturating_mul_u64_def unsigned_abs_def u64_max_def Let_def)

lemma example_buys: "apply_position_update_for_asset_side (example_side 1) False example_ch = Some example_bought"
  by (simp add: ch_eval example_bought_def example_contexts [unfolded example_side_def new_normal_def])

lemma example_run: "fitting_step\<^sup>*\<^sup>* example_ch example_bought"
proof (rule r_into_rtranclp)
  have "oi_fits example_bought"
    by (simp add: oi_fits_def oi_sum_def bt_sum_def example_bought_def user_sz_def unsigned_abs_def u64_max_def)
  then show "fitting_step example_ch example_bought" using ch_step.side [OF example_buys] by (simp add: fitting_step_def)
qed

theorem open_interest_exact_witness:
  "map_of (ch_open_interest_by_asset example_bought) 0 = Some (oi_sum example_bought 0) \<and> oi_sum example_bought 0 = 3"
proof -
  have "oi_sum example_bought 0 = 3" by (simp add: oi_sum_def bt_sum_def example_bought_def user_sz_def unsigned_abs_def)
  then show ?thesis using open_interest_exact [OF example_fresh example_run, of 0] by simp
qed

theorem flatten_closes_asset_witness:
  "\<exists>d fills. flatten_asset_positions_for_book [1] 0 5 (7, 8) example_bought = Some (d, fills) \<and>
     map_of (ch_open_interest_by_asset d) 0 = None \<and> map gf_user fills = [1]"
proof -
  obtain d fills where r: "flatten_asset_positions_for_book [1] 0 5 (7, 8) example_bought = Some (d, fills)" "map gf_user fills = [1]"
    by (simp add: ch_eval example_bought_def flatten_asset_positions_for_book_def apply_trade_or_fill_update_def
        ch_aggregate_position_margin_summary_def is_normal_def filled_context_def recompute_abs_open_notional_def checked_add_i64_def
        in_i64_def ch_margin_delta_for_asset_def oracle_px_raw_def asset_row_def saturating_sub_i64_def checked_mul_u64_def)
  have "\<forall>v. sz_of example_bought v 0 \<noteq> i64_min"
    by (simp add: sz_of_def user_sz_def user_or_default_def example_bought_def ch_user_default_def i64_min_def)
  from flatten_closes_asset [OF example_fresh example_run _ _ r(1)] this r show ?thesis by (simp add: example_bought_def)
qed

lemma margin_check_never_refuses_witness:
  "\<exists>d tag. apply_user_asset_position_delta 1 0 (- 1) example_bought = Some (d, tag) \<and> tag \<noteq> MarginWouldBeNegative"
proof -
  obtain d tag where "apply_user_asset_position_delta 1 0 (- 1) example_bought = Some (d, tag)"
    by (simp add: ch_eval example_bought_def apply_user_asset_position_delta_def asset_trading_status_def status_from_storage_byte_def
        is_normal_def checked_add_i64_def in_i64_def ch_margin_delta_for_asset_def oracle_px_raw_def asset_row_def)
  with margin_check_never_refuses [OF example_fresh example_run this] show ?thesis by blast
qed

lemma two_sided_update_keeps_net_witness:
  "\<exists>c2. apply_position_update_for_asset_side (example_side 2) True example_bought = Some c2 \<and> net_sz c2 0 = 0"
proof -
  obtain c2 where r: "apply_position_update_for_asset_side (example_side 2) True example_bought = Some c2"
    by (simp add: ch_eval example_bought_def example_contexts [unfolded example_side_def new_normal_def])
  have "net_sz c2 0 = net_sz example_ch 0"
    by (rule two_sided_update_keeps_net [OF example_fresh rtranclp.rtrancl_refl _ _ _ _ refl _ example_buys r])
      (simp_all add: example_side_def sz_of_def user_sz_def user_or_default_def example_bought_def example_ch_def clearinghouse_new_def
        ch_user_default_def in_i64_def i64_min_def i64_max_def)
  with r show ?thesis by (simp add: net_sz_def example_ch_def clearinghouse_new_def)
qed

end
