(* ===== verification/Prefix_Code.thy ===== *)
theory Prefix_Code
  imports Rust_Prelude
begin

text \<open>
  What a byte encoding must satisfy so that concatenated fields can be told apart, as a locale, with
  the big-endian and hexadecimal encodings the signed payloads are made of.  A byte is a natural number
  below 256.
\<close>

locale prefix_code =
  fixes enc :: "'a \<Rightarrow> nat list"
    and valid :: "'a \<Rightarrow> bool"
  assumes unique: "valid x \<Longrightarrow> valid y \<Longrightarrow> enc x @ r = enc y @ s \<Longrightarrow> x = y \<and> r = s"
begin

lemma enc_inj: "valid x \<Longrightarrow> valid y \<Longrightarrow> enc x = enc y \<Longrightarrow> x = y"
  using unique [of x y "[]" "[]"] by simp

end

text \<open>Two fields in a row are a field.\<close>

locale prefix_pair = first: prefix_code enc1 valid1 + second: prefix_code enc2 valid2
  for enc1 :: "'a \<Rightarrow> nat list" and valid1 :: "'a \<Rightarrow> bool"
    and enc2 :: "'b \<Rightarrow> nat list" and valid2 :: "'b \<Rightarrow> bool"

sublocale prefix_pair \<subseteq> pair: prefix_code "\<lambda>p. enc1 (fst p) @ enc2 (snd p)" "\<lambda>p. valid1 (fst p) \<and> valid2 (snd p)"
proof unfold_locales
  fix x y r s
  assume "valid1 (fst x) \<and> valid2 (snd x)" "valid1 (fst y) \<and> valid2 (snd y)"
    and "(enc1 (fst x) @ enc2 (snd x)) @ r = (enc1 (fst y) @ enc2 (snd y)) @ s"
  then show "x = y \<and> r = s"
    using first.unique [of "fst x" "fst y" "enc2 (snd x) @ r" "enc2 (snd y) @ s"] second.unique [of "snd x" "snd y" r s]
    by (simp add: prod_eq_iff)
qed

text \<open>An encoding of fixed length with a decoder is a prefix code.\<close>

lemma fixed_length_code:
  assumes "\<And>x. valid x \<Longrightarrow> length (enc x) = n" and "\<And>x. valid x \<Longrightarrow> dec (enc x) = x"
  shows "prefix_code enc valid"
proof
  fix x y r s
  assume v: "valid x" "valid y" and eq: "enc x @ r = enc y @ s"
  then have "enc x = enc y \<and> r = s" using assms(1) by simp
  then show "x = y \<and> r = s" using assms(2) v by metis
qed

section \<open>Positional notation\<close>

definition digits_value :: "nat \<Rightarrow> nat list \<Rightarrow> nat" where
  "digits_value base ds = foldl (\<lambda>acc d. base * acc + d) 0 ds"

lemma digits_value_snoc [simp]: "digits_value base (ds @ [d]) = base * digits_value base ds + d"
  by (simp add: digits_value_def)

lemma digits_value_Nil [simp]: "digits_value base [] = 0"
  by (simp add: digits_value_def)

lemma byte_unique:
  assumes "256 * x + a = 256 * y + (b :: nat)" and "a < 256" and "b < 256"
  shows "a = b" and "x = y"
proof -
  have "(256 * x + a) mod 256 = (256 * y + b) mod 256" using assms(1) by (rule arg_cong)
  then show "a = b" using assms(2,3) by simp
  with assms(1) show "x = y" by simp
qed

text \<open>\<open>to_be_bytes\<close> of an integer of \<open>n\<close> bytes.\<close>

fun to_be_bytes :: "nat \<Rightarrow> nat \<Rightarrow> nat list" where
  "to_be_bytes 0 value = []"
| "to_be_bytes (Suc n) value = to_be_bytes n (value div 256) @ [value mod 256]"

lemma length_to_be_bytes [simp]: "length (to_be_bytes n v) = n"
  by (induction n arbitrary: v) simp_all

lemma to_be_bytes_less: "b \<in> set (to_be_bytes n v) \<Longrightarrow> b < 256"
  by (induction n arbitrary: v) auto

lemma value_to_be_bytes: "digits_value 256 (to_be_bytes n v) = v mod 256 ^ n"
  by (induction n arbitrary: v) (simp_all add: mod_mult2_eq [of _ 256])

lemma to_be_bytes_split:
  "to_be_bytes n v @ r = to_be_bytes n w @ s \<longleftrightarrow> v mod 256 ^ n = w mod 256 ^ n \<and> r = s"
proof -
  have "to_be_bytes n v = to_be_bytes n w" if "v mod 256 ^ n = w mod 256 ^ n"
    using that
  proof (induction n arbitrary: v w)
    case (Suc n)
    then have "256 * (v div 256 mod 256 ^ n) + v mod 256 = 256 * (w div 256 mod 256 ^ n) + w mod 256"
      by (simp add: mod_mult2_eq)
    then have "v mod 256 = w mod 256" "v div 256 mod 256 ^ n = w div 256 mod 256 ^ n"
      by (rule byte_unique; simp)+
    then show ?case using Suc.IH [of "v div 256" "w div 256"] by simp
  qed simp
  moreover have "v mod 256 ^ n = w mod 256 ^ n" if "to_be_bytes n v = to_be_bytes n w"
    using that value_to_be_bytes by metis
  ultimately show ?thesis by auto
qed

section \<open>Hexadecimal\<close>

text \<open>\<open>hex_digit\<close> of the sources, as the byte of its character.\<close>

definition hex_digit :: "nat \<Rightarrow> nat" where
  "hex_digit nibble = (let d = nibble mod 16 in if d < 10 then 48 + d else 87 + d)"

definition hex_bytes :: "nat list \<Rightarrow> nat list" where
  "hex_bytes bs = concat (map (\<lambda>b. [hex_digit (b div 16), hex_digit (b mod 16)]) bs)"

definition unhex :: "nat \<Rightarrow> nat" where
  "unhex c = (if c < 58 then c - 48 else c - 87)"

lemma unhex_hex [simp]: "unhex (hex_digit n) = n mod 16"
  by (simp add: unhex_def hex_digit_def Let_def)

lemma length_hex_bytes [simp]: "length (hex_bytes bs) = 2 * length bs"
  by (induction bs) (simp_all add: hex_bytes_def)

lemma hex_bytes_Cons: "hex_bytes (b # bs) = hex_digit (b div 16) # hex_digit (b mod 16) # hex_bytes bs"
  by (simp add: hex_bytes_def)

definition hex_value :: "nat list \<Rightarrow> nat" where
  "hex_value cs = digits_value 16 (map unhex cs)"

lemma hex_value_fold:
  "\<forall>b \<in> set bs. b < 256 \<Longrightarrow>
    foldl (\<lambda>acc d. 16 * acc + d) a (map unhex (hex_bytes bs)) = foldl (\<lambda>acc d. 256 * acc + d) a bs"
proof (induction bs arbitrary: a)
  case (Cons b bs)
  have "16 * (16 * a + b div 16 mod 16) + b mod 16 mod 16 = 256 * a + b"
    using Cons.prems div_mult_mod_eq [of b 16] by (simp add: algebra_simps less_mult_imp_div_less)
  with Cons.IH [of "256 * a + b"] Cons.prems show ?case by (simp add: hex_bytes_Cons add.commute [of b])
qed (simp add: hex_bytes_def)

lemma hex_value_bytes: "\<forall>b \<in> set bs. b < 256 \<Longrightarrow> hex_value (hex_bytes bs) = digits_value 256 bs"
  by (simp add: hex_value_def digits_value_def hex_value_fold)

lemma value_drop_zeros: "digits_value 256 (dropWhile (\<lambda>b. b = 0) bs) = digits_value 256 bs"
  by (induction bs) (simp_all add: digits_value_def)

text \<open>A list of bytes is determined by its length and its value.\<close>

lemma digits_value_inj:
  "length as = length bs \<Longrightarrow> \<forall>x \<in> set as \<union> set bs. x < 256 \<Longrightarrow> digits_value 256 as = digits_value 256 bs \<Longrightarrow> as = bs"
proof (induction as arbitrary: bs rule: rev_induct)
  case (snoc a as)
  then obtain b bs' where bs: "bs = bs' @ [b]" by (cases bs rule: rev_cases) auto
  from snoc.prems bs have "256 * digits_value 256 as + a = 256 * digits_value 256 bs' + b" "a < 256" "b < 256" by auto
  from byte_unique [OF this] have "digits_value 256 as = digits_value 256 bs'" "a = b" by simp_all
  with snoc bs show ?case by auto
qed simp

end
