(* ===== verification/Field_Mask.thy ===== *)
theory Field_Mask
  imports Rust_Prelude
begin

text \<open>
  The bit masks with which the hand-written decoders reject duplicate and missing fields.  The
  locale states what a mask component promises; its lemma says that a decoder accepts a sequence
  of fields exactly when every field occurs once.
\<close>

unbundle bit_operations_syntax

fun mark_all :: "('f \<Rightarrow> 's \<Rightarrow> 'e + 's) \<Rightarrow> 'f list \<Rightarrow> 's \<Rightarrow> 'e + 's" where
  "mark_all mark [] s = Inr s"
| "mark_all mark (f # fs) s = (case mark f s of Inl e \<Rightarrow> Inl e | Inr s' \<Rightarrow> mark_all mark fs s')"

lemma word_bits_eq: "(a :: 'l::len word) = b \<longleftrightarrow> (\<forall>n. bit a n = bit b n)"
  by (auto intro: bit_word_eqI)

locale field_mask =
  fixes bit_of :: "'f \<Rightarrow> 'l::len word"
    and pos :: "'f \<Rightarrow> nat"
    and mark :: "'f \<Rightarrow> 'l word \<Rightarrow> 'e + 'l word"
    and require_all :: "'l word \<Rightarrow> 'e + unit"
  assumes bit_of: "bit (bit_of f) n \<longleftrightarrow> n = pos f"
    and pos_inj: "pos f = pos g \<Longrightarrow> f = g"
    and mark_dup: "s AND bit_of f \<noteq> 0 \<Longrightarrow> \<exists>e. mark f s = Inl e"
    and mark_new: "s AND bit_of f = 0 \<Longrightarrow> mark f s = Inr (s OR bit_of f)"
    and require_all: "require_all s = Inr () \<longleftrightarrow> (\<forall>f. s AND bit_of f \<noteq> 0)"
begin

lemma seen_iff: "s AND bit_of f \<noteq> 0 \<longleftrightarrow> bit s (pos f)"
proof -
  have "s AND bit_of f = 0 \<longleftrightarrow> (\<forall>n. \<not> (bit s n \<and> n = pos f))"
    by (auto simp: word_bits_eq bit_and_iff bit_of)
  then show ?thesis by auto
qed

lemma mark_all_iff:
  "mark_all mark fs s = Inr t \<longleftrightarrow>
     distinct fs \<and> (\<forall>f \<in> set fs. \<not> bit s (pos f)) \<and> (\<forall>n. bit t n \<longleftrightarrow> bit s n \<or> n \<in> pos ` set fs)"
proof (induction fs arbitrary: s)
  case Nil
  then show ?case by (auto simp: word_bits_eq)
next
  case (Cons f fs)
  show ?case
  proof (cases "bit s (pos f)")
    case True
    then show ?thesis using mark_dup [of s f] seen_iff [of s f] by auto
  next
    case False
    then have "mark f s = Inr (s OR bit_of f)" using mark_new seen_iff by blast
    moreover have "bit (s OR bit_of f) n \<longleftrightarrow> bit s n \<or> n = pos f" for n by (simp add: bit_or_iff bit_of)
    ultimately show ?thesis using False Cons.IH [of "s OR bit_of f"] by (auto dest: pos_inj)
  qed
qed

lemma accepts_iff:
  "(\<exists>s. mark_all mark fs 0 = Inr s \<and> require_all s = Inr ()) \<longleftrightarrow> distinct fs \<and> (\<forall>f. f \<in> set fs)"
proof
  assume "\<exists>s. mark_all mark fs 0 = Inr s \<and> require_all s = Inr ()"
  then obtain s where s: "mark_all mark fs 0 = Inr s" "\<forall>f. bit s (pos f)"
    unfolding require_all seen_iff by blast
  then have "f \<in> set fs" for f using mark_all_iff [of fs 0 s] pos_inj by auto
  then show "distinct fs \<and> (\<forall>f. f \<in> set fs)" using s(1) mark_all_iff [of fs 0 s] by simp
next
  assume fs: "distinct fs \<and> (\<forall>f. f \<in> set fs)"
  have "\<exists>t. mark_all mark gs s = Inr t" if "distinct gs" "\<forall>f \<in> set gs. \<not> bit s (pos f)" for gs s
    using that
  proof (induction gs arbitrary: s)
    case (Cons g gs)
    then have "mark g s = Inr (s OR bit_of g)" using mark_new [of s g] seen_iff [of s g] by simp
    moreover have "\<forall>f \<in> set gs. \<not> bit (s OR bit_of g) (pos f)"
      using Cons.prems by (auto simp: bit_or_iff bit_of dest: pos_inj)
    ultimately show ?case using Cons.IH [of "s OR bit_of g"] Cons.prems by simp
  qed simp
  then obtain t where t: "mark_all mark fs 0 = Inr t" using fs by fastforce
  then have "\<forall>f. bit t (pos f)" using fs mark_all_iff [of fs 0 t] by auto
  with t show "\<exists>s. mark_all mark fs 0 = Inr s \<and> require_all s = Inr ()"
    unfolding require_all seen_iff by blast
qed

end

end
