(* ===== verification/Withdraw3_Action.thy ===== *)
theory Withdraw3_Action
  imports Prefix_Code Field_Mask
begin

text \<open>
  The withdrawal action of \<open>l1/action/withdraw3.rs\<close>: its validation, the bytes a user signs, the
  human-readable JSON object, the field mask of its decoder and the routing rules.  Text is a list of
  byte values, as the writers emit it.
\<close>

unbundle bit_operations_syntax

section \<open>Data\<close>

definition str_bytes :: "string \<Rightarrow> nat list" where
  "str_bytes s = map of_char s"

definition ACTION_TYPE :: string where
  "ACTION_TYPE = ''withdraw3''"

definition BINARY_SIGNABLE_ARRAY_LEN :: nat where
  "BINARY_SIGNABLE_ARRAY_LEN = 5"

text \<open>A signature chain id is its 32 bytes.\<close>

type_synonym signature_chain_id = "nat list"

definition chain_id_ok :: "signature_chain_id \<Rightarrow> bool" where
  "chain_id_ok c \<longleftrightarrow> length c = 32 \<and> (\<forall>b \<in> set c. b < 256)"

definition chain_id_from_u64 :: "nat \<Rightarrow> signature_chain_id" where
  "chain_id_from_u64 value = replicate 24 0 @ to_be_bytes 8 value"

definition chain_id_low_u64 :: "signature_chain_id \<Rightarrow> nat" where
  "chain_id_low_u64 c = digits_value 256 (drop 24 c)"

definition chain_id_fits_u64 :: "signature_chain_id \<Rightarrow> bool" where
  "chain_id_fits_u64 c \<longleftrightarrow> list_all (\<lambda>b. b = 0) (take 24 c)"

record withdraw3_action =
  w3_destination :: address
  w3_usd :: nat
  w3_nonce :: nat
  w3_signature_chain_id :: signature_chain_id

record withdraw3_signing_context =
  sx_nonce :: nat
  sx_vault_address :: "address option"
  sx_expires_after :: "nat option"

definition signing_context_new :: "nat \<Rightarrow> withdraw3_signing_context" where
  "signing_context_new nonce = \<lparr>sx_nonce = nonce, sx_vault_address = None, sx_expires_after = None\<rparr>"

definition with_vault :: "address \<Rightarrow> withdraw3_signing_context \<Rightarrow> withdraw3_signing_context" where
  "with_vault v c = c\<lparr>sx_vault_address := Some v\<rparr>"

definition with_expires_after :: "nat \<Rightarrow> withdraw3_signing_context \<Rightarrow> withdraw3_signing_context" where
  "with_expires_after e c = c\<lparr>sx_expires_after := Some e\<rparr>"

datatype withdraw3_validation_error = ZeroUsd | W3NonceMismatch nat nat

datatype hyperliquid_chain = LocalChain | Sandbox | Testnet | Mainnet

definition agent_source_byte :: "hyperliquid_chain \<Rightarrow> nat" where
  "agent_source_byte chain = (case chain of Mainnet \<Rightarrow> of_char (CHR ''a'') | _ \<Rightarrow> of_char (CHR ''b''))"

section \<open>Validation\<close>

definition w3_validate :: "withdraw3_action \<Rightarrow> withdraw3_validation_error + unit" where
  "w3_validate a = (if w3_usd a = 0 then Inl ZeroUsd else Inr ())"

definition validate_signing_context ::
  "withdraw3_action \<Rightarrow> withdraw3_signing_context \<Rightarrow> withdraw3_validation_error + unit" where
  "validate_signing_context a c =
     (case w3_validate a of
        Inl e \<Rightarrow> Inl e
      | Inr _ \<Rightarrow> if w3_nonce a \<noteq> sx_nonce c then Inl (W3NonceMismatch (w3_nonce a) (sx_nonce c)) else Inr ())"

section \<open>The signed bytes\<close>

definition write_msgpack_str :: "string \<Rightarrow> nat list" where
  "write_msgpack_str s =
     (let len = length s
      in (if len \<le> 31 then [0xa0 OR len]
          else if len \<le> 255 then [0xd9, len]
          else if len \<le> u16_max then 0xda # to_be_bytes 2 len
          else 0xdb # to_be_bytes 4 len) @ str_bytes s)"

definition write_msgpack_u64 :: "nat \<Rightarrow> nat list" where
  "write_msgpack_u64 value =
     (if value \<le> 0x7f then [value]
      else if value \<le> 255 then [0xcc, value]
      else if value \<le> u16_max then 0xcd # to_be_bytes 2 value
      else if value \<le> u32_max then 0xce # to_be_bytes 4 value
      else 0xcf # to_be_bytes 8 value)"

definition address_bytes :: "address \<Rightarrow> nat list" where
  "address_bytes a = to_be_bytes 20 (unat a)"

definition write_address_hex :: "address \<Rightarrow> nat list" where
  "write_address_hex a = str_bytes ''0x'' @ hex_bytes (address_bytes a)"

definition write_msgpack_address :: "address \<Rightarrow> nat list" where
  "write_msgpack_address a = [0xd9, 42] @ write_address_hex a"

definition chain_hex_digits :: "nat list \<Rightarrow> nat list" where
  "chain_hex_digits c =
     (case dropWhile (\<lambda>b. b = 0) c of
        [] \<Rightarrow> str_bytes ''0''
      | first_byte # rest \<Rightarrow>
          (if first_byte < 16 then [hex_digit first_byte]
           else [hex_digit (first_byte div 16), hex_digit (first_byte mod 16)]) @ hex_bytes rest)"

definition write_signature_chain_id_hex :: "signature_chain_id \<Rightarrow> nat list" where
  "write_signature_chain_id_hex c = str_bytes ''0x'' @ chain_hex_digits c"

definition chain_id_text_len :: "signature_chain_id \<Rightarrow> nat" where
  "chain_id_text_len c =
     (let first = length (takeWhile (\<lambda>b. b = 0) c)
      in if first = 32 then 3 else 2 + (if c ! first < 16 then 1 else 2) + (31 - first) * 2)"

definition write_msgpack_signature_chain_id :: "signature_chain_id \<Rightarrow> nat list" where
  "write_msgpack_signature_chain_id c =
     (let len = chain_id_text_len c
      in (if len \<le> 31 then [0xa0 OR len] else [0xd9, len]) @ write_signature_chain_id_hex c)"

definition encode_signable_msgpack :: "withdraw3_action \<Rightarrow> nat list" where
  "encode_signable_msgpack a =
     [0x90 OR BINARY_SIGNABLE_ARRAY_LEN] @ write_msgpack_str ACTION_TYPE @ write_msgpack_address (w3_destination a) @
     write_msgpack_u64 (w3_usd a) @ write_msgpack_u64 (w3_nonce a) @
     write_msgpack_signature_chain_id (w3_signature_chain_id a)"

definition write_signing_suffix :: "withdraw3_signing_context \<Rightarrow> nat list" where
  "write_signing_suffix c =
     to_be_bytes 8 (sx_nonce c) @
     (case sx_vault_address c of Some v \<Rightarrow> 1 # address_bytes v | None \<Rightarrow> [0]) @
     (case sx_expires_after c of Some e \<Rightarrow> 0 # to_be_bytes 8 e | None \<Rightarrow> [])"

definition signing_preimage ::
  "withdraw3_action \<Rightarrow> withdraw3_signing_context \<Rightarrow> withdraw3_validation_error + nat list" where
  "signing_preimage a c =
     (case validate_signing_context a c of
        Inl e \<Rightarrow> Inl e
      | Inr _ \<Rightarrow> Inr (encode_signable_msgpack a @ write_signing_suffix c))"

section \<open>The JSON object\<close>

function decimal_loop :: "nat \<Rightarrow> nat list \<Rightarrow> nat list" where
  "decimal_loop value buf = (if value = 0 then buf else decimal_loop (value div 10) ((48 + value mod 10) # buf))"
  by pat_completeness auto
termination by (relation "measure fst") auto

declare decimal_loop.simps [simp del]

definition write_u64_decimal :: "nat \<Rightarrow> nat list" where
  "write_u64_decimal value = (if value = 0 then str_bytes ''0'' else decimal_loop value [])"

definition write_human_readable_json_object :: "withdraw3_action \<Rightarrow> nat list" where
  "write_human_readable_json_object a =
     str_bytes (CHR ''{'' # CHR 0x22 # ''type'' @ [CHR 0x22, CHR '':'', CHR 0x22]) @ str_bytes ACTION_TYPE @
     str_bytes (CHR 0x22 # CHR '','' # CHR 0x22 # ''destination'' @ [CHR 0x22, CHR '':'', CHR 0x22]) @
     write_address_hex (w3_destination a) @
     str_bytes (CHR 0x22 # CHR '','' # CHR 0x22 # ''usd'' @ [CHR 0x22, CHR '':'']) @ write_u64_decimal (w3_usd a) @
     str_bytes (CHR '','' # CHR 0x22 # ''nonce'' @ [CHR 0x22, CHR '':'']) @ write_u64_decimal (w3_nonce a) @
     str_bytes (CHR '','' # CHR 0x22 # ''signatureChainId'' @ [CHR 0x22, CHR '':'', CHR 0x22]) @
     write_signature_chain_id_hex (w3_signature_chain_id a) @ str_bytes [CHR 0x22, CHR ''}'']"

section \<open>Fields and routing\<close>

datatype withdraw3_field = Destination | Usd | NonceField | SignatureChainIdField

definition serde_fields :: "withdraw3_field list" where
  "serde_fields = [Destination, Usd, NonceField, SignatureChainIdField]"

primrec w3_field_name :: "withdraw3_field \<Rightarrow> string" where
  "w3_field_name Destination = ''destination''"
| "w3_field_name Usd = ''usd''"
| "w3_field_name NonceField = ''nonce''"
| "w3_field_name SignatureChainIdField = ''signatureChainId''"

primrec w3_field_pos :: "withdraw3_field \<Rightarrow> nat" where
  "w3_field_pos Destination = 0"
| "w3_field_pos Usd = 1"
| "w3_field_pos NonceField = 2"
| "w3_field_pos SignatureChainIdField = 3"

definition w3_field_bit :: "withdraw3_field \<Rightarrow> 8 word" where
  "w3_field_bit f = push_bit (w3_field_pos f) 1"

datatype withdraw3_decode_error =
  W3DuplicateField withdraw3_field | W3MissingField withdraw3_field | TooManySequenceElements
| InvalidAddressLength nat | SignatureChainIdTooLong nat

definition w3_mark :: "withdraw3_field \<Rightarrow> 8 word \<Rightarrow> withdraw3_decode_error + 8 word" where
  "w3_mark f s = (if s AND w3_field_bit f \<noteq> 0 then Inl (W3DuplicateField f) else Inr (s OR w3_field_bit f))"

definition w3_require_all :: "8 word \<Rightarrow> withdraw3_decode_error + unit" where
  "w3_require_all s =
     (case find (\<lambda>f. s AND w3_field_bit f = 0) serde_fields of Some f \<Rightarrow> Inl (W3MissingField f) | None \<Rightarrow> Inr ())"

lemma serde_fields_all: "f \<in> set serde_fields"
  by (cases f) (simp_all add: serde_fields_def)

lemma w3_field_pos_less: "w3_field_pos f < 8"
  by (cases f) simp_all

interpretation w3_mask: field_mask w3_field_bit w3_field_pos w3_mark w3_require_all
proof unfold_locales
  show "bit (w3_field_bit f) n \<longleftrightarrow> n = w3_field_pos f" for f n
    using w3_field_pos_less [of f] by (auto simp: w3_field_bit_def bit_exp_iff)
  show "w3_field_pos f = w3_field_pos g \<Longrightarrow> f = g" for f g
    by (cases f; cases g) simp_all
  show "w3_require_all s = Inr () \<longleftrightarrow> (\<forall>f. s AND w3_field_bit f \<noteq> 0)" for s
    using serde_fields_all by (auto simp: w3_require_all_def find_None_iff split: option.split dest: find_Some_iff [THEN iffD1])
qed (simp_all add: w3_mark_def)

datatype withdraw3_apply_error =
  UserNotInRequiredWithdrawalSet | RecheckFailed | ZeroUsdApply | InsufficientBalance | BridgeBalanceExceeded | WithdrawalTooLarge

datatype withdraw3_validation_phase =
  LedgerRefreshOnly | LegacyStatusTwoPrecheck | ApplyAndRecheck bool

record withdraw3_state_flags =
  sf_gate_high_status_refresh_only :: bool
  sf_gate_low_status_refresh_only :: bool
  sf_enable_status_two_precheck :: bool

definition recovered_validation_phase ::
  "nat \<Rightarrow> withdraw3_state_flags \<Rightarrow> nat \<Rightarrow> bool \<Rightarrow> withdraw3_validation_phase" where
  "recovered_validation_phase user_status flags prior_withdraw_count direct_amount_supplied =
     (if 4 \<le> user_status \<and> sf_gate_high_status_refresh_only flags then LedgerRefreshOnly
      else if user_status < 4 \<and> (sf_gate_low_status_refresh_only flags \<or> user_status < 2) then LedgerRefreshOnly
      else if user_status = 2
      then (if 2 \<le> prior_withdraw_count \<and> \<not> direct_amount_supplied \<and> sf_enable_status_two_precheck flags
            then LegacyStatusTwoPrecheck else LedgerRefreshOnly)
      else ApplyAndRecheck (user_status = 4))"

definition validate_withdrawal_membership :: "bool \<Rightarrow> bool \<Rightarrow> withdraw3_apply_error + unit" where
  "validate_withdrawal_membership in_primary in_secondary =
     (if in_primary \<or> in_secondary then Inr () else Inl UserNotInRequiredWithdrawalSet)"

definition increment_withdrawal_counter :: "nat \<Rightarrow> nat" where
  "increment_withdrawal_counter counter = (if counter = u64_max then u64_max else counter + 1)"

section \<open>The encodings are prefix codes\<close>

lemma header_byte: "len \<le> 31 \<Longrightarrow> 0xa0 OR len = 0xa0 + (len :: nat)"
proof -
  have "\<forall>n \<in> set [0..<32]. 0xa0 OR n = 0xa0 + (n :: nat)" by code_simp
  then show "len \<le> 31 \<Longrightarrow> 0xa0 OR len = 0xa0 + len" by auto
qed

lemma str_bytes_0x: "str_bytes ''0x'' = [48, 120]" and str_bytes_0: "str_bytes ''0'' = [48]"
  by (simp_all add: str_bytes_def)

interpretation be_u64: prefix_code "to_be_bytes 8" "\<lambda>v. v \<le> u64_max"
  by (rule fixed_length_code [where n = 8 and dec = "digits_value 256"]) (simp_all add: value_to_be_bytes u64_max_def)

interpretation mp_u64: prefix_code write_msgpack_u64 "\<lambda>v. v \<le> u64_max"
proof
  fix x y r s
  assume v: "x \<le> u64_max" "y \<le> u64_max" and eq: "write_msgpack_u64 x @ r = write_msgpack_u64 y @ s"
  consider "x \<le> 0x7f" | "0x7f < x" "x \<le> 255" | "255 < x" "x \<le> u16_max" | "u16_max < x" "x \<le> u32_max" | "u32_max < x"
    by linarith
  then show "x = y \<and> r = s"
    using v eq
    by cases (auto simp: write_msgpack_u64_def to_be_bytes_split u16_max_def u32_max_def u64_max_def split: if_splits)
qed

interpretation amounts: prefix_pair write_msgpack_u64 "\<lambda>v. v \<le> u64_max" write_msgpack_u64 "\<lambda>v. v \<le> u64_max" ..

lemma address_bytes_value: "digits_value 256 (address_bytes a) = unat a"
proof -
  have "unat a < 2 ^ 160" using unsigned_less [of a] by simp
  then show ?thesis by (simp add: address_bytes_def value_to_be_bytes)
qed

lemma length_address_bytes [simp]: "length (address_bytes a) = 20"
  by (simp add: address_bytes_def)

interpretation raw_address: prefix_code address_bytes "\<lambda>a. True"
  by (rule fixed_length_code [where n = 20 and dec = "\<lambda>bs. word_of_nat (digits_value 256 bs)"])
    (simp_all add: address_bytes_value)

interpretation mp_address: prefix_code write_msgpack_address "\<lambda>a. True"
proof (rule fixed_length_code [where n = 44 and dec = "\<lambda>bs. word_of_nat (hex_value (drop 4 bs))"])
  have "hex_value (hex_bytes (address_bytes a)) = unat a" for a
    using to_be_bytes_less [of _ 20 "unat a"] address_bytes_value [of a] by (simp add: hex_value_bytes address_bytes_def)
  then show "word_of_nat (hex_value (drop 4 (write_msgpack_address a))) = a" for a
    by (simp add: write_msgpack_address_def write_address_hex_def str_bytes_0x)
qed (simp add: write_msgpack_address_def write_address_hex_def str_bytes_0x)

text \<open>The text of a chain id: its length is the announced one, and it has the value of the 32 bytes.\<close>

lemma chain_digits_value:
  assumes "chain_id_ok c"
  shows "hex_value (chain_hex_digits c) = digits_value 256 c"
proof (cases "dropWhile (\<lambda>b. b = 0) c")
  case Nil
  have "digits_value 256 c = 0" using value_drop_zeros [of c] unfolding Nil by simp
  then show ?thesis unfolding chain_hex_digits_def Nil by (simp add: str_bytes_0 hex_value_def digits_value_def unhex_def)
next
  case (Cons b bs)
  have less: "\<forall>x \<in> set (b # bs). x < 256"
    using assms Cons set_dropWhileD [of _ "\<lambda>b. b = 0" c] by (metis chain_id_ok_def)
  have "hex_value (chain_hex_digits c) = hex_value (hex_bytes (b # bs))"
    using Cons by (simp add: chain_hex_digits_def hex_bytes_Cons hex_value_def digits_value_def)
  then show ?thesis using less hex_value_bytes [of "b # bs"] value_drop_zeros [of c] Cons by simp
qed

lemma chain_text_length:
  assumes "chain_id_ok c"
  shows "length (write_signature_chain_id_hex c) = chain_id_text_len c" and "chain_id_text_len c \<le> 66"
proof -
  have parts: "length (takeWhile (\<lambda>b. b = 0) c) + length (dropWhile (\<lambda>b. b = 0) c) = 32"
    using assms takeWhile_dropWhile_id [of "\<lambda>b. b = 0" c] unfolding chain_id_ok_def by (metis length_append)
  show "length (write_signature_chain_id_hex c) = chain_id_text_len c"
  proof (cases "dropWhile (\<lambda>b. b = 0) c")
    case Nil
    have "length (takeWhile (\<lambda>b. b = 0) c) = 32" using parts unfolding Nil by simp
    then show ?thesis unfolding write_signature_chain_id_hex_def chain_hex_digits_def chain_id_text_len_def Nil
      by (simp add: str_bytes_0 str_bytes_0x)
  next
    case (Cons b bs)
    then have "c ! length (takeWhile (\<lambda>b. b = 0) c) = b" using dropWhile_eq_drop [of "\<lambda>b. b = 0" c] parts assms
      by (metis hd_drop_conv_nth chain_id_ok_def length_Cons less_add_Suc1 list.sel(1) add_Suc_right)
    moreover have "31 - length (takeWhile (\<lambda>b. b = 0) c) = length bs" using parts Cons by simp
    ultimately show ?thesis using Cons parts
      by (simp add: write_signature_chain_id_hex_def chain_hex_digits_def chain_id_text_len_def str_bytes_0x Let_def)
  qed
  show "chain_id_text_len c \<le> 66" by (simp add: chain_id_text_len_def Let_def) arith
qed

lemma chain_text_inj:
  assumes "chain_id_ok c" and "chain_id_ok d" and "write_signature_chain_id_hex c = write_signature_chain_id_hex d"
  shows "c = d"
proof -
  have "chain_hex_digits c = chain_hex_digits d" using assms(3) by (simp add: write_signature_chain_id_hex_def)
  then have "digits_value 256 c = digits_value 256 d" using chain_digits_value assms(1,2) by metis
  then show ?thesis using assms(1,2) by (intro digits_value_inj) (auto simp: chain_id_ok_def)
qed

interpretation mp_chain: prefix_code write_msgpack_signature_chain_id chain_id_ok
proof
  fix c d r s
  assume v: "chain_id_ok c" "chain_id_ok d"
    and eq: "write_msgpack_signature_chain_id c @ r = write_msgpack_signature_chain_id d @ s"
  have len: "chain_id_text_len c = chain_id_text_len d"
    using eq by (auto simp: write_msgpack_signature_chain_id_def Let_def header_byte split: if_splits)
  have "length (write_signature_chain_id_hex c) = length (write_signature_chain_id_hex d)"
    using chain_text_length(1) v len by simp
  then have "write_signature_chain_id_hex c = write_signature_chain_id_hex d \<and> r = s"
    using eq len by (auto simp: write_msgpack_signature_chain_id_def Let_def split: if_splits)
  then show "c = d \<and> r = s" using chain_text_inj v by blast
qed

section \<open>Properties\<close>

definition action_ok :: "withdraw3_action \<Rightarrow> bool" where
  "action_ok a \<longleftrightarrow> w3_usd a \<le> u64_max \<and> w3_nonce a \<le> u64_max \<and> chain_id_ok (w3_signature_chain_id a)"

definition context_ok :: "withdraw3_signing_context \<Rightarrow> bool" where
  "context_ok c \<longleftrightarrow> sx_nonce c \<le> u64_max \<and> (\<forall>e. sx_expires_after c = Some e \<longrightarrow> e \<le> u64_max)"

lemma suffix_inj:
  assumes "context_ok c" and "context_ok d" and "write_signing_suffix c = write_signing_suffix d"
  shows "c = d"
proof -
  have u: "sx_nonce c \<le> u64_max" "sx_nonce d \<le> u64_max" using assms by (simp_all add: context_ok_def)
  have e: "\<And>x y. sx_expires_after c = Some x \<Longrightarrow> sx_expires_after d = Some y \<Longrightarrow> to_be_bytes 8 x = to_be_bytes 8 y \<Longrightarrow> x = y"
    using be_u64.enc_inj assms(1,2) by (simp add: context_ok_def)
  note split = be_u64.unique [OF u assms(3) [unfolded write_signing_suffix_def]]
  then have "sx_vault_address c = sx_vault_address d \<and> sx_expires_after c = sx_expires_after d"
    using e by (auto dest: raw_address.unique [OF TrueI TrueI] raw_address.enc_inj [OF TrueI TrueI] arg_cong [of _ _ length] split: option.splits)
  with split show ?thesis by (auto intro: withdraw3_signing_context.equality)
qed

text \<open>C21. The bytes a user signs for a withdrawal determine the whole withdrawal: two actions that validate
  in their signing contexts and give the same preimage have the same destination, amount, nonce and chain
  id, and the contexts have the same vault and expiry.  A signature can therefore not be reused for
  another withdrawal.\<close>

theorem signing_preimage_injective:
  assumes "action_ok a" and "context_ok c" and "action_ok b" and "context_ok d"
    and "signing_preimage a c = Inr bytes" and "signing_preimage b d = Inr bytes"
  shows "a = b \<and> c = d"
proof -
  have "encode_signable_msgpack a @ write_signing_suffix c = encode_signable_msgpack b @ write_signing_suffix d"
    using assms(5,6) by (auto simp: signing_preimage_def split: sum.splits)
  then have eq: "write_msgpack_address (w3_destination a) @ (write_msgpack_u64 (w3_usd a) @ write_msgpack_u64 (w3_nonce a)) @
      write_msgpack_signature_chain_id (w3_signature_chain_id a) @ write_signing_suffix c =
    write_msgpack_address (w3_destination b) @ (write_msgpack_u64 (w3_usd b) @ write_msgpack_u64 (w3_nonce b)) @
      write_msgpack_signature_chain_id (w3_signature_chain_id b) @ write_signing_suffix d"
    by (simp add: encode_signable_msgpack_def)
  note dest = mp_address.unique [OF TrueI TrueI eq]
  have ok: "w3_usd a \<le> u64_max" "w3_nonce a \<le> u64_max" "chain_id_ok (w3_signature_chain_id a)"
    "w3_usd b \<le> u64_max" "w3_nonce b \<le> u64_max" "chain_id_ok (w3_signature_chain_id b)"
    using assms(1,3) by (simp_all add: action_ok_def)
  have am: "(w3_usd a, w3_nonce a) = (w3_usd b, w3_nonce b) \<and>
      write_msgpack_signature_chain_id (w3_signature_chain_id a) @ write_signing_suffix c =
      write_msgpack_signature_chain_id (w3_signature_chain_id b) @ write_signing_suffix d"
    by (rule amounts.pair.unique) (use dest ok in simp_all)
  have chain: "w3_signature_chain_id a = w3_signature_chain_id b \<and> write_signing_suffix c = write_signing_suffix d"
    using mp_chain.unique [OF ok(3,6)] am by blast
  then have "c = d" using suffix_inj assms(2,4) by simp
  moreover have "a = b" using dest am chain by (auto intro: withdraw3_action.equality)
  ultimately show ?thesis by simp
qed

text \<open>The JSON object shows the amounts in decimal, without loss and within the twenty-byte buffer.\<close>

lemma decimal_loop_value:
  "digits_value 10 (map (\<lambda>c. c - 48) (decimal_loop v buf)) =
     foldl (\<lambda>acc d. 10 * acc + d) v (map (\<lambda>c. c - 48) buf)"
proof (induction v buf rule: decimal_loop.induct)
  case (1 v buf)
  show ?case
  proof (cases "v = 0")
    case True
    then show ?thesis by (simp add: decimal_loop.simps [of 0] digits_value_def)
  next
    case False
    then show ?thesis using 1 by (simp add: decimal_loop.simps [of v])
  qed
qed

lemma decimal_loop_length: "v < 10 ^ n \<Longrightarrow> length (decimal_loop v buf) \<le> length buf + n"
proof (induction n arbitrary: v buf)
  case (Suc n)
  have "v div 10 < 10 ^ n" using Suc.prems by (simp add: less_mult_imp_div_less mult.commute)
  from Suc.IH [OF this, of "(48 + v mod 10) # buf"] show ?case by (simp add: decimal_loop.simps [of v])
qed (simp add: decimal_loop.simps)

lemma u64_decimal_roundtrip:
  assumes "v \<le> u64_max"
  shows "digits_value 10 (map (\<lambda>c. c - 48) (write_u64_decimal v)) = v" and "length (write_u64_decimal v) \<le> 20"
proof -
  show "digits_value 10 (map (\<lambda>c. c - 48) (write_u64_decimal v)) = v"
    using decimal_loop_value [of v "[]"] by (simp add: write_u64_decimal_def str_bytes_0 digits_value_def)
  show "length (write_u64_decimal v) \<le> 20"
    using decimal_loop_length [of v 20 "[]"] assms by (auto simp: write_u64_decimal_def str_bytes_0 u64_max_def)
qed

text \<open>A chain id built from an integer fits one and gives it back.\<close>

lemma chain_id_from_u64:
  assumes "v \<le> u64_max"
  shows "chain_id_ok (chain_id_from_u64 v)" and "chain_id_fits_u64 (chain_id_from_u64 v)"
    and "chain_id_low_u64 (chain_id_from_u64 v) = v"
  using assms to_be_bytes_less [of _ 8 v]
  by (auto simp: chain_id_ok_def chain_id_from_u64_def chain_id_fits_u64_def chain_id_low_u64_def value_to_be_bytes u64_max_def
      list_all_iff)

section \<open>Witness\<close>

definition example_action :: "nat \<Rightarrow> withdraw3_action" where
  "example_action usd = \<lparr>w3_destination = 5, w3_usd = usd, w3_nonce = 7, w3_signature_chain_id = chain_id_from_u64 42161\<rparr>"

theorem signing_preimage_injective_witness:
  "signing_preimage (example_action 300) (signing_context_new 7) \<noteq> signing_preimage (example_action 301) (signing_context_new 7)"
proof
  assume eq: "signing_preimage (example_action 300) (signing_context_new 7) = signing_preimage (example_action 301) (signing_context_new 7)"
  have ok: "action_ok (example_action 300)" "action_ok (example_action 301)" "context_ok (signing_context_new 7)"
    using chain_id_from_u64(1) [of 42161] by (simp_all add: action_ok_def context_ok_def example_action_def signing_context_new_def u64_max_def)
  have "signing_preimage (example_action 300) (signing_context_new 7) =
      Inr (encode_signable_msgpack (example_action 300) @ write_signing_suffix (signing_context_new 7))"
    by (simp add: signing_preimage_def validate_signing_context_def w3_validate_def example_action_def signing_context_new_def)
  from signing_preimage_injective [OF ok(1,3,2,3) this this [unfolded eq]] show False
    by (simp add: example_action_def)
qed

end
