(* ===== verification/Bridge2.thy ===== *)
theory Bridge2
  imports Nonce Field_Mask
begin

text \<open>
  The withdrawal side of the bridge, \<open>l1/bridge2.rs\<close>: the recorded withdrawals and their debit from the
  bridge balance, finalisation, pruning of deposits, and the field mask of its decoder.  \<open>None\<close> is a
  panic.
\<close>

section \<open>Data\<close>

datatype eth_event_id = EthEventId (ev_block_number: nat) (ev_log_index: nat)

datatype user_and_nonce = UserAndNonce (un_nonce: nat) (un_user: address)

text \<open>The derived order of event ids, and the order of the withdrawal keys: by user, then by nonce.\<close>

instantiation eth_event_id :: linorder
begin

definition less_eq_eth_event_id :: "eth_event_id \<Rightarrow> eth_event_id \<Rightarrow> bool" where
  "less_eq_eth_event_id a b \<longleftrightarrow> ev_block_number a < ev_block_number b \<or>
     ev_block_number a = ev_block_number b \<and> ev_log_index a \<le> ev_log_index b"

definition less_eth_event_id :: "eth_event_id \<Rightarrow> eth_event_id \<Rightarrow> bool" where
  "less_eth_event_id a b \<longleftrightarrow> ev_block_number a < ev_block_number b \<or>
     ev_block_number a = ev_block_number b \<and> ev_log_index a < ev_log_index b"

instance
  by standard (auto simp: less_eq_eth_event_id_def less_eth_event_id_def eth_event_id.expand)

end

instantiation user_and_nonce :: linorder
begin

definition less_eq_user_and_nonce :: "user_and_nonce \<Rightarrow> user_and_nonce \<Rightarrow> bool" where
  "less_eq_user_and_nonce a b \<longleftrightarrow> un_user a < un_user b \<or> un_user a = un_user b \<and> un_nonce a \<le> un_nonce b"

definition less_user_and_nonce :: "user_and_nonce \<Rightarrow> user_and_nonce \<Rightarrow> bool" where
  "less_user_and_nonce a b \<longleftrightarrow> un_user a < un_user b \<or> un_user a = un_user b \<and> un_nonce a < un_nonce b"

instance
  by standard (auto simp: less_eq_user_and_nonce_def less_user_and_nonce_def user_and_nonce.expand)

end

record withdrawal =
  wd_usd :: nat
  wd_destination :: address

record finished_deposit_data =
  fd_user :: address
  fd_usd :: nat
  fd_time :: nat

record signature_votes =
  sv_signers :: "address bset"

record finalized_votes =
  fv_voters :: "address bset"

record validator_set_signatures =
  vs_signers :: "address bset"

record validator_set_finalized_votes =
  vf_voters :: "address bset"

record bridge2 =
  b2_eth_id_to_deposit_votes :: "(eth_event_id, signature_votes) btree"
  b2_finished_deposits_data :: "(eth_event_id, finished_deposit_data) btree"
  b2_withdrawal_signatures :: "(user_and_nonce, withdrawal) btree"
  b2_withdrawal_finalized_votes :: "(user_and_nonce, finalized_votes) btree"
  b2_finished_withdrawal_to_time :: "(user_and_nonce, nat) btree"
  b2_validator_set_signatures :: "(eth_event_id, validator_set_signatures) btree"
  b2_validator_set_finalized_votes :: "(eth_event_id, validator_set_finalized_votes) btree"
  b2_bal :: nat
  b2_last_pruned_deposit_block_number :: nat
  b2_oaw :: nat

datatype bridge2_insert_error = DuplicateWithdrawal user_and_nonce

definition compact_tag :: "bridge2_insert_error \<Rightarrow> nat" where
  "compact_tag e = (case e of DuplicateWithdrawal _ \<Rightarrow> 154)"

section \<open>Operations\<close>

definition insert_withdrawal_signature ::
  "user_and_nonce \<Rightarrow> withdrawal \<Rightarrow> bridge2 \<Rightarrow> bridge2 \<times> (bridge2_insert_error + unit)" where
  "insert_withdrawal_signature key w b =
     (case map_of (b2_withdrawal_signatures b) key of
        None \<Rightarrow> (b\<lparr>b2_withdrawal_signatures := bt_insert key w (b2_withdrawal_signatures b)\<rparr>, Inr ())
      | Some _ \<Rightarrow> (b, Inl (DuplicateWithdrawal key)))"

definition record_withdrawal_signature_and_debit :: "address \<Rightarrow> address \<Rightarrow> nat \<Rightarrow> nat \<Rightarrow> bridge2 \<Rightarrow> bridge2 option" where
  "record_withdrawal_signature_and_debit user destination usd nonce b =
     (case insert_withdrawal_signature (UserAndNonce nonce user) \<lparr>wd_usd = usd, wd_destination = destination\<rparr> b of
        (b1, Inl e) \<Rightarrow> None
      | (b1, Inr _) \<Rightarrow>
          (case checked_sub_u64 (b2_bal b1) usd of None \<Rightarrow> None | Some bal \<Rightarrow> Some (b1\<lparr>b2_bal := bal\<rparr>)))"

definition finalize_withdrawal :: "user_and_nonce \<Rightarrow> nat \<Rightarrow> bridge2 \<Rightarrow> bridge2" where
  "finalize_withdrawal key time b =
     b\<lparr>b2_finished_withdrawal_to_time := bt_insert key time (b2_finished_withdrawal_to_time b),
       b2_withdrawal_signatures := bt_remove key (b2_withdrawal_signatures b)\<rparr>"

definition prune_finished_deposits_before :: "nat \<Rightarrow> bridge2 \<Rightarrow> bridge2" where
  "prune_finished_deposits_before block_number b =
     b\<lparr>b2_finished_deposits_data := filter (\<lambda>e. block_number \<le> ev_block_number (fst e)) (b2_finished_deposits_data b),
       b2_eth_id_to_deposit_votes := filter (\<lambda>e. block_number \<le> ev_block_number (fst e)) (b2_eth_id_to_deposit_votes b),
       b2_last_pruned_deposit_block_number := block_number\<rparr>"

section \<open>The fields of the serialized form\<close>

datatype bridge2_field =
  EthIdToDepositVotes | FinishedDepositsData | WithdrawalSignatures | WithdrawalFinalizedVotes
| FinishedWithdrawalToTime | ValidatorSetSignatures | ValidatorSetFinalizedVotes | Bal
| LastPrunedDepositBlockNumber | Oaw

definition bridge2_fields :: "bridge2_field list" where
  "bridge2_fields =
     [EthIdToDepositVotes, FinishedDepositsData, WithdrawalSignatures, WithdrawalFinalizedVotes,
      FinishedWithdrawalToTime, ValidatorSetSignatures, ValidatorSetFinalizedVotes, Bal,
      LastPrunedDepositBlockNumber, Oaw]"

text \<open>The discriminant of a field, \<open>field as u8\<close>.\<close>

primrec field_index :: "bridge2_field \<Rightarrow> nat" where
  "field_index EthIdToDepositVotes = 0"
| "field_index FinishedDepositsData = 1"
| "field_index WithdrawalSignatures = 2"
| "field_index WithdrawalFinalizedVotes = 3"
| "field_index FinishedWithdrawalToTime = 4"
| "field_index ValidatorSetSignatures = 5"
| "field_index ValidatorSetFinalizedVotes = 6"
| "field_index Bal = 7"
| "field_index LastPrunedDepositBlockNumber = 8"
| "field_index Oaw = 9"

primrec field_name :: "bridge2_field \<Rightarrow> string" where
  "field_name EthIdToDepositVotes = ''eth_id_to_deposit_votes''"
| "field_name FinishedDepositsData = ''finished_deposits_data''"
| "field_name WithdrawalSignatures = ''withdrawal_signatures''"
| "field_name WithdrawalFinalizedVotes = ''withdrawal_finalized_votes''"
| "field_name FinishedWithdrawalToTime = ''finished_withdrawal_to_time''"
| "field_name ValidatorSetSignatures = ''validator_set_signatures''"
| "field_name ValidatorSetFinalizedVotes = ''validator_set_finalized_votes''"
| "field_name Bal = ''bal''"
| "field_name LastPrunedDepositBlockNumber = ''last_pruned_deposit_block_number''"
| "field_name Oaw = ''oaw''"

definition parse_field :: "string \<Rightarrow> bridge2_field option" where
  "parse_field name =
     (if name = ''eth_id_to_deposit_votes'' then Some EthIdToDepositVotes
      else if name = ''finished_deposits_data'' then Some FinishedDepositsData
      else if name = ''withdrawal_signatures'' then Some WithdrawalSignatures
      else if name = ''withdrawal_finalized_votes'' then Some WithdrawalFinalizedVotes
      else if name = ''finished_withdrawal_to_time'' then Some FinishedWithdrawalToTime
      else if name = ''validator_set_signatures'' then Some ValidatorSetSignatures
      else if name = ''validator_set_finalized_votes'' then Some ValidatorSetFinalizedVotes
      else if name = ''bal'' then Some Bal
      else if name = ''last_pruned_deposit_block_number'' then Some LastPrunedDepositBlockNumber
      else if name = ''oaw'' then Some Oaw
      else None)"

datatype bridge2_decode_error =
  WrongFieldCount nat nat | UnknownField string | DuplicateField bridge2_field | MissingField bridge2_field
| WrongWrapper string

type_synonym bridge2_seen_fields = "16 word"

definition bridge2_bit :: "bridge2_field \<Rightarrow> 16 word" where
  "bridge2_bit f = push_bit (field_index f) 1"

definition bridge2_mark :: "bridge2_field \<Rightarrow> bridge2_seen_fields \<Rightarrow> bridge2_decode_error + bridge2_seen_fields" where
  "bridge2_mark f s =
     (if s AND bridge2_bit f \<noteq> 0 then Inl (DuplicateField f) else Inr (s OR bridge2_bit f))"

definition bridge2_require_all :: "bridge2_seen_fields \<Rightarrow> bridge2_decode_error + unit" where
  "bridge2_require_all s =
     (case find (\<lambda>f. s AND bridge2_bit f = 0) bridge2_fields of Some f \<Rightarrow> Inl (MissingField f) | None \<Rightarrow> Inr ())"

lemma bridge2_fields_all: "f \<in> set bridge2_fields"
  by (cases f) (simp_all add: bridge2_fields_def)

lemma field_index_less: "field_index f < 16"
  by (cases f) simp_all

interpretation bridge_mask: field_mask bridge2_bit field_index bridge2_mark bridge2_require_all
proof unfold_locales
  show "bit (bridge2_bit f) n \<longleftrightarrow> n = field_index f" for f n
    using field_index_less [of f] by (auto simp: bridge2_bit_def bit_exp_iff)
  show "field_index f = field_index g \<Longrightarrow> f = g" for f g
    by (cases f; cases g) simp_all
  show "bridge2_require_all s = Inr () \<longleftrightarrow> (\<forall>f. s AND bridge2_bit f \<noteq> 0)" for s
    using bridge2_fields_all by (auto simp: bridge2_require_all_def find_None_iff split: option.split dest: find_Some_iff [THEN iffD1])
qed (simp_all add: bridge2_mark_def)

section \<open>The balance pays for the recorded withdrawals\<close>

datatype bridge_op =
  RecordWithdrawal address address nat nat
| FinalizeWithdrawal user_and_nonce nat
| PruneDeposits nat

fun bridge_step :: "bridge_op \<Rightarrow> bridge2 \<Rightarrow> bridge2 option" where
  "bridge_step (RecordWithdrawal user destination usd nonce) b = record_withdrawal_signature_and_debit user destination usd nonce b"
| "bridge_step (FinalizeWithdrawal key time) b = Some (finalize_withdrawal key time b)"
| "bridge_step (PruneDeposits block_number) b = Some (prune_finished_deposits_before block_number b)"

fun bridge_run :: "bridge_op list \<Rightarrow> bridge2 \<Rightarrow> bridge2 option" where
  "bridge_run [] b = Some b"
| "bridge_run (x # xs) b = (case bridge_step x b of None \<Rightarrow> None | Some b' \<Rightarrow> bridge_run xs b')"

fun debit_of :: "bridge_op \<Rightarrow> nat" where
  "debit_of (RecordWithdrawal user destination usd nonce) = usd"
| "debit_of _ = 0"

definition bridge_inv :: "bridge2 \<Rightarrow> bool" where
  "bridge_inv b \<longleftrightarrow> bt_wf (b2_withdrawal_signatures b)"

definition pending_usd :: "bridge2 \<Rightarrow> nat" where
  "pending_usd b = bt_sum wd_usd (b2_withdrawal_signatures b)"

lemma record_cases:
  "record_withdrawal_signature_and_debit user destination usd nonce b =
     (if map_of (b2_withdrawal_signatures b) (UserAndNonce nonce user) = None \<and> usd \<le> b2_bal b
      then Some (b\<lparr>b2_withdrawal_signatures := bt_insert (UserAndNonce nonce user)
               \<lparr>wd_usd = usd, wd_destination = destination\<rparr> (b2_withdrawal_signatures b), b2_bal := b2_bal b - usd\<rparr>)
      else None)"
  by (auto simp: record_withdrawal_signature_and_debit_def insert_withdrawal_signature_def checked_sub_u64_def
      split: option.split)

lemma record_None:
  "record_withdrawal_signature_and_debit user destination usd nonce b = None \<longleftrightarrow>
     map_of (b2_withdrawal_signatures b) (UserAndNonce nonce user) \<noteq> None \<or> b2_bal b < usd"
  unfolding record_cases by auto

lemma record_Some:
  assumes "record_withdrawal_signature_and_debit user destination usd nonce b = Some b'"
  shows "b2_bal b' + usd = b2_bal b"
    and "map_of (b2_withdrawal_signatures b') =
      (map_of (b2_withdrawal_signatures b))(UserAndNonce nonce user \<mapsto> \<lparr>wd_usd = usd, wd_destination = destination\<rparr>)"
  using assms by (auto simp: record_cases split: if_splits)

lemma bridge_step_ledger:
  assumes "bridge_inv b" and "bridge_step x b = Some b'"
  shows "bridge_inv b'" and "b2_bal b' + debit_of x = b2_bal b" and "pending_usd b' \<le> pending_usd b + debit_of x"
proof -
  have wf: "bt_wf (b2_withdrawal_signatures b)" using assms(1) by (simp add: bridge_inv_def)
  have "bridge_inv b' \<and> b2_bal b' + debit_of x = b2_bal b \<and> pending_usd b' \<le> pending_usd b + debit_of x"
  proof (cases x)
    case (RecordWithdrawal user destination usd nonce)
    then show ?thesis
      using assms(2) wf bt.total_insert [OF wf, of wd_usd "UserAndNonce nonce user" "\<lparr>wd_usd = usd, wd_destination = destination\<rparr>"]
      by (auto simp: record_cases bridge_inv_def pending_usd_def split: if_splits)
  next
    case (FinalizeWithdrawal key time)
    then show ?thesis
      using assms(2) wf bt.total_remove [OF wf, of wd_usd key]
      by (auto simp: finalize_withdrawal_def bridge_inv_def pending_usd_def)
  next
    case (PruneDeposits n)
    then show ?thesis
      using assms by (auto simp: prune_finished_deposits_before_def bridge_inv_def pending_usd_def)
  qed
  then show "bridge_inv b'" and "b2_bal b' + debit_of x = b2_bal b" and "pending_usd b' \<le> pending_usd b + debit_of x"
    by simp_all
qed

text \<open>C17. Along every sequence of bridge operations that does not panic the balance goes down by exactly
  the withdrawals that were recorded, it never goes below zero, and the withdrawals still waiting
  for finalisation never exceed what was pending before plus what was debited.\<close>

theorem bridge_ledger:
  assumes "bridge_inv b" and "bridge_run ops b = Some b'"
  shows "bridge_inv b' \<and> b2_bal b' + (\<Sum>x\<leftarrow>ops. debit_of x) = b2_bal b \<and>
    pending_usd b' \<le> pending_usd b + (\<Sum>x\<leftarrow>ops. debit_of x)"
  using assms
proof (induction ops arbitrary: b)
  case (Cons x xs)
  then obtain b1 where b1: "bridge_step x b = Some b1" "bridge_run xs b1 = Some b'" by (auto split: option.splits)
  then show ?case using Cons.IH [of b1] bridge_step_ledger [OF Cons.prems(1) b1(1)] by simp
qed simp

text \<open>Finalising a withdrawal takes its key out of the only table that is checked for duplicates:
  the same user and nonce can then be recorded and debited again, although the finished withdrawal is
  on file.\<close>

lemma finalized_withdrawal_recorded_again:
  assumes "map_of (b2_withdrawal_signatures b) (UserAndNonce nonce user) \<noteq> None" and "usd \<le> b2_bal b"
  shows "record_withdrawal_signature_and_debit user destination usd nonce b = None \<and>
    (\<exists>b'. record_withdrawal_signature_and_debit user destination usd nonce
        (finalize_withdrawal (UserAndNonce nonce user) time b) = Some b' \<and>
      b2_bal b' = b2_bal b - usd \<and>
      map_of (b2_finished_withdrawal_to_time b') (UserAndNonce nonce user) = Some time)"
  using assms by (auto simp: record_cases finalize_withdrawal_def)

text \<open>A decoder that marks the fields it reads and finally requires all of them accepts a sequence of
  field names exactly when each of the ten names occurs once, in any order.\<close>

lemma bridge_fields_exactly_once:
  "(\<exists>fs s. map parse_field names = map Some fs \<and> mark_all bridge2_mark fs 0 = Inr s \<and> bridge2_require_all s = Inr ()) \<longleftrightarrow>
     distinct names \<and> set names = field_name ` UNIV"
proof -
  have name: "parse_field n = Some f \<longleftrightarrow> n = field_name f" for n f
    by (cases f) (auto simp: parse_field_def)
  have inj: "inj field_name" by (metis name injI option.inject)
  have names: "map parse_field names = map Some fs \<longleftrightarrow> names = map field_name fs" for fs
    by (induction names arbitrary: fs) (auto simp: name Cons_eq_map_conv)
  have "(\<exists>fs s. map parse_field names = map Some fs \<and> mark_all bridge2_mark fs 0 = Inr s \<and> bridge2_require_all s = Inr ()) \<longleftrightarrow>
      (\<exists>fs. names = map field_name fs \<and> distinct fs \<and> (\<forall>f. f \<in> set fs))"
    unfolding names using bridge_mask.accepts_iff by blast
  also have "\<dots> \<longleftrightarrow> distinct names \<and> set names = field_name ` UNIV"
  proof
    assume "\<exists>fs. names = map field_name fs \<and> distinct fs \<and> (\<forall>f. f \<in> set fs)"
    then obtain fs where fs: "names = map field_name fs" "distinct fs" "\<forall>f. f \<in> set fs" by blast
    then have "set fs = UNIV" by auto
    then show "distinct names \<and> set names = field_name ` UNIV"
      using fs inj by (simp add: distinct_map inj_on_subset)
  next
    assume n: "distinct names \<and> set names = field_name ` UNIV"
    let ?fs = "map (inv field_name) names"
    have "map field_name ?fs = names" using n by (intro map_idI [of names "field_name \<circ> inv field_name", unfolded map_map [symmetric]]) (auto simp: f_inv_into_f)
    moreover have "set ?fs = UNIV" using n inj by (simp add: image_image)
    moreover have "distinct ?fs" using n by (simp add: distinct_map inj_on_inv_into)
    ultimately show "\<exists>fs. names = map field_name fs \<and> distinct fs \<and> (\<forall>f. f \<in> set fs)" by (metis UNIV_I)
  qed
  finally show ?thesis .
qed

section \<open>Witnesses\<close>

definition bridge_new :: "nat \<Rightarrow> bridge2" where
  "bridge_new bal = \<lparr>b2_eth_id_to_deposit_votes = [], b2_finished_deposits_data = [], b2_withdrawal_signatures = [],
     b2_withdrawal_finalized_votes = [], b2_finished_withdrawal_to_time = [], b2_validator_set_signatures = [],
     b2_validator_set_finalized_votes = [], b2_bal = bal, b2_last_pruned_deposit_block_number = 0, b2_oaw = 0\<rparr>"

theorem bridge_ledger_witness:
  "\<exists>b'. bridge_run [RecordWithdrawal 1 2 30 1000, FinalizeWithdrawal (UserAndNonce 1000 1) 7, RecordWithdrawal 1 2 20 2000]
       (bridge_new 100) = Some b' \<and> b2_bal b' = 50"
proof -
  let ?ops = "[RecordWithdrawal 1 2 30 1000, FinalizeWithdrawal (UserAndNonce 1000 1) 7, RecordWithdrawal 1 2 20 2000]"
  have inv: "bridge_inv (bridge_new 100)" by (simp add: bridge_inv_def bridge_new_def)
  obtain b' where "bridge_run ?ops (bridge_new 100) = Some b'"
    by (simp add: record_cases bridge_new_def finalize_withdrawal_def bt_remove_def)
  moreover from bridge_ledger [OF inv this] have "b2_bal b' + 50 = 100" by (simp add: bridge_new_def)
  ultimately show ?thesis by auto
qed

lemma finalized_withdrawal_recorded_again_witness:
  "record_withdrawal_signature_and_debit 1 2 30 1000 ((bridge_new 100)\<lparr>b2_withdrawal_signatures :=
     [(UserAndNonce 1000 1, \<lparr>wd_usd = 5, wd_destination = 2\<rparr>)]\<rparr>) = None"
  using finalized_withdrawal_recorded_again [of "(bridge_new 100)\<lparr>b2_withdrawal_signatures :=
     [(UserAndNonce 1000 1, \<lparr>wd_usd = 5, wd_destination = 2\<rparr>)]\<rparr>" 1000 1 30]
  by (simp add: bridge_new_def)

end
