(* ===== verification/Withdraw3_Handler.thy ===== *)
theory Withdraw3_Handler
  imports Bridge2
begin

text \<open>
  The withdrawal handler of \<open>l1/exchange/handlers/47_withdraw3.rs\<close>.  The source is generic in the engine
  it runs on (the trait \<open>Withdraw3Engine\<close>), so the model is too: an engine is a record of its operations
  over some state.  \<open>None\<close> is a panic of the engine, which only recording a withdrawal can raise.
\<close>

section \<open>Data\<close>

definition MAX_WIRE_STRING_LEN :: nat where
  "MAX_WIRE_STRING_LEN = 100"

definition WRAPPER_TAG_APPLIED :: nat where
  "WRAPPER_TAG_APPLIED = 13"

definition WRAPPER_TAG_REJECTED :: nat where
  "WRAPPER_TAG_REJECTED = 14"

definition W3_STATUS_OK :: nat where
  "W3_STATUS_OK = 390"

definition STATUS_REQUIRED_SET_MISS :: nat where
  "STATUS_REQUIRED_SET_MISS = 368"

definition STATUS_STRING_TOO_LONG :: nat where
  "STATUS_STRING_TOO_LONG = 323"

definition STATUS_NONCE_ALREADY_USED :: nat where
  "STATUS_NONCE_ALREADY_USED = 90"

definition STATUS_INVALID_DESTINATION :: nat where
  "STATUS_INVALID_DESTINATION = 182"

definition STATUS_NONCE_ARITHMETIC :: nat where
  "STATUS_NONCE_ARITHMETIC = 198"

definition STATUS_ZERO_USD :: nat where
  "STATUS_ZERO_USD = 48"

definition STATUS_USD_ABOVE_BRIDGE_LIMIT :: nat where
  "STATUS_USD_ABOVE_BRIDGE_LIMIT = 39"

definition STATUS_BRIDGE_BUCKET_OVERFLOW :: nat where
  "STATUS_BRIDGE_BUCKET_OVERFLOW = 40"

record wire_action =
  wa_destination :: string
  wa_usd :: string
  wa_nonce :: nat
  wa_signature_chain_id :: "nat list"

datatype user_class = SpotOnly | Legacy | AbstractionOptIn | DexUser | PrivilegedDexUser | OtherClass nat

definition status_byte :: "user_class \<Rightarrow> nat" where
  "status_byte c = (case c of SpotOnly \<Rightarrow> 0 | Legacy \<Rightarrow> 1 | AbstractionOptIn \<Rightarrow> 2 | DexUser \<Rightarrow> 3
     | PrivilegedDexUser \<Rightarrow> 4 | OtherClass byte \<Rightarrow> byte)"

definition is_privileged :: "user_class \<Rightarrow> bool" where
  "is_privileged c \<longleftrightarrow> 4 \<le> status_byte c"

record routing_config =
  rc_allow_class2_direct_path :: bool
  rc_allow_privileged_direct_path :: bool
  rc_class2_mirror_enabled :: bool
  rc_routed_count :: nat
  rc_route_key :: nat

datatype withdraw3_phase = DirectPhase | Class2Mirrored nat | Routed nat bool

record withdraw3_applied =
  ap_destination :: address
  ap_usd :: nat
  ap_nonce_ms :: nat
  ap_phase :: withdraw3_phase

record withdraw3_result =
  wr_tag :: nat
  wr_status :: nat
  wr_applied :: "withdraw3_applied option"

definition result_ok :: "withdraw3_applied \<Rightarrow> withdraw3_result" where
  "result_ok applied = \<lparr>wr_tag = WRAPPER_TAG_APPLIED, wr_status = W3_STATUS_OK, wr_applied = Some applied\<rparr>"

definition rejected :: "nat \<Rightarrow> withdraw3_result" where
  "rejected status = \<lparr>wr_tag = WRAPPER_TAG_REJECTED, wr_status = status, wr_applied = None\<rparr>"

record 'e withdraw3_engine =
  en_user_class :: "'e \<Rightarrow> address \<Rightarrow> user_class"
  en_routing_config :: "'e \<Rightarrow> routing_config"
  en_validate_environment_window :: "'e \<Rightarrow> address \<Rightarrow> nat + unit"
  en_last_withdraw3_nonce_ms :: "'e \<Rightarrow> address \<Rightarrow> nat option"
  en_parse_withdraw_usd :: "'e \<Rightarrow> string \<Rightarrow> nat + nat"
  en_parse_destination :: "'e \<Rightarrow> string \<Rightarrow> nat + address"
  en_max_bridge_withdraw_usd :: "'e \<Rightarrow> nat"
  en_apply_first_dex_withdrawal :: "address \<Rightarrow> nat \<Rightarrow> 'e \<Rightarrow> 'e \<times> (nat + unit)"
  en_record_withdrawal_signature_and_debit :: "address \<Rightarrow> address \<Rightarrow> nat \<Rightarrow> nat \<Rightarrow> 'e \<Rightarrow> 'e option"
  en_remember_withdraw3_nonce :: "address \<Rightarrow> nat \<Rightarrow> 'e \<Rightarrow> 'e"
  en_clear_withdraw3_pending_flag :: "address \<Rightarrow> 'e \<Rightarrow> 'e"
  en_add_user_ntl_volume_scaled :: "address \<Rightarrow> int \<Rightarrow> 'e \<Rightarrow> 'e"
  en_accept_routed_withdraw :: "address \<Rightarrow> 'e \<Rightarrow> 'e \<times> bool"
  en_prepare_routed_withdraw :: "address \<Rightarrow> nat \<Rightarrow> bool \<Rightarrow> 'e \<Rightarrow> 'e"
  en_finalize_privileged_routed_withdraw :: "address \<Rightarrow> nat \<Rightarrow> 'e \<Rightarrow> 'e"
  en_reconcile_routed_withdraw :: "address \<Rightarrow> nat \<Rightarrow> 'e \<Rightarrow> 'e \<times> (nat + unit)"

section \<open>The handler\<close>

definition classify_withdraw3_phase :: "user_class \<Rightarrow> routing_config \<Rightarrow> withdraw3_phase" where
  "classify_withdraw3_phase c cfg =
     (case c of
        SpotOnly \<Rightarrow> DirectPhase
      | Legacy \<Rightarrow> DirectPhase
      | AbstractionOptIn \<Rightarrow>
          (if rc_allow_class2_direct_path cfg then DirectPhase
           else if rc_class2_mirror_enabled cfg \<and> 2 \<le> rc_routed_count cfg then Class2Mirrored (rc_route_key cfg)
           else DirectPhase)
      | DexUser \<Rightarrow> Routed (rc_route_key cfg) False
      | PrivilegedDexUser \<Rightarrow>
          (if rc_allow_privileged_direct_path cfg then DirectPhase else Routed (rc_route_key cfg) True)
      | OtherClass byte \<Rightarrow>
          (if 4 \<le> byte
           then if rc_allow_privileged_direct_path cfg then DirectPhase else Routed (rc_route_key cfg) True
           else DirectPhase))"

text \<open>The part of the core after every check has passed.\<close>

definition settle_withdrawal ::
  "'e withdraw3_engine \<Rightarrow> address \<Rightarrow> address \<Rightarrow> nat \<Rightarrow> nat \<Rightarrow> withdraw3_phase \<Rightarrow> 'e \<Rightarrow> ('e \<times> withdraw3_result) option" where
  "settle_withdrawal E user destination usd nonce_ms phase s =
     (case en_record_withdrawal_signature_and_debit E user destination usd nonce_ms s of
        None \<Rightarrow> None
      | Some s1 \<Rightarrow>
          (let s2 = en_clear_withdraw3_pending_flag E user (en_remember_withdraw3_nonce E user nonce_ms s1)
           in Some (if int usd \<le> i64_max
                    then (en_add_user_ntl_volume_scaled E user (- int usd) s2,
                          result_ok \<lparr>ap_destination = destination, ap_usd = usd, ap_nonce_ms = nonce_ms, ap_phase = phase\<rparr>)
                    else (s2, rejected STATUS_BRIDGE_BUCKET_OVERFLOW))))"

definition apply_withdraw3_core ::
  "'e withdraw3_engine \<Rightarrow> address \<Rightarrow> wire_action \<Rightarrow> withdraw3_phase \<Rightarrow> 'e \<Rightarrow> ('e \<times> withdraw3_result) option" where
  "apply_withdraw3_core E user action phase s =
     (if MAX_WIRE_STRING_LEN < length (wa_destination action) \<or> MAX_WIRE_STRING_LEN < length (wa_usd action)
      then Some (s, rejected STATUS_STRING_TOO_LONG)
      else case en_validate_environment_window E s user of
        Inl status \<Rightarrow> Some (s, rejected status)
      | Inr _ \<Rightarrow>
          (case checked_mul_u64 (wa_nonce action) WITHDRAW3_NONCE_SCALE of
             None \<Rightarrow> Some (s, rejected STATUS_NONCE_ARITHMETIC)
           | Some nonce_ms \<Rightarrow>
               (if (case en_last_withdraw3_nonce_ms E s user of None \<Rightarrow> False | Some stored_ms \<Rightarrow> nonce_ms \<le> stored_ms)
                then Some (s, rejected STATUS_NONCE_ALREADY_USED)
                else case en_parse_withdraw_usd E s (wa_usd action) of
                  Inl status \<Rightarrow> Some (s, rejected status)
                | Inr usd \<Rightarrow>
                    (if usd = 0 then Some (s, rejected STATUS_ZERO_USD)
                     else if en_max_bridge_withdraw_usd E s < usd then Some (s, rejected STATUS_USD_ABOVE_BRIDGE_LIMIT)
                     else case en_parse_destination E s (wa_destination action) of
                       Inl _ \<Rightarrow> Some (s, rejected STATUS_INVALID_DESTINATION)
                     | Inr destination \<Rightarrow>
                         (case en_apply_first_dex_withdrawal E user usd s of
                            (s1, Inl status) \<Rightarrow> Some (s1, rejected status)
                          | (s1, Inr _) \<Rightarrow> settle_withdrawal E user destination usd nonce_ms phase s1)))))"

definition apply_withdraw3 ::
  "'e withdraw3_engine \<Rightarrow> address \<Rightarrow> wire_action \<Rightarrow> 'e \<Rightarrow> ('e \<times> withdraw3_result) option" where
  "apply_withdraw3 E user action s =
     (let phase = classify_withdraw3_phase (en_user_class E s user) (en_routing_config E s)
      in case phase of
        DirectPhase \<Rightarrow> apply_withdraw3_core E user action phase s
      | Class2Mirrored route_key \<Rightarrow>
          (case en_reconcile_routed_withdraw E user route_key s of
             (s1, Inl status) \<Rightarrow> Some (s1, rejected status)
           | (s1, Inr _) \<Rightarrow>
               (case apply_withdraw3_core E user action phase s1 of
                  None \<Rightarrow> None
                | Some (s2, r) \<Rightarrow>
                    (if wr_status r \<noteq> W3_STATUS_OK then Some (s2, r)
                     else case en_reconcile_routed_withdraw E user route_key s2 of
                       (s3, Inl status) \<Rightarrow> Some (s3, rejected status)
                     | (s3, Inr _) \<Rightarrow> Some (s3, r))))
      | Routed route_key privileged_finalize \<Rightarrow>
          (case en_accept_routed_withdraw E user s of
             (s1, accepted) \<Rightarrow>
               (if \<not> accepted then Some (s1, rejected STATUS_REQUIRED_SET_MISS)
                else case apply_withdraw3_core E user action phase
                       (en_prepare_routed_withdraw E user route_key privileged_finalize s1) of
                  None \<Rightarrow> None
                | Some (s2, r) \<Rightarrow>
                    (if wr_status r \<noteq> W3_STATUS_OK then Some (s2, r)
                     else if privileged_finalize
                     then Some (en_finalize_privileged_routed_withdraw E user route_key s2, r)
                     else case en_reconcile_routed_withdraw E user route_key s2 of
                       (s3, Inr _) \<Rightarrow> Some (s3, r)
                     | (s3, Inl status) \<Rightarrow> Some (s3, rejected status)))))"

section \<open>Engines that keep the bridge and the withdrawal nonces\<close>

text \<open>
  What the handler relies on: recording a withdrawal is the bridge operation of \<open>bridge2.rs\<close>, remembering a
  nonce stores it, and no other operation touches either.
\<close>

locale bridge_keeper =
  fixes E :: "'e withdraw3_engine"
    and bridge_of :: "'e \<Rightarrow> bridge2"
  assumes record_bridge: "map_option bridge_of (en_record_withdrawal_signature_and_debit E u d usd n s) =
      record_withdrawal_signature_and_debit u d usd n (bridge_of s)"
    and record_last: "en_record_withdrawal_signature_and_debit E u d usd n s = Some s' \<Longrightarrow>
      en_last_withdraw3_nonce_ms E s' = en_last_withdraw3_nonce_ms E s"
    and remember_bridge: "bridge_of (en_remember_withdraw3_nonce E u n s) = bridge_of s"
    and remember_last: "en_last_withdraw3_nonce_ms E (en_remember_withdraw3_nonce E u n s) =
      (en_last_withdraw3_nonce_ms E s)(u \<mapsto> n)"
    and clear_frame: "bridge_of (en_clear_withdraw3_pending_flag E u s) = bridge_of s"
      "en_last_withdraw3_nonce_ms E (en_clear_withdraw3_pending_flag E u s) = en_last_withdraw3_nonce_ms E s"
    and volume_frame: "bridge_of (en_add_user_ntl_volume_scaled E u delta s) = bridge_of s"
      "en_last_withdraw3_nonce_ms E (en_add_user_ntl_volume_scaled E u delta s) = en_last_withdraw3_nonce_ms E s"
    and dex_frame: "bridge_of (fst (en_apply_first_dex_withdrawal E u usd s)) = bridge_of s"
      "en_last_withdraw3_nonce_ms E (fst (en_apply_first_dex_withdrawal E u usd s)) = en_last_withdraw3_nonce_ms E s"
    and accept_frame: "bridge_of (fst (en_accept_routed_withdraw E u s)) = bridge_of s"
      "en_last_withdraw3_nonce_ms E (fst (en_accept_routed_withdraw E u s)) = en_last_withdraw3_nonce_ms E s"
    and prepare_frame: "bridge_of (en_prepare_routed_withdraw E u k p s) = bridge_of s"
      "en_last_withdraw3_nonce_ms E (en_prepare_routed_withdraw E u k p s) = en_last_withdraw3_nonce_ms E s"
    and finalize_frame: "bridge_of (en_finalize_privileged_routed_withdraw E u k s) = bridge_of s"
      "en_last_withdraw3_nonce_ms E (en_finalize_privileged_routed_withdraw E u k s) = en_last_withdraw3_nonce_ms E s"
    and reconcile_frame: "bridge_of (fst (en_reconcile_routed_withdraw E u k s)) = bridge_of s"
      "en_last_withdraw3_nonce_ms E (fst (en_reconcile_routed_withdraw E u k s)) = en_last_withdraw3_nonce_ms E s"
begin

definition same_ledger :: "'e \<Rightarrow> 'e \<Rightarrow> bool" where
  "same_ledger s t \<longleftrightarrow> bridge_of t = bridge_of s \<and> en_last_withdraw3_nonce_ms E t = en_last_withdraw3_nonce_ms E s"

text \<open>One withdrawal of \<open>user\<close> with nonce \<open>n\<close> was recorded between two states.\<close>

definition recorded :: "address \<Rightarrow> nat \<Rightarrow> address \<Rightarrow> nat \<Rightarrow> 'e \<Rightarrow> 'e \<Rightarrow> bool" where
  "recorded user n d usd s t \<longleftrightarrow> 0 < usd \<and>
     (\<forall>l. en_last_withdraw3_nonce_ms E s user = Some l \<longrightarrow> l < n) \<and>
     record_withdrawal_signature_and_debit user d usd n (bridge_of s) = Some (bridge_of t) \<and>
     en_last_withdraw3_nonce_ms E t = (en_last_withdraw3_nonce_ms E s)(user \<mapsto> n)"

lemma same_ledger_frames [simp]:
  "same_ledger s s"
  "same_ledger s (en_clear_withdraw3_pending_flag E u s)" "same_ledger s (en_add_user_ntl_volume_scaled E u delta s)"
  "same_ledger s (fst (en_apply_first_dex_withdrawal E u usd s))" "same_ledger s (fst (en_accept_routed_withdraw E u s))"
  "same_ledger s (en_prepare_routed_withdraw E u k p s)" "same_ledger s (en_finalize_privileged_routed_withdraw E u k s)"
  "same_ledger s (fst (en_reconcile_routed_withdraw E u k s))"
  by (simp_all add: same_ledger_def clear_frame volume_frame dex_frame accept_frame prepare_frame finalize_frame reconcile_frame)

lemma same_ledger_trans: "same_ledger s t \<Longrightarrow> same_ledger t u \<Longrightarrow> same_ledger s u"
  by (simp add: same_ledger_def)

lemma recorded_same_before: "same_ledger s t \<Longrightarrow> recorded user n d usd t u \<Longrightarrow> recorded user n d usd s u"
  by (simp add: recorded_def same_ledger_def)

lemma recorded_same_after: "recorded user n d usd s t \<Longrightarrow> same_ledger t u \<Longrightarrow> recorded user n d usd s u"
  by (simp add: recorded_def same_ledger_def)

lemma settle_cases:
  assumes "0 < usd" and "\<forall>l. en_last_withdraw3_nonce_ms E s user = Some l \<longrightarrow> l < n"
  obtains (panic) "settle_withdrawal E user d usd n phase s = None"
      and "record_withdrawal_signature_and_debit user d usd n (bridge_of s) = None"
  | (settled) t r where "settle_withdrawal E user d usd n phase s = Some (t, r)" and "recorded user n d usd s t"
      and "\<And>ap. wr_applied r = Some ap \<Longrightarrow> ap_destination ap = d \<and> ap_usd ap = usd \<and> ap_nonce_ms ap = n"
proof (cases "en_record_withdrawal_signature_and_debit E user d usd n s")
  case None
  then show thesis using panic record_bridge [of user d usd n s] by (simp add: settle_withdrawal_def)
next
  case (Some s1)
  let ?s2 = "en_clear_withdraw3_pending_flag E user (en_remember_withdraw3_nonce E user n s1)"
  have rec: "recorded user n d usd s ?s2"
    using assms Some record_bridge [of user d usd n s] record_last [OF Some]
    by (simp add: recorded_def clear_frame remember_bridge remember_last)
  show thesis
  proof (cases "int usd \<le> i64_max")
    case True
    show thesis
      by (rule settled) (use Some True rec recorded_same_after [OF rec] in \<open>auto simp: settle_withdrawal_def Let_def result_ok_def\<close>)
  next
    case False
    show thesis
      by (rule settled) (use Some False rec in \<open>auto simp: settle_withdrawal_def Let_def rejected_def\<close>)
  qed
qed

lemma core_cases:
  obtains (kept) t r where "apply_withdraw3_core E user action phase s = Some (t, r)" and "same_ledger s t" and "wr_applied r = None"
  | (panic) d usd where "apply_withdraw3_core E user action phase s = None" and "0 < usd" and "usd \<le> en_max_bridge_withdraw_usd E s"
      and "\<forall>l. en_last_withdraw3_nonce_ms E s user = Some l \<longrightarrow> l < wa_nonce action * WITHDRAW3_NONCE_SCALE"
      and "record_withdrawal_signature_and_debit user d usd (wa_nonce action * WITHDRAW3_NONCE_SCALE) (bridge_of s) = None"
  | (settled) d usd t r where "apply_withdraw3_core E user action phase s = Some (t, r)"
      and "recorded user (wa_nonce action * WITHDRAW3_NONCE_SCALE) d usd s t"
      and "\<And>ap. wr_applied r = Some ap \<Longrightarrow> ap_destination ap = d \<and> ap_usd ap = usd \<and> ap_nonce_ms ap = wa_nonce action * WITHDRAW3_NONCE_SCALE"
proof -
  let ?n = "wa_nonce action * WITHDRAW3_NONCE_SCALE" and ?core = "apply_withdraw3_core E user action phase s"
  have none: "wr_applied (rejected x) = None" for x by (simp add: rejected_def)
  consider (early) x t where "?core = Some (t, rejected x)" "same_ledger s t"
    | (late) usd d s1 where "0 < usd" "usd \<le> en_max_bridge_withdraw_usd E s" "same_ledger s s1"
        "\<forall>l. en_last_withdraw3_nonce_ms E s user = Some l \<longrightarrow> l < ?n" "?core = settle_withdrawal E user d usd ?n phase s1"
  proof (cases "\<exists>x t. ?core = Some (t, rejected x) \<and> same_ledger s t")
    case True
    then show thesis using early by blast
  next
    case no: False
    have "\<not> (MAX_WIRE_STRING_LEN < length (wa_destination action) \<or> MAX_WIRE_STRING_LEN < length (wa_usd action))"
      using no by (auto simp: apply_withdraw3_core_def)
    moreover obtain w where "en_validate_environment_window E s user = Inr w"
      using no calculation by (cases "en_validate_environment_window E s user") (auto simp: apply_withdraw3_core_def)
    moreover have "checked_mul_u64 (wa_nonce action) WITHDRAW3_NONCE_SCALE = Some ?n"
      using no calculation by (auto simp: apply_withdraw3_core_def checked_mul_u64_def split: if_splits)
    moreover have fresh: "\<not> (case en_last_withdraw3_nonce_ms E s user of None \<Rightarrow> False | Some stored_ms \<Rightarrow> ?n \<le> stored_ms)"
      using no calculation by (auto simp: apply_withdraw3_core_def)
    moreover obtain usd where "en_parse_withdraw_usd E s (wa_usd action) = Inr usd"
      using no calculation by (cases "en_parse_withdraw_usd E s (wa_usd action)") (auto simp: apply_withdraw3_core_def)
    moreover have usd: "0 < usd" "usd \<le> en_max_bridge_withdraw_usd E s"
      using no calculation by (auto simp: apply_withdraw3_core_def split: if_splits)
    moreover obtain d where "en_parse_destination E s (wa_destination action) = Inr d"
      using no calculation by (cases "en_parse_destination E s (wa_destination action)") (auto simp: apply_withdraw3_core_def)
    moreover obtain s1 r1 where dex: "en_apply_first_dex_withdrawal E user usd s = (s1, r1)" by force
    moreover have same: "same_ledger s s1" using same_ledger_frames(4) [of s user usd] dex by simp
    moreover obtain v where "r1 = Inr v"
      using no calculation by (cases r1) (auto simp: apply_withdraw3_core_def)
    ultimately have "?core = settle_withdrawal E user d usd ?n phase s1"
      by (simp add: apply_withdraw3_core_def)
    moreover have "\<forall>l. en_last_withdraw3_nonce_ms E s user = Some l \<longrightarrow> l < ?n" using fresh by auto
    ultimately show thesis using late [of usd s1 d] usd same by blast
  qed
  then show thesis
  proof cases
    case early
    then show thesis using kept none by blast
  next
    case late
    have "\<forall>l. en_last_withdraw3_nonce_ms E s1 user = Some l \<longrightarrow> l < ?n" using late(3,4) by (simp add: same_ledger_def)
    from late(1) this show thesis
    proof (cases rule: settle_cases [where d = d and phase = phase])
      case panic
      then show thesis using that(2) late by (simp add: same_ledger_def)
    next
      case (settled t r)
      then show thesis using that(3) late(3,5) recorded_same_before by metis
    qed
  qed
qed

text \<open>
  The three outcomes of the whole handler: nothing happened to the ledger, one withdrawal was recorded
  (whatever the reported status), or recording panicked.
\<close>

lemma handler_cases:
  obtains (kept) t r where "apply_withdraw3 E user action s = Some (t, r)" and "same_ledger s t" and "wr_applied r = None"
  | (panic) d usd s1 where "apply_withdraw3 E user action s = None" and "0 < usd" and "same_ledger s s1"
      and "usd \<le> en_max_bridge_withdraw_usd E s1"
      and "\<forall>l. en_last_withdraw3_nonce_ms E s user = Some l \<longrightarrow> l < wa_nonce action * WITHDRAW3_NONCE_SCALE"
      and "record_withdrawal_signature_and_debit user d usd (wa_nonce action * WITHDRAW3_NONCE_SCALE) (bridge_of s) = None"
  | (settled) d usd t r where "apply_withdraw3 E user action s = Some (t, r)"
      and "recorded user (wa_nonce action * WITHDRAW3_NONCE_SCALE) d usd s t"
      and "\<And>ap. wr_applied r = Some ap \<Longrightarrow> ap_destination ap = d \<and> ap_usd ap = usd \<and> ap_nonce_ms ap = wa_nonce action * WITHDRAW3_NONCE_SCALE"
proof -
  let ?phase = "classify_withdraw3_phase (en_user_class E s user) (en_routing_config E s)"
  let ?run = "apply_withdraw3 E user action s"
  have none: "wr_applied (rejected x) = None" for x by (simp add: rejected_def)
  consider (stop) t x where "?run = Some (t, rejected x)" "same_ledger s t"
    | (core) s1 where "same_ledger s s1" "?run = None" "apply_withdraw3_core E user action ?phase s1 = None"
    | (done') s1 s2 r t r' where "same_ledger s s1" "apply_withdraw3_core E user action ?phase s1 = Some (s2, r)"
        "same_ledger s2 t" "?run = Some (t, r')" "r' = r \<or> wr_applied r' = None"
  proof (cases ?phase)
    case DirectPhase
    then show thesis
    proof (cases "apply_withdraw3_core E user action ?phase s")
      case None
      then show thesis using core [of s] DirectPhase by (simp add: apply_withdraw3_def)
    next
      case (Some p)
      obtain s2 r where "p = (s2, r)" by force
      then show thesis using done' [of s s2 r s2 r] DirectPhase Some by (simp add: apply_withdraw3_def)
    qed
  next
    case (Class2Mirrored k)
    obtain s1 o1 where r1: "en_reconcile_routed_withdraw E user k s = (s1, o1)" by force
    have l1: "same_ledger s s1" using same_ledger_frames(8) [of s user k] r1 by simp
    show thesis
    proof (cases o1)
      case (Inl x)
      then show thesis using stop [of s1 x] l1 r1 Class2Mirrored by (simp add: apply_withdraw3_def)
    next
      case Inr
      show thesis
      proof (cases "apply_withdraw3_core E user action ?phase s1")
        case None
        then show thesis using core [OF l1] r1 Inr Class2Mirrored by (simp add: apply_withdraw3_def)
      next
        case (Some p)
        obtain s2 r where p: "p = (s2, r)" by force
        obtain s3 o3 where r3: "en_reconcile_routed_withdraw E user k s2 = (s3, o3)" by force
        have l3: "same_ledger s2 s3" using same_ledger_frames(8) [of s2 user k] r3 by simp
        show thesis
          using done' [OF l1, of s2 r s2 r] done' [OF l1, of s2 r s3 r] done' [OF l1, of s2 r s3 "rejected (projl o3)"]
            l3 r1 r3 Inr Some p Class2Mirrored none
          by (cases "wr_status r = W3_STATUS_OK"; cases o3) (simp_all add: apply_withdraw3_def)
      qed
    qed
  next
    case (Routed k priv)
    obtain s0 acc where r0: "en_accept_routed_withdraw E user s = (s0, acc)" by force
    have l0: "same_ledger s s0" using same_ledger_frames(5) [of s user] r0 by simp
    let ?s1 = "en_prepare_routed_withdraw E user k priv s0"
    have l1: "same_ledger s ?s1" using l0 same_ledger_frames(6) same_ledger_trans by blast
    show thesis
    proof (cases acc)
      case False
      then show thesis using stop [of s0 STATUS_REQUIRED_SET_MISS] l0 r0 Routed by (simp add: apply_withdraw3_def)
    next
      case True
      show thesis
      proof (cases "apply_withdraw3_core E user action ?phase ?s1")
        case None
        then show thesis using core [OF l1] r0 True Routed by (simp add: apply_withdraw3_def)
      next
        case (Some p)
        obtain s2 r where p: "p = (s2, r)" by force
        obtain s3 o3 where r3: "en_reconcile_routed_withdraw E user k s2 = (s3, o3)" by force
        have l3: "same_ledger s2 s3" using same_ledger_frames(8) [of s2 user k] r3 by simp
        have "apply_withdraw3_core E user action (Routed k priv) ?s1 = Some (s2, r)" using Some p Routed by simp
        then have run: "?run = (if wr_status r \<noteq> W3_STATUS_OK then Some (s2, r)
            else if priv then Some (en_finalize_privileged_routed_withdraw E user k s2, r)
            else case o3 of Inr _ \<Rightarrow> Some (s3, r) | Inl status \<Rightarrow> Some (s3, rejected status))"
          using r0 r3 True Routed by (simp add: apply_withdraw3_def split: sum.split)
        consider (failed) "wr_status r \<noteq> W3_STATUS_OK" | (privileged) "wr_status r = W3_STATUS_OK" "priv"
          | (refused) x where "wr_status r = W3_STATUS_OK" "\<not> priv" "o3 = Inl x"
          | (passed) v where "wr_status r = W3_STATUS_OK" "\<not> priv" "o3 = Inr v" by (cases o3) auto
        then show thesis
        proof cases
          case failed
          then have "?run = Some (s2, r)" by (simp add: run)
          with l1 Some [unfolded p] same_ledger_frames(1) [of s2] show thesis by (rule done') simp
        next
          case privileged
          then have "?run = Some (en_finalize_privileged_routed_withdraw E user k s2, r)" by (simp add: run)
          with l1 Some [unfolded p] same_ledger_frames(7) show thesis by (rule done') simp
        next
          case refused
          then have "?run = Some (s3, rejected x)" by (simp add: run)
          with l1 Some [unfolded p] l3 show thesis by (rule done') (simp add: none)
        next
          case passed
          then have "?run = Some (s3, r)" by (simp add: run)
          with l1 Some [unfolded p] l3 show thesis by (rule done') simp
        qed
      qed
    qed
  qed
  then show thesis
  proof cases
    case stop
    then show thesis using kept none by blast
  next
    case core
    from core_cases [of user action ?phase s1] show thesis
    proof cases
      case (panic d usd)
      then show thesis using that(2) [of usd s1 d] core by (simp add: same_ledger_def)
    qed (use core in simp_all)
  next
    case done'
    from core_cases [of user action ?phase s1] show thesis
    proof cases
      case (kept t' r0)
      then have eq: "t' = s2" "r0 = r" using done'(2) by simp_all
      have "wr_applied r' = None" using done'(5) kept(3) eq by auto
      moreover have "same_ledger s t" using done'(1,3) kept(2) eq by (simp add: same_ledger_def)
      ultimately show thesis using that(1) done'(4) by blast
    next
      case (settled d usd t' r0)
      then have "recorded user (wa_nonce action * WITHDRAW3_NONCE_SCALE) d usd s t"
        using done' recorded_same_before recorded_same_after by (metis option.inject prod.inject)
      then show thesis using that(3) [of t r' d usd] done' settled by auto
    qed (use done' in simp_all)
  qed
qed

end

section \<open>The handler on the bridge\<close>

text \<open>
  The engine over the modelled bridge: the bridge and the per-user withdrawal nonces are the components of
  this development, everything else is an arbitrary engine \<open>H\<close> over the rest of the state.
\<close>

record 'x exchange_slice =
  sl_bridge :: bridge2
  sl_replay :: "(address, withdraw3_replay_state) btree"
  sl_rest :: 'x

definition on_rest :: "('x \<Rightarrow> 'x \<times> 'r) \<Rightarrow> 'x exchange_slice \<Rightarrow> 'x exchange_slice \<times> 'r" where
  "on_rest f s = (let (x, r) = f (sl_rest s) in (s\<lparr>sl_rest := x\<rparr>, r))"

definition bridge_engine :: "'x withdraw3_engine \<Rightarrow> 'x exchange_slice withdraw3_engine" where
  "bridge_engine H =
     \<lparr>en_user_class = (\<lambda>s. en_user_class H (sl_rest s)),
      en_routing_config = (\<lambda>s. en_routing_config H (sl_rest s)),
      en_validate_environment_window = (\<lambda>s. en_validate_environment_window H (sl_rest s)),
      en_last_withdraw3_nonce_ms = (\<lambda>s u. map_option wr_last_nonce_ms (map_of (sl_replay s) u)),
      en_parse_withdraw_usd = (\<lambda>s. en_parse_withdraw_usd H (sl_rest s)),
      en_parse_destination = (\<lambda>s. en_parse_destination H (sl_rest s)),
      en_max_bridge_withdraw_usd = (\<lambda>s. en_max_bridge_withdraw_usd H (sl_rest s)),
      en_apply_first_dex_withdrawal = (\<lambda>u usd. on_rest (en_apply_first_dex_withdrawal H u usd)),
      en_record_withdrawal_signature_and_debit =
        (\<lambda>u d usd n s. map_option (\<lambda>b. s\<lparr>sl_bridge := b\<rparr>) (record_withdrawal_signature_and_debit u d usd n (sl_bridge s))),
      en_remember_withdraw3_nonce =
        (\<lambda>u n s. s\<lparr>sl_replay := bt_insert u (remember_nonce n \<lparr>wr_last_nonce_ms = 0\<rparr>) (sl_replay s)\<rparr>),
      en_clear_withdraw3_pending_flag = (\<lambda>u s. s\<lparr>sl_rest := en_clear_withdraw3_pending_flag H u (sl_rest s)\<rparr>),
      en_add_user_ntl_volume_scaled = (\<lambda>u delta s. s\<lparr>sl_rest := en_add_user_ntl_volume_scaled H u delta (sl_rest s)\<rparr>),
      en_accept_routed_withdraw = (\<lambda>u. on_rest (en_accept_routed_withdraw H u)),
      en_prepare_routed_withdraw = (\<lambda>u k p s. s\<lparr>sl_rest := en_prepare_routed_withdraw H u k p (sl_rest s)\<rparr>),
      en_finalize_privileged_routed_withdraw = (\<lambda>u k s. s\<lparr>sl_rest := en_finalize_privileged_routed_withdraw H u k (sl_rest s)\<rparr>),
      en_reconcile_routed_withdraw = (\<lambda>u k. on_rest (en_reconcile_routed_withdraw H u k))\<rparr>"

interpretation slice: bridge_keeper "bridge_engine H" sl_bridge
  by unfold_locales (auto simp: bridge_engine_def on_rest_def remember_nonce_def option.map_comp comp_def option.map_ident
      fun_eq_iff split: prod.split)

section \<open>Properties\<close>

text \<open>Withdrawals and their finalisation, in any order.\<close>

datatype bridge_request = Withdraw address wire_action | Finalized user_and_nonce nat

definition request_step :: "'x withdraw3_engine \<Rightarrow> bridge_request \<Rightarrow> 'x exchange_slice \<Rightarrow> 'x exchange_slice option" where
  "request_step H req s =
     (case req of
        Withdraw user action \<Rightarrow> map_option fst (apply_withdraw3 (bridge_engine H) user action s)
      | Finalized key time \<Rightarrow> Some (s\<lparr>sl_bridge := finalize_withdrawal key time (sl_bridge s)\<rparr>))"

text \<open>A request debits when it lowers the bridge balance; its key is the user with the nonce in milliseconds.\<close>

definition debit_step :: "'x withdraw3_engine \<Rightarrow> bridge_request \<Rightarrow> 'x exchange_slice \<Rightarrow> 'x exchange_slice \<times> bool" where
  "debit_step H req s =
     (case request_step H req s of None \<Rightarrow> (s, False) | Some t \<Rightarrow> (t, b2_bal (sl_bridge t) < b2_bal (sl_bridge s)))"

definition request_key :: "bridge_request \<Rightarrow> user_and_nonce" where
  "request_key req =
     (case req of Withdraw user action \<Rightarrow> UserAndNonce (wa_nonce action * WITHDRAW3_NONCE_SCALE) user | Finalized key _ \<Rightarrow> key)"

definition last_nonce :: "'x exchange_slice \<Rightarrow> address \<Rightarrow> nat option" where
  "last_nonce s u = map_option wr_last_nonce_ms (map_of (sl_replay s) u)"

lemma bridge_engine_last: "en_last_withdraw3_nonce_ms (bridge_engine H) s u = last_nonce s u"
  by (simp add: bridge_engine_def last_nonce_def)

lemma debit_step_cases:
  obtains (idle) t where "debit_step H req s = (t, False)" and "last_nonce t = last_nonce s"
  | (debit) user action d usd t where "req = Withdraw user action" and "debit_step H req s = (t, True)"
      and "slice.recorded H user (wa_nonce action * WITHDRAW3_NONCE_SCALE) d usd s t"
proof (cases req)
  case (Withdraw user action)
  from slice.handler_cases [of H user action s] show thesis
  proof cases
    case (kept t r)
    then show thesis
      using idle [of t] Withdraw
      by (simp add: debit_step_def request_step_def slice.same_ledger_def bridge_engine_last [abs_def, symmetric] fun_eq_iff bridge_engine_last)
  next
    case panic
    then show thesis using idle [of s] Withdraw by (simp add: debit_step_def request_step_def)
  next
    case (settled d usd t r)
    then have "b2_bal (sl_bridge t) < b2_bal (sl_bridge s)"
      using record_Some(1) [of user d usd _ "sl_bridge s" "sl_bridge t"] unfolding slice.recorded_def by fastforce
    then show thesis using debit [OF Withdraw _ settled(2)] settled(1) Withdraw by (simp add: debit_step_def request_step_def)
  qed
next
  case (Finalized key time)
  then show thesis
    using idle [of "s\<lparr>sl_bridge := finalize_withdrawal key time (sl_bridge s)\<rparr>"]
    by (simp add: debit_step_def request_step_def finalize_withdrawal_def last_nonce_def fun_eq_iff)
qed

definition nonce_spent_by :: "'x exchange_slice \<Rightarrow> user_and_nonce \<Rightarrow> bool" where
  "nonce_spent_by s key \<longleftrightarrow> (\<exists>l. last_nonce s (un_user key) = Some l \<and> un_nonce key \<le> l)"

lemma recorded_last:
  assumes "slice.recorded H user n d usd s t"
  shows "last_nonce t = (last_nonce s)(user \<mapsto> n)" and "last_nonce s user = Some l \<Longrightarrow> l < n"
  using assms by (simp_all add: slice.recorded_def bridge_engine_last fun_eq_iff)

interpretation withdrawals: replay_guard "debit_step H" request_key "\<lambda>s. True" nonce_spent_by
proof
  fix s :: "'a exchange_slice" and req k
  show "snd (debit_step H req s) \<Longrightarrow> \<not> nonce_spent_by s (request_key req)"
    by (cases rule: debit_step_cases [of H req s]) (auto simp: nonce_spent_by_def request_key_def dest: recorded_last(2))
  show "snd (debit_step H req s) \<Longrightarrow> nonce_spent_by (fst (debit_step H req s)) (request_key req)"
    by (cases rule: debit_step_cases [of H req s]) (auto simp: nonce_spent_by_def request_key_def recorded_last(1))
  show "nonce_spent_by s k \<Longrightarrow> nonce_spent_by (fst (debit_step H req s)) k"
    by (cases rule: debit_step_cases [of H req s])
      (auto simp: nonce_spent_by_def recorded_last(1) dest!: recorded_last(2) intro: order_trans less_imp_le)
qed simp

text \<open>C18. Whatever withdrawals are submitted and whenever earlier ones are finalised, no user and nonce debits
  the bridge twice: the handler's nonce check covers the duplicate that the bridge itself would accept
  after a finalisation.\<close>

theorem withdrawals_debit_once:
  "distinct (accepted_keys (debit_step H) request_key reqs s)"
  by (rule withdrawals.accepted_once) simp

text \<open>Every pending withdrawal has a nonce at or below the last one of its user.\<close>

definition slice_inv :: "'x exchange_slice \<Rightarrow> bool" where
  "slice_inv s \<longleftrightarrow> bridge_inv (sl_bridge s) \<and>
     (\<forall>key. map_of (b2_withdrawal_signatures (sl_bridge s)) key \<noteq> None \<longrightarrow> nonce_spent_by s key)"

text \<open>When the bridge limit never exceeds the bridge balance, the handler never panics: neither the
  duplicate check nor the balance check of the bridge can fail.  It either leaves the bridge and the nonces
  alone, or records exactly one withdrawal, debits its positive amount and remembers its nonce; an applied
  result always describes that withdrawal.\<close>

lemma withdraw3_never_panics:
  assumes inv: "slice_inv s" and funded: "\<forall>x. en_max_bridge_withdraw_usd H x \<le> b2_bal (sl_bridge s)"
  shows "\<exists>t r. apply_withdraw3 (bridge_engine H) user action s = Some (t, r) \<and> slice_inv t \<and>
    (sl_bridge t = sl_bridge s \<and> last_nonce t = last_nonce s \<and> wr_applied r = None \<or>
     (\<exists>d usd. 0 < usd \<and> b2_bal (sl_bridge t) + usd = b2_bal (sl_bridge s) \<and>
        map_of (b2_withdrawal_signatures (sl_bridge t)) =
          (map_of (b2_withdrawal_signatures (sl_bridge s)))
            (UserAndNonce (wa_nonce action * 1000) user \<mapsto> \<lparr>wd_usd = usd, wd_destination = d\<rparr>) \<and>
        last_nonce t = (last_nonce s)(user \<mapsto> wa_nonce action * 1000) \<and>
        (\<forall>ap. wr_applied r = Some ap \<longrightarrow> ap_destination ap = d \<and> ap_usd ap = usd)))"
proof -
  let ?n = "wa_nonce action * WITHDRAW3_NONCE_SCALE"
  from slice.handler_cases [of H user action s] show ?thesis
  proof cases
    case (kept t r)
    then have "sl_bridge t = sl_bridge s" "last_nonce t = last_nonce s"
      by (simp_all add: slice.same_ledger_def bridge_engine_last fun_eq_iff)
    moreover have "slice_inv t" using inv calculation by (simp add: slice_inv_def nonce_spent_by_def)
    ultimately show ?thesis using kept by blast
  next
    case (panic d usd s1)
    have "usd \<le> b2_bal (sl_bridge s)" using panic(4) funded order_trans by (fastforce simp: bridge_engine_def)
    then have "map_of (b2_withdrawal_signatures (sl_bridge s)) (UserAndNonce ?n user) \<noteq> None"
      using panic(6) unfolding record_None by simp
    then have "nonce_spent_by s (UserAndNonce ?n user)" using inv by (simp add: slice_inv_def)
    then show ?thesis using panic(5) by (auto simp: nonce_spent_by_def bridge_engine_last)
  next
    case (settled d usd t r)
    have step: "bridge_step (RecordWithdrawal user d usd ?n) (sl_bridge s) = Some (sl_bridge t)"
      using settled(2) by (simp add: slice.recorded_def)
    have sigs: "map_of (b2_withdrawal_signatures (sl_bridge t)) =
        (map_of (b2_withdrawal_signatures (sl_bridge s)))(UserAndNonce ?n user \<mapsto> \<lparr>wd_usd = usd, wd_destination = d\<rparr>)"
      using step by (simp add: record_Some)
    note last = recorded_last [OF settled(2)]
    have "nonce_spent_by t key" if "nonce_spent_by s key \<or> key = UserAndNonce ?n user" for key
      using that last by (auto simp: nonce_spent_by_def intro: order_trans less_imp_le dest!: last(2))
    then have "slice_inv t" using inv sigs bridge_step_ledger(1) [OF _ step] by (simp add: slice_inv_def)
    moreover have "b2_bal (sl_bridge t) + usd = b2_bal (sl_bridge s)"
      using bridge_step_ledger(2) [OF _ step] inv by (simp add: slice_inv_def)
    moreover have "0 < usd" using settled(2) by (simp add: slice.recorded_def)
    ultimately show ?thesis using settled(1,3) sigs last(1) unfolding WITHDRAW3_NONCE_SCALE_def by blast
  qed
qed

text \<open>A withdrawal above the signed 64-bit range is reported as rejected although it has been recorded,
  debited and its nonce used up: the range check comes after the bridge update.\<close>

lemma rejected_withdrawal_is_debited:
  assumes "map_of (b2_withdrawal_signatures (sl_bridge s)) (UserAndNonce nonce_ms user) = None" and "usd \<le> b2_bal (sl_bridge s)"
    and "i64_max < int usd"
  shows "\<exists>t. settle_withdrawal (bridge_engine H) user destination usd nonce_ms phase s = Some (t, rejected STATUS_BRIDGE_BUCKET_OVERFLOW) \<and>
    b2_bal (sl_bridge t) = b2_bal (sl_bridge s) - usd \<and> last_nonce t user = Some nonce_ms"
  using assms
  by (simp add: settle_withdrawal_def bridge_engine_def record_cases last_nonce_def remember_nonce_def)

section \<open>Witnesses\<close>

definition quiet_engine :: "nat \<Rightarrow> unit withdraw3_engine" where
  "quiet_engine limit =
     \<lparr>en_user_class = (\<lambda>s u. Legacy),
      en_routing_config = (\<lambda>s. \<lparr>rc_allow_class2_direct_path = True, rc_allow_privileged_direct_path = True,
        rc_class2_mirror_enabled = False, rc_routed_count = 0, rc_route_key = 0\<rparr>),
      en_validate_environment_window = (\<lambda>s u. Inr ()),
      en_last_withdraw3_nonce_ms = (\<lambda>s u. None),
      en_parse_withdraw_usd = (\<lambda>s txt. Inr (length txt)),
      en_parse_destination = (\<lambda>s txt. Inr 9),
      en_max_bridge_withdraw_usd = (\<lambda>s. limit),
      en_apply_first_dex_withdrawal = (\<lambda>u usd s. (s, Inr ())),
      en_record_withdrawal_signature_and_debit = (\<lambda>u d usd n s. Some s),
      en_remember_withdraw3_nonce = (\<lambda>u n s. s),
      en_clear_withdraw3_pending_flag = (\<lambda>u s. s),
      en_add_user_ntl_volume_scaled = (\<lambda>u delta s. s),
      en_accept_routed_withdraw = (\<lambda>u s. (s, True)),
      en_prepare_routed_withdraw = (\<lambda>u k p s. s),
      en_finalize_privileged_routed_withdraw = (\<lambda>u k s. s),
      en_reconcile_routed_withdraw = (\<lambda>u k s. (s, Inr ()))\<rparr>"

definition slice_new :: "nat \<Rightarrow> unit exchange_slice" where
  "slice_new bal = \<lparr>sl_bridge = bridge_new bal, sl_replay = [], sl_rest = ()\<rparr>"

lemma withdraw3_never_panics_witness:
  "\<exists>t r. apply_withdraw3 (bridge_engine (quiet_engine 50)) 1
       \<lparr>wa_destination = ''d'', wa_usd = ''abc'', wa_nonce = 4, wa_signature_chain_id = []\<rparr> (slice_new 100) = Some (t, r) \<and>
     slice_inv t \<and> b2_bal (sl_bridge t) = 97"
proof -
  let ?a = "\<lparr>wa_destination = ''d'', wa_usd = ''abc'', wa_nonce = 4, wa_signature_chain_id = []\<rparr>"
  have inv: "slice_inv (slice_new 100)" by (simp add: slice_inv_def slice_new_def bridge_inv_def bridge_new_def)
  have "\<forall>x. en_max_bridge_withdraw_usd (quiet_engine 50) x \<le> b2_bal (sl_bridge (slice_new 100))"
    by (simp add: quiet_engine_def slice_new_def bridge_new_def)
  from withdraw3_never_panics [OF inv this, of 1 ?a] obtain t r where
    t: "apply_withdraw3 (bridge_engine (quiet_engine 50)) 1 ?a (slice_new 100) = Some (t, r)" "slice_inv t" by blast
  moreover have "b2_bal (sl_bridge t) = 97"
    using t(1)
    by (auto simp: apply_withdraw3_def classify_withdraw3_phase_def bridge_engine_def quiet_engine_def apply_withdraw3_core_def
        MAX_WIRE_STRING_LEN_def checked_mul_u64_def WITHDRAW3_NONCE_SCALE_def u64_max_def slice_new_def on_rest_def settle_withdrawal_def
        record_cases bridge_new_def i64_max_def)
  ultimately show ?thesis by blast
qed

lemma rejected_withdrawal_is_debited_witness:
  "\<exists>t. settle_withdrawal (bridge_engine (quiet_engine 50)) 1 2 9223372036854775808 1000 DirectPhase (slice_new 9223372036854775809) =
       Some (t, rejected STATUS_BRIDGE_BUCKET_OVERFLOW) \<and> b2_bal (sl_bridge t) = 1"
  using rejected_withdrawal_is_debited [of "slice_new 9223372036854775809" 1000 1 9223372036854775808 "quiet_engine 50" 2 DirectPhase]
  by (auto simp: slice_new_def bridge_new_def i64_max_def)

end
