(* ===== verification/Bridge_Votes.thy ===== *)
theory Bridge_Votes
  imports Bridge2
begin

text \<open>
  Validator votes on the bridge: signatures for a withdrawal (\<open>l1/exchange/handlers/40_validator_sign_withdrawal.rs\<close>)
  and votes that a withdrawal was finalised on the other chain (\<open>46_vote_eth_finalized_withdrawal.rs\<close>).  Both keep
  their votes in a map with at most 100 keys, from which the smallest keys are dropped.  The lookups, the
  quorum rule and the signature recovery are parameters, as they are traits in the source.
\<close>

section \<open>Maps with a bounded number of keys\<close>

text \<open>While there are too many keys, the first one is removed; in key order that is the head.\<close>

fun trim_oldest :: "nat \<Rightarrow> ('k, 'v) btree \<Rightarrow> ('k, 'v) btree" where
  "trim_oldest cap [] = []"
| "trim_oldest cap (e # m) = (if cap < length (e # m) then trim_oldest cap m else e # m)"

lemma trim_oldest_drop: "trim_oldest cap m = drop (length m - cap) m"
  by (induction m) (auto simp: Suc_diff_le)

lemma trim_oldest_wf: "bt_wf m \<Longrightarrow> bt_wf (trim_oldest cap m)"
  unfolding trim_oldest_drop bt_wf_def by (simp add: drop_map [symmetric] sorted_wrt_drop)

lemma trim_oldest_subset: "set (trim_oldest cap m) \<subseteq> set m"
  unfolding trim_oldest_drop by (rule set_drop_subset)

lemma trim_oldest_lookup:
  assumes "bt_wf m" and "map_of (trim_oldest cap m) k = Some v"
  shows "map_of m k = Some v"
  using assms trim_oldest_subset [of cap m] bt_wf_map_of [of m "(k, v)"] bt_wf_map_of [OF trim_oldest_wf [OF assms(1)], of "(k, v)"]
  by auto

lemma bt_insert_present:
  assumes "bt_wf m" and "map_of m k = Some w"
  shows "bt_insert k w m = m" and "length (bt_insert k v m) = length m"
proof -
  have "bt_insert k w m = m \<and> length (bt_insert k v m) = length m"
    using assms
  proof (induction m)
    case (Cons e m)
    have "fst e < k" if "fst e \<noteq> k"
      using Cons.prems that map_of_SomeD [of m k w] by (cases e) (auto simp: bt_wf_Cons split: if_splits)
    then show ?case using Cons by (cases e) (auto simp: bt_wf_Cons split: if_splits)
  qed simp
  then show "bt_insert k w m = m" and "length (bt_insert k v m) = length m" by simp_all
qed

lemma bt_insert_smallest:
  "bt_wf m \<Longrightarrow> \<forall>x \<in> fst ` set m. k < x \<Longrightarrow> bt_insert k v m = (k, v) # m"
  by (cases m) auto

text \<open>A key below all keys of a full map is dropped as soon as it is inserted.\<close>

lemma trim_drops_smallest:
  assumes "bt_wf m" and "length m = cap" and "\<forall>x \<in> fst ` set m. k < x"
  shows "trim_oldest cap (bt_insert k v m) = m"
  using assms by (simp add: bt_insert_smallest trim_oldest_drop)

section \<open>Keys\<close>

text \<open>The handlers derive the order of their keys from the fields: by nonce, then by user.\<close>

datatype pending_key = PendingKey (pk_nonce: nat) (pk_user: address)

instantiation pending_key :: linorder
begin

definition less_eq_pending_key :: "pending_key \<Rightarrow> pending_key \<Rightarrow> bool" where
  "less_eq_pending_key a b \<longleftrightarrow> pk_nonce a < pk_nonce b \<or> pk_nonce a = pk_nonce b \<and> pk_user a \<le> pk_user b"

definition less_pending_key :: "pending_key \<Rightarrow> pending_key \<Rightarrow> bool" where
  "less_pending_key a b \<longleftrightarrow> pk_nonce a < pk_nonce b \<or> pk_nonce a = pk_nonce b \<and> pk_user a < pk_user b"

instance
  by standard (auto simp: less_eq_pending_key_def less_pending_key_def pending_key.expand)

end

type_synonym bytes32 = "256 word"

section \<open>Signatures of a withdrawal\<close>

definition BRIDGE_WITHDRAWAL_USD_LIMIT_EXCLUSIVE :: nat where
  "BRIDGE_WITHDRAWAL_USD_LIMIT_EXCLUSIVE = 0xCCCCCCCCCCCCCCCD"

definition MAX_TRACKED_PENDING_WITHDRAWALS :: nat where
  "MAX_TRACKED_PENDING_WITHDRAWALS = 100"

definition MAINNET_BRIDGE_CHAIN_ID :: nat where
  "MAINNET_BRIDGE_CHAIN_ID = 42161"

definition TESTNET_BRIDGE_CHAIN_ID :: nat where
  "TESTNET_BRIDGE_CHAIN_ID = 421614"

type_synonym withdrawal_data = "nat list"

record sign_withdrawal_action =
  sw_usd :: nat
  sw_nonce :: nat
  sw_withdrawal_data :: withdrawal_data
  sw_user :: address
  sw_destination :: address

record recorded_validator_signature =
  rs_signer :: address
  rs_witness :: withdrawal_data

record pending_signed_withdrawal =
  ps_withdrawal :: withdrawal
  ps_validator_slot_to_signature :: "(bytes32, recorded_validator_signature) btree"

type_synonym pending_withdrawal_signatures = "(pending_key, pending_signed_withdrawal) btree"

datatype sign_withdrawal_error =
  SignAmountOverflow nat | BadSignature | SignerMismatch address address
| DuplicateValidatorSignature pending_key bytes32 | RawStatus nat

definition sign_error_status :: "sign_withdrawal_error \<Rightarrow> nat" where
  "sign_error_status e = (case e of SignAmountOverflow _ \<Rightarrow> 319 | BadSignature \<Rightarrow> 122 | SignerMismatch _ _ \<Rightarrow> 287
     | DuplicateValidatorSignature _ _ \<Rightarrow> 144 | RawStatus status \<Rightarrow> status)"

definition record_signature ::
  "pending_key \<Rightarrow> withdrawal \<Rightarrow> bytes32 \<Rightarrow> address \<Rightarrow> withdrawal_data \<Rightarrow> pending_withdrawal_signatures \<Rightarrow>
   pending_withdrawal_signatures \<times> (sign_withdrawal_error + unit)" where
  "record_signature key w slot signer witness m =
     (let entry = (case map_of m key of
            Some entry \<Rightarrow> entry | None \<Rightarrow> \<lparr>ps_withdrawal = w, ps_validator_slot_to_signature = []\<rparr>)
      in if bt_contains (ps_validator_slot_to_signature entry) slot
         then (bt_insert key entry m, Inl (DuplicateValidatorSignature key slot))
         else (trim_oldest MAX_TRACKED_PENDING_WITHDRAWALS
                 (bt_insert key (entry\<lparr>ps_withdrawal := w,
                    ps_validator_slot_to_signature :=
                      bt_insert slot \<lparr>rs_signer = signer, rs_witness = witness\<rparr> (ps_validator_slot_to_signature entry)\<rparr>) m),
               Inr ()))"

record bridge_request_hash =
  br_tag :: nat
  br_payload_hash :: bytes32
  br_chain_id :: nat

definition bridge_chain_id :: "nat \<Rightarrow> nat" where
  "bridge_chain_id chain_discriminant =
     (if chain_discriminant = 3 then MAINNET_BRIDGE_CHAIN_ID else TESTNET_BRIDGE_CHAIN_ID)"

definition build_bridge_request :: "(sign_withdrawal_action \<Rightarrow> bytes32) \<Rightarrow> nat \<Rightarrow> sign_withdrawal_action \<Rightarrow> bridge_request_hash" where
  "build_bridge_request build_hash chain_discriminant action =
     \<lparr>br_tag = of_char (CHR ''a''), br_payload_hash = build_hash action, br_chain_id = bridge_chain_id chain_discriminant\<rparr>"

text \<open>
  The parameters of the handler: the lookup of the validator slot in the state (which does not change it),
  the hash of a request and the recovery of its signer.
\<close>

definition apply_validator_sign_withdrawal ::
  "('c \<Rightarrow> sign_withdrawal_error + bytes32) \<Rightarrow> (sign_withdrawal_action \<Rightarrow> bytes32) \<Rightarrow>
   (bridge_request_hash \<Rightarrow> withdrawal_data \<Rightarrow> address option) \<Rightarrow> address \<Rightarrow> nat \<Rightarrow> 'c \<Rightarrow> sign_withdrawal_action \<Rightarrow>
   pending_withdrawal_signatures \<Rightarrow> pending_withdrawal_signatures \<times> (sign_withdrawal_error + unit)" where
  "apply_validator_sign_withdrawal resolve_slot build_hash recover signer chain_discriminant ctx action m =
     (if BRIDGE_WITHDRAWAL_USD_LIMIT_EXCLUSIVE \<le> sw_usd action then (m, Inl (SignAmountOverflow (sw_usd action)))
      else case resolve_slot ctx of
        Inl e \<Rightarrow> (m, Inl e)
      | Inr slot \<Rightarrow>
          (case recover (build_bridge_request build_hash chain_discriminant action) (sw_withdrawal_data action) of
             None \<Rightarrow> (m, Inl BadSignature)
           | Some recovered \<Rightarrow>
               (if recovered \<noteq> signer then (m, Inl (SignerMismatch recovered signer))
                else record_signature (PendingKey (sw_nonce action) (sw_user action))
                       \<lparr>wd_usd = sw_usd action, wd_destination = sw_destination action\<rparr> slot signer (sw_withdrawal_data action) m)))"

section \<open>Votes that a withdrawal is final\<close>

definition MAX_TRACKED_FINALIZED_WITHDRAWALS :: nat where
  "MAX_TRACKED_FINALIZED_WITHDRAWALS = 100"

record vote_finalized_action =
  va_eth_tx_hash :: bytes32
  va_nonce :: nat
  va_usd :: nat
  va_user :: address
  va_destination :: address

record candidate_votes =
  cv_voters :: "bytes32 bset"

record pending_finalized_votes =
  pf_by_eth_tx_hash :: "(bytes32, candidate_votes) btree"

record vote_bridge =
  vb_withdrawal_signatures :: "(pending_key, withdrawal) btree"
  vb_withdrawal_finalized_votes :: "(pending_key, pending_finalized_votes) btree"
  vb_finished_withdrawal_to_time :: "(pending_key, nat) btree"
  vb_bal :: nat

record vote_state =
  vx_active_validator_votes :: "(address, bytes32) btree"
  vx_bridge2 :: vote_bridge

text \<open>The telemetry event, with the amounts before their conversion to floating point.\<close>

record finalized_withdrawal_event =
  fe_usd :: nat
  fe_nonce :: nat
  fe_bridge_balance_usd :: nat
  fe_user :: address

datatype vote_finalized_error = VoteAmountOverflow nat | ValidatorLookup nat | PendingWithdrawalMissingOrMismatched

definition vote_error_status :: "vote_finalized_error \<Rightarrow> nat" where
  "vote_error_status e = (case e of VoteAmountOverflow _ \<Rightarrow> 319 | ValidatorLookup status \<Rightarrow> status
     | PendingWithdrawalMissingOrMismatched \<Rightarrow> 144)"

definition pending_withdrawal_matches :: "vote_bridge \<Rightarrow> pending_key \<Rightarrow> withdrawal \<Rightarrow> bool" where
  "pending_withdrawal_matches b key w \<longleftrightarrow> map_of (vb_withdrawal_signatures b) key = Some w"

definition voters_of :: "vote_bridge \<Rightarrow> pending_key \<Rightarrow> bytes32 \<Rightarrow> bytes32 bset" where
  "voters_of b key hash =
     (case map_of (vb_withdrawal_finalized_votes b) key of
        None \<Rightarrow> []
      | Some p \<Rightarrow> (case map_of (pf_by_eth_tx_hash p) hash of None \<Rightarrow> [] | Some c \<Rightarrow> cv_voters c))"

definition record_finalized_vote ::
  "(bytes32 bset \<Rightarrow> bool) \<Rightarrow> pending_key \<Rightarrow> bytes32 \<Rightarrow> bytes32 \<Rightarrow> vote_bridge \<Rightarrow> vote_bridge \<times> bool" where
  "record_finalized_vote reaches_finality key hash voter b =
     (let p = (case map_of (vb_withdrawal_finalized_votes b) key of None \<Rightarrow> \<lparr>pf_by_eth_tx_hash = []\<rparr> | Some p \<Rightarrow> p);
          voters = bs_insert voter (voters_of b key hash);
          p' = p\<lparr>pf_by_eth_tx_hash := bt_insert hash \<lparr>cv_voters = voters\<rparr> (pf_by_eth_tx_hash p)\<rparr>
      in (b\<lparr>vb_withdrawal_finalized_votes :=
             trim_oldest MAX_TRACKED_FINALIZED_WITHDRAWALS (bt_insert key p' (vb_withdrawal_finalized_votes b))\<rparr>,
          reaches_finality voters))"

definition vote_finalize_withdrawal :: "pending_key \<Rightarrow> nat \<Rightarrow> vote_bridge \<Rightarrow> vote_bridge" where
  "vote_finalize_withdrawal key now_ms b =
     b\<lparr>vb_finished_withdrawal_to_time := bt_insert key now_ms (vb_finished_withdrawal_to_time b),
       vb_withdrawal_signatures := bt_remove key (vb_withdrawal_signatures b),
       vb_withdrawal_finalized_votes := bt_remove key (vb_withdrawal_finalized_votes b)\<rparr>"

definition apply_vote_eth_finalized_withdrawal ::
  "(vote_state \<Rightarrow> address \<Rightarrow> nat + bytes32) \<Rightarrow> (bytes32 bset \<Rightarrow> bool) \<Rightarrow> address \<Rightarrow> vote_finalized_action \<Rightarrow> nat \<Rightarrow>
   vote_state \<Rightarrow> vote_state \<times> (vote_finalized_error + finalized_withdrawal_event option)" where
  "apply_vote_eth_finalized_withdrawal vote_key reaches_finality signer action now_ms s =
     (if 0xCCCCCCCCCCCCCCCC \<le> va_usd action then (s, Inl (VoteAmountOverflow (va_usd action)))
      else case vote_key s signer of
        Inl status \<Rightarrow> (s, Inl (ValidatorLookup status))
      | Inr voter \<Rightarrow>
          (let key = PendingKey (va_nonce action) (va_user action);
               w = \<lparr>wd_usd = va_usd action, wd_destination = va_destination action\<rparr>
           in if \<not> pending_withdrawal_matches (vx_bridge2 s) key w then (s, Inl PendingWithdrawalMissingOrMismatched)
              else case record_finalized_vote reaches_finality key (va_eth_tx_hash action) voter (vx_bridge2 s) of
                (b, finalized) \<Rightarrow>
                  (if finalized
                   then (s\<lparr>vx_bridge2 := vote_finalize_withdrawal key now_ms b\<rparr>,
                         Inr (Some \<lparr>fe_usd = va_usd action, fe_nonce = va_nonce action,
                           fe_bridge_balance_usd = vb_bal b, fe_user = va_user action\<rparr>))
                   else (s\<lparr>vx_bridge2 := b\<rparr>, Inr None))))"

section \<open>Recorded signatures are verified\<close>

definition verified_signature ::
  "(sign_withdrawal_action \<Rightarrow> bytes32) \<Rightarrow> (bridge_request_hash \<Rightarrow> withdrawal_data \<Rightarrow> address option) \<Rightarrow> nat \<Rightarrow>
   pending_key \<Rightarrow> recorded_validator_signature \<Rightarrow> bool" where
  "verified_signature build_hash recover chain key sig \<longleftrightarrow>
     (\<exists>action. PendingKey (sw_nonce action) (sw_user action) = key \<and> sw_withdrawal_data action = rs_witness sig \<and>
        sw_usd action < BRIDGE_WITHDRAWAL_USD_LIMIT_EXCLUSIVE \<and>
        recover (build_bridge_request build_hash chain action) (rs_witness sig) = Some (rs_signer sig))"

definition signatures_ok ::
  "(pending_key \<Rightarrow> recorded_validator_signature \<Rightarrow> bool) \<Rightarrow> pending_withdrawal_signatures \<Rightarrow> bool" where
  "signatures_ok ok m \<longleftrightarrow> bt_wf m \<and>
     (\<forall>key entry slot sig. map_of m key = Some entry \<longrightarrow> map_of (ps_validator_slot_to_signature entry) slot = Some sig \<longrightarrow> ok key sig)"

lemma record_signature_ok:
  assumes "signatures_ok ok m" and "ok key \<lparr>rs_signer = signer, rs_witness = witness\<rparr>"
    and "record_signature key w slot signer witness m = (m', res)"
  shows "signatures_ok ok m'" and "length m \<le> MAX_TRACKED_PENDING_WITHDRAWALS \<Longrightarrow> length m' \<le> MAX_TRACKED_PENDING_WITHDRAWALS"
proof -
  let ?old = "case map_of m key of Some entry \<Rightarrow> entry | None \<Rightarrow> \<lparr>ps_withdrawal = w, ps_validator_slot_to_signature = []\<rparr>"
  have wf: "bt_wf m" and old: "\<And>s sig. map_of (ps_validator_slot_to_signature ?old) s = Some sig \<Longrightarrow> ok key sig"
    using assms(1) by (auto simp: signatures_ok_def split: option.splits)
  have insert: "signatures_ok ok (bt_insert key entry m)"
    if "\<And>s sig. map_of (ps_validator_slot_to_signature entry) s = Some sig \<Longrightarrow> ok key sig" for entry
    using assms(1) that by (auto simp: signatures_ok_def)
  have trim: "signatures_ok ok (trim_oldest cap x)" if "signatures_ok ok x" for cap x
    using that trim_oldest_wf trim_oldest_lookup unfolding signatures_ok_def by metis
  let ?new = "?old\<lparr>ps_withdrawal := w, ps_validator_slot_to_signature :=
      bt_insert slot \<lparr>rs_signer = signer, rs_witness = witness\<rparr> (ps_validator_slot_to_signature ?old)\<rparr>"
  have "signatures_ok ok (bt_insert key ?new m)" by (rule insert) (use old assms(2) in \<open>auto split: if_splits\<close>)
  then show "signatures_ok ok m'"
    using assms(3) insert [OF old] trim unfolding record_signature_def Let_def by (auto split: if_splits)
  have "bt_insert key ?old m = m" if "bt_contains (ps_validator_slot_to_signature ?old) slot"
  proof -
    have "map_of m key = Some ?old" using that by (auto simp: bt_contains_def split: option.splits)
    with wf show ?thesis by (rule bt_insert_present)
  qed
  then show "length m \<le> MAX_TRACKED_PENDING_WITHDRAWALS \<Longrightarrow> length m' \<le> MAX_TRACKED_PENDING_WITHDRAWALS"
    using assms(3) unfolding record_signature_def Let_def by (auto simp: trim_oldest_drop split: if_splits)
qed

inductive sign_step ::
  "('c \<Rightarrow> sign_withdrawal_error + bytes32) \<Rightarrow> (sign_withdrawal_action \<Rightarrow> bytes32) \<Rightarrow>
   (bridge_request_hash \<Rightarrow> withdrawal_data \<Rightarrow> address option) \<Rightarrow> nat \<Rightarrow>
   pending_withdrawal_signatures \<Rightarrow> pending_withdrawal_signatures \<Rightarrow> bool"
  for resolve_slot build_hash recover chain where
  "apply_validator_sign_withdrawal resolve_slot build_hash recover signer chain ctx action m = (m', res) \<Longrightarrow>
   sign_step resolve_slot build_hash recover chain m m'"

interpretation signing: invariant_system "sign_step resolve_slot build_hash recover chain"
  "\<lambda>m. signatures_ok (verified_signature build_hash recover chain) m \<and> length m \<le> MAX_TRACKED_PENDING_WITHDRAWALS"
proof
  fix m m'
  assume "sign_step resolve_slot build_hash recover chain m m'"
    and inv: "signatures_ok (verified_signature build_hash recover chain) m \<and> length m \<le> MAX_TRACKED_PENDING_WITHDRAWALS"
  then obtain signer ctx action res where
    run: "apply_validator_sign_withdrawal resolve_slot build_hash recover signer chain ctx action m = (m', res)"
    by (auto elim: sign_step.cases)
  let ?key = "PendingKey (sw_nonce action) (sw_user action)"
  consider "m' = m" | slot w where "record_signature ?key w slot signer (sw_withdrawal_data action) m = (m', res)"
      "recover (build_bridge_request build_hash chain action) (sw_withdrawal_data action) = Some signer"
      "sw_usd action < BRIDGE_WITHDRAWAL_USD_LIMIT_EXCLUSIVE"
    using run by (auto simp: apply_validator_sign_withdrawal_def split: if_splits sum.splits option.splits)
  then show "signatures_ok (verified_signature build_hash recover chain) m' \<and> length m' \<le> MAX_TRACKED_PENDING_WITHDRAWALS"
  proof cases
    case 2
    have "verified_signature build_hash recover chain ?key \<lparr>rs_signer = signer, rs_witness = sw_withdrawal_data action\<rparr>"
      unfolding verified_signature_def by (rule exI [of _ action]) (simp add: 2)
    then show ?thesis using record_signature_ok [OF _ _ 2(1)] inv by blast
  qed (use inv in simp)
qed

text \<open>Every signature in the table of pending withdrawals was recovered to its signer from a request for the
  same user and nonce within the amount limit, whatever validators submitted, and the table never holds
  more than 100 withdrawals.\<close>

lemma recorded_signatures_verified:
  assumes "(sign_step resolve_slot build_hash recover chain)\<^sup>*\<^sup>* [] m"
  shows "length m \<le> 100 \<and>
    (\<forall>key entry slot sig. map_of m key = Some entry \<longrightarrow> map_of (ps_validator_slot_to_signature entry) slot = Some sig \<longrightarrow>
      (\<exists>action. PendingKey (sw_nonce action) (sw_user action) = key \<and> sw_withdrawal_data action = rs_witness sig \<and>
        sw_usd action < 0xCCCCCCCCCCCCCCCD \<and>
        recover (build_bridge_request build_hash chain action) (rs_witness sig) = Some (rs_signer sig)))"
  using signing.run_invar [OF assms]
  by (simp add: signatures_ok_def verified_signature_def MAX_TRACKED_PENDING_WITHDRAWALS_def BRIDGE_WITHDRAWAL_USD_LIMIT_EXCLUSIVE_def)

text \<open>A second validator replaces the amount and destination of a pending withdrawal while the signature
  of the first, made for another amount or destination, stays with it.\<close>

lemma later_signature_replaces_withdrawal:
  assumes "map_of m key = Some entry" and "map_of (ps_validator_slot_to_signature entry) slot1 = Some sig1" and "bt_wf m"
    and "length m \<le> 100" and "map_of (ps_validator_slot_to_signature entry) slot2 = None"
  shows "\<exists>m' entry'. record_signature key w2 slot2 signer2 witness2 m = (m', Inr ()) \<and> map_of m' key = Some entry' \<and>
    ps_withdrawal entry' = w2 \<and> map_of (ps_validator_slot_to_signature entry') slot1 = Some sig1"
proof -
  note len = bt_insert_present(2) [OF assms(3,1)]
  show ?thesis
    using assms by (auto simp: record_signature_def bt_contains_def trim_oldest_drop len MAX_TRACKED_PENDING_WITHDRAWALS_def)
qed

section \<open>Finalisation needs the votes\<close>

text \<open>A run of accepted votes, with the set of votes cast so far; new withdrawals may appear in between.\<close>

inductive vote_run ::
  "(vote_state \<Rightarrow> address \<Rightarrow> nat + bytes32) \<Rightarrow> (bytes32 bset \<Rightarrow> bool) \<Rightarrow> vote_state \<Rightarrow>
   (pending_key \<times> bytes32 \<times> bytes32) set \<Rightarrow> bool"
  for vote_key reaches_finality where
  start: "vb_withdrawal_finalized_votes (vx_bridge2 s) = [] \<Longrightarrow> vote_run vote_key reaches_finality s {}"
| vote: "\<lbrakk>vote_run vote_key reaches_finality s cast; vote_key s signer = Inr voter;
     apply_vote_eth_finalized_withdrawal vote_key reaches_finality signer action now_ms s = (s', Inr ev)\<rbrakk> \<Longrightarrow>
     vote_run vote_key reaches_finality s' (insert (PendingKey (va_nonce action) (va_user action), va_eth_tx_hash action, voter) cast)"
| other: "\<lbrakk>vote_run vote_key reaches_finality s cast;
     vb_withdrawal_finalized_votes (vx_bridge2 s') = vb_withdrawal_finalized_votes (vx_bridge2 s)\<rbrakk> \<Longrightarrow>
     vote_run vote_key reaches_finality s' cast"

definition votes_cast :: "vote_bridge \<Rightarrow> (pending_key \<times> bytes32 \<times> bytes32) set \<Rightarrow> bool" where
  "votes_cast b cast \<longleftrightarrow> bt_wf (vb_withdrawal_finalized_votes b) \<and>
     (\<forall>key hash voter. voter \<in> set (voters_of b key hash) \<longrightarrow> (key, hash, voter) \<in> cast)"

lemma record_vote_cast:
  assumes "votes_cast b cast" and "record_finalized_vote reaches_finality key hash voter b = (b', fin)"
  shows "votes_cast b' (insert (key, hash, voter) cast)"
proof -
  let ?m = "vb_withdrawal_finalized_votes b"
  let ?p = "case map_of ?m key of None \<Rightarrow> \<lparr>pf_by_eth_tx_hash = []\<rparr> | Some p \<Rightarrow> p"
  let ?p' = "?p\<lparr>pf_by_eth_tx_hash := bt_insert hash \<lparr>cv_voters = bs_insert voter (voters_of b key hash)\<rparr> (pf_by_eth_tx_hash ?p)\<rparr>"
  have b': "b' = b\<lparr>vb_withdrawal_finalized_votes := trim_oldest MAX_TRACKED_FINALIZED_WITHDRAWALS (bt_insert key ?p' ?m)\<rparr>"
    using assms(2) by (simp add: record_finalized_vote_def Let_def)
  have wf: "bt_wf ?m" using assms(1) by (simp add: votes_cast_def)
  have voters: "voters_of b' k h = [] \<or>
      voters_of b' k h = (if k = key \<and> h = hash then bs_insert voter (voters_of b key hash) else voters_of b k h)" for k h
  proof (cases "map_of (vb_withdrawal_finalized_votes b') k")
    case None
    then show ?thesis by (simp add: voters_of_def)
  next
    case (Some q)
    have "map_of (bt_insert key ?p' ?m) k = Some q"
      by (rule trim_oldest_lookup [where cap = MAX_TRACKED_FINALIZED_WITHDRAWALS]) (use wf Some b' in simp_all)
    then show ?thesis using Some by (auto simp: voters_of_def split: if_splits option.splits)
  qed
  have "bt_wf (vb_withdrawal_finalized_votes b')" unfolding b' using trim_oldest_wf [OF bt_wf_insert [OF wf]] by simp
  moreover have "(k, h, v) \<in> insert (key, hash, voter) cast" if "v \<in> set (voters_of b' k h)" for k h v
    using voters [of k h] that assms(1) by (auto simp: votes_cast_def split: if_splits)
  ultimately show ?thesis unfolding votes_cast_def by blast
qed

lemma finalize_vote_cast: "votes_cast b cast \<Longrightarrow> votes_cast (vote_finalize_withdrawal key now b) cast"
  by (auto simp: votes_cast_def vote_finalize_withdrawal_def voters_of_def split: if_splits)

lemma vote_run_cast: "vote_run vote_key reaches_finality s cast \<Longrightarrow> votes_cast (vx_bridge2 s) cast"
proof (induction rule: vote_run.induct)
  case (start s)
  then show ?case by (simp add: votes_cast_def voters_of_def)
next
  case (vote s cast signer voter action now_ms s' ev)
  obtain b fin where r: "record_finalized_vote reaches_finality (PendingKey (va_nonce action) (va_user action))
      (va_eth_tx_hash action) voter (vx_bridge2 s) = (b, fin)" by force
  then show ?case
    using vote record_vote_cast [OF vote.IH r] finalize_vote_cast
    by (auto simp: apply_vote_eth_finalized_withdrawal_def Let_def split: if_splits)
next
  case (other s cast s')
  then show ?case by (simp add: votes_cast_def voters_of_def)
qed

text \<open>C29. A withdrawal is finalised only by its votes: when a vote finalises it, the withdrawal was pending with
  exactly the voted amount and destination, and the set that satisfied the quorum rule consists of validators
  that voted for this withdrawal and this transaction; afterwards it is no longer pending and is on file.\<close>

theorem finalized_only_by_votes:
  assumes "vote_run vote_key reaches_finality s cast" and "vote_key s signer = Inr voter"
    and "apply_vote_eth_finalized_withdrawal vote_key reaches_finality signer action now_ms s = (s', Inr (Some ev))"
  defines "key \<equiv> PendingKey (va_nonce action) (va_user action)"
  shows "map_of (vb_withdrawal_signatures (vx_bridge2 s)) key = Some \<lparr>wd_usd = va_usd action, wd_destination = va_destination action\<rparr> \<and>
    (\<exists>voters. reaches_finality voters \<and>
      (\<forall>v \<in> set voters. (key, va_eth_tx_hash action, v) \<in> insert (key, va_eth_tx_hash action, voter) cast)) \<and>
    map_of (vb_withdrawal_signatures (vx_bridge2 s')) key = None \<and>
    map_of (vb_finished_withdrawal_to_time (vx_bridge2 s')) key = Some now_ms"
proof -
  let ?vs = "bs_insert voter (voters_of (vx_bridge2 s) key (va_eth_tx_hash action))"
  have match: "pending_withdrawal_matches (vx_bridge2 s) key \<lparr>wd_usd = va_usd action, wd_destination = va_destination action\<rparr>"
    and fin: "reaches_finality ?vs"
    and s': "map_of (vb_withdrawal_signatures (vx_bridge2 s')) key = None"
      "map_of (vb_finished_withdrawal_to_time (vx_bridge2 s')) key = Some now_ms"
    using assms(2,3)
    by (auto simp: apply_vote_eth_finalized_withdrawal_def record_finalized_vote_def vote_finalize_withdrawal_def Let_def key_def
        split: if_splits)
  have "\<forall>v \<in> set ?vs. (key, va_eth_tx_hash action, v) \<in> insert (key, va_eth_tx_hash action, voter) cast"
    using vote_run_cast [OF assms(1)] by (auto simp: votes_cast_def)
  then show ?thesis using match fin s' unfolding pending_withdrawal_matches_def by blast
qed

section \<open>Starvation\<close>

fun vote_all ::
  "(vote_state \<Rightarrow> address \<Rightarrow> nat + bytes32) \<Rightarrow> (bytes32 bset \<Rightarrow> bool) \<Rightarrow> (address \<times> vote_finalized_action \<times> nat) list \<Rightarrow>
   vote_state \<Rightarrow> vote_state \<times> (vote_finalized_error + finalized_withdrawal_event option) list" where
  "vote_all vote_key reaches_finality [] s = (s, [])"
| "vote_all vote_key reaches_finality ((signer, action, now_ms) # votes) s =
     (case apply_vote_eth_finalized_withdrawal vote_key reaches_finality signer action now_ms s of
        (s1, r) \<Rightarrow> (case vote_all vote_key reaches_finality votes s1 of (s2, rs) \<Rightarrow> (s2, r # rs)))"

lemma starved_vote:
  assumes "bt_wf (vb_withdrawal_finalized_votes (vx_bridge2 s))" and "length (vb_withdrawal_finalized_votes (vx_bridge2 s)) = 100"
    and "\<forall>k \<in> fst ` set (vb_withdrawal_finalized_votes (vx_bridge2 s)). PendingKey (va_nonce action) (va_user action) < k"
    and "\<forall>v. \<not> reaches_finality [v]"
  shows "\<exists>r. apply_vote_eth_finalized_withdrawal vote_key reaches_finality signer action now_ms s = (s, r) \<and> (\<forall>ev. r \<noteq> Inr (Some ev))"
proof -
  let ?key = "PendingKey (va_nonce action) (va_user action)"
  have "map_of (vb_withdrawal_finalized_votes (vx_bridge2 s)) ?key = None"
    using assms(3) by (auto simp: map_of_eq_None_iff)
  then have "voters_of (vx_bridge2 s) ?key hash = []" for hash by (simp add: voters_of_def)
  then have "record_finalized_vote reaches_finality ?key hash voter (vx_bridge2 s) = (vx_bridge2 s, False)" for hash voter
    using assms(4) trim_drops_smallest [OF assms(1,2,3)]
    by (simp add: record_finalized_vote_def Let_def MAX_TRACKED_FINALIZED_WITHDRAWALS_def)
  then show ?thesis by (simp add: apply_vote_eth_finalized_withdrawal_def Let_def split: sum.split)
qed

text \<open>A withdrawal can be starved: while 100 withdrawals with larger keys hold votes, every vote for a smaller key
  is accepted and dropped at once, so no number of votes by any validators ever finalises it, unless a single
  vote is a quorum.\<close>

lemma starved_withdrawal_never_finalizes:
  assumes "bt_wf (vb_withdrawal_finalized_votes (vx_bridge2 s))" and "length (vb_withdrawal_finalized_votes (vx_bridge2 s)) = 100"
    and "\<forall>k \<in> fst ` set (vb_withdrawal_finalized_votes (vx_bridge2 s)). key < k" and "\<forall>v. \<not> reaches_finality [v]"
    and "\<forall>(signer, action, now_ms) \<in> set votes. PendingKey (va_nonce action) (va_user action) = key"
  shows "\<exists>rs. vote_all vote_key reaches_finality votes s = (s, rs) \<and> (\<forall>ev. Inr (Some ev) \<notin> set rs)"
  using assms(5)
proof (induction votes)
  case (Cons v votes)
  obtain signer action now_ms where v: "v = (signer, action, now_ms)" by (cases v)
  obtain rs where "vote_all vote_key reaches_finality votes s = (s, rs)" "\<forall>ev. Inr (Some ev) \<notin> set rs"
    using Cons by auto
  moreover obtain r where "apply_vote_eth_finalized_withdrawal vote_key reaches_finality signer action now_ms s = (s, r)"
      "\<forall>ev. r \<noteq> Inr (Some ev)"
    using starved_vote [of s action reaches_finality vote_key signer now_ms] assms(1-4) Cons.prems v by auto
  ultimately show ?case using v by auto
qed simp

section \<open>Witnesses\<close>

definition example_sign :: "nat \<Rightarrow> sign_withdrawal_action" where
  "example_sign usd = \<lparr>sw_usd = usd, sw_nonce = 3, sw_withdrawal_data = [1], sw_user = 4, sw_destination = 5\<rparr>"

lemma recorded_signatures_verified_witness:
  "length (fst (apply_validator_sign_withdrawal (\<lambda>c :: unit. Inr 8) (\<lambda>a. 0) (\<lambda>r w. Some 2) 2 3 () (example_sign 10) [])) \<le> 100"
proof -
  let ?apply = "apply_validator_sign_withdrawal (\<lambda>c :: unit. Inr 8) (\<lambda>a. 0) (\<lambda>r w. Some 2) 2 3 () (example_sign 10) []"
  obtain m res where run: "?apply = (m, res)" by force
  then have "(sign_step (\<lambda>c :: unit. Inr 8) (\<lambda>a. 0) (\<lambda>r w. Some 2) 3)\<^sup>*\<^sup>* [] m"
    by (blast intro: sign_step.intros r_into_rtranclp)
  from recorded_signatures_verified [OF this] run show ?thesis by simp
qed

lemma later_signature_replaces_withdrawal_witness:
  "\<exists>m' entry'. record_signature (PendingKey 3 4) \<lparr>wd_usd = 99, wd_destination = 6\<rparr> 9 7 [2]
      [(PendingKey 3 4, \<lparr>ps_withdrawal = \<lparr>wd_usd = 10, wd_destination = 5\<rparr>,
         ps_validator_slot_to_signature = [(8, \<lparr>rs_signer = 2, rs_witness = [1]\<rparr>)]\<rparr>)] = (m', Inr ()) \<and>
     map_of m' (PendingKey 3 4) = Some entry' \<and> ps_withdrawal entry' = \<lparr>wd_usd = 99, wd_destination = 6\<rparr>"
  using later_signature_replaces_withdrawal [of "[(PendingKey 3 4, \<lparr>ps_withdrawal = \<lparr>wd_usd = 10, wd_destination = 5\<rparr>,
         ps_validator_slot_to_signature = [(8, \<lparr>rs_signer = 2, rs_witness = [1]\<rparr>)]\<rparr>)]" "PendingKey 3 4"
      "\<lparr>ps_withdrawal = \<lparr>wd_usd = 10, wd_destination = 5\<rparr>,
         ps_validator_slot_to_signature = [(8, \<lparr>rs_signer = 2, rs_witness = [1]\<rparr>)]\<rparr>" 8 "\<lparr>rs_signer = 2, rs_witness = [1]\<rparr>" 9
      "\<lparr>wd_usd = 99, wd_destination = 6\<rparr>" 7 "[2]"]
  by (auto simp: bt_wf_def)

definition vote_start :: vote_state where
  "vote_start = \<lparr>vx_active_validator_votes = [], vx_bridge2 =
     \<lparr>vb_withdrawal_signatures = [(PendingKey 3 4, \<lparr>wd_usd = 10, wd_destination = 5\<rparr>)], vb_withdrawal_finalized_votes = [],
      vb_finished_withdrawal_to_time = [], vb_bal = 0\<rparr>\<rparr>"

definition example_vote :: vote_finalized_action where
  "example_vote = \<lparr>va_eth_tx_hash = 1, va_nonce = 3, va_usd = 10, va_user = 4, va_destination = 5\<rparr>"

theorem finalized_only_by_votes_witness:
  "map_of (vb_finished_withdrawal_to_time (vx_bridge2 (fst (apply_vote_eth_finalized_withdrawal (\<lambda>s signer. Inr 7) (\<lambda>vs. vs \<noteq> [])
     2 example_vote 55 vote_start)))) (PendingKey 3 4) = Some 55"
proof -
  have run: "vote_run (\<lambda>s signer. Inr 7) (\<lambda>vs. vs \<noteq> []) vote_start {}"
    by (rule vote_run.start) (simp add: vote_start_def)
  have "apply_vote_eth_finalized_withdrawal (\<lambda>s signer. Inr 7) (\<lambda>vs. vs \<noteq> []) 2 example_vote 55 vote_start =
      (fst (apply_vote_eth_finalized_withdrawal (\<lambda>s signer. Inr 7) (\<lambda>vs. vs \<noteq> []) 2 example_vote 55 vote_start),
       Inr (Some \<lparr>fe_usd = 10, fe_nonce = 3, fe_bridge_balance_usd = 0, fe_user = 4\<rparr>))"
    by (simp add: apply_vote_eth_finalized_withdrawal_def example_vote_def vote_start_def pending_withdrawal_matches_def
        record_finalized_vote_def voters_of_def Let_def)
  from finalized_only_by_votes [OF run refl this] show ?thesis by (simp add: example_vote_def)
qed

definition crowded :: vote_state where
  "crowded = vote_start\<lparr>vx_bridge2 := (vx_bridge2 vote_start)\<lparr>vb_withdrawal_finalized_votes :=
     map (\<lambda>i. (PendingKey (10 + i) 1, \<lparr>pf_by_eth_tx_hash = []\<rparr>)) [0..<100]\<rparr>\<rparr>"

lemma starved_withdrawal_never_finalizes_witness:
  "\<exists>rs. vote_all (\<lambda>s signer. Inr (ucast signer)) (\<lambda>vs. 2 \<le> length vs) [(1, example_vote, 5), (2, example_vote, 6), (3, example_vote, 7)] crowded =
     (crowded, rs) \<and> (\<forall>ev. Inr (Some ev) \<notin> set rs)"
proof (rule starved_withdrawal_never_finalizes [where key = "PendingKey 3 4"])
  show "bt_wf (vb_withdrawal_finalized_votes (vx_bridge2 crowded))"
    by (auto simp: bt_wf_def crowded_def sorted_wrt_iff_nth_less less_pending_key_def)
  show "\<forall>k \<in> fst ` set (vb_withdrawal_finalized_votes (vx_bridge2 crowded)). PendingKey 3 4 < k"
    by (auto simp: crowded_def less_pending_key_def)
qed (simp_all add: crowded_def example_vote_def)

end
