(* ===== verification/Staking.thy ===== *)
theory Staking
  imports Rust_Prelude
begin

text \<open>
  The staking ledger of \<open>l1/staking.rs\<close>: delegations by user and validator with their running total,
  rewards, and the validator profiles of an epoch.  Every operation returns the state it leaves behind
  with its result, because the error paths do not all leave it unchanged.
\<close>

section \<open>Data\<close>

record delegations =
  dl_delegations :: "(address, nat) btree"
  dl_delegations_blocked :: bool

definition delegations_default :: delegations where
  "delegations_default = \<lparr>dl_delegations = [], dl_delegations_blocked = False\<rparr>"

record epoch_delegation =
  ed_total_delegated :: nat
  ed_delegator_to_epoch_delegation :: "(address, nat) btree"
  ed_delegations_blocked :: bool

record token_delegate_action =
  td_signature_chain_id :: nat
  td_nonce :: nat
  td_hyperliquid_chain :: string
  td_validator :: address
  td_wei :: nat
  td_is_undelegate :: bool

record c_validator_profile =
  cp_node_ip :: "string option"
  cp_name :: "string option"
  cp_description :: "string option"
  cp_commission_bps :: nat
  cp_delegations_disabled :: bool
  cp_signer :: address

datatype validator_profile =
  ValidatorProfile (vp_total_delegated: nat) (vp_validator: address) (vp_signer: address)

text \<open>The order of the vote records: by stake, then by validator, then by signer.\<close>

instantiation validator_profile :: linorder
begin

definition less_eq_validator_profile :: "validator_profile \<Rightarrow> validator_profile \<Rightarrow> bool" where
  "less_eq_validator_profile a b \<longleftrightarrow> vp_total_delegated a < vp_total_delegated b \<or>
     vp_total_delegated a = vp_total_delegated b \<and>
       (vp_validator a < vp_validator b \<or> vp_validator a = vp_validator b \<and> vp_signer a \<le> vp_signer b)"

definition less_validator_profile :: "validator_profile \<Rightarrow> validator_profile \<Rightarrow> bool" where
  "less_validator_profile a b \<longleftrightarrow> vp_total_delegated a < vp_total_delegated b \<or>
     vp_total_delegated a = vp_total_delegated b \<and>
       (vp_validator a < vp_validator b \<or> vp_validator a = vp_validator b \<and> vp_signer a < vp_signer b)"

instance
  by standard (auto simp: less_eq_validator_profile_def less_validator_profile_def validator_profile.expand)

end

record epoch_validator_state =
  ev_delegator_balances :: "(address, nat) btree"
  ev_validator :: address
  ev_signer :: address

text \<open>The validators of an epoch, in the order of the source's \<open>BTreeSet\<close>.\<close>

record staking_epoch_state =
  es_validators :: "epoch_validator_state list"

record reward_state =
  rw_unclaimed_rewards :: "(address, nat) btree"
  rw_claimed_rewards :: "(address, nat) btree"

record withdrawal_request =
  wq_destination :: address
  wq_wei :: nat
  wq_unlock_epoch :: nat

record c_staking =
  ck_user_to_delegations :: "(address, delegations) btree"
  ck_validator_to_profile :: "(address, c_validator_profile) btree"
  ck_validator_to_epoch_delegation :: "(address, epoch_delegation) btree"
  ck_delegator_to_epoch_delegation :: "(address, epoch_delegation) btree"
  ck_epoch_states :: "(nat, staking_epoch_state) btree"
  ck_rewards :: reward_state
  ck_pending_withdrawals :: "(address, withdrawal_request list) btree"
  ck_self_delegation_requirement :: nat
  ck_total_delegated :: nat
  ck_staking_epoch_duration_seconds :: nat
  ck_long_term_staking_allowed :: bool

datatype staking_error =
  EpochStateDoesNotExist | InvalidValidatorSet | DelegateAmountCannotBeZero | DelegateInsufficientBalance
| DelegateValidatorDisabled | UndelegateInsufficientBalance | UndelegateLocked | CWithdrawInsufficientBalance
| CStakingTooManyWithdrawals | UnregisterCValidatorWithDelegations | SelfDelegationInsufficient | ArithmeticOverflow

definition staking_error_tag :: "staking_error \<Rightarrow> nat" where
  "staking_error_tag e = (case e of EpochStateDoesNotExist \<Rightarrow> 151 | InvalidValidatorSet \<Rightarrow> 53 | _ \<Rightarrow> 0)"

record epoch_profiles =
  ep_profiles :: "validator_profile bset"
  ep_epoch :: nat

section \<open>Delegations\<close>

definition user_delegations :: "c_staking \<Rightarrow> address \<Rightarrow> delegations" where
  "user_delegations s user = (case map_of (ck_user_to_delegations s) user of None \<Rightarrow> delegations_default | Some d \<Rightarrow> d)"

definition put_delegation :: "address \<Rightarrow> address \<Rightarrow> nat \<Rightarrow> c_staking \<Rightarrow> c_staking" where
  "put_delegation user validator wei s =
     (let d = user_delegations s user
      in s\<lparr>ck_user_to_delegations := bt_insert user
             (d\<lparr>dl_delegations := bt_insert validator wei (dl_delegations d)\<rparr>) (ck_user_to_delegations s)\<rparr>)"

definition delegate :: "address \<Rightarrow> address \<Rightarrow> nat \<Rightarrow> c_staking \<Rightarrow> c_staking \<times> (staking_error + unit)" where
  "delegate user validator wei s =
     (let current = (case map_of (dl_delegations (user_delegations s user)) validator of None \<Rightarrow> 0 | Some w \<Rightarrow> w)
      in case checked_add_u64 current wei of
           None \<Rightarrow> (put_delegation user validator current s, Inl ArithmeticOverflow)
         | Some w \<Rightarrow>
             (let s1 = put_delegation user validator w s
              in case checked_add_u64 (ck_total_delegated s1) wei of
                   None \<Rightarrow> (s1, Inl ArithmeticOverflow)
                 | Some tot \<Rightarrow> (s1\<lparr>ck_total_delegated := tot\<rparr>, Inr ())))"

definition undelegate :: "address \<Rightarrow> address \<Rightarrow> nat \<Rightarrow> c_staking \<Rightarrow> c_staking \<times> (staking_error + unit)" where
  "undelegate user validator wei s =
     (case map_of (ck_user_to_delegations s) user of
        None \<Rightarrow> (s, Inl UndelegateInsufficientBalance)
      | Some d \<Rightarrow>
          (if dl_delegations_blocked d then (s, Inl UndelegateLocked)
           else case map_of (dl_delegations d) validator of
             None \<Rightarrow> (s, Inl UndelegateInsufficientBalance)
           | Some current \<Rightarrow>
               (if current < wei then (s, Inl UndelegateInsufficientBalance)
                else let left = current - wei;
                         d' = d\<lparr>dl_delegations := (if left = 0 then bt_remove validator (dl_delegations d)
                                                   else bt_insert validator left (dl_delegations d))\<rparr>;
                         s1 = s\<lparr>ck_user_to_delegations := bt_insert user d' (ck_user_to_delegations s)\<rparr>
                     in case checked_sub_u64 (ck_total_delegated s1) wei of
                          None \<Rightarrow> (s1, Inl UndelegateInsufficientBalance)
                        | Some tot \<Rightarrow> (s1\<lparr>ck_total_delegated := tot\<rparr>, Inr ()))))"

definition apply_token_delegate ::
  "address \<Rightarrow> token_delegate_action \<Rightarrow> nat \<Rightarrow> c_staking \<Rightarrow> c_staking \<times> (staking_error + unit)" where
  "apply_token_delegate delegator action available_balance s =
     (if td_wei action = 0 then (s, Inl DelegateAmountCannotBeZero)
      else if td_is_undelegate action then undelegate delegator (td_validator action) (td_wei action) s
      else if available_balance < td_wei action then (s, Inl DelegateInsufficientBalance)
      else if (case map_of (ck_validator_to_profile s) (td_validator action) of
                 None \<Rightarrow> False | Some profile \<Rightarrow> cp_delegations_disabled profile)
      then (s, Inl DelegateValidatorDisabled)
      else delegate delegator (td_validator action) (td_wei action) s)"

definition claim_rewards :: "address \<Rightarrow> c_staking \<Rightarrow> c_staking \<times> nat" where
  "claim_rewards user s =
     (let rw = ck_rewards s;
          reward = (case map_of (rw_unclaimed_rewards rw) user of None \<Rightarrow> 0 | Some r \<Rightarrow> r);
          claimed = (case map_of (rw_claimed_rewards rw) user of None \<Rightarrow> 0 | Some c \<Rightarrow> c)
      in (s\<lparr>ck_rewards := \<lparr>rw_unclaimed_rewards = bt_remove user (rw_unclaimed_rewards rw),
              rw_claimed_rewards = bt_insert user (saturating_add_u64 claimed reward) (rw_claimed_rewards rw)\<rparr>\<rparr>, reward))"

definition unregister_validator :: "c_staking \<Rightarrow> address \<Rightarrow> staking_error + unit" where
  "unregister_validator s validator =
     (if list_ex (\<lambda>e. (case map_of (dl_delegations (snd e)) validator of None \<Rightarrow> 0 | Some w \<Rightarrow> w) \<noteq> 0)
           (ck_user_to_delegations s)
      then Inl UnregisterCValidatorWithDelegations else Inr ())"

section \<open>Profiles of an epoch\<close>

fun sum_balances :: "(address \<times> nat) list \<Rightarrow> nat \<Rightarrow> nat option" where
  "sum_balances [] acc = Some acc"
| "sum_balances (e # es) acc =
     (case checked_add_u64 acc (snd e) of None \<Rightarrow> None | Some acc' \<Rightarrow> sum_balances es acc')"

text \<open>\<open>None\<close> is the failed assertion that a profile was not inserted twice.\<close>

fun collect_profiles ::
  "epoch_validator_state list \<Rightarrow> validator_profile bset \<Rightarrow> (staking_error + validator_profile bset) option" where
  "collect_profiles [] profiles = Some (Inr profiles)"
| "collect_profiles (v # vs) profiles =
     (case sum_balances (ev_delegator_balances v) 0 of
        None \<Rightarrow> Some (Inl ArithmeticOverflow)
      | Some tot \<Rightarrow>
          (let p = ValidatorProfile tot (ev_validator v) (ev_signer v)
           in if p \<in> set profiles then None else collect_profiles vs (bs_insert p profiles)))"

definition validator_profiles_at_epoch :: "c_staking \<Rightarrow> nat \<Rightarrow> (staking_error + epoch_profiles) option" where
  "validator_profiles_at_epoch s epoch =
     (case map_of (ck_epoch_states s) epoch of
        None \<Rightarrow> Some (Inl EpochStateDoesNotExist)
      | Some state \<Rightarrow>
          map_option (\<lambda>r. case r of Inl e \<Rightarrow> Inl e | Inr ps \<Rightarrow> Inr \<lparr>ep_profiles = ps, ep_epoch = epoch\<rparr>)
            (collect_profiles (es_validators state) []))"

fun same_profiles :: "validator_profile list \<Rightarrow> validator_profile list \<Rightarrow> bool" where
  "same_profiles [] [] = True"
| "same_profiles (a # as) (b # bs) = (a = b \<and> same_profiles as bs)"
| "same_profiles _ _ = False"

definition validate_force_epoch_validator_profiles ::
  "c_staking \<Rightarrow> epoch_profiles \<Rightarrow> (staking_error + unit) option" where
  "validate_force_epoch_validator_profiles s expected =
     (case validator_profiles_at_epoch s (ep_epoch expected) of
        None \<Rightarrow> None
      | Some (Inl e) \<Rightarrow> Some (Inl e)
      | Some (Inr actual) \<Rightarrow>
          Some (if length (ep_profiles actual) \<noteq> length (ep_profiles expected) then Inl InvalidValidatorSet
                else if \<not> same_profiles (ep_profiles actual) (ep_profiles expected) then Inl InvalidValidatorSet
                else if ep_epoch actual = ep_epoch expected then Inr () else Inl InvalidValidatorSet))"

section \<open>The total is the sum of the delegations\<close>

definition user_weight :: "delegations \<Rightarrow> nat" where
  "user_weight d = bt_sum id (dl_delegations d)"

definition delegated :: "c_staking \<Rightarrow> address \<Rightarrow> address \<Rightarrow> nat" where
  "delegated s user validator =
     (case map_of (dl_delegations (user_delegations s user)) validator of None \<Rightarrow> 0 | Some w \<Rightarrow> w)"

definition staking_inv :: "c_staking \<Rightarrow> bool" where
  "staking_inv s \<longleftrightarrow> bt_wf (ck_user_to_delegations s) \<and>
     (\<forall>u d. map_of (ck_user_to_delegations s) u = Some d \<longrightarrow> bt_wf (dl_delegations d)) \<and>
     ck_total_delegated s = bt_sum user_weight (ck_user_to_delegations s)"

lemma user_delegations_wf: "staking_inv s \<Longrightarrow> bt_wf (dl_delegations (user_delegations s u))"
  by (auto simp: staking_inv_def user_delegations_def delegations_default_def split: option.split)

lemma user_weight_lookup: "opt_val user_weight (map_of (ck_user_to_delegations s) u) = user_weight (user_delegations s u)"
  by (simp add: user_delegations_def user_weight_def delegations_default_def split: option.split)

lemma delegated_opt: "opt_val id (map_of (dl_delegations (user_delegations s u)) v) = delegated s u v"
  by (simp add: delegated_def split: option.split)

text \<open>Replacing a user's delegations moves the total by the change of the user's weight.\<close>

lemma replace_user:
  assumes inv: "staking_inv s" and d: "bt_wf (dl_delegations d)"
    and s': "s' = s\<lparr>ck_user_to_delegations := bt_insert u d (ck_user_to_delegations s), ck_total_delegated := tot\<rparr>"
    and tot: "tot + user_weight (user_delegations s u) = ck_total_delegated s + user_weight d"
  shows "staking_inv s'"
proof -
  have wf: "bt_wf (ck_user_to_delegations s)" using inv by (simp add: staking_inv_def)
  have "bt_sum user_weight (ck_user_to_delegations s') + user_weight (user_delegations s u) =
      bt_sum user_weight (ck_user_to_delegations s) + user_weight d"
    using bt.total_insert [OF wf, of user_weight u d] unfolding s' by (simp add: user_weight_lookup)
  then have "bt_sum user_weight (ck_user_to_delegations s') = tot" using tot inv by (simp add: staking_inv_def)
  then show ?thesis using inv d unfolding s' by (auto simp: staking_inv_def)
qed

lemma delegate_cases:
  assumes inv: "staking_inv s" and run: "delegate u v wei s = (s', res)"
  obtains (ok) "res = Inr ()" and "staking_inv s'" and "ck_total_delegated s' = ck_total_delegated s + wei"
      and "\<And>x y. delegated s' x y = delegated s x y + (if x = u \<and> y = v then wei else 0)"
  | (cell_overflow) "res = Inl ArithmeticOverflow" and "u64_max < delegated s u v + wei" and "staking_inv s'"
      and "\<And>x y. delegated s' x y = delegated s x y"
  | (total_overflow) "res = Inl ArithmeticOverflow" and "delegated s u v + wei \<le> u64_max"
      and "u64_max < ck_total_delegated s + wei" and "ck_total_delegated s' = ck_total_delegated s"
      and "\<And>x y. delegated s' x y = delegated s x y + (if x = u \<and> y = v then wei else 0)"
proof -
  let ?d = "user_delegations s u"
  let ?cur = "delegated s u v"
  have dwf: "bt_wf (dl_delegations ?d)" using user_delegations_wf [OF inv] .
  have weight: "user_weight (?d\<lparr>dl_delegations := bt_insert v (?cur + w) (dl_delegations ?d)\<rparr>) = user_weight ?d + w" for w
    using bt.total_credit [OF dwf, of id "?cur + w" v w] delegated_opt [of s u v] by (simp add: user_weight_def)
  have get: "delegated (put_delegation u v (?cur + w) s) x y = delegated s x y + (if x = u \<and> y = v then w else 0)" for x y w
    by (auto simp: delegated_def put_delegation_def Let_def user_delegations_def delegations_default_def split: option.split)
  have keep: "staking_inv ((put_delegation u v (?cur + w) s)\<lparr>ck_total_delegated := ck_total_delegated s + w\<rparr>)" for w
    by (rule replace_user [OF inv _ _ , where u = u and d = "?d\<lparr>dl_delegations := bt_insert v (?cur + w) (dl_delegations ?d)\<rparr>"
          and tot = "ck_total_delegated s + w"]) (use dwf weight in \<open>simp_all add: put_delegation_def Let_def\<close>)
  have tot: "ck_total_delegated (put_delegation u v w s) = ck_total_delegated s" for w by (simp add: put_delegation_def Let_def)
  have sel: "delegated (t\<lparr>ck_total_delegated := n\<rparr>) x y = delegated t x y" for t n x y
    by (simp add: delegated_def user_delegations_def)
  have step: "delegate u v wei s = (case checked_add_u64 ?cur wei of
           None \<Rightarrow> (put_delegation u v ?cur s, Inl ArithmeticOverflow)
         | Some w \<Rightarrow> (case checked_add_u64 (ck_total_delegated s) wei of
                   None \<Rightarrow> (put_delegation u v w s, Inl ArithmeticOverflow)
                 | Some n \<Rightarrow> ((put_delegation u v w s)\<lparr>ck_total_delegated := n\<rparr>, Inr ())))"
    unfolding delegate_def Let_def delegated_def [symmetric] tot ..
  consider (a) "u64_max < ?cur + wei" | (b) "?cur + wei \<le> u64_max" "u64_max < ck_total_delegated s + wei"
    | (c) "?cur + wei \<le> u64_max" "ck_total_delegated s + wei \<le> u64_max" by linarith
  then show thesis
  proof cases
    case a
    have "staking_inv (put_delegation u v ?cur s)" using keep [of 0] by (simp add: put_delegation_def Let_def)
    then show thesis using run step a get [of 0] by (intro cell_overflow) (auto simp: checked_add_u64_def)
  next
    case b
    then show thesis using run step get [of wei] tot by (intro total_overflow) (auto simp: checked_add_u64_def)
  next
    case c
    then show thesis using run step get [of wei] keep [of wei] by (intro ok) (auto simp: checked_add_u64_def sel)
  qed
qed

lemma undelegate_cases:
  assumes inv: "staking_inv s" and run: "undelegate u v wei s = (s', res)"
  obtains (error) e where "res = Inl e" and "s' = s"
  | (ok) "res = Inr ()" and "staking_inv s'" and "wei \<le> delegated s u v"
      and "ck_total_delegated s' + wei = ck_total_delegated s"
      and "\<And>x y. delegated s' x y + (if x = u \<and> y = v then wei else 0) = delegated s x y"
proof -
  consider (no_user) "map_of (ck_user_to_delegations s) u = None"
    | (user) d where "map_of (ck_user_to_delegations s) u = Some d"
        "dl_delegations_blocked d \<or> map_of (dl_delegations d) v = None \<or> (\<exists>c. map_of (dl_delegations d) v = Some c \<and> c < wei)"
    | (enough) d c where "map_of (ck_user_to_delegations s) u = Some d" "\<not> dl_delegations_blocked d"
        "map_of (dl_delegations d) v = Some c" "wei \<le> c" by (metis not_less option.exhaust)
  then show thesis
  proof cases
    case no_user
    then show thesis using run by (intro error [of UndelegateInsufficientBalance]) (auto simp: undelegate_def)
  next
    case user
    then show thesis using run error by (auto simp: undelegate_def split: if_splits option.splits)
  next
    case enough
    let ?l = "if c - wei = 0 then bt_remove v (dl_delegations d) else bt_insert v (c - wei) (dl_delegations d)"
    let ?d = "d\<lparr>dl_delegations := ?l\<rparr>"
    have d: "user_delegations s u = d" using enough(1) by (simp add: user_delegations_def)
    have dwf: "bt_wf (dl_delegations d)" using user_delegations_wf [OF inv, of u] d by simp
    have cur: "delegated s u v = c" using d enough(3) by (simp add: delegated_def)
    have weight: "user_weight ?d + wei = user_weight d"
      using bt.total_debit [OF dwf enough(3), of id "c - wei" wei] bt.total_drop [OF dwf enough(3), of id] enough(4)
      by (auto simp: user_weight_def)
    have "user_weight d \<le> ck_total_delegated s"
      using bt.weight_le_total [of "ck_user_to_delegations s" u d user_weight] inv enough(1) by (simp add: staking_inv_def)
    then have le: "wei \<le> ck_total_delegated s" using weight by simp
    let ?s = "s\<lparr>ck_user_to_delegations := bt_insert u ?d (ck_user_to_delegations s), ck_total_delegated := ck_total_delegated s - wei\<rparr>"
    have "undelegate u v wei s = (?s, Inr ())"
      using enough le by (simp add: undelegate_def Let_def checked_sub_u64_def)
    moreover have "staking_inv ?s"
      by (rule replace_user [OF inv _ refl]) (use dwf weight le d in simp_all)
    moreover have "delegated ?s x y + (if x = u \<and> y = v then wei else 0) = delegated s x y" for x y
      using enough d by (auto simp: delegated_def user_delegations_def split: option.split)
    ultimately show thesis using run ok cur enough(4) le by auto
  qed
qed

text \<open>C33. On a ledger whose total is the sum of all delegations, an accepted token action moves exactly
  its amount: it adds to (or takes from) the one delegation of this user to this validator, changes no
  other, moves the total by the same amount and keeps it the sum; an undelegation never takes more than
  is there, and a refused undelegation changes nothing.\<close>

theorem token_delegate_accounting:
  assumes "staking_inv s" and "apply_token_delegate u action available s = (s', res)"
  shows "(res = Inr () \<longrightarrow> staking_inv s' \<and>
      (if td_is_undelegate action
       then td_wei action \<le> delegated s u (td_validator action) \<and> ck_total_delegated s' + td_wei action = ck_total_delegated s \<and>
         (\<forall>x y. delegated s' x y + (if x = u \<and> y = td_validator action then td_wei action else 0) = delegated s x y)
       else td_wei action \<le> available \<and> ck_total_delegated s' = ck_total_delegated s + td_wei action \<and>
         (\<forall>x y. delegated s' x y = delegated s x y + (if x = u \<and> y = td_validator action then td_wei action else 0)))) \<and>
    (res \<noteq> Inr () \<longrightarrow> td_is_undelegate action \<longrightarrow> s' = s)"
proof (cases "td_is_undelegate action \<and> td_wei action \<noteq> 0")
  case True
  then have "undelegate u (td_validator action) (td_wei action) s = (s', res)"
    using assms(2) by (simp add: apply_token_delegate_def)
  with assms(1) show ?thesis by (rule undelegate_cases) (use True in auto)
next
  case False
  show ?thesis
  proof (cases "\<exists>e. res = Inl e")
    case True
    then show ?thesis using False assms(2) by (auto simp: apply_token_delegate_def split: if_splits)
  next
    case ok: False
    then have run: "delegate u (td_validator action) (td_wei action) s = (s', res)" "td_wei action \<le> available"
      and "\<not> td_is_undelegate action"
      using False assms(2) by (auto simp: apply_token_delegate_def split: if_splits)
    from assms(1) run(1) show ?thesis
      by (rule delegate_cases) (use ok run(2) \<open>\<not> td_is_undelegate action\<close> in auto)
  qed
qed

text \<open>A delegation that overflows only the total is refused after the delegation itself has been
  recorded: the refused amount stays in the user's delegation and the total is no longer the sum.\<close>

lemma refused_delegation_is_recorded:
  assumes "staking_inv s" and "delegated s u v + wei \<le> u64_max" and "u64_max < ck_total_delegated s + wei" and "wei \<noteq> 0"
  shows "\<exists>s'. delegate u v wei s = (s', Inl ArithmeticOverflow) \<and> delegated s' u v = delegated s u v + wei \<and>
    ck_total_delegated s' = ck_total_delegated s"
proof -
  obtain s' res where run: "delegate u v wei s = (s', res)" by force
  from assms(1) run show ?thesis
  proof (cases rule: delegate_cases)
    case ok
    have "ck_total_delegated s + wei \<le> u64_max"
      using run ok(1) by (auto simp: delegate_def Let_def checked_add_u64_def put_delegation_def split: option.splits if_splits)
    then show ?thesis using assms(3) by simp
  next
    case cell_overflow
    then show ?thesis using assms(2) by simp
  next
    case total_overflow
    then show ?thesis using run by auto
  qed
qed

lemma same_profiles_iff: "same_profiles as bs \<longleftrightarrow> as = bs"
  by (induction as bs rule: same_profiles.induct) auto

text \<open>The vote is accepted exactly when its profiles are those recomputed from the epoch.\<close>

lemma validate_force_iff:
  "validate_force_epoch_validator_profiles s expected = Some (Inr ()) \<longleftrightarrow>
     validator_profiles_at_epoch s (ep_epoch expected) = Some (Inr \<lparr>ep_profiles = ep_profiles expected, ep_epoch = ep_epoch expected\<rparr>)"
proof -
  have epoch: "ep_epoch actual = ep_epoch expected" if run: "validator_profiles_at_epoch s (ep_epoch expected) = Some (Inr actual)" for actual
  proof -
    obtain st r where "map_of (ck_epoch_states s) (ep_epoch expected) = Some st" "collect_profiles (es_validators st) [] = Some r"
      using run by (auto simp: validator_profiles_at_epoch_def split: option.splits)
    then show ?thesis using run by (cases r) (auto simp: validator_profiles_at_epoch_def)
  qed
  show ?thesis
  proof (cases "validator_profiles_at_epoch s (ep_epoch expected)")
    case None
    then show ?thesis by (simp add: validate_force_epoch_validator_profiles_def)
  next
    case (Some r)
    then show ?thesis
      by (cases r) (auto simp: validate_force_epoch_validator_profiles_def same_profiles_iff dest: epoch intro: epoch_profiles.equality)
  qed
qed

section \<open>Witnesses\<close>

definition ledger :: "nat \<Rightarrow> c_staking" where
  "ledger w = \<lparr>ck_user_to_delegations = [(1, \<lparr>dl_delegations = [(2, w)], dl_delegations_blocked = False\<rparr>)],
     ck_validator_to_profile = [], ck_validator_to_epoch_delegation = [], ck_delegator_to_epoch_delegation = [],
     ck_epoch_states = [], ck_rewards = \<lparr>rw_unclaimed_rewards = [], rw_claimed_rewards = []\<rparr>,
     ck_pending_withdrawals = [], ck_self_delegation_requirement = 0, ck_total_delegated = w,
     ck_staking_epoch_duration_seconds = 0, ck_long_term_staking_allowed = False\<rparr>"

lemma ledger_inv: "staking_inv (ledger w)"
  by (auto simp: staking_inv_def ledger_def bt_wf_def bt_sum_def user_weight_def split: if_splits)

theorem token_delegate_accounting_witness:
  "delegated (fst (apply_token_delegate 1 \<lparr>td_signature_chain_id = 0, td_nonce = 0, td_hyperliquid_chain = [], td_validator = 2,
     td_wei = 4, td_is_undelegate = True\<rparr> 0 (ledger 10))) 1 2 = 6"
proof -
  let ?a = "\<lparr>td_signature_chain_id = 0, td_nonce = 0, td_hyperliquid_chain = [], td_validator = 2, td_wei = 4, td_is_undelegate = True\<rparr>"
  obtain s' res where run: "apply_token_delegate 1 ?a 0 (ledger 10) = (s', res)" by force
  then have "res = Inr ()" by (auto simp: apply_token_delegate_def undelegate_def ledger_def Let_def checked_sub_u64_def)
  moreover have "delegated (ledger 10) 1 2 = 10" by (simp add: delegated_def ledger_def user_delegations_def)
  ultimately have "\<forall>x y. delegated s' x y + (if x = 1 \<and> y = 2 then 4 else 0) = delegated (ledger 10) x y"
    and ten: "delegated (ledger 10) 1 2 = 10"
    using token_delegate_accounting [OF ledger_inv run] by (simp_all only: simp_thms if_True token_delegate_action.simps refl)
  from this(1) [THEN spec, THEN spec, of 1 2] ten run show ?thesis by simp
qed

lemma refused_delegation_is_recorded_witness:
  "\<exists>s'. delegate 3 2 5 (ledger u64_max) = (s', Inl ArithmeticOverflow) \<and> delegated s' 3 2 = 5"
  using refused_delegation_is_recorded [OF ledger_inv, of u64_max 3 2 5]
  by (auto simp: delegated_def ledger_def user_delegations_def delegations_default_def u64_max_def)

end
