(* ===== verification/Validator_Set_Votes.thy ===== *)
theory Validator_Set_Votes
  imports Bridge_Votes Staking
begin

text \<open>
  Votes on a new validator set and on deposits: \<open>l1/exchange/handlers/45_vote_eth_finalized_validator_set_update.rs\<close> and
  \<open>44_vote_eth_deposit.rs\<close>.  The preflight lookup and the quorum rule are parameters (traits of the source);
  \<open>None\<close> is the failed assertion that an epoch has no duplicate profile.
\<close>

section \<open>Validator set updates\<close>

definition MAX_TRACKED_FINALIZED_VALIDATOR_SET_VOTES :: nat where
  "MAX_TRACKED_FINALIZED_VALIDATOR_SET_VOTES = 100"

definition OVERFLOW_GUARD_U64 :: nat where
  "OVERFLOW_GUARD_U64 = 0x0CCCCCCCCCCCCCCC"

record c_staking_partial =
  sp_epoch_states :: "(nat, staking_epoch_state) btree"
  sp_current_epoch :: nat

record set_finalized_votes =
  fs_voters :: "bytes32 bset"

record set_bridge =
  sb_validator_set_signatures :: "(eth_event_id, validator_set_signatures) btree"
  sb_validator_set_finalized_votes :: "(eth_event_id, set_finalized_votes) btree"

record set_update_state =
  su_bridge2 :: set_bridge
  su_staking :: c_staking_partial
  su_validator_set_update_epoch_marker :: "nat bset"

record set_update_action =
  ua_header :: eth_event_id
  ua_validator_set :: epoch_profiles

datatype set_update_error = SharedPreflight nat | SetUpdateInvalidValidatorSet | MissingEpochState | OverflowGuard

definition set_update_error_status :: "set_update_error \<Rightarrow> nat" where
  "set_update_error_status e = (case e of SharedPreflight status \<Rightarrow> status | SetUpdateInvalidValidatorSet \<Rightarrow> 53
     | MissingEpochState \<Rightarrow> 151 | OverflowGuard \<Rightarrow> 319)"

record set_update_outcome =
  uo_status :: nat
  uo_finalized :: bool
  uo_epoch_advanced :: bool

definition set_outcome_ok :: "bool \<Rightarrow> bool \<Rightarrow> set_update_outcome" where
  "set_outcome_ok finalized epoch_advanced = \<lparr>uo_status = 390, uo_finalized = finalized, uo_epoch_advanced = epoch_advanced\<rparr>"

definition set_outcome_err :: "set_update_error \<Rightarrow> set_update_outcome" where
  "set_outcome_err e = \<lparr>uo_status = set_update_error_status e, uo_finalized = False, uo_epoch_advanced = False\<rparr>"

fun saturating_profiles :: "epoch_validator_state list \<Rightarrow> validator_profile bset \<Rightarrow> validator_profile bset option" where
  "saturating_profiles [] profiles = Some profiles"
| "saturating_profiles (v # vs) profiles =
     (let p = ValidatorProfile (foldl saturating_add_u64 0 (map snd (ev_delegator_balances v))) (ev_validator v) (ev_signer v)
      in if p \<in> set profiles then None else saturating_profiles vs (bs_insert p profiles))"

definition partial_profiles_at_epoch :: "c_staking_partial \<Rightarrow> nat \<Rightarrow> (set_update_error + epoch_profiles) option" where
  "partial_profiles_at_epoch s epoch =
     (case map_of (sp_epoch_states s) epoch of
        None \<Rightarrow> Some (Inl MissingEpochState)
      | Some state \<Rightarrow>
          map_option (\<lambda>ps. Inr \<lparr>ep_profiles = ps, ep_epoch = epoch\<rparr>) (saturating_profiles (es_validators state) []))"

definition validate_set_profiles :: "c_staking_partial \<Rightarrow> epoch_profiles \<Rightarrow> (set_update_error + unit) option" where
  "validate_set_profiles s expected =
     map_option (\<lambda>r. case r of Inl e \<Rightarrow> Inl e
         | Inr actual \<Rightarrow> if actual \<noteq> expected then Inl SetUpdateInvalidValidatorSet else Inr ())
       (partial_profiles_at_epoch s (ep_epoch expected))"

definition validate_validator_set_bounds :: "epoch_profiles \<Rightarrow> set_update_error + unit" where
  "validate_validator_set_bounds v =
     (if OVERFLOW_GUARD_U64 \<le> ep_epoch v then Inl OverflowGuard
      else if list_ex (\<lambda>p. OVERFLOW_GUARD_U64 \<le> vp_total_delegated p) (ep_profiles v) then Inl OverflowGuard
      else Inr ())"

definition header_voters :: "set_bridge \<Rightarrow> eth_event_id \<Rightarrow> bytes32 bset" where
  "header_voters b header =
     (case map_of (sb_validator_set_finalized_votes b) header of None \<Rightarrow> [] | Some v \<Rightarrow> fs_voters v)"

definition add_header_vote :: "eth_event_id \<Rightarrow> bytes32 \<Rightarrow> set_bridge \<Rightarrow> set_bridge" where
  "add_header_vote header voter b =
     b\<lparr>sb_validator_set_finalized_votes :=
         bt_insert header \<lparr>fs_voters = bs_insert voter (header_voters b header)\<rparr> (sb_validator_set_finalized_votes b)\<rparr>"

definition prune_oldest_validator_set_finalized_votes :: "set_bridge \<Rightarrow> set_bridge" where
  "prune_oldest_validator_set_finalized_votes b =
     b\<lparr>sb_validator_set_finalized_votes :=
         trim_oldest MAX_TRACKED_FINALIZED_VALIDATOR_SET_VOTES (sb_validator_set_finalized_votes b)\<rparr>"

definition record_set_vote ::
  "(set_bridge \<Rightarrow> c_staking_partial \<Rightarrow> eth_event_id \<Rightarrow> bytes32 bset \<Rightarrow> bool) \<Rightarrow> bytes32 \<Rightarrow> set_update_action \<Rightarrow>
   set_update_state \<Rightarrow> set_update_state \<times> set_update_outcome" where
  "record_set_vote quorum_reached vote_key action s =
     (let inserted = (vote_key \<notin> set (header_voters (su_bridge2 s) (ua_header action)));
          b1 = add_header_vote (ua_header action) vote_key (su_bridge2 s);
          finalized = (inserted \<and> quorum_reached b1 (su_staking s) (ua_header action) (header_voters b1 (ua_header action)));
          s1 = s\<lparr>su_bridge2 := prune_oldest_validator_set_finalized_votes b1\<rparr>;
          epoch = ep_epoch (ua_validator_set action)
      in if \<not> finalized then (s1, set_outcome_ok False False)
         else (s1\<lparr>su_staking := (su_staking s1)\<lparr>sp_current_epoch := epoch\<rparr>,
                  su_validator_set_update_epoch_marker := bs_insert epoch (su_validator_set_update_epoch_marker s1)\<rparr>,
               set_outcome_ok True True))"

definition apply_vote_eth_finalized_validator_set_update ::
  "(set_bridge \<Rightarrow> c_staking_partial \<Rightarrow> eth_event_id \<Rightarrow> nat \<Rightarrow> nat + bytes32) \<Rightarrow>
   (set_bridge \<Rightarrow> c_staking_partial \<Rightarrow> eth_event_id \<Rightarrow> bytes32 bset \<Rightarrow> bool) \<Rightarrow> set_update_action \<Rightarrow>
   set_update_state \<Rightarrow> (set_update_state \<times> set_update_outcome) option" where
  "apply_vote_eth_finalized_validator_set_update preflight quorum_reached action s =
     (let current_epoch = sp_current_epoch (su_staking s)
      in case preflight (su_bridge2 s) (su_staking s) (ua_header action) current_epoch of
        Inl status \<Rightarrow> Some (s, set_outcome_err (SharedPreflight status))
      | Inr vote_key \<Rightarrow>
          (case validate_validator_set_bounds (ua_validator_set action) of
             Inl e \<Rightarrow> Some (s, set_outcome_err e)
           | Inr _ \<Rightarrow>
               (case validate_set_profiles (su_staking s) (ua_validator_set action) of
                  None \<Rightarrow> None
                | Some (Inl e) \<Rightarrow> Some (s, set_outcome_err e)
                | Some (Inr _) \<Rightarrow>
                    (if ep_epoch (ua_validator_set action) \<le> current_epoch then Some (s, set_outcome_ok False False)
                     else Some (record_set_vote quorum_reached vote_key action s)))))"

section \<open>Deposits\<close>

record deposit_witness =
  dw_eth_event_id :: eth_event_id
  dw_raw_prefix :: "nat list"
  dw_flags_or_kind :: nat
  dw_raw_suffix :: "nat list"

record vote_deposit_action =
  vd_usd :: nat
  vd_deposit :: deposit_witness
  vd_user :: address

datatype deposit_vote_progress = VoteRecordedOnly | FinalizedNow

datatype vote_deposit_error =
  DepositAmountOverflow nat | InvalidDepositWitness | DepositPruned nat nat | DepositNotCreditable nat
| ExpectedTrackerMissing | RawDepositStatus nat

definition deposit_error_status :: "vote_deposit_error \<Rightarrow> nat" where
  "deposit_error_status e = (case e of DepositAmountOverflow _ \<Rightarrow> 319 | InvalidDepositWitness \<Rightarrow> 45 | DepositPruned _ _ \<Rightarrow> 46
     | DepositNotCreditable _ \<Rightarrow> 55 | ExpectedTrackerMissing \<Rightarrow> 321 | RawDepositStatus status \<Rightarrow> status)"

definition deposit_error_from_status :: "nat \<Rightarrow> vote_deposit_error" where
  "deposit_error_from_status status =
     (if status = 45 then InvalidDepositWitness
      else if status = 46 then DepositPruned 0 0
      else if status = 55 then DepositNotCreditable 0
      else if status = 321 then ExpectedTrackerMissing
      else RawDepositStatus status)"

datatype base_action_outcome = DepositSuccess | DepositError nat vote_deposit_error

definition deposit_outcome_tag :: "base_action_outcome \<Rightarrow> nat" where
  "deposit_outcome_tag r = (case r of DepositSuccess \<Rightarrow> 13 | DepositError _ _ \<Rightarrow> 14)"

record ('c, 's) vote_deposit_ops =
  do_resolve_unique_vote_signer :: "'s \<Rightarrow> 'c \<Rightarrow> vote_deposit_error + address"
  do_validate_and_record_deposit_vote ::
    "address \<Rightarrow> vote_deposit_action \<Rightarrow> 'c \<Rightarrow> 's \<Rightarrow> 's \<times> (vote_deposit_error + deposit_vote_progress)"
  do_credit_user_ntl_and_log :: "vote_deposit_action \<Rightarrow> 's \<Rightarrow> 's \<times> (vote_deposit_error + unit)"

definition apply_vote_eth_deposit :: "('c, 's) vote_deposit_ops \<Rightarrow> 'c \<Rightarrow> vote_deposit_action \<Rightarrow> 's \<Rightarrow> 's \<times> base_action_outcome" where
  "apply_vote_eth_deposit ops ctx action s =
     (case do_resolve_unique_vote_signer ops s ctx of
        Inl e \<Rightarrow> (s, DepositError (deposit_error_status e) e)
      | Inr signer \<Rightarrow>
          (if 0xCCCCCCCCCCCCCCCD \<le> vd_usd action then (s, DepositError 319 (DepositAmountOverflow (vd_usd action)))
           else if dw_flags_or_kind (vd_deposit action) \<noteq> 0
           then (s, DepositError 55 (DepositNotCreditable (dw_flags_or_kind (vd_deposit action))))
           else case do_validate_and_record_deposit_vote ops signer action ctx s of
             (s1, Inl e) \<Rightarrow> (s1, DepositError (deposit_error_status e) e)
           | (s1, Inr VoteRecordedOnly) \<Rightarrow> (s1, DepositSuccess)
           | (s1, Inr FinalizedNow) \<Rightarrow>
               (case do_credit_user_ntl_and_log ops action s1 of
                  (s2, Inl e) \<Rightarrow> (s2, DepositError (deposit_error_status e) e)
                | (s2, Inr _) \<Rightarrow> (s2, DepositSuccess))))"

section \<open>Properties\<close>

lemma record_set_vote_effect:
  assumes "record_set_vote quorum_reached voter action s = (s', out)"
  shows "uo_epoch_advanced out \<longleftrightarrow> voter \<notin> set (header_voters (su_bridge2 s) (ua_header action)) \<and>
      quorum_reached (add_header_vote (ua_header action) voter (su_bridge2 s)) (su_staking s) (ua_header action)
        (bs_insert voter (header_voters (su_bridge2 s) (ua_header action)))"
    and "su_staking s' = (if uo_epoch_advanced out then (su_staking s)\<lparr>sp_current_epoch := ep_epoch (ua_validator_set action)\<rparr> else su_staking s)"
    and "uo_epoch_advanced out \<Longrightarrow> ep_epoch (ua_validator_set action) \<in> set (su_validator_set_update_epoch_marker s')"
proof -
  have voters: "header_voters (add_header_vote h v b) h = bs_insert v (header_voters b h)" for h v b
    by (simp add: header_voters_def add_header_vote_def)
  show "uo_epoch_advanced out \<longleftrightarrow> voter \<notin> set (header_voters (su_bridge2 s) (ua_header action)) \<and>
      quorum_reached (add_header_vote (ua_header action) voter (su_bridge2 s)) (su_staking s) (ua_header action)
        (bs_insert voter (header_voters (su_bridge2 s) (ua_header action)))"
    and "su_staking s' = (if uo_epoch_advanced out then (su_staking s)\<lparr>sp_current_epoch := ep_epoch (ua_validator_set action)\<rparr> else su_staking s)"
    and "uo_epoch_advanced out \<Longrightarrow> ep_epoch (ua_validator_set action) \<in> set (su_validator_set_update_epoch_marker s')"
    using assms by (auto simp: record_set_vote_def Let_def voters set_outcome_ok_def split: if_splits)
qed

text \<open>A vote moves the staking epoch only forward and only to the epoch of the voted set: the set must be exactly
  the one recomputed from that epoch's state, the voter must be new for this header, and the quorum rule must
  hold of the voters of the header; in every other case the staking state is untouched.\<close>

lemma epoch_advances_only_by_quorum:
  assumes "apply_vote_eth_finalized_validator_set_update preflight quorum_reached action s = Some (s', out)"
  shows "sp_current_epoch (su_staking s) \<le> sp_current_epoch (su_staking s') \<and>
    (if uo_epoch_advanced out
     then sp_current_epoch (su_staking s') = ep_epoch (ua_validator_set action) \<and>
       sp_current_epoch (su_staking s) < ep_epoch (ua_validator_set action) \<and>
       partial_profiles_at_epoch (su_staking s) (ep_epoch (ua_validator_set action)) = Some (Inr (ua_validator_set action)) \<and>
       ep_epoch (ua_validator_set action) \<in> set (su_validator_set_update_epoch_marker s') \<and>
       (\<exists>voter. preflight (su_bridge2 s) (su_staking s) (ua_header action) (sp_current_epoch (su_staking s)) = Inr voter \<and>
          voter \<notin> set (header_voters (su_bridge2 s) (ua_header action)) \<and>
          quorum_reached (add_header_vote (ua_header action) voter (su_bridge2 s)) (su_staking s) (ua_header action)
            (bs_insert voter (header_voters (su_bridge2 s) (ua_header action))))
     else su_staking s' = su_staking s)"
proof -
  let ?epoch = "sp_current_epoch (su_staking s)"
  consider (kept) "s' = s" "\<not> uo_epoch_advanced out"
    | (vote) voter where "preflight (su_bridge2 s) (su_staking s) (ua_header action) ?epoch = Inr voter"
        "?epoch < ep_epoch (ua_validator_set action)" "validate_set_profiles (su_staking s) (ua_validator_set action) = Some (Inr ())"
        "record_set_vote quorum_reached voter action s = (s', out)"
    using assms
    by (auto simp: apply_vote_eth_finalized_validator_set_update_def Let_def set_outcome_err_def set_outcome_ok_def
        split: sum.splits option.splits if_splits)
  then show ?thesis
  proof cases
    case vote
    have "partial_profiles_at_epoch (su_staking s) (ep_epoch (ua_validator_set action)) = Some (Inr (ua_validator_set action))"
    proof -
      obtain r where "partial_profiles_at_epoch (su_staking s) (ep_epoch (ua_validator_set action)) = Some r"
        using vote(3) by (auto simp: validate_set_profiles_def)
      with vote(3) show ?thesis by (cases r) (auto simp: validate_set_profiles_def split: if_splits)
    qed
    then show ?thesis using vote record_set_vote_effect [OF vote(4)] by auto
  qed simp
qed

text \<open>The votes of one header are pooled whatever validator set they name: a voter with the set of a later
  epoch completes the quorum with the votes others gave to another epoch, and the later epoch becomes current.\<close>

lemma header_votes_are_pooled:
  assumes "preflight (su_bridge2 s) (su_staking s) header (sp_current_epoch (su_staking s)) = Inr v2"
    and "header_voters (su_bridge2 s) header = [v1]" and "v1 \<noteq> v2"
    and "\<forall>b st h vs. quorum_reached b st h vs \<longleftrightarrow> 2 \<le> length vs"
    and "validate_validator_set_bounds e2 = Inr ()" and "validate_set_profiles (su_staking s) e2 = Some (Inr ())"
    and "sp_current_epoch (su_staking s) < ep_epoch e2"
  shows "\<exists>s' out. apply_vote_eth_finalized_validator_set_update preflight quorum_reached \<lparr>ua_header = header, ua_validator_set = e2\<rparr> s = Some (s', out) \<and>
    sp_current_epoch (su_staking s') = ep_epoch e2"
proof -
  let ?a = "\<lparr>ua_header = header, ua_validator_set = e2\<rparr>"
  obtain s' out where r: "record_set_vote quorum_reached v2 ?a s = (s', out)" by force
  have "apply_vote_eth_finalized_validator_set_update preflight quorum_reached ?a s = Some (s', out)"
    using assms r by (simp add: apply_vote_eth_finalized_validator_set_update_def Let_def)
  moreover have "uo_epoch_advanced out" using record_set_vote_effect(1) [OF r] assms(2-4) by auto
  then have "sp_current_epoch (su_staking s') = ep_epoch e2" using record_set_vote_effect(2) [OF r] by simp
  ultimately show ?thesis by blast
qed

text \<open>A deposit is credited only by the vote that finalises it.\<close>

lemma deposit_vote_without_finality:
  assumes "do_resolve_unique_vote_signer ops s ctx = Inr signer" and "vd_usd action < 0xCCCCCCCCCCCCCCCD"
    and "dw_flags_or_kind (vd_deposit action) = 0"
    and "do_validate_and_record_deposit_vote ops signer action ctx s = (s1, Inr VoteRecordedOnly)"
  shows "apply_vote_eth_deposit ops ctx action s = (s1, DepositSuccess)"
  using assms by (simp add: apply_vote_eth_deposit_def)

section \<open>Witnesses\<close>

definition epoch_five :: staking_epoch_state where
  "epoch_five = \<lparr>es_validators = [\<lparr>ev_delegator_balances = [(1, 10), (2, 20)], ev_validator = 3, ev_signer = 4\<rparr>]\<rparr>"

definition set_five :: epoch_profiles where
  "set_five = \<lparr>ep_profiles = [ValidatorProfile 30 3 4], ep_epoch = 5\<rparr>"

definition update_state :: set_update_state where
  "update_state = \<lparr>su_bridge2 = \<lparr>sb_validator_set_signatures = [], sb_validator_set_finalized_votes = [(EthEventId 1 1, \<lparr>fs_voters = [7]\<rparr>)]\<rparr>,
     su_staking = \<lparr>sp_epoch_states = [(5, epoch_five)], sp_current_epoch = 4\<rparr>, su_validator_set_update_epoch_marker = []\<rparr>"

definition set_vote :: set_update_action where
  "set_vote = \<lparr>ua_header = EthEventId 1 1, ua_validator_set = set_five\<rparr>"

lemmas set_vote_eval = update_state_def set_vote_def set_five_def epoch_five_def validate_validator_set_bounds_def
  validate_set_profiles_def partial_profiles_at_epoch_def OVERFLOW_GUARD_U64_def saturating_add_u64_def u64_max_def header_voters_def

lemma header_votes_are_pooled_witness:
  "\<exists>s' out. apply_vote_eth_finalized_validator_set_update (\<lambda>b st h e. Inr 8) (\<lambda>b st h vs. 2 \<le> length vs) set_vote update_state = Some (s', out) \<and>
     sp_current_epoch (su_staking s') = 5"
  using header_votes_are_pooled [of "\<lambda>b st h e. Inr 8" update_state "EthEventId 1 1" 8 7 "\<lambda>b st h vs. 2 \<le> length vs" set_five]
  by (simp add: set_vote_eval)

lemma epoch_advances_only_by_quorum_witness:
  "\<exists>s' out. apply_vote_eth_finalized_validator_set_update (\<lambda>b st h e. Inr 7) (\<lambda>b st h vs. 2 \<le> length vs) set_vote update_state = Some (s', out) \<and>
     4 \<le> sp_current_epoch (su_staking s')"
proof -
  obtain s' out where run: "apply_vote_eth_finalized_validator_set_update (\<lambda>b st h e. Inr 7) (\<lambda>b st h vs. 2 \<le> length vs) set_vote update_state = Some (s', out)"
    by (simp add: apply_vote_eth_finalized_validator_set_update_def record_set_vote_def Let_def set_vote_eval add_header_vote_def)
  from epoch_advances_only_by_quorum [OF run] have "4 \<le> sp_current_epoch (su_staking s')" by (simp add: update_state_def)
  with run show ?thesis by blast
qed

end
