(* ===== verification/Evm_U256.thy ===== *)
theory Evm_U256
  imports Prefix_Code
begin

text \<open>
  The result type of the transaction decoder, and the 256-bit integers of
  \<^verbatim>\<open>src/l1/action/evm_raw_tx.rs\<close>: four 64-bit limbs, most significant first, with
  big-endian conversion, checked addition, checked multiplication and comparison.  Every operation
  is shown to be the operation on the number the limbs denote.
\<close>

section \<open>Results\<close>

text \<open>The \<open>?\<close> operator: an error is returned, a value is passed on.\<close>

definition and_then :: "'e + 'a \<Rightarrow> ('a \<Rightarrow> 'e + 'b) \<Rightarrow> 'e + 'b" where
  "and_then r f = (case r of Inl e \<Rightarrow> Inl e | Inr x \<Rightarrow> f x)"

lemma and_then_simps [simp]: "and_then (Inl e) f = Inl e" "and_then (Inr x) f = f x"
  by (simp_all add: and_then_def)

lemma and_then_cong [fundef_cong]: "r = r' \<Longrightarrow> (\<And>x. r' = Inr x \<Longrightarrow> f x = g x) \<Longrightarrow> and_then r f = and_then r' g"
  by (simp add: and_then_def split: sum.split)

lemma and_then_eq_Inr: "and_then r f = Inr y \<longleftrightarrow> (\<exists>x. r = Inr x \<and> f x = Inr y)"
  by (simp add: and_then_def split: sum.split)

lemma and_then_eq_Inl: "and_then r f = Inl e \<longleftrightarrow> r = Inl e \<or> (\<exists>x. r = Inr x \<and> f x = Inl e)"
  by (auto simp: and_then_def split: sum.split)

text \<open>\<open>collect\<close> of an iterator of results: the first error, or all values.\<close>

primrec collect_results :: "('a \<Rightarrow> 'e + 'b) \<Rightarrow> 'a list \<Rightarrow> 'e + 'b list" where
  "collect_results f [] = Inr []"
| "collect_results f (x # xs) = and_then (f x) (\<lambda>y. and_then (collect_results f xs) (\<lambda>ys. Inr (y # ys)))"

lemma collect_results_map:
  "(\<And>x. x \<in> set xs \<Longrightarrow> f (g x) = Inr x) \<Longrightarrow> collect_results f (map g xs) = Inr xs"
  by (induction xs) simp_all

lemma collect_results_source:
  "collect_results f xs = Inr ys \<Longrightarrow> y \<in> set ys \<Longrightarrow> \<exists>x \<in> set xs. f x = Inr y"
  by (induction xs arbitrary: ys) (auto simp: and_then_eq_Inr)

section \<open>Bytes\<close>

definition byte_list :: "nat list \<Rightarrow> bool" where
  "byte_list bs \<longleftrightarrow> (\<forall>b \<in> set bs. b < 256)"

lemma byte_list_simps [simp]:
  "byte_list []" "byte_list (b # bs) \<longleftrightarrow> b < 256 \<and> byte_list bs" "byte_list (as @ bs) \<longleftrightarrow> byte_list as \<and> byte_list bs"
  "byte_list (replicate n 0)"
  by (auto simp: byte_list_def)

lemma byte_list_take_drop: "byte_list bs \<Longrightarrow> byte_list (take n bs)" "byte_list bs \<Longrightarrow> byte_list (drop n bs)"
  by (auto simp: byte_list_def dest: in_set_takeD in_set_dropD)

lemma byte_list_to_be_bytes [simp]: "byte_list (to_be_bytes n v)"
  by (simp add: byte_list_def to_be_bytes_less)

text \<open>The value of a byte string, split and bounded.\<close>

lemma digits_value_append:
  "digits_value base (as @ bs) = base ^ length bs * digits_value base as + digits_value base bs"
  by (induction bs rule: rev_induct) (simp_all add: algebra_simps flip: append_assoc)

lemma digits_value_less: "byte_list bs \<Longrightarrow> digits_value 256 bs < 256 ^ length bs"
proof (induction bs rule: rev_induct)
  case (snoc b bs)
  then have "digits_value 256 bs + 1 \<le> 256 ^ length bs" by simp
  then have "256 * (digits_value 256 bs + 1) \<le> 256 * 256 ^ length bs" by (rule mult_le_mono2)
  with snoc.prems show ?case by simp
qed simp

lemma to_be_bytes_zero [simp]: "to_be_bytes n 0 = replicate n 0"
  by (induction n) (simp_all add: replicate_append_same)

lemma to_be_bytes_value: "byte_list bs \<Longrightarrow> to_be_bytes (length bs) (digits_value 256 bs) = bs"
  by (induction bs rule: rev_induct) simp_all

lemma digits_value_zeros [simp]: "digits_value base (replicate n 0) = 0"
  by (induction n) (simp_all add: replicate_append_same [symmetric])

text \<open>\<open>iter().position\<close>: the index of the first element that satisfies the test.\<close>

definition position :: "('a \<Rightarrow> bool) \<Rightarrow> 'a list \<Rightarrow> nat option" where
  "position p xs = (if list_ex p xs then Some (length (takeWhile (\<lambda>x. \<not> p x) xs)) else None)"

lemma drop_position:
  "drop (case position (\<lambda>b. b \<noteq> 0) bs of Some i \<Rightarrow> i | None \<Rightarrow> length bs) bs = dropWhile (\<lambda>b. b = 0) bs"
proof (cases "list_ex (\<lambda>b. b \<noteq> 0) bs")
  case True
  then show ?thesis by (simp add: position_def dropWhile_eq_drop)
next
  case False
  then have "dropWhile (\<lambda>b. b = 0) bs = []" by (simp add: list_ex_iff)
  with False show ?thesis unfolding position_def by (simp del: dropWhile_eq_Nil_conv)
qed

section \<open>256-bit integers\<close>

datatype u256 = U256 nat nat nat nat

primrec limbs :: "u256 \<Rightarrow> nat list" where
  "limbs (U256 a b c d) = [a, b, c, d]"

text \<open>The number four limbs denote, and the range of a limb.\<close>

primrec u256_val :: "u256 \<Rightarrow> nat" where
  "u256_val (U256 a b c d) = 2 ^ 64 * (2 ^ 64 * (2 ^ 64 * a + b) + c) + d"

primrec u256_ok :: "u256 \<Rightarrow> bool" where
  "u256_ok (U256 a b c d) \<longleftrightarrow> a < 2 ^ 64 \<and> b < 2 ^ 64 \<and> c < 2 ^ 64 \<and> d < 2 ^ 64"

datatype raw_tx_decode_error =
    Empty
  | UnsupportedTypedTransaction nat
  | RlpExpectedList
  | RlpExpectedBytes
  | RlpTrailingBytes
  | RlpInputTooShort
  | RlpNonCanonical
  | RlpWrongFieldCount nat nat
  | InvalidAddressLength nat
  | InvalidHashLength nat
  | InvalidLegacyV u256
  | InvalidYParity u256
  | IntegerTooLarge

definition u256_zero :: u256 where
  "u256_zero = U256 0 0 0 0"

definition u256_one :: u256 where
  "u256_one = U256 0 0 0 1"

definition u256_from_u64 :: "nat \<Rightarrow> u256" where
  "u256_from_u64 value = U256 0 0 0 value"

definition u256_from_be_bytes :: "nat list \<Rightarrow> u256" where
  "u256_from_be_bytes bytes = U256
     (digits_value 256 (take 8 bytes))
     (digits_value 256 (take 8 (drop 8 bytes)))
     (digits_value 256 (take 8 (drop 16 bytes)))
     (digits_value 256 (take 8 (drop 24 bytes)))"

definition u256_from_be_slice :: "nat list \<Rightarrow> raw_tx_decode_error + u256" where
  "u256_from_be_slice bytes =
     (if 32 < length bytes then Inl IntegerTooLarge
      else Inr (u256_from_be_bytes (replicate (32 - length bytes) 0 @ bytes)))"

definition u256_is_zero :: "u256 \<Rightarrow> bool" where
  "u256_is_zero x \<longleftrightarrow> limbs x = [0, 0, 0, 0]"

fun u256_as_u64 :: "u256 \<Rightarrow> raw_tx_decode_error + nat" where
  "u256_as_u64 (U256 a b c d) = (if a = 0 \<and> b = 0 \<and> c = 0 then Inr d else Inl IntegerTooLarge)"

definition overflowing_add_u64 :: "nat \<Rightarrow> nat \<Rightarrow> nat \<times> bool" where
  "overflowing_add_u64 x y = ((x + y) mod 2 ^ 64, 2 ^ 64 \<le> x + y)"

fun u256_checked_add :: "u256 \<Rightarrow> u256 \<Rightarrow> u256 option" where
  "u256_checked_add (U256 xa xb xc xd) (U256 ya yb yc yd) =
     (let (d, carry0) = overflowing_add_u64 xd yd;
          (c0, carry1a) = overflowing_add_u64 xc yc;
          (c, carry1b) = overflowing_add_u64 c0 (of_bool carry0);
          (b0, carry2a) = overflowing_add_u64 xb yb;
          (b, carry2b) = overflowing_add_u64 b0 (of_bool (carry1a \<or> carry1b));
          (a0, carry3a) = overflowing_add_u64 xa ya;
          (a, carry3b) = overflowing_add_u64 a0 (of_bool (carry2a \<or> carry2b))
      in if carry3a \<or> carry3b then None else Some (U256 a b c d))"

text \<open>One round of the multiplication loop: the low half of the 128-bit product is the limb, the high
  half the carry.\<close>

definition mul_limb :: "nat \<Rightarrow> nat \<Rightarrow> nat \<Rightarrow> nat \<times> nat" where
  "mul_limb limb rhs carry = (let wide = (limb * rhs + carry) mod 2 ^ 128 in (wide mod 2 ^ 64, wide div 2 ^ 64))"

fun u256_checked_mul_u64 :: "u256 \<Rightarrow> nat \<Rightarrow> u256 option" where
  "u256_checked_mul_u64 (U256 xa xb xc xd) rhs =
     (let (d, carry) = mul_limb xd rhs 0;
          (c, carry) = mul_limb xc rhs carry;
          (b, carry) = mul_limb xb rhs carry;
          (a, carry) = mul_limb xa rhs carry
      in if carry = 0 then Some (U256 a b c d) else None)"

definition u256_full :: "u256 \<Rightarrow> nat list" where
  "u256_full x = concat (map (to_be_bytes 8) (limbs x))"

definition u256_to_minimal_be_vec :: "u256 \<Rightarrow> nat list" where
  "u256_to_minimal_be_vec x =
     (if u256_is_zero x then []
      else let full = u256_full x;
               first = (case position (\<lambda>byte. byte \<noteq> 0) full of Some i \<Rightarrow> i | None \<Rightarrow> 32)
           in drop first full)"

text \<open>The order of the source compares the limbs from the most significant one.\<close>

instantiation u256 :: linorder
begin

definition less_u256 :: "u256 \<Rightarrow> u256 \<Rightarrow> bool" where
  "less_u256 x y \<longleftrightarrow> (case (x, y) of (U256 xa xb xc xd, U256 ya yb yc yd) \<Rightarrow>
     xa < ya \<or> xa = ya \<and> (xb < yb \<or> xb = yb \<and> (xc < yc \<or> xc = yc \<and> xd < yd)))"

definition less_eq_u256 :: "u256 \<Rightarrow> u256 \<Rightarrow> bool" where
  "less_eq_u256 x y \<longleftrightarrow> x = y \<or> x < (y :: u256)"

instance
proof
  fix x y z :: u256
  show "x < y \<longleftrightarrow> x \<le> y \<and> \<not> y \<le> x"
    by (auto simp: less_eq_u256_def less_u256_def split: u256.splits)
  show "x \<le> x" by (simp add: less_eq_u256_def)
  show "x \<le> y \<Longrightarrow> y \<le> z \<Longrightarrow> x \<le> z"
    by (auto simp: less_eq_u256_def less_u256_def split: u256.splits)
  show "x \<le> y \<Longrightarrow> y \<le> x \<Longrightarrow> x = y"
    by (auto simp: less_eq_u256_def less_u256_def split: u256.splits)
  show "x \<le> y \<or> y \<le> x"
    by (auto simp: less_eq_u256_def less_u256_def split: u256.splits)
qed

end

section \<open>The operations compute on the denoted number\<close>

lemma u256_val_less: "u256_ok x \<Longrightarrow> u256_val x < 2 ^ 256"
  by (cases x) simp

text \<open>Four limbs computed with a carry passed upwards, in any base.\<close>

lemma carry_chain:
  fixes B :: nat
  assumes "a + B * k3 = xa + k2" and "b + B * k2 = xb + k1" and "c + B * k1 = xc + k0" and "d + B * k0 = xd"
  shows "B * (B * (B * a + b) + c) + d + B * (B * (B * (B * k3))) = B * (B * (B * xa + xb) + xc) + xd"
proof -
  have "B * a + b + B * (B * k3) = B * xa + xb + k1"
    using arg_cong [OF assms(1), of "\<lambda>t. B * t"] assms(2) by (simp add: distrib_left)
  from arg_cong [OF this, of "\<lambda>t. B * t"] assms(3)
  have "B * (B * a + b) + c + B * (B * (B * k3)) = B * (B * xa + xb) + xc + k0"
    by (simp add: distrib_left)
  from arg_cong [OF this, of "\<lambda>t. B * t"] assms(4) show ?thesis by (simp add: distrib_left)
qed

lemma high_low_less:
  fixes B :: nat
  assumes "l < B" and "l' < B"
  shows "B * h + l < B * h' + l' \<longleftrightarrow> h < h' \<or> h = h' \<and> l < l'"
proof -
  consider "h < h'" | "h = h'" | "h' < h" by linarith
  then show ?thesis
  proof cases
    case 1
    then show ?thesis using mult_le_mono2 [of "h + 1" h' B] assms by simp
  next
    case 3
    then show ?thesis using mult_le_mono2 [of "h' + 1" h B] assms by simp
  qed simp
qed

lemma high_low_eq:
  fixes B :: nat
  assumes "l < B" and "l' < B"
  shows "B * h + l = B * h' + l' \<longleftrightarrow> h = h' \<and> l = l'"
  using high_low_less [OF assms, of h h'] high_low_less [OF assms(2,1), of h' h] by auto

text \<open>Adding a carry limb by limb: the sum is the low limb plus \<open>2\<^sup>64\<close> if either addition overflowed.\<close>

lemma overflowing_add_u64_cases:
  assumes "overflowing_add_u64 x y = (s, k)" and "x < 2 ^ 64" and "y < 2 ^ 64"
  shows "s + 2 ^ 64 * of_bool k = x + y" and "s < 2 ^ 64"
proof -
  have "(x + y) mod 2 ^ 64 = (if 2 ^ 64 \<le> x + y then x + y - 2 ^ 64 else x + y)"
    using assms(2,3) by (simp add: mod_if)
  with assms show "s + 2 ^ 64 * of_bool k = x + y" "s < 2 ^ 64"
    by (auto simp: overflowing_add_u64_def)
qed

lemma add_with_carry:
  assumes "overflowing_add_u64 x y = (s0, k1)" "overflowing_add_u64 s0 (of_bool k) = (s, k2)"
    and "x < 2 ^ 64" "y < 2 ^ 64"
  shows "s + 2 ^ 64 * of_bool (k1 \<or> k2) = x + y + of_bool k" and "s < 2 ^ 64"
proof -
  note first = overflowing_add_u64_cases [OF assms(1,3,4)]
  have "of_bool k < (2 :: nat) ^ 64" by simp
  note second = overflowing_add_u64_cases [OF assms(2) first(2) this]
  have "\<not> (k1 \<and> k2)" using first second assms(3,4) by (cases k; cases k1; cases k2; simp)
  then have "of_bool (k1 \<or> k2) = (of_bool k1 :: nat) + of_bool k2" by (cases k1; simp)
  with first(1) second(1) show "s + 2 ^ 64 * of_bool (k1 \<or> k2) = x + y + of_bool k"
    by (simp add: algebra_simps)
  show "s < 2 ^ 64" by (rule second(2))
qed

lemma u256_checked_add_val:
  assumes "u256_ok x" and "u256_ok y"
  shows "case u256_checked_add x y of
      Some z \<Rightarrow> u256_ok z \<and> u256_val z = u256_val x + u256_val y
    | None \<Rightarrow> 2 ^ 256 \<le> u256_val x + u256_val y"
proof (cases x; cases y)
  fix xa xb xc xd ya yb yc yd
  assume xy: "x = U256 xa xb xc xd" "y = U256 ya yb yc yd"
  obtain d k0 where d: "overflowing_add_u64 xd yd = (d, k0)" by fastforce
  obtain c0 k1 where c0: "overflowing_add_u64 xc yc = (c0, k1)" by fastforce
  obtain c k1' where c: "overflowing_add_u64 c0 (of_bool k0) = (c, k1')" by fastforce
  obtain b0 k2 where b0: "overflowing_add_u64 xb yb = (b0, k2)" by fastforce
  obtain b k2' where b: "overflowing_add_u64 b0 (of_bool (k1 \<or> k1')) = (b, k2')" by fastforce
  obtain a0 k3 where a0: "overflowing_add_u64 xa ya = (a0, k3)" by fastforce
  obtain a k3' where a: "overflowing_add_u64 a0 (of_bool (k2 \<or> k2')) = (a, k3')" by fastforce
  note range = assms [unfolded xy u256_ok.simps]
  have d': "d + 2 ^ 64 * of_bool k0 = xd + yd" "d < 2 ^ 64"
    using overflowing_add_u64_cases [OF d] range by simp_all
  have c': "c + 2 ^ 64 * of_bool (k1 \<or> k1') = xc + yc + of_bool k0" "c < 2 ^ 64"
    using add_with_carry [OF c0 c] range by simp_all
  have b': "b + 2 ^ 64 * of_bool (k2 \<or> k2') = xb + yb + of_bool (k1 \<or> k1')" "b < 2 ^ 64"
    using add_with_carry [OF b0 b] range by simp_all
  have a': "a + 2 ^ 64 * of_bool (k3 \<or> k3') = xa + ya + of_bool (k2 \<or> k2')" "a < 2 ^ 64"
    using add_with_carry [OF a0 a] range by simp_all
  have "u256_val (U256 a b c d) + 2 ^ 256 * of_bool (k3 \<or> k3') = u256_val x + u256_val y"
    using carry_chain [OF a'(1) b'(1) c'(1) d'(1)] by (simp add: xy distrib_left)
  moreover have "u256_checked_add x y = (if k3 \<or> k3' then None else Some (U256 a b c d))"
    by (simp only: xy u256_checked_add.simps d c0 c b0 b a0 a Let_def prod.case)
  moreover have "u256_ok (U256 a b c d)" using a'(2) b'(2) c'(2) d'(2) by simp
  ultimately show ?thesis by (cases "k3 \<or> k3'") (auto simp del: u256_val.simps)
qed

text \<open>The 128-bit accumulator of the multiplication never wraps.\<close>

lemma mul_limb_cases:
  assumes "mul_limb x r k = (s, k')" and "x < 2 ^ 64" and "r < 2 ^ 64" and "k < 2 ^ 64"
  shows "s + 2 ^ 64 * k' = x * r + k" and "s < 2 ^ 64" and "k' < 2 ^ 64"
proof -
  have "x * r + k \<le> (2 ^ 64 - 1) * (2 ^ 64 - 1) + (2 ^ 64 - 1)"
    using assms(2-4) by (intro add_mono mult_mono) simp_all
  then have wide: "x * r + k < 2 ^ 128" by simp
  then have s: "s = (x * r + k) mod 2 ^ 64" and k': "k' = (x * r + k) div 2 ^ 64"
    using assms(1) by (auto simp: mul_limb_def Let_def)
  show "s + 2 ^ 64 * k' = x * r + k" unfolding s k' by (rule mod_mult_div_eq)
  show "s < 2 ^ 64" unfolding s by simp
  show "k' < 2 ^ 64" unfolding k' using wide by (simp add: less_mult_imp_div_less)
qed

lemma u256_checked_mul_u64_val:
  assumes "u256_ok x" and "r < 2 ^ 64"
  shows "case u256_checked_mul_u64 x r of
      Some z \<Rightarrow> u256_ok z \<and> u256_val z = u256_val x * r
    | None \<Rightarrow> 2 ^ 256 \<le> u256_val x * r"
proof (cases x)
  case (U256 xa xb xc xd)
  obtain d k0 where d: "mul_limb xd r 0 = (d, k0)" by fastforce
  obtain c k1 where c: "mul_limb xc r k0 = (c, k1)" by fastforce
  obtain b k2 where b: "mul_limb xb r k1 = (b, k2)" by fastforce
  obtain a k3 where a: "mul_limb xa r k2 = (a, k3)" by fastforce
  have range: "xa < 2 ^ 64" "xb < 2 ^ 64" "xc < 2 ^ 64" "xd < 2 ^ 64" using assms(1) U256 by simp_all
  have zero: "(0 :: nat) < 2 ^ 64" by simp
  note d' = mul_limb_cases [OF d range(4) assms(2) zero]
  note c' = mul_limb_cases [OF c range(3) assms(2) d'(3)]
  note b' = mul_limb_cases [OF b range(2) assms(2) c'(3)]
  note a' = mul_limb_cases [OF a range(1) assms(2) b'(3)]
  have "u256_val (U256 a b c d) + 2 ^ 256 * k3 = u256_val x * r"
    using carry_chain [OF a'(1) b'(1) c'(1) d'(1) [unfolded add_0_right]] by (simp add: U256 distrib_left distrib_right mult.assoc)
  moreover have "u256_checked_mul_u64 x r = (if k3 = 0 then Some (U256 a b c d) else None)"
    by (simp add: U256 d c b a)
  moreover have "u256_ok (U256 a b c d)" using a'(2) b'(2) c'(2) d'(2) by simp
  ultimately show ?thesis by (cases "k3 = 0") (auto simp del: u256_val.simps)
qed

lemma u256_less_val:
  assumes "u256_ok x" and "u256_ok y"
  shows "x < y \<longleftrightarrow> u256_val x < u256_val y"
proof (cases x; cases y)
  fix xa xb xc xd ya yb yc yd
  assume xy: "x = U256 xa xb xc xd" "y = U256 ya yb yc yd"
  show ?thesis using assms unfolding xy less_u256_def u256_ok.simps u256_val.simps prod.case u256.case
    by (simp only: high_low_less high_low_eq) blast
qed

lemma u256_val_inj: "u256_ok x \<Longrightarrow> u256_ok y \<Longrightarrow> u256_val x = u256_val y \<longleftrightarrow> x = y"
  using u256_less_val [of x y] u256_less_val [of y x] by (metis less_irrefl linorder_less_linear)

lemma u256_le_val: "u256_ok x \<Longrightarrow> u256_ok y \<Longrightarrow> x \<le> y \<longleftrightarrow> u256_val x \<le> u256_val y"
  by (metis u256_less_val linorder_not_less)

lemma u256_as_u64_val: "u256_ok x \<Longrightarrow> u256_as_u64 x = (if u256_val x < 2 ^ 64 then Inr (u256_val x) else Inl IntegerTooLarge)"
  by (cases x) auto

lemma u256_from_u64_val [simp]: "u256_val (u256_from_u64 n) = n"
  by (simp add: u256_from_u64_def)

lemma u256_from_u64_ok: "u256_ok (u256_from_u64 n) \<longleftrightarrow> n < 2 ^ 64"
  by (simp add: u256_from_u64_def)


lemma u256_from_be_bytes_val:
  assumes "length bs = 32" and "byte_list bs"
  shows "u256_val (u256_from_be_bytes bs) = digits_value 256 bs" and "u256_ok (u256_from_be_bytes bs)"
proof -
  have "bs = take 8 bs @ take 8 (drop 8 bs) @ take 8 (drop 16 bs) @ take 8 (drop 24 bs)"
    using assms(1) append_take_drop_id [of 8 bs] append_take_drop_id [of 8 "drop 8 bs"]
      append_take_drop_id [of 8 "drop 16 bs"] by (simp add: take_all)
  then have "digits_value 256 bs = digits_value 256 (take 8 bs @ take 8 (drop 8 bs) @ take 8 (drop 16 bs) @ take 8 (drop 24 bs))"
    by (rule arg_cong)
  also have "\<dots> = u256_val (u256_from_be_bytes bs)"
    using assms(1) unfolding digits_value_append u256_from_be_bytes_def u256_val.simps by simp
  finally show "u256_val (u256_from_be_bytes bs) = digits_value 256 bs" ..
  have "digits_value 256 (take 8 (drop n bs)) < 2 ^ 64" if "n \<le> 24" for n
    using digits_value_less [OF byte_list_take_drop(1) [OF byte_list_take_drop(2) [OF assms(2)]], of 8 n] that assms(1) by simp
  from this [of 0] this [of 8] this [of 16] this [of 24] show "u256_ok (u256_from_be_bytes bs)"
    by (simp add: u256_from_be_bytes_def)
qed

lemma u256_from_be_slice_val:
  assumes "byte_list bs" and "length bs \<le> 32"
  obtains x where "u256_from_be_slice bs = Inr x" and "u256_ok x" and "u256_val x = digits_value 256 bs"
proof
  let ?x = "u256_from_be_bytes (replicate (32 - length bs) 0 @ bs)"
  show "u256_from_be_slice bs = Inr ?x" using assms(2) by (simp add: u256_from_be_slice_def)
  have full: "length (replicate (32 - length bs) 0 @ bs) = 32" "byte_list (replicate (32 - length bs) 0 @ bs)"
    using assms by simp_all
  from u256_from_be_bytes_val [OF full] show "u256_ok ?x" "u256_val ?x = digits_value 256 bs"
    by (simp_all add: digits_value_append)
qed

text \<open>The minimal encoding is the 32-byte encoding without its leading zeros.\<close>

lemma u256_full_props:
  assumes "u256_ok x"
  shows "length (u256_full x) = 32" and "byte_list (u256_full x)" and "digits_value 256 (u256_full x) = u256_val x"
    and "u256_from_be_bytes (u256_full x) = x"
proof -
  obtain a b c d where x: "x = U256 a b c d" by (cases x)
  have val: "digits_value 256 (to_be_bytes 8 v) = v" if "v < 2 ^ 64" for v
    using that by (simp add: value_to_be_bytes)
  note range = assms [unfolded x u256_ok.simps]
  show "length (u256_full x) = 32" "byte_list (u256_full x)" by (simp_all add: x u256_full_def)
  show "u256_from_be_bytes (u256_full x) = x"
    using range by (simp add: x u256_full_def u256_from_be_bytes_def val)
  then show "digits_value 256 (u256_full x) = u256_val x"
    using u256_from_be_bytes_val(1) [of "u256_full x"] by (simp add: x u256_full_def)
qed

lemma u256_minimal_eq:
  assumes "u256_ok x"
  shows "u256_to_minimal_be_vec x = dropWhile (\<lambda>b. b = 0) (u256_full x)"
proof (cases "u256_is_zero x")
  case True
  then have "\<forall>b \<in> set (u256_full x). b = 0"
    by (cases x) (simp add: u256_is_zero_def u256_full_def)
  then have "dropWhile (\<lambda>b. b = 0) (u256_full x) = []" by simp
  with True show ?thesis by (simp only: u256_to_minimal_be_vec_def if_True)
next
  case False
  with drop_position [of "u256_full x", unfolded u256_full_props(1) [OF assms]] show ?thesis
    by (simp add: u256_to_minimal_be_vec_def Let_def)
qed

lemma u256_minimal_props:
  assumes "u256_ok x"
  shows "length (u256_to_minimal_be_vec x) \<le> 32" and "byte_list (u256_to_minimal_be_vec x)"
    and "digits_value 256 (u256_to_minimal_be_vec x) = u256_val x"
    and "u256_to_minimal_be_vec x \<noteq> [] \<Longrightarrow> hd (u256_to_minimal_be_vec x) \<noteq> 0"
  using length_dropWhile_le [of "\<lambda>b. b = 0" "u256_full x"] u256_full_props [OF assms]
    set_dropWhileD [of _ "\<lambda>b. b = 0" "u256_full x"] hd_dropWhile [of "\<lambda>b. b = 0" "u256_full x"]
  by (auto simp: u256_minimal_eq [OF assms] byte_list_def value_drop_zeros)

lemma u256_minimal_roundtrip:
  assumes "u256_ok x"
  shows "u256_from_be_slice (u256_to_minimal_be_vec x) = Inr x"
proof -
  obtain y where "u256_from_be_slice (u256_to_minimal_be_vec x) = Inr y" "u256_ok y"
    "u256_val y = digits_value 256 (u256_to_minimal_be_vec x)"
    by (rule u256_from_be_slice_val [OF u256_minimal_props(2,1) [OF assms]])
  with u256_minimal_props(3) [OF assms] u256_val_inj [OF assms] show ?thesis by metis
qed

end
