(* ===== verification/Rlp.thy ===== *)
theory Rlp
  imports Evm_U256
begin

text \<open>
  The RLP reader and writer of \<^verbatim>\<open>src/l1/action/evm_raw_tx.rs\<close>, and the RLP encoding of
  Ethereum as a reference.  A string item is read as its payload, a list item as its whole encoding.
  The relation \<open>rlp_reads e x\<close> says that the bytes \<open>e\<close> in front of any others are read as the item
  \<open>x\<close>; it holds for what the writer produces and for the reference encoding.
\<close>

section \<open>Reader\<close>

definition RLP_LIST_PREFIX :: nat where "RLP_LIST_PREFIX = 0xc0"

definition RLP_LONG_LIST_PREFIX :: nat where "RLP_LONG_LIST_PREFIX = 0xf7"

definition RLP_STRING_PREFIX :: nat where "RLP_STRING_PREFIX = 0x80"

definition RLP_LONG_STRING_PREFIX :: nat where "RLP_LONG_STRING_PREFIX = 0xb7"

lemmas rlp_prefix_defs = RLP_LIST_PREFIX_def RLP_LONG_LIST_PREFIX_def RLP_STRING_PREFIX_def RLP_LONG_STRING_PREFIX_def

definition split_payload :: "nat list \<Rightarrow> nat \<Rightarrow> raw_tx_decode_error + nat list \<times> nat list" where
  "split_payload bytes len = (if length bytes < len then Inl RlpInputTooShort else Inr (take len bytes, drop len bytes))"

definition decode_rlp_len :: "nat list \<Rightarrow> raw_tx_decode_error + nat" where
  "decode_rlp_len bytes =
     (if bytes = [] \<or> hd bytes = 0 \<or> 8 < length bytes then Inl RlpNonCanonical
      else Inr (foldl (\<lambda>len byte. len * 256 mod 2 ^ 64 + byte) 0 bytes))"

definition rlp_read_list :: "nat list \<Rightarrow> raw_tx_decode_error + nat list \<times> nat list" where
  "rlp_read_list bytes = (case bytes of
      [] \<Rightarrow> Inl RlpInputTooShort
    | tag # rest \<Rightarrow>
        if tag < RLP_LIST_PREFIX then Inl RlpExpectedList
        else if tag \<le> RLP_LONG_LIST_PREFIX then split_payload rest (tag - RLP_LIST_PREFIX)
        else and_then (split_payload rest (tag - RLP_LONG_LIST_PREFIX)) (\<lambda>(len_bytes, rest).
             and_then (decode_rlp_len len_bytes) (\<lambda>len. split_payload rest len)))"

definition rlp_read_item :: "nat list \<Rightarrow> raw_tx_decode_error + nat list \<times> nat list" where
  "rlp_read_item bytes = (case bytes of
      [] \<Rightarrow> Inl RlpInputTooShort
    | tag # rest \<Rightarrow>
        if tag < RLP_STRING_PREFIX then Inr (take 1 bytes, rest)
        else if tag < RLP_LIST_PREFIX then
          (if tag \<le> RLP_LONG_STRING_PREFIX then split_payload rest (tag - RLP_STRING_PREFIX)
           else and_then (split_payload rest (tag - RLP_LONG_STRING_PREFIX)) (\<lambda>(len_bytes, rest).
                and_then (decode_rlp_len len_bytes) (\<lambda>len. split_payload rest len)))
        else and_then (rlp_read_list bytes) (\<lambda>(_, rest).
             let consumed = length bytes - length rest in Inr (take consumed bytes, rest)))"

text \<open>Every item read consumes at least one byte, so the loop over a list payload ends.\<close>

lemma split_payload_Inr: "split_payload bytes len = Inr (p, r) \<Longrightarrow> bytes = p @ r \<and> length p = len"
  by (auto simp: split_payload_def split: if_splits)

lemma rlp_read_list_suffix:
  assumes "rlp_read_list bytes = Inr (p, r)"
  obtains h where "bytes = h @ p @ r" and "h \<noteq> []"
proof -
  obtain tag rest where b: "bytes = tag # rest" using assms by (cases bytes) (simp_all add: rlp_read_list_def)
  show thesis
  proof (cases "tag \<le> RLP_LONG_LIST_PREFIX")
    case True
    with assms b have "split_payload rest (tag - RLP_LIST_PREFIX) = Inr (p, r)"
      by (simp add: rlp_read_list_def split: if_splits)
    from split_payload_Inr [OF this] b that [of "[tag]"] show thesis by simp
  next
    case False
    then obtain lb rest' len where
      s: "split_payload rest (tag - RLP_LONG_LIST_PREFIX) = Inr (lb, rest')" "split_payload rest' len = Inr (p, r)"
      using assms b by (auto simp: rlp_read_list_def and_then_eq_Inr split: if_splits)
    from split_payload_Inr [OF s(1)] split_payload_Inr [OF s(2)] b that [of "tag # lb"] show thesis by simp
  qed
qed

lemma rlp_read_item_suffix:
  assumes "rlp_read_item bytes = Inr (p, r)"
  obtains h where "bytes = h @ p @ r" and "h @ p \<noteq> []"
proof -
  obtain tag rest where b: "bytes = tag # rest" using assms by (cases bytes) (simp_all add: rlp_read_item_def)
  consider "tag < RLP_STRING_PREFIX" | "RLP_STRING_PREFIX \<le> tag" "tag \<le> RLP_LONG_STRING_PREFIX"
    | "RLP_LONG_STRING_PREFIX < tag" "tag < RLP_LIST_PREFIX" | "RLP_LIST_PREFIX \<le> tag" by linarith
  then show thesis
  proof cases
    case 1
    with assms b that [of "[]"] show thesis by (auto simp: rlp_read_item_def)
  next
    case 2
    with assms b have "split_payload rest (tag - RLP_STRING_PREFIX) = Inr (p, r)"
      by (simp add: rlp_read_item_def rlp_prefix_defs split: if_splits)
    from split_payload_Inr [OF this] b that [of "[tag]"] show thesis by simp
  next
    case 3
    then obtain lb rest' len where
      s: "split_payload rest (tag - RLP_LONG_STRING_PREFIX) = Inr (lb, rest')" "split_payload rest' len = Inr (p, r)"
      using assms b by (auto simp: rlp_read_item_def and_then_eq_Inr rlp_prefix_defs split: if_splits)
    from split_payload_Inr [OF s(1)] split_payload_Inr [OF s(2)] b that [of "tag # lb"] show thesis by simp
  next
    case 4
    then obtain q where q: "rlp_read_list bytes = Inr (q, r)" and p: "p = take (length bytes - length r) bytes"
      using assms b by (auto simp: rlp_read_item_def and_then_eq_Inr rlp_prefix_defs Let_def split: if_splits)
    from q obtain h where "bytes = h @ q @ r" "h \<noteq> []" by (rule rlp_read_list_suffix)
    with p that [of "[]"] show thesis by simp
  qed
qed

function read_items :: "nat list \<Rightarrow> nat list list \<Rightarrow> raw_tx_decode_error + nat list list" where
  "read_items cursor out =
     (if cursor = [] then Inr out
      else and_then (rlp_read_item cursor) (\<lambda>p. case p of (item, rest) \<Rightarrow> read_items rest (out @ [item])))"
  by auto

termination
proof (relation "measure (\<lambda>(cursor, out). length cursor)")
  show "((rest, out @ [item]), (cursor, out)) \<in> measure (\<lambda>(cursor, out). length cursor)"
    if "cursor \<noteq> []" and "rlp_read_item cursor = Inr p" and "(item, rest) = p" for cursor p item rest and out :: "nat list list"
  proof -
    from that obtain h where "cursor = h @ item @ rest" "h @ item \<noteq> []" using rlp_read_item_suffix by blast
    then show ?thesis by auto
  qed
qed simp

declare read_items.simps [simp del]

definition read_exact_list :: "nat list \<Rightarrow> raw_tx_decode_error + nat list list" where
  "read_exact_list bytes = and_then (rlp_read_list bytes) (\<lambda>(payload, rest).
     if rest \<noteq> [] then Inl RlpTrailingBytes else read_items payload [])"

definition require_field_count :: "nat list list \<Rightarrow> nat \<Rightarrow> raw_tx_decode_error + unit" where
  "require_field_count fields expected =
     (if length fields = expected then Inr () else Inl (RlpWrongFieldCount expected (length fields)))"

lemma read_items_bytes:
  "read_items cursor out = Inr items \<Longrightarrow> byte_list cursor \<Longrightarrow> \<forall>x \<in> set out. byte_list x \<Longrightarrow> \<forall>x \<in> set items. byte_list x"
proof (induction cursor out rule: read_items.induct)
  case (1 cursor out)
  show ?case
  proof (cases "cursor = []")
    case True
    with 1 show ?thesis by (simp add: read_items.simps)
  next
    case False
    then obtain p where p: "rlp_read_item cursor = Inr p" and rest: "read_items (snd p) (out @ [fst p]) = Inr items"
      using 1(2) by (subst (asm) read_items.simps) (auto simp: and_then_eq_Inr split: prod.splits)
    from p obtain h where h: "cursor = h @ fst p @ snd p"
      using rlp_read_item_suffix [of cursor "fst p" "snd p"] by auto
    from 1(1) [OF False p prod.collapse rest] 1(3,4) show ?thesis unfolding h by simp
  qed
qed

lemma read_exact_list_bytes:
  assumes "read_exact_list bytes = Inr items" and "byte_list bytes" and "x \<in> set items"
  shows "byte_list x"
proof -
  obtain payload where l: "rlp_read_list bytes = Inr (payload, [])" and i: "read_items payload [] = Inr items"
    using assms(1) by (auto simp: read_exact_list_def and_then_eq_Inr split: if_splits)
  from l obtain h where "bytes = h @ payload @ []" by (rule rlp_read_list_suffix)
  with assms(2) read_items_bytes [OF i] assms(3) show ?thesis by simp
qed

section \<open>Writer\<close>

definition append_rlp_header :: "nat \<Rightarrow> nat \<Rightarrow> nat list \<Rightarrow> nat list" where
  "append_rlp_header base len out =
     (if len < 56 then out @ [base + len]
      else let be = to_be_bytes 8 len;
               first = (case position (\<lambda>byte. byte \<noteq> 0) be of Some i \<Rightarrow> i | None \<Rightarrow> length be - 1);
               len_bytes = drop first be
           in out @ [base + 55 + length len_bytes] @ len_bytes)"

definition append_rlp_bytes :: "nat list \<Rightarrow> nat list \<Rightarrow> nat list" where
  "append_rlp_bytes bytes out =
     (if length bytes = 1 \<and> bytes ! 0 < RLP_STRING_PREFIX then out @ [bytes ! 0]
      else append_rlp_header RLP_STRING_PREFIX (length bytes) out @ bytes)"

definition append_rlp_list_payload :: "nat list \<Rightarrow> nat list \<Rightarrow> nat list" where
  "append_rlp_list_payload payload out = append_rlp_header RLP_LIST_PREFIX (length payload) out @ payload"

definition append_rlp_list_from_bytes :: "nat list list \<Rightarrow> nat list \<Rightarrow> nat list" where
  "append_rlp_list_from_bytes fields out =
     (let payload = foldl (\<lambda>payload field. append_rlp_bytes field payload) [] fields
      in append_rlp_list_payload payload out)"

definition append_rlp_list_from_encoded_items :: "nat list list \<Rightarrow> nat list \<Rightarrow> nat list" where
  "append_rlp_list_from_encoded_items items out =
     (let payload_len = sum_list (map length items)
      in foldl (\<lambda>out item. out @ item) (append_rlp_header RLP_LIST_PREFIX payload_len out) items)"

definition nested_rlp_list :: "nat list list list \<Rightarrow> nat list" where
  "nested_rlp_list entries =
     (let encoded_entries = map (\<lambda>fields. append_rlp_list_from_bytes fields []) entries
      in append_rlp_list_from_encoded_items encoded_entries [])"

section \<open>The reference encoding\<close>

datatype rlp = Str "nat list" | Lst "rlp list"

fun be_min :: "nat \<Rightarrow> nat list" where
  "be_min n = (if n = 0 then [] else be_min (n div 256) @ [n mod 256])"

declare be_min.simps [simp del]

definition rlp_prefix :: "nat \<Rightarrow> nat \<Rightarrow> nat list" where
  "rlp_prefix base n = (if n < 56 then [base + n] else (base + 55 + length (be_min n)) # be_min n)"

fun rlp_encode :: "rlp \<Rightarrow> nat list" where
  "rlp_encode (Str bs) = (if length bs = 1 \<and> hd bs < 128 then bs else rlp_prefix 128 (length bs) @ bs)"
| "rlp_encode (Lst xs) = rlp_prefix 192 (length (concat (map rlp_encode xs))) @ concat (map rlp_encode xs)"

section \<open>What is written is read\<close>

definition rlp_reads :: "nat list \<Rightarrow> nat list \<Rightarrow> bool" where
  "rlp_reads e x \<longleftrightarrow> e \<noteq> [] \<and> (\<forall>r. rlp_read_item (e @ r) = Inr (x, r))"

text \<open>The length bytes: minimal big-endian, at most eight of them, read back by the decoder.\<close>

lemma dropWhile_zeros [simp]: "dropWhile (\<lambda>b. b = 0) (replicate k (0 :: nat) @ xs) = dropWhile (\<lambda>b. b = 0) xs"
  by (induction k) simp_all

lemma be_min_dropWhile: "n < 256 ^ k \<Longrightarrow> dropWhile (\<lambda>b. b = 0) (to_be_bytes k n) = be_min n"
proof (induction k arbitrary: n)
  case (Suc k)
  from Suc.prems have less: "n div 256 < 256 ^ k" by (simp add: less_mult_imp_div_less mult.commute)
  show ?case
  proof (cases "n div 256 = 0")
    case True
    have "be_min n = (if n = 0 then [] else [n])"
      using True by (simp add: be_min.simps [of n] be_min.simps [of 0])
    with True show ?thesis by simp
  next
    case False
    with Suc.IH [OF less] have "dropWhile (\<lambda>b. b = 0) (to_be_bytes k (n div 256)) \<noteq> []"
      by (simp only: be_min.simps [of "n div 256"]) simp
    then obtain x where "x \<in> set (to_be_bytes k (n div 256))" "x \<noteq> 0"
      by (auto simp: dropWhile_eq_Nil_conv)
    then have "dropWhile (\<lambda>b. b = 0) (to_be_bytes (Suc k) n)
        = dropWhile (\<lambda>b. b = 0) (to_be_bytes k (n div 256)) @ [n mod 256]"
      by (simp add: dropWhile_append1)
    also have "\<dots> = be_min n" using Suc.IH [OF less] False by (simp add: be_min.simps [of n])
    finally show ?thesis .
  qed
qed (simp add: be_min.simps)

lemma be_min_props:
  assumes "n < 2 ^ 64" and "n \<noteq> 0"
  shows "length (be_min n) \<le> 8" and "be_min n \<noteq> []" and "hd (be_min n) \<noteq> 0" and "byte_list (be_min n)"
    and "decode_rlp_len (be_min n) = Inr n"
proof -
  have d: "be_min n = dropWhile (\<lambda>b. b = 0) (to_be_bytes 8 n)" using be_min_dropWhile [of n 8] assms(1) by simp
  show len: "length (be_min n) \<le> 8" using length_dropWhile_le [of "\<lambda>b. b = 0" "to_be_bytes 8 n"] by (simp add: d)
  show ne: "be_min n \<noteq> []" using assms(2) by (simp add: be_min.simps)
  show hd: "hd (be_min n) \<noteq> 0" using ne hd_dropWhile [of "\<lambda>b. b = 0" "to_be_bytes 8 n"] by (simp add: d)
  show bytes: "byte_list (be_min n)" unfolding d byte_list_def using set_dropWhileD to_be_bytes_less by metis
  have no_wrap: "foldl (\<lambda>len byte. len * 256 mod 2 ^ 64 + byte) 0 bs = digits_value 256 bs"
    if "length bs \<le> 8" "byte_list bs" for bs
    using that
  proof (induction bs rule: rev_induct)
    case (snoc b bs)
    have "256 * digits_value 256 bs < 256 * 256 ^ length bs" using digits_value_less [of bs] snoc.prems by simp
    also have "\<dots> \<le> 256 * (256 :: nat) ^ 7" using snoc.prems by (intro mult_le_mono2 power_increasing) simp_all
    finally have "256 * digits_value 256 bs < 2 ^ 64" by simp
    with snoc show ?case by (simp add: mult.commute)
  qed simp
  have "digits_value 256 (be_min n) = n" using assms(1) by (simp add: d value_drop_zeros value_to_be_bytes)
  with no_wrap [OF len bytes] ne hd len show "decode_rlp_len (be_min n) = Inr n" by (simp add: decode_rlp_len_def)
qed

lemma append_rlp_header_eq: "len < 2 ^ 64 \<Longrightarrow> append_rlp_header base len out = out @ rlp_prefix base len"
proof (cases "len < 56")
  case False
  assume len: "len < 2 ^ 64"
  have d: "be_min len = dropWhile (\<lambda>b. b = 0) (to_be_bytes 8 len)" using be_min_dropWhile [of len 8] len by simp
  obtain i where i: "position (\<lambda>byte. byte \<noteq> 0) (to_be_bytes 8 len) = Some i"
    using be_min_props(2) [OF len] False unfolding d by (auto simp: position_def dropWhile_eq_Nil_conv list_ex_iff)
  have "drop i (to_be_bytes 8 len) = be_min len"
    using drop_position [of "to_be_bytes 8 len", unfolded i option.case] d by simp
  with i False show ?thesis
    by (simp only: append_rlp_header_def rlp_prefix_def Let_def option.case if_False append_Cons append_Nil)
qed (simp add: append_rlp_header_def rlp_prefix_def)

lemma rlp_prefix_not_Nil [simp]: "rlp_prefix base n \<noteq> []"
  by (simp add: rlp_prefix_def)

lemma split_payload_append [simp]: "split_payload (p @ r) (length p) = Inr (p, r)"
  by (simp add: split_payload_def)

text \<open>A list header is read back; so is a string header.\<close>

lemma rlp_read_list_prefix:
  assumes "length p < 2 ^ 64"
  shows "rlp_read_list (rlp_prefix 192 (length p) @ p @ r) = Inr (p, r)"
proof (cases "length p < 56")
  case True
  then show ?thesis by (simp add: rlp_prefix_def rlp_read_list_def rlp_prefix_defs)
next
  case False
  then have "length p \<noteq> 0" by linarith
  note be = be_min_props [OF assms this]
  with False show ?thesis
    by (simp add: rlp_prefix_def rlp_read_list_def rlp_prefix_defs)
qed

lemma rlp_reads_list:
  assumes "length p < 2 ^ 64"
  shows "rlp_reads (rlp_prefix 192 (length p) @ p) (rlp_prefix 192 (length p) @ p)"
proof -
  have "rlp_read_item (rlp_prefix 192 (length p) @ p @ r) = Inr (rlp_prefix 192 (length p) @ p, r)" for r
  proof -
    obtain tag rest where t: "rlp_prefix 192 (length p) = tag # rest" and "192 \<le> tag"
      by (cases "length p < 56") (auto simp: rlp_prefix_def)
    with rlp_read_list_prefix [OF assms, of r] show ?thesis by (simp add: rlp_read_item_def rlp_prefix_defs Let_def)
  qed
  then show ?thesis by (simp add: rlp_reads_def)
qed

lemma rlp_reads_string:
  assumes "length bs < 2 ^ 64"
  shows "rlp_reads (rlp_encode (Str bs)) bs"
proof -
  consider "length bs = 1" "hd bs < 128" | "\<not> (length bs = 1 \<and> hd bs < 128)" "length bs < 56" | "\<not> length bs < 56" by blast
  then show ?thesis
  proof cases
    case 1
    then obtain b where "bs = [b]" by (cases bs) auto
    with 1 show ?thesis by (simp add: rlp_reads_def rlp_read_item_def rlp_prefix_defs)
  next
    case 2
    then show ?thesis by (auto simp: rlp_reads_def rlp_read_item_def rlp_prefix_def rlp_prefix_defs)
  next
    case 3
    then have "length bs \<noteq> 0" by linarith
    note be = be_min_props [OF assms this]
    from 3 have "rlp_encode (Str bs) = (183 + length (be_min (length bs))) # be_min (length bs) @ bs"
      by (auto simp: rlp_prefix_def)
    moreover have "0 < length (be_min (length bs))" using be(2) by simp
    ultimately show ?thesis using be(1,5) by (simp add: rlp_reads_def rlp_read_item_def rlp_prefix_defs)
  qed
qed

lemma append_rlp_bytes_eq: "length bs < 2 ^ 64 \<Longrightarrow> append_rlp_bytes bs out = out @ rlp_encode (Str bs)"
  by (cases bs) (auto simp: append_rlp_bytes_def append_rlp_header_eq rlp_prefix_defs rlp_prefix_def)

text \<open>A list of readable items.\<close>

lemma read_items_concat:
  "list_all2 rlp_reads es xs \<Longrightarrow> read_items (concat es) out = Inr (out @ xs)"
proof (induction es xs arbitrary: out rule: list_all2_induct)
  case Nil
  then show ?case by (simp add: read_items.simps)
next
  case (Cons e es x xs)
  from Cons.hyps(1) have "e \<noteq> []" "rlp_read_item (e @ concat es) = Inr (x, concat es)" by (simp_all add: rlp_reads_def)
  with Cons.IH show ?case by (subst read_items.simps) simp
qed

lemma read_exact_list_concat:
  assumes "list_all2 rlp_reads es xs" and "length (concat es) < 2 ^ 64"
  shows "read_exact_list (rlp_prefix 192 (length (concat es)) @ concat es) = Inr xs"
  using rlp_read_list_prefix [OF assms(2), of "[]"] read_items_concat [OF assms(1), of "[]"]
  by (simp add: read_exact_list_def)

text \<open>The writers only append, so each is determined by what it writes to an empty buffer.\<close>

lemma append_rlp_header_out: "append_rlp_header base len out = out @ append_rlp_header base len []"
  by (simp add: append_rlp_header_def Let_def)

lemma append_rlp_bytes_out: "append_rlp_bytes bs out = out @ append_rlp_bytes bs []"
  using append_rlp_header_out [of _ _ out] by (simp add: append_rlp_bytes_def)

lemma append_rlp_bytes_fold:
  "foldl (\<lambda>payload field. append_rlp_bytes field payload) out fields = out @ concat (map (\<lambda>f. append_rlp_bytes f []) fields)"
proof (induction fields arbitrary: out)
  case (Cons field fields)
  show ?case unfolding foldl_Cons Cons.IH append_rlp_bytes_out [of field out] by simp
qed simp

lemma append_rlp_list_from_bytes_alt:
  "append_rlp_list_from_bytes fields out =
    (let payload = concat (map (\<lambda>f. append_rlp_bytes f []) fields)
     in out @ append_rlp_header RLP_LIST_PREFIX (length payload) [] @ payload)"
  by (simp add: append_rlp_list_from_bytes_def append_rlp_list_payload_def append_rlp_bytes_fold Let_def
      append_rlp_header_out [of _ _ out])

lemma append_rlp_list_from_encoded_items_alt:
  "append_rlp_list_from_encoded_items items out =
    out @ append_rlp_header RLP_LIST_PREFIX (length (concat items)) [] @ concat items"
proof -
  have "foldl (\<lambda>out item. out @ item) out items = out @ concat items" for out
    by (induction items arbitrary: out) simp_all
  then show ?thesis
    by (simp add: append_rlp_list_from_encoded_items_def length_concat append_rlp_header_out [of _ _ out])
qed

lemma length_append_rlp_header: "0 < length (append_rlp_header base len [])"
  by (simp add: append_rlp_header_def Let_def)

lemma length_append_rlp_bytes: "length bs \<le> length (append_rlp_bytes bs [])"
  by (simp add: append_rlp_bytes_def)

lemma length_concat_member: "x \<in> set xs \<Longrightarrow> length x \<le> length (concat xs)"
  by (induction xs) auto

text \<open>If the bytes written fit the address space, no length wraps, and the writer agrees with the
  reference encoding of the same strings.\<close>

lemma append_rlp_list_from_bytes_eq:
  assumes "length (append_rlp_list_from_bytes fields out) \<le> 2 ^ 64"
  shows "append_rlp_list_from_bytes fields out = out @ rlp_encode (Lst (map Str fields))"
    and "f \<in> set fields \<Longrightarrow> length f < 2 ^ 64"
    and "length (concat (map (\<lambda>f. rlp_encode (Str f)) fields)) < 2 ^ 64"
proof -
  let ?payload = "concat (map (\<lambda>f. append_rlp_bytes f []) fields)"
  have len: "length ?payload < 2 ^ 64"
    using assms length_append_rlp_header [of RLP_LIST_PREFIX "length ?payload"]
    unfolding append_rlp_list_from_bytes_alt Let_def length_append by linarith
  have small: "length f < 2 ^ 64" if "f \<in> set fields" for f
    using length_concat_member [of "append_rlp_bytes f []" "map (\<lambda>f. append_rlp_bytes f []) fields"]
      length_append_rlp_bytes [of f] len that by auto
  then show "length f < 2 ^ 64" if "f \<in> set fields" using that .
  have "map (\<lambda>f. append_rlp_bytes f []) fields = map (\<lambda>f. rlp_encode (Str f)) fields"
    using small by (simp add: append_rlp_bytes_eq del: rlp_encode.simps)
  then have payload: "?payload = concat (map (\<lambda>f. rlp_encode (Str f)) fields)" by (rule arg_cong)
  show "length (concat (map (\<lambda>f. rlp_encode (Str f)) fields)) < 2 ^ 64" using len unfolding payload .
  show "append_rlp_list_from_bytes fields out = out @ rlp_encode (Lst (map Str fields))"
    using len unfolding append_rlp_list_from_bytes_alt Let_def payload
    by (simp add: append_rlp_header_eq RLP_LIST_PREFIX_def comp_def del: rlp_encode.simps(1))
qed

lemma read_list_from_bytes:
  assumes "length (append_rlp_list_from_bytes fields []) \<le> 2 ^ 64"
  shows "read_exact_list (append_rlp_list_from_bytes fields []) = Inr fields"
proof -
  note eq = append_rlp_list_from_bytes_eq [OF assms]
  have "list_all2 rlp_reads (map (\<lambda>f. rlp_encode (Str f)) fields) fields"
    using eq(2) rlp_reads_string by (simp add: list_all2_conv_all_nth)
  from read_exact_list_concat [OF this eq(3)] eq(1) show ?thesis by (simp add: comp_def del: rlp_encode.simps(1))
qed

lemma rlp_reads_list_from_bytes:
  assumes "length (append_rlp_list_from_bytes fields []) \<le> 2 ^ 64"
  shows "rlp_reads (append_rlp_list_from_bytes fields []) (append_rlp_list_from_bytes fields [])"
  using append_rlp_list_from_bytes_eq(1) [OF assms] rlp_reads_list [OF append_rlp_list_from_bytes_eq(3) [OF assms]]
  by (simp add: comp_def del: rlp_encode.simps(1))

lemma read_nested_rlp_list:
  assumes "length (nested_rlp_list entries) \<le> 2 ^ 64"
  shows "read_exact_list (nested_rlp_list entries) = Inr (map (\<lambda>fields. append_rlp_list_from_bytes fields []) entries)"
    and "fields \<in> set entries \<Longrightarrow> length (append_rlp_list_from_bytes fields []) \<le> 2 ^ 64"
proof -
  let ?items = "map (\<lambda>fields. append_rlp_list_from_bytes fields []) entries"
  have eq: "nested_rlp_list entries = append_rlp_header RLP_LIST_PREFIX (length (concat ?items)) [] @ concat ?items"
    by (simp add: nested_rlp_list_def append_rlp_list_from_encoded_items_alt Let_def)
  have len: "length (concat ?items) < 2 ^ 64"
    using assms length_append_rlp_header [of RLP_LIST_PREFIX "length (concat ?items)"]
    unfolding eq length_append by linarith
  have small: "length (append_rlp_list_from_bytes fields []) \<le> 2 ^ 64" if "fields \<in> set entries" for fields
    using length_concat_member [of "append_rlp_list_from_bytes fields []" ?items] len that by auto
  then show "length (append_rlp_list_from_bytes fields []) \<le> 2 ^ 64" if "fields \<in> set entries" using that .
  have "list_all2 rlp_reads ?items ?items"
    using small rlp_reads_list_from_bytes by (simp add: list_all2_conv_all_nth)
  from read_exact_list_concat [OF this len] show "read_exact_list (nested_rlp_list entries) = Inr ?items"
    using len unfolding eq by (simp only: append_rlp_header_eq RLP_LIST_PREFIX_def append_Nil)
qed

text \<open>The reference encoding of a list is read as its items: strings as their payload, lists whole.\<close>

primrec rlp_item :: "rlp \<Rightarrow> nat list" where
  "rlp_item (Str bs) = bs"
| "rlp_item (Lst xs) = rlp_encode (Lst xs)"

lemma read_rlp_encode:
  assumes "length (rlp_encode (Lst xs)) \<le> 2 ^ 64"
  shows "read_exact_list (rlp_encode (Lst xs)) = Inr (map rlp_item xs)"
    and "x \<in> set xs \<Longrightarrow> length (rlp_encode x) \<le> 2 ^ 64"
proof -
  let ?es = "map rlp_encode xs"
  have "0 < length (rlp_prefix 192 (length (concat ?es)))" by simp
  then have len: "length (concat ?es) < 2 ^ 64" using assms unfolding rlp_encode.simps length_append by linarith
  have small: "length (rlp_encode x) < 2 ^ 64" if "x \<in> set xs" for x
    using length_concat_member [of "rlp_encode x" ?es] len that by auto
  then show "length (rlp_encode x) \<le> 2 ^ 64" if "x \<in> set xs" using that less_imp_le by blast
  have "rlp_reads (rlp_encode x) (rlp_item x)" if x: "x \<in> set xs" for x
  proof (cases x)
    case (Str bs)
    have "length bs \<le> length (rlp_encode x)" by (simp add: Str)
    with small [OF x] rlp_reads_string [of bs] show ?thesis by (simp add: Str del: rlp_encode.simps)
  next
    case (Lst ys)
    have "length (concat (map rlp_encode ys)) \<le> length (rlp_encode x)" by (simp add: Lst)
    with small [OF x] rlp_reads_list [of "concat (map rlp_encode ys)"] show ?thesis by (simp add: Lst)
  qed
  then have "list_all2 rlp_reads ?es (map rlp_item xs)" by (simp add: list_all2_conv_all_nth)
  from read_exact_list_concat [OF this len] show "read_exact_list (rlp_encode (Lst xs)) = Inr (map rlp_item xs)" by simp
qed

end
