(* ===== verification/Evm_Tx.thy ===== *)
theory Evm_Tx
  imports Rlp
begin

text \<open>
  Signed Ethereum transactions as \<^verbatim>\<open>src/l1/action/evm_raw_tx.rs\<close> has them: the five kinds, their
  decoder and their encoders.  A byte string is a list of numbers below 256, an \<open>Address\<close> has 20 bytes
  and a \<open>B256\<close> 32.
\<close>

section \<open>Data\<close>

datatype tx_kind = Create | Call "nat list"

record access_list_item =
  al_address :: "nat list"
  al_storage_keys :: "nat list list"

record authorization =
  au_chain_id :: nat
  au_address :: "nat list"
  au_nonce :: nat
  au_y_parity :: bool
  au_r :: "nat list"
  au_s :: "nat list"

record signature =
  sg_y_parity :: bool
  sg_r :: "nat list"
  sg_s :: "nat list"

record legacy_tx =
  lt_chain_id :: "nat option"
  lt_nonce :: nat
  lt_gas_price :: u256
  lt_gas_limit :: nat
  lt_to :: tx_kind
  lt_value :: u256
  lt_input :: "nat list"

record eip2930_tx =
  t2930_chain_id :: nat
  t2930_nonce :: nat
  t2930_gas_price :: u256
  t2930_gas_limit :: nat
  t2930_to :: tx_kind
  t2930_value :: u256
  t2930_input :: "nat list"
  t2930_access_list :: "access_list_item list"

record eip1559_tx =
  t1559_chain_id :: nat
  t1559_nonce :: nat
  t1559_max_priority_fee_per_gas :: u256
  t1559_max_fee_per_gas :: u256
  t1559_gas_limit :: nat
  t1559_to :: tx_kind
  t1559_value :: u256
  t1559_input :: "nat list"
  t1559_access_list :: "access_list_item list"

record eip4844_tx =
  t4844_chain_id :: nat
  t4844_nonce :: nat
  t4844_max_priority_fee_per_gas :: u256
  t4844_max_fee_per_gas :: u256
  t4844_gas_limit :: nat
  t4844_to :: tx_kind
  t4844_value :: u256
  t4844_input :: "nat list"
  t4844_access_list :: "access_list_item list"
  t4844_max_fee_per_blob_gas :: u256
  t4844_blob_versioned_hashes :: "nat list list"

record eip7702_tx =
  t7702_chain_id :: nat
  t7702_nonce :: nat
  t7702_max_priority_fee_per_gas :: u256
  t7702_max_fee_per_gas :: u256
  t7702_gas_limit :: nat
  t7702_to :: tx_kind
  t7702_value :: u256
  t7702_input :: "nat list"
  t7702_access_list :: "access_list_item list"
  t7702_authorization_list :: "authorization list"

datatype signed_eth_tx =
    Legacy legacy_tx signature
  | Eip2930 eip2930_tx signature
  | Eip1559 eip1559_tx signature
  | Eip4844 eip4844_tx signature
  | Eip7702 eip7702_tx signature

definition TX_TYPE_EIP2930 :: nat where "TX_TYPE_EIP2930 = 1"

definition TX_TYPE_EIP1559 :: nat where "TX_TYPE_EIP1559 = 2"

definition TX_TYPE_EIP4844 :: nat where "TX_TYPE_EIP4844 = 3"

definition TX_TYPE_EIP7702 :: nat where "TX_TYPE_EIP7702 = 4"

definition LEGACY_PROTECTED_V_BASE :: nat where "LEGACY_PROTECTED_V_BASE = 35"

definition LEGACY_UNPROTECTED_V_BASE :: nat where "LEGACY_UNPROTECTED_V_BASE = 27"

lemmas tx_type_defs = TX_TYPE_EIP2930_def TX_TYPE_EIP1559_def TX_TYPE_EIP4844_def TX_TYPE_EIP7702_def

section \<open>Decoder\<close>

definition rlp_u256 :: "nat list \<Rightarrow> raw_tx_decode_error + u256" where
  "rlp_u256 bytes = (if 1 < length bytes \<and> bytes ! 0 = 0 then Inl RlpNonCanonical else u256_from_be_slice bytes)"

definition rlp_u64 :: "nat list \<Rightarrow> raw_tx_decode_error + nat" where
  "rlp_u64 bytes = and_then (rlp_u256 bytes) u256_as_u64"

definition rlp_y_parity :: "nat list \<Rightarrow> raw_tx_decode_error + bool" where
  "rlp_y_parity bytes = and_then (rlp_u256 bytes) (\<lambda>value.
     if value = u256_zero then Inr False
     else if value = u256_one then Inr True
     else Inl (InvalidYParity value))"

definition rlp_tx_kind :: "nat list \<Rightarrow> raw_tx_decode_error + tx_kind" where
  "rlp_tx_kind bytes =
     (if length bytes = 0 then Inr Create
      else if length bytes = 20 then Inr (Call bytes)
      else Inl (InvalidAddressLength (length bytes)))"

definition rlp_b256 :: "nat list \<Rightarrow> raw_tx_decode_error + nat list" where
  "rlp_b256 bytes =
     (if 32 < length bytes then Inl (InvalidHashLength (length bytes))
      else Inr (replicate (32 - length bytes) 0 @ bytes))"

definition legacy_v :: "u256 \<Rightarrow> raw_tx_decode_error + nat option \<times> bool" where
  "legacy_v v = (case u256_as_u64 v of
      Inl _ \<Rightarrow> Inl (InvalidLegacyV v)
    | Inr v64 \<Rightarrow>
        if v64 = 27 then Inr (None, False)
        else if v64 = 28 then Inr (None, True)
        else if LEGACY_PROTECTED_V_BASE \<le> v64 then
          (let adjusted = v64 - LEGACY_PROTECTED_V_BASE in Inr (Some (adjusted div 2), adjusted mod 2 = 1))
        else Inl (InvalidLegacyV v))"

definition decode_b256_list :: "nat list \<Rightarrow> raw_tx_decode_error + nat list list" where
  "decode_b256_list bytes = and_then (read_exact_list bytes)
     (collect_results (\<lambda>item. if length item \<noteq> 32 then Inl (InvalidHashLength (length item)) else Inr item))"

definition decode_access_list_entry :: "nat list \<Rightarrow> raw_tx_decode_error + access_list_item" where
  "decode_access_list_entry entry =
     and_then (read_exact_list entry) (\<lambda>fields.
     and_then (require_field_count fields 2) (\<lambda>_.
     and_then (if length (fields ! 0) = 20 then Inr (fields ! 0) else Inl (InvalidAddressLength (length (fields ! 0)))) (\<lambda>address.
     and_then (decode_b256_list (fields ! 1)) (\<lambda>storage_keys.
     Inr \<lparr>al_address = address, al_storage_keys = storage_keys\<rparr>))))"

definition decode_access_list :: "nat list \<Rightarrow> raw_tx_decode_error + access_list_item list" where
  "decode_access_list bytes = and_then (read_exact_list bytes) (collect_results decode_access_list_entry)"

definition decode_authorization :: "nat list \<Rightarrow> raw_tx_decode_error + authorization" where
  "decode_authorization entry =
     and_then (read_exact_list entry) (\<lambda>fields.
     and_then (require_field_count fields 6) (\<lambda>_.
     and_then (if length (fields ! 1) = 20 then Inr (fields ! 1) else Inl (InvalidAddressLength (length (fields ! 1)))) (\<lambda>address.
     and_then (rlp_u64 (fields ! 0)) (\<lambda>chain_id.
     and_then (rlp_u64 (fields ! 2)) (\<lambda>nonce.
     and_then (rlp_y_parity (fields ! 3)) (\<lambda>y_parity.
     and_then (rlp_b256 (fields ! 4)) (\<lambda>r.
     and_then (rlp_b256 (fields ! 5)) (\<lambda>s.
     Inr \<lparr>au_chain_id = chain_id, au_address = address, au_nonce = nonce, au_y_parity = y_parity, au_r = r, au_s = s\<rparr>))))))))"

definition decode_authorization_list :: "nat list \<Rightarrow> raw_tx_decode_error + authorization list" where
  "decode_authorization_list bytes = and_then (read_exact_list bytes) (collect_results decode_authorization)"

definition decode_legacy :: "nat list \<Rightarrow> raw_tx_decode_error + signed_eth_tx" where
  "decode_legacy raw =
     and_then (read_exact_list raw) (\<lambda>items.
     and_then (require_field_count items 9) (\<lambda>_.
     and_then (rlp_u64 (items ! 0)) (\<lambda>nonce.
     and_then (rlp_u256 (items ! 1)) (\<lambda>gas_price.
     and_then (rlp_u64 (items ! 2)) (\<lambda>gas_limit.
     and_then (rlp_tx_kind (items ! 3)) (\<lambda>to.
     and_then (rlp_u256 (items ! 4)) (\<lambda>value.
     and_then (rlp_u256 (items ! 6)) (\<lambda>v.
     and_then (legacy_v v) (\<lambda>(chain_id, y_parity).
     and_then (rlp_b256 (items ! 7)) (\<lambda>r.
     and_then (rlp_b256 (items ! 8)) (\<lambda>s.
     Inr (Legacy
       \<lparr>lt_chain_id = chain_id, lt_nonce = nonce, lt_gas_price = gas_price, lt_gas_limit = gas_limit,
        lt_to = to, lt_value = value, lt_input = items ! 5\<rparr>
       \<lparr>sg_y_parity = y_parity, sg_r = r, sg_s = s\<rparr>))))))))))))"

text \<open>The signature fields that end the list of every typed transaction.\<close>

definition decode_signature :: "nat list \<Rightarrow> nat list \<Rightarrow> nat list \<Rightarrow> raw_tx_decode_error + signature" where
  "decode_signature y_parity_item r_item s_item =
     and_then (rlp_y_parity y_parity_item) (\<lambda>y_parity.
     and_then (rlp_b256 r_item) (\<lambda>r.
     and_then (rlp_b256 s_item) (\<lambda>s.
     Inr \<lparr>sg_y_parity = y_parity, sg_r = r, sg_s = s\<rparr>)))"

definition decode_eip2930 :: "nat list \<Rightarrow> raw_tx_decode_error + signed_eth_tx" where
  "decode_eip2930 raw =
     and_then (read_exact_list raw) (\<lambda>items.
     and_then (require_field_count items 11) (\<lambda>_.
     and_then (rlp_u64 (items ! 0)) (\<lambda>chain_id.
     and_then (rlp_u64 (items ! 1)) (\<lambda>nonce.
     and_then (rlp_u256 (items ! 2)) (\<lambda>gas_price.
     and_then (rlp_u64 (items ! 3)) (\<lambda>gas_limit.
     and_then (rlp_tx_kind (items ! 4)) (\<lambda>to.
     and_then (rlp_u256 (items ! 5)) (\<lambda>value.
     and_then (decode_access_list (items ! 7)) (\<lambda>access_list.
     and_then (decode_signature (items ! 8) (items ! 9) (items ! 10)) (\<lambda>sig.
     Inr (Eip2930
       \<lparr>t2930_chain_id = chain_id, t2930_nonce = nonce, t2930_gas_price = gas_price,
        t2930_gas_limit = gas_limit, t2930_to = to, t2930_value = value,
        t2930_input = items ! 6, t2930_access_list = access_list\<rparr>
       sig)))))))))))"

definition decode_eip1559 :: "nat list \<Rightarrow> raw_tx_decode_error + signed_eth_tx" where
  "decode_eip1559 raw =
     and_then (read_exact_list raw) (\<lambda>items.
     and_then (require_field_count items 12) (\<lambda>_.
     and_then (rlp_u64 (items ! 0)) (\<lambda>chain_id.
     and_then (rlp_u64 (items ! 1)) (\<lambda>nonce.
     and_then (rlp_u256 (items ! 2)) (\<lambda>max_priority_fee_per_gas.
     and_then (rlp_u256 (items ! 3)) (\<lambda>max_fee_per_gas.
     and_then (rlp_u64 (items ! 4)) (\<lambda>gas_limit.
     and_then (rlp_tx_kind (items ! 5)) (\<lambda>to.
     and_then (rlp_u256 (items ! 6)) (\<lambda>value.
     and_then (decode_access_list (items ! 8)) (\<lambda>access_list.
     and_then (decode_signature (items ! 9) (items ! 10) (items ! 11)) (\<lambda>sig.
     Inr (Eip1559
       \<lparr>t1559_chain_id = chain_id, t1559_nonce = nonce,
        t1559_max_priority_fee_per_gas = max_priority_fee_per_gas,
        t1559_max_fee_per_gas = max_fee_per_gas, t1559_gas_limit = gas_limit, t1559_to = to,
        t1559_value = value, t1559_input = items ! 7, t1559_access_list = access_list\<rparr>
       sig))))))))))))"

definition decode_eip4844 :: "nat list \<Rightarrow> raw_tx_decode_error + signed_eth_tx" where
  "decode_eip4844 raw =
     and_then (read_exact_list raw) (\<lambda>items.
     and_then (require_field_count items 14) (\<lambda>_.
     and_then (rlp_u64 (items ! 0)) (\<lambda>chain_id.
     and_then (rlp_u64 (items ! 1)) (\<lambda>nonce.
     and_then (rlp_u256 (items ! 2)) (\<lambda>max_priority_fee_per_gas.
     and_then (rlp_u256 (items ! 3)) (\<lambda>max_fee_per_gas.
     and_then (rlp_u64 (items ! 4)) (\<lambda>gas_limit.
     and_then (rlp_tx_kind (items ! 5)) (\<lambda>to.
     and_then (rlp_u256 (items ! 6)) (\<lambda>value.
     and_then (decode_access_list (items ! 8)) (\<lambda>access_list.
     and_then (rlp_u256 (items ! 9)) (\<lambda>max_fee_per_blob_gas.
     and_then (decode_b256_list (items ! 10)) (\<lambda>blob_versioned_hashes.
     and_then (decode_signature (items ! 11) (items ! 12) (items ! 13)) (\<lambda>sig.
     Inr (Eip4844
       \<lparr>t4844_chain_id = chain_id, t4844_nonce = nonce,
        t4844_max_priority_fee_per_gas = max_priority_fee_per_gas,
        t4844_max_fee_per_gas = max_fee_per_gas, t4844_gas_limit = gas_limit, t4844_to = to,
        t4844_value = value, t4844_input = items ! 7, t4844_access_list = access_list,
        t4844_max_fee_per_blob_gas = max_fee_per_blob_gas,
        t4844_blob_versioned_hashes = blob_versioned_hashes\<rparr>
       sig))))))))))))))"

definition decode_eip7702 :: "nat list \<Rightarrow> raw_tx_decode_error + signed_eth_tx" where
  "decode_eip7702 raw =
     and_then (read_exact_list raw) (\<lambda>items.
     and_then (require_field_count items 13) (\<lambda>_.
     and_then (rlp_u64 (items ! 0)) (\<lambda>chain_id.
     and_then (rlp_u64 (items ! 1)) (\<lambda>nonce.
     and_then (rlp_u256 (items ! 2)) (\<lambda>max_priority_fee_per_gas.
     and_then (rlp_u256 (items ! 3)) (\<lambda>max_fee_per_gas.
     and_then (rlp_u64 (items ! 4)) (\<lambda>gas_limit.
     and_then (rlp_tx_kind (items ! 5)) (\<lambda>to.
     and_then (rlp_u256 (items ! 6)) (\<lambda>value.
     and_then (decode_access_list (items ! 8)) (\<lambda>access_list.
     and_then (decode_authorization_list (items ! 9)) (\<lambda>authorization_list.
     and_then (decode_signature (items ! 10) (items ! 11) (items ! 12)) (\<lambda>sig.
     Inr (Eip7702
       \<lparr>t7702_chain_id = chain_id, t7702_nonce = nonce,
        t7702_max_priority_fee_per_gas = max_priority_fee_per_gas,
        t7702_max_fee_per_gas = max_fee_per_gas, t7702_gas_limit = gas_limit, t7702_to = to,
        t7702_value = value, t7702_input = items ! 7, t7702_access_list = access_list,
        t7702_authorization_list = authorization_list\<rparr>
       sig)))))))))))))"

definition decode_raw_transaction :: "nat list \<Rightarrow> raw_tx_decode_error + signed_eth_tx" where
  "decode_raw_transaction raw = (case raw of
      [] \<Rightarrow> Inl Empty
    | first # rest \<Rightarrow>
        if 0x80 \<le> first then decode_legacy raw
        else if first = TX_TYPE_EIP2930 then decode_eip2930 rest
        else if first = TX_TYPE_EIP1559 then decode_eip1559 rest
        else if first = TX_TYPE_EIP4844 then decode_eip4844 rest
        else if first = TX_TYPE_EIP7702 then decode_eip7702 rest
        else Inl (UnsupportedTypedTransaction first))"

section \<open>Encoders\<close>

definition rlp_integer_bytes :: "u256 \<Rightarrow> nat list" where
  "rlp_integer_bytes value = u256_to_minimal_be_vec value"

definition b256_integer_bytes :: "nat list \<Rightarrow> nat list" where
  "b256_integer_bytes value =
     (let first = (case position (\<lambda>byte. byte \<noteq> 0) value of Some i \<Rightarrow> i | None \<Rightarrow> 32) in drop first value)"

primrec tx_kind_bytes :: "tx_kind \<Rightarrow> nat list" where
  "tx_kind_bytes Create = []"
| "tx_kind_bytes (Call address) = address"

definition signature_fields :: "signature \<Rightarrow> nat list list" where
  "signature_fields sig =
     [rlp_integer_bytes (u256_from_u64 (of_bool (sg_y_parity sig))), b256_integer_bytes (sg_r sig), b256_integer_bytes (sg_s sig)]"

definition b256_list_bytes :: "nat list list \<Rightarrow> nat list" where
  "b256_list_bytes list = append_rlp_list_from_bytes list []"

definition access_list_bytes :: "access_list_item list \<Rightarrow> nat list" where
  "access_list_bytes list =
     nested_rlp_list (map (\<lambda>item. [al_address item, b256_list_bytes (al_storage_keys item)]) list)"

definition authorization_fields :: "authorization \<Rightarrow> nat list list" where
  "authorization_fields item =
     [rlp_integer_bytes (u256_from_u64 (au_chain_id item)), au_address item,
      rlp_integer_bytes (u256_from_u64 (au_nonce item)),
      rlp_integer_bytes (u256_from_u64 (of_bool (au_y_parity item))),
      b256_integer_bytes (au_r item), b256_integer_bytes (au_s item)]"

definition authorization_list_bytes :: "authorization list \<Rightarrow> nat list" where
  "authorization_list_bytes list = nested_rlp_list (map authorization_fields list)"

text \<open>\<open>v\<close> of a legacy transaction; the additions wrap as those of a release build do.\<close>

definition legacy_signed_v :: "nat option \<Rightarrow> bool \<Rightarrow> nat" where
  "legacy_signed_v chain_id y_parity = (case chain_id of
      Some c \<Rightarrow> (LEGACY_PROTECTED_V_BASE + saturating_mul_u64 c 2 + of_bool y_parity) mod 2 ^ 64
    | None \<Rightarrow> LEGACY_UNPROTECTED_V_BASE + of_bool y_parity)"

definition legacy_fields :: "legacy_tx \<Rightarrow> nat list list" where
  "legacy_fields tx =
     [rlp_integer_bytes (u256_from_u64 (lt_nonce tx)), rlp_integer_bytes (lt_gas_price tx),
      rlp_integer_bytes (u256_from_u64 (lt_gas_limit tx)), tx_kind_bytes (lt_to tx),
      rlp_integer_bytes (lt_value tx), lt_input tx]"

definition append_legacy_signable :: "legacy_tx \<Rightarrow> nat list \<Rightarrow> nat list" where
  "append_legacy_signable tx out =
     append_rlp_list_from_bytes
       (legacy_fields tx @ (case lt_chain_id tx of
          Some chain_id \<Rightarrow> [rlp_integer_bytes (u256_from_u64 chain_id), [], []]
        | None \<Rightarrow> [])) out"

definition append_legacy_signed :: "legacy_tx \<Rightarrow> signature \<Rightarrow> nat list \<Rightarrow> nat list" where
  "append_legacy_signed tx sig out =
     append_rlp_list_from_bytes
       (legacy_fields tx @
        [rlp_integer_bytes (u256_from_u64 (legacy_signed_v (lt_chain_id tx) (sg_y_parity sig))),
         b256_integer_bytes (sg_r sig), b256_integer_bytes (sg_s sig)]) out"

definition append_eip2930_fields :: "eip2930_tx \<Rightarrow> signature option \<Rightarrow> nat list \<Rightarrow> nat list" where
  "append_eip2930_fields tx sig out =
     append_rlp_list_from_bytes
       ([rlp_integer_bytes (u256_from_u64 (t2930_chain_id tx)),
         rlp_integer_bytes (u256_from_u64 (t2930_nonce tx)),
         rlp_integer_bytes (t2930_gas_price tx),
         rlp_integer_bytes (u256_from_u64 (t2930_gas_limit tx)),
         tx_kind_bytes (t2930_to tx),
         rlp_integer_bytes (t2930_value tx),
         t2930_input tx,
         access_list_bytes (t2930_access_list tx)] @
        (case sig of Some s \<Rightarrow> signature_fields s | None \<Rightarrow> [])) out"

definition append_eip2930_signable :: "eip2930_tx \<Rightarrow> nat list \<Rightarrow> nat list" where
  "append_eip2930_signable tx out = append_eip2930_fields tx None out"

definition append_eip2930_signed :: "eip2930_tx \<Rightarrow> signature \<Rightarrow> nat list \<Rightarrow> nat list" where
  "append_eip2930_signed tx sig out = append_eip2930_fields tx (Some sig) out"

definition append_eip1559_fields :: "eip1559_tx \<Rightarrow> signature option \<Rightarrow> nat list \<Rightarrow> nat list" where
  "append_eip1559_fields tx sig out =
     append_rlp_list_from_bytes
       ([rlp_integer_bytes (u256_from_u64 (t1559_chain_id tx)),
         rlp_integer_bytes (u256_from_u64 (t1559_nonce tx)),
         rlp_integer_bytes (t1559_max_priority_fee_per_gas tx),
         rlp_integer_bytes (t1559_max_fee_per_gas tx),
         rlp_integer_bytes (u256_from_u64 (t1559_gas_limit tx)),
         tx_kind_bytes (t1559_to tx),
         rlp_integer_bytes (t1559_value tx),
         t1559_input tx,
         access_list_bytes (t1559_access_list tx)] @
        (case sig of Some s \<Rightarrow> signature_fields s | None \<Rightarrow> [])) out"

definition append_eip1559_signable :: "eip1559_tx \<Rightarrow> nat list \<Rightarrow> nat list" where
  "append_eip1559_signable tx out = append_eip1559_fields tx None out"

definition append_eip1559_signed :: "eip1559_tx \<Rightarrow> signature \<Rightarrow> nat list \<Rightarrow> nat list" where
  "append_eip1559_signed tx sig out = append_eip1559_fields tx (Some sig) out"

definition append_eip4844_fields :: "eip4844_tx \<Rightarrow> signature option \<Rightarrow> nat list \<Rightarrow> nat list" where
  "append_eip4844_fields tx sig out =
     append_rlp_list_from_bytes
       ([rlp_integer_bytes (u256_from_u64 (t4844_chain_id tx)),
         rlp_integer_bytes (u256_from_u64 (t4844_nonce tx)),
         rlp_integer_bytes (t4844_max_priority_fee_per_gas tx),
         rlp_integer_bytes (t4844_max_fee_per_gas tx),
         rlp_integer_bytes (u256_from_u64 (t4844_gas_limit tx)),
         tx_kind_bytes (t4844_to tx),
         rlp_integer_bytes (t4844_value tx),
         t4844_input tx,
         access_list_bytes (t4844_access_list tx),
         rlp_integer_bytes (t4844_max_fee_per_blob_gas tx),
         b256_list_bytes (t4844_blob_versioned_hashes tx)] @
        (case sig of Some s \<Rightarrow> signature_fields s | None \<Rightarrow> [])) out"

definition append_eip4844_signable :: "eip4844_tx \<Rightarrow> nat list \<Rightarrow> nat list" where
  "append_eip4844_signable tx out = append_eip4844_fields tx None out"

definition append_eip4844_signed :: "eip4844_tx \<Rightarrow> signature \<Rightarrow> nat list \<Rightarrow> nat list" where
  "append_eip4844_signed tx sig out = append_eip4844_fields tx (Some sig) out"

definition append_eip7702_fields :: "eip7702_tx \<Rightarrow> signature option \<Rightarrow> nat list \<Rightarrow> nat list" where
  "append_eip7702_fields tx sig out =
     append_rlp_list_from_bytes
       ([rlp_integer_bytes (u256_from_u64 (t7702_chain_id tx)),
         rlp_integer_bytes (u256_from_u64 (t7702_nonce tx)),
         rlp_integer_bytes (t7702_max_priority_fee_per_gas tx),
         rlp_integer_bytes (t7702_max_fee_per_gas tx),
         rlp_integer_bytes (u256_from_u64 (t7702_gas_limit tx)),
         tx_kind_bytes (t7702_to tx),
         rlp_integer_bytes (t7702_value tx),
         t7702_input tx,
         access_list_bytes (t7702_access_list tx),
         authorization_list_bytes (t7702_authorization_list tx)] @
        (case sig of Some s \<Rightarrow> signature_fields s | None \<Rightarrow> [])) out"

definition append_eip7702_signable :: "eip7702_tx \<Rightarrow> nat list \<Rightarrow> nat list" where
  "append_eip7702_signable tx out = append_eip7702_fields tx None out"

definition append_eip7702_signed :: "eip7702_tx \<Rightarrow> signature \<Rightarrow> nat list \<Rightarrow> nat list" where
  "append_eip7702_signed tx sig out = append_eip7702_fields tx (Some sig) out"

primrec append_raw_signed_encoding :: "signed_eth_tx \<Rightarrow> nat list \<Rightarrow> nat list" where
  "append_raw_signed_encoding (Legacy tx sig) out = append_legacy_signed tx sig out"
| "append_raw_signed_encoding (Eip2930 tx sig) out = append_eip2930_signed tx sig (out @ [TX_TYPE_EIP2930])"
| "append_raw_signed_encoding (Eip1559 tx sig) out = append_eip1559_signed tx sig (out @ [TX_TYPE_EIP1559])"
| "append_raw_signed_encoding (Eip4844 tx sig) out = append_eip4844_signed tx sig (out @ [TX_TYPE_EIP4844])"
| "append_raw_signed_encoding (Eip7702 tx sig) out = append_eip7702_signed tx sig (out @ [TX_TYPE_EIP7702])"

definition raw_signed_encoding :: "signed_eth_tx \<Rightarrow> nat list" where
  "raw_signed_encoding tx = append_raw_signed_encoding tx []"

primrec append_signable_encoding :: "signed_eth_tx \<Rightarrow> nat list \<Rightarrow> nat list" where
  "append_signable_encoding (Legacy tx sig) out = append_legacy_signable tx out"
| "append_signable_encoding (Eip2930 tx sig) out = append_eip2930_signable tx (out @ [TX_TYPE_EIP2930])"
| "append_signable_encoding (Eip1559 tx sig) out = append_eip1559_signable tx (out @ [TX_TYPE_EIP1559])"
| "append_signable_encoding (Eip4844 tx sig) out = append_eip4844_signable tx (out @ [TX_TYPE_EIP4844])"
| "append_signable_encoding (Eip7702 tx sig) out = append_eip7702_signable tx (out @ [TX_TYPE_EIP7702])"

definition signable_encoding :: "signed_eth_tx \<Rightarrow> nat list" where
  "signable_encoding tx = append_signable_encoding tx []"

end
