(* ===== verification/Evm_Tx_Codec.thy ===== *)
theory Evm_Tx_Codec
  imports Evm_Tx
begin

text \<open>
  Decoding and encoding of transactions are inverse.  \<open>signed_eth_tx_ok\<close> states the ranges the types
  of the source guarantee; every decoded transaction satisfies it (which for a legacy transaction
  includes that \<open>v\<close> can be recomputed without overflow), and every transaction that satisfies it is
  decoded from its encoding.
\<close>

section \<open>Well-formed transactions\<close>

definition u64_ok :: "nat \<Rightarrow> bool" where
  "u64_ok n \<longleftrightarrow> n < 2 ^ 64"

definition b256_ok :: "nat list \<Rightarrow> bool" where
  "b256_ok b \<longleftrightarrow> length b = 32 \<and> byte_list b"

definition address_ok :: "nat list \<Rightarrow> bool" where
  "address_ok a \<longleftrightarrow> length a = 20 \<and> byte_list a"

primrec tx_kind_ok :: "tx_kind \<Rightarrow> bool" where
  "tx_kind_ok Create \<longleftrightarrow> True"
| "tx_kind_ok (Call a) \<longleftrightarrow> address_ok a"

definition access_list_item_ok :: "access_list_item \<Rightarrow> bool" where
  "access_list_item_ok i \<longleftrightarrow> address_ok (al_address i) \<and> list_all b256_ok (al_storage_keys i)"

definition authorization_ok :: "authorization \<Rightarrow> bool" where
  "authorization_ok a \<longleftrightarrow> u64_ok (au_chain_id a) \<and> address_ok (au_address a) \<and> u64_ok (au_nonce a) \<and> b256_ok (au_r a) \<and> b256_ok (au_s a)"

definition signature_ok :: "signature \<Rightarrow> bool" where
  "signature_ok s \<longleftrightarrow> b256_ok (sg_r s) \<and> b256_ok (sg_s s)"

definition chain_id_ok :: "nat option \<Rightarrow> bool \<Rightarrow> bool" where
  "chain_id_ok chain_id y_parity \<longleftrightarrow> (case chain_id of Some c \<Rightarrow> u64_ok (2 * c + 35 + of_bool y_parity) | None \<Rightarrow> True)"

definition legacy_tx_ok :: "legacy_tx \<Rightarrow> bool" where
  "legacy_tx_ok tx \<longleftrightarrow> u64_ok (lt_nonce tx) \<and> u256_ok (lt_gas_price tx) \<and> u64_ok (lt_gas_limit tx) \<and> tx_kind_ok (lt_to tx)
     \<and> u256_ok (lt_value tx) \<and> byte_list (lt_input tx)"

definition eip2930_tx_ok :: "eip2930_tx \<Rightarrow> bool" where
  "eip2930_tx_ok tx \<longleftrightarrow> u64_ok (t2930_chain_id tx)
     \<and> u64_ok (t2930_nonce tx)
     \<and> u256_ok (t2930_gas_price tx)
     \<and> u64_ok (t2930_gas_limit tx)
     \<and> tx_kind_ok (t2930_to tx)
     \<and> u256_ok (t2930_value tx)
     \<and> byte_list (t2930_input tx)
     \<and> list_all access_list_item_ok (t2930_access_list tx)"

definition eip1559_tx_ok :: "eip1559_tx \<Rightarrow> bool" where
  "eip1559_tx_ok tx \<longleftrightarrow> u64_ok (t1559_chain_id tx)
     \<and> u64_ok (t1559_nonce tx)
     \<and> u256_ok (t1559_max_priority_fee_per_gas tx)
     \<and> u256_ok (t1559_max_fee_per_gas tx)
     \<and> u64_ok (t1559_gas_limit tx)
     \<and> tx_kind_ok (t1559_to tx)
     \<and> u256_ok (t1559_value tx)
     \<and> byte_list (t1559_input tx)
     \<and> list_all access_list_item_ok (t1559_access_list tx)"

definition eip4844_tx_ok :: "eip4844_tx \<Rightarrow> bool" where
  "eip4844_tx_ok tx \<longleftrightarrow> u64_ok (t4844_chain_id tx)
     \<and> u64_ok (t4844_nonce tx)
     \<and> u256_ok (t4844_max_priority_fee_per_gas tx)
     \<and> u256_ok (t4844_max_fee_per_gas tx)
     \<and> u64_ok (t4844_gas_limit tx)
     \<and> tx_kind_ok (t4844_to tx)
     \<and> u256_ok (t4844_value tx)
     \<and> byte_list (t4844_input tx)
     \<and> list_all access_list_item_ok (t4844_access_list tx)
     \<and> u256_ok (t4844_max_fee_per_blob_gas tx)
     \<and> list_all b256_ok (t4844_blob_versioned_hashes tx)"

definition eip7702_tx_ok :: "eip7702_tx \<Rightarrow> bool" where
  "eip7702_tx_ok tx \<longleftrightarrow> u64_ok (t7702_chain_id tx)
     \<and> u64_ok (t7702_nonce tx)
     \<and> u256_ok (t7702_max_priority_fee_per_gas tx)
     \<and> u256_ok (t7702_max_fee_per_gas tx)
     \<and> u64_ok (t7702_gas_limit tx)
     \<and> tx_kind_ok (t7702_to tx)
     \<and> u256_ok (t7702_value tx)
     \<and> byte_list (t7702_input tx)
     \<and> list_all access_list_item_ok (t7702_access_list tx)
     \<and> list_all authorization_ok (t7702_authorization_list tx)"

primrec signed_eth_tx_ok :: "signed_eth_tx \<Rightarrow> bool" where
  "signed_eth_tx_ok (Legacy tx sig) \<longleftrightarrow> chain_id_ok (lt_chain_id tx) (sg_y_parity sig) \<and> legacy_tx_ok tx \<and> signature_ok sig"
| "signed_eth_tx_ok (Eip2930 tx sig) \<longleftrightarrow> eip2930_tx_ok tx \<and> signature_ok sig"
| "signed_eth_tx_ok (Eip1559 tx sig) \<longleftrightarrow> eip1559_tx_ok tx \<and> signature_ok sig"
| "signed_eth_tx_ok (Eip4844 tx sig) \<longleftrightarrow> eip4844_tx_ok tx \<and> signature_ok sig"
| "signed_eth_tx_ok (Eip7702 tx sig) \<longleftrightarrow> eip7702_tx_ok tx \<and> signature_ok sig"

section \<open>Fields: decoded values are well-formed\<close>

named_theorems field_type \<open>what a field decoder guarantees of its result\<close>

lemma rlp_u256_ok [field_type]: "rlp_u256 bs = Inr x \<Longrightarrow> byte_list bs \<Longrightarrow> u256_ok x"
proof -
  assume a: "rlp_u256 bs = Inr x" "byte_list bs"
  then have s: "u256_from_be_slice bs = Inr x" by (simp add: rlp_u256_def split: if_splits)
  then have "length bs \<le> 32" by (simp add: u256_from_be_slice_def split: if_splits)
  from u256_from_be_slice_val [OF a(2) this] s show "u256_ok x" by (metis sum.inject(2))
qed

lemma rlp_u64_ok [field_type]: "rlp_u64 bs = Inr n \<Longrightarrow> byte_list bs \<Longrightarrow> u64_ok n"
  using rlp_u256_ok by (auto simp: u64_ok_def rlp_u64_def and_then_eq_Inr u256_as_u64_val split: if_splits)

lemma rlp_tx_kind_ok [field_type]: "rlp_tx_kind bs = Inr k \<Longrightarrow> byte_list bs \<Longrightarrow> tx_kind_ok k"
  by (auto simp: rlp_tx_kind_def address_ok_def split: if_splits)

lemma rlp_b256_ok [field_type]: "rlp_b256 bs = Inr h \<Longrightarrow> byte_list bs \<Longrightarrow> b256_ok h"
  by (auto simp: rlp_b256_def b256_ok_def split: if_splits)

lemma legacy_v_ok: "legacy_v v = Inr (c, p) \<Longrightarrow> u256_ok v \<Longrightarrow> chain_id_ok c p"
proof (cases c)
  case (Some a)
  assume "legacy_v v = Inr (c, p)" "u256_ok v"
  with Some have "a = (u256_val v - 35) div 2" "p \<longleftrightarrow> (u256_val v - 35) mod 2 = 1" "u256_val v < 2 ^ 64" "35 \<le> u256_val v"
    by (auto simp: legacy_v_def u256_as_u64_val LEGACY_PROTECTED_V_BASE_def Let_def split: if_splits)
  then have "2 * a + 35 + of_bool p = u256_val v" by (cases p) (simp_all, presburger+)
  with \<open>u256_val v < 2 ^ 64\<close> show ?thesis by (simp add: Some chain_id_ok_def u64_ok_def)
qed (simp add: chain_id_ok_def)

text \<open>A decoder of list entries guarantees what its entry decoder guarantees.\<close>

lemma decode_list_all:
  assumes "and_then (read_exact_list bs) (collect_results f) = Inr xs" and "byte_list bs"
    and "\<And>b x. f b = Inr x \<Longrightarrow> byte_list b \<Longrightarrow> P x"
  shows "list_all P xs"
proof -
  from assms(1) obtain items where i: "read_exact_list bs = Inr items" "collect_results f items = Inr xs"
    by (auto simp: and_then_eq_Inr)
  show ?thesis unfolding list_all_iff
  proof
    fix x assume "x \<in> set xs"
    from collect_results_source [OF i(2) this] obtain b where "b \<in> set items" "f b = Inr x" by blast
    with assms(3) read_exact_list_bytes [OF i(1) assms(2)] show "P x" by blast
  qed
qed

lemma decode_b256_list_ok [field_type]: "decode_b256_list bs = Inr l \<Longrightarrow> byte_list bs \<Longrightarrow> list_all b256_ok l"
  unfolding decode_b256_list_def by (erule decode_list_all) (auto simp: b256_ok_def split: if_splits)

text \<open>The items of a list of bytes are lists of bytes, and there are as many as required.\<close>

lemma items_bytes:
  assumes "read_exact_list raw = Inr items" and "byte_list raw" and "require_field_count items n = Inr u" and "i < n"
  shows "byte_list (items ! i)"
  using assms read_exact_list_bytes [OF assms(1,2)] by (simp add: require_field_count_def split: if_splits)

lemma decode_access_list_entry_ok:
  assumes "decode_access_list_entry bs = Inr i" and "byte_list bs"
  shows "access_list_item_ok i"
proof -
  from assms(1) obtain fields u where f: "read_exact_list bs = Inr fields" "require_field_count fields 2 = Inr u"
    and i: "length (al_address i) = 20" "al_address i = fields ! 0" "decode_b256_list (fields ! 1) = Inr (al_storage_keys i)"
    by (auto simp: decode_access_list_entry_def and_then_eq_Inr split: if_splits)
  note b = items_bytes [OF f(1) assms(2) f(2)]
  from i b [of 0] decode_b256_list_ok [OF i(3)] b [of 1] show ?thesis by (simp add: access_list_item_ok_def address_ok_def)
qed

lemma decode_access_list_ok [field_type]: "decode_access_list bs = Inr l \<Longrightarrow> byte_list bs \<Longrightarrow> list_all access_list_item_ok l"
  unfolding decode_access_list_def by (erule decode_list_all) (auto intro: decode_access_list_entry_ok)

lemma decode_authorization_ok:
  assumes "decode_authorization bs = Inr a" and "byte_list bs"
  shows "authorization_ok a"
proof -
  from assms(1) obtain fields u where f: "read_exact_list bs = Inr fields" "require_field_count fields 6 = Inr u"
    and a: "length (au_address a) = 20" "au_address a = fields ! 1" "rlp_u64 (fields ! 0) = Inr (au_chain_id a)"
      "rlp_u64 (fields ! 2) = Inr (au_nonce a)" "rlp_b256 (fields ! 4) = Inr (au_r a)" "rlp_b256 (fields ! 5) = Inr (au_s a)"
    by (auto simp: decode_authorization_def and_then_eq_Inr split: if_splits)
  note b = items_bytes [OF f(1) assms(2) f(2)]
  from a(1,2) b [of 1] rlp_u64_ok [OF a(3) b] rlp_u64_ok [OF a(4) b] rlp_b256_ok [OF a(5) b] rlp_b256_ok [OF a(6) b]
  show ?thesis by (simp add: authorization_ok_def address_ok_def)
qed

lemma decode_authorization_list_ok [field_type]:
  "decode_authorization_list bs = Inr l \<Longrightarrow> byte_list bs \<Longrightarrow> list_all authorization_ok l"
  unfolding decode_authorization_list_def by (erule decode_list_all) (auto intro: decode_authorization_ok)

lemma decode_signature_ok:
  "decode_signature y r s = Inr sig \<Longrightarrow> byte_list r \<Longrightarrow> byte_list s \<Longrightarrow> signature_ok sig"
  by (auto simp: decode_signature_def and_then_eq_Inr signature_ok_def intro: rlp_b256_ok)

section \<open>Transactions: decoded values are well-formed\<close>

lemma decode_legacy_ok:
  assumes "decode_legacy raw = Inr t" and "byte_list raw"
  shows "signed_eth_tx_ok t"
proof -
  from assms(1) obtain items u where i: "read_exact_list raw = Inr items" "require_field_count items 9 = Inr u"
    by (auto simp: decode_legacy_def and_then_eq_Inr)
  note b = items_bytes [OF i(1) assms(2) i(2)]
  from assms(1) i show ?thesis
    by (auto simp: decode_legacy_def and_then_eq_Inr legacy_tx_ok_def signature_ok_def b)
      ((erule field_type, simp add: b) | (erule legacy_v_ok, erule rlp_u256_ok, simp add: b))+
qed

lemma decode_eip2930_ok:
  assumes "decode_eip2930 raw = Inr t" and "byte_list raw"
  shows "signed_eth_tx_ok t"
proof -
  from assms(1) obtain items u where i: "read_exact_list raw = Inr items" "require_field_count items 11 = Inr u"
    by (auto simp: decode_eip2930_def and_then_eq_Inr)
  note b = items_bytes [OF i(1) assms(2) i(2)]
  from assms(1) i show ?thesis
    by (auto simp: decode_eip2930_def and_then_eq_Inr eip2930_tx_ok_def b)
      ((erule field_type, simp add: b) | (erule decode_signature_ok; simp add: b))+
qed

lemma decode_eip1559_ok:
  assumes "decode_eip1559 raw = Inr t" and "byte_list raw"
  shows "signed_eth_tx_ok t"
proof -
  from assms(1) obtain items u where i: "read_exact_list raw = Inr items" "require_field_count items 12 = Inr u"
    by (auto simp: decode_eip1559_def and_then_eq_Inr)
  note b = items_bytes [OF i(1) assms(2) i(2)]
  from assms(1) i show ?thesis
    by (auto simp: decode_eip1559_def and_then_eq_Inr eip1559_tx_ok_def b)
      ((erule field_type, simp add: b) | (erule decode_signature_ok; simp add: b))+
qed

lemma decode_eip4844_ok:
  assumes "decode_eip4844 raw = Inr t" and "byte_list raw"
  shows "signed_eth_tx_ok t"
proof -
  from assms(1) obtain items u where i: "read_exact_list raw = Inr items" "require_field_count items 14 = Inr u"
    by (auto simp: decode_eip4844_def and_then_eq_Inr)
  note b = items_bytes [OF i(1) assms(2) i(2)]
  from assms(1) i show ?thesis
    by (auto simp: decode_eip4844_def and_then_eq_Inr eip4844_tx_ok_def b)
      ((erule field_type, simp add: b) | (erule decode_signature_ok; simp add: b))+
qed

lemma decode_eip7702_ok:
  assumes "decode_eip7702 raw = Inr t" and "byte_list raw"
  shows "signed_eth_tx_ok t"
proof -
  from assms(1) obtain items u where i: "read_exact_list raw = Inr items" "require_field_count items 13 = Inr u"
    by (auto simp: decode_eip7702_def and_then_eq_Inr)
  note b = items_bytes [OF i(1) assms(2) i(2)]
  from assms(1) i show ?thesis
    by (auto simp: decode_eip7702_def and_then_eq_Inr eip7702_tx_ok_def b)
      ((erule field_type, simp add: b) | (erule decode_signature_ok; simp add: b))+
qed

lemma decode_raw_transaction_ok:
  assumes "decode_raw_transaction raw = Inr t" and "byte_list raw"
  shows "signed_eth_tx_ok t"
  using assms decode_legacy_ok decode_eip2930_ok decode_eip1559_ok decode_eip4844_ok decode_eip7702_ok
  by (auto simp: decode_raw_transaction_def split: list.splits if_splits)

end
