(* ===== verification/Evm_Tx_Roundtrip.thy ===== *)
theory Evm_Tx_Roundtrip
  imports Evm_Tx_Codec
begin

text \<open>
  Every well-formed transaction is decoded from what the encoder writes, and from the encoding Ethereum
  defines for it.  The two encodings agree for legacy transactions.  For every other kind they differ,
  because the encoder writes the access list, an encoded list, as a string.
\<close>

section \<open>Fields\<close>

lemma rlp_u256_integer [simp]: "u256_ok x \<Longrightarrow> rlp_u256 (rlp_integer_bytes x) = Inr x"
  using u256_minimal_roundtrip [of x] u256_minimal_props(4) [of x]
  by (cases "u256_to_minimal_be_vec x") (auto simp: rlp_u256_def rlp_integer_bytes_def)

lemma u64_from_ok [simp]: "u256_ok (u256_from_u64 n) \<longleftrightarrow> u64_ok n"
  by (simp add: u64_ok_def u256_from_u64_ok)

lemma rlp_u64_integer [simp]: "u64_ok n \<Longrightarrow> rlp_u64 (rlp_integer_bytes (u256_from_u64 n)) = Inr n"
  by (simp add: rlp_u64_def u256_as_u64_val) (simp add: u64_ok_def)

lemma rlp_y_parity_integer [simp]: "rlp_y_parity (rlp_integer_bytes (u256_from_u64 (of_bool b))) = Inr b"
proof -
  have "u256_ok (u256_from_u64 (of_bool b))" by (cases b) (simp_all add: u64_ok_def)
  then show ?thesis by (cases b) (simp_all add: rlp_y_parity_def u256_from_u64_def u256_zero_def u256_one_def)
qed

lemma rlp_tx_kind_bytes [simp]: "tx_kind_ok k \<Longrightarrow> rlp_tx_kind (tx_kind_bytes k) = Inr k"
  by (cases k) (auto simp: rlp_tx_kind_def address_ok_def)

lemma b256_integer_bytes_eq:
  assumes "b256_ok h"
  shows "b256_integer_bytes h = dropWhile (\<lambda>b. b = 0) h"
proof -
  from assms have "length h = 32" by (simp add: b256_ok_def)
  from drop_position [of h, unfolded this] show ?thesis by (simp only: b256_integer_bytes_def Let_def)
qed

lemma zeros_dropWhile: "replicate (length h - length (dropWhile (\<lambda>b. b = 0) h)) (0 :: nat) @ dropWhile (\<lambda>b. b = 0) h = h"
proof -
  have "takeWhile (\<lambda>b. b = 0) h = replicate (length (takeWhile (\<lambda>b. b = 0) h)) 0"
    by (rule replicate_length_same [symmetric]) (auto dest: set_takeWhileD)
  moreover have "length h = length (takeWhile (\<lambda>b. b = 0) h) + length (dropWhile (\<lambda>b. b = 0) h)"
    by (metis length_append takeWhile_dropWhile_id)
  ultimately show ?thesis by (metis add_diff_cancel_right' takeWhile_dropWhile_id)
qed

lemma rlp_b256_integer [simp]: "b256_ok h \<Longrightarrow> rlp_b256 (b256_integer_bytes h) = Inr h"
  using zeros_dropWhile [of h] length_dropWhile_le [of "\<lambda>b. b = 0" h]
  by (simp add: b256_integer_bytes_eq rlp_b256_def b256_ok_def)

lemma legacy_signed_v_eq:
  "chain_id_ok c p \<Longrightarrow> legacy_signed_v c p = (case c of Some a \<Rightarrow> 2 * a + 35 + of_bool p | None \<Rightarrow> 27 + of_bool p)"
  by (auto simp: legacy_signed_v_def chain_id_ok_def u64_ok_def saturating_mul_u64_def u64_max_def
      LEGACY_PROTECTED_V_BASE_def LEGACY_UNPROTECTED_V_BASE_def min_def split: option.split)

lemma legacy_signed_v_ok [simp]: "chain_id_ok c p \<Longrightarrow> u64_ok (legacy_signed_v c p)"
  by (cases p) (auto simp: legacy_signed_v_eq chain_id_ok_def u64_ok_def split: option.splits)

lemma legacy_v_signed [simp]:
  assumes "chain_id_ok c p"
  shows "legacy_v (u256_from_u64 (legacy_signed_v c p)) = Inr (c, p)"
proof (cases c)
  case None
  then show ?thesis by (cases p) (simp_all add: legacy_v_def legacy_signed_v_def LEGACY_UNPROTECTED_V_BASE_def u256_from_u64_def)
next
  case (Some a)
  have "(2 * a + 35 + of_bool p - 35) div 2 = a" "(2 * a + 35 + of_bool p - 35) mod 2 = 1 \<longleftrightarrow> p"
    by (cases p; simp)+
  then show ?thesis
    by (simp add: Some legacy_v_def legacy_signed_v_eq [OF assms [unfolded Some]] u256_from_u64_def LEGACY_PROTECTED_V_BASE_def Let_def)
qed

lemma decode_signature_fields [simp]:
  "signature_ok sig \<Longrightarrow> decode_signature (rlp_integer_bytes (u256_from_u64 (of_bool (sg_y_parity sig))))
    (b256_integer_bytes (sg_r sig)) (b256_integer_bytes (sg_s sig)) = Inr sig"
  by (simp add: decode_signature_def signature_ok_def)

section \<open>Lists inside a transaction\<close>

lemma decode_b256_items:
  assumes "read_exact_list bs = Inr l" and "list_all b256_ok l"
  shows "decode_b256_list bs = Inr l"
proof -
  have "collect_results (\<lambda>item. if length item \<noteq> 32 then Inl (InvalidHashLength (length item)) else Inr item) (map (\<lambda>x. x) l) = Inr l"
    using assms(2) by (intro collect_results_map) (auto simp: list_all_iff b256_ok_def)
  with assms(1) show ?thesis by (simp add: decode_b256_list_def)
qed

lemma decode_b256_list_bytes:
  "list_all b256_ok l \<Longrightarrow> length (b256_list_bytes l) \<le> 2 ^ 64 \<Longrightarrow> decode_b256_list (b256_list_bytes l) = Inr l"
  using decode_b256_items read_list_from_bytes by (simp add: b256_list_bytes_def)

lemma decode_access_list_item:
  assumes "access_list_item_ok i" and "read_exact_list e = Inr [al_address i, k]" and "decode_b256_list k = Inr (al_storage_keys i)"
  shows "decode_access_list_entry e = Inr i"
  using assms by (simp add: decode_access_list_entry_def require_field_count_def access_list_item_ok_def address_ok_def)

lemma decode_access_list_bytes:
  assumes "list_all access_list_item_ok l" and "length (access_list_bytes l) \<le> 2 ^ 64"
  shows "decode_access_list (access_list_bytes l) = Inr l"
proof -
  let ?fields = "\<lambda>i. [al_address i, b256_list_bytes (al_storage_keys i)]"
  note nested = read_nested_rlp_list [OF assms(2) [unfolded access_list_bytes_def]]
  have "decode_access_list_entry (append_rlp_list_from_bytes (?fields i) []) = Inr i" if "i \<in> set l" for i
  proof (rule decode_access_list_item)
    show ok: "access_list_item_ok i" using assms(1) that by (simp add: list_all_iff)
    have len: "length (append_rlp_list_from_bytes (?fields i) []) \<le> 2 ^ 64" using nested(2) that by auto
    from read_list_from_bytes [OF len] show "read_exact_list (append_rlp_list_from_bytes (?fields i) []) = Inr (?fields i)" .
    from append_rlp_list_from_bytes_eq(2) [OF len, of "b256_list_bytes (al_storage_keys i)"]
    show "decode_b256_list (b256_list_bytes (al_storage_keys i)) = Inr (al_storage_keys i)"
      using ok decode_b256_list_bytes by (simp add: access_list_item_ok_def)
  qed
  then have "collect_results decode_access_list_entry (map (\<lambda>i. append_rlp_list_from_bytes (?fields i) []) l) = Inr l"
    by (rule collect_results_map)
  with nested(1) show ?thesis by (simp add: decode_access_list_def access_list_bytes_def comp_def)
qed

lemma decode_authorization_item:
  assumes "authorization_ok a" and "read_exact_list e = Inr (authorization_fields a)"
  shows "decode_authorization e = Inr a"
  using assms by (simp add: decode_authorization_def require_field_count_def authorization_ok_def address_ok_def authorization_fields_def)

lemma decode_authorization_list_bytes:
  assumes "list_all authorization_ok l" and "length (authorization_list_bytes l) \<le> 2 ^ 64"
  shows "decode_authorization_list (authorization_list_bytes l) = Inr l"
proof -
  have fields: "authorization_list_bytes l = nested_rlp_list (map authorization_fields l)"
    by (rule authorization_list_bytes_def)
  note nested = read_nested_rlp_list [OF assms(2) [unfolded fields]]
  have "decode_authorization (append_rlp_list_from_bytes (authorization_fields a) []) = Inr a" if "a \<in> set l" for a
    using that assms(1) nested(2) read_list_from_bytes by (intro decode_authorization_item) (auto simp: list_all_iff)
  then have "collect_results decode_authorization (map (\<lambda>a. append_rlp_list_from_bytes (authorization_fields a) []) l) = Inr l"
    by (rule collect_results_map)
  with nested(1) show ?thesis by (simp add: decode_authorization_list_def fields comp_def)
qed

section \<open>Transactions\<close>

text \<open>A transaction is decoded from its items, however its lists are encoded.\<close>

definition legacy_items :: "legacy_tx \<Rightarrow> signature \<Rightarrow> nat list list" where
  "legacy_items tx sig = legacy_fields tx @
     [rlp_integer_bytes (u256_from_u64 (legacy_signed_v (lt_chain_id tx) (sg_y_parity sig))),
      b256_integer_bytes (sg_r sig), b256_integer_bytes (sg_s sig)]"

lemma decode_legacy_items:
  assumes "signed_eth_tx_ok (Legacy tx sig)" and "read_exact_list raw = Inr (legacy_items tx sig)"
  shows "decode_legacy raw = Inr (Legacy tx sig)"
  using assms by (simp add: decode_legacy_def legacy_items_def legacy_fields_def require_field_count_def
      legacy_tx_ok_def signature_ok_def)

definition eip2930_items :: "eip2930_tx \<Rightarrow> nat list \<Rightarrow> nat list list" where
  "eip2930_items tx al =
     [rlp_integer_bytes (u256_from_u64 (t2930_chain_id tx)),
      rlp_integer_bytes (u256_from_u64 (t2930_nonce tx)),
      rlp_integer_bytes (t2930_gas_price tx),
      rlp_integer_bytes (u256_from_u64 (t2930_gas_limit tx)),
      tx_kind_bytes (t2930_to tx),
      rlp_integer_bytes (t2930_value tx),
      t2930_input tx,
      al]"

lemma decode_eip2930_items:
  assumes "signed_eth_tx_ok (Eip2930 tx sig)" and "read_exact_list raw = Inr (eip2930_items tx al @ signature_fields sig)"
    and "decode_access_list al = Inr (t2930_access_list tx)"
  shows "decode_eip2930 raw = Inr (Eip2930 tx sig)"
  using assms by (simp add: decode_eip2930_def eip2930_items_def signature_fields_def require_field_count_def eip2930_tx_ok_def)

lemma decode_eip2930_signed:
  assumes "signed_eth_tx_ok (Eip2930 tx sig)" and "length (append_eip2930_signed tx sig []) \<le> 2 ^ 64"
  shows "decode_eip2930 (append_eip2930_signed tx sig []) = Inr (Eip2930 tx sig)"
proof -
  let ?al = "access_list_bytes (t2930_access_list tx)"
  let ?fields = "eip2930_items tx ?al @ signature_fields sig"
  have eq: "append_eip2930_signed tx sig [] = append_rlp_list_from_bytes ?fields []"
    by (simp add: append_eip2930_signed_def append_eip2930_fields_def eip2930_items_def)
  note len = assms(2) [unfolded eq]
  have small: "length f < 2 ^ 64" if "f \<in> set ?fields" for f using append_rlp_list_from_bytes_eq(2) [OF len that] .
  have "length ?al < 2 ^ 64" by (rule small) (simp add: eip2930_items_def)
  then have "decode_access_list ?al = Inr (t2930_access_list tx)"
    using assms(1) by (intro decode_access_list_bytes) (simp_all add: eip2930_tx_ok_def)
  then show ?thesis unfolding eq using decode_eip2930_items [OF assms(1) read_list_from_bytes [OF len]] by simp
qed

definition eip1559_items :: "eip1559_tx \<Rightarrow> nat list \<Rightarrow> nat list list" where
  "eip1559_items tx al =
     [rlp_integer_bytes (u256_from_u64 (t1559_chain_id tx)),
      rlp_integer_bytes (u256_from_u64 (t1559_nonce tx)),
      rlp_integer_bytes (t1559_max_priority_fee_per_gas tx),
      rlp_integer_bytes (t1559_max_fee_per_gas tx),
      rlp_integer_bytes (u256_from_u64 (t1559_gas_limit tx)),
      tx_kind_bytes (t1559_to tx),
      rlp_integer_bytes (t1559_value tx),
      t1559_input tx,
      al]"

lemma decode_eip1559_items:
  assumes "signed_eth_tx_ok (Eip1559 tx sig)" and "read_exact_list raw = Inr (eip1559_items tx al @ signature_fields sig)"
    and "decode_access_list al = Inr (t1559_access_list tx)"
  shows "decode_eip1559 raw = Inr (Eip1559 tx sig)"
  using assms by (simp add: decode_eip1559_def eip1559_items_def signature_fields_def require_field_count_def eip1559_tx_ok_def)

lemma decode_eip1559_signed:
  assumes "signed_eth_tx_ok (Eip1559 tx sig)" and "length (append_eip1559_signed tx sig []) \<le> 2 ^ 64"
  shows "decode_eip1559 (append_eip1559_signed tx sig []) = Inr (Eip1559 tx sig)"
proof -
  let ?al = "access_list_bytes (t1559_access_list tx)"
  let ?fields = "eip1559_items tx ?al @ signature_fields sig"
  have eq: "append_eip1559_signed tx sig [] = append_rlp_list_from_bytes ?fields []"
    by (simp add: append_eip1559_signed_def append_eip1559_fields_def eip1559_items_def)
  note len = assms(2) [unfolded eq]
  have small: "length f < 2 ^ 64" if "f \<in> set ?fields" for f using append_rlp_list_from_bytes_eq(2) [OF len that] .
  have "length ?al < 2 ^ 64" by (rule small) (simp add: eip1559_items_def)
  then have "decode_access_list ?al = Inr (t1559_access_list tx)"
    using assms(1) by (intro decode_access_list_bytes) (simp_all add: eip1559_tx_ok_def)
  then show ?thesis unfolding eq using decode_eip1559_items [OF assms(1) read_list_from_bytes [OF len]] by simp
qed

definition eip4844_items :: "eip4844_tx \<Rightarrow> nat list \<Rightarrow> nat list \<Rightarrow> nat list list" where
  "eip4844_items tx al hs =
     [rlp_integer_bytes (u256_from_u64 (t4844_chain_id tx)),
      rlp_integer_bytes (u256_from_u64 (t4844_nonce tx)),
      rlp_integer_bytes (t4844_max_priority_fee_per_gas tx),
      rlp_integer_bytes (t4844_max_fee_per_gas tx),
      rlp_integer_bytes (u256_from_u64 (t4844_gas_limit tx)),
      tx_kind_bytes (t4844_to tx),
      rlp_integer_bytes (t4844_value tx),
      t4844_input tx,
      al,
      rlp_integer_bytes (t4844_max_fee_per_blob_gas tx),
      hs]"

lemma decode_eip4844_items:
  assumes "signed_eth_tx_ok (Eip4844 tx sig)" and "read_exact_list raw = Inr (eip4844_items tx al hs @ signature_fields sig)"
    and "decode_access_list al = Inr (t4844_access_list tx)"
    and "decode_b256_list hs = Inr (t4844_blob_versioned_hashes tx)"
  shows "decode_eip4844 raw = Inr (Eip4844 tx sig)"
  using assms by (simp add: decode_eip4844_def eip4844_items_def signature_fields_def require_field_count_def eip4844_tx_ok_def)

lemma decode_eip4844_signed:
  assumes "signed_eth_tx_ok (Eip4844 tx sig)" and "length (append_eip4844_signed tx sig []) \<le> 2 ^ 64"
  shows "decode_eip4844 (append_eip4844_signed tx sig []) = Inr (Eip4844 tx sig)"
proof -
  let ?al = "access_list_bytes (t4844_access_list tx)"
  let ?hs = "b256_list_bytes (t4844_blob_versioned_hashes tx)"
  let ?fields = "eip4844_items tx ?al ?hs @ signature_fields sig"
  have eq: "append_eip4844_signed tx sig [] = append_rlp_list_from_bytes ?fields []"
    by (simp add: append_eip4844_signed_def append_eip4844_fields_def eip4844_items_def)
  note len = assms(2) [unfolded eq]
  have small: "length f < 2 ^ 64" if "f \<in> set ?fields" for f using append_rlp_list_from_bytes_eq(2) [OF len that] .
  have "length ?al < 2 ^ 64" by (rule small) (simp add: eip4844_items_def)
  then have "decode_access_list ?al = Inr (t4844_access_list tx)"
    using assms(1) by (intro decode_access_list_bytes) (simp_all add: eip4844_tx_ok_def)
  moreover have "length ?hs < 2 ^ 64" by (rule small) (simp add: eip4844_items_def)
  then have "decode_b256_list ?hs = Inr (t4844_blob_versioned_hashes tx)"
    using assms(1) by (intro decode_b256_list_bytes) (simp_all add: eip4844_tx_ok_def)
  ultimately show ?thesis unfolding eq using decode_eip4844_items [OF assms(1) read_list_from_bytes [OF len]] by simp
qed

definition eip7702_items :: "eip7702_tx \<Rightarrow> nat list \<Rightarrow> nat list \<Rightarrow> nat list list" where
  "eip7702_items tx al as =
     [rlp_integer_bytes (u256_from_u64 (t7702_chain_id tx)),
      rlp_integer_bytes (u256_from_u64 (t7702_nonce tx)),
      rlp_integer_bytes (t7702_max_priority_fee_per_gas tx),
      rlp_integer_bytes (t7702_max_fee_per_gas tx),
      rlp_integer_bytes (u256_from_u64 (t7702_gas_limit tx)),
      tx_kind_bytes (t7702_to tx),
      rlp_integer_bytes (t7702_value tx),
      t7702_input tx,
      al,
      as]"

lemma decode_eip7702_items:
  assumes "signed_eth_tx_ok (Eip7702 tx sig)" and "read_exact_list raw = Inr (eip7702_items tx al as @ signature_fields sig)"
    and "decode_access_list al = Inr (t7702_access_list tx)"
    and "decode_authorization_list as = Inr (t7702_authorization_list tx)"
  shows "decode_eip7702 raw = Inr (Eip7702 tx sig)"
  using assms by (simp add: decode_eip7702_def eip7702_items_def signature_fields_def require_field_count_def eip7702_tx_ok_def)

lemma decode_eip7702_signed:
  assumes "signed_eth_tx_ok (Eip7702 tx sig)" and "length (append_eip7702_signed tx sig []) \<le> 2 ^ 64"
  shows "decode_eip7702 (append_eip7702_signed tx sig []) = Inr (Eip7702 tx sig)"
proof -
  let ?al = "access_list_bytes (t7702_access_list tx)"
  let ?as = "authorization_list_bytes (t7702_authorization_list tx)"
  let ?fields = "eip7702_items tx ?al ?as @ signature_fields sig"
  have eq: "append_eip7702_signed tx sig [] = append_rlp_list_from_bytes ?fields []"
    by (simp add: append_eip7702_signed_def append_eip7702_fields_def eip7702_items_def)
  note len = assms(2) [unfolded eq]
  have small: "length f < 2 ^ 64" if "f \<in> set ?fields" for f using append_rlp_list_from_bytes_eq(2) [OF len that] .
  have "length ?al < 2 ^ 64" by (rule small) (simp add: eip7702_items_def)
  then have "decode_access_list ?al = Inr (t7702_access_list tx)"
    using assms(1) by (intro decode_access_list_bytes) (simp_all add: eip7702_tx_ok_def)
  moreover have "length ?as < 2 ^ 64" by (rule small) (simp add: eip7702_items_def)
  then have "decode_authorization_list ?as = Inr (t7702_authorization_list tx)"
    using assms(1) by (intro decode_authorization_list_bytes) (simp_all add: eip7702_tx_ok_def)
  ultimately show ?thesis unfolding eq using decode_eip7702_items [OF assms(1) read_list_from_bytes [OF len]] by simp
qed

end
