(* ===== verification/Evm_Ethereum.thy ===== *)
theory Evm_Ethereum
  imports Evm_Tx_Roundtrip
begin

text \<open>
  The encodings Ethereum defines (EIP-155, 2718, 2930, 1559, 4844, 7702) over the reference RLP, and
  how the encoder of \<^verbatim>\<open>src/l1/action/evm_raw_tx.rs\<close> relates to them.
\<close>

section \<open>Reference encodings\<close>

definition eth_int :: "nat \<Rightarrow> rlp" where
  "eth_int n = Str (be_min n)"

definition eth_to :: "tx_kind \<Rightarrow> rlp" where
  "eth_to k = (case k of Create \<Rightarrow> Str [] | Call a \<Rightarrow> Str a)"

definition eth_access_list :: "access_list_item list \<Rightarrow> rlp" where
  "eth_access_list l = Lst (map (\<lambda>i. Lst [Str (al_address i), Lst (map Str (al_storage_keys i))]) l)"

definition eth_authorization :: "authorization \<Rightarrow> rlp" where
  "eth_authorization a = Lst [eth_int (au_chain_id a), Str (au_address a), eth_int (au_nonce a), eth_int (of_bool (au_y_parity a)),
     eth_int (digits_value 256 (au_r a)), eth_int (digits_value 256 (au_s a))]"

definition eth_authorization_list :: "authorization list \<Rightarrow> rlp" where
  "eth_authorization_list l = Lst (map eth_authorization l)"

definition eth_rs :: "signature \<Rightarrow> rlp list" where
  "eth_rs sig = [eth_int (digits_value 256 (sg_r sig)), eth_int (digits_value 256 (sg_s sig))]"

definition eth_legacy :: "legacy_tx \<Rightarrow> rlp list" where
  "eth_legacy tx = [eth_int (lt_nonce tx), eth_int (u256_val (lt_gas_price tx)), eth_int (lt_gas_limit tx), eth_to (lt_to tx),
     eth_int (u256_val (lt_value tx)), Str (lt_input tx)]"

definition eth_eip2930 :: "eip2930_tx \<Rightarrow> rlp list" where
  "eth_eip2930 tx = [eth_int (t2930_chain_id tx),
     eth_int (t2930_nonce tx),
     eth_int (u256_val (t2930_gas_price tx)),
     eth_int (t2930_gas_limit tx),
     eth_to (t2930_to tx),
     eth_int (u256_val (t2930_value tx)),
     Str (t2930_input tx),
     eth_access_list (t2930_access_list tx)]"

definition eth_eip1559 :: "eip1559_tx \<Rightarrow> rlp list" where
  "eth_eip1559 tx = [eth_int (t1559_chain_id tx),
     eth_int (t1559_nonce tx),
     eth_int (u256_val (t1559_max_priority_fee_per_gas tx)),
     eth_int (u256_val (t1559_max_fee_per_gas tx)),
     eth_int (t1559_gas_limit tx),
     eth_to (t1559_to tx),
     eth_int (u256_val (t1559_value tx)),
     Str (t1559_input tx),
     eth_access_list (t1559_access_list tx)]"

definition eth_eip4844 :: "eip4844_tx \<Rightarrow> rlp list" where
  "eth_eip4844 tx = [eth_int (t4844_chain_id tx),
     eth_int (t4844_nonce tx),
     eth_int (u256_val (t4844_max_priority_fee_per_gas tx)),
     eth_int (u256_val (t4844_max_fee_per_gas tx)),
     eth_int (t4844_gas_limit tx),
     eth_to (t4844_to tx),
     eth_int (u256_val (t4844_value tx)),
     Str (t4844_input tx),
     eth_access_list (t4844_access_list tx),
     eth_int (u256_val (t4844_max_fee_per_blob_gas tx)),
     Lst (map Str (t4844_blob_versioned_hashes tx))]"

definition eth_eip7702 :: "eip7702_tx \<Rightarrow> rlp list" where
  "eth_eip7702 tx = [eth_int (t7702_chain_id tx),
     eth_int (t7702_nonce tx),
     eth_int (u256_val (t7702_max_priority_fee_per_gas tx)),
     eth_int (u256_val (t7702_max_fee_per_gas tx)),
     eth_int (t7702_gas_limit tx),
     eth_to (t7702_to tx),
     eth_int (u256_val (t7702_value tx)),
     Str (t7702_input tx),
     eth_access_list (t7702_access_list tx),
     eth_authorization_list (t7702_authorization_list tx)]"

text \<open>The bytes that are signed, and the bytes that are sent.\<close>

primrec eth_signable :: "signed_eth_tx \<Rightarrow> nat list" where
  "eth_signable (Legacy tx sig) = rlp_encode (Lst (eth_legacy tx @ (case lt_chain_id tx of Some c \<Rightarrow> [eth_int c, eth_int 0, eth_int 0] | None \<Rightarrow> [])))"
| "eth_signable (Eip2930 tx sig) = 1 # rlp_encode (Lst (eth_eip2930 tx))"
| "eth_signable (Eip1559 tx sig) = 2 # rlp_encode (Lst (eth_eip1559 tx))"
| "eth_signable (Eip4844 tx sig) = 3 # rlp_encode (Lst (eth_eip4844 tx))"
| "eth_signable (Eip7702 tx sig) = 4 # rlp_encode (Lst (eth_eip7702 tx))"

primrec eth_signed :: "signed_eth_tx \<Rightarrow> nat list" where
  "eth_signed (Legacy tx sig) = rlp_encode (Lst (eth_legacy tx @
     [eth_int (case lt_chain_id tx of Some c \<Rightarrow> 2 * c + 35 + of_bool (sg_y_parity sig) | None \<Rightarrow> 27 + of_bool (sg_y_parity sig))] @ eth_rs sig))"
| "eth_signed (Eip2930 tx sig) = 1 # rlp_encode (Lst (eth_eip2930 tx @ [eth_int (of_bool (sg_y_parity sig))] @ eth_rs sig))"
| "eth_signed (Eip1559 tx sig) = 2 # rlp_encode (Lst (eth_eip1559 tx @ [eth_int (of_bool (sg_y_parity sig))] @ eth_rs sig))"
| "eth_signed (Eip4844 tx sig) = 3 # rlp_encode (Lst (eth_eip4844 tx @ [eth_int (of_bool (sg_y_parity sig))] @ eth_rs sig))"
| "eth_signed (Eip7702 tx sig) = 4 # rlp_encode (Lst (eth_eip7702 tx @ [eth_int (of_bool (sg_y_parity sig))] @ eth_rs sig))"

section \<open>Integers are written minimally\<close>

lemma be_min_value: "byte_list bs \<Longrightarrow> dropWhile (\<lambda>b. b = 0) bs = be_min (digits_value 256 bs)"
  using be_min_dropWhile [OF digits_value_less, of bs] to_be_bytes_value [of bs] by simp

lemma rlp_integer_bytes_min [simp]: "u256_ok x \<Longrightarrow> rlp_integer_bytes x = be_min (u256_val x)"
  using be_min_value [OF u256_full_props(2)] u256_full_props(3) by (simp add: rlp_integer_bytes_def u256_minimal_eq)

lemma b256_integer_bytes_min [simp]: "b256_ok h \<Longrightarrow> b256_integer_bytes h = be_min (digits_value 256 h)"
  using be_min_value [of h] by (simp add: b256_integer_bytes_eq b256_ok_def)

lemma of_bool_u64_ok [simp]: "u64_ok (of_bool b)"
  by (cases b) (simp_all add: u64_ok_def)

lemma be_min_zero [simp]: "be_min 0 = []"
  by (simp add: be_min.simps)

section \<open>The reference encoding is decoded\<close>

lemma eth_item_simps [simp]:
  "rlp_item (eth_int n) = be_min n" "rlp_item (eth_to k) = tx_kind_bytes k"
  "rlp_item (eth_access_list l) = rlp_encode (eth_access_list l)"
  "rlp_item (eth_authorization_list au) = rlp_encode (eth_authorization_list au)"
  by (simp_all add: eth_int_def eth_to_def eth_access_list_def eth_authorization_list_def split: tx_kind.split)

lemma signature_items:
  "signature_ok sig \<Longrightarrow> signature_fields sig = map rlp_item ([eth_int (of_bool (sg_y_parity sig))] @ eth_rs sig)"
  by (simp add: signature_fields_def eth_rs_def signature_ok_def)

lemma decode_eth_b256_list:
  assumes "list_all b256_ok l" and "length (rlp_encode (Lst (map Str l))) \<le> 2 ^ 64"
  shows "decode_b256_list (rlp_encode (Lst (map Str l))) = Inr l"
  using read_rlp_encode(1) [OF assms(2)] decode_b256_items [OF _ assms(1)] by (simp add: comp_def del: rlp_encode.simps)

lemma decode_eth_access_list:
  assumes "list_all access_list_item_ok l" and "length (rlp_encode (eth_access_list l)) \<le> 2 ^ 64"
  shows "decode_access_list (rlp_encode (eth_access_list l)) = Inr l"
proof -
  let ?entry = "\<lambda>i. Lst [Str (al_address i), Lst (map Str (al_storage_keys i))]"
  note outer = read_rlp_encode [OF assms(2) [unfolded eth_access_list_def]]
  have "decode_access_list_entry (rlp_item (?entry i)) = Inr i" if "i \<in> set l" for i
  proof (rule decode_access_list_item)
    show ok: "access_list_item_ok i" using assms(1) that by (simp add: list_all_iff)
    have len: "length (rlp_encode (?entry i)) \<le> 2 ^ 64" using outer(2) that by (auto simp del: rlp_encode.simps)
    from read_rlp_encode(1) [OF len]
    show "read_exact_list (rlp_item (?entry i)) = Inr [al_address i, rlp_encode (Lst (map Str (al_storage_keys i)))]"
      by (simp del: rlp_encode.simps)
    from read_rlp_encode(2) [OF len] have "length (rlp_encode (Lst (map Str (al_storage_keys i)))) \<le> 2 ^ 64"
      by (simp del: rlp_encode.simps)
    with ok show "decode_b256_list (rlp_encode (Lst (map Str (al_storage_keys i)))) = Inr (al_storage_keys i)"
      by (intro decode_eth_b256_list) (simp_all add: access_list_item_ok_def del: rlp_encode.simps)
  qed
  then have "collect_results decode_access_list_entry (map (\<lambda>i. rlp_item (?entry i)) l) = Inr l"
    by (rule collect_results_map)
  with outer(1) show ?thesis
    by (simp add: decode_access_list_def eth_access_list_def comp_def del: rlp_encode.simps)
qed

lemma decode_eth_authorization_list:
  assumes "list_all authorization_ok l" and "length (rlp_encode (eth_authorization_list l)) \<le> 2 ^ 64"
  shows "decode_authorization_list (rlp_encode (eth_authorization_list l)) = Inr l"
proof -
  note outer = read_rlp_encode [OF assms(2) [unfolded eth_authorization_list_def]]
  have "decode_authorization (rlp_item (eth_authorization a)) = Inr a" if a: "a \<in> set l" for a
  proof (rule decode_authorization_item)
    show ok: "authorization_ok a" using assms(1) a by (simp add: list_all_iff)
    have "length (rlp_encode (eth_authorization a)) \<le> 2 ^ 64" using outer(2) a by (auto simp del: rlp_encode.simps)
    from read_rlp_encode(1) [OF this [unfolded eth_authorization_def]] ok
    show "read_exact_list (rlp_item (eth_authorization a)) = Inr (authorization_fields a)"
      by (simp add: eth_authorization_def authorization_fields_def authorization_ok_def del: rlp_encode.simps)
  qed
  then have "collect_results decode_authorization (map (\<lambda>a. rlp_item (eth_authorization a)) l) = Inr l"
    by (rule collect_results_map)
  with outer(1) show ?thesis
    by (simp add: decode_authorization_list_def eth_authorization_list_def comp_def del: rlp_encode.simps)
qed

lemma eip2930_eth_items:
  "eip2930_tx_ok tx \<Longrightarrow> map rlp_item (eth_eip2930 tx) = eip2930_items tx (rlp_encode (eth_access_list (t2930_access_list tx)))"
  by (simp add: eth_eip2930_def eip2930_items_def eip2930_tx_ok_def del: rlp_encode.simps)

lemma decode_eth_eip2930:
  assumes ok: "signed_eth_tx_ok (Eip2930 tx sig)" and len: "length (eth_signed (Eip2930 tx sig)) \<le> 2 ^ 64"
  shows "decode_eip2930 (tl (eth_signed (Eip2930 tx sig))) = Inr (Eip2930 tx sig)"
proof -
  let ?fields = "eth_eip2930 tx @ [eth_int (of_bool (sg_y_parity sig))] @ eth_rs sig"
  have fits: "length (rlp_encode (Lst ?fields)) \<le> 2 ^ 64" using len by (simp del: rlp_encode.simps)
  note read = read_rlp_encode [OF fits]
  have al: "decode_access_list (rlp_encode (eth_access_list (t2930_access_list tx))) = Inr (t2930_access_list tx)"
    using ok read(2) by (intro decode_eth_access_list) (simp_all add: eip2930_tx_ok_def eth_eip2930_def del: rlp_encode.simps)
  have "read_exact_list (tl (eth_signed (Eip2930 tx sig))) = Inr (eip2930_items tx (rlp_encode (eth_access_list (t2930_access_list tx))) @ signature_fields sig)"
    using read(1) ok by (simp only: eth_signed.simps list.sel map_append [symmetric] eip2930_eth_items [symmetric] signature_items signed_eth_tx_ok.simps)
  then show ?thesis by (rule decode_eip2930_items [OF ok _ al])
qed

lemma eip1559_eth_items:
  "eip1559_tx_ok tx \<Longrightarrow> map rlp_item (eth_eip1559 tx) = eip1559_items tx (rlp_encode (eth_access_list (t1559_access_list tx)))"
  by (simp add: eth_eip1559_def eip1559_items_def eip1559_tx_ok_def del: rlp_encode.simps)

lemma decode_eth_eip1559:
  assumes ok: "signed_eth_tx_ok (Eip1559 tx sig)" and len: "length (eth_signed (Eip1559 tx sig)) \<le> 2 ^ 64"
  shows "decode_eip1559 (tl (eth_signed (Eip1559 tx sig))) = Inr (Eip1559 tx sig)"
proof -
  let ?fields = "eth_eip1559 tx @ [eth_int (of_bool (sg_y_parity sig))] @ eth_rs sig"
  have fits: "length (rlp_encode (Lst ?fields)) \<le> 2 ^ 64" using len by (simp del: rlp_encode.simps)
  note read = read_rlp_encode [OF fits]
  have al: "decode_access_list (rlp_encode (eth_access_list (t1559_access_list tx))) = Inr (t1559_access_list tx)"
    using ok read(2) by (intro decode_eth_access_list) (simp_all add: eip1559_tx_ok_def eth_eip1559_def del: rlp_encode.simps)
  have "read_exact_list (tl (eth_signed (Eip1559 tx sig))) = Inr (eip1559_items tx (rlp_encode (eth_access_list (t1559_access_list tx))) @ signature_fields sig)"
    using read(1) ok by (simp only: eth_signed.simps list.sel map_append [symmetric] eip1559_eth_items [symmetric] signature_items signed_eth_tx_ok.simps)
  then show ?thesis by (rule decode_eip1559_items [OF ok _ al])
qed

lemma eip4844_eth_items:
  "eip4844_tx_ok tx \<Longrightarrow> map rlp_item (eth_eip4844 tx) = eip4844_items tx (rlp_encode (eth_access_list (t4844_access_list tx))) (rlp_encode (Lst (map Str (t4844_blob_versioned_hashes tx))))"
  by (simp add: eth_eip4844_def eip4844_items_def eip4844_tx_ok_def del: rlp_encode.simps)

lemma decode_eth_eip4844:
  assumes ok: "signed_eth_tx_ok (Eip4844 tx sig)" and len: "length (eth_signed (Eip4844 tx sig)) \<le> 2 ^ 64"
  shows "decode_eip4844 (tl (eth_signed (Eip4844 tx sig))) = Inr (Eip4844 tx sig)"
proof -
  let ?fields = "eth_eip4844 tx @ [eth_int (of_bool (sg_y_parity sig))] @ eth_rs sig"
  have fits: "length (rlp_encode (Lst ?fields)) \<le> 2 ^ 64" using len by (simp del: rlp_encode.simps)
  note read = read_rlp_encode [OF fits]
  have al: "decode_access_list (rlp_encode (eth_access_list (t4844_access_list tx))) = Inr (t4844_access_list tx)"
    using ok read(2) by (intro decode_eth_access_list) (simp_all add: eip4844_tx_ok_def eth_eip4844_def del: rlp_encode.simps)
  have hs: "decode_b256_list (rlp_encode (Lst (map Str (t4844_blob_versioned_hashes tx)))) = Inr (t4844_blob_versioned_hashes tx)"
    using ok read(2) by (intro decode_eth_b256_list) (simp_all add: eip4844_tx_ok_def eth_eip4844_def del: rlp_encode.simps)
  have "read_exact_list (tl (eth_signed (Eip4844 tx sig))) = Inr (eip4844_items tx (rlp_encode (eth_access_list (t4844_access_list tx))) (rlp_encode (Lst (map Str (t4844_blob_versioned_hashes tx)))) @ signature_fields sig)"
    using read(1) ok by (simp only: eth_signed.simps list.sel map_append [symmetric] eip4844_eth_items [symmetric] signature_items signed_eth_tx_ok.simps)
  then show ?thesis by (rule decode_eip4844_items [OF ok _ al hs])
qed

lemma eip7702_eth_items:
  "eip7702_tx_ok tx \<Longrightarrow> map rlp_item (eth_eip7702 tx) = eip7702_items tx (rlp_encode (eth_access_list (t7702_access_list tx))) (rlp_encode (eth_authorization_list (t7702_authorization_list tx)))"
  by (simp add: eth_eip7702_def eip7702_items_def eip7702_tx_ok_def del: rlp_encode.simps)

lemma decode_eth_eip7702:
  assumes ok: "signed_eth_tx_ok (Eip7702 tx sig)" and len: "length (eth_signed (Eip7702 tx sig)) \<le> 2 ^ 64"
  shows "decode_eip7702 (tl (eth_signed (Eip7702 tx sig))) = Inr (Eip7702 tx sig)"
proof -
  let ?fields = "eth_eip7702 tx @ [eth_int (of_bool (sg_y_parity sig))] @ eth_rs sig"
  have fits: "length (rlp_encode (Lst ?fields)) \<le> 2 ^ 64" using len by (simp del: rlp_encode.simps)
  note read = read_rlp_encode [OF fits]
  have al: "decode_access_list (rlp_encode (eth_access_list (t7702_access_list tx))) = Inr (t7702_access_list tx)"
    using ok read(2) by (intro decode_eth_access_list) (simp_all add: eip7702_tx_ok_def eth_eip7702_def del: rlp_encode.simps)
  have as: "decode_authorization_list (rlp_encode (eth_authorization_list (t7702_authorization_list tx))) = Inr (t7702_authorization_list tx)"
    using ok read(2) by (intro decode_eth_authorization_list) (simp_all add: eip7702_tx_ok_def eth_eip7702_def del: rlp_encode.simps)
  have "read_exact_list (tl (eth_signed (Eip7702 tx sig))) = Inr (eip7702_items tx (rlp_encode (eth_access_list (t7702_access_list tx))) (rlp_encode (eth_authorization_list (t7702_authorization_list tx))) @ signature_fields sig)"
    using read(1) ok by (simp only: eth_signed.simps list.sel map_append [symmetric] eip7702_eth_items [symmetric] signature_items signed_eth_tx_ok.simps)
  then show ?thesis by (rule decode_eip7702_items [OF ok _ al as])
qed

text \<open>Whatever the kind, the decoder accepts the bytes Ethereum defines.\<close>

lemma legacy_eth_items:
  assumes "signed_eth_tx_ok (Legacy tx sig)"
  shows "eth_signed (Legacy tx sig) = rlp_encode (Lst (map Str (legacy_items tx sig)))"
proof -
  have v: "(case lt_chain_id tx of Some c \<Rightarrow> 2 * c + 35 + of_bool (sg_y_parity sig) | None \<Rightarrow> 27 + of_bool (sg_y_parity sig))
      = legacy_signed_v (lt_chain_id tx) (sg_y_parity sig)"
    using assms by (simp only: signed_eth_tx_ok.simps legacy_signed_v_eq)
  show ?thesis
    using assms unfolding eth_signed.simps v
    by (simp add: legacy_items_def legacy_fields_def eth_legacy_def eth_rs_def eth_int_def eth_to_def legacy_tx_ok_def
        signature_ok_def del: rlp_encode.simps split: tx_kind.split)
qed

lemma rlp_encode_Lst_first: "\<exists>t r. rlp_encode (Lst xs) = t # r \<and> 192 \<le> t"
  by (auto simp: rlp_prefix_def)

lemma decode_eth_signed:
  assumes ok: "signed_eth_tx_ok tx" and len: "length (eth_signed tx) \<le> 2 ^ 64"
  shows "decode_raw_transaction (eth_signed tx) = Inr tx"
proof (cases tx)
  case (Legacy t sig)
  obtain b r where b: "eth_signed tx = b # r" "192 \<le> b"
    using rlp_encode_Lst_first ok unfolding Legacy by (metis legacy_eth_items)
  have "read_exact_list (eth_signed tx) = Inr (legacy_items t sig)"
    using read_rlp_encode(1) len ok unfolding Legacy by (simp add: legacy_eth_items comp_def del: rlp_encode.simps eth_signed.simps)
  then have "decode_legacy (eth_signed tx) = Inr tx" using ok unfolding Legacy by (rule decode_legacy_items [rotated])
  with b show ?thesis by (simp add: decode_raw_transaction_def)
next
  case (Eip2930 t sig)
  with decode_eth_eip2930 [of t sig] ok len show ?thesis
    by (simp add: decode_raw_transaction_def tx_type_defs del: rlp_encode.simps)
next
  case (Eip1559 t sig)
  with decode_eth_eip1559 [of t sig] ok len show ?thesis
    by (simp add: decode_raw_transaction_def tx_type_defs del: rlp_encode.simps)
next
  case (Eip4844 t sig)
  with decode_eth_eip4844 [of t sig] ok len show ?thesis
    by (simp add: decode_raw_transaction_def tx_type_defs del: rlp_encode.simps)
next
  case (Eip7702 t sig)
  with decode_eth_eip7702 [of t sig] ok len show ?thesis
    by (simp add: decode_raw_transaction_def tx_type_defs del: rlp_encode.simps)
qed

section \<open>The encoder\<close>

text \<open>What the encoder writes, as reference items: all of them strings.\<close>

primrec own_fields :: "signed_eth_tx \<Rightarrow> nat list list" where
  "own_fields (Legacy tx sig) = legacy_fields tx @ (case lt_chain_id tx of Some c \<Rightarrow> [rlp_integer_bytes (u256_from_u64 c), [], []] | None \<Rightarrow> [])"
| "own_fields (Eip2930 tx sig) = eip2930_items tx (access_list_bytes (t2930_access_list tx))"
| "own_fields (Eip1559 tx sig) = eip1559_items tx (access_list_bytes (t1559_access_list tx))"
| "own_fields (Eip4844 tx sig) = eip4844_items tx (access_list_bytes (t4844_access_list tx)) (b256_list_bytes (t4844_blob_versioned_hashes tx))"
| "own_fields (Eip7702 tx sig) = eip7702_items tx (access_list_bytes (t7702_access_list tx)) (authorization_list_bytes (t7702_authorization_list tx))"

primrec tx_type :: "signed_eth_tx \<Rightarrow> nat list" where
  "tx_type (Legacy tx sig) = []"
| "tx_type (Eip2930 tx sig) = [1]"
| "tx_type (Eip1559 tx sig) = [2]"
| "tx_type (Eip4844 tx sig) = [3]"
| "tx_type (Eip7702 tx sig) = [4]"

primrec own_signed_fields :: "signed_eth_tx \<Rightarrow> nat list list" where
  "own_signed_fields (Legacy tx sig) = legacy_items tx sig"
| "own_signed_fields (Eip2930 tx sig) = own_fields (Eip2930 tx sig) @ signature_fields sig"
| "own_signed_fields (Eip1559 tx sig) = own_fields (Eip1559 tx sig) @ signature_fields sig"
| "own_signed_fields (Eip4844 tx sig) = own_fields (Eip4844 tx sig) @ signature_fields sig"
| "own_signed_fields (Eip7702 tx sig) = own_fields (Eip7702 tx sig) @ signature_fields sig"

lemmas append_defs = append_legacy_signed_def append_legacy_signable_def legacy_items_def
  append_eip2930_signed_def append_eip2930_signable_def append_eip2930_fields_def eip2930_items_def append_eip1559_signed_def append_eip1559_signable_def append_eip1559_fields_def eip1559_items_def append_eip4844_signed_def append_eip4844_signable_def append_eip4844_fields_def eip4844_items_def append_eip7702_signed_def append_eip7702_signable_def append_eip7702_fields_def eip7702_items_def

lemma signable_encoding_fields: "signable_encoding tx = append_rlp_list_from_bytes (own_fields tx) (tx_type tx)"
  by (cases tx) (simp_all add: signable_encoding_def append_defs tx_type_defs)

lemma raw_signed_encoding_fields: "raw_signed_encoding tx = append_rlp_list_from_bytes (own_signed_fields tx) (tx_type tx)"
  by (cases tx) (simp_all add: raw_signed_encoding_def append_defs tx_type_defs)

lemma own_roundtrip:
  assumes ok: "signed_eth_tx_ok tx" and len: "length (raw_signed_encoding tx) \<le> 2 ^ 64"
  shows "decode_raw_transaction (raw_signed_encoding tx) = Inr tx"
proof (cases tx)
  case (Legacy t sig)
  note len' = len [unfolded raw_signed_encoding_fields Legacy tx_type.simps own_signed_fields.simps]
  have raw: "raw_signed_encoding tx = append_rlp_list_from_bytes (legacy_items t sig) []"
    by (simp add: Legacy raw_signed_encoding_fields)
  obtain b r where b: "raw_signed_encoding tx = b # r" "192 \<le> b"
    using rlp_encode_Lst_first append_rlp_list_from_bytes_eq(1) [OF len'] unfolding raw by (metis append_Nil)
  have "decode_legacy (raw_signed_encoding tx) = Inr tx"
    unfolding raw using decode_legacy_items [OF _ read_list_from_bytes [OF len']] ok by (simp add: Legacy)
  with b show ?thesis by (simp add: decode_raw_transaction_def)
next
  case (Eip2930 t sig)
  have raw: "raw_signed_encoding tx = TX_TYPE_EIP2930 # append_eip2930_signed t sig []"
    by (simp add: Eip2930 raw_signed_encoding_def append_eip2930_signed_def append_eip2930_fields_def append_rlp_list_from_bytes_alt Let_def)
  with decode_eip2930_signed [of t sig] ok len show ?thesis
    by (simp add: Eip2930 decode_raw_transaction_def tx_type_defs)
next
  case (Eip1559 t sig)
  have raw: "raw_signed_encoding tx = TX_TYPE_EIP1559 # append_eip1559_signed t sig []"
    by (simp add: Eip1559 raw_signed_encoding_def append_eip1559_signed_def append_eip1559_fields_def append_rlp_list_from_bytes_alt Let_def)
  with decode_eip1559_signed [of t sig] ok len show ?thesis
    by (simp add: Eip1559 decode_raw_transaction_def tx_type_defs)
next
  case (Eip4844 t sig)
  have raw: "raw_signed_encoding tx = TX_TYPE_EIP4844 # append_eip4844_signed t sig []"
    by (simp add: Eip4844 raw_signed_encoding_def append_eip4844_signed_def append_eip4844_fields_def append_rlp_list_from_bytes_alt Let_def)
  with decode_eip4844_signed [of t sig] ok len show ?thesis
    by (simp add: Eip4844 decode_raw_transaction_def tx_type_defs)
next
  case (Eip7702 t sig)
  have raw: "raw_signed_encoding tx = TX_TYPE_EIP7702 # append_eip7702_signed t sig []"
    by (simp add: Eip7702 raw_signed_encoding_def append_eip7702_signed_def append_eip7702_fields_def append_rlp_list_from_bytes_alt Let_def)
  with decode_eip7702_signed [of t sig] ok len show ?thesis
    by (simp add: Eip7702 decode_raw_transaction_def tx_type_defs)
qed

lemma legacy_signable_eth:
  assumes ok: "signed_eth_tx_ok (Legacy tx sig)" and len: "length (signable_encoding (Legacy tx sig)) \<le> 2 ^ 64"
  shows "signable_encoding (Legacy tx sig) = eth_signable (Legacy tx sig)"
proof -
  have "u64_ok c" if "lt_chain_id tx = Some c" for c
    using ok that by (simp add: chain_id_ok_def u64_ok_def)
  then have "map Str (own_fields (Legacy tx sig)) =
      eth_legacy tx @ (case lt_chain_id tx of Some c \<Rightarrow> [eth_int c, eth_int 0, eth_int 0] | None \<Rightarrow> [])"
    using ok by (simp add: legacy_fields_def eth_legacy_def eth_int_def eth_to_def legacy_tx_ok_def split: tx_kind.split option.split)
  with append_rlp_list_from_bytes_eq(1) [OF len [unfolded signable_encoding_fields]] show ?thesis
    by (simp add: signable_encoding_fields del: rlp_encode.simps)
qed

lemma legacy_signed_eth:
  assumes ok: "signed_eth_tx_ok (Legacy tx sig)" and len: "length (raw_signed_encoding (Legacy tx sig)) \<le> 2 ^ 64"
  shows "raw_signed_encoding (Legacy tx sig) = eth_signed (Legacy tx sig)"
  using append_rlp_list_from_bytes_eq(1) [OF len [unfolded raw_signed_encoding_fields]] legacy_eth_items [OF ok]
  by (simp add: raw_signed_encoding_fields del: rlp_encode.simps eth_signed.simps)

text \<open>A string cannot stand where a list is expected: the first byte differs.\<close>

lemma wrapped_list_differs:
  assumes "b \<noteq> []" and "192 \<le> hd b" and "length (rlp_encode (Lst (pre @ [Str b] @ post))) \<le> 2 ^ 64"
  shows "rlp_encode (Lst (pre @ [Str b] @ post)) \<noteq> rlp_encode (Lst (pre @ [Lst l] @ post'))"
proof
  assume eq: "rlp_encode (Lst (pre @ [Str b] @ post)) = rlp_encode (Lst (pre @ [Lst l] @ post'))"
  let ?p = "concat (map rlp_encode (pre @ [Str b] @ post))" and ?q = "concat (map rlp_encode (pre @ [Lst l] @ post'))"
  have len: "length ?p < 2 ^ 64" "length ?q < 2 ^ 64"
  proof -
    have "0 < length (rlp_prefix 192 n)" for n by simp
    from this [of "length ?p"] this [of "length ?q"] assms(3) arg_cong [OF eq, of length]
    show "length ?p < 2 ^ 64" "length ?q < 2 ^ 64" unfolding rlp_encode.simps(2) length_append by linarith+
  qed
  have "?p = ?q"
    using rlp_read_list_prefix [OF len(1), of "[]"] rlp_read_list_prefix [OF len(2), of "[]"] eq by simp
  then have suffix: "rlp_encode (Str b) @ concat (map rlp_encode post) = rlp_encode (Lst l) @ concat (map rlp_encode post')"
    by (simp del: rlp_encode.simps)
  have "length b < 2 ^ 64" using len(1) by (simp split: if_splits)
  then have "hd (rlp_encode (Str b)) < 192" "rlp_encode (Str b) \<noteq> []"
    using assms(1,2) be_min_props(1) [of "length b"] by (auto simp: rlp_prefix_def)
  then have "hd (rlp_encode (Str b) @ concat (map rlp_encode post)) < 192" by (simp del: rlp_encode.simps)
  moreover obtain t r where "rlp_encode (Lst l) = t # r" "192 \<le> t" using rlp_encode_Lst_first by blast
  ultimately show False unfolding suffix by (simp del: rlp_encode.simps)
qed

lemma access_list_bytes_first: "access_list_bytes l \<noteq> []" "192 \<le> hd (access_list_bytes l)"
  by (auto simp: access_list_bytes_def nested_rlp_list_def append_rlp_list_from_encoded_items_alt Let_def append_rlp_header_def RLP_LIST_PREFIX_def)

lemma eip2930_differs:
  assumes ok: "eip2930_tx_ok tx" and len: "length (rlp_encode (Lst (map Str (own_fields (Eip2930 tx sig) @ s)))) \<le> 2 ^ 64"
  shows "rlp_encode (Lst (map Str (own_fields (Eip2930 tx sig) @ s))) \<noteq> rlp_encode (Lst (eth_eip2930 tx @ s'))"
proof -
  let ?pre = "take 7 (eth_eip2930 tx)" and ?al = "access_list_bytes (t2930_access_list tx)"
  have own: "map Str (own_fields (Eip2930 tx sig) @ s) = ?pre @ [Str ?al] @ map Str (drop 8 (own_fields (Eip2930 tx sig) @ s))"
    using ok by (simp add: eip2930_items_def eth_eip2930_def eip2930_tx_ok_def eth_int_def eth_to_def split: tx_kind.split)
  have eth: "eth_eip2930 tx @ s' = ?pre @ [eth_access_list (t2930_access_list tx)] @ drop 8 (eth_eip2930 tx @ s')"
    by (simp add: eth_eip2930_def)
  show ?thesis using wrapped_list_differs [OF access_list_bytes_first len [unfolded own]] own eth by (metis eth_access_list_def)
qed

lemma eip1559_differs:
  assumes ok: "eip1559_tx_ok tx" and len: "length (rlp_encode (Lst (map Str (own_fields (Eip1559 tx sig) @ s)))) \<le> 2 ^ 64"
  shows "rlp_encode (Lst (map Str (own_fields (Eip1559 tx sig) @ s))) \<noteq> rlp_encode (Lst (eth_eip1559 tx @ s'))"
proof -
  let ?pre = "take 8 (eth_eip1559 tx)" and ?al = "access_list_bytes (t1559_access_list tx)"
  have own: "map Str (own_fields (Eip1559 tx sig) @ s) = ?pre @ [Str ?al] @ map Str (drop 9 (own_fields (Eip1559 tx sig) @ s))"
    using ok by (simp add: eip1559_items_def eth_eip1559_def eip1559_tx_ok_def eth_int_def eth_to_def split: tx_kind.split)
  have eth: "eth_eip1559 tx @ s' = ?pre @ [eth_access_list (t1559_access_list tx)] @ drop 9 (eth_eip1559 tx @ s')"
    by (simp add: eth_eip1559_def)
  show ?thesis using wrapped_list_differs [OF access_list_bytes_first len [unfolded own]] own eth by (metis eth_access_list_def)
qed

lemma eip4844_differs:
  assumes ok: "eip4844_tx_ok tx" and len: "length (rlp_encode (Lst (map Str (own_fields (Eip4844 tx sig) @ s)))) \<le> 2 ^ 64"
  shows "rlp_encode (Lst (map Str (own_fields (Eip4844 tx sig) @ s))) \<noteq> rlp_encode (Lst (eth_eip4844 tx @ s'))"
proof -
  let ?pre = "take 8 (eth_eip4844 tx)" and ?al = "access_list_bytes (t4844_access_list tx)"
  have own: "map Str (own_fields (Eip4844 tx sig) @ s) = ?pre @ [Str ?al] @ map Str (drop 9 (own_fields (Eip4844 tx sig) @ s))"
    using ok by (simp add: eip4844_items_def eth_eip4844_def eip4844_tx_ok_def eth_int_def eth_to_def split: tx_kind.split)
  have eth: "eth_eip4844 tx @ s' = ?pre @ [eth_access_list (t4844_access_list tx)] @ drop 9 (eth_eip4844 tx @ s')"
    by (simp add: eth_eip4844_def)
  show ?thesis using wrapped_list_differs [OF access_list_bytes_first len [unfolded own]] own eth by (metis eth_access_list_def)
qed

lemma eip7702_differs:
  assumes ok: "eip7702_tx_ok tx" and len: "length (rlp_encode (Lst (map Str (own_fields (Eip7702 tx sig) @ s)))) \<le> 2 ^ 64"
  shows "rlp_encode (Lst (map Str (own_fields (Eip7702 tx sig) @ s))) \<noteq> rlp_encode (Lst (eth_eip7702 tx @ s'))"
proof -
  let ?pre = "take 8 (eth_eip7702 tx)" and ?al = "access_list_bytes (t7702_access_list tx)"
  have own: "map Str (own_fields (Eip7702 tx sig) @ s) = ?pre @ [Str ?al] @ map Str (drop 9 (own_fields (Eip7702 tx sig) @ s))"
    using ok by (simp add: eip7702_items_def eth_eip7702_def eip7702_tx_ok_def eth_int_def eth_to_def split: tx_kind.split)
  have eth: "eth_eip7702 tx @ s' = ?pre @ [eth_access_list (t7702_access_list tx)] @ drop 9 (eth_eip7702 tx @ s')"
    by (simp add: eth_eip7702_def)
  show ?thesis using wrapped_list_differs [OF access_list_bytes_first len [unfolded own]] own eth by (metis eth_access_list_def)
qed

lemma typed_signable_differs:
  assumes ok: "signed_eth_tx_ok tx" and typed: "tx_type tx \<noteq> []" and len: "length (signable_encoding tx) \<le> 2 ^ 64"
  shows "signable_encoding tx \<noteq> eth_signable tx"
proof -
  have sig: "signable_encoding tx = tx_type tx @ rlp_encode (Lst (map Str (own_fields tx)))"
    using append_rlp_list_from_bytes_eq(1) [OF len [unfolded signable_encoding_fields]] by (simp only: signable_encoding_fields)
  have len': "length (rlp_encode (Lst (map Str (own_fields tx @ [])))) \<le> 2 ^ 64" using len unfolding sig by (simp del: rlp_encode.simps)
  show ?thesis
  proof (cases tx)
    case (Legacy t sig)
    with typed show ?thesis by simp
  next
    case (Eip2930 t sig)
    show ?thesis
      using eip2930_differs [OF _ len' [unfolded Eip2930], where s' = "[]"] ok sig [unfolded Eip2930]
      by (simp add: Eip2930 del: rlp_encode.simps own_fields.simps)
  next
    case (Eip1559 t sig)
    show ?thesis
      using eip1559_differs [OF _ len' [unfolded Eip1559], where s' = "[]"] ok sig [unfolded Eip1559]
      by (simp add: Eip1559 del: rlp_encode.simps own_fields.simps)
  next
    case (Eip4844 t sig)
    show ?thesis
      using eip4844_differs [OF _ len' [unfolded Eip4844], where s' = "[]"] ok sig [unfolded Eip4844]
      by (simp add: Eip4844 del: rlp_encode.simps own_fields.simps)
  next
    case (Eip7702 t sig)
    show ?thesis
      using eip7702_differs [OF _ len' [unfolded Eip7702], where s' = "[]"] ok sig [unfolded Eip7702]
      by (simp add: Eip7702 del: rlp_encode.simps own_fields.simps)
  qed
qed

lemma typed_signed_differs:
  assumes ok: "signed_eth_tx_ok tx" and typed: "tx_type tx \<noteq> []" and len: "length (raw_signed_encoding tx) \<le> 2 ^ 64"
  shows "raw_signed_encoding tx \<noteq> eth_signed tx"
proof -
  have sig: "raw_signed_encoding tx = tx_type tx @ rlp_encode (Lst (map Str (own_signed_fields tx)))"
    using append_rlp_list_from_bytes_eq(1) [OF len [unfolded raw_signed_encoding_fields]] by (simp only: raw_signed_encoding_fields)
  have len': "length (rlp_encode (Lst (map Str (own_signed_fields tx)))) \<le> 2 ^ 64" using len unfolding sig by (simp del: rlp_encode.simps)
  show ?thesis
  proof (cases tx)
    case (Legacy t sig)
    with typed show ?thesis by simp
  next
    case (Eip2930 t sig)
    show ?thesis
      using eip2930_differs [OF _ len' [unfolded Eip2930 own_signed_fields.simps], of "[eth_int (of_bool (sg_y_parity sig))] @ eth_rs sig"]
        ok sig [unfolded Eip2930]
      by (simp add: Eip2930 del: rlp_encode.simps own_fields.simps)
  next
    case (Eip1559 t sig)
    show ?thesis
      using eip1559_differs [OF _ len' [unfolded Eip1559 own_signed_fields.simps], of "[eth_int (of_bool (sg_y_parity sig))] @ eth_rs sig"]
        ok sig [unfolded Eip1559]
      by (simp add: Eip1559 del: rlp_encode.simps own_fields.simps)
  next
    case (Eip4844 t sig)
    show ?thesis
      using eip4844_differs [OF _ len' [unfolded Eip4844 own_signed_fields.simps], of "[eth_int (of_bool (sg_y_parity sig))] @ eth_rs sig"]
        ok sig [unfolded Eip4844]
      by (simp add: Eip4844 del: rlp_encode.simps own_fields.simps)
  next
    case (Eip7702 t sig)
    show ?thesis
      using eip7702_differs [OF _ len' [unfolded Eip7702 own_signed_fields.simps], of "[eth_int (of_bool (sg_y_parity sig))] @ eth_rs sig"]
        ok sig [unfolded Eip7702]
      by (simp add: Eip7702 del: rlp_encode.simps own_fields.simps)
  qed
qed

end
