(* ===== verification/Evm_Validate.thy ===== *)
theory Evm_Validate
  imports Evm_Ethereum
begin

text \<open>
  The raw transaction action of \<^verbatim>\<open>src/l1/action/evm_raw_tx.rs\<close>: its JSON form with the hexadecimal
  codec, the accessors of a transaction, the intrinsic gas, and the validation that precedes its
  execution.  The hash function, the recovery of the signer and the EVM state are traits of the source;
  they are records of functions here, and arguments of the definitions that use them.
\<close>

section \<open>Accessors\<close>

primrec tx_chain_id :: "signed_eth_tx \<Rightarrow> nat option" where
  "tx_chain_id (Legacy tx sig) = lt_chain_id tx"
| "tx_chain_id (Eip2930 tx sig) = Some (t2930_chain_id tx)"
| "tx_chain_id (Eip1559 tx sig) = Some (t1559_chain_id tx)"
| "tx_chain_id (Eip4844 tx sig) = Some (t4844_chain_id tx)"
| "tx_chain_id (Eip7702 tx sig) = Some (t7702_chain_id tx)"

primrec tx_nonce :: "signed_eth_tx \<Rightarrow> nat" where
  "tx_nonce (Legacy tx sig) = lt_nonce tx"
| "tx_nonce (Eip2930 tx sig) = t2930_nonce tx"
| "tx_nonce (Eip1559 tx sig) = t1559_nonce tx"
| "tx_nonce (Eip4844 tx sig) = t4844_nonce tx"
| "tx_nonce (Eip7702 tx sig) = t7702_nonce tx"

primrec tx_gas_limit :: "signed_eth_tx \<Rightarrow> nat" where
  "tx_gas_limit (Legacy tx sig) = lt_gas_limit tx"
| "tx_gas_limit (Eip2930 tx sig) = t2930_gas_limit tx"
| "tx_gas_limit (Eip1559 tx sig) = t1559_gas_limit tx"
| "tx_gas_limit (Eip4844 tx sig) = t4844_gas_limit tx"
| "tx_gas_limit (Eip7702 tx sig) = t7702_gas_limit tx"

primrec tx_value :: "signed_eth_tx \<Rightarrow> u256" where
  "tx_value (Legacy tx sig) = lt_value tx"
| "tx_value (Eip2930 tx sig) = t2930_value tx"
| "tx_value (Eip1559 tx sig) = t1559_value tx"
| "tx_value (Eip4844 tx sig) = t4844_value tx"
| "tx_value (Eip7702 tx sig) = t7702_value tx"

primrec tx_fee_cap :: "signed_eth_tx \<Rightarrow> u256" where
  "tx_fee_cap (Legacy tx sig) = lt_gas_price tx"
| "tx_fee_cap (Eip2930 tx sig) = t2930_gas_price tx"
| "tx_fee_cap (Eip1559 tx sig) = t1559_max_fee_per_gas tx"
| "tx_fee_cap (Eip4844 tx sig) = t4844_max_fee_per_gas tx"
| "tx_fee_cap (Eip7702 tx sig) = t7702_max_fee_per_gas tx"

primrec tx_priority_fee :: "signed_eth_tx \<Rightarrow> u256 option" where
  "tx_priority_fee (Legacy tx sig) = None"
| "tx_priority_fee (Eip2930 tx sig) = None"
| "tx_priority_fee (Eip1559 tx sig) = Some (t1559_max_priority_fee_per_gas tx)"
| "tx_priority_fee (Eip4844 tx sig) = Some (t4844_max_priority_fee_per_gas tx)"
| "tx_priority_fee (Eip7702 tx sig) = Some (t7702_max_priority_fee_per_gas tx)"

primrec tx_input :: "signed_eth_tx \<Rightarrow> nat list" where
  "tx_input (Legacy tx sig) = lt_input tx"
| "tx_input (Eip2930 tx sig) = t2930_input tx"
| "tx_input (Eip1559 tx sig) = t1559_input tx"
| "tx_input (Eip4844 tx sig) = t4844_input tx"
| "tx_input (Eip7702 tx sig) = t7702_input tx"

primrec tx_to :: "signed_eth_tx \<Rightarrow> tx_kind" where
  "tx_to (Legacy tx sig) = lt_to tx"
| "tx_to (Eip2930 tx sig) = t2930_to tx"
| "tx_to (Eip1559 tx sig) = t1559_to tx"
| "tx_to (Eip4844 tx sig) = t4844_to tx"
| "tx_to (Eip7702 tx sig) = t7702_to tx"

primrec tx_access_list :: "signed_eth_tx \<Rightarrow> access_list_item list" where
  "tx_access_list (Legacy tx sig) = []"
| "tx_access_list (Eip2930 tx sig) = t2930_access_list tx"
| "tx_access_list (Eip1559 tx sig) = t1559_access_list tx"
| "tx_access_list (Eip4844 tx sig) = t4844_access_list tx"
| "tx_access_list (Eip7702 tx sig) = t7702_access_list tx"

primrec tx_signature :: "signed_eth_tx \<Rightarrow> signature" where
  "tx_signature (Legacy tx sig) = sig"
| "tx_signature (Eip2930 tx sig) = sig"
| "tx_signature (Eip1559 tx sig) = sig"
| "tx_signature (Eip4844 tx sig) = sig"
| "tx_signature (Eip7702 tx sig) = sig"

primrec is_validation_supported :: "signed_eth_tx \<Rightarrow> bool" where
  "is_validation_supported (Legacy tx sig) = True"
| "is_validation_supported (Eip2930 tx sig) = True"
| "is_validation_supported (Eip1559 tx sig) = True"
| "is_validation_supported (Eip4844 tx sig) = False"
| "is_validation_supported (Eip7702 tx sig) = False"

definition SECP256K1_HALF_ORDER :: u256 where
  "SECP256K1_HALF_ORDER = U256 0x7fffffffffffffff 0xffffffffffffffff 0x5d576e7357a4501d 0xdfe92f46681b20a0"

definition is_low_s :: "signature \<Rightarrow> bool" where
  "is_low_s sig = (let s = u256_from_be_bytes (sg_s sig) in \<not> u256_is_zero s \<and> s \<le> SECP256K1_HALF_ORDER)"

section \<open>Intrinsic gas\<close>

primrec add_input_gas :: "nat list \<Rightarrow> nat \<Rightarrow> nat option" where
  "add_input_gas [] gas = Some gas"
| "add_input_gas (byte # bytes) gas =
     (case checked_add_u64 gas (if byte = 0 then 4 else 16) of
        None \<Rightarrow> None
      | Some gas \<Rightarrow> add_input_gas bytes gas)"

primrec add_access_gas :: "access_list_item list \<Rightarrow> nat \<Rightarrow> nat option" where
  "add_access_gas [] gas = Some gas"
| "add_access_gas (item # items) gas =
     (case checked_add_u64 gas 2400 of
        None \<Rightarrow> None
      | Some gas \<Rightarrow> (case checked_mul_u64 1900 (length (al_storage_keys item)) of
            None \<Rightarrow> None
          | Some keys \<Rightarrow> (case checked_add_u64 gas keys of
                None \<Rightarrow> None
              | Some gas \<Rightarrow> add_access_gas items gas)))"

definition intrinsic_gas :: "signed_eth_tx \<Rightarrow> nat option" where
  "intrinsic_gas tx =
     (let gas = (case tx_to tx of Create \<Rightarrow> 53000 | Call _ \<Rightarrow> 21000)
      in case add_input_gas (tx_input tx) gas of
           None \<Rightarrow> None
         | Some gas \<Rightarrow> add_access_gas (tx_access_list tx) gas)"

text \<open>The gas schedule without the overflow checks.\<close>

definition intrinsic_cost :: "signed_eth_tx \<Rightarrow> nat" where
  "intrinsic_cost tx = (case tx_to tx of Create \<Rightarrow> 53000 | Call _ \<Rightarrow> 21000)
     + (\<Sum>b \<leftarrow> tx_input tx. if b = 0 then 4 else 16)
     + (\<Sum>i \<leftarrow> tx_access_list tx. 2400 + 1900 * length (al_storage_keys i))"

section \<open>The action and its JSON form\<close>

record evm_raw_tx_action =
  ra_data :: "nat list"

datatype hex_decode_error = MissingPrefix | OddLength | InvalidHex

definition HEX :: "nat list" where
  "HEX = [48, 49, 50, 51, 52, 53, 54, 55, 56, 57, 97, 98, 99, 100, 101, 102]"

definition append_hex_prefixed :: "nat list \<Rightarrow> nat list \<Rightarrow> nat list" where
  "append_hex_prefixed out bytes =
     foldl (\<lambda>out byte. (out @ [HEX ! (byte div 16)]) @ [HEX ! (byte mod 16)]) (out @ [48, 120]) bytes"

definition hex_nibble :: "nat \<Rightarrow> hex_decode_error + nat" where
  "hex_nibble byte =
     (if 48 \<le> byte \<and> byte \<le> 57 then Inr (byte - 48)
      else if 97 \<le> byte \<and> byte \<le> 102 then Inr (byte - 97 + 10)
      else if 65 \<le> byte \<and> byte \<le> 70 then Inr (byte - 65 + 10)
      else Inl InvalidHex)"

text \<open>The loop over pairs of characters; the length is even when it starts.\<close>

fun decode_hex_pairs :: "nat list \<Rightarrow> nat list \<Rightarrow> hex_decode_error + nat list" where
  "decode_hex_pairs (hi # lo # rest) out =
     and_then (hex_nibble hi) (\<lambda>h. and_then (hex_nibble lo) (\<lambda>l. decode_hex_pairs rest (out @ [h * 16 mod 256 + l])))"
| "decode_hex_pairs _ out = Inr out"

definition decode_hex_prefixed :: "nat list \<Rightarrow> hex_decode_error + nat list" where
  "decode_hex_prefixed value =
     (if take 2 value \<noteq> [48, 120] then Inl MissingPrefix
      else let hex = drop 2 value in
        if length hex mod 2 \<noteq> 0 then Inl OddLength else decode_hex_pairs hex [])"

definition ACTION_STRUCT_NAME :: string where "ACTION_STRUCT_NAME = ''EvmRawTxAction''"

definition ACTION_FIELD_DATA :: string where "ACTION_FIELD_DATA = ''data''"

definition serialize_action :: "evm_raw_tx_action \<Rightarrow> string \<times> (string \<times> nat list) list" where
  "serialize_action action = (ACTION_STRUCT_NAME, [(ACTION_FIELD_DATA, append_hex_prefixed [] (ra_data action))])"

datatype action_de_error = UnknownField string | DuplicateField string | MissingField string | Custom hex_decode_error

primrec visit_entries :: "(string \<times> nat list) list \<Rightarrow> nat list option \<Rightarrow> action_de_error + nat list option" where
  "visit_entries [] data = Inr data"
| "visit_entries (entry # entries) data =
     (if fst entry \<noteq> ACTION_FIELD_DATA then Inl (UnknownField (fst entry))
      else if data \<noteq> None then Inl (DuplicateField ACTION_FIELD_DATA)
      else case decode_hex_prefixed (snd entry) of
             Inl e \<Rightarrow> Inl (Custom e)
           | Inr bytes \<Rightarrow> visit_entries entries (Some bytes))"

definition visit_map :: "(string \<times> nat list) list \<Rightarrow> action_de_error + evm_raw_tx_action" where
  "visit_map entries = and_then (visit_entries entries None) (\<lambda>data. case data of
      Some bytes \<Rightarrow> Inr \<lparr>ra_data = bytes\<rparr>
    | None \<Rightarrow> Inl (MissingField ACTION_FIELD_DATA))"

section \<open>Validation\<close>

definition MAX_RAW_TX_BYTES :: nat where "MAX_RAW_TX_BYTES = 0x3e800"

definition MAX_CALLDATA_BYTES :: nat where "MAX_CALLDATA_BYTES = 0x20000"

definition LARGE_CALLDATA_EMPTY_PREFIX_THRESHOLD :: nat where "LARGE_CALLDATA_EMPTY_PREFIX_THRESHOLD = 0xc001"

definition MIN_FEE_CAP_WEI :: u256 where "MIN_FEE_CAP_WEI = u256_from_u64 100000000"

definition NORMAL_ACCOUNT_GAS_LIMIT :: nat where "NORMAL_ACCOUNT_GAS_LIMIT = 3000000"

definition BIG_BLOCK_ACCOUNT_GAS_LIMIT :: nat where "BIG_BLOCK_ACCOUNT_GAS_LIMIT = 30000000"

definition NONCE_LOOKAHEAD :: nat where "NONCE_LOOKAHEAD = 8"

datatype evm_execution_error = Rejected nat | Internal

datatype evm_raw_tx_validation_error =
    EvmDisabled
  | RawTransactionTooLarge nat nat
  | Decode raw_tx_decode_error
  | UnsupportedForBlockExecution
  | InvalidSignature
  | WrongChainId nat nat
  | CallDataTooLarge nat nat
  | LargeCallDataStartsWithZero nat
  | GasLimitTooHigh nat nat
  | FeeCapTooLow u256 u256
  | PriorityFeeAboveFeeCap u256 u256
  | IntrinsicGasTooHigh nat nat
  | NonceTooLow nat nat
  | NonceTooHigh nat nat nat
  | BalanceTooLow u256 u256
  | Execution evm_execution_error

record validated_evm_raw_tx =
  va_tx :: signed_eth_tx
  va_sender :: "nat list"
  va_tx_hash :: "nat list"
  va_signable_hash :: "nat list"
  va_intrinsic_gas :: nat
  va_upfront_cost :: u256

record evm_account_view =
  av_nonce :: nat
  av_balance :: u256
  av_big_block_gas_limit :: bool

record evm_raw_tx_crypto =
  keccak256 :: "nat list \<Rightarrow> nat list"
  recover_address :: "nat list \<Rightarrow> signature \<Rightarrow> nat list option"

record 's evm_raw_tx_state =
  evm_enabled :: "'s \<Rightarrow> bool"
  state_chain_id :: "'s \<Rightarrow> nat"
  account :: "'s \<Rightarrow> nat list \<Rightarrow> evm_account_view"
  execute_evm_raw_tx :: "'s \<Rightarrow> validated_evm_raw_tx \<Rightarrow> 's \<times> (evm_execution_error + unit)"

text \<open>An early return with an error unless the condition holds.\<close>

definition ensure :: "bool \<Rightarrow> 'e \<Rightarrow> 'e + unit" where
  "ensure c e = (if c then Inr () else Inl e)"

definition ok_or :: "'a option \<Rightarrow> 'e \<Rightarrow> 'e + 'a" where
  "ok_or x e = (case x of Some v \<Rightarrow> Inr v | None \<Rightarrow> Inl e)"

definition map_err :: "('d \<Rightarrow> 'e) \<Rightarrow> 'd + 'a \<Rightarrow> 'e + 'a" where
  "map_err f r = (case r of Inl e \<Rightarrow> Inl (f e) | Inr x \<Rightarrow> Inr x)"

definition u256_max :: u256 where
  "u256_max = U256 u64_max u64_max u64_max u64_max"

text \<open>The checks of \<open>validate_evm_raw_tx\<close>, in its order, up to the value it hands to the execution.\<close>

definition check_evm_raw_tx ::
  "evm_raw_tx_action \<Rightarrow> evm_raw_tx_crypto \<Rightarrow> 's evm_raw_tx_state \<Rightarrow> 's \<Rightarrow> evm_raw_tx_validation_error + validated_evm_raw_tx" where
  "check_evm_raw_tx action crypto ops state =
     and_then (ensure (evm_enabled ops state) EvmDisabled) (\<lambda>_.
     and_then (ensure (length (ra_data action) \<le> MAX_RAW_TX_BYTES)
                 (RawTransactionTooLarge (length (ra_data action)) MAX_RAW_TX_BYTES)) (\<lambda>_.
     and_then (map_err Decode (decode_raw_transaction (ra_data action))) (\<lambda>tx.
     and_then (ensure (is_validation_supported tx) UnsupportedForBlockExecution) (\<lambda>_.
     let signable_hash = keccak256 crypto (signable_encoding tx);
         signature = tx_signature tx in
     and_then (ensure (is_low_s signature) InvalidSignature) (\<lambda>_.
     and_then (ok_or (recover_address crypto signable_hash signature) InvalidSignature) (\<lambda>sender.
     and_then (case tx_chain_id tx of
                 Some actual \<Rightarrow> ensure (actual = state_chain_id ops state) (WrongChainId (state_chain_id ops state) actual)
               | None \<Rightarrow> Inr ()) (\<lambda>_.
     let input = tx_input tx in
     and_then (ensure (length input \<le> MAX_CALLDATA_BYTES) (CallDataTooLarge (length input) MAX_CALLDATA_BYTES)) (\<lambda>_.
     and_then (ensure (\<not> (LARGE_CALLDATA_EMPTY_PREFIX_THRESHOLD \<le> length input \<and> input \<noteq> [] \<and> hd input = 0))
                 (LargeCallDataStartsWithZero (length input))) (\<lambda>_.
     let acct = account ops state sender;
         max_gas = (if av_big_block_gas_limit acct then BIG_BLOCK_ACCOUNT_GAS_LIMIT else NORMAL_ACCOUNT_GAS_LIMIT);
         gas_limit = tx_gas_limit tx in
     and_then (ensure (gas_limit \<le> max_gas) (GasLimitTooHigh gas_limit max_gas)) (\<lambda>_.
     let fee_cap = tx_fee_cap tx in
     and_then (ensure (MIN_FEE_CAP_WEI \<le> fee_cap) (FeeCapTooLow fee_cap MIN_FEE_CAP_WEI)) (\<lambda>_.
     and_then (case tx_priority_fee tx of
                 Some priority_fee \<Rightarrow> ensure (priority_fee \<le> fee_cap) (PriorityFeeAboveFeeCap priority_fee fee_cap)
               | None \<Rightarrow> Inr ()) (\<lambda>_.
     and_then (ok_or (intrinsic_gas tx) (IntrinsicGasTooHigh u64_max gas_limit)) (\<lambda>gas.
     and_then (ensure (gas \<le> gas_limit) (IntrinsicGasTooHigh gas gas_limit)) (\<lambda>_.
     let nonce = tx_nonce tx in
     and_then (ensure (av_nonce acct \<le> nonce) (NonceTooLow (av_nonce acct) nonce)) (\<lambda>_.
     and_then (ensure (nonce < saturating_add_u64 (av_nonce acct) NONCE_LOOKAHEAD)
                 (NonceTooHigh (av_nonce acct) nonce NONCE_LOOKAHEAD)) (\<lambda>_.
     and_then (ok_or (u256_checked_mul_u64 fee_cap gas_limit) (BalanceTooLow (av_balance acct) u256_max)) (\<lambda>gas_cost.
     and_then (ok_or (u256_checked_add gas_cost (tx_value tx)) (BalanceTooLow (av_balance acct) u256_max)) (\<lambda>upfront_cost.
     and_then (ensure (upfront_cost \<le> av_balance acct) (BalanceTooLow (av_balance acct) upfront_cost)) (\<lambda>_.
     Inr \<lparr>va_tx = tx, va_sender = sender, va_tx_hash = keccak256 crypto (ra_data action), va_signable_hash = signable_hash,
          va_intrinsic_gas = gas, va_upfront_cost = upfront_cost\<rparr>)))))))))))))))))))"

definition validate_evm_raw_tx ::
  "evm_raw_tx_action \<Rightarrow> evm_raw_tx_crypto \<Rightarrow> 's evm_raw_tx_state \<Rightarrow> 's \<Rightarrow>
   's \<times> (evm_raw_tx_validation_error + validated_evm_raw_tx)" where
  "validate_evm_raw_tx action crypto ops state =
     (case check_evm_raw_tx action crypto ops state of
        Inl e \<Rightarrow> (state, Inl e)
      | Inr validated \<Rightarrow>
          (case execute_evm_raw_tx ops state validated of
             (state', Inl e) \<Rightarrow> (state', Inl (Execution e))
           | (state', Inr _) \<Rightarrow> (state', Inr validated)))"

end
