(* ===== verification/Evm_Properties.thy ===== *)
theory Evm_Properties
  imports Evm_Validate
begin

text \<open>
  What the raw transaction action guarantees: the codecs are inverse, decoded transactions are
  well-formed, validation accepts exactly the admissible transactions and leaves the EVM state alone
  when it refuses one, and the encoder departs from Ethereum for every typed transaction.
\<close>

section \<open>Hexadecimal\<close>

lemma HEX_nibble:
  assumes "n < 16"
  shows "hex_nibble (HEX ! n) = Inr n"
proof -
  have "\<forall>n \<in> {0..<16}. hex_nibble (HEX ! n) = Inr n"
    by (simp add: HEX_def hex_nibble_def numeral_eq_Suc atLeastLessThanSuc)
  with assms show ?thesis by simp
qed

lemma append_hex_fold:
  "foldl (\<lambda>out byte. (out @ [HEX ! (byte div 16)]) @ [HEX ! (byte mod 16)]) out bytes
    = out @ concat (map (\<lambda>byte. [HEX ! (byte div 16), HEX ! (byte mod 16)]) bytes)"
  by (induction bytes arbitrary: out) simp_all

lemma decode_hex_pairs_bytes:
  "byte_list bytes \<Longrightarrow>
    decode_hex_pairs (concat (map (\<lambda>byte. [HEX ! (byte div 16), HEX ! (byte mod 16)]) bytes)) out = Inr (out @ bytes)"
proof (induction bytes arbitrary: out)
  case (Cons b bs)
  then have "b div 16 < 16" by (simp add: less_mult_imp_div_less)
  then have "b div 16 * 16 mod 256 = b div 16 * 16" by simp
  with Cons \<open>b div 16 < 16\<close> HEX_nibble [of "b div 16"] HEX_nibble [of "b mod 16"] show ?case by simp
qed simp

lemma decode_hex_append:
  assumes "byte_list bytes"
  shows "decode_hex_prefixed (append_hex_prefixed [] bytes) = Inr bytes"
proof -
  let ?hex = "concat (map (\<lambda>byte. [HEX ! (byte div 16), HEX ! (byte mod 16)]) bytes)"
  have "length ?hex mod 2 = 0" by (induction bytes) simp_all
  then show ?thesis
    using decode_hex_pairs_bytes [OF assms, of "[]"] unfolding decode_hex_prefixed_def append_hex_prefixed_def append_hex_fold by simp
qed

section \<open>Intrinsic gas\<close>

lemma add_input_gas_exact:
  "gas \<le> u64_max \<Longrightarrow> add_input_gas bs gas =
    (let g = gas + (\<Sum>b \<leftarrow> bs. if b = 0 then 4 else 16) in if g \<le> u64_max then Some g else None)"
proof (induction bs arbitrary: gas)
  case (Cons b bs)
  show ?case
  proof (cases "gas + (if b = 0 then 4 else 16) \<le> u64_max")
    case True
    with Cons.IH [OF this] show ?thesis by (simp add: checked_add_u64_def Let_def add.assoc)
  next
    case False
    then show ?thesis by (auto simp: checked_add_u64_def Let_def)
  qed
qed simp

lemma add_access_gas_exact:
  "gas \<le> u64_max \<Longrightarrow> add_access_gas items gas =
    (let g = gas + (\<Sum>i \<leftarrow> items. 2400 + 1900 * length (al_storage_keys i)) in if g \<le> u64_max then Some g else None)"
proof (induction items arbitrary: gas)
  case (Cons i items)
  let ?keys = "1900 * length (al_storage_keys i)"
  show ?case
  proof (cases "gas + (2400 + ?keys) \<le> u64_max")
    case True
    then have "gas + 2400 \<le> u64_max" "?keys \<le> u64_max" by simp_all
    with Cons.IH [OF True] True show ?thesis
      by (simp add: checked_add_u64_def checked_mul_u64_def Let_def add.assoc)
  next
    case False
    then show ?thesis by (auto simp: checked_add_u64_def checked_mul_u64_def Let_def)
  qed
qed simp

lemma intrinsic_gas_exact: "intrinsic_gas tx = (if intrinsic_cost tx \<le> u64_max then Some (intrinsic_cost tx) else None)"
proof -
  define base :: nat where "base = (case tx_to tx of Create \<Rightarrow> 53000 | Call _ \<Rightarrow> 21000)"
  have "base \<le> u64_max" by (simp add: base_def u64_max_def split: tx_kind.split)
  then have "intrinsic_gas tx = (case (let g = base + (\<Sum>b \<leftarrow> tx_input tx. if b = 0 then 4 else 16) in if g \<le> u64_max then Some g else None) of
      None \<Rightarrow> None | Some gas \<Rightarrow> add_access_gas (tx_access_list tx) gas)"
    by (simp only: intrinsic_gas_def Let_def base_def [symmetric] add_input_gas_exact)
  then show ?thesis
    by (simp add: intrinsic_cost_def base_def [symmetric] Let_def add_access_gas_exact)
qed

section \<open>Signatures\<close>

definition secp256k1_order :: nat where
  "secp256k1_order = 0xFFFFFFFFFFFFFFFFFFFFFFFFFFFFFFFEBAAEDCE6AF48A03BBFD25E8CD0364141"

lemma half_order_val: "u256_val SECP256K1_HALF_ORDER = secp256k1_order div 2" "u256_ok SECP256K1_HALF_ORDER"
  by (simp_all add: SECP256K1_HALF_ORDER_def secp256k1_order_def)

lemma u256_is_zero_val: "u256_is_zero x \<longleftrightarrow> u256_val x = 0"
  by (cases x) (auto simp: u256_is_zero_def)

lemma is_low_s_val:
  assumes "signature_ok sig"
  shows "is_low_s sig \<longleftrightarrow> 0 < digits_value 256 (sg_s sig) \<and> digits_value 256 (sg_s sig) \<le> secp256k1_order div 2"
proof -
  have s: "length (sg_s sig) = 32" "byte_list (sg_s sig)" using assms by (simp_all add: signature_ok_def b256_ok_def)
  note val = u256_from_be_bytes_val [OF s]
  show ?thesis
    by (simp only: is_low_s_def Let_def u256_is_zero_val u256_le_val [OF val(2) half_order_val(2)] val(1) half_order_val(1)) simp
qed

section \<open>Admissible transactions\<close>

text \<open>What the rules ask of a transaction, with numbers in place of limbs.\<close>

definition admissible ::
  "evm_raw_tx_crypto \<Rightarrow> 's evm_raw_tx_state \<Rightarrow> 's \<Rightarrow> nat list \<Rightarrow> signed_eth_tx \<Rightarrow> nat list \<Rightarrow> bool" where
  "admissible crypto ops state raw tx sender \<longleftrightarrow>
     evm_enabled ops state
     \<and> length raw \<le> 256000
     \<and> decode_raw_transaction raw = Inr tx
     \<and> is_validation_supported tx
     \<and> 0 < digits_value 256 (sg_s (tx_signature tx)) \<and> digits_value 256 (sg_s (tx_signature tx)) \<le> secp256k1_order div 2
     \<and> recover_address crypto (keccak256 crypto (signable_encoding tx)) (tx_signature tx) = Some sender
     \<and> (tx_chain_id tx = None \<or> tx_chain_id tx = Some (state_chain_id ops state))
     \<and> length (tx_input tx) \<le> 131072
     \<and> \<not> (49153 \<le> length (tx_input tx) \<and> hd (tx_input tx) = 0)
     \<and> tx_gas_limit tx \<le> (if av_big_block_gas_limit (account ops state sender) then 30000000 else 3000000)
     \<and> 100000000 \<le> u256_val (tx_fee_cap tx)
     \<and> (case tx_priority_fee tx of Some p \<Rightarrow> u256_val p \<le> u256_val (tx_fee_cap tx) | None \<Rightarrow> True)
     \<and> intrinsic_cost tx \<le> tx_gas_limit tx
     \<and> av_nonce (account ops state sender) \<le> tx_nonce tx
     \<and> tx_nonce tx < min (av_nonce (account ops state sender) + 8) u64_max
     \<and> u256_val (tx_fee_cap tx) * tx_gas_limit tx + u256_val (tx_value tx) \<le> u256_val (av_balance (account ops state sender))"

lemma tx_accessors_ok:
  assumes "signed_eth_tx_ok tx"
  shows "u64_ok (tx_gas_limit tx)" "u256_ok (tx_fee_cap tx)" "u256_ok (tx_value tx)" "signature_ok (tx_signature tx)"
    "tx_priority_fee tx = Some p \<Longrightarrow> u256_ok p"
  using assms by (cases tx; simp add: legacy_tx_ok_def eip2930_tx_ok_def eip1559_tx_ok_def eip4844_tx_ok_def eip7702_tx_ok_def; fail)+

lemma ensure_Inr [simp]: "ensure c e = Inr u \<longleftrightarrow> c"
  by (simp add: ensure_def)

lemma ok_or_Inr [simp]: "ok_or x e = Inr v \<longleftrightarrow> x = Some v"
  by (simp add: ok_or_def split: option.split)

lemma map_err_Inr [simp]: "map_err f r = Inr v \<longleftrightarrow> r = Inr v"
  by (simp add: map_err_def split: sum.split)

text \<open>The upfront cost, computed on limbs with overflow checks, fits the balance exactly when the number does.\<close>

lemma upfront_cost_fits:
  assumes "u256_ok fee" "u64_ok gas" "u256_ok val" "u256_ok bal"
  shows "(\<exists>c u. u256_checked_mul_u64 fee gas = Some c \<and> u256_checked_add c val = Some u \<and> u \<le> bal)
    \<longleftrightarrow> u256_val fee * gas + u256_val val \<le> u256_val bal"
proof -
  note mul = u256_checked_mul_u64_val [OF assms(1) assms(2) [unfolded u64_ok_def]]
  note bal = u256_val_less [OF assms(4)]
  show ?thesis
  proof (cases "u256_checked_mul_u64 fee gas")
    case None
    with mul bal show ?thesis by simp
  next
    case (Some c)
    with mul have c: "u256_ok c" "u256_val c = u256_val fee * gas" by simp_all
    note add = u256_checked_add_val [OF c(1) assms(3)]
    show ?thesis
    proof (cases "u256_checked_add c val")
      case None
      with add bal c(2) Some show ?thesis by simp
    next
      case (Some u)
      with add have "u256_ok u" "u256_val u = u256_val c + u256_val val" by simp_all
      with Some \<open>u256_checked_mul_u64 fee gas = Some c\<close> c(2) u256_le_val [OF _ assms(4)] show ?thesis by simp
    qed
  qed
qed

lemma upfront_cost_val:
  assumes "u256_ok fee" "u64_ok gas" "u256_ok val" "u256_checked_mul_u64 fee gas = Some c" "u256_checked_add c val = Some u"
  shows "u256_val u = u256_val fee * gas + u256_val val"
  using u256_checked_mul_u64_val [OF assms(1) assms(2) [unfolded u64_ok_def]] u256_checked_add_val [of c val] assms by simp

lemmas limit_defs = MAX_RAW_TX_BYTES_def MAX_CALLDATA_BYTES_def LARGE_CALLDATA_EMPTY_PREFIX_THRESHOLD_def
  NORMAL_ACCOUNT_GAS_LIMIT_def BIG_BLOCK_ACCOUNT_GAS_LIMIT_def NONCE_LOOKAHEAD_def

lemma min_fee_cap: "u256_ok fee \<Longrightarrow> MIN_FEE_CAP_WEI \<le> fee \<longleftrightarrow> 100000000 \<le> u256_val fee"
  using u256_le_val [of MIN_FEE_CAP_WEI fee] by (simp add: MIN_FEE_CAP_WEI_def u64_ok_def)

text \<open>Acceptance, unfolded into one conjunction over the values the source computes.\<close>

definition source_guards ::
  "evm_raw_tx_crypto \<Rightarrow> 's evm_raw_tx_state \<Rightarrow> 's \<Rightarrow> nat list \<Rightarrow> signed_eth_tx \<Rightarrow> nat list \<Rightarrow> nat \<Rightarrow> u256 \<Rightarrow> u256 \<Rightarrow> bool" where
  "source_guards crypto ops state raw tx sender gas cost upfront \<longleftrightarrow>
     evm_enabled ops state \<and> length raw \<le> MAX_RAW_TX_BYTES
     \<and> decode_raw_transaction raw = Inr tx \<and> is_validation_supported tx \<and> is_low_s (tx_signature tx)
     \<and> recover_address crypto (keccak256 crypto (signable_encoding tx)) (tx_signature tx) = Some sender
     \<and> (tx_chain_id tx = None \<or> tx_chain_id tx = Some (state_chain_id ops state))
     \<and> length (tx_input tx) \<le> MAX_CALLDATA_BYTES
     \<and> \<not> (LARGE_CALLDATA_EMPTY_PREFIX_THRESHOLD \<le> length (tx_input tx) \<and> tx_input tx \<noteq> [] \<and> hd (tx_input tx) = 0)
     \<and> tx_gas_limit tx \<le> (if av_big_block_gas_limit (account ops state sender) then BIG_BLOCK_ACCOUNT_GAS_LIMIT else NORMAL_ACCOUNT_GAS_LIMIT)
     \<and> MIN_FEE_CAP_WEI \<le> tx_fee_cap tx
     \<and> (case tx_priority_fee tx of Some p \<Rightarrow> p \<le> tx_fee_cap tx | None \<Rightarrow> True)
     \<and> intrinsic_gas tx = Some gas \<and> gas \<le> tx_gas_limit tx
     \<and> av_nonce (account ops state sender) \<le> tx_nonce tx
     \<and> tx_nonce tx < saturating_add_u64 (av_nonce (account ops state sender)) NONCE_LOOKAHEAD
     \<and> u256_checked_mul_u64 (tx_fee_cap tx) (tx_gas_limit tx) = Some cost
     \<and> u256_checked_add cost (tx_value tx) = Some upfront \<and> upfront \<le> av_balance (account ops state sender)"

lemma check_Inr_iff:
  "check_evm_raw_tx action crypto ops state = Inr v \<longleftrightarrow>
    (\<exists>tx sender gas cost upfront. source_guards crypto ops state (ra_data action) tx sender gas cost upfront
      \<and> v = \<lparr>va_tx = tx, va_sender = sender, va_tx_hash = keccak256 crypto (ra_data action),
              va_signable_hash = keccak256 crypto (signable_encoding tx), va_intrinsic_gas = gas, va_upfront_cost = upfront\<rparr>)"
proof -
  have chain: "(case c of Some a \<Rightarrow> ensure (a = x) (e a) | None \<Rightarrow> Inr ()) = Inr u \<longleftrightarrow> c = None \<or> c = Some x" for c x e u
    by (cases c) auto
  have prio: "(case c of Some a \<Rightarrow> ensure (P a) (e a) | None \<Rightarrow> Inr ()) = Inr u \<longleftrightarrow> (case c of Some a \<Rightarrow> P a | None \<Rightarrow> True)" for c P e u
    by (cases c) auto
  show ?thesis
    unfolding check_evm_raw_tx_def source_guards_def Let_def and_then_eq_Inr chain prio ensure_Inr ok_or_Inr map_err_Inr sum.inject by blast
qed

lemma source_guards_admissible:
  assumes bytes: "byte_list raw" and bal: "u256_ok (av_balance (account ops state sender))"
  shows "(\<exists>gas cost upfront. source_guards crypto ops state raw tx sender gas cost upfront) \<longleftrightarrow> admissible crypto ops state raw tx sender"
proof (cases "decode_raw_transaction raw = Inr tx")
  case True
  note ok = tx_accessors_ok [OF decode_raw_transaction_ok [OF True bytes]]
  have prio: "(case tx_priority_fee tx of Some p \<Rightarrow> p \<le> tx_fee_cap tx | None \<Rightarrow> True)
      \<longleftrightarrow> (case tx_priority_fee tx of Some p \<Rightarrow> u256_val p \<le> u256_val (tx_fee_cap tx) | None \<Rightarrow> True)"
    using ok(2,5) u256_le_val by (cases "tx_priority_fee tx") auto
  have gas: "intrinsic_gas tx = Some g \<and> g \<le> tx_gas_limit tx \<longleftrightarrow> g = intrinsic_cost tx \<and> intrinsic_cost tx \<le> tx_gas_limit tx" for g
    using ok(1) by (auto simp: intrinsic_gas_exact u64_ok_def u64_max_def)
  have prefix: "\<not> (49153 \<le> length i \<and> i \<noteq> [] \<and> hd i = 0) \<longleftrightarrow> \<not> (49153 \<le> length i \<and> hd i = 0)" for i :: "nat list"
    by (cases i) auto
  have nonce: "saturating_add_u64 n NONCE_LOOKAHEAD = min (n + 8) u64_max" for n
    by (simp add: saturating_add_u64_def NONCE_LOOKAHEAD_def)
  show ?thesis
    unfolding source_guards_def admissible_def prio nonce min_fee_cap [OF ok(2)] is_low_s_val [OF ok(4)]
      upfront_cost_fits [OF ok(2,1,3) bal, symmetric]
    using gas prefix [of "tx_input tx"] by (auto simp: limit_defs)
qed (simp add: source_guards_def admissible_def)

lemma check_admissible:
  assumes bytes: "byte_list (ra_data action)" and bal: "\<And>a. u256_ok (av_balance (account ops state a))"
  shows "(\<exists>v. check_evm_raw_tx action crypto ops state = Inr v \<and> va_tx v = tx \<and> va_sender v = sender)
    \<longleftrightarrow> admissible crypto ops state (ra_data action) tx sender"
  unfolding check_Inr_iff source_guards_admissible [OF bytes bal, symmetric] by force

text \<open>No check reports an execution error.\<close>

definition no_execution :: "evm_raw_tx_validation_error + 'a \<Rightarrow> bool" where
  "no_execution r \<longleftrightarrow> (\<forall>x. r \<noteq> Inl (Execution x))"

lemma no_execution_and_then: "no_execution r \<Longrightarrow> (\<And>x. no_execution (f x)) \<Longrightarrow> no_execution (and_then r f)"
  by (auto simp: no_execution_def and_then_eq_Inl)

lemma no_execution_steps:
  "(\<And>x. e \<noteq> Execution x) \<Longrightarrow> no_execution (ensure c e)" "(\<And>x. e \<noteq> Execution x) \<Longrightarrow> no_execution (ok_or y e)"
  "no_execution (map_err Decode d)" "no_execution (Inr v)"
  "(\<And>a. no_execution (g a)) \<Longrightarrow> no_execution (case y of Some a \<Rightarrow> g a | None \<Rightarrow> Inr v)"
  by (auto simp: no_execution_def ensure_def ok_or_def map_err_def split: option.split sum.split)

lemma check_not_execution: "check_evm_raw_tx action crypto ops state = Inl e \<Longrightarrow> e \<noteq> Execution x"
proof -
  have "no_execution (check_evm_raw_tx action crypto ops state)"
    unfolding check_evm_raw_tx_def Let_def by (intro no_execution_and_then no_execution_steps) simp_all
  then show "check_evm_raw_tx action crypto ops state = Inl e \<Longrightarrow> e \<noteq> Execution x" by (auto simp: no_execution_def)
qed

lemma check_values:
  assumes "check_evm_raw_tx action crypto ops state = Inr v" and bytes: "byte_list (ra_data action)"
  shows "va_intrinsic_gas v = intrinsic_cost (va_tx v)"
    and "u256_val (va_upfront_cost v) = u256_val (tx_fee_cap (va_tx v)) * tx_gas_limit (va_tx v) + u256_val (tx_value (va_tx v))"
    and "va_tx_hash v = keccak256 crypto (ra_data action)"
    and "va_signable_hash v = keccak256 crypto (signable_encoding (va_tx v))"
proof -
  from assms(1) obtain tx sender gas cost upfront where g: "source_guards crypto ops state (ra_data action) tx sender gas cost upfront"
    and v: "v = \<lparr>va_tx = tx, va_sender = sender, va_tx_hash = keccak256 crypto (ra_data action),
      va_signable_hash = keccak256 crypto (signable_encoding tx), va_intrinsic_gas = gas, va_upfront_cost = upfront\<rparr>"
    unfolding check_Inr_iff by blast
  note g' = g [unfolded source_guards_def]
  have d: "decode_raw_transaction (ra_data action) = Inr tx" using g' by blast
  note ok = tx_accessors_ok [OF decode_raw_transaction_ok [OF d bytes]]
  have "u256_val upfront = u256_val (tx_fee_cap tx) * tx_gas_limit tx + u256_val (tx_value tx)"
    by (rule upfront_cost_val [OF ok(2,1,3)]) (use g' in blast)+
  moreover have "gas = intrinsic_cost tx" using g' by (auto simp: intrinsic_gas_exact split: if_splits)
  ultimately show "va_intrinsic_gas v = intrinsic_cost (va_tx v)"
    "u256_val (va_upfront_cost v) = u256_val (tx_fee_cap (va_tx v)) * tx_gas_limit (va_tx v) + u256_val (tx_value (va_tx v))"
    "va_tx_hash v = keccak256 crypto (ra_data action)" "va_signable_hash v = keccak256 crypto (signable_encoding (va_tx v))"
    by (simp_all add: v)
qed

section \<open>A sample transaction\<close>

definition sample_sig :: signature where
  "sample_sig = \<lparr>sg_y_parity = True, sg_r = replicate 31 0 @ [1], sg_s = replicate 31 0 @ [7]\<rparr>"

definition sample_tx :: signed_eth_tx where
  "sample_tx = Eip1559 \<lparr>t1559_chain_id = 999, t1559_nonce = 2, t1559_max_priority_fee_per_gas = u256_from_u64 0,
     t1559_max_fee_per_gas = u256_from_u64 100000000, t1559_gas_limit = 21000, t1559_to = Call (replicate 20 9),
     t1559_value = u256_from_u64 5, t1559_input = [],
     t1559_access_list = []\<rparr> sample_sig"

definition sample_ops :: "nat evm_raw_tx_state" where
  "sample_ops = \<lparr>evm_enabled = (\<lambda>_. True), state_chain_id = (\<lambda>_. 999),
     account = (\<lambda>_ _. \<lparr>av_nonce = 1, av_balance = U256 0 0 1 0, av_big_block_gas_limit = False\<rparr>),
     execute_evm_raw_tx = (\<lambda>n _. (n + 1, Inr ()))\<rparr>"

definition sample_crypto :: evm_raw_tx_crypto where
  "sample_crypto = \<lparr>keccak256 = (\<lambda>bs. replicate 32 0), recover_address = (\<lambda>_ _. Some (replicate 20 8))\<rparr>"

lemma sample_tx_ok: "signed_eth_tx_ok sample_tx"
  by (simp add: sample_tx_def sample_sig_def eip1559_tx_ok_def signature_ok_def b256_ok_def u64_ok_def u256_from_u64_def
      address_ok_def access_list_item_ok_def byte_list_def)

lemma sample_fields:
  "own_signed_fields sample_tx =
    [[3, 231], [2], [], [5, 245, 225, 0], [82, 8], replicate 20 9, [5], [], [192], [1], [1], [7]]"
proof -
  have "be_min 999 = [3, 231]" "be_min 2 = [2]" "be_min 100000000 = [5, 245, 225, 0]" "be_min 21000 = [82, 8]" "be_min 5 = [5]"
    "be_min 1 = [1]" "be_min 7 = [7]"
    by (simp_all add: be_min.simps)
  moreover have "access_list_bytes [] = [192]"
    by (simp add: access_list_bytes_def nested_rlp_list_def append_rlp_list_from_encoded_items_alt append_rlp_header_def RLP_LIST_PREFIX_def)
  moreover have "digits_value 256 (replicate 31 0 @ [b]) = b" "b < 256 \<Longrightarrow> b256_ok (replicate 31 0 @ [b])" for b
    by (simp_all add: b256_ok_def)
  ultimately show ?thesis
    by (simp add: sample_tx_def sample_sig_def eip1559_items_def signature_fields_def u64_ok_def)
qed

lemma sample_raw:
  "raw_signed_encoding sample_tx = [2, 233, 130, 3, 231, 2, 128, 132, 5, 245, 225, 0, 130, 82, 8, 148] @ replicate 20 9
    @ [5, 128, 129, 192, 1, 1, 7]"
  unfolding raw_signed_encoding_fields sample_fields
  by (simp add: append_rlp_list_from_bytes_alt append_rlp_bytes_def append_rlp_header_def rlp_prefix_defs sample_tx_def)

lemma sample_fits: "byte_list (raw_signed_encoding sample_tx)" "length (raw_signed_encoding sample_tx) = 43"
  by (simp_all add: sample_raw byte_list_def)

lemma sample_signable_fits: "length (signable_encoding sample_tx) \<le> 2 ^ 64"
proof -
  have "own_fields sample_tx = take 9 (own_signed_fields sample_tx)"
    by (simp add: sample_tx_def eip1559_items_def)
  also have "\<dots> = [[3, 231], [2], [], [5, 245, 225, 0], [82, 8], replicate 20 9, [5], [], [192]]"
    by (simp add: sample_fields)
  finally show ?thesis
    by (simp add: signable_encoding_fields append_rlp_list_from_bytes_alt append_rlp_bytes_def append_rlp_header_def rlp_prefix_defs sample_tx_def)
qed

lemma sample_eth_signed:
  "eth_signed sample_tx = [2, 232, 130, 3, 231, 2, 128, 132, 5, 245, 225, 0, 130, 82, 8, 148] @ replicate 20 9
    @ [5, 128, 192, 1, 1, 7]"
proof -
  have "be_min 999 = [3, 231]" "be_min 2 = [2]" "be_min 100000000 = [5, 245, 225, 0]" "be_min 21000 = [82, 8]" "be_min 5 = [5]"
    "be_min 1 = [1]" "be_min 7 = [7]"
    by (simp_all add: be_min.simps)
  moreover have "digits_value 256 (replicate 31 0 @ [b]) = b" for b by simp
  ultimately show ?thesis
    by (simp add: sample_tx_def sample_sig_def eth_eip1559_def eth_rs_def eth_int_def eth_to_def eth_access_list_def rlp_prefix_def)
qed

lemma sample_admissible: "admissible sample_crypto sample_ops 0 (raw_signed_encoding sample_tx) sample_tx (replicate 20 8)"
proof -
  have "decode_raw_transaction (raw_signed_encoding sample_tx) = Inr sample_tx"
    by (rule own_roundtrip [OF sample_tx_ok]) (simp add: sample_fits)
  moreover have "digits_value 256 (sg_s sample_sig) = 7" by (simp add: sample_sig_def)
  ultimately show ?thesis
    by (simp add: admissible_def sample_fits sample_ops_def sample_crypto_def secp256k1_order_def intrinsic_cost_def u64_max_def)
       (simp add: sample_tx_def u256_from_u64_def)
qed

section \<open>Properties\<close>

text \<open>C15. Decoding inverts encoding: every well-formed transaction of each of the five kinds is decoded from
  the bytes the encoder writes for it, with its access list, blob hashes and authorizations, as long as those
  bytes fit the address space.\<close>

theorem evm_tx_roundtrip:
  assumes "signed_eth_tx_ok tx" and "length (raw_signed_encoding tx) \<le> 2 ^ 64"
  shows "decode_raw_transaction (raw_signed_encoding tx) = Inr tx"
  by (rule own_roundtrip [OF assms])

theorem evm_tx_roundtrip_witness: "decode_raw_transaction (raw_signed_encoding sample_tx) = Inr sample_tx"
  by (rule evm_tx_roundtrip [OF sample_tx_ok]) (simp add: sample_fits)

text \<open>The bytes the code hashes to find the signer are the ones Ethereum defines exactly for legacy
  transactions.  For a transaction of any other kind they differ, since the access list, which is an encoded
  list, is written as a string; the signer recovered is then not the account that signed.\<close>

lemma signing_bytes_are_ethereum_iff_legacy:
  assumes "signed_eth_tx_ok tx" and "length (signable_encoding tx) \<le> 2 ^ 64"
  shows "signable_encoding tx = eth_signable tx \<longleftrightarrow> (\<exists>t sig. tx = Legacy t sig)"
proof (cases "tx_type tx = []")
  case True
  then obtain t sig where "tx = Legacy t sig" by (cases tx) simp_all
  with legacy_signable_eth assms show ?thesis by blast
next
  case False
  with typed_signable_differs [OF assms(1) False assms(2)] show ?thesis by auto
qed

lemma signing_bytes_are_ethereum_iff_legacy_witness:
  "signable_encoding sample_tx \<noteq> eth_signable sample_tx \<and> signed_eth_tx_ok sample_tx"
  using signing_bytes_are_ethereum_iff_legacy [OF sample_tx_ok sample_signable_fits] sample_tx_ok by (simp add: sample_tx_def)

text \<open>The decoder accepts the encoding Ethereum defines for every well-formed transaction.  For the typed
  kinds it also accepts the different bytes its own encoder writes, so one signed transaction travels under two
  raw encodings, and the hash reported for it, which is taken over the raw bytes, is not determined by it.\<close>

lemma two_raw_encodings:
  assumes "signed_eth_tx_ok tx" and "length (raw_signed_encoding tx) \<le> 2 ^ 64" and "length (eth_signed tx) \<le> 2 ^ 64"
  shows "decode_raw_transaction (eth_signed tx) = Inr tx \<and> decode_raw_transaction (raw_signed_encoding tx) = Inr tx
    \<and> (raw_signed_encoding tx = eth_signed tx \<longleftrightarrow> (\<exists>t sig. tx = Legacy t sig))"
proof (intro conjI)
  show "decode_raw_transaction (eth_signed tx) = Inr tx" "decode_raw_transaction (raw_signed_encoding tx) = Inr tx"
    by (rule decode_eth_signed own_roundtrip, rule assms, rule assms)+
  show "raw_signed_encoding tx = eth_signed tx \<longleftrightarrow> (\<exists>t sig. tx = Legacy t sig)"
  proof (cases "tx_type tx = []")
    case True
    then obtain t sig where "tx = Legacy t sig" by (cases tx) simp_all
    with legacy_signed_eth assms show ?thesis by blast
  next
    case False
    with typed_signed_differs [OF assms(1) False assms(2)] show ?thesis by auto
  qed
qed

lemma two_raw_encodings_witness:
  "raw_signed_encoding sample_tx \<noteq> eth_signed sample_tx
    \<and> decode_raw_transaction (eth_signed sample_tx) = decode_raw_transaction (raw_signed_encoding sample_tx)"
  using two_raw_encodings [OF sample_tx_ok] sample_fits(2) by (simp add: sample_eth_signed) (simp add: sample_tx_def)

text \<open>C16. Validation accepts exactly the admissible transactions, and only those reach the execution: the
  signature is low, the chain id matches, gas and fees are within their limits, the nonce is in the window of
  eight, and fee cap times gas limit plus value, as a number without overflow, is covered by the balance.  A
  refusal leaves the EVM state unchanged.\<close>

theorem validation_exact:
  assumes "byte_list (ra_data action)" and "\<And>a. u256_ok (av_balance (account ops state a))"
    and "validate_evm_raw_tx action crypto ops state = (state', result)"
  shows "case result of
      Inr v \<Rightarrow> admissible crypto ops state (ra_data action) (va_tx v) (va_sender v)
        \<and> execute_evm_raw_tx ops state v = (state', Inr ())
        \<and> va_intrinsic_gas v = intrinsic_cost (va_tx v)
        \<and> u256_val (va_upfront_cost v) = u256_val (tx_fee_cap (va_tx v)) * tx_gas_limit (va_tx v) + u256_val (tx_value (va_tx v))
    | Inl (Execution e) \<Rightarrow> \<exists>v. admissible crypto ops state (ra_data action) (va_tx v) (va_sender v)
        \<and> execute_evm_raw_tx ops state v = (state', Inl e)
    | Inl _ \<Rightarrow> state' = state \<and> (\<nexists>tx sender. admissible crypto ops state (ra_data action) tx sender)"
proof (cases "check_evm_raw_tx action crypto ops state")
  case (Inl e)
  then have "\<not> admissible crypto ops state (ra_data action) tx sender" for tx sender
    using check_admissible [OF assms(1,2), of crypto tx sender] by simp
  moreover have "result = Inl e" "state' = state" using assms(3) Inl by (auto simp: validate_evm_raw_tx_def)
  ultimately show ?thesis using check_not_execution [OF Inl] by (cases e) auto
next
  case (Inr v)
  then have "admissible crypto ops state (ra_data action) (va_tx v) (va_sender v)"
    using check_admissible [OF assms(1,2), of crypto "va_tx v" "va_sender v"] by blast
  moreover note check_values [OF Inr assms(1)]
  ultimately show ?thesis
    using assms(3) Inr by (auto simp: validate_evm_raw_tx_def split: prod.splits sum.splits)
qed

theorem validation_exact_witness:
  "\<exists>v. validate_evm_raw_tx \<lparr>ra_data = raw_signed_encoding sample_tx\<rparr> sample_crypto sample_ops 0 = (1, Inr v)
    \<and> admissible sample_crypto sample_ops 0 (raw_signed_encoding sample_tx) (va_tx v) (va_sender v)"
proof -
  let ?action = "\<lparr>ra_data = raw_signed_encoding sample_tx\<rparr>"
  have bytes: "byte_list (ra_data ?action)" by (simp add: sample_fits)
  have bal: "u256_ok (av_balance (account sample_ops 0 a))" for a by (simp add: sample_ops_def)
  obtain v where "check_evm_raw_tx ?action sample_crypto sample_ops 0 = Inr v"
    using check_admissible [OF bytes bal, of sample_crypto sample_tx] sample_admissible by auto
  then have "validate_evm_raw_tx ?action sample_crypto sample_ops 0 = (1, Inr v)"
    by (simp add: validate_evm_raw_tx_def sample_ops_def)
  with validation_exact [OF bytes bal this] show ?thesis by auto
qed

text \<open>The JSON form of an action is read back: the hexadecimal data of a serialized action deserializes to
  the same bytes.\<close>

lemma action_json_roundtrip:
  assumes "byte_list (ra_data action)"
  shows "visit_map (snd (serialize_action action)) = Inr action"
  using decode_hex_append [OF assms] by (simp add: serialize_action_def visit_map_def)

lemma action_json_roundtrip_witness:
  "visit_map (snd (serialize_action \<lparr>ra_data = [0, 175, 255]\<rparr>)) = Inr \<lparr>ra_data = [0, 175, 255]\<rparr>"
  by (rule action_json_roundtrip) simp

end
