(* ===== verification/Float64.thy ===== *)
theory Float64
  imports Complex_Main Rust_Prelude
begin

text \<open>
  The \<open>f64\<close> of the sources: IEEE 754 double precision with rounding to nearest, ties to even, gradual
  underflow and overflow to infinity.  A finite value is the rational it denotes; the sign of zero and
  the payload of a NaN, which the sources never inspect, are not kept.  \<open>as u64\<close> truncates and saturates.
\<close>

datatype f64 = NaN | Inf_pos | Inf_neg | Fin rat

section \<open>Rounding\<close>

fun ilog2 :: "nat \<Rightarrow> nat" where
  "ilog2 n = (if n < 2 then 0 else Suc (ilog2 (n div 2)))"

declare ilog2.simps [simp del]

text \<open>The exponent of a positive rational: \<open>2\<^sup>e \<le> x < 2\<^sup>e\<^sup>+\<^sup>1\<close>.\<close>

definition exponent :: "rat \<Rightarrow> int" where
  "exponent x =
     (if 1 \<le> x then int (ilog2 (nat \<lfloor>x\<rfloor>))
      else let k = ilog2 (nat \<lfloor>1 / x\<rfloor>) in if 1 / x = 2 ^ k then - int k else - int k - 1)"

definition round_even :: "rat \<Rightarrow> int" where
  "round_even y =
     (let f = \<lfloor>y\<rfloor>; d = y - of_int f in
      if d < 1 / 2 then f else if 1 / 2 < d then f + 1 else if even f then f else f + 1)"

definition ulp :: "rat \<Rightarrow> rat" where
  "ulp x = 2 powi max (exponent x - 52) (- 1074)"

definition round_pos :: "rat \<Rightarrow> rat" where
  "round_pos x = (if x = 0 then 0 else of_int (round_even (x / ulp x)) * ulp x)"

definition f64_round :: "rat \<Rightarrow> f64" where
  "f64_round x =
     (let r = round_pos \<bar>x\<bar> in
      if 2 ^ 1024 \<le> r then (if 0 \<le> x then Inf_pos else Inf_neg) else Fin (if 0 \<le> x then r else - r))"

section \<open>Operations\<close>

definition f64_of_u64 :: "nat \<Rightarrow> f64" where
  "f64_of_u64 n = f64_round (of_nat n)"

fun f64_mul :: "f64 \<Rightarrow> f64 \<Rightarrow> f64" where
  "f64_mul (Fin x) (Fin y) = f64_round (x * y)"
| "f64_mul NaN _ = NaN"
| "f64_mul _ NaN = NaN"
| "f64_mul (Fin x) i = (if x = 0 then NaN else if 0 < x then i else if i = Inf_pos then Inf_neg else Inf_pos)"
| "f64_mul i (Fin x) = (if x = 0 then NaN else if 0 < x then i else if i = Inf_pos then Inf_neg else Inf_pos)"
| "f64_mul i j = (if i = j then Inf_pos else Inf_neg)"

fun f64_div :: "f64 \<Rightarrow> f64 \<Rightarrow> f64" where
  "f64_div (Fin x) (Fin y) =
     (if y \<noteq> 0 then f64_round (x / y) else if x = 0 then NaN else if 0 < x then Inf_pos else Inf_neg)"
| "f64_div NaN _ = NaN"
| "f64_div _ NaN = NaN"
| "f64_div (Fin x) _ = Fin 0"
| "f64_div i (Fin x) = (if 0 \<le> x then i else if i = Inf_pos then Inf_neg else Inf_pos)"
| "f64_div _ _ = NaN"

fun f64_add :: "f64 \<Rightarrow> f64 \<Rightarrow> f64" where
  "f64_add (Fin x) (Fin y) = f64_round (x + y)"
| "f64_add NaN _ = NaN"
| "f64_add _ NaN = NaN"
| "f64_add (Fin x) i = i"
| "f64_add i (Fin x) = i"
| "f64_add i j = (if i = j then i else NaN)"

fun f64_neg :: "f64 \<Rightarrow> f64" where
  "f64_neg (Fin x) = Fin (- x)"
| "f64_neg NaN = NaN"
| "f64_neg Inf_pos = Inf_neg"
| "f64_neg Inf_neg = Inf_pos"

definition f64_sub :: "f64 \<Rightarrow> f64 \<Rightarrow> f64" where
  "f64_sub x y = f64_add x (f64_neg y)"

fun f64_le :: "f64 \<Rightarrow> f64 \<Rightarrow> bool" where
  "f64_le (Fin x) (Fin y) \<longleftrightarrow> x \<le> y"
| "f64_le NaN _ \<longleftrightarrow> False"
| "f64_le _ NaN \<longleftrightarrow> False"
| "f64_le Inf_neg _ \<longleftrightarrow> True"
| "f64_le _ Inf_pos \<longleftrightarrow> True"
| "f64_le _ _ \<longleftrightarrow> False"

text \<open>\<open>max\<close> ignores a NaN; \<open>clamp\<close> keeps it.\<close>

definition f64_max :: "f64 \<Rightarrow> f64 \<Rightarrow> f64" where
  "f64_max x y = (if x = NaN then y else if y = NaN then x else if f64_le x y then y else x)"

definition f64_clamp :: "f64 \<Rightarrow> f64 \<Rightarrow> f64 \<Rightarrow> f64" where
  "f64_clamp lo hi x = (if x = NaN then NaN else if f64_le x lo then lo else if f64_le hi x then hi else x)"

definition f64_in_range :: "rat \<Rightarrow> rat \<Rightarrow> f64 \<Rightarrow> bool" where
  "f64_in_range lo hi x \<longleftrightarrow> f64_le (f64_round lo) x \<and> f64_le x (f64_round hi)"

definition f64_is_finite :: "f64 \<Rightarrow> bool" where
  "f64_is_finite x \<longleftrightarrow> (case x of Fin _ \<Rightarrow> True | _ \<Rightarrow> False)"

definition f64_lt :: "f64 \<Rightarrow> f64 \<Rightarrow> bool" where
  "f64_lt x y \<longleftrightarrow> f64_le x y \<and> \<not> f64_le y x"

definition f64_of_i64 :: "int \<Rightarrow> f64" where
  "f64_of_i64 i = f64_round (of_int i)"

text \<open>\<open>as i64\<close>: towards zero, saturating, and 0 for a NaN.\<close>

definition f64_as_i64 :: "f64 \<Rightarrow> int" where
  "f64_as_i64 value = (case value of
      NaN \<Rightarrow> 0 | Inf_pos \<Rightarrow> i64_max | Inf_neg \<Rightarrow> i64_min
    | Fin x \<Rightarrow> clamp_i64 (if 0 \<le> x then \<lfloor>x\<rfloor> else \<lceil>x\<rceil>))"

text \<open>\<open>saturating_f64_to_u64\<close> of the sources: not finite or not positive gives 0, anything from \<open>2\<^sup>64\<close> on
  the greatest \<open>u64\<close>, and the rest is truncated.\<close>

definition saturating_f64_to_u64 :: "f64 \<Rightarrow> nat" where
  "saturating_f64_to_u64 value =
     (if \<not> f64_is_finite value \<or> f64_le value (Fin 0) then 0
      else if f64_le (f64_of_u64 u64_max) value then u64_max
      else case value of Fin x \<Rightarrow> nat \<lfloor>x\<rfloor> | _ \<Rightarrow> 0)"

text \<open>Evaluation of the rounding on concrete fractions.\<close>

lemma floor_numeral_div [simp]: "\<lfloor>(numeral a :: rat) / numeral b\<rfloor> = numeral a div numeral b"
  using floor_divide_of_int_eq [of "numeral a" "numeral b", where 'a = rat] by simp

section \<open>The rounding error\<close>

lemma ilog2_bounds: "0 < n \<Longrightarrow> 2 ^ ilog2 n \<le> n \<and> n < 2 ^ Suc (ilog2 n)"
proof (induction n rule: ilog2.induct)
  case (1 n)
  show ?case
  proof (cases "n < 2")
    case True
    with 1 show ?thesis by (simp add: ilog2.simps)
  next
    case False
    with 1 have "2 ^ ilog2 (n div 2) \<le> n div 2 \<and> n div 2 < 2 ^ Suc (ilog2 (n div 2))" by simp
    then have "2 * 2 ^ ilog2 (n div 2) \<le> n \<and> n < 2 * 2 ^ Suc (ilog2 (n div 2))" by linarith
    with False show ?thesis by (simp add: ilog2.simps [of n])
  qed
qed

lemma ilog2_rat: 
  assumes "1 \<le> (x :: rat)"
  shows "2 ^ ilog2 (nat \<lfloor>x\<rfloor>) \<le> x" and "x < 2 * 2 ^ ilog2 (nat \<lfloor>x\<rfloor>)"
proof -
  let ?n = "nat \<lfloor>x\<rfloor>"
  have n: "0 < ?n" "of_nat ?n \<le> x" "x < of_nat ?n + 1" using assms by (simp_all add: of_int_floor_le) linarith
  from ilog2_bounds [OF n(1)] have "2 ^ ilog2 ?n \<le> ?n" "?n + 1 \<le> 2 ^ Suc (ilog2 ?n)" by simp_all
  then have "(of_nat (2 ^ ilog2 ?n) :: rat) \<le> of_nat ?n" "(of_nat (?n + 1) :: rat) \<le> of_nat (2 ^ Suc (ilog2 ?n))"
    by (simp_all only: of_nat_le_iff)
  then have "(2 :: rat) ^ ilog2 ?n \<le> of_nat ?n" "of_nat ?n + 1 \<le> (2 :: rat) * 2 ^ ilog2 ?n" by (simp_all only: of_nat_power of_nat_numeral of_nat_add of_nat_mult of_nat_1 power_Suc)
  with n(2,3) show "2 ^ ilog2 ?n \<le> x" "x < 2 * 2 ^ ilog2 ?n" by linarith+
qed

lemma exponent_bounds:
  assumes "0 < x"
  shows "2 powi exponent x \<le> x" and "x < 2 powi (exponent x + 1)"
proof -
  have "2 powi exponent x \<le> x \<and> x < 2 powi (exponent x + 1)"
  proof (cases "1 \<le> x")
    case True
    with ilog2_rat [OF this] show ?thesis by (simp add: exponent_def power_int_add)
  next
    case False
    define k where "k = ilog2 (nat \<lfloor>1 / x\<rfloor>)"
    have k: "2 ^ k \<le> 1 / x" "1 / x < 2 * 2 ^ k"
      using ilog2_rat [of "1 / x"] False assms by (simp_all add: k_def field_simps)
    show ?thesis
    proof (cases "1 / x = 2 ^ k")
      case True
      then have "x = 1 / 2 ^ k" using assms by (simp add: field_simps)
      moreover have "exponent x = - int k" using False True unfolding exponent_def Let_def k_def by argo
      moreover have "2 powi (- int k + 1) = (2 :: rat) / 2 ^ k" "2 powi (- int k) = (1 :: rat) / 2 ^ k"
        using power_int_add [of "2 :: rat" "- int k" 1] by (simp_all add: power_int_minus inverse_eq_divide)
      ultimately show ?thesis by (simp only:) (simp add: divide_strict_right_mono)
    next
      case neq: False
      with k have "2 ^ k < 1 / x" by simp
      with k assms have "1 / (2 * 2 ^ k) < x" "x < 1 / 2 ^ k" by (simp_all add: field_simps)
      moreover have "exponent x = - int k - 1" using False neq unfolding exponent_def Let_def k_def by argo
      moreover have "2 powi (- int k - 1) = (1 :: rat) / (2 * 2 ^ k)" "2 powi (- int k - 1 + 1) = (1 :: rat) / 2 ^ k"
        using power_int_diff [of "2 :: rat" "- int k" 1] by (simp_all add: power_int_minus inverse_eq_divide)
      ultimately show ?thesis by (simp only:) simp
    qed
  qed
  then show "2 powi exponent x \<le> x" "x < 2 powi (exponent x + 1)" by simp_all
qed

lemma round_even_error: "\<bar>of_int (round_even y) - y\<bar> \<le> 1 / 2"
proof -
  have "of_int \<lfloor>y\<rfloor> \<le> y" "y < of_int \<lfloor>y\<rfloor> + 1" using floor_correct [of y] by simp_all
  then show ?thesis unfolding round_even_def Let_def abs_le_iff by (simp split: if_split) linarith
qed

lemma round_even_int [simp]: "round_even (of_int i) = i"
  by (simp add: round_even_def)

lemma ulp_pos: "0 < ulp x"
  by (simp add: ulp_def)

text \<open>Half a unit in the last place, which above the subnormal numbers is the relative error \<open>2\<^sup>-\<^sup>5\<^sup>3\<close>.\<close>

lemma round_pos_error:
  assumes "2 powi (- 1022) \<le> x"
  shows "\<bar>round_pos x - x\<bar> \<le> x / 2 ^ 53"
proof -
  have pos: "0 < x" using assms by (rule less_le_trans [rotated]) simp
  have "(2 :: rat) powi (- 1022) < 2 powi (exponent x + 1)" using assms exponent_bounds(2) [OF pos] by linarith
  then have "- 1022 < exponent x + 1" by (metis not_less one_le_numeral power_int_increasing)
  then have "max (exponent x - 52) (- 1074) = exponent x - 52" by simp
  then have ulp: "ulp x = 2 powi (exponent x - 52)" by (simp only: ulp_def)
  have "round_pos x - x = (of_int (round_even (x / ulp x)) - x / ulp x) * ulp x"
    using pos ulp_pos [of x] by (simp add: round_pos_def left_diff_distrib)
  then have "\<bar>round_pos x - x\<bar> \<le> 1 / 2 * ulp x"
    using mult_right_mono [OF round_even_error [of "x / ulp x"], of "ulp x"] ulp_pos [of x] by (simp add: abs_mult)
  also have "\<dots> = 2 powi exponent x / 2 ^ 53"
    by (simp add: ulp power_int_diff)
  also have "\<dots> \<le> x / 2 ^ 53" using exponent_bounds(1) [OF pos] by (simp add: divide_right_mono)
  finally show ?thesis .
qed

text \<open>A value that does not exceed a whole number below \<open>2\<^sup>5\<^sup>3\<close> is not rounded above it.\<close>

lemma round_even_le: "y \<le> of_int i \<Longrightarrow> round_even y \<le> i"
proof -
  assume y: "y \<le> of_int i"
  then have "\<lfloor>y\<rfloor> \<le> i" by linarith
  moreover have "y = of_int i" if "\<lfloor>y\<rfloor> = i" using that y by linarith
  ultimately show ?thesis by (cases "\<lfloor>y\<rfloor> = i") (auto simp: round_even_def Let_def)
qed

lemma round_pos_le_nat:
  assumes "0 \<le> x" and "x \<le> of_nat n" and "n < 2 ^ 53"
  shows "round_pos x \<le> of_nat n"
proof (cases "x = 0")
  case False
  with assms have x: "0 < x" by simp
  have "(of_nat n :: rat) < of_nat (2 ^ 53)" using assms(3) by (simp only: of_nat_less_iff)
  then have "(2 :: rat) powi exponent x < 2 powi 53" using exponent_bounds(1) [OF x] assms(2) by simp
  then have "exponent x < 53" by (metis not_less one_le_numeral power_int_increasing)
  then have e: "max (exponent x - 52) (- 1074) \<le> 0" by simp
  define k where "k = nat (- max (exponent x - 52) (- 1074))"
  have ulp: "ulp x = 1 / 2 ^ k"
  proof (cases "max (exponent x - 52) (- 1074) = 0")
    case True
    then show ?thesis unfolding ulp_def k_def by simp
  next
    case False
    with e show ?thesis unfolding ulp_def k_def by (simp add: power_int_def inverse_eq_divide power_one_over)
  qed
  have "x / ulp x \<le> of_int (int n * 2 ^ k)" using assms(2) by (simp add: ulp)
  from round_even_le [OF this] have "(of_int (round_even (x / ulp x)) :: rat) \<le> of_int (int n * 2 ^ k)" by (simp only: of_int_le_iff)
  with x show ?thesis by (simp add: round_pos_def ulp field_simps)
qed (simp add: round_pos_def)

lemma round_pos_le_1: "0 \<le> x \<Longrightarrow> x \<le> 1 \<Longrightarrow> round_pos x \<le> 1"
  using round_pos_le_nat [of x 1] by simp

lemma round_pos_nat_exact:
  assumes "n < 2 ^ 53"
  shows "round_pos (of_nat n) = of_nat n"
proof (cases "n = 0")
  case False
  define e where "e = ilog2 n"
  have "2 ^ e \<le> n" using ilog2_bounds [of n] False by (simp add: e_def)
  with assms have "(2 :: nat) ^ e < 2 ^ 53" by simp
  then have "e < 53" by (rule power_less_imp_less_exp [rotated]) simp
  then have e: "e \<le> 52" by simp
  have "exponent (of_nat n) = int e" using False by (simp add: exponent_def e_def)
  then have "ulp (of_nat n) = 2 powi (int e - 52)" using e by (simp add: ulp_def max_def)
  also have "\<dots> = 1 / 2 ^ (52 - e)" using e by (simp add: power_int_def nat_diff_distrib field_simps)
  finally have ulp: "ulp (of_nat n) = 1 / 2 ^ (52 - e)" .
  have "of_nat n / ulp (of_nat n) = of_int (int n * 2 ^ (52 - e))" by (simp add: ulp)
  then have "round_even (of_nat n / ulp (of_nat n)) = int n * 2 ^ (52 - e)" by (simp only: round_even_int)
  with False show ?thesis by (simp add: round_pos_def ulp)
qed (simp add: round_pos_def)


text \<open>Away from underflow and overflow an operation returns its exact result up to a factor of \<open>1 \<plusminus> 2\<^sup>-\<^sup>5\<^sup>3\<close>.\<close>

definition f64_near :: "rat \<Rightarrow> rat \<Rightarrow> bool" where
  "f64_near x r \<longleftrightarrow> x * (1 - 1 / 2 ^ 53) \<le> r \<and> r \<le> x * (1 + 1 / 2 ^ 53)"

lemma f64_round_near:
  assumes "x = 0 \<or> 1 / 2 ^ 1022 \<le> x" and "x \<le> 2 ^ 1000"
  obtains r where "f64_round x = Fin r" and "f64_near x r" and "0 \<le> r"
proof -
  have near: "f64_near x (round_pos x)"
  proof (cases "x = 0")
    case False
    then have "2 powi (- 1022) \<le> x" using assms(1) by (simp add: power_int_minus inverse_eq_divide)
    from round_pos_error [OF this] show ?thesis unfolding f64_near_def abs_le_iff by (simp add: algebra_simps)
  qed (simp add: f64_near_def round_pos_def)
  have x: "0 \<le> x" using assms(1) by (auto intro: order_trans [rotated])
  have "x * (1 + 1 / 2 ^ 53) \<le> x * 2" using x by (intro mult_left_mono) simp_all
  also have "\<dots> < 2 ^ 1024" using assms(2) by (rule le_less_trans [OF mult_right_mono]) simp_all
  finally have "round_pos x < 2 ^ 1024" using near unfolding f64_near_def by linarith
  moreover have "0 \<le> x * (1 - 1 / 2 ^ 53)" using x by simp
  then have "0 \<le> round_pos x" using near unfolding f64_near_def by linarith
  ultimately show thesis using that [of "round_pos x"] near x by (simp add: f64_round_def Let_def)
qed

lemma f64_of_u64_near:
  assumes "n \<le> u64_max"
  obtains r where "f64_of_u64 n = Fin r" and "f64_near (of_nat n) r" and "0 \<le> r"
proof -
  have "(of_nat n :: rat) = 0 \<or> 1 / 2 ^ 1022 \<le> (of_nat n :: rat)"
  proof (cases "n = 0")
    case False
    have "1 / 2 ^ 1022 \<le> (1 :: rat)" by simp
    also have "\<dots> \<le> of_nat n" using False by (simp add: Suc_le_eq)
    finally show ?thesis ..
  qed simp
  moreover have "(of_nat n :: rat) \<le> of_nat u64_max" using assms by simp
  then have "(of_nat n :: rat) \<le> 2 ^ 1000" by (rule order_trans) (simp add: u64_max_def)
  ultimately show thesis using f64_round_near that unfolding f64_of_u64_def by blast
qed

lemma f64_of_u64_exact: "n < 2 ^ 53 \<Longrightarrow> f64_of_u64 n = Fin (of_nat n)"
proof -
  assume n: "n < 2 ^ 53"
  have "(of_nat n :: rat) < of_nat (2 ^ 53)" using n by (simp only: of_nat_less_iff)
  also have "\<dots> < 2 ^ 1024" by simp
  finally show ?thesis using round_pos_nat_exact [OF n] by (simp add: f64_of_u64_def f64_round_def)
qed

text \<open>The conversion back never exceeds the value, nor the range of \<open>u64\<close>.\<close>

lemma f64_u64_max: "f64_of_u64 u64_max = Fin (2 ^ 64)"
proof -
  have "ilog2 u64_max = 63" by (simp add: u64_max_def ilog2.simps)
  then have "exponent (of_nat u64_max) = 63" by (simp add: exponent_def u64_max_def)
  then have "ulp (of_nat u64_max) = 2 ^ 11" by (simp add: ulp_def)
  then show ?thesis by (simp add: f64_of_u64_def f64_round_def round_pos_def u64_max_def round_even_def Let_def)
qed

lemma saturating_f64_le:
  assumes "0 \<le> r"
  shows "of_nat (saturating_f64_to_u64 (Fin r)) \<le> r"
proof -
  have "(of_nat u64_max :: rat) \<le> 2 ^ 64" by (simp add: u64_max_def)
  with assms show ?thesis
    by (auto simp: saturating_f64_to_u64_def f64_is_finite_def f64_u64_max of_int_floor_le)
qed

lemma saturating_f64_max: "saturating_f64_to_u64 x \<le> u64_max"
proof (cases x)
  case (Fin r)
  have "nat \<lfloor>r\<rfloor> \<le> u64_max" if "r < 2 ^ 64"
  proof -
    have "\<lfloor>r\<rfloor> < 2 ^ 64" using that by (simp add: floor_less_iff)
    then have "nat \<lfloor>r\<rfloor> < nat (2 ^ 64)" by (simp only: nat_less_iff zless_nat_conj) simp
    then show ?thesis by (simp add: u64_max_def)
  qed
  then show ?thesis by (simp add: Fin saturating_f64_to_u64_def f64_is_finite_def f64_u64_max)
qed (simp_all add: saturating_f64_to_u64_def f64_is_finite_def)

end
