(* ===== verification/Token_Ledger.thy ===== *)
theory Token_Ledger
  imports Rust_Prelude
begin

text \<open>
  A ledger of token balances: a map from users to maps from tokens to balances, with an index of the
  tokens of each user beside it.  The spot ledger, the wei rows and the outcome markets of the sources
  all have this shape.  The locale \<open>token_ledger\<close> states what their operations rely on, and holds what
  follows for the supply of a token, the sum of its balances over all users.
\<close>

section \<open>Maps of maps\<close>

definition entry_or :: "'v \<Rightarrow> ('k, 'v) btree \<Rightarrow> 'k \<Rightarrow> 'v" where
  "entry_or d m k = (case map_of m k of Some v \<Rightarrow> v | None \<Rightarrow> d)"

lemma entry_or_insert [simp]: "entry_or d (bt_insert k v m) x = (if x = k then v else entry_or d m x)"
  by (simp add: entry_or_def)

lemma entry_or_Nil [simp]: "entry_or d [] k = d"
  by (simp add: entry_or_def)

definition nested_get :: "'b \<Rightarrow> ('u, ('t, 'b) btree) btree \<Rightarrow> 'u \<Rightarrow> 't \<Rightarrow> 'b" where
  "nested_get d m user token = (case map_of m user of
      None \<Rightarrow> d
    | Some tokens \<Rightarrow> (case map_of tokens token of None \<Rightarrow> d | Some b \<Rightarrow> b))"

definition nested_put :: "'u::linorder \<Rightarrow> 't::linorder \<Rightarrow> 'b \<Rightarrow> ('u, ('t, 'b) btree) btree \<Rightarrow> ('u, ('t, 'b) btree) btree" where
  "nested_put user token b m = bt_insert user (bt_insert token b (entry_or [] m user)) m"

definition index_put :: "'u::linorder \<Rightarrow> 't::linorder \<Rightarrow> ('u, 't bset) btree \<Rightarrow> ('u, 't bset) btree" where
  "index_put user token ix = bt_insert user (bs_insert token (entry_or [] ix user)) ix"

definition nested_wf :: "('u::linorder, ('t::linorder, 'b) btree) btree \<Rightarrow> bool" where
  "nested_wf m \<longleftrightarrow> bt_wf m \<and> (\<forall>e \<in> set m. bt_wf (snd e))"

definition nested_sum :: "('b \<Rightarrow> nat) \<Rightarrow> ('u, ('t, 'b) btree) btree \<Rightarrow> 't \<Rightarrow> nat" where
  "nested_sum w m token = bt_sum (\<lambda>tokens. opt_val w (map_of tokens token)) m"

text \<open>The index lists for each user exactly the tokens the user has an entry for.\<close>

definition index_exact :: "('u, ('t, 'b) btree) btree \<Rightarrow> ('u, 't bset) btree \<Rightarrow> bool" where
  "index_exact m ix \<longleftrightarrow> (\<forall>u. set (entry_or [] ix u) = fst ` set (entry_or [] m u))"

lemma nested_get_entry: "nested_get d m u t = entry_or d (entry_or [] m u) t"
  by (simp add: nested_get_def entry_or_def split: option.split)

lemma nested_get_put [simp]: "nested_get d (nested_put u t b m) u' t' = (if u' = u \<and> t' = t then b else nested_get d m u' t')"
  by (simp add: nested_get_entry nested_put_def)

lemma nested_put_twice [simp]: "nested_put u t b (nested_put u t b' m) = nested_put u t b m"
  by (simp add: nested_put_def)

lemma index_put_twice [simp]: "index_put u t (index_put u t m) = index_put u t m"
  by (simp add: index_put_def)

lemma nested_wf_Nil [simp]: "nested_wf []"
  by (simp add: nested_wf_def)

lemma nested_wf_entry: "nested_wf m \<Longrightarrow> bt_wf (entry_or [] m u)"
  by (fastforce simp: nested_wf_def entry_or_def split: option.split dest: map_of_SomeD)

lemma set_bt_insert_sub: "set (bt_insert k v m) \<subseteq> insert (k, v) (set m)"
  by (induction m) auto

lemma nested_wf_put [simp, intro]:
  assumes "nested_wf m"
  shows "nested_wf (nested_put u t b m)"
  using assms nested_wf_entry [OF assms, of u] set_bt_insert_sub [of u "bt_insert t b (entry_or [] m u)" m]
  unfolding nested_wf_def nested_put_def by fastforce

lemma nested_sum_put:
  assumes "nested_wf m" and "w d = 0"
  shows "nested_sum w (nested_put u t b m) t' + (if t' = t then w (nested_get d m u t) else 0)
    = nested_sum w m t' + (if t' = t then w b else 0)"
proof -
  let ?f = "\<lambda>tokens. opt_val w (map_of tokens t')" and ?ts = "entry_or [] m u"
  have old: "opt_val ?f (map_of m u) = opt_val w (map_of ?ts t')"
    by (simp add: entry_or_def split: option.split)
  have get: "w (nested_get d m u t) = opt_val w (map_of ?ts t)"
    using assms(2) by (simp add: nested_get_entry entry_or_def [of d] split: option.split)
  have "bt_sum ?f (nested_put u t b m) + opt_val w (map_of ?ts t') = bt_sum ?f m + opt_val w (map_of (bt_insert t b ?ts) t')"
    using bt_sum_insert [of m ?f u "bt_insert t b ?ts"] assms(1) unfolding nested_put_def old nested_wf_def by simp
  then show ?thesis by (auto simp: nested_sum_def get)
qed

lemma index_exact_Nil [simp]: "index_exact [] []"
  by (simp add: index_exact_def)

lemma index_exact_put [simp, intro]: "index_exact m ix \<Longrightarrow> index_exact (nested_put u t b m) (index_put u t ix)"
  by (simp add: index_exact_def nested_put_def index_put_def)

section \<open>The contract of a ledger\<close>

locale token_ledger =
  fixes bal :: "'s \<Rightarrow> 'u \<Rightarrow> 't \<Rightarrow> 'b"
    and put :: "'u \<Rightarrow> 't \<Rightarrow> 'b \<Rightarrow> 's \<Rightarrow> 's"
    and wf :: "'s \<Rightarrow> bool"
    and supply_of :: "'s \<Rightarrow> 't \<Rightarrow> nat"
    and weight :: "'b \<Rightarrow> nat"
    and empty_balance :: 'b
  assumes bal_put: "bal (put u t b s) u' t' = (if u' = u \<and> t' = t then b else bal s u' t')"
    and wf_put: "wf s \<Longrightarrow> wf (put u t b s)"
    and supply_put: "wf s \<Longrightarrow>
      supply_of (put u t b s) t' + (if t' = t then weight (bal s u t) else 0) = supply_of s t' + (if t' = t then weight b else 0)"
    and weight_empty: "weight empty_balance = 0"
begin

lemma bal_le_supply: "wf s \<Longrightarrow> weight (bal s u t) \<le> supply_of s t"
  using supply_put [of s u t empty_balance t] weight_empty by simp

lemma supply_same: "wf s \<Longrightarrow> weight b = weight (bal s u t) \<Longrightarrow> supply_of (put u t b s) t' = supply_of s t'"
  using supply_put [of s u t b t'] by (simp split: if_splits)

lemma supply_credit:
  "wf s \<Longrightarrow> weight b = weight (bal s u t) + d \<Longrightarrow> supply_of (put u t b s) t' = supply_of s t' + (if t' = t then d else 0)"
  using supply_put [of s u t b t'] by (simp split: if_splits)

lemma supply_debit:
  "wf s \<Longrightarrow> weight b + d = weight (bal s u t) \<Longrightarrow> supply_of (put u t b s) t' + (if t' = t then d else 0) = supply_of s t'"
  using supply_put [of s u t b t'] by (simp split: if_splits)

text \<open>What one account gives and another receives leaves the supply as it was, also when they are the same.\<close>

lemma supply_move:
  assumes "wf s" and "weight b + d = weight (bal s u t)" and "weight b' = weight (bal (put u t b s) u' t) + d"
  shows "supply_of (put u' t b' (put u t b s)) t' = supply_of s t'"
  using supply_credit [OF wf_put [OF assms(1)] assms(3), of t'] supply_debit [OF assms(1,2), of t'] by simp

end

end
