(* ===== verification/Spot_Ledger.thy ===== *)
theory Spot_Ledger
  imports Float64 Token_Ledger
begin

text \<open>
  The spot ledger of \<^verbatim>\<open>src/l1/spot_clearinghouse/types.rs\<close>: token metadata, balances with a reserved part,
  the ledger of all users with its index of tokens, resting orders, matched fills, and the wei rows with
  the sweep to the sentinel account.  A token, a spot pair, an amount of wei, a price and a size are
  naturals (\<open>u64\<close>).  An operation that fails after it has changed the ledger returns the ledger it leaves.
\<close>

section \<open>Metadata\<close>

definition USDC_TOKEN :: nat where "USDC_TOKEN = 0"

definition SENTINEL_SWEEP_USER :: address where
  "SENTINEL_SWEEP_USER = 0xeeeeeeeeeeeeeeeeeeeeeeeeeeeeeeeeeeeeeeee"

datatype spot_error = UnknownSpot | UnknownToken | InvalidDecimals | ArithmeticOverflow | InsufficientBalance | NormalizationFailed

record spot_info =
  si_base_token :: nat
  si_quote_token :: nat

datatype quote_token_status = Active | Disabled

record aligned_quote_token_info =
  aq_active :: bool
  aq_evm_minted_supply :: nat
  aq_first_aligned_time :: nat

record token_info =
  ti_wei_decimals :: nat
  ti_sz_decimals :: nat
  ti_deployer_trading_fee_share_scaled :: nat
  ti_deployer :: "address option"
  ti_aligned_quote :: aligned_quote_token_info

record spot_meta_state =
  sm_spot_infos :: "spot_info list"
  sm_token_infos :: "token_info list"
  sm_liquid_base_tokens :: "nat bset"
  sm_quote_token_to_status :: "(nat, quote_token_status) btree"
  sm_quote_token_to_aligned :: "(nat, aligned_quote_token_info) btree"

datatype spot_token_class = Plain | LiquidBase | QuoteOrAligned

text \<open>\<open>pow10_u64\<close>: the loop multiplies \<open>exp\<close> times and gives up before an overflow.\<close>

primrec pow10_loop :: "nat \<Rightarrow> nat \<Rightarrow> nat option" where
  "pow10_loop 0 value = Some value"
| "pow10_loop (Suc n) value = (if u64_max div 10 < value then None else pow10_loop n (value * 10))"

definition pow10_u64 :: "nat \<Rightarrow> nat option" where
  "pow10_u64 n = pow10_loop n 1"

definition sz_to_wei_scale :: "token_info \<Rightarrow> spot_error + nat" where
  "sz_to_wei_scale info =
     (if ti_wei_decimals info < ti_sz_decimals info then Inl InvalidDecimals
      else case pow10_u64 (ti_wei_decimals info - ti_sz_decimals info) of
             None \<Rightarrow> Inl InvalidDecimals
           | Some scale \<Rightarrow> Inr scale)"

definition deployer_share_for_amount :: "nat \<Rightarrow> nat \<Rightarrow> nat" where
  "deployer_share_for_amount amount share_scaled_1e5 =
     (let factor = f64_div (f64_of_u64 share_scaled_1e5) (f64_round 100000) in
      if \<not> f64_in_range 0 (101 / 100) factor then 0
      else saturating_f64_to_u64 (f64_mul (f64_of_u64 amount) factor))"

definition deployer_share :: "token_info \<Rightarrow> nat \<Rightarrow> nat" where
  "deployer_share info amount =
     (if ti_deployer info = None then 0
      else if \<not> aq_active (ti_aligned_quote info) then 0
      else deployer_share_for_amount amount (ti_deployer_trading_fee_share_scaled info))"

definition spot_pair :: "spot_meta_state \<Rightarrow> nat \<Rightarrow> spot_info option" where
  "spot_pair meta spot = (if spot < length (sm_spot_infos meta) then Some (sm_spot_infos meta ! spot) else None)"

definition get_token_info :: "spot_meta_state \<Rightarrow> nat \<Rightarrow> token_info option" where
  "get_token_info meta token = (if token < length (sm_token_infos meta) then Some (sm_token_infos meta ! token) else None)"

definition token_class :: "spot_meta_state \<Rightarrow> nat \<Rightarrow> spot_token_class" where
  "token_class meta token =
     (if token \<in> set (sm_liquid_base_tokens meta) then LiquidBase
      else if bt_contains (sm_quote_token_to_status meta) token \<or> bt_contains (sm_quote_token_to_aligned meta) token
        then QuoteOrAligned
      else Plain)"

definition spot_base_token_wei_for_fill :: "spot_meta_state \<Rightarrow> nat \<Rightarrow> nat \<Rightarrow> spot_error + nat" where
  "spot_base_token_wei_for_fill meta spot sz =
     (case spot_pair meta spot of
        None \<Rightarrow> Inl UnknownSpot
      | Some pair \<Rightarrow> (case get_token_info meta (si_base_token pair) of
            None \<Rightarrow> Inl UnknownToken
          | Some token \<Rightarrow> (case sz_to_wei_scale token of
                Inl e \<Rightarrow> Inl e
              | Inr scale \<Rightarrow> (case checked_mul_u64 sz scale of
                    None \<Rightarrow> Inl ArithmeticOverflow
                  | Some wei \<Rightarrow> Inr wei))))"

section \<open>Balances\<close>

record spot_token_balance =
  sb_total :: nat
  sb_reserved :: nat

definition default_balance :: spot_token_balance where
  "default_balance = \<lparr>sb_total = 0, sb_reserved = 0\<rparr>"

definition spendable :: "spot_token_balance \<Rightarrow> nat" where
  "spendable b = saturating_sub_u64 (sb_total b) (sb_reserved b)"

definition can_debit :: "spot_token_balance \<Rightarrow> nat \<Rightarrow> bool" where
  "can_debit b amount \<longleftrightarrow> amount \<le> spendable b"

definition credit_total :: "spot_token_balance \<Rightarrow> nat \<Rightarrow> spot_error + spot_token_balance" where
  "credit_total b amount = (case checked_add_u64 (sb_total b) amount of
      None \<Rightarrow> Inl ArithmeticOverflow
    | Some t \<Rightarrow> Inr (b\<lparr>sb_total := t\<rparr>))"

definition debit_spendable :: "spot_token_balance \<Rightarrow> nat \<Rightarrow> spot_error + spot_token_balance \<times> nat" where
  "debit_spendable b amount =
     (let debited = min amount (spendable b) in
      case checked_sub_u64 (sb_total b) debited of
        None \<Rightarrow> Inl InsufficientBalance
      | Some t \<Rightarrow> Inr (b\<lparr>sb_total := t\<rparr>, debited))"

definition consume_reserved :: "spot_token_balance \<Rightarrow> nat \<Rightarrow> spot_error + spot_token_balance" where
  "consume_reserved b amount = (case checked_sub_u64 (sb_total b) amount of
      None \<Rightarrow> Inl InsufficientBalance
    | Some t \<Rightarrow> Inr (b\<lparr>sb_total := t, sb_reserved := saturating_sub_u64 (sb_reserved b) amount\<rparr>))"

record spot_position =
  sp_user :: address
  sp_token :: nat
  sp_balance :: spot_token_balance

record spot_balance_snapshot =
  bs_token :: nat
  bs_balance :: spot_token_balance
  bs_delta :: nat
  bs_class :: spot_token_class

record spot_ledger_side =
  ls_user :: address
  ls_receive_token :: nat
  ls_pay_token :: nat
  ls_receive_wei :: nat
  ls_pay_wei :: nat
  ls_ledger_sequence_or_time :: nat
  ls_is_taker_side :: bool
  ls_token_class :: spot_token_class
  ls_quote_pair_flag :: nat
  ls_post_receive :: spot_balance_snapshot
  ls_post_pay :: spot_balance_snapshot

record spot_fill_party_settlement =
  fp_ledger_side :: spot_ledger_side
  fp_post_balance_a :: spot_balance_snapshot
  fp_post_balance_b :: spot_balance_snapshot
  fp_user :: address

record spot_fill_settlement =
  fs_party0 :: spot_fill_party_settlement
  fs_party1 :: spot_fill_party_settlement
  fs_px :: nat
  fs_spot :: nat
  fs_sz :: nat
  fs_ledger_sequence_or_time :: nat
  fs_side_flag :: nat

record resting_spot_order_reserve =
  rr_context_user :: address
  rr_user :: address
  rr_spot :: nat
  rr_amount :: nat
  rr_secondary_amount :: nat
  rr_is_buy :: bool
  rr_result :: spot_ledger_side

section \<open>The ledger\<close>

record spot_clearinghouse_state =
  sc_meta :: spot_meta_state
  sc_user_balances :: "(address, (nat, spot_token_balance) btree) btree"
  sc_user_token_index :: "(address, nat bset) btree"
  sc_token_supply_deltas :: "(nat, nat) btree"

definition balance_entry :: "spot_clearinghouse_state \<Rightarrow> address \<Rightarrow> nat \<Rightarrow> spot_token_balance" where
  "balance_entry st user token = nested_get default_balance (sc_user_balances st) user token"

text \<open>Writing the balance of a user: what a caller of \<open>balance_entry_mut\<close> leaves in the entry it borrowed, which
  exists from then on in the balances and in the index.\<close>

definition store_balance :: "address \<Rightarrow> nat \<Rightarrow> spot_token_balance \<Rightarrow> spot_clearinghouse_state \<Rightarrow> spot_clearinghouse_state" where
  "store_balance user token b st = st\<lparr>
     sc_user_token_index := index_put user token (sc_user_token_index st),
     sc_user_balances := nested_put user token b (sc_user_balances st)\<rparr>"

definition balance_entry_mut :: "spot_clearinghouse_state \<Rightarrow> address \<Rightarrow> nat \<Rightarrow> spot_clearinghouse_state \<times> spot_token_balance" where
  "balance_entry_mut st user token =
     (let b = balance_entry st user token in (store_balance user token b st, b))"

definition spot_position_of :: "spot_clearinghouse_state \<Rightarrow> address \<Rightarrow> nat \<Rightarrow> spot_position" where
  "spot_position_of st user token = \<lparr>sp_user = user, sp_token = token, sp_balance = balance_entry st user token\<rparr>"

definition snapshot :: "spot_meta_state \<Rightarrow> nat \<Rightarrow> spot_token_balance \<Rightarrow> nat \<Rightarrow> spot_balance_snapshot" where
  "snapshot meta token b amount = \<lparr>bs_token = token, bs_balance = b, bs_delta = amount, bs_class = token_class meta token\<rparr>"

definition credit_user_token ::
  "address \<Rightarrow> nat \<Rightarrow> nat \<Rightarrow> spot_clearinghouse_state \<Rightarrow> spot_clearinghouse_state \<times> (spot_error + spot_balance_snapshot)" where
  "credit_user_token user token amount st =
     (case balance_entry_mut st user token of (st1, entry) \<Rightarrow>
      case credit_total entry amount of
        Inl e \<Rightarrow> (st1, Inl e)
      | Inr b \<Rightarrow> (store_balance user token b st1, Inr (snapshot (sc_meta st) token b amount)))"

definition consume_user_reserved ::
  "address \<Rightarrow> nat \<Rightarrow> nat \<Rightarrow> spot_clearinghouse_state \<Rightarrow> spot_clearinghouse_state \<times> (spot_error + spot_balance_snapshot)" where
  "consume_user_reserved user token amount st =
     (case balance_entry_mut st user token of (st1, entry) \<Rightarrow>
      case consume_reserved entry amount of
        Inl e \<Rightarrow> (st1, Inl e)
      | Inr b \<Rightarrow> (store_balance user token b st1, Inr (snapshot (sc_meta st) token b amount)))"

definition add_token_supply_delta :: "nat \<Rightarrow> nat \<Rightarrow> spot_clearinghouse_state \<Rightarrow> spot_clearinghouse_state \<times> (spot_error + unit)" where
  "add_token_supply_delta token amount st =
     (let entry = entry_or 0 (sc_token_supply_deltas st) token;
          st1 = st\<lparr>sc_token_supply_deltas := bt_insert token entry (sc_token_supply_deltas st)\<rparr> in
      case checked_add_u64 entry amount of
        None \<Rightarrow> (st1, Inl ArithmeticOverflow)
      | Some v \<Rightarrow> (st1\<lparr>sc_token_supply_deltas := bt_insert token v (sc_token_supply_deltas st)\<rparr>, Inr ()))"

definition sub_token_supply_delta :: "nat \<Rightarrow> nat \<Rightarrow> spot_clearinghouse_state \<Rightarrow> spot_clearinghouse_state" where
  "sub_token_supply_delta token amount st =
     (let entry = entry_or 0 (sc_token_supply_deltas st) token in
      st\<lparr>sc_token_supply_deltas := bt_insert token (saturating_sub_u64 entry amount) (sc_token_supply_deltas st)\<rparr>)"

definition credit_deployer_share ::
  "nat \<Rightarrow> nat \<Rightarrow> spot_clearinghouse_state \<Rightarrow> spot_clearinghouse_state \<times> (spot_error + nat)" where
  "credit_deployer_share token amount st =
     (case get_token_info (sc_meta st) token of
        None \<Rightarrow> (st, Inl UnknownToken)
      | Some info \<Rightarrow>
          (let credit = deployer_share info amount in
           if credit = 0 then (st, Inr 0)
           else case ti_deployer info of
                  None \<Rightarrow> (st, Inr credit)
                | Some deployer \<Rightarrow>
                    (case balance_entry_mut st deployer token of (st1, entry) \<Rightarrow>
                     case credit_total entry credit of
                       Inl e \<Rightarrow> (st1, Inl e)
                     | Inr b \<Rightarrow> (store_balance deployer token b st1, Inr credit))))"

text \<open>What \<open>debit_user_spot_balance\<close> and the resting order share: the deployer's part of a debit, and the rest
  added to the supply delta.\<close>

definition account_debit :: "nat \<Rightarrow> nat \<Rightarrow> spot_clearinghouse_state \<Rightarrow> spot_clearinghouse_state \<times> (spot_error + unit)" where
  "account_debit token debited st =
     (case credit_deployer_share token debited st of
        (st1, Inl e) \<Rightarrow> (st1, Inl e)
      | (st1, Inr credited) \<Rightarrow> add_token_supply_delta token (saturating_sub_u64 debited credited) st1)"

definition debit_user_spot_balance ::
  "address \<Rightarrow> nat \<Rightarrow> nat \<Rightarrow> spot_clearinghouse_state \<Rightarrow> spot_clearinghouse_state \<times> (spot_error + nat)" where
  "debit_user_spot_balance user token amount st =
     (case balance_entry_mut st user token of (st1, entry) \<Rightarrow>
      case debit_spendable entry amount of
        Inl e \<Rightarrow> (st1, Inl e)
      | Inr (b, debited) \<Rightarrow>
          (case account_debit token debited (store_balance user token b st1) of
             (st2, Inl e) \<Rightarrow> (st2, Inl e)
           | (st2, Inr _) \<Rightarrow> (st2, Inr debited)))"

definition adjust_pair_supply_delta ::
  "nat \<Rightarrow> nat \<Rightarrow> nat \<Rightarrow> spot_clearinghouse_state \<Rightarrow> spot_clearinghouse_state \<times> (spot_error + unit)" where
  "adjust_pair_supply_delta token gross offset st =
     (if offset \<le> gross then account_debit token (gross - offset) st
      else (sub_token_supply_delta token (offset - gross) st, Inr ()))"

definition apply_fill_side ::
  "address \<Rightarrow> nat \<Rightarrow> nat \<Rightarrow> nat \<Rightarrow> nat \<Rightarrow> nat \<Rightarrow> bool \<Rightarrow> nat \<Rightarrow> spot_clearinghouse_state \<Rightarrow>
   spot_clearinghouse_state \<times> (spot_error + spot_ledger_side)" where
  "apply_fill_side user receive_token receive_wei pay_token pay_wei time is_taker_side taker_side st =
     (case credit_user_token user receive_token receive_wei st of
        (st1, Inl e) \<Rightarrow> (st1, Inl e)
      | (st1, Inr post_receive) \<Rightarrow>
          (case consume_user_reserved user pay_token pay_wei st1 of
             (st2, Inl e) \<Rightarrow> (st2, Inl e)
           | (st2, Inr post_pay) \<Rightarrow>
               (st2, Inr \<lparr>ls_user = user, ls_receive_token = receive_token, ls_pay_token = pay_token,
                  ls_receive_wei = receive_wei, ls_pay_wei = pay_wei, ls_ledger_sequence_or_time = time,
                  ls_is_taker_side = is_taker_side, ls_token_class = token_class (sc_meta st2) pay_token,
                  ls_quote_pair_flag = taker_side, ls_post_receive = post_receive, ls_post_pay = post_pay\<rparr>)))"

definition record_side :: "spot_ledger_side \<Rightarrow> spot_fill_party_settlement \<Rightarrow> spot_fill_party_settlement" where
  "record_side side p = p\<lparr>fp_ledger_side := side, fp_post_balance_a := ls_post_receive side, fp_post_balance_b := ls_post_pay side\<rparr>"

text \<open>The settlement of a matched fill: the ledger, the fill and the list of ledger sides it leaves, and the result.\<close>

definition settle_matched_spot_fill ::
  "nat \<Rightarrow> spot_fill_settlement \<Rightarrow> spot_ledger_side list \<Rightarrow> spot_clearinghouse_state \<Rightarrow>
   (spot_clearinghouse_state \<times> spot_fill_settlement \<times> spot_ledger_side list) \<times> (spot_error + unit)" where
  "settle_matched_spot_fill taker_side fill ledger_out st =
     (case spot_pair (sc_meta st) (fs_spot fill) of
        None \<Rightarrow> ((st, fill, ledger_out), Inl UnknownSpot)
      | Some pair \<Rightarrow> (case spot_base_token_wei_for_fill (sc_meta st) (fs_spot fill) (fs_sz fill) of
          Inl e \<Rightarrow> ((st, fill, ledger_out), Inl e)
        | Inr base_wei \<Rightarrow> (case checked_mul_u64 (fs_px fill) (fs_sz fill) of
            None \<Rightarrow> ((st, fill, ledger_out), Inl ArithmeticOverflow)
          | Some quote_wei \<Rightarrow>
              if \<not> can_debit (balance_entry st (fp_user (fs_party0 fill)) (si_quote_token pair)) quote_wei
                then ((st, fill, ledger_out), Inl InsufficientBalance)
              else if \<not> can_debit (balance_entry st (fp_user (fs_party1 fill)) (si_base_token pair)) base_wei
                then ((st, fill, ledger_out), Inl InsufficientBalance)
              else (case apply_fill_side (fp_user (fs_party0 fill)) (si_base_token pair) base_wei (si_quote_token pair) quote_wei
                      (fs_ledger_sequence_or_time fill) (fs_side_flag fill = 0) taker_side st of
                (st1, Inl e) \<Rightarrow> ((st1, fill, ledger_out), Inl e)
              | (st1, Inr side0) \<Rightarrow>
                (let fill1 = fill\<lparr>fs_party0 := record_side side0 (fs_party0 fill)\<rparr>; out1 = ledger_out @ [side0] in
                 case apply_fill_side (fp_user (fs_party1 fill)) (si_quote_token pair) quote_wei (si_base_token pair) base_wei
                      (fs_ledger_sequence_or_time fill) (fs_side_flag fill = 1) taker_side st1 of
                   (st2, Inl e) \<Rightarrow> ((st2, fill1, out1), Inl e)
                 | (st2, Inr side1) \<Rightarrow>
                   (let fill2 = fill1\<lparr>fs_party1 := record_side side1 (fs_party1 fill)\<rparr>; out2 = out1 @ [side1] in
                    case adjust_pair_supply_delta (si_base_token pair) base_wei quote_wei st2 of
                      (st3, Inl e) \<Rightarrow> ((st3, fill2, out2), Inl e)
                    | (st3, Inr _) \<Rightarrow>
                        (case adjust_pair_supply_delta (si_quote_token pair) quote_wei base_wei st3 of
                           (st4, r) \<Rightarrow> ((st4, fill2, out2), r))))))))"

definition reserve_resting_spot_order ::
  "bool \<Rightarrow> bool \<Rightarrow> resting_spot_order_reserve \<Rightarrow> spot_clearinghouse_state \<Rightarrow>
   (spot_clearinghouse_state \<times> resting_spot_order_reserve) \<times> (spot_error + unit)" where
  "reserve_resting_spot_order taker_side enabled order st =
     (if \<not> enabled \<or> rr_amount order = 0 then ((st, order), Inr ())
      else case spot_pair (sc_meta st) (rr_spot order) of
        None \<Rightarrow> ((st, order), Inl UnknownSpot)
      | Some pair \<Rightarrow>
          (let pay_token = (if rr_is_buy order then si_quote_token pair else si_base_token pair);
               receive_token = (if rr_is_buy order then si_base_token pair else si_quote_token pair);
               user = rr_user order in
           case balance_entry_mut st user pay_token of (st1, entry) \<Rightarrow>
           case debit_spendable entry (rr_amount order) of
             Inl e \<Rightarrow> ((st1, order), Inl e)
           | Inr (b, debited) \<Rightarrow>
               (let st2 = store_balance user pay_token b st1;
                    pay_snapshot = snapshot (sc_meta st2) pay_token (balance_entry st2 user pay_token) debited in
                case account_debit pay_token debited st2 of
                  (st3, Inl e) \<Rightarrow> ((st3, order), Inl e)
                | (st3, Inr _) \<Rightarrow>
                    ((st3, order\<lparr>rr_result := \<lparr>ls_user = user, ls_receive_token = receive_token, ls_pay_token = pay_token,
                        ls_receive_wei = rr_secondary_amount order, ls_pay_wei = debited, ls_ledger_sequence_or_time = 0,
                        ls_is_taker_side = taker_side, ls_token_class = token_class (sc_meta st3) pay_token,
                        ls_quote_pair_flag = 0,
                        ls_post_receive = snapshot (sc_meta st3) receive_token (balance_entry st3 user receive_token) (rr_secondary_amount order),
                        ls_post_pay = pay_snapshot\<rparr>\<rparr>), Inr ()))))"

definition quote_wei_for_fill :: "nat \<Rightarrow> nat \<Rightarrow> nat option" where
  "quote_wei_for_fill px sz = checked_mul_u64 px sz"

definition spot_notional_from_px_sz :: "nat \<Rightarrow> nat \<Rightarrow> nat \<Rightarrow> nat option" where
  "spot_notional_from_px_sz px sz scale =
     (if scale = 0 then None
      else if 2 ^ 128 \<le> px * sz then None
      else let raw = px * sz div scale in if raw \<le> u64_max then Some raw else None)"

end
