(* ===== verification/Spot_Properties.thy ===== *)
theory Spot_Properties
  imports Spot_Ledger
begin

text \<open>
  The spot ledger keeps its accounts: the index of tokens is exact, the supply of a token changes
  only where the code credits or debits it, a matched fill moves what it says and mints only the
  deployer's share, and a debit moves tokens from the balances to the supply delta.
\<close>

section \<open>The ledger as a token ledger\<close>

definition spot_wf :: "spot_clearinghouse_state \<Rightarrow> bool" where
  "spot_wf st \<longleftrightarrow> nested_wf (sc_user_balances st)"

definition spot_supply :: "spot_clearinghouse_state \<Rightarrow> nat \<Rightarrow> nat" where
  "spot_supply st token = nested_sum sb_total (sc_user_balances st) token"

definition burned :: "spot_clearinghouse_state \<Rightarrow> nat \<Rightarrow> nat" where
  "burned st token = entry_or 0 (sc_token_supply_deltas st) token"

lemma default_total [simp]: "sb_total default_balance = 0" "sb_reserved default_balance = 0"
  by (simp_all add: default_balance_def)

interpretation spot: token_ledger balance_entry store_balance spot_wf spot_supply sb_total default_balance
proof
  show "spot_supply (store_balance u t b st) t' + (if t' = t then sb_total (balance_entry st u t) else 0)
      = spot_supply st t' + (if t' = t then sb_total b else 0)" if "spot_wf st" for st u t b t'
    using that nested_sum_put [of "sc_user_balances st" sb_total default_balance u t b t']
    unfolding spot_wf_def spot_supply_def balance_entry_def store_balance_def by simp
qed (simp_all add: balance_entry_def store_balance_def spot_wf_def)

lemma store_balance_fields [simp]:
  "sc_meta (store_balance u t b st) = sc_meta st" "sc_token_supply_deltas (store_balance u t b st) = sc_token_supply_deltas st"
  by (simp_all add: store_balance_def)

lemma store_balance_twice [simp]: "store_balance u t b (store_balance u t b' st) = store_balance u t b st"
  by (simp add: store_balance_def)

text \<open>Each operation on the balances is one write; it is described by what it does to every balance and supply.\<close>

definition spot_index_ok :: "spot_clearinghouse_state \<Rightarrow> bool" where
  "spot_index_ok st \<longleftrightarrow> index_exact (sc_user_balances st) (sc_user_token_index st)"

definition spot_ok :: "spot_clearinghouse_state \<Rightarrow> bool" where
  "spot_ok st \<longleftrightarrow> spot_wf st \<and> spot_index_ok st"

lemma spot_ok_store [simp, intro]: "spot_ok st \<Longrightarrow> spot_ok (store_balance u t b st)"
  by (simp add: spot_ok_def spot_index_ok_def spot.wf_put) (simp add: store_balance_def index_exact_put)

lemma spot_ok_deltas [simp]: "spot_ok (st\<lparr>sc_token_supply_deltas := d\<rparr>) = spot_ok st"
  by (simp add: spot_ok_def spot_wf_def spot_index_ok_def)

lemma spot_supply_deltas [simp]: "spot_supply (st\<lparr>sc_token_supply_deltas := d\<rparr>) t = spot_supply st t"
  by (simp add: spot_supply_def)

lemma balance_entry_deltas [simp]: "balance_entry (st\<lparr>sc_token_supply_deltas := d\<rparr>) u t = balance_entry st u t"
  by (simp add: balance_entry_def)

lemma burned_store [simp]: "burned (store_balance u t b st) x = burned st x"
  by (simp add: burned_def)

lemma spot_ok_wf: "spot_ok st \<Longrightarrow> spot_wf st"
  by (simp add: spot_ok_def)

lemma supply_touch [simp]:
  "spot_ok st \<Longrightarrow> spot_supply (store_balance u t (balance_entry st u t) st) x = spot_supply st x"
  by (rule spot.supply_same) (simp_all add: spot_ok_def)

section \<open>Single operations\<close>

lemma credit_user_token_effect:
  assumes "credit_user_token u t amount st = (st', r)" and "spot_ok st"
  shows "spot_ok st'" "sc_meta st' = sc_meta st" "burned st' x = burned st x"
    "spot_supply st' x = spot_supply st x + (if isl r then 0 else if x = t then amount else 0)"
    "balance_entry st' u' x = (if \<not> isl r \<and> u' = u \<and> x = t then (balance_entry st u t)\<lparr>sb_total := sb_total (balance_entry st u t) + amount\<rparr>
      else balance_entry st u' x)"
  using assms spot.supply_credit [of st _ u t amount x] spot_ok_wf [OF assms(2)]
  by (auto simp: credit_user_token_def balance_entry_mut_def Let_def credit_total_def checked_add_u64_def spot.bal_put
      split: option.splits sum.splits if_splits)

lemma consume_user_reserved_effect:
  assumes "consume_user_reserved u t amount st = (st', r)" and "spot_ok st"
  shows "spot_ok st'" "sc_meta st' = sc_meta st" "burned st' x = burned st x"
    "spot_supply st' x + (if isl r then 0 else if x = t then amount else 0) = spot_supply st x"
    "\<not> isl r \<Longrightarrow> amount \<le> sb_total (balance_entry st u t)"
    "balance_entry st' u' x = (if \<not> isl r \<and> u' = u \<and> x = t
      then \<lparr>sb_total = sb_total (balance_entry st u t) - amount, sb_reserved = sb_reserved (balance_entry st u t) - amount\<rparr>
      else balance_entry st u' x)"
  using assms spot.supply_debit [of st _ amount u t x] spot_ok_wf [OF assms(2)]
  by (auto simp: consume_user_reserved_def balance_entry_mut_def Let_def consume_reserved_def checked_sub_u64_def spot.bal_put
      saturating_sub_u64_def split: option.splits sum.splits if_splits)

text \<open>The deployer's share that a debit of a token credits.\<close>

definition share_of :: "spot_meta_state \<Rightarrow> nat \<Rightarrow> nat \<Rightarrow> nat" where
  "share_of meta token amount = (case get_token_info meta token of None \<Rightarrow> 0 | Some info \<Rightarrow> deployer_share info amount)"

lemma deployer_share_none [simp]: "ti_deployer info = None \<Longrightarrow> deployer_share info amount = 0"
  by (simp add: deployer_share_def)

lemma credit_deployer_share_effect:
  assumes "credit_deployer_share t amount st = (st', r)" and "spot_ok st"
  shows "spot_ok st'" "sc_meta st' = sc_meta st" "burned st' x = burned st x"
    "spot_supply st' x = spot_supply st x + (if isl r then 0 else if x = t then share_of (sc_meta st) t amount else 0)"
    "r = Inr credited \<Longrightarrow> credited = share_of (sc_meta st) t amount"
  using assms spot.supply_credit [of st _ _ t "share_of (sc_meta st) t amount" x] spot_ok_wf [OF assms(2)]
  by (auto simp: credit_deployer_share_def balance_entry_mut_def Let_def credit_total_def checked_add_u64_def share_of_def
      split: option.splits sum.splits if_splits)

lemma add_token_supply_delta_effect:
  assumes "add_token_supply_delta t amount st = (st', r)"
  shows "spot_ok st' = spot_ok st" "sc_meta st' = sc_meta st" "spot_supply st' x = spot_supply st x"
    "burned st' x = burned st x + (if isl r then 0 else if x = t then amount else 0)"
    "balance_entry st' u x = balance_entry st u x"
  using assms by (auto simp: add_token_supply_delta_def Let_def checked_add_u64_def burned_def split: option.splits if_splits)

text \<open>Accounting for a debit: the deployer's share is credited, the rest goes to the supply delta.\<close>

lemma account_debit_effect:
  assumes "account_debit t amount st = (st', r)" and "spot_ok st"
  shows "spot_ok st'" "sc_meta st' = sc_meta st"
    "\<not> isl r \<Longrightarrow> spot_supply st' x = spot_supply st x + (if x = t then share_of (sc_meta st) t amount else 0)"
    "\<not> isl r \<Longrightarrow> burned st' x = burned st x + (if x = t then amount - share_of (sc_meta st) t amount else 0)"
proof -
  obtain st1 r1 where c: "credit_deployer_share t amount st = (st1, r1)" by fastforce
  note e = credit_deployer_share_effect [OF c assms(2)]
  have "spot_ok st' \<and> sc_meta st' = sc_meta st \<and> (\<not> isl r \<longrightarrow>
      spot_supply st' x = spot_supply st x + (if x = t then share_of (sc_meta st) t amount else 0)
      \<and> burned st' x = burned st x + (if x = t then amount - share_of (sc_meta st) t amount else 0))"
  proof (cases r1)
    case (Inl err)
    with assms(1) c e show ?thesis by (auto simp: account_debit_def)
  next
    case (Inr credited)
    with assms(1) c have a: "add_token_supply_delta t (saturating_sub_u64 amount credited) st1 = (st', r)"
      by (simp add: account_debit_def)
    have credited: "credited = share_of (sc_meta st) t amount" using e(5) Inr by blast
    from add_token_supply_delta_effect [OF a] e(1-4) Inr show ?thesis
      by (auto simp: credited saturating_sub_u64_def)
  qed
  then show "spot_ok st'" "sc_meta st' = sc_meta st"
    "\<not> isl r \<Longrightarrow> spot_supply st' x = spot_supply st x + (if x = t then share_of (sc_meta st) t amount else 0)"
    "\<not> isl r \<Longrightarrow> burned st' x = burned st x + (if x = t then amount - share_of (sc_meta st) t amount else 0)"
    by blast+
qed

definition pair_share :: "spot_meta_state \<Rightarrow> nat \<Rightarrow> nat \<Rightarrow> nat \<Rightarrow> nat" where
  "pair_share meta token gross offset = (if offset \<le> gross then share_of meta token (gross - offset) else 0)"

lemma adjust_pair_effect:
  assumes "adjust_pair_supply_delta t gross offset st = (st', r)" and "spot_ok st"
  shows "spot_ok st'" "sc_meta st' = sc_meta st"
    "\<not> isl r \<Longrightarrow> spot_supply st' x = spot_supply st x + (if x = t then pair_share (sc_meta st) t gross offset else 0)"
  using assms account_debit_effect [of t "gross - offset" st st' r]
  by (auto simp: adjust_pair_supply_delta_def pair_share_def sub_token_supply_delta_def Let_def split: if_splits)

lemma debit_spendable_amount: "debit_spendable b amount = Inr (b', debited) \<Longrightarrow>
    b' = b\<lparr>sb_total := sb_total b - debited\<rparr> \<and> debited \<le> sb_total b \<and> debited = min amount (sb_total b - sb_reserved b)"
  by (auto simp: debit_spendable_def Let_def spendable_def saturating_sub_u64_def checked_sub_u64_def split: if_splits option.splits)

lemma store_debit_supply:
  assumes "spot_ok st" and "debit_spendable (balance_entry st u t) amount = Inr (b', debited)"
  shows "spot_supply (store_balance u t b' st) x + (if x = t then debited else 0) = spot_supply st x"
  using debit_spendable_amount [OF assms(2)] spot_ok_wf [OF assms(1)] by (intro spot.supply_debit) auto

section \<open>Debits\<close>

lemma debit_never_fails: "\<exists>b d. debit_spendable e amount = Inr (b, d)"
  by (auto simp: debit_spendable_def Let_def spendable_def saturating_sub_u64_def checked_sub_u64_def split: option.split)

lemma debit_effect:
  assumes d: "debit_user_spot_balance u t amount st = (st', Inr debited)" and ok: "spot_ok st"
  shows "spot_ok st'" and "debited = min amount (sb_total (balance_entry st u t) - sb_reserved (balance_entry st u t))"
    and "spot_supply st' x + (if x = t then debited else 0) = spot_supply st x + (if x = t then share_of (sc_meta st) t debited else 0)"
    and "burned st' x = burned st x + (if x = t then debited - share_of (sc_meta st) t debited else 0)"
proof -
  obtain b' where b': "debit_spendable (balance_entry st u t) amount = Inr (b', debited)"
    and acc: "account_debit t debited (store_balance u t b' st) = (st', Inr ())"
    using d by (auto simp: debit_user_spot_balance_def balance_entry_mut_def Let_def split: sum.splits prod.splits)
  note e = account_debit_effect [OF acc spot_ok_store [OF ok]]
  show "spot_ok st'" by (rule e(1))
  show "debited = min amount (sb_total (balance_entry st u t) - sb_reserved (balance_entry st u t))"
    using debit_spendable_amount [OF b'] by simp
  show "spot_supply st' x + (if x = t then debited else 0) = spot_supply st x + (if x = t then share_of (sc_meta st) t debited else 0)"
    using e(3) [of x] store_debit_supply [OF ok b', of x] by (simp split: if_splits)
  show "burned st' x = burned st x + (if x = t then debited - share_of (sc_meta st) t debited else 0)"
    using e(4) [of x] by simp
qed

section \<open>Fills\<close>

lemma apply_fill_side_effect:
  assumes "apply_fill_side u rt rw pt pw time tk ts st = (st', Inr side)" and "spot_ok st"
  shows "spot_ok st'" "sc_meta st' = sc_meta st"
    "spot_supply st' x + (if x = pt then pw else 0) = spot_supply st x + (if x = rt then rw else 0)"
proof -
  obtain st1 r1 st2 r2 where c: "credit_user_token u rt rw st = (st1, Inr r1)" and p: "consume_user_reserved u pt pw st1 = (st', Inr r2)"
    using assms(1) by (auto simp: apply_fill_side_def split: prod.splits sum.splits)
  note ec = credit_user_token_effect [OF c assms(2)]
  note ep = consume_user_reserved_effect [OF p ec(1)]
  show "spot_ok st'" by (rule ep(1))
  show "sc_meta st' = sc_meta st" using ec(2) ep(2) by simp
  show "spot_supply st' x + (if x = pt then pw else 0) = spot_supply st x + (if x = rt then rw else 0)"
    using ec(4) [of x] ep(4) [of x] by (simp split: if_splits)
qed

lemma apply_fill_side_balance:
  assumes "apply_fill_side u rt rw pt pw time tk ts st = (st', Inr side)" and "spot_ok st" and "rt \<noteq> pt"
  shows "sb_total (balance_entry st' u pt) + pw = sb_total (balance_entry st u pt)"
    and "u' \<noteq> u \<Longrightarrow> balance_entry st' u' x = balance_entry st u' x"
proof -
  obtain st1 r1 st2 r2 where c: "credit_user_token u rt rw st = (st1, Inr r1)" and p: "consume_user_reserved u pt pw st1 = (st', Inr r2)"
    using assms(1) by (auto simp: apply_fill_side_def split: prod.splits sum.splits)
  note ec = credit_user_token_effect [OF c assms(2)]
  note ep = consume_user_reserved_effect [OF p ec(1)]
  show "sb_total (balance_entry st' u pt) + pw = sb_total (balance_entry st u pt)"
    using ep(5) ep(6) [of u pt] ec(5) [of u pt] assms(3) by simp
  show "u' \<noteq> u \<Longrightarrow> balance_entry st' u' x = balance_entry st u' x"
    using ep(6) [of u' x] ec(5) [of u' x] by simp
qed

lemma settle_steps:
  assumes "settle_matched_spot_fill ts fill out st = ((st', fill', out'), Inr ())"
  obtains pair base quote st1 st2 st3 side0 side1 where
    "spot_pair (sc_meta st) (fs_spot fill) = Some pair"
    "spot_base_token_wei_for_fill (sc_meta st) (fs_spot fill) (fs_sz fill) = Inr base"
    "checked_mul_u64 (fs_px fill) (fs_sz fill) = Some quote"
    "can_debit (balance_entry st (fp_user (fs_party0 fill)) (si_quote_token pair)) quote"
    "can_debit (balance_entry st (fp_user (fs_party1 fill)) (si_base_token pair)) base"
    "apply_fill_side (fp_user (fs_party0 fill)) (si_base_token pair) base (si_quote_token pair) quote
       (fs_ledger_sequence_or_time fill) (fs_side_flag fill = 0) ts st = (st1, Inr side0)"
    "apply_fill_side (fp_user (fs_party1 fill)) (si_quote_token pair) quote (si_base_token pair) base
       (fs_ledger_sequence_or_time fill) (fs_side_flag fill = 1) ts st1 = (st2, Inr side1)"
    "adjust_pair_supply_delta (si_base_token pair) base quote st2 = (st3, Inr ())"
    "adjust_pair_supply_delta (si_quote_token pair) quote base st3 = (st', Inr ())"
  using assms by (auto simp: settle_matched_spot_fill_def Let_def split: option.splits sum.splits if_splits prod.splits)

section \<open>Every operation keeps the ledger well formed\<close>

lemma apply_fill_side_ok:
  assumes "apply_fill_side u rt rw pt pw time tk ts st = (st', r)" and "spot_ok st"
  shows "spot_ok st'" "sc_meta st' = sc_meta st"
  using assms credit_user_token_effect(1,2) [OF _ assms(2)] consume_user_reserved_effect(1,2)
  by (fastforce simp: apply_fill_side_def split: prod.splits sum.splits)+

lemma debit_ok: "debit_user_spot_balance u t amount st = (st', r) \<Longrightarrow> spot_ok st \<Longrightarrow> spot_ok st'"
  using account_debit_effect(1)
  by (fastforce simp: debit_user_spot_balance_def balance_entry_mut_def Let_def split: prod.splits sum.splits)

lemma reserve_ok: "reserve_resting_spot_order tk en order st = ((st', order'), r) \<Longrightarrow> spot_ok st \<Longrightarrow> spot_ok st'"
  using account_debit_effect(1)
  by (fastforce simp: reserve_resting_spot_order_def balance_entry_mut_def Let_def split: if_splits option.splits prod.splits sum.splits)

lemma settle_ok:
  assumes "settle_matched_spot_fill ts fill out st = ((st', fill', out'), r)" and ok: "spot_ok st"
  shows "spot_ok st'"
proof -
  have sides: "\<And>u rt rw pt pw time tk s s' r. apply_fill_side u rt rw pt pw time tk ts s = (s', r) \<Longrightarrow> spot_ok s \<Longrightarrow> spot_ok s'"
    by (rule apply_fill_side_ok(1))
  have adjust: "\<And>t g f s s' r. adjust_pair_supply_delta t g f s = (s', r) \<Longrightarrow> spot_ok s \<Longrightarrow> spot_ok s'"
    by (rule adjust_pair_effect(1))
  from assms(1) show ?thesis
    using sides adjust ok
    by (auto simp: settle_matched_spot_fill_def Let_def split: option.splits sum.splits if_splits prod.splits)
qed

inductive spot_step :: "spot_clearinghouse_state \<Rightarrow> spot_clearinghouse_state \<Rightarrow> bool" where
  credit: "credit_user_token u t amount st = (st', r) \<Longrightarrow> spot_step st st'"
| consume: "consume_user_reserved u t amount st = (st', r) \<Longrightarrow> spot_step st st'"
| debit: "debit_user_spot_balance u t amount st = (st', r') \<Longrightarrow> spot_step st st'"
| reserve: "reserve_resting_spot_order tk en order st = ((st', order'), r'') \<Longrightarrow> spot_step st st'"
| settle: "settle_matched_spot_fill ts fill out st = ((st', fill', out'), r'') \<Longrightarrow> spot_step st st'"

interpretation spot_runs: invariant_system spot_step spot_ok
proof
  show "spot_ok t" if "spot_step s t" and "spot_ok s" for s t
    using that
    by cases (auto intro: credit_user_token_effect(1) consume_user_reserved_effect(1) debit_ok reserve_ok settle_ok)
qed

section \<open>The deployer's share\<close>

lemma share_le_amount:
  assumes "scaled \<le> 100000" and "amount < 2 ^ 53"
  shows "deployer_share_for_amount amount scaled \<le> amount"
proof -
  define q :: rat where "q = of_nat scaled / 100000"
  have q: "q = 0 \<or> 1 / 100000 \<le> q" "q \<le> 1" using assms(1) by (auto simp: q_def)
  have tiny: "1 / 2 ^ 1022 \<le> (1 / 200000 :: rat)" by simp
  obtain r where r: "f64_round q = Fin r" "f64_near q r" "0 \<le> r"
  proof (rule f64_round_near [of q])
    show "q = 0 \<or> 1 / 2 ^ 1022 \<le> q" using q(1) tiny by linarith
    show "q \<le> 2 ^ 1000" using q(2) by (rule order_trans) simp
  qed
  have "r \<le> 1"
    using r(1) round_pos_le_1 [of q] q by (auto simp: f64_round_def Let_def split: if_splits)
  have "of_nat amount * r = 0 \<or> 1 / 200000 \<le> of_nat amount * r"
  proof (cases "amount = 0 \<or> q = 0")
    case True
    with r(2) show ?thesis by (auto simp: f64_near_def)
  next
    case False
    then have "1 / 100000 \<le> q" using q(1) by simp
    then have "1 / 200000 \<le> q * (1 - 1 / 2 ^ 53)" by simp
    then have "1 / 200000 \<le> r" using r(2) by (simp add: f64_near_def)
    moreover have "1 \<le> (of_nat amount :: rat)" using False by (simp add: Suc_le_eq)
    ultimately have "1 * (1 / 200000) \<le> of_nat amount * r" by (intro mult_mono) simp_all
    then show ?thesis by simp
  qed
  then have normal: "of_nat amount * r = 0 \<or> 1 / 2 ^ 1022 \<le> of_nat amount * r" using tiny by linarith
  have le: "of_nat amount * r \<le> of_nat amount" using \<open>r \<le> 1\<close> mult_left_mono [of r 1 "of_nat amount"] by simp
  have amount: "(of_nat amount :: rat) < 2 ^ 53" using assms(2) by (simp only: of_nat_less_iff [symmetric, where 'a = rat]) simp
  have "of_nat amount * r \<le> 2 ^ 1000" using le amount by (rule order_trans [OF _ less_imp_le [OF less_trans]]) simp
  then obtain y where y: "f64_round (of_nat amount * r) = Fin y" "f64_near (of_nat amount * r) y" "0 \<le> y"
    using f64_round_near [OF normal] by blast
  have "y \<le> of_nat amount * r * (1 + 1 / 2 ^ 53)" using y(2) by (simp add: f64_near_def)
  also have "\<dots> \<le> of_nat amount * (1 + 1 / 2 ^ 53)" using le by (rule mult_right_mono) simp
  also have "\<dots> < of_nat amount + 1" using amount by (simp add: field_simps)
  finally have "y < of_nat amount + 1" .
  have k: "f64_round 100000 = Fin 100000" using f64_of_u64_exact [of 100000] by (simp add: f64_of_u64_def)
  have scaled: "f64_of_u64 scaled = Fin (of_nat scaled)" using assms(1) by (intro f64_of_u64_exact) simp
  have "f64_mul (f64_of_u64 amount) (f64_div (f64_of_u64 scaled) (f64_round 100000)) = Fin y"
    using r(1) y(1) by (simp add: scaled k f64_of_u64_exact [OF assms(2)] q_def)
  then have "deployer_share_for_amount amount scaled \<le> saturating_f64_to_u64 (Fin y)"
    by (simp add: deployer_share_for_amount_def Let_def)
  then have "(of_nat (deployer_share_for_amount amount scaled) :: rat) \<le> y"
    using saturating_f64_le [OF y(3)] by (meson of_nat_le_iff order_trans)
  with \<open>y < of_nat amount + 1\<close> have "(of_nat (deployer_share_for_amount amount scaled) :: rat) < of_nat (amount + 1)" by simp
  then show ?thesis by (simp only: of_nat_less_iff)
qed

text \<open>The bound 1.01 of the sources, as the double it is.\<close>

lemma share_range: "f64_in_range 0 (101 / 100) (Fin r) \<longleftrightarrow> 0 \<le> r \<and> r \<le> 4548635623644201 / 2 ^ 52"
proof -
  have "exponent (101 / 100) = 0" by (simp add: exponent_def ilog2.simps)
  then have "f64_round (101 / 100) = Fin (4548635623644201 / 2 ^ 52)"
    by (simp add: f64_round_def round_pos_def round_even_def ulp_def Let_def)
  then show ?thesis by (simp add: f64_in_range_def f64_round_def round_pos_def)
qed

text \<open>Amounts from \<open>2\<^sup>53\<close> on are rounded before they are multiplied, also upwards: the whole of a debit, given to the
  deployer, is then more than the debit.\<close>

lemma share_exceeds_amount: "deployer_share_for_amount 9007199254740995 100000 = 9007199254740996"
proof -
  have k: "f64_round 100000 = Fin 100000" "f64_of_u64 100000 = Fin 100000" "f64_round 1 = Fin 1"
    using f64_of_u64_exact [of 100000] f64_of_u64_exact [of 1] by (simp_all add: f64_of_u64_def)
  have "ulp 9007199254740995 = 2" by (simp add: ulp_def exponent_def ilog2.simps)
  then have a: "f64_of_u64 9007199254740995 = Fin 9007199254740996"
    by (simp add: f64_of_u64_def f64_round_def round_pos_def round_even_def Let_def)
  have "ulp 9007199254740996 = 2" by (simp add: ulp_def exponent_def ilog2.simps)
  then have "f64_round 9007199254740996 = Fin 9007199254740996"
    by (simp add: f64_round_def round_pos_def round_even_def Let_def)
  moreover have "f64_in_range 0 (101 / 100) (Fin 1)" by (simp add: share_range)
  ultimately show ?thesis
    by (simp add: deployer_share_for_amount_def k a saturating_f64_to_u64_def f64_is_finite_def f64_u64_max)
qed

section \<open>Resting orders\<close>

definition no_deployers :: "spot_meta_state \<Rightarrow> bool" where
  "no_deployers meta \<longleftrightarrow> list_all (\<lambda>info. ti_deployer info = None) (sm_token_infos meta)"

lemma no_deployers_info: "no_deployers meta \<Longrightarrow> get_token_info meta t = Some info \<Longrightarrow> ti_deployer info = None"
  by (auto simp: no_deployers_def get_token_info_def list_all_length split: if_splits)

lemma account_debit_no_deployer:
  assumes "\<And>info. get_token_info (sc_meta st) t = Some info \<Longrightarrow> ti_deployer info = None"
    and "account_debit t amount st = (st', r)"
  shows "balance_entry st' u x = balance_entry st u x" and "sc_meta st' = sc_meta st"
proof -
  have "balance_entry st' u x = balance_entry st u x \<and> sc_meta st' = sc_meta st"
  proof (cases "get_token_info (sc_meta st) t")
    case None
    with assms(2) show ?thesis by (simp add: account_debit_def credit_deployer_share_def)
  next
    case (Some info)
    with assms have "add_token_supply_delta t (saturating_sub_u64 amount 0) st = (st', r)"
      by (simp add: account_debit_def credit_deployer_share_def)
    from add_token_supply_delta_effect [OF this] show ?thesis by simp
  qed
  then show "balance_entry st' u x = balance_entry st u x" "sc_meta st' = sc_meta st" by simp_all
qed

lemma adjust_pair_no_deployer:
  assumes "\<And>info. get_token_info (sc_meta st) t = Some info \<Longrightarrow> ti_deployer info = None"
    and "adjust_pair_supply_delta t gross offset st = (st', r)"
  shows "balance_entry st' u x = balance_entry st u x" and "sc_meta st' = sc_meta st"
  using assms account_debit_no_deployer [of st t "gross - offset" st' r]
  by (auto simp: adjust_pair_supply_delta_def sub_token_supply_delta_def Let_def split: if_splits)

text \<open>A resting buy order takes its amount out of the balance; nothing of it is marked as reserved.\<close>

lemma reserve_effect:
  assumes "reserve_resting_spot_order tk True order st = ((st', order'), Inr ())" and "rr_amount order \<noteq> 0" and "rr_is_buy order"
    and "spot_pair (sc_meta st) (rr_spot order) = Some pair"
    and "no_deployers (sc_meta st)"
  shows "sb_total (balance_entry st' (rr_user order) (si_quote_token pair)) + ls_pay_wei (rr_result order')
      = sb_total (balance_entry st (rr_user order) (si_quote_token pair))"
    and "sb_reserved (balance_entry st' (rr_user order) (si_quote_token pair)) = sb_reserved (balance_entry st (rr_user order) (si_quote_token pair))"
    and "sc_meta st' = sc_meta st"
proof -
  let ?u = "rr_user order" and ?t = "si_quote_token pair"
  obtain b d where d: "debit_spendable (balance_entry st ?u ?t) (rr_amount order) = Inr (b, d)"
    using debit_never_fails [of "balance_entry st ?u ?t" "rr_amount order"] by blast
  obtain st3 r where acc: "account_debit ?t d (store_balance ?u ?t b st) = (st3, r)" by fastforce
  from assms(1-4) d acc have res: "st' = st3" "ls_pay_wei (rr_result order') = d"
    by (auto simp: reserve_resting_spot_order_def balance_entry_mut_def Let_def split: sum.splits)
  have no: "\<And>info. get_token_info (sc_meta (store_balance ?u ?t b st)) ?t = Some info \<Longrightarrow> ti_deployer info = None"
    using no_deployers_info [OF assms(5)] by simp
  note e = account_debit_no_deployer [OF no acc]
  from debit_spendable_amount [OF d] e
  show "sb_total (balance_entry st' ?u ?t) + ls_pay_wei (rr_result order') = sb_total (balance_entry st ?u ?t)"
    "sb_reserved (balance_entry st' ?u ?t) = sb_reserved (balance_entry st ?u ?t)" "sc_meta st' = sc_meta st"
    by (simp_all add: res spot.bal_put)
qed

lemma fill_balance:
  assumes "settle_matched_spot_fill ts fill out st = ((st', fill', out'), Inr ())" and "spot_ok st"
    and "spot_pair (sc_meta st) (fs_spot fill) = Some pair" and "si_base_token pair \<noteq> si_quote_token pair"
    and "fp_user (fs_party0 fill) \<noteq> fp_user (fs_party1 fill)"
    and "no_deployers (sc_meta st)"
  shows "sb_total (balance_entry st' (fp_user (fs_party0 fill)) (si_quote_token pair)) + fs_px fill * fs_sz fill
    = sb_total (balance_entry st (fp_user (fs_party0 fill)) (si_quote_token pair))"
proof -
  from assms(1) show ?thesis
  proof (rule settle_steps)
    fix pair' base quote st1 st2 st3 side0 side1
    assume "spot_pair (sc_meta st) (fs_spot fill) = Some pair'" and q: "checked_mul_u64 (fs_px fill) (fs_sz fill) = Some quote"
      and f0: "apply_fill_side (fp_user (fs_party0 fill)) (si_base_token pair') base (si_quote_token pair') quote
        (fs_ledger_sequence_or_time fill) (fs_side_flag fill = 0) ts st = (st1, Inr side0)"
      and f1: "apply_fill_side (fp_user (fs_party1 fill)) (si_quote_token pair') quote (si_base_token pair') base
        (fs_ledger_sequence_or_time fill) (fs_side_flag fill = 1) ts st1 = (st2, Inr side1)"
      and a0: "adjust_pair_supply_delta (si_base_token pair') base quote st2 = (st3, Inr ())"
      and a1: "adjust_pair_supply_delta (si_quote_token pair') quote base st3 = (st', Inr ())"
    then have eq: "pair' = pair" "quote = fs_px fill * fs_sz fill"
      using assms(3) by (auto simp: checked_mul_u64_def split: if_splits)
    let ?u = "fp_user (fs_party0 fill)" and ?q = "si_quote_token pair"
    have meta: "sc_meta st1 = sc_meta st" "sc_meta st2 = sc_meta st" and ok1: "spot_ok st1"
      using apply_fill_side_effect(1,2) [OF f0 assms(2)] apply_fill_side_effect(2) [OF f1] by simp_all
    have b0: "sb_total (balance_entry st1 ?u ?q) + quote = sb_total (balance_entry st ?u ?q)"
      using apply_fill_side_balance(1) [OF f0 assms(2)] assms(4) unfolding eq by simp
    have b1: "balance_entry st2 ?u ?q = balance_entry st1 ?u ?q"
      using apply_fill_side_balance(2) [OF f1 ok1] assms(4,5) unfolding eq by simp
    note n0 = adjust_pair_no_deployer [OF _ a0]
    have b2: "balance_entry st3 ?u ?q = balance_entry st2 ?u ?q" "sc_meta st3 = sc_meta st2"
      using n0 no_deployers_info [OF assms(6)] meta by auto
    have b3: "balance_entry st' ?u ?q = balance_entry st3 ?u ?q"
      using adjust_pair_no_deployer(1) [OF _ a1] no_deployers_info [OF assms(6)] meta b2(2) by auto
    show ?thesis using b0 b1 b2(1) b3 unfolding eq by simp
  qed
qed

section \<open>A sample ledger\<close>

definition sample_token :: token_info where
  "sample_token = \<lparr>ti_wei_decimals = 1, ti_sz_decimals = 0, ti_deployer_trading_fee_share_scaled = 100000, ti_deployer = None,
     ti_aligned_quote = \<lparr>aq_active = False, aq_evm_minted_supply = 0, aq_first_aligned_time = 0\<rparr>\<rparr>"

definition sample_ledger :: spot_clearinghouse_state where
  "sample_ledger = \<lparr>sc_meta = \<lparr>sm_spot_infos = [\<lparr>si_base_token = 1, si_quote_token = 0\<rparr>], sm_token_infos = [sample_token, sample_token],
       sm_liquid_base_tokens = [], sm_quote_token_to_status = [], sm_quote_token_to_aligned = []\<rparr>,
     sc_user_balances = [(1, [(0, \<lparr>sb_total = 100, sb_reserved = 0\<rparr>)]), (2, [(1, \<lparr>sb_total = 50, sb_reserved = 0\<rparr>)])],
     sc_user_token_index = [(1, [0]), (2, [1])], sc_token_supply_deltas = []\<rparr>"

definition sample_snapshot :: spot_balance_snapshot where
  "sample_snapshot = \<lparr>bs_token = 0, bs_balance = default_balance, bs_delta = 0, bs_class = Plain\<rparr>"

definition sample_side :: spot_ledger_side where
  "sample_side = \<lparr>ls_user = 0, ls_receive_token = 0, ls_pay_token = 0, ls_receive_wei = 0, ls_pay_wei = 0,
     ls_ledger_sequence_or_time = 0, ls_is_taker_side = False, ls_token_class = Plain, ls_quote_pair_flag = 0,
     ls_post_receive = sample_snapshot, ls_post_pay = sample_snapshot\<rparr>"

definition sample_fill :: spot_fill_settlement where
  "sample_fill = \<lparr>fs_party0 = \<lparr>fp_ledger_side = sample_side, fp_post_balance_a = sample_snapshot, fp_post_balance_b = sample_snapshot, fp_user = 1\<rparr>,
     fs_party1 = \<lparr>fp_ledger_side = sample_side, fp_post_balance_a = sample_snapshot, fp_post_balance_b = sample_snapshot, fp_user = 2\<rparr>,
     fs_px = 6, fs_spot = 0, fs_sz = 5, fs_ledger_sequence_or_time = 0, fs_side_flag = 0\<rparr>"

definition sample_order :: resting_spot_order_reserve where
  "sample_order = \<lparr>rr_context_user = 1, rr_user = 1, rr_spot = 0, rr_amount = 30, rr_secondary_amount = 5, rr_is_buy = True,
     rr_result = sample_side\<rparr>"

lemma sample_ledger_ok: "spot_ok sample_ledger"
  by (auto simp: spot_ok_def spot_wf_def spot_index_ok_def sample_ledger_def nested_wf_def index_exact_def bt_wf_Cons entry_or_def)

lemmas spot_eval = sample_ledger_def sample_token_def sample_fill_def sample_side_def sample_snapshot_def sample_order_def
  settle_matched_spot_fill_def spot_pair_def spot_base_token_wei_for_fill_def get_token_info_def sz_to_wei_scale_def pow10_u64_def
  checked_mul_u64_def u64_max_def can_debit_def spendable_def saturating_sub_u64_def balance_entry_def nested_get_def
  apply_fill_side_def credit_user_token_def balance_entry_mut_def credit_total_def checked_add_u64_def store_balance_def nested_put_def
  index_put_def entry_or_def consume_user_reserved_def consume_reserved_def checked_sub_u64_def snapshot_def token_class_def bt_contains_def
  adjust_pair_supply_delta_def account_debit_def credit_deployer_share_def deployer_share_def add_token_supply_delta_def
  sub_token_supply_delta_def default_balance_def reserve_resting_spot_order_def debit_spendable_def debit_user_spot_balance_def
  record_side_def Let_def

lemma sample_settle:
  obtains st' fill' out' where "settle_matched_spot_fill 0 sample_fill [] sample_ledger = ((st', fill', out'), Inr ())"
proof -
  have "snd (settle_matched_spot_fill 0 sample_fill [] sample_ledger) = Inr ()" by (simp add: spot_eval)
  then show thesis using that by (metis prod.collapse)
qed

lemma sample_debit:
  obtains st' where "debit_user_spot_balance 1 0 7 sample_ledger = (st', Inr 7)"
proof -
  have "snd (debit_user_spot_balance 1 0 7 sample_ledger) = Inr 7" by (simp add: spot_eval)
  then show thesis using that by (metis prod.collapse)
qed

lemma sample_reserve:
  obtains st1 order' st2 fill' out' where "reserve_resting_spot_order False True sample_order sample_ledger = ((st1, order'), Inr ())"
    and "ls_pay_wei (rr_result order') = 30" and "settle_matched_spot_fill 0 sample_fill [] st1 = ((st2, fill', out'), Inr ())"
proof -
  let ?r = "reserve_resting_spot_order False True sample_order sample_ledger"
  have "snd ?r = Inr ()" "ls_pay_wei (rr_result (snd (fst ?r))) = 30" "snd (settle_matched_spot_fill 0 sample_fill [] (fst (fst ?r))) = Inr ()"
    by (simp_all add: spot_eval)
  then show thesis using that by (metis prod.collapse)
qed


section \<open>Properties\<close>

text \<open>C19. A matched fill conserves both tokens: what one side pays the other receives, whoever they are, and the
  supply of a token over all users changes by nothing but the deployer's share of the difference between its
  base and quote amounts.\<close>

theorem spot_fill_conserves:
  assumes "settle_matched_spot_fill ts fill out st = ((st', fill', out'), Inr ())" and "spot_ok st"
    and "spot_pair (sc_meta st) (fs_spot fill) = Some pair"
    and "spot_base_token_wei_for_fill (sc_meta st) (fs_spot fill) (fs_sz fill) = Inr base"
  shows "spot_supply st' t = spot_supply st t
      + (if t = si_base_token pair then pair_share (sc_meta st) t base (fs_px fill * fs_sz fill) else 0)
      + (if t = si_quote_token pair then pair_share (sc_meta st) t (fs_px fill * fs_sz fill) base else 0)"
proof -
  from assms(1) show ?thesis
  proof (rule settle_steps)
    fix pair' base' quote st1 st2 st3 side0 side1
    assume "spot_pair (sc_meta st) (fs_spot fill) = Some pair'" and "spot_base_token_wei_for_fill (sc_meta st) (fs_spot fill) (fs_sz fill) = Inr base'"
      and q: "checked_mul_u64 (fs_px fill) (fs_sz fill) = Some quote"
      and f0: "apply_fill_side (fp_user (fs_party0 fill)) (si_base_token pair') base' (si_quote_token pair') quote
        (fs_ledger_sequence_or_time fill) (fs_side_flag fill = 0) ts st = (st1, Inr side0)"
      and f1: "apply_fill_side (fp_user (fs_party1 fill)) (si_quote_token pair') quote (si_base_token pair') base'
        (fs_ledger_sequence_or_time fill) (fs_side_flag fill = 1) ts st1 = (st2, Inr side1)"
      and a0: "adjust_pair_supply_delta (si_base_token pair') base' quote st2 = (st3, Inr ())"
      and a1: "adjust_pair_supply_delta (si_quote_token pair') quote base' st3 = (st', Inr ())"
    then have eq: "pair' = pair" "base' = base" "quote = fs_px fill * fs_sz fill"
      using assms(3,4) by (auto simp: checked_mul_u64_def split: if_splits)
    note e0 = apply_fill_side_effect [OF f0 assms(2)]
    note e1 = apply_fill_side_effect [OF f1 e0(1)]
    note e2 = adjust_pair_effect [OF a0 e1(1)]
    note e3 = adjust_pair_effect [OF a1 e2(1)]
    show ?thesis using e0(2) e0(3) [of t] e1(2) e1(3) [of t] e2(2) e2(3) [of t] e3(3) [of t] unfolding eq by (simp split: if_splits)
  qed
qed

theorem spot_fill_conserves_witness:
  "\<exists>st' fill' out'. settle_matched_spot_fill 0 sample_fill [] sample_ledger = ((st', fill', out'), Inr ())
    \<and> spot_supply st' 0 = spot_supply sample_ledger 0"
proof -
  obtain st' fill' out' where s: "settle_matched_spot_fill 0 sample_fill [] sample_ledger = ((st', fill', out'), Inr ())"
    by (rule sample_settle)
  have "spot_pair (sc_meta sample_ledger) (fs_spot sample_fill) = Some \<lparr>si_base_token = 1, si_quote_token = 0\<rparr>"
    "spot_base_token_wei_for_fill (sc_meta sample_ledger) (fs_spot sample_fill) (fs_sz sample_fill) = Inr 50"
    by (simp_all add: spot_eval)
  from spot_fill_conserves [OF s sample_ledger_ok this, of 0]
  have "spot_supply st' 0 = spot_supply sample_ledger 0"
    by (simp add: pair_share_def share_of_def spot_eval)
  with s show ?thesis by blast
qed


text \<open>A debit removes exactly the spendable part of what was asked, and every unit that leaves the balances is
  either the deployer's share or counted in the supply delta.  With a share of at most the whole and amounts
  below \<open>2\<^sup>53\<close> the floating-point share never exceeds the debit, so balances and supply delta together are
  conserved.\<close>

lemma spot_debit_accounting:
  assumes "debit_user_spot_balance u t amount st = (st', Inr debited)" and "spot_ok st"
    and "get_token_info (sc_meta st) t = Some info" and "ti_deployer_trading_fee_share_scaled info \<le> 100000"
    and "sb_total (balance_entry st u t) < 2 ^ 53"
  shows "debited = min amount (sb_total (balance_entry st u t) - sb_reserved (balance_entry st u t))
    \<and> (\<forall>x. spot_supply st' x + burned st' x = spot_supply st x + burned st x)"
proof (intro conjI allI)
  note e = debit_effect [OF assms(1,2)]
  show d: "debited = min amount (sb_total (balance_entry st u t) - sb_reserved (balance_entry st u t))" by (rule e(2))
  then have "debited < 2 ^ 53" using assms(5) by linarith
  then have "share_of (sc_meta st) t debited \<le> debited"
    using share_le_amount [OF assms(4)] assms(3) by (simp add: share_of_def deployer_share_def)
  then show "spot_supply st' x + burned st' x = spot_supply st x + burned st x" for x
    using e(3) [of x] e(4) [of x] by (simp split: if_splits)
qed

lemma spot_debit_accounting_witness:
  "\<exists>st'. debit_user_spot_balance 1 0 7 sample_ledger = (st', Inr 7)
    \<and> spot_supply st' 0 + burned st' 0 = spot_supply sample_ledger 0 + burned sample_ledger 0"
proof -
  obtain st' where d: "debit_user_spot_balance 1 0 7 sample_ledger = (st', Inr 7)" by (rule sample_debit)
  have "get_token_info (sc_meta sample_ledger) 0 = Some sample_token" "ti_deployer_trading_fee_share_scaled sample_token \<le> 100000"
    "sb_total (balance_entry sample_ledger 1 0) < 2 ^ 53"
    by (simp_all add: get_token_info_def sample_ledger_def sample_token_def balance_entry_def nested_get_def)
  from spot_debit_accounting [OF d sample_ledger_ok this] d show ?thesis by blast
qed


text \<open>Placing a resting buy order takes the amount out of the balance instead of marking it as reserved, and the
  fill of that order takes its quote amount out of the balance again: the buyer pays twice.\<close>

lemma resting_order_pays_twice:
  assumes "reserve_resting_spot_order tk True order st = ((st1, order'), Inr ())" and "rr_amount order \<noteq> 0" and "rr_is_buy order"
    and "settle_matched_spot_fill ts fill out st1 = ((st2, fill', out'), Inr ())" and "spot_ok st"
    and "fs_spot fill = rr_spot order" and "fp_user (fs_party0 fill) = rr_user order" and "fp_user (fs_party1 fill) \<noteq> rr_user order"
    and "spot_pair (sc_meta st) (rr_spot order) = Some pair" and "si_base_token pair \<noteq> si_quote_token pair"
    and "no_deployers (sc_meta st)"
  shows "sb_total (balance_entry st2 (rr_user order) (si_quote_token pair)) + ls_pay_wei (rr_result order') + fs_px fill * fs_sz fill
    = sb_total (balance_entry st (rr_user order) (si_quote_token pair))"
proof -
  note r = reserve_effect [OF assms(1-3,9,11)]
  have "sb_total (balance_entry st2 (fp_user (fs_party0 fill)) (si_quote_token pair)) + fs_px fill * fs_sz fill
      = sb_total (balance_entry st1 (fp_user (fs_party0 fill)) (si_quote_token pair))"
    by (rule fill_balance [OF assms(4) reserve_ok [OF assms(1,5)]]) (use assms(6-11) r(3) in auto)
  with r(1) assms(7) show ?thesis by simp
qed

lemma resting_order_pays_twice_witness:
  "\<exists>st2. sb_total (balance_entry st2 1 0) + 30 + 30 = sb_total (balance_entry sample_ledger 1 0)"
proof -
  obtain st1 order' st2 fill' out' where r: "reserve_resting_spot_order False True sample_order sample_ledger = ((st1, order'), Inr ())"
    and p: "ls_pay_wei (rr_result order') = 30" and s: "settle_matched_spot_fill 0 sample_fill [] st1 = ((st2, fill', out'), Inr ())"
    by (rule sample_reserve)
  have "sb_total (balance_entry st2 (rr_user sample_order) (si_quote_token \<lparr>si_base_token = 1, si_quote_token = 0\<rparr>))
      + ls_pay_wei (rr_result order') + fs_px sample_fill * fs_sz sample_fill
    = sb_total (balance_entry sample_ledger (rr_user sample_order) (si_quote_token \<lparr>si_base_token = 1, si_quote_token = 0\<rparr>))"
    by (rule resting_order_pays_twice [OF r _ _ s sample_ledger_ok])
      (simp_all add: sample_order_def sample_fill_def sample_ledger_def spot_pair_def no_deployers_def sample_token_def)
  with p show ?thesis by (auto simp: sample_order_def sample_fill_def)
qed

end
