(* ===== verification/Spot_Wei.thy ===== *)
theory Spot_Wei
  imports Spot_Properties
begin

text \<open>
  The rest of \<^verbatim>\<open>src/l1/spot_clearinghouse/types.rs\<close>, the rows of wei balances with the sweep to the
  sentinel account and the normalization of transfers, and \<^verbatim>\<open>spot_clearinghouse.rs\<close>, which reads
  balances and distributes a token to the holders of another in proportion to their balances.
\<close>

section \<open>Rows of wei\<close>

record wei_balance_row =
  wr_total :: nat
  wr_available :: nat
  wr_notional :: nat

definition default_row :: wei_balance_row where
  "default_row = \<lparr>wr_total = 0, wr_available = 0, wr_notional = 0\<rparr>"

definition credit_saturating :: "nat \<Rightarrow> wei_balance_row \<Rightarrow> wei_balance_row" where
  "credit_saturating amount r = r\<lparr>wr_total := saturating_add_u64 (wr_total r) amount, wr_available := saturating_add_u64 (wr_available r) amount\<rparr>"

definition debit_checked_available_saturating :: "nat \<Rightarrow> wei_balance_row \<Rightarrow> wei_balance_row \<times> (spot_error + unit)" where
  "debit_checked_available_saturating amount r = (case checked_sub_u64 (wr_total r) amount of
      None \<Rightarrow> (r, Inl InsufficientBalance)
    | Some t \<Rightarrow> (r\<lparr>wr_total := t, wr_available := saturating_sub_u64 (wr_available r) amount\<rparr>, Inr ()))"

definition debit_and_rescale_notional :: "nat \<Rightarrow> wei_balance_row \<Rightarrow> wei_balance_row \<times> (spot_error + unit)" where
  "debit_and_rescale_notional amount r =
     (case debit_checked_available_saturating amount r of
        (r1, Inl e) \<Rightarrow> (r1, Inl e)
      | (r1, Inr _) \<Rightarrow>
          (if wr_total r = 0 \<or> wr_notional r1 = 0 then (r1\<lparr>wr_notional := 0\<rparr>, Inr ())
           else (r1\<lparr>wr_notional := min (wr_notional r1 * wr_total r1 div wr_total r) u64_max\<rparr>, Inr ())))"

record qtys_wei =
  qw_balances :: "(address, (nat, wei_balance_row) btree) btree"
  qw_user_token_index :: "(address, nat bset) btree"

definition row_entry :: "qtys_wei \<Rightarrow> address \<Rightarrow> nat \<Rightarrow> wei_balance_row" where
  "row_entry q user token = nested_get default_row (qw_balances q) user token"

text \<open>What a caller of \<open>entry_mut\<close> leaves in the row it borrowed.\<close>

definition store_row :: "address \<Rightarrow> nat \<Rightarrow> wei_balance_row \<Rightarrow> qtys_wei \<Rightarrow> qtys_wei" where
  "store_row user token r q = q\<lparr>
     qw_user_token_index := index_put user token (qw_user_token_index q),
     qw_balances := nested_put user token r (qw_balances q)\<rparr>"

definition upsert_user_wei_delta :: "address \<Rightarrow> nat \<Rightarrow> bool \<Rightarrow> nat \<Rightarrow> bool \<Rightarrow> qtys_wei \<Rightarrow> qtys_wei \<times> (spot_error + unit)" where
  "upsert_user_wei_delta user token is_debit amount update_notional q =
     (let entry = row_entry q user token;
          (entry', r) =
            (if is_debit then
               (if update_notional \<and> token \<noteq> USDC_TOKEN then debit_and_rescale_notional amount entry
                else debit_checked_available_saturating amount entry)
             else (credit_saturating amount entry, Inr ()))
      in (store_row user token entry' q, r))"

text \<open>The loop of \<open>sweep_user_asset_balances_to_sentinel\<close> over the users.\<close>

primrec sweep_loop :: "nat \<Rightarrow> address list \<Rightarrow> nat \<Rightarrow> qtys_wei \<Rightarrow> qtys_wei \<times> (spot_error + nat)" where
  "sweep_loop token [] swept q = (q, Inr swept)"
| "sweep_loop token (user # users) swept q =
     (let row = row_entry q user token in
      case checked_add_u64 swept (wr_total row) of
        None \<Rightarrow> (store_row user token row q, Inl ArithmeticOverflow)
      | Some swept' \<Rightarrow>
          sweep_loop token users swept' (store_row user token (row\<lparr>wr_total := 0, wr_available := 0, wr_notional := 0\<rparr>) q))"

definition sweep_user_asset_balances_to_sentinel :: "nat \<Rightarrow> address list \<Rightarrow> qtys_wei \<Rightarrow> qtys_wei \<times> (spot_error + nat)" where
  "sweep_user_asset_balances_to_sentinel token users q =
     (case sweep_loop token users 0 q of
        (q1, Inl e) \<Rightarrow> (q1, Inl e)
      | (q1, Inr swept) \<Rightarrow>
          (case upsert_user_wei_delta SENTINEL_SWEEP_USER token False swept False q1 of
             (q2, Inl e) \<Rightarrow> (q2, Inl e)
           | (q2, Inr _) \<Rightarrow> (q2, Inr swept)))"

section \<open>Normalizing transfers\<close>

record normalized_wei_transfer =
  nt_user :: address
  nt_wei :: nat

primrec checked_sum_u64 :: "nat list \<Rightarrow> nat \<Rightarrow> nat option" where
  "checked_sum_u64 [] running = Some running"
| "checked_sum_u64 (x # xs) running = (case checked_add_u64 running x of None \<Rightarrow> None | Some t \<Rightarrow> checked_sum_u64 xs t)"

text \<open>The loop that takes an excess off the transfers, first come first reduced.\<close>

primrec reduce_transfers :: "normalized_wei_transfer list \<Rightarrow> nat \<Rightarrow> normalized_wei_transfer list \<times> nat" where
  "reduce_transfers [] excess = ([], excess)"
| "reduce_transfers (t # ts) excess =
     (if excess = 0 then (t # ts, 0)
      else let reduction = min (nt_wei t) excess;
               (ts', excess') = reduce_transfers ts (excess - reduction)
           in (t\<lparr>nt_wei := nt_wei t - reduction\<rparr> # ts', excess'))"

definition normalize_wei_transfers ::
  "normalized_wei_transfer list \<Rightarrow> nat \<Rightarrow> normalized_wei_transfer list \<times> (spot_error + unit)" where
  "normalize_wei_transfers transfers target_total =
     (case transfers of
        [] \<Rightarrow> (transfers, Inl NormalizationFailed)
      | t # ts \<Rightarrow> (case checked_sum_u64 (map nt_wei transfers) 0 of
            None \<Rightarrow> (transfers, Inl ArithmeticOverflow)
          | Some running \<Rightarrow>
              if running = 0 then (transfers, Inl NormalizationFailed)
              else if running \<le> target_total then
                (case checked_add_u64 (nt_wei t) (target_total - running) of
                   None \<Rightarrow> (transfers, Inl ArithmeticOverflow)
                 | Some w \<Rightarrow> (t\<lparr>nt_wei := w\<rparr> # ts, Inr ()))
              else (case reduce_transfers transfers (running - target_total) of
                      (transfers', excess) \<Rightarrow> (transfers', if excess = 0 then Inr () else Inl NormalizationFailed))))"

section \<open>Distribution to existing holders\<close>

record existing_token_balance_row =
  er_user :: address
  er_wei :: nat

record existing_token_distribution =
  ed_rows :: "existing_token_balance_row list"
  ed_total_wei :: nat

datatype distribution_error = ZeroTotal | TotalOverflow nat nat | NoUser | FinalOverflow | CouldNotDistribute nat | FinalMismatch nat nat

definition checked_sum_existing_rows :: "existing_token_balance_row list \<Rightarrow> nat option" where
  "checked_sum_existing_rows rows = checked_sum_u64 (map er_wei rows) 0"

primrec reduce_rows :: "f64 \<Rightarrow> existing_token_balance_row list \<Rightarrow> nat \<Rightarrow> existing_token_balance_row list \<times> nat" where
  "reduce_rows factor [] excess = ([], excess)"
| "reduce_rows factor (row # rows) excess =
     (if excess = 0 then (row # rows, 0)
      else let maximum_row_reduction = min (saturating_f64_to_u64 (f64_mul (f64_of_u64 (er_wei row)) factor)) (er_wei row);
               reduction = min maximum_row_reduction excess;
               (rows', excess') = reduce_rows factor rows (excess - reduction)
           in (row\<lparr>er_wei := er_wei row - reduction\<rparr> # rows', excess'))"

text \<open>The final check of a normalized distribution.\<close>

definition final_allocation_check ::
  "existing_token_balance_row list \<Rightarrow> nat \<Rightarrow> distribution_error + existing_token_balance_row list \<times> nat" where
  "final_allocation_check rows target = (case checked_sum_existing_rows rows of
      None \<Rightarrow> Inl FinalOverflow
    | Some final_total \<Rightarrow> if final_total \<noteq> target then Inl (FinalMismatch final_total target) else Inr (rows, final_total))"

text \<open>An empty list of rows, on which the source would panic, is excluded by its caller.\<close>

definition normalize_existing_distribution ::
  "existing_token_balance_row list \<Rightarrow> nat \<Rightarrow> nat \<Rightarrow> f64 \<Rightarrow> distribution_error + existing_token_balance_row list \<times> nat" where
  "normalize_existing_distribution rows current_total target reduction_factor =
     (if current_total < target then
        (case checked_add_u64 (er_wei (hd rows)) (target - current_total) of
           None \<Rightarrow> Inl FinalOverflow
         | Some w \<Rightarrow> Inr ((hd rows)\<lparr>er_wei := w\<rparr> # tl rows, target))
      else if target < current_total then
        (let (rows', excess) =
           (if f64_in_range 0 (101 / 100) reduction_factor then reduce_rows reduction_factor rows (current_total - target)
            else (rows, current_total - target))
         in if excess \<noteq> 0 then Inl (CouldNotDistribute excess) else final_allocation_check rows' target)
      else final_allocation_check rows target)"

text \<open>The loop over the source rows.  \<open>None\<close> is the failed assertion on the proportion.\<close>

primrec distribute_loop ::
  "nat \<Rightarrow> nat \<Rightarrow> nat \<Rightarrow> existing_token_balance_row list \<Rightarrow> existing_token_balance_row list \<Rightarrow> nat \<Rightarrow>
   (distribution_error + existing_token_balance_row list \<times> nat) option" where
  "distribute_loop source_total target minimum [] accepted running = Some (Inr (accepted, running))"
| "distribute_loop source_total target minimum (row # rows) accepted running =
     (let factor = f64_div (f64_of_u64 (er_wei row)) (f64_of_u64 source_total) in
      if \<not> f64_in_range 0 (101 / 100) factor then None
      else let marginal = saturating_f64_to_u64 (f64_mul (f64_of_u64 target) factor) in
        if marginal < minimum then distribute_loop source_total target minimum rows accepted running
        else case checked_add_u64 running marginal of
               None \<Rightarrow> Some (Inl (TotalOverflow running marginal))
             | Some running' \<Rightarrow> distribute_loop source_total target minimum rows (accepted @ [row\<lparr>er_wei := marginal\<rparr>]) running')"

definition distribute_existing_token_balances ::
  "existing_token_balance_row list \<Rightarrow> nat \<Rightarrow> nat \<Rightarrow> f64 \<Rightarrow> (distribution_error + existing_token_distribution) option" where
  "distribute_existing_token_balances rows target minimum reduction_factor =
     (case checked_sum_existing_rows rows of
        None \<Rightarrow> Some (Inl ZeroTotal)
      | Some source_total \<Rightarrow>
          if source_total = 0 then Some (Inl ZeroTotal)
          else case distribute_loop source_total target minimum rows [] 0 of
            None \<Rightarrow> None
          | Some (Inl e) \<Rightarrow> Some (Inl e)
          | Some (Inr (accepted, running)) \<Rightarrow>
              if accepted = [] then Some (Inl NoUser)
              else (case normalize_existing_distribution accepted running target reduction_factor of
                      Inl e \<Rightarrow> Some (Inl e)
                    | Inr (rows', running') \<Rightarrow> Some (Inr \<lparr>ed_rows = rows', ed_total_wei = running'\<rparr>)))"

section \<open>Queries\<close>

definition set_balance :: "address \<Rightarrow> nat \<Rightarrow> spot_token_balance \<Rightarrow> spot_clearinghouse_state \<Rightarrow> spot_clearinghouse_state" where
  "set_balance user token b st = store_balance user token b st"

definition users_with_token :: "spot_clearinghouse_state \<Rightarrow> nat \<Rightarrow> address list" where
  "users_with_token st token = map fst (filter (\<lambda>e. token \<in> set (snd e)) (sc_user_token_index st))"

definition existing_token_rows_for_users :: "spot_clearinghouse_state \<Rightarrow> nat \<Rightarrow> address list \<Rightarrow> existing_token_balance_row list" where
  "existing_token_rows_for_users st token users =
     map (\<lambda>u. \<lparr>er_user = u, er_wei = sb_total (balance_entry st u token)\<rparr>)
       (filter (\<lambda>u. sb_total (balance_entry st u token) \<noteq> 0) users)"

definition build_user_balance_index :: "(address, (nat, spot_token_balance) btree) btree \<Rightarrow> (address, nat bset) btree" where
  "build_user_balance_index balances =
     map (\<lambda>e. (fst e, map fst (snd e))) (filter (\<lambda>e. snd e \<noteq> []) balances)"

section \<open>Sums\<close>

lemma checked_sum_exact:
  "acc \<le> u64_max \<Longrightarrow> checked_sum_u64 xs acc = (if acc + sum_list xs \<le> u64_max then Some (acc + sum_list xs) else None)"
proof (induction xs arbitrary: acc)
  case (Cons x xs)
  show ?case
  proof (cases "acc + x \<le> u64_max")
    case True
    with Cons.IH [OF True] show ?thesis by (simp add: checked_add_u64_def add.assoc)
  next
    case False
    then show ?thesis by (auto simp: checked_add_u64_def)
  qed
qed simp

lemma reduce_transfers_sum:
  "reduce_transfers ts excess = (ts', left) \<Longrightarrow>
    sum_list (map nt_wei ts') + excess = sum_list (map nt_wei ts) + left \<and> left = excess - sum_list (map nt_wei ts)
    \<and> map nt_user ts' = map nt_user ts"
proof (induction ts arbitrary: excess ts' left)
  case (Cons t ts)
  show ?case
  proof (cases "excess = 0")
    case False
    obtain us l where r: "reduce_transfers ts (excess - min (nt_wei t) excess) = (us, l)" by fastforce
    with Cons.prems False have eq: "ts' = t\<lparr>nt_wei := nt_wei t - min (nt_wei t) excess\<rparr> # us" "left = l" by (auto simp: Let_def)
    from Cons.IH [OF r] show ?thesis by (auto simp: eq min_def split: if_splits)
  qed (use Cons.prems in auto)
qed auto

lemma normalize_exact:
  assumes "target \<le> u64_max"
  shows "normalize_wei_transfers ts target = (ts', r) \<Longrightarrow>
    (r = Inr () \<longleftrightarrow> 0 < sum_list (map nt_wei ts) \<and> sum_list (map nt_wei ts) \<le> u64_max)
    \<and> (r = Inr () \<longrightarrow> sum_list (map nt_wei ts') = target \<and> map nt_user ts' = map nt_user ts)
    \<and> (r \<noteq> Inr () \<longrightarrow> ts' = ts)"
proof (cases ts)
  case (Cons t us)
  assume n: "normalize_wei_transfers ts target = (ts', r)"
  define S where "S = sum_list (map nt_wei ts)"
  have t: "nt_wei t + sum_list (map nt_wei us) = S" by (simp add: S_def Cons)
  have c: "checked_sum_u64 (map nt_wei (t # us)) 0 = (if S \<le> u64_max then Some S else None)"
    using checked_sum_exact [of 0 "map nt_wei ts"] by (simp add: S_def Cons)
  note n' = n [unfolded normalize_wei_transfers_def Cons list.case c]
  consider "u64_max < S" | "S = 0" | "S \<le> u64_max" "S \<noteq> 0" "S \<le> target" | "S \<le> u64_max" "target < S" by linarith
  then show ?thesis unfolding S_def [symmetric]
  proof cases
    case 3
    then have "checked_add_u64 (nt_wei t) (target - S) = Some (nt_wei t + (target - S))"
      using assms t by (simp add: checked_add_u64_def)
    with 3 n' have "r = Inr ()" "ts' = t\<lparr>nt_wei := nt_wei t + (target - S)\<rparr> # us" by auto
    with 3 t show "(r = Inr () \<longleftrightarrow> 0 < S \<and> S \<le> u64_max)
        \<and> (r = Inr () \<longrightarrow> sum_list (map nt_wei ts') = target \<and> map nt_user ts' = map nt_user ts) \<and> (r \<noteq> Inr () \<longrightarrow> ts' = ts)"
      by (simp add: Cons)
  next
    case 4
    obtain us' l where red: "reduce_transfers (t # us) (S - target) = (us', l)" by fastforce
    with reduce_transfers_sum [OF red] 4 t have "l = 0" "sum_list (map nt_wei us') = target" "map nt_user us' = map nt_user ts"
      by (auto simp: Cons)
    with 4 n' red show "(r = Inr () \<longleftrightarrow> 0 < S \<and> S \<le> u64_max)
        \<and> (r = Inr () \<longrightarrow> sum_list (map nt_wei ts') = target \<and> map nt_user ts' = map nt_user ts) \<and> (r \<noteq> Inr () \<longrightarrow> ts' = ts)"
      by (auto simp del: reduce_transfers.simps)
  qed (use n' in \<open>auto simp: Cons\<close>)
qed (auto simp: normalize_wei_transfers_def)

section \<open>The sweep\<close>

definition wei_wf :: "qtys_wei \<Rightarrow> bool" where
  "wei_wf q \<longleftrightarrow> nested_wf (qw_balances q)"

definition wei_supply :: "qtys_wei \<Rightarrow> nat \<Rightarrow> nat" where
  "wei_supply q token = nested_sum wr_total (qw_balances q) token"

lemma default_row_total [simp]: "wr_total default_row = 0"
  by (simp add: default_row_def)

interpretation wei: token_ledger row_entry store_row wei_wf wei_supply wr_total default_row
proof
  show "wei_supply (store_row u t b q) t' + (if t' = t then wr_total (row_entry q u t) else 0)
      = wei_supply q t' + (if t' = t then wr_total b else 0)" if "wei_wf q" for q u t b t'
    using that nested_sum_put [of "qw_balances q" wr_total default_row u t b t']
    unfolding wei_wf_def wei_supply_def row_entry_def store_row_def by simp
qed (simp_all add: row_entry_def store_row_def wei_wf_def)

lemma sweep_loop_effect:
  "wei_wf q \<Longrightarrow> swept + wei_supply q t \<le> u64_max \<Longrightarrow>
    \<exists>q' swept'. sweep_loop t users swept q = (q', Inr swept') \<and> wei_wf q'
      \<and> wei_supply q' t + swept' = wei_supply q t + swept
      \<and> (\<forall>x. x \<noteq> t \<longrightarrow> wei_supply q' x = wei_supply q x)
      \<and> (\<forall>u. wr_total (row_entry q' u t) = (if u \<in> set users then 0 else wr_total (row_entry q u t)))"
proof (induction users arbitrary: swept q)
  case (Cons u users)
  define row where "row = row_entry q u t"
  define q1 where "q1 = store_row u t (row\<lparr>wr_total := 0, wr_available := 0, wr_notional := 0\<rparr>) q"
  have "wr_total row \<le> wei_supply q t" using wei.bal_le_supply [OF Cons.prems(1)] by (simp add: row_def)
  then have add: "checked_add_u64 swept (wr_total row) = Some (swept + wr_total row)"
    using Cons.prems(2) by (simp add: checked_add_u64_def)
  have q1: "wei_supply q1 x + (if x = t then wr_total row else 0) = wei_supply q x" for x
    unfolding q1_def row_def by (rule wei.supply_debit [OF Cons.prems(1)]) simp
  have wf1: "wei_wf q1" unfolding q1_def by (rule wei.wf_put [OF Cons.prems(1)])
  have bal1: "wr_total (row_entry q1 v t) = (if v = u then 0 else wr_total (row_entry q v t))" for v
    by (simp add: q1_def wei.bal_put)
  have "(swept + wr_total row) + wei_supply q1 t \<le> u64_max" using q1 [of t] Cons.prems(2) by simp
  from Cons.IH [OF wf1 this] obtain q' swept' where
    "sweep_loop t users (swept + wr_total row) q1 = (q', Inr swept')" "wei_wf q'"
    "wei_supply q' t + swept' = wei_supply q1 t + (swept + wr_total row)"
    "\<forall>x. x \<noteq> t \<longrightarrow> wei_supply q' x = wei_supply q1 x"
    "\<forall>v. wr_total (row_entry q' v t) = (if v \<in> set users then 0 else wr_total (row_entry q1 v t))" by blast
  moreover have "wei_supply q1 t + wr_total row = wei_supply q t" "x \<noteq> t \<Longrightarrow> wei_supply q1 x = wei_supply q x" for x
    using q1 [of t] q1 [of x] by simp_all
  ultimately show ?case using add bal1
    by (intro exI [of _ q'] exI [of _ swept']) (auto simp: row_def [symmetric] q1_def [symmetric] Let_def)
qed simp

lemma sweep_effect:
  assumes "wei_wf q" and "wei_supply q t \<le> u64_max"
  shows "\<exists>q' swept. sweep_user_asset_balances_to_sentinel t users q = (q', Inr swept)
    \<and> (\<forall>x. wei_supply q' x = wei_supply q x)
    \<and> (\<forall>u \<in> set users. u \<noteq> SENTINEL_SWEEP_USER \<longrightarrow> wr_total (row_entry q' u t) = 0)"
proof -
  obtain q1 swept where l: "sweep_loop t users 0 q = (q1, Inr swept)" "wei_wf q1" "wei_supply q1 t + swept = wei_supply q t"
    "\<forall>x. x \<noteq> t \<longrightarrow> wei_supply q1 x = wei_supply q x"
    "\<forall>u. wr_total (row_entry q1 u t) = (if u \<in> set users then 0 else wr_total (row_entry q u t))"
    using sweep_loop_effect [of q 0 t users] assms by auto
  let ?s = SENTINEL_SWEEP_USER
  let ?row = "credit_saturating swept (row_entry q1 ?s t)"
  have "wr_total (row_entry q1 ?s t) + swept \<le> u64_max" using wei.bal_le_supply [OF l(2), of ?s t] l(3) assms(2) by simp
  then have "wr_total ?row = wr_total (row_entry q1 ?s t) + swept" by (simp add: credit_saturating_def saturating_add_u64_def)
  from wei.supply_credit [OF l(2) this]
  have sup: "wei_supply (store_row ?s t ?row q1) x = wei_supply q x" for x using l(3,4) by simp
  have "sweep_user_asset_balances_to_sentinel t users q = (store_row ?s t ?row q1, Inr swept)"
    by (simp add: sweep_user_asset_balances_to_sentinel_def l(1) upsert_user_wei_delta_def Let_def)
  moreover have "\<forall>u \<in> set users. u \<noteq> ?s \<longrightarrow> wr_total (row_entry (store_row ?s t ?row q1) u t) = 0"
    using l(5) by (simp add: wei.bal_put)
  ultimately show ?thesis using sup by blast
qed

section \<open>The distribution\<close>

lemma proportion_in_range:
  assumes "w \<le> S" and "S \<le> u64_max" and "0 < S"
  shows "f64_in_range 0 (101 / 100) (f64_div (f64_of_u64 w) (f64_of_u64 S))"
proof -
  obtain a where a: "f64_of_u64 w = Fin a" "f64_near (of_nat w) a" "0 \<le> a"
    using f64_of_u64_near [of w] assms(1,2) by (metis order_trans)
  obtain b where b: "f64_of_u64 S = Fin b" "f64_near (of_nat S) b" using f64_of_u64_near [OF assms(2)] by metis
  have S: "1 \<le> (of_nat S :: rat)" using assms(3) by (simp add: Suc_le_eq)
  have "(of_nat S :: rat) \<le> of_nat u64_max" using assms(2) by simp
  then have S64: "(of_nat S :: rat) \<le> 2 ^ 64" by (rule order_trans) (simp add: u64_max_def)
  have w: "(of_nat w :: rat) \<le> of_nat S" using assms(1) by simp
  have b': "of_nat S * (1 - 1 / 2 ^ 53) \<le> b" "b \<le> 2 * of_nat S" using b(2) S by (simp_all add: f64_near_def)
  have a': "a \<le> of_nat S * (1 + 1 / 2 ^ 53)" using a(2) w by (simp add: f64_near_def)
  have pos: "0 < b" using b'(1) S by simp
  have "a \<le> b * (1 + 1 / 2 ^ 50)" using a' b'(1) S by simp
  then have up: "a / b \<le> 1 + 1 / 2 ^ 50" using pos by (simp add: field_simps)
  have low: "a / b = 0 \<or> 1 / 2 ^ 1022 \<le> a / b"
  proof (cases "w = 0")
    case True
    with a(2) show ?thesis by (simp add: f64_near_def)
  next
    case False
    then have "1 \<le> (of_nat w :: rat)" by (simp add: Suc_le_eq)
    then have "1 / 2 \<le> a" using a(2) by (simp add: f64_near_def)
    moreover have "b \<le> 2 ^ 65" using b'(2) S64 by simp
    ultimately have "(1 / 2) / 2 ^ 65 \<le> a / b" using pos by (intro frac_le) simp_all
    moreover have "1 / 2 ^ 1022 \<le> ((1 / 2) / 2 ^ 65 :: rat)" by simp
    ultimately show ?thesis by linarith
  qed
  have "a / b \<le> 2 ^ 1000" using up by (rule order_trans) simp
  then obtain r where r: "f64_round (a / b) = Fin r" "f64_near (a / b) r" "0 \<le> r" using f64_round_near [OF low] by blast
  have "r \<le> (a / b) * (1 + 1 / 2 ^ 53)" using r(2) by (simp add: f64_near_def)
  also have "\<dots> \<le> (1 + 1 / 2 ^ 50) * (1 + 1 / 2 ^ 53)" using up by (rule mult_right_mono) simp
  also have "\<dots> \<le> 4548635623644201 / 2 ^ 52" by simp
  finally have "r \<le> 4548635623644201 / 2 ^ 52" .
  with r(1,3) pos show ?thesis by (simp add: a(1) b(1) share_range)
qed

lemma distribute_loop_sum:
  assumes "\<forall>row \<in> set rows. er_wei row \<le> S" and "S \<le> u64_max" and "0 < S"
  shows "acc = sum_list (map er_wei accepted) \<Longrightarrow> \<exists>res. distribute_loop S target minimum rows accepted acc = Some res
    \<and> (\<forall>rows' acc'. res = Inr (rows', acc') \<longrightarrow> acc' = sum_list (map er_wei rows'))"
  using assms(1)
proof (induction rows arbitrary: accepted acc)
  case (Cons row rows)
  have "f64_in_range 0 (101 / 100) (f64_div (f64_of_u64 (er_wei row)) (f64_of_u64 S))"
    by (rule proportion_in_range) (use Cons.prems assms in auto)
  then have eq: "distribute_loop S target minimum (row # rows) accepted acc =
      (let marginal = saturating_f64_to_u64 (f64_mul (f64_of_u64 target) (f64_div (f64_of_u64 (er_wei row)) (f64_of_u64 S))) in
       if marginal < minimum then distribute_loop S target minimum rows accepted acc
       else case checked_add_u64 acc marginal of
              None \<Rightarrow> Some (Inl (TotalOverflow acc marginal))
            | Some acc' \<Rightarrow> distribute_loop S target minimum rows (accepted @ [row\<lparr>er_wei := marginal\<rparr>]) acc')"
    by (simp add: Let_def)
  have rest: "\<forall>row \<in> set rows. er_wei row \<le> S" using Cons.prems by simp
  show ?case unfolding eq Let_def
    by (auto simp: checked_add_u64_def Cons.prems(1) split: option.split intro!: Cons.IH [OF _ rest])
qed simp

lemma reduce_rows_sum:
  "reduce_rows factor rows excess = (rows', left) \<Longrightarrow> sum_list (map er_wei rows') + excess = sum_list (map er_wei rows) + left"
proof (induction rows arbitrary: excess rows' left)
  case (Cons row rows)
  show ?case
  proof (cases "excess = 0")
    case False
    define red where "red = min (min (saturating_f64_to_u64 (f64_mul (f64_of_u64 (er_wei row)) factor)) (er_wei row)) excess"
    obtain us l where r: "reduce_rows factor rows (excess - red) = (us, l)" by fastforce
    with Cons.prems False have eq: "rows' = row\<lparr>er_wei := er_wei row - red\<rparr> # us" "left = l"
      by (auto simp: Let_def red_def)
    have "red \<le> er_wei row" "red \<le> excess" by (simp_all add: red_def)
    with Cons.IH [OF r] show ?thesis by (simp add: eq)
  qed (use Cons.prems in auto)
qed auto

lemma normalize_distribution_sum:
  assumes "normalize_existing_distribution rows acc target factor = Inr (rows', acc')" and "rows \<noteq> []"
    and "acc = sum_list (map er_wei rows)"
  shows "acc' = target \<and> sum_list (map er_wei rows') = target"
proof -
  have final: "running = target \<and> sum_list (map er_wei rs') = target" if "final_allocation_check rs target = Inr (rs', running)" for rs rs' running
    using that checked_sum_exact [of 0 "map er_wei rs"]
    by (auto simp: final_allocation_check_def checked_sum_existing_rows_def split: option.splits if_splits)
  from assms show ?thesis
    by (cases rows) (auto simp: normalize_existing_distribution_def checked_add_u64_def Let_def final split: if_splits option.splits prod.splits)
qed

lemma distribution_effect:
  "\<exists>res. distribute_existing_token_balances rows target minimum factor = Some res
    \<and> (\<forall>d. res = Inr d \<longrightarrow> ed_total_wei d = target \<and> sum_list (map er_wei (ed_rows d)) = target)"
proof (cases "checked_sum_existing_rows rows")
  case None
  then show ?thesis by (simp add: distribute_existing_token_balances_def)
next
  case (Some S)
  then have S: "S = sum_list (map er_wei rows)" "S \<le> u64_max"
    using checked_sum_exact [of 0 "map er_wei rows"] by (auto simp: checked_sum_existing_rows_def split: if_splits)
  show ?thesis
  proof (cases "S = 0")
    case True
    with Some show ?thesis by (simp add: distribute_existing_token_balances_def)
  next
    case False
    have le: "\<forall>row \<in> set rows. er_wei row \<le> S" by (auto simp: S(1) intro: member_le_sum_list)
    obtain res where res: "distribute_loop S target minimum rows [] 0 = Some res"
      "\<forall>rows' acc'. res = Inr (rows', acc') \<longrightarrow> acc' = sum_list (map er_wei rows')"
      using distribute_loop_sum [OF le S(2), of 0 "[]" target minimum] False by auto
    note start = distribute_existing_token_balances_def [of rows target minimum factor] Some res(1) False
    show ?thesis
    proof (cases res)
      case (Inl e)
      with start show ?thesis by simp
    next
      case (Inr p)
      obtain accepted acc where p: "p = (accepted, acc)" by (cases p)
      show ?thesis
      proof (cases "accepted = []")
        case True
        with start Inr p show ?thesis by simp
      next
        case ne: False
        have acc: "acc = sum_list (map er_wei accepted)" using res(2) Inr p by blast
        show ?thesis
          using start Inr p ne normalize_distribution_sum [OF _ ne acc, of target factor]
          by (cases "normalize_existing_distribution accepted acc target factor") auto
      qed
    qed
  qed
qed

section \<open>Properties\<close>

text \<open>C31. Distributing a token to the holders of another never trips the assertion on the proportions, whatever the
  balances (the quotient of two rounded \<open>u64\<close> stays below 1.01), and whenever it succeeds the allocations add up to
  exactly the amount to distribute.\<close>

theorem distribution_exact:
  "\<exists>res. distribute_existing_token_balances rows target minimum factor = Some res
    \<and> (\<forall>d. res = Inr d \<longrightarrow> ed_total_wei d = target \<and> sum_list (map er_wei (ed_rows d)) = target)"
  by (rule distribution_effect)

definition sample_rows :: "existing_token_balance_row list" where
  "sample_rows = [\<lparr>er_user = 1, er_wei = 1\<rparr>, \<lparr>er_user = 2, er_wei = 1\<rparr>]"

lemma sample_distribution:
  "distribute_existing_token_balances sample_rows 7 0 (Fin 1)
    = Some (Inr \<lparr>ed_rows = [\<lparr>er_user = 1, er_wei = 4\<rparr>, \<lparr>er_user = 2, er_wei = 3\<rparr>], ed_total_wei = 7\<rparr>)"
proof -
  have ints: "f64_of_u64 1 = Fin 1" "f64_of_u64 2 = Fin 2" "f64_of_u64 7 = Fin 7"
    using f64_of_u64_exact [of 1] f64_of_u64_exact [of 2] f64_of_u64_exact [of 7] by simp_all
  have "exponent (1 / 2) = - 1" by (simp add: exponent_def ilog2.simps)
  then have half: "f64_round (1 / 2) = Fin (1 / 2)"
    by (simp add: f64_round_def round_pos_def ulp_def power_int_minus round_even_def Let_def)
  have "exponent (7 / 2) = 1" by (simp add: exponent_def ilog2.simps)
  then have "f64_round (7 / 2) = Fin (7 / 2)"
    by (simp add: f64_round_def round_pos_def ulp_def power_int_minus round_even_def Let_def)
  then have three: "saturating_f64_to_u64 (f64_round (7 / 2)) = 3"
    by (simp add: saturating_f64_to_u64_def f64_is_finite_def f64_u64_max)
  have sum: "checked_sum_existing_rows sample_rows = Some 2"
    by (simp add: checked_sum_existing_rows_def sample_rows_def checked_add_u64_def u64_max_def)
  have "distribute_loop 2 7 0 sample_rows [] 0 = Some (Inr ([\<lparr>er_user = 1, er_wei = 3\<rparr>, \<lparr>er_user = 2, er_wei = 3\<rparr>], 6))"
    using ints half three by (simp add: sample_rows_def share_range checked_add_u64_def u64_max_def)
  with sum show ?thesis
    by (simp add: distribute_existing_token_balances_def normalize_existing_distribution_def checked_add_u64_def u64_max_def)
qed

theorem distribution_exact_witness:
  "\<exists>d. distribute_existing_token_balances sample_rows 7 0 (Fin 1) = Some (Inr d) \<and> sum_list (map er_wei (ed_rows d)) = 7"
  using distribution_exact [of sample_rows 7 0 "Fin 1"] sample_distribution by simp

text \<open>The sweep of a token to the sentinel account succeeds whenever the supply of the token fits 64 bits, leaves every
  swept user without the token, and conserves the supply of every token.\<close>

lemma sweep_conserves:
  assumes "wei_wf q" and "wei_supply q t \<le> u64_max"
  shows "\<exists>q' swept. sweep_user_asset_balances_to_sentinel t users q = (q', Inr swept)
    \<and> (\<forall>x. wei_supply q' x = wei_supply q x)
    \<and> (\<forall>u \<in> set users. u \<noteq> SENTINEL_SWEEP_USER \<longrightarrow> wr_total (row_entry q' u t) = 0)"
  by (rule sweep_effect [OF assms])

definition sample_wei :: qtys_wei where
  "sample_wei = \<lparr>qw_balances = [(1, [(3, \<lparr>wr_total = 5, wr_available = 5, wr_notional = 0\<rparr>)])], qw_user_token_index = [(1, [3])]\<rparr>"

lemma sweep_conserves_witness:
  "\<exists>q' swept. sweep_user_asset_balances_to_sentinel 3 [1] sample_wei = (q', Inr swept)
    \<and> wei_supply q' 3 = 5 \<and> wr_total (row_entry q' 1 3) = 0"
proof -
  have "wei_wf sample_wei" "wei_supply sample_wei 3 = 5"
    by (simp_all add: wei_wf_def nested_wf_def bt_wf_Cons sample_wei_def wei_supply_def nested_sum_def bt_sum_def)
  moreover have "(1 :: address) \<noteq> SENTINEL_SWEEP_USER" by (simp add: SENTINEL_SWEEP_USER_def)
  ultimately show ?thesis using sweep_conserves [of sample_wei 3 "[1]"] by (fastforce simp: u64_max_def)
qed

end
