(* ===== verification/Spot_Outcome.thy ===== *)
theory Spot_Outcome
  imports Spot_Properties
begin

text \<open>
  The outcome markets of \<^verbatim>\<open>src/l1/spot_clearinghouse/impl_outcome.rs\<close>: batches of generated orders with their
  maker legs, and the settlement of a market at a price, which splits its amounts in floating point,
  credits the claims of the users and draws on the residual balance.  Failures are status bytes; the
  state left behind by a failed operation is part of the result.
\<close>

section \<open>Data\<close>

definition INTERNAL_OK :: nat where "INTERNAL_OK = 39"

definition ERR_MISSING_OUTCOME_MARKET :: nat where "ERR_MISSING_OUTCOME_MARKET = 4"

definition ERR_INVALID_TOKEN :: nat where "ERR_INVALID_TOKEN = 0"

definition ERR_INCONSISTENT_PAIR :: nat where "ERR_INCONSISTENT_PAIR = 15"

definition ERR_INVALID_SETTLEMENT_SPLIT :: nat where "ERR_INVALID_SETTLEMENT_SPLIT = 18"

definition ERR_INSUFFICIENT_RESIDUAL_BALANCE :: nat where "ERR_INSUFFICIENT_RESIDUAL_BALANCE = 20"

definition ERR_ARITHMETIC :: nat where "ERR_ARITHMETIC = 21"

definition MAX_SAFE_GENERATED_PRODUCT :: nat where "MAX_SAFE_GENERATED_PRODUCT = 0x7ffffffffffffffe"

definition GENERATED_ROW_SIDE_TAG :: nat where "GENERATED_ROW_SIDE_TAG = 50"

definition GENERATED_ORDER_ROW_TAG :: nat where "GENERATED_ORDER_ROW_TAG = 10"

datatype spot_side = Bid | Ask

definition spot_side_opposite :: "spot_side \<Rightarrow> spot_side" where
  "spot_side_opposite side = (case side of Bid \<Rightarrow> Ask | Ask \<Rightarrow> Bid)"

record outcome_balance =
  ob_total :: nat
  ob_hold :: nat

definition outcome_default :: outcome_balance where
  "outcome_default = \<lparr>ob_total = 0, ob_hold = 0\<rparr>"

definition outcome_available :: "outcome_balance \<Rightarrow> nat" where
  "outcome_available b = saturating_sub_u64 (ob_total b) (ob_hold b)"

definition debit_available :: "nat \<Rightarrow> outcome_balance \<Rightarrow> outcome_balance \<times> (nat + nat)" where
  "debit_available amount b =
     (let debited = min amount (outcome_available b) in
      case checked_add_u64 (ob_hold b) debited of
        None \<Rightarrow> (b, Inl ERR_ARITHMETIC)
      | Some hold \<Rightarrow> (case checked_sub_u64 (ob_total b) debited of
            None \<Rightarrow> (b\<lparr>ob_hold := hold\<rparr>, Inl ERR_INSUFFICIENT_RESIDUAL_BALANCE)
          | Some t \<Rightarrow> (b\<lparr>ob_total := t, ob_hold := saturating_sub_u64 hold debited\<rparr>, Inr debited)))"

definition consume_hold :: "nat \<Rightarrow> outcome_balance \<Rightarrow> outcome_balance \<times> (nat + unit)" where
  "consume_hold amount b = (case checked_sub_u64 (ob_total b) amount of
      None \<Rightarrow> (b, Inl ERR_INSUFFICIENT_RESIDUAL_BALANCE)
    | Some t \<Rightarrow> (b\<lparr>ob_total := t, ob_hold := saturating_sub_u64 (ob_hold b) amount\<rparr>, Inr ()))"

definition outcome_credit :: "nat \<Rightarrow> outcome_balance \<Rightarrow> outcome_balance \<times> (nat + unit)" where
  "outcome_credit amount b = (case checked_add_u64 (ob_total b) amount of
      None \<Rightarrow> (b, Inl ERR_ARITHMETIC)
    | Some t \<Rightarrow> (b\<lparr>ob_total := t\<rparr>, Inr ()))"

record outcome_token_info =
  ot_exists :: bool
  ot_deployer :: "address option"
  ot_deployer_trading_fee_share_scaled :: nat
  ot_aligned_quote_active :: bool

definition outcome_deployer_share :: "outcome_token_info \<Rightarrow> nat \<Rightarrow> nat" where
  "outcome_deployer_share info amount =
     (if ot_deployer info = None \<or> \<not> ot_aligned_quote_active info then 0
      else let factor = f64_div (f64_of_u64 (ot_deployer_trading_fee_share_scaled info)) (f64_round 100000) in
        if \<not> f64_in_range 0 (101 / 100) factor then 0
        else saturating_f64_to_u64 (f64_mul (f64_of_u64 amount) factor))"

record spot_pair_info =
  pi_base_token :: nat
  pi_quote_token :: nat

datatype outcome_market_kind = Single | Paired

record spot_outcome_market =
  om_spot :: nat
  om_kind :: outcome_market_kind
  om_token_a :: nat
  om_token_b :: nat
  om_settlement_token :: nat
  om_residual_token :: nat
  om_total_notional :: nat
  om_converted_base_amount :: nat

record settlement_split =
  ss_win :: nat
  ss_lose :: nat

record settlement_claim =
  cl_user :: address
  cl_token :: nat
  cl_amount :: nat
  cl_side :: spot_side
  cl_oid :: nat
  cl_flags :: nat

record outcome_maker_leg =
  ml_user :: address
  ml_token :: nat
  ml_amount :: nat
  ml_side :: spot_side
  ml_oid :: nat

record generated_spot_outcome_order =
  go_row_tag :: nat
  go_user :: address
  go_spot :: nat
  go_side :: spot_side
  go_oid :: nat
  go_px :: nat
  go_sz :: nat
  go_debit_token :: nat
  go_debit_wei :: nat
  go_credit_token :: nat
  go_credit_wei :: nat
  go_maker_legs :: "outcome_maker_leg list"

record spot_settlement_outcome =
  so_row_tag :: nat
  so_market_id :: nat
  so_user :: address
  so_token :: nat
  so_amount :: nat
  so_scaled_amount :: nat
  so_side :: spot_side
  so_flags :: nat

record spot_ledger_row =
  lr_user :: address
  lr_debit_token :: nat
  lr_debit_wei :: nat
  lr_credit_token :: nat
  lr_credit_wei :: nat
  lr_row_tag :: nat
  lr_status :: nat

record spot_outcome_state =
  os_spot_pairs :: "(nat, spot_pair_info) btree"
  os_tokens :: "(nat, outcome_token_info) btree"
  os_outcome_markets :: "(nat, spot_outcome_market) btree"
  os_user_balances :: "(address, (nat, outcome_balance) btree) btree"
  os_user_token_index :: "(address, nat bset) btree"
  os_token_supply_deltas :: "(nat, nat) btree"
  os_settlement_claims :: "(nat, settlement_claim list) btree"
  os_residual_balances :: "(nat, nat) btree"
  os_generated_orders :: "generated_spot_outcome_order list"
  os_settlement_rows :: "spot_settlement_outcome list"
  os_ledger_rows :: "spot_ledger_row list"

section \<open>Balances\<close>

definition token_is_active :: "spot_outcome_state \<Rightarrow> nat \<Rightarrow> bool" where
  "token_is_active st token = (case map_of (os_tokens st) token of Some info \<Rightarrow> ot_exists info | None \<Rightarrow> False)"

definition outcome_entry :: "spot_outcome_state \<Rightarrow> address \<Rightarrow> nat \<Rightarrow> outcome_balance" where
  "outcome_entry st user token = nested_get outcome_default (os_user_balances st) user token"

definition store_outcome :: "address \<Rightarrow> nat \<Rightarrow> outcome_balance \<Rightarrow> spot_outcome_state \<Rightarrow> spot_outcome_state" where
  "store_outcome user token b st = st\<lparr>
     os_user_token_index := index_put user token (os_user_token_index st),
     os_user_balances := nested_put user token b (os_user_balances st)\<rparr>"

definition outcome_credit_user_token :: "address \<Rightarrow> nat \<Rightarrow> nat \<Rightarrow> spot_outcome_state \<Rightarrow> spot_outcome_state \<times> (nat + unit)" where
  "outcome_credit_user_token user token amount st =
     (if amount = 0 then (st\<lparr>os_user_token_index := index_put user token (os_user_token_index st)\<rparr>, Inr ())
      else case outcome_credit amount (outcome_entry st user token) of (b, r) \<Rightarrow> (store_outcome user token b st, r))"

definition outcome_credit_deployer_share :: "nat \<Rightarrow> nat \<Rightarrow> spot_outcome_state \<Rightarrow> spot_outcome_state \<times> (nat + nat)" where
  "outcome_credit_deployer_share token amount st =
     (case map_of (os_tokens st) token of
        None \<Rightarrow> (st, Inl ERR_INVALID_TOKEN)
      | Some info \<Rightarrow>
          (let credit = outcome_deployer_share info amount in
           if credit = 0 then (st, Inr 0)
           else case ot_deployer info of
                  None \<Rightarrow> (st, Inr credit)
                | Some deployer \<Rightarrow>
                    (case outcome_credit credit (outcome_entry st deployer token) of
                       (b, Inl e) \<Rightarrow> (store_outcome deployer token b st, Inl e)
                     | (b, Inr _) \<Rightarrow> (store_outcome deployer token b st, Inr credit))))"

definition add_supply_delta :: "nat \<Rightarrow> nat \<Rightarrow> spot_outcome_state \<Rightarrow> spot_outcome_state \<times> (nat + unit)" where
  "add_supply_delta token amount st =
     (let entry = entry_or 0 (os_token_supply_deltas st) token in
      case checked_add_u64 entry amount of
        None \<Rightarrow> (st\<lparr>os_token_supply_deltas := bt_insert token entry (os_token_supply_deltas st)\<rparr>, Inl ERR_ARITHMETIC)
      | Some v \<Rightarrow> (st\<lparr>os_token_supply_deltas := bt_insert token v (os_token_supply_deltas st)\<rparr>, Inr ()))"

definition outcome_debit_user_spot_balance ::
  "address \<Rightarrow> nat \<Rightarrow> nat \<Rightarrow> spot_outcome_state \<Rightarrow> spot_outcome_state \<times> (nat + nat)" where
  "outcome_debit_user_spot_balance user token requested_wei st =
     (case debit_available requested_wei (outcome_entry st user token) of
        (b, Inl e) \<Rightarrow> (store_outcome user token b st, Inl e)
      | (b, Inr debited) \<Rightarrow>
          (case outcome_credit_deployer_share token debited (store_outcome user token b st) of
             (st1, Inl e) \<Rightarrow> (st1, Inl e)
           | (st1, Inr deployer_credit) \<Rightarrow>
               (case add_supply_delta token (saturating_sub_u64 debited deployer_credit) st1 of
                  (st2, Inl e) \<Rightarrow> (st2, Inl e)
                | (st2, Inr _) \<Rightarrow> (st2, Inr debited))))"

section \<open>Batches of generated orders\<close>

definition outcome_tokens_match_pair :: "spot_outcome_state \<Rightarrow> spot_outcome_market \<Rightarrow> bool" where
  "outcome_tokens_match_pair st market = (case map_of (os_spot_pairs st) (om_spot market) of
      None \<Rightarrow> False
    | Some pair \<Rightarrow>
        (pi_base_token pair = om_token_a market \<and> pi_quote_token pair = om_token_b market) \<or>
        (pi_base_token pair = om_token_b market \<and> pi_quote_token pair = om_token_a market))"

definition safe_generated_product :: "nat \<Rightarrow> nat \<Rightarrow> bool" where
  "safe_generated_product sz px \<longleftrightarrow> min (sz * px) (2 ^ 128 - 1) \<le> MAX_SAFE_GENERATED_PRODUCT"

definition consume_maker_leg ::
  "generated_spot_outcome_order \<Rightarrow> outcome_maker_leg \<Rightarrow> spot_outcome_state \<Rightarrow> spot_outcome_state \<times> (nat + unit)" where
  "consume_maker_leg order leg st =
     (case consume_hold (ml_amount leg) (outcome_entry st (ml_user leg) (ml_token leg)) of
        (b, Inl e) \<Rightarrow> (store_outcome (ml_user leg) (ml_token leg) b st, Inl e)
      | (b, Inr _) \<Rightarrow>
          (case outcome_credit_user_token (go_user order) (go_credit_token order) (go_credit_wei order)
                  (store_outcome (ml_user leg) (ml_token leg) b st) of
             (st1, Inl e) \<Rightarrow> (st1, Inl e)
           | (st1, Inr _) \<Rightarrow>
               (st1\<lparr>os_ledger_rows := os_ledger_rows st1 @
                  [\<lparr>lr_user = ml_user leg, lr_debit_token = ml_token leg, lr_debit_wei = ml_amount leg,
                    lr_credit_token = go_credit_token order, lr_credit_wei = go_credit_wei order,
                    lr_row_tag = GENERATED_ORDER_ROW_TAG, lr_status = INTERNAL_OK\<rparr>]\<rparr>, Inr ())))"

primrec apply_maker_legs ::
  "generated_spot_outcome_order \<Rightarrow> outcome_maker_leg list \<Rightarrow> spot_outcome_state \<Rightarrow> spot_outcome_state \<times> (nat + unit)" where
  "apply_maker_legs order [] st = (st, Inr ())"
| "apply_maker_legs order (leg # legs) st =
     (if \<not> token_is_active st (ml_token leg) then (st, Inl ERR_INVALID_TOKEN)
      else if ml_amount leg = 0 then apply_maker_legs order legs st
      else case consume_maker_leg order leg st of
             (st1, Inl e) \<Rightarrow> (st1, Inl e)
           | (st1, Inr _) \<Rightarrow> apply_maker_legs order legs st1)"

primrec apply_generated_orders ::
  "spot_outcome_market \<Rightarrow> generated_spot_outcome_order list \<Rightarrow> nat \<Rightarrow> spot_outcome_state \<Rightarrow> spot_outcome_state \<times> (nat + nat)" where
  "apply_generated_orders market [] initiator_debit st = (st, Inr initiator_debit)"
| "apply_generated_orders market (order # orders) initiator_debit st =
     (if go_row_tag order \<noteq> GENERATED_ORDER_ROW_TAG then (st, Inl ERR_INVALID_TOKEN)
      else if go_spot order \<noteq> om_spot market then (st, Inl ERR_INCONSISTENT_PAIR)
      else if \<not> safe_generated_product (go_sz order) (go_px order) then (st, Inl ERR_INVALID_SETTLEMENT_SPLIT)
      else case apply_maker_legs order (go_maker_legs order) st of
             (st1, Inl e) \<Rightarrow> (st1, Inl e)
           | (st1, Inr _) \<Rightarrow>
               (case checked_add_u64 initiator_debit (go_debit_wei order) of
                  None \<Rightarrow> (st1, Inl ERR_ARITHMETIC)
                | Some debit \<Rightarrow>
                    apply_generated_orders market orders debit (st1\<lparr>os_generated_orders := os_generated_orders st1 @ [order]\<rparr>)))"

definition apply_generated_spot_outcome_batch ::
  "nat \<Rightarrow> address \<Rightarrow> generated_spot_outcome_order list \<Rightarrow> spot_outcome_state \<Rightarrow> spot_outcome_state \<times> nat" where
  "apply_generated_spot_outcome_batch market_id initiator orders st =
     (case map_of (os_outcome_markets st) market_id of
        None \<Rightarrow> (st, ERR_MISSING_OUTCOME_MARKET)
      | Some market \<Rightarrow>
          if \<not> outcome_tokens_match_pair st market then (st, ERR_INCONSISTENT_PAIR)
          else case apply_generated_orders market orders 0 st of
            (st1, Inl e) \<Rightarrow> (st1, e)
          | (st1, Inr initiator_debit) \<Rightarrow>
              if initiator_debit \<noteq> 0 then
                (case outcome_debit_user_spot_balance initiator (om_settlement_token market) initiator_debit st1 of
                   (st2, Inl e) \<Rightarrow> (st2, e)
                 | (st2, Inr _) \<Rightarrow> (st2, INTERNAL_OK))
              else (st1, INTERNAL_OK))"

section \<open>Settlement\<close>

definition valid_settlement_price :: "f64 \<Rightarrow> bool" where
  "valid_settlement_price price \<longleftrightarrow> f64_is_finite price \<and> f64_in_range 0 1 price"

definition split_amount :: "nat \<Rightarrow> f64 \<Rightarrow> nat + settlement_split" where
  "split_amount amount settlement_price =
     (if \<not> valid_settlement_price settlement_price then Inl ERR_INVALID_SETTLEMENT_SPLIT
      else let win = saturating_f64_to_u64 (f64_mul (f64_of_u64 amount) settlement_price) in
        if amount < win then Inl ERR_INVALID_SETTLEMENT_SPLIT
        else Inr \<lparr>ss_win = win, ss_lose = amount - win\<rparr>)"

definition scaled_claim_amount :: "nat \<Rightarrow> nat \<Rightarrow> nat + nat" where
  "scaled_claim_amount amount multiplier =
     (if 2 ^ 128 \<le> amount * multiplier then Inl ERR_ARITHMETIC
      else if MAX_SAFE_GENERATED_PRODUCT < amount * multiplier then Inl ERR_INVALID_SETTLEMENT_SPLIT
      else Inr (amount * multiplier))"

text \<open>The loop over the claims: the rows, the credits grouped by user, and the debit of the residual token.\<close>

primrec claim_loop ::
  "spot_outcome_state \<Rightarrow> nat \<Rightarrow> spot_outcome_market \<Rightarrow> settlement_split \<Rightarrow> settlement_split \<Rightarrow> settlement_claim list \<Rightarrow>
   spot_settlement_outcome list \<Rightarrow> (address, (nat \<times> nat) list) btree \<Rightarrow> nat \<Rightarrow>
   nat + spot_settlement_outcome list \<times> (address, (nat \<times> nat) list) btree \<times> nat" where
  "claim_loop st market_id market notional converted [] rows grouped residual_debit = Inr (rows, grouped, residual_debit)"
| "claim_loop st market_id market notional converted (claim # claims) rows grouped residual_debit =
     (let token = (case cl_side claim of Bid \<Rightarrow> om_token_a market | Ask \<Rightarrow> om_token_b market);
          base_amount = (case cl_side claim of Bid \<Rightarrow> ss_win notional | Ask \<Rightarrow> ss_lose notional);
          multiplier = (case cl_side claim of Bid \<Rightarrow> ss_win converted | Ask \<Rightarrow> ss_lose converted) in
      if \<not> token_is_active st token then Inl ERR_INVALID_TOKEN
      else case scaled_claim_amount (cl_amount claim) multiplier of
             Inl e \<Rightarrow> Inl e
           | Inr scaled_amount \<Rightarrow>
               if scaled_amount = 0 \<and> base_amount = 0 then
                 claim_loop st market_id market notional converted claims rows grouped residual_debit
               else
                 (let row = \<lparr>so_row_tag = GENERATED_ROW_SIDE_TAG, so_market_id = market_id, so_user = cl_user claim, so_token = token,
                        so_amount = cl_amount claim, so_scaled_amount = scaled_amount, so_side = cl_side claim, so_flags = cl_flags claim\<rparr>;
                      grouped' = bt_insert (cl_user claim) (entry_or [] grouped (cl_user claim) @ [(token, scaled_amount)]) grouped in
                  if token = om_residual_token market then
                    (case checked_add_u64 residual_debit scaled_amount of
                       None \<Rightarrow> Inl ERR_ARITHMETIC
                     | Some d \<Rightarrow> claim_loop st market_id market notional converted claims (rows @ [row]) grouped' d)
                  else claim_loop st market_id market notional converted claims (rows @ [row]) grouped' residual_debit))"

primrec credit_rows ::
  "spot_outcome_market \<Rightarrow> (address \<times> nat \<times> nat) list \<Rightarrow> spot_outcome_state \<Rightarrow> spot_outcome_state \<times> (nat + unit)" where
  "credit_rows market [] st = (st, Inr ())"
| "credit_rows market (c # cs) st =
     (case c of (user, token, amount) \<Rightarrow>
      case outcome_credit_user_token user token amount st of
        (st1, Inl e) \<Rightarrow> (st1, Inl e)
      | (st1, Inr _) \<Rightarrow>
          credit_rows market cs (st1\<lparr>os_ledger_rows := os_ledger_rows st1 @
            [\<lparr>lr_user = user, lr_debit_token = om_residual_token market,
              lr_debit_wei = (if token = om_residual_token market then amount else 0),
              lr_credit_token = token, lr_credit_wei = amount, lr_row_tag = GENERATED_ROW_SIDE_TAG, lr_status = INTERNAL_OK\<rparr>]\<rparr>))"

text \<open>The nested loops over the grouped credits, users in order and each user's credits in order, as one list.\<close>

definition grouped_credits :: "(address, (nat \<times> nat) list) btree \<Rightarrow> (address \<times> nat \<times> nat) list" where
  "grouped_credits grouped = concat (map (\<lambda>e. map (Pair (fst e)) (snd e)) grouped)"

definition build_settlement_outcomes ::
  "nat \<Rightarrow> address \<Rightarrow> spot_outcome_market \<Rightarrow> settlement_split \<Rightarrow> settlement_split \<Rightarrow> settlement_claim list \<Rightarrow> spot_outcome_state \<Rightarrow>
   spot_outcome_state \<times> (nat + spot_settlement_outcome list)" where
  "build_settlement_outcomes market_id generated_user market notional converted claims st =
     (case claim_loop st market_id market notional converted claims [] [] 0 of
        Inl e \<Rightarrow> (st, Inl e)
      | Inr (rows, grouped, residual_debit) \<Rightarrow>
          (let residual_available = entry_or 0 (os_residual_balances st) (om_residual_token market) in
           if residual_available < residual_debit then (st, Inl ERR_INSUFFICIENT_RESIDUAL_BALANCE)
           else
             (let st1 = st\<lparr>os_residual_balances := bt_insert (om_residual_token market) (residual_available - residual_debit) (os_residual_balances st)\<rparr> in
              case credit_rows market (grouped_credits grouped) st1 of
                (st2, Inl e) \<Rightarrow> (st2, Inl e)
              | (st2, Inr _) \<Rightarrow>
                  (if generated_user \<noteq> 0
                     then st2\<lparr>os_user_token_index := index_put generated_user (om_residual_token market) (os_user_token_index st2)\<rparr>
                   else st2, Inr rows))))"

definition settle_outcome_market ::
  "nat \<Rightarrow> address \<Rightarrow> f64 \<Rightarrow> spot_outcome_state \<Rightarrow> spot_outcome_state \<times> (nat + spot_settlement_outcome list)" where
  "settle_outcome_market market_id generated_user settlement_price st =
     (case map_of (os_outcome_markets st) market_id of
        None \<Rightarrow> (st, Inl ERR_MISSING_OUTCOME_MARKET)
      | Some market \<Rightarrow>
          if \<not> valid_settlement_price settlement_price then (st, Inl ERR_INVALID_SETTLEMENT_SPLIT)
          else if \<not> outcome_tokens_match_pair st market then (st, Inl ERR_INCONSISTENT_PAIR)
          else if \<not> token_is_active st (om_token_a market) \<or> \<not> token_is_active st (om_token_b market)
            then (st, Inl ERR_INVALID_TOKEN)
          else case split_amount (om_total_notional market) settlement_price of
            Inl e \<Rightarrow> (st, Inl e)
          | Inr notional \<Rightarrow> (case split_amount (om_converted_base_amount market) settlement_price of
              Inl e \<Rightarrow> (st, Inl e)
            | Inr converted \<Rightarrow>
                (let claims = entry_or [] (os_settlement_claims st) market_id;
                     st1 = st\<lparr>os_settlement_claims := bt_remove market_id (os_settlement_claims st)\<rparr> in
                 case build_settlement_outcomes market_id generated_user market notional converted claims st1 of
                   (st2, Inl e) \<Rightarrow> (st2, Inl e)
                 | (st2, Inr rows) \<Rightarrow> (st2\<lparr>os_settlement_rows := os_settlement_rows st2 @ rows\<rparr>, Inr rows))))"

end
