(* ===== verification/Outcome_Properties.thy ===== *)
theory Outcome_Properties
  imports Spot_Outcome "HOL-Library.Multiset"
begin

text \<open>
  The settlement of an outcome market pays what its rows say: every user receives the scaled amounts of
  the rows that name the user, and what is paid in the residual token leaves the residual balance.  A
  settlement that fails has removed the claims all the same, and a generated order credits its user
  once for every maker leg.
\<close>

section \<open>The balances as a token ledger\<close>

definition outcome_wf :: "spot_outcome_state \<Rightarrow> bool" where
  "outcome_wf st \<longleftrightarrow> nested_wf (os_user_balances st)"

definition outcome_supply :: "spot_outcome_state \<Rightarrow> nat \<Rightarrow> nat" where
  "outcome_supply st token = nested_sum ob_total (os_user_balances st) token"

definition residual_balance :: "spot_outcome_state \<Rightarrow> nat \<Rightarrow> nat" where
  "residual_balance st token = entry_or 0 (os_residual_balances st) token"

lemma outcome_default_total [simp]: "ob_total outcome_default = 0"
  by (simp add: outcome_default_def)

interpretation outcome: token_ledger outcome_entry store_outcome outcome_wf outcome_supply ob_total outcome_default
proof
  show "outcome_supply (store_outcome u t b st) t' + (if t' = t then ob_total (outcome_entry st u t) else 0)
      = outcome_supply st t' + (if t' = t then ob_total b else 0)" if "outcome_wf st" for st u t b t'
    using that nested_sum_put [of "os_user_balances st" ob_total outcome_default u t b t']
    unfolding outcome_wf_def outcome_supply_def outcome_entry_def store_outcome_def by simp
qed (simp_all add: outcome_entry_def store_outcome_def outcome_wf_def)

text \<open>What depends on the balances only.\<close>

lemma outcome_wf_updates [simp]:
  "outcome_wf (st\<lparr>os_user_token_index := x0\<rparr>) = outcome_wf st"
  "outcome_wf (st\<lparr>os_token_supply_deltas := x1\<rparr>) = outcome_wf st"
  "outcome_wf (st\<lparr>os_settlement_claims := x2\<rparr>) = outcome_wf st"
  "outcome_wf (st\<lparr>os_residual_balances := x3\<rparr>) = outcome_wf st"
  "outcome_wf (st\<lparr>os_generated_orders := x4\<rparr>) = outcome_wf st"
  "outcome_wf (st\<lparr>os_settlement_rows := x5\<rparr>) = outcome_wf st"
  "outcome_wf (st\<lparr>os_ledger_rows := x6\<rparr>) = outcome_wf st"
  by (simp_all add: outcome_wf_def)

lemma outcome_supply_updates [simp]:
  "outcome_supply (st\<lparr>os_user_token_index := x0\<rparr>) t = outcome_supply st t"
  "outcome_supply (st\<lparr>os_token_supply_deltas := x1\<rparr>) t = outcome_supply st t"
  "outcome_supply (st\<lparr>os_settlement_claims := x2\<rparr>) t = outcome_supply st t"
  "outcome_supply (st\<lparr>os_residual_balances := x3\<rparr>) t = outcome_supply st t"
  "outcome_supply (st\<lparr>os_generated_orders := x4\<rparr>) t = outcome_supply st t"
  "outcome_supply (st\<lparr>os_settlement_rows := x5\<rparr>) t = outcome_supply st t"
  "outcome_supply (st\<lparr>os_ledger_rows := x6\<rparr>) t = outcome_supply st t"
  by (simp_all add: outcome_supply_def)

lemma outcome_entry_updates [simp]:
  "outcome_entry (st\<lparr>os_user_token_index := x0\<rparr>) u t = outcome_entry st u t"
  "outcome_entry (st\<lparr>os_token_supply_deltas := x1\<rparr>) u t = outcome_entry st u t"
  "outcome_entry (st\<lparr>os_settlement_claims := x2\<rparr>) u t = outcome_entry st u t"
  "outcome_entry (st\<lparr>os_residual_balances := x3\<rparr>) u t = outcome_entry st u t"
  "outcome_entry (st\<lparr>os_generated_orders := x4\<rparr>) u t = outcome_entry st u t"
  "outcome_entry (st\<lparr>os_settlement_rows := x5\<rparr>) u t = outcome_entry st u t"
  "outcome_entry (st\<lparr>os_ledger_rows := x6\<rparr>) u t = outcome_entry st u t"
  by (simp_all add: outcome_entry_def)

lemma store_outcome_fields [simp]:
  "os_residual_balances (store_outcome u t b st) = os_residual_balances st"
  "os_settlement_claims (store_outcome u t b st) = os_settlement_claims st"
  "os_tokens (store_outcome u t b st) = os_tokens st"
  by (simp_all add: store_outcome_def)

lemma outcome_credit_user_token_effect:
  assumes "outcome_credit_user_token u t amount st = (st', r)" and "outcome_wf st"
  shows "outcome_wf st'" "os_residual_balances st' = os_residual_balances st" "os_settlement_claims st' = os_settlement_claims st"
    "os_tokens st' = os_tokens st"
    "outcome_supply st' x = outcome_supply st x + (if isl r then 0 else if x = t then amount else 0)"
    "ob_total (outcome_entry st' v x) = ob_total (outcome_entry st v x) + (if isl r then 0 else if v = u \<and> x = t then amount else 0)"
  using assms outcome.supply_credit [of st _ u t amount x] outcome.supply_same [of st _ u t x]
  by (auto simp: outcome_credit_user_token_def outcome_credit_def checked_add_u64_def outcome.bal_put outcome.wf_put
      split: option.splits if_splits)

section \<open>The rows and the credits\<close>

definition credit_of_row :: "spot_settlement_outcome \<Rightarrow> address \<times> nat \<times> nat" where
  "credit_of_row r = (so_user r, so_token r, so_scaled_amount r)"

definition credited :: "(address \<times> nat \<times> nat \<Rightarrow> bool) \<Rightarrow> (address \<times> nat \<times> nat) multiset \<Rightarrow> nat" where
  "credited P cs = sum_mset (image_mset (\<lambda>c. snd (snd c)) (filter_mset P cs))"

lemma credited_add [simp]: "credited P (add_mset c cs) = (if P c then snd (snd c) else 0) + credited P cs"
  by (simp add: credited_def)

lemma credited_empty [simp]: "credited P {#} = 0"
  by (simp add: credited_def)

lemma mset_grouped_insert:
  "bt_wf g \<Longrightarrow> mset (grouped_credits (bt_insert u (entry_or [] g u @ [x]) g)) = add_mset (u, x) (mset (grouped_credits g))"
proof (induction g)
  case (Cons e g)
  have absent: "entry_or [] g u = []" if "u \<le> fst e"
    using Cons.prems that by (fastforce simp: entry_or_def bt_wf_Cons split: option.split dest: map_of_SomeD)
  consider "fst e < u" | "u < fst e" | "u = fst e" by (metis linorder_cases)
  then show ?case
  proof cases
    case 1
    then have "entry_or [] (e # g) u = entry_or [] g u" by (cases e) (auto simp: entry_or_def)
    with 1 Cons show ?thesis by (simp add: grouped_credits_def bt_wf_Cons)
  next
    case 2
    then have "entry_or [] (e # g) u = []" using absent by (cases e) (auto simp: entry_or_def)
    with 2 show ?thesis by (auto simp: grouped_credits_def)
  qed (simp add: grouped_credits_def entry_or_def)
qed (simp add: grouped_credits_def)

lemma claim_loop_rows:
  "claim_loop st mid market notional converted claims rows g d = Inr (rows', g', d') \<Longrightarrow> bt_wf g \<Longrightarrow>
    mset (grouped_credits g) = mset (map credit_of_row rows) \<Longrightarrow>
    d = credited (\<lambda>c. fst (snd c) = om_residual_token market) (mset (map credit_of_row rows)) \<Longrightarrow>
    mset (grouped_credits g') = mset (map credit_of_row rows') \<and>
    d' = credited (\<lambda>c. fst (snd c) = om_residual_token market) (mset (map credit_of_row rows'))"
proof (induction claims arbitrary: rows g d)
  case (Cons claim claims)
  define token where "token = (case cl_side claim of Bid \<Rightarrow> om_token_a market | Ask \<Rightarrow> om_token_b market)"
  from Cons.prems(1) obtain scaled where
    sc: "scaled_claim_amount (cl_amount claim) (case cl_side claim of Bid \<Rightarrow> ss_win converted | Ask \<Rightarrow> ss_lose converted) = Inr scaled"
    by (auto simp: Let_def split: if_splits sum.splits)
  define row where "row = \<lparr>so_row_tag = GENERATED_ROW_SIDE_TAG, so_market_id = mid, so_user = cl_user claim, so_token = token,
    so_amount = cl_amount claim, so_scaled_amount = scaled, so_side = cl_side claim, so_flags = cl_flags claim\<rparr>"
  define g1 where "g1 = bt_insert (cl_user claim) (entry_or [] g (cl_user claim) @ [(token, scaled)]) g"
  have row: "credit_of_row row = (cl_user claim, token, scaled)" by (simp add: row_def credit_of_row_def)
  have g1: "bt_wf g1" "mset (grouped_credits g1) = mset (map credit_of_row (rows @ [row]))"
    using Cons.prems(2,3) by (simp_all add: g1_def mset_grouped_insert row)
  from Cons.prems(1) sc consider
      "claim_loop st mid market notional converted claims rows g d = Inr (rows', g', d')"
    | "token = om_residual_token market" "claim_loop st mid market notional converted claims (rows @ [row]) g1 (d + scaled) = Inr (rows', g', d')"
    | "token \<noteq> om_residual_token market" "claim_loop st mid market notional converted claims (rows @ [row]) g1 d = Inr (rows', g', d')"
    by (auto simp: Let_def token_def [symmetric] row_def [symmetric] g1_def [symmetric] checked_add_u64_def split: if_splits)
  then show ?case
  proof cases
    case 1
    from Cons.IH [OF 1 Cons.prems(2-4)] show ?thesis .
  next
    case 2
    show ?thesis by (rule Cons.IH [OF 2(2) g1]) (use 2(1) Cons.prems(4) in \<open>simp add: row\<close>)
  next
    case 3
    show ?thesis by (rule Cons.IH [OF 3(2) g1]) (use 3(1) Cons.prems(4) in \<open>simp add: row\<close>)
  qed
qed simp

lemma credit_rows_effect:
  "credit_rows market cs st = (st', Inr ()) \<Longrightarrow> outcome_wf st \<Longrightarrow>
    outcome_wf st' \<and> os_residual_balances st' = os_residual_balances st \<and> os_settlement_claims st' = os_settlement_claims st
    \<and> outcome_supply st' t = outcome_supply st t + credited (\<lambda>c. fst (snd c) = t) (mset cs)
    \<and> ob_total (outcome_entry st' u t) = ob_total (outcome_entry st u t) + credited (\<lambda>c. fst c = u \<and> fst (snd c) = t) (mset cs)"
proof (induction cs arbitrary: st)
  case (Cons c cs)
  obtain user token amount where c: "c = (user, token, amount)" by (cases c)
  obtain st1 r where cr: "outcome_credit_user_token user token amount st = (st1, r)" by fastforce
  note e = outcome_credit_user_token_effect [OF cr Cons.prems(2)]
  let ?row = "\<lparr>lr_user = user, lr_debit_token = om_residual_token market,
    lr_debit_wei = (if token = om_residual_token market then amount else 0),
    lr_credit_token = token, lr_credit_wei = amount, lr_row_tag = GENERATED_ROW_SIDE_TAG, lr_status = INTERNAL_OK\<rparr>"
  have ok: "r = Inr ()" "credit_rows market cs (st1\<lparr>os_ledger_rows := os_ledger_rows st1 @ [?row]\<rparr>) = (st', Inr ())"
    using Cons.prems(1) cr by (auto simp: c split: sum.splits)
  from Cons.IH [OF ok(2)] e(1) have "outcome_wf st'" "os_residual_balances st' = os_residual_balances st1"
    "os_settlement_claims st' = os_settlement_claims st1"
    "outcome_supply st' t = outcome_supply st1 t + credited (\<lambda>c. fst (snd c) = t) (mset cs)"
    "ob_total (outcome_entry st' u t) = ob_total (outcome_entry st1 u t) + credited (\<lambda>c. fst c = u \<and> fst (snd c) = t) (mset cs)"
    by simp_all
  with e(2,3) e(5) [of t] e(6) [of u t] ok(1) show ?case by (auto simp: c)
qed simp

lemma build_settlement_effect:
  assumes "build_settlement_outcomes mid gu market notional converted claims st = (st', Inr rows)" and "outcome_wf st"
  defines "R \<equiv> om_residual_token market" and "C \<equiv> mset (map credit_of_row rows)"
  shows "outcome_wf st'" "os_settlement_claims st' = os_settlement_claims st"
    "outcome_supply st' t = outcome_supply st t + credited (\<lambda>c. fst (snd c) = t) C"
    "ob_total (outcome_entry st' u t) = ob_total (outcome_entry st u t) + credited (\<lambda>c. fst c = u \<and> fst (snd c) = t) C"
    "residual_balance st' t + (if t = R then credited (\<lambda>c. fst (snd c) = R) C else 0) = residual_balance st t"
proof -
  from assms(1) obtain g d st2 where l: "claim_loop st mid market notional converted claims [] [] 0 = Inr (rows, g, d)"
    and d: "d \<le> residual_balance st R"
    and c: "credit_rows market (grouped_credits g)
        (st\<lparr>os_residual_balances := bt_insert R (residual_balance st R - d) (os_residual_balances st)\<rparr>) = (st2, Inr ())"
    and st': "st' = (if gu \<noteq> 0 then st2\<lparr>os_user_token_index := index_put gu R (os_user_token_index st2)\<rparr> else st2)"
    by (auto simp: build_settlement_outcomes_def Let_def R_def residual_balance_def split: sum.splits if_splits prod.splits)
  have rows: "mset (grouped_credits g) = C" "d = credited (\<lambda>c. fst (snd c) = R) C"
    using claim_loop_rows [OF l] unfolding R_def C_def by (simp_all add: grouped_credits_def)
  note e = credit_rows_effect [OF c, unfolded rows(1)]
  show "outcome_wf st'" "os_settlement_claims st' = os_settlement_claims st"
    "outcome_supply st' t = outcome_supply st t + credited (\<lambda>c. fst (snd c) = t) C"
    "ob_total (outcome_entry st' u t) = ob_total (outcome_entry st u t) + credited (\<lambda>c. fst c = u \<and> fst (snd c) = t) C"
    using e [of t u] assms(2) by (simp_all add: st')
  show "residual_balance st' t + (if t = R then credited (\<lambda>c. fst (snd c) = R) C else 0) = residual_balance st t"
    using e [of t u] assms(2) d rows(2) by (simp add: residual_balance_def st')
qed

section \<open>Generated orders\<close>

text \<open>What the legs of an order take from their makers in a token, and how many of them take anything.\<close>

definition legs_paid :: "nat \<Rightarrow> outcome_maker_leg list \<Rightarrow> nat" where
  "legs_paid t legs = sum_list (map ml_amount (filter (\<lambda>l. ml_token l = t) legs))"

definition paying_legs :: "outcome_maker_leg list \<Rightarrow> nat" where
  "paying_legs legs = length (filter (\<lambda>l. ml_amount l \<noteq> 0) legs)"

definition orders_paid :: "nat \<Rightarrow> generated_spot_outcome_order list \<Rightarrow> nat" where
  "orders_paid t orders = sum_list (map (legs_paid t \<circ> go_maker_legs) orders)"

definition orders_credited :: "nat \<Rightarrow> generated_spot_outcome_order list \<Rightarrow> nat" where
  "orders_credited t orders = sum_list (map (\<lambda>o1. if go_credit_token o1 = t then go_credit_wei o1 * paying_legs (go_maker_legs o1) else 0) orders)"

lemma consume_maker_leg_effect:
  assumes "consume_maker_leg order leg st = (st', Inr ())" and "outcome_wf st"
  shows "outcome_wf st'" "os_generated_orders st' = os_generated_orders st"
    "outcome_supply st' t + (if ml_token leg = t then ml_amount leg else 0)
      = outcome_supply st t + (if go_credit_token order = t then go_credit_wei order else 0)"
proof -
  define b where "b = (outcome_entry st (ml_user leg) (ml_token leg))
    \<lparr>ob_total := ob_total (outcome_entry st (ml_user leg) (ml_token leg)) - ml_amount leg,
      ob_hold := ob_hold (outcome_entry st (ml_user leg) (ml_token leg)) - ml_amount leg\<rparr>"
  define st1 where "st1 = store_outcome (ml_user leg) (ml_token leg) b st"
  from assms(1) obtain st2 x where le: "ml_amount leg \<le> ob_total (outcome_entry st (ml_user leg) (ml_token leg))"
    and c: "outcome_credit_user_token (go_user order) (go_credit_token order) (go_credit_wei order) st1 = (st2, Inr ())"
    and st': "st' = st2\<lparr>os_ledger_rows := x\<rparr>"
    by (auto simp: consume_maker_leg_def consume_hold_def checked_sub_u64_def saturating_sub_u64_def b_def st1_def
        split: option.splits if_splits sum.splits prod.splits)
  have s1: "outcome_supply st1 t + (if t = ml_token leg then ml_amount leg else 0) = outcome_supply st t"
    unfolding st1_def by (rule outcome.supply_debit [OF assms(2)]) (use le in \<open>simp add: b_def\<close>)
  note e = outcome_credit_user_token_effect [OF c outcome.wf_put [OF assms(2), of "ml_user leg" "ml_token leg" b, folded st1_def]]
  have "os_generated_orders st2 = os_generated_orders st1"
    using c by (auto simp: outcome_credit_user_token_def store_outcome_def split: if_splits prod.splits)
  then show "os_generated_orders st' = os_generated_orders st" by (simp add: st' st1_def store_outcome_def)
  show "outcome_wf st'" using e(1) by (simp add: st')
  show "outcome_supply st' t + (if ml_token leg = t then ml_amount leg else 0)
      = outcome_supply st t + (if go_credit_token order = t then go_credit_wei order else 0)"
    using e(5) [of t] s1 by (auto simp: st')
qed

lemma apply_maker_legs_effect:
  "apply_maker_legs order legs st = (st', Inr ()) \<Longrightarrow> outcome_wf st \<Longrightarrow>
    outcome_wf st' \<and> os_generated_orders st' = os_generated_orders st
    \<and> outcome_supply st' t + legs_paid t legs
      = outcome_supply st t + (if go_credit_token order = t then go_credit_wei order * paying_legs legs else 0)"
proof (induction legs arbitrary: st)
  case (Cons leg legs)
  show ?case
  proof (cases "ml_amount leg = 0")
    case True
    with Cons show ?thesis by (auto simp: legs_paid_def paying_legs_def split: if_splits)
  next
    case False
    with Cons.prems(1) obtain st1 where c: "consume_maker_leg order leg st = (st1, Inr ())"
      and rest: "apply_maker_legs order legs st1 = (st', Inr ())"
      by (auto split: if_splits prod.splits sum.splits)
    note e = consume_maker_leg_effect [OF c Cons.prems(2)]
    from Cons.IH [OF rest e(1)] e(2) e(3) [of t] False show ?thesis
      by (auto simp: legs_paid_def paying_legs_def)
  qed
qed (simp add: legs_paid_def paying_legs_def)

lemma apply_generated_orders_effect:
  "apply_generated_orders market orders debit st = (st', Inr debit') \<Longrightarrow> outcome_wf st \<Longrightarrow>
    os_generated_orders st' = os_generated_orders st @ orders \<and> debit' = debit + sum_list (map go_debit_wei orders)
    \<and> outcome_supply st' t + orders_paid t orders = outcome_supply st t + orders_credited t orders"
proof (induction orders arbitrary: debit st)
  case (Cons o1 orders)
  then obtain st1 where l: "apply_maker_legs o1 (go_maker_legs o1) st = (st1, Inr ())"
    and rest: "apply_generated_orders market orders (debit + go_debit_wei o1)
      (st1\<lparr>os_generated_orders := os_generated_orders st1 @ [o1]\<rparr>) = (st', Inr debit')"
    by (auto simp: checked_add_u64_def split: if_splits prod.splits sum.splits option.splits)
  note e = apply_maker_legs_effect [OF l Cons.prems(2)]
  from Cons.IH [OF rest] e [of t] show ?case
    by (auto simp: orders_paid_def orders_credited_def)
qed (simp add: orders_paid_def orders_credited_def)

section \<open>The whole settlement\<close>

lemma settle_steps_outcome:
  assumes "settle_outcome_market mid gu price st = (st', Inr rows)"
  obtains market notional converted st2 where "map_of (os_outcome_markets st) mid = Some market"
    and "build_settlement_outcomes mid gu market notional converted (entry_or [] (os_settlement_claims st) mid)
      (st\<lparr>os_settlement_claims := bt_remove mid (os_settlement_claims st)\<rparr>) = (st2, Inr rows)"
    and "st' = st2\<lparr>os_settlement_rows := os_settlement_rows st2 @ rows\<rparr>"
  using assms unfolding settle_outcome_market_def Let_def
  by (auto split: option.splits if_splits sum.splits prod.splits)

lemma scaled_claim_not_residual: "scaled_claim_amount a k \<noteq> Inl ERR_INSUFFICIENT_RESIDUAL_BALANCE"
  by (simp add: scaled_claim_amount_def ERR_ARITHMETIC_def ERR_INSUFFICIENT_RESIDUAL_BALANCE_def ERR_INVALID_SETTLEMENT_SPLIT_def)

lemma claim_loop_not_residual:
  "claim_loop st mid market notional converted claims rows g d \<noteq> Inl ERR_INSUFFICIENT_RESIDUAL_BALANCE"
proof (induction claims arbitrary: rows g d)
  case (Cons claim claims)
  have "ERR_INVALID_TOKEN \<noteq> ERR_INSUFFICIENT_RESIDUAL_BALANCE" "ERR_ARITHMETIC \<noteq> ERR_INSUFFICIENT_RESIDUAL_BALANCE"
    by (simp_all add: ERR_INVALID_TOKEN_def ERR_ARITHMETIC_def ERR_INSUFFICIENT_RESIDUAL_BALANCE_def)
  with Cons show ?case using scaled_claim_not_residual by (auto simp: Let_def split: sum.split option.split)
qed simp

lemma credit_rows_not_residual:
  "snd (credit_rows market cs st) \<noteq> Inl ERR_INSUFFICIENT_RESIDUAL_BALANCE"
proof (induction cs arbitrary: st)
  case (Cons c cs)
  have "snd (outcome_credit_user_token u t a st) \<noteq> Inl ERR_INSUFFICIENT_RESIDUAL_BALANCE" for u t a
    by (simp add: outcome_credit_user_token_def outcome_credit_def ERR_ARITHMETIC_def ERR_INSUFFICIENT_RESIDUAL_BALANCE_def split: option.split)
  with Cons show ?case by (auto split: prod.split sum.split) (metis snd_conv)+
qed simp

text \<open>A settlement refused for lack of residual balance: the checks passed, the claims are gone, nothing else changed.\<close>

definition settlement_guards :: "nat \<Rightarrow> f64 \<Rightarrow> spot_outcome_market \<Rightarrow> settlement_split \<Rightarrow> settlement_split \<Rightarrow> spot_outcome_state \<Rightarrow> bool" where
  "settlement_guards mid price market notional converted st \<longleftrightarrow>
     map_of (os_outcome_markets st) mid = Some market \<and> valid_settlement_price price \<and> outcome_tokens_match_pair st market
     \<and> token_is_active st (om_token_a market) \<and> token_is_active st (om_token_b market)
     \<and> split_amount (om_total_notional market) price = Inr notional \<and> split_amount (om_converted_base_amount market) price = Inr converted"

lemma settle_passed:
  "settlement_guards mid price market notional converted st \<Longrightarrow>
    settle_outcome_market mid gu price st =
      (case build_settlement_outcomes mid gu market notional converted (entry_or [] (os_settlement_claims st) mid)
              (st\<lparr>os_settlement_claims := bt_remove mid (os_settlement_claims st)\<rparr>) of
         (st2, Inl e) \<Rightarrow> (st2, Inl e)
       | (st2, Inr rows) \<Rightarrow> (st2\<lparr>os_settlement_rows := os_settlement_rows st2 @ rows\<rparr>, Inr rows))"
  by (simp add: settlement_guards_def settle_outcome_market_def Let_def)

lemma split_not_residual: "split_amount a price \<noteq> Inl ERR_INSUFFICIENT_RESIDUAL_BALANCE"
  by (simp add: split_amount_def Let_def ERR_INSUFFICIENT_RESIDUAL_BALANCE_def ERR_INVALID_SETTLEMENT_SPLIT_def)

lemma refused_settlement_effect:
  assumes "settle_outcome_market mid gu price st = (st', Inl ERR_INSUFFICIENT_RESIDUAL_BALANCE)"
  obtains market notional converted where "settlement_guards mid price market notional converted st"
    and "st' = st\<lparr>os_settlement_claims := bt_remove mid (os_settlement_claims st)\<rparr>"
proof -
  let ?e = ERR_INSUFFICIENT_RESIDUAL_BALANCE
  have ne: "ERR_MISSING_OUTCOME_MARKET \<noteq> ?e" "ERR_INVALID_SETTLEMENT_SPLIT \<noteq> ?e" "ERR_INCONSISTENT_PAIR \<noteq> ?e" "ERR_INVALID_TOKEN \<noteq> ?e"
    by (simp_all add: ERR_MISSING_OUTCOME_MARKET_def ERR_INVALID_SETTLEMENT_SPLIT_def ERR_INCONSISTENT_PAIR_def ERR_INVALID_TOKEN_def
        ERR_INSUFFICIENT_RESIDUAL_BALANCE_def)
  from assms ne split_not_residual obtain market notional converted where g: "settlement_guards mid price market notional converted st"
    unfolding settle_outcome_market_def settlement_guards_def Let_def
    by (auto split: option.splits if_splits sum.splits)
  let ?st1 = "st\<lparr>os_settlement_claims := bt_remove mid (os_settlement_claims st)\<rparr>"
  have b: "build_settlement_outcomes mid gu market notional converted (entry_or [] (os_settlement_claims st) mid) ?st1 = (st', Inl ?e)"
    using assms unfolding settle_passed [OF g] by (auto split: prod.splits sum.splits)
  have "st' = ?st1"
  proof (cases "claim_loop ?st1 mid market notional converted (entry_or [] (os_settlement_claims st) mid) [] [] 0")
    case (Inl e)
    with b show ?thesis by (simp add: build_settlement_outcomes_def)
  next
    case (Inr p)
    obtain rows grp d where p: "p = (rows, grp, d)" by (cases p)
    show ?thesis using b credit_rows_not_residual [of market "grouped_credits grp"]
      unfolding build_settlement_outcomes_def Inr p sum.case prod.case Let_def
      by (auto split: if_splits prod.splits sum.splits) (metis snd_conv)+
  qed
  with g show thesis by (rule that)
qed

section \<open>A sample market\<close>

definition sample_outcome_token :: outcome_token_info where
  "sample_outcome_token = \<lparr>ot_exists = True, ot_deployer = None, ot_deployer_trading_fee_share_scaled = 0, ot_aligned_quote_active = False\<rparr>"

definition sample_outcome_market :: spot_outcome_market where
  "sample_outcome_market = \<lparr>om_spot = 7, om_kind = Single, om_token_a = 1, om_token_b = 0, om_settlement_token = 0, om_residual_token = 0,
     om_total_notional = 10, om_converted_base_amount = 4\<rparr>"

definition sample_outcome_state :: "nat \<Rightarrow> spot_outcome_state" where
  "sample_outcome_state residual = \<lparr>os_spot_pairs = [(7, \<lparr>pi_base_token = 1, pi_quote_token = 0\<rparr>)],
     os_tokens = [(0, sample_outcome_token), (1, sample_outcome_token)], os_outcome_markets = [(7, sample_outcome_market)],
     os_user_balances = [(5, [(1, \<lparr>ob_total = 9, ob_hold = 9\<rparr>)])], os_user_token_index = [(5, [1])], os_token_supply_deltas = [],
     os_settlement_claims = [(7, [\<lparr>cl_user = 5, cl_token = 0, cl_amount = 3, cl_side = Ask, cl_oid = 1, cl_flags = 0\<rparr>])],
     os_residual_balances = [(0, residual)], os_generated_orders = [], os_settlement_rows = [], os_ledger_rows = []\<rparr>"

definition sample_outcome_row :: spot_settlement_outcome where
  "sample_outcome_row = \<lparr>so_row_tag = 50, so_market_id = 7, so_user = 5, so_token = 0, so_amount = 3, so_scaled_amount = 12, so_side = Ask, so_flags = 0\<rparr>"

lemma sample_outcome_wf: "outcome_wf (sample_outcome_state r)"
  by (simp add: outcome_wf_def sample_outcome_state_def nested_wf_def bt_wf_Cons)

lemma split_at_zero: "n < 2 ^ 53 \<Longrightarrow> split_amount n (Fin 0) = Inr \<lparr>ss_win = 0, ss_lose = n\<rparr>"
proof -
  assume n: "n < 2 ^ 53"
  have "f64_round 0 = Fin 0" by (simp add: f64_round_def round_pos_def)
  moreover have "f64_round 1 = Fin 1" using f64_of_u64_exact [of 1] by (simp add: f64_of_u64_def)
  ultimately show ?thesis using f64_of_u64_exact [OF n]
    by (simp add: split_amount_def valid_settlement_price_def f64_is_finite_def f64_in_range_def saturating_f64_to_u64_def)
qed

lemma sample_guards: "settlement_guards 7 (Fin 0) sample_outcome_market \<lparr>ss_win = 0, ss_lose = 10\<rparr> \<lparr>ss_win = 0, ss_lose = 4\<rparr> (sample_outcome_state r)"
proof -
  have "split_amount 10 (Fin 0) = Inr \<lparr>ss_win = 0, ss_lose = 10\<rparr>" "split_amount 4 (Fin 0) = Inr \<lparr>ss_win = 0, ss_lose = 4\<rparr>"
    using split_at_zero [of 10] split_at_zero [of 4] by simp_all
  moreover from this(1) have "valid_settlement_price (Fin 0)" by (auto simp: split_amount_def split: if_splits)
  ultimately show ?thesis
    by (simp add: settlement_guards_def sample_outcome_state_def sample_outcome_market_def outcome_tokens_match_pair_def token_is_active_def
        sample_outcome_token_def)
qed

lemma sample_claim_loop:
  "claim_loop (sample_outcome_state r\<lparr>os_settlement_claims := c\<rparr>) 7 sample_outcome_market \<lparr>ss_win = 0, ss_lose = 10\<rparr> \<lparr>ss_win = 0, ss_lose = 4\<rparr>
     (entry_or [] (os_settlement_claims (sample_outcome_state r)) 7) [] [] 0 = Inr ([sample_outcome_row], [(5, [(0, 12)])], 12)"
  by (simp add: sample_outcome_state_def sample_outcome_market_def entry_or_def token_is_active_def sample_outcome_token_def
      scaled_claim_amount_def MAX_SAFE_GENERATED_PRODUCT_def sample_outcome_row_def GENERATED_ROW_SIDE_TAG_def checked_add_u64_def u64_max_def Let_def)

lemma sample_settlement:
  "snd (settle_outcome_market 7 0 (Fin 0) (sample_outcome_state 100)) = Inr [sample_outcome_row]"
  "snd (settle_outcome_market 7 0 (Fin 0) (sample_outcome_state 11)) = Inl ERR_INSUFFICIENT_RESIDUAL_BALANCE"
  by (simp_all add: settle_passed [OF sample_guards] build_settlement_outcomes_def sample_claim_loop Let_def)
    (simp_all add: sample_outcome_state_def sample_outcome_market_def entry_or_def grouped_credits_def outcome_credit_user_token_def
      outcome_credit_def outcome_entry_def nested_get_def outcome_default_def checked_add_u64_def u64_max_def)

section \<open>Properties\<close>

text \<open>C20. A settlement that succeeds pays exactly its rows: the balance of every user in every token grows by the scaled
  amounts of the rows with that user and token, the supply of a token over all users grows by the rows in it, and what
  was paid in the residual token of the market has left its residual balance, so that in this token nothing is created.\<close>

theorem settlement_pays_its_rows:
  assumes "settle_outcome_market mid gu price st = (st', Inr rows)" and "outcome_wf st"
    and "map_of (os_outcome_markets st) mid = Some market"
  shows "ob_total (outcome_entry st' u t) = ob_total (outcome_entry st u t)
      + sum_list (map so_scaled_amount (filter (\<lambda>r. so_user r = u \<and> so_token r = t) rows))
    \<and> outcome_supply st' t = outcome_supply st t + sum_list (map so_scaled_amount (filter (\<lambda>r. so_token r = t) rows))
    \<and> outcome_supply st' (om_residual_token market) + residual_balance st' (om_residual_token market)
      = outcome_supply st (om_residual_token market) + residual_balance st (om_residual_token market)
    \<and> entry_or [] (os_settlement_claims st') mid = []"
proof -
  obtain m n c st2 where m: "map_of (os_outcome_markets st) mid = Some m"
    and b: "build_settlement_outcomes mid gu m n c (entry_or [] (os_settlement_claims st) mid)
      (st\<lparr>os_settlement_claims := bt_remove mid (os_settlement_claims st)\<rparr>) = (st2, Inr rows)"
    and st': "st' = st2\<lparr>os_settlement_rows := os_settlement_rows st2 @ rows\<rparr>"
    using settle_steps_outcome [OF assms(1)] by blast
  have m': "m = market" using m assms(3) by simp
  have credit: "credited P (image_mset credit_of_row (mset rows)) = sum_list (map so_scaled_amount (filter (P \<circ> credit_of_row) rows))" for P
    by (induction rows) (simp_all add: credit_of_row_def)
  note e = build_settlement_effect [OF b]
  have wf: "outcome_wf (st\<lparr>os_settlement_claims := bt_remove mid (os_settlement_claims st)\<rparr>)" using assms(2) by simp
  show ?thesis
    using e(2) [OF wf] e(3) [OF wf, of t] e(4) [OF wf, of u t] e(3) [OF wf, of "om_residual_token market"] e(5) [OF wf, of "om_residual_token market"]
    by (simp add: m' st' credit comp_def credit_of_row_def residual_balance_def entry_or_def)
qed

theorem settlement_pays_its_rows_witness:
  "\<exists>st'. settle_outcome_market 7 0 (Fin 0) (sample_outcome_state 100) = (st', Inr [sample_outcome_row])
    \<and> ob_total (outcome_entry st' 5 0) = 12 \<and> outcome_supply st' 0 + residual_balance st' 0 = 100"
proof -
  obtain st' where s: "settle_outcome_market 7 0 (Fin 0) (sample_outcome_state 100) = (st', Inr [sample_outcome_row])"
    using sample_settlement(1) by (metis prod.collapse)
  have m: "map_of (os_outcome_markets (sample_outcome_state 100)) 7 = Some sample_outcome_market" by (simp add: sample_outcome_state_def)
  have start: "ob_total (outcome_entry (sample_outcome_state 100) 5 0) = 0" "outcome_supply (sample_outcome_state 100) 0 = 0"
    "residual_balance (sample_outcome_state 100) 0 = 100"
    by (simp_all add: outcome_entry_def nested_get_def outcome_supply_def nested_sum_def bt_sum_def sample_outcome_state_def
        residual_balance_def entry_or_def)
  from settlement_pays_its_rows [OF s sample_outcome_wf m, of 5 0] start
  have "ob_total (outcome_entry st' 5 0) = 12 \<and> outcome_supply st' 0 + residual_balance st' 0 = 100"
    by (simp add: sample_outcome_row_def sample_outcome_market_def)
  with s show ?thesis by blast
qed

text \<open>C38. A settlement refused because the residual balance is too small has already removed the claims of the market: it
  changes nothing else, and when the same settlement is tried again, with the balance as it is or increased, it
  succeeds with no rows, so the claims are never paid.\<close>

theorem refused_settlement_loses_claims:
  assumes "settle_outcome_market mid gu price st = (st', Inl ERR_INSUFFICIENT_RESIDUAL_BALANCE)"
  shows "os_user_balances st' = os_user_balances st \<and> os_residual_balances st' = os_residual_balances st
    \<and> snd (settle_outcome_market mid gu price (st'\<lparr>os_residual_balances := res\<rparr>)) = Inr []"
proof -
  obtain market n c where g: "settlement_guards mid price market n c st"
    and st': "st' = st\<lparr>os_settlement_claims := bt_remove mid (os_settlement_claims st)\<rparr>"
    using refused_settlement_effect [OF assms] by blast
  have "settlement_guards mid price market n c (st'\<lparr>os_residual_balances := res\<rparr>)"
    using g by (simp add: settlement_guards_def st' outcome_tokens_match_pair_def token_is_active_def)
  from settle_passed [OF this, of gu] show ?thesis
    by (simp add: st' build_settlement_outcomes_def entry_or_def grouped_credits_def Let_def)
qed

theorem refused_settlement_loses_claims_witness:
  "\<exists>st'. settle_outcome_market 7 0 (Fin 0) (sample_outcome_state 11) = (st', Inl ERR_INSUFFICIENT_RESIDUAL_BALANCE)
    \<and> snd (settle_outcome_market 7 0 (Fin 0) (st'\<lparr>os_residual_balances := [(0, 100)]\<rparr>)) = Inr []"
proof -
  obtain st' where s: "settle_outcome_market 7 0 (Fin 0) (sample_outcome_state 11) = (st', Inl ERR_INSUFFICIENT_RESIDUAL_BALANCE)"
    using sample_settlement(2) by (metis prod.collapse)
  with refused_settlement_loses_claims [OF s, of "[(0, 100)]"] show ?thesis by blast
qed

text \<open>A batch of generated orders takes each order's debit once but pays its credit once for every maker leg that
  takes anything: in every token, what the users hold after the orders, with what the makers paid, is what they held
  before with the credit of each order times the number of its paying legs.\<close>

lemma generated_orders_accounting:
  assumes "apply_generated_orders market orders 0 st = (st', Inr debit)" and "outcome_wf st"
  shows "outcome_supply st' t + orders_paid t orders = outcome_supply st t + orders_credited t orders
    \<and> debit = sum_list (map go_debit_wei orders) \<and> os_generated_orders st' = os_generated_orders st @ orders"
  using apply_generated_orders_effect [OF assms, of t] by simp

definition sample_outcome_order :: generated_spot_outcome_order where
  "sample_outcome_order = \<lparr>go_row_tag = 10, go_user = 6, go_spot = 7, go_side = Bid, go_oid = 1, go_px = 1, go_sz = 2, go_debit_token = 0,
     go_debit_wei = 4, go_credit_token = 1, go_credit_wei = 2,
     go_maker_legs = [\<lparr>ml_user = 5, ml_token = 1, ml_amount = 1, ml_side = Ask, ml_oid = 2\<rparr>, \<lparr>ml_user = 5, ml_token = 1, ml_amount = 1, ml_side = Ask, ml_oid = 3\<rparr>]\<rparr>"

lemma sample_batch: "snd (apply_generated_orders sample_outcome_market [sample_outcome_order] 0 (sample_outcome_state 0)) = Inr 4"
  by (simp add: sample_outcome_order_def sample_outcome_market_def sample_outcome_state_def sample_outcome_token_def GENERATED_ORDER_ROW_TAG_def
      safe_generated_product_def MAX_SAFE_GENERATED_PRODUCT_def token_is_active_def consume_maker_leg_def consume_hold_def checked_sub_u64_def
      outcome_entry_def nested_get_def store_outcome_def nested_put_def entry_or_def outcome_credit_user_token_def outcome_credit_def
      checked_add_u64_def u64_max_def outcome_default_def)

lemma generated_orders_accounting_witness:
  "\<exists>st'. apply_generated_orders sample_outcome_market [sample_outcome_order] 0 (sample_outcome_state 0) = (st', Inr 4)
    \<and> outcome_supply st' 1 + 2 = outcome_supply (sample_outcome_state 0) 1 + 4"
proof -
  obtain st' where s: "apply_generated_orders sample_outcome_market [sample_outcome_order] 0 (sample_outcome_state 0) = (st', Inr 4)"
    using sample_batch by (metis prod.collapse)
  from generated_orders_accounting [OF s sample_outcome_wf, of 1]
  have "outcome_supply st' 1 + 2 = outcome_supply (sample_outcome_state 0) 1 + 4"
    by (simp add: orders_paid_def orders_credited_def legs_paid_def paying_legs_def sample_outcome_order_def)
  with s show ?thesis by blast
qed

end
