(* ===== verification/Quantity.thy ===== *)
theory Quantity
  imports Complex_Main Rust_Prelude
begin

text \<open>
  The fixed-point quantities of \<^verbatim>\<open>src/l1/qtys/mod.rs\<close>: prices, sizes, wei and notionals, each a machine
  integer behind a newtype that the code unwraps with \<open>raw\<close>.  A signed quantity is an integer, an
  unsigned one a natural.  Rounding, ticks, increments, the text form of a quantity and its parser are
  here; the operations that go through the \<open>rust_decimal\<close> crate take its operations as an argument.
  The hooks that log an overflow have no other effect.
\<close>

section \<open>Types and constants\<close>

type_synonym px = int
type_synonym sz = nat
type_synonym szi = int
type_synonym wei = nat
type_synonym ntl = nat
type_synonym ntli = int

definition FP_DECIMALS :: nat where "FP_DECIMALS = 8"

definition PERP_PRICE_DECIMALS :: nat where "PERP_PRICE_DECIMALS = 6"

definition SPOT_PRICE_DECIMALS :: nat where "SPOT_PRICE_DECIMALS = 8"

definition MAX_WIRE_SIGNIFICANT_FIGURES :: nat where "MAX_WIRE_SIGNIFICANT_FIGURES = 5"

definition USDC_NTLI_PER_USDC_NTL :: nat where "USDC_NTLI_PER_USDC_NTL = 10000"

definition DECIBPS_PER_ONE :: nat where "DECIBPS_PER_ONE = 100000"

definition u128_max :: nat where "u128_max = 2 ^ 128 - 1"

definition i128_max :: int where "i128_max = 2 ^ 127 - 1"

definition MAX_SCALED_I64 :: int where "MAX_SCALED_I64 = i64_max - 1"

text \<open>Checked arithmetic of an unsigned integer with the greatest value \<open>cap\<close>.\<close>

definition checked_add_cap :: "nat \<Rightarrow> nat \<Rightarrow> nat \<Rightarrow> nat option" where
  "checked_add_cap cap a b = (if a + b \<le> cap then Some (a + b) else None)"

definition checked_mul_cap :: "nat \<Rightarrow> nat \<Rightarrow> nat \<Rightarrow> nat option" where
  "checked_mul_cap cap a b = (if a * b \<le> cap then Some (a * b) else None)"

definition in_i128 :: "int \<Rightarrow> bool" where
  "in_i128 x \<longleftrightarrow> - i128_max - 1 \<le> x \<and> x \<le> i128_max"

definition checked_i128 :: "int \<Rightarrow> int option" where
  "checked_i128 x = (if in_i128 x then Some x else None)"

datatype round_mode = RejectFractional | Round | Truncate

datatype qty_parse_error =
  QEmpty | QNegative | QInvalidByte | QInvalidDecimal | QTooManyDecimals | QTooManySignificantFigures | QNonPositive | QOverflow

datatype qty_arithmetic_error = QUnderflow | QArithOverflow | QDivideByZero | QInvalidScale

datatype sz_sign = Short | Flat | Long

text \<open>The tables of powers of ten: 19 entries for \<open>i64\<close>, 20 for \<open>u64\<close>.\<close>

definition px_scale :: "nat \<Rightarrow> nat option" where
  "px_scale decimals = (if decimals < 19 then Some (10 ^ decimals) else None)"

definition wei_scale :: "nat \<Rightarrow> nat option" where
  "wei_scale decimals = (if decimals < 20 then Some (10 ^ decimals) else None)"

section \<open>Rounding\<close>

definition div_round_nonnegative :: "int \<Rightarrow> int \<Rightarrow> round_mode \<Rightarrow> int option" where
  "div_round_nonnegative numerator denominator rounding =
     (if numerator < 0 \<or> denominator \<le> 0 then None
      else let q = numerator div denominator; r = numerator mod denominator in
        case rounding of
          RejectFractional \<Rightarrow> if r = 0 then Some q else None
        | Truncate \<Rightarrow> Some q
        | Round \<Rightarrow> (case checked_i128 (r * 2) of
              None \<Rightarrow> None
            | Some r2 \<Rightarrow> if denominator \<le> r2 then checked_i128 (q + 1) else Some q))"

definition div_round_signed_nonnegative_output :: "int \<Rightarrow> int \<Rightarrow> round_mode \<Rightarrow> int option" where
  "div_round_signed_nonnegative_output numerator denominator rounding =
     (if denominator \<le> 0 then None
      else if 0 \<le> numerator then div_round_nonnegative numerator denominator rounding
      else case checked_i128 (- numerator) of
             None \<Rightarrow> None
           | Some n \<Rightarrow> (case div_round_nonnegative n denominator rounding of
                 None \<Rightarrow> None
               | Some v \<Rightarrow> checked_i128 (- v)))"

definition div_round_u128 :: "nat \<Rightarrow> nat \<Rightarrow> round_mode \<Rightarrow> nat option" where
  "div_round_u128 numerator denominator rounding =
     (if denominator = 0 then None
      else let q = numerator div denominator; r = numerator mod denominator in
        case rounding of
          RejectFractional \<Rightarrow> if r = 0 then Some q else None
        | Truncate \<Rightarrow> Some q
        | Round \<Rightarrow> (case checked_mul_cap u128_max r 2 of
              None \<Rightarrow> None
            | Some r2 \<Rightarrow> if denominator \<le> r2 then checked_add_cap u128_max q 1 else Some q))"

text \<open>The last step of the notional computations: an \<open>i128\<close> that must fit \<open>u64\<close>.\<close>

definition fit_u64 :: "int \<Rightarrow> nat option" where
  "fit_u64 raw = (if raw < 0 \<or> int u64_max < raw then None else Some (nat raw))"

definition mul_size :: "px \<Rightarrow> sz \<Rightarrow> int \<Rightarrow> round_mode \<Rightarrow> ntl option" where
  "mul_size px sz scale rounding =
     (if px < 0 \<or> scale \<le> 0 then None
      else case checked_i128 (px * int sz) of
        None \<Rightarrow> None
      | Some product \<Rightarrow> (case div_round_nonnegative product scale rounding of
            None \<Rightarrow> None
          | Some raw \<Rightarrow> fit_u64 raw))"

definition usdc_notional_from_px_sz :: "px \<Rightarrow> sz \<Rightarrow> int \<Rightarrow> round_mode \<Rightarrow> ntl option" where
  "usdc_notional_from_px_sz px sz scale rounding =
     (if px < 0 \<or> scale \<le> 0 then None
      else case checked_i128 (px * int sz) of
        None \<Rightarrow> None
      | Some product \<Rightarrow> (case div_round_nonnegative product scale rounding of
            None \<Rightarrow> None
          | Some raw \<Rightarrow> fit_u64 raw))"

definition big_spot_notional_from_px_sz :: "px \<Rightarrow> sz \<Rightarrow> nat \<Rightarrow> round_mode \<Rightarrow> nat option" where
  "big_spot_notional_from_px_sz px sz scale rounding =
     (if px < 0 \<or> scale = 0 then None
      else case checked_mul_cap u128_max (nat px) sz of
        None \<Rightarrow> None
      | Some product \<Rightarrow> div_round_u128 product scale rounding)"

definition apply_to_ntl :: "int \<Rightarrow> ntl \<Rightarrow> round_mode \<Rightarrow> ntl option" where
  "apply_to_ntl decibps n rounding =
     (case checked_i128 (int n * decibps) of
        None \<Rightarrow> None
      | Some product \<Rightarrow> (case div_round_signed_nonnegative_output product (int DECIBPS_PER_ONE) rounding of
            None \<Rightarrow> None
          | Some raw \<Rightarrow> fit_u64 raw))"

section \<open>Prices\<close>

definition wire_decimals :: "nat \<Rightarrow> bool \<Rightarrow> nat option" where
  "wire_decimals sz_decimals spot =
     (let base = (if spot then SPOT_PRICE_DECIMALS else PERP_PRICE_DECIMALS) in
      if sz_decimals \<le> base then Some (base - sz_decimals) else None)"

text \<open>The two loops of \<open>fits_wire\<close>: stripping zeros, then counting digits.\<close>

function strip_zeros :: "nat \<Rightarrow> nat" where
  "strip_zeros raw = (if raw \<noteq> 0 \<and> raw mod 10 = 0 then strip_zeros (raw div 10) else raw)"
  by pat_completeness auto
termination by (relation "measure id") auto

fun count_digits :: "nat \<Rightarrow> nat" where
  "count_digits raw = (if raw = 0 then 0 else Suc (count_digits (raw div 10)))"

declare strip_zeros.simps [simp del] count_digits.simps [simp del]

definition fits_wire :: "px \<Rightarrow> nat \<Rightarrow> bool" where
  "fits_wire px decimals \<longleftrightarrow>
     \<not> (px \<le> 0 \<or> px_scale decimals = None) \<and> count_digits (strip_zeros (nat px)) \<le> MAX_WIRE_SIGNIFICANT_FIGURES"

definition is_divisible_by_tick :: "px \<Rightarrow> px \<Rightarrow> bool" where
  "is_divisible_by_tick px tick \<longleftrightarrow> 0 < tick \<and> px mod tick = 0"

definition floor_to_tick :: "px \<Rightarrow> px \<Rightarrow> px option" where
  "floor_to_tick px tick = (if px < 0 \<or> tick \<le> 0 then None else Some ((px div tick) * tick))"

definition ceil_to_tick :: "px \<Rightarrow> px \<Rightarrow> px option" where
  "ceil_to_tick px tick =
     (if px < 0 \<or> tick \<le> 0 then None
      else if px mod tick = 0 then Some px
      else case checked_add_i64 (px div tick) 1 of
             None \<Rightarrow> None
           | Some q \<Rightarrow> checked_mul_i64 q tick)"

section \<open>Sizes\<close>

definition add_recording_overflow :: "sz \<Rightarrow> sz \<Rightarrow> sz" where
  "add_recording_overflow a b = (case checked_add_u64 a b of Some v \<Rightarrow> v | None \<Rightarrow> u64_max)"

definition sub_recording_underflow :: "sz \<Rightarrow> sz \<Rightarrow> sz" where
  "sub_recording_underflow a b = (case checked_sub_u64 a b of Some v \<Rightarrow> v | None \<Rightarrow> 0)"

text \<open>\<open>None\<close> is the panic of a size above the signed range.\<close>

definition sz_signed :: "sz \<Rightarrow> bool \<Rightarrow> szi option" where
  "sz_signed s positive = (if int s \<le> i64_max then Some (if positive then int s else - int s) else None)"

definition ceil_to_increment :: "sz \<Rightarrow> sz \<Rightarrow> sz" where
  "ceil_to_increment s increment =
     (if increment = 0 then s
      else let rounded_q = s div increment + of_bool (s mod increment \<noteq> 0) in
        max (saturating_mul_u64 increment rounded_q) (of_bool (rounded_q \<noteq> 0)))"

definition floor_to_increment :: "sz \<Rightarrow> sz \<Rightarrow> sz" where
  "floor_to_increment s increment = (if increment = 0 then s else saturating_mul_u64 increment (s div increment))"

definition visible_bucket_step :: "nat \<Rightarrow> nat" where
  "visible_bucket_step sz =
     (if sz < 100000 then 1
      else if sz < 1000000 then 10
      else if sz < 10000000 then 100
      else if sz < 100000000 then 1000
      else if sz < 1000000000 then 10000
      else if sz < 10000000000 then 100000
      else if sz < 1000000000000 then 1000000
      else if sz < 10000000000000 then 10000000
      else if sz < 100000000000000 then 100000000
      else if sz \<le> 0x5af3107a3fff then 1000000000
      else if sz \<le> 0x38d7ea4c67fff then 0x2540be400
      else if sz < 0x2386f26fc10000 then 0x174876e800
      else if sz < 0x16345785d8a0000 then 0xe8d4a51000
      else if sz < 0xde0b6b3a7640000 then 0x9184e72a000
      else if sz < 0x8ac7230489e80000 then 0x5af3107a4000
      else 1000000000)"

definition floor_to_visible_bucket :: "sz \<Rightarrow> sz" where
  "floor_to_visible_bucket s =
     (let step = visible_bucket_step s in if step = 0 then s else saturating_mul_u64 step (s div step))"

definition szi_sign :: "szi \<Rightarrow> sz_sign" where
  "szi_sign s = (if 0 < s then Long else if s < 0 then Short else Flat)"

definition szi_abs :: "szi \<Rightarrow> sz option" where
  "szi_abs s = (if s = i64_min then None else Some (nat \<bar>s\<bar>))"

definition szi_add_recording_overflow :: "szi \<Rightarrow> szi \<Rightarrow> szi" where
  "szi_add_recording_overflow a b = (case checked_add_i64 a b of Some v \<Rightarrow> v | None \<Rightarrow> saturating_add_i64 a b)"

definition szi_sub_recording_overflow :: "szi \<Rightarrow> szi \<Rightarrow> szi" where
  "szi_sub_recording_overflow a b = (case checked_sub_i64 a b of Some v \<Rightarrow> v | None \<Rightarrow> saturating_sub_i64 a b)"

definition szi_neg :: "szi \<Rightarrow> szi option" where
  "szi_neg s = (if s = i64_min then None else Some (- s))"

definition replace_resting_order_sz_total :: "sz \<Rightarrow> sz \<Rightarrow> sz \<Rightarrow> sz" where
  "replace_resting_order_sz_total t old_sz new_sz =
     (if old_sz \<noteq> new_sz then add_recording_overflow (sub_recording_underflow t old_sz) new_sz else t)"

text \<open>The aggregate and the count of open positions; \<open>None\<close> is the panic of the absolute value.\<close>

definition apply_open_interest_transition :: "szi \<Rightarrow> int \<Rightarrow> szi \<Rightarrow> szi \<Rightarrow> (szi \<times> int) option" where
  "apply_open_interest_transition aggregate_abs_sz nonzero_count old_sz new_sz =
     (let count =
        (if old_sz = 0 \<and> new_sz \<noteq> 0 then saturating_add_i64 nonzero_count 1
         else if old_sz \<noteq> 0 \<and> new_sz = 0 \<and> nonzero_count \<noteq> 0 then nonzero_count - 1
         else nonzero_count) in
      case szi_abs old_sz of
        None \<Rightarrow> None
      | Some old_abs \<Rightarrow> (case szi_abs new_sz of
            None \<Rightarrow> None
          | Some new_abs \<Rightarrow>
              Some (szi_add_recording_overflow (szi_sub_recording_overflow aggregate_abs_sz (int old_abs)) (int new_abs), count)))"

section \<open>Wei and notionals\<close>

record wei_pair =
  wp_checked :: wei
  wp_saturating :: wei

definition debit_wei_pair :: "wei_pair \<Rightarrow> wei \<Rightarrow> wei_pair \<times> (qty_arithmetic_error + unit)" where
  "debit_wei_pair pair amount =
     (case checked_sub_u64 (wp_checked pair) amount of
        None \<Rightarrow> (pair, Inl QUnderflow)
      | Some c \<Rightarrow>
          (pair\<lparr>wp_checked := c, wp_saturating := (case checked_sub_u64 (wp_saturating pair) amount of Some v \<Rightarrow> v | None \<Rightarrow> 0)\<rparr>, Inr ()))"

definition to_ntli :: "ntl \<Rightarrow> ntli option" where
  "to_ntli n = (case checked_mul_u64 n USDC_NTLI_PER_USDC_NTL of
      None \<Rightarrow> None
    | Some v \<Rightarrow> if int v \<le> i64_max then Some (int v) else None)"

definition try_to_usdc_ntl :: "nat \<Rightarrow> ntl option" where
  "try_to_usdc_ntl n = (if n \<le> u64_max then Some n else None)"

text \<open>Integer division of the source truncates towards zero.\<close>

definition to_usdc_ntl_trunc :: "ntli \<Rightarrow> int" where
  "to_usdc_ntl_trunc n = sgn n * (\<bar>n\<bar> div int USDC_NTLI_PER_USDC_NTL)"

definition unsigned_abs_to_usdc_ntl_trunc :: "ntli \<Rightarrow> ntl" where
  "unsigned_abs_to_usdc_ntl_trunc n = unsigned_abs n div USDC_NTLI_PER_USDC_NTL"

definition add_usdc_ntli_to_two_totals :: "int \<Rightarrow> int \<Rightarrow> ntli \<Rightarrow> ntli option \<Rightarrow> int \<times> int" where
  "add_usdc_ntli_to_two_totals first second delta second_delta =
     (saturating_add_i64 first (to_usdc_ntl_trunc delta),
      saturating_add_i64 second (to_usdc_ntl_trunc (case second_delta of Some d \<Rightarrow> d | None \<Rightarrow> delta)))"

section \<open>Text\<close>

definition is_digit :: "char \<Rightarrow> bool" where
  "is_digit c \<longleftrightarrow> 48 \<le> (of_char c :: nat) \<and> (of_char c :: nat) \<le> 57"

definition digit_of :: "char \<Rightarrow> nat" where
  "digit_of c = of_char c - 48"

definition digit_char :: "nat \<Rightarrow> char" where
  "digit_char d = char_of (48 + d)"

text \<open>One digit appended to an accumulator of the width of the parser.\<close>

definition push_digit :: "nat \<Rightarrow> nat \<Rightarrow> nat \<Rightarrow> nat option" where
  "push_digit cap acc digit = (case checked_mul_cap cap acc 10 of None \<Rightarrow> None | Some v \<Rightarrow> checked_add_cap cap v digit)"

text \<open>The loop over the bytes.  The sources have it four times, at the widths \<open>u128\<close>, \<open>u64\<close> and \<open>i64\<close>; the width is the
  first argument.  The versions that do not ask whether a digit was not zero ignore the last component.\<close>

fun parse_loop ::
  "nat \<Rightarrow> nat \<Rightarrow> string \<Rightarrow> nat \<Rightarrow> nat \<Rightarrow> nat \<Rightarrow> bool \<Rightarrow> bool \<Rightarrow> bool \<Rightarrow> qty_parse_error + nat \<times> nat \<times> nat \<times> bool" where
  "parse_loop cap decimals [] whole fraction frac_digits seen_dot seen_digit seen_nonzero =
     (if \<not> seen_digit then Inl QEmpty else Inr (whole, fraction, frac_digits, seen_nonzero))"
| "parse_loop cap decimals (byte # bytes) whole fraction frac_digits seen_dot seen_digit seen_nonzero =
     (if byte = CHR ''.'' then
        (if seen_dot then Inl QInvalidByte
         else parse_loop cap decimals bytes whole fraction frac_digits True seen_digit seen_nonzero)
      else if \<not> is_digit byte then Inl QInvalidByte
      else let digit = digit_of byte; nz = (seen_nonzero \<or> digit \<noteq> 0) in
        if seen_dot then
          (if frac_digits = decimals then
             (if digit = 0 then parse_loop cap decimals bytes whole fraction frac_digits seen_dot True nz else Inl QTooManyDecimals)
           else case push_digit cap fraction digit of
                  None \<Rightarrow> Inl QOverflow
                | Some fraction' \<Rightarrow> parse_loop cap decimals bytes whole fraction' (frac_digits + 1) seen_dot True nz)
        else case push_digit cap whole digit of
               None \<Rightarrow> Inl QOverflow
             | Some whole' \<Rightarrow> parse_loop cap decimals bytes whole' fraction frac_digits seen_dot True nz)"

definition parse_parts :: "nat \<Rightarrow> string \<Rightarrow> nat \<Rightarrow> qty_parse_error + nat \<times> nat \<times> nat \<times> bool" where
  "parse_parts cap input decimals = (case input of
      [] \<Rightarrow> Inl QEmpty
    | byte # bytes \<Rightarrow>
        if byte = CHR ''-'' then Inl QNegative
        else if byte = CHR ''+'' then Inl QInvalidByte
        else parse_loop cap decimals input 0 0 0 False False False)"

definition parse_unsigned_decimal_parts :: "string \<Rightarrow> nat \<Rightarrow> qty_parse_error + nat \<times> nat \<times> nat \<times> bool" where
  "parse_unsigned_decimal_parts input decimals = parse_parts u128_max input decimals"

text \<open>The scaled value of the parts, which all parsers compute in the same way.\<close>

definition scale_parts :: "nat \<Rightarrow> nat \<Rightarrow> nat \<Rightarrow> nat \<Rightarrow> nat \<Rightarrow> qty_parse_error + nat" where
  "scale_parts cap scale whole fraction missing_scale = (case checked_mul_cap cap whole scale of
      None \<Rightarrow> Inl QOverflow
    | Some raw \<Rightarrow> (case checked_mul_cap cap fraction missing_scale of
          None \<Rightarrow> Inl QOverflow
        | Some f \<Rightarrow> (case checked_add_cap cap raw f of None \<Rightarrow> Inl QOverflow | Some r \<Rightarrow> Inr r)))"

definition parse_wire :: "string \<Rightarrow> nat \<Rightarrow> qty_parse_error + px" where
  "parse_wire input decimals = (case px_scale decimals of
      None \<Rightarrow> Inl QTooManyDecimals
    | Some scale \<Rightarrow> (case parse_unsigned_decimal_parts input decimals of
          Inl e \<Rightarrow> Inl e
        | Inr (whole, fraction, frac_digits, seen_nonzero) \<Rightarrow>
            if \<not> seen_nonzero then Inl QNonPositive
            else case scale_parts u128_max scale whole fraction (the (px_scale (decimals - frac_digits))) of
              Inl e \<Rightarrow> Inl e
            | Inr raw \<Rightarrow>
                if i64_max < int raw then Inl QOverflow
                else if \<not> fits_wire (int raw) decimals then Inl QTooManySignificantFigures
                else Inr (int raw)))"

definition parse_wire_for_asset :: "string \<Rightarrow> nat \<Rightarrow> bool \<Rightarrow> qty_parse_error + px" where
  "parse_wire_for_asset input sz_decimals spot = (case wire_decimals sz_decimals spot of
      None \<Rightarrow> Inl QTooManyDecimals
    | Some decimals \<Rightarrow> parse_wire input decimals)"

definition wei_parse_decimal :: "string \<Rightarrow> nat \<Rightarrow> qty_parse_error + wei" where
  "wei_parse_decimal input decimals = (case wei_scale decimals of
      None \<Rightarrow> Inl QTooManyDecimals
    | Some scale \<Rightarrow> (case parse_unsigned_decimal_parts input decimals of
          Inl e \<Rightarrow> Inl e
        | Inr (whole, fraction, frac_digits, _) \<Rightarrow> (case scale_parts u128_max scale whole fraction (the (wei_scale (decimals - frac_digits))) of
              Inl e \<Rightarrow> Inl e
            | Inr raw \<Rightarrow> if u64_max < raw then Inl QOverflow else Inr raw)))"

text \<open>The decimal text of a number, as the standard library prints it.\<close>

fun dec_text :: "nat \<Rightarrow> string" where
  "dec_text n = (if n < 10 then [digit_char n] else dec_text (n div 10) @ [digit_char (n mod 10)])"

declare dec_text.simps [simp del]

fun frac_loop :: "nat \<Rightarrow> nat \<Rightarrow> nat \<Rightarrow> string" where
  "frac_loop 0 divisor remaining = []"
| "frac_loop (Suc digits_left) divisor remaining =
     digit_char (remaining div divisor) #
       (if remaining mod divisor = 0 then [] else frac_loop digits_left (divisor div 10) (remaining mod divisor))"

definition fmt_unsigned_scaled :: "nat \<Rightarrow> nat \<Rightarrow> nat \<Rightarrow> string" where
  "fmt_unsigned_scaled raw scale decimals =
     (let whole = raw div scale; fraction = raw mod scale in
      if decimals = 0 \<or> fraction = 0 then dec_text whole
      else dec_text whole @ CHR ''.'' # frac_loop decimals (scale div 10) fraction)"

definition fmt_signed_scaled :: "int \<Rightarrow> nat \<Rightarrow> nat \<Rightarrow> string" where
  "fmt_signed_scaled raw scale decimals = (if raw < 0 then ''-'' else '''') @ fmt_unsigned_scaled (unsigned_abs raw) scale decimals"

definition px_fmt_decimal :: "px \<Rightarrow> nat \<Rightarrow> string option" where
  "px_fmt_decimal px decimals = map_option (\<lambda>scale. fmt_signed_scaled px scale decimals) (px_scale decimals)"

definition wei_fmt_decimal :: "wei \<Rightarrow> nat \<Rightarrow> string option" where
  "wei_fmt_decimal w decimals = map_option (\<lambda>scale. fmt_unsigned_scaled w scale decimals) (wei_scale decimals)"

section \<open>Decimals of the crate\<close>

text \<open>The operations of \<open>rust_decimal::Decimal\<close> that the source calls, over its type of decimals.\<close>

record 'd decimal_ops =
  dec_checked_mul :: "'d \<Rightarrow> 'd \<Rightarrow> 'd option"
  dec_from :: "int \<Rightarrow> 'd"
  dec_fract_is_zero :: "'d \<Rightarrow> bool"
  dec_round :: "'d \<Rightarrow> 'd"
  dec_trunc :: "'d \<Rightarrow> 'd"
  dec_is_sign_negative :: "'d \<Rightarrow> bool"
  dec_to_i128 :: "'d \<Rightarrow> int option"
  dec_text_with_scale :: "int \<Rightarrow> nat \<Rightarrow> string"

definition decimal_to_scaled_i64 :: "'d decimal_ops \<Rightarrow> 'd \<Rightarrow> round_mode \<Rightarrow> nat \<Rightarrow> qty_parse_error + int" where
  "decimal_to_scaled_i64 ops decimal mode decimals = (case px_scale decimals of
      None \<Rightarrow> Inl QTooManyDecimals
    | Some scale \<Rightarrow> (case dec_checked_mul ops decimal (dec_from ops (int scale)) of
          None \<Rightarrow> Inl QTooManyDecimals
        | Some scaled \<Rightarrow>
            if mode = RejectFractional \<and> \<not> dec_fract_is_zero ops scaled then Inl QTooManyDecimals
            else let rounded = (case mode of RejectFractional \<Rightarrow> scaled | Round \<Rightarrow> dec_round ops scaled | Truncate \<Rightarrow> dec_trunc ops scaled) in
              if dec_is_sign_negative ops rounded then Inl QNegative
              else case dec_to_i128 ops rounded of
                     None \<Rightarrow> Inl QOverflow
                   | Some raw \<Rightarrow> if raw \<le> MAX_SCALED_I64 then Inr raw else Inl QOverflow))"

fun strip_scaled :: "nat \<Rightarrow> nat \<Rightarrow> nat \<times> nat" where
  "strip_scaled 0 value = (value, 0)"
| "strip_scaled (Suc scale) value = (if value mod 10 = 0 then strip_scaled scale (value div 10) else (value, Suc scale))"

text \<open>\<open>None\<close> is the panic of a negative quantity.\<close>

definition scaled_i64_8_to_decimal_string :: "'d decimal_ops \<Rightarrow> int \<Rightarrow> string option" where
  "scaled_i64_8_to_decimal_string ops raw =
     (if raw < 0 then None
      else case strip_scaled FP_DECIMALS (nat raw) of (value, scale) \<Rightarrow> Some (dec_text_with_scale ops (int value) scale))"

end
