(* ===== verification/Quantity_Text.thy ===== *)
theory Quantity_Text
  imports Quantity
begin

text \<open>
  The text of quantities.  A reference says which strings are decimal numerals and which rational a
  numeral denotes; the parsers accept exactly the numerals whose scaled value is a whole number in
  range, and printing gives a numeral of the quantity, so parsing what was printed gives it back.
\<close>

section \<open>Numerals\<close>

definition whole_part :: "string \<Rightarrow> string" where
  "whole_part s = takeWhile (\<lambda>c. c \<noteq> CHR ''.'') s"

definition frac_part :: "string \<Rightarrow> string" where
  "frac_part s = drop 1 (dropWhile (\<lambda>c. c \<noteq> CHR ''.'') s)"

definition digits_val :: "nat \<Rightarrow> string \<Rightarrow> nat" where
  "digits_val acc cs = foldl (\<lambda>a c. a * 10 + digit_of c) acc cs"

primrec frac_val :: "string \<Rightarrow> rat" where
  "frac_val [] = 0"
| "frac_val (c # cs) = (of_nat (digit_of c) + frac_val cs) / 10"

definition decimal_numeral :: "string \<Rightarrow> bool" where
  "decimal_numeral s \<longleftrightarrow> (\<forall>c \<in> set (whole_part s @ frac_part s). is_digit c) \<and> whole_part s @ frac_part s \<noteq> []"

definition decimal_value :: "string \<Rightarrow> rat" where
  "decimal_value s = of_nat (digits_val 0 (whole_part s)) + frac_val (frac_part s)"

definition some_nonzero :: "string \<Rightarrow> bool" where
  "some_nonzero cs \<longleftrightarrow> (\<exists>c \<in> set cs. digit_of c \<noteq> 0)"

lemma parts_Nil [simp]: "whole_part [] = []" "frac_part [] = []"
  by (simp_all add: whole_part_def frac_part_def)

lemma parts_dot [simp]: "whole_part (CHR ''.'' # cs) = []" "frac_part (CHR ''.'' # cs) = cs"
  by (simp_all add: whole_part_def frac_part_def)

lemma parts_Cons [simp]: "c \<noteq> CHR ''.'' \<Longrightarrow> whole_part (c # cs) = c # whole_part cs" "c \<noteq> CHR ''.'' \<Longrightarrow> frac_part (c # cs) = frac_part cs"
  by (simp_all add: whole_part_def frac_part_def)

lemma some_nonzero_simps [simp]: "\<not> some_nonzero []" "some_nonzero (c # cs) = (digit_of c \<noteq> 0 \<or> some_nonzero cs)"
    "some_nonzero (cs @ ds) = (some_nonzero cs \<or> some_nonzero ds)"
  by (auto simp: some_nonzero_def)

lemma digits_val_simps [simp]: "digits_val acc [] = acc" "digits_val acc (c # cs) = digits_val (acc * 10 + digit_of c) cs"
    "digits_val acc (cs @ [c]) = digits_val acc cs * 10 + digit_of c"
  by (simp_all add: digits_val_def)

lemma digit_of_le: "is_digit c \<Longrightarrow> digit_of c \<le> 9"
  by (auto simp: is_digit_def digit_of_def)

lemma digits_val_ge: "acc \<le> digits_val acc cs"
proof (induction cs arbitrary: acc)
  case (Cons c cs)
  have "acc \<le> acc * 10 + digit_of c" by simp
  also have "\<dots> \<le> digits_val (acc * 10 + digit_of c) cs" by (rule Cons.IH)
  finally show ?case by simp
qed simp

lemma digits_val_zero: "digits_val acc cs = 0 \<longleftrightarrow> acc = 0 \<and> \<not> some_nonzero cs"
  by (induction cs arbitrary: acc) auto

lemma frac_val_nonneg: "0 \<le> frac_val cs"
  by (induction cs) auto

lemma frac_val_less_1: "\<forall>c \<in> set cs. is_digit c \<Longrightarrow> frac_val cs < 1"
proof (induction cs)
  case (Cons c cs)
  then have "frac_val cs < 1" and "(of_nat (digit_of c) :: rat) \<le> 9"
    using digit_of_le [of c] of_nat_mono [of "digit_of c" 9, where 'a = rat] by simp_all
  then show ?case by simp
qed simp

lemma frac_val_zero: "frac_val cs = 0 \<longleftrightarrow> \<not> some_nonzero cs"
proof (induction cs)
  case (Cons c cs)
  have "frac_val (c # cs) = 0 \<longleftrightarrow> digit_of c = 0 \<and> frac_val cs = 0"
    using frac_val_nonneg [of cs] by (simp add: add_nonneg_eq_0_iff)
  with Cons show ?case by simp
qed simp

lemma frac_whole: "\<forall>c \<in> set cs. is_digit c \<Longrightarrow> of_nat f + frac_val cs = (of_nat n :: rat) \<longleftrightarrow> f = n \<and> frac_val cs = 0"
proof (intro iffI)
  assume d: "\<forall>c \<in> set cs. is_digit c" and e: "of_nat f + frac_val cs = (of_nat n :: rat)"
  have "(of_nat f :: rat) \<le> of_nat n" "(of_nat n :: rat) < of_nat (f + 1)"
    using e frac_val_nonneg [of cs] frac_val_less_1 [OF d] by simp_all
  then have "f = n" unfolding of_nat_le_iff of_nat_less_iff by simp
  with e show "f = n \<and> frac_val cs = 0" by simp
qed simp

section \<open>The loop of the parser\<close>

text \<open>The parts with the fraction brought to the requested number of decimals.\<close>

definition scaled_parts :: "nat \<Rightarrow> qty_parse_error + nat \<times> nat \<times> nat \<times> bool \<Rightarrow> (nat \<times> nat \<times> bool) option" where
  "scaled_parts d r = (case r of Inl _ \<Rightarrow> None | Inr (w, f, fd, nz) \<Rightarrow> Some (w, f * 10 ^ (d - fd), nz))"

lemma push_digit: "push_digit cap a c = (if a * 10 + c \<le> cap then Some (a * 10 + c) else None)"
  by (auto simp: push_digit_def checked_mul_cap_def checked_add_cap_def)

lemma push_small: "a < 10 ^ n \<Longrightarrow> n < d \<Longrightarrow> 10 ^ d \<le> cap \<Longrightarrow> c \<le> 9 \<Longrightarrow> push_digit cap a c = Some (a * 10 + c)"
proof -
  assume a: "a < 10 ^ n" "n < d" "10 ^ d \<le> cap" "c \<le> 9"
  have "a * 10 + c < 10 ^ Suc n" using a(1,4) by simp
  also have "(10 :: nat) ^ Suc n \<le> 10 ^ d" using a(2) by (intro power_increasing) simp_all
  finally show ?thesis using a(3) by (simp add: push_digit)
qed

lemma not_digit_dot [simp]: "\<not> is_digit CHR ''.''"
  by (simp add: is_digit_def)

lemma parse_full:
  "scaled_parts d (parse_loop cap d cs w f d True dig nz) = Some (w', n, nz') \<longleftrightarrow>
    (\<forall>c \<in> set cs. is_digit c) \<and> (dig \<or> cs \<noteq> []) \<and> w' = w \<and> f = n \<and> \<not> some_nonzero cs \<and> nz' = nz"
  by (induction cs arbitrary: dig nz) (auto simp: scaled_parts_def Let_def)

lemma parse_fraction:
  "fd \<le> d \<Longrightarrow> 10 ^ d \<le> cap \<Longrightarrow> f < 10 ^ fd \<Longrightarrow>
    scaled_parts d (parse_loop cap d cs w f fd True dig nz) = Some (w', n, nz') \<longleftrightarrow>
    (\<forall>c \<in> set cs. is_digit c) \<and> (dig \<or> cs \<noteq> []) \<and> w' = w \<and> (of_nat f + frac_val cs) * 10 ^ (d - fd) = (of_nat n :: rat)
    \<and> nz' = (nz \<or> some_nonzero cs)"
proof (induction cs arbitrary: f fd dig nz)
  case Nil
  have "(of_nat f :: rat) * 10 ^ (d - fd) = of_nat (f * 10 ^ (d - fd))" by simp
  then have "(of_nat f :: rat) * 10 ^ (d - fd) = of_nat n \<longleftrightarrow> f * 10 ^ (d - fd) = n" by (simp only: of_nat_eq_iff)
  then show ?case by (auto simp: scaled_parts_def)
next
  case (Cons c cs)
  show ?case
  proof (cases "is_digit c")
    case False
    then show ?thesis by (auto simp: scaled_parts_def)
  next
    case digit: True
    then have dot: "c \<noteq> CHR ''.''" by auto
    show ?thesis
    proof (cases "fd = d")
      case True
      have "(\<forall>x \<in> set cs. is_digit x) \<Longrightarrow> of_nat f + frac_val (c # cs) = (of_nat n :: rat) \<longleftrightarrow> f = n \<and> \<not> some_nonzero (c # cs)"
        using frac_whole [of "c # cs" f n] frac_val_zero [of "c # cs"] digit by simp
      then show ?thesis using parse_full [of d cap "c # cs" w f dig nz w' n nz'] digit True by auto
    next
      case False
      let ?f = "f * 10 + digit_of c"
      have fd: "Suc fd \<le> d" "d - fd = Suc (d - Suc fd)" using Cons.prems(1) False by simp_all
      have f: "?f < 10 ^ Suc fd" using Cons.prems(3) digit_of_le [OF digit] by simp
      have step: "parse_loop cap d (c # cs) w f fd True dig nz = parse_loop cap d cs w ?f (Suc fd) True True (nz \<or> digit_of c \<noteq> 0)"
        using digit dot False push_small [OF Cons.prems(3) _ Cons.prems(2) digit_of_le [OF digit]] fd(1) by (simp add: Let_def)
      have "(of_nat f + frac_val (c # cs)) * 10 ^ (d - fd) = (of_nat ?f + frac_val cs) * (10 :: rat) ^ (d - Suc fd)"
        unfolding fd(2) by (simp add: algebra_simps)
      with Cons.IH [OF fd(1) Cons.prems(2) f, of True "nz \<or> digit_of c \<noteq> 0"] step digit show ?thesis
        by (simp del: parse_loop.simps frac_val.simps)
    qed
  qed
qed

lemma parse_whole:
  "10 ^ d \<le> cap \<Longrightarrow> w \<le> cap \<Longrightarrow>
    scaled_parts d (parse_loop cap d cs w 0 0 False dig nz) = Some (w', n, nz') \<longleftrightarrow>
    (\<forall>c \<in> set (whole_part cs @ frac_part cs). is_digit c) \<and> (dig \<or> whole_part cs @ frac_part cs \<noteq> [])
    \<and> w' = digits_val w (whole_part cs) \<and> w' \<le> cap \<and> frac_val (frac_part cs) * 10 ^ d = (of_nat n :: rat)
    \<and> nz' = (nz \<or> some_nonzero (whole_part cs @ frac_part cs))"
proof (induction cs arbitrary: w dig nz)
  case Nil
  then show ?case by (auto simp: scaled_parts_def)
next
  case (Cons c cs)
  consider "c = CHR ''.''" | "c \<noteq> CHR ''.''" "\<not> is_digit c" | "c \<noteq> CHR ''.''" "is_digit c" by blast
  then show ?case
  proof cases
    case 1
    have "scaled_parts d (parse_loop cap d (c # cs) w 0 0 False dig nz) = scaled_parts d (parse_loop cap d cs w 0 0 True dig nz)"
      by (simp add: 1)
    with parse_fraction [of 0 d cap 0 cs w dig nz w' n nz'] Cons.prems show ?thesis by (auto simp: 1)
  next
    case 2
    then show ?thesis by (auto simp: scaled_parts_def)
  next
    case 3
    let ?w = "w * 10 + digit_of c"
    show ?thesis
    proof (cases "?w \<le> cap")
      case True
      with 3 have "parse_loop cap d (c # cs) w 0 0 False dig nz = parse_loop cap d cs ?w 0 0 False True (nz \<or> digit_of c \<noteq> 0)"
        by (simp add: push_digit Let_def)
      with Cons.IH [OF Cons.prems(1) True] 3 show ?thesis by (simp del: parse_loop.simps)
    next
      case False
      with 3 have "parse_loop cap d (c # cs) w 0 0 False dig nz = Inl QOverflow" by (simp add: push_digit)
      moreover have "cap < digits_val ?w (whole_part cs)"
        using False digits_val_ge [of ?w "whole_part cs"] by linarith
      ultimately show ?thesis using 3 by (auto simp: scaled_parts_def)
    qed
  qed
qed

lemma parse_parts_exact:
  assumes "10 ^ d \<le> cap"
  shows "scaled_parts d (parse_parts cap s d) = Some (w, n, nz) \<longleftrightarrow>
    decimal_numeral s \<and> w = digits_val 0 (whole_part s) \<and> w \<le> cap \<and> frac_val (frac_part s) * 10 ^ d = (of_nat n :: rat)
    \<and> nz = some_nonzero (whole_part s @ frac_part s)"
proof (cases s)
  case Nil
  then show ?thesis by (simp add: parse_parts_def scaled_parts_def decimal_numeral_def)
next
  case (Cons c cs)
  have no: "\<not> is_digit CHR ''-''" "\<not> is_digit CHR ''+''" by (simp_all add: is_digit_def)
  show ?thesis
  proof (cases "c = CHR ''-'' \<or> c = CHR ''+''")
    case True
    then have "parse_parts cap s d \<in> range Inl" by (auto simp: Cons parse_parts_def)
    moreover have "\<not> decimal_numeral s" using True no by (auto simp: Cons decimal_numeral_def)
    ultimately show ?thesis by (auto simp: scaled_parts_def)
  next
    case False
    then have "parse_parts cap s d = parse_loop cap d s 0 0 0 False False False"
      by (simp add: Cons parse_parts_def del: parse_loop.simps)
    with parse_whole [OF assms, of 0 s False False w n nz] show ?thesis by (auto simp: decimal_numeral_def)
  qed
qed

section \<open>The parsers\<close>

lemma scale_parts_exact: "0 < k \<Longrightarrow> scale_parts cap k w f m = (if w * k + f * m \<le> cap then Inr (w * k + f * m) else Inl QOverflow)"
  by (auto simp: scale_parts_def checked_mul_cap_def checked_add_cap_def)

lemma cap_powers: "d < 20 \<Longrightarrow> 10 ^ d \<le> u64_max" "d < 39 \<Longrightarrow> 10 ^ d \<le> u128_max" "d < 19 \<Longrightarrow> 10 ^ d \<le> nat i64_max"
proof -
  have p: "(10 :: nat) ^ d \<le> 10 ^ k" if "d \<le> k" for k using that by (intro power_increasing) simp_all
  show "10 ^ d \<le> u64_max" if "d < 20" by (rule order_trans [OF p [of 19]]) (use that in \<open>simp_all add: u64_max_def\<close>)
  show "10 ^ d \<le> u128_max" if "d < 39" by (rule order_trans [OF p [of 38]]) (use that in \<open>simp_all add: u128_max_def\<close>)
  show "10 ^ d \<le> nat i64_max" if "d < 19" by (rule order_trans [OF p [of 18]]) (use that in \<open>simp_all add: i64_max_def\<close>)
qed

lemma u64_below_u128: "u64_max \<le> u128_max"
  by (simp add: u64_max_def u128_max_def)

text \<open>What every parser computes before its own checks.\<close>

definition parse_scaled :: "nat \<Rightarrow> string \<Rightarrow> nat \<Rightarrow> (nat \<times> bool) option" where
  "parse_scaled cap s d = (case parse_parts cap s d of Inl _ \<Rightarrow> None
    | Inr (w, f, fd, nz) \<Rightarrow> (case scale_parts cap (10 ^ d) w f (10 ^ (d - fd)) of Inl _ \<Rightarrow> None | Inr v \<Rightarrow> Some (v, nz)))"

lemma nonzero_value: "some_nonzero (whole_part s @ frac_part s) \<longleftrightarrow> 0 < decimal_value s"
proof -
  have "decimal_value s = 0 \<longleftrightarrow> \<not> some_nonzero (whole_part s @ frac_part s)"
    unfolding decimal_value_def by (subst add_nonneg_eq_0_iff) (simp_all add: frac_val_nonneg frac_val_zero digits_val_zero)
  moreover have "0 \<le> decimal_value s" by (simp add: decimal_value_def frac_val_nonneg)
  ultimately show ?thesis by linarith
qed

lemma parse_scaled_iff:
  assumes "10 ^ d \<le> cap"
  shows "parse_scaled cap s d = Some (v, nz) \<longleftrightarrow>
    decimal_numeral s \<and> decimal_value s * 10 ^ d = of_nat v \<and> v \<le> cap \<and> nz = (0 < decimal_value s)"
proof
  assume "parse_scaled cap s d = Some (v, nz)"
  then obtain w f fd where p: "parse_parts cap s d = Inr (w, f, fd, nz)" and v: "v = w * 10 ^ d + f * 10 ^ (d - fd)" "v \<le> cap"
    by (auto simp: parse_scaled_def scale_parts_exact split: sum.splits if_splits)
  have q: "decimal_numeral s" "w = digits_val 0 (whole_part s)" "frac_val (frac_part s) * 10 ^ d = (of_nat (f * 10 ^ (d - fd)) :: rat)"
    "nz = some_nonzero (whole_part s @ frac_part s)"
    using parse_parts_exact [OF assms, of s w "f * 10 ^ (d - fd)" nz] p by (auto simp: scaled_parts_def)
  have "decimal_value s * 10 ^ d = of_nat v" using q(2,3) by (simp add: decimal_value_def distrib_right v(1))
  with q(1,4) v(2) show "decimal_numeral s \<and> decimal_value s * 10 ^ d = of_nat v \<and> v \<le> cap \<and> nz = (0 < decimal_value s)"
    using nonzero_value [of s] by simp
next
  let ?w = "digits_val 0 (whole_part s)" and ?f = "frac_val (frac_part s) * 10 ^ d"
  assume v: "decimal_numeral s \<and> decimal_value s * 10 ^ d = of_nat v \<and> v \<le> cap \<and> nz = (0 < decimal_value s)"
  then have e: "of_nat (?w * 10 ^ d) + ?f = of_nat v" by (simp add: decimal_value_def algebra_simps)
  have "0 \<le> ?f" using frac_val_nonneg [of "frac_part s"] by simp
  with e have le: "?w * 10 ^ d \<le> v" using of_nat_le_iff [of "?w * 10 ^ d" v, where 'a = rat] by linarith
  then have f: "?f = of_nat (v - ?w * 10 ^ d)" using e by (simp add: of_nat_diff)
  have "?w * 1 \<le> ?w * 10 ^ d" by (rule mult_le_mono2) simp
  then have "?w \<le> cap" using le v by linarith
  then have "scaled_parts d (parse_parts cap s d) = Some (?w, v - ?w * 10 ^ d, nz)"
    using parse_parts_exact [OF assms, of s ?w "v - ?w * 10 ^ d" nz] v f nonzero_value [of s] by simp
  then obtain g gd where p: "parse_parts cap s d = Inr (?w, g, gd, nz)" and g: "g * 10 ^ (d - gd) = v - ?w * 10 ^ d"
    by (auto simp: scaled_parts_def split: sum.splits)
  have "?w * 10 ^ d + g * 10 ^ (d - gd) = v" using g le by simp
  with p v show "parse_scaled cap s d = Some (v, nz)" by (simp add: parse_scaled_def scale_parts_exact)
qed

lemma wei_parse_iff:
  "wei_parse_decimal s d = Inr v \<longleftrightarrow> d < 20 \<and> decimal_numeral s \<and> decimal_value s * 10 ^ d = of_nat v \<and> v \<le> u64_max"
proof (cases "d < 20")
  case d: True
  then have scale: "wei_scale d = Some (10 ^ d)" "the (wei_scale (d - k)) = 10 ^ (d - k)" for k by (auto simp: wei_scale_def)
  have "wei_parse_decimal s d = Inr v \<longleftrightarrow> (\<exists>nz. parse_scaled u128_max s d = Some (v, nz)) \<and> v \<le> u64_max"
    by (auto simp: wei_parse_decimal_def parse_scaled_def parse_unsigned_decimal_parts_def scale split: sum.splits)
  with parse_scaled_iff [OF cap_powers(2), of d s v] d u64_below_u128 show ?thesis by auto
qed (simp add: wei_parse_decimal_def wei_scale_def)

section \<open>Significant figures\<close>

lemma strip_zeros_works: "0 < n \<Longrightarrow> \<exists>k. n = strip_zeros n * 10 ^ k \<and> strip_zeros n mod 10 \<noteq> 0"
proof (induction n rule: strip_zeros.induct)
  case (1 n)
  show ?case
  proof (cases "n mod 10 = 0")
    case True
    then have "strip_zeros n = strip_zeros (n div 10)" "n = n div 10 * 10" using 1(2) by (simp_all add: strip_zeros.simps [of n] mod_0_imp_dvd)
    moreover have "0 < n div 10" using True 1(2) by presburger
    then obtain k where "n div 10 = strip_zeros (n div 10) * 10 ^ k" "strip_zeros (n div 10) mod 10 \<noteq> 0"
      using 1(1) True 1(2) by auto
    ultimately have "n = strip_zeros n * 10 ^ Suc k \<and> strip_zeros n mod 10 \<noteq> 0" by (metis mult.assoc power_Suc2)
    then show ?thesis by blast
  next
    case False
    then have "strip_zeros n = n" by (subst strip_zeros.simps) simp
    with False show ?thesis by (intro exI [of _ 0]) simp
  qed
qed

lemma count_digits_le: "count_digits n \<le> k \<longleftrightarrow> n < 10 ^ k"
proof (induction n arbitrary: k rule: count_digits.induct)
  case (1 n)
  show ?case
  proof (cases "n = 0")
    case False
    with 1 show ?thesis
      by (cases k) (auto simp: count_digits.simps [of n] less_mult_imp_div_less div_less_iff_less_mult mult.commute)
  qed (simp add: count_digits.simps)
qed

text \<open>At most five significant figures: a number below 100000 followed by zeros.\<close>

lemma fits_wire_iff: "fits_wire p d \<longleftrightarrow> 0 < p \<and> d < 19 \<and> (\<exists>m k. p = int (m * 10 ^ k) \<and> m < 100000)"
proof -
  have "(\<exists>m k. p = int (m * 10 ^ k) \<and> m < 100000) \<longleftrightarrow> strip_zeros (nat p) < 100000" if "0 < p"
  proof
    obtain k where k: "nat p = strip_zeros (nat p) * 10 ^ k" "strip_zeros (nat p) mod 10 \<noteq> 0"
      using strip_zeros_works [of "nat p"] \<open>0 < p\<close> by auto
    show "\<exists>m k. p = int (m * 10 ^ k) \<and> m < 100000" if "strip_zeros (nat p) < 100000"
      using k(1) \<open>0 < p\<close> that by (intro exI [of _ "strip_zeros (nat p)"] exI [of _ k]) simp
    assume "\<exists>m k. p = int (m * 10 ^ k) \<and> m < 100000"
    then obtain m j where m: "nat p = m * 10 ^ j" "m < 100000" using \<open>0 < p\<close> by (metis nat_int)
    have "j \<le> k"
    proof (rule ccontr)
      assume "\<not> j \<le> k"
      then have "10 ^ j = (10 :: nat) ^ k * (10 * 10 ^ (j - Suc k))" by (simp flip: power_Suc power_add)
      with k(1) m(1) have "strip_zeros (nat p) * 10 ^ k = (m * 10 ^ (j - Suc k) * 10) * 10 ^ k" by (simp add: algebra_simps)
      then have "strip_zeros (nat p) = m * 10 ^ (j - Suc k) * 10" by simp
      with k(2) show False by simp
    qed
    then have "10 ^ k = (10 :: nat) ^ j * 10 ^ (k - j)" by (simp flip: power_add)
    with k(1) m(1) have "strip_zeros (nat p) * 10 ^ (k - j) * 10 ^ j = m * 10 ^ j" by (simp add: algebra_simps)
    then have "strip_zeros (nat p) * 10 ^ (k - j) = m" by simp
    then have "strip_zeros (nat p) \<le> m" using mult_le_mono2 [of 1 "10 ^ (k - j)" "strip_zeros (nat p)"] by simp
    with m(2) show "strip_zeros (nat p) < 100000" by simp
  qed
  then show ?thesis
    by (auto simp: fits_wire_def px_scale_def count_digits_le MAX_WIRE_SIGNIFICANT_FIGURES_def)
qed

lemma px_parse_iff:
  "parse_wire s d = Inr p \<longleftrightarrow> d < 19 \<and> decimal_numeral s \<and> decimal_value s * 10 ^ d = of_int p \<and> 0 < p \<and> p \<le> i64_max
    \<and> (\<exists>m k. p = int (m * 10 ^ k) \<and> m < 100000)"
proof (cases "d < 19 \<and> 0 < p")
  case True
  then have d: "d < 19" "d < 39" and p: "p = int (nat p)" "(of_int p :: rat) = of_nat (nat p)" by simp_all
  have scale: "px_scale d = Some (10 ^ d)" "the (px_scale (d - k)) = 10 ^ (d - k)" for k using d by (auto simp: px_scale_def)
  have "parse_wire s d = Inr p \<longleftrightarrow> parse_scaled u128_max s d = Some (nat p, True) \<and> p \<le> i64_max \<and> fits_wire p d"
    using True by (auto simp: parse_wire_def parse_scaled_def parse_unsigned_decimal_parts_def scale split: sum.splits)
  moreover have "nat p \<le> u128_max" if "p \<le> i64_max" using that by (simp add: i64_max_def u128_max_def)
  moreover have "0 < decimal_value s" if "decimal_value s * 10 ^ d = of_nat (nat p)"
  proof -
    have "0 < decimal_value s * 10 ^ d" unfolding that using True by simp
    then show ?thesis by (simp add: zero_less_mult_iff)
  qed
  ultimately show ?thesis using parse_scaled_iff [OF cap_powers(2) [OF d(2)], of s "nat p" True] fits_wire_iff [of p d] True
    unfolding p(2) by auto
next
  case False
  have "\<not> fits_wire (int r) d" if "d < 19" "\<not> 0 < int r" for r using that by (simp add: fits_wire_iff)
  with False show ?thesis by (auto simp: parse_wire_def px_scale_def split: sum.splits if_splits)
qed

section \<open>Printing\<close>

lemma digit_of_char [simp]: "d \<le> 9 \<Longrightarrow> digit_of (digit_char d) = d"
  by (simp add: digit_of_def digit_char_def)

lemma is_digit_char [simp]: "d \<le> 9 \<Longrightarrow> is_digit (digit_char d)"
  by (simp add: is_digit_def digit_char_def)

lemma dec_text_numeral: "(\<forall>c \<in> set (dec_text n). is_digit c) \<and> digits_val 0 (dec_text n) = n \<and> dec_text n \<noteq> []"
proof (induction n rule: dec_text.induct)
  case (1 n)
  show ?case
  proof (cases "n < 10")
    case False
    have "n mod 10 \<le> 9" using mod_less_divisor [of 10 n] by linarith
    with 1 [OF False] False show ?thesis by (simp add: dec_text.simps [of n])
  qed (simp add: dec_text.simps [of n])
qed

lemma frac_loop_numeral:
  "r < 10 ^ Suc k \<Longrightarrow> (\<forall>c \<in> set (frac_loop (Suc k) (10 ^ k) r). is_digit c) \<and> frac_val (frac_loop (Suc k) (10 ^ k) r) = of_nat r / 10 ^ Suc k"
proof (induction k arbitrary: r)
  case 0
  then show ?case by simp
next
  case (Suc k)
  let ?q = "r div 10 ^ Suc k" and ?m = "r mod 10 ^ Suc k"
  have q: "?q \<le> 9" using Suc.prems less_mult_imp_div_less [of r 10 "10 ^ Suc k"] by simp
  have m: "?m < 10 ^ Suc k" by simp
  have "(of_nat r :: rat) = of_nat (?q * 10 ^ Suc k + ?m)" by (simp only: div_mult_mod_eq)
  then have r: "(of_nat r :: rat) = of_nat ?q * 10 ^ Suc k + of_nat ?m" by (simp only: of_nat_add of_nat_mult of_nat_power of_nat_numeral)
  have d: "(10 :: nat) ^ Suc k div 10 = 10 ^ k" by simp
  have loop: "frac_loop (Suc (Suc k)) (10 ^ Suc k) r = digit_char ?q # (if ?m = 0 then [] else frac_loop (Suc k) (10 ^ k) ?m)"
    by (simp only: frac_loop.simps(2) [of "Suc k"] d)
  show ?case
  proof (cases "?m = 0")
    case True
    with q r show ?thesis unfolding loop by (simp add: field_simps)
  next
    case False
    with Suc.IH [OF m] q show ?thesis unfolding loop r by (simp add: field_simps del: frac_loop.simps)
  qed
qed

lemma whole_part_append: "CHR ''.'' \<notin> set cs \<Longrightarrow> whole_part (cs @ CHR ''.'' # ds) = cs \<and> frac_part (cs @ CHR ''.'' # ds) = ds"
  by (induction cs) auto

lemma whole_part_only: "CHR ''.'' \<notin> set cs \<Longrightarrow> whole_part cs = cs \<and> frac_part cs = []"
  by (induction cs) auto

lemma fmt_numeral: "decimal_numeral (fmt_unsigned_scaled n (10 ^ d) d) \<and> decimal_value (fmt_unsigned_scaled n (10 ^ d) d) * 10 ^ d = of_nat n"
proof -
  let ?w = "n div 10 ^ d" and ?f = "n mod 10 ^ d"
  note t = dec_text_numeral [of ?w]
  have dot: "CHR ''.'' \<notin> set (dec_text ?w)" using t by auto
  have "(of_nat n :: rat) = of_nat (?w * 10 ^ d + ?f)" by (simp only: div_mult_mod_eq)
  then have n: "(of_nat n :: rat) = of_nat ?w * 10 ^ d + of_nat ?f" by (simp only: of_nat_add of_nat_mult of_nat_power of_nat_numeral)
  show ?thesis
  proof (cases "d = 0 \<or> ?f = 0")
    case True
    then have f: "?f = 0" by auto
    have "fmt_unsigned_scaled n (10 ^ d) d = dec_text ?w" using True by (simp add: fmt_unsigned_scaled_def)
    with t n f whole_part_only [OF dot] show ?thesis by (simp add: decimal_numeral_def decimal_value_def)
  next
    case False
    then obtain k where k: "d = Suc k" by (cases d) auto
    have s: "fmt_unsigned_scaled n (10 ^ d) d = dec_text ?w @ CHR ''.'' # frac_loop (Suc k) (10 ^ k) ?f"
      using False by (simp add: fmt_unsigned_scaled_def k del: frac_loop.simps)
    have fl: "(\<forall>c \<in> set (frac_loop (Suc k) (10 ^ k) ?f). is_digit c)" "frac_val (frac_loop (Suc k) (10 ^ k) ?f) = of_nat ?f / 10 ^ d"
      using frac_loop_numeral [of ?f k] by (simp_all add: k del: frac_loop.simps)
    have parts: "whole_part (fmt_unsigned_scaled n (10 ^ d) d) = dec_text ?w" "frac_part (fmt_unsigned_scaled n (10 ^ d) d) = frac_loop (Suc k) (10 ^ k) ?f"
      using whole_part_append [OF dot] unfolding s by blast+
    show ?thesis unfolding decimal_numeral_def decimal_value_def parts
      using t fl n by (auto simp: field_simps simp del: frac_loop.simps)
  qed
qed

text \<open>Texts of wei and prices read back, by whichever parser.\<close>

lemma wei_text: "d < 20 \<Longrightarrow> \<exists>s. wei_fmt_decimal w d = Some s \<and> decimal_numeral s \<and> decimal_value s * 10 ^ d = of_nat w"
  using fmt_numeral [of w d] by (simp add: wei_fmt_decimal_def wei_scale_def)

lemma px_text: "d < 19 \<Longrightarrow> 0 < p \<Longrightarrow> \<exists>s. px_fmt_decimal p d = Some s \<and> decimal_numeral s \<and> decimal_value s * 10 ^ d = of_int p"
proof -
  assume d: "d < 19" and p: "0 < p"
  then have "fmt_signed_scaled p (10 ^ d) d = fmt_unsigned_scaled (nat p) (10 ^ d) d"
    by (simp add: fmt_signed_scaled_def unsigned_abs_def)
  with d p fmt_numeral [of "nat p" d] show ?thesis by (simp add: px_fmt_decimal_def px_scale_def)
qed

end
