(* ===== verification/Quantity_Properties.thy ===== *)
theory Quantity_Properties
  imports Quantity_Text
begin

text \<open>
  Rounding of quantities: notionals are the rounded quotient the mode names, ticks and increments give
  the neighbouring multiple, and the visible bucket keeps leading figures, not always the same number.
\<close>

section \<open>Rounded quotients\<close>

text \<open>The integer \<open>r\<close> that a rounding mode gives for the quotient of \<open>n\<close> and \<open>d\<close>; ties go up.\<close>

definition rounds_to :: "round_mode \<Rightarrow> int \<Rightarrow> int \<Rightarrow> int \<Rightarrow> bool" where
  "rounds_to mode n d r = (case mode of
      RejectFractional \<Rightarrow> r * d = n
    | Truncate \<Rightarrow> r * d \<le> n \<and> n < r * d + d
    | Round \<Rightarrow> 2 * (r * d) - d \<le> 2 * n \<and> 2 * n < 2 * (r * d) + d)"

lemma quotient_unique:
  assumes "0 < (d :: int)" and "r * d \<le> n" and "n < r * d + d"
  shows "n div d = r"
proof -
  have "n = r * d + (n - r * d)" by simp
  moreover have "0 \<le> n - r * d" "n - r * d < d" using assms by simp_all
  ultimately show ?thesis using assms(1) by (metis add.commute div_mult_self1 div_pos_pos_trivial add.right_neutral order_less_irrefl add_0)
qed

lemma quotient_le: "0 \<le> (n :: int) \<Longrightarrow> 0 < d \<Longrightarrow> n div d \<le> n"
  using zdiv_mono2 [of n 1 d] by simp

lemma div_round_nonnegative_exact:
  assumes "0 \<le> n" and "0 < d" and "2 * d \<le> i128_max" and "n \<le> i128_max - 1"
  shows "div_round_nonnegative n d mode = Some r \<longleftrightarrow> rounds_to mode n d r"
proof -
  let ?q = "n div d" and ?m = "n mod d"
  have n: "n = ?q * d + ?m" by simp
  have m: "0 \<le> ?m" "?m < d" using assms(2) by simp_all
  have q: "0 \<le> ?q" "?q \<le> n" using assms(1,2) by (simp_all add: pos_imp_zdiv_nonneg_iff quotient_le)
  have uniq: "r = ?q" if "r * d \<le> n" "n < r * d + d" using quotient_unique [OF assms(2) that] by simp
  have fit: "checked_i128 (?m * 2) = Some (?m * 2)" "checked_i128 (?q + 1) = Some (?q + 1)"
  proof -
    have "in_i128 (?m * 2)" "in_i128 (?q + 1)" unfolding in_i128_def using m q assms by linarith+
    then show "checked_i128 (?m * 2) = Some (?m * 2)" "checked_i128 (?q + 1) = Some (?q + 1)" by (simp_all add: checked_i128_def)
  qed
  show ?thesis
  proof (cases mode)
    case RejectFractional
    have "r * d = n \<longleftrightarrow> ?m = 0 \<and> ?q = r" using assms(2) n by auto
    with RejectFractional assms(1,2) show ?thesis by (auto simp: div_round_nonnegative_def rounds_to_def)
  next
    case Truncate
    have "?q * d \<le> n" "n < ?q * d + d" using n m by linarith+
    then have "r * d \<le> n \<and> n < r * d + d \<longleftrightarrow> ?q = r" using uniq by blast
    with Truncate assms(1,2) show ?thesis by (simp add: div_round_nonnegative_def rounds_to_def)
  next
    case Round
    show ?thesis
    proof (cases "d \<le> ?m * 2")
      case True
      have "2 * (r * d) - d \<le> 2 * n \<and> 2 * n < 2 * (r * d) + d \<longleftrightarrow> ?q + 1 = r"
      proof
        assume a: "2 * (r * d) - d \<le> 2 * n \<and> 2 * n < 2 * (r * d) + d"
        have "n < r * d"
        proof (rule ccontr)
          assume "\<not> n < r * d"
          then have "r * d \<le> n" "n < r * d + d" using a assms(2) by linarith+
          then have "r * d = ?q * d" using uniq by simp
          then show False using a True n by linarith
        qed
        then have "(r - 1) * d \<le> n" "n < (r - 1) * d + d" using a assms(2) by (simp_all add: left_diff_distrib)
        from quotient_unique [OF assms(2) this] show "?q + 1 = r" by simp
      next
        assume "?q + 1 = r"
        then have "r * d = ?q * d + d" by (auto simp: distrib_right)
        then show "2 * (r * d) - d \<le> 2 * n \<and> 2 * n < 2 * (r * d) + d" using True n m by linarith
      qed
      with Round True assms(1,2) fit show ?thesis by (simp add: div_round_nonnegative_def rounds_to_def Let_def)
    next
      case False
      have "2 * (r * d) - d \<le> 2 * n \<and> 2 * n < 2 * (r * d) + d \<longleftrightarrow> ?q = r"
      proof
        assume a: "2 * (r * d) - d \<le> 2 * n \<and> 2 * n < 2 * (r * d) + d"
        then have "r * d - d < n" "n < r * d + d" using assms(2) by linarith+
        show "?q = r"
        proof (rule ccontr)
          assume "?q \<noteq> r"
          then have "n < r * d" using uniq \<open>n < r * d + d\<close> by fastforce
          with \<open>r * d - d < n\<close> have "?q = r - 1" by (intro quotient_unique [OF assms(2)]) (simp_all add: left_diff_distrib)
          then have "r = ?q + 1" by simp
          then have "r * d = (?q + 1) * d" by (simp only:)
          then have "r * d = ?q * d + d" by (simp add: distrib_right)
          with a n False show False by linarith
        qed
      next
        assume "?q = r"
        then have "r * d = ?q * d" by simp
        then show "2 * (r * d) - d \<le> 2 * n \<and> 2 * n < 2 * (r * d) + d" using False n m by linarith
      qed
      with Round False assms(1,2) fit show ?thesis by (simp add: div_round_nonnegative_def rounds_to_def Let_def)
    qed
  qed
qed

lemma usdc_notional_mul_size: "usdc_notional_from_px_sz = mul_size"
  by (simp add: fun_eq_iff usdc_notional_from_px_sz_def mul_size_def)

lemma product_fits:
  assumes "0 \<le> p" and "p \<le> i64_max" and "s \<le> u64_max"
  shows "0 \<le> p * int s" and "p * int s \<le> i128_max - 1"
proof -
  have "int s \<le> 2 ^ 64 - 1" using assms(3) by (simp add: u64_max_def)
  then have "p * int s \<le> (2 ^ 63 - 1) * (2 ^ 64 - 1)" using assms(1,2) by (intro mult_mono) (simp_all add: i64_max_def)
  then show "p * int s \<le> i128_max - 1" by (simp add: i128_max_def)
  show "0 \<le> p * int s" using assms(1) by simp
qed

lemma mul_size_iff:
  assumes "p \<le> i64_max" and "s \<le> u64_max" and "scale \<le> i64_max"
  shows "mul_size p s scale mode = Some r \<longleftrightarrow>
    0 \<le> p \<and> 0 < scale \<and> rounds_to mode (p * int s) scale (int r) \<and> r \<le> u64_max"
proof (cases "0 \<le> p \<and> 0 < scale")
  case True
  note fits = product_fits [OF conjunct1 [OF True] assms(1,2)]
  have "2 * scale \<le> i128_max" using assms(3) by (simp add: i64_max_def i128_max_def)
  note exact = div_round_nonnegative_exact [OF fits(1) conjunct2 [OF True] this fits(2), of mode]
  have prod: "checked_i128 (p * int s) = Some (p * int s)" using fits by (simp add: checked_i128_def in_i128_def i128_max_def)
  show ?thesis
  proof (cases "div_round_nonnegative (p * int s) scale mode")
    case None
    then show ?thesis using True prod exact by (auto simp: mul_size_def)
  next
    case (Some q)
    have "rounds_to mode (p * int s) scale (int r) \<longleftrightarrow> q = int r" using exact [of "int r"] Some by auto
    then show ?thesis using True prod Some by (auto simp: mul_size_def fit_u64_def)
  qed
qed (auto simp: mul_size_def)

section \<open>Ticks and increments\<close>

lemma floor_to_tick_spec:
  assumes "floor_to_tick p tick = Some q"
  shows "tick dvd q" "q \<le> p" "p < q + tick" "is_divisible_by_tick q tick"
proof -
  have t: "0 < tick" "q = p div tick * tick" using assms by (auto simp: floor_to_tick_def split: if_splits)
  have "p = p div tick * tick + p mod tick" by simp
  then show "q \<le> p" "p < q + tick" using t pos_mod_sign [OF t(1), of p] pos_mod_bound [OF t(1), of p] by linarith+
  show "tick dvd q" "is_divisible_by_tick q tick" using t by (simp_all add: is_divisible_by_tick_def)
qed

lemma ceil_to_tick_spec:
  assumes "p \<le> i64_max"
  shows "ceil_to_tick p tick = Some q \<longleftrightarrow> 0 \<le> p \<and> 0 < tick \<and> tick dvd q \<and> p \<le> q \<and> q < p + tick \<and> q \<le> i64_max"
proof (cases "0 \<le> p \<and> 0 < tick")
  case True
  let ?d = "p div tick" and ?m = "p mod tick"
  have p: "p = ?d * tick + ?m" by simp
  have m: "0 \<le> ?m" "?m < tick" using True by simp_all
  have d: "0 \<le> ?d" "?d \<le> p" using True by (simp_all add: pos_imp_zdiv_nonneg_iff quotient_le)
  have up: "tick dvd q \<and> p \<le> q \<and> q < p + tick \<longleftrightarrow> q = (if ?m = 0 then p else (?d + 1) * tick)"
  proof
    assume q: "tick dvd q \<and> p \<le> q \<and> q < p + tick"
    then obtain k where k: "q = k * tick" by (metis dvd_def mult.commute)
    show "q = (if ?m = 0 then p else (?d + 1) * tick)"
    proof (cases "?m = 0")
      case True
      then have "k * tick div tick = ?d" using q k p \<open>0 \<le> p \<and> 0 < tick\<close>
        by (intro quotient_unique) (auto simp: k)
      then show ?thesis using True k p \<open>0 \<le> p \<and> 0 < tick\<close> by simp
    next
      case False
      have "(k - 1) * tick \<le> p" "p < (k - 1) * tick + tick"
        using q k p m False \<open>0 \<le> p \<and> 0 < tick\<close> dvd_imp_mod_0 [of tick q] by (auto simp: left_diff_distrib order_less_le)
      then have "?d = k - 1" using True by (intro quotient_unique) auto
      then show ?thesis using False k by simp
    qed
  next
    assume q: "q = (if ?m = 0 then p else (?d + 1) * tick)"
    have e: "(?d + 1) * tick = ?d * tick + tick" by (simp add: distrib_right)
    have "p \<le> q \<and> q < p + tick"
    proof (cases "?m = 0")
      case False
      then have "q = ?d * tick + tick" using q e by simp
      then show ?thesis using p m False by linarith
    qed (use q True in simp)
    then show "tick dvd q \<and> p \<le> q \<and> q < p + tick" using q by (auto split: if_splits)
  qed
  have "0 \<le> (?d + 1) * tick" using d True by simp
  then have "ceil_to_tick p tick = (if ?m = 0 then Some p else if (?d + 1) * tick \<le> i64_max then Some ((?d + 1) * tick) else None)"
  proof (cases "?m = 0")
    case False
    have "?d < i64_max"
    proof -
      have "tick \<noteq> 1" using False by auto
      then have "?d < p \<or> p = 0" using True by (metis int_div_less_self order_le_less zless_imp_add1_zle add.left_neutral order_less_le)
      then show ?thesis using assms False by auto
    qed
    moreover have "i64_min \<le> (?d + 1) * tick" using \<open>0 \<le> (?d + 1) * tick\<close> by (rule order_trans [rotated]) (simp add: i64_min_def)
    ultimately show ?thesis using True False d
      by (auto simp: ceil_to_tick_def checked_add_i64_def checked_mul_i64_def in_i64_def) (simp_all add: i64_min_def)
  qed (use True in \<open>simp add: ceil_to_tick_def\<close>)
  then show ?thesis using up True assms by auto
qed (auto simp: ceil_to_tick_def)

section \<open>Visible buckets\<close>

text \<open>Keeping the \<open>k\<close> leading figures of a number.\<close>

definition keep_figures :: "nat \<Rightarrow> nat \<Rightarrow> nat" where
  "keep_figures k n = n div 10 ^ (count_digits n - k) * 10 ^ (count_digits n - k)"

definition visible_figures :: "nat \<Rightarrow> nat" where
  "visible_figures n = (if 10 ^ 11 \<le> n \<and> n < 10 ^ 14 then 6 else if 10 ^ 19 \<le> n then 11 else 5)"

text \<open>Each range of the ladder has one number of digits.\<close>

lemma step_is_power:
  assumes "n < 10 ^ 20"
  shows "visible_bucket_step n = 10 ^ (count_digits n - visible_figures n)"
proof -
  let ?c = "count_digits n"
  have upper: "n < 10 ^ ?c" using count_digits_le [of n ?c] by simp
  have lower: "10 ^ (?c - 1) \<le> n" if "0 < ?c"
  proof -
    have "\<not> ?c \<le> ?c - 1" using that by linarith
    then show ?thesis by (simp add: count_digits_le not_less)
  qed
  have "?c \<le> 20" using assms by (simp add: count_digits_le)
  then have "?c \<le> 5 \<or> ?c = 6 \<or> ?c = 7 \<or> ?c = 8 \<or> ?c = 9 \<or> ?c = 10 \<or> ?c = 11 \<or> ?c = 12 \<or> ?c = 13 \<or> ?c = 14 \<or> ?c = 15 \<or> ?c = 16 \<or> ?c = 17 \<or> ?c = 18 \<or> ?c = 19 \<or> ?c = 20"
    by presburger
  then show ?thesis
  proof
    assume "?c \<le> 5"
    then have "n < 100000" using count_digits_le [of n 5] by simp
    with \<open>?c \<le> 5\<close> show ?thesis by (simp add: visible_bucket_step_def visible_figures_def)
  qed (elim disjE; use upper lower in \<open>simp add: visible_bucket_step_def visible_figures_def\<close>)
qed

section \<open>Properties\<close>

text \<open>The notional of a price and a size is the rounded quotient the mode names and nothing else: for arguments in range the
  product never overflows, and a notional is returned precisely when price and scale are not negative, the result is the
  exact, truncated or nearest (ties up) quotient, and it fits 64 bits.\<close>

lemma mul_size_exact:
  assumes "p \<le> i64_max" and "s \<le> u64_max" and "scale \<le> i64_max"
  shows "mul_size p s scale mode = Some r \<longleftrightarrow>
    0 \<le> p \<and> 0 < scale \<and> rounds_to mode (p * int s) scale (int r) \<and> r \<le> u64_max"
  by (rule mul_size_iff [OF assms])

lemma mul_size_exact_witness: "mul_size 7 3 2 Round = Some 11 \<and> mul_size 7 3 2 RejectFractional = None"
proof
  show "mul_size 7 3 2 Round = Some 11"
    by (subst mul_size_exact) (simp_all add: i64_max_def u64_max_def rounds_to_def)
  have "mul_size 7 3 2 RejectFractional \<noteq> Some r" for r
    by (subst mul_size_exact) (simp_all add: i64_max_def u64_max_def rounds_to_def, presburger)
  then show "mul_size 7 3 2 RejectFractional = None" by blast
qed

text \<open>The visible bucket of a size keeps its leading figures and clears the rest.  It keeps five of them, except that it
  keeps six from \<open>10\<^sup>11\<close> up to \<open>10\<^sup>14\<close>, where the ladder of the code misses a step, and eleven from \<open>10\<^sup>19\<close> on.\<close>

lemma visible_bucket_figures:
  assumes "s \<le> u64_max"
  shows "floor_to_visible_bucket s = keep_figures (visible_figures s) s"
proof -
  have "s < 10 ^ 20" using assms by (simp add: u64_max_def)
  note step = step_is_power [OF this]
  have "10 ^ (count_digits s - visible_figures s) * (s div 10 ^ (count_digits s - visible_figures s)) \<le> u64_max"
    using assms times_div_less_eq_dividend order_trans by blast
  then show ?thesis
    by (simp add: floor_to_visible_bucket_def step keep_figures_def saturating_mul_u64_def Let_def mult.commute)
qed

lemma visible_bucket_figures_witness: "floor_to_visible_bucket 123456789 = 123450000"
  using visible_bucket_figures [of 123456789] by (simp add: u64_max_def keep_figures_def visible_figures_def count_digits.simps)

end
