(* ===== verification/Amounts.thy ===== *)
theory Amounts
  imports Quantity_Text Float64
begin

text \<open>
  The other quantity types of \<^verbatim>\<open>src/l1/qtys\<close>: wei and genesis wei (\<open>impl_wei.rs\<close>), prices (\<open>impl_px.rs\<close>), sizes
  (\<open>impl_sz.rs\<close>) and notionals with their margin table (\<open>impl_ntl.rs\<close>).  What repeats an operation of \<open>mod.rs\<close>
  word for word is not repeated here.  Division by zero and failed conversions are \<open>None\<close>.
\<close>

section \<open>Rounding and floats\<close>

datatype rounding = Down | Up | Nearest

definition div_round_u64 :: "nat \<Rightarrow> nat \<Rightarrow> rounding \<Rightarrow> nat option" where
  "div_round_u64 numerator denominator mode =
     (if denominator = 0 then None
      else let q = numerator div denominator; r = numerator mod denominator in
        case mode of
          Down \<Rightarrow> Some q
        | Up \<Rightarrow> if r = 0 then Some q else checked_add_u64 q 1
        | Nearest \<Rightarrow> (case checked_mul_cap u128_max r 2 of
              None \<Rightarrow> None
            | Some r2 \<Rightarrow> if denominator \<le> r2 then checked_add_u64 q 1 else Some q))"

definition wei_div_round_u128 :: "nat \<Rightarrow> nat \<Rightarrow> rounding \<Rightarrow> nat option" where
  "wei_div_round_u128 numerator denominator mode =
     (if denominator = 0 then None
      else let q = numerator div denominator; r = numerator mod denominator in
        case mode of
          Down \<Rightarrow> Some q
        | Up \<Rightarrow> if r = 0 then Some q else checked_add_cap u128_max q 1
        | Nearest \<Rightarrow> (case checked_mul_cap u128_max r 2 of
              None \<Rightarrow> None
            | Some r2 \<Rightarrow> if denominator \<le> r2 then checked_add_cap u128_max q 1 else Some q))"

definition px_div_round :: "int \<Rightarrow> int \<Rightarrow> rounding \<Rightarrow> int option" where
  "px_div_round numerator denominator mode =
     (if numerator < 0 \<or> denominator \<le> 0 then None
      else let q = numerator div denominator; r = numerator mod denominator in
        case mode of
          Down \<Rightarrow> Some q
        | Up \<Rightarrow> if r = 0 then Some q else checked_i128 (q + 1)
        | Nearest \<Rightarrow> (case checked_i128 (r * 2) of
              None \<Rightarrow> None
            | Some r2 \<Rightarrow> if denominator \<le> r2 then checked_i128 (q + 1) else Some q))"

definition f64_less :: "f64 \<Rightarrow> f64 \<Rightarrow> bool" where
  "f64_less x y \<longleftrightarrow> f64_le x y \<and> \<not> f64_le y x"

text \<open>\<open>floor\<close>, \<open>ceil\<close> and \<open>round\<close> (halves away from zero) of a double are exact.\<close>

definition f64_to_integral :: "rounding \<Rightarrow> f64 \<Rightarrow> f64" where
  "f64_to_integral mode x = (case x of
      Fin q \<Rightarrow> Fin (of_int (case mode of Down \<Rightarrow> \<lfloor>q\<rfloor> | Up \<Rightarrow> \<lceil>q\<rceil> | Nearest \<Rightarrow> if 0 \<le> q then \<lfloor>q + 1 / 2\<rfloor> else \<lceil>q - 1 / 2\<rceil>))
    | _ \<Rightarrow> x)"

text \<open>The cast \<open>as u64\<close> truncates and saturates, a NaN becomes 0; \<open>as i64\<close> likewise.\<close>

definition f64_as_u64 :: "f64 \<Rightarrow> nat" where
  "f64_as_u64 x = (case x of NaN \<Rightarrow> 0 | Inf_neg \<Rightarrow> 0 | Inf_pos \<Rightarrow> u64_max | Fin q \<Rightarrow> if q \<le> 0 then 0 else min (nat \<lfloor>q\<rfloor>) u64_max)"

definition f64_as_i64 :: "f64 \<Rightarrow> int" where
  "f64_as_i64 x = (case x of NaN \<Rightarrow> 0 | Inf_neg \<Rightarrow> i64_min | Inf_pos \<Rightarrow> i64_max
    | Fin q \<Rightarrow> clamp_i64 (if 0 \<le> q then \<lfloor>q\<rfloor> else \<lceil>q\<rceil>))"

definition wei_f64_to_u64 :: "f64 \<Rightarrow> nat" where
  "wei_f64_to_u64 value =
     (if value = NaN \<or> f64_le value (Fin 0) then 0
      else if f64_le (f64_of_u64 u64_max) value then u64_max
      else f64_as_u64 value)"

section \<open>Wei\<close>

primrec parse_raw_loop :: "string \<Rightarrow> nat \<Rightarrow> bool \<Rightarrow> qty_parse_error + wei" where
  "parse_raw_loop [] raw saw_digit = (if saw_digit then Inr raw else Inl QEmpty)"
| "parse_raw_loop (byte # bytes) raw saw_digit =
     (if \<not> is_digit byte then Inl QInvalidByte
      else case push_digit u64_max raw (digit_of byte) of
             None \<Rightarrow> Inl QOverflow
           | Some raw' \<Rightarrow> parse_raw_loop bytes raw' True)"

definition parse_raw_str :: "string \<Rightarrow> qty_parse_error + wei" where
  "parse_raw_str input = (case input of
      [] \<Rightarrow> Inl QEmpty
    | byte # bytes \<Rightarrow>
        if byte = CHR ''-'' then Inl QNegative
        else if byte = CHR ''+'' then Inl QInvalidByte
        else parse_raw_loop input 0 False)"

definition account_wei_parse_decimal :: "string \<Rightarrow> nat \<Rightarrow> qty_parse_error + wei" where
  "account_wei_parse_decimal input decimals = (case wei_scale decimals of
      None \<Rightarrow> Inl QTooManyDecimals
    | Some scale \<Rightarrow> (case parse_parts u64_max input decimals of
          Inl e \<Rightarrow> Inl e
        | Inr (whole, fraction, frac_digits, _) \<Rightarrow> (case wei_scale (decimals - frac_digits) of
              None \<Rightarrow> Inl QTooManyDecimals
            | Some frac_scale \<Rightarrow> scale_parts u64_max scale whole fraction frac_scale)))"

definition wei_from_f64 :: "f64 \<Rightarrow> nat \<Rightarrow> rounding \<Rightarrow> qty_parse_error + wei" where
  "wei_from_f64 value decimals mode = (case wei_scale decimals of
      None \<Rightarrow> Inl QTooManyDecimals
    | Some scale \<Rightarrow>
        if \<not> f64_is_finite value then Inl QInvalidByte
        else if f64_less value (Fin 0) then Inl QNegative
        else let scaled = f64_mul value (f64_of_u64 scale) in
          if f64_less (f64_of_u64 u64_max) scaled then Inl QOverflow
          else Inr (f64_as_u64 (f64_to_integral mode scaled)))"

definition wei_to_f64 :: "wei \<Rightarrow> nat \<Rightarrow> f64 option" where
  "wei_to_f64 w decimals = map_option (\<lambda>scale. f64_div (f64_of_u64 w) (f64_of_u64 scale)) (wei_scale decimals)"

definition convert_decimals :: "wei \<Rightarrow> nat \<Rightarrow> nat \<Rightarrow> rounding \<Rightarrow> wei option" where
  "convert_decimals w from_decimals to_decimals mode =
     (if from_decimals = to_decimals then Some w
      else if from_decimals < to_decimals then
        (case wei_scale (to_decimals - from_decimals) of None \<Rightarrow> None | Some factor \<Rightarrow> checked_mul_u64 w factor)
      else (case wei_scale (from_decimals - to_decimals) of None \<Rightarrow> None | Some divisor \<Rightarrow> div_round_u64 w divisor mode))"

datatype wei_arithmetic_error = WUnderflow | WOverflow | WInvalidDecimals | WInvalidFactor | WEmptyDistribution

definition buffered_cap :: "wei \<Rightarrow> nat \<Rightarrow> wei_arithmetic_error + wei" where
  "buffered_cap w factor_int =
     (let factor = f64_div (f64_of_u64 factor_int) (f64_round 100000000) in
      if \<not> f64_in_range 0 (101 / 100) factor then Inl WInvalidFactor
      else let scaled = wei_f64_to_u64 (f64_mul (f64_of_u64 w) factor);
               buffered = wei_f64_to_u64 (f64_mul (f64_of_u64 scaled) (f64_round (1001 / 1000)))
           in Inr (saturating_add_u64 buffered 1000000))"

definition from_px_sz_notional :: "nat \<Rightarrow> nat \<Rightarrow> rounding \<Rightarrow> wei option" where
  "from_px_sz_notional px_raw sz_raw mode = (case checked_mul_cap u128_max px_raw sz_raw of
      None \<Rightarrow> None
    | Some product \<Rightarrow> (case wei_div_round_u128 product 100000000000000 mode of
          None \<Rightarrow> None
        | Some raw \<Rightarrow> if raw \<le> u64_max then Some raw else None))"

definition genesis_scale :: "nat \<Rightarrow> nat option" where
  "genesis_scale decimals = (if decimals < 39 then Some (10 ^ decimals) else None)"

definition genesis_parse_decimal :: "string \<Rightarrow> nat \<Rightarrow> qty_parse_error + nat" where
  "genesis_parse_decimal input decimals = (case genesis_scale decimals of
      None \<Rightarrow> Inl QTooManyDecimals
    | Some scale \<Rightarrow> (case parse_parts u128_max input decimals of
          Inl e \<Rightarrow> Inl e
        | Inr (whole, fraction, frac_digits, _) \<Rightarrow> (case genesis_scale (decimals - frac_digits) of
              None \<Rightarrow> Inl QTooManyDecimals
            | Some frac_scale \<Rightarrow> scale_parts u128_max scale whole fraction frac_scale)))"

definition try_into_account_wei :: "nat \<Rightarrow> wei option" where
  "try_into_account_wei g = (if g \<le> u64_max then Some g else None)"

definition genesis_fmt_decimal :: "nat \<Rightarrow> nat \<Rightarrow> string option" where
  "genesis_fmt_decimal g decimals = map_option (\<lambda>scale. fmt_unsigned_scaled g scale decimals) (genesis_scale decimals)"

record wei_balance =
  wb_total :: wei
  wb_available :: wei
  wb_notional :: nat

definition debit_total_saturating_available :: "wei \<Rightarrow> wei_balance \<Rightarrow> wei_balance \<times> (wei_arithmetic_error + unit)" where
  "debit_total_saturating_available amount b = (case checked_sub_u64 (wb_total b) amount of
      None \<Rightarrow> (b, Inl WUnderflow)
    | Some t \<Rightarrow> (b\<lparr>wb_total := t, wb_available := saturating_sub_u64 (wb_available b) amount\<rparr>, Inr ()))"

definition wb_credit_saturating :: "wei \<Rightarrow> wei_balance \<Rightarrow> wei_balance" where
  "wb_credit_saturating amount b = b\<lparr>wb_total := saturating_add_u64 (wb_total b) amount, wb_available := saturating_add_u64 (wb_available b) amount\<rparr>"

definition wb_debit_and_rescale_notional :: "wei \<Rightarrow> wei_balance \<Rightarrow> wei_balance \<times> (wei_arithmetic_error + unit)" where
  "wb_debit_and_rescale_notional amount b = (case debit_total_saturating_available amount b of
      (b1, Inl e) \<Rightarrow> (b1, Inl e)
    | (b1, Inr _) \<Rightarrow>
        (if wb_total b = 0 then (b1\<lparr>wb_notional := 0\<rparr>, Inr ())
         else (b1\<lparr>wb_notional := min (min (wb_notional b1 * wb_total b1) u128_max div wb_total b) u64_max\<rparr>, Inr ())))"

type_synonym wei_rows = "(nat \<times> wei) list"

primrec sum_rows :: "wei_rows \<Rightarrow> nat \<Rightarrow> nat option" where
  "sum_rows [] t = Some t"
| "sum_rows (row # rows) t = (case checked_add_u64 t (snd row) of None \<Rightarrow> None | Some t' \<Rightarrow> sum_rows rows t')"

primrec reduce_wei_rows :: "f64 \<Rightarrow> wei_rows \<Rightarrow> nat \<Rightarrow> wei_rows \<times> nat" where
  "reduce_wei_rows factor [] excess = ([], excess)"
| "reduce_wei_rows factor (row # rows) excess =
     (if excess = 0 then (row # rows, 0)
      else let max_reduce = min (wei_f64_to_u64 (f64_mul (f64_of_u64 (snd row)) factor)) (snd row);
               reduce = min max_reduce excess;
               (rows', excess') = reduce_wei_rows factor rows (excess - reduce)
           in ((fst row, snd row - reduce) # rows', excess'))"

definition normalize_wei_distribution :: "wei_rows \<Rightarrow> wei \<Rightarrow> f64 \<Rightarrow> wei_rows \<times> (wei_arithmetic_error + unit)" where
  "normalize_wei_distribution rows target reduction_factor = (case rows of
      [] \<Rightarrow> (rows, Inl WEmptyDistribution)
    | row # rest \<Rightarrow> (case sum_rows rows 0 of
          None \<Rightarrow> (rows, Inl WOverflow)
        | Some t \<Rightarrow>
            if t = 0 then (rows, Inl WEmptyDistribution)
            else if t \<le> target then
              (case checked_add_u64 (snd row) (target - t) of
                 None \<Rightarrow> (rows, Inl WOverflow)
               | Some w \<Rightarrow> ((fst row, w) # rest, Inr ()))
            else if \<not> f64_in_range 0 (101 / 100) reduction_factor then (rows, Inl WInvalidFactor)
            else (case reduce_wei_rows reduction_factor rows (t - target) of
                    (rows', excess) \<Rightarrow>
                      if excess \<noteq> 0 then (rows', Inl WUnderflow)
                      else (case sum_rows rows' 0 of
                              None \<Rightarrow> (rows', Inl WOverflow)
                            | Some final \<Rightarrow> (rows', if final = target then Inr () else Inl WUnderflow)))))"

section \<open>Prices\<close>

definition px_abs :: "px \<Rightarrow> px option" where
  "px_abs p = (if p = i64_min then None else Some \<bar>p\<bar>)"

text \<open>The parser of \<open>impl_px.rs\<close> accumulates in \<open>i64\<close>.\<close>

definition px_parse_wire :: "string \<Rightarrow> nat \<Rightarrow> qty_parse_error + px" where
  "px_parse_wire input decimals = (case px_scale decimals of
      None \<Rightarrow> Inl QTooManyDecimals
    | Some scale \<Rightarrow> (case parse_parts (nat i64_max) input decimals of
          Inl e \<Rightarrow> Inl e
        | Inr (whole, fraction, frac_digits, seen_nonzero) \<Rightarrow>
            if \<not> seen_nonzero then Inl QNonPositive
            else case px_scale (decimals - frac_digits) of
              None \<Rightarrow> Inl QTooManyDecimals
            | Some frac_scale \<Rightarrow> (case scale_parts (nat i64_max) scale whole fraction frac_scale of
                  Inl e \<Rightarrow> Inl e
                | Inr raw \<Rightarrow>
                    if raw = 0 then Inl QNonPositive
                    else if \<not> fits_wire (int raw) decimals then Inl QTooManySignificantFigures
                    else Inr (int raw))))"

definition px_from_f64 :: "f64 \<Rightarrow> nat \<Rightarrow> rounding \<Rightarrow> qty_parse_error + px" where
  "px_from_f64 value decimals mode = (case px_scale decimals of
      None \<Rightarrow> Inl QTooManyDecimals
    | Some scale \<Rightarrow>
        if \<not> f64_is_finite value then Inl QInvalidByte
        else if f64_le value (Fin 0) then Inl QNonPositive
        else let scaled = f64_mul value (f64_of_u64 scale) in
          if f64_less (f64_of_u64 (nat i64_max)) scaled then Inl QOverflow
          else let px = f64_as_i64 (f64_to_integral mode scaled) in
            if \<not> fits_wire px decimals then Inl QTooManySignificantFigures else Inr px)"

definition px_from_ratio :: "int \<Rightarrow> int \<Rightarrow> int \<Rightarrow> rounding \<Rightarrow> px option" where
  "px_from_ratio numerator denominator scale mode =
     (if denominator \<le> 0 \<or> scale \<le> 0 \<or> numerator < 0 then None
      else case checked_i128 (numerator * scale) of
        None \<Rightarrow> None
      | Some scaled \<Rightarrow> (case px_div_round scaled denominator mode of
            None \<Rightarrow> None
          | Some value \<Rightarrow> if i64_max < value then None else Some value))"

definition mul_size_raw :: "px \<Rightarrow> int \<Rightarrow> int \<Rightarrow> rounding \<Rightarrow> int option" where
  "mul_size_raw px size_raw scale mode =
     (if px < 0 \<or> size_raw < 0 \<or> scale \<le> 0 then None
      else case checked_i128 (px * size_raw) of
        None \<Rightarrow> None
      | Some product \<Rightarrow> (case px_div_round product scale mode of
            None \<Rightarrow> None
          | Some value \<Rightarrow> if i64_max < value then None else Some value))"

definition round_to_tick :: "px \<Rightarrow> px \<Rightarrow> rounding \<Rightarrow> px option" where
  "round_to_tick px tick mode =
     (if px < 0 \<or> tick \<le> 0 then None
      else case px_div_round px tick mode of
        None \<Rightarrow> None
      | Some units \<Rightarrow> (case checked_i128 (units * tick) of
            None \<Rightarrow> None
          | Some raw \<Rightarrow> if i64_max < raw then None else Some raw))"

section \<open>Sizes\<close>

definition sz_from_f64_clamped :: "rounding \<Rightarrow> f64 \<Rightarrow> sz" where
  "sz_from_f64_clamped mode value =
     (if \<not> f64_is_finite value \<or> f64_le value (Fin 0) then 0
      else if f64_le (f64_of_u64 u64_max) value then u64_max
      else f64_as_u64 (f64_to_integral mode value))"

definition from_f64_floor_clamped :: "f64 \<Rightarrow> sz" where
  "from_f64_floor_clamped value = sz_from_f64_clamped Down value"

definition from_f64_round_clamped :: "f64 \<Rightarrow> sz" where
  "from_f64_round_clamped value = sz_from_f64_clamped Nearest value"

text \<open>The digits of the fraction, until the rest is zero; the divisor ends at 0.\<close>

function sz_digits :: "nat \<Rightarrow> nat \<Rightarrow> string" where
  "sz_digits fraction divisor =
     (if divisor = 0 then []
      else dec_text ((fraction div divisor) mod 10) @ (if fraction mod divisor = 0 then [] else sz_digits fraction (divisor div 10)))"
  by pat_completeness auto
termination by (relation "measure snd") auto

declare sz_digits.simps [simp del]

definition fmt_decimals :: "sz \<Rightarrow> nat \<Rightarrow> string" where
  "fmt_decimals s decimals =
     (if decimals = 0 then dec_text s
      else let scale = (if 10 ^ decimals \<le> u64_max then 10 ^ decimals else u64_max);
               whole = s div scale; fraction = s mod scale in
        if fraction = 0 then dec_text whole else dec_text whole @ CHR ''.'' # sz_digits fraction (scale div 10))"

definition flips_side_after :: "szi \<Rightarrow> szi \<Rightarrow> bool" where
  "flips_side_after before delta \<longleftrightarrow>
     (let after = szi_add_recording_overflow before delta in before \<noteq> 0 \<and> szi_sign before \<noteq> szi_sign after)"

definition remove_resting_order_sz :: "sz \<Rightarrow> sz \<Rightarrow> sz" where
  "remove_resting_order_sz t removed = sub_recording_underflow t removed"

definition signed_delta_after_existing :: "szi \<Rightarrow> sz \<Rightarrow> bool \<Rightarrow> szi option" where
  "signed_delta_after_existing existing raw_sz subtract_as_short =
     map_option (szi_sub_recording_overflow existing) (sz_signed raw_sz (\<not> subtract_as_short))"

section \<open>Notionals\<close>

definition NTL_SCALE :: nat where "NTL_SCALE = 1000000"

definition from_whole_usd :: "nat \<Rightarrow> ntl option" where
  "from_whole_usd usd = checked_mul_u64 usd NTL_SCALE"

definition from_f64_lossy :: "f64 \<Rightarrow> ntl option" where
  "from_f64_lossy usd =
     (if \<not> f64_is_finite usd \<or> f64_less usd (Fin 0) then None
      else let raw = f64_mul usd (f64_round 1000000) in
        if f64_less (f64_of_u64 u64_max) raw then None else Some (f64_as_u64 raw))"

definition ntl_to_f64 :: "ntl \<Rightarrow> f64" where
  "ntl_to_f64 n = f64_div (f64_of_u64 n) (f64_round 1000000)"

definition ceil_to_multiple :: "ntl \<Rightarrow> nat \<Rightarrow> ntl option" where
  "ceil_to_multiple n multiple =
     (if multiple = 0 then None
      else if n mod multiple = 0 then Some n
      else checked_add_u64 n (multiple - n mod multiple))"

definition floor_to_multiple :: "ntl \<Rightarrow> nat \<Rightarrow> ntl option" where
  "floor_to_multiple n multiple = (if multiple = 0 then None else Some (n - n mod multiple))"

definition mul_ratio_floor :: "ntl \<Rightarrow> nat \<Rightarrow> nat \<Rightarrow> ntl option" where
  "mul_ratio_floor n numerator denominator =
     (if denominator = 0 then None
      else case checked_mul_cap u128_max n numerator of
        None \<Rightarrow> None
      | Some product \<Rightarrow> let raw = product div denominator in if u64_max < raw then None else Some raw)"

definition mul_ratio_ceil :: "ntl \<Rightarrow> nat \<Rightarrow> nat \<Rightarrow> ntl option" where
  "mul_ratio_ceil n numerator denominator =
     (if denominator = 0 then None
      else case checked_mul_cap u128_max n numerator of
        None \<Rightarrow> None
      | Some product \<Rightarrow> (case checked_add_cap u128_max product (denominator - 1) of
            None \<Rightarrow> None
          | Some rounded \<Rightarrow> let raw = rounded div denominator in if u64_max < raw then None else Some raw))"

definition from_px_sz_floor :: "nat \<Rightarrow> int \<Rightarrow> nat \<Rightarrow> ntl option" where
  "from_px_sz_floor px sz asset_scale =
     (if asset_scale = 0 then None
      else case checked_mul_cap u128_max (unsigned_abs sz) px of
        None \<Rightarrow> None
      | Some product \<Rightarrow> let raw = product div asset_scale in if u64_max < raw then None else Some raw)"

definition from_px_wei_floor :: "nat \<Rightarrow> wei \<Rightarrow> nat \<Rightarrow> ntl option" where
  "from_px_wei_floor px w scale =
     (if scale = 0 then None
      else case checked_mul_cap u128_max w px of
        None \<Rightarrow> None
      | Some product \<Rightarrow> let raw = product div scale in if u64_max < raw then None else Some raw)"

definition to_size_lots_floor :: "ntl \<Rightarrow> nat \<Rightarrow> nat \<Rightarrow> int option" where
  "to_size_lots_floor n px asset_scale =
     (if px = 0 then None
      else case checked_mul_cap u128_max n asset_scale of
        None \<Rightarrow> None
      | Some product \<Rightarrow> let lots = product div px in if i64_max < int lots then None else Some (int lots))"

datatype asset_cap_mode = NormalMode | Mode3

definition apply_asset_cap_bump :: "ntl \<Rightarrow> asset_cap_mode \<Rightarrow> ntl" where
  "apply_asset_cap_bump current mode =
     (let bumped = saturating_add_u64 current 50000000000;
          cap = (case mode of Mode3 \<Rightarrow> 1000000000000 | NormalMode \<Rightarrow> 5000000000000)
      in if cap < bumped then cap else bumped)"

definition to_account_volume_delta :: "int \<Rightarrow> int" where
  "to_account_volume_delta n = sgn n * (\<bar>n\<bar> div 10000)"

definition saturating_add_to :: "int \<Rightarrow> int \<Rightarrow> int" where
  "saturating_add_to n accumulator = saturating_add_i64 accumulator (to_account_volume_delta n)"

datatype parse_ntl_error = NEmpty | NInvalidByte | NTooManyFractionalDigits | NOverflow

fun micro_loop :: "string \<Rightarrow> nat \<Rightarrow> nat \<Rightarrow> nat \<Rightarrow> bool \<Rightarrow> bool \<Rightarrow> parse_ntl_error + nat \<times> nat \<times> nat" where
  "micro_loop [] whole fraction frac_digits seen_dot seen_digit =
     (if \<not> seen_digit then Inl NEmpty else Inr (whole, fraction, frac_digits))"
| "micro_loop (byte # bytes) whole fraction frac_digits seen_dot seen_digit =
     (if is_digit byte then
        (if seen_dot then
           (if frac_digits = 6 then Inl NTooManyFractionalDigits
            else case push_digit u64_max fraction (digit_of byte) of
                   None \<Rightarrow> Inl NOverflow
                 | Some fraction' \<Rightarrow> micro_loop bytes whole fraction' (frac_digits + 1) seen_dot True)
         else case push_digit u64_max whole (digit_of byte) of
                None \<Rightarrow> Inl NOverflow
              | Some whole' \<Rightarrow> micro_loop bytes whole' fraction frac_digits seen_dot True)
      else if byte = CHR ''.'' \<and> \<not> seen_dot then micro_loop bytes whole fraction frac_digits True seen_digit
      else Inl NInvalidByte)"

text \<open>The loop that brings the fraction to six digits multiplies \<open>6 - frac_digits\<close> times.\<close>

definition parse_micro_decimal :: "string \<Rightarrow> parse_ntl_error + ntl" where
  "parse_micro_decimal s =
     (if s = [] then Inl NEmpty
      else case micro_loop s 0 0 0 False False of
        Inl e \<Rightarrow> Inl e
      | Inr (whole, fraction, frac_digits) \<Rightarrow>
          (case checked_mul_u64 whole NTL_SCALE of
             None \<Rightarrow> Inl NOverflow
           | Some scaled \<Rightarrow> (case checked_add_u64 scaled (fraction * 10 ^ (6 - frac_digits)) of
                 None \<Rightarrow> Inl NOverflow
               | Some raw \<Rightarrow> Inr raw)))"

text \<open>Zeros stripped from a fraction that is not zero, with the width that is left.\<close>

function strip_width :: "nat \<Rightarrow> nat \<Rightarrow> nat \<times> nat" where
  "strip_width fraction width = (if fraction \<noteq> 0 \<and> fraction mod 10 = 0 then strip_width (fraction div 10) (width - 1) else (fraction, width))"
  by pat_completeness auto
termination by (relation "measure fst") auto

declare strip_width.simps [simp del]

definition pad_zeros :: "nat \<Rightarrow> string \<Rightarrow> string" where
  "pad_zeros width s = replicate (width - length s) (CHR ''0'') @ s"

definition fmt_micro_decimal :: "ntl \<Rightarrow> string" where
  "fmt_micro_decimal raw =
     (let whole = raw div NTL_SCALE; fraction = raw mod NTL_SCALE in
      if fraction = 0 then dec_text whole
      else case strip_width fraction 6 of (f, width) \<Rightarrow> dec_text whole @ CHR ''.'' # pad_zeros width (dec_text f))"

section \<open>The margin table of notionals\<close>

record raw_margin_tier_ntl =
  rt_lower_bound :: ntl
  rt_max_leverage :: nat

record margin_tier_ntl =
  mt_lower_bound :: ntl
  mt_max_leverage :: nat
  mt_prior_contribution :: nat

datatype margin_table_ntl_error =
  EmptyTiers | TooManyTiers nat | LowerBoundTooLarge nat | LowerBoundDoesNotStartAtZero | LowerBoundNotIncreasing
| MaxLeverageTooLarge nat | MaxLeverageNotDecreasing

definition validate_margin_tier :: "raw_margin_tier_ntl \<Rightarrow> margin_table_ntl_error + unit" where
  "validate_margin_tier tier =
     (if 0x0ccccccccccccccc \<le> rt_lower_bound tier then Inl (LowerBoundTooLarge (rt_lower_bound tier))
      else if 1000000000000000 < rt_lower_bound tier then Inl (LowerBoundTooLarge (rt_lower_bound tier))
      else if 50 < rt_max_leverage tier then Inl (MaxLeverageTooLarge (rt_max_leverage tier))
      else Inr ())"

text \<open>The loop over the tiers after the first; \<open>None\<close> is the division by a leverage of 0.\<close>

primrec ntl_build_tiers ::
  "raw_margin_tier_ntl list \<Rightarrow> nat \<Rightarrow> nat \<Rightarrow> nat \<Rightarrow> margin_tier_ntl list \<Rightarrow> (margin_table_ntl_error + margin_tier_ntl list) option" where
  "ntl_build_tiers [] previous_lower previous_leverage contribution tiers = Some (Inr tiers)"
| "ntl_build_tiers (tier # rest) previous_lower previous_leverage contribution tiers =
     (case validate_margin_tier tier of
        Inl e \<Rightarrow> Some (Inl e)
      | Inr _ \<Rightarrow>
          if rt_lower_bound tier \<le> previous_lower then Some (Inl LowerBoundNotIncreasing)
          else if previous_leverage \<le> rt_max_leverage tier then Some (Inl MaxLeverageNotDecreasing)
          else if previous_leverage = 0 \<or> rt_max_leverage tier = 0 then None
          else
            (let at_previous = previous_lower div (2 * previous_leverage);
                 at_current = previous_lower div (2 * rt_max_leverage tier);
                 contribution' = saturating_add_u64 contribution (saturating_sub_u64 at_current at_previous)
             in ntl_build_tiers rest (rt_lower_bound tier) (rt_max_leverage tier) contribution'
                  (tiers @ [\<lparr>mt_lower_bound = rt_lower_bound tier, mt_max_leverage = rt_max_leverage tier, mt_prior_contribution = contribution'\<rparr>])))"

definition margin_table_try_from_raw :: "raw_margin_tier_ntl list \<Rightarrow> (margin_table_ntl_error + margin_tier_ntl list) option" where
  "margin_table_try_from_raw raw = (case raw of
      [] \<Rightarrow> Some (Inl EmptyTiers)
    | first # rest \<Rightarrow>
        if 3 < length raw then Some (Inl (TooManyTiers (length raw)))
        else case validate_margin_tier first of
          Inl e \<Rightarrow> Some (Inl e)
        | Inr _ \<Rightarrow>
            if rt_lower_bound first \<noteq> 0 then Some (Inl LowerBoundDoesNotStartAtZero)
            else ntl_build_tiers rest (rt_lower_bound first) (rt_max_leverage first) 0
                   [\<lparr>mt_lower_bound = rt_lower_bound first, mt_max_leverage = rt_max_leverage first, mt_prior_contribution = 0\<rparr>])"

primrec tier_loop :: "margin_tier_ntl list \<Rightarrow> ntl \<Rightarrow> margin_tier_ntl \<Rightarrow> margin_tier_ntl" where
  "tier_loop [] n selected = selected"
| "tier_loop (tier # tiers) n selected = (if n < mt_lower_bound tier then selected else tier_loop tiers n tier)"

definition ntl_tier_for :: "margin_tier_ntl list \<Rightarrow> ntl \<Rightarrow> margin_tier_ntl" where
  "ntl_tier_for tiers n = tier_loop (tl tiers) n (hd tiers)"

definition ntl_margin_after_tier_offset :: "margin_tier_ntl list \<Rightarrow> ntl \<Rightarrow> nat option" where
  "ntl_margin_after_tier_offset tiers n =
     (let tier = ntl_tier_for tiers n; lev = mt_max_leverage tier in
      if lev = 0 then None
      else Some (saturating_sub_u64 (saturating_mul_u64 n 2) (saturating_mul_u64 (mt_prior_contribution tier) (4 * lev)) div (6 * lev)))"

definition ntl_margin_less_contribution :: "margin_tier_ntl list \<Rightarrow> ntl \<Rightarrow> nat option" where
  "ntl_margin_less_contribution tiers n =
     (let tier = ntl_tier_for tiers n; lev = mt_max_leverage tier in
      if lev = 0 then None else Some (saturating_sub_u64 (n div (2 * lev)) (mt_prior_contribution tier)))"

end
