(* ===== verification/Amounts_Properties.thy ===== *)
theory Amounts_Properties
  imports Amounts
begin

text \<open>
  The parsers of the different files agree where they overlap, texts of genesis wei and notionals round-trip,
  a normalized distribution is exact, and the margin table of \<open>impl_ntl.rs\<close> has no offset at its first boundary.
\<close>

section \<open>Parsers\<close>

lemma account_parse_iff:
  "account_wei_parse_decimal s d = Inr v \<longleftrightarrow> d < 20 \<and> decimal_numeral s \<and> decimal_value s * 10 ^ d = of_nat v \<and> v \<le> u64_max"
proof (cases "d < 20")
  case d: True
  then have scale: "wei_scale d = Some (10 ^ d)" "wei_scale (d - k) = Some (10 ^ (d - k))" for k by (auto simp: wei_scale_def)
  have "account_wei_parse_decimal s d = Inr v \<longleftrightarrow> (\<exists>nz. parse_scaled u64_max s d = Some (v, nz))"
    by (auto simp: account_wei_parse_decimal_def parse_scaled_def scale split: sum.splits)
  with parse_scaled_iff [OF cap_powers(1) [OF d], of s v] d show ?thesis by auto
qed (simp add: account_wei_parse_decimal_def wei_scale_def)

lemma genesis_parse_iff:
  "genesis_parse_decimal s d = Inr v \<longleftrightarrow> d < 39 \<and> decimal_numeral s \<and> decimal_value s * 10 ^ d = of_nat v \<and> v \<le> u128_max"
proof (cases "d < 39")
  case d: True
  then have scale: "genesis_scale d = Some (10 ^ d)" "genesis_scale (d - k) = Some (10 ^ (d - k))" for k by (auto simp: genesis_scale_def)
  have "genesis_parse_decimal s d = Inr v \<longleftrightarrow> (\<exists>nz. parse_scaled u128_max s d = Some (v, nz))"
    by (auto simp: genesis_parse_decimal_def parse_scaled_def scale split: sum.splits)
  with parse_scaled_iff [OF cap_powers(2) [OF d], of s v] d show ?thesis by auto
qed (simp add: genesis_parse_decimal_def genesis_scale_def)

lemma px_wire_parse_iff:
  "px_parse_wire s d = Inr p \<longleftrightarrow> d < 19 \<and> decimal_numeral s \<and> decimal_value s * 10 ^ d = of_int p \<and> 0 < p \<and> p \<le> i64_max
    \<and> (\<exists>m k. p = int (m * 10 ^ k) \<and> m < 100000)"
proof (cases "d < 19 \<and> 0 < p")
  case True
  then have d: "d < 19" and p: "p = int (nat p)" "(of_int p :: rat) = of_nat (nat p)" by simp_all
  have scale: "px_scale d = Some (10 ^ d)" "px_scale (d - k) = Some (10 ^ (d - k))" for k using d by (auto simp: px_scale_def)
  have "px_parse_wire s d = Inr p \<longleftrightarrow> parse_scaled (nat i64_max) s d = Some (nat p, True) \<and> fits_wire p d"
    using True by (auto simp: px_parse_wire_def parse_scaled_def scale split: sum.splits)
  moreover have "nat p \<le> nat i64_max \<longleftrightarrow> p \<le> i64_max" using True by (simp add: nat_le_eq_zle)
  moreover have "0 < decimal_value s" if "decimal_value s * 10 ^ d = of_nat (nat p)"
  proof -
    have "0 < decimal_value s * 10 ^ d" unfolding that using True by simp
    then show ?thesis by (simp add: zero_less_mult_iff)
  qed
  ultimately show ?thesis using parse_scaled_iff [OF cap_powers(3) [OF d], of s "nat p" True] fits_wire_iff [of p d] True
    unfolding p(2) by auto
next
  case False
  have "\<not> fits_wire (int r) d" if "d < 19" "\<not> 0 < int r" for r using that by (simp add: fits_wire_iff)
  with False show ?thesis by (auto simp: px_parse_wire_def px_scale_def split: sum.splits if_splits option.splits)
qed

section \<open>Notionals\<close>

text \<open>The loop of \<open>parse_micro_decimal\<close> is the common loop with six decimals, but refuses a seventh digit even if it is zero.\<close>

lemma micro_loop_parse:
  "fd \<le> 6 \<Longrightarrow> (dot \<longrightarrow> fd + length cs \<le> 6) \<Longrightarrow> (\<not> dot \<longrightarrow> fd + length (frac_part cs) \<le> 6) \<Longrightarrow>
    micro_loop cs w f fd dot dig = Inr (w', f', fd') \<longleftrightarrow> (\<exists>nz'. parse_loop u64_max 6 cs w f fd dot dig nz = Inr (w', f', fd', nz'))"
proof (induction cs arbitrary: w f fd dot dig nz)
  case (Cons c cs)
  consider "c = CHR ''.''" | "c \<noteq> CHR ''.''" "\<not> is_digit c" | "c \<noteq> CHR ''.''" "is_digit c" by blast
  then show ?case
  proof cases
    case 1
    then show ?thesis using Cons.IH [of fd True w f dig nz] Cons.prems by (cases dot) simp_all
  next
    case 3
    show ?thesis
    proof (cases dot)
      case True
      with 3 Cons.prems Cons.IH [of "fd + 1" True w "f * 10 + digit_of c" True "nz \<or> digit_of c \<noteq> 0"] show ?thesis
        by (simp add: push_digit Let_def)
    next
      case False
      with 3 Cons.prems Cons.IH [of fd False "w * 10 + digit_of c" f True "nz \<or> digit_of c \<noteq> 0"] show ?thesis
        by (simp add: push_digit Let_def)
    qed
  qed simp
qed auto

lemma micro_parse_value:
  assumes "decimal_numeral s" and "length (frac_part s) \<le> 6" and "decimal_value s * 10 ^ 6 = of_nat v" and "v \<le> u64_max"
  shows "parse_micro_decimal s = Inr v"
proof -
  have "(10 :: nat) ^ 6 \<le> u64_max" by (simp add: u64_max_def)
  then have "parse_scaled u64_max s 6 = Some (v, 0 < decimal_value s)" using assms(1,3,4) by (simp add: parse_scaled_iff)
  then obtain w f fd nz where p: "parse_parts u64_max s 6 = Inr (w, f, fd, nz)" and v: "v = w * 10 ^ 6 + f * 10 ^ (6 - fd)" "v \<le> u64_max"
    by (auto simp: parse_scaled_def scale_parts_exact split: sum.splits if_splits)
  then have "parse_loop u64_max 6 s 0 0 0 False False False = Inr (w, f, fd, nz)" and ne: "s \<noteq> []"
    by (auto simp: parse_parts_def split: list.splits if_splits simp del: parse_loop.simps)
  then have "micro_loop s 0 0 0 False False = Inr (w, f, fd)"
    using micro_loop_parse [of 0 False s 0 0 False w f fd False] assms(2) by auto
  with ne v show ?thesis by (simp add: parse_micro_decimal_def NTL_SCALE_def checked_mul_u64_def checked_add_u64_def)
qed

lemma frac_val_digits: "frac_val cs = of_nat (digits_val 0 cs) / 10 ^ length cs"
proof (induction cs rule: rev_induct)
  case (snoc c cs)
  have app: "frac_val (xs @ [c]) = frac_val xs + of_nat (digit_of c) / 10 ^ Suc (length xs)" for xs
    by (induction xs) (simp_all add: field_simps)
  show ?case unfolding app snoc by (simp add: field_simps)
qed simp

lemma digits_val_pad [simp]: "digits_val 0 (pad_zeros k s) = digits_val 0 s"
proof -
  have "digits_val 0 (replicate n (CHR ''0'') @ s) = digits_val 0 s" for n by (induction n) (simp_all add: digit_of_def)
  then show ?thesis by (simp add: pad_zeros_def)
qed

lemma dec_text_length: "length (dec_text n) \<le> k \<longleftrightarrow> n < 10 ^ k \<and> 0 < k"
proof (induction n arbitrary: k rule: dec_text.induct)
  case (1 n)
  show ?case
  proof (cases "n < 10")
    case True
    have "10 \<le> (10 :: nat) ^ k" if "0 < k" using that self_le_power [of "10 :: nat" k] by simp
    with True show ?thesis by (auto simp: dec_text.simps [of n] Suc_le_eq)
  next
    case False
    have len: "length (dec_text n) = Suc (length (dec_text (n div 10)))" using False by (simp add: dec_text.simps [of n])
    show ?thesis
    proof (cases k)
      case (Suc j)
      have "n div 10 < 10 ^ j \<longleftrightarrow> n < 10 ^ Suc j" using div_less_iff_less_mult [of 10 n "10 ^ j"] by (simp add: mult.commute)
      moreover have "0 < j" if "n < 10 ^ Suc j" using that False by (cases j) simp_all
      ultimately show ?thesis using 1 [OF False, of j] unfolding len Suc by auto
    qed (simp add: len)
  qed
qed

lemma strip_width_value:
  "0 < f \<Longrightarrow> f < 10 ^ w \<Longrightarrow> strip_width f w = (g, v) \<Longrightarrow> v \<le> w \<and> 0 < v \<and> g < 10 ^ v \<and> g * 10 ^ (w - v) = f"
proof (induction f w rule: strip_width.induct)
  case (1 f w)
  show ?case
  proof (cases "f mod 10 = 0")
    case True
    with 1(2) obtain h where h: "f = h * 10" "0 < h" by (metis div_mult_mod_eq add.right_neutral gr0I mult_0)
    have "w \<noteq> 0" using 1(2,3) by (cases w) auto
    then obtain k where w: "w = Suc k" by (cases w) auto
    have "strip_width f w = strip_width (f div 10) (w - 1)" using True 1(2) by (subst strip_width.simps) simp
    then have s: "strip_width h k = (g, v)" using 1(4) h w by simp
    have "v \<le> k \<and> 0 < v \<and> g < 10 ^ v \<and> g * 10 ^ (k - v) = h"
      by (rule 1(1) [of, unfolded h(1) w, simplified]) (use 1(2,3) h w s in auto)
    then show ?thesis by (auto simp: h(1) w Suc_diff_le)
  next
    case False
    then have "strip_width f w = (f, w)" by (simp add: strip_width.simps [of f w])
    moreover have "w \<noteq> 0" using 1(2,3) by (cases w) auto
    ultimately show ?thesis using 1(3,4) by auto
  qed
qed

lemma fmt_micro_numeral:
  "decimal_numeral (fmt_micro_decimal n) \<and> length (frac_part (fmt_micro_decimal n)) \<le> 6 \<and> decimal_value (fmt_micro_decimal n) * 10 ^ 6 = of_nat n"
proof -
  let ?w = "n div NTL_SCALE" and ?f = "n mod NTL_SCALE"
  note t = dec_text_numeral [of ?w]
  have dot: "CHR ''.'' \<notin> set (dec_text ?w)" using t by auto
  have "(of_nat n :: rat) = of_nat (?w * 10 ^ 6 + ?f)" by (simp add: NTL_SCALE_def)
  then have n: "(of_nat n :: rat) = of_nat ?w * 10 ^ 6 + of_nat ?f" by (simp only: of_nat_add of_nat_mult of_nat_power of_nat_numeral)
  show ?thesis
  proof (cases "?f = 0")
    case True
    then have "fmt_micro_decimal n = dec_text ?w" by (simp add: fmt_micro_decimal_def)
    with t n True whole_part_only [OF dot] show ?thesis by (simp add: decimal_numeral_def decimal_value_def)
  next
    case False
    obtain g v where s: "strip_width ?f 6 = (g, v)" by fastforce
    have g: "v \<le> 6" "0 < v" "g < 10 ^ v" "g * 10 ^ (6 - v) = ?f"
      using strip_width_value [OF _ _ s] False by (simp_all add: NTL_SCALE_def)
    let ?p = "pad_zeros v (dec_text g)"
    have "fmt_micro_decimal n = dec_text ?w @ CHR ''.'' # ?p" using False s by (simp add: fmt_micro_decimal_def)
    then have parts: "whole_part (fmt_micro_decimal n) = dec_text ?w" "frac_part (fmt_micro_decimal n) = ?p"
      using whole_part_append [OF dot] by metis+
    have len: "length ?p = v" using g dec_text_length [of g v] by (simp add: pad_zeros_def)
    have dig: "\<forall>c \<in> set ?p. is_digit c" using dec_text_numeral [of g] by (auto simp: pad_zeros_def is_digit_def)
    have "frac_val ?p = of_nat g / 10 ^ v" using dec_text_numeral [of g] len by (simp add: frac_val_digits)
    moreover have "(of_nat ?f :: rat) = of_nat g * 10 ^ (6 - v)" unfolding g(4) [symmetric] by simp
    moreover have "(10 :: rat) ^ 6 = 10 ^ v * 10 ^ (6 - v)" using g(1) by (simp flip: power_add)
    ultimately have "frac_val ?p * 10 ^ 6 = of_nat g / 10 ^ v * (10 ^ v * 10 ^ (6 - v))" and "of_nat ?f = of_nat g * (10 :: rat) ^ (6 - v)"
      by (simp_all only:)
    then have "frac_val ?p * 10 ^ 6 = of_nat ?f" by (simp del: power_numeral)
    then show ?thesis unfolding decimal_numeral_def decimal_value_def parts
      using t dig len g(1) n by (auto simp: distrib_right)
  qed
qed

section \<open>Distributions\<close>

lemma sum_rows_exact: "acc \<le> u64_max \<Longrightarrow> sum_rows rows acc = (if acc + sum_list (map snd rows) \<le> u64_max then Some (acc + sum_list (map snd rows)) else None)"
proof (induction rows arbitrary: acc)
  case (Cons row rows)
  show ?case
  proof (cases "acc + snd row \<le> u64_max")
    case True
    with Cons.IH [OF True] show ?thesis by (simp add: checked_add_u64_def add.assoc)
  next
    case False
    then show ?thesis by (auto simp: checked_add_u64_def)
  qed
qed simp

lemma reduce_wei_rows_users: "map fst (fst (reduce_wei_rows factor rows excess)) = map fst rows"
  by (induction rows arbitrary: excess) (auto simp: Let_def split: prod.splits, metis fst_conv)

text \<open>A distribution that is normalized has exactly the target as its sum, and the same users.\<close>

lemma normalize_wei_exact:
  assumes "normalize_wei_distribution rows target factor = (rows', Inr ())"
  shows "sum_list (map snd rows') = target" and "map fst rows' = map fst rows"
proof -
  obtain row rest t where rows: "rows = row # rest" and t: "sum_rows rows 0 = Some t"
    using assms by (auto simp: normalize_wei_distribution_def split: list.splits option.splits)
  have sum: "t = snd row + sum_list (map snd rest)" using t sum_rows_exact [of 0 rows] by (auto simp: rows split: if_splits)
  consider w where "t \<le> target" "w = snd row + (target - t)" "rows' = (fst row, w) # rest"
    | excess where "reduce_wei_rows factor rows (t - target) = (rows', excess)" "sum_rows rows' 0 = Some target"
    using assms t unfolding normalize_wei_distribution_def rows
    by (auto simp: checked_add_u64_def simp del: reduce_wei_rows.simps sum_rows.simps split: if_splits option.splits prod.splits)
  then have "sum_list (map snd rows') = target \<and> map fst rows' = map fst rows"
  proof cases
    case 1
    then show ?thesis using sum by (simp add: rows)
  next
    case 2
    then show ?thesis using reduce_wei_rows_users [of factor rows "t - target"] sum_rows_exact [of 0 rows'] by (auto split: if_splits)
  qed
  then show "sum_list (map snd rows') = target" "map fst rows' = map fst rows" by simp_all
qed

section \<open>Sides\<close>

text \<open>A delta that closes a position counts as a flip, although nothing is on the other side afterwards.\<close>

lemma closing_counts_as_flip: "before \<noteq> 0 \<Longrightarrow> flips_side_after before (- before)"
  by (simp add: flips_side_after_def szi_add_recording_overflow_def checked_add_i64_def in_i64_def i64_min_def i64_max_def szi_sign_def)

section \<open>The margin table\<close>

lemma ntl_build_tiers_head: "ntl_build_tiers rest p l c tiers = Some (Inr ts) \<Longrightarrow> \<exists>us. ts = tiers @ us"
proof (induction rest arbitrary: p l c tiers)
  case (Cons tier rest)
  then show ?case by (fastforce simp: Let_def split: sum.splits if_splits)
qed simp

lemma tiers_of_two:
  assumes "margin_table_try_from_raw raw = Some (Inr (t0 # t1 # ts))"
  shows "mt_lower_bound t0 = 0" "0 < mt_lower_bound t1" "mt_prior_contribution t0 = 0" "mt_prior_contribution t1 = 0"
    "mt_max_leverage t1 < mt_max_leverage t0" "0 < mt_max_leverage t1" "\<forall>t \<in> set (take 1 ts). mt_lower_bound t1 < mt_lower_bound t"
proof -
  obtain r0 rest where raw: "raw = r0 # rest" using assms by (cases raw) (auto simp: margin_table_try_from_raw_def)
  let ?t0 = "\<lparr>mt_lower_bound = 0, mt_max_leverage = rt_max_leverage r0, mt_prior_contribution = 0\<rparr>"
  have b: "rt_lower_bound r0 = 0" "ntl_build_tiers rest 0 (rt_max_leverage r0) 0 [?t0] = Some (Inr (t0 # t1 # ts))"
    using assms by (auto simp: margin_table_try_from_raw_def raw split: if_splits sum.splits)
  obtain r1 rest1 where rest: "rest = r1 # rest1" using b(2) by (cases rest) auto
  let ?t1 = "\<lparr>mt_lower_bound = rt_lower_bound r1, mt_max_leverage = rt_max_leverage r1, mt_prior_contribution = 0\<rparr>"
  have b1: "ntl_build_tiers rest1 (rt_lower_bound r1) (rt_max_leverage r1) 0 [?t0, ?t1] = Some (Inr (t0 # t1 # ts))"
    and r1: "0 < rt_lower_bound r1" "rt_max_leverage r1 < rt_max_leverage r0" "0 < rt_max_leverage r1"
    using b(2) by (auto simp: rest saturating_add_u64_def saturating_sub_u64_def Let_def split: if_splits sum.splits)
  have t: "t0 = ?t0" "t1 = ?t1" using ntl_build_tiers_head [OF b1] by auto
  have "\<forall>t \<in> set (take 1 ts). rt_lower_bound r1 < mt_lower_bound t"
  proof (cases rest1)
    case Nil
    with b1 show ?thesis by auto
  next
    case (Cons r2 rest2)
    then obtain c where "ntl_build_tiers rest2 (rt_lower_bound r2) (rt_max_leverage r2) c
        [?t0, ?t1, \<lparr>mt_lower_bound = rt_lower_bound r2, mt_max_leverage = rt_max_leverage r2, mt_prior_contribution = c\<rparr>]
        = Some (Inr (t0 # t1 # ts))" and "rt_lower_bound r1 < rt_lower_bound r2"
      using b1 by (auto simp: Let_def split: if_splits sum.splits)
    with ntl_build_tiers_head [OF this(1)] show ?thesis by auto
  qed
  with r1 show "mt_lower_bound t0 = 0" "0 < mt_lower_bound t1" "mt_prior_contribution t0 = 0" "mt_prior_contribution t1 = 0"
    "mt_max_leverage t1 < mt_max_leverage t0" "0 < mt_max_leverage t1" "\<forall>t \<in> set (take 1 ts). mt_lower_bound t1 < mt_lower_bound t"
    by (simp_all add: t)
qed

section \<open>Properties\<close>

text \<open>C27. Both parsers of prices are exact: each returns a price precisely when the text is a decimal numeral whose value,
  scaled by the power of ten, is that positive price, fits 63 bits and has at most five significant figures.  So they
  agree although one accumulates in 128 bits and the other in 64.  A text may have more fractional digits than the scale
  if the digits beyond it are zeros.\<close>

theorem price_parsers_exact:
  "(parse_wire s d = Inr p \<longleftrightarrow> d < 19 \<and> decimal_numeral s \<and> decimal_value s * 10 ^ d = of_int p \<and> 0 < p \<and> p \<le> i64_max
      \<and> (\<exists>m k. p = int (m * 10 ^ k) \<and> m < 100000))
    \<and> (px_parse_wire s d = Inr p \<longleftrightarrow> parse_wire s d = Inr p)"
  using px_parse_iff [of s d p] px_wire_parse_iff [of s d p] by blast

text \<open>C28. Printed quantities read back: an amount of wei by the parsers of wei and of account wei, a genesis amount of up to 128
  bits by its parser, a price that fits the wire by the two wire parsers at the scale it was printed with, and a notional in
  micro-dollars by its parser.\<close>

theorem qty_text_roundtrip:
  assumes "w \<le> u64_max" and "d < 20" and "g \<le> u128_max" and "e < 39" and "fits_wire p k" and "p \<le> i64_max"
  shows "(\<exists>s. wei_fmt_decimal w d = Some s \<and> wei_parse_decimal s d = Inr w \<and> account_wei_parse_decimal s d = Inr w)
    \<and> (\<exists>s. genesis_fmt_decimal g e = Some s \<and> genesis_parse_decimal s e = Inr g)
    \<and> (\<exists>s. px_fmt_decimal p k = Some s \<and> parse_wire s k = Inr p \<and> px_parse_wire s k = Inr p)
    \<and> parse_micro_decimal (fmt_micro_decimal w) = Inr w"
proof (intro conjI)
  show "\<exists>s. wei_fmt_decimal w d = Some s \<and> wei_parse_decimal s d = Inr w \<and> account_wei_parse_decimal s d = Inr w"
    using wei_text [OF assms(2), of w] assms(1,2) by (auto simp: wei_parse_iff account_parse_iff)
  show "\<exists>s. genesis_fmt_decimal g e = Some s \<and> genesis_parse_decimal s e = Inr g"
    using fmt_numeral [of g e] assms(3,4) by (simp add: genesis_fmt_decimal_def genesis_scale_def genesis_parse_iff)
  have p: "0 < p" "k < 19" "\<exists>m j. p = int (m * 10 ^ j) \<and> m < 100000" using assms(5) by (simp_all add: fits_wire_iff)
  then show "\<exists>s. px_fmt_decimal p k = Some s \<and> parse_wire s k = Inr p \<and> px_parse_wire s k = Inr p"
    using px_text [OF p(2,1)] assms(6) by (auto simp: px_parse_iff px_wire_parse_iff)
  show "parse_micro_decimal (fmt_micro_decimal w) = Inr w"
    using fmt_micro_numeral [of w] assms(1) by (intro micro_parse_value) simp_all
qed

theorem qty_text_roundtrip_witness:
  "(\<exists>s. px_fmt_decimal 65100000 6 = Some s \<and> px_parse_wire s 6 = Inr 65100000) \<and> parse_micro_decimal (fmt_micro_decimal 1050) = Inr 1050"
proof -
  have "fits_wire 65100000 6" unfolding fits_wire_iff by (intro conjI exI [of _ 651] exI [of _ 5]) simp_all
  with qty_text_roundtrip [of 1050 3 7 30 65100000 6] show ?thesis by (auto simp: u64_max_def u128_max_def i64_max_def)
qed

text \<open>In a table of at least two tiers the second tier has no offset, because its contribution is computed at the lower
  bound of the tier before it, which is 0: at the boundary the margin is that of the whole notional at the lower
  leverage, just below it that of the higher leverage.\<close>

lemma second_tier_without_offset:
  assumes "margin_table_try_from_raw raw = Some (Inr (t0 # t1 # ts))"
  shows "ntl_margin_less_contribution (t0 # t1 # ts) (mt_lower_bound t1) = Some (mt_lower_bound t1 div (2 * mt_max_leverage t1))
    \<and> ntl_margin_less_contribution (t0 # t1 # ts) (mt_lower_bound t1 - 1) = Some ((mt_lower_bound t1 - 1) div (2 * mt_max_leverage t0))"
proof -
  note t = tiers_of_two [OF assms]
  have "ntl_tier_for (t0 # t1 # ts) (mt_lower_bound t1) = t1" using t(7) by (cases ts) (simp_all add: ntl_tier_for_def)
  moreover have "ntl_tier_for (t0 # t1 # ts) (mt_lower_bound t1 - 1) = t0" using t(2) by (simp add: ntl_tier_for_def)
  ultimately show ?thesis using t
    by (simp add: ntl_margin_less_contribution_def saturating_sub_u64_def)
qed

lemma second_tier_without_offset_witness:
  "\<exists>tiers. margin_table_try_from_raw [\<lparr>rt_lower_bound = 0, rt_max_leverage = 50\<rparr>, \<lparr>rt_lower_bound = 100000, rt_max_leverage = 10\<rparr>] = Some (Inr tiers)
    \<and> ntl_margin_less_contribution tiers 100000 = Some 5000 \<and> ntl_margin_less_contribution tiers 99999 = Some 999"
proof -
  let ?t0 = "\<lparr>mt_lower_bound = 0, mt_max_leverage = 50, mt_prior_contribution = 0\<rparr>"
  let ?t1 = "\<lparr>mt_lower_bound = 100000, mt_max_leverage = 10, mt_prior_contribution = 0\<rparr>"
  have "margin_table_try_from_raw [\<lparr>rt_lower_bound = 0, rt_max_leverage = 50\<rparr>, \<lparr>rt_lower_bound = 100000, rt_max_leverage = 10\<rparr>] = Some (Inr [?t0, ?t1])"
    by (simp add: margin_table_try_from_raw_def validate_margin_tier_def saturating_add_u64_def saturating_sub_u64_def)
  from second_tier_without_offset [OF this] this show ?thesis by (intro exI [of _ "[?t0, ?t1]"]) simp
qed

end
