(* ===== verification/Books.thy ===== *)
theory Books
  imports Amounts Token_Ledger "HOL-Library.Word"
begin

text \<open>
  The books of all assets, \<^verbatim>\<open>src/l1/books.rs\<close>: collections of books addressed by a packed asset id, and in
  each book the orders by id with three indexes beside them, the price levels of both sides and the orders
  of each user, and a cache of the first order of each side.  An order id, a price and a size are \<open>u64\<close>; the
  key of a level is the price, negated for bids, so that the best level comes first.
\<close>

unbundle bit_operations_syntax

section \<open>Sides and packed ids\<close>

definition ASSETS_PER_BOOK_GROUP :: nat where "ASSETS_PER_BOOK_GROUP = 10000"

definition LARGE_SWEEP_NOTIONAL_THRESHOLD :: nat where "LARGE_SWEEP_NOTIONAL_THRESHOLD = 0x98967f"

definition DEFAULT_IMPACT_NOTIONAL :: nat where "DEFAULT_IMPACT_NOTIONAL = 10000"

datatype book_domain = MainPerp | PerpDex | SpotBooks

datatype book_side = BidSide | AskSide

definition level_key :: "book_side \<Rightarrow> nat \<Rightarrow> int" where
  "level_key side px = (case side of BidSide \<Rightarrow> - int px | AskSide \<Rightarrow> int px)"

text \<open>The cast of the source keeps the low 64 bits.\<close>

definition px_from_key :: "book_side \<Rightarrow> int \<Rightarrow> nat" where
  "px_from_key side key = nat ((case side of BidSide \<Rightarrow> - key | AskSide \<Rightarrow> key) mod 2 ^ 64)"

definition side_opposite :: "book_side \<Rightarrow> book_side" where
  "side_opposite side = (case side of BidSide \<Rightarrow> AskSide | AskSide \<Rightarrow> BidSide)"

definition side_index :: "book_side \<Rightarrow> nat" where
  "side_index side = (case side of BidSide \<Rightarrow> 0 | AskSide \<Rightarrow> 1)"

definition side_from_index :: "nat \<Rightarrow> book_side option" where
  "side_from_index i = (if i = 0 then Some BidSide else if i = 1 then Some AskSide else None)"

record packed_asset_id =
  pa_dex :: nat
  pa_local :: nat

definition pa_split :: "nat \<Rightarrow> packed_asset_id" where
  "pa_split asset_id = \<lparr>pa_dex = asset_id div ASSETS_PER_BOOK_GROUP, pa_local = asset_id mod ASSETS_PER_BOOK_GROUP\<rparr>"

definition pa_pack :: "packed_asset_id \<Rightarrow> nat" where
  "pa_pack p = pa_dex p * ASSETS_PER_BOOK_GROUP + pa_local p"

datatype book_selection = OneBook nat | AllBooks

section \<open>Data of a book\<close>

record asset_meta =
  am_name :: string
  am_sz_decimals :: nat
  am_px_decimals :: nat
  am_is_only_isolated :: bool

record raw_asset_state =
  ra_mark_px :: "nat option"
  ra_oracle_px :: "nat option"
  ra_open_interest :: nat
  ra_day_ntl_vlm :: nat
  ra_prev_day_px :: nat
  ra_premium :: int
  ra_funding :: int

record market_meta =
  mm_dex_index :: nat
  mm_name :: string
  mm_assets :: "asset_meta list"
  mm_raw_states :: "raw_asset_state list"

record book_level =
  bl_first_oid :: nat
  bl_last_oid :: nat
  bl_oids :: "nat bset"

definition level_default :: book_level where
  "level_default = \<lparr>bl_first_oid = 0, bl_last_oid = 0, bl_oids = []\<rparr>"

definition first_or_0 :: "nat bset \<Rightarrow> nat" where
  "first_or_0 oids = (case oids of [] \<Rightarrow> 0 | x # _ \<Rightarrow> x)"

definition last_or_0 :: "nat bset \<Rightarrow> nat" where
  "last_or_0 oids = (if oids = [] then 0 else last oids)"

definition level_insert :: "nat \<Rightarrow> book_level \<Rightarrow> book_level" where
  "level_insert oid l = (let oids = bs_insert oid (bl_oids l) in
     l\<lparr>bl_oids := oids, bl_first_oid := first_or_0 oids, bl_last_oid := last_or_0 oids\<rparr>)"

definition level_remove :: "nat \<Rightarrow> book_level \<Rightarrow> book_level" where
  "level_remove oid l = (let oids = bs_remove oid (bl_oids l) in
     l\<lparr>bl_oids := oids, bl_first_oid := first_or_0 oids, bl_last_oid := last_or_0 oids\<rparr>)"

record book_order =
  od_oid :: nat
  od_user :: address
  od_side :: book_side
  od_limit_px :: nat
  od_resting_sz :: nat
  od_reduce_only :: bool
  od_cloid :: "nat option"
  od_timestamp_ms :: nat
  od_child_oids :: "nat list"

record impact_state =
  im_ewma_notional :: f64
  im_ewma_weight :: f64
  im_window_seconds :: f64
  im_samples :: nat
  im_last_update_ms :: "nat option"

record asset_book =
  ab_domain :: book_domain
  ab_dex_index :: nat
  ab_local_index :: nat
  ab_asset_id :: nat
  ab_display_name :: string
  ab_meta :: asset_meta
  ab_bids :: "(int, book_level) btree"
  ab_asks :: "(int, book_level) btree"
  ab_orders :: "(nat, book_order) btree"
  ab_user_to_oids :: "(address, nat bset) btree"
  ab_top_bid :: "nat option"
  ab_top_ask :: "nat option"
  ab_mark_px :: "nat option"
  ab_oracle_px :: "nat option"
  ab_impact_state :: impact_state
  ab_registered :: bool

datatype book_event =
  OrderInserted nat nat address | OrderRemoved nat nat address nat | OrderReduced nat nat nat | BookCleared nat

definition event_user :: "book_event \<Rightarrow> address option" where
  "event_user e = (case e of OrderInserted _ _ u \<Rightarrow> Some u | OrderRemoved _ _ u _ \<Rightarrow> Some u | _ \<Rightarrow> None)"

record user_book_event =
  ue_user :: address
  ue_asset :: nat
  ue_event :: book_event

datatype book_insert_error = DuplicateOid | MissingParent | InvalidLevel | InsufficientLiquidity | OtherInsertError nat

record new_order =
  no_asset_id :: nat
  no_oid :: nat
  no_user :: address
  no_side :: book_side
  no_limit_px :: nat
  no_sz :: nat
  no_reduce_only :: bool
  no_cloid :: "nat option"
  no_post_to_book :: bool

record cancel_request =
  cr_user :: address
  cr_oid :: nat

record book_snapshot_update =
  su_clear_first :: bool
  su_mark_px :: "nat option"
  su_oracle_px :: "nat option"
  su_upserts :: "book_order list"
  su_cancels :: "cancel_request list"

record book_fill =
  bf_maker_oid :: nat
  bf_taker_oid :: nat
  bf_px :: nat
  bf_sz :: nat
  bf_maker :: address
  bf_taker :: address
  bf_time :: nat

datatype order_reject_reason = UnknownAsset | InsertRejected book_insert_error

datatype order_execution_result = ExecAccepted "book_fill list" nat | ExecRejected order_reject_reason

record match_candidate =
  mc_asset_id :: nat
  mc_side :: book_side
  mc_px :: nat
  mc_sz :: nat

section \<open>Impact of trades\<close>

definition impact_default :: impact_state where
  "impact_default = \<lparr>im_ewma_notional = Fin 0, im_ewma_weight = Fin 0, im_window_seconds = Fin 0, im_samples = 0, im_last_update_ms = None\<rparr>"

definition impact_reset :: "impact_state \<Rightarrow> impact_state" where
  "impact_reset i = i\<lparr>im_ewma_notional := Fin 0, im_ewma_weight := Fin 0, im_window_seconds := f64_max (im_window_seconds i) (Fin 10),
     im_samples := 0, im_last_update_ms := None\<rparr>"

definition impact_observe :: "f64 \<Rightarrow> nat \<Rightarrow> impact_state \<Rightarrow> impact_state" where
  "impact_observe notional now_ms i =
     (let elapsed = (case im_last_update_ms i of
            Some last_ms \<Rightarrow> f64_div (f64_of_u64 (saturating_sub_u64 now_ms last_ms)) (Fin 1000)
          | None \<Rightarrow> Fin 1);
          window = f64_max (im_window_seconds i) (Fin 10);
          alpha = f64_clamp (Fin 0) (Fin 1) (f64_div elapsed window);
          rest = f64_sub (Fin 1) alpha
      in i\<lparr>im_last_update_ms := Some now_ms,
           im_ewma_notional := f64_add (f64_mul (im_ewma_notional i) rest) (f64_mul notional alpha),
           im_ewma_weight := f64_add (f64_mul (im_ewma_weight i) rest) alpha,
           im_window_seconds := window,
           im_samples := saturating_add_u64 (im_samples i) 1\<rparr>)"

definition impact_normalized :: "impact_state \<Rightarrow> f64 option" where
  "impact_normalized i =
     (if f64_le (im_ewma_weight i) (f64_round (1 / 10 ^ 15)) \<or> im_ewma_weight i = NaN then None
      else Some (f64_div (im_ewma_notional i) (im_ewma_weight i)))"

section \<open>Reading a book\<close>

definition levels :: "book_side \<Rightarrow> asset_book \<Rightarrow> (int, book_level) btree" where
  "levels side b = (case side of BidSide \<Rightarrow> ab_bids b | AskSide \<Rightarrow> ab_asks b)"

definition set_levels :: "book_side \<Rightarrow> (int, book_level) btree \<Rightarrow> asset_book \<Rightarrow> asset_book" where
  "set_levels side ls b = (case side of BidSide \<Rightarrow> b\<lparr>ab_bids := ls\<rparr> | AskSide \<Rightarrow> b\<lparr>ab_asks := ls\<rparr>)"

definition book_new :: "book_domain \<Rightarrow> nat \<Rightarrow> nat \<Rightarrow> asset_meta \<Rightarrow> asset_book" where
  "book_new domain dex_index local_index meta =
     \<lparr>ab_domain = domain, ab_dex_index = dex_index, ab_local_index = local_index,
      ab_asset_id = pa_pack \<lparr>pa_dex = dex_index, pa_local = local_index\<rparr>, ab_display_name = am_name meta, ab_meta = meta,
      ab_bids = [], ab_asks = [], ab_orders = [], ab_user_to_oids = [], ab_top_bid = None, ab_top_ask = None,
      ab_mark_px = None, ab_oracle_px = None, ab_impact_state = impact_default, ab_registered = False\<rparr>"

definition top_order :: "book_side \<Rightarrow> asset_book \<Rightarrow> book_order option" where
  "top_order side b = (case levels side b of
      [] \<Rightarrow> None
    | e # _ \<Rightarrow> map_of (ab_orders b) (bl_first_oid (snd e)))"

definition top_cache :: "book_side \<Rightarrow> asset_book \<Rightarrow> nat option" where
  "top_cache side b = (case side of BidSide \<Rightarrow> ab_top_bid b | AskSide \<Rightarrow> ab_top_ask b)"

definition refresh_top :: "book_side \<Rightarrow> asset_book \<Rightarrow> asset_book" where
  "refresh_top side b = (case side of
      BidSide \<Rightarrow> b\<lparr>ab_top_bid := map_option od_oid (top_order BidSide b)\<rparr>
    | AskSide \<Rightarrow> b\<lparr>ab_top_ask := map_option od_oid (top_order AskSide b)\<rparr>)"

definition reset_runtime_caches :: "asset_book \<Rightarrow> asset_book" where
  "reset_runtime_caches b = (let b1 = b\<lparr>ab_top_bid := map_option od_oid (top_order BidSide b), ab_top_ask := map_option od_oid (top_order AskSide b)\<rparr> in
     b1\<lparr>ab_impact_state := impact_reset (ab_impact_state b1)\<rparr>)"

definition top_orders_side_map :: "asset_book \<Rightarrow> book_order option \<times> book_order option" where
  "top_orders_side_map b = (top_order BidSide b, top_order AskSide b)"

definition book_best_px :: "book_side \<Rightarrow> asset_book \<Rightarrow> nat option" where
  "book_best_px side b = (case levels side b of [] \<Rightarrow> None | e # _ \<Rightarrow> Some (px_from_key side (fst e)))"

text \<open>The average without overflow: the common bits plus half of the others.\<close>

definition mid_of :: "64 word \<Rightarrow> 64 word \<Rightarrow> 64 word" where
  "mid_of bid ask = (bid AND ask) + drop_bit 1 (bid XOR ask)"

definition mid_px :: "asset_book \<Rightarrow> nat option" where
  "mid_px b = (case book_best_px BidSide b of
      None \<Rightarrow> None
    | Some bid \<Rightarrow> (case book_best_px AskSide b of
          None \<Rightarrow> None
        | Some ask \<Rightarrow> Some (unat (mid_of (of_nat bid) (of_nat ask)))))"

definition total_resting_sz :: "asset_book \<Rightarrow> nat" where
  "total_resting_sz b = fold (\<lambda>e acc. saturating_add_u64 acc (od_resting_sz (snd e))) (ab_orders b) 0"

definition decimal_scale :: "nat \<Rightarrow> nat" where
  "decimal_scale decimals = fold (\<lambda>_ scale. saturating_mul_u64 scale 10) [0..<decimals] 1"

definition am_px_scale :: "asset_meta \<Rightarrow> nat" where
  "am_px_scale m = decimal_scale (min (am_px_decimals m) 18)"

definition am_sz_scale :: "asset_meta \<Rightarrow> nat" where
  "am_sz_scale m = decimal_scale (min (am_sz_decimals m) 18)"

definition strip_trailing_zeros :: "string \<Rightarrow> string" where
  "strip_trailing_zeros s = rev (dropWhile (\<lambda>c. c = CHR ''0'') (rev s))"

definition format_scaled :: "nat \<Rightarrow> nat \<Rightarrow> string" where
  "format_scaled value scale =
     (if scale \<le> 1 then dec_text value
      else let whole = value div scale;
               fraction = strip_trailing_zeros (pad_zeros (count_digits scale - 1) (dec_text (value mod scale))) in
        if fraction = [] then dec_text whole else dec_text whole @ CHR ''.'' # fraction)"

record l2_level =
  l2_px :: string
  l2_sz :: string
  l2_n :: nat

definition level_size :: "asset_book \<Rightarrow> nat bset \<Rightarrow> nat \<times> nat" where
  "level_size b oids = fold (\<lambda>oid (sz, n). case map_of (ab_orders b) oid of
      Some ord \<Rightarrow> (saturating_add_u64 sz (od_resting_sz ord), saturating_add_u64 n 1)
    | None \<Rightarrow> (sz, n)) oids (0, 0)"

definition l2_levels :: "book_side \<Rightarrow> nat \<Rightarrow> asset_book \<Rightarrow> l2_level list" where
  "l2_levels side max_levels b = concat (map (\<lambda>(key, level).
     case level_size b (bl_oids level) of (sz, n) \<Rightarrow>
       if n \<noteq> 0 then [\<lparr>l2_px = format_scaled (px_from_key side key) (am_px_scale (ab_meta b)),
                      l2_sz = format_scaled sz (am_sz_scale (ab_meta b)), l2_n = n\<rparr>] else [])
     (take max_levels (levels side b)))"

text \<open>The price at which the notional of the best orders reaches the target; an id without an order ends the search.\<close>

fun impact_orders :: "asset_book \<Rightarrow> nat \<Rightarrow> nat \<Rightarrow> nat list \<Rightarrow> nat \<Rightarrow> (bool \<times> nat) option" where
  "impact_orders b target px [] accumulated = Some (False, accumulated)"
| "impact_orders b target px (oid # oids) accumulated = (case map_of (ab_orders b) oid of
      None \<Rightarrow> None
    | Some ord \<Rightarrow>
        (let acc = min (accumulated + px * od_resting_sz ord) u128_max in
         if target \<le> acc then Some (True, acc) else impact_orders b target px oids acc))"

fun impact_levels :: "asset_book \<Rightarrow> book_side \<Rightarrow> nat \<Rightarrow> (int \<times> book_level) list \<Rightarrow> nat \<Rightarrow> nat option" where
  "impact_levels b side target [] accumulated = None"
| "impact_levels b side target ((key, level) # rest) accumulated =
     (case impact_orders b target (px_from_key side key) (bl_oids level) accumulated of
        None \<Rightarrow> None
      | Some (True, _) \<Rightarrow> Some (px_from_key side key)
      | Some (False, acc) \<Rightarrow> impact_levels b side target rest acc)"

definition impact_px :: "book_side \<Rightarrow> nat \<Rightarrow> asset_book \<Rightarrow> nat option" where
  "impact_px side target_notional b = impact_levels b side target_notional (levels side b) 0"

definition impact_pxs :: "nat \<Rightarrow> asset_book \<Rightarrow> (nat \<times> nat) option" where
  "impact_pxs notional b = (case impact_px BidSide notional b of
      None \<Rightarrow> None
    | Some bid \<Rightarrow> (case impact_px AskSide notional b of None \<Rightarrow> None | Some ask \<Rightarrow> Some (bid, ask)))"

definition find_order_by_user_oid :: "address \<Rightarrow> nat \<Rightarrow> asset_book \<Rightarrow> book_order option" where
  "find_order_by_user_oid user oid b = (case map_of (ab_orders b) oid of
      None \<Rightarrow> None
    | Some ord \<Rightarrow> if od_user ord = user then Some ord else None)"

section \<open>Changing a book\<close>

definition add_to_level :: "int \<Rightarrow> nat \<Rightarrow> (int, book_level) btree \<Rightarrow> (int, book_level) btree" where
  "add_to_level key oid ls = bt_insert key (level_insert oid (entry_or level_default ls key)) ls"

definition drop_from_level :: "int \<Rightarrow> nat \<Rightarrow> (int, book_level) btree \<Rightarrow> (int, book_level) btree" where
  "drop_from_level key oid ls = (case map_of ls key of
      None \<Rightarrow> ls
    | Some l \<Rightarrow> if bl_oids (level_remove oid l) = [] then bt_remove key ls else bt_insert key (level_remove oid l) ls)"

definition add_to_user :: "address \<Rightarrow> nat \<Rightarrow> (address, nat bset) btree \<Rightarrow> (address, nat bset) btree" where
  "add_to_user user oid ix = bt_insert user (bs_insert oid (entry_or [] ix user)) ix"

definition drop_from_user :: "address \<Rightarrow> nat \<Rightarrow> (address, nat bset) btree \<Rightarrow> (address, nat bset) btree" where
  "drop_from_user user oid ix = (case map_of ix user of
      None \<Rightarrow> ix
    | Some oids \<Rightarrow> if bs_remove oid oids = [] then bt_remove user ix else bt_insert user (bs_remove oid oids) ix)"

definition book_insert_order :: "book_order \<Rightarrow> asset_book \<Rightarrow> asset_book \<times> book_event list \<times> (book_insert_error + unit)" where
  "book_insert_order ord b =
     (if bt_contains (ab_orders b) (od_oid ord) then (b, [], Inl DuplicateOid)
      else
        (let side = od_side ord; oid = od_oid ord; user = od_user ord;
             b1 = set_levels side (add_to_level (level_key side (od_limit_px ord)) oid (levels side b)) b;
             b2 = b1\<lparr>ab_user_to_oids := add_to_user user oid (ab_user_to_oids b1)\<rparr>;
             b3 = b2\<lparr>ab_orders := bt_insert oid ord (ab_orders b2)\<rparr>
         in (refresh_top side b3, [OrderInserted (ab_asset_id b) oid user], Inr ())))"

definition book_remove_order :: "address \<Rightarrow> nat \<Rightarrow> bool \<Rightarrow> asset_book \<Rightarrow> asset_book \<times> book_event list \<times> bool" where
  "book_remove_order user oid emit_flag b = (case map_of (ab_orders b) oid of
      None \<Rightarrow> (b, [], False)
    | Some ord \<Rightarrow>
        if od_user ord \<noteq> user then (b\<lparr>ab_orders := bt_insert oid ord (bt_remove oid (ab_orders b))\<rparr>, [], False)
        else
          (let side = od_side ord;
               b1 = b\<lparr>ab_orders := bt_remove oid (ab_orders b)\<rparr>;
               b2 = set_levels side (drop_from_level (level_key side (od_limit_px ord)) oid (levels side b1)) b1;
               b3 = b2\<lparr>ab_user_to_oids := drop_from_user user oid (ab_user_to_oids b2)\<rparr>
           in (refresh_top side b3,
               if emit_flag then [OrderRemoved (ab_asset_id b) oid user (od_resting_sz ord)] else [], True)))"

primrec cancel_loop :: "address \<Rightarrow> nat list \<Rightarrow> nat \<Rightarrow> nat \<Rightarrow> asset_book \<Rightarrow> book_event list \<Rightarrow> asset_book \<times> book_event list \<times> nat" where
  "cancel_loop user [] max_sz cancelled b events = (b, events, cancelled)"
| "cancel_loop user (oid # oids) max_sz cancelled b events =
     (if max_sz = 0 then (b, events, cancelled)
      else
        (let take = (case map_of (ab_orders b) oid of None \<Rightarrow> 0 | Some ord \<Rightarrow> min (od_resting_sz ord) max_sz) in
         case book_remove_order user oid True b of
           (b1, evs, _) \<Rightarrow> cancel_loop user oids (max_sz - take) (saturating_add_u64 cancelled take) b1 (events @ evs)))"

definition cancel_user_until :: "address \<Rightarrow> nat \<Rightarrow> asset_book \<Rightarrow> asset_book \<times> book_event list \<times> nat" where
  "cancel_user_until user max_sz b = (case map_of (ab_user_to_oids b) user of
      None \<Rightarrow> (b, [], 0)
    | Some oids \<Rightarrow> cancel_loop user oids max_sz 0 b [])"

definition upsert_order :: "book_order \<Rightarrow> asset_book \<Rightarrow> asset_book \<times> book_event list" where
  "upsert_order ord b =
     (let b1 = (if bt_contains (ab_orders b) (od_oid ord) then fst (book_remove_order (od_user ord) (od_oid ord) False b) else b) in
      case book_insert_order ord b1 of (b2, evs, _) \<Rightarrow> (b2, evs))"

primrec upsert_all :: "book_order list \<Rightarrow> asset_book \<times> book_event list \<Rightarrow> asset_book \<times> book_event list" where
  "upsert_all [] s = s"
| "upsert_all (ord # ords) s = (case upsert_order ord (fst s) of (b1, evs) \<Rightarrow> upsert_all ords (b1, snd s @ evs))"

primrec cancel_all :: "cancel_request list \<Rightarrow> asset_book \<times> book_event list \<Rightarrow> asset_book \<times> book_event list" where
  "cancel_all [] s = s"
| "cancel_all (c # cs) s = (case book_remove_order (cr_user c) (cr_oid c) True (fst s) of (b1, evs, _) \<Rightarrow> cancel_all cs (b1, snd s @ evs))"

definition option_or :: "'a option \<Rightarrow> 'a option \<Rightarrow> 'a option" where
  "option_or x y = (case x of Some _ \<Rightarrow> x | None \<Rightarrow> y)"

definition book_clear :: "asset_book \<Rightarrow> asset_book" where
  "book_clear b = b\<lparr>ab_bids := [], ab_asks := [], ab_orders := [], ab_user_to_oids := [], ab_top_bid := None, ab_top_ask := None\<rparr>"

definition apply_snapshot_update :: "book_snapshot_update \<Rightarrow> asset_book \<Rightarrow> asset_book \<times> book_event list" where
  "apply_snapshot_update update b =
     (let b1 = b\<lparr>ab_mark_px := option_or (su_mark_px update) (ab_mark_px b), ab_oracle_px := option_or (su_oracle_px update) (ab_oracle_px b)\<rparr>;
          s = (if su_clear_first update then (book_clear b1, [BookCleared (ab_asset_id b1)]) else (b1, []))
      in cancel_all (su_cancels update) (upsert_all (su_upserts update) s))"

section \<open>Matching\<close>

lemma length_filter_bt_insert [simp]: "filter (\<lambda>e. fst e \<noteq> k) (bt_insert k v m) = filter (\<lambda>e. fst e \<noteq> k) m"
  by (induction m) auto

lemma length_bt_remove_less: "map_of m k = Some v \<Longrightarrow> length (bt_remove k m) < length m"
  unfolding bt_remove_def by (rule length_filter_less [of "(k, v)"]) (auto dest: map_of_SomeD)

lemma ab_orders_simps [simp]:
  "ab_orders (set_levels side ls b) = ab_orders b" "ab_orders (refresh_top side b) = ab_orders b"
  by (cases side; simp add: set_levels_def refresh_top_def)+

lemma book_remove_orders:
  "map_of (ab_orders b) oid = Some ord \<Longrightarrow> od_user ord = user \<Longrightarrow>
    ab_orders (fst (book_remove_order user oid emit b)) = bt_remove oid (ab_orders b)"
  by (simp add: book_remove_order_def Let_def)

definition crosses :: "book_side \<Rightarrow> nat \<Rightarrow> nat \<Rightarrow> bool" where
  "crosses side limit_px best_px = (case side of BidSide \<Rightarrow> best_px \<le> limit_px | AskSide \<Rightarrow> limit_px \<le> best_px)"

text \<open>The first order of the level at a price.\<close>

definition first_at :: "book_side \<Rightarrow> nat \<Rightarrow> asset_book \<Rightarrow> (nat \<times> book_order) option" where
  "first_at side px b = (case map_of (levels side b) (level_key side px) of
      None \<Rightarrow> None
    | Some l \<Rightarrow> (case bl_oids l of
          [] \<Rightarrow> None
        | oid # _ \<Rightarrow> (case map_of (ab_orders b) oid of None \<Rightarrow> None | Some ord \<Rightarrow> Some (oid, ord))))"

lemma first_at_order: "first_at side px b = Some (oid, ord) \<Longrightarrow> map_of (ab_orders b) oid = Some ord"
  by (auto simp: first_at_def split: option.splits list.splits)

text \<open>The maker is written back with its remaining size; when nothing remains it is removed.\<close>

definition fill_maker :: "nat \<Rightarrow> book_order \<Rightarrow> nat \<Rightarrow> asset_book \<Rightarrow> asset_book" where
  "fill_maker oid ord fill_sz b =
     (let ord' = ord\<lparr>od_resting_sz := od_resting_sz ord - fill_sz\<rparr>;
          b1 = b\<lparr>ab_orders := bt_insert oid ord' (ab_orders b)\<rparr>
      in if od_resting_sz ord' = 0 then fst (book_remove_order (od_user ord') oid False b1) else b1)"

lemma fill_maker_shorter:
  assumes "map_of (ab_orders b) oid = Some ord" and "od_resting_sz ord \<le> fill_sz"
  shows "length (ab_orders (fill_maker oid ord fill_sz b)) < length (ab_orders b)"
proof -
  have "bt_remove oid (bt_insert oid v (ab_orders b)) = bt_remove oid (ab_orders b)" for v
    by (simp add: bt_remove_def)
  with assms show ?thesis
    by (simp add: fill_maker_def Let_def book_remove_orders length_bt_remove_less)
qed

function match_loop :: "new_order \<Rightarrow> nat \<Rightarrow> asset_book \<Rightarrow> nat \<Rightarrow> book_fill list \<Rightarrow> asset_book \<times> nat \<times> book_fill list" where
  "match_loop order now_ms b remaining fills =
     (if remaining = 0 then (b, remaining, fills)
      else case book_best_px (side_opposite (no_side order)) b of
        None \<Rightarrow> (b, remaining, fills)
      | Some best_px \<Rightarrow>
          if \<not> crosses (no_side order) (no_limit_px order) best_px then (b, remaining, fills)
          else case first_at (side_opposite (no_side order)) best_px b of
            None \<Rightarrow> (b, remaining, fills)
          | Some (oid, resting) \<Rightarrow>
              (let fill_sz = min (od_resting_sz resting) remaining in
               match_loop order now_ms (fill_maker oid resting fill_sz b) (remaining - fill_sz)
                 (fills @ [\<lparr>bf_maker_oid = oid, bf_taker_oid = no_oid order, bf_px = best_px, bf_sz = fill_sz,
                            bf_maker = od_user resting, bf_taker = no_user order, bf_time = now_ms\<rparr>])))"
  by pat_completeness auto
termination
proof (relation "measures [\<lambda>(order, now_ms, b, remaining, fills). if remaining = 0 then 0 else 1,
      \<lambda>(order, now_ms, b, remaining, fills). length (ab_orders b)]")
  fix order :: new_order and now_ms remaining best_px fill_sz oid :: nat and b fills x ord
  assume r: "remaining \<noteq> 0" and f: "first_at (side_opposite (no_side order)) best_px b = Some x" "(oid, ord) = x"
    and s: "fill_sz = min (od_resting_sz ord) remaining"
  show "((order, now_ms, fill_maker oid ord fill_sz b, remaining - fill_sz,
      fills @ [\<lparr>bf_maker_oid = oid, bf_taker_oid = no_oid order, bf_px = best_px, bf_sz = fill_sz,
        bf_maker = od_user ord, bf_taker = no_user order, bf_time = now_ms\<rparr>]), order, now_ms, b, remaining, fills)
    \<in> measures [\<lambda>(order, now_ms, b, remaining, fills). if remaining = 0 then 0 else 1,
      \<lambda>(order, now_ms, b, remaining, fills). length (ab_orders b)]"
  proof (cases "od_resting_sz ord < remaining")
    case True
    then show ?thesis using fill_maker_shorter [OF first_at_order, of _ best_px b oid ord fill_sz] f s by auto
  next
    case False
    with r s show ?thesis by auto
  qed
qed simp

declare match_loop.simps [simp del]

definition execute_order :: "new_order \<Rightarrow> nat \<Rightarrow> asset_book \<Rightarrow> asset_book \<times> order_execution_result" where
  "execute_order order now_ms b = (case match_loop order now_ms b (no_sz order) [] of
      (b1, remaining, fills) \<Rightarrow>
        if remaining \<noteq> 0 \<and> no_post_to_book order then
          (case book_insert_order
               \<lparr>od_oid = no_oid order, od_user = no_user order, od_side = no_side order, od_limit_px = no_limit_px order,
                od_resting_sz = remaining, od_reduce_only = no_reduce_only order, od_cloid = no_cloid order,
                od_timestamp_ms = now_ms, od_child_oids = []\<rparr> b1 of
             (b2, _, Inl reason) \<Rightarrow> (b2, ExecRejected (InsertRejected reason))
           | (b2, _, Inr _) \<Rightarrow> (b2, ExecAccepted fills remaining))
        else (b1, ExecAccepted fills remaining))"

definition take_liquidity :: "nat \<Rightarrow> book_order \<Rightarrow> nat \<Rightarrow> asset_book \<Rightarrow> asset_book \<times> book_event list" where
  "take_liquidity oid ord take_sz b =
     (if take_sz = od_resting_sz ord then (case book_remove_order (od_user ord) oid True b of (b1, evs, _) \<Rightarrow> (b1, evs))
      else (b\<lparr>ab_orders := bt_insert oid (ord\<lparr>od_resting_sz := od_resting_sz ord - take_sz\<rparr>) (ab_orders b)\<rparr>,
            [OrderReduced (ab_asset_id b) oid (od_resting_sz ord - take_sz)]))"

lemma take_liquidity_shorter:
  "map_of (ab_orders b) oid = Some ord \<Longrightarrow> length (ab_orders (fst (take_liquidity oid ord (od_resting_sz ord) b))) < length (ab_orders b)"
  by (simp add: take_liquidity_def book_remove_order_def Let_def length_bt_remove_less)

function liquidity_loop :: "book_side \<Rightarrow> asset_book \<Rightarrow> nat \<Rightarrow> nat \<Rightarrow> book_event list \<Rightarrow> asset_book \<times> nat \<times> book_event list" where
  "liquidity_loop side b sz removed events =
     (if sz = 0 then (b, removed, events)
      else case book_best_px side b of
        None \<Rightarrow> (b, removed, events)
      | Some px \<Rightarrow> (case first_at side px b of
            None \<Rightarrow> (b, removed, events)
          | Some (oid, ord) \<Rightarrow>
              (let take_sz = min (od_resting_sz ord) sz in
               liquidity_loop side (fst (take_liquidity oid ord take_sz b)) (sz - take_sz) (saturating_add_u64 removed take_sz)
                 (events @ snd (take_liquidity oid ord take_sz b)))))"
  by pat_completeness auto
termination
proof (relation "measures [\<lambda>(side, b, sz, removed, events). if sz = 0 then 0 else 1,
      \<lambda>(side, b, sz, removed, events). length (ab_orders b)]")
  fix side :: book_side and b sz removed events px x oid ord and take_sz :: nat
  assume r: "sz \<noteq> 0" and f: "first_at side px b = Some x" "(oid, ord) = x" and s: "take_sz = min (od_resting_sz ord) sz"
  show "((side, fst (take_liquidity oid ord take_sz b), sz - take_sz, saturating_add_u64 removed take_sz, events @ snd (take_liquidity oid ord take_sz b)),
      side, b, sz, removed, events)
    \<in> measures [\<lambda>(side, b, sz, removed, events). if sz = 0 then 0 else 1, \<lambda>(side, b, sz, removed, events). length (ab_orders b)]"
  proof (cases "od_resting_sz ord < sz")
    case True
    then show ?thesis using take_liquidity_shorter [OF first_at_order, of side px b oid ord] f s by auto
  next
    case False
    with r s show ?thesis by auto
  qed
qed simp

declare liquidity_loop.simps [simp del]

definition remove_liquidity :: "book_side \<Rightarrow> nat \<Rightarrow> asset_book \<Rightarrow> asset_book \<times> nat \<times> book_event list" where
  "remove_liquidity side sz b = liquidity_loop side b sz 0 []"

end
