(* ===== verification/Bucket_Index.thy ===== *)
theory Bucket_Index
  imports Rust_Prelude
begin

text \<open>
  The interface of an index of orders: buckets of ids under a key.  The levels and the users of \<^verbatim>\<open>src/l1/books.rs\<close> and the queues of
  \<^verbatim>\<open>src/l1/exchange/impl_trading.rs\<close> provide it.
\<close>

section \<open>Buckets of ids\<close>

text \<open>The bucket of a key holds the ids of the orders whose projection is that key.\<close>

definition indexes :: "('x \<Rightarrow> 'k \<Rightarrow> 'i set) \<Rightarrow> ('v \<Rightarrow> 'k option) \<Rightarrow> ('i, 'v) btree \<Rightarrow> 'x \<Rightarrow> bool" where
  "indexes members f m x \<longleftrightarrow> (\<forall>k. members x k = {i. \<exists>v. map_of m i = Some v \<and> f v = Some k})"

locale bucket_index =
  fixes members :: "'x \<Rightarrow> 'k \<Rightarrow> 'i::linorder set"
    and add_member :: "'k \<Rightarrow> 'i \<Rightarrow> 'x \<Rightarrow> 'x"
    and drop_member :: "'k \<Rightarrow> 'i \<Rightarrow> 'x \<Rightarrow> 'x"
    and ix_wf :: "'x \<Rightarrow> bool"
  assumes members_add: "ix_wf x \<Longrightarrow> members (add_member k i x) k' = (if k' = k then insert i (members x k) else members x k')"
    and members_drop: "ix_wf x \<Longrightarrow> members (drop_member k i x) k' = (if k' = k then members x k - {i} else members x k')"
    and wf_add: "ix_wf x \<Longrightarrow> ix_wf (add_member k i x)"
    and wf_drop: "ix_wf x \<Longrightarrow> ix_wf (drop_member k i x)"
begin

lemma insert_indexed:
  assumes "ix_wf x" and "indexes members f m x" and "map_of m i = None" and "f v = Some k"
  shows "indexes members f (bt_insert i v m) (add_member k i x)"
  using assms(2-4) by (auto simp: indexes_def members_add [OF assms(1)])

lemma remove_indexed:
  assumes "ix_wf x" and "indexes members f m x" and "map_of m i = Some v" and "f v = Some k"
  shows "indexes members f (bt_remove i m) (drop_member k i x)"
  using assms(2-4) by (auto simp: indexes_def members_drop [OF assms(1)])

lemma insert_other: "indexes members f m x \<Longrightarrow> map_of m i = None \<Longrightarrow> f v = None \<Longrightarrow> indexes members f (bt_insert i v m) x"
  by (auto simp: indexes_def)

lemma remove_other: "indexes members f m x \<Longrightarrow> map_of m i = Some v \<Longrightarrow> f v = None \<Longrightarrow> indexes members f (bt_remove i m) x"
  by (auto simp: indexes_def)

lemma replace_indexed: "indexes members f m x \<Longrightarrow> map_of m i = Some v \<Longrightarrow> f w = f v \<Longrightarrow> indexes members f (bt_insert i w m) x"
  by (auto simp: indexes_def)

lemma member_iff: "indexes members f m x \<Longrightarrow> i \<in> members x k \<longleftrightarrow> (\<exists>v. map_of m i = Some v \<and> f v = Some k)"
  by (simp add: indexes_def)

end

end
