(* ===== verification/Books_Invariant.thy ===== *)
theory Books_Invariant
  imports Books Bucket_Index "HOL-Library.Product_Lexorder"
begin

text \<open>
  The invariant of a book: the two level maps, the index of users and the cache of the first orders say exactly
  what the map of orders says.  Both indexes are instances of one interface, the buckets of \<open>Bucket_Index\<close>.
\<close>

section \<open>The two indexes of a book\<close>

definition level_ok :: "book_level \<Rightarrow> bool" where
  "level_ok l \<longleftrightarrow> bs_wf (bl_oids l) \<and> bl_oids l \<noteq> [] \<and> bl_first_oid l = hd (bl_oids l) \<and> bl_last_oid l = last (bl_oids l)"

definition levels_wf :: "(int, book_level) btree \<Rightarrow> bool" where
  "levels_wf ls \<longleftrightarrow> bt_wf ls \<and> (\<forall>e \<in> set ls. level_ok (snd e))"

definition level_members :: "(int, book_level) btree \<Rightarrow> int \<Rightarrow> nat set" where
  "level_members ls k = set (bl_oids (entry_or level_default ls k))"

definition users_wf :: "(address, nat bset) btree \<Rightarrow> bool" where
  "users_wf ix \<longleftrightarrow> bt_wf ix \<and> (\<forall>e \<in> set ix. bs_wf (snd e) \<and> snd e \<noteq> [])"

definition user_members :: "(address, nat bset) btree \<Rightarrow> address \<Rightarrow> nat set" where
  "user_members ix u = set (entry_or [] ix u)"

lemma bs_insert_not_Nil [simp]: "bs_insert k xs \<noteq> []"
  by (cases xs) auto

lemma entry_bt_insert: "e \<in> set (bt_insert k v m) \<Longrightarrow> e = (k, v) \<or> e \<in> set m"
  using set_bt_insert_sub [of k v m] by auto

lemma entry_bt_remove: "e \<in> set (bt_remove k m) \<Longrightarrow> e \<in> set m"
  by (simp add: bt_remove_def)

lemma map_of_entry: "map_of m k = Some v \<Longrightarrow> \<forall>e \<in> set m. P (fst e) (snd e) \<Longrightarrow> P k v"
  by (drule map_of_SomeD) force

lemma entry_or_remove: "entry_or d (bt_remove k m) x = (if x = k then d else entry_or d m x)"
  by (simp add: entry_or_def)

lemma entry_or_Some: "map_of m k = Some v \<Longrightarrow> entry_or d m k = v"
  by (simp add: entry_or_def)

lemma entry_or_None: "map_of m k = None \<Longrightarrow> entry_or d m k = d"
  by (simp add: entry_or_def)

lemma first_or_0_hd: "oids \<noteq> [] \<Longrightarrow> first_or_0 oids = hd oids"
  by (cases oids) (auto simp: first_or_0_def)

lemma level_oids [simp]: "bl_oids level_default = []" "bl_oids (level_insert oid l) = bs_insert oid (bl_oids l)"
  "bl_oids (level_remove oid l) = bs_remove oid (bl_oids l)"
  by (simp_all add: level_default_def level_insert_def level_remove_def Let_def)

lemma level_ok_insert: "bs_wf (bl_oids l) \<Longrightarrow> level_ok (level_insert oid l)"
  by (simp add: level_ok_def level_insert_def Let_def first_or_0_hd last_or_0_def)

lemma level_ok_remove: "bs_wf (bl_oids l) \<Longrightarrow> bs_remove oid (bl_oids l) \<noteq> [] \<Longrightarrow> level_ok (level_remove oid l)"
  by (simp add: level_ok_def level_remove_def Let_def first_or_0_hd last_or_0_def)

lemma levels_entry: "levels_wf ls \<Longrightarrow> bs_wf (bl_oids (entry_or level_default ls k))"
  using map_of_entry [of ls k _ "\<lambda>_. level_ok"] unfolding levels_wf_def
  by (cases "map_of ls k") (auto simp: entry_or_Some entry_or_None level_ok_def bs_wf_def)

lemma users_entry: "users_wf ix \<Longrightarrow> bs_wf (entry_or [] ix u)"
  using map_of_entry [of ix u _ "\<lambda>_ oids. bs_wf oids \<and> oids \<noteq> []"] unfolding users_wf_def
  by (cases "map_of ix u") (auto simp: entry_or_Some entry_or_None bs_wf_def)

lemma levels_wf_put: "levels_wf ls \<Longrightarrow> level_ok l \<Longrightarrow> levels_wf (bt_insert k l ls)"
  unfolding levels_wf_def by (auto dest!: entry_bt_insert)

lemma levels_wf_cut: "levels_wf ls \<Longrightarrow> levels_wf (bt_remove k ls)"
  unfolding levels_wf_def by (auto dest: entry_bt_remove)

lemma users_wf_put: "users_wf ix \<Longrightarrow> bs_wf oids \<Longrightarrow> oids \<noteq> [] \<Longrightarrow> users_wf (bt_insert k oids ix)"
  unfolding users_wf_def by (auto dest!: entry_bt_insert)

lemma users_wf_cut: "users_wf ix \<Longrightarrow> users_wf (bt_remove k ix)"
  unfolding users_wf_def by (auto dest: entry_bt_remove)

lemma empty_bs_remove: "bs_remove i xs = [] \<Longrightarrow> set xs - {i} = {}"
  using set_bs_remove [of i xs] by simp

interpretation level_index: bucket_index level_members add_to_level drop_from_level levels_wf
proof
  fix ls k k' and i :: nat
  assume wf: "levels_wf ls"
  show "level_members (add_to_level k i ls) k' = (if k' = k then insert i (level_members ls k) else level_members ls k')"
    by (simp add: level_members_def add_to_level_def)
  show "levels_wf (add_to_level k i ls)"
    unfolding add_to_level_def by (rule levels_wf_put [OF wf level_ok_insert [OF levels_entry [OF wf]]])
  have "bs_wf (bl_oids l)" if "map_of ls k = Some l" for l
    using levels_entry [OF wf, of k] that by (simp add: entry_or_Some)
  then show "levels_wf (drop_from_level k i ls)"
    using wf by (auto simp: drop_from_level_def levels_wf_cut intro: levels_wf_put level_ok_remove split: option.split)
  show "level_members (drop_from_level k i ls) k' = (if k' = k then level_members ls k - {i} else level_members ls k')"
    by (auto simp: level_members_def drop_from_level_def entry_or_remove entry_or_Some entry_or_None dest: empty_bs_remove split: option.split)
qed

interpretation user_index: bucket_index user_members add_to_user drop_from_user users_wf
proof
  fix ix k k' and i :: nat
  assume wf: "users_wf ix"
  show "user_members (add_to_user k i ix) k' = (if k' = k then insert i (user_members ix k) else user_members ix k')"
    by (simp add: user_members_def add_to_user_def)
  show "users_wf (add_to_user k i ix)"
    unfolding add_to_user_def by (rule users_wf_put [OF wf bs_wf_insert [OF users_entry [OF wf]]]) simp
  have "bs_wf oids" if "map_of ix k = Some oids" for oids
    using users_entry [OF wf, of k] that by (simp add: entry_or_Some)
  then show "users_wf (drop_from_user k i ix)"
    using wf by (auto simp: drop_from_user_def users_wf_cut intro: users_wf_put split: option.split)
  show "user_members (drop_from_user k i ix) k' = (if k' = k then user_members ix k - {i} else user_members ix k')"
    by (auto simp: user_members_def drop_from_user_def entry_or_remove entry_or_Some entry_or_None dest: empty_bs_remove split: option.split)
qed

section \<open>The invariant\<close>

definition level_of :: "book_side \<Rightarrow> book_order \<Rightarrow> int option" where
  "level_of side ord = (if od_side ord = side then Some (level_key side (od_limit_px ord)) else None)"

definition order_in_range :: "book_order \<Rightarrow> bool" where
  "order_in_range ord \<longleftrightarrow> od_limit_px ord \<le> u64_max \<and> od_resting_sz ord \<le> u64_max"

definition orders_ok :: "(nat, book_order) btree \<Rightarrow> bool" where
  "orders_ok m \<longleftrightarrow> bt_wf m \<and> (\<forall>e \<in> set m. od_oid (snd e) = fst e \<and> order_in_range (snd e))"

definition side_ok :: "book_side \<Rightarrow> asset_book \<Rightarrow> bool" where
  "side_ok side b \<longleftrightarrow> levels_wf (levels side b) \<and> indexes level_members (level_of side) (ab_orders b) (levels side b)"

definition cache_ok :: "book_side \<Rightarrow> asset_book \<Rightarrow> bool" where
  "cache_ok side b \<longleftrightarrow> top_cache side b = map_option od_oid (top_order side b)"

definition book_ok :: "asset_book \<Rightarrow> bool" where
  "book_ok b \<longleftrightarrow> orders_ok (ab_orders b) \<and> (\<forall>side. side_ok side b \<and> cache_ok side b) \<and>
     users_wf (ab_user_to_oids b) \<and> indexes user_members (\<lambda>ord. Some (od_user ord)) (ab_orders b) (ab_user_to_oids b)"

lemma all_sides: "(\<forall>side. P side) \<longleftrightarrow> P BidSide \<and> P AskSide"
  by (metis book_side.exhaust)

lemma orders_ok_entry: "orders_ok m \<Longrightarrow> map_of m oid = Some ord \<Longrightarrow> od_oid ord = oid \<and> order_in_range ord"
  using map_of_entry [of m oid ord "\<lambda>oid ord. od_oid ord = oid \<and> order_in_range ord"] by (simp add: orders_ok_def)

lemma orders_ok_put: "orders_ok m \<Longrightarrow> order_in_range ord \<Longrightarrow> orders_ok (bt_insert (od_oid ord) ord m)"
  unfolding orders_ok_def by (auto dest!: entry_bt_insert)

lemma orders_ok_cut: "orders_ok m \<Longrightarrow> orders_ok (bt_remove oid m)"
  by (simp add: orders_ok_def bt_remove_def)

lemma levels_simps [simp]:
  "levels side (set_levels side' ls b) = (if side' = side then ls else levels side b)"
  "levels side (refresh_top side' b) = levels side b"
  "levels side (b\<lparr>ab_orders := m\<rparr>) = levels side b"
  "levels side (b\<lparr>ab_user_to_oids := ix\<rparr>) = levels side b"
  by (cases side; cases side'; simp add: levels_def set_levels_def refresh_top_def)+

lemma users_simps [simp]:
  "ab_user_to_oids (set_levels side ls b) = ab_user_to_oids b" "ab_user_to_oids (refresh_top side b) = ab_user_to_oids b"
  by (cases side; simp add: set_levels_def refresh_top_def)+

lemma cache_simps [simp]:
  "top_cache side (set_levels side' ls b) = top_cache side b"
  "top_cache side (b\<lparr>ab_orders := m\<rparr>) = top_cache side b"
  "top_cache side (b\<lparr>ab_user_to_oids := ix\<rparr>) = top_cache side b"
  "top_cache side (refresh_top side' b) = (if side' = side then map_option od_oid (top_order side b) else top_cache side b)"
  by (cases side; cases side'; simp add: top_cache_def set_levels_def refresh_top_def)+

lemma top_order_refresh [simp]: "top_order side (refresh_top side' b) = top_order side b"
  by (simp add: top_order_def split: list.split)

text \<open>The first level of a side starts with an order of that side and price, so the cache survives a change of other orders.\<close>

lemma side_ok_first:
  assumes "side_ok side b" and "levels side b = (k, l) # r"
  shows "\<exists>ord. map_of (ab_orders b) (bl_first_oid l) = Some ord \<and> od_side ord = side \<and> level_key side (od_limit_px ord) = k"
proof -
  have l: "level_ok l" using assms by (simp add: side_ok_def levels_wf_def)
  then have "bl_first_oid l \<in> level_members (levels side b) k"
    using assms(2) by (simp add: level_members_def entry_or_def level_ok_def)
  then show ?thesis
    using assms(1) unfolding side_ok_def by (auto simp: level_index.member_iff level_of_def split: if_splits)
qed

lemma cache_kept:
  assumes "side_ok side b" and "cache_ok side b" and "levels side b' = levels side b" and "top_cache side b' = top_cache side b"
    and "\<And>i ord. map_of (ab_orders b) i = Some ord \<Longrightarrow> od_side ord = side \<Longrightarrow> \<exists>ord'. map_of (ab_orders b') i = Some ord' \<and> od_oid ord' = od_oid ord"
  shows "cache_ok side b'"
proof (cases "levels side b")
  case Nil
  then show ?thesis using assms(2-4) by (simp add: cache_ok_def top_order_def)
next
  case (Cons e r)
  obtain ord where ord: "map_of (ab_orders b) (bl_first_oid (snd e)) = Some ord" "od_side ord = side"
    using side_ok_first [OF assms(1), of "fst e" "snd e" r] Cons by auto
  then obtain ord' where "map_of (ab_orders b') (bl_first_oid (snd e)) = Some ord'" "od_oid ord' = od_oid ord"
    using assms(5) by blast
  then show ?thesis using assms(2-4) Cons ord by (simp add: cache_ok_def top_order_def)
qed

lemma book_okI:
  assumes "orders_ok (ab_orders b)" and "\<And>side. side_ok side b" and "\<And>side. cache_ok side b" and "users_wf (ab_user_to_oids b)"
    and "indexes user_members (\<lambda>ord. Some (od_user ord)) (ab_orders b) (ab_user_to_oids b)"
  shows "book_ok b"
  using assms by (simp add: book_ok_def)

lemma book_okD:
  assumes "book_ok b"
  shows "orders_ok (ab_orders b)" "side_ok side b" "cache_ok side b" "users_wf (ab_user_to_oids b)"
    "indexes user_members (\<lambda>ord. Some (od_user ord)) (ab_orders b) (ab_user_to_oids b)"
  using assms by (simp_all add: book_ok_def)

lemma book_ok_new: "book_ok (book_new domain dex_index local_index meta)"
  by (auto simp: book_ok_def orders_ok_def side_ok_def cache_ok_def levels_wf_def users_wf_def indexes_def level_members_def
      user_members_def entry_or_def book_new_def levels_def top_cache_def top_order_def split: book_side.splits)

section \<open>Insertion and removal\<close>

definition linked :: "book_order \<Rightarrow> asset_book \<Rightarrow> asset_book" where
  "linked ord b = fst (book_insert_order ord b)"

lemma insert_order_cases:
  obtains (duplicate) "map_of (ab_orders b) (od_oid ord) \<noteq> None" "book_insert_order ord b = (b, [], Inl DuplicateOid)"
  | (inserted) "map_of (ab_orders b) (od_oid ord) = None"
      "book_insert_order ord b = (linked ord b, [OrderInserted (ab_asset_id b) (od_oid ord) (od_user ord)], Inr ())"
  by (cases "map_of (ab_orders b) (od_oid ord)") (auto simp: book_insert_order_def linked_def bt_contains_def Let_def)

lemma linked_parts:
  assumes "map_of (ab_orders b) (od_oid ord) = None"
  shows "ab_orders (linked ord b) = bt_insert (od_oid ord) ord (ab_orders b)"
    "levels side (linked ord b) = (if od_side ord = side then add_to_level (level_key side (od_limit_px ord)) (od_oid ord) (levels side b) else levels side b)"
    "ab_user_to_oids (linked ord b) = add_to_user (od_user ord) (od_oid ord) (ab_user_to_oids b)"
    "top_cache side (linked ord b) = (if od_side ord = side then map_option od_oid (top_order side (linked ord b)) else top_cache side b)"
proof -
  show "ab_orders (linked ord b) = bt_insert (od_oid ord) ord (ab_orders b)"
    and l: "levels side (linked ord b) = (if od_side ord = side then add_to_level (level_key side (od_limit_px ord)) (od_oid ord) (levels side b) else levels side b)"
    and "ab_user_to_oids (linked ord b) = add_to_user (od_user ord) (od_oid ord) (ab_user_to_oids b)"
    using assms by (auto simp: linked_def book_insert_order_def bt_contains_def Let_def)
  show "top_cache side (linked ord b) = (if od_side ord = side then map_option od_oid (top_order side (linked ord b)) else top_cache side b)"
    using assms by (auto simp: linked_def book_insert_order_def bt_contains_def Let_def)
qed

lemma linked_ok:
  assumes ok: "book_ok b" and new: "map_of (ab_orders b) (od_oid ord) = None" and r: "order_in_range ord"
  shows "book_ok (linked ord b)"
proof (rule book_okI)
  note parts = linked_parts [OF new]
  show "orders_ok (ab_orders (linked ord b))"
    unfolding parts by (rule orders_ok_put [OF book_okD(1) [OF ok] r])
  show "users_wf (ab_user_to_oids (linked ord b))"
    unfolding parts by (rule user_index.wf_add [OF book_okD(4) [OF ok]])
  show "indexes user_members (\<lambda>ord. Some (od_user ord)) (ab_orders (linked ord b)) (ab_user_to_oids (linked ord b))"
    unfolding parts by (rule user_index.insert_indexed [OF book_okD(4,5) [OF ok] new]) simp
  fix side
  have s: "levels_wf (levels side b)" "indexes level_members (level_of side) (ab_orders b) (levels side b)"
    using book_okD(2) [OF ok, of side] by (simp_all add: side_ok_def)
  show "side_ok side (linked ord b)"
    using level_index.insert_indexed [OF s new] level_index.insert_other [OF s(2) new] level_index.wf_add [OF s(1)] s(1)
    by (auto simp: side_ok_def parts level_of_def)
  show "cache_ok side (linked ord b)"
  proof (cases "od_side ord = side")
    case True
    then show ?thesis by (simp add: cache_ok_def parts(4))
  next
    case False
    then show ?thesis
      using new by (intro cache_kept [OF book_okD(2,3) [OF ok]]) (auto simp: parts)
  qed
qed

definition unlinked :: "nat \<Rightarrow> asset_book \<Rightarrow> asset_book" where
  "unlinked oid b = (case map_of (ab_orders b) oid of None \<Rightarrow> b | Some ord \<Rightarrow> fst (book_remove_order (od_user ord) oid False b))"

lemma bt_insert_remove_same: "bt_wf m \<Longrightarrow> map_of m k = Some v \<Longrightarrow> bt_insert k v (bt_remove k m) = m"
proof (induction m)
  case (Cons e m)
  have tail: "bt_insert k v m = (k, v) # m" if "\<forall>x \<in> set m. k < fst x"
    using that by (cases m) auto
  have keep: "bt_remove k m = m" if "\<forall>x \<in> set m. k < fst x"
    using that unfolding bt_remove_def by (intro filter_True) auto
  show ?case
  proof (cases "fst e = k")
    case True
    then show ?thesis using Cons.prems tail keep by (cases e) (auto simp: bt_wf_Cons bt_remove_def)
  next
    case False
    with Cons.prems have "fst e < k" by (force simp: bt_wf_Cons dest: map_of_SomeD)
    with Cons False show ?thesis by (simp add: bt_wf_Cons bt_remove_def)
  qed
qed simp

lemma remove_order_cases:
  assumes "book_ok b"
  obtains (absent) "map_of (ab_orders b) oid = None" "book_remove_order user oid emit b = (b, [], False)"
  | (foreign) ord where "map_of (ab_orders b) oid = Some ord" "od_user ord \<noteq> user" "book_remove_order user oid emit b = (b, [], False)"
  | (removed) ord where "map_of (ab_orders b) oid = Some ord" "od_user ord = user"
      "book_remove_order user oid emit b =
        (unlinked oid b, if emit then [OrderRemoved (ab_asset_id b) oid user (od_resting_sz ord)] else [], True)"
proof (cases "map_of (ab_orders b) oid")
  case None
  with absent show ?thesis by (simp add: book_remove_order_def)
next
  case (Some ord)
  have "bt_wf (ab_orders b)" using book_okD(1) [OF assms] by (simp add: orders_ok_def)
  with foreign removed Some show ?thesis
    by (cases "od_user ord = user") (auto simp: book_remove_order_def unlinked_def Let_def bt_insert_remove_same)
qed

lemma unlinked_parts:
  assumes "map_of (ab_orders b) oid = Some ord"
  shows "ab_orders (unlinked oid b) = bt_remove oid (ab_orders b)"
    "levels side (unlinked oid b) = (if od_side ord = side then drop_from_level (level_key side (od_limit_px ord)) oid (levels side b) else levels side b)"
    "ab_user_to_oids (unlinked oid b) = drop_from_user (od_user ord) oid (ab_user_to_oids b)"
    "top_cache side (unlinked oid b) = (if od_side ord = side then map_option od_oid (top_order side (unlinked oid b)) else top_cache side b)"
  using assms by (auto simp: unlinked_def book_remove_order_def Let_def)

lemma unlinked_ok:
  assumes ok: "book_ok b"
  shows "book_ok (unlinked oid b)"
proof (cases "map_of (ab_orders b) oid")
  case None
  then show ?thesis using ok by (simp add: unlinked_def)
next
  case (Some ord)
  note parts = unlinked_parts [OF Some]
  show ?thesis
  proof (rule book_okI)
    show "orders_ok (ab_orders (unlinked oid b))"
      unfolding parts by (rule orders_ok_cut [OF book_okD(1) [OF ok]])
    show "users_wf (ab_user_to_oids (unlinked oid b))"
      unfolding parts by (rule user_index.wf_drop [OF book_okD(4) [OF ok]])
    show "indexes user_members (\<lambda>ord. Some (od_user ord)) (ab_orders (unlinked oid b)) (ab_user_to_oids (unlinked oid b))"
      unfolding parts by (rule user_index.remove_indexed [OF book_okD(4,5) [OF ok] Some]) simp
    fix side
    have s: "levels_wf (levels side b)" "indexes level_members (level_of side) (ab_orders b) (levels side b)"
      using book_okD(2) [OF ok, of side] by (simp_all add: side_ok_def)
    show "side_ok side (unlinked oid b)"
      using level_index.remove_indexed [OF s Some] level_index.remove_other [OF s(2) Some] level_index.wf_drop [OF s(1)] s(1)
      by (auto simp: side_ok_def parts level_of_def)
    show "cache_ok side (unlinked oid b)"
    proof (cases "od_side ord = side")
      case True
      then show ?thesis by (simp add: cache_ok_def parts(4))
    next
      case False
      then show ?thesis
        using Some by (intro cache_kept [OF book_okD(2,3) [OF ok]]) (auto simp: parts)
    qed
  qed
qed

text \<open>Writing an order back with another size.\<close>

definition resized :: "nat \<Rightarrow> book_order \<Rightarrow> nat \<Rightarrow> asset_book \<Rightarrow> asset_book" where
  "resized oid ord sz b = b\<lparr>ab_orders := bt_insert oid (ord\<lparr>od_resting_sz := sz\<rparr>) (ab_orders b)\<rparr>"

lemma resized_ok:
  assumes ok: "book_ok b" and at: "map_of (ab_orders b) oid = Some ord" and sz: "sz \<le> od_resting_sz ord"
  shows "book_ok (resized oid ord sz b)"
proof (rule book_okI)
  let ?ord = "ord\<lparr>od_resting_sz := sz\<rparr>"
  have o: "od_oid ord = oid" "order_in_range ?ord"
    using orders_ok_entry [OF book_okD(1) [OF ok] at] sz by (auto simp: order_in_range_def)
  show "orders_ok (ab_orders (resized oid ord sz b))"
    using orders_ok_put [OF book_okD(1) [OF ok] o(2)] o(1) by (simp add: resized_def)
  show "users_wf (ab_user_to_oids (resized oid ord sz b))"
    using book_okD(4) [OF ok] by (simp add: resized_def)
  show "indexes user_members (\<lambda>ord. Some (od_user ord)) (ab_orders (resized oid ord sz b)) (ab_user_to_oids (resized oid ord sz b))"
    using user_index.replace_indexed [OF book_okD(5) [OF ok] at, of ?ord] by (simp add: resized_def)
  fix side
  have s: "levels_wf (levels side b)" "indexes level_members (level_of side) (ab_orders b) (levels side b)"
    using book_okD(2) [OF ok, of side] by (simp_all add: side_ok_def)
  show "side_ok side (resized oid ord sz b)"
    using level_index.replace_indexed [OF s(2) at, of ?ord] s(1) by (simp add: side_ok_def resized_def level_of_def)
  show "cache_ok side (resized oid ord sz b)"
    using at by (intro cache_kept [OF book_okD(2,3) [OF ok]]) (auto simp: resized_def)
qed

end
