(* ===== verification/Books_Match.thy ===== *)
theory Books_Match
  imports Books_Invariant "HOL-Library.Multiset"
begin

text \<open>
  Matching against a book, \<^verbatim>\<open>Book::execute_order\<close> of \<^verbatim>\<open>src/l1/books.rs\<close>, refines a walk down the list of the resting orders of
  the opposite side, best price first and lowest id first at a price.
\<close>

section \<open>The queue of a side\<close>

definition priority :: "book_side \<Rightarrow> book_order \<Rightarrow> int \<times> nat" where
  "priority side ord = ((if side = BidSide then - int (od_limit_px ord) else int (od_limit_px ord)), od_oid ord)"

lemma priority_key: "priority side ord = (level_key side (od_limit_px ord), od_oid ord)"
  by (cases side) (simp_all add: priority_def level_key_def)

definition queue :: "book_side \<Rightarrow> (nat, book_order) btree \<Rightarrow> book_order list" where
  "queue side m = sort_key (priority side) (filter (\<lambda>ord. od_side ord = side) (map snd m))"

lemma mset_queue: "mset (queue side m) = filter_mset (\<lambda>ord. od_side ord = side) (mset (map snd m))"
  by (simp add: queue_def)

lemma set_queue: "bt_wf m \<Longrightarrow> ord \<in> set (queue side m) \<longleftrightarrow> (\<exists>oid. map_of m oid = Some ord) \<and> od_side ord = side"
proof -
  assume wf: "bt_wf m"
  have "ord \<in> snd ` set m \<longleftrightarrow> (\<exists>oid. (oid, ord) \<in> set m)" by force
  also have "\<dots> \<longleftrightarrow> (\<exists>oid. map_of m oid = Some ord)" using bt_wf_map_of [OF wf] by simp
  finally show ?thesis by (auto simp: queue_def)
qed

lemma orders_ok_inj:
  assumes "orders_ok m" and "map_of m i = Some x" and "map_of m j = Some y" and "od_oid x = od_oid y"
  shows "x = y"
  using assms orders_ok_entry [OF assms(1,2)] orders_ok_entry [OF assms(1,3)] by auto

lemma inj_priority: "orders_ok m \<Longrightarrow> inj_on (priority side) (set (queue side m))"
proof (rule inj_onI)
  fix x y
  assume ok: "orders_ok m" and xy: "x \<in> set (queue side m)" "y \<in> set (queue side m)" and eq: "priority side x = priority side y"
  have "bt_wf m" using ok by (simp add: orders_ok_def)
  with xy obtain i j where "map_of m i = Some x" "map_of m j = Some y" by (auto simp: set_queue)
  then show "x = y" using orders_ok_inj [OF ok, of i x j y] eq by (simp add: priority_key)
qed

lemma sorted_queue: "sorted (map (priority side) (queue side m))"
  by (simp add: queue_def)

lemma bt_remove_above: "\<forall>x \<in> set m. (k :: 'k::linorder) < fst x \<Longrightarrow> bt_remove k m = m"
  unfolding bt_remove_def by (intro filter_True) (metis less_irrefl)

lemma mset_bt_insert: "bt_wf m \<Longrightarrow> mset (bt_insert k v m) = add_mset (k, v) (mset (bt_remove k m))"
proof (induction m)
  case (Cons e m)
  have cut: "bt_remove k (e # m) = (if fst e = k then bt_remove k m else e # bt_remove k m)" by (simp add: bt_remove_def)
  have "bt_remove k m = m" if "k \<le> fst e"
    using Cons.prems that by (intro bt_remove_above) (auto simp: bt_wf_Cons)
  with Cons show ?case unfolding cut by (auto simp: bt_wf_Cons)
qed (simp add: bt_remove_def)

lemma queue_eqI:
  assumes "orders_ok m" and "mset q = mset (queue side m)" and "sorted (map (priority side) q)"
  shows "queue side m = q"
proof -
  have "inj_on (priority side) (set (filter (\<lambda>ord. od_side ord = side) (map snd m)))"
    using inj_priority [OF assms(1), of side] by (simp add: queue_def)
  with assms(2,3) show ?thesis
    unfolding queue_def by (intro sort_key_inj_key_eq) auto
qed

lemma queue_remove: "orders_ok m \<Longrightarrow> queue side (bt_remove i m) = filter (\<lambda>ord. od_oid ord \<noteq> i) (queue side m)"
proof -
  assume ok: "orders_ok m"
  then have "filter (\<lambda>ord. od_side ord = side) (map snd (bt_remove i m)) =
      filter (\<lambda>ord. od_oid ord \<noteq> i) (filter (\<lambda>ord. od_side ord = side) (map snd m))"
    unfolding orders_ok_def bt_remove_def by (induction m) (auto simp: bt_wf_Cons)
  then show ?thesis by (simp add: queue_def filter_sort)
qed

lemma queue_distinct: "orders_ok m \<Longrightarrow> distinct (map od_oid (queue side m))"
proof -
  assume ok: "orders_ok m"
  then have "map od_oid (map snd m) = map fst m" by (auto simp: orders_ok_def)
  then have "distinct (map od_oid (map snd m))"
    using ok bt_wf_distinct [of m] by (metis orders_ok_def)
  then have "distinct (map od_oid (filter (\<lambda>ord. od_side ord = side) (map snd m)))"
    by (rule distinct_map_filter)
  then show ?thesis
    unfolding queue_def by (simp add: distinct_map)
qed

lemma queue_insert:
  assumes ok: "orders_ok m" and r: "order_in_range ord"
  shows "queue side (bt_insert (od_oid ord) ord m) =
    (if od_side ord = side then insort_key (priority side) ord (queue side (bt_remove (od_oid ord) m)) else queue side (bt_remove (od_oid ord) m))"
    (is "_ = ?q")
proof (rule queue_eqI [OF orders_ok_put [OF ok r]])
  have wf: "bt_wf m" using ok by (simp add: orders_ok_def)
  have "mset (queue side (bt_insert (od_oid ord) ord m)) =
      (if od_side ord = side then add_mset ord (mset (queue side (bt_remove (od_oid ord) m))) else mset (queue side (bt_remove (od_oid ord) m)))"
    unfolding mset_queue mset_map mset_bt_insert [OF wf] by simp
  then show "mset ?q = mset (queue side (bt_insert (od_oid ord) ord m))" by simp
  show "sorted (map (priority side) ?q)" by (simp add: sorted_insort_key sorted_queue)
qed

lemma queue_insert_new:
  assumes "orders_ok m" and "order_in_range ord" and "map_of m (od_oid ord) = None"
  shows "queue side (bt_insert (od_oid ord) ord m) = (if od_side ord = side then insort_key (priority side) ord (queue side m) else queue side m)"
proof -
  have "bt_remove (od_oid ord) m = m"
    using assms(3) by (intro bt_remove_absent) (simp add: map_of_eq_None_iff)
  with queue_insert [OF assms(1,2)] show ?thesis by simp
qed

lemma queue_tail:
  assumes "orders_ok m" and "queue side m = ord # q"
  shows "queue side (bt_remove (od_oid ord) m) = q"
proof -
  have "od_oid ord \<notin> od_oid ` set q" using queue_distinct [OF assms(1), of side] assms(2) by simp
  then have "filter (\<lambda>x. od_oid x \<noteq> od_oid ord) q = q" by (intro filter_True) (metis imageI)
  then show ?thesis by (simp add: queue_remove [OF assms(1)] assms(2))
qed

lemma queue_resize_head:
  assumes ok: "orders_ok m" and q: "queue side m = ord # q" and sz: "sz \<le> u64_max"
  shows "queue side (bt_insert (od_oid ord) (ord\<lparr>od_resting_sz := sz\<rparr>) m) = ord\<lparr>od_resting_sz := sz\<rparr> # q"
proof -
  let ?ord = "ord\<lparr>od_resting_sz := sz\<rparr>"
  obtain i where "map_of m i = Some ord" and side: "od_side ord = side"
    using ok set_queue [of m ord side] q by (auto simp: orders_ok_def)
  then have "order_in_range ?ord"
    using orders_ok_entry [OF ok, of i ord] sz by (simp add: order_in_range_def)
  from queue_insert [OF ok this, of side] side queue_tail [OF ok q]
  have "queue side (bt_insert (od_oid ord) ?ord m) = insort_key (priority side) ?ord q" by simp
  also have "\<dots> = ?ord # q"
    using sorted_queue [of side m] unfolding q by (cases q) (auto simp: priority_key)
  finally show ?thesis .
qed

section \<open>The best order of a side\<close>

lemma px_from_level_key [simp]: "px \<le> u64_max \<Longrightarrow> px_from_key side (level_key side px) = px"
  by (cases side) (auto simp: px_from_key_def level_key_def u64_max_def)

lemma queue_key_at_level:
  assumes "side_ok side b" and "bt_wf (ab_orders b)" and "x \<in> set (queue side (ab_orders b))" and "orders_ok (ab_orders b)"
  shows "\<exists>l. map_of (levels side b) (level_key side (od_limit_px x)) = Some l \<and> od_oid x \<in> set (bl_oids l)"
proof -
  obtain i where i: "map_of (ab_orders b) i = Some x" "od_side x = side"
    using assms(2,3) by (auto simp: set_queue)
  then have "od_oid x \<in> level_members (levels side b) (level_key side (od_limit_px x))"
    using assms(1) orders_ok_entry [OF assms(4) i(1)] i unfolding side_ok_def
    by (auto simp: level_index.member_iff level_of_def)
  then show ?thesis
    by (cases "map_of (levels side b) (level_key side (od_limit_px x))") (auto simp: level_members_def entry_or_def)
qed

lemma bs_wf_hd_le: "bs_wf xs \<Longrightarrow> x \<in> set xs \<Longrightarrow> hd xs \<le> x"
  by (cases xs) (auto simp: bs_wf_def)

lemma queue_Nil_iff:
  assumes "book_ok b"
  shows "queue side (ab_orders b) = [] \<longleftrightarrow> levels side b = []"
proof
  have wf: "bt_wf (ab_orders b)" using book_okD(1) [OF assms] by (simp add: orders_ok_def)
  show "levels side b = []" if q: "queue side (ab_orders b) = []"
  proof (cases "levels side b")
    case (Cons e r)
    then obtain ord where "map_of (ab_orders b) (bl_first_oid (snd e)) = Some ord" "od_side ord = side"
      using side_ok_first [OF book_okD(2) [OF assms], of side "fst e" "snd e" r] by auto
    with set_queue [OF wf, of ord side] q show ?thesis by auto
  qed
  show "queue side (ab_orders b) = []" if "levels side b = []"
    using queue_key_at_level [OF book_okD(2) [OF assms] wf _ book_okD(1) [OF assms], of "hd (queue side (ab_orders b))" side] that
    by (cases "queue side (ab_orders b)") auto
qed

lemma queue_Cons:
  assumes ok: "book_ok b" and l: "levels side b = (k, l) # r"
  shows "\<exists>ord q. queue side (ab_orders b) = ord # q \<and> map_of (ab_orders b) (od_oid ord) = Some ord \<and>
    bl_first_oid l = od_oid ord \<and> k = level_key side (od_limit_px ord) \<and> hd (bl_oids l) = od_oid ord"
proof -
  note okD = book_okD [OF ok]
  have wf: "bt_wf (ab_orders b)" using okD(1) by (simp add: orders_ok_def)
  have lv: "level_ok l" "\<And>x. x \<in> set r \<Longrightarrow> k < fst x"
    using okD(2) [of side] l by (auto simp: side_ok_def levels_wf_def bt_wf_Cons)
  obtain ord where ord: "map_of (ab_orders b) (bl_first_oid l) = Some ord" "od_side ord = side" "level_key side (od_limit_px ord) = k"
    using side_ok_first [OF okD(2) l] by blast
  have oid: "od_oid ord = bl_first_oid l" using orders_ok_entry [OF okD(1) ord(1)] by simp
  have mem: "ord \<in> set (queue side (ab_orders b))" using ord set_queue [OF wf, of ord side] by auto
  have least: "priority side ord \<le> priority side x" if x: "x \<in> set (queue side (ab_orders b))" for x
  proof -
    obtain l' where l': "map_of (levels side b) (level_key side (od_limit_px x)) = Some l'" "od_oid x \<in> set (bl_oids l')"
      using queue_key_at_level [OF okD(2) wf x okD(1)] by blast
    show ?thesis
    proof (cases "level_key side (od_limit_px x) = k")
      case True
      then have "bl_first_oid l \<le> od_oid x"
        using l' l lv(1) bs_wf_hd_le [of "bl_oids l" "od_oid x"] by (simp add: level_ok_def)
      with True ord(3) oid show ?thesis by (simp add: priority_key)
    next
      case False
      then have "k < level_key side (od_limit_px x)"
        using l' l lv(2) by (auto dest: map_of_SomeD)
      with ord(3) show ?thesis by (simp add: priority_key)
    qed
  qed
  obtain h q where q: "queue side (ab_orders b) = h # q" using mem by (cases "queue side (ab_orders b)") auto
  have "priority side h \<le> priority side ord"
    using sorted_queue [of side "ab_orders b"] mem unfolding q by auto
  with least [of h] q have "priority side h = priority side ord" by simp
  then have "h = ord"
    using inj_onD [OF inj_priority [OF okD(1), of side]] mem q by (metis list.set_intros(1))
  with q ord oid lv(1) show ?thesis by (auto simp: level_ok_def)
qed

lemma queue_head:
  assumes ok: "book_ok b" and q: "queue side (ab_orders b) = ord # q"
  shows "book_best_px side b = Some (od_limit_px ord)" "first_at side (od_limit_px ord) b = Some (od_oid ord, ord)"
    "map_of (ab_orders b) (od_oid ord) = Some ord" "od_side ord = side" "top_order side b = Some ord"
proof -
  obtain k l r where l: "levels side b = (k, l) # r"
    using queue_Nil_iff [OF ok, of side] q by (cases "levels side b") auto
  from queue_Cons [OF ok l] q
  have c: "map_of (ab_orders b) (od_oid ord) = Some ord" "bl_first_oid l = od_oid ord" "k = level_key side (od_limit_px ord)"
    "hd (bl_oids l) = od_oid ord" by auto
  have "od_limit_px ord \<le> u64_max" using orders_ok_entry [OF book_okD(1) [OF ok] c(1)] by (simp add: order_in_range_def)
  with c l show "book_best_px side b = Some (od_limit_px ord)" by (simp add: book_best_px_def)
  have "bl_oids l \<noteq> []" using book_okD(2) [OF ok, of side] l by (simp add: side_ok_def levels_wf_def level_ok_def)
  with c l show "first_at side (od_limit_px ord) b = Some (od_oid ord, ord)" by (cases "bl_oids l") (auto simp: first_at_def)
  show "map_of (ab_orders b) (od_oid ord) = Some ord" by (rule c(1))
  show "top_order side b = Some ord" using c l by (simp add: top_order_def)
  have wf: "bt_wf (ab_orders b)" using book_okD(1) [OF ok] by (simp add: orders_ok_def)
  show "od_side ord = side" using set_queue [OF wf, of ord side] q by simp
qed

lemma queue_empty: "book_ok b \<Longrightarrow> queue side (ab_orders b) = [] \<Longrightarrow> book_best_px side b = None"
  by (simp add: queue_Nil_iff book_best_px_def)

section \<open>Filling the best order\<close>

lemma fill_maker_eq:
  assumes "map_of (ab_orders b) oid = Some ord"
  shows "fill_maker oid ord sz b =
    (if od_resting_sz ord \<le> sz then unlinked oid (resized oid ord 0 b) else resized oid ord (od_resting_sz ord - sz) b)"
  by (auto simp: fill_maker_def resized_def unlinked_def Let_def)

lemma orders_unlinked: "map_of (ab_orders b) oid = Some ord \<Longrightarrow> ab_orders (unlinked oid b) = bt_remove oid (ab_orders b)"
  using unlinked_parts(1) by blast

lemma fill_maker_head:
  assumes ok: "book_ok b" and q: "queue side (ab_orders b) = ord # q" and sz: "sz \<le> od_resting_sz ord"
  shows "book_ok (fill_maker (od_oid ord) ord sz b)"
    and "queue side (ab_orders (fill_maker (od_oid ord) ord sz b)) =
      (if sz = od_resting_sz ord then q else ord\<lparr>od_resting_sz := od_resting_sz ord - sz\<rparr> # q)"
    and "side' \<noteq> side \<Longrightarrow> queue side' (ab_orders (fill_maker (od_oid ord) ord sz b)) = queue side' (ab_orders b)"
proof -
  let ?oid = "od_oid ord"
  define sz' where "sz' = od_resting_sz ord - sz"
  note okD = book_okD [OF ok]
  note head = queue_head [OF ok q]
  let ?b1 = "resized ?oid ord sz' b"
  have b1: "book_ok ?b1" by (rule resized_ok [OF ok head(3)]) (simp add: sz'_def)
  have at1: "map_of (ab_orders ?b1) ?oid = Some (ord\<lparr>od_resting_sz := sz'\<rparr>)" by (simp add: resized_def)
  have fm: "fill_maker ?oid ord sz b = (if sz = od_resting_sz ord then unlinked ?oid ?b1 else ?b1)"
    using sz by (auto simp: fill_maker_eq [OF head(3)] sz'_def)
  show "book_ok (fill_maker ?oid ord sz b)" unfolding fm using b1 unlinked_ok [OF b1, of ?oid] by presburger
  have range: "order_in_range ord" using orders_ok_entry [OF okD(1) head(3)] by simp
  then have new: "sz' \<le> u64_max" "order_in_range (ord\<lparr>od_resting_sz := sz'\<rparr>)" by (auto simp: order_in_range_def sz'_def)
  have q1: "queue side (ab_orders ?b1) = ord\<lparr>od_resting_sz := sz'\<rparr> # q"
    using queue_resize_head [OF okD(1) q new(1)] by (simp add: resized_def)
  have "queue side (bt_remove ?oid (ab_orders ?b1)) = q"
    using queue_tail [OF book_okD(1) [OF b1] q1] by simp
  then show "queue side (ab_orders (fill_maker ?oid ord sz b)) =
      (if sz = od_resting_sz ord then q else ord\<lparr>od_resting_sz := od_resting_sz ord - sz\<rparr> # q)"
    using q1 unfolding fm sz'_def [symmetric] by (simp add: orders_unlinked [OF at1])
  show "queue side' (ab_orders (fill_maker ?oid ord sz b)) = queue side' (ab_orders b)" if other: "side' \<noteq> side"
  proof -
    have cut: "queue side' (bt_remove ?oid m) = queue side' m" if m: "orders_ok m" "map_of m ?oid = Some x" "od_side x = side" for m x
    proof -
      have "od_oid y \<noteq> ?oid" if "y \<in> set (queue side' m)" for y
        using that m other set_queue [of m y side'] orders_ok_entry [OF m(1)] by (auto simp: orders_ok_def)
      then show ?thesis by (simp add: queue_remove [OF m(1)])
    qed
    have "queue side' (ab_orders ?b1) = queue side' (bt_remove ?oid (ab_orders b))"
      using queue_insert [OF okD(1) new(2), of side'] head(4) other by (simp add: resized_def)
    also have "\<dots> = queue side' (ab_orders b)" by (rule cut [OF okD(1) head(3,4)])
    finally have q1': "queue side' (ab_orders ?b1) = queue side' (ab_orders b)" .
    moreover have "queue side' (bt_remove ?oid (ab_orders ?b1)) = queue side' (ab_orders ?b1)"
      by (rule cut [OF book_okD(1) [OF b1] at1]) (simp add: head(4))
    ultimately show ?thesis by (simp add: fm orders_unlinked [OF at1])
  qed
qed

section \<open>Matching is a walk down the queue\<close>

definition fill_against :: "new_order \<Rightarrow> nat \<Rightarrow> book_order \<Rightarrow> nat \<Rightarrow> book_fill" where
  "fill_against order now_ms maker sz = \<lparr>bf_maker_oid = od_oid maker, bf_taker_oid = no_oid order, bf_px = od_limit_px maker, bf_sz = sz,
     bf_maker = od_user maker, bf_taker = no_user order, bf_time = now_ms\<rparr>"

definition acceptable :: "new_order \<Rightarrow> nat \<Rightarrow> bool" where
  "acceptable order px \<longleftrightarrow> (if no_side order = BidSide then px \<le> no_limit_px order else no_limit_px order \<le> px)"

lemma crosses_acceptable: "crosses (no_side order) (no_limit_px order) px = acceptable order px"
  by (cases "no_side order") (simp_all add: crosses_def acceptable_def)

fun walk :: "new_order \<Rightarrow> nat \<Rightarrow> book_order list \<Rightarrow> nat \<Rightarrow> book_fill list \<times> book_order list \<times> nat" where
  "walk order now_ms [] remaining = ([], [], remaining)"
| "walk order now_ms (maker # makers) remaining =
     (if remaining = 0 \<or> \<not> acceptable order (od_limit_px maker) then ([], maker # makers, remaining)
      else if remaining < od_resting_sz maker then
        ([fill_against order now_ms maker remaining], maker\<lparr>od_resting_sz := od_resting_sz maker - remaining\<rparr> # makers, 0)
      else (case walk order now_ms makers (remaining - od_resting_sz maker) of
        (fills, left, r) \<Rightarrow> (fill_against order now_ms maker (od_resting_sz maker) # fills, left, r)))"

lemma opposite_not_own [simp]: "side_opposite side \<noteq> side" "side \<noteq> side_opposite side"
  by (cases side; simp add: side_opposite_def)+

lemma match_loop_walks:
  assumes "book_ok b" and "walk order now_ms (queue (side_opposite (no_side order)) (ab_orders b)) remaining = (new_fills, left, r)"
  shows "\<exists>b'. match_loop order now_ms b remaining fills = (b', r, fills @ new_fills) \<and> book_ok b' \<and>
    queue (side_opposite (no_side order)) (ab_orders b') = left \<and> queue (no_side order) (ab_orders b') = queue (no_side order) (ab_orders b)"
  using assms
proof (induction order now_ms b remaining fills arbitrary: new_fills left r rule: match_loop.induct)
  case (1 order now_ms b remaining fills)
  let ?opp = "side_opposite (no_side order)"
  show ?case
  proof (cases "queue ?opp (ab_orders b)")
    case Nil
    then show ?thesis
      using 1(2,3) queue_empty [OF 1(2) Nil] by (subst match_loop.simps) auto
  next
    case (Cons maker makers)
    note head = queue_head [OF 1(2) Cons]
    show ?thesis
    proof (cases "remaining = 0 \<or> \<not> acceptable order (od_limit_px maker)")
      case True
      then show ?thesis using 1(2,3) Cons head by (subst match_loop.simps) (auto simp: crosses_acceptable)
    next
      case False
      define sz where "sz = min (od_resting_sz maker) remaining"
      let ?b1 = "fill_maker (od_oid maker) maker sz b"
      have f: "sz \<le> od_resting_sz maker" by (simp add: sz_def)
      note fm = fill_maker_head [OF 1(2) Cons f]
      have step: "match_loop order now_ms b remaining fills =
          match_loop order now_ms ?b1 (remaining - sz) (fills @ [fill_against order now_ms maker sz])"
        using False head by (subst match_loop.simps) (simp add: crosses_acceptable sz_def fill_against_def Let_def)
      have IH: "\<exists>b'. match_loop order now_ms ?b1 (remaining - sz) (fills @ [fill_against order now_ms maker sz]) =
            (b', r', (fills @ [fill_against order now_ms maker sz]) @ nf) \<and> book_ok b' \<and> queue ?opp (ab_orders b') = l' \<and>
            queue (no_side order) (ab_orders b') = queue (no_side order) (ab_orders ?b1)"
        if "walk order now_ms (queue ?opp (ab_orders ?b1)) (remaining - sz) = (nf, l', r')" for nf l' r'
        using False head that fm(1) unfolding fill_against_def
        by (intro 1(1) [OF _ head(1) _ head(2) refl]) (auto simp: crosses_acceptable sz_def)
      have own: "queue (no_side order) (ab_orders ?b1) = queue (no_side order) (ab_orders b)" by (rule fm(3)) simp
      show ?thesis
      proof (cases "remaining < od_resting_sz maker")
        case True
        then have sz: "sz = remaining" by (simp add: sz_def)
        have w: "walk order now_ms (queue ?opp (ab_orders ?b1)) (remaining - sz) = ([], queue ?opp (ab_orders ?b1), 0)"
          by (cases "queue ?opp (ab_orders ?b1)") (simp_all add: sz)
        show ?thesis
          using IH [OF w] 1(3) Cons False True own fm(2) unfolding step by (auto simp: sz)
      next
        case False
        then have sz: "sz = od_resting_sz maker" by (simp add: sz_def)
        obtain nf l' r' where w: "walk order now_ms makers (remaining - sz) = (nf, l', r')" by (metis prod.exhaust)
        then have "walk order now_ms (queue ?opp (ab_orders ?b1)) (remaining - sz) = (nf, l', r')" using fm(2) sz by simp
        from IH [OF this] show ?thesis
          using 1(3) Cons \<open>\<not> (remaining = 0 \<or> _)\<close> False own w unfolding step by (auto simp: sz)
      qed
    qed
  qed
qed

end
