(* ===== verification/Books_All.thy ===== *)
theory Books_All
  imports Books
begin

text \<open>
  The collections of books, \<^verbatim>\<open>Books\<close> and \<^verbatim>\<open>DexBookCollection\<close> of \<^verbatim>\<open>src/l1/books.rs\<close>: one collection of books for each market of the
  three domains, selection of a book by packed asset id, the operations dispatched to one book or to all
  books of a domain, and the queries that answer requests for prices, contexts and levels.
\<close>

section \<open>Data\<close>

record collection_helper_state =
  hs_touched_assets :: "nat bset"
  hs_last_update_ms :: nat

record dex_book_collection =
  dc_domain :: book_domain
  dc_dex_index :: nat
  dc_meta :: market_meta
  dc_books :: "asset_book list"
  dc_helper_state :: collection_helper_state

record book_view =
  bv_domain :: book_domain
  bv_dex_index :: nat
  bv_local_index :: nat
  bv_meta :: asset_meta
  bv_book :: asset_book

definition view_asset_id :: "book_view \<Rightarrow> nat" where
  "view_asset_id v = pa_pack \<lparr>pa_dex = bv_dex_index v, pa_local = bv_local_index v\<rparr>"

record volume_accumulator =
  va_total_mid_notional :: nat
  va_active_books :: nat

record user_order_stats =
  us_accepted :: nat
  us_rejected :: nat
  us_cancelled :: nat

record all_books =
  bk_main_perp_markets :: "market_meta list"
  bk_main_perp_collections :: "dex_book_collection list"
  bk_main_perp_books :: "asset_book list"
  bk_perp_dex_markets :: "market_meta list"
  bk_perp_dex_collections :: "dex_book_collection list"
  bk_perp_dex_books :: "asset_book list"
  bk_spot_collections :: "dex_book_collection list"
  bk_user_order_stats :: "(address, user_order_stats) btree"
  bk_registered_main_perp_assets :: "nat bset"
  bk_registered_perp_dex_assets :: "nat bset"
  bk_volume_accumulator :: volume_accumulator

section \<open>Building and selecting\<close>

definition vec_get :: "'a list \<Rightarrow> nat \<Rightarrow> 'a option" where
  "vec_get xs i = (if i < length xs then Some (xs ! i) else None)"

definition from_market :: "book_domain \<Rightarrow> market_meta \<Rightarrow> dex_book_collection" where
  "from_market domain meta =
     \<lparr>dc_domain = domain, dc_dex_index = mm_dex_index meta, dc_meta = meta,
      dc_books = map (\<lambda>(local_index, asset). book_new domain (mm_dex_index meta) local_index asset) (List.enumerate 0 (mm_assets meta)),
      dc_helper_state = \<lparr>hs_touched_assets = [], hs_last_update_ms = 0\<rparr>\<rparr>"

definition collection_book :: "dex_book_collection \<Rightarrow> nat \<Rightarrow> asset_book option" where
  "collection_book c local_index = vec_get (dc_books c) local_index"

definition collection_view_at :: "dex_book_collection \<Rightarrow> nat \<Rightarrow> book_view option" where
  "collection_view_at c local_index = (case vec_get (mm_assets (dc_meta c)) local_index of
      None \<Rightarrow> None
    | Some meta \<Rightarrow> (case vec_get (dc_books c) local_index of
          None \<Rightarrow> None
        | Some b \<Rightarrow> Some \<lparr>bv_domain = dc_domain c, bv_dex_index = dc_dex_index c, bv_local_index = local_index,
                          bv_meta = meta, bv_book = b\<rparr>))"

definition flatten_collections :: "dex_book_collection list \<Rightarrow> asset_book list" where
  "flatten_collections cs = concat (map dc_books cs)"

text \<open>The position of a market is asserted to be its index in debug builds only.\<close>

definition build_domain_collections :: "book_domain \<Rightarrow> market_meta list \<Rightarrow> dex_book_collection list" where
  "build_domain_collections domain markets = map (from_market domain) markets"

definition books_new :: "market_meta list \<Rightarrow> market_meta list \<Rightarrow> market_meta list \<Rightarrow> all_books" where
  "books_new main_perp_markets perp_dex_markets spot_markets =
     (let main_perp_collections = build_domain_collections MainPerp main_perp_markets;
          perp_dex_collections = build_domain_collections PerpDex perp_dex_markets;
          spot_collections = build_domain_collections SpotBooks spot_markets
      in \<lparr>bk_main_perp_markets = main_perp_markets, bk_main_perp_collections = main_perp_collections,
          bk_main_perp_books = flatten_collections main_perp_collections, bk_perp_dex_markets = perp_dex_markets,
          bk_perp_dex_collections = perp_dex_collections, bk_perp_dex_books = flatten_collections perp_dex_collections,
          bk_spot_collections = spot_collections, bk_user_order_stats = [], bk_registered_main_perp_assets = [],
          bk_registered_perp_dex_assets = [], bk_volume_accumulator = \<lparr>va_total_mid_notional = 0, va_active_books = 0\<rparr>\<rparr>)"

definition collections_of :: "book_domain \<Rightarrow> all_books \<Rightarrow> dex_book_collection list" where
  "collections_of domain s = (case domain of
      MainPerp \<Rightarrow> bk_main_perp_collections s
    | PerpDex \<Rightarrow> bk_perp_dex_collections s
    | SpotBooks \<Rightarrow> bk_spot_collections s)"

definition with_collections :: "book_domain \<Rightarrow> dex_book_collection list \<Rightarrow> all_books \<Rightarrow> all_books" where
  "with_collections domain cs s = (case domain of
      MainPerp \<Rightarrow> s\<lparr>bk_main_perp_collections := cs\<rparr>
    | PerpDex \<Rightarrow> s\<lparr>bk_perp_dex_collections := cs\<rparr>
    | SpotBooks \<Rightarrow> s\<lparr>bk_spot_collections := cs\<rparr>)"

definition find_in :: "dex_book_collection list \<Rightarrow> nat \<Rightarrow> asset_book option" where
  "find_in cs asset_id = (case vec_get cs (pa_dex (pa_split asset_id)) of
      None \<Rightarrow> None
    | Some c \<Rightarrow> collection_book c (pa_local (pa_split asset_id)))"

definition main_perp_book_for_packed_asset :: "nat \<Rightarrow> all_books \<Rightarrow> asset_book option" where
  "main_perp_book_for_packed_asset asset_id s = find_in (bk_main_perp_collections s) asset_id"

definition perp_dex_book_for_packed_asset :: "nat \<Rightarrow> all_books \<Rightarrow> asset_book option" where
  "perp_dex_book_for_packed_asset asset_id s = find_in (bk_perp_dex_collections s) asset_id"

definition spot_book_for_asset :: "nat \<Rightarrow> all_books \<Rightarrow> asset_book option" where
  "spot_book_for_asset asset_id s = find_in (bk_spot_collections s) asset_id"

definition book_of :: "book_domain \<Rightarrow> nat \<Rightarrow> all_books \<Rightarrow> asset_book option" where
  "book_of domain asset_id s = (case domain of
      MainPerp \<Rightarrow> main_perp_book_for_packed_asset asset_id s
    | PerpDex \<Rightarrow> perp_dex_book_for_packed_asset asset_id s
    | SpotBooks \<Rightarrow> spot_book_for_asset asset_id s)"

definition collection_view :: "book_domain \<Rightarrow> nat \<Rightarrow> all_books \<Rightarrow> book_view option" where
  "collection_view domain asset_id s = (case vec_get (collections_of domain s) (pa_dex (pa_split asset_id)) of
      None \<Rightarrow> None
    | Some c \<Rightarrow> collection_view_at c (pa_local (pa_split asset_id)))"

text \<open>Writing through the exclusive reference that a selection returns.\<close>

definition store_book :: "book_domain \<Rightarrow> nat \<Rightarrow> asset_book \<Rightarrow> all_books \<Rightarrow> all_books" where
  "store_book domain asset_id b s =
     (let dex = pa_dex (pa_split asset_id); cs = collections_of domain s; c = cs ! dex in
      with_collections domain (cs[dex := c\<lparr>dc_books := (dc_books c)[pa_local (pa_split asset_id) := b]\<rparr>]) s)"

section \<open>Running over the selected books\<close>

text \<open>A closure over one book, threading what it captures.\<close>

primrec each_book :: "(asset_book \<Rightarrow> 'c \<Rightarrow> asset_book \<times> 'c) \<Rightarrow> asset_book list \<Rightarrow> 'c \<Rightarrow> asset_book list \<times> 'c" where
  "each_book f [] c = ([], c)"
| "each_book f (b # bs) c = (case f b c of (b1, c1) \<Rightarrow> case each_book f bs c1 of (bs1, c2) \<Rightarrow> (b1 # bs1, c2))"

primrec each_collection :: "(asset_book \<Rightarrow> 'c \<Rightarrow> asset_book \<times> 'c) \<Rightarrow> dex_book_collection list \<Rightarrow> 'c \<Rightarrow> dex_book_collection list \<times> 'c" where
  "each_collection f [] c = ([], c)"
| "each_collection f (k # ks) c = (case each_book f (dc_books k) c of
      (bs, c1) \<Rightarrow> case each_collection f ks c1 of (ks1, c2) \<Rightarrow> (k\<lparr>dc_books := bs\<rparr> # ks1, c2))"

definition for_each_selected_book_mut ::
  "book_domain \<Rightarrow> book_selection \<Rightarrow> (asset_book \<Rightarrow> 'c \<Rightarrow> asset_book \<times> 'c) \<Rightarrow> all_books \<Rightarrow> 'c \<Rightarrow> all_books \<times> 'c" where
  "for_each_selected_book_mut domain selection f s c = (case selection of
      OneBook asset_id \<Rightarrow> (case book_of domain asset_id s of
          None \<Rightarrow> (s, c)
        | Some b \<Rightarrow> (case f b c of (b1, c1) \<Rightarrow> (store_book domain asset_id b1 s, c1)))
    | AllBooks \<Rightarrow> (case each_collection f (collections_of domain s) c of (cs, c1) \<Rightarrow> (with_collections domain cs s, c1)))"

definition apply_book_snapshot_update ::
  "book_domain \<Rightarrow> book_selection \<Rightarrow> book_snapshot_update \<Rightarrow> all_books \<Rightarrow> book_event list \<Rightarrow> all_books \<times> book_event list" where
  "apply_book_snapshot_update domain selection update s events =
     for_each_selected_book_mut domain selection
       (\<lambda>b evs. case apply_snapshot_update update b of (b1, new) \<Rightarrow> (b1, evs @ new)) s events"

definition user_events_of :: "nat \<Rightarrow> book_event list \<Rightarrow> user_book_event list" where
  "user_events_of asset_id evs = concat (map (\<lambda>e. case event_user e of
      Some u \<Rightarrow> [\<lparr>ue_user = u, ue_asset = asset_id, ue_event = e\<rparr>] | None \<Rightarrow> []) evs)"

definition apply_user_book_update ::
  "book_domain \<Rightarrow> book_selection \<Rightarrow> book_snapshot_update \<Rightarrow> all_books \<Rightarrow> user_book_event list \<Rightarrow> all_books \<times> user_book_event list" where
  "apply_user_book_update domain selection update s user_events =
     for_each_selected_book_mut domain selection
       (\<lambda>b evs. case apply_snapshot_update update b of (b1, new) \<Rightarrow> (b1, evs @ user_events_of (ab_asset_id b1) new)) s user_events"

definition register_book :: "asset_book \<Rightarrow> asset_book" where
  "register_book b = reset_runtime_caches (b\<lparr>ab_registered := True\<rparr>)"

definition ensure_main_perp_book_registered :: "nat \<Rightarrow> all_books \<Rightarrow> all_books \<times> asset_book option" where
  "ensure_main_perp_book_registered asset_id s =
     (let s1 = s\<lparr>bk_registered_main_perp_assets := bs_insert asset_id (bk_registered_main_perp_assets s)\<rparr>;
          s2 = (if asset_id \<notin> set (bk_registered_main_perp_assets s) then
                  (case main_perp_book_for_packed_asset asset_id s1 of
                     None \<Rightarrow> s1 | Some b \<Rightarrow> store_book MainPerp asset_id (register_book b) s1)
                else s1)
      in (s2, main_perp_book_for_packed_asset asset_id s2))"

definition ensure_perp_dex_book_registered :: "nat \<Rightarrow> all_books \<Rightarrow> all_books \<times> asset_book option" where
  "ensure_perp_dex_book_registered asset_id s =
     (let s1 = s\<lparr>bk_registered_perp_dex_assets := bs_insert asset_id (bk_registered_perp_dex_assets s)\<rparr>;
          s2 = (if asset_id \<notin> set (bk_registered_perp_dex_assets s) then
                  (case perp_dex_book_for_packed_asset asset_id s1 of
                     None \<Rightarrow> s1 | Some b \<Rightarrow> store_book PerpDex asset_id (register_book b) s1)
                else s1)
      in (s2, perp_dex_book_for_packed_asset asset_id s2))"

definition direct_execute_order :: "book_domain \<Rightarrow> new_order \<Rightarrow> nat \<Rightarrow> all_books \<Rightarrow> all_books \<times> order_execution_result" where
  "direct_execute_order domain order now_ms s = (case book_of domain (no_asset_id order) s of
      None \<Rightarrow> (s, ExecRejected UnknownAsset)
    | Some b \<Rightarrow> (case execute_order order now_ms b of (b1, r) \<Rightarrow> (store_book domain (no_asset_id order) b1 s, r)))"

primrec sweep_large_matches ::
  "book_domain \<Rightarrow> match_candidate list \<Rightarrow> all_books \<Rightarrow> book_event list \<Rightarrow> all_books \<times> book_event list" where
  "sweep_large_matches domain [] s events = (s, events)"
| "sweep_large_matches domain (c # cs) s events =
     (if min (mc_px c * mc_sz c) u128_max \<le> LARGE_SWEEP_NOTIONAL_THRESHOLD then sweep_large_matches domain cs s events
      else case book_of domain (mc_asset_id c) s of
        None \<Rightarrow> sweep_large_matches domain cs s events
      | Some b \<Rightarrow> (case remove_liquidity (side_opposite (mc_side c)) (mc_sz c) b of
          (b1, _, evs) \<Rightarrow> sweep_large_matches domain cs (store_book domain (mc_asset_id c) b1 s) (events @ evs)))"

text \<open>The loop stops at the first book it reaches with nothing left to cancel: the books after it are not changed.\<close>

definition settle_book :: "address \<Rightarrow> asset_book \<Rightarrow> nat \<times> book_event list \<Rightarrow> asset_book \<times> nat \<times> book_event list" where
  "settle_book user b c = (if fst c = 0 then (b, c)
     else case cancel_user_until user (fst c) b of (b1, evs, removed) \<Rightarrow> (b1, saturating_sub_u64 (fst c) removed, snd c @ evs))"

definition settle_user_book_effects :: "book_domain \<Rightarrow> address \<Rightarrow> nat \<Rightarrow> all_books \<Rightarrow> book_event list \<Rightarrow> all_books \<times> book_event list \<times> nat" where
  "settle_user_book_effects domain user desired_sz s events =
     (case each_collection (settle_book user) (collections_of domain s) (desired_sz, events) of
        (cs, remaining, evs) \<Rightarrow> (with_collections domain cs s, evs, desired_sz - remaining))"

section \<open>Queries\<close>

definition market_meta_of :: "book_domain \<Rightarrow> nat \<Rightarrow> all_books \<Rightarrow> market_meta option" where
  "market_meta_of domain dex s = (case domain of
      MainPerp \<Rightarrow> vec_get (bk_main_perp_markets s) dex
    | PerpDex \<Rightarrow> vec_get (bk_perp_dex_markets s) dex
    | SpotBooks \<Rightarrow> map_option dc_meta (vec_get (bk_spot_collections s) dex))"

record asset_ctx_prices =
  cp_mark_px :: "string option"
  cp_oracle_px :: "string option"
  cp_mid_px :: "string option"
  cp_impact_pxs :: "(string \<times> string) option"

record asset_ctx =
  ac_day_ntl_vlm :: string
  ac_funding :: string
  ac_impact_pxs :: "(string \<times> string) option"
  ac_mark_px :: string
  ac_mid_px :: "string option"
  ac_open_interest :: string
  ac_oracle_px :: string
  ac_premium :: string
  ac_prev_day_px :: string

record spot_asset_ctx =
  sc_day_ntl_vlm :: string
  sc_mark_px :: string
  sc_mid_px :: "string option"
  sc_prev_day_px :: string

record l2_book_data =
  ld_coin :: string
  ld_levels :: "l2_level list \<times> l2_level list"
  ld_time :: nat

definition signed_dec_text :: "int \<Rightarrow> string" where
  "signed_dec_text x = (if x < 0 then CHR ''-'' # dec_text (nat (- x)) else dec_text (nat x))"

definition asset_ctx_prices_of :: "book_domain \<Rightarrow> nat \<Rightarrow> all_books \<Rightarrow> asset_ctx_prices option" where
  "asset_ctx_prices_of domain asset_id s =
     (let dex = pa_dex (pa_split asset_id); local_index = pa_local (pa_split asset_id) in
      case market_meta_of domain dex s of
        None \<Rightarrow> None
      | Some meta \<Rightarrow>
          if mm_dex_index meta \<noteq> dex then None
          else (case vec_get (mm_assets meta) local_index of
              None \<Rightarrow> None
            | Some am \<Rightarrow> (case vec_get (mm_raw_states meta) local_index of
                None \<Rightarrow> None
              | Some raw \<Rightarrow> (case book_of domain asset_id s of
                  None \<Rightarrow> None
                | Some b \<Rightarrow>
                    (let show_px = (\<lambda>px. format_scaled px (am_px_scale am)) in
                     Some \<lparr>cp_mark_px = map_option show_px (ra_mark_px raw),
                           cp_oracle_px = map_option show_px (ra_oracle_px raw),
                           cp_mid_px = map_option show_px (mid_px b),
                           cp_impact_pxs = map_option (\<lambda>(bid, ask). (show_px bid, show_px ask)) (impact_pxs DEFAULT_IMPACT_NOTIONAL b)\<rparr>)))))"

definition or_zero :: "string option \<Rightarrow> string" where
  "or_zero x = (case x of None \<Rightarrow> ''0'' | Some t \<Rightarrow> t)"

definition raw_state_of :: "book_domain \<Rightarrow> nat \<Rightarrow> all_books \<Rightarrow> raw_asset_state option" where
  "raw_state_of domain asset_id s = (case market_meta_of domain (pa_dex (pa_split asset_id)) s of
      None \<Rightarrow> None
    | Some meta \<Rightarrow> vec_get (mm_raw_states meta) (pa_local (pa_split asset_id)))"

definition perp_asset_ctx :: "book_domain \<Rightarrow> nat \<Rightarrow> all_books \<Rightarrow> asset_ctx option" where
  "perp_asset_ctx domain asset_id s = (case raw_state_of domain asset_id s of
      None \<Rightarrow> None
    | Some raw \<Rightarrow> (case asset_ctx_prices_of domain asset_id s of
        None \<Rightarrow> None
      | Some prices \<Rightarrow> Some
          \<lparr>ac_day_ntl_vlm = dec_text (ra_day_ntl_vlm raw), ac_funding = signed_dec_text (ra_funding raw),
           ac_impact_pxs = cp_impact_pxs prices, ac_mark_px = or_zero (cp_mark_px prices), ac_mid_px = cp_mid_px prices,
           ac_open_interest = dec_text (ra_open_interest raw), ac_oracle_px = or_zero (cp_oracle_px prices),
           ac_premium = signed_dec_text (ra_premium raw), ac_prev_day_px = dec_text (ra_prev_day_px raw)\<rparr>))"

definition spot_asset_ctx_of :: "nat \<Rightarrow> all_books \<Rightarrow> spot_asset_ctx option" where
  "spot_asset_ctx_of asset_id s = (case raw_state_of SpotBooks asset_id s of
      None \<Rightarrow> None
    | Some raw \<Rightarrow> (case asset_ctx_prices_of SpotBooks asset_id s of
        None \<Rightarrow> None
      | Some prices \<Rightarrow> Some
          \<lparr>sc_day_ntl_vlm = dec_text (ra_day_ntl_vlm raw), sc_mark_px = or_zero (cp_mark_px prices), sc_mid_px = cp_mid_px prices,
           sc_prev_day_px = dec_text (ra_prev_day_px raw)\<rparr>))"

definition l2_book :: "book_domain \<Rightarrow> nat \<Rightarrow> nat \<Rightarrow> nat \<Rightarrow> all_books \<Rightarrow> l2_book_data option" where
  "l2_book domain asset_id max_levels now_ms s = (case book_of domain asset_id s of
      None \<Rightarrow> None
    | Some b \<Rightarrow> Some \<lparr>ld_coin = ab_display_name b,
        ld_levels = (l2_levels BidSide max_levels b, l2_levels AskSide max_levels b), ld_time = now_ms\<rparr>)"

definition iter_all_books :: "all_books \<Rightarrow> asset_book list" where
  "iter_all_books s = concat (map dc_books (bk_main_perp_collections s @ bk_perp_dex_collections s @ bk_spot_collections s))"

definition recompute_volume_accumulator :: "all_books \<Rightarrow> all_books" where
  "recompute_volume_accumulator s =
     (case fold (\<lambda>b (total_ntl, active). case mid_px b of
            None \<Rightarrow> (total_ntl, active)
          | Some mid \<Rightarrow> (min (total_ntl + min (mid * total_resting_sz b) u128_max) u128_max, saturating_add_u64 active 1))
          (iter_all_books s) (0, 0) of
        (total_ntl, active) \<Rightarrow> s\<lparr>bk_volume_accumulator := \<lparr>va_total_mid_notional = total_ntl, va_active_books = active\<rparr>\<rparr>)"

end
