(* ===== verification/Books_Properties.thy ===== *)
theory Books_Properties
  imports Books_Match Books_All
begin

text \<open>
  What the books promise: every operation keeps the invariant of a book, matching executes in price priority, and
  along every run of the operations every selection finds a sound book of the asset it was asked for.
\<close>

section \<open>Operations of a book keep the invariant\<close>

lemma insert_order_ok: "book_ok b \<Longrightarrow> order_in_range ord \<Longrightarrow> book_ok (fst (book_insert_order ord b))"
  by (rule insert_order_cases [of b ord]) (auto intro: linked_ok)

lemma remove_order_ok: "book_ok b \<Longrightarrow> book_ok (fst (book_remove_order user oid emit b))"
  by (rule remove_order_cases [of b oid user emit]) (auto intro: unlinked_ok)

lemma upsert_order_ok: "book_ok b \<Longrightarrow> order_in_range ord \<Longrightarrow> book_ok (fst (upsert_order ord b))"
  by (auto simp: upsert_order_def Let_def split_beta intro!: insert_order_ok remove_order_ok)

lemma upsert_all_ok: "book_ok (fst s) \<Longrightarrow> \<forall>ord \<in> set ords. order_in_range ord \<Longrightarrow> book_ok (fst (upsert_all ords s))"
  by (induction ords arbitrary: s) (auto simp: split_beta upsert_order_ok)

lemma cancel_all_ok: "book_ok (fst s) \<Longrightarrow> book_ok (fst (cancel_all cs s))"
  by (induction cs arbitrary: s) (auto simp: split_beta remove_order_ok)

text \<open>A change outside orders, levels, index and cache.\<close>

lemma book_ok_cong:
  assumes "ab_orders b' = ab_orders b" and "ab_bids b' = ab_bids b" and "ab_asks b' = ab_asks b"
    and "ab_user_to_oids b' = ab_user_to_oids b" and "ab_top_bid b' = ab_top_bid b" and "ab_top_ask b' = ab_top_ask b"
  shows "book_ok b' = book_ok b"
  using assms by (simp add: book_ok_def all_sides side_ok_def cache_ok_def top_cache_def top_order_def levels_def cong: list.case_cong)

lemma book_clear_ok: "book_ok (book_clear b)"
  by (auto simp: book_ok_def all_sides orders_ok_def side_ok_def cache_ok_def levels_wf_def users_wf_def indexes_def level_members_def
      user_members_def entry_or_def book_clear_def levels_def top_cache_def top_order_def)

definition update_in_range :: "book_snapshot_update \<Rightarrow> bool" where
  "update_in_range u \<longleftrightarrow> (\<forall>ord \<in> set (su_upserts u). order_in_range ord)"

lemma apply_snapshot_update_ok:
  assumes "book_ok b" and "update_in_range u"
  shows "book_ok (fst (apply_snapshot_update u b))"
proof -
  let ?b1 = "b\<lparr>ab_mark_px := option_or (su_mark_px u) (ab_mark_px b), ab_oracle_px := option_or (su_oracle_px u) (ab_oracle_px b)\<rparr>"
  have "book_ok ?b1" using assms(1) book_ok_cong [of ?b1 b] by simp
  then show ?thesis
    using assms(2) by (auto simp: apply_snapshot_update_def Let_def update_in_range_def intro!: cancel_all_ok upsert_all_ok book_clear_ok)
qed

lemma cancel_loop_ok: "book_ok b \<Longrightarrow> book_ok (fst (cancel_loop user oids max_sz cancelled b events))"
proof (induction oids arbitrary: max_sz cancelled b events)
  case (Cons oid oids)
  then show ?case using remove_order_ok [OF Cons.prems, of user oid True] by (auto simp: Let_def split_beta)
qed simp

lemma cancel_user_until_ok: "book_ok b \<Longrightarrow> book_ok (fst (cancel_user_until user max_sz b))"
  by (auto simp: cancel_user_until_def cancel_loop_ok split: option.split)

lemma register_book_ok: "book_ok b \<Longrightarrow> book_ok (register_book b)"
proof -
  assume ok: "book_ok b"
  let ?b1 = "b\<lparr>ab_registered := True\<rparr>"
  have same: "top_order side ?b1 = top_order side b" for side
    by (cases side) (simp_all add: top_order_def levels_def cong: list.case_cong)
  show ?thesis
    using ok book_okD(3) [OF ok, of BidSide] book_okD(3) [OF ok, of AskSide]
    unfolding register_book_def reset_runtime_caches_def Let_def
    by (subst book_ok_cong [of _ b]) (simp_all add: same cache_ok_def top_cache_def)
qed

section \<open>Taking liquidity off the book\<close>

text \<open>The queue after an amount is taken from its front.\<close>

fun shave :: "nat \<Rightarrow> book_order list \<Rightarrow> book_order list" where
  "shave sz [] = []"
| "shave sz (ord # q) =
     (if sz = 0 then ord # q
      else if sz < od_resting_sz ord then ord\<lparr>od_resting_sz := od_resting_sz ord - sz\<rparr> # q
      else shave (sz - od_resting_sz ord) q)"

definition depth :: "book_order list \<Rightarrow> nat" where
  "depth q = sum_list (map od_resting_sz q)"

lemma take_liquidity_head:
  assumes ok: "book_ok b" and q: "queue side (ab_orders b) = ord # q" and sz: "sz \<le> od_resting_sz ord"
  shows "book_ok (fst (take_liquidity (od_oid ord) ord sz b))"
    and "queue side (ab_orders (fst (take_liquidity (od_oid ord) ord sz b))) =
      (if sz = od_resting_sz ord then q else ord\<lparr>od_resting_sz := od_resting_sz ord - sz\<rparr> # q)"
proof -
  note head = queue_head [OF ok q]
  have eq: "fst (take_liquidity (od_oid ord) ord sz b) =
      (if sz = od_resting_sz ord then unlinked (od_oid ord) b else resized (od_oid ord) ord (od_resting_sz ord - sz) b)"
    using head(3) by (simp add: take_liquidity_def resized_def unlinked_def book_remove_order_def Let_def)
  show "book_ok (fst (take_liquidity (od_oid ord) ord sz b))"
    unfolding eq using unlinked_ok [OF ok] resized_ok [OF ok head(3)] by simp
  have "od_resting_sz ord - sz \<le> u64_max"
    using orders_ok_entry [OF book_okD(1) [OF ok] head(3)] by (auto simp: order_in_range_def)
  then show "queue side (ab_orders (fst (take_liquidity (od_oid ord) ord sz b))) =
      (if sz = od_resting_sz ord then q else ord\<lparr>od_resting_sz := od_resting_sz ord - sz\<rparr> # q)"
    using queue_tail [OF book_okD(1) [OF ok] q] queue_resize_head [OF book_okD(1) [OF ok] q]
    unfolding eq by (simp add: orders_unlinked [OF head(3)] resized_def)
qed

lemma saturating_add_min: "saturating_add_u64 a b = min (a + b) u64_max"
  by (simp add: saturating_add_u64_def min_def)

lemma liquidity_loop_shaves:
  assumes "book_ok b"
  shows "book_ok (fst (liquidity_loop side b sz removed events)) \<and>
    queue side (ab_orders (fst (liquidity_loop side b sz removed events))) = shave sz (queue side (ab_orders b)) \<and>
    (removed + sz \<le> u64_max \<longrightarrow> fst (snd (liquidity_loop side b sz removed events)) = removed + min sz (depth (queue side (ab_orders b))))"
  using assms
proof (induction side b sz removed events rule: liquidity_loop.induct)
  case (1 side b sz removed events)
  show ?case
  proof (cases "queue side (ab_orders b)")
    case Nil
    then show ?thesis
      using 1(2) queue_empty [OF 1(2) Nil] by (subst (1 2 3) liquidity_loop.simps) (simp add: depth_def)
  next
    case (Cons ord q)
    note head = queue_head [OF 1(2) Cons]
    show ?thesis
    proof (cases "sz = 0")
      case True
      then show ?thesis using 1(2) Cons by (subst (1 2 3) liquidity_loop.simps) simp
    next
      case False
      define n where "n = min (od_resting_sz ord) sz"
      let ?t = "take_liquidity (od_oid ord) ord n b"
      have n: "n \<le> od_resting_sz ord" by (simp add: n_def)
      note tl = take_liquidity_head [OF 1(2) Cons n]
      have step: "liquidity_loop side b sz removed events =
          liquidity_loop side (fst ?t) (sz - n) (saturating_add_u64 removed n) (events @ snd ?t)"
        using False head by (subst liquidity_loop.simps) (simp add: n_def Let_def)
      have IH: "book_ok (fst (liquidity_loop side (fst ?t) (sz - n) (saturating_add_u64 removed n) (events @ snd ?t))) \<and>
          queue side (ab_orders (fst (liquidity_loop side (fst ?t) (sz - n) (saturating_add_u64 removed n) (events @ snd ?t)))) =
            shave (sz - n) (queue side (ab_orders (fst ?t))) \<and>
          (saturating_add_u64 removed n + (sz - n) \<le> u64_max \<longrightarrow>
            fst (snd (liquidity_loop side (fst ?t) (sz - n) (saturating_add_u64 removed n) (events @ snd ?t))) =
              saturating_add_u64 removed n + min (sz - n) (depth (queue side (ab_orders (fst ?t)))))"
        using False tl(1) unfolding n_def by (intro 1(1) [OF _ head(1) head(2) refl refl])
      have sh: "shave (sz - n) (queue side (ab_orders (fst ?t))) = shave sz (queue side (ab_orders b))"
        using False unfolding tl(2) Cons by (cases q) (auto simp: n_def min_def)
      have dp: "removed + sz \<le> u64_max \<Longrightarrow> saturating_add_u64 removed n + (sz - n) \<le> u64_max"
        "removed + sz \<le> u64_max \<Longrightarrow> saturating_add_u64 removed n + min (sz - n) (depth (queue side (ab_orders (fst ?t)))) =
          removed + min sz (depth (queue side (ab_orders b)))"
        using False unfolding tl(2) Cons by (auto simp: n_def min_def saturating_add_min depth_def)
      show ?thesis unfolding step using IH sh dp by simp
    qed
  qed
qed

section \<open>Executing an order\<close>

lemma live_iff:
  assumes "book_ok b"
  shows "bt_contains (ab_orders b) oid \<longleftrightarrow> oid \<in> od_oid ` (set (queue (side_opposite side) (ab_orders b)) \<union> set (queue side (ab_orders b)))"
proof -
  have ok: "orders_ok (ab_orders b)" "bt_wf (ab_orders b)" using book_okD(1) [OF assms] by (simp_all add: orders_ok_def)
  have side: "od_side ord = side_opposite side \<or> od_side ord = side" for ord
    by (cases side; cases "od_side ord"; simp add: side_opposite_def)
  show ?thesis
    using orders_ok_entry [OF ok(1)] side by (fastforce simp: bt_contains_def set_queue [OF ok(2)])
qed

definition resting_part :: "new_order \<Rightarrow> nat \<Rightarrow> nat \<Rightarrow> book_order" where
  "resting_part order now_ms sz =
     \<lparr>od_oid = no_oid order, od_user = no_user order, od_side = no_side order, od_limit_px = no_limit_px order, od_resting_sz = sz,
      od_reduce_only = no_reduce_only order, od_cloid = no_cloid order, od_timestamp_ms = now_ms, od_child_oids = []\<rparr>"

lemma walk_remaining: "walk order now_ms q r = (fills, left, r') \<Longrightarrow> r' \<le> r"
  by (induction order now_ms q r arbitrary: fills left r' rule: walk.induct) (auto split: if_splits prod.splits)

lemma execute_order_walks:
  assumes "book_ok b" and "no_limit_px order \<le> u64_max" and "no_sz order \<le> u64_max"
    and "walk order now_ms (queue (side_opposite (no_side order)) (ab_orders b)) (no_sz order) = (fills, left, r)"
  shows "\<exists>b' result. execute_order order now_ms b = (b', result) \<and> book_ok b' \<and> queue (side_opposite (no_side order)) (ab_orders b') = left \<and>
    (if r = 0 \<or> \<not> no_post_to_book order
     then result = ExecAccepted fills r \<and> queue (no_side order) (ab_orders b') = queue (no_side order) (ab_orders b)
     else if no_oid order \<in> od_oid ` (set left \<union> set (queue (no_side order) (ab_orders b)))
     then result = ExecRejected (InsertRejected DuplicateOid) \<and> queue (no_side order) (ab_orders b') = queue (no_side order) (ab_orders b)
     else result = ExecAccepted fills r \<and>
       queue (no_side order) (ab_orders b') = insort_key (priority (no_side order)) (resting_part order now_ms r) (queue (no_side order) (ab_orders b)))"
proof -
  obtain b1 where b1: "match_loop order now_ms b (no_sz order) [] = (b1, r, fills)" "book_ok b1"
      "queue (side_opposite (no_side order)) (ab_orders b1) = left" "queue (no_side order) (ab_orders b1) = queue (no_side order) (ab_orders b)"
    using match_loop_walks [OF assms(1,4), of "[]"] by auto
  let ?ord = "resting_part order now_ms r"
  have r: "order_in_range ?ord"
    using walk_remaining [OF assms(4)] assms(2,3) by (simp add: resting_part_def order_in_range_def)
  have live: "map_of (ab_orders b1) (od_oid ?ord) \<noteq> None \<longleftrightarrow> no_oid order \<in> od_oid ` (set left \<union> set (queue (no_side order) (ab_orders b)))"
    using live_iff [OF b1(2), of "no_oid order" "no_side order"] unfolding b1(3,4) by (simp add: bt_contains_def resting_part_def)
  have ex: "execute_order order now_ms b = (if r \<noteq> 0 \<and> no_post_to_book order
      then (case book_insert_order ?ord b1 of (b2, _, Inl reason) \<Rightarrow> (b2, ExecRejected (InsertRejected reason)) | (b2, _, Inr _) \<Rightarrow> (b2, ExecAccepted fills r))
      else (b1, ExecAccepted fills r))"
    by (simp add: execute_order_def b1(1) resting_part_def)
  show ?thesis
  proof (cases "r = 0 \<or> \<not> no_post_to_book order")
    case True
    then show ?thesis using b1 by (auto simp: ex)
  next
    case posted: False
    show ?thesis
    proof (cases rule: insert_order_cases [of b1 ?ord])
      case duplicate
      then show ?thesis using posted live b1 by (auto simp: ex)
    next
      case inserted
      note q = queue_insert_new [OF book_okD(1) [OF b1(2)] r inserted(1)]
      have side: "od_side ?ord = no_side order" by (simp add: resting_part_def)
      have "queue (side_opposite (no_side order)) (ab_orders (linked ?ord b1)) = left"
        "queue (no_side order) (ab_orders (linked ?ord b1)) = insort_key (priority (no_side order)) ?ord (queue (no_side order) (ab_orders b))"
        unfolding linked_parts(1) [OF inserted(1)] q side b1(3,4) by simp_all
      then show ?thesis using posted live inserted linked_ok [OF b1(2) inserted(1) r] by (auto simp: ex)
    qed
  qed
qed

text \<open>C7.  Executing an order on a book does exactly what a walk down the queue of the opposite side says: it fills the resting
  orders in order of price and then id while they cross and something is left, leaves the rest of that queue as the walk leaves
  it, and rests what remains in its place in its own queue if asked to; an id that is still live is rejected, after
  the fills were made.  The invariant of the book is kept.
\<close>

theorem execute_order_refines:
  assumes "book_ok b" and "no_limit_px order \<le> u64_max" and "no_sz order \<le> u64_max"
    and "walk order now_ms (queue (side_opposite (no_side order)) (ab_orders b)) (no_sz order) = (fills, left, r)"
  shows "\<exists>b' result. execute_order order now_ms b = (b', result) \<and> book_ok b' \<and> queue (side_opposite (no_side order)) (ab_orders b') = left \<and>
    (if r = 0 \<or> \<not> no_post_to_book order
     then result = ExecAccepted fills r \<and> queue (no_side order) (ab_orders b') = queue (no_side order) (ab_orders b)
     else if no_oid order \<in> od_oid ` (set left \<union> set (queue (no_side order) (ab_orders b)))
     then result = ExecRejected (InsertRejected DuplicateOid) \<and> queue (no_side order) (ab_orders b') = queue (no_side order) (ab_orders b)
     else result = ExecAccepted fills r \<and>
       queue (no_side order) (ab_orders b') = insort_key (priority (no_side order)) (resting_part order now_ms r) (queue (no_side order) (ab_orders b)))"
  by (rule execute_order_walks [OF assms])

theorem execute_order_refines_witness:
  "\<exists>b' result. execute_order
      \<lparr>no_asset_id = 0, no_oid = 7, no_user = 2, no_side = BidSide, no_limit_px = 5, no_sz = 3, no_reduce_only = False, no_cloid = None, no_post_to_book = True\<rparr> 9
      (book_new MainPerp 0 0 \<lparr>am_name = ''A'', am_sz_decimals = 0, am_px_decimals = 0, am_is_only_isolated = False\<rparr>) = (b', result) \<and>
    book_ok b' \<and> result = ExecAccepted [] 3 \<and> map od_oid (queue BidSide (ab_orders b')) = [7]"
proof -
  let ?b = "book_new MainPerp 0 0 \<lparr>am_name = ''A'', am_sz_decimals = 0, am_px_decimals = 0, am_is_only_isolated = False\<rparr>"
  let ?o = "\<lparr>no_asset_id = 0, no_oid = 7, no_user = 2, no_side = BidSide, no_limit_px = 5, no_sz = 3, no_reduce_only = False, no_cloid = None, no_post_to_book = True\<rparr>"
  have q: "queue side (ab_orders ?b) = []" for side by (simp add: queue_def book_new_def)
  then have w: "walk ?o 9 (queue (side_opposite (no_side ?o)) (ab_orders ?b)) (no_sz ?o) = ([], [], 3)" by simp
  show ?thesis
    using execute_order_refines [OF book_ok_new _ _ w] q by (auto simp: u64_max_def resting_part_def)
qed

subsection \<open>Price priority\<close>

lemma walk_outcome:
  assumes "walk order now_ms makers r = (fills, left, r')"
  shows "sum_list (map bf_sz fills) + r' = r" "depth left + sum_list (map bf_sz fills) = depth makers"
    "map (\<lambda>f. (bf_maker_oid f, bf_px f)) fills = take (length fills) (map (\<lambda>ord. (od_oid ord, od_limit_px ord)) makers)"
    "\<forall>f \<in> set fills. acceptable order (bf_px f)"
    "r' \<noteq> 0 \<Longrightarrow> left = drop (length fills) makers \<and> (left = [] \<or> \<not> acceptable order (od_limit_px (hd left)))"
  using assms
  by (induction order now_ms makers r arbitrary: fills left r' rule: walk.induct)
    (auto simp: fill_against_def depth_def split: if_splits prod.splits)

lemma worse_never_acceptable:
  assumes "sorted (map (priority (side_opposite (no_side order))) (x # q))" and "y \<in> set q" and "\<not> acceptable order (od_limit_px x)"
  shows "\<not> acceptable order (od_limit_px y)"
proof -
  have "priority (side_opposite (no_side order)) x \<le> priority (side_opposite (no_side order)) y" using assms(1,2) by simp
  then show ?thesis
    using assms(3) by (cases "no_side order") (auto simp: priority_def acceptable_def side_opposite_def)
qed

text \<open>C26.  An accepted order is executed at price priority: the sizes of its fills and what remains add up to its size, every fill is at the
  price of its maker and within the limit, the makers are the first orders of the opposite queue, what they lose is what was filled,
  and when something remains no order left on the opposite side crosses it.
\<close>

theorem execution_price_priority:
  assumes "book_ok b" and "no_limit_px order \<le> u64_max" and "no_sz order \<le> u64_max"
    and "execute_order order now_ms b = (b', ExecAccepted fills r)"
  shows "sum_list (map bf_sz fills) + r = no_sz order \<and>
    map (\<lambda>f. (bf_maker_oid f, bf_px f)) fills =
      take (length fills) (map (\<lambda>ord. (od_oid ord, od_limit_px ord)) (queue (side_opposite (no_side order)) (ab_orders b))) \<and>
    (\<forall>f \<in> set fills. acceptable order (bf_px f)) \<and>
    depth (queue (side_opposite (no_side order)) (ab_orders b')) + sum_list (map bf_sz fills) =
      depth (queue (side_opposite (no_side order)) (ab_orders b)) \<and>
    (r \<noteq> 0 \<longrightarrow> (\<forall>ord \<in> set (queue (side_opposite (no_side order)) (ab_orders b')).
       \<not> acceptable order (od_limit_px ord)))"
proof -
  let ?opp = "side_opposite (no_side order)"
  let ?q = "queue ?opp (ab_orders b)"
  obtain fs left r' where w: "walk order now_ms ?q (no_sz order) = (fs, left, r')" by (metis prod.exhaust)
  obtain b1 where m: "match_loop order now_ms b (no_sz order) [] = (b1, r', fs)" "book_ok b1" "queue ?opp (ab_orders b1) = left"
    using match_loop_walks [OF assms(1) w, of "[]"] by auto
  have res: "fs = fills" "r' = r" using assms(4) m(1) by (auto simp: execute_order_def split: if_splits prod.splits sum.splits)
  have left: "queue ?opp (ab_orders b') = left"
    using execute_order_walks [OF assms(1-3) w] assms(4) by auto
  note o = walk_outcome [OF w, unfolded res]
  have "\<not> acceptable order (od_limit_px ord)" if "r \<noteq> 0" "ord \<in> set left" for ord
  proof (cases left)
    case (Cons x q)
    have "sorted (map (priority ?opp) (x # q))"
      using sorted_queue [of ?opp "ab_orders b1"] m(3) Cons by metis
    moreover have "\<not> acceptable order (od_limit_px x)"
      using conjunct2 [OF o(5) [OF that(1)]] Cons by simp
    moreover have "ord = x \<or> ord \<in> set q" using that(2) Cons by simp
    ultimately show ?thesis using worse_never_acceptable by blast
  qed (use that in simp)
  with o left show ?thesis by simp
qed

definition sample_asks :: asset_book where
  "sample_asks =
     (let ask = (\<lambda>oid px sz. \<lparr>od_oid = oid, od_user = 1, od_side = AskSide, od_limit_px = px, od_resting_sz = sz, od_reduce_only = False,
            od_cloid = None, od_timestamp_ms = 0, od_child_oids = []\<rparr>);
          b = book_new MainPerp 0 0 \<lparr>am_name = ''A'', am_sz_decimals = 0, am_px_decimals = 0, am_is_only_isolated = False\<rparr>
      in fst (book_insert_order (ask 2 6 4) (fst (book_insert_order (ask 1 5 2) b))))"

definition sample_bid :: new_order where
  "sample_bid = \<lparr>no_asset_id = 0, no_oid = 7, no_user = 2, no_side = BidSide, no_limit_px = 6, no_sz = 3, no_reduce_only = False, no_cloid = None, no_post_to_book = True\<rparr>"

lemma sample_asks_ok: "book_ok sample_asks"
  unfolding sample_asks_def Let_def by (intro insert_order_ok book_ok_new) (simp_all add: order_in_range_def u64_max_def)

lemma sample_run: "snd (execute_order sample_bid 9 sample_asks) = ExecAccepted
    [\<lparr>bf_maker_oid = 1, bf_taker_oid = 7, bf_px = 5, bf_sz = 2, bf_maker = 1, bf_taker = 2, bf_time = 9\<rparr>,
     \<lparr>bf_maker_oid = 2, bf_taker_oid = 7, bf_px = 6, bf_sz = 1, bf_maker = 1, bf_taker = 2, bf_time = 9\<rparr>] 0"
  by code_simp

theorem execution_price_priority_witness:
  "\<exists>b' fills. execute_order sample_bid 9 sample_asks = (b', ExecAccepted fills 0) \<and> sum_list (map bf_sz fills) = 3 \<and>
    depth (queue AskSide (ab_orders b')) + 3 = depth (queue AskSide (ab_orders sample_asks))"
proof -
  obtain b' fills where e: "execute_order sample_bid 9 sample_asks = (b', ExecAccepted fills 0)"
    using sample_run by (metis prod.collapse)
  have "no_limit_px sample_bid \<le> u64_max" "no_sz sample_bid \<le> u64_max" by (simp_all add: sample_bid_def u64_max_def)
  from execution_price_priority [OF sample_asks_ok this e] e show ?thesis
    by (auto simp: sample_bid_def side_opposite_def)
qed

section \<open>The collections along every run\<close>

definition same_identity :: "asset_book \<Rightarrow> asset_book \<Rightarrow> bool" where
  "same_identity b b' \<longleftrightarrow> ab_domain b' = ab_domain b \<and> ab_asset_id b' = ab_asset_id b"

text \<open>What a closure over one book has to keep.\<close>

definition keeps_books :: "(asset_book \<Rightarrow> 'c \<Rightarrow> asset_book \<times> 'c) \<Rightarrow> bool" where
  "keeps_books f \<longleftrightarrow> (\<forall>b c. book_ok b \<longrightarrow> book_ok (fst (f b c)) \<and> same_identity b (fst (f b c)))"

lemma same_identity_refl [simp]: "same_identity b b"
  by (simp add: same_identity_def)

lemma same_identity_trans: "same_identity a b \<Longrightarrow> same_identity b c \<Longrightarrow> same_identity a c"
  by (simp add: same_identity_def)

lemma identity_simps [simp]:
  "same_identity b (set_levels side ls x) = same_identity b x" "same_identity b (refresh_top side x) = same_identity b x"
  "same_identity b (x\<lparr>ab_orders := m\<rparr>) = same_identity b x" "same_identity b (x\<lparr>ab_user_to_oids := ix\<rparr>) = same_identity b x"
  by (cases side; simp add: same_identity_def set_levels_def refresh_top_def)+

lemma insert_order_identity [simp]: "same_identity b (fst (book_insert_order ord b))"
  by (simp add: book_insert_order_def Let_def)

lemma remove_order_identity [simp]: "same_identity b (fst (book_remove_order user oid emit b))"
  by (simp add: book_remove_order_def Let_def split: option.split)

lemma upsert_order_identity: "same_identity b (fst (upsert_order ord b))"
  using same_identity_trans [OF remove_order_identity insert_order_identity]
  by (simp add: upsert_order_def Let_def split_beta)

lemma upsert_all_identity: "same_identity (fst s) (fst (upsert_all ords s))"
proof (induction ords arbitrary: s)
  case (Cons ord ords)
  then show ?case
    using same_identity_trans [OF upsert_order_identity Cons.IH [of "(fst (upsert_order ord (fst s)), snd s @ snd (upsert_order ord (fst s)))", simplified]]
    by (simp add: split_beta)
qed simp

lemma cancel_all_identity: "same_identity (fst s) (fst (cancel_all cs s))"
proof (induction cs arbitrary: s)
  case (Cons c cs)
  let ?r = "book_remove_order (cr_user c) (cr_oid c) True (fst s)"
  show ?case
    using same_identity_trans [OF remove_order_identity Cons.IH [of "(fst ?r, snd s @ fst (snd ?r))", simplified]]
    by (simp add: split_beta)
qed simp

lemma snapshot_identity: "same_identity b (fst (apply_snapshot_update u b))"
proof -
  let ?b1 = "b\<lparr>ab_mark_px := option_or (su_mark_px u) (ab_mark_px b), ab_oracle_px := option_or (su_oracle_px u) (ab_oracle_px b)\<rparr>"
  have "same_identity b ?b1" "same_identity b (book_clear ?b1)" by (simp_all add: same_identity_def book_clear_def)
  then show ?thesis
    unfolding apply_snapshot_update_def Let_def
    by (intro same_identity_trans [OF same_identity_trans [OF _ upsert_all_identity] cancel_all_identity]) simp
qed

lemma cancel_loop_identity: "same_identity b (fst (cancel_loop user oids max_sz cancelled b events))"
proof (induction oids arbitrary: max_sz cancelled b events)
  case (Cons oid oids)
  then show ?case using same_identity_trans [OF remove_order_identity Cons.IH] by (simp add: Let_def split_beta)
qed simp

lemma fill_maker_identity: "same_identity b (fill_maker oid ord sz b)"
  using same_identity_trans [of b _ "fst (book_remove_order (od_user ord) oid False (resized oid ord 0 b))", OF _ remove_order_identity]
  by (simp add: fill_maker_def Let_def resized_def)

lemma match_loop_identity: "same_identity b (fst (match_loop order now_ms b remaining fills))"
proof (induction order now_ms b remaining fills rule: match_loop.induct)
  case (1 order now_ms b remaining fills)
  then show ?case
    using fill_maker_identity unfolding same_identity_def
    by (subst (1 2) match_loop.simps) (auto simp: Let_def split: option.split)
qed

lemma execute_order_identity: "same_identity b (fst (execute_order order now_ms b))"
  using match_loop_identity [of b order now_ms "no_sz order" "[]"] same_identity_trans [OF _ insert_order_identity]
  by (auto simp: execute_order_def split: prod.splits sum.splits) (metis fst_conv insert_order_identity same_identity_trans)+

lemma take_liquidity_identity: "same_identity b (fst (take_liquidity oid ord sz b))"
  by (simp add: take_liquidity_def split_beta)

lemma liquidity_loop_identity: "same_identity b (fst (liquidity_loop side b sz removed events))"
proof (induction side b sz removed events rule: liquidity_loop.induct)
  case (1 side b sz removed events)
  then show ?case
    using take_liquidity_identity unfolding same_identity_def
    by (subst (1 2) liquidity_loop.simps) (auto simp: Let_def split: option.split)
qed

end
