(* ===== verification/Books_Runs.thy ===== *)
theory Books_Runs
  imports Books_Properties
begin

text \<open>
  The books of all assets as a transition system, \<^verbatim>\<open>Books\<close> of \<^verbatim>\<open>src/l1/books.rs\<close>: whatever operations run on whatever domain, a
  selection finds a sound book, of the domain and the asset it was asked for.
\<close>

section \<open>The invariant of the collections\<close>

definition collection_ok :: "book_domain \<Rightarrow> nat \<Rightarrow> dex_book_collection \<Rightarrow> bool" where
  "collection_ok domain dex c \<longleftrightarrow> (\<forall>i < length (dc_books c). book_ok (dc_books c ! i) \<and> ab_domain (dc_books c ! i) = domain \<and>
     ab_asset_id (dc_books c ! i) = pa_pack \<lparr>pa_dex = dex, pa_local = i\<rparr>)"

definition collections_ok :: "book_domain \<Rightarrow> dex_book_collection list \<Rightarrow> bool" where
  "collections_ok domain cs \<longleftrightarrow> (\<forall>dex < length cs. collection_ok domain dex (cs ! dex))"

definition books_ok :: "all_books \<Rightarrow> bool" where
  "books_ok s \<longleftrightarrow> (\<forall>domain. collections_ok domain (collections_of domain s))"

lemma collections_of_with [simp]:
  "collections_of domain (with_collections domain' cs s) = (if domain' = domain then cs else collections_of domain s)"
  by (cases domain; cases domain'; simp add: collections_of_def with_collections_def)

lemma collections_of_simps [simp]:
  "collections_of domain (s\<lparr>bk_registered_main_perp_assets := r\<rparr>) = collections_of domain s"
  "collections_of domain (s\<lparr>bk_registered_perp_dex_assets := r\<rparr>) = collections_of domain s"
  "collections_of domain (s\<lparr>bk_volume_accumulator := v\<rparr>) = collections_of domain s"
  by (cases domain; simp add: collections_of_def)+

lemma books_ok_cong: "(\<And>domain. collections_of domain s' = collections_of domain s) \<Longrightarrow> books_ok s \<Longrightarrow> books_ok s'"
  by (simp add: books_ok_def)

lemma books_ok_with: "books_ok s \<Longrightarrow> collections_ok domain cs \<Longrightarrow> books_ok (with_collections domain cs s)"
  by (simp add: books_ok_def)

lemma book_of_find: "book_of domain asset_id s = find_in (collections_of domain s) asset_id"
  by (cases domain) (simp_all add: book_of_def collections_of_def main_perp_book_for_packed_asset_def perp_dex_book_for_packed_asset_def spot_book_for_asset_def)

lemma pack_split: "pa_pack (pa_split asset_id) = asset_id"
  by (simp add: pa_pack_def pa_split_def)

lemma pack_parts: "pa_pack \<lparr>pa_dex = pa_dex (pa_split a), pa_local = pa_local (pa_split a)\<rparr> = a"
  by (simp add: pa_pack_def pa_split_def)

lemma find_in_Some:
  "find_in cs a = Some b \<longleftrightarrow> pa_dex (pa_split a) < length cs \<and>
    pa_local (pa_split a) < length (dc_books (cs ! pa_dex (pa_split a))) \<and> b = dc_books (cs ! pa_dex (pa_split a)) ! pa_local (pa_split a)"
  by (auto simp: find_in_def vec_get_def collection_book_def split: option.splits if_splits)

lemma found_book_ok:
  assumes "books_ok s" and "book_of domain asset_id s = Some b"
  shows "book_ok b \<and> ab_domain b = domain \<and> ab_asset_id b = asset_id"
  using assms by (auto simp: book_of_find find_in_Some books_ok_def collections_ok_def collection_ok_def pack_parts)

lemma store_book_ok:
  assumes ok: "books_ok s" and at: "book_of domain asset_id s = Some b" and b': "book_ok b'" "same_identity b b'"
  shows "books_ok (store_book domain asset_id b' s)"
proof -
  let ?cs = "collections_of domain s" and ?dex = "pa_dex (pa_split asset_id)" and ?i = "pa_local (pa_split asset_id)"
  have cs: "collections_ok domain ?cs" using ok by (simp add: books_ok_def)
  have found: "?dex < length ?cs" "?i < length (dc_books (?cs ! ?dex))" "b = dc_books (?cs ! ?dex) ! ?i"
    using at by (auto simp: book_of_find find_in_Some)
  have c: "collection_ok domain ?dex (?cs ! ?dex)" using cs found(1) by (simp add: collections_ok_def)
  have "collection_ok domain ?dex ((?cs ! ?dex)\<lparr>dc_books := (dc_books (?cs ! ?dex))[?i := b']\<rparr>)"
    using c found(2,3) b' by (auto simp: collection_ok_def same_identity_def nth_list_update)
  then have "collections_ok domain (?cs[?dex := (?cs ! ?dex)\<lparr>dc_books := (dc_books (?cs ! ?dex))[?i := b']\<rparr>])"
    using cs found(1) by (auto simp: collections_ok_def nth_list_update)
  then show ?thesis unfolding store_book_def Let_def by (rule books_ok_with [OF ok])
qed

lemma change_book_ok:
  assumes "books_ok s" and "book_of domain asset_id s = Some b" and "\<And>b. book_ok b \<Longrightarrow> book_ok (g b) \<and> same_identity b (g b)"
  shows "books_ok (store_book domain asset_id (g b) s)"
  using store_book_ok [OF assms(1,2)] assms(3) found_book_ok [OF assms(1,2)] by blast

section \<open>Closures over the selected books\<close>

lemma each_book_kept:
  assumes "keeps_books f"
  shows "list_all2 (\<lambda>b b'. book_ok b \<longrightarrow> book_ok b' \<and> same_identity b b') bs (fst (each_book f bs c))"
  using assms by (induction bs arbitrary: c) (auto simp: keeps_books_def split_beta)

lemma collection_kept:
  assumes "collection_ok domain dex k" and "list_all2 (\<lambda>b b'. book_ok b \<longrightarrow> book_ok b' \<and> same_identity b b') (dc_books k) bs"
  shows "collection_ok domain dex (k\<lparr>dc_books := bs\<rparr>)"
  using assms list_all2_nthD [OF assms(2)] list_all2_lengthD [OF assms(2)] by (auto simp: collection_ok_def same_identity_def)

lemma each_collection_kept:
  assumes "keeps_books f"
  shows "list_all2 (\<lambda>k k'. \<exists>bs. k' = k\<lparr>dc_books := bs\<rparr> \<and> list_all2 (\<lambda>b b'. book_ok b \<longrightarrow> book_ok b' \<and> same_identity b b') (dc_books k) bs)
    ks (fst (each_collection f ks c))"
proof (induction ks arbitrary: c)
  case (Cons k ks)
  then show ?case using each_book_kept [OF assms, of "dc_books k" c] by (auto simp: split_beta)
qed simp

lemma each_collection_ok:
  assumes "keeps_books f" and "collections_ok domain cs"
  shows "collections_ok domain (fst (each_collection f cs c))"
  unfolding collections_ok_def
proof (intro allI impI)
  note kept = each_collection_kept [OF assms(1), of cs c]
  fix dex assume "dex < length (fst (each_collection f cs c))"
  then have dex: "dex < length cs" using list_all2_lengthD [OF kept] by simp
  then show "collection_ok domain dex (fst (each_collection f cs c) ! dex)"
    using list_all2_nthD [OF kept dex] collection_kept [of domain dex "cs ! dex"] assms(2) by (auto simp: collections_ok_def)
qed

lemma selected_books_ok:
  assumes "keeps_books f" and "books_ok s"
  shows "books_ok (fst (for_each_selected_book_mut domain selection f s c))"
proof (cases selection)
  case (OneBook asset_id)
  then show ?thesis
    using assms change_book_ok [OF assms(2), of domain asset_id _ "\<lambda>b. fst (f b c)"]
    by (auto simp: for_each_selected_book_mut_def keeps_books_def split_beta split: option.split)
next
  case AllBooks
  have "collections_ok domain (collections_of domain s)" using assms(2) by (simp add: books_ok_def)
  then show ?thesis
    using each_collection_ok [OF assms(1)] books_ok_with [OF assms(2)] AllBooks
    by (simp add: for_each_selected_book_mut_def split_beta)
qed

lemma keeps_snapshot:
  assumes "update_in_range u"
  shows "keeps_books (\<lambda>b c. case apply_snapshot_update u b of (b1, new) \<Rightarrow> (b1, g c b1 new))"
  using apply_snapshot_update_ok [OF _ assms] snapshot_identity by (simp add: keeps_books_def split_beta)

lemma keeps_settle: "keeps_books (settle_book user)"
  using cancel_user_until_ok cancel_loop_identity
  by (auto simp: keeps_books_def settle_book_def cancel_user_until_def split_beta split: option.split)

section \<open>Runs\<close>

definition order_fits :: "new_order \<Rightarrow> bool" where
  "order_fits order \<longleftrightarrow> no_limit_px order \<le> u64_max \<and> no_sz order \<le> u64_max"

lemma execute_order_ok: "book_ok b \<Longrightarrow> order_fits order \<Longrightarrow> book_ok (fst (execute_order order now_ms b))"
  using execute_order_walks [of b order now_ms] unfolding order_fits_def
  by (cases "walk order now_ms (queue (side_opposite (no_side order)) (ab_orders b)) (no_sz order)") fastforce

inductive books_step :: "all_books \<Rightarrow> all_books \<Rightarrow> bool" where
  snapshot: "update_in_range u \<Longrightarrow> books_step s (fst (apply_book_snapshot_update domain selection u s events))"
| user_update: "update_in_range u \<Longrightarrow> books_step s (fst (apply_user_book_update domain selection u s user_events))"
| register_main: "books_step s (fst (ensure_main_perp_book_registered asset_id s))"
| register_dex: "books_step s (fst (ensure_perp_dex_book_registered asset_id s))"
| execute: "order_fits order \<Longrightarrow> books_step s (fst (direct_execute_order domain order now_ms s))"
| sweep: "books_step s (fst (sweep_large_matches domain candidates s events))"
| settle: "books_step s (fst (settle_user_book_effects domain user desired_sz s events))"
| volume: "books_step s (recompute_volume_accumulator s)"

inductive_cases books_stepE: "books_step s t"

lemma register_identity: "same_identity b (register_book b)"
  by (simp add: same_identity_def register_book_def reset_runtime_caches_def Let_def)

lemma register_main_ok: "books_ok s \<Longrightarrow> books_ok (fst (ensure_main_perp_book_registered asset_id s))"
proof -
  assume ok: "books_ok s"
  let ?s1 = "s\<lparr>bk_registered_main_perp_assets := bs_insert asset_id (bk_registered_main_perp_assets s)\<rparr>"
  have "books_ok ?s1" by (rule books_ok_cong [OF _ ok]) simp
  then show ?thesis
    using change_book_ok [of ?s1 MainPerp asset_id _ register_book] register_book_ok register_identity
    by (auto simp: ensure_main_perp_book_registered_def Let_def book_of_def split: option.split)
qed

lemma register_dex_ok: "books_ok s \<Longrightarrow> books_ok (fst (ensure_perp_dex_book_registered asset_id s))"
proof -
  assume ok: "books_ok s"
  let ?s1 = "s\<lparr>bk_registered_perp_dex_assets := bs_insert asset_id (bk_registered_perp_dex_assets s)\<rparr>"
  have "books_ok ?s1" by (rule books_ok_cong [OF _ ok]) simp
  then show ?thesis
    using change_book_ok [of ?s1 PerpDex asset_id _ register_book] register_book_ok register_identity
    by (auto simp: ensure_perp_dex_book_registered_def Let_def book_of_def split: option.split)
qed

lemma direct_execute_ok: "books_ok s \<Longrightarrow> order_fits order \<Longrightarrow> books_ok (fst (direct_execute_order domain order now_ms s))"
  using change_book_ok [of s domain "no_asset_id order" _ "\<lambda>b. fst (execute_order order now_ms b)"] execute_order_ok execute_order_identity
  by (auto simp: direct_execute_order_def split_beta split: option.split)

lemma sweep_ok: "books_ok s \<Longrightarrow> books_ok (fst (sweep_large_matches domain candidates s events))"
proof (induction candidates arbitrary: s events)
  case (Cons c cs)
  have "books_ok (store_book domain (mc_asset_id c) (fst (remove_liquidity (side_opposite (mc_side c)) (mc_sz c) b)) s)"
    if "book_of domain (mc_asset_id c) s = Some b" for b
    using change_book_ok [OF Cons.prems that, of "\<lambda>b. fst (remove_liquidity (side_opposite (mc_side c)) (mc_sz c) b)"]
      liquidity_loop_shaves liquidity_loop_identity by (simp add: remove_liquidity_def)
  then show ?case using Cons by (auto simp: split_beta split: option.split)
qed simp

lemma settle_effects_ok: "books_ok s \<Longrightarrow> books_ok (fst (settle_user_book_effects domain user desired_sz s events))"
  using each_collection_ok [OF keeps_settle] books_ok_with
  by (simp add: settle_user_book_effects_def split_beta books_ok_def)

lemma volume_ok: "books_ok s \<Longrightarrow> books_ok (recompute_volume_accumulator s)"
  by (rule books_ok_cong) (auto simp: recompute_volume_accumulator_def split_beta)

interpretation books_runs: invariant_system books_step books_ok
proof
  fix s t assume "books_step s t" and ok: "books_ok s"
  then show "books_ok t"
    by (cases rule: books_step.cases)
      (simp_all add: apply_book_snapshot_update_def apply_user_book_update_def selected_books_ok keeps_snapshot
        register_main_ok register_dex_ok direct_execute_ok sweep_ok settle_effects_ok volume_ok)
qed

definition markets_indexed :: "market_meta list \<Rightarrow> bool" where
  "markets_indexed ms \<longleftrightarrow> (\<forall>i < length ms. mm_dex_index (ms ! i) = i)"

lemma from_market_ok: "collection_ok domain (mm_dex_index m) (from_market domain m)"
  by (auto simp: collection_ok_def from_market_def nth_enumerate_eq book_ok_new) (simp_all add: book_new_def)

lemma build_ok: "markets_indexed ms \<Longrightarrow> collections_ok domain (build_domain_collections domain ms)"
  using from_market_ok by (auto simp: collections_ok_def build_domain_collections_def markets_indexed_def) metis

lemma books_new_ok:
  assumes "markets_indexed main" and "markets_indexed dexs" and "markets_indexed spot"
  shows "books_ok (books_new main dexs spot)"
  unfolding books_ok_def
proof
  fix domain
  show "collections_ok domain (collections_of domain (books_new main dexs spot))"
    using assms build_ok by (cases domain) (simp_all add: books_new_def collections_of_def Let_def)
qed

lemma cache_is_queue_head:
  assumes "book_ok b"
  shows "top_cache side b = (case queue side (ab_orders b) of [] \<Rightarrow> None | ord # _ \<Rightarrow> Some (od_oid ord))"
proof (cases "queue side (ab_orders b)")
  case Nil
  then show ?thesis
    using book_okD(3) [OF assms, of side] queue_Nil_iff [OF assms, of side] by (simp add: cache_ok_def top_order_def)
next
  case (Cons ord q)
  then show ?thesis using book_okD(3) [OF assms, of side] queue_head(5) [OF assms Cons] by (simp add: cache_ok_def)
qed

text \<open>C9.  Along every run of snapshot and user updates, registrations, executions, sweeps, settlements and recomputations from freshly built
  collections, the book that a domain and an asset id select is the book of that domain and asset, its levels, its index of users
  and its orders agree, and its cached top ids are the heads of its two queues.
\<close>

theorem books_reachable:
  assumes "markets_indexed main" and "markets_indexed dexs" and "markets_indexed spot"
    and "books_step\<^sup>*\<^sup>* (books_new main dexs spot) s" and "book_of domain asset_id s = Some b"
  shows "book_ok b \<and> ab_domain b = domain \<and> ab_asset_id b = asset_id \<and>
    (\<forall>side. top_cache side b = (case queue side (ab_orders b) of [] \<Rightarrow> None | ord # _ \<Rightarrow> Some (od_oid ord)))"
proof -
  have "books_ok s" by (rule books_runs.run_invar [OF assms(4) books_new_ok [OF assms(1-3)]])
  with found_book_ok assms(5) cache_is_queue_head show ?thesis by blast
qed

section \<open>The middle price\<close>

lemma average_bits_int: "((x::int) AND y) + (x XOR y) div 2 = (x + y) div 2"
proof -
  have "(x XOR y) + (x AND y) = (x XOR y) OR (x AND y)"
    by (rule disjunctive_add) (auto simp: bit_simps)
  also have "\<dots> = x OR y" by (rule bit_eqI) (auto simp: bit_simps)
  finally have "(x AND y) * 2 + (x XOR y) = x + y" using plus_and_or [of x y] by simp
  then have "(x + y) div 2 = ((x AND y) * 2 + (x XOR y)) div 2" by simp
  then show ?thesis by simp
qed

lemma mid_of_average: "unat (mid_of a b) = (unat a + unat b) div 2"
proof -
  have n: "(unat a AND unat b) + (unat a XOR unat b) div 2 = (unat a + unat b) div 2"
  proof -
    have "int ((unat a AND unat b) + (unat a XOR unat b) div 2) = int ((unat a + unat b) div 2)"
      using average_bits_int [of "int (unat a)" "int (unat b)"]
      by (simp add: of_nat_and_eq of_nat_xor_eq zdiv_int)
    then show ?thesis by presburger
  qed
  have "unat a < 2 ^ LENGTH(64)" "unat b < 2 ^ LENGTH(64)" by (rule unsigned_less)+
  then have "(unat a + unat b) div 2 < 2 ^ 64" by simp
  moreover have sum: "unat (a AND b) + unat (drop_bit 1 (a XOR b)) = (unat a + unat b) div 2"
  proof -
    have "unat (drop_bit 1 (a XOR b)) = drop_bit 1 (unat (a XOR b))"
      unfolding unsigned_drop_bit_eq using take_bit_nat_eq_self [OF unsigned_less [where w = "a XOR b"]] by simp
    then show ?thesis
      using n unfolding drop_bit_eq_div by (simp only: unsigned_and_eq unsigned_xor_eq power_one_right)
  qed
  ultimately have "unat (a AND b) + unat (drop_bit 1 (a XOR b)) < 2 ^ LENGTH(64)" by simp
  then show ?thesis unfolding mid_of_def unat_word_ariths sum by simp
qed

text \<open>C36.  The middle price is the average of the best bid and the best ask, rounded down, whatever their size: the bit
  manipulation neither overflows nor rounds up, and there is no middle price exactly when a side is empty.
\<close>

theorem mid_px_average:
  assumes "book_ok b"
  shows "mid_px b = (case (queue BidSide (ab_orders b), queue AskSide (ab_orders b)) of
      (bid # _, ask # _) \<Rightarrow> Some ((od_limit_px bid + od_limit_px ask) div 2) | _ \<Rightarrow> None)"
proof (cases "queue BidSide (ab_orders b) = [] \<or> queue AskSide (ab_orders b) = []")
  case True
  then show ?thesis
    using queue_empty [OF assms] by (auto simp: mid_px_def split: option.split list.split)
next
  case False
  then obtain bid bids ask asks where q: "queue BidSide (ab_orders b) = bid # bids" "queue AskSide (ab_orders b) = ask # asks"
    by (meson neq_Nil_conv)
  note head = queue_head [OF assms q(1)] queue_head [OF assms q(2)]
  have "od_limit_px bid \<le> u64_max" "od_limit_px ask \<le> u64_max"
    using orders_ok_entry [OF book_okD(1) [OF assms]] head(3,8) by (auto simp: order_in_range_def)
  then have "unat (of_nat (od_limit_px bid) :: 64 word) = od_limit_px bid" "unat (of_nat (od_limit_px ask) :: 64 word) = od_limit_px ask"
    by (simp_all add: unat_of_nat u64_max_def)
  then show ?thesis using head(1,6) q by (simp add: mid_px_def mid_of_average)
qed

definition sample_two_sided :: asset_book where
  "sample_two_sided = fst (book_insert_order \<lparr>od_oid = 3, od_user = 2, od_side = BidSide, od_limit_px = 2, od_resting_sz = 1,
     od_reduce_only = False, od_cloid = None, od_timestamp_ms = 0, od_child_oids = []\<rparr> sample_asks)"

lemma sample_two_sided_ok: "book_ok sample_two_sided"
  unfolding sample_two_sided_def by (intro insert_order_ok sample_asks_ok) (simp_all add: order_in_range_def u64_max_def)

lemma sample_prices:
  "map od_limit_px (queue BidSide (ab_orders sample_two_sided)) = [2]" "map od_limit_px (queue AskSide (ab_orders sample_two_sided)) = [5, 6]"
  by code_simp+

theorem mid_px_average_witness: "mid_px sample_two_sided = Some 3"
  using mid_px_average [OF sample_two_sided_ok] sample_prices by (auto split: list.splits)

section \<open>A run\<close>

definition sample_market :: market_meta where
  "sample_market = \<lparr>mm_dex_index = 0, mm_name = ''M'',
     mm_assets = [\<lparr>am_name = ''A'', am_sz_decimals = 0, am_px_decimals = 0, am_is_only_isolated = False\<rparr>], mm_raw_states = []\<rparr>"

lemma sample_book: "map_option (\<lambda>b. map od_oid (queue BidSide (ab_orders b)))
    (book_of MainPerp 0 (fst (direct_execute_order MainPerp sample_bid 9 (books_new [sample_market] [] [])))) = Some [7]"
  by code_simp

theorem books_reachable_witness:
  "\<exists>b. book_of MainPerp 0 (fst (direct_execute_order MainPerp sample_bid 9 (books_new [sample_market] [] []))) = Some b \<and>
    top_cache BidSide b = Some 7 \<and> map od_oid (queue BidSide (ab_orders b)) = [7]"
proof -
  let ?s = "books_new [sample_market] [] []"
  let ?t = "fst (direct_execute_order MainPerp sample_bid 9 ?s)"
  have i: "markets_indexed [sample_market]" "markets_indexed []" by (simp_all add: markets_indexed_def sample_market_def)
  have "books_step ?s ?t" by (rule books_step.execute) (simp add: order_fits_def sample_bid_def u64_max_def)
  then have run: "books_step\<^sup>*\<^sup>* ?s ?t" by (rule r_into_rtranclp)
  from sample_book [unfolded map_option_eq_Some]
  obtain b where b: "book_of MainPerp 0 ?t = Some b \<and> map od_oid (queue BidSide (ab_orders b)) = [7]" ..
  have "top_cache BidSide b = Some 7"
    using books_reachable [OF i(1) i(2) i(2) run conjunct1 [OF b]] conjunct2 [OF b] by (cases "queue BidSide (ab_orders b)") auto
  with b show ?thesis by (intro exI [of _ b]) (simp only: simp_thms)
qed

end
