(* ===== verification/Books_Views.thy ===== *)
theory Books_Views
  imports Books_Properties Amounts_Properties
begin

text \<open>
  What is shown of a book: reading the levels one after another is reading the queue, so the impact price is found on
  the cumulative notional of the queue and the level-two view adds up the orders of each price; prices and sizes are
  printed as exact decimal numerals.
\<close>

section \<open>Levels and queue\<close>

definition orders_at :: "asset_book \<Rightarrow> nat bset \<Rightarrow> book_order list" where
  "orders_at b oids = map (\<lambda>oid. the (map_of (ab_orders b) oid)) oids"

lemma level_entry:
  assumes "book_ok b" and "(k, l) \<in> set (levels side b)" and "oid \<in> set (bl_oids l)"
  shows "\<exists>ord. map_of (ab_orders b) oid = Some ord \<and> od_side ord = side \<and> level_key side (od_limit_px ord) = k \<and> od_oid ord = oid \<and> order_in_range ord"
proof -
  have s: "bt_wf (levels side b)" "indexes level_members (level_of side) (ab_orders b) (levels side b)"
    using book_okD(2) [OF assms(1), of side] by (simp_all add: side_ok_def levels_wf_def)
  have "map_of (levels side b) k = Some l" using bt_wf_map_of [OF s(1), of "(k, l)"] assms(2) by simp
  then have "oid \<in> level_members (levels side b) k" using assms(3) by (simp add: level_members_def entry_or_def)
  then obtain ord where "map_of (ab_orders b) oid = Some ord" "level_of side ord = Some k"
    using level_index.member_iff [OF s(2)] by blast
  then show ?thesis
    using orders_ok_entry [OF book_okD(1) [OF assms(1)]] by (auto simp: level_of_def split: if_splits)
qed

lemma keys_strictly_sorted:
  assumes "bt_wf ls" and "\<forall>e \<in> set ls. bs_wf (bl_oids (snd e))"
  shows "sorted_wrt (<) (concat (map (\<lambda>e. map (Pair (fst e)) (bl_oids (snd e))) ls))"
  using assms
proof (induction ls)
  case (Cons e ls)
  have "sorted_wrt (<) (map (Pair (fst e)) (bl_oids (snd e)))"
    using Cons.prems(2) by (simp add: bs_wf_def sorted_wrt_map)
  then show ?case using Cons by (auto simp: sorted_wrt_append bt_wf_Cons)
qed simp

lemma queue_is_levels:
  assumes ok: "book_ok b"
  shows "queue side (ab_orders b) = concat (map (\<lambda>e. orders_at b (bl_oids (snd e))) (levels side b))" (is "_ = ?flat")
proof (rule queue_eqI [OF book_okD(1) [OF ok]])
  have wf: "bt_wf (ab_orders b)" using book_okD(1) [OF ok] by (simp add: orders_ok_def)
  have lv: "bt_wf (levels side b)" "\<forall>e \<in> set (levels side b). bs_wf (bl_oids (snd e))"
    using book_okD(2) [OF ok, of side] by (auto simp: side_ok_def levels_wf_def level_ok_def)
  have p: "map (priority side) (orders_at b (bl_oids (snd e))) = map (Pair (fst e)) (bl_oids (snd e))" if "e \<in> set (levels side b)" for e
    using level_entry [OF ok, of "fst e" "snd e" side] that by (fastforce simp: orders_at_def priority_key)
  have "map (priority side) ?flat = concat (map (\<lambda>e. map (priority side) (orders_at b (bl_oids (snd e)))) (levels side b))"
    by (simp add: map_concat comp_def)
  also have "\<dots> = concat (map (\<lambda>e. map (Pair (fst e)) (bl_oids (snd e))) (levels side b))"
    using p by (metis (no_types, lifting) map_eq_conv)
  finally have keys: "sorted_wrt (<) (map (priority side) ?flat)" using keys_strictly_sorted [OF lv] by simp
  then show "sorted (map (priority side) ?flat)" by (rule strict_sorted_imp_sorted)
  have "set ?flat = set (queue side (ab_orders b))"
  proof (intro set_eqI iffI)
    fix ord assume "ord \<in> set ?flat"
    then obtain k l oid where "(k, l) \<in> set (levels side b)" "oid \<in> set (bl_oids l)" "ord = the (map_of (ab_orders b) oid)"
      by (auto simp: orders_at_def)
    with level_entry [OF ok this(1,2)] show "ord \<in> set (queue side (ab_orders b))" by (auto simp: set_queue [OF wf])
  next
    fix ord assume o: "ord \<in> set (queue side (ab_orders b))"
    then obtain i where i: "map_of (ab_orders b) i = Some ord" using set_queue [OF wf] by blast
    then have "od_oid ord = i" using orders_ok_entry [OF book_okD(1) [OF ok]] by blast
    moreover obtain l where "map_of (levels side b) (level_key side (od_limit_px ord)) = Some l" "od_oid ord \<in> set (bl_oids l)"
      using queue_key_at_level [OF book_okD(2) [OF ok] wf o book_okD(1) [OF ok]] by blast
    ultimately have "(level_key side (od_limit_px ord), l) \<in> set (levels side b)" "ord \<in> set (orders_at b (bl_oids l))"
      using i by (auto simp: orders_at_def image_iff intro!: bexI [of _ "od_oid ord"] dest: map_of_SomeD)
    then show "ord \<in> set ?flat"
      using bexI [of "\<lambda>e. ord \<in> set (orders_at b (bl_oids (snd e)))" "(level_key side (od_limit_px ord), l)"] by simp
  qed
  moreover have "distinct ?flat" using keys strict_sorted_iff distinct_map by blast
  moreover have "distinct (queue side (ab_orders b))" using queue_distinct [OF book_okD(1) [OF ok]] distinct_map by blast
  ultimately show "mset ?flat = mset (queue side (ab_orders b))" using set_eq_iff_mset_eq_distinct by blast
qed

section \<open>The impact price\<close>

definition notional :: "book_order list \<Rightarrow> nat" where
  "notional q = sum_list (map (\<lambda>ord. od_limit_px ord * od_resting_sz ord) q)"

fun impact_walk :: "nat \<Rightarrow> book_order list \<Rightarrow> nat \<Rightarrow> nat option" where
  "impact_walk target [] acc = None"
| "impact_walk target (ord # q) acc =
     (if target \<le> acc + od_limit_px ord * od_resting_sz ord then Some (od_limit_px ord)
      else impact_walk target q (acc + od_limit_px ord * od_resting_sz ord))"

lemma impact_orders_walk:
  assumes "\<forall>oid \<in> set oids. \<exists>ord. map_of (ab_orders b) oid = Some ord \<and> od_limit_px ord = px" and "target \<le> u64_max"
    and "acc < target \<or> acc = 0"
  shows "(\<exists>a. impact_orders b target px oids acc = Some (True, a) \<and> impact_walk target (orders_at b oids @ q) acc = Some px) \<or>
    impact_orders b target px oids acc = Some (False, acc + notional (orders_at b oids)) \<and>
      impact_walk target (orders_at b oids @ q) acc = impact_walk target q (acc + notional (orders_at b oids)) \<and>
      (acc + notional (orders_at b oids) < target \<or> acc + notional (orders_at b oids) = 0)"
  using assms
proof (induction oids arbitrary: acc)
  case (Cons oid oids)
  then obtain ord where ord: "map_of (ab_orders b) oid = Some ord" "od_limit_px ord = px" by auto
  have big: "target \<le> u128_max" using Cons.prems(2) by (simp add: u64_max_def u128_max_def)
  have cap: "n < target \<Longrightarrow> min n u128_max = n" for n using big by simp
  show ?case
  proof (cases "target \<le> acc + px * od_resting_sz ord")
    case True
    with ord big show ?thesis by (simp add: orders_at_def Let_def)
  next
    case False
    with Cons.IH [of "acc + px * od_resting_sz ord"] Cons.prems ord cap show ?thesis
      by (simp add: orders_at_def notional_def Let_def add.assoc)
  qed
qed (simp add: orders_at_def notional_def)

lemma impact_levels_walk:
  assumes "target \<le> u64_max" and "acc < target \<or> acc = 0"
    and "\<forall>e \<in> set ls. \<forall>oid \<in> set (bl_oids (snd e)). \<exists>ord. map_of (ab_orders b) oid = Some ord \<and> od_limit_px ord = px_from_key side (fst e)"
  shows "impact_levels b side target ls acc = impact_walk target (concat (map (\<lambda>e. orders_at b (bl_oids (snd e))) ls)) acc"
  using assms(2,3)
proof (induction ls arbitrary: acc)
  case (Cons e ls)
  obtain k l where e: "e = (k, l)" by (cases e)
  let ?n = "acc + notional (orders_at b (bl_oids l))"
  have "\<forall>oid \<in> set (bl_oids l). \<exists>ord. map_of (ab_orders b) oid = Some ord \<and> od_limit_px ord = px_from_key side k"
    using Cons.prems(2) e by auto
  from impact_orders_walk [OF this assms(1) Cons.prems(1), of "concat (map (\<lambda>e. orders_at b (bl_oids (snd e))) ls)"] show ?case
    using Cons.IH [of ?n] Cons.prems(2) e by auto
qed simp

lemma notional_simps [simp]: "notional [] = 0" "notional (ord # q) = od_limit_px ord * od_resting_sz ord + notional q"
    "notional (p @ q) = notional p + notional q"
  by (simp_all add: notional_def)

lemma impact_walk_Some:
  "impact_walk target q acc = Some px \<longleftrightarrow>
    (\<exists>pre ord post. q = pre @ ord # post \<and> od_limit_px ord = px \<and> (pre = [] \<or> acc + notional pre < target) \<and> target \<le> acc + notional (pre @ [ord]))"
proof (induction q arbitrary: acc)
  case (Cons x q)
  let ?n = "od_limit_px x * od_resting_sz x"
  have first: "(\<exists>pre ord post. x # q = pre @ ord # post \<and> P pre ord) \<longleftrightarrow> P [] x \<or> (\<exists>pre ord post. q = pre @ ord # post \<and> P (x # pre) ord)" for P
    by (auto simp: Cons_eq_append_conv)
  show ?case
  proof (cases "target \<le> acc + ?n")
    case True
    then show ?thesis unfolding first by auto
  next
    case False
    then have "(pre = [] \<or> acc + ?n + notional pre < target) \<longleftrightarrow> acc + (?n + notional pre) < target" for pre by auto
    with False show ?thesis unfolding first using Cons.IH [of "acc + ?n"] by (simp add: add.assoc)
  qed
qed simp

lemma impact_walk_None: "impact_walk target q acc = None \<longleftrightarrow> q = [] \<or> acc + notional q < target"
proof (induction q arbitrary: acc)
  case (Cons ord q)
  then show ?case using Cons.IH [of "acc + od_limit_px ord * od_resting_sz ord"] by (cases q) (simp_all add: add.assoc)
qed simp

text \<open>
  The impact price of a side is the price of the order at which the cumulative notional of the queue, best orders
  first, reaches the target; there is none exactly when the whole queue does not reach it.  The saturating sum makes no difference.
\<close>

lemma impact_px_exact:
  assumes "book_ok b" and "target \<le> u64_max"
  shows "(impact_px side target b = None \<longleftrightarrow> queue side (ab_orders b) = [] \<or> notional (queue side (ab_orders b)) < target) \<and>
    (impact_px side target b = Some px \<longleftrightarrow> (\<exists>pre ord post. queue side (ab_orders b) = pre @ ord # post \<and> od_limit_px ord = px \<and>
       (pre = [] \<or> notional pre < target) \<and> target \<le> notional (pre @ [ord])))"
proof -
  have "impact_px side target b = impact_walk target (queue side (ab_orders b)) 0"
    unfolding impact_px_def queue_is_levels [OF assms(1)]
  proof (rule impact_levels_walk [OF assms(2)])
    show "\<forall>e \<in> set (levels side b). \<forall>oid \<in> set (bl_oids (snd e)). \<exists>ord. map_of (ab_orders b) oid = Some ord \<and> od_limit_px ord = px_from_key side (fst e)"
      using level_entry [OF assms(1)] px_from_level_key unfolding order_in_range_def by (metis prod.collapse)
  qed simp
  then show ?thesis using impact_walk_Some [of target "queue side (ab_orders b)" 0 px] impact_walk_None [of target _ 0] by simp
qed

section \<open>Texts\<close>

lemma decimal_scale_pow: "d \<le> 18 \<Longrightarrow> decimal_scale d = 10 ^ d"
proof (induction d)
  case (Suc d)
  have "(10::nat) ^ Suc d \<le> 10 ^ 18" using Suc.prems by (intro power_increasing) auto
  then have "10 ^ d * 10 \<le> u64_max" by (simp add: u64_max_def mult.commute)
  with Suc show ?case by (simp add: decimal_scale_def saturating_mul_u64_def mult.commute)
qed (simp add: decimal_scale_def)

lemma count_digits_pow: "count_digits (10 ^ d) = Suc d"
proof (induction d)
  case (Suc d)
  have "(10::nat) ^ Suc d div 10 = 10 ^ d" "\<not> (10::nat) ^ Suc d < 10" by simp_all
  with Suc show ?case by (simp add: count_digits.simps [of "10 ^ Suc d"] del: power_Suc)
qed (simp add: count_digits.simps)

lemma frac_val_strip: "frac_val (strip_trailing_zeros s) = frac_val s"
proof (induction s rule: rev_induct)
  case (snoc c s)
  have "frac_val (s @ [CHR ''0'']) = frac_val s" by (induction s) (simp_all add: digit_of_def)
  with snoc show ?case by (cases "c = CHR ''0''") (simp_all add: strip_trailing_zeros_def)
qed (simp add: strip_trailing_zeros_def)

lemma strip_subset: "set (strip_trailing_zeros s) \<subseteq> set s"
  by (auto simp: strip_trailing_zeros_def dest: set_dropWhileD)

lemma format_scaled_exact: "decimal_numeral (format_scaled v (10 ^ d)) \<and> decimal_value (format_scaled v (10 ^ d)) * 10 ^ d = of_nat v"
proof (cases d)
  case 0
  have "CHR ''.'' \<notin> set (dec_text v)" using dec_text_numeral [of v] by auto
  from whole_part_only [OF this] show ?thesis
    using dec_text_numeral [of v] 0 by (simp add: format_scaled_def decimal_numeral_def decimal_value_def)
next
  case (Suc k)
  let ?w = "v div 10 ^ d" and ?r = "v mod 10 ^ d"
  let ?p = "pad_zeros d (dec_text ?r)"
  let ?f = "strip_trailing_zeros ?p"
  have fmt: "format_scaled v (10 ^ d) = (if ?f = [] then dec_text ?w else dec_text ?w @ CHR ''.'' # ?f)"
  proof -
    have "\<not> (10::nat) ^ d \<le> 1" using Suc one_less_power [of "10::nat" d] by simp
    then show ?thesis by (simp add: format_scaled_def count_digits_pow Let_def)
  qed
  note t = dec_text_numeral [of ?w]
  have dot: "CHR ''.'' \<notin> set (dec_text ?w)" using t by auto
  have "?r < 10 ^ d" by simp
  then have "length ?p = d" using dec_text_length [of ?r d] Suc by (simp add: pad_zeros_def)
  then have val: "frac_val ?f = of_nat ?r / 10 ^ d"
    using dec_text_numeral [of ?r] unfolding frac_val_strip by (simp add: frac_val_digits)
  have dig: "\<forall>c \<in> set ?f. is_digit c"
    using strip_subset [of ?p] dec_text_numeral [of ?r] by (auto simp: pad_zeros_def is_digit_def)
  have "(of_nat v :: rat) = of_nat (?w * 10 ^ d + ?r)" by (simp only: div_mult_mod_eq)
  then have v: "(of_nat v :: rat) = of_nat ?w * 10 ^ d + of_nat ?r" by (simp only: of_nat_add of_nat_mult of_nat_power of_nat_numeral)
  have "whole_part (format_scaled v (10 ^ d)) = dec_text ?w \<and> frac_part (format_scaled v (10 ^ d)) = ?f"
    unfolding fmt using whole_part_append [OF dot] whole_part_only [OF dot] by simp
  then show ?thesis
    using t dig val v by (auto simp: decimal_numeral_def decimal_value_def field_simps)
qed

section \<open>The level-two view\<close>

definition at_price :: "nat \<Rightarrow> book_order list \<Rightarrow> book_order list" where
  "at_price px q = filter (\<lambda>ord. od_limit_px ord = px) q"

definition level_view :: "asset_meta \<Rightarrow> book_order list \<Rightarrow> nat \<Rightarrow> l2_level" where
  "level_view m q px = \<lparr>l2_px = format_scaled px (am_px_scale m), l2_sz = format_scaled (min (depth (at_price px q)) u64_max) (am_sz_scale m),
     l2_n = min (length (at_price px q)) u64_max\<rparr>"

lemma remdups_adj_block: "0 < n \<Longrightarrow> ys = [] \<or> hd ys \<noteq> x \<Longrightarrow> remdups_adj (replicate n x @ ys) = x # remdups_adj ys"
proof (induction n)
  case (Suc n)
  then show ?case by (cases n; cases ys) auto
qed simp

lemma remdups_adj_blocks:
  assumes "distinct (map fst bs)" and "\<forall>e \<in> set bs. snd e \<noteq> [] \<and> (\<forall>x \<in> set (snd e). g x = fst e)"
  shows "remdups_adj (map g (concat (map snd bs))) = map fst bs \<and> (\<forall>e \<in> set bs. filter (\<lambda>x. g x = fst e) (concat (map snd bs)) = snd e)"
  using assms
proof (induction bs)
  case (Cons e bs)
  let ?rest = "concat (map snd bs)"
  have IH: "remdups_adj (map g ?rest) = map fst bs" "\<forall>e \<in> set bs. filter (\<lambda>x. g x = fst e) ?rest = snd e"
    using Cons by simp_all
  have e: "snd e \<noteq> []" "\<forall>x \<in> set (snd e). g x = fst e" "fst e \<notin> fst ` set bs" using Cons.prems by auto
  have rep: "map g (snd e) = replicate (length (snd e)) (fst e)" using e(2) by (intro replicate_eqI) auto
  have others: "g x \<noteq> fst e" if "x \<in> set ?rest" for x
  proof -
    from that obtain e' where "e' \<in> set bs" "x \<in> set (snd e')" by auto
    with Cons.prems(2) e(3) show ?thesis by (metis image_eqI list.set_intros(2))
  qed
  have "map g ?rest = [] \<or> hd (map g ?rest) \<noteq> fst e"
    using others by (cases ?rest) auto
  then have "remdups_adj (map g (snd e) @ map g ?rest) = fst e # map fst bs"
    unfolding rep using remdups_adj_block [of "length (snd e)" "map g ?rest" "fst e"] e(1) IH(1) by simp
  moreover have "filter (\<lambda>x. g x = fst e) ?rest = []" "filter (\<lambda>x. g x = fst e) (snd e) = snd e"
    using others e(2) by (auto simp: filter_empty_conv filter_id_conv)
  moreover have "filter (\<lambda>x. g x = fst e') (snd e) = []" if "e' \<in> set bs" for e'
    using e(2,3) that by (force simp: filter_empty_conv)
  ultimately show ?case using IH(2) by simp
qed simp

lemma level_size_orders:
  assumes "\<forall>oid \<in> set oids. map_of (ab_orders b) oid \<noteq> None"
  shows "level_size b oids = (min (depth (orders_at b oids)) u64_max, min (length oids) u64_max)"
proof -
  have "fold (\<lambda>oid (sz, n). case map_of (ab_orders b) oid of
        Some ord \<Rightarrow> (saturating_add_u64 sz (od_resting_sz ord), saturating_add_u64 n 1) | None \<Rightarrow> (sz, n)) oids (min a u64_max, min c u64_max) =
      (min (a + depth (orders_at b oids)) u64_max, min (c + length oids) u64_max)" for a c
    using assms
  proof (induction oids arbitrary: a c)
    case (Cons oid oids)
    then obtain ord where ord: "map_of (ab_orders b) oid = Some ord" by auto
    have "saturating_add_u64 (min a u64_max) n = min (a + n) u64_max" for a n by (simp add: saturating_add_min)
    with Cons.IH [of "a + od_resting_sz ord" "c + 1"] Cons.prems ord show ?case by (simp add: orders_at_def depth_def add.assoc)
  qed (simp add: orders_at_def depth_def)
  from this [of 0 0] show ?thesis by (simp add: level_size_def)
qed

text \<open>C35.  The level-two view of a side shows its prices in order of priority, each with the total size and the number of the
  orders resting at it, and stops at the requested number of levels; no level is empty.
\<close>

theorem l2_levels_exact:
  assumes ok: "book_ok b"
  shows "l2_levels side n b =
    map (level_view (ab_meta b) (queue side (ab_orders b))) (take n (remdups_adj (map od_limit_px (queue side (ab_orders b)))))"
proof -
  define bs where "bs = map (\<lambda>e. (px_from_key side (fst e), orders_at b (bl_oids (snd e)))) (levels side b)"
  have lv: "levels_wf (levels side b)" using book_okD(2) [OF ok, of side] by (simp add: side_ok_def)
  have entry: "\<exists>ord. map_of (ab_orders b) oid = Some ord \<and> fst e = level_key side (od_limit_px ord) \<and> od_limit_px ord = px_from_key side (fst e)"
    if "e \<in> set (levels side b)" "oid \<in> set (bl_oids (snd e))" for e oid
    using level_entry [OF ok, of "fst e" "snd e" side oid] that px_from_level_key unfolding order_in_range_def by (metis prod.collapse)
  have q: "queue side (ab_orders b) = concat (map snd bs)" unfolding bs_def by (simp add: queue_is_levels [OF ok] comp_def)
  have ne: "bl_oids (snd e) \<noteq> []" if "e \<in> set (levels side b)" for e using lv that by (auto simp: levels_wf_def level_ok_def)
  have key: "fst e = level_key side (px_from_key side (fst e))" if "e \<in> set (levels side b)" for e
    using entry [OF that hd_in_set [OF ne [OF that]]] by metis
  have keys: "distinct (levels side b)" "inj_on fst (set (levels side b))"
    using lv bt_wf_distinct [of "levels side b"] by (simp_all add: levels_wf_def distinct_map)
  have "inj_on (\<lambda>e. px_from_key side (fst e)) (set (levels side b))"
  proof (rule inj_onI)
    fix x y assume xy: "x \<in> set (levels side b)" "y \<in> set (levels side b)" "px_from_key side (fst x) = px_from_key side (fst y)"
    have "fst x = fst y" using key [OF xy(1)] key [OF xy(2)] xy(3) by metis
    then show "x = y" by (rule inj_onD [OF keys(2)]) (use xy in simp_all)
  qed
  with keys(1) have d: "distinct (map fst bs)" by (simp add: bs_def comp_def distinct_map)
  have blocks: "\<forall>e \<in> set bs. snd e \<noteq> [] \<and> (\<forall>x \<in> set (snd e). od_limit_px x = fst e)"
    using entry ne by (fastforce simp: bs_def orders_at_def)
  note r = remdups_adj_blocks [of bs od_limit_px, OF d blocks]
  have one: "(case level_size b (bl_oids (snd e)) of (sz, m) \<Rightarrow>
       if m \<noteq> 0 then [\<lparr>l2_px = format_scaled (px_from_key side (fst e)) (am_px_scale (ab_meta b)), l2_sz = format_scaled sz (am_sz_scale (ab_meta b)), l2_n = m\<rparr>] else []) =
      [level_view (ab_meta b) (queue side (ab_orders b)) (px_from_key side (fst e))]" if e: "e \<in> set (levels side b)" for e
  proof -
    have "at_price (px_from_key side (fst e)) (queue side (ab_orders b)) = orders_at b (bl_oids (snd e))"
      using r e unfolding at_price_def q by (simp add: bs_def)
    moreover have "level_size b (bl_oids (snd e)) = (min (depth (orders_at b (bl_oids (snd e)))) u64_max, min (length (bl_oids (snd e))) u64_max)"
      using entry [OF e] by (intro level_size_orders) auto
    ultimately show ?thesis using ne [OF e] by (simp add: level_view_def orders_at_def u64_max_def)
  qed
  have "l2_levels side n b = concat (map (\<lambda>e. [level_view (ab_meta b) (queue side (ab_orders b)) (px_from_key side (fst e))]) (take n (levels side b)))"
    unfolding l2_levels_def
    by (intro arg_cong [of _ _ concat] map_cong refl) (simp only: case_prod_unfold one [unfolded case_prod_unfold, OF in_set_takeD])
  also have "\<dots> = map (level_view (ab_meta b) (queue side (ab_orders b))) (take n (map fst bs))"
    by (simp add: bs_def take_map)
  finally show ?thesis using r unfolding q by simp
qed

theorem l2_levels_exact_witness: "length (l2_levels AskSide 5 sample_asks) = 2"
proof -
  have "map od_limit_px (queue AskSide (ab_orders sample_asks)) = [5, 6]" by code_simp
  then show ?thesis unfolding l2_levels_exact [OF sample_asks_ok] by simp
qed

end
