(* ===== verification/Vault.thy ===== *)
theory Vault
  imports Float64 Token_Ledger
begin

text \<open>
  Vaults, \<^verbatim>\<open>src/l1/vault/mod.rs\<close>: participants own shares of the value of an account and of its child accounts, as doubles.
  Deposits, withdrawals and distributions move amounts of a ledger and rewrite the shares.  The ledger is a trait without an
  implementation in the sources, so its operations are a parameter: a record of functions over its state.
\<close>

section \<open>Data\<close>

type_synonym raw_ntl = int

definition RAW_NTL_SCALE_F64 :: f64 where "RAW_NTL_SCALE_F64 = Fin 1000000"

definition MIN_LEADER_EQUITY_NTL :: raw_ntl where "MIN_LEADER_EQUITY_NTL = 100000000"

definition MIN_DISTRIBUTION_NTL :: nat where "MIN_DISTRIBUTION_NTL = 10000000"

definition MIN_TOTAL_FRACTION_DENOMINATOR :: f64 where "MIN_TOTAL_FRACTION_DENOMINATOR = f64_round (1 / 10 ^ 15)"

definition MIN_PARTICIPANT_EQUITY_USD :: f64 where "MIN_PARTICIPANT_EQUITY_USD = f64_round (1 / 10 ^ 7)"

definition MIN_WITHDRAW_FRACTION :: f64 where "MIN_WITHDRAW_FRACTION = f64_round (1 / 10 ^ 8)"

definition LEADER_FRACTION :: f64 where "LEADER_FRACTION = f64_round (5 / 100)"

definition LEADER_MIN_EQUITY_DIVISOR :: f64 where "LEADER_MIN_EQUITY_DIVISOR = Fin 19"

record update_id =
  ui_unix_seconds :: int
  ui_nanos :: nat

record vault_equity_record =
  ve_share :: f64
  ve_deposited_ntl :: nat
  ve_net_ntl :: raw_ntl
  ve_last_update_id :: update_id

definition equity_default :: vault_equity_record where
  "equity_default = \<lparr>ve_share = Fin 0, ve_deposited_ntl = 0, ve_net_ntl = 0, ve_last_update_id = \<lparr>ui_unix_seconds = 0, ui_nanos = 0\<rparr>\<rparr>"

definition with_update_id :: "update_id \<Rightarrow> vault_equity_record" where
  "with_update_id u = equity_default\<lparr>ve_last_update_id := u\<rparr>"

definition is_effectively_empty :: "vault_equity_record \<Rightarrow> bool" where
  "is_effectively_empty r \<longleftrightarrow> f64_lt (ve_share r) MIN_TOTAL_FRACTION_DENOMINATOR \<and> ve_deposited_ntl r = 0 \<and> ve_net_ntl r = 0"

record vault_state =
  va_version :: nat
  va_child_vault_addresses :: "address bset"
  va_equity_records :: "(address, vault_equity_record) btree"
  va_distribution_fee_fraction :: f64
  va_deposit_lockup_secs :: f64
  va_vault_address :: address
  va_leader_address :: address
  va_closed :: bool
  va_deposits_disabled :: bool
  va_always_close_on_withdraw :: bool

datatype vault_error =
  NegativeAggregateRequiresPrivilegedVault | TransferZeroTotal | ParticipantNotFound | WithdrawLockup | WithdrawTooMuch
| InvalidWithdrawFraction | LeaderFraction | LeaderValueTooSmall | DistributionAboveLeaderExcess | DistributionBelowMinimum
| DistributionMustEqualWithdrawable | DepositFromWrongAccount | DepositsDisabledForLeader | InsufficientUserBalance
| InsufficientVaultBalance | TransferWouldBreakMinimum

definition vault_error_code :: "vault_error \<Rightarrow> nat" where
  "vault_error_code e = (case e of
      NegativeAggregateRequiresPrivilegedVault \<Rightarrow> 9 | TransferZeroTotal \<Rightarrow> 10 | ParticipantNotFound \<Rightarrow> 11 | WithdrawLockup \<Rightarrow> 12
    | WithdrawTooMuch \<Rightarrow> 13 | InvalidWithdrawFraction \<Rightarrow> 14 | LeaderFraction \<Rightarrow> 15 | LeaderValueTooSmall \<Rightarrow> 16
    | DistributionAboveLeaderExcess \<Rightarrow> 18 | DistributionBelowMinimum \<Rightarrow> 19 | DistributionMustEqualWithdrawable \<Rightarrow> 20
    | DepositFromWrongAccount \<Rightarrow> 22 | DepositsDisabledForLeader \<Rightarrow> 23 | InsufficientUserBalance \<Rightarrow> 44
    | InsufficientVaultBalance \<Rightarrow> 51 | TransferWouldBreakMinimum \<Rightarrow> 272)"

text \<open>The two traits of a ledger; \<open>debit\<close> reports whether it happened.\<close>

record 'l vault_ledger =
  account_total_ntl :: "'l \<Rightarrow> address \<Rightarrow> raw_ntl"
  positive_margin_ntl :: "'l \<Rightarrow> address \<Rightarrow> raw_ntl"
  debit :: "address \<Rightarrow> raw_ntl \<Rightarrow> 'l \<Rightarrow> 'l \<times> bool"
  credit :: "address \<Rightarrow> raw_ntl \<Rightarrow> 'l \<Rightarrow> 'l"

record transfer_validation =
  tv_requires_liquidation_check :: bool
  tv_effective_fraction :: f64
  tv_raw_delta_ntl :: raw_ntl

record deposit_receipt =
  dr_vault_address :: address
  dr_share_fraction :: f64

record leader_settlement =
  ls_fee_ntl :: raw_ntl
  ls_leader_address :: address

record withdraw_receipt =
  wr_requested_ntl :: raw_ntl
  wr_fee_ntl :: raw_ntl
  wr_remaining_user_ntl :: raw_ntl
  wr_paid_from_vault_ntl :: raw_ntl
  wr_principal_return_ntl :: raw_ntl
  wr_participant :: address
  wr_leader_followup :: "leader_settlement option"

section \<open>Conversions\<close>

definition raw_ntl_to_f64 :: "raw_ntl \<Rightarrow> f64" where
  "raw_ntl_to_f64 value = f64_div (f64_of_i64 value) RAW_NTL_SCALE_F64"

definition trunc_saturating_i64 :: "f64 \<Rightarrow> raw_ntl" where
  "trunc_saturating_i64 value =
     (if \<not> f64_is_finite value then 0
      else if f64_lt (f64_of_i64 i64_max) value then i64_max
      else if f64_lt value (f64_of_i64 i64_min) then i64_min
      else f64_as_i64 value)"

definition update_before_lockup :: "update_id \<Rightarrow> update_id \<Rightarrow> f64 \<Rightarrow> bool" where
  "update_before_lockup last_id now lockup_secs =
     (let locked_until = f64_add (f64_of_i64 (ui_unix_seconds last_id)) lockup_secs;
          now_seconds = f64_add (f64_of_i64 (ui_unix_seconds now)) (f64_div (f64_of_u64 (ui_nanos now)) (Fin 1000000000))
      in f64_lt now_seconds locked_until)"

definition as_capped_i64 :: "nat \<Rightarrow> raw_ntl" where
  "as_capped_i64 n = min (int n) i64_max"

section \<open>Value and entitlements\<close>

definition is_v2_or_later :: "vault_state \<Rightarrow> bool" where
  "is_v2_or_later v \<longleftrightarrow> 2 \<le> va_version v"

definition total_vault_ntl :: "'l vault_ledger \<Rightarrow> 'l \<Rightarrow> vault_state \<Rightarrow> raw_ntl" where
  "total_vault_ntl L l v =
     (let own = account_total_ntl L l (va_vault_address v) in
      if is_v2_or_later v then fold (\<lambda>child t. saturating_add_i64 t (account_total_ntl L l child)) (va_child_vault_addresses v) own
      else own)"

definition participant_equity_ntl :: "'l vault_ledger \<Rightarrow> 'l \<Rightarrow> address \<Rightarrow> vault_state \<Rightarrow> raw_ntl" where
  "participant_equity_ntl L l participant v = (case map_of (va_equity_records v) participant of
      None \<Rightarrow> 0
    | Some r \<Rightarrow> max (trunc_saturating_i64 (f64_mul (ve_share r) (f64_of_i64 (total_vault_ntl L l v)))) 0)"

definition max_withdrawable_ntl_for_depositor :: "'l vault_ledger \<Rightarrow> 'l \<Rightarrow> address \<Rightarrow> vault_state \<Rightarrow> raw_ntl" where
  "max_withdrawable_ntl_for_depositor L l depositor v =
     (let t = total_vault_ntl L l v in
      if t \<le> 0 then 0
      else case map_of (va_equity_records v) depositor of
        None \<Rightarrow> 0
      | Some r \<Rightarrow>
          (let gross = trunc_saturating_i64 (f64_mul (f64_of_i64 t) (ve_share r));
               entitlement =
                 (if depositor = va_leader_address v then
                    (let other_equity = saturating_sub_i64 t gross;
                         leader_floor = max (trunc_saturating_i64 (f64_div (f64_of_i64 other_equity) LEADER_MIN_EQUITY_DIVISOR)) MIN_LEADER_EQUITY_NTL
                     in saturating_sub_i64 gross leader_floor)
                  else gross)
           in min (max entitlement 0) (max (account_total_ntl L l (va_vault_address v)) 0)))"

definition leader_excess_withdrawable_ntl :: "'l vault_ledger \<Rightarrow> 'l \<Rightarrow> vault_state \<Rightarrow> raw_ntl" where
  "leader_excess_withdrawable_ntl L l v = (case map_of (va_equity_records v) (va_leader_address v) of
      None \<Rightarrow> 0
    | Some r \<Rightarrow>
        if f64_lt (ve_share r) MIN_TOTAL_FRACTION_DENOMINATOR then 0
        else
          (let threshold = trunc_saturating_i64 (f64_mul (f64_div (Fin 100) (ve_share r)) RAW_NTL_SCALE_F64) in
           if threshold < 0 then 0
           else min (max (saturating_sub_i64 (total_vault_ntl L l v) threshold) 0) (max (positive_margin_ntl L l (va_vault_address v)) 0)))"

section \<open>Rewriting the shares\<close>

definition new_share :: "f64 \<Rightarrow> f64 \<Rightarrow> f64" where
  "new_share denominator equity =
     (if f64_le MIN_TOTAL_FRACTION_DENOMINATOR denominator \<and> f64_le MIN_PARTICIPANT_EQUITY_USD equity then f64_div equity denominator else Fin 0)"

definition put_share :: "update_id \<Rightarrow> f64 \<Rightarrow> address \<times> f64 \<Rightarrow> (address, vault_equity_record) btree \<Rightarrow> (address, vault_equity_record) btree" where
  "put_share u denominator e records =
     bt_insert (fst e) ((entry_or (with_update_id u) records (fst e))\<lparr>ve_share := new_share denominator (snd e), ve_last_update_id := u\<rparr>) records"

definition update_equity_distribution ::
  "'l vault_ledger \<Rightarrow> 'l \<Rightarrow> address \<Rightarrow> raw_ntl \<Rightarrow> raw_ntl \<Rightarrow> update_id \<Rightarrow> vault_state \<Rightarrow> vault_state" where
  "update_equity_distribution L l participant participant_delta_ntl old_total_ntl u v =
     (let new_total_ntl = saturating_add_i64 old_total_ntl participant_delta_ntl;
          denominator = raw_ntl_to_f64 (max new_total_ntl 0);
          base_total = (if 0 < participant_delta_ntl then total_vault_ntl L l v else old_total_ntl);
          equities = map (\<lambda>(a, r). (a, f64_mul (raw_ntl_to_f64 base_total) (ve_share r))) (va_equity_records v);
          equities' = bt_insert participant (f64_add (entry_or (Fin 0) equities participant) (raw_ntl_to_f64 participant_delta_ntl)) equities
      in v\<lparr>va_equity_records := fold (put_share u denominator) equities' (va_equity_records v)\<rparr>)"

section \<open>Validation of a transfer\<close>

definition check_leader :: "vault_state \<Rightarrow> address \<Rightarrow> vault_equity_record \<Rightarrow> f64 \<Rightarrow> raw_ntl \<Rightarrow> vault_error option" where
  "check_leader v participant r fraction t =
     (if participant \<noteq> va_leader_address v then None
      else if f64_lt (f64_add (f64_sub (ve_share r) fraction) MIN_WITHDRAW_FRACTION) (f64_mul (f64_sub (Fin 1) fraction) LEADER_FRACTION)
      then Some LeaderFraction
      else if trunc_saturating_i64 (f64_mul (f64_sub (ve_share r) fraction) (f64_of_i64 t)) < MIN_LEADER_EQUITY_NTL then Some LeaderValueTooSmall
      else None)"

definition validate_vault_transfer ::
  "'l vault_ledger \<Rightarrow> 'l \<Rightarrow> address \<Rightarrow> bool \<Rightarrow> nat \<Rightarrow> update_id \<Rightarrow> raw_ntl \<Rightarrow> vault_state \<Rightarrow> vault_error + transfer_validation" where
  "validate_vault_transfer L l participant is_deposit requested_ntl now minimum_remaining_ntl v =
     (let t = total_vault_ntl L l v in
      if t \<le> 0 then Inl TransferZeroTotal
      else case map_of (va_equity_records v) participant of
        None \<Rightarrow> Inl ParticipantNotFound
      | Some r \<Rightarrow>
          if is_v2_or_later v \<and> update_before_lockup (ve_last_update_id r) now (va_deposit_lockup_secs v) then Inl WithdrawLockup
          else
            (let liquidity_cap = max_withdrawable_ntl_for_depositor L l participant v;
                 amount_for_fraction = (if is_deposit then as_capped_i64 requested_ntl else liquidity_cap);
                 total_usd = raw_ntl_to_f64 t;
                 fraction = f64_div (raw_ntl_to_f64 amount_for_fraction) total_usd in
             if f64_lt total_usd MIN_TOTAL_FRACTION_DENOMINATOR then Inl InvalidWithdrawFraction
             else if \<not> (f64_le MIN_WITHDRAW_FRACTION fraction \<and> f64_le fraction (ve_share r)) then Inl InvalidWithdrawFraction
             else if liquidity_cap < amount_for_fraction then Inl WithdrawTooMuch
             else case check_leader v participant r fraction t of
               Some e \<Rightarrow> Inl e
             | None \<Rightarrow>
                 (let raw_delta_ntl = trunc_saturating_i64 (f64_mul (f64_of_i64 t) fraction);
                      requires = \<not> is_deposit \<and> is_v2_or_later v \<and>
                        (account_total_ntl L l (va_vault_address v) < raw_delta_ntl \<or> va_always_close_on_withdraw v) in
                  if \<not> is_deposit \<and> saturating_sub_i64 t raw_delta_ntl < minimum_remaining_ntl then Inl TransferWouldBreakMinimum
                  else Inr \<lparr>tv_requires_liquidation_check = requires,
                            tv_effective_fraction = (if requires then f64_max fraction (f64_round (2 / 10)) else fraction),
                            tv_raw_delta_ntl = raw_delta_ntl\<rparr>)))"

section \<open>Deposit\<close>

definition book_deposit :: "update_id \<Rightarrow> raw_ntl \<Rightarrow> vault_equity_record \<Rightarrow> vault_equity_record" where
  "book_deposit u deposit_ntl r = r\<lparr>ve_deposited_ntl := saturating_add_u64 (ve_deposited_ntl r) (nat (max deposit_ntl 0)),
     ve_net_ntl := saturating_add_i64 (ve_net_ntl r) deposit_ntl, ve_last_update_id := u\<rparr>"

definition apply_vault_deposit ::
  "'l vault_ledger \<Rightarrow> address \<Rightarrow> raw_ntl \<Rightarrow> update_id \<Rightarrow> bool \<Rightarrow> 'l \<times> vault_state \<Rightarrow> ('l \<times> vault_state) \<times> (vault_error + deposit_receipt)" where
  "apply_vault_deposit L participant deposit_ntl u privileged s = (case s of (l, v) \<Rightarrow>
     if total_vault_ntl L l v < 0 \<and> \<not> privileged then (s, Inl NegativeAggregateRequiresPrivilegedVault)
     else if va_version v = 1 \<and> participant \<noteq> va_vault_address v then (s, Inl DepositFromWrongAccount)
     else if \<not> va_deposits_disabled v \<and> participant = va_vault_address v then (s, Inl DepositsDisabledForLeader)
     else if deposit_ntl < 0 then (s, Inl InsufficientUserBalance)
     else (case debit L participant deposit_ntl l of
        (l1, False) \<Rightarrow> ((l1, v), Inl InsufficientUserBalance)
      | (l1, True) \<Rightarrow>
          (let l2 = credit L (va_vault_address v) deposit_ntl l1;
               old_total = saturating_sub_i64 (total_vault_ntl L l2 v) deposit_ntl;
               v1 = update_equity_distribution L l2 participant deposit_ntl old_total u v;
               r = book_deposit u deposit_ntl (entry_or equity_default (va_equity_records v1) participant);
               v2 = v1\<lparr>va_equity_records := bt_insert participant r (va_equity_records v1)\<rparr>
           in ((l2, v2), Inr \<lparr>dr_vault_address = va_vault_address v2, dr_share_fraction = ve_share r\<rparr>))))"

section \<open>Withdrawal\<close>

definition book_withdrawal :: "update_id \<Rightarrow> raw_ntl \<Rightarrow> raw_ntl \<Rightarrow> vault_equity_record \<Rightarrow> vault_equity_record" where
  "book_withdrawal u participant_available paid r =
     r\<lparr>ve_deposited_ntl := saturating_sub_u64 (ve_deposited_ntl r) (nat participant_available),
       ve_net_ntl := saturating_sub_i64 (ve_net_ntl r) paid, ve_last_update_id := u\<rparr>"

definition apply_vault_withdraw ::
  "'l vault_ledger \<Rightarrow> address \<Rightarrow> raw_ntl \<Rightarrow> update_id \<Rightarrow> f64 \<Rightarrow> 'l \<times> vault_state \<Rightarrow> ('l \<times> vault_state) \<times> (vault_error + withdraw_receipt)" where
  "apply_vault_withdraw L participant requested_ntl u requested_fraction s = (case s of (l, v) \<Rightarrow>
     (let old_total = total_vault_ntl L l v in
      case map_of (va_equity_records v) participant of
        None \<Rightarrow> (s, Inl ParticipantNotFound)
      | Some r \<Rightarrow>
          if i64_max < int (ve_deposited_ntl r) then (s, Inl InvalidWithdrawFraction)
          else if f64_lt (ve_share r) MIN_TOTAL_FRACTION_DENOMINATOR then (s, Inl InvalidWithdrawFraction)
          else
            (let account_available = max (account_total_ntl L l (va_vault_address v)) 0;
                 raw_requested_from_fraction = trunc_saturating_i64 (f64_mul requested_fraction (f64_of_i64 old_total));
                 paid = max (min (min requested_ntl account_available) raw_requested_from_fraction) 0 in
             if paid \<le> 0 then (s, Inl WithdrawTooMuch)
             else case debit L (va_vault_address v) paid l of
               (l1, False) \<Rightarrow> ((l1, v), Inl InsufficientVaultBalance)
             | (l1, True) \<Rightarrow>
                 (let participant_available = max (trunc_saturating_i64
                        (f64_div (f64_mul (f64_of_u64 (ve_deposited_ntl r)) requested_fraction) (ve_share r))) 0;
                      fee_ntl = max (trunc_saturating_i64
                        (f64_mul (f64_of_i64 (saturating_sub_i64 paid participant_available)) (va_distribution_fee_fraction v))) 0;
                      principal_return = max (saturating_sub_i64 paid fee_ntl) 0;
                      l2 = credit L participant principal_return l1;
                      l3 = (if 0 < fee_ntl then credit L (va_leader_address v) fee_ntl l2 else l2);
                      v1 = update_equity_distribution L l3 participant (- paid) old_total u v;
                      v2 = (case map_of (va_equity_records v1) participant of
                          None \<Rightarrow> v1
                        | Some cur \<Rightarrow> v1\<lparr>va_equity_records := bt_insert participant (book_withdrawal u participant_available paid cur) (va_equity_records v1)\<rparr>)
                  in ((l3, v2), Inr
                    \<lparr>wr_requested_ntl = requested_ntl, wr_fee_ntl = fee_ntl, wr_remaining_user_ntl = saturating_sub_i64 requested_ntl paid,
                     wr_paid_from_vault_ntl = paid, wr_principal_return_ntl = principal_return, wr_participant = participant,
                     wr_leader_followup = (if 0 < fee_ntl then Some \<lparr>ls_fee_ntl = fee_ntl, ls_leader_address = va_leader_address v2\<rparr> else None)\<rparr>)))))"

section \<open>Distribution\<close>

definition distribution_amount :: "'l vault_ledger \<Rightarrow> 'l \<Rightarrow> bool \<Rightarrow> nat \<Rightarrow> vault_state \<Rightarrow> vault_error + raw_ntl" where
  "distribution_amount L l leader_excess_mode requested_ntl v =
     (if leader_excess_mode then
        if requested_ntl < MIN_DISTRIBUTION_NTL then Inl DistributionBelowMinimum
        else if leader_excess_withdrawable_ntl L l v < as_capped_i64 requested_ntl then Inl DistributionAboveLeaderExcess
        else Inr (as_capped_i64 requested_ntl)
      else let cap = max_withdrawable_ntl_for_depositor L l (va_vault_address v) v in
        if as_capped_i64 requested_ntl \<noteq> cap then Inl DistributionMustEqualWithdrawable else Inr cap)"

definition distribution_fee :: "vault_state \<Rightarrow> f64 \<Rightarrow> address \<Rightarrow> vault_equity_record \<Rightarrow> raw_ntl" where
  "distribution_fee v total_f a r =
     (if a = va_leader_address v then 0
      else let gross = max (trunc_saturating_i64 (f64_mul (ve_share r) total_f)) 0;
               principal = int (min (ve_deposited_ntl r) (nat gross));
               profit = max (saturating_sub_i64 gross principal) 0
        in max (trunc_saturating_i64 (f64_mul (f64_of_i64 profit) (va_distribution_fee_fraction v))) 0)"

definition participant_amount :: "vault_state \<Rightarrow> f64 \<Rightarrow> raw_ntl \<Rightarrow> address \<Rightarrow> vault_equity_record \<Rightarrow> raw_ntl" where
  "participant_amount v total_f amount a r =
     max (saturating_sub_i64 (max (trunc_saturating_i64 (f64_mul (ve_share r) (f64_of_i64 amount))) 0) (distribution_fee v total_f a r)) 0"

text \<open>One round of the loop: the ledger, the rows written so far, what was distributed and its sum.\<close>

type_synonym 'l distribution = "'l \<times> (address, vault_equity_record) btree \<times> (address, raw_ntl) btree \<times> raw_ntl"

definition distribute_one ::
  "'l vault_ledger \<Rightarrow> vault_state \<Rightarrow> f64 \<Rightarrow> raw_ntl \<Rightarrow> update_id \<Rightarrow> address \<times> vault_equity_record \<Rightarrow> 'l distribution \<Rightarrow> 'l distribution" where
  "distribute_one L v total_f amount u e s = (case (e, s) of ((a, r), (l, rows, distributed, distributed_sum)) \<Rightarrow>
     if f64_lt (ve_share r) MIN_TOTAL_FRACTION_DENOMINATOR then (l, rows @ [(a, r)], distributed, distributed_sum)
     else
       (let fee = distribution_fee v total_f a r; amt = participant_amount v total_f amount a r in
        if amt = 0 then (l, rows @ [(a, r)], distributed, distributed_sum)
        else
          (let l1 = credit L a amt l;
               l2 = (if 0 < fee then credit L (va_leader_address v) fee l1 else l1)
           in (l2, rows @ [(a, r\<lparr>ve_net_ntl := saturating_add_i64 (ve_net_ntl r) amt, ve_last_update_id := u\<rparr>)],
               bt_insert a amt distributed, saturating_add_i64 distributed_sum amt))))"

definition apply_distribution ::
  "'l vault_ledger \<Rightarrow> bool \<Rightarrow> nat \<Rightarrow> update_id \<Rightarrow> 'l \<times> vault_state \<Rightarrow> ('l \<times> vault_state) \<times> (vault_error + (address, raw_ntl) btree)" where
  "apply_distribution L leader_excess_mode requested_ntl u s = (case s of (l, v) \<Rightarrow>
     (let t = total_vault_ntl L l v in
      case distribution_amount L l leader_excess_mode requested_ntl v of
        Inl e \<Rightarrow> (s, Inl e)
      | Inr amount \<Rightarrow>
          if t \<le> 0 \<or> amount \<le> 0 then (s, Inl DistributionAboveLeaderExcess)
          else if max (account_total_ntl L l (va_vault_address v)) 0 < amount then (s, Inl InsufficientVaultBalance)
          else (case debit L (va_vault_address v) amount l of
             (l1, False) \<Rightarrow> ((l1, v), Inl InsufficientVaultBalance)
           | (l1, True) \<Rightarrow>
               (case fold (distribute_one L v (f64_of_i64 t) amount u) (va_equity_records v) (l1, [], [], 0) of
                  (l2, rows, distributed, distributed_sum) \<Rightarrow>
                    (let residual = saturating_sub_i64 amount distributed_sum;
                         leader = va_leader_address v;
                         l3 = (if 0 < residual then credit L leader residual l2 else l2);
                         distributed' = (if 0 < residual then
                           bt_insert leader (case map_of distributed leader of None \<Rightarrow> residual | Some x \<Rightarrow> saturating_add_i64 x residual) distributed
                           else distributed);
                         v1 = v\<lparr>va_equity_records := rows\<rparr>;
                         v2 = (if total_vault_ntl L l3 v1 = 0 then v1\<lparr>va_closed := True\<rparr> else v1)
                     in ((l3, v2), Inr distributed'))))))"

end
