(* ===== verification/Vault_Properties.thy ===== *)
theory Vault_Properties
  imports Vault
begin

text \<open>
  What vaults do with money.  The ledger is any that keeps the books: a credit raises one account, a debit that happened
  lowers one, and a refused debit changes nothing.  Deposits and withdrawals then conserve the funds of all accounts together;
  a distribution creates them.
\<close>

section \<open>Lawful ledgers\<close>

definition lawful :: "'l vault_ledger \<Rightarrow> ('l \<Rightarrow> address \<Rightarrow> int) \<Rightarrow> bool" where
  "lawful L bal \<longleftrightarrow>
     (\<forall>a n l b. bal (credit L a n l) b = bal l b + (if b = a then n else 0)) \<and>
     (\<forall>a n l l1 ok b. debit L a n l = (l1, ok) \<longrightarrow> bal l1 b = bal l b - (if ok \<and> b = a then n else 0))"

definition funds :: "('l \<Rightarrow> address \<Rightarrow> int) \<Rightarrow> 'l \<Rightarrow> int" where
  "funds bal l = (\<Sum>a \<in> UNIV. bal l a)"

lemma balance_credit: "lawful L bal \<Longrightarrow> bal (credit L a n l) b = bal l b + (if b = a then n else 0)"
  by (simp add: lawful_def)

lemma balance_debit: "lawful L bal \<Longrightarrow> debit L a n l = (l1, ok) \<Longrightarrow> bal l1 b = bal l b - (if ok \<and> b = a then n else 0)"
  unfolding lawful_def by (elim conjE allE impE) assumption+

lemma funds_credit: "lawful L bal \<Longrightarrow> funds bal (credit L a n l) = funds bal l + n"
  by (simp add: balance_credit funds_def sum.distrib)

lemma funds_debit: "lawful L bal \<Longrightarrow> debit L a n l = (l1, ok) \<Longrightarrow> funds bal l1 = funds bal l - (if ok then n else 0)"
  by (cases ok) (simp_all add: balance_debit [of L bal a n l l1 ok] funds_def sum_subtractf)

section \<open>Truncation\<close>

lemma clamp_i64_range: "i64_min \<le> clamp_i64 x \<and> clamp_i64 x \<le> i64_max"
  by (simp add: clamp_i64_def i64_min_def i64_max_def min_def max_def)

lemma trunc_range: "i64_min \<le> trunc_saturating_i64 x \<and> trunc_saturating_i64 x \<le> i64_max"
  using clamp_i64_range by (auto simp: trunc_saturating_i64_def f64_as_i64_def i64_min_def i64_max_def split: f64.split)

lemma f64_i64_max: "f64_of_i64 i64_max = Fin (2 ^ 63)"
proof -
  have "ilog2 (nat i64_max) = 62" by (simp add: i64_max_def ilog2.simps)
  then have "exponent (of_int i64_max) = 62" by (simp add: exponent_def i64_max_def)
  then have "ulp (of_int i64_max) = 2 ^ 10" by (simp add: ulp_def)
  then show ?thesis by (simp add: f64_of_i64_def f64_round_def round_pos_def i64_max_def round_even_def Let_def)
qed

lemma trunc_at_most:
  assumes "r \<le> of_int n" and "0 \<le> n" and "n \<le> i64_max"
  shows "trunc_saturating_i64 (Fin r) \<le> n"
proof -
  have "(of_int n :: rat) \<le> of_int i64_max" using assms(3) by (simp only: of_int_le_iff)
  then have "r < 2 ^ 63" using assms(1) by (simp add: i64_max_def)
  moreover have "clamp_i64 (if 0 \<le> r then \<lfloor>r\<rfloor> else \<lceil>r\<rceil>) \<le> n"
  proof -
    have "(if 0 \<le> r then \<lfloor>r\<rfloor> else \<lceil>r\<rceil>) \<le> n"
      using assms(1,2) by (auto simp: floor_le_iff ceiling_le_iff)
    then have "clamp_i64 (if 0 \<le> r then \<lfloor>r\<rfloor> else \<lceil>r\<rceil>) \<le> clamp_i64 n" by (rule clamp_i64_mono)
    also have "clamp_i64 n = n" using assms(2,3) by (intro clamp_i64_id) (simp add: in_i64_def i64_min_def)
    finally show ?thesis .
  qed
  ultimately show ?thesis
    using assms(2) by (auto simp: trunc_saturating_i64_def f64_i64_max f64_lt_def f64_as_i64_def f64_is_finite_def i64_min_def)
qed

lemma f64_of_i64_exact: "0 \<le> x \<Longrightarrow> x < 2 ^ 53 \<Longrightarrow> f64_of_i64 x = Fin (of_int x)"
  using f64_of_u64_exact [of "nat x"] by (simp add: f64_of_i64_def f64_of_u64_def nat_less_iff)

lemma f64_round_sign: "x \<le> 0 \<Longrightarrow> f64_round x = Inf_neg \<or> (\<exists>r \<le> 0. f64_round x = Fin r)"
proof -
  assume x: "x \<le> 0"
  have "0 \<le> round_pos \<bar>x\<bar>"
  proof (cases "x = 0")
    case False
    then have "0 \<le> \<bar>x\<bar> / ulp \<bar>x\<bar>" using ulp_pos [of "\<bar>x\<bar>"] by simp
    then have "0 \<le> round_even (\<bar>x\<bar> / ulp \<bar>x\<bar>)" by (auto simp: round_even_def Let_def)
    with False ulp_pos [of "\<bar>x\<bar>"] show ?thesis by (simp add: round_pos_def)
  qed (simp add: round_pos_def)
  with x show ?thesis by (cases "x = 0") (auto simp: f64_round_def Let_def round_pos_def)
qed

text \<open>A fraction of at most one of an amount below \<open>2\<^sup>5\<^sup>3\<close> is at most the amount.\<close>

lemma fraction_at_most:
  assumes "0 \<le> f" and "f \<le> 1" and "x \<le> n" and "0 \<le> n" and "n < 2 ^ 53"
  shows "trunc_saturating_i64 (f64_mul (f64_of_i64 x) (Fin f)) \<le> n"
proof (cases "0 \<le> x")
  case True
  have x: "f64_of_i64 x = Fin (of_int x)" using True assms(3,5) by (intro f64_of_i64_exact) auto
  have "of_int x * f \<le> of_int x" using True assms(2) mult_left_le [of f "of_int x :: rat"] by simp
  also have "\<dots> \<le> of_int n" using assms(3) by simp
  finally have p: "0 \<le> of_int x * f" "of_int x * f \<le> of_nat (nat n)" using True assms(1,4) by simp_all
  have n53: "nat n < 2 ^ 53" using assms(5) by (simp add: nat_less_iff)
  have "round_pos (of_int x * f) \<le> of_nat (nat n)" by (rule round_pos_le_nat [OF p n53])
  moreover have "(of_nat (nat n) :: rat) < 2 ^ 1024"
  proof -
    have "(of_nat (nat n) :: rat) < of_nat (2 ^ 53)" using n53 by (simp only: of_nat_less_iff)
    also have "\<dots> < 2 ^ 1024" by simp
    finally show ?thesis .
  qed
  ultimately have "f64_mul (f64_of_i64 x) (Fin f) = Fin (round_pos (of_int x * f))" "round_pos (of_int x * f) \<le> of_int n"
    using p assms(4) by (auto simp: x f64_round_def Let_def)
  moreover have "n \<le> i64_max" using assms(5) by (simp add: i64_max_def)
  ultimately show ?thesis using trunc_at_most [of "round_pos (of_int x * f)" n] assms(4) by simp
next
  case False
  then have "f64_of_i64 x = Inf_neg \<or> (\<exists>r \<le> 0. f64_of_i64 x = Fin r)"
    unfolding f64_of_i64_def by (intro f64_round_sign) simp
  then consider (inf) "f64_mul (f64_of_i64 x) (Fin f) = Inf_neg" | (nan) "f64_mul (f64_of_i64 x) (Fin f) = NaN"
    | (fin) q where "q \<le> 0" "f64_mul (f64_of_i64 x) (Fin f) = Fin q"
  proof (elim disjE exE conjE)
    fix r :: rat assume "r \<le> 0" and x: "f64_of_i64 x = Fin r"
    then have "f64_round (r * f) = Inf_neg \<or> (\<exists>q \<le> 0. f64_round (r * f) = Fin q)"
      using assms(1) by (intro f64_round_sign) (simp add: mult_nonpos_nonneg)
    then show ?thesis using inf fin unfolding x by auto
  qed (use inf nan assms(1) in \<open>cases "f = 0"; auto\<close>)
  then show ?thesis
  proof cases
    case fin
    then have "trunc_saturating_i64 (Fin q) \<le> 0" using trunc_at_most [of q 0] by (simp add: i64_max_def)
    then show ?thesis using fin assms(4) by simp
  qed (use assms(4) in \<open>simp_all add: trunc_saturating_i64_def f64_is_finite_def\<close>)
qed

section \<open>Entitlements and validation\<close>

lemma withdrawable_bounds:
  "0 \<le> max_withdrawable_ntl_for_depositor L l p v \<and> max_withdrawable_ntl_for_depositor L l p v \<le> max (account_total_ntl L l (va_vault_address v)) 0"
  by (simp add: max_withdrawable_ntl_for_depositor_def Let_def split: option.split)

text \<open>An accepted transfer is of a participant past the lock-up, within the share and within what can be withdrawn; for a withdrawal the requested
  amount plays no part.\<close>

lemma validated_transfer:
  assumes "validate_vault_transfer L l p is_deposit requested now minimum v = Inr t"
  shows "\<exists>r. map_of (va_equity_records v) p = Some r \<and> 0 < total_vault_ntl L l v \<and>
    (is_v2_or_later v \<longrightarrow> \<not> update_before_lockup (ve_last_update_id r) now (va_deposit_lockup_secs v)) \<and>
    (is_deposit \<longrightarrow> as_capped_i64 requested \<le> max_withdrawable_ntl_for_depositor L l p v) \<and>
    (\<not> is_deposit \<longrightarrow> minimum \<le> saturating_sub_i64 (total_vault_ntl L l v) (tv_raw_delta_ntl t))"
  using assms by (auto simp: validate_vault_transfer_def Let_def split: if_splits option.splits)

lemma withdrawal_request_ignored:
  "validate_vault_transfer L l p False requested now minimum v = validate_vault_transfer L l p False other now minimum v"
  unfolding validate_vault_transfer_def if_False by (rule refl)

section \<open>Deposits\<close>

lemma shares_keep_state [simp]:
  "va_vault_address (update_equity_distribution L l p d t u v) = va_vault_address v"
  "va_leader_address (update_equity_distribution L l p d t u v) = va_leader_address v"
  by (simp_all add: update_equity_distribution_def Let_def)

text \<open>A deposit moves exactly its amount from the participant to the vault account and changes no other
  account; a refused deposit changes no account and no share.\<close>

lemma deposit_conserves:
  assumes "lawful L bal" and "apply_vault_deposit L participant amount u privileged (l, v) = ((l', v'), result)"
  shows "(case result of
      Inl e \<Rightarrow> bal l' = bal l \<and> v' = v
    | Inr receipt \<Rightarrow> 0 \<le> amount \<and> (\<forall>a. bal l' a = bal l a - (if a = participant then amount else 0) + (if a = va_vault_address v then amount else 0)) \<and>
        ve_share (entry_or equity_default (va_equity_records v') participant) = dr_share_fraction receipt) \<and> funds bal l' = funds bal l"
proof -
  obtain l1 ok where d: "debit L participant amount l = (l1, ok)" by (metis prod.exhaust)
  note refused = balance_debit [OF assms(1) d]
  show ?thesis
    using assms(2) d refused funds_debit [OF assms(1) d] funds_credit [OF assms(1)] balance_credit [OF assms(1)]
    by (cases ok) (auto simp: apply_vault_deposit_def Let_def book_deposit_def fun_eq_iff split: if_splits)
qed

section \<open>Withdrawals\<close>

text \<open>C23.  A withdrawal pays no more than was requested and no more than the vault account holds, and with a fee
  fraction of at most one and less than \<open>2\<^sup>5\<^sup>3\<close> paid it splits exactly into the return of the participant and the fee of the leader:
  the vault account loses what they get and the funds are conserved.\<close>

theorem withdrawal_pays_exactly:
  assumes "lawful L bal" and "va_distribution_fee_fraction v = Fin f" and "0 \<le> f" and "f \<le> 1"
    and "apply_vault_withdraw L participant requested u fraction (l, v) = ((l', v'), Inr receipt)" and "wr_paid_from_vault_ntl receipt < 2 ^ 53"
  shows "0 < wr_paid_from_vault_ntl receipt \<and> wr_paid_from_vault_ntl receipt \<le> requested \<and>
    wr_paid_from_vault_ntl receipt \<le> account_total_ntl L l (va_vault_address v) \<and>
    wr_paid_from_vault_ntl receipt = wr_principal_return_ntl receipt + wr_fee_ntl receipt \<and> 0 \<le> wr_fee_ntl receipt \<and>
    (\<forall>a. bal l' a = bal l a - (if a = va_vault_address v then wr_paid_from_vault_ntl receipt else 0) +
       (if a = participant then wr_principal_return_ntl receipt else 0) + (if a = va_leader_address v then wr_fee_ntl receipt else 0)) \<and>
    funds bal l' = funds bal l"
proof -
  define paid where "paid = max (min (min requested (max (account_total_ntl L l (va_vault_address v)) 0))
    (trunc_saturating_i64 (f64_mul fraction (f64_of_i64 (total_vault_ntl L l v))))) 0"
  obtain r where r: "map_of (va_equity_records v) participant = Some r"
    using assms(5) by (auto simp: apply_vault_withdraw_def Let_def split: option.splits)
  define avail where "avail = max (trunc_saturating_i64 (f64_div (f64_mul (f64_of_u64 (ve_deposited_ntl r)) fraction) (ve_share r))) 0"
  define fee where "fee = max (trunc_saturating_i64 (f64_mul (f64_of_i64 (saturating_sub_i64 paid avail)) (va_distribution_fee_fraction v))) 0"
  obtain l1 ok where d: "debit L (va_vault_address v) paid l = (l1, ok)" by (metis prod.exhaust)
  have res: "0 < paid" ok "wr_paid_from_vault_ntl receipt = paid" "wr_fee_ntl receipt = fee"
    "wr_principal_return_ntl receipt = max (saturating_sub_i64 paid fee) 0"
    "l' = (if 0 < fee then credit L (va_leader_address v) fee (credit L participant (max (saturating_sub_i64 paid fee) 0) l1)
      else credit L participant (max (saturating_sub_i64 paid fee) 0) l1)"
    using assms(5) r d unfolding apply_vault_withdraw_def Let_def
    by (auto simp: paid_def [symmetric] avail_def [symmetric] fee_def [symmetric] split: if_splits bool.splits)
  have sub: "saturating_sub_i64 paid x = paid - x" if "0 \<le> x" "x \<le> i64_max" for x
    using res(1,3) assms(6) that by (simp add: saturating_sub_i64_def in_i64_def i64_min_def i64_max_def)
  have avail: "0 \<le> avail" "avail \<le> i64_max" using trunc_range by (auto simp: avail_def i64_max_def)
  have fee: "0 \<le> fee" "fee \<le> paid"
    using fraction_at_most [OF assms(3,4), of "paid - avail" paid] res(1,3) assms(6) avail
    by (auto simp: fee_def assms(2) sub)
  have "paid \<le> i64_max" using res(3) assms(6) by (simp add: i64_max_def)
  then have split: "max (saturating_sub_i64 paid fee) 0 = paid - fee" using fee sub [of fee] by simp
  have bound: "paid \<le> requested" "paid \<le> account_total_ntl L l (va_vault_address v)"
    using res(1) unfolding paid_def by linarith+
  have "bal l' a = bal l a - (if a = va_vault_address v then paid else 0) + (if a = participant then paid - fee else 0) +
      (if a = va_leader_address v then fee else 0)" for a
    using fee(1) balance_debit [OF assms(1) d, of a] res(2) unfolding res(6) split
    by (cases "0 < fee") (simp_all add: balance_credit [OF assms(1)])
  moreover have "funds bal l' = funds bal l"
    using fee(1) funds_debit [OF assms(1) d] res(2) unfolding res(6) split
    by (cases "0 < fee") (simp_all add: funds_credit [OF assms(1)])
  ultimately show ?thesis unfolding res(3-5) split using res(1) bound fee(1) by simp
qed

section \<open>Distributions\<close>

text \<open>The records that receive something, what they receive and the fees charged on them.\<close>

definition receives :: "vault_state \<Rightarrow> f64 \<Rightarrow> raw_ntl \<Rightarrow> address \<times> vault_equity_record \<Rightarrow> bool" where
  "receives v total_f amount e \<longleftrightarrow>
     \<not> f64_lt (ve_share (snd e)) MIN_TOTAL_FRACTION_DENOMINATOR \<and> participant_amount v total_f amount (fst e) (snd e) \<noteq> 0"

definition paid_out :: "vault_state \<Rightarrow> f64 \<Rightarrow> raw_ntl \<Rightarrow> (address \<times> vault_equity_record) list \<Rightarrow> raw_ntl" where
  "paid_out v total_f amount es = sum_list (map (\<lambda>(a, r). participant_amount v total_f amount a r) (filter (receives v total_f amount) es))"

definition fees_charged :: "vault_state \<Rightarrow> f64 \<Rightarrow> raw_ntl \<Rightarrow> (address \<times> vault_equity_record) list \<Rightarrow> raw_ntl" where
  "fees_charged v total_f amount es = sum_list (map (\<lambda>(a, r). distribution_fee v total_f a r) (filter (receives v total_f amount) es))"

lemma fee_nonneg: "0 \<le> distribution_fee v total_f a r"
  by (simp add: distribution_fee_def Let_def)

lemma amount_nonneg: "0 \<le> participant_amount v total_f amount a r"
  by (simp add: participant_amount_def)

lemma distribute_one_step:
  assumes "lawful L bal" and "0 \<le> s" and "s \<le> i64_max" and "distribute_one L v total_f amount u e (l, rows, d, s) = (l1, rows1, d1, s1)"
  shows "funds bal l1 = funds bal l + paid_out v total_f amount [e] + fees_charged v total_f amount [e]"
    and "s1 = min (s + paid_out v total_f amount [e]) i64_max"
proof -
  obtain a r where e: "e = (a, r)" by (cases e)
  note nn = fee_nonneg [of v total_f a r] amount_nonneg [of v total_f amount a r]
  have sat: "saturating_add_i64 s x = min (s + x) i64_max" if "0 \<le> x" for x
    using that assms(2) by (simp add: saturating_add_i64_def clamp_i64_def i64_min_def i64_max_def min_def max_def)
  show "funds bal l1 = funds bal l + paid_out v total_f amount [e] + fees_charged v total_f amount [e]"
    using assms(4) nn funds_credit [OF assms(1)]
    by (auto simp: e distribute_one_def paid_out_def fees_charged_def receives_def Let_def split: if_splits)
  show "s1 = min (s + paid_out v total_f amount [e]) i64_max"
    using assms(3,4) sat [OF nn(2)]
    by (auto simp: e distribute_one_def paid_out_def receives_def Let_def split: if_splits)
qed

lemma paid_out_Cons: "paid_out v total_f amount (e # es) = paid_out v total_f amount [e] + paid_out v total_f amount es"
    "fees_charged v total_f amount (e # es) = fees_charged v total_f amount [e] + fees_charged v total_f amount es"
  by (simp_all add: paid_out_def fees_charged_def)

lemma paid_out_nonneg: "0 \<le> paid_out v total_f amount es" "0 \<le> fees_charged v total_f amount es"
  by (auto simp: paid_out_def fees_charged_def intro!: sum_list_nonneg amount_nonneg fee_nonneg)

lemma distribute_all:
  assumes "lawful L bal" and "0 \<le> s" and "s \<le> i64_max" and "fold (distribute_one L v total_f amount u) es (l, rows, d, s) = (l1, rows1, d1, s1)"
  shows "funds bal l1 = funds bal l + paid_out v total_f amount es + fees_charged v total_f amount es \<and>
    s1 = min (s + paid_out v total_f amount es) i64_max"
  using assms(2-)
proof (induction es arbitrary: l rows d s)
  case Nil
  then show ?case by (simp add: paid_out_def fees_charged_def)
next
  case (Cons e es)
  obtain l2 rows2 d2 s2 where one: "distribute_one L v total_f amount u e (l, rows, d, s) = (l2, rows2, d2, s2)" by (metis prod.exhaust)
  note o = distribute_one_step [OF assms(1) Cons.prems(1,2) one]
  have s2: "0 \<le> s2" "s2 \<le> i64_max" using o(2) Cons.prems(1) paid_out_nonneg(1) [of v total_f amount "[e]"] by (auto simp: i64_max_def)
  have "fold (distribute_one L v total_f amount u) es (l2, rows2, d2, s2) = (l1, rows1, d1, s1)" using Cons.prems(3) one by simp
  from Cons.IH [OF s2 this] o paid_out_nonneg(1) [of v total_f amount es] show ?case
    by (auto simp: paid_out_Cons [of v total_f amount e es] min_def)
qed

lemma distribution_amount_range: "distribution_amount L l mode requested v = Inr amount \<Longrightarrow> amount \<le> i64_max"
  by (auto simp: distribution_amount_def Let_def as_capped_i64_def split: if_splits)

text \<open>C39.  A distribution is not paid out of the vault alone: the fees are taken off what the participants get, credited to the leader, and
  then credited to the leader once more with the residual.  The funds of all accounts grow by exactly the fees, and by whatever the shares
  pay out beyond the amount.\<close>

theorem distribution_pays_fees_twice:
  assumes "lawful L bal" and "apply_distribution L mode requested u (l, v) = ((l', v'), Inr distributed)"
    and "distribution_amount L l mode requested v = Inr amount"
  shows "funds bal l' = funds bal l + fees_charged v (f64_of_i64 (total_vault_ntl L l v)) amount (va_equity_records v)
    + max 0 (paid_out v (f64_of_i64 (total_vault_ntl L l v)) amount (va_equity_records v) - amount)"
proof -
  let ?t = "f64_of_i64 (total_vault_ntl L l v)"
  obtain l1 ok where d: "debit L (va_vault_address v) amount l = (l1, ok)" by (metis prod.exhaust)
  obtain l2 rows ds s where f: "fold (distribute_one L v ?t amount u) (va_equity_records v) (l1, [], [], 0) = (l2, rows, ds, s)" by (metis prod.exhaust)
  let ?D = "paid_out v ?t amount (va_equity_records v)"
  have all: "funds bal l2 = funds bal l1 + ?D + fees_charged v ?t amount (va_equity_records v)" "s = min ?D i64_max"
    using distribute_all [OF assms(1) _ _ f] by (simp_all add: i64_max_def)
  have amt: "0 < amount" "ok" and l': "l' = (if 0 < saturating_sub_i64 amount s then credit L (va_leader_address v) (saturating_sub_i64 amount s) l2 else l2)"
    using assms(2,3) d f by (auto simp: apply_distribution_def Let_def split: if_splits bool.splits)
  have "0 \<le> s" using all(2) paid_out_nonneg(1) [of v ?t amount "va_equity_records v"] by (simp add: i64_max_def)
  moreover have "amount \<le> i64_max" by (rule distribution_amount_range [OF assms(3)])
  moreover have "s \<le> i64_max" using all(2) by simp
  ultimately have "in_i64 (amount - s)" using amt(1) by (simp add: in_i64_def i64_min_def i64_max_def)
  then have sub: "saturating_sub_i64 amount s = amount - s" by (simp add: saturating_sub_i64_def)
  show ?thesis
    using all amt \<open>amount \<le> i64_max\<close> funds_debit [OF assms(1) d] funds_credit [OF assms(1)] unfolding l' sub by auto
qed

section \<open>A vault\<close>

definition plain_ledger :: "(address \<Rightarrow> int) vault_ledger" where
  "plain_ledger = \<lparr>account_total_ntl = (\<lambda>l a. l a), positive_margin_ntl = (\<lambda>l a. max (l a) 0),
     debit = (\<lambda>a n l. if n \<le> l a then (l(a := l a - n), True) else (l, False)), credit = (\<lambda>a n l. l(a := l a + n))\<rparr>"

lemma plain_lawful: "lawful plain_ledger (\<lambda>l. l)"
  by (auto simp: lawful_def plain_ledger_def split: if_splits)

definition sample_vault :: vault_state where
  "sample_vault =
     (let rec = (\<lambda>share deposited. \<lparr>ve_share = Fin share, ve_deposited_ntl = deposited, ve_net_ntl = 0, ve_last_update_id = \<lparr>ui_unix_seconds = 0, ui_nanos = 0\<rparr>\<rparr>)
      in \<lparr>va_version = 2, va_child_vault_addresses = [], va_equity_records = [(1, rec (1 / 2) 0), (2, rec (1 / 4) 16), (9, rec (1 / 4) 100)],
          va_distribution_fee_fraction = Fin (1 / 4), va_deposit_lockup_secs = Fin 0, va_vault_address = 9, va_leader_address = 1,
          va_closed = False, va_deposits_disabled = False, va_always_close_on_withdraw = False\<rparr>)"

definition sample_balances :: "address \<Rightarrow> int" where
  "sample_balances = (\<lambda>a. if a = 9 then 400 else if a = 2 then 50 else 0)"

definition at_time :: update_id where
  "at_time = \<lparr>ui_unix_seconds = 10, ui_nanos = 0\<rparr>"

text \<open>Exact products, for evaluation.\<close>

lemma trunc_whole: "0 \<le> n \<Longrightarrow> n < 2 ^ 53 \<Longrightarrow> trunc_saturating_i64 (Fin (of_int n)) = n"
proof -
  assume n: "0 \<le> n" "n < 2 ^ 53"
  have "f64_of_i64 i64_min = Inf_neg \<or> (\<exists>r \<le> 0. f64_of_i64 i64_min = Fin r)"
    unfolding f64_of_i64_def by (intro f64_round_sign) (simp add: i64_min_def)
  then have "\<not> f64_lt (Fin (of_int n)) (f64_of_i64 i64_min)" using n(1) by (auto simp: f64_lt_def)
  moreover have "(of_int n :: rat) < of_int (2 ^ 53)" using n(2) by (simp only: of_int_less_iff)
  then have "\<not> f64_lt (f64_of_i64 i64_max) (Fin (of_int n))" by (simp add: f64_i64_max f64_lt_def)
  moreover have "clamp_i64 n = n" using n by (intro clamp_i64_id) (simp add: in_i64_def i64_min_def i64_max_def)
  ultimately show ?thesis using n(1) by (simp add: trunc_saturating_i64_def f64_is_finite_def f64_as_i64_def)
qed

lemma trunc_product:
  assumes "s * of_int x = of_int n" and "0 \<le> x" and "x < 2 ^ 53" and "0 \<le> n" and "n < 2 ^ 53"
  shows "trunc_saturating_i64 (f64_mul (Fin s) (f64_of_i64 x)) = n" "trunc_saturating_i64 (f64_mul (f64_of_i64 x) (Fin s)) = n"
proof -
  have "f64_round (of_int n) = Fin (of_int n)" using f64_of_i64_exact [OF assms(4,5)] by (simp add: f64_of_i64_def)
  then show "trunc_saturating_i64 (f64_mul (Fin s) (f64_of_i64 x)) = n" "trunc_saturating_i64 (f64_mul (f64_of_i64 x) (Fin s)) = n"
    using assms trunc_whole [OF assms(4,5)] by (simp_all add: f64_of_i64_exact mult.commute)
qed

lemma share_not_small: "1 / 4 \<le> s \<Longrightarrow> \<not> f64_lt (Fin s) MIN_TOTAL_FRACTION_DENOMINATOR"
proof -
  obtain r where r: "f64_round (1 / 10 ^ 15) = Fin r" "f64_near (1 / 10 ^ 15) r" by (rule f64_round_near [of "1 / 10 ^ 15"]) simp_all
  moreover have "(1 / 10 ^ 15) * (1 + 1 / 2 ^ 53) < (1 / 4 :: rat)" by simp
  ultimately have "r < 1 / 4" unfolding f64_near_def by linarith
  then show "1 / 4 \<le> s \<Longrightarrow> ?thesis" using r(1) by (simp add: MIN_TOTAL_FRACTION_DENOMINATOR_def f64_lt_def)
qed

lemmas sample_products [simp] =
  trunc_product [of "1 / 4" 400 100, simplified] trunc_product [of "1 / 2" 400 200, simplified] trunc_product [of "1 / 2" 100 50, simplified]
  trunc_product [of "1 / 4" 100 25, simplified] trunc_product [of "1 / 4" 84 21, simplified] trunc_product [of "1 / 4" 0 0, simplified]
  trunc_product [of "1 / 4" 4 1, simplified]

lemma sample_total: "total_vault_ntl plain_ledger sample_balances sample_vault = 400"
  by (simp add: total_vault_ntl_def plain_ledger_def sample_balances_def sample_vault_def)

lemma sample_amount: "distribution_amount plain_ledger sample_balances False 100 sample_vault = Inr 100"
proof -
  have "max_withdrawable_ntl_for_depositor plain_ledger sample_balances 9 sample_vault = 100"
    unfolding max_withdrawable_ntl_for_depositor_def sample_total
    by (simp add: sample_vault_def plain_ledger_def sample_balances_def)
  then show ?thesis by (simp add: distribution_amount_def sample_vault_def as_capped_i64_def i64_max_def)
qed

lemma sat_sub_small [simp]: "0 \<le> a \<Longrightarrow> 0 \<le> b \<Longrightarrow> a \<le> 1000 \<Longrightarrow> b \<le> 1000 \<Longrightarrow> saturating_sub_i64 a b = a - b"
  unfolding saturating_sub_i64_def by (intro clamp_i64_id) (simp add: in_i64_def i64_min_def i64_max_def)

lemma sample_fees:
  "fees_charged sample_vault (f64_of_i64 400) 100 (va_equity_records sample_vault) = 21"
  "paid_out sample_vault (f64_of_i64 400) 100 (va_equity_records sample_vault) = 79"
  by (simp_all add: fees_charged_def paid_out_def receives_def share_not_small participant_amount_def distribution_fee_def sample_vault_def)

theorem distribution_pays_fees_twice_witness:
  "\<exists>l' v' d. apply_distribution plain_ledger False 100 at_time (sample_balances, sample_vault) = ((l', v'), Inr d) \<and>
    funds (\<lambda>l. l) l' = funds (\<lambda>l. l) sample_balances + 21"
proof -
  have "\<exists>l' v' d. apply_distribution plain_ledger False 100 at_time (sample_balances, sample_vault) = ((l', v'), Inr d)"
    unfolding apply_distribution_def case_prod_conv sample_total sample_amount
    by (simp add: Let_def plain_ledger_def sample_balances_def sample_vault_def split: prod.split)
  then obtain l' v' d where d: "apply_distribution plain_ledger False 100 at_time (sample_balances, sample_vault) = ((l', v'), Inr d)" by blast
  from distribution_pays_fees_twice [OF plain_lawful d sample_amount] d show ?thesis
    unfolding sample_total sample_fees by auto
qed

lemma sample_deposit:
  "\<exists>l' v' r. apply_vault_deposit plain_ledger 2 20 at_time False (sample_balances, sample_vault) = ((l', v'), Inr r) \<and>
    l' 2 = 30 \<and> l' 9 = 420"
proof -
  have "\<exists>l' v' r. apply_vault_deposit plain_ledger 2 20 at_time False (sample_balances, sample_vault) = ((l', v'), Inr r)"
    unfolding apply_vault_deposit_def case_prod_conv sample_total
    by (simp add: Let_def plain_ledger_def sample_balances_def sample_vault_def)
  then obtain l' v' r where d: "apply_vault_deposit plain_ledger 2 20 at_time False (sample_balances, sample_vault) = ((l', v'), Inr r)" by blast
  from deposit_conserves [OF plain_lawful d] d show ?thesis by (auto simp: sample_balances_def sample_vault_def)
qed

lemma sample_available: "trunc_saturating_i64 (f64_div (f64_mul (f64_of_u64 16) (Fin (1 / 4))) (Fin (1 / 4))) = 16"
proof -
  have "f64_round 4 = Fin 4" "f64_round 16 = Fin 16" "f64_of_u64 16 = Fin 16"
    using f64_of_u64_exact [of 4] f64_of_u64_exact [of 16] by (simp_all add: f64_of_u64_def)
  then show ?thesis using trunc_whole [of 16] by simp
qed

theorem withdrawal_pays_exactly_witness:
  "\<exists>l' v' r. apply_vault_withdraw plain_ledger 2 20 at_time (Fin (1 / 4)) (sample_balances, sample_vault) = ((l', v'), Inr r) \<and>
    l' 9 = 380 \<and> l' 2 = 69 \<and> l' 1 = 1"
proof -
  have "\<exists>l' v' r. apply_vault_withdraw plain_ledger 2 20 at_time (Fin (1 / 4)) (sample_balances, sample_vault) = ((l', v'), Inr r) \<and>
      wr_paid_from_vault_ntl r = 20 \<and> wr_fee_ntl r = 1"
    unfolding apply_vault_withdraw_def case_prod_conv sample_total
    by (simp add: Let_def plain_ledger_def sample_balances_def sample_vault_def share_not_small sample_available i64_max_def)
  then obtain l' v' r where d: "apply_vault_withdraw plain_ledger 2 20 at_time (Fin (1 / 4)) (sample_balances, sample_vault) = ((l', v'), Inr r)"
    "wr_paid_from_vault_ntl r = 20" "wr_fee_ntl r = 1" by blast
  have f: "va_distribution_fee_fraction sample_vault = Fin (1 / 4)" by (simp add: sample_vault_def)
  from withdrawal_pays_exactly [OF plain_lawful f _ _ d(1)] d show ?thesis
    by (auto simp: sample_balances_def sample_vault_def)
qed

end
