(* ===== verification/Bole.thy ===== *)
theory Bole
  imports Float64 Quantity Token_Ledger "HOL-Library.Word"
begin

text \<open>
  Borrowing and lending, \<^verbatim>\<open>src/l1/bole/user_state.rs\<close>: assets with two lanes of scaled quantities, and the exposures of users to them, kept in
  one default configuration and in overrides for single users.  The risk checks are a trait, a parameter: a record of
  functions over a state of their own.
\<close>

unbundle bit_operations_syntax

section \<open>Data\<close>

definition PRICE_SIZE_SCALE :: nat where "PRICE_SIZE_SCALE = 100000000000000"

definition RETRY_FACTORS :: "f64 option list" where
  "RETRY_FACTORS = [None, Some (f64_round (99 / 100)), Some (f64_round (90 / 100))]"

datatype bole_status =
  HealthTierFailed | ZeroOrUnderflow | ArithmeticStatus | InsufficientBalance | CapExceeded | AssetMissing | GenericValidation
| CrossStateMismatch | RecoveredStatus nat

definition status_code :: "bole_status \<Rightarrow> nat" where
  "status_code s = (case s of
      HealthTierFailed \<Rightarrow> 1 | ZeroOrUnderflow \<Rightarrow> 2 | ArithmeticStatus \<Rightarrow> 3 | InsufficientBalance \<Rightarrow> 5 | CapExceeded \<Rightarrow> 6
    | AssetMissing \<Rightarrow> 9 | GenericValidation \<Rightarrow> 10 | CrossStateMismatch \<Rightarrow> 16 | RecoveredStatus c \<Rightarrow> c)"

definition status_from_code :: "nat \<Rightarrow> bole_status" where
  "status_from_code c =
     (if c = 1 then HealthTierFailed else if c = 2 then ZeroOrUnderflow else if c = 3 then ArithmeticStatus
      else if c = 5 then InsufficientBalance else if c = 6 then CapExceeded else if c = 9 then AssetMissing
      else if c = 10 then GenericValidation else if c = 16 then CrossStateMismatch else RecoveredStatus c)"

definition from_balance_sentinel :: "nat \<Rightarrow> bole_status option" where
  "from_balance_sentinel c = (if c = 11 then None else if c = 5 then Some InsufficientBalance else Some GenericValidation)"

definition from_cross_state_sentinel :: "nat \<Rightarrow> bole_status option" where
  "from_cross_state_sentinel c = (if c = 17 then None else if c = 16 then Some CrossStateMismatch else Some GenericValidation)"

record exposure_lane =
  el_base_qty :: nat
  el_quote_or_scaled_qty :: nat

record exposure_entry =
  ee_lane0 :: exposure_lane
  ee_lane1 :: exposure_lane

definition exposure_default :: exposure_entry where
  "exposure_default = \<lparr>ee_lane0 = \<lparr>el_base_qty = 0, el_quote_or_scaled_qty = 0\<rparr>, ee_lane1 = \<lparr>el_base_qty = 0, el_quote_or_scaled_qty = 0\<rparr>\<rparr>"

definition lane :: "nat \<Rightarrow> exposure_entry \<Rightarrow> exposure_lane" where
  "lane slot e = (if even slot then ee_lane0 e else ee_lane1 e)"

definition set_lane_qty :: "nat \<Rightarrow> nat \<Rightarrow> exposure_entry \<Rightarrow> exposure_entry" where
  "set_lane_qty slot q e =
     (if even slot then e\<lparr>ee_lane0 := (ee_lane0 e)\<lparr>el_quote_or_scaled_qty := q\<rparr>\<rparr> else e\<lparr>ee_lane1 := (ee_lane1 e)\<lparr>el_quote_or_scaled_qty := q\<rparr>\<rparr>)"

record bole_asset =
  ba_kind_or_flags :: nat
  ba_packed_flags_at_08 :: nat
  ba_field_10 :: nat
  ba_total_a :: nat
  ba_total_b :: nat
  ba_capacity_or_margin :: nat
  ba_field_30 :: nat
  ba_field_38 :: nat
  ba_lane0_total :: nat
  ba_field_48 :: nat
  ba_field_50 :: nat
  ba_lane0_denominator :: nat
  ba_lane1_total :: nat
  ba_field_68 :: nat
  ba_field_70 :: nat
  ba_lane1_denominator :: nat
  ba_unknown_field_at_80 :: "nat list"
  ba_timestamp_or_accrual_at_a0 :: nat
  ba_timestamp_like_at_a8 :: nat
  ba_unknown_field_at_ac :: nat

definition bole_asset_default :: bole_asset where
  "bole_asset_default = \<lparr>ba_kind_or_flags = 0, ba_packed_flags_at_08 = 0, ba_field_10 = 0, ba_total_a = 0, ba_total_b = 0,
     ba_capacity_or_margin = 0, ba_field_30 = 0, ba_field_38 = 0, ba_lane0_total = 0, ba_field_48 = 0, ba_field_50 = 0,
     ba_lane0_denominator = 0, ba_lane1_total = 0, ba_field_68 = 0, ba_field_70 = 0, ba_lane1_denominator = 0,
     ba_unknown_field_at_80 = replicate 32 0, ba_timestamp_or_accrual_at_a0 = 0, ba_timestamp_like_at_a8 = 0, ba_unknown_field_at_ac = 0\<rparr>"

definition total_before_update :: "bole_asset \<Rightarrow> nat option" where
  "total_before_update a = checked_add_u64 (ba_total_a a) (ba_total_b a)"

definition denominator :: "nat \<Rightarrow> bole_asset \<Rightarrow> nat" where
  "denominator slot a = (if even slot then ba_lane0_denominator a else ba_lane1_denominator a)"

definition selected_total :: "nat \<Rightarrow> bole_asset \<Rightarrow> nat" where
  "selected_total slot a = (if even slot then ba_lane0_total a else ba_lane1_total a)"

definition set_selected_total :: "nat \<Rightarrow> nat \<Rightarrow> bole_asset \<Rightarrow> bole_asset" where
  "set_selected_total slot q a = (if even slot then a\<lparr>ba_lane0_total := q\<rparr> else a\<lparr>ba_lane1_total := q\<rparr>)"

record bole_user_config =
  bc_header_0 :: nat
  bc_header_8 :: nat
  bc_header_10 :: nat
  bc_exposures :: "(nat, exposure_entry) btree"

record bole_state =
  bs_default_config :: bole_user_config
  bs_user_overrides :: "(address, bole_user_config) btree"
  bs_assets :: "(nat, bole_asset) btree"

record apply_delta_req =
  dq_asset :: nat
  dq_amount :: nat
  dq_min_health_tier :: nat
  dq_risk_mode :: nat
  dq_user_key :: address
  dq_op_kind :: nat
  dq_force_exact_amount :: bool
  dq_cap_amount :: nat

record borrow_lend_args =
  bl_asset :: nat
  bl_qty :: nat
  bl_min_health_tier :: nat
  bl_risk_mode :: nat
  bl_user_key :: address
  bl_side_flag :: nat
  bl_scale_down_flag :: bool

record bole_update =
  bu_asset :: nat
  bu_user_key :: address
  bu_asset_entry :: bole_asset
  bu_user_config :: bole_user_config
  bu_changed_amount :: nat
  bu_increased_total :: bool

datatype bole_apply_result = Applied bole_update | BoleNoop | BoleError bole_status

definition is_retryable_error :: "bole_apply_result \<Rightarrow> bool" where
  "is_retryable_error r = (case r of BoleError _ \<Rightarrow> True | _ \<Rightarrow> False)"

definition result_changed_amount :: "bole_apply_result \<Rightarrow> nat" where
  "result_changed_amount r = (case r of Applied u \<Rightarrow> bu_changed_amount u | _ \<Rightarrow> 0)"

record health_totals =
  ht_tier :: nat
  ht_total_a :: nat
  ht_total_b :: nat
  ht_total_c :: nat
  ht_total_d :: nat
  ht_total_e :: nat

record 'h risk_hooks =
  derive_amount :: "bole_user_config \<Rightarrow> nat \<Rightarrow> nat \<Rightarrow> nat \<Rightarrow> nat \<Rightarrow> 'h \<Rightarrow> (bole_status + nat) \<times> 'h"
  validate_asset_capacity :: "bole_asset \<Rightarrow> 'h \<Rightarrow> (bole_status + nat) \<times> 'h"
  recompute_health :: "bole_user_config \<Rightarrow> nat \<Rightarrow> nat \<Rightarrow> 'h \<Rightarrow> (bole_status + health_totals) \<times> 'h"
  sufficient_balance :: "bole_user_config \<Rightarrow> bole_asset \<Rightarrow> nat \<Rightarrow> nat \<Rightarrow> bool \<Rightarrow> 'h \<Rightarrow> nat \<times> 'h"
  validate_cross_state :: "bole_user_config \<Rightarrow> bole_user_config \<Rightarrow> nat \<Rightarrow> nat \<Rightarrow> nat \<Rightarrow> bool \<Rightarrow> bole_asset \<Rightarrow> 'h \<Rightarrow> nat \<times> 'h"
  post_process_update :: "bole_update \<Rightarrow> nat \<Rightarrow> 'h \<Rightarrow> bole_update \<times> 'h"
  address_volume_limit :: "address \<Rightarrow> nat \<Rightarrow> 'h \<Rightarrow> (nat \<times> nat) option \<times> 'h"

section \<open>Modes and rounding\<close>

record slot_mode =
  sm_slot :: nat
  sm_opposite_slot :: nat
  sm_decreasing :: bool
  sm_round_amount_to_qty_up :: bool
  sm_round_qty_to_amount_up :: bool

definition slot_mode_of :: "nat \<Rightarrow> slot_mode" where
  "slot_mode_of op_kind =
     (let shifted = (if op_kind < 8 then drop_bit op_kind 0x0c else 0) in
      \<lparr>sm_slot = op_kind AND 1, sm_opposite_slot = (op_kind XOR 1) AND 1, sm_decreasing = (shifted AND 1 \<noteq> 0),
       sm_round_amount_to_qty_up = ((shifted XOR op_kind XOR 1) AND 1 \<noteq> 0), sm_round_qty_to_amount_up = (op_kind AND 1 = 0)\<rparr>)"

definition scale_retry_amount :: "nat \<Rightarrow> f64 option \<Rightarrow> bole_status + nat" where
  "scale_retry_amount amount factor = (case factor of
      None \<Rightarrow> Inr amount
    | Some f \<Rightarrow>
        if \<not> f64_in_range 0 (101 / 100) f then Inl ZeroOrUnderflow
        else let scaled = f64_mul (f64_of_u64 amount) f in
          if \<not> f64_is_finite scaled then Inr u64_max
          else Inr (saturating_f64_to_u64 scaled))"

definition mul_div_floor_u64 :: "nat \<Rightarrow> nat \<Rightarrow> nat \<Rightarrow> bole_status + nat" where
  "mul_div_floor_u64 lhs rhs divisor =
     (if divisor = 0 then Inl CapExceeded
      else case checked_mul_cap u128_max lhs rhs of
        None \<Rightarrow> Inl ArithmeticStatus
      | Some p \<Rightarrow> if p div divisor \<le> u64_max then Inr (p div divisor) else Inl ArithmeticStatus)"

definition mul_div_ceil_u64 :: "nat \<Rightarrow> nat \<Rightarrow> nat \<Rightarrow> bole_status + nat" where
  "mul_div_ceil_u64 lhs rhs divisor =
     (if divisor = 0 then Inl CapExceeded
      else case checked_mul_cap u128_max lhs rhs of
        None \<Rightarrow> Inl ArithmeticStatus
      | Some p \<Rightarrow> (let rounded = p div divisor + (if p mod divisor \<noteq> 0 then 1 else 0) in
          if rounded \<le> u64_max then Inr rounded else Inl ArithmeticStatus))"

definition amount_to_qty :: "nat \<Rightarrow> nat \<Rightarrow> bool \<Rightarrow> bole_status + nat" where
  "amount_to_qty amount den round_up =
     (if den = 0 then Inl CapExceeded
      else if round_up then mul_div_ceil_u64 amount PRICE_SIZE_SCALE den else mul_div_floor_u64 amount PRICE_SIZE_SCALE den)"

definition qty_to_amount :: "nat \<Rightarrow> nat \<Rightarrow> bool \<Rightarrow> bole_status + nat" where
  "qty_to_amount qty den round_up =
     (if round_up then mul_div_ceil_u64 qty den PRICE_SIZE_SCALE else mul_div_floor_u64 qty den PRICE_SIZE_SCALE)"

section \<open>Configurations\<close>

definition config_for_user :: "address \<Rightarrow> bole_state \<Rightarrow> bole_user_config" where
  "config_for_user user s = entry_or (bs_default_config s) (bs_user_overrides s) user"

text \<open>Writing through the exclusive reference: the override when there is one, otherwise the configuration of everybody else.\<close>

definition put_config :: "address \<Rightarrow> bole_user_config \<Rightarrow> bole_state \<Rightarrow> bole_state" where
  "put_config user cfg s =
     (if bt_contains (bs_user_overrides s) user then s\<lparr>bs_user_overrides := bt_insert user cfg (bs_user_overrides s)\<rparr>
      else s\<lparr>bs_default_config := cfg\<rparr>)"

definition exposure :: "nat \<Rightarrow> bole_user_config \<Rightarrow> exposure_entry" where
  "exposure asset cfg = entry_or exposure_default (bc_exposures cfg) asset"

definition put_lane :: "nat \<Rightarrow> nat \<Rightarrow> nat \<Rightarrow> bole_user_config \<Rightarrow> bole_user_config" where
  "put_lane asset slot q cfg = cfg\<lparr>bc_exposures := bt_insert asset (set_lane_qty slot q (exposure asset cfg)) (bc_exposures cfg)\<rparr>"

definition lane_qty :: "nat \<Rightarrow> nat \<Rightarrow> bole_user_config \<Rightarrow> nat" where
  "lane_qty asset slot cfg = el_quote_or_scaled_qty (lane slot (exposure asset cfg))"

text \<open>The entry of the asset is created before anything is checked.\<close>

definition touch :: "nat \<Rightarrow> bole_user_config \<Rightarrow> bole_user_config" where
  "touch asset cfg = cfg\<lparr>bc_exposures := bt_insert asset (exposure asset cfg) (bc_exposures cfg)\<rparr>"

section \<open>Moving a lane\<close>

text \<open>The configuration is changed in place, also when a later step fails; the asset is a copy.\<close>

definition decrease_lane :: "nat \<Rightarrow> slot_mode \<Rightarrow> nat \<Rightarrow> nat \<Rightarrow> bole_user_config \<Rightarrow> bole_asset \<Rightarrow> bole_user_config \<times> (bole_status + bole_asset \<times> nat)" where
  "decrease_lane asset mode amount qty cfg a =
     (let slot = sm_slot mode; original = lane_qty asset slot cfg;
          closing = original \<le> qty;
          q = (if closing then original else qty) in
      case (if closing then qty_to_amount q (denominator slot a) (sm_round_qty_to_amount_up mode) else Inr amount) of
        Inl e \<Rightarrow> (touch asset cfg, Inl e)
      | Inr changed \<Rightarrow>
          if closing \<and> q \<noteq> 0 \<and> changed = 0 then (touch asset cfg, Inl ZeroOrUnderflow)
          else
            (let cfg1 = put_lane asset slot (original - q) cfg in
             case checked_sub_u64 (selected_total slot a) q of
               None \<Rightarrow> (cfg1, Inl InsufficientBalance)
             | Some t \<Rightarrow> (case checked_add_u64 (ba_total_a a) changed of
                   None \<Rightarrow> (cfg1, Inl ArithmeticStatus)
                 | Some ta \<Rightarrow> (cfg1, Inr ((set_selected_total slot t a)\<lparr>ba_total_a := ta\<rparr>, changed)))))"

definition increase_lane :: "nat \<Rightarrow> slot_mode \<Rightarrow> nat \<Rightarrow> nat \<Rightarrow> bole_user_config \<Rightarrow> bole_asset \<Rightarrow> bole_user_config \<times> (bole_status + bole_asset \<times> nat)" where
  "increase_lane asset mode amount qty cfg a =
     (let slot = sm_slot mode in
      case checked_add_u64 (lane_qty asset slot cfg) qty of
        None \<Rightarrow> (touch asset cfg, Inl ArithmeticStatus)
      | Some q \<Rightarrow>
          (let cfg1 = put_lane asset slot q cfg in
           case checked_add_u64 (selected_total slot a) qty of
             None \<Rightarrow> (cfg1, Inl ArithmeticStatus)
           | Some t \<Rightarrow> (case checked_sub_u64 (ba_total_a a) amount of
                 None \<Rightarrow> (cfg1, Inl InsufficientBalance)
               | Some ta \<Rightarrow> (cfg1, Inr ((set_selected_total slot t a)\<lparr>ba_total_a := ta\<rparr>, amount)))))"

definition lane_step :: "nat \<Rightarrow> slot_mode \<Rightarrow> nat \<Rightarrow> nat \<Rightarrow> bole_user_config \<Rightarrow> bole_asset \<Rightarrow> bole_user_config \<times> (bole_status + bole_asset \<times> nat)" where
  "lane_step asset mode amount qty cfg a =
     (if sm_decreasing mode then decrease_lane asset mode amount qty cfg a else increase_lane asset mode amount qty cfg a)"

section \<open>The checks after the move\<close>

definition post_checks ::
  "'h risk_hooks \<Rightarrow> apply_delta_req \<Rightarrow> bole_user_config \<Rightarrow> nat \<Rightarrow> nat \<Rightarrow> nat \<Rightarrow> bool \<Rightarrow> bole_user_config \<Rightarrow> bole_asset \<Rightarrow> 'h \<Rightarrow> bole_status option \<times> 'h" where
  "post_checks H req old_config available slot cross_slot decreasing cfg a h =
     (case recompute_health H cfg (dq_asset req) (dq_risk_mode req) h of
        (Inl e, h1) \<Rightarrow> (Some e, h1)
      | (Inr health, h1) \<Rightarrow>
          if ht_tier health < dq_min_health_tier req then (Some HealthTierFailed, h1)
          else (case sufficient_balance H cfg a (dq_asset req) slot decreasing h1 of
            (c, h2) \<Rightarrow> (case from_balance_sentinel c of
                Some e \<Rightarrow> (Some e, h2)
              | None \<Rightarrow> (case validate_cross_state H old_config cfg available (dq_asset req) cross_slot decreasing a h2 of
                  (c2, h3) \<Rightarrow> (from_cross_state_sentinel c2, h3)))))"

definition finish_update ::
  "apply_delta_req \<Rightarrow> nat \<Rightarrow> nat \<Rightarrow> bole_user_config \<Rightarrow> bole_asset \<Rightarrow> bole_status + bole_update" where
  "finish_update req pre_total changed cfg a = (case total_before_update a of
      None \<Rightarrow> Inl ArithmeticStatus
    | Some post_total \<Rightarrow> Inr \<lparr>bu_asset = dq_asset req, bu_user_key = dq_user_key req, bu_asset_entry = a, bu_user_config = cfg,
        bu_changed_amount = changed, bu_increased_total = (pre_total \<le> post_total)\<rparr>)"

definition apply_delta_to_config_and_asset ::
  "'h risk_hooks \<Rightarrow> apply_delta_req \<Rightarrow> nat \<Rightarrow> nat \<Rightarrow> nat \<Rightarrow> bole_user_config \<Rightarrow> bole_asset \<Rightarrow> 'h \<Rightarrow>
    bole_user_config \<times> 'h \<times> (bole_status + bole_update)" where
  "apply_delta_to_config_and_asset H req amount available pre_total cfg a h =
     (let mode = slot_mode_of (dq_op_kind req) in
      case amount_to_qty amount (denominator (sm_slot mode) a) (sm_round_amount_to_qty_up mode) of
        Inl e \<Rightarrow> (cfg, h, Inl e)
      | Inr qty \<Rightarrow>
          (case lane_step (dq_asset req) mode amount qty cfg a of
             (cfg1, Inl e) \<Rightarrow> (cfg1, h, Inl e)
           | (cfg1, Inr (a1, changed)) \<Rightarrow>
               (case post_checks H req cfg available (sm_slot mode) (sm_opposite_slot mode) (sm_decreasing mode) cfg1 a1 h of
                  (Some e, h1) \<Rightarrow> (cfg1, h1, Inl e)
                | (None, h1) \<Rightarrow> (cfg1, h1, finish_update req pre_total changed cfg1 a1))))"

definition apply_borrow_lend_to_config_and_asset ::
  "'h risk_hooks \<Rightarrow> apply_delta_req \<Rightarrow> nat \<Rightarrow> nat \<Rightarrow> nat \<Rightarrow> bool \<Rightarrow> bole_user_config \<Rightarrow> bole_asset \<Rightarrow> 'h \<Rightarrow>
    bole_user_config \<times> 'h \<times> (bole_status + bole_update)" where
  "apply_borrow_lend_to_config_and_asset H req qty available pre_total scale_down cfg a h =
     (let slot = (dq_op_kind req XOR 1) AND 1; asset = dq_asset req; original = lane_qty asset slot cfg in
      case (if scale_down then (if selected_total slot a = 0 then Inl CapExceeded else mul_div_floor_u64 original qty (selected_total slot a)) else Inr qty) of
        Inl e \<Rightarrow> (touch asset cfg, h, Inl e)
      | Inr applied \<Rightarrow>
          (case (if scale_down then Some applied else checked_add_u64 original applied) of
             None \<Rightarrow> (touch asset cfg, h, Inl ArithmeticStatus)
           | Some q \<Rightarrow>
               (let cfg1 = put_lane asset slot q cfg in
                case checked_add_u64 (selected_total slot a) applied of
                  None \<Rightarrow> (cfg1, h, Inl ArithmeticStatus)
                | Some t \<Rightarrow>
                    (let a1 = set_selected_total slot t a in
                     case post_checks H req cfg available slot slot scale_down cfg1 a1 h of
                       (Some e, h1) \<Rightarrow> (cfg1, h1, Inl e)
                     | (None, h1) \<Rightarrow> (cfg1, h1, finish_update req pre_total original cfg1 a1)))))"

section \<open>Operations\<close>

definition check_applied :: "apply_delta_req \<Rightarrow> nat \<Rightarrow> bole_update \<Rightarrow> bole_status + bole_update" where
  "check_applied req pre_total u = (case total_before_update (bu_asset_entry u) of
      None \<Rightarrow> Inl ArithmeticStatus
    | Some post_total \<Rightarrow>
        (let increased = pre_total \<le> post_total;
             observed = (if increased then post_total - pre_total else pre_total - post_total) in
         if observed \<noteq> bu_changed_amount u then Inl CrossStateMismatch
         else if (dq_op_kind req + 255) mod 256 < 2 \<and> dq_cap_amount req < bu_changed_amount u then Inl CapExceeded
         else Inr (u\<lparr>bu_increased_total := increased\<rparr>)))"

definition try_apply_user_asset_delta_once ::
  "'h risk_hooks \<Rightarrow> apply_delta_req \<Rightarrow> nat \<Rightarrow> bole_state \<times> 'h \<Rightarrow> (bole_state \<times> 'h) \<times> bole_apply_result" where
  "try_apply_user_asset_delta_once H req amount s = (case s of (b, h) \<Rightarrow>
     if amount = 0 then (s, BoleNoop)
     else case map_of (bs_assets b) (dq_asset req) of
       None \<Rightarrow> (s, BoleError GenericValidation)
     | Some a \<Rightarrow> (case total_before_update a of
         None \<Rightarrow> (s, BoleError ArithmeticStatus)
       | Some pre_total \<Rightarrow> (case validate_asset_capacity H a h of
           (Inl _, h1) \<Rightarrow> ((b, h1), BoleError GenericValidation)
         | (Inr available, h1) \<Rightarrow>
             (case apply_delta_to_config_and_asset H req amount available pre_total (config_for_user (dq_user_key req) b) a h1 of
                (cfg, h2, Inl e) \<Rightarrow> ((put_config (dq_user_key req) cfg b, h2), BoleError e)
              | (cfg, h2, Inr u) \<Rightarrow> (case post_process_update H u pre_total h2 of
                  (u1, h3) \<Rightarrow>
                    (let b1 = put_config (dq_user_key req) cfg b in
                     case check_applied req pre_total u1 of
                       Inl e \<Rightarrow> ((b1, h3), BoleError e)
                     | Inr u2 \<Rightarrow> ((b1\<lparr>bs_assets := bt_insert (dq_asset req) (bu_asset_entry u2) (bs_assets b1)\<rparr>, h3), Applied u2)))))))"

definition requested_amount :: "'h risk_hooks \<Rightarrow> apply_delta_req \<Rightarrow> bole_state \<times> 'h \<Rightarrow> (bole_status + nat) \<times> 'h" where
  "requested_amount H req s =
     (if dq_force_exact_amount req then (Inr (dq_amount req), snd s)
      else derive_amount H (config_for_user (dq_user_key req) (fst s)) (dq_asset req) (dq_op_kind req) (dq_cap_amount req) (dq_risk_mode req) (snd s))"

text \<open>The loop over the factors; the flag says that it returned early.\<close>

fun delta_attempts ::
  "'h risk_hooks \<Rightarrow> apply_delta_req \<Rightarrow> f64 option list \<Rightarrow> bole_apply_result \<Rightarrow> bole_state \<times> 'h \<Rightarrow> (bole_state \<times> 'h) \<times> bool \<times> bole_apply_result" where
  "delta_attempts H req [] result s = (s, False, result)"
| "delta_attempts H req (factor # factors) result s =
     (case requested_amount H req s of
        (Inl e, h1) \<Rightarrow> ((fst s, h1), True, BoleError e)
      | (Inr amount, h1) \<Rightarrow> (case scale_retry_amount amount factor of
          Inl e \<Rightarrow> ((fst s, h1), True, BoleError e)
        | Inr scaled \<Rightarrow> (case try_apply_user_asset_delta_once H req scaled (fst s, h1) of
            (s2, attempt) \<Rightarrow>
              if \<not> dq_force_exact_amount req \<and> is_retryable_error attempt then delta_attempts H req factors attempt s2
              else (s2, False, attempt))))"

definition volume_check :: "'h risk_hooks \<Rightarrow> bole_apply_result \<Rightarrow> 'h \<Rightarrow> bole_apply_result \<times> 'h" where
  "volume_check H result h = (case result of
      Applied u \<Rightarrow>
        if bu_increased_total u then
          (case address_volume_limit H (bu_user_key u) (bu_asset u) h of
             (None, h1) \<Rightarrow> (result, h1)
           | (Some (used, limit), h1) \<Rightarrow>
               if (case checked_add_u64 (bu_changed_amount u) used of None \<Rightarrow> True | Some sum_used \<Rightarrow> limit < sum_used)
               then (BoleError InsufficientBalance, h1) else (result, h1))
        else (result, h)
    | _ \<Rightarrow> (result, h))"

definition try_apply_user_asset_delta_with_retry ::
  "'h risk_hooks \<Rightarrow> apply_delta_req \<Rightarrow> bole_state \<times> 'h \<Rightarrow> (bole_state \<times> 'h) \<times> bole_apply_result" where
  "try_apply_user_asset_delta_with_retry H req s =
     (case delta_attempts H req RETRY_FACTORS (BoleError GenericValidation) s of
        (s1, True, result) \<Rightarrow> (s1, result)
      | (s1, False, result) \<Rightarrow> (case volume_check H result (snd s1) of (r, h) \<Rightarrow> ((fst s1, h), r)))"

definition apply_user_wei_delta_two_tiers ::
  "'h risk_hooks \<Rightarrow> apply_delta_req \<Rightarrow> bole_state \<times> 'h \<Rightarrow> (bole_state \<times> 'h) \<times> bole_apply_result" where
  "apply_user_wei_delta_two_tiers H req s = try_apply_user_asset_delta_with_retry H req s"

text \<open>The simulation runs on a copy of the state; the hooks are not copied.\<close>

definition simulate_user_wei_capacity_three_tiers ::
  "'h risk_hooks \<Rightarrow> apply_delta_req \<Rightarrow> bole_state \<times> 'h \<Rightarrow> (bole_state \<times> 'h) \<times> bole_apply_result" where
  "simulate_user_wei_capacity_three_tiers H req s = (case try_apply_user_asset_delta_with_retry H req s of ((_, h), r) \<Rightarrow> ((fst s, h), r))"

definition apply_user_wei_delta_direct ::
  "'h risk_hooks \<Rightarrow> apply_delta_req \<Rightarrow> bole_state \<times> 'h \<Rightarrow> (bole_state \<times> 'h) \<times> bole_apply_result" where
  "apply_user_wei_delta_direct H req s = (case requested_amount H req s of
      (Inl e, h1) \<Rightarrow> ((fst s, h1), BoleError e)
    | (Inr amount, h1) \<Rightarrow> try_apply_user_asset_delta_once H req amount (fst s, h1))"

definition borrow_lend_req :: "borrow_lend_args \<Rightarrow> nat \<Rightarrow> apply_delta_req" where
  "borrow_lend_req args qty = \<lparr>dq_asset = bl_asset args, dq_amount = qty, dq_min_health_tier = bl_min_health_tier args, dq_risk_mode = bl_risk_mode args,
     dq_user_key = bl_user_key args, dq_op_kind = bl_side_flag args, dq_force_exact_amount = True, dq_cap_amount = u64_max\<rparr>"

definition apply_borrow_lend_inner ::
  "'h risk_hooks \<Rightarrow> borrow_lend_args \<Rightarrow> nat \<Rightarrow> bole_state \<times> 'h \<Rightarrow> (bole_state \<times> 'h) \<times> bole_apply_result" where
  "apply_borrow_lend_inner H args qty s = (case s of (b, h) \<Rightarrow>
     if qty = 0 then (s, BoleNoop)
     else case map_of (bs_assets b) (bl_asset args) of
       None \<Rightarrow> (s, BoleError GenericValidation)
     | Some a \<Rightarrow> (case total_before_update a of
         None \<Rightarrow> (s, BoleError ArithmeticStatus)
       | Some pre_total \<Rightarrow> (case validate_asset_capacity H a h of
           (Inl _, h1) \<Rightarrow> ((b, h1), BoleError GenericValidation)
         | (Inr available, h1) \<Rightarrow>
             (case apply_borrow_lend_to_config_and_asset H (borrow_lend_req args qty) qty available pre_total (bl_scale_down_flag args)
                 (config_for_user (bl_user_key args) b) a h1 of
                (cfg, h2, Inl e) \<Rightarrow> ((put_config (bl_user_key args) cfg b, h2), BoleError e)
              | (cfg, h2, Inr u) \<Rightarrow> (case post_process_update H u pre_total h2 of
                  (u1, h3) \<Rightarrow>
                    (let b1 = put_config (bl_user_key args) cfg b in
                     ((b1\<lparr>bs_assets := bt_insert (bl_asset args) (bu_asset_entry u1) (bs_assets b1)\<rparr>, h3), Applied u1)))))))"

fun borrow_lend_attempts ::
  "'h risk_hooks \<Rightarrow> borrow_lend_args \<Rightarrow> f64 option list \<Rightarrow> bole_apply_result \<Rightarrow> bole_state \<times> 'h \<Rightarrow> (bole_state \<times> 'h) \<times> bole_apply_result" where
  "borrow_lend_attempts H args [] result s = (s, result)"
| "borrow_lend_attempts H args (factor # factors) result s = (case scale_retry_amount (bl_qty args) factor of
      Inl e \<Rightarrow> (s, BoleError e)
    | Inr qty \<Rightarrow> (case apply_borrow_lend_inner H args qty s of
        (s1, attempt) \<Rightarrow> if is_retryable_error attempt then borrow_lend_attempts H args factors attempt s1 else (s1, attempt)))"

definition apply_borrow_lend_with_retry ::
  "'h risk_hooks \<Rightarrow> borrow_lend_args \<Rightarrow> bole_state \<times> 'h \<Rightarrow> (bole_state \<times> 'h) \<times> bole_apply_result" where
  "apply_borrow_lend_with_retry H args s = borrow_lend_attempts H args RETRY_FACTORS (BoleError GenericValidation) s"

definition apply_borrow_lend_with_retry_mode0 ::
  "'h risk_hooks \<Rightarrow> borrow_lend_args \<Rightarrow> bole_state \<times> 'h \<Rightarrow> (bole_state \<times> 'h) \<times> bole_apply_result" where
  "apply_borrow_lend_with_retry_mode0 H args s = apply_borrow_lend_with_retry H (args\<lparr>bl_risk_mode := 0\<rparr>) s"

definition apply_borrow_lend_with_retry_mode3 ::
  "'h risk_hooks \<Rightarrow> borrow_lend_args \<Rightarrow> bole_state \<times> 'h \<Rightarrow> (bole_state \<times> 'h) \<times> bole_apply_result" where
  "apply_borrow_lend_with_retry_mode3 H args s = apply_borrow_lend_with_retry H (args\<lparr>bl_risk_mode := 3\<rparr>) s"

end
