(* ===== verification/Bole_Properties.thy ===== *)
theory Bole_Properties
  imports Bole
begin

text \<open>
  The quantities of the users in a lane and the total the asset keeps of it: an operation that is applied moves both alike, one that is refused
  by the risk checks moves only the users.  Conversions between amounts and
  quantities round in the direction the kind of operation gives.
\<close>

section \<open>Sums over the users\<close>

definition lane_sum :: "nat \<Rightarrow> nat \<Rightarrow> bole_state \<Rightarrow> nat" where
  "lane_sum asset slot b = lane_qty asset slot (bs_default_config b) + bt_sum (lane_qty asset slot) (bs_user_overrides b)"

definition lane_total :: "nat \<Rightarrow> nat \<Rightarrow> bole_state \<Rightarrow> nat" where
  "lane_total asset slot b = opt_val (selected_total slot) (map_of (bs_assets b) asset)"

definition drift :: "nat \<Rightarrow> nat \<Rightarrow> bole_state \<Rightarrow> int" where
  "drift asset slot b = int (lane_sum asset slot b) - int (lane_total asset slot b)"

lemma lane_sum_put:
  assumes "bt_wf (bs_user_overrides b)"
  shows "lane_sum asset slot (put_config user cfg b) + lane_qty asset slot (config_for_user user b) = lane_sum asset slot b + lane_qty asset slot cfg"
proof (cases "map_of (bs_user_overrides b) user")
  case None
  then show ?thesis by (simp add: put_config_def bt_contains_def config_for_user_def entry_or_def lane_sum_def)
next
  case (Some old)
  then show ?thesis
    using bt_sum_insert [OF assms, of "lane_qty asset slot" user cfg]
    by (simp add: put_config_def bt_contains_def config_for_user_def entry_or_def lane_sum_def)
qed

lemma put_config_keeps [simp]: "bs_assets (put_config user cfg b) = bs_assets b"
    "bt_wf (bs_user_overrides b) \<Longrightarrow> bt_wf (bs_user_overrides (put_config user cfg b))"
  by (simp_all add: put_config_def)

lemma lane_qty_put: "lane_qty x slot' (put_lane asset slot q cfg) = (if x = asset \<and> even slot' = even slot then q else lane_qty x slot' cfg)"
  by (auto simp: lane_qty_def put_lane_def exposure_def lane_def set_lane_qty_def)

lemma lane_qty_touch [simp]: "lane_qty x slot (touch asset cfg) = lane_qty x slot cfg"
  by (simp add: lane_qty_def touch_def exposure_def)

lemma selected_total_set [simp]:
  "selected_total slot' (set_selected_total slot q a) = (if even slot' = even slot then q else selected_total slot' a)"
  "selected_total slot' (a\<lparr>ba_total_a := t\<rparr>) = selected_total slot' a"
  "ba_total_a (set_selected_total slot q a) = ba_total_a a"
  by (auto simp: selected_total_def set_selected_total_def)

section \<open>The move\<close>

definition moved_qty :: "apply_delta_req \<Rightarrow> nat \<Rightarrow> bole_user_config \<Rightarrow> nat" where
  "moved_qty req qty cfg = (let mode = slot_mode_of (dq_op_kind req) in
     if sm_decreasing mode then min qty (lane_qty (dq_asset req) (sm_slot mode) cfg) else qty)"

lemma checked_u64_SomeD: "checked_add_u64 a b = Some c \<Longrightarrow> c = a + b" "checked_sub_u64 a b = Some c \<Longrightarrow> a = b + c"
  by (auto simp: checked_add_u64_def checked_sub_u64_def split: if_splits)

lemma lane_step_moves:
  assumes "lane_step (dq_asset req) (slot_mode_of (dq_op_kind req)) amount qty cfg a = (cfg1, Inr (a1, changed))"
  shows "cfg1 = put_lane (dq_asset req) (sm_slot (slot_mode_of (dq_op_kind req)))
      (if sm_decreasing (slot_mode_of (dq_op_kind req)) then lane_qty (dq_asset req) (sm_slot (slot_mode_of (dq_op_kind req))) cfg - moved_qty req qty cfg
       else lane_qty (dq_asset req) (sm_slot (slot_mode_of (dq_op_kind req))) cfg + moved_qty req qty cfg) cfg"
    and "\<exists>t ta. a1 = (set_selected_total (sm_slot (slot_mode_of (dq_op_kind req))) t a)\<lparr>ba_total_a := ta\<rparr> \<and>
      (if sm_decreasing (slot_mode_of (dq_op_kind req))
       then selected_total (sm_slot (slot_mode_of (dq_op_kind req))) a = t + moved_qty req qty cfg \<and> ta = ba_total_a a + changed
       else t = selected_total (sm_slot (slot_mode_of (dq_op_kind req))) a + moved_qty req qty cfg \<and> ba_total_a a = ta + changed \<and> changed = amount)"
  using assms
  by (auto simp: lane_step_def decrease_lane_def increase_lane_def moved_qty_def Let_def min_def
      split: if_splits option.splits sum.splits dest!: checked_u64_SomeD)

lemma conversions_not_health:
  "amount_to_qty amount den up \<noteq> Inl HealthTierFailed" "qty_to_amount qty den up \<noteq> Inl HealthTierFailed"
  by (auto simp: amount_to_qty_def qty_to_amount_def mul_div_ceil_u64_def mul_div_floor_u64_def Let_def split: option.splits)

lemma lane_step_not_health: "lane_step asset mode amount qty cfg a \<noteq> (cfg1, Inl HealthTierFailed)"
  using conversions_not_health(2)
  by (auto simp: lane_step_def decrease_lane_def increase_lane_def Let_def split: if_splits option.splits sum.splits)

text \<open>An attempt that got as far as the risk checks has moved the lane of the configuration.\<close>

lemma delta_moved:
  assumes "apply_delta_to_config_and_asset H req amount available pre_total cfg a h = (cfg1, h1, r)" and "r = Inl HealthTierFailed \<or> r = Inr u"
  shows "\<exists>qty a1 changed. amount_to_qty amount (denominator (sm_slot (slot_mode_of (dq_op_kind req))) a) (sm_round_amount_to_qty_up (slot_mode_of (dq_op_kind req))) = Inr qty \<and>
    lane_step (dq_asset req) (slot_mode_of (dq_op_kind req)) amount qty cfg a = (cfg1, Inr (a1, changed)) \<and>
    (r = Inr u \<longrightarrow> bu_asset_entry u = a1 \<and> bu_changed_amount u = changed)"
  using assms conversions_not_health(1) lane_step_not_health
  by (auto simp: apply_delta_to_config_and_asset_def finish_update_def Let_def split: sum.splits prod.splits option.splits)

lemma drift_move:
  assumes wf: "bt_wf (bs_user_overrides b)" and a: "map_of (bs_assets b) (dq_asset req) = Some a"
    and step: "lane_step (dq_asset req) (slot_mode_of (dq_op_kind req)) amount qty (config_for_user user b) a = (cfg1, Inr (a1, changed))"
  shows "drift x slot (put_config user cfg1 b) = drift x slot b +
      (if x = dq_asset req \<and> even slot = even (sm_slot (slot_mode_of (dq_op_kind req)))
       then (if sm_decreasing (slot_mode_of (dq_op_kind req)) then - int (moved_qty req qty (config_for_user user b)) else int (moved_qty req qty (config_for_user user b))) else 0)"
    and "drift x slot ((put_config user cfg1 b)\<lparr>bs_assets := bt_insert (dq_asset req) a1 (bs_assets b)\<rparr>) = drift x slot b"
proof -
  let ?slot = "sm_slot (slot_mode_of (dq_op_kind req))" and ?dec = "sm_decreasing (slot_mode_of (dq_op_kind req))"
  let ?cfg = "config_for_user user b" and ?m = "moved_qty req qty (config_for_user user b)"
  note moves = lane_step_moves [OF step]
  have le: "?dec \<Longrightarrow> ?m \<le> lane_qty (dq_asset req) ?slot ?cfg" by (simp add: moved_qty_def Let_def)
  have sum: "int (lane_sum x slot (put_config user cfg1 b)) + int (lane_qty x slot ?cfg) = int (lane_sum x slot b) + int (lane_qty x slot cfg1)"
    using lane_sum_put [OF wf, of x slot user cfg1] by linarith
  have same: "even slot = even ?slot \<Longrightarrow> lane_qty x slot c = lane_qty x ?slot c" for c
    by (simp add: lane_qty_def lane_def)
  have q: "int (lane_qty x slot cfg1) = int (lane_qty x slot ?cfg) +
      (if x = dq_asset req \<and> even slot = even ?slot then (if ?dec then - int ?m else int ?m) else 0)"
    using le same unfolding moves(1) by (auto simp: lane_qty_put of_nat_diff)
  show first: "drift x slot (put_config user cfg1 b) = drift x slot b +
      (if x = dq_asset req \<and> even slot = even ?slot then (if ?dec then - int ?m else int ?m) else 0)"
    using sum q by (simp add: drift_def lane_total_def)
  have sel: "even slot = even ?slot \<Longrightarrow> selected_total slot a = selected_total ?slot a" by (simp add: selected_total_def)
  have "int (lane_total x slot ((put_config user cfg1 b)\<lparr>bs_assets := bt_insert (dq_asset req) a1 (bs_assets b)\<rparr>)) = int (lane_total x slot b) +
      (if x = dq_asset req \<and> even slot = even ?slot then (if ?dec then - int ?m else int ?m) else 0)"
    using moves(2) a sel by (auto simp: lane_total_def opt_val_simps split: if_splits)
  moreover have "lane_sum x slot ((put_config user cfg1 b)\<lparr>bs_assets := bt_insert (dq_asset req) a1 (bs_assets b)\<rparr>) = lane_sum x slot (put_config user cfg1 b)"
    by (simp add: lane_sum_def)
  ultimately show "drift x slot ((put_config user cfg1 b)\<lparr>bs_assets := bt_insert (dq_asset req) a1 (bs_assets b)\<rparr>) = drift x slot b"
    using first by (simp add: drift_def lane_total_def)
qed

section \<open>One attempt\<close>






lemma attempt_unhealthy:
  assumes "try_apply_user_asset_delta_once H req amount (b, h) = ((b', h'), BoleError HealthTierFailed)"
  shows "\<exists>a available pre_total cfg1 h1 h2. map_of (bs_assets b) (dq_asset req) = Some a \<and>
    apply_delta_to_config_and_asset H req amount available pre_total (config_for_user (dq_user_key req) b) a h1 = (cfg1, h2, Inl HealthTierFailed) \<and>
    b' = put_config (dq_user_key req) cfg1 b"
proof -
  have c: "check_applied req t u \<noteq> Inl HealthTierFailed" for t u by (auto simp: check_applied_def Let_def split: option.splits)
  show ?thesis
    using assms c by (auto simp: try_apply_user_asset_delta_once_def Let_def split: if_splits option.splits prod.splits sum.splits) blast
qed


text \<open>C40.  A change that the health check refuses is not taken back: the asset is unchanged, but the lane of the user, or of everybody without a
  configuration of their own, has moved by the quantity of the request (for a decrease by at most what the lane held), so users and asset no longer
  agree unless that quantity is zero.\<close>

theorem refused_delta_leaks:
  assumes "bt_wf (bs_user_overrides b)" and "try_apply_user_asset_delta_once H req amount (b, h) = ((b', h'), BoleError HealthTierFailed)"
  shows "bs_assets b' = bs_assets b \<and>
    (\<exists>a qty. map_of (bs_assets b) (dq_asset req) = Some a \<and>
      amount_to_qty amount (denominator (sm_slot (slot_mode_of (dq_op_kind req))) a) (sm_round_amount_to_qty_up (slot_mode_of (dq_op_kind req))) = Inr qty \<and>
      drift (dq_asset req) (sm_slot (slot_mode_of (dq_op_kind req))) b' = drift (dq_asset req) (sm_slot (slot_mode_of (dq_op_kind req))) b +
        (if sm_decreasing (slot_mode_of (dq_op_kind req)) then - int (moved_qty req qty (config_for_user (dq_user_key req) b))
         else int (moved_qty req qty (config_for_user (dq_user_key req) b))))"
proof -
  obtain a available pre_total cfg1 h1 h2 where a: "map_of (bs_assets b) (dq_asset req) = Some a"
    and d: "apply_delta_to_config_and_asset H req amount available pre_total (config_for_user (dq_user_key req) b) a h1 = (cfg1, h2, Inl HealthTierFailed)"
    and b': "b' = put_config (dq_user_key req) cfg1 b"
    using attempt_unhealthy [OF assms(2)] by blast
  obtain qty a1 changed where q: "amount_to_qty amount (denominator (sm_slot (slot_mode_of (dq_op_kind req))) a) (sm_round_amount_to_qty_up (slot_mode_of (dq_op_kind req))) = Inr qty"
    and step: "lane_step (dq_asset req) (slot_mode_of (dq_op_kind req)) amount qty (config_for_user (dq_user_key req) b) a = (cfg1, Inr (a1, changed))"
    using delta_moved [OF d] by blast
  show ?thesis unfolding b' using a q drift_move(1) [OF assms(1) a step] by simp
qed

section \<open>Rounding\<close>

lemma slot_modes:
  "slot_mode_of 0 = \<lparr>sm_slot = 0, sm_opposite_slot = 1, sm_decreasing = False, sm_round_amount_to_qty_up = True, sm_round_qty_to_amount_up = True\<rparr>"
  "slot_mode_of 1 = \<lparr>sm_slot = 1, sm_opposite_slot = 0, sm_decreasing = False, sm_round_amount_to_qty_up = False, sm_round_qty_to_amount_up = False\<rparr>"
  "slot_mode_of 2 = \<lparr>sm_slot = 0, sm_opposite_slot = 1, sm_decreasing = True, sm_round_amount_to_qty_up = False, sm_round_qty_to_amount_up = True\<rparr>"
  "slot_mode_of 3 = \<lparr>sm_slot = 1, sm_opposite_slot = 0, sm_decreasing = True, sm_round_amount_to_qty_up = True, sm_round_qty_to_amount_up = False\<rparr>"
  by code_simp+

lemmas slot_modes_Suc = slot_modes(2) [unfolded One_nat_def]

lemma quotient_bounds:
  assumes "0 < d"
  shows "(p::nat) div d * d \<le> p" "p < p div d * d + d" "p mod d \<noteq> 0 \<Longrightarrow> p div d * d < p" "p mod d = 0 \<Longrightarrow> p div d * d = p"
proof -
  have e: "p = p div d * d + p mod d" by (rule div_mult_mod_eq [symmetric])
  have m: "p mod d < d" using assms by (rule mod_less_divisor)
  show "p div d * d \<le> p" "p < p div d * d + d" using e m by linarith+
  show "p mod d \<noteq> 0 \<Longrightarrow> p div d * d < p" "p mod d = 0 \<Longrightarrow> p div d * d = p" using e by linarith+
qed

lemma floor_div: "mul_div_floor_u64 x y d = Inr q \<Longrightarrow> q * d \<le> x * y \<and> x * y < q * d + d \<and> 0 < d"
  using quotient_bounds [of d "x * y"] by (auto simp: mul_div_floor_u64_def checked_mul_cap_def split: if_splits option.splits)

lemma ceil_div: "mul_div_ceil_u64 x y d = Inr q \<Longrightarrow> x * y \<le> q * d \<and> q * d < x * y + d \<and> 0 < d"
proof -
  assume q: "mul_div_ceil_u64 x y d = Inr q"
  then have q: "q = x * y div d + (if x * y mod d \<noteq> 0 then 1 else 0)" and d: "0 < d"
    by (auto simp: mul_div_ceil_u64_def checked_mul_cap_def Let_def split: if_splits option.splits)
  note b = quotient_bounds [OF d, of "x * y"]
  show ?thesis
  proof (cases "x * y mod d = 0")
    case True
    then have "q * d = x * y" using q b(4) by simp
    then show ?thesis using d by linarith
  next
    case False
    then have "q * d = x * y div d * d + d" using q by (simp add: add_mult_distrib)
    then show ?thesis using b(2) b(3) [OF False] d by linarith
  qed
qed

text \<open>C37.  The quantity of a change is the exact quotient rounded by the kind of operation: up for the kinds 0 and 3, so that it is worth at least the
  amount, down for 1 and 2, so that it is worth at most the amount, always by less than one unit.  The amount that moves is the requested
  one, except where a decrease empties the lane: with kind 2 it is then at most the requested one, with kind 3 it may exceed it, by less
  than the worth of one unit.\<close>

theorem delta_rounding:
  assumes "dq_op_kind req < 4" and "amount_to_qty amount (denominator (sm_slot (slot_mode_of (dq_op_kind req))) a) (sm_round_amount_to_qty_up (slot_mode_of (dq_op_kind req))) = Inr qty"
    and "lane_step asset (slot_mode_of (dq_op_kind req)) amount qty cfg a = (cfg1, Inr (a1, changed))"
  shows "(dq_op_kind req \<in> {0, 3} \<longrightarrow> amount * PRICE_SIZE_SCALE \<le> qty * denominator (sm_slot (slot_mode_of (dq_op_kind req))) a \<and>
      qty * denominator (sm_slot (slot_mode_of (dq_op_kind req))) a < amount * PRICE_SIZE_SCALE + denominator (sm_slot (slot_mode_of (dq_op_kind req))) a) \<and>
    (dq_op_kind req \<in> {1, 2} \<longrightarrow> qty * denominator (sm_slot (slot_mode_of (dq_op_kind req))) a \<le> amount * PRICE_SIZE_SCALE \<and>
      amount * PRICE_SIZE_SCALE < qty * denominator (sm_slot (slot_mode_of (dq_op_kind req))) a + denominator (sm_slot (slot_mode_of (dq_op_kind req))) a) \<and>
    (dq_op_kind req \<in> {0, 1} \<longrightarrow> changed = amount) \<and> (dq_op_kind req = 2 \<longrightarrow> changed \<le> amount) \<and>
    (dq_op_kind req = 3 \<longrightarrow> changed * PRICE_SIZE_SCALE < amount * PRICE_SIZE_SCALE + denominator 1 a)"
proof -
  let ?S = PRICE_SIZE_SCALE
  have S: "0 < ?S" by (simp add: PRICE_SIZE_SCALE_def)
  have op: "dq_op_kind req = 0 \<or> dq_op_kind req = 1 \<or> dq_op_kind req = 2 \<or> dq_op_kind req = 3" using assms(1) by linarith
  have closing: "x * d \<le> amount * ?S \<Longrightarrow> qty_to_amount x d True = Inr c \<Longrightarrow> c \<le> amount" for x d c
  proof -
    assume le: "x * d \<le> amount * ?S" and c: "qty_to_amount x d True = Inr c"
    have "c * ?S < x * d + ?S" using ceil_div [of x d ?S c] c by (simp add: qty_to_amount_def)
    then have "c * ?S < Suc amount * ?S" using le by simp
    then show "c \<le> amount" unfolding mult_less_cancel2 by simp
  qed
  have withdraw: "x * d < amount * ?S + d \<Longrightarrow> qty_to_amount x d False = Inr c \<Longrightarrow> c * ?S < amount * ?S + d" for x d c
    using floor_div [of x d ?S c] by (simp add: qty_to_amount_def)
  have mono: "x \<le> qty \<Longrightarrow> x * d \<le> qty * d" for x d by (rule mult_le_mono1)
  from op show ?thesis
  proof (elim disjE)
    assume k: "dq_op_kind req = 0"
    then show ?thesis using assms(2,3) ceil_div [of amount ?S "denominator 0 a" qty]
      by (auto simp: slot_modes amount_to_qty_def lane_step_def increase_lane_def Let_def split: if_splits option.splits)
  next
    assume k: "dq_op_kind req = 1"
    then show ?thesis using assms(2,3) floor_div [of amount ?S "denominator 1 a" qty]
      by (auto simp: slot_modes_Suc amount_to_qty_def lane_step_def increase_lane_def Let_def split: if_splits option.splits)
  next
    assume k: "dq_op_kind req = 2"
    have q: "qty * denominator 0 a \<le> amount * ?S" "amount * ?S < qty * denominator 0 a + denominator 0 a"
      using assms(2) k floor_div [of amount ?S "denominator 0 a" qty] by (simp_all add: slot_modes amount_to_qty_def split: if_splits)
    have "changed \<le> amount"
    proof (cases "lane_qty asset 0 cfg \<le> qty")
      case True
      then have "qty_to_amount (lane_qty asset 0 cfg) (denominator 0 a) True = Inr changed"
        using assms(3) k by (auto simp: slot_modes lane_step_def decrease_lane_def Let_def split: if_splits option.splits sum.splits)
      from closing [OF order_trans [OF mono [OF True] q(1)] this] show ?thesis .
    next
      case False
      then show ?thesis
        using assms(3) k by (auto simp: slot_modes lane_step_def decrease_lane_def Let_def split: if_splits option.splits sum.splits)
    qed
    then show ?thesis using k q by (simp add: slot_modes)
  next
    assume k: "dq_op_kind req = 3"
    have q: "amount * ?S \<le> qty * denominator 1 a" "qty * denominator 1 a < amount * ?S + denominator 1 a"
      using assms(2) k ceil_div [of amount ?S "denominator 1 a" qty] by (simp_all add: slot_modes amount_to_qty_def split: if_splits)
    have "changed * ?S < amount * ?S + denominator 1 a"
    proof (cases "lane_qty asset 1 cfg \<le> qty")
      case True
      then have c: "qty_to_amount (lane_qty asset 1 cfg) (denominator 1 a) False = Inr changed"
        using assms(3) k by (auto simp: slot_modes lane_step_def decrease_lane_def Let_def split: if_splits option.splits sum.splits)
      have "lane_qty asset 1 cfg * denominator 1 a < amount * ?S + denominator 1 a"
        using mono [OF True, of "denominator 1 a"] q(2) by linarith
      from withdraw [OF this c] show ?thesis .
    next
      case False
      then have "changed = amount"
        using assms(3) k by (auto simp: slot_modes lane_step_def decrease_lane_def Let_def split: if_splits option.splits sum.splits)
      then show ?thesis using le_less_trans [OF q] by (simp only:)
    qed
    then show ?thesis using k q by (simp add: slot_modes)
  qed
qed

section \<open>Attempts\<close>

definition hooks_with_tier :: "nat \<Rightarrow> unit risk_hooks" where
  "hooks_with_tier tier = \<lparr>derive_amount = (\<lambda>cfg asset op cap mode h. (Inr cap, h)), validate_asset_capacity = (\<lambda>a h. (Inr u64_max, h)),
     recompute_health = (\<lambda>cfg asset mode h. (Inr \<lparr>ht_tier = tier, ht_total_a = 0, ht_total_b = 0, ht_total_c = 0, ht_total_d = 0, ht_total_e = 0\<rparr>, h)),
     sufficient_balance = (\<lambda>cfg a asset slot dec h. (11, h)), validate_cross_state = (\<lambda>old new available asset slot dec a h. (17, h)),
     post_process_update = (\<lambda>u t h. (u, h)), address_volume_limit = (\<lambda>user asset h. (None, h))\<rparr>"

definition sample_bole :: bole_state where
  "sample_bole = \<lparr>bs_default_config = \<lparr>bc_header_0 = 0, bc_header_8 = 0, bc_header_10 = 0, bc_exposures = []\<rparr>, bs_user_overrides = [],
     bs_assets = [(1, bole_asset_default\<lparr>ba_total_a := 9, ba_lane0_denominator := 100000000000000, ba_lane1_denominator := 100000000000000\<rparr>)]\<rparr>"

definition sample_borrow :: apply_delta_req where
  "sample_borrow = \<lparr>dq_asset = 1, dq_amount = 4, dq_min_health_tier = 1, dq_risk_mode = 0, dq_user_key = 5, dq_op_kind = 0,
     dq_force_exact_amount = True, dq_cap_amount = 9\<rparr>"

lemmas bole_eval = try_apply_user_asset_delta_once_def apply_delta_to_config_and_asset_def slot_modes lane_step_def increase_lane_def
  post_checks_def finish_update_def check_applied_def hooks_with_tier_def sample_bole_def sample_borrow_def bole_asset_default_def
  total_before_update_def config_for_user_def put_config_def bt_contains_def entry_or_def denominator_def amount_to_qty_def mul_div_ceil_u64_def
  checked_mul_cap_def u128_max_def u64_max_def PRICE_SIZE_SCALE_def lane_qty_def exposure_def exposure_default_def lane_def put_lane_def set_lane_qty_def
  checked_add_u64_def checked_sub_u64_def selected_total_def set_selected_total_def from_balance_sentinel_def from_cross_state_sentinel_def


lemma sample_refused: "\<exists>b'. try_apply_user_asset_delta_once (hooks_with_tier 0) sample_borrow 4 (sample_bole, ()) = ((b', ()), BoleError HealthTierFailed)"
  by (simp add: bole_eval Let_def)

lemma sample_wf: "bt_wf (bs_user_overrides sample_bole)"
  by (simp add: sample_bole_def)


theorem refused_delta_leaks_witness:
  "\<exists>b'. try_apply_user_asset_delta_once (hooks_with_tier 0) sample_borrow 4 (sample_bole, ()) = ((b', ()), BoleError HealthTierFailed) \<and>
    drift 1 0 b' = drift 1 0 sample_bole + 4"
proof -
  obtain b' where e: "try_apply_user_asset_delta_once (hooks_with_tier 0) sample_borrow 4 (sample_bole, ()) = ((b', ()), BoleError HealthTierFailed)"
    using sample_refused by blast
  have m: "slot_mode_of (dq_op_kind sample_borrow) = \<lparr>sm_slot = 0, sm_opposite_slot = 1, sm_decreasing = False, sm_round_amount_to_qty_up = True, sm_round_qty_to_amount_up = True\<rparr>"
    "dq_asset sample_borrow = 1" by (simp_all add: sample_borrow_def slot_modes)
  have q: "map_of (bs_assets sample_bole) 1 = Some a \<Longrightarrow> amount_to_qty 4 (denominator 0 a) True = Inr qty \<Longrightarrow> qty = 4" for a qty
    by (auto simp: bole_eval Let_def)
  from refused_delta_leaks [OF sample_wf e] e q show ?thesis unfolding m by (auto simp: moved_qty_def m)
qed

theorem delta_rounding_witness:
  "let a = bole_asset_default\<lparr>ba_total_a := 9, ba_lane0_denominator := 30000000000000\<rparr> in
   \<exists>qty cfg1 a1 changed. amount_to_qty 4 (denominator 0 a) True = Inr qty \<and>
     lane_step 1 (slot_mode_of 0) 4 qty (bs_default_config sample_bole) a = (cfg1, Inr (a1, changed)) \<and> changed = 4 \<and> qty = 14"
proof -
  let ?a = "bole_asset_default\<lparr>ba_total_a := 9, ba_lane0_denominator := 30000000000000\<rparr>"
  have q: "amount_to_qty 4 (denominator 0 ?a) True = Inr 14" by (simp add: bole_eval Let_def)
  have "\<exists>cfg1 a1 changed. lane_step 1 (slot_mode_of 0) 4 14 (bs_default_config sample_bole) ?a = (cfg1, Inr (a1, changed))"
    by (simp add: bole_eval Let_def)
  then obtain cfg1 a1 changed where s: "lane_step 1 (slot_mode_of 0) 4 14 (bs_default_config sample_bole) ?a = (cfg1, Inr (a1, changed))" by blast
  have "dq_op_kind sample_borrow = 0" by (simp add: sample_borrow_def)
  with delta_rounding [of sample_borrow 4 ?a 14 1 "bs_default_config sample_bole" cfg1 a1 changed] q s
  show ?thesis unfolding Let_def by (auto simp: slot_modes)
qed

end
