(* ===== verification/Trading.thy ===== *)
theory Trading
  imports Rust_Prelude "HOL-Library.Product_Lexorder"
begin

text \<open>
  The trading handlers of the exchange, \<^verbatim>\<open>src/l1/exchange/impl_trading.rs\<close>: books with queues per price, the execution of an order against a
  book, cancellation and replacement, the cap on the actions of a user, and the numbering of fills.  The matching loop is
  a partial function, since it need not end; everything that calls it returns an option.
\<close>

section \<open>Constants\<close>

definition ASSETS_PER_DEX :: nat where "ASSETS_PER_DEX = 10000"
definition USER_ACTION_BASE_LIMIT :: nat where "USER_ACTION_BASE_LIMIT = 1000"
definition USER_ACTION_PRIVILEGED_LIMIT :: nat where "USER_ACTION_PRIVILEGED_LIMIT = 10000"
definition USER_ACTION_VOLUME_STEP :: nat where "USER_ACTION_VOLUME_STEP = 500000000"
definition USER_ACTION_MAX_VOLUME_BONUS :: nat where "USER_ACTION_MAX_VOLUME_BONUS = 4000"
definition MAX_LIMIT_PX :: nat where "MAX_LIMIT_PX = 1000000000000000"
definition MAX_MATCH_NOTIONAL :: nat where "MAX_MATCH_NOTIONAL = 9223372036854775806"
definition MIN_ORDER_NOTIONAL :: nat where "MIN_ORDER_NOTIONAL = 9999999"
definition PERP_NOTIONAL_PRODUCT_SCALE :: nat where "PERP_NOTIONAL_PRODUCT_SCALE = 1000000"
definition SPOT_NOTIONAL_PRODUCT_SCALE :: nat where "SPOT_NOTIONAL_PRODUCT_SCALE = 100000000"

definition STATUS_SPOT_MARKET_MISSING :: nat where "STATUS_SPOT_MARKET_MISSING = 98"
definition STATUS_ACTION_CAP :: nat where "STATUS_ACTION_CAP = 195"
definition STATUS_INTERNAL_UNWRAP :: nat where "STATUS_INTERNAL_UNWRAP = 321"
definition STATUS_SUCCESS :: nat where "STATUS_SUCCESS = 390"
definition STATUS_MODIFY :: nat where "STATUS_MODIFY = 391"
definition STATUS_MODIFY_REPLACED :: nat where "STATUS_MODIFY_REPLACED = 392"
definition STATUS_QUEUE_MASK :: nat where "STATUS_QUEUE_MASK = 32771"
definition STATUS_POST_ONLY_CROSSES :: nat where "STATUS_POST_ONLY_CROSSES = 32774"
definition STATUS_IOC_NOT_MARKETABLE :: nat where "STATUS_IOC_NOT_MARKETABLE = 32776"
definition STATUS_AVAILABLE_SIZE :: nat where "STATUS_AVAILABLE_SIZE = 32786"
definition STATUS_NO_VALID_CROSS :: nat where "STATUS_NO_VALID_CROSS = 32787"
definition STATUS_MISSING_REPLACE_SLOT :: nat where "STATUS_MISSING_REPLACE_SLOT = 32789"
definition STATUS_DUPLICATE_ORDER :: nat where "STATUS_DUPLICATE_ORDER = 32791"

lemmas status_defs = STATUS_SPOT_MARKET_MISSING_def STATUS_ACTION_CAP_def STATUS_INTERNAL_UNWRAP_def STATUS_SUCCESS_def STATUS_MODIFY_def
  STATUS_MODIFY_REPLACED_def STATUS_QUEUE_MASK_def STATUS_POST_ONLY_CROSSES_def STATUS_IOC_NOT_MARKETABLE_def STATUS_AVAILABLE_SIZE_def
  STATUS_NO_VALID_CROSS_def STATUS_MISSING_REPLACE_SLOT_def STATUS_DUPLICATE_ORDER_def

section \<open>Data\<close>

datatype exchange_domain = MainBook | AltBook | PerDex

datatype market_kind = Perp | Spot

datatype side = Buy | Sell

definition opposite :: "side \<Rightarrow> side" where
  "opposite sd = (case sd of Buy \<Rightarrow> Sell | Sell \<Rightarrow> Buy)"

text \<open>The cast of a size wraps, and so does the negation (with overflow checks it panics, for a size of \<open>2 ^ 63\<close> only; the sizes that a
  book admits are below it).\<close>

definition signed_qty :: "side \<Rightarrow> nat \<Rightarrow> int" where
  "signed_qty sd sz = (case sd of Buy \<Rightarrow> wrap_i64 (- wrap_i64 (int sz)) | Sell \<Rightarrow> wrap_i64 (int sz))"

definition crosses :: "side \<Rightarrow> nat \<Rightarrow> nat \<Rightarrow> bool" where
  "crosses sd limit_px maker_px = (case sd of Buy \<Rightarrow> maker_px \<le> limit_px | Sell \<Rightarrow> limit_px \<le> maker_px)"

datatype time_in_force = Alo | Ioc | Gtc | FrontendMarket | LiquidationMarket | OtherTif nat

definition must_be_marketable :: "time_in_force \<Rightarrow> bool" where
  "must_be_marketable tif = (case tif of Ioc \<Rightarrow> True | FrontendMarket \<Rightarrow> True | LiquidationMarket \<Rightarrow> True | _ \<Rightarrow> False)"

record order_request =
  rq_user :: address
  rq_oid :: nat
  rq_asset :: nat
  rq_side :: side
  rq_limit_px :: nat
  rq_sz :: nat
  rq_reduce_only :: bool
  rq_tif :: time_in_force
  rq_cloid :: "nat option"
  rq_timestamp :: nat
  rq_builder_nonce :: nat
  rq_order_kind :: nat
  rq_is_position_tpsl :: bool
  rq_use_user_price_qty_lookup :: bool
  rq_allow_trigger_cleanup :: bool
  rq_owned_fill_vec :: bool

definition eligible_for_expanded_cap :: "order_request \<Rightarrow> bool" where
  "eligible_for_expanded_cap rq \<longleftrightarrow> rq_order_kind rq = 2 \<and> \<not> rq_reduce_only rq"

record transfer_request =
  tq_user :: address
  tq_asset :: nat
  tq_side :: side
  tq_px :: nat
  tq_sz :: nat
  tq_account_kind :: nat
  tq_exempt_flags :: nat

definition transfer_eligible :: "transfer_request \<Rightarrow> bool" where
  "transfer_eligible t \<longleftrightarrow> tq_account_kind t = 2 \<and> even (tq_exempt_flags t)"

record asset_context =
  ac_tick_sz :: nat
  ac_oracle_px :: nat
  ac_min_order_sz :: nat
  ac_max_order_sz :: nat
  ac_price_limit_enabled :: bool

record resting_order =
  ro_user :: address
  ro_oid :: nat
  ro_asset :: nat
  ro_side :: side
  ro_px :: nat
  ro_resting_sz :: nat
  ro_original_sz :: nat
  ro_reduce_only :: bool
  ro_tif :: time_in_force
  ro_cloid :: "nat option"
  ro_timestamp :: nat
  ro_builder_nonce :: nat
  ro_order_kind :: nat

definition from_request :: "order_request \<Rightarrow> nat \<Rightarrow> resting_order" where
  "from_request rq resting_sz =
     \<lparr>ro_user = rq_user rq, ro_oid = rq_oid rq, ro_asset = rq_asset rq, ro_side = rq_side rq, ro_px = rq_limit_px rq, ro_resting_sz = resting_sz,
      ro_original_sz = rq_sz rq, ro_reduce_only = rq_reduce_only rq, ro_tif = rq_tif rq, ro_cloid = rq_cloid rq, ro_timestamp = rq_timestamp rq,
      ro_builder_nonce = rq_builder_nonce rq, ro_order_kind = rq_order_kind rq\<rparr>"

record fill =
  fl_id :: nat
  fl_taker :: address
  fl_maker :: address
  fl_taker_oid :: nat
  fl_maker_oid :: nat
  fl_asset :: nat
  fl_px :: nat
  fl_sz :: nat
  fl_ntl :: nat
  fl_taker_side :: side

record signed_sz_delta =
  sd_user :: address
  sd_asset :: nat
  sd_delta :: int
  sd_px :: nat
  sd_ntl :: nat
  sd_is_taker :: bool

record order_telemetry =
  ot_user :: address
  ot_market :: market_kind
  ot_success :: bool
  ot_status :: nat
  ot_notional_scaled :: nat

datatype trading_event =
    FillEvent fill
  | RestEvent address nat nat nat nat
  | CancelEvent address nat nat
  | MakerStatus address nat nat
  | BestBidAsk nat "nat option" "nat option"
  | Telemetry order_telemetry

record trading_result =
  tr_status :: nat
  tr_remaining_sz :: nat
  tr_fills :: "fill list"
  tr_deltas :: "signed_sz_delta list"
  tr_events :: "trading_event list"
  tr_rested_oid :: "nat option"

definition rejected :: "nat \<Rightarrow> trading_result" where
  "rejected status = \<lparr>tr_status = status, tr_remaining_sz = 0, tr_fills = [], tr_deltas = [], tr_events = [], tr_rested_oid = None\<rparr>"

definition ok_result :: "nat \<Rightarrow> trading_result" where
  "ok_result remaining_sz =
     \<lparr>tr_status = STATUS_SUCCESS, tr_remaining_sz = remaining_sz, tr_fills = [], tr_deltas = [], tr_events = [], tr_rested_oid = None\<rparr>"

definition push_event :: "trading_event \<Rightarrow> trading_result \<Rightarrow> trading_result" where
  "push_event e r = r\<lparr>tr_events := tr_events r @ [e]\<rparr>"

record modify_request =
  mq_old_user :: address
  mq_old_oid :: nat
  mq_replacement :: order_request
  mq_require_existing_slot :: bool

record modify_result =
  mr_status :: nat
  mr_inner_status :: nat
  mr_old_order :: "resting_order option"
  mr_replacement :: trading_result

text \<open>A level is the queue of order ids at one price.\<close>

type_synonym price_level = "nat list"

record order_book =
  ob_bids :: "(nat, price_level) btree"
  ob_asks :: "(nat, price_level) btree"
  ob_orders :: "(nat, resting_order) btree"
  ob_user_oids :: "(address \<times> nat, nat) btree"
  ob_user_price_qty :: "(address \<times> nat, int) btree"
  ob_best_bid :: "nat option"
  ob_best_ask :: "nat option"

definition empty_order_book :: order_book where
  "empty_order_book = \<lparr>ob_bids = [], ob_asks = [], ob_orders = [], ob_user_oids = [], ob_user_price_qty = [], ob_best_bid = None, ob_best_ask = None\<rparr>"

section \<open>The book\<close>

definition side_levels :: "side \<Rightarrow> order_book \<Rightarrow> (nat, price_level) btree" where
  "side_levels sd b = (case sd of Buy \<Rightarrow> ob_bids b | Sell \<Rightarrow> ob_asks b)"

definition set_side_levels :: "side \<Rightarrow> (nat, price_level) btree \<Rightarrow> order_book \<Rightarrow> order_book" where
  "set_side_levels sd ls b = (case sd of Buy \<Rightarrow> b\<lparr>ob_bids := ls\<rparr> | Sell \<Rightarrow> b\<lparr>ob_asks := ls\<rparr>)"

definition best_crossable_px :: "side \<Rightarrow> nat \<Rightarrow> order_book \<Rightarrow> nat option" where
  "best_crossable_px sd limit_px b = (case sd of
      Buy \<Rightarrow> (case bt_first_key (ob_asks b) of Some px \<Rightarrow> if px \<le> limit_px then Some px else None | None \<Rightarrow> None)
    | Sell \<Rightarrow> (case bt_last_key (ob_bids b) of Some px \<Rightarrow> if limit_px \<le> px then Some px else None | None \<Rightarrow> None))"

definition is_marketable :: "side \<Rightarrow> nat \<Rightarrow> order_book \<Rightarrow> bool" where
  "is_marketable sd limit_px b \<longleftrightarrow> best_crossable_px sd limit_px b \<noteq> None"

definition queue_at :: "(nat, price_level) btree \<Rightarrow> nat \<Rightarrow> nat list" where
  "queue_at ls px = (case map_of ls px of None \<Rightarrow> [] | Some q \<Rightarrow> q)"

definition level_snapshot :: "side \<Rightarrow> nat \<Rightarrow> order_book \<Rightarrow> nat list" where
  "level_snapshot sd px b = queue_at (side_levels sd b) px"

definition refresh_best_bid_ask :: "order_book \<Rightarrow> order_book" where
  "refresh_best_bid_ask b = b\<lparr>ob_best_bid := bt_last_key (ob_bids b), ob_best_ask := bt_first_key (ob_asks b)\<rparr>"

definition push_back :: "nat \<Rightarrow> nat \<Rightarrow> (nat, price_level) btree \<Rightarrow> (nat, price_level) btree" where
  "push_back px oid ls = bt_insert px (queue_at ls px @ [oid]) ls"

definition insert_resting :: "resting_order \<Rightarrow> order_book \<Rightarrow> order_book" where
  "insert_resting ord b =
     (let b1 = b\<lparr>ob_orders := bt_insert (ro_oid ord) ord (ob_orders b),
                 ob_user_oids := bt_insert (ro_user ord, ro_oid ord) (ro_oid ord) (ob_user_oids b),
                 ob_user_price_qty := bt_insert (ro_user ord, ro_oid ord) (signed_qty (ro_side ord) (ro_resting_sz ord)) (ob_user_price_qty b)\<rparr>
      in refresh_best_bid_ask (set_side_levels (ro_side ord) (push_back (ro_px ord) (ro_oid ord) (side_levels (ro_side ord) b1)) b1))"

definition retain_others :: "nat \<Rightarrow> nat \<Rightarrow> (nat, price_level) btree \<Rightarrow> (nat, price_level) btree" where
  "retain_others px oid ls = (case map_of ls px of None \<Rightarrow> ls | Some q \<Rightarrow> bt_insert px (filter (\<lambda>x. x \<noteq> oid) q) ls)"

definition cut_if_empty :: "nat \<Rightarrow> (nat, price_level) btree \<Rightarrow> (nat, price_level) btree" where
  "cut_if_empty px ls = (case map_of ls px of Some [] \<Rightarrow> bt_remove px ls | _ \<Rightarrow> ls)"

definition remove_empty_levels :: "side \<Rightarrow> nat \<Rightarrow> order_book \<Rightarrow> order_book" where
  "remove_empty_levels sd px b = set_side_levels sd (cut_if_empty px (side_levels sd b)) b"

text \<open>An order that is missing from the map of orders has lost its entry in the index of users all the same.\<close>

definition remove_order :: "address \<Rightarrow> nat \<Rightarrow> nat \<Rightarrow> order_book \<Rightarrow> order_book \<times> (resting_order \<times> trading_event) option" where
  "remove_order user oid code b = (case map_of (ob_user_oids b) (user, oid) of
      None \<Rightarrow> (b, None)
    | Some indexed \<Rightarrow>
        (let b1 = b\<lparr>ob_user_oids := bt_remove (user, oid) (ob_user_oids b)\<rparr> in
         case map_of (ob_orders b1) indexed of
           None \<Rightarrow> (b1, None)
         | Some ord \<Rightarrow>
             (let b2 = b1\<lparr>ob_orders := bt_remove indexed (ob_orders b1),
                          ob_user_price_qty := bt_remove (ro_user ord, ro_oid ord) (ob_user_price_qty b1)\<rparr>;
                  b3 = set_side_levels (ro_side ord) (retain_others (ro_px ord) (ro_oid ord) (side_levels (ro_side ord) b2)) b2;
                  b4 = refresh_best_bid_ask (remove_empty_levels (ro_side ord) (ro_px ord) b3)
              in (b4, Some (ord, CancelEvent (ro_user ord) (ro_oid ord) code)))))"

definition update_resting_sz :: "nat \<Rightarrow> nat \<Rightarrow> order_book \<Rightarrow> order_book" where
  "update_resting_sz oid new_sz b = (case map_of (ob_orders b) oid of
      None \<Rightarrow> b
    | Some ord \<Rightarrow> b\<lparr>ob_orders := bt_insert oid (ord\<lparr>ro_resting_sz := new_sz\<rparr>) (ob_orders b),
        ob_user_price_qty := bt_insert (ro_user ord, ro_oid ord) (signed_qty (ro_side ord) new_sz) (ob_user_price_qty b)\<rparr>)"

section \<open>Checks\<close>

definition split_asset :: "nat \<Rightarrow> nat \<times> nat" where
  "split_asset asset = (asset div ASSETS_PER_DEX, asset mod ASSETS_PER_DEX)"

definition valid_tick :: "nat \<Rightarrow> nat \<Rightarrow> bool" where
  "valid_tick px tick \<longleftrightarrow> tick \<noteq> 0 \<and> px mod tick = 0"

definition checked_notional :: "nat \<Rightarrow> nat \<Rightarrow> nat option" where
  "checked_notional sz px = (case checked_mul_u64 sz px of
      None \<Rightarrow> None
    | Some ntl \<Rightarrow> if ntl \<le> MAX_MATCH_NOTIONAL then Some ntl else None)"

definition valid_notional :: "asset_context \<Rightarrow> nat \<Rightarrow> nat \<Rightarrow> bool" where
  "valid_notional ctx sz px = (case (checked_notional sz px, checked_notional sz (ac_oracle_px ctx)) of
      (Some limit_ntl, Some oracle_ntl) \<Rightarrow> limit_ntl \<le> MAX_MATCH_NOTIONAL \<and> oracle_ntl \<le> MAX_MATCH_NOTIONAL \<and> MIN_ORDER_NOTIONAL < oracle_ntl
    | _ \<Rightarrow> False)"

definition valid_order_size :: "asset_context \<Rightarrow> nat \<Rightarrow> bool" where
  "valid_order_size ctx sz \<longleftrightarrow> ac_min_order_sz ctx \<le> sz \<and> (ac_max_order_sz ctx = 0 \<or> sz \<le> ac_max_order_sz ctx)"

definition max_order_sz :: "asset_context \<Rightarrow> nat" where
  "max_order_sz ctx = (if ac_max_order_sz ctx = 0 then u64_max else ac_max_order_sz ctx)"

definition price_level_inside_oracle_band :: "side \<Rightarrow> nat \<Rightarrow> nat \<Rightarrow> bool" where
  "price_level_inside_oracle_band sd px oracle_px = (case sd of
      Buy \<Rightarrow> px \<le> saturating_mul_u64 oracle_px 5 div 4
    | Sell \<Rightarrow> saturating_mul_u64 oracle_px 3 \<le> saturating_mul_u64 px 4)"

definition is_vault_privileged :: "address \<Rightarrow> bool" where
  "is_vault_privileged user \<longleftrightarrow> unat user div 2 ^ 152 \<noteq> 0 \<and> unat user mod 2 ^ 8 = 0"

definition both_vault_privileged :: "address \<Rightarrow> address \<Rightarrow> bool" where
  "both_vault_privileged a b \<longleftrightarrow> is_vault_privileged a \<and> is_vault_privileged b"

definition best_bid_ask_event :: "nat \<Rightarrow> order_book \<Rightarrow> trading_event" where
  "best_bid_ask_event asset b = BestBidAsk asset (ob_best_bid b) (ob_best_ask b)"

definition push_bbo_event :: "order_book \<Rightarrow> nat \<Rightarrow> trading_result \<Rightarrow> trading_result" where
  "push_bbo_event b asset r = push_event (best_bid_ask_event asset b) r"

section \<open>Matching\<close>

record match_state =
  ms_book :: order_book
  ms_result :: trading_result
  ms_remaining :: nat

definition make_fill :: "order_request \<Rightarrow> resting_order \<Rightarrow> nat \<Rightarrow> nat \<Rightarrow> fill" where
  "make_fill rq maker match_sz ntl =
     \<lparr>fl_id = 0, fl_taker = rq_user rq, fl_maker = ro_user maker, fl_taker_oid = rq_oid rq, fl_maker_oid = ro_oid maker, fl_asset = rq_asset rq,
      fl_px = ro_px maker, fl_sz = match_sz, fl_ntl = ntl, fl_taker_side = rq_side rq\<rparr>"

definition make_deltas :: "order_request \<Rightarrow> resting_order \<Rightarrow> nat \<Rightarrow> nat \<Rightarrow> signed_sz_delta list" where
  "make_deltas rq maker match_sz ntl =
     [\<lparr>sd_user = ro_user maker, sd_asset = rq_asset rq, sd_delta = signed_qty (ro_side maker) match_sz, sd_px = ro_px maker, sd_ntl = ntl, sd_is_taker = False\<rparr>,
      \<lparr>sd_user = rq_user rq, sd_asset = rq_asset rq, sd_delta = signed_qty (rq_side rq) match_sz, sd_px = ro_px maker, sd_ntl = ntl, sd_is_taker = True\<rparr>]"

definition apply_match :: "order_request \<Rightarrow> resting_order \<Rightarrow> nat \<Rightarrow> nat \<Rightarrow> match_state \<Rightarrow> match_state" where
  "apply_match rq maker match_sz ntl st =
     (let fl = make_fill rq maker match_sz ntl;
          r = (ms_result st)\<lparr>tr_fills := tr_fills (ms_result st) @ [fl], tr_events := tr_events (ms_result st) @ [FillEvent fl],
                             tr_deltas := tr_deltas (ms_result st) @ make_deltas rq maker match_sz ntl\<rparr>;
          maker_remaining = ro_resting_sz maker - match_sz;
          remaining = ms_remaining st - match_sz
      in if maker_remaining = 0
         then (case remove_order (ro_user maker) (ro_oid maker) 5 (ms_book st) of
             (b, None) \<Rightarrow> \<lparr>ms_book = b, ms_result = r, ms_remaining = remaining\<rparr>
           | (b, Some (_, e)) \<Rightarrow> \<lparr>ms_book = b, ms_result = push_event e r, ms_remaining = remaining\<rparr>)
         else \<lparr>ms_book = update_resting_sz (ro_oid maker) maker_remaining (ms_book st), ms_result = r, ms_remaining = remaining\<rparr>)"

text \<open>The orders of one level; a notional out of range abandons the whole execution, with the book as it is by then.\<close>

fun match_level :: "order_request \<Rightarrow> asset_context \<Rightarrow> nat \<Rightarrow> nat list \<Rightarrow> match_state \<Rightarrow> order_book + match_state" where
  "match_level rq ctx level_px [] st = Inr st"
| "match_level rq ctx level_px (maker_oid # oids) st =
     (if ms_remaining st = 0 \<or> \<not> crosses (rq_side rq) (rq_limit_px rq) level_px then Inr st
      else case map_of (ob_orders (ms_book st)) maker_oid of
        None \<Rightarrow> match_level rq ctx level_px oids st
      | Some maker \<Rightarrow>
          if ro_user maker = rq_user rq \<or> both_vault_privileged (ro_user maker) (rq_user rq)
          then match_level rq ctx level_px oids (st\<lparr>ms_result := push_event (MakerStatus (ro_user maker) (ro_oid maker) 9) (ms_result st)\<rparr>)
          else
            (let match_sz = min (min (ms_remaining st) (ro_resting_sz maker)) (max_order_sz ctx) in
             if match_sz = 0
             then match_level rq ctx level_px oids (st\<lparr>ms_result := push_event (MakerStatus (ro_user maker) (ro_oid maker) 10) (ms_result st)\<rparr>)
             else (case checked_notional match_sz (ro_px maker) of
                 None \<Rightarrow> Inl (ms_book st)
               | Some ntl \<Rightarrow> match_level rq ctx level_px oids (apply_match rq maker match_sz ntl st))))"

text \<open>One round of the loop over the levels: the loop is left, or goes on.\<close>

datatype match_exit = Rejected order_book nat | Finished match_state

definition trade_round :: "order_request \<Rightarrow> asset_context \<Rightarrow> match_state \<Rightarrow> match_exit + match_state" where
  "trade_round rq ctx st =
     (if ms_remaining st = 0 then Inl (Finished st)
      else case best_crossable_px (rq_side rq) (rq_limit_px rq) (ms_book st) of
        None \<Rightarrow> Inl (Finished st)
      | Some level_px \<Rightarrow>
          if ac_price_limit_enabled ctx \<and> ac_oracle_px ctx \<noteq> 0 \<and> \<not> price_level_inside_oracle_band (rq_side rq) level_px (ac_oracle_px ctx)
          then Inl (if tr_fills (ms_result st) = [] then Rejected (ms_book st) STATUS_NO_VALID_CROSS else Finished st)
          else if level_snapshot (opposite (rq_side rq)) level_px (ms_book st) = []
          then Inr (st\<lparr>ms_book := remove_empty_levels (opposite (rq_side rq)) level_px (ms_book st)\<rparr>)
          else (case match_level rq ctx level_px (level_snapshot (opposite (rq_side rq)) level_px (ms_book st)) st of
              Inl b \<Rightarrow> Inl (Rejected b STATUS_QUEUE_MASK)
            | Inr st1 \<Rightarrow> Inr (st1\<lparr>ms_book := remove_empty_levels (opposite (rq_side rq)) level_px (ms_book st1)\<rparr>)))"

partial_function (option) trade_loop :: "order_request \<Rightarrow> asset_context \<Rightarrow> match_state \<Rightarrow> match_exit option" where
  "trade_loop rq ctx st = (case trade_round rq ctx st of Inl e \<Rightarrow> Some e | Inr st1 \<Rightarrow> trade_loop rq ctx st1)"

definition refuse_order :: "order_book \<Rightarrow> order_request \<Rightarrow> asset_context \<Rightarrow> nat option" where
  "refuse_order b rq ctx =
     (if bt_contains (ob_orders b) (rq_oid rq) \<or> bt_contains (ob_user_oids b) (rq_user rq, rq_oid rq) then Some STATUS_DUPLICATE_ORDER
      else if rq_limit_px rq = 0 \<or> MAX_LIMIT_PX < rq_limit_px rq \<or> \<not> valid_tick (rq_limit_px rq) (ac_tick_sz ctx) then Some STATUS_QUEUE_MASK
      else if rq_sz rq = 0 then Some STATUS_AVAILABLE_SIZE
      else if \<not> valid_order_size ctx (rq_sz rq) then Some STATUS_AVAILABLE_SIZE
      else if \<not> valid_notional ctx (rq_sz rq) (rq_limit_px rq) then Some STATUS_QUEUE_MASK
      else if rq_tif rq = Alo \<and> is_marketable (rq_side rq) (rq_limit_px rq) b then Some STATUS_POST_ONLY_CROSSES
      else if must_be_marketable (rq_tif rq) \<and> \<not> is_marketable (rq_side rq) (rq_limit_px rq) b then Some STATUS_IOC_NOT_MARKETABLE
      else None)"

definition finish_order :: "order_request \<Rightarrow> bool \<Rightarrow> match_state \<Rightarrow> order_book \<times> trading_result" where
  "finish_order rq marketable st =
     (let b = ms_book st; remaining = ms_remaining st; r = (ms_result st)\<lparr>tr_remaining_sz := remaining\<rparr> in
      if remaining = 0
      then (b, push_bbo_event b (rq_asset rq) (if rq_allow_trigger_cleanup rq then push_event (CancelEvent (rq_user rq) (rq_oid rq) 1) r else r))
      else if must_be_marketable (rq_tif rq) \<or> rq_tif rq = Alo \<and> marketable
      then (b, push_bbo_event b (rq_asset rq) r)
      else
        (let b1 = insert_resting (from_request rq remaining) b in
         (b1, push_bbo_event b1 (rq_asset rq)
            (push_event (RestEvent (rq_user rq) (rq_oid rq) (rq_asset rq) (rq_limit_px rq) remaining) (r\<lparr>tr_rested_oid := Some (rq_oid rq)\<rparr>)))))"

definition execute_book_order :: "order_book \<Rightarrow> order_request \<Rightarrow> asset_context \<Rightarrow> (order_book \<times> trading_result) option" where
  "execute_book_order b rq ctx = (case refuse_order b rq ctx of
      Some status \<Rightarrow> Some (b, rejected status)
    | None \<Rightarrow>
        (case trade_loop rq ctx \<lparr>ms_book = b, ms_result = ok_result (rq_sz rq), ms_remaining = rq_sz rq\<rparr> of
           None \<Rightarrow> None
         | Some (Rejected b1 status) \<Rightarrow> Some (b1, rejected status)
         | Some (Finished st) \<Rightarrow> Some (finish_order rq (is_marketable (rq_side rq) (rq_limit_px rq) b) st)))"

section \<open>The state of the exchange\<close>

record per_dex_state =
  pd_books :: "(nat, order_book) btree"
  pd_asset_contexts :: "(nat, asset_context) btree"
  pd_user_scaled_vlm :: "(address, nat) btree"

record exchange_state =
  xs_main :: per_dex_state
  xs_alt :: per_dex_state
  xs_per_dex :: "per_dex_state list"
  xs_spot_books :: "(nat, order_book) btree"
  xs_spot_contexts :: "(nat, asset_context) btree"
  xs_special_spot_allowlist :: "(nat, unit) btree"
  xs_base_user_scaled_vlm :: "(address, nat) btree"
  xs_user_action_count :: "(address, nat) btree"
  xs_submitted_order_count :: nat
  xs_successful_order_count :: nat
  xs_submitted_transfer_count :: nat
  xs_successful_transfer_count :: nat
  xs_next_fill_id :: nat
  xs_emitted_events :: "trading_event list"

definition book_or_new :: "(nat, order_book) btree \<Rightarrow> nat \<Rightarrow> order_book" where
  "book_or_new books asset = (case map_of books asset of None \<Rightarrow> empty_order_book | Some b \<Rightarrow> b)"

definition put_dex_book :: "nat \<Rightarrow> order_book \<Rightarrow> per_dex_state \<Rightarrow> per_dex_state" where
  "put_dex_book asset b d = d\<lparr>pd_books := bt_insert asset b (pd_books d)\<rparr>"

definition per_dex_book :: "nat \<Rightarrow> nat \<Rightarrow> exchange_state \<Rightarrow> order_book option" where
  "per_dex_book dex asset s = (if dex < length (xs_per_dex s) then Some (book_or_new (pd_books (xs_per_dex s ! dex)) asset) else None)"

definition put_per_dex_book :: "nat \<Rightarrow> nat \<Rightarrow> order_book \<Rightarrow> exchange_state \<Rightarrow> exchange_state" where
  "put_per_dex_book dex asset b s = s\<lparr>xs_per_dex := (xs_per_dex s)[dex := put_dex_book asset b (xs_per_dex s ! dex)]\<rparr>"

text \<open>The book behind \<^verbatim>\<open>book_mut\<close>, and the state once it has been changed (or only created).\<close>

definition book_mut :: "exchange_domain \<Rightarrow> nat \<Rightarrow> exchange_state \<Rightarrow> order_book option" where
  "book_mut domain asset s = (case domain of
      MainBook \<Rightarrow> Some (book_or_new (pd_books (xs_main s)) asset)
    | AltBook \<Rightarrow> Some (book_or_new (pd_books (xs_alt s)) asset)
    | PerDex \<Rightarrow> (case split_asset asset of (dex, local_asset) \<Rightarrow> per_dex_book dex local_asset s))"

definition put_book :: "exchange_domain \<Rightarrow> nat \<Rightarrow> order_book \<Rightarrow> exchange_state \<Rightarrow> exchange_state" where
  "put_book domain asset b s = (case domain of
      MainBook \<Rightarrow> s\<lparr>xs_main := put_dex_book asset b (xs_main s)\<rparr>
    | AltBook \<Rightarrow> s\<lparr>xs_alt := put_dex_book asset b (xs_alt s)\<rparr>
    | PerDex \<Rightarrow> (case split_asset asset of (dex, local_asset) \<Rightarrow> put_per_dex_book dex local_asset b s))"

section \<open>The cap on actions\<close>

definition count_of :: "(address, nat) btree \<Rightarrow> address \<Rightarrow> nat" where
  "count_of m user = (case map_of m user of None \<Rightarrow> 0 | Some n \<Rightarrow> n)"

definition total_scaled_vlm_for_user :: "address \<Rightarrow> exchange_state \<Rightarrow> nat" where
  "total_scaled_vlm_for_user user s =
     fold (\<lambda>d acc. saturating_add_u64 acc (count_of (pd_user_scaled_vlm d) user)) (xs_main s # xs_alt s # xs_per_dex s)
       (count_of (xs_base_user_scaled_vlm s) user)"

definition check_user_action_cap :: "address \<Rightarrow> bool \<Rightarrow> exchange_state \<Rightarrow> exchange_state \<times> bool" where
  "check_user_action_cap user eligible s =
     (let current = count_of (xs_user_action_count s) user;
          counted = s\<lparr>xs_user_action_count := bt_insert user (current + 1) (xs_user_action_count s)\<rparr> in
      if current < USER_ACTION_BASE_LIMIT then (counted, True)
      else if \<not> eligible then (s, False)
      else
        (let cap = (if is_vault_privileged user then USER_ACTION_PRIVILEGED_LIMIT
                    else USER_ACTION_BASE_LIMIT + min (total_scaled_vlm_for_user user s div USER_ACTION_VOLUME_STEP) USER_ACTION_MAX_VOLUME_BONUS) in
         if cap \<le> current then (s, False) else (counted, True)))"

section \<open>Fill ids\<close>

definition allocate_fill_id :: "exchange_state \<Rightarrow> nat \<times> exchange_state" where
  "allocate_fill_id s = (xs_next_fill_id s, s\<lparr>xs_next_fill_id := saturating_add_u64 (xs_next_fill_id s) 1\<rparr>)"

fun number_fills :: "fill list \<Rightarrow> exchange_state \<Rightarrow> fill list \<times> (nat \<times> nat \<times> nat) list \<times> exchange_state" where
  "number_fills [] s = ([], [], s)"
| "number_fills (f # fs) s =
     (if fl_id f = 0
      then (case allocate_fill_id s of (i, s1) \<Rightarrow> (case number_fills fs s1 of
             (fs1, reps, s2) \<Rightarrow> (f\<lparr>fl_id := i\<rparr> # fs1, (fl_taker_oid f, fl_maker_oid f, i) # reps, s2)))
      else (case number_fills fs s of (fs1, reps, s2) \<Rightarrow> (f # fs1, reps, s2)))"

definition relabel :: "(nat \<times> nat \<times> nat) list \<Rightarrow> trading_event \<Rightarrow> trading_event" where
  "relabel reps e = (case e of
      FillEvent f \<Rightarrow>
        (if fl_id f = 0
         then (case find (\<lambda>(taker_oid, maker_oid, _). fl_taker_oid f = taker_oid \<and> fl_maker_oid f = maker_oid) reps of
             None \<Rightarrow> e
           | Some (_, _, i) \<Rightarrow> FillEvent (f\<lparr>fl_id := i\<rparr>))
         else e)
    | _ \<Rightarrow> e)"

definition assign_fill_ids :: "trading_result \<Rightarrow> exchange_state \<Rightarrow> trading_result \<times> exchange_state" where
  "assign_fill_ids r s = (case number_fills (tr_fills r) s of
      (fs, reps, s1) \<Rightarrow> (r\<lparr>tr_fills := fs, tr_events := map (relabel reps) (tr_events r)\<rparr>, s1))"

section \<open>Orders\<close>

definition finish_execution ::
  "(order_book \<Rightarrow> exchange_state \<Rightarrow> exchange_state) \<Rightarrow> (order_book \<times> trading_result) option \<Rightarrow> exchange_state \<Rightarrow> (exchange_state \<times> trading_result) option" where
  "finish_execution put executed s = (case executed of
      None \<Rightarrow> None
    | Some (b, r) \<Rightarrow> (case assign_fill_ids r (put b s) of (r1, s1) \<Rightarrow> Some (s1, r1)))"

definition execute_perp_order ::
  "exchange_domain \<Rightarrow> nat \<Rightarrow> nat \<Rightarrow> order_request \<Rightarrow> asset_context \<Rightarrow> exchange_state \<Rightarrow> (exchange_state \<times> trading_result) option" where
  "execute_perp_order domain dex asset request ctx s =
     (let rq = request\<lparr>rq_asset := asset\<rparr> in
      if domain = PerDex
      then (case per_dex_book dex asset s of
          None \<Rightarrow> Some (s, rejected STATUS_INTERNAL_UNWRAP)
        | Some b \<Rightarrow> finish_execution (put_per_dex_book dex asset) (execute_book_order b rq ctx) s)
      else (case book_mut domain asset s of
          None \<Rightarrow> Some (s, rejected STATUS_INTERNAL_UNWRAP)
        | Some b \<Rightarrow> finish_execution (put_book domain asset) (execute_book_order b rq ctx) s))"

definition execute_spot_order :: "order_request \<Rightarrow> asset_context \<Rightarrow> exchange_state \<Rightarrow> (exchange_state \<times> trading_result) option" where
  "execute_spot_order rq ctx s =
     finish_execution (\<lambda>b s. s\<lparr>xs_spot_books := bt_insert (rq_asset rq) b (xs_spot_books s)\<rparr>)
       (execute_book_order (book_or_new (xs_spot_books s) (rq_asset rq)) rq ctx) s"

definition spot_market_exists :: "nat \<Rightarrow> exchange_state \<Rightarrow> bool" where
  "spot_market_exists asset s \<longleftrightarrow>
     bt_contains (xs_special_spot_allowlist s) asset \<or> bt_contains (xs_spot_contexts s) asset \<or> bt_contains (xs_spot_books s) asset"

definition after_order_execution :: "market_kind \<Rightarrow> trading_result \<Rightarrow> exchange_state \<Rightarrow> exchange_state" where
  "after_order_execution market r s =
     (let s1 = (if tr_status r = STATUS_SUCCESS then s\<lparr>xs_successful_order_count := saturating_add_u64 (xs_successful_order_count s) 1\<rparr> else s) in
      if tr_fills r = [] then s1
      else (let f = last (tr_fills r) in
        s1\<lparr>xs_emitted_events := xs_emitted_events s1 @ [Telemetry \<lparr>ot_user = fl_taker f, ot_market = market,
          ot_success = (tr_status r = STATUS_SUCCESS), ot_status = tr_status r,
          ot_notional_scaled = (case market of Perp \<Rightarrow> fl_ntl f div PERP_NOTIONAL_PRODUCT_SCALE | Spot \<Rightarrow> fl_ntl f div SPOT_NOTIONAL_PRODUCT_SCALE)\<rparr>]\<rparr>))"

definition count_submitted :: "exchange_state \<Rightarrow> exchange_state" where
  "count_submitted s = s\<lparr>xs_submitted_order_count := saturating_add_u64 (xs_submitted_order_count s) 1\<rparr>"

definition account_execution :: "market_kind \<Rightarrow> (exchange_state \<times> trading_result) option \<Rightarrow> (exchange_state \<times> trading_result) option" where
  "account_execution market executed = (case executed of None \<Rightarrow> None | Some (s, r) \<Rightarrow> Some (after_order_execution market r s, r))"

definition check_cap_and_execute_perp_order ::
  "exchange_domain \<Rightarrow> order_request \<Rightarrow> asset_context \<Rightarrow> exchange_state \<Rightarrow> (exchange_state \<times> trading_result) option" where
  "check_cap_and_execute_perp_order domain request ctx s =
     (case check_user_action_cap (rq_user request) (eligible_for_expanded_cap request) (count_submitted s) of
        (s1, False) \<Rightarrow> Some (s1, rejected STATUS_ACTION_CAP)
      | (s1, True) \<Rightarrow>
          (case split_asset (rq_asset request) of (dex, local_asset) \<Rightarrow>
             account_execution Perp
               (execute_perp_order domain dex (if domain = PerDex then local_asset else rq_asset request) request ctx s1)))"

definition check_cap_and_execute_spot_order ::
  "exchange_domain \<Rightarrow> order_request \<Rightarrow> asset_context \<Rightarrow> exchange_state \<Rightarrow> (exchange_state \<times> trading_result) option" where
  "check_cap_and_execute_spot_order domain request ctx s =
     (case check_user_action_cap (rq_user request) (eligible_for_expanded_cap request) (count_submitted s) of
        (s1, False) \<Rightarrow> Some (s1, rejected STATUS_ACTION_CAP)
      | (s1, True) \<Rightarrow>
          if \<not> spot_market_exists (rq_asset request) s1 then Some (s1, rejected STATUS_SPOT_MARKET_MISSING)
          else account_execution Spot (execute_spot_order request ctx s1))"

definition check_cap_and_execute_perp_order_main where
  "check_cap_and_execute_perp_order_main request ctx s = check_cap_and_execute_perp_order MainBook request ctx s"

definition check_cap_and_execute_perp_order_per_dex where
  "check_cap_and_execute_perp_order_per_dex request ctx s = check_cap_and_execute_perp_order PerDex request ctx s"

definition check_cap_and_execute_spot_order_main where
  "check_cap_and_execute_spot_order_main request ctx s = check_cap_and_execute_spot_order MainBook request ctx s"

definition check_cap_and_execute_spot_order_per_dex where
  "check_cap_and_execute_spot_order_per_dex request ctx s = check_cap_and_execute_spot_order PerDex request ctx s"

section \<open>Transfers\<close>

definition count_transfer :: "exchange_state \<Rightarrow> exchange_state" where
  "count_transfer s = s\<lparr>xs_submitted_transfer_count := saturating_add_u64 (xs_submitted_transfer_count s) 1\<rparr>"

definition accept_transfer :: "market_kind \<Rightarrow> nat \<Rightarrow> transfer_request \<Rightarrow> exchange_state \<Rightarrow> exchange_state \<times> trading_result" where
  "accept_transfer market scale t s = (case checked_notional (tq_sz t) (tq_px t) of
      None \<Rightarrow> (s, rejected STATUS_QUEUE_MASK)
    | Some value \<Rightarrow> (s\<lparr>xs_successful_transfer_count := saturating_add_u64 (xs_successful_transfer_count s) 1\<rparr>,
        push_event (Telemetry \<lparr>ot_user = tq_user t, ot_market = market, ot_success = True, ot_status = STATUS_SUCCESS, ot_notional_scaled = value div scale\<rparr>)
          (ok_result 0)))"

definition process_perp_transfer_with_volume_accounting :: "transfer_request \<Rightarrow> exchange_state \<Rightarrow> exchange_state \<times> trading_result" where
  "process_perp_transfer_with_volume_accounting t s =
     (case check_user_action_cap (tq_user t) (transfer_eligible t) (count_transfer s) of
        (s1, False) \<Rightarrow> (s1, rejected STATUS_ACTION_CAP)
      | (s1, True) \<Rightarrow>
          (case split_asset (tq_asset t) of (dex, _) \<Rightarrow>
             if length (xs_per_dex s1) \<le> dex then (s1, rejected STATUS_INTERNAL_UNWRAP)
             else accept_transfer Perp PERP_NOTIONAL_PRODUCT_SCALE t s1))"

definition process_spot_transfer_with_volume_accounting :: "transfer_request \<Rightarrow> exchange_state \<Rightarrow> exchange_state \<times> trading_result" where
  "process_spot_transfer_with_volume_accounting t s =
     (case check_user_action_cap (tq_user t) (transfer_eligible t) (count_transfer s) of
        (s1, False) \<Rightarrow> (s1, rejected STATUS_ACTION_CAP)
      | (s1, True) \<Rightarrow>
          if \<not> spot_market_exists (tq_asset t) s1 then (s1, rejected STATUS_SPOT_MARKET_MISSING)
          else accept_transfer Spot SPOT_NOTIONAL_PRODUCT_SCALE t s1)"

section \<open>Cancelling and replacing\<close>

definition cancel_order :: "exchange_domain \<Rightarrow> nat \<Rightarrow> address \<Rightarrow> nat \<Rightarrow> exchange_state \<Rightarrow> exchange_state \<times> trading_result" where
  "cancel_order domain asset user oid s = (case book_mut domain asset s of
      None \<Rightarrow> (s, rejected STATUS_INTERNAL_UNWRAP)
    | Some b \<Rightarrow> (case remove_order user oid 13 b of (b1, removed) \<Rightarrow>
        (let b2 = refresh_best_bid_ask b1;
             r = (case removed of Some (_, e) \<Rightarrow> push_event e (ok_result 0) | None \<Rightarrow> (ok_result 0)\<lparr>tr_status := STATUS_MISSING_REPLACE_SLOT\<rparr>)
         in (put_book domain asset b2 s, push_event (best_bid_ask_event asset b2) r))))"

definition replace_order_after_existing_lookup ::
  "exchange_domain \<Rightarrow> modify_request \<Rightarrow> asset_context \<Rightarrow> exchange_state \<Rightarrow> (exchange_state \<times> modify_result) option" where
  "replace_order_after_existing_lookup domain mq ctx s =
     (let asset = rq_asset (mq_replacement mq) in
      case book_mut domain asset s of
        None \<Rightarrow> Some (s, \<lparr>mr_status = STATUS_MODIFY, mr_inner_status = STATUS_INTERNAL_UNWRAP, mr_old_order = None,
                         mr_replacement = rejected STATUS_INTERNAL_UNWRAP\<rparr>)
      | Some b \<Rightarrow> (case remove_order (mq_old_user mq) (mq_old_oid mq) 13 b of
          (b1, None) \<Rightarrow>
            (let inner = (if mq_require_existing_slot mq then STATUS_MISSING_REPLACE_SLOT else STATUS_AVAILABLE_SIZE) in
             Some (put_book domain asset b1 s,
               \<lparr>mr_status = STATUS_MODIFY, mr_inner_status = inner, mr_old_order = None, mr_replacement = rejected inner\<rparr>))
        | (b1, Some (old_order, cancel_event)) \<Rightarrow>
            (case check_cap_and_execute_perp_order domain (mq_replacement mq) ctx (put_book domain asset b1 s) of
               None \<Rightarrow> None
             | Some (s2, r) \<Rightarrow>
                 (let replacement = r\<lparr>tr_events := cancel_event # tr_events r\<rparr> in
                  if tr_status replacement \<noteq> STATUS_SUCCESS
                  then Some ((case book_mut domain asset s2 of None \<Rightarrow> s2 | Some b2 \<Rightarrow> put_book domain asset (insert_resting old_order b2) s2),
                    \<lparr>mr_status = STATUS_MODIFY, mr_inner_status = tr_status replacement, mr_old_order = Some old_order, mr_replacement = replacement\<rparr>)
                  else Some (s2, \<lparr>mr_status = STATUS_MODIFY_REPLACED, mr_inner_status = tr_status replacement, mr_old_order = Some old_order,
                    mr_replacement = replacement\<rparr>)))))"

definition replace_order_after_existing_lookup_main_book where
  "replace_order_after_existing_lookup_main_book mq ctx s = replace_order_after_existing_lookup MainBook mq ctx s"

definition replace_order_after_existing_lookup_alt_book where
  "replace_order_after_existing_lookup_alt_book mq ctx s = replace_order_after_existing_lookup AltBook mq ctx s"

section \<open>Outcomes of trades\<close>

definition outcome_deltas :: "nat \<Rightarrow> fill \<Rightarrow> signed_sz_delta list" where
  "outcome_deltas asset f =
     [\<lparr>sd_user = fl_maker f, sd_asset = asset, sd_delta = signed_qty (opposite (fl_taker_side f)) (fl_sz f), sd_px = fl_px f, sd_ntl = fl_ntl f, sd_is_taker = False\<rparr>,
      \<lparr>sd_user = fl_taker f, sd_asset = asset, sd_delta = signed_qty (fl_taker_side f) (fl_sz f), sd_px = fl_px f, sd_ntl = fl_ntl f, sd_is_taker = True\<rparr>]"

definition apply_trade_outcome :: "exchange_domain \<Rightarrow> nat \<Rightarrow> fill list \<Rightarrow> exchange_state \<Rightarrow> exchange_state \<times> trading_result" where
  "apply_trade_outcome domain asset fills s = (case number_fills fills s of (fs, _, s1) \<Rightarrow>
     (let r = (ok_result 0)\<lparr>tr_deltas := concat (map (outcome_deltas asset) fs), tr_events := map FillEvent fs, tr_fills := fs\<rparr> in
      case book_mut domain asset s1 of
        None \<Rightarrow> (s1, r)
      | Some b \<Rightarrow> (let b1 = refresh_best_bid_ask b in
          (put_book domain asset b1 s1, push_event (best_bid_ask_event asset b1) r))))"

definition apply_trade_outcome_main_book where
  "apply_trade_outcome_main_book asset fills s = apply_trade_outcome MainBook asset fills s"

definition apply_trade_outcome_alt_book where
  "apply_trade_outcome_alt_book asset fills s = apply_trade_outcome AltBook asset fills s"

definition process_perp_dex_order ::
  "nat \<Rightarrow> nat \<Rightarrow> order_request \<Rightarrow> asset_context \<Rightarrow> exchange_state \<Rightarrow> (exchange_state \<times> trading_result) option" where
  "process_perp_dex_order dex asset request ctx s = (case execute_perp_order PerDex dex asset request ctx s of
      None \<Rightarrow> None
    | Some (s1, r) \<Rightarrow> Some (if tr_status r \<noteq> STATUS_SUCCESS then (s1, r) else apply_trade_outcome PerDex asset (tr_fills r) s1))"

end
