(* ===== verification/Trading_Invariant.thy ===== *)
theory Trading_Invariant
  imports Trading Bucket_Index
begin

text \<open>
  The invariant of a book of the trading handlers: its queues, its index of users, its signed quantities and its best prices say
  exactly what its orders say.  Insertion, removal and resizing keep it.
\<close>

section \<open>Queues\<close>

definition queues_wf :: "(nat, price_level) btree \<Rightarrow> bool" where
  "queues_wf ls \<longleftrightarrow> bt_wf ls \<and> (\<forall>e \<in> set ls. snd e \<noteq> [])"

definition queue_members :: "(nat, price_level) btree \<Rightarrow> nat \<Rightarrow> nat set" where
  "queue_members ls px = set (queue_at ls px)"

definition drop_queued :: "nat \<Rightarrow> nat \<Rightarrow> (nat, price_level) btree \<Rightarrow> (nat, price_level) btree" where
  "drop_queued px oid ls = cut_if_empty px (retain_others px oid ls)"

lemma queue_push [simp]: "queue_at (push_back px oid ls) px' = (if px' = px then queue_at ls px @ [oid] else queue_at ls px')"
  by (simp add: queue_at_def push_back_def)

lemma queue_drop [simp]: "queue_at (drop_queued px oid ls) px' = (if px' = px then filter (\<lambda>x. x \<noteq> oid) (queue_at ls px) else queue_at ls px')"
  by (auto simp: queue_at_def drop_queued_def cut_if_empty_def retain_others_def split: option.split list.split)

lemma bt_insert_within: "set (bt_insert k v m) \<subseteq> insert (k, v) (set m)"
  by (induction m) auto

lemma bt_entries: "e \<in> set (bt_insert k v m) \<Longrightarrow> e = (k, v) \<or> e \<in> set m" "e \<in> set (bt_remove k m) \<Longrightarrow> e \<in> set m \<and> fst e \<noteq> k"
  using bt_insert_within [of k v m] by (auto simp: bt_remove_def)

lemma queues_wf_push: "queues_wf ls \<Longrightarrow> queues_wf (push_back px oid ls)"
  by (auto simp: queues_wf_def push_back_def dest!: bt_entries)

lemma queues_wf_drop: "queues_wf ls \<Longrightarrow> queues_wf (drop_queued px oid ls)"
proof -
  assume wf: "queues_wf ls"
  show ?thesis
  proof (cases "map_of ls px")
    case None
    then show ?thesis using wf by (simp add: drop_queued_def retain_others_def cut_if_empty_def)
  next
    case (Some q)
    then show ?thesis using wf
      by (auto simp: drop_queued_def retain_others_def cut_if_empty_def queues_wf_def split: list.split dest!: bt_entries)
  qed
qed

interpretation queue_index: bucket_index queue_members push_back drop_queued queues_wf
  by unfold_locales (auto simp: queue_members_def queues_wf_push queues_wf_drop)

lemma queue_key: "queues_wf ls \<Longrightarrow> px \<in> fst ` set ls \<longleftrightarrow> queue_at ls px \<noteq> []"
  by (force simp: queues_wf_def queue_at_def map_of_eq_None_iff dest: map_of_SomeD split: option.split)

lemma cut_if_empty_id: "queues_wf ls \<Longrightarrow> cut_if_empty px ls = ls"
  by (force simp: queues_wf_def cut_if_empty_def dest: map_of_SomeD split: option.split list.split)

section \<open>The invariant\<close>

definition queued_px :: "side \<Rightarrow> resting_order \<Rightarrow> nat option" where
  "queued_px sd ord = (if ro_side ord = sd then Some (ro_px ord) else None)"

definition orders_sound :: "(nat, resting_order) btree \<Rightarrow> bool" where
  "orders_sound m \<longleftrightarrow> bt_wf m \<and> (\<forall>oid ord. map_of m oid = Some ord \<longrightarrow> ro_oid ord = oid \<and> 0 < ro_resting_sz ord)"

definition side_sound :: "side \<Rightarrow> order_book \<Rightarrow> bool" where
  "side_sound sd b \<longleftrightarrow> queues_wf (side_levels sd b) \<and> indexes queue_members (queued_px sd) (ob_orders b) (side_levels sd b) \<and>
     (\<forall>px. distinct (queue_at (side_levels sd b) px))"

definition users_sound :: "order_book \<Rightarrow> bool" where
  "users_sound b \<longleftrightarrow>
     (\<forall>u oid x. map_of (ob_user_oids b) (u, oid) = Some x \<longleftrightarrow> x = oid \<and> (\<exists>ord. map_of (ob_orders b) oid = Some ord \<and> ro_user ord = u)) \<and>
     (\<forall>u oid q. map_of (ob_user_price_qty b) (u, oid) = Some q \<longleftrightarrow>
        (\<exists>ord. map_of (ob_orders b) oid = Some ord \<and> ro_user ord = u \<and> q = signed_qty (ro_side ord) (ro_resting_sz ord)))"

definition best_sound :: "order_book \<Rightarrow> bool" where
  "best_sound b \<longleftrightarrow> ob_best_bid b = bt_last_key (ob_bids b) \<and> ob_best_ask b = bt_first_key (ob_asks b)"

definition trading_ok :: "order_book \<Rightarrow> bool" where
  "trading_ok b \<longleftrightarrow> orders_sound (ob_orders b) \<and> (\<forall>sd. side_sound sd b) \<and> users_sound b \<and> best_sound b"

lemma trading_okD:
  assumes "trading_ok b"
  shows "orders_sound (ob_orders b)" "side_sound sd b" "users_sound b" "best_sound b"
  using assms by (simp_all add: trading_ok_def)

lemma orders_soundD:
  assumes "orders_sound m" and "map_of m oid = Some ord"
  shows "ro_oid ord = oid" "0 < ro_resting_sz ord"
  using assms by (auto simp: orders_sound_def)

lemma side_soundD:
  assumes "side_sound sd b"
  shows "queues_wf (side_levels sd b)" "indexes queue_members (queued_px sd) (ob_orders b) (side_levels sd b)" "distinct (queue_at (side_levels sd b) px)"
  using assms by (simp_all add: side_sound_def)

lemma empty_book_ok: "trading_ok empty_order_book"
proof -
  have "side_levels sd empty_order_book = []" for sd by (cases sd) (simp_all add: side_levels_def empty_order_book_def)
  then show ?thesis
    by (simp add: trading_ok_def side_sound_def orders_sound_def users_sound_def best_sound_def queues_wf_def indexes_def queue_members_def queue_at_def
        bt_first_key_def bt_last_key_def) (simp add: empty_order_book_def bt_first_key_def bt_last_key_def)
qed

lemma levels_of_updates [simp]:
  "side_levels sd (set_side_levels sd' ls b) = (if sd' = sd then ls else side_levels sd b)"
  "side_levels sd (refresh_best_bid_ask b) = side_levels sd b"
  "side_levels sd (b\<lparr>ob_orders := m\<rparr>) = side_levels sd b"
  "side_levels sd (b\<lparr>ob_user_oids := ix\<rparr>) = side_levels sd b"
  "side_levels sd (b\<lparr>ob_user_price_qty := qs\<rparr>) = side_levels sd b"
  by (cases sd; cases sd'; simp add: side_levels_def set_side_levels_def refresh_best_bid_ask_def)+

lemma fields_of_updates [simp]:
  "ob_orders (set_side_levels sd ls b) = ob_orders b" "ob_orders (refresh_best_bid_ask b) = ob_orders b"
  "ob_user_oids (set_side_levels sd ls b) = ob_user_oids b" "ob_user_oids (refresh_best_bid_ask b) = ob_user_oids b"
  "ob_user_price_qty (set_side_levels sd ls b) = ob_user_price_qty b" "ob_user_price_qty (refresh_best_bid_ask b) = ob_user_price_qty b"
  by (cases sd; simp add: set_side_levels_def refresh_best_bid_ask_def)+

lemma refresh_sound [simp]: "best_sound (refresh_best_bid_ask b)"
  by (simp add: best_sound_def refresh_best_bid_ask_def)

lemma refresh_id: "best_sound b \<Longrightarrow> refresh_best_bid_ask b = b"
  by (simp add: best_sound_def refresh_best_bid_ask_def)

lemma set_side_levels_id [simp]: "set_side_levels sd (side_levels sd b) b = b"
  by (cases sd) (simp_all add: set_side_levels_def side_levels_def)

lemma remove_empty_levels_id: "side_sound sd b \<Longrightarrow> remove_empty_levels sd px b = b"
  by (simp add: remove_empty_levels_def cut_if_empty_id side_sound_def)

lemma users_sound_None: "users_sound b \<Longrightarrow> map_of (ob_orders b) oid = None \<Longrightarrow> map_of (ob_user_oids b) (u, oid) = None"
  by (cases "map_of (ob_user_oids b) (u, oid)") (auto simp: users_sound_def)

section \<open>The operations on a book\<close>

lemma insert_resting_levels:
  "side_levels sd (insert_resting ord b) = (if ro_side ord = sd then push_back (ro_px ord) (ro_oid ord) (side_levels sd b) else side_levels sd b)"
  by (simp add: insert_resting_def Let_def)

lemma insert_resting_fields [simp]:
  "ob_orders (insert_resting ord b) = bt_insert (ro_oid ord) ord (ob_orders b)"
  "ob_user_oids (insert_resting ord b) = bt_insert (ro_user ord, ro_oid ord) (ro_oid ord) (ob_user_oids b)"
  "ob_user_price_qty (insert_resting ord b) = bt_insert (ro_user ord, ro_oid ord) (signed_qty (ro_side ord) (ro_resting_sz ord)) (ob_user_price_qty b)"
  "best_sound (insert_resting ord b)"
  by (simp_all add: insert_resting_def Let_def)

lemma insert_resting_ok:
  assumes "trading_ok b" and "map_of (ob_orders b) (ro_oid ord) = None" and "0 < ro_resting_sz ord"
  shows "trading_ok (insert_resting ord b)"
proof -
  note ok = trading_okD [OF assms(1)]
  have "side_sound sd (insert_resting ord b)" for sd
  proof (cases "ro_side ord = sd")
    case True
    have "ro_oid ord \<notin> queue_members (side_levels sd b) (ro_px ord)"
      using assms(2) queue_index.member_iff [OF side_soundD(2) [OF ok(2)], of "ro_oid ord" sd "ro_px ord"] by simp
    with True show ?thesis
      using side_soundD [OF ok(2) [of sd]] assms(2)
      by (auto simp: side_sound_def insert_resting_levels queues_wf_push queue_members_def queued_px_def intro!: queue_index.insert_indexed)
  next
    case False
    with assms(2) side_soundD [OF ok(2) [of sd]] show ?thesis
      by (auto simp: side_sound_def insert_resting_levels queued_px_def intro!: queue_index.insert_other)
  qed
  moreover have "users_sound (insert_resting ord b)"
    using ok(3) assms(2) users_sound_None [OF ok(3) assms(2)] unfolding users_sound_def by auto
  moreover have "orders_sound (ob_orders (insert_resting ord b))" using ok(1) assms(3) by (auto simp: orders_sound_def)
  ultimately show ?thesis by (simp add: trading_ok_def)
qed

lemma remove_order_none: "users_sound b \<Longrightarrow> map_of (ob_user_oids b) (user, oid) = None \<Longrightarrow> remove_order user oid code b = (b, None)"
  by (simp add: remove_order_def)

definition without :: "resting_order \<Rightarrow> order_book \<Rightarrow> order_book" where
  "without ord b = refresh_best_bid_ask (set_side_levels (ro_side ord) (drop_queued (ro_px ord) (ro_oid ord) (side_levels (ro_side ord) b))
     (b\<lparr>ob_user_oids := bt_remove (ro_user ord, ro_oid ord) (ob_user_oids b), ob_orders := bt_remove (ro_oid ord) (ob_orders b),
        ob_user_price_qty := bt_remove (ro_user ord, ro_oid ord) (ob_user_price_qty b)\<rparr>))"

lemma set_side_levels_twice [simp]: "set_side_levels sd ls' (set_side_levels sd ls b) = set_side_levels sd ls' b"
  by (cases sd) (simp_all add: set_side_levels_def)

text \<open>A removal either finds the order of this user and takes it out, or changes nothing.\<close>

lemma removal_cases:
  assumes "trading_ok b"
  shows "remove_order user oid code b =
    (case map_of (ob_orders b) oid of
       Some ord \<Rightarrow> if ro_user ord = user then (without ord b, Some (ord, CancelEvent user oid code)) else (b, None)
     | None \<Rightarrow> (b, None))"
proof (cases "map_of (ob_user_oids b) (user, oid)")
  case None
  then have "\<nexists>ord. map_of (ob_orders b) oid = Some ord \<and> ro_user ord = user"
    using trading_okD(3) [OF assms] unfolding users_sound_def by (metis option.distinct(1))
  then show ?thesis using None by (auto simp: remove_order_def split: option.split)
next
  case (Some x)
  then obtain ord where o: "x = oid" "map_of (ob_orders b) oid = Some ord" "ro_user ord = user"
    using trading_okD(3) [OF assms] by (auto simp: users_sound_def)
  have "ro_oid ord = oid" using orders_soundD(1) [OF trading_okD(1) [OF assms] o(2)] .
  with Some o show ?thesis by (simp add: remove_order_def Let_def without_def remove_empty_levels_def drop_queued_def)
qed

lemma without_fields [simp]:
  "ob_orders (without ord b) = bt_remove (ro_oid ord) (ob_orders b)" "best_sound (without ord b)"
  "side_levels sd (without ord b) = (if ro_side ord = sd then drop_queued (ro_px ord) (ro_oid ord) (side_levels sd b) else side_levels sd b)"
  by (simp_all add: without_def)

lemma without_ok:
  assumes "trading_ok b" and "map_of (ob_orders b) oid = Some ord"
  shows "trading_ok (without ord b)"
proof -
  note ok = trading_okD [OF assms(1)]
  have oid: "ro_oid ord = oid" using orders_soundD(1) [OF ok(1) assms(2)] .
  have "side_sound sd (without ord b)" for sd
  proof (cases "ro_side ord = sd")
    case True
    then show ?thesis using side_soundD [OF ok(2) [of sd]] assms(2) oid
      by (auto simp: side_sound_def queues_wf_drop queued_px_def intro!: queue_index.remove_indexed)
  next
    case False
    then show ?thesis using side_soundD [OF ok(2) [of sd]] assms(2) oid
      by (auto simp: side_sound_def queued_px_def intro!: queue_index.remove_other)
  qed
  moreover have "users_sound (without ord b)"
    using ok(3) assms(2) oid by (auto simp: users_sound_def without_def)
  moreover have "orders_sound (ob_orders (without ord b))" using ok(1) by (auto simp: orders_sound_def)
  ultimately show ?thesis by (simp add: trading_ok_def)
qed

lemma update_fields:
  assumes "map_of (ob_orders b) oid = Some ord"
  shows "ob_orders (update_resting_sz oid sz b) = bt_insert oid (ord\<lparr>ro_resting_sz := sz\<rparr>) (ob_orders b)"
    "side_levels sd (update_resting_sz oid sz b) = side_levels sd b"
    "best_sound (update_resting_sz oid sz b) = best_sound b"
  using assms by (cases sd; simp add: update_resting_sz_def best_sound_def side_levels_def)+

lemma update_ok:
  assumes "trading_ok b" and "map_of (ob_orders b) oid = Some ord" and "0 < sz"
  shows "trading_ok (update_resting_sz oid sz b)"
proof -
  note ok = trading_okD [OF assms(1)]
  have oid: "ro_oid ord = oid" using orders_soundD(1) [OF ok(1) assms(2)] .
  have "side_sound sd (update_resting_sz oid sz b)" for sd
    using side_soundD [OF ok(2) [of sd]] assms(2)
    by (auto simp: side_sound_def update_fields [OF assms(2)] queued_px_def intro!: queue_index.replace_indexed)
  moreover have "users_sound (update_resting_sz oid sz b)"
    using ok(3) assms(2) oid unfolding users_sound_def by (auto simp: update_resting_sz_def)
  moreover have "orders_sound (ob_orders (update_resting_sz oid sz b))"
    using ok(1) assms(3) oid by (auto simp: orders_sound_def update_fields [OF assms(2)])
  ultimately show ?thesis using ok(4) by (simp add: trading_ok_def update_fields [OF assms(2)])
qed

end
