(* ===== verification/Trading_Match.thy ===== *)
theory Trading_Match
  imports Trading_Invariant
begin

text \<open>
  What matching does to a book and to the result: every state the loop passes is a partial execution of the order against the
  book it started from.  The loop ends unless it meets orders of the taker.
\<close>

section \<open>Orders that cross\<close>

definition no_worse :: "side \<Rightarrow> nat \<Rightarrow> nat \<Rightarrow> bool" where
  "no_worse sd p q = (case sd of Buy \<Rightarrow> p \<le> q | Sell \<Rightarrow> q \<le> p)"

lemma no_worse_simps: "no_worse Buy p q \<longleftrightarrow> p \<le> q" "no_worse Sell p q \<longleftrightarrow> q \<le> p"
  by (simp_all add: no_worse_def)

lemma crosses_no_worse: "crosses sd limit px \<longleftrightarrow> no_worse sd px limit"
  by (cases sd) (simp_all add: crosses_def no_worse_simps)

lemma no_worse_trans: "no_worse sd p q \<Longrightarrow> no_worse sd q r \<Longrightarrow> no_worse sd p r"
  by (cases sd) (simp_all add: no_worse_simps)

lemma no_worse_refl [simp]: "no_worse sd p p"
  by (cases sd) (simp_all add: no_worse_simps)

lemma opposite_simps [simp]: "opposite (opposite sd) = sd" "opposite sd \<noteq> sd" "sd \<noteq> opposite sd" "opposite Buy = Sell" "opposite Sell = Buy"
  by (cases sd; simp add: opposite_def)+

lemma side_not: "ro_side ord \<noteq> sd \<longleftrightarrow> ro_side ord = opposite sd"
  by (cases sd; cases "ro_side ord"; simp)

lemma queued_order: "side_sound sd b \<Longrightarrow> map_of (ob_orders b) oid = Some ord \<Longrightarrow> ro_side ord = sd \<Longrightarrow> oid \<in> set (queue_at (side_levels sd b) (ro_px ord))"
  using queue_index.member_iff [OF side_soundD(2), of sd b oid "ro_px ord"] by (simp add: queue_members_def queued_px_def)

lemma order_queued: "side_sound sd b \<Longrightarrow> oid \<in> set (queue_at (side_levels sd b) px) \<Longrightarrow>
    \<exists>ord. map_of (ob_orders b) oid = Some ord \<and> ro_side ord = sd \<and> ro_px ord = px"
  using queue_index.member_iff [OF side_soundD(2), of sd b oid px] by (auto simp: queue_members_def queued_px_def split: if_splits)

lemma order_level:
  assumes "side_sound sd b" and "map_of (ob_orders b) oid = Some ord" and "ro_side ord = sd"
  shows "ro_px ord \<in> fst ` set (side_levels sd b)"
  unfolding queue_key [OF side_soundD(1) [OF assms(1)]] using queued_order [OF assms] by auto

lemma best_key:
  assumes "bt_wf ls"
  shows "bt_first_key ls = Some px \<Longrightarrow> px \<in> fst ` set ls \<and> (\<forall>p \<in> fst ` set ls. px \<le> p)"
    and "bt_last_key ls = Some px \<Longrightarrow> px \<in> fst ` set ls \<and> (\<forall>p \<in> fst ` set ls. p \<le> px)"
  using bt_first_key_least [OF assms, of px] bt_last_key_greatest [OF assms, of px] by auto

lemma best_crossable_Some:
  assumes "trading_ok b" and "best_crossable_px sd limit b = Some px"
  shows "crosses sd limit px" and "queue_at (side_levels (opposite sd) b) px \<noteq> []"
    and "map_of (ob_orders b) oid = Some ord \<Longrightarrow> ro_side ord = opposite sd \<Longrightarrow> no_worse sd px (ro_px ord)"
proof -
  note side = trading_okD(2) [OF assms(1), of "opposite sd"]
  note wf = side_soundD(1) [OF side]
  then have bt: "bt_wf (side_levels (opposite sd) b)" by (simp add: queues_wf_def)
  have best: "crosses sd limit px \<and> px \<in> fst ` set (side_levels (opposite sd) b) \<and> (\<forall>p \<in> fst ` set (side_levels (opposite sd) b). no_worse sd px p)"
    using assms(2) best_key [OF bt, of px]
    by (cases sd) (auto simp: best_crossable_px_def crosses_def side_levels_def no_worse_simps split: option.splits if_splits)
  show "crosses sd limit px" "queue_at (side_levels (opposite sd) b) px \<noteq> []" using best queue_key [OF wf] by auto
  show "map_of (ob_orders b) oid = Some ord \<Longrightarrow> ro_side ord = opposite sd \<Longrightarrow> no_worse sd px (ro_px ord)"
    using order_level [OF side, of oid ord] best by auto
qed

lemma best_crossable_None:
  assumes "trading_ok b" and "best_crossable_px sd limit b = None" and "map_of (ob_orders b) oid = Some ord" and "ro_side ord = opposite sd"
  shows "\<not> crosses sd limit (ro_px ord)"
proof -
  note side = trading_okD(2) [OF assms(1), of "opposite sd"]
  then have bt: "bt_wf (side_levels (opposite sd) b)" by (simp add: queues_wf_def side_sound_def)
  have mem: "ro_px ord \<in> fst ` set (side_levels (opposite sd) b)" by (rule order_level [OF side assms(3,4)])
  then have ne: "side_levels (opposite sd) b \<noteq> []" by auto
  show ?thesis
  proof (cases sd)
    case Buy
    then obtain px where "bt_first_key (side_levels (opposite sd) b) = Some px" using bt_first_key_None ne by fastforce
    with best_key(1) [OF bt this] mem assms(2) Buy show ?thesis by (auto simp: best_crossable_px_def crosses_def side_levels_def split: if_splits)
  next
    case Sell
    then obtain px where "bt_last_key (side_levels (opposite sd) b) = Some px" using bt_last_key_None ne by fastforce
    with best_key(2) [OF bt this] mem assms(2) Sell show ?thesis by (auto simp: best_crossable_px_def crosses_def side_levels_def split: if_splits)
  qed
qed

section \<open>Shrinking books\<close>

text \<open>Every order of the later book is one of the earlier book, perhaps of a smaller size.\<close>

definition shrunk :: "order_book \<Rightarrow> order_book \<Rightarrow> bool" where
  "shrunk b b' \<longleftrightarrow> (\<forall>oid ord. map_of (ob_orders b') oid = Some ord \<longrightarrow>
     (\<exists>sz. map_of (ob_orders b) oid = Some (ord\<lparr>ro_resting_sz := sz\<rparr>) \<and> ro_resting_sz ord \<le> sz))"

definition same_side :: "side \<Rightarrow> order_book \<Rightarrow> order_book \<Rightarrow> bool" where
  "same_side sd b b' \<longleftrightarrow> (\<forall>oid ord. ro_side ord = sd \<longrightarrow> (map_of (ob_orders b') oid = Some ord \<longleftrightarrow> map_of (ob_orders b) oid = Some ord))"

definition side_volume :: "side \<Rightarrow> order_book \<Rightarrow> nat" where
  "side_volume sd b = bt_sum (\<lambda>ord. if ro_side ord = sd then ro_resting_sz ord else 0) (ob_orders b)"

lemma resized_self: "k \<le> ro_resting_sz ord \<Longrightarrow> \<exists>sz. ord = ord\<lparr>ro_resting_sz := sz\<rparr> \<and> k \<le> sz"
  by (rule exI [of _ "ro_resting_sz ord"]) simp

lemma shrunk_refl [simp]: "shrunk b b"
  by (auto simp: shrunk_def intro!: resized_self)

lemma shrunk_trans:
  assumes "shrunk a b" and "shrunk b c"
  shows "shrunk a c"
  unfolding shrunk_def
proof (intro allI impI)
  fix oid ord assume "map_of (ob_orders c) oid = Some ord"
  then obtain sz where sz: "map_of (ob_orders b) oid = Some (ord\<lparr>ro_resting_sz := sz\<rparr>)" "ro_resting_sz ord \<le> sz"
    using assms(2) by (auto simp: shrunk_def)
  then obtain sz' where "map_of (ob_orders a) oid = Some (ord\<lparr>ro_resting_sz := sz\<rparr>\<lparr>ro_resting_sz := sz'\<rparr>)" "ro_resting_sz (ord\<lparr>ro_resting_sz := sz\<rparr>) \<le> sz'"
    using assms(1) unfolding shrunk_def by blast
  with sz(2) show "\<exists>sz. map_of (ob_orders a) oid = Some (ord\<lparr>ro_resting_sz := sz\<rparr>) \<and> ro_resting_sz ord \<le> sz" by (intro exI [of _ sz']) simp
qed

lemma same_side_trans: "same_side sd a b \<Longrightarrow> same_side sd b c \<Longrightarrow> same_side sd a c"
  by (simp add: same_side_def)

lemma shrunk_order: "shrunk b b' \<Longrightarrow> map_of (ob_orders b') oid = Some ord \<Longrightarrow>
    \<exists>ord0. map_of (ob_orders b) oid = Some ord0 \<and> ro_user ord0 = ro_user ord \<and> ro_px ord0 = ro_px ord \<and> ro_side ord0 = ro_side ord \<and>
      ro_oid ord0 = ro_oid ord \<and> ro_resting_sz ord \<le> ro_resting_sz ord0"
  by (fastforce simp: shrunk_def)

section \<open>One match\<close>

definition matched_book :: "resting_order \<Rightarrow> nat \<Rightarrow> order_book \<Rightarrow> order_book" where
  "matched_book maker sz b =
     (if ro_resting_sz maker - sz = 0 then without maker b else update_resting_sz (ro_oid maker) (ro_resting_sz maker - sz) b)"

lemma apply_match_book:
  assumes "trading_ok (ms_book st)" and "map_of (ob_orders (ms_book st)) oid = Some maker"
  shows "ms_book (apply_match rq maker sz ntl st) = matched_book maker sz (ms_book st)"
    "ms_remaining (apply_match rq maker sz ntl st) = ms_remaining st - sz"
    "tr_fills (ms_result (apply_match rq maker sz ntl st)) = tr_fills (ms_result st) @ [make_fill rq maker sz ntl]"
    "tr_deltas (ms_result (apply_match rq maker sz ntl st)) = tr_deltas (ms_result st) @ make_deltas rq maker sz ntl"
    "tr_status (ms_result (apply_match rq maker sz ntl st)) = tr_status (ms_result st)"
    "tr_rested_oid (ms_result (apply_match rq maker sz ntl st)) = tr_rested_oid (ms_result st)"
  using removal_cases [OF assms(1), of "ro_user maker" oid 5] assms(2) orders_soundD(1) [OF trading_okD(1) [OF assms(1)] assms(2)]
  by (simp_all add: apply_match_def Let_def matched_book_def push_event_def)

lemma matched_book_step:
  assumes ok: "trading_ok b" and maker: "map_of (ob_orders b) oid = Some maker" and sz: "0 < sz" "sz \<le> ro_resting_sz maker"
  shows "trading_ok (matched_book maker sz b)" and "shrunk b (matched_book maker sz b)"
    and "same_side (opposite (ro_side maker)) b (matched_book maker sz b)"
    and "side_volume (ro_side maker) (matched_book maker sz b) + sz = side_volume (ro_side maker) b"
    and "side_volume (opposite (ro_side maker)) (matched_book maker sz b) = side_volume (opposite (ro_side maker)) b"
    and "length (ob_orders (matched_book maker sz b)) \<le> length (ob_orders b)"
    and "sz = ro_resting_sz maker \<Longrightarrow> length (ob_orders (matched_book maker sz b)) < length (ob_orders b)"
proof -
  have oid: "ro_oid maker = oid" using orders_soundD(1) [OF trading_okD(1) [OF ok] maker] .
  have wf: "bt_wf (ob_orders b)" using trading_okD(1) [OF ok] by (simp add: orders_sound_def)
  have mem: "oid \<in> fst ` set (ob_orders b)" using maker by (metis bt_contains_def bt_contains_iff option.discI)
  have rm: "length (bt_remove oid (ob_orders b)) < length (ob_orders b)"
    using map_of_SomeD [OF maker] unfolding bt_remove_def by (intro length_filter_less [of "(oid, maker)"]) auto
  have ins: "length (bt_insert oid v m) = length m" if "bt_wf m" "oid \<in> fst ` set m" for v and m :: "(nat, resting_order) btree"
    using that by (induction m) (auto simp: bt_wf_Cons)
  let ?f = "\<lambda>ord. if ro_side ord = ro_side maker then ro_resting_sz ord else 0"
    and ?g = "\<lambda>ord. if ro_side ord = opposite (ro_side maker) then ro_resting_sz ord else 0"
  show "trading_ok (matched_book maker sz b)"
    using without_ok [OF ok maker] update_ok [OF ok maker] oid by (simp add: matched_book_def)
  show "shrunk b (matched_book maker sz b)"
    using maker oid by (auto simp: shrunk_def matched_book_def update_fields [OF maker] intro!: resized_self)
  show "same_side (opposite (ro_side maker)) b (matched_book maker sz b)"
    using maker oid by (auto simp: same_side_def matched_book_def update_fields [OF maker])
  show "side_volume (ro_side maker) (matched_book maker sz b) + sz = side_volume (ro_side maker) b"
    using bt_sum_remove [OF wf, of ?f oid] bt_sum_insert [OF wf, of ?f oid "maker\<lparr>ro_resting_sz := ro_resting_sz maker - sz\<rparr>"] maker oid sz
    by (simp add: side_volume_def matched_book_def update_fields [OF maker]) arith
  show "side_volume (opposite (ro_side maker)) (matched_book maker sz b) = side_volume (opposite (ro_side maker)) b"
    using bt_sum_remove [OF wf, of ?g oid] bt_sum_insert [OF wf, of ?g oid "maker\<lparr>ro_resting_sz := ro_resting_sz maker - sz\<rparr>"] maker oid
    by (simp add: side_volume_def matched_book_def update_fields [OF maker])
  show "length (ob_orders (matched_book maker sz b)) \<le> length (ob_orders b)"
    using rm ins [OF wf mem] oid by (simp add: matched_book_def update_fields [OF maker])
  show "sz = ro_resting_sz maker \<Longrightarrow> length (ob_orders (matched_book maker sz b)) < length (ob_orders b)"
    using rm oid by (simp add: matched_book_def)
qed

section \<open>Partial executions\<close>

definition foreign :: "order_request \<Rightarrow> resting_order \<Rightarrow> bool" where
  "foreign rq ord \<longleftrightarrow> ro_user ord \<noteq> rq_user rq \<and> \<not> both_vault_privileged (ro_user ord) (rq_user rq)"

definition fill_of :: "order_request \<Rightarrow> order_book \<Rightarrow> fill \<Rightarrow> bool" where
  "fill_of rq b f \<longleftrightarrow> (\<exists>ord. map_of (ob_orders b) (fl_maker_oid f) = Some ord \<and> ro_side ord = opposite (rq_side rq) \<and> foreign rq ord \<and>
      f = make_fill rq ord (fl_sz f) (fl_sz f * ro_px ord) \<and> crosses (rq_side rq) (rq_limit_px rq) (ro_px ord) \<and>
      0 < fl_sz f \<and> fl_sz f \<le> ro_resting_sz ord)"

definition fill_volume :: "fill list \<Rightarrow> nat" where
  "fill_volume fs = sum_list (map fl_sz fs)"

definition fill_deltas :: "order_request \<Rightarrow> fill \<Rightarrow> signed_sz_delta list" where
  "fill_deltas rq f = outcome_deltas (rq_asset rq) f"

definition partial_execution :: "order_request \<Rightarrow> order_book \<Rightarrow> match_state \<Rightarrow> bool" where
  "partial_execution rq b st \<longleftrightarrow> trading_ok (ms_book st) \<and> shrunk b (ms_book st) \<and> same_side (rq_side rq) b (ms_book st) \<and>
     fill_volume (tr_fills (ms_result st)) + ms_remaining st = rq_sz rq \<and>
     side_volume (rq_side rq) (ms_book st) = side_volume (rq_side rq) b \<and> (tr_fills (ms_result st) = [] \<longrightarrow> ms_book st = b) \<and>
     side_volume (opposite (rq_side rq)) (ms_book st) + fill_volume (tr_fills (ms_result st)) = side_volume (opposite (rq_side rq)) b \<and>
     (\<forall>f \<in> set (tr_fills (ms_result st)). fill_of rq b f) \<and>
     tr_deltas (ms_result st) = concat (map (fill_deltas rq) (tr_fills (ms_result st))) \<and>
     sorted_wrt (no_worse (rq_side rq)) (map fl_px (tr_fills (ms_result st))) \<and>
     (\<forall>f \<in> set (tr_fills (ms_result st)). \<forall>oid ord. map_of (ob_orders (ms_book st)) oid = Some ord \<longrightarrow> ro_side ord = opposite (rq_side rq) \<longrightarrow>
        no_worse (rq_side rq) (fl_px f) (ro_px ord)) \<and>
     tr_status (ms_result st) = STATUS_SUCCESS \<and> tr_rested_oid (ms_result st) = None"

lemma partial_execution_start:
  assumes "trading_ok b"
  shows "partial_execution rq b \<lparr>ms_book = b, ms_result = ok_result (rq_sz rq), ms_remaining = rq_sz rq\<rparr>"
  using assms by (simp add: partial_execution_def ok_result_def fill_volume_def same_side_def)

lemma partial_execution_event:
  "partial_execution rq b (st\<lparr>ms_result := push_event e (ms_result st)\<rparr>) = partial_execution rq b st"
  by (simp add: partial_execution_def push_event_def)

lemma partial_execution_match:
  assumes pe: "partial_execution rq b st" and maker: "map_of (ob_orders (ms_book st)) oid = Some maker"
    and at: "ro_side maker = opposite (rq_side rq)" "crosses (rq_side rq) (rq_limit_px rq) (ro_px maker)" "foreign rq maker"
    and best: "\<And>oid ord. map_of (ob_orders (ms_book st)) oid = Some ord \<Longrightarrow> ro_side ord = opposite (rq_side rq) \<Longrightarrow> no_worse (rq_side rq) (ro_px maker) (ro_px ord)"
    and sz: "0 < sz" "sz \<le> ro_resting_sz maker" "sz \<le> ms_remaining st"
  shows "partial_execution rq b (apply_match rq maker sz (sz * ro_px maker) st)"
proof -
  let ?f = "make_fill rq maker sz (sz * ro_px maker)" and ?b = "matched_book maker sz (ms_book st)"
  have ok: "trading_ok (ms_book st)" and shr: "shrunk b (ms_book st)" using pe by (simp_all add: partial_execution_def)
  note step = matched_book_step [OF ok maker sz(1,2)] and am = apply_match_book [OF ok maker]
  have oid: "ro_oid maker = oid" using orders_soundD(1) [OF trading_okD(1) [OF ok] maker] .
  obtain ord0 where o: "map_of (ob_orders b) oid = Some ord0" "ro_user ord0 = ro_user maker" "ro_px ord0 = ro_px maker" "ro_side ord0 = ro_side maker"
      "ro_oid ord0 = ro_oid maker" "ro_resting_sz maker \<le> ro_resting_sz ord0"
    using shrunk_order [OF shr maker] by blast
  have fill: "fill_of rq b ?f"
    unfolding fill_of_def using o at sz oid by (intro exI [of _ ord0]) (simp add: make_fill_def foreign_def)
  have later: "no_worse (rq_side rq) (fl_px f) (ro_px ord)"
    if h: "f \<in> set (tr_fills (ms_result st)) \<or> f = ?f" "map_of (ob_orders ?b) x = Some ord" "ro_side ord = opposite (rq_side rq)" for f x ord
  proof -
    obtain ord1 where "map_of (ob_orders (ms_book st)) x = Some ord1" "ro_px ord1 = ro_px ord" "ro_side ord1 = ro_side ord"
      using shrunk_order [OF step(2) h(2)] by blast
    moreover have "f \<in> set (tr_fills (ms_result st)) \<Longrightarrow> no_worse (rq_side rq) (fl_px f) (ro_px ord1)"
      using pe calculation h(3) unfolding partial_execution_def by metis
    moreover have "fl_px ?f = ro_px maker" by (simp add: make_fill_def)
    ultimately show ?thesis using h best by metis
  qed
  have before: "no_worse (rq_side rq) (fl_px f) (ro_px maker)" if "f \<in> set (tr_fills (ms_result st))" for f
    using pe that maker at(1) unfolding partial_execution_def by blast
  have priority: "\<forall>f \<in> set (tr_fills (ms_result st) @ [?f]). \<forall>oid ord. map_of (ob_orders ?b) oid = Some ord \<longrightarrow> ro_side ord = opposite (rq_side rq) \<longrightarrow>
      no_worse (rq_side rq) (fl_px f) (ro_px ord)" using later by auto
  have sorted: "sorted_wrt (no_worse (rq_side rq)) (map fl_px (tr_fills (ms_result st) @ [?f]))"
    using pe before by (auto simp: partial_execution_def sorted_wrt_append make_fill_def)
  have side: "same_side (rq_side rq) b ?b" using pe step(3) at(1) by (auto simp: partial_execution_def intro: same_side_trans)
  have deltas: "make_deltas rq maker sz (sz * ro_px maker) = fill_deltas rq ?f"
    using at(1) by (simp add: make_deltas_def fill_deltas_def outcome_deltas_def make_fill_def)
  have volume: "fill_volume (tr_fills (ms_result st) @ [?f]) = fill_volume (tr_fills (ms_result st)) + sz" by (simp add: fill_volume_def make_fill_def)
  show ?thesis
    using pe step(1) shrunk_trans [OF shr step(2)] step(4,5) fill sz(3) at(1) priority sorted side
    unfolding partial_execution_def am deltas volume by auto
qed

end
