(* ===== verification/Trading_Loop.thy ===== *)
theory Trading_Loop
  imports Trading_Match
begin

text \<open>
  The loop over the levels: whatever it returns is a partial execution, it returns when no crossing order belongs to the taker, and it
  never returns when the best level holds only such orders.
\<close>

section \<open>One level\<close>

definition at_level :: "order_request \<Rightarrow> nat \<Rightarrow> nat list \<Rightarrow> order_book \<Rightarrow> bool" where
  "at_level rq px oids b \<longleftrightarrow>
     (\<forall>oid ord. map_of (ob_orders b) oid = Some ord \<longrightarrow>
        (oid \<in> set oids \<longrightarrow> ro_side ord = opposite (rq_side rq) \<and> ro_px ord = px) \<and>
        (ro_side ord = opposite (rq_side rq) \<longrightarrow> no_worse (rq_side rq) px (ro_px ord)))"

lemma at_level_shrunk: "at_level rq px oids b \<Longrightarrow> shrunk b b' \<Longrightarrow> at_level rq px oids b'"
  unfolding at_level_def by (metis shrunk_order)

lemma at_level_Cons: "at_level rq px (oid # oids) b \<Longrightarrow> at_level rq px oids b"
  by (auto simp: at_level_def)

lemma at_level_snapshot:
  assumes "trading_ok b" and "best_crossable_px (rq_side rq) (rq_limit_px rq) b = Some px"
  shows "at_level rq px (level_snapshot (opposite (rq_side rq)) px b) b"
  using best_crossable_Some(3) [OF assms] order_queued [OF trading_okD(2) [OF assms(1)], of _ "opposite (rq_side rq)" px]
  unfolding at_level_def level_snapshot_def by (metis option.inject)

text \<open>A maker whose share of the order has a notional out of range.\<close>

definition oversized :: "order_request \<Rightarrow> match_state \<Rightarrow> bool" where
  "oversized rq st \<longleftrightarrow> (\<exists>oid maker sz. map_of (ob_orders (ms_book st)) oid = Some maker \<and> ro_side maker = opposite (rq_side rq) \<and>
     crosses (rq_side rq) (rq_limit_px rq) (ro_px maker) \<and> sz \<le> ms_remaining st \<and> sz \<le> ro_resting_sz maker \<and> checked_notional sz (ro_px maker) = None)"

lemma notional_Some: "checked_notional sz px = Some ntl \<Longrightarrow> ntl = sz * px \<and> ntl \<le> MAX_MATCH_NOTIONAL"
  by (auto simp: checked_notional_def checked_mul_u64_def split: option.splits if_splits)

definition level_exit :: "order_request \<Rightarrow> order_book \<Rightarrow> match_state \<Rightarrow> order_book + match_state \<Rightarrow> bool" where
  "level_exit rq b st res = (case res of
      Inr st' \<Rightarrow> partial_execution rq b st' \<and> shrunk (ms_book st) (ms_book st') \<and> length (ob_orders (ms_book st')) \<le> length (ob_orders (ms_book st))
    | Inl b' \<Rightarrow> \<exists>st'. partial_execution rq b st' \<and> b' = ms_book st' \<and> oversized rq st')"

lemma level_exit_weaken:
  assumes "level_exit rq b st1 res" and "shrunk (ms_book st) (ms_book st1)" and "length (ob_orders (ms_book st1)) \<le> length (ob_orders (ms_book st))"
  shows "level_exit rq b st res"
  using assms shrunk_trans [OF assms(2)] by (auto simp: level_exit_def split: sum.splits)

lemma match_level_match:
  assumes "ms_remaining st \<noteq> 0" and "crosses (rq_side rq) (rq_limit_px rq) px" and "map_of (ob_orders (ms_book st)) oid = Some maker"
    and "foreign rq maker" and "sz = min (min (ms_remaining st) (ro_resting_sz maker)) (max_order_sz ctx)" and "sz \<noteq> 0"
  shows "match_level rq ctx px (oid # oids) st = (case checked_notional sz (ro_px maker) of
      None \<Rightarrow> Inl (ms_book st) | Some ntl \<Rightarrow> match_level rq ctx px oids (apply_match rq maker sz ntl st))"
  using assms by (auto simp: foreign_def Let_def simp del: min_less_iff_conj)

lemma match_level_exit:
  assumes "partial_execution rq b st" and "at_level rq px oids (ms_book st)"
  shows "level_exit rq b st (match_level rq ctx px oids st)"
  using assms
proof (induction oids arbitrary: st)
  case Nil
  then show ?case by (simp add: level_exit_def)
next
  case (Cons oid oids)
  note pe = Cons.prems(1) and rest = at_level_Cons [OF Cons.prems(2)]
  show ?case
  proof (cases "ms_remaining st = 0 \<or> \<not> crosses (rq_side rq) (rq_limit_px rq) px")
    case True
    then show ?thesis using pe by (simp add: level_exit_def)
  next
    case crossing: False
    show ?thesis
    proof (cases "map_of (ob_orders (ms_book st)) oid")
      case None
      then show ?thesis using crossing Cons.IH [OF pe rest] by simp
    next
      case (Some maker)
      have at: "ro_side maker = opposite (rq_side rq)" "ro_px maker = px" using Cons.prems(2) Some by (auto simp: at_level_def)
      have skip: "level_exit rq b st (match_level rq ctx px oids (st\<lparr>ms_result := push_event e (ms_result st)\<rparr>))" for e
        by (rule level_exit_weaken [OF Cons.IH]) (use pe rest in \<open>simp_all add: partial_execution_event\<close>)
      let ?sz = "min (min (ms_remaining st) (ro_resting_sz maker)) (max_order_sz ctx)"
      show ?thesis
      proof (cases "foreign rq maker \<and> ?sz \<noteq> 0")
        case False
        then show ?thesis using crossing Some skip by (auto simp: foreign_def Let_def)
      next
        case True
        have sz: "0 < ?sz" "?sz \<le> ro_resting_sz maker" "?sz \<le> ms_remaining st" using True by linarith+
        show ?thesis
        proof (cases "checked_notional ?sz (ro_px maker)")
          case None
          have "oversized rq st" unfolding oversized_def using Some at sz None crossing by blast
          moreover have "match_level rq ctx px (oid # oids) st = Inl (ms_book st)"
            using match_level_match [OF _ _ Some, of rq px ?sz ctx oids] True crossing None by simp
          ultimately show ?thesis using pe by (auto simp: level_exit_def)
        next
          case ntl: (Some ntl)
          have ok: "trading_ok (ms_book st)" using pe by (simp add: partial_execution_def)
          note n = notional_Some [OF ntl, THEN conjunct1]
          have pe1: "partial_execution rq b (apply_match rq maker ?sz ntl st)"
            unfolding n by (rule partial_execution_match [OF pe Some at(1) _ _ _ sz]) (use True crossing at Cons.prems(2) in \<open>auto simp: at_level_def\<close>)
          note step = matched_book_step [OF ok Some sz(1,2), folded apply_match_book(1) [OF ok Some, of rq ?sz ntl]]
          have "level_exit rq b st (match_level rq ctx px oids (apply_match rq maker ?sz ntl st))"
            by (rule level_exit_weaken [OF Cons.IH [OF pe1 at_level_shrunk [OF rest step(2)]] step(2,6)])
          then show ?thesis using match_level_match [OF _ _ Some, of rq px ?sz ctx oids] True crossing ntl by simp
        qed
      qed
    qed
  qed
qed

section \<open>The loop\<close>

definition band_stops :: "order_request \<Rightarrow> asset_context \<Rightarrow> nat \<Rightarrow> bool" where
  "band_stops rq ctx px \<longleftrightarrow>
     ac_price_limit_enabled ctx \<and> ac_oracle_px ctx \<noteq> 0 \<and> \<not> price_level_inside_oracle_band (rq_side rq) px (ac_oracle_px ctx)"

definition loop_exit :: "order_request \<Rightarrow> asset_context \<Rightarrow> order_book \<Rightarrow> match_exit \<Rightarrow> bool" where
  "loop_exit rq ctx b e = (case e of
      Finished st \<Rightarrow> partial_execution rq b st \<and>
        (ms_remaining st = 0 \<or> best_crossable_px (rq_side rq) (rq_limit_px rq) (ms_book st) = None \<or>
         tr_fills (ms_result st) \<noteq> [] \<and> (\<exists>px. best_crossable_px (rq_side rq) (rq_limit_px rq) (ms_book st) = Some px \<and> band_stops rq ctx px))
    | Rejected b' status \<Rightarrow> \<exists>st. partial_execution rq b st \<and> b' = ms_book st \<and>
        (status = STATUS_NO_VALID_CROSS \<and> tr_fills (ms_result st) = [] \<or> status = STATUS_QUEUE_MASK \<and> oversized rq st))"

lemma snapshot_not_empty:
  assumes "trading_ok b" and "best_crossable_px (rq_side rq) (rq_limit_px rq) b = Some px"
  shows "level_snapshot (opposite (rq_side rq)) px b \<noteq> []"
  using best_crossable_Some(2) [OF assms] by (simp add: level_snapshot_def)

lemma state_id: "ms_book st = b \<Longrightarrow> st\<lparr>ms_book := b\<rparr> = st"
  by (cases st) simp

text \<open>A round keeps a partial execution, or leaves the loop with one.\<close>

lemma trade_round_match:
  assumes "partial_execution rq b st" and "ms_remaining st \<noteq> 0" and "best_crossable_px (rq_side rq) (rq_limit_px rq) (ms_book st) = Some px"
    and "\<not> band_stops rq ctx px"
  shows "trade_round rq ctx st = (case match_level rq ctx px (level_snapshot (opposite (rq_side rq)) px (ms_book st)) st of
      Inl b' \<Rightarrow> Inl (Rejected b' STATUS_QUEUE_MASK) | Inr st1 \<Rightarrow> Inr st1)"
proof -
  have ok: "trading_ok (ms_book st)" using assms(1) by (simp add: partial_execution_def)
  have "st1\<lparr>ms_book := remove_empty_levels (opposite (rq_side rq)) px (ms_book st1)\<rparr> = st1"
    if "match_level rq ctx px (level_snapshot (opposite (rq_side rq)) px (ms_book st)) st = Inr st1" for st1
    using match_level_exit [OF assms(1) at_level_snapshot [OF ok assms(3)], of ctx] that
    by (simp add: level_exit_def partial_execution_def remove_empty_levels_id trading_okD(2) state_id)
  then show ?thesis
    using assms(2-4) snapshot_not_empty [OF ok assms(3)]
    by (auto simp: trade_round_def band_stops_def split: sum.split)
qed

lemma trade_round_cases:
  assumes "partial_execution rq b st"
  obtains (stop) e where "trade_round rq ctx st = Inl e" "loop_exit rq ctx b e"
  | (go) px st1 where "best_crossable_px (rq_side rq) (rq_limit_px rq) (ms_book st) = Some px" "ms_remaining st \<noteq> 0"
      "match_level rq ctx px (level_snapshot (opposite (rq_side rq)) px (ms_book st)) st = Inr st1"
      "trade_round rq ctx st = Inr st1" "partial_execution rq b st1" "shrunk (ms_book st) (ms_book st1)"
proof (cases "ms_remaining st = 0 \<or> best_crossable_px (rq_side rq) (rq_limit_px rq) (ms_book st) = None")
  case True
  then show ?thesis using assms by (intro stop [of "Finished st"]) (auto simp: trade_round_def loop_exit_def)
next
  case False
  then obtain px where px: "best_crossable_px (rq_side rq) (rq_limit_px rq) (ms_book st) = Some px" and rem: "ms_remaining st \<noteq> 0" by auto
  have ok: "trading_ok (ms_book st)" using assms by (simp add: partial_execution_def)
  show ?thesis
  proof (cases "band_stops rq ctx px")
    case True
    then show ?thesis using assms px rem
      by (intro stop [of "if tr_fills (ms_result st) = [] then Rejected (ms_book st) STATUS_NO_VALID_CROSS else Finished st"])
        (auto simp: trade_round_def loop_exit_def band_stops_def)
  next
    case no_stop: False
    note round = trade_round_match [OF assms rem px no_stop] and exit = match_level_exit [OF assms at_level_snapshot [OF ok px], of ctx]
    show ?thesis
    proof (cases "match_level rq ctx px (level_snapshot (opposite (rq_side rq)) px (ms_book st)) st")
      case (Inl b')
      then show ?thesis using round exit by (intro stop [of "Rejected b' STATUS_QUEUE_MASK"]) (auto simp: loop_exit_def level_exit_def)
    next
      case (Inr st1)
      then show ?thesis using round exit px rem by (intro go [of px st1]) (auto simp: level_exit_def)
    qed
  qed
qed

lemma trade_loop_exit:
  assumes "trade_loop rq ctx st = Some e" and "partial_execution rq b st"
  shows "loop_exit rq ctx b e"
proof -
  have "partial_execution rq b st \<longrightarrow> loop_exit rq ctx b e"
  proof (rule trade_loop.raw_induct [where P = "\<lambda>rq ctx st e. partial_execution rq b st \<longrightarrow> loop_exit rq ctx b e", OF _ assms(1)], intro impI)
    fix loop rq ctx st e
    assume IH: "\<And>rq ctx st e. loop rq ctx st = Some e \<Longrightarrow> partial_execution rq b st \<longrightarrow> loop_exit rq ctx b e"
      and eq: "(case trade_round rq ctx st of Inl e \<Rightarrow> Some e | Inr st1 \<Rightarrow> loop rq ctx st1) = Some e" and pe: "partial_execution rq b st"
    from pe show "loop_exit rq ctx b e"
      by (cases rule: trade_round_cases [where ctx = ctx]) (use eq IH in auto)
  qed
  with assms(2) show ?thesis by blast
qed

lemma trade_loop_diverges:
  assumes "trade_round rq ctx st = Inr st1" and "\<And>st. same st \<Longrightarrow> \<exists>st1. trade_round rq ctx st = Inr st1 \<and> same st1" and "same st"
  shows "trade_loop rq ctx st = None"
proof (rule ccontr)
  assume "trade_loop rq ctx st \<noteq> None"
  then obtain e where e: "trade_loop rq ctx st = Some e" by auto
  have "(\<forall>st. same st \<longrightarrow> (\<exists>st1. trade_round rq ctx st = Inr st1 \<and> same st1)) \<longrightarrow> \<not> same st"
  proof (rule trade_loop.raw_induct [where P = "\<lambda>rq ctx st e. (\<forall>st. same st \<longrightarrow> (\<exists>st1. trade_round rq ctx st = Inr st1 \<and> same st1)) \<longrightarrow> \<not> same st", OF _ e],
      intro impI notI)
    fix loop rq ctx st e
    assume IH: "\<And>rq ctx st e. loop rq ctx st = Some e \<Longrightarrow> (\<forall>st. same st \<longrightarrow> (\<exists>st1. trade_round rq ctx st = Inr st1 \<and> same st1)) \<longrightarrow> \<not> same st"
      and eq: "(case trade_round rq ctx st of Inl e \<Rightarrow> Some e | Inr st1 \<Rightarrow> loop rq ctx st1) = Some e"
      and go: "\<forall>st. same st \<longrightarrow> (\<exists>st1. trade_round rq ctx st = Inr st1 \<and> same st1)" and s: "same st"
    from go s obtain st1 where "trade_round rq ctx st = Inr st1" "same st1" by blast
    with eq IH [of rq ctx st1 e] go show False by auto
  qed
  with assms(2,3) show False by blast
qed

section \<open>Ending\<close>

definition no_self_cross :: "order_request \<Rightarrow> order_book \<Rightarrow> bool" where
  "no_self_cross rq b \<longleftrightarrow> (\<forall>oid ord. map_of (ob_orders b) oid = Some ord \<longrightarrow> ro_side ord = opposite (rq_side rq) \<longrightarrow>
     crosses (rq_side rq) (rq_limit_px rq) (ro_px ord) \<longrightarrow> foreign rq ord)"

lemma no_self_cross_shrunk: "no_self_cross rq b \<Longrightarrow> shrunk b b' \<Longrightarrow> no_self_cross rq b'"
  unfolding no_self_cross_def foreign_def by (metis shrunk_order)

text \<open>A level of other users shortens the book or exhausts the order.\<close>

lemma match_level_progress:
  assumes pe: "partial_execution rq b st" and lev: "at_level rq px (oid # oids) (ms_book st)" and rem: "ms_remaining st \<noteq> 0" "ms_remaining st \<le> max_order_sz ctx"
    and cross: "crosses (rq_side rq) (rq_limit_px rq) px" and self: "no_self_cross rq (ms_book st)"
    and maker: "map_of (ob_orders (ms_book st)) oid = Some maker" and res: "match_level rq ctx px (oid # oids) st = Inr st'"
  shows "ms_remaining st' = 0 \<or> length (ob_orders (ms_book st')) < length (ob_orders (ms_book st))"
proof -
  have ok: "trading_ok (ms_book st)" using pe by (simp add: partial_execution_def)
  have at: "ro_side maker = opposite (rq_side rq)" "ro_px maker = px" using lev maker by (auto simp: at_level_def)
  have fo: "foreign rq maker" using self maker at cross by (auto simp: no_self_cross_def)
  let ?sz = "min (ms_remaining st) (ro_resting_sz maker)"
  have pos: "0 < ?sz" "?sz \<le> ro_resting_sz maker" "?sz \<le> ms_remaining st" using orders_soundD(2) [OF trading_okD(1) [OF ok] maker] rem(1) by auto
  have m: "min ?sz (max_order_sz ctx) = ?sz" using rem(2) by simp
  note mm = match_level_match [OF rem(1) cross maker fo m [symmetric], unfolded at(2), of oids]
  obtain ntl where ntl: "checked_notional ?sz px = Some ntl"
    using mm res pos(1) by (cases "checked_notional ?sz px") auto
  let ?st = "apply_match rq maker ?sz ntl st"
  have res1: "match_level rq ctx px oids ?st = Inr st'" using mm res pos(1) ntl by simp
  note am = apply_match_book [OF ok maker, of rq ?sz ntl] and step = matched_book_step [OF ok maker pos(1,2)]
  have pe1: "partial_execution rq b ?st"
    unfolding notional_Some [OF ntl, THEN conjunct1] at(2) [symmetric]
    by (rule partial_execution_match [OF pe maker at(1) _ fo _ pos]) (use cross at lev in \<open>auto simp: at_level_def\<close>)
  show ?thesis
  proof (cases "?sz = ms_remaining st")
    case True
    then have "ms_remaining ?st = 0" using am(2) by simp
    then have "st' = ?st" using res1 by (cases oids) auto
    then show ?thesis using \<open>ms_remaining ?st = 0\<close> by simp
  next
    case False
    then have "?sz = ro_resting_sz maker" by linarith
    with step(7) have "length (ob_orders (ms_book ?st)) < length (ob_orders (ms_book st))" unfolding am(1) by simp
    moreover have "length (ob_orders (ms_book st')) \<le> length (ob_orders (ms_book ?st))"
      using match_level_exit [OF pe1 at_level_shrunk [OF at_level_Cons [OF lev] step(2), folded am(1)], of ctx] res1 by (simp add: level_exit_def)
    ultimately show ?thesis by linarith
  qed
qed

lemma trade_loop_returns:
  assumes "partial_execution rq b st" and "no_self_cross rq (ms_book st)" and "rq_sz rq \<le> max_order_sz ctx"
  shows "\<exists>e. trade_loop rq ctx st = Some e"
  using assms(1,2)
proof (induction "length (ob_orders (ms_book st))" arbitrary: st rule: less_induct)
  case less
  note pe = less.prems(1)
  have ok: "trading_ok (ms_book st)" using pe by (simp add: partial_execution_def)
  from pe show ?case
  proof (cases rule: trade_round_cases [where ctx = ctx])
    case (stop e)
    then show ?thesis by (subst trade_loop.simps) simp
  next
    case (go px st1)
    note lev = at_level_snapshot [OF ok go(1)]
    obtain oid oids where q: "level_snapshot (opposite (rq_side rq)) px (ms_book st) = oid # oids"
      using snapshot_not_empty [OF ok go(1)] by (cases "level_snapshot (opposite (rq_side rq)) px (ms_book st)") auto
    then obtain maker where maker: "map_of (ob_orders (ms_book st)) oid = Some maker"
      using order_queued [OF trading_okD(2) [OF ok], of oid "opposite (rq_side rq)" px] by (auto simp: level_snapshot_def)
    have max: "ms_remaining st \<le> max_order_sz ctx" using pe assms(3) unfolding partial_execution_def by linarith
    from match_level_progress [OF pe lev [unfolded q] go(2) max best_crossable_Some(1) [OF ok go(1)] less.prems(2) maker go(3) [unfolded q]]
    have "\<exists>e. trade_loop rq ctx st1 = Some e"
    proof
      assume "ms_remaining st1 = 0"
      then show ?thesis by (subst trade_loop.simps) (simp add: trade_round_def)
    next
      assume "length (ob_orders (ms_book st1)) < length (ob_orders (ms_book st))"
      then show ?thesis by (rule less.hyps) (use go(5,6) less.prems(2) in \<open>auto intro: no_self_cross_shrunk\<close>)
    qed
    then show ?thesis by (subst trade_loop.simps) (simp add: go(4))
  qed
qed

end
