(* ===== verification/Trading_Properties.thy ===== *)
theory Trading_Properties
  imports Trading_Loop
begin

text \<open>
  What the execution of one order does to its book: the accounts of an accepted order, what a rejection leaves behind, when the execution
  returns, and the orders it never returns from.
\<close>

section \<open>Admission\<close>

lemma admitted:
  assumes "refuse_order b rq ctx = None"
  shows "map_of (ob_orders b) (rq_oid rq) = None" "0 < rq_limit_px rq" "rq_limit_px rq \<le> MAX_LIMIT_PX" "0 < rq_sz rq"
    "rq_sz rq * rq_limit_px rq \<le> MAX_MATCH_NOTIONAL" "rq_sz rq \<le> MAX_MATCH_NOTIONAL" "rq_sz rq \<le> max_order_sz ctx"
    "rq_tif rq = Alo \<Longrightarrow> best_crossable_px (rq_side rq) (rq_limit_px rq) b = None"
    "must_be_marketable (rq_tif rq) \<Longrightarrow> best_crossable_px (rq_side rq) (rq_limit_px rq) b \<noteq> None"
proof -
  have h: "map_of (ob_orders b) (rq_oid rq) = None \<and> 0 < rq_limit_px rq \<and> rq_limit_px rq \<le> MAX_LIMIT_PX \<and> 0 < rq_sz rq \<and>
      valid_notional ctx (rq_sz rq) (rq_limit_px rq) \<and> valid_order_size ctx (rq_sz rq) \<and>
      (rq_tif rq = Alo \<longrightarrow> best_crossable_px (rq_side rq) (rq_limit_px rq) b = None) \<and>
      (must_be_marketable (rq_tif rq) \<longrightarrow> best_crossable_px (rq_side rq) (rq_limit_px rq) b \<noteq> None)"
    using assms by (auto simp: refuse_order_def bt_contains_def is_marketable_def split: if_splits)
  then show "map_of (ob_orders b) (rq_oid rq) = None" "0 < rq_limit_px rq" "rq_limit_px rq \<le> MAX_LIMIT_PX" "0 < rq_sz rq"
    "rq_tif rq = Alo \<Longrightarrow> best_crossable_px (rq_side rq) (rq_limit_px rq) b = None"
    "must_be_marketable (rq_tif rq) \<Longrightarrow> best_crossable_px (rq_side rq) (rq_limit_px rq) b \<noteq> None" by auto
  show ntl: "rq_sz rq * rq_limit_px rq \<le> MAX_MATCH_NOTIONAL"
    using h by (auto simp: valid_notional_def dest: notional_Some split: option.splits)
  have "rq_sz rq * 1 \<le> rq_sz rq * rq_limit_px rq" using h by (intro mult_le_mono2) linarith
  with ntl show sz: "rq_sz rq \<le> MAX_MATCH_NOTIONAL" by linarith
  then show "rq_sz rq \<le> max_order_sz ctx"
    using h by (auto simp: valid_order_size_def max_order_sz_def MAX_MATCH_NOTIONAL_def u64_max_def)
qed

lemma checked_notional_None: "checked_notional sz px = None \<Longrightarrow> MAX_MATCH_NOTIONAL < sz * px"
  by (auto simp: checked_notional_def checked_mul_u64_def u64_max_def MAX_MATCH_NOTIONAL_def split: option.splits if_splits)

text \<open>A buyer pays at most the limit price, so its notionals stay in range.\<close>

lemma oversized_only_sell:
  assumes "refuse_order b rq ctx = None" and "partial_execution rq b st" and "oversized rq st"
  shows "rq_side rq = Sell"
proof (rule ccontr)
  assume "rq_side rq \<noteq> Sell"
  then have buy: "rq_side rq = Buy" by (cases "rq_side rq") auto
  obtain maker :: resting_order and sz where m: "crosses (rq_side rq) (rq_limit_px rq) (ro_px maker)" "sz \<le> ms_remaining st" "checked_notional sz (ro_px maker) = None"
    using assms(3) unfolding oversized_def by blast
  have "sz * ro_px maker \<le> rq_sz rq * rq_limit_px rq"
    using m(1,2) assms(2) buy by (intro mult_le_mono) (auto simp: crosses_def partial_execution_def)
  with admitted(5) [OF assms(1)] checked_notional_None [OF m(3)] show False by linarith
qed

section \<open>The deltas\<close>

lemma wrap_small: "n \<le> MAX_MATCH_NOTIONAL \<Longrightarrow> wrap_i64 (int n) = int n" "n \<le> MAX_MATCH_NOTIONAL \<Longrightarrow> wrap_i64 (- int n) = - int n"
  by (auto intro!: wrap_i64_id simp: in_i64_def i64_min_def i64_max_def MAX_MATCH_NOTIONAL_def)

lemma signed_qty_small: "n \<le> MAX_MATCH_NOTIONAL \<Longrightarrow> signed_qty sd n = (case sd of Buy \<Rightarrow> - int n | Sell \<Rightarrow> int n)"
  by (cases sd) (simp_all add: signed_qty_def wrap_small)

lemma fill_volume_le: "f \<in> set fs \<Longrightarrow> fl_sz f \<le> fill_volume fs"
  unfolding fill_volume_def by (rule member_le_sum_list) auto

lemma deltas_cancel:
  assumes "\<forall>f \<in> set fs. fl_sz f \<le> MAX_MATCH_NOTIONAL"
  shows "sum_list (map sd_delta (concat (map (fill_deltas rq) fs))) = 0"
  using assms
proof (induction fs)
  case (Cons f fs)
  then show ?case by (cases "fl_taker_side f") (simp_all add: fill_deltas_def outcome_deltas_def signed_qty_small)
qed simp

section \<open>Books that do not cross\<close>

definition uncrossed :: "order_book \<Rightarrow> bool" where
  "uncrossed b \<longleftrightarrow> (\<forall>oid bid oid' ask. map_of (ob_orders b) oid = Some bid \<longrightarrow> map_of (ob_orders b) oid' = Some ask \<longrightarrow>
     ro_side bid = Buy \<longrightarrow> ro_side ask = Sell \<longrightarrow> ro_px bid < ro_px ask)"

lemma uncrossed_shrunk:
  assumes "uncrossed b" and "shrunk b b'"
  shows "uncrossed b'"
  unfolding uncrossed_def
proof (intro allI impI)
  fix oid bid oid' ask
  assume h: "map_of (ob_orders b') oid = Some bid" "map_of (ob_orders b') oid' = Some ask" "ro_side bid = Buy" "ro_side ask = Sell"
  obtain bid0 ask0 where "map_of (ob_orders b) oid = Some bid0" "ro_px bid0 = ro_px bid" "ro_side bid0 = ro_side bid"
      "map_of (ob_orders b) oid' = Some ask0" "ro_px ask0 = ro_px ask" "ro_side ask0 = ro_side ask"
    using shrunk_order [OF assms(2) h(1)] shrunk_order [OF assms(2) h(2)] by blast
  with assms(1) h show "ro_px bid < ro_px ask" unfolding uncrossed_def by metis
qed

lemma uncrossed_insert:
  assumes "trading_ok b" and "uncrossed b" and "best_crossable_px (ro_side ord) (ro_px ord) b = None"
  shows "uncrossed (insert_resting ord b)"
proof -
  note apart = best_crossable_None [OF assms(1,3)]
  have bid: "ro_px ord < ro_px x" if "ro_side ord = Buy" "map_of (ob_orders b) oid = Some x" "ro_side x = Sell" for oid x
    using apart [OF that(2)] that by (simp add: crosses_def)
  have ask: "ro_px x < ro_px ord" if "ro_side ord = Sell" "map_of (ob_orders b) oid = Some x" "ro_side x = Buy" for oid x
    using apart [OF that(2)] that by (simp add: crosses_def)
  show ?thesis
    unfolding uncrossed_def using assms(2) [unfolded uncrossed_def] bid ask by (auto split: if_splits)
qed

lemma side_volume_insert:
  assumes "trading_ok b" and "map_of (ob_orders b) (ro_oid ord) = None"
  shows "side_volume sd (insert_resting ord b) = side_volume sd b + (if ro_side ord = sd then ro_resting_sz ord else 0)"
  using bt_sum_insert [of "ob_orders b" "\<lambda>ord. if ro_side ord = sd then ro_resting_sz ord else 0" "ro_oid ord" ord] assms
  by (auto simp: side_volume_def trading_ok_def orders_sound_def)

section \<open>Executions\<close>

text \<open>The three ways an execution returns.\<close>

lemma execution_cases:
  assumes "trading_ok b" and "execute_book_order b rq ctx = Some (b', r)"
  obtains (refused) status where "refuse_order b rq ctx = Some status" "b' = b" "r = rejected status"
  | (rejected) st status where "refuse_order b rq ctx = None" "partial_execution rq b st" "b' = ms_book st" "r = rejected status"
      "status = STATUS_NO_VALID_CROSS \<and> tr_fills (ms_result st) = [] \<or> status = STATUS_QUEUE_MASK \<and> oversized rq st"
  | (finished) st where "refuse_order b rq ctx = None" "loop_exit rq ctx b (Finished st)" "partial_execution rq b st"
      "(b', r) = finish_order rq (is_marketable (rq_side rq) (rq_limit_px rq) b) st"
proof (cases "refuse_order b rq ctx")
  case (Some status)
  then show ?thesis using assms(2) by (intro refused [of status]) (simp_all add: execute_book_order_def)
next
  case None
  let ?st = "\<lparr>ms_book = b, ms_result = ok_result (rq_sz rq), ms_remaining = rq_sz rq\<rparr>"
  obtain e where e: "trade_loop rq ctx ?st = Some e" using assms(2) None by (auto simp: execute_book_order_def split: option.splits)
  have exit: "loop_exit rq ctx b e" by (rule trade_loop_exit [OF e partial_execution_start [OF assms(1)]])
  show ?thesis
  proof (cases e)
    case (Rejected b1 status)
    then obtain st where "partial_execution rq b st" "b1 = ms_book st"
        "status = STATUS_NO_VALID_CROSS \<and> tr_fills (ms_result st) = [] \<or> status = STATUS_QUEUE_MASK \<and> oversized rq st"
      using exit by (auto simp: loop_exit_def)
    with Rejected show ?thesis using assms(2) None e by (intro rejected [of st status]) (simp_all add: execute_book_order_def)
  next
    case (Finished st)
    then show ?thesis using assms(2) None e exit by (intro finished [of st]) (simp_all add: execute_book_order_def loop_exit_def)
  qed
qed

lemma status_distinct [simp]: "STATUS_NO_VALID_CROSS \<noteq> STATUS_SUCCESS" "STATUS_QUEUE_MASK \<noteq> STATUS_SUCCESS" "STATUS_ACTION_CAP \<noteq> STATUS_SUCCESS"
    "STATUS_INTERNAL_UNWRAP \<noteq> STATUS_SUCCESS" "refuse_order b rq ctx \<noteq> Some STATUS_SUCCESS"
  by (simp_all add: status_defs refuse_order_def)

lemma rejected_fields [simp]: "tr_status (rejected status) = status" "tr_fills (rejected status) = []" "tr_deltas (rejected status) = []"
  by (simp_all add: rejected_def)

definition rests :: "order_request \<Rightarrow> match_state \<Rightarrow> bool" where
  "rests rq st \<longleftrightarrow> ms_remaining st \<noteq> 0 \<and> \<not> must_be_marketable (rq_tif rq)"

lemma finish_order_simps:
  assumes "refuse_order b rq ctx = None" and "(b', r) = finish_order rq (is_marketable (rq_side rq) (rq_limit_px rq) b) st"
    and "tr_rested_oid (ms_result st) = None"
  shows "b' = (if rests rq st then insert_resting (from_request rq (ms_remaining st)) (ms_book st) else ms_book st)"
    "tr_status r = tr_status (ms_result st)" "tr_fills r = tr_fills (ms_result st)" "tr_deltas r = tr_deltas (ms_result st)"
    "tr_remaining_sz r = ms_remaining st" "tr_rested_oid r = (if rests rq st then Some (rq_oid rq) else None)"
proof -
  have "\<not> (rq_tif rq = Alo \<and> is_marketable (rq_side rq) (rq_limit_px rq) b)" using admitted(8) [OF assms(1)] by (auto simp: is_marketable_def)
  with assms(2,3) show "b' = (if rests rq st then insert_resting (from_request rq (ms_remaining st)) (ms_book st) else ms_book st)"
    "tr_status r = tr_status (ms_result st)" "tr_fills r = tr_fills (ms_result st)" "tr_deltas r = tr_deltas (ms_result st)"
    "tr_remaining_sz r = ms_remaining st" "tr_rested_oid r = (if rests rq st then Some (rq_oid rq) else None)"
    by (auto simp: finish_order_def Let_def push_bbo_event_def push_event_def rests_def split: if_splits)
qed

lemma from_request_fields [simp]: "ro_oid (from_request rq sz) = rq_oid rq" "ro_resting_sz (from_request rq sz) = sz"
    "ro_side (from_request rq sz) = rq_side rq" "ro_px (from_request rq sz) = rq_limit_px rq" "ro_user (from_request rq sz) = rq_user rq"
  by (simp_all add: from_request_def)

lemma shrunk_absent: "shrunk b b' \<Longrightarrow> map_of (ob_orders b) oid = None \<Longrightarrow> map_of (ob_orders b') oid = None"
  by (cases "map_of (ob_orders b') oid") (auto dest: shrunk_order)

lemma execution_keeps_ok:
  assumes "trading_ok b" and "execute_book_order b rq ctx = Some (b', r)"
  shows "trading_ok b'"
  using assms
proof (cases rule: execution_cases)
  case (finished st)
  have "trading_ok (ms_book st)" "shrunk b (ms_book st)" "tr_rested_oid (ms_result st) = None" using finished(3) by (simp_all add: partial_execution_def)
  moreover have "map_of (ob_orders (ms_book st)) (rq_oid rq) = None" by (rule shrunk_absent [OF calculation(2) admitted(1) [OF finished(1)]])
  ultimately show ?thesis using finish_order_simps(1) [OF finished(1,4)] by (auto simp: rests_def intro!: insert_resting_ok)
qed (use assms(1) in \<open>auto simp: partial_execution_def\<close>)

text \<open>C8.  An accepted order accounts for its whole size: every fill is with a resting order of another user at that order's price, which the limit
  allows, best prices first; fills and remainder add up to the size of the order; the opposite side loses exactly what was filled and the own
  side gains exactly what rests; the signed changes of all positions cancel; what remains rests unless the order had to be marketable; a
  post-only order never fills.\<close>

theorem accepted_order_accounts:
  assumes "trading_ok b" and "execute_book_order b rq ctx = Some (b', r)" and "tr_status r = STATUS_SUCCESS"
  shows "(\<forall>f \<in> set (tr_fills r). fill_of rq b f) \<and> sorted_wrt (no_worse (rq_side rq)) (map fl_px (tr_fills r)) \<and>
    fill_volume (tr_fills r) + tr_remaining_sz r = rq_sz rq \<and>
    side_volume (opposite (rq_side rq)) b' + fill_volume (tr_fills r) = side_volume (opposite (rq_side rq)) b \<and>
    side_volume (rq_side rq) b' = side_volume (rq_side rq) b + (if tr_rested_oid r = None then 0 else tr_remaining_sz r) \<and>
    sum_list (map sd_delta (tr_deltas r)) = 0 \<and>
    (tr_rested_oid r = None \<longleftrightarrow> tr_remaining_sz r = 0 \<or> must_be_marketable (rq_tif rq)) \<and>
    (rq_tif rq = Alo \<longrightarrow> tr_fills r = [])"
  using assms(1,2)
proof (cases rule: execution_cases)
  case (finished st)
  note pe = finished(3)
  have "tr_rested_oid (ms_result st) = None" using pe by (simp add: partial_execution_def)
  note fin = finish_order_simps [OF finished(1,4) this]
  have ok: "trading_ok (ms_book st)" and shr: "shrunk b (ms_book st)" using pe by (simp_all add: partial_execution_def)
  have absent: "map_of (ob_orders (ms_book st)) (rq_oid rq) = None" by (rule shrunk_absent [OF shr admitted(1) [OF finished(1)]])
  have vol: "side_volume sd b' = side_volume sd (ms_book st) + (if rests rq st \<and> sd = rq_side rq then ms_remaining st else 0)" for sd
    unfolding fin(1) using side_volume_insert [OF ok, of "from_request rq (ms_remaining st)" sd] absent by auto
  have "fl_sz f \<le> MAX_MATCH_NOTIONAL" if "f \<in> set (tr_fills (ms_result st))" for f
    using fill_volume_le [OF that] pe admitted(6) [OF finished(1)] unfolding partial_execution_def by linarith
  then have zero: "sum_list (map sd_delta (tr_deltas (ms_result st))) = 0" using pe deltas_cancel by (simp add: partial_execution_def)
  have alo: "tr_fills (ms_result st) = []" if "rq_tif rq = Alo"
  proof (rule ccontr)
    assume "tr_fills (ms_result st) \<noteq> []"
    then obtain f where "f \<in> set (tr_fills (ms_result st))" by (cases "tr_fills (ms_result st)") auto
    then obtain ord where "map_of (ob_orders b) (fl_maker_oid f) = Some ord" "ro_side ord = opposite (rq_side rq)" "crosses (rq_side rq) (rq_limit_px rq) (ro_px ord)"
      using pe by (auto simp: partial_execution_def fill_of_def)
    with best_crossable_None [OF assms(1) admitted(8) [OF finished(1) that]] show False by blast
  qed
  show ?thesis using pe vol zero alo unfolding fin(2-6) partial_execution_def by (auto simp: rests_def)
qed (use assms(3) status_distinct in \<open>auto simp: status_defs\<close>)

lemma rejection_outcome:
  assumes "trading_ok b" and "execute_book_order b rq ctx = Some (b', r)" and "tr_status r \<noteq> STATUS_SUCCESS"
  shows "r = rejected (tr_status r) \<and>
    (b' = b \<or> rq_side rq = Sell \<and> tr_status r = STATUS_QUEUE_MASK \<and> side_volume Buy b' < side_volume Buy b \<and> shrunk b b' \<and> same_side Sell b b')"
  using assms(1,2)
proof (cases rule: execution_cases)
  case (rejected st status)
  show ?thesis
  proof (cases "tr_fills (ms_result st) = []")
    case True
    then show ?thesis using rejected by (auto simp: partial_execution_def)
  next
    case False
    then have "oversized rq st" using rejected(5) by auto
    with oversized_only_sell [OF rejected(1,2)] have sell: "rq_side rq = Sell" by blast
    obtain f fs where f: "tr_fills (ms_result st) = f # fs" using False by (cases "tr_fills (ms_result st)") auto
    then have "0 < fill_volume (tr_fills (ms_result st))" using rejected(2) by (auto simp: partial_execution_def fill_of_def fill_volume_def)
    then show ?thesis using rejected sell False by (auto simp: partial_execution_def)
  qed
next
  case (finished st)
  then have "tr_status r = STATUS_SUCCESS" using finish_order_simps(2) [OF finished(1,4)] by (simp add: partial_execution_def)
  with assms(3) show ?thesis by simp
qed simp

text \<open>A rejected order reports no fill and leaves the book as it was, with one exception: a sale that comes to a notional out of range after
  it has been matched is rejected with the bids it met already gone.\<close>

lemma rejection_keeps_book:
  assumes "trading_ok b" and "execute_book_order b rq ctx = Some (b', r)" and "tr_status r \<noteq> STATUS_SUCCESS"
  shows "r = rejected (tr_status r) \<and>
    (b' = b \<or> rq_side rq = Sell \<and> tr_status r = STATUS_QUEUE_MASK \<and> side_volume Buy b' < side_volume Buy b \<and> shrunk b b' \<and> same_side Sell b b')"
  using rejection_outcome [OF assms] .

text \<open>The execution of an order returns whenever no order of the book that it crosses belongs to its user or, for two vaults, to a vault.\<close>

lemma execution_returns:
  assumes "trading_ok b" and "no_self_cross rq b"
  shows "\<exists>b' r. execute_book_order b rq ctx = Some (b', r) \<and> trading_ok b'"
proof -
  have "\<exists>b' r. execute_book_order b rq ctx = Some (b', r)"
  proof (cases "refuse_order b rq ctx")
    case None
    let ?st = "\<lparr>ms_book = b, ms_result = ok_result (rq_sz rq), ms_remaining = rq_sz rq\<rparr>"
    obtain e where "trade_loop rq ctx ?st = Some e"
      using trade_loop_returns [OF partial_execution_start [OF assms(1)], of rq ctx] assms(2) admitted(7) [OF None] by auto
    then show ?thesis using None by (cases e; cases "finish_order rq (is_marketable (rq_side rq) (rq_limit_px rq) b) (case e of Finished st \<Rightarrow> st)")
        (auto simp: execute_book_order_def)
  qed (simp add: execute_book_order_def)
  then show ?thesis using execution_keeps_ok [OF assms(1)] by blast
qed

lemma match_level_own:
  assumes "\<forall>oid \<in> set oids. \<forall>ord. map_of (ob_orders (ms_book st)) oid = Some ord \<longrightarrow> \<not> foreign rq ord"
  shows "\<exists>st1. match_level rq ctx px oids st = Inr st1 \<and> ms_book st1 = ms_book st \<and> ms_remaining st1 = ms_remaining st"
  using assms
proof (induction oids arbitrary: st)
  case (Cons oid oids)
  show ?case
  proof (cases "ms_remaining st = 0 \<or> \<not> crosses (rq_side rq) (rq_limit_px rq) px \<or> map_of (ob_orders (ms_book st)) oid = None")
    case True
    then show ?thesis using Cons.IH [of st] Cons.prems by auto
  next
    case False
    then obtain ord where ord: "map_of (ob_orders (ms_book st)) oid = Some ord" by auto
    let ?st = "st\<lparr>ms_result := push_event (MakerStatus (ro_user ord) (ro_oid ord) 9) (ms_result st)\<rparr>"
    have "match_level rq ctx px (oid # oids) st = match_level rq ctx px oids ?st" using False ord Cons.prems by (auto simp: foreign_def)
    then show ?thesis using Cons.IH [of ?st] Cons.prems by auto
  qed
qed simp

text \<open>An admitted order whose best crossing level holds only orders of its own user never returns.\<close>

lemma own_level_never_returns:
  assumes "trading_ok b" and "refuse_order b rq ctx = None" and "best_crossable_px (rq_side rq) (rq_limit_px rq) b = Some px" and "\<not> band_stops rq ctx px"
    and "\<forall>oid \<in> set (level_snapshot (opposite (rq_side rq)) px b). \<forall>ord. map_of (ob_orders b) oid = Some ord \<longrightarrow> \<not> foreign rq ord"
  shows "execute_book_order b rq ctx = None"
proof -
  let ?same = "\<lambda>st. ms_book st = b \<and> ms_remaining st = rq_sz rq"
  have step: "\<exists>st1. trade_round rq ctx st = Inr st1 \<and> ?same st1" if h: "?same st" for st
  proof -
    obtain st1 where "match_level rq ctx px (level_snapshot (opposite (rq_side rq)) px b) st = Inr st1" "?same st1"
      using match_level_own [of "level_snapshot (opposite (rq_side rq)) px b" st rq ctx px] assms(5) h by metis
    then show ?thesis
      using h assms(3,4) snapshot_not_empty [OF assms(1,3)] admitted(4) [OF assms(2)] remove_empty_levels_id [OF trading_okD(2) [OF assms(1)]]
      by (auto simp: trade_round_def band_stops_def)
  qed
  let ?st = "\<lparr>ms_book = b, ms_result = ok_result (rq_sz rq), ms_remaining = rq_sz rq\<rparr>"
  obtain st1 where "trade_round rq ctx ?st = Inr st1" using step [of ?st] by auto
  then have "trade_loop rq ctx ?st = None" by (rule trade_loop_diverges [where same = ?same]) (use step in auto)
  then show ?thesis using assms(2) by (simp add: execute_book_order_def)
qed

lemma execution_uncrossed:
  assumes "trading_ok b" and "uncrossed b" and "execute_book_order b rq ctx = Some (b', r)" and "\<not> ac_price_limit_enabled ctx \<or> ac_oracle_px ctx = 0"
  shows "uncrossed b'"
  using assms(1,3)
proof (cases rule: execution_cases)
  case (refused status)
  then show ?thesis using assms(2) by simp
next
  case (rejected st status)
  then show ?thesis using uncrossed_shrunk [OF assms(2)] by (simp add: partial_execution_def)
next
  case (finished st)
  have pe: "trading_ok (ms_book st)" "shrunk b (ms_book st)" "tr_rested_oid (ms_result st) = None" using finished(3) by (simp_all add: partial_execution_def)
  note u = uncrossed_shrunk [OF assms(2) pe(2)]
  have "rests rq st \<Longrightarrow> best_crossable_px (rq_side rq) (rq_limit_px rq) (ms_book st) = None"
    using finished(2) assms(4) by (auto simp: loop_exit_def rests_def band_stops_def)
  then show ?thesis
    unfolding finish_order_simps(1) [OF finished(1,4) pe(3)] using u uncrossed_insert [OF pe(1) u, of "from_request rq (ms_remaining st)"] by auto
qed

section \<open>Sample executions\<close>

definition sample_request :: "nat \<Rightarrow> order_request" where
  "sample_request sz = \<lparr>rq_user = 9, rq_oid = 3, rq_asset = 0, rq_side = Sell, rq_limit_px = 1, rq_sz = sz, rq_reduce_only = False, rq_tif = Ioc, rq_cloid = None,
     rq_timestamp = 0, rq_builder_nonce = 0, rq_order_kind = 0, rq_is_position_tpsl = False, rq_use_user_price_qty_lookup = False,
     rq_allow_trigger_cleanup = False, rq_owned_fill_vec = False\<rparr>"

definition sample_bid :: "nat \<Rightarrow> nat \<Rightarrow> nat \<Rightarrow> resting_order" where
  "sample_bid oid px sz = (from_request (sample_request sz) sz)\<lparr>ro_user := 7, ro_oid := oid, ro_side := Buy, ro_px := px, ro_tif := Gtc\<rparr>"

definition sample_order_book :: order_book where
  "sample_order_book = insert_resting (sample_bid 2 100000000000000 1000000) (insert_resting (sample_bid 1 1000000000000000 1) empty_order_book)"

definition sample_ctx :: "nat \<Rightarrow> asset_context" where
  "sample_ctx oracle_px = \<lparr>ac_tick_sz = 1, ac_oracle_px = oracle_px, ac_min_order_sz = 0, ac_max_order_sz = 0, ac_price_limit_enabled = False\<rparr>"

lemma sample_bid_fields [simp]: "ro_oid (sample_bid oid px sz) = oid" "ro_px (sample_bid oid px sz) = px" "ro_resting_sz (sample_bid oid px sz) = sz"
    "ro_side (sample_bid oid px sz) = Buy" "ro_user (sample_bid oid px sz) = 7"
  by (simp_all add: sample_bid_def)

lemma sample_order_book_ok: "trading_ok sample_order_book"
  unfolding sample_order_book_def by (intro insert_resting_ok empty_book_ok) (simp_all add: empty_order_book_def)

lemma sample_order_book_eq:
  "sample_order_book = \<lparr>ob_bids = [(100000000000000, [2]), (1000000000000000, [1])], ob_asks = [],
     ob_orders = [(1, sample_bid 1 1000000000000000 1), (2, sample_bid 2 100000000000000 1000000)], ob_user_oids = [((7, 1), 1), ((7, 2), 2)],
     ob_user_price_qty = [((7, 1), -1), ((7, 2), -1000000)], ob_best_bid = Some 1000000000000000, ob_best_ask = None\<rparr>"
  by (simp add: sample_order_book_def insert_resting_def Let_def empty_order_book_def side_levels_def set_side_levels_def push_back_def queue_at_def
      refresh_best_bid_ask_def bt_first_key_def bt_last_key_def signed_qty_def wrap_i64_def)

lemma sample_foreign: "foreign (sample_request sz) (sample_bid oid px n)"
  by (simp add: foreign_def sample_request_def both_vault_privileged_def is_vault_privileged_def)

lemma sample_no_self_cross: "no_self_cross (sample_request sz) sample_order_book"
  using sample_foreign by (auto simp: no_self_cross_def sample_order_book_eq split: if_splits)

lemmas trading_eval = execute_book_order_def refuse_order_def bt_contains_def valid_tick_def valid_order_size_def valid_notional_def checked_notional_def
  checked_mul_u64_def u64_max_def MAX_MATCH_NOTIONAL_def MIN_ORDER_NOTIONAL_def MAX_LIMIT_PX_def is_marketable_def best_crossable_px_def bt_last_key_def
  bt_first_key_def must_be_marketable_def trade_round_def level_snapshot_def side_levels_def queue_at_def crosses_def max_order_sz_def apply_match_def
  remove_order_def update_resting_sz_def retain_others_def cut_if_empty_def remove_empty_levels_def set_side_levels_def refresh_best_bid_ask_def
  bt_remove_def push_event_def ok_result_def make_fill_def make_deltas_def both_vault_privileged_def is_vault_privileged_def

lemmas sample_eval = sample_order_book_eq sample_request_def sample_ctx_def trading_eval Let_def

lemma sample_rejected:
  "\<exists>b'. execute_book_order sample_order_book (sample_request 10000000000) (sample_ctx 1) = Some (b', rejected STATUS_QUEUE_MASK) \<and> b' \<noteq> sample_order_book"
  apply (simp add: sample_eval)
  apply (subst trade_loop.simps)
  apply (simp add: sample_eval)
  apply (subst trade_loop.simps)
  apply (simp add: sample_eval)
  done

lemma sample_accepted:
  "\<exists>b' r. execute_book_order sample_order_book (sample_request 3) (sample_ctx 10000000) = Some (b', r) \<and> tr_status r = STATUS_SUCCESS \<and> length (tr_fills r) = 2"
  apply (simp add: sample_eval)
  apply (subst trade_loop.simps)
  apply (simp add: sample_eval)
  apply (subst trade_loop.simps)
  apply (simp add: sample_eval)
  apply (subst trade_loop.simps)
  apply (simp add: sample_eval finish_order_def push_bbo_event_def)
  done

theorem accepted_order_accounts_witness:
  "\<exists>b' r. execute_book_order sample_order_book (sample_request 3) (sample_ctx 10000000) = Some (b', r) \<and> length (tr_fills r) = 2 \<and>
    fill_volume (tr_fills r) + tr_remaining_sz r = 3 \<and> tr_rested_oid r = None"
proof -
  obtain b' r where e: "execute_book_order sample_order_book (sample_request 3) (sample_ctx 10000000) = Some (b', r)"
    and r: "tr_status r = STATUS_SUCCESS" "length (tr_fills r) = 2" using sample_accepted by blast
  have "rq_sz (sample_request 3) = 3" "must_be_marketable (rq_tif (sample_request 3))" by (simp_all add: sample_request_def must_be_marketable_def)
  with accepted_order_accounts [OF sample_order_book_ok e r(1)] e r(2) show ?thesis by auto
qed

lemma rejection_keeps_book_witness:
  "\<exists>b'. execute_book_order sample_order_book (sample_request 10000000000) (sample_ctx 1) = Some (b', rejected STATUS_QUEUE_MASK) \<and>
    side_volume Buy b' < side_volume Buy sample_order_book"
proof -
  obtain b' where e: "execute_book_order sample_order_book (sample_request 10000000000) (sample_ctx 1) = Some (b', rejected STATUS_QUEUE_MASK)"
    and ne: "b' \<noteq> sample_order_book" using sample_rejected by blast
  with rejection_keeps_book [OF sample_order_book_ok e] show ?thesis by auto
qed

lemma execution_returns_witness: "\<exists>b' r. execute_book_order sample_order_book (sample_request 3) (sample_ctx 1) = Some (b', r) \<and> trading_ok b'"
  by (rule execution_returns [OF sample_order_book_ok sample_no_self_cross])

end
