(* ===== verification/Trading_Runs.thy ===== *)
theory Trading_Runs
  imports Trading_Properties
begin

text \<open>
  The exchange around the books: every run of its operations keeps every book sound and every user within the cap on actions; a failed
  replacement puts the order back.
\<close>

section \<open>States\<close>

definition books_ok :: "(nat, order_book) btree \<Rightarrow> bool" where
  "books_ok m \<longleftrightarrow> (\<forall>asset b. map_of m asset = Some b \<longrightarrow> trading_ok b)"

definition exchange_ok :: "exchange_state \<Rightarrow> bool" where
  "exchange_ok s \<longleftrightarrow> books_ok (xs_spot_books s) \<and> (\<forall>d \<in> set (xs_main s # xs_alt s # xs_per_dex s). books_ok (pd_books d))"

definition action_limit :: "address \<Rightarrow> nat" where
  "action_limit user = (if is_vault_privileged user then USER_ACTION_PRIVILEGED_LIMIT else USER_ACTION_BASE_LIMIT + USER_ACTION_MAX_VOLUME_BONUS)"

definition counts_ok :: "exchange_state \<Rightarrow> bool" where
  "counts_ok s \<longleftrightarrow> (\<forall>user. count_of (xs_user_action_count s) user \<le> action_limit user)"

definition same_books :: "exchange_state \<Rightarrow> exchange_state \<Rightarrow> bool" where
  "same_books s t \<longleftrightarrow> xs_main t = xs_main s \<and> xs_alt t = xs_alt s \<and> xs_per_dex t = xs_per_dex s \<and> xs_spot_books t = xs_spot_books s"

lemma kept_books_ok: "same_books s t \<Longrightarrow> exchange_ok t = exchange_ok s"
  by (simp add: same_books_def exchange_ok_def)

lemma counts_cong: "xs_user_action_count t = xs_user_action_count s \<Longrightarrow> counts_ok t = counts_ok s"
  by (simp add: counts_ok_def)

lemma same_books_get: "same_books s t \<Longrightarrow> book_mut domain asset t = book_mut domain asset s"
  by (cases domain) (simp_all add: same_books_def book_mut_def per_dex_book_def split_asset_def)

lemma same_books_trans: "same_books s t \<Longrightarrow> same_books t u \<Longrightarrow> same_books s u"
  by (simp add: same_books_def)

lemma books_ok_insert: "books_ok m \<Longrightarrow> trading_ok b \<Longrightarrow> books_ok (bt_insert asset b m)"
  by (simp add: books_ok_def)

lemma book_or_new_ok: "books_ok m \<Longrightarrow> trading_ok (book_or_new m asset)"
  using empty_book_ok by (auto simp: books_ok_def book_or_new_def split: option.split)

lemma per_dex_get_ok: "exchange_ok s \<Longrightarrow> per_dex_book dex asset s = Some b \<Longrightarrow> trading_ok b"
  by (auto simp: exchange_ok_def per_dex_book_def intro!: book_or_new_ok split: if_splits)

lemma per_dex_put_ok:
  assumes "exchange_ok s" and "trading_ok b" and "per_dex_book dex asset s \<noteq> None"
  shows "exchange_ok (put_per_dex_book dex asset b s)"
proof -
  have dex: "dex < length (xs_per_dex s)" using assms(3) by (simp add: per_dex_book_def split: if_splits)
  then have "books_ok (pd_books (put_dex_book asset b (xs_per_dex s ! dex)))"
    using assms(1,2) by (auto simp: exchange_ok_def put_dex_book_def intro!: books_ok_insert)
  then show ?thesis using assms(1) set_update_subset_insert [of "xs_per_dex s" dex] by (auto simp: exchange_ok_def put_per_dex_book_def)
qed

lemma book_get_ok:
  assumes "exchange_ok s" and "book_mut domain asset s = Some b"
  shows "trading_ok b"
proof (cases domain)
  case PerDex
  then show ?thesis using assms(2) per_dex_get_ok [OF assms(1)] by (simp add: book_mut_def split_asset_def)
qed (use assms in \<open>auto simp: exchange_ok_def book_mut_def intro: book_or_new_ok\<close>)

lemma book_put_ok: "exchange_ok s \<Longrightarrow> trading_ok b \<Longrightarrow> book_mut domain asset s \<noteq> None \<Longrightarrow> exchange_ok (put_book domain asset b s)"
  using per_dex_put_ok [of s b]
  by (cases domain) (auto simp: exchange_ok_def book_mut_def put_book_def put_dex_book_def split_asset_def intro: books_ok_insert)

lemma book_get_put: "book_mut domain asset s \<noteq> None \<Longrightarrow> book_mut domain asset (put_book domain asset b s) = Some b"
  by (cases domain) (auto simp: book_mut_def put_book_def put_dex_book_def book_or_new_def per_dex_book_def put_per_dex_book_def split_asset_def split: if_splits)

lemma put_book_counts [simp]: "xs_user_action_count (put_book domain asset b s) = xs_user_action_count s"
  by (cases domain) (simp_all add: put_book_def split_asset_def put_per_dex_book_def)

section \<open>Steps around a book\<close>

lemma number_fills_frame:
  assumes "number_fills fs s = (fs1, reps, s1)"
  shows "same_books s s1" and "xs_user_action_count s1 = xs_user_action_count s"
  using assms
  by (induction fs arbitrary: s fs1 reps s1) (auto simp: allocate_fill_id_def same_books_def split: if_splits prod.splits)

lemma assign_fill_ids_frame:
  assumes "assign_fill_ids r s = (r1, s1)"
  shows "same_books s s1" and "xs_user_action_count s1 = xs_user_action_count s" and "tr_status r1 = tr_status r"
  using assms number_fills_frame [of "tr_fills r" s] by (auto simp: assign_fill_ids_def split: prod.splits)

lemma cap_frame:
  assumes "check_user_action_cap user eligible s = (s1, accepted)"
  shows "same_books s s1" and "counts_ok s \<Longrightarrow> counts_ok s1"
proof -
  show "same_books s s1" using assms by (auto simp: check_user_action_cap_def Let_def same_books_def split: if_splits)
  have "count_of (bt_insert user n m) u = (if u = user then n else count_of m u)" for n m u by (simp add: count_of_def)
  then show "counts_ok s \<Longrightarrow> counts_ok s1"
    using assms
    by (auto simp: check_user_action_cap_def Let_def counts_ok_def action_limit_def USER_ACTION_BASE_LIMIT_def USER_ACTION_PRIVILEGED_LIMIT_def
        USER_ACTION_MAX_VOLUME_BONUS_def split: if_splits)
qed

lemma after_frame: "same_books s (after_order_execution market r s)" "xs_user_action_count (after_order_execution market r s) = xs_user_action_count s"
  by (simp_all add: after_order_execution_def Let_def same_books_def)

lemma counted_frame [simp]: "same_books s (count_submitted s)" "counts_ok (count_submitted s) = counts_ok s"
    "same_books s (count_transfer s)" "counts_ok (count_transfer s) = counts_ok s"
  by (simp_all add: count_submitted_def count_transfer_def same_books_def counts_ok_def)

lemma finish_execution_Some:
  assumes "finish_execution put executed s = Some (s', r)"
  obtains b r0 where "executed = Some (b, r0)" "tr_status r = tr_status r0" "same_books (put b s) s'" "xs_user_action_count s' = xs_user_action_count (put b s)"
proof -
  obtain b r0 where e: "executed = Some (b, r0)" using assms by (auto simp: finish_execution_def split: option.splits)
  obtain r1 s1 where a: "assign_fill_ids r0 (put b s) = (r1, s1)" by (cases "assign_fill_ids r0 (put b s)")
  then have "s' = s1" "r = r1" using assms e by (auto simp: finish_execution_def)
  with e a that assign_fill_ids_frame [OF a] show ?thesis by auto
qed

text \<open>An order on the perpetual books either does not reach a book or is executed on the one its asset selects.\<close>

lemma execute_perp_order_effect:
  assumes "execute_perp_order domain (fst (split_asset asset)) (if domain = PerDex then snd (split_asset asset) else asset) rq ctx s = Some (s', r)"
  shows "xs_user_action_count s' = xs_user_action_count s \<and>
    (s' = s \<and> r = rejected STATUS_INTERNAL_UNWRAP \<and> book_mut domain asset s = None \<or>
     (\<exists>b b' r0 local. book_mut domain asset s = Some b \<and> execute_book_order b (rq\<lparr>rq_asset := local\<rparr>) ctx = Some (b', r0) \<and> tr_status r = tr_status r0 \<and>
        same_books (put_book domain asset b' s) s'))"
proof (cases "book_mut domain asset s")
  case None
  then show ?thesis using assms by (cases domain) (auto simp: execute_perp_order_def book_mut_def split_asset_def)
next
  case (Some b)
  obtain local where "finish_execution (\<lambda>b s. put_book domain asset b s) (execute_book_order b (rq\<lparr>rq_asset := local\<rparr>) ctx) s = Some (s', r)"
  proof (cases "domain = PerDex")
    case True
    then show ?thesis using assms Some that by (auto simp: execute_perp_order_def book_mut_def put_book_def split_asset_def)
  next
    case False
    then show ?thesis using assms Some that by (auto simp: execute_perp_order_def)
  qed
  then show ?thesis by (rule finish_execution_Some) (use Some in auto)
qed

lemma perp_order_effect:
  assumes "check_cap_and_execute_perp_order domain rq ctx s = Some (s', r)" and "counts_ok s"
  shows "counts_ok s' \<and>
    (same_books s s' \<and> tr_status r \<noteq> STATUS_SUCCESS \<or>
     (\<exists>b b' r0 local. book_mut domain (rq_asset rq) s = Some b \<and> execute_book_order b (rq\<lparr>rq_asset := local\<rparr>) ctx = Some (b', r0) \<and>
        tr_status r = tr_status r0 \<and> book_mut domain (rq_asset rq) s' = Some b' \<and> (exchange_ok s \<longrightarrow> exchange_ok s')))"
proof -
  obtain s1 accepted where cap: "check_user_action_cap (rq_user rq) (eligible_for_expanded_cap rq) (count_submitted s) = (s1, accepted)" by fastforce
  note frame = same_books_trans [OF counted_frame(1) cap_frame(1) [OF cap]] and counts = cap_frame(2) [OF cap]
  show ?thesis
  proof (cases accepted)
    case False
    then show ?thesis using assms cap frame counts by (auto simp: check_cap_and_execute_perp_order_def)
  next
    case True
    let ?executed = "execute_perp_order domain (fst (split_asset (rq_asset rq))) (if domain = PerDex then snd (split_asset (rq_asset rq)) else rq_asset rq) rq ctx s1"
    have "account_execution Perp ?executed = Some (s', r)"
      using assms(1) cap True by (cases "domain = PerDex") (simp_all add: check_cap_and_execute_perp_order_def split_asset_def)
    then obtain s2 where e: "?executed = Some (s2, r)" and s': "s' = after_order_execution Perp r s2"
      by (cases ?executed) (auto simp: account_execution_def)
    note eff = execute_perp_order_effect [OF e] and same = same_books_trans [OF _ after_frame(1) [of s2 Perp r]]
    have c: "counts_ok s'" using eff counts assms(2) counts_cong [of s' s1] by (simp add: s' after_frame)
    show ?thesis
    proof (cases "book_mut domain (rq_asset rq) s1")
      case None
      then show ?thesis using eff c frame same unfolding s' by auto
    next
      case (Some b)
      then obtain b' r0 local where x: "execute_book_order b (rq\<lparr>rq_asset := local\<rparr>) ctx = Some (b', r0)" "tr_status r = tr_status r0"
          "same_books (put_book domain (rq_asset rq) b' s1) s2" using eff by auto
      have "exchange_ok s \<longrightarrow> exchange_ok s'"
      proof
        assume ok: "exchange_ok s"
        then have "exchange_ok s1" using kept_books_ok [OF frame] by simp
        then have "exchange_ok (put_book domain (rq_asset rq) b' s1)"
          using book_put_ok [OF _ execution_keeps_ok [OF book_get_ok x(1)]] Some by simp
        then show "exchange_ok s'" using kept_books_ok [OF same [OF x(3)]] by (simp add: s')
      qed
      moreover have "book_mut domain (rq_asset rq) s' = Some b'"
        using same_books_get [OF same [OF x(3)], of domain "rq_asset rq"] book_get_put [of domain "rq_asset rq" s1 b'] Some by (simp add: s')
      moreover have "book_mut domain (rq_asset rq) s = Some b" using same_books_get [OF frame, of domain "rq_asset rq"] Some by simp
      ultimately show ?thesis using c x by blast
    qed
  qed
qed

section \<open>The other operations\<close>

definition steps_ok :: "exchange_state \<Rightarrow> exchange_state \<Rightarrow> bool" where
  "steps_ok s s' \<longleftrightarrow> (counts_ok s \<longrightarrow> counts_ok s' \<and> (exchange_ok s \<longrightarrow> exchange_ok s'))"

lemma steps_ok_same: "same_books s s' \<Longrightarrow> (counts_ok s \<Longrightarrow> counts_ok s') \<Longrightarrow> steps_ok s s'"
  using kept_books_ok by (auto simp: steps_ok_def)

lemma perp_order_ok: "check_cap_and_execute_perp_order domain rq ctx s = Some (s', r) \<Longrightarrow> steps_ok s s'"
  using perp_order_effect [of domain rq ctx s s' r] kept_books_ok [of s s'] unfolding steps_ok_def by blast

lemma spot_order_ok:
  assumes "check_cap_and_execute_spot_order domain rq ctx s = Some (s', r)"
  shows "steps_ok s s'"
proof -
  obtain s1 accepted where cap: "check_user_action_cap (rq_user rq) (eligible_for_expanded_cap rq) (count_submitted s) = (s1, accepted)" by fastforce
  note frame = same_books_trans [OF counted_frame(1) cap_frame(1) [OF cap]] and counts = cap_frame(2) [OF cap]
  show ?thesis
  proof (cases "accepted \<and> spot_market_exists (rq_asset rq) s1")
    case False
    then have "s' = s1" using assms cap by (cases accepted) (auto simp: check_cap_and_execute_spot_order_def)
    then show ?thesis using frame counts by (intro steps_ok_same) auto
  next
    case True
    let ?put = "\<lambda>b s. s\<lparr>xs_spot_books := bt_insert (rq_asset rq) b (xs_spot_books s)\<rparr>"
    obtain s2 where e: "execute_spot_order rq ctx s1 = Some (s2, r)" and s': "s' = after_order_execution Spot r s2"
      using assms cap True by (auto simp: check_cap_and_execute_spot_order_def account_execution_def split: option.splits)
    from e [unfolded execute_spot_order_def] obtain b r0 where x: "execute_book_order (book_or_new (xs_spot_books s1) (rq_asset rq)) rq ctx = Some (b, r0)"
        "same_books (?put b s1) s2" "xs_user_action_count s2 = xs_user_action_count (?put b s1)"
      by (rule finish_execution_Some)
    have "counts_ok s' = counts_ok s1" using x(3) by (simp add: s' counts_ok_def after_frame)
    moreover have "exchange_ok s' = exchange_ok (?put b s1)" using kept_books_ok [OF same_books_trans [OF x(2) after_frame(1)]] by (simp add: s')
    moreover have "exchange_ok s1 \<Longrightarrow> exchange_ok (?put b s1)"
      using execution_keeps_ok [OF book_or_new_ok x(1)] by (auto simp: exchange_ok_def intro: books_ok_insert)
    ultimately show ?thesis using counts kept_books_ok [OF frame] by (simp add: steps_ok_def)
  qed
qed

lemma accept_transfer_frame: "same_books s (fst (accept_transfer market scale t s))" "xs_user_action_count (fst (accept_transfer market scale t s)) = xs_user_action_count s"
  by (auto simp: accept_transfer_def same_books_def split: option.split)

lemma transfer_ok:
  "steps_ok s (fst (process_perp_transfer_with_volume_accounting t s))" "steps_ok s (fst (process_spot_transfer_with_volume_accounting t s))"
proof -
  obtain s1 accepted where cap: "check_user_action_cap (tq_user t) (transfer_eligible t) (count_transfer s) = (s1, accepted)" by fastforce
  note frame = same_books_trans [OF counted_frame(3) cap_frame(1) [OF cap]] and counts = cap_frame(2) [OF cap]
  have s1: "steps_ok s s1" using frame counts by (intro steps_ok_same) auto
  have s2: "steps_ok s (fst (accept_transfer market scale t s1))" for market scale
    using same_books_trans [OF frame accept_transfer_frame(1)] counts counts_cong [OF accept_transfer_frame(2)]
    by (intro steps_ok_same) auto
  show "steps_ok s (fst (process_perp_transfer_with_volume_accounting t s))"
    using s1 s2 cap by (cases accepted) (simp_all add: process_perp_transfer_with_volume_accounting_def split_asset_def)
  show "steps_ok s (fst (process_spot_transfer_with_volume_accounting t s))"
    using s1 s2 cap by (cases accepted) (simp_all add: process_spot_transfer_with_volume_accounting_def)
qed

lemma removal_ok: "trading_ok b \<Longrightarrow> remove_order user oid code b = (b1, res) \<Longrightarrow> trading_ok b1"
  using without_ok [of b oid] by (auto simp: removal_cases split: option.splits if_splits)

lemma put_book_steps: "(exchange_ok s \<Longrightarrow> trading_ok b) \<Longrightarrow> book_mut domain asset s \<noteq> None \<Longrightarrow> steps_ok s (put_book domain asset b s)"
  using book_put_ok by (auto simp: steps_ok_def counts_ok_def)

lemma refresh_ok: "trading_ok b \<Longrightarrow> refresh_best_bid_ask b = b"
  by (rule refresh_id [OF trading_okD(4)])

lemma cancel_ok: "steps_ok s (fst (cancel_order domain asset user oid s))"
proof (cases "book_mut domain asset s")
  case None
  then show ?thesis by (simp add: cancel_order_def steps_ok_def)
next
  case (Some b)
  obtain b1 res where r: "remove_order user oid 13 b = (b1, res)" by fastforce
  have "exchange_ok s \<Longrightarrow> trading_ok (refresh_best_bid_ask b1)"
    using removal_ok [OF book_get_ok r] Some refresh_ok [of b1] by auto
  then show ?thesis using Some r by (simp add: cancel_order_def Let_def put_book_steps)
qed

lemma trade_outcome_ok: "steps_ok s (fst (apply_trade_outcome domain asset fills s))"
proof -
  obtain fs reps s1 where n: "number_fills fills s = (fs, reps, s1)" using prod_cases3 by blast
  note frame = number_fills_frame [OF n]
  have one: "steps_ok s s1" using frame by (intro steps_ok_same) (auto simp: counts_ok_def)
  show ?thesis
  proof (cases "book_mut domain asset s1")
    case None
    then show ?thesis using n one by (simp add: apply_trade_outcome_def Let_def)
  next
    case (Some b)
    have "exchange_ok s1 \<Longrightarrow> trading_ok (refresh_best_bid_ask b)" using book_get_ok [OF _ Some] refresh_ok [of b] by auto
    then have "steps_ok s1 (put_book domain asset (refresh_best_bid_ask b) s1)" using Some by (intro put_book_steps) auto
    then show ?thesis using n one Some by (auto simp: apply_trade_outcome_def Let_def steps_ok_def)
  qed
qed

lemma dex_order_ok:
  assumes "process_perp_dex_order dex asset rq ctx s = Some (s', r)"
  shows "steps_ok s s'"
proof -
  obtain s1 r1 where e: "execute_perp_order PerDex dex asset rq ctx s = Some (s1, r1)"
    and s': "s' = (if tr_status r1 \<noteq> STATUS_SUCCESS then s1 else fst (apply_trade_outcome PerDex asset (tr_fills r1) s1))"
    using assms by (auto simp: process_perp_dex_order_def split: option.splits if_splits)
  have "steps_ok s s1"
  proof (cases "per_dex_book dex asset s")
    case None
    then show ?thesis using e by (simp add: execute_perp_order_def steps_ok_def)
  next
    case (Some b)
    then have "finish_execution (put_per_dex_book dex asset) (execute_book_order b (rq\<lparr>rq_asset := asset\<rparr>) ctx) s = Some (s1, r1)"
      using e by (simp add: execute_perp_order_def)
    then obtain b' r0 where x: "execute_book_order b (rq\<lparr>rq_asset := asset\<rparr>) ctx = Some (b', r0)" "same_books (put_per_dex_book dex asset b' s) s1"
        "xs_user_action_count s1 = xs_user_action_count (put_per_dex_book dex asset b' s)"
      by (rule finish_execution_Some)
    have "exchange_ok s \<Longrightarrow> exchange_ok s1"
      using per_dex_put_ok [OF _ execution_keeps_ok [OF per_dex_get_ok x(1)], of s] Some kept_books_ok [OF x(2)] by auto
    then show ?thesis using x(3) by (simp add: steps_ok_def counts_ok_def put_per_dex_book_def)
  qed
  then show ?thesis using trade_outcome_ok [of s1 PerDex asset "tr_fills r1"] unfolding s' by (auto simp: steps_ok_def)
qed

section \<open>Replacing an order\<close>

lemma remove_order_Some:
  assumes "trading_ok b" and "remove_order user oid code b = (b1, Some (ord, e))"
  shows "map_of (ob_orders b) oid = Some ord" "b1 = without ord b" "ro_oid ord = oid" "0 < ro_resting_sz ord" "trading_ok b1" "map_of (ob_orders b1) oid = None"
proof -
  show o: "map_of (ob_orders b) oid = Some ord" "b1 = without ord b"
    using assms by (auto simp: removal_cases split: option.splits if_splits)
  show id: "ro_oid ord = oid" "0 < ro_resting_sz ord" using orders_soundD [OF trading_okD(1) [OF assms(1)] o(1)] by auto
  show "trading_ok b1" using without_ok [OF assms(1) o(1)] o(2) by simp
  show "map_of (ob_orders b1) oid = None" using id by (simp add: o(2))
qed

lemma failed_replacement:
  assumes ok: "exchange_ok s" "counts_ok s" and b: "book_mut domain (rq_asset rq) s = Some b" and rm: "remove_order user oid code b = (b1, Some (ord, e))"
    and run: "check_cap_and_execute_perp_order domain rq ctx (put_book domain (rq_asset rq) b1 s) = Some (s2, r)" and bad: "tr_status r \<noteq> STATUS_SUCCESS"
  shows "\<exists>b2. book_mut domain (rq_asset rq) s2 = Some b2 \<and> trading_ok b2 \<and> (b2 = b1 \<or> rq_side rq = Sell \<and> shrunk b1 b2) \<and> exchange_ok s2 \<and> counts_ok s2"
proof -
  note rmv = remove_order_Some [OF book_get_ok [OF ok(1) b] rm]
  let ?s1 = "put_book domain (rq_asset rq) b1 s"
  have s1: "exchange_ok ?s1" "counts_ok ?s1" "book_mut domain (rq_asset rq) ?s1 = Some b1"
    using book_put_ok [OF ok(1) rmv(5)] ok(2) b book_get_put by (auto simp: counts_ok_def)
  have steps: "exchange_ok s2" "counts_ok s2" using perp_order_ok [OF run] s1 by (auto simp: steps_ok_def)
  from perp_order_effect [OF run s1(2)] consider "same_books ?s1 s2"
    | b2 r0 local where "execute_book_order b1 (rq\<lparr>rq_asset := local\<rparr>) ctx = Some (b2, r0)" "tr_status r = tr_status r0" "book_mut domain (rq_asset rq) s2 = Some b2"
    using s1(3) by auto
  then show ?thesis
  proof cases
    case 1
    then show ?thesis using same_books_get [OF 1, of domain "rq_asset rq"] s1(3) rmv(5) steps by auto
  next
    case 2
    with rejection_outcome [OF rmv(5) 2(1)] bad book_get_ok [OF steps(1) 2(3)] steps show ?thesis by auto
  qed
qed

lemma replace_failed_state:
  assumes ok: "exchange_ok s" "counts_ok s" and run: "replace_order_after_existing_lookup domain mq ctx s = Some (s', r)" and old: "mr_old_order r = Some ord"
    and st: "mr_status r = STATUS_MODIFY"
  shows "\<exists>b b1 b2 s2 e. book_mut domain (rq_asset (mq_replacement mq)) s = Some b \<and> remove_order (mq_old_user mq) (mq_old_oid mq) 13 b = (b1, Some (ord, e)) \<and>
     book_mut domain (rq_asset (mq_replacement mq)) s2 = Some b2 \<and> trading_ok b2 \<and> (b2 = b1 \<or> rq_side (mq_replacement mq) = Sell \<and> shrunk b1 b2) \<and>
     exchange_ok s2 \<and> counts_ok s2 \<and> s' = put_book domain (rq_asset (mq_replacement mq)) (insert_resting ord b2) s2"
proof -
  let ?asset = "rq_asset (mq_replacement mq)"
  obtain b where b: "book_mut domain ?asset s = Some b"
    using run old by (cases "book_mut domain ?asset s") (auto simp: replace_order_after_existing_lookup_def Let_def)
  obtain b1 e where rm: "remove_order (mq_old_user mq) (mq_old_oid mq) 13 b = (b1, Some (ord, e))"
    using run old b by (auto simp: replace_order_after_existing_lookup_def Let_def split: prod.splits option.splits if_splits)
  obtain s2 r2 where x: "check_cap_and_execute_perp_order domain (mq_replacement mq) ctx (put_book domain ?asset b1 s) = Some (s2, r2)"
    using run b rm by (auto simp: replace_order_after_existing_lookup_def Let_def split: option.splits)
  have bad: "tr_status r2 \<noteq> STATUS_SUCCESS"
    using run b rm x st by (auto simp: replace_order_after_existing_lookup_def Let_def status_defs split: if_splits)
  obtain b2 where b2: "book_mut domain ?asset s2 = Some b2" "trading_ok b2" "b2 = b1 \<or> rq_side (mq_replacement mq) = Sell \<and> shrunk b1 b2" "exchange_ok s2" "counts_ok s2"
    using failed_replacement [OF ok b rm x bad] by blast
  have "s' = put_book domain ?asset (insert_resting ord b2) s2"
    using run b rm x bad b2(1) by (auto simp: replace_order_after_existing_lookup_def Let_def)
  with b rm b2 show ?thesis by blast
qed

lemma reinsert_ok:
  assumes "trading_ok b" and "remove_order user oid code b = (b1, Some (ord, e))" and "trading_ok b2" and "b2 = b1 \<or> shrunk b1 b2"
  shows "trading_ok (insert_resting ord b2)"
proof (rule insert_resting_ok [OF assms(3)])
  note rmv = remove_order_Some [OF assms(1,2)]
  show "0 < ro_resting_sz ord" by (rule rmv)
  show "map_of (ob_orders b2) (ro_oid ord) = None" using assms(4) rmv(3,6) shrunk_absent by auto
qed

lemma replace_ok:
  assumes "replace_order_after_existing_lookup domain mq ctx s = Some (s', r)"
  shows "steps_ok s s'"
  unfolding steps_ok_def
proof (intro impI conjI)
  assume counts: "counts_ok s"
  let ?asset = "rq_asset (mq_replacement mq)"
  have "counts_ok s' \<and> (exchange_ok s \<longrightarrow> exchange_ok s')"
  proof (cases "book_mut domain ?asset s")
    case None
    then show ?thesis using assms counts by (simp add: replace_order_after_existing_lookup_def Let_def)
  next
    case (Some b)
    obtain b1 res where rm: "remove_order (mq_old_user mq) (mq_old_oid mq) 13 b = (b1, res)" by fastforce
    have one: "steps_ok s (put_book domain ?asset b1 s)" by (rule put_book_steps) (use Some removal_ok [OF book_get_ok rm] in auto)
    show ?thesis
    proof (cases res)
      case None
      then show ?thesis using assms Some rm one counts by (auto simp: replace_order_after_existing_lookup_def Let_def steps_ok_def)
    next
      case oe: (Some oe)
      obtain ord e where res: "res = Some (ord, e)" using oe by (cases oe) auto
      obtain s2 r2 where x: "check_cap_and_execute_perp_order domain (mq_replacement mq) ctx (put_book domain ?asset b1 s) = Some (s2, r2)"
        using assms Some rm res by (auto simp: replace_order_after_existing_lookup_def Let_def split: option.splits)
      note two = perp_order_ok [OF x]
      show ?thesis
      proof (cases "tr_status r2 = STATUS_SUCCESS")
        case True
        then have "s' = s2" using assms Some rm res x by (auto simp: replace_order_after_existing_lookup_def Let_def)
        then show ?thesis using one two counts by (auto simp: steps_ok_def)
      next
        case False
        then have s': "s' = (case book_mut domain ?asset s2 of None \<Rightarrow> s2 | Some b2 \<Rightarrow> put_book domain ?asset (insert_resting ord b2) s2)"
          using assms Some rm res x by (auto simp: replace_order_after_existing_lookup_def Let_def)
        have "counts_ok s2" using one two counts by (simp add: steps_ok_def)
        then have c: "counts_ok s'" unfolding s' by (simp add: counts_ok_def split: option.split)
        have "exchange_ok s'" if ok: "exchange_ok s"
        proof -
          obtain b2 where b2: "book_mut domain ?asset s2 = Some b2" "trading_ok b2" "b2 = b1 \<or> shrunk b1 b2" "exchange_ok s2"
            using failed_replacement [OF ok counts Some rm [unfolded res] x False] by blast
          then show ?thesis unfolding s' using book_put_ok reinsert_ok [OF book_get_ok [OF ok Some] rm [unfolded res] b2(2,3)] by simp
        qed
        then show ?thesis using c by blast
      qed
    qed
  qed
  then show "counts_ok s'" "exchange_ok s \<Longrightarrow> exchange_ok s'" by auto
qed

section \<open>Runs\<close>

datatype trading_op =
    PerpOrder exchange_domain order_request asset_context
  | SpotOrder exchange_domain order_request asset_context
  | PerpTransfer transfer_request
  | SpotTransfer transfer_request
  | CancelOrder exchange_domain nat address nat
  | ReplaceOrder exchange_domain modify_request asset_context
  | TradeOutcome exchange_domain nat "fill list"
  | DexOrder nat nat order_request asset_context

definition run_op :: "trading_op \<Rightarrow> exchange_state \<Rightarrow> exchange_state option" where
  "run_op op s = (case op of
      PerpOrder domain rq ctx \<Rightarrow> map_option fst (check_cap_and_execute_perp_order domain rq ctx s)
    | SpotOrder domain rq ctx \<Rightarrow> map_option fst (check_cap_and_execute_spot_order domain rq ctx s)
    | PerpTransfer t \<Rightarrow> Some (fst (process_perp_transfer_with_volume_accounting t s))
    | SpotTransfer t \<Rightarrow> Some (fst (process_spot_transfer_with_volume_accounting t s))
    | CancelOrder domain asset user oid \<Rightarrow> Some (fst (cancel_order domain asset user oid s))
    | ReplaceOrder domain mq ctx \<Rightarrow> map_option fst (replace_order_after_existing_lookup domain mq ctx s)
    | TradeOutcome domain asset fills \<Rightarrow> Some (fst (apply_trade_outcome domain asset fills s))
    | DexOrder dex asset rq ctx \<Rightarrow> map_option fst (process_perp_dex_order dex asset rq ctx s))"

inductive trading_step :: "exchange_state \<Rightarrow> exchange_state \<Rightarrow> bool" where
  trading_stepI: "run_op op s = Some s' \<Longrightarrow> trading_step s s'"

lemma run_op_ok: "run_op op s = Some s' \<Longrightarrow> steps_ok s s'"
  using perp_order_ok spot_order_ok transfer_ok cancel_ok replace_ok trade_outcome_ok dex_order_ok
  by (cases op) (fastforce simp: run_op_def)+

interpretation trading_runs: invariant_system trading_step "\<lambda>s. exchange_ok s \<and> counts_ok s"
proof
  fix s t assume "trading_step s t" "exchange_ok s \<and> counts_ok s"
  then show "exchange_ok t \<and> counts_ok t" using run_op_ok by (auto simp: steps_ok_def elim!: trading_step.cases)
qed

section \<open>Properties\<close>

text \<open>Along every run of orders, transfers, cancellations, replacements and reported trades, the book that a domain and an asset select has its
  orders, its queues, its index of users and its best prices in agreement, and no user has been granted more actions than the base limit plus
  the largest bonus for volume, or the limit of a privileged vault.\<close>

lemma trading_reachable:
  assumes "trading_step\<^sup>*\<^sup>* s t" and "exchange_ok s" and "counts_ok s"
  shows "(\<forall>domain asset b. book_mut domain asset t = Some b \<longrightarrow> trading_ok b) \<and> (\<forall>asset b. map_of (xs_spot_books t) asset = Some b \<longrightarrow> trading_ok b) \<and>
    (\<forall>user. count_of (xs_user_action_count t) user \<le> action_limit user)"
proof -
  have ok: "exchange_ok t" "counts_ok t" using trading_runs.run_invar [OF assms(1)] assms(2,3) by simp_all
  have "\<forall>domain asset b. book_mut domain asset t = Some b \<longrightarrow> trading_ok b" using book_get_ok [OF ok(1)] by blast
  moreover have "books_ok (xs_spot_books t)" using ok(1) by (simp add: exchange_ok_def)
  ultimately show ?thesis using ok(2) by (simp add: books_ok_def counts_ok_def)
qed

text \<open>A replacement that is refused puts the old order back with its size and price, but at the end of the queue of its price; when the
  replacement was a purchase every other order is as before, and the queue is the old one with the order moved to its end.\<close>

lemma failed_replace_requeues:
  assumes "exchange_ok s" and "counts_ok s" and "replace_order_after_existing_lookup domain mq ctx s = Some (s', r)"
    and "mr_status r = STATUS_MODIFY" and "mr_old_order r = Some ord"
  shows "\<exists>b b'. book_mut domain (rq_asset (mq_replacement mq)) s = Some b \<and> book_mut domain (rq_asset (mq_replacement mq)) s' = Some b' \<and> trading_ok b' \<and>
    map_of (ob_orders b) (mq_old_oid mq) = Some ord \<and> map_of (ob_orders b') (mq_old_oid mq) = Some ord \<and>
    (\<exists>q. level_snapshot (ro_side ord) (ro_px ord) b' = q @ [mq_old_oid mq]) \<and>
    (rq_side (mq_replacement mq) = Buy \<longrightarrow> map_of (ob_orders b') = map_of (ob_orders b) \<and>
      level_snapshot (ro_side ord) (ro_px ord) b' = filter (\<lambda>oid. oid \<noteq> mq_old_oid mq) (level_snapshot (ro_side ord) (ro_px ord) b) @ [mq_old_oid mq])"
proof -
  let ?asset = "rq_asset (mq_replacement mq)"
  obtain b b1 b2 s2 e where b: "book_mut domain ?asset s = Some b" and rm: "remove_order (mq_old_user mq) (mq_old_oid mq) 13 b = (b1, Some (ord, e))"
    and b2: "book_mut domain ?asset s2 = Some b2" "trading_ok b2" "b2 = b1 \<or> rq_side (mq_replacement mq) = Sell \<and> shrunk b1 b2"
    and s': "s' = put_book domain ?asset (insert_resting ord b2) s2"
    using replace_failed_state [OF assms(1-3,5,4)] by blast
  have ok: "trading_ok b" using book_get_ok assms(1) b by blast
  note rmv = remove_order_Some [OF ok rm]
  have get: "book_mut domain ?asset s' = Some (insert_resting ord b2)" unfolding s' using b2(1) by (simp add: book_get_put)
  have "trading_ok (insert_resting ord b2)" using reinsert_ok [OF ok rm b2(2)] b2(3) by blast
  moreover have "map_of (ob_orders (insert_resting ord b2)) (mq_old_oid mq) = Some ord" using rmv(3) by simp
  moreover have queue: "level_snapshot (ro_side ord) (ro_px ord) (insert_resting ord b2) = queue_at (side_levels (ro_side ord) b2) (ro_px ord) @ [mq_old_oid mq]"
    using rmv(3) by (simp add: level_snapshot_def insert_resting_levels)
  moreover have "map_of (ob_orders (insert_resting ord b2)) = map_of (ob_orders b) \<and>
      level_snapshot (ro_side ord) (ro_px ord) (insert_resting ord b2) =
        filter (\<lambda>oid. oid \<noteq> mq_old_oid mq) (level_snapshot (ro_side ord) (ro_px ord) b) @ [mq_old_oid mq]"
    if "rq_side (mq_replacement mq) = Buy"
  proof -
    have b2': "b2 = without ord b" using b2(3) that rmv(2) by simp
    have "map_of (ob_orders (insert_resting ord b2)) = map_of (ob_orders b)" unfolding b2' using rmv(1,3) by (auto simp: fun_eq_iff)
    then show ?thesis unfolding queue using rmv(3) by (simp add: b2' level_snapshot_def)
  qed
  ultimately show ?thesis using b get rmv(1) by blast
qed

section \<open>An exchange\<close>

definition empty_dex :: per_dex_state where
  "empty_dex = \<lparr>pd_books = [], pd_asset_contexts = [], pd_user_scaled_vlm = []\<rparr>"

definition sample_exchange :: "(nat, order_book) btree \<Rightarrow> exchange_state" where
  "sample_exchange books = \<lparr>xs_main = empty_dex\<lparr>pd_books := books\<rparr>, xs_alt = empty_dex, xs_per_dex = [], xs_spot_books = [], xs_spot_contexts = [],
     xs_special_spot_allowlist = [], xs_base_user_scaled_vlm = [], xs_user_action_count = [], xs_submitted_order_count = 0,
     xs_successful_order_count = 0, xs_submitted_transfer_count = 0, xs_successful_transfer_count = 0, xs_next_fill_id = 0, xs_emitted_events = []\<rparr>"

lemma sample_exchange_ok: "exchange_ok (sample_exchange [(4, sample_order_book)])" "counts_ok (sample_exchange books)"
  using sample_order_book_ok by (simp_all add: exchange_ok_def counts_ok_def sample_exchange_def empty_dex_def books_ok_def count_of_def)

definition sample_cancel :: trading_op where
  "sample_cancel = CancelOrder MainBook 4 7 2"

lemma trading_reachable_witness:
  "\<exists>t b. trading_step (sample_exchange [(4, sample_order_book)]) t \<and> book_mut MainBook 4 t = Some b \<and> trading_ok b \<and> map_of (ob_orders b) 2 = None"
proof -
  let ?s = "sample_exchange [(4, sample_order_book)]"
  have get: "book_mut MainBook 4 ?s = Some sample_order_book" by (simp add: book_mut_def sample_exchange_def book_or_new_def)
  have o: "map_of (ob_orders sample_order_book) 2 = Some (sample_bid 2 100000000000000 1000000)" by (simp add: sample_order_book_eq)
  have rm: "remove_order 7 2 13 sample_order_book = (without (sample_bid 2 100000000000000 1000000) sample_order_book,
      Some (sample_bid 2 100000000000000 1000000, CancelEvent 7 2 13))"
    using removal_cases [OF sample_order_book_ok, of 7 2 13] o by simp
  have "run_op sample_cancel ?s = Some (put_book MainBook 4 (refresh_best_bid_ask (without (sample_bid 2 100000000000000 1000000) sample_order_book)) ?s)"
    by (simp add: sample_cancel_def run_op_def cancel_order_def get rm Let_def)
  then obtain t where t: "trading_step ?s t" "book_mut MainBook 4 t = Some (refresh_best_bid_ask (without (sample_bid 2 100000000000000 1000000) sample_order_book))"
    using trading_stepI book_get_put get by (metis option.distinct(1))
  from t(1) have "trading_step\<^sup>*\<^sup>* ?s t" by (rule r_into_rtranclp)
  with trading_reachable [OF _ sample_exchange_ok, of t] t(2)
  have "trading_ok (refresh_best_bid_ask (without (sample_bid 2 100000000000000 1000000) sample_order_book))" by blast
  with t show ?thesis by (intro exI [of _ t] exI) (auto simp: refresh_best_bid_ask_def)
qed

definition sample_replace :: modify_request where
  "sample_replace = \<lparr>mq_old_user = 7, mq_old_oid = 2, mq_replacement = (sample_request 0)\<lparr>rq_asset := 4, rq_side := Buy\<rparr>, mq_require_existing_slot = True\<rparr>"

lemma no_size_refused: "rq_sz rq = 0 \<Longrightarrow> \<exists>st. refuse_order b rq ctx = Some st \<and> st \<noteq> STATUS_SUCCESS"
  by (simp add: refuse_order_def status_defs)

lemma rq_asset_replace: "rq_asset (mq_replacement sample_replace) = 4" "rq_user (mq_replacement sample_replace) = 9" "rq_sz (mq_replacement sample_replace) = 0"
  by (simp_all add: sample_replace_def sample_request_def)

lemma sample_replace_refused:
  "\<exists>s' r. replace_order_after_existing_lookup MainBook sample_replace (sample_ctx 1) (sample_exchange [(4, sample_order_book)]) = Some (s', r) \<and>
     mr_status r = STATUS_MODIFY \<and> mr_old_order r = Some (sample_bid 2 100000000000000 1000000)"
proof -
  let ?s = "sample_exchange [(4, sample_order_book)]" and ?o = "sample_bid 2 100000000000000 1000000"
  have get: "book_mut MainBook 4 ?s = Some sample_order_book" by (simp add: book_mut_def sample_exchange_def book_or_new_def)
  have o: "map_of (ob_orders sample_order_book) 2 = Some ?o" by (simp add: sample_order_book_eq)
  have rm: "remove_order 7 2 13 sample_order_book = (without ?o sample_order_book, Some (?o, CancelEvent 7 2 13))"
    using removal_cases [OF sample_order_book_ok, of 7 2 13] o by simp
  have "\<forall>b. \<exists>st. refuse_order b ((mq_replacement sample_replace)\<lparr>rq_asset := 4\<rparr>) (sample_ctx 1) = Some st \<and> st \<noteq> STATUS_SUCCESS"
    by (intro allI no_size_refused) (simp add: rq_asset_replace)
  then obtain st where st: "\<And>b. refuse_order b ((mq_replacement sample_replace)\<lparr>rq_asset := 4\<rparr>) (sample_ctx 1) = Some (st b) \<and> st b \<noteq> STATUS_SUCCESS"
    by metis
  from st have refused: "execute_book_order b ((mq_replacement sample_replace)\<lparr>rq_asset := 4\<rparr>) (sample_ctx 1) = Some (b, rejected (st b))" "st b \<noteq> STATUS_SUCCESS" for b
    by (simp_all add: execute_book_order_def)
  obtain s2 r where x: "check_cap_and_execute_perp_order MainBook (mq_replacement sample_replace) (sample_ctx 1) (put_book MainBook 4 (without ?o sample_order_book) ?s) = Some (s2, r)"
    and r: "tr_status r \<noteq> STATUS_SUCCESS"
    using refused
    by (auto simp: check_cap_and_execute_perp_order_def check_user_action_cap_def count_of_def sample_exchange_def count_submitted_def put_book_def
        USER_ACTION_BASE_LIMIT_def Let_def split_asset_def account_execution_def execute_perp_order_def book_mut_def finish_execution_def
        rq_asset_replace assign_fill_ids_def rejected_def)
  show ?thesis using x r by (auto simp: replace_order_after_existing_lookup_def sample_replace_def sample_request_def get rm Let_def)
qed

lemma failed_replace_requeues_witness:
  "\<exists>s' r b'. replace_order_after_existing_lookup MainBook sample_replace (sample_ctx 1) (sample_exchange [(4, sample_order_book)]) = Some (s', r) \<and>
     book_mut MainBook 4 s' = Some b' \<and> level_snapshot Buy 100000000000000 b' = [2]"
proof -
  let ?s = "sample_exchange [(4, sample_order_book)]"
  obtain s' r where e: "replace_order_after_existing_lookup MainBook sample_replace (sample_ctx 1) ?s = Some (s', r)"
    and r: "mr_status r = STATUS_MODIFY" "mr_old_order r = Some (sample_bid 2 100000000000000 1000000)" using sample_replace_refused by blast
  have f: "rq_asset (mq_replacement sample_replace) = 4" "mq_old_oid sample_replace = 2" "rq_side (mq_replacement sample_replace) = Buy"
    by (simp_all add: sample_replace_def)
  have get: "book_mut MainBook 4 ?s = Some sample_order_book" by (simp add: book_mut_def sample_exchange_def book_or_new_def)
  have "level_snapshot Buy 100000000000000 sample_order_book = [2]" by (simp add: level_snapshot_def sample_order_book_eq side_levels_def queue_at_def)
  with failed_replace_requeues [OF sample_exchange_ok e r] e show ?thesis by (auto simp: f get)
qed

end
