(* ===== verification/Spec2Isabelle.thy ===== *)
theory Spec2Isabelle
  imports Book_Checker Validator_Codec Consensus_Properties Match_Properties Agent_Tracker User_Margin Position_Map Open_Interest
    Withdraw3_Action Withdraw3_Handler Validator_Set_Votes Evm_Properties Spot_Wei Outcome_Properties
    Quantity_Properties Amounts_Properties Books_Runs Books_Views Vault_Properties Bole_Properties Trading_Runs
begin

text \<open>
  A verification of the core of \<open>hl\<close>, a Hyperliquid node written in Rust.  A node keeps an exchange: an
  order book per asset, a matching engine that fills takers against resting orders, margin tables and accounts that
  bound leverage, agents and nonces that authorise signed actions, a staking ledger, and a bridge whose
  withdrawals leave the exchange once enough validators signed and confirmed them.  Blocks of
  actions are ordered by a HotStuff-like consensus among staked validators, fed by a mempool.  The theories follow that
  structure; every definition is a total HOL function (or, for two matching loops, a partial function) translated
  from the source file named with it.

  \<^bold>\<open>Conventions\<close> (\<open>Rust_Prelude\<close>).  Unsigned integers are naturals and signed ones integers, with the
  checked, saturating and wrapping operations of the source written out (\<open>checked_add_u64\<close>,
  \<open>saturating_mul_u64\<close>, \<open>wrap_i64\<close>).  An address is a word of 160 bits.  A \<open>BTreeMap\<close> is an association list in key
  order (\<open>btree\<close>), a \<open>BTreeSet\<close> a sorted list (\<open>bset\<close>); their laws are collected once, among them the locale
  \<open>weighted_map\<close> (sums over the values of a map) that the staking ledger and the validator set use, and
  \<open>invariant_system\<close> (a step relation that keeps an invariant keeps it along every run).  A panic is \<open>None\<close>, an
  \<open>Err\<close> is \<open>Inl\<close>; an operation that changes its receiver before failing returns the state it leaves.

  \<^bold>\<open>Slab allocator\<close> (\<open>Slab\<close>, \<open>l1/slab/slab.rs\<close>): a vector of slots with a free list threaded through the
  vacant ones.  The free list is a chain without repetition over exactly the vacant slots; insertion
  returns an unused key, removal makes its key the next one to be reused, and retain filters.

  \<^bold>\<open>Resting order book\<close> (\<open>Book\<close>, \<open>l1/book/book/mod.rs\<close>): orders in slots, indexes by order id and by user,
  price levels as doubly linked lists through the orders.  \<open>Linked_Queue\<close> is the contract of such a list;
  \<open>Book_Invariant\<close> states the well-formedness of a book and proves that insertion keeps it,
  \<open>Book_Removal\<close> the same for cancellation and resize, \<open>Book_Refinement\<close> relates a book to an abstract one
  (a finite map from order ids to orders and, per level, the queue of ids in time priority), and
  \<open>Book_Properties\<close> and \<open>Book_Checker\<close> hold the properties: each operation refines its
  abstract counterpart, every book reached by operations passes the checker of the source, insertion
  never panics within the bounds on sizes, and a crossing insertion leaves a crossed book.

  \<^bold>\<open>Matching engine\<close> (\<open>Match_Engine\<close>, \<open>l1/book/book/impl_insert_order.rs\<close>): admission checks, the matching
  loop and the resting of the remainder.  The loop is \<open>partial_function (option)\<close>, because it does not end on
  every input: \<open>None\<close> is a run that does not return.  \<open>Match_Invariant\<close> has the invariant of the book and the effect
  of each step, \<open>Match_Loop\<close> the loop, and \<open>Match_Properties\<close> shows what an insertion that returns has done
  (fills, remainder, resting order, no panic), that it returns unless it meets its own orders, and that it
  never returns when the best crossing level holds only those.

  \<^bold>\<open>Validator set\<close> (\<open>Validator_Set\<close>, \<open>Validator_Codec\<close>, \<open>node/consensus/validator_set.rs\<close>): stakes, jailing, vote
  tallies, quorum thresholds, deltas, the history by round, and the byte format of snapshots.  Any two
  quorums share more than a third of the stake; the tally is exact; encoding round-trips.

  \<^bold>\<open>Mempool\<close> (\<open>Mempool\<close>, \<open>node/consensus/mempool.rs\<close>): the queue of external transactions, blocks and the
  poll loop.  The block verifier of the caller is a parameter.  A poll never panics and forwards a
  transaction at most once; registering a block is all or nothing.

  \<^bold>\<open>Consensus\<close> (\<open>Consensus_State\<close>, \<open>node/consensus/state.rs\<close> and the message types of \<open>types.rs\<close>): registering blocks,
  timeouts, certificates, round changes, commits, pruning.  \<open>Consensus_Safety\<close> has the invariants of every
  step, \<open>Consensus_Properties\<close> the properties: runs never go back and keep the locked block, commits are
  certified, certificates of one round share a correct voter, a quorum of timeouts builds an accepted certificate.

  \<^bold>\<open>Replay protection and agents\<close> (\<open>Nonce\<close>, \<open>l1/nonce.rs\<close>; \<open>Agent_Tracker\<close>, \<open>l1/agent_tracker.rs\<close>).  The locale
  \<open>replay_guard\<close> states what makes a nonce check sound and is interpreted for both nonce domains of
  the code, with the prunings that forget a signer as steps of the runs; an agent stays bound to its user until it is revoked and its grace period is over.

  \<^bold>\<open>Margin tables\<close> (\<open>Margin_Table\<close>, \<open>l1/clearinghouse/margin_table.rs\<close>): validation, tier selection, margin formulas and
  comparison of tables.  The margin is monotone across tier boundaries, and the comparison at the
  boundaries decides the comparison at every notional.

  \<^bold>\<open>Margin accounts\<close>.  \<open>User_State\<close> is \<open>l1/clearinghouse/user_state.rs\<close>, the account of one user: the requirement of a
  position in five modes, sums over the positions, transfers to and from isolated margin, leverage changes
  and the list of negative margins.  \<open>User_Margin\<close> shows that funds are conserved, that a withdrawal leaves the
  position covered, that the list is exact, that its margin formulas are those of the tables, and two ways in
  which margin is lost.  \<open>Position_Map\<close> is \<open>l1/clearinghouse/position_map.rs\<close>: the collection of liquidation
  contributions, with floating-point factors as parameters, and the index of active users, which is exact.

  \<^bold>\<open>Clearinghouse\<close> (\<open>Clearinghouse\<close>, \<open>l1/clearinghouse/clearinghouse.rs\<close>): fills, position deltas, two-sided updates, the
  flattening of an asset and the open-interest caps over the positions of all users.  \<open>Open_Interest\<close> shows that
  open interest and active users are exact along every run in which the sizes of an asset add up to at most a \<open>u64\<close> (an interpretation of
  \<open>invariant_system\<close>), that flattening closes everything but one unit of a position of \<open>i64::MIN\<close>, that the two sides of a trade cancel, and that one margin check never refuses.

  \<^bold>\<open>Staking\<close> (\<open>Staking\<close>, \<open>l1/staking.rs\<close>): delegations and their total, rewards, epoch profiles.

  \<^bold>\<open>Bridge\<close>.  \<open>Bridge2\<close> is the ledger of \<open>l1/bridge2.rs\<close>: pending withdrawals, finished ones, the balance, and the
  decoder's mask of fields seen (\<open>Field_Mask\<close>, the contract of such a mask).  Its balance falls by exactly what is
  recorded.  \<open>Withdraw3_Action\<close> is \<open>l1/action/withdraw3.rs\<close>: validation and the bytes a user signs, built from
  prefix-free writers (\<open>Prefix_Code\<close>), so that the signed bytes determine the withdrawal.  \<open>Withdraw3_Handler\<close> is
  \<open>l1/exchange/handlers/47_withdraw3.rs\<close>, a handler over an engine trait: the trait is a record of operations, the
  locale \<open>bridge_keeper\<close> states what its ledger operations promise, and it is interpreted on the modelled bridge,
  where no user and nonce debits twice.  \<open>Bridge_Votes\<close> (handlers 40 and 46) collects signatures
  and finality votes, and \<open>Validator_Set_Votes\<close> (handlers 45 and 44) the votes that move the staking epoch and
  credit deposits; hashing, signer recovery, validator lookup and the quorum rule are parameters there.

  \<^bold>\<open>EVM transactions\<close> (\<open>l1/action/evm_raw_tx.rs\<close>).  \<open>Evm_U256\<close> has the 256-bit integers and shows that their limbs
  compute on the numbers they denote; \<open>Rlp\<close> the RLP reader and writer, with Ethereum's RLP as a reference; \<open>Evm_Tx\<close> the
  five kinds of transaction, their decoder and encoders.  \<open>Evm_Tx_Codec\<close> shows that decoded transactions are
  well-formed, \<open>Evm_Tx_Roundtrip\<close> that decoding inverts encoding, and \<open>Evm_Ethereum\<close> compares the encoder with the encodings
  Ethereum defines: they agree for legacy transactions only.  \<open>Evm_Validate\<close> is the action, its JSON form and its
  validation over the traits of the source (hash, signer recovery, EVM state), given as records of functions;
  \<open>Evm_Properties\<close> shows that validation accepts exactly the admissible transactions.

  \<^bold>\<open>Spot ledger\<close> (\<open>l1/spot_clearinghouse\<close>).  \<open>Float64\<close> is the double of the sources, rounding included, because shares
  and splits are computed with it; \<open>Token_Ledger\<close> is the contract of a map from users to tokens to balances with its
  index, interpreted three times.  \<open>Spot_Ledger\<close> is \<open>types.rs\<close>: metadata, balances with a reserved part, resting orders and
  fills; \<open>Spot_Properties\<close> shows that fills and debits keep the accounts, and that a resting order is paid twice.
  \<open>Spot_Wei\<close> has the rows of wei with their sweep and the distribution of \<open>spot_clearinghouse.rs\<close>, which is exact.
  \<open>Spot_Outcome\<close> is \<open>impl_outcome.rs\<close>, batches of generated orders and the settlement of outcome markets;
  \<open>Outcome_Properties\<close> shows what a settlement pays and what a refused one loses.

  \<^bold>\<open>Quantities\<close> (\<open>l1/qtys\<close>).  \<open>Quantity\<close> is \<open>mod.rs\<close>: rounded quotients, ticks, sizes, and the decimal text of quantities;
  the operations of the \<open>rust_decimal\<close> crate are a record of functions.  \<open>Quantity_Text\<close> defines decimal numerals and
  their values as a reference and shows that parsing is exact; \<open>Quantity_Properties\<close> treats rounding and buckets.
  \<open>Amounts\<close> has what \<open>impl_wei.rs\<close>, \<open>impl_px.rs\<close>, \<open>impl_sz.rs\<close> and \<open>impl_ntl.rs\<close> add, and \<open>Amounts_Properties\<close> shows that
  its parsers agree with the values of the texts, that printed quantities read back, and where the margin table of \<open>impl_ntl.rs\<close> jumps.

  \<^bold>\<open>Books of all assets\<close> (\<open>l1/books.rs\<close>), a second and simpler book used beside the one above: \<open>Books\<close> has one
  book, orders by id with its levels, its index of users and a cache of the tops, and \<open>Books_All\<close> the collections of the three
  domains.  \<open>Books_Invariant\<close> states both indexes as instances of one interface, \<open>bucket_index\<close> (theory \<open>Bucket_Index\<close>), and shows that insertion,
  removal and resizing keep them exact.  \<open>Books_Match\<close> shows that matching is a walk down the sorted queue of the opposite side,
  \<open>Books_Properties\<close> what an execution does, \<open>Books_Runs\<close> that every run keeps every book sound and that the middle price is the
  average, and \<open>Books_Views\<close> that the impact price and the level-two view are those of the queue.

  \<^bold>\<open>Vaults\<close> (\<open>Vault\<close>, \<open>l1/vault/mod.rs\<close>): shares of the value of an account as doubles, and the deposits, withdrawals and
  distributions that move them.  The ledger is a trait no source implements, a record of functions; \<open>Vault_Properties\<close> shows for every
  ledger that keeps its accounts what is conserved, and that a distribution credits its fees twice.

  \<^bold>\<open>Borrowing and lending\<close> (\<open>Bole\<close>, \<open>l1/bole/user_state.rs\<close>): quantities of users in the two lanes of an asset, changed by
  attempts that are repeated with smaller amounts.  The risk hooks are a record of functions over a state of their own.
  \<open>Bole_Properties\<close> shows what an applied change moves whatever the hooks do, that it keeps the quantities of the users and the totals of the asset
  together when the hook leaves the asset entry of the update alone, that one refused by the health check does not, and which way the
  conversions round.

  \<^bold>\<open>Trading handlers\<close> (\<open>Trading\<close>, \<open>l1/exchange/impl_trading.rs\<close>), a third book with a queue of ids per price: execution of an
  order, cancellation, replacement, transfers, the cap on the actions of a user and the numbering of fills, over the state of the exchange with
  its main, alternative, per-dex and spot books.  \<open>Trading_Invariant\<close> interprets \<open>bucket_index\<close> on the queues, \<open>Trading_Match\<close> and
  \<open>Trading_Loop\<close> treat the matching of one level and the loop over the levels (which ends when the order crosses none of its own user),
  \<open>Trading_Properties\<close> what an accepted and a rejected order do, and \<open>Trading_Runs\<close> that every run of the handlers keeps the books sound and
  the action counts within the limit, and that a refused replacement puts the old order at the end of its queue.

  \<^bold>\<open>Bounds and termination\<close>.  Apart from the matching loops of \<open>Match_Engine\<close> and \<open>Trading\<close> every function is total by structural
  recursion or a measure; walks over linked levels take the number of slots as fuel, which is
  enough because a level of a well-formed book visits each slot at most once.

  \<^bold>\<open>Not modelled\<close>: file, network and process code (\<open>base\<close>, \<open>db\<close>, \<open>net_utils\<close>, \<open>node\<close> outside \<open>consensus\<close>,
  \<open>evm_rpc\<close>, \<open>info_server\<close>), hashing and signatures (third-party crates; the state machine never inspects
  signatures), the EVM beyond its transactions, and of the exchange its dispatcher and the handlers not named above, many of which compute
  in floating point.
\<close>

end
